(* ===== verification/Mesh_Prelude.thy ===== *)
theory Mesh_Prelude
  imports
    Main
    "HOL-Library.Word"
    "HOL-Library.List_Lexorder"
    "HOL-Library.Product_Lexorder"
    "HOL-Library.Char_ord"
    "HOL-Library.Multiset"
begin

text \<open>
  Shared vocabulary of the development: the machine integers of the Rust core, the saturating
  arithmetic the code uses on time stamps, the error values of fallible functions, big-endian
  wire integers, the bounds-checked cursor that every decoder keeps, and the interfaces
  the components are verified against:
  \<^item> \<open>cursor_codec\<close>, a writer and a cursor reader that agree, with the law lifted to
    counted sequences of elements;
  \<^item> \<open>prefix_code\<close>, the weaker contract of a writer whose output is only signed or hashed;
  \<^item> \<open>machine_inv\<close> and \<open>machine_mono\<close>, a step function with an invariant, or with a preorder
    its steps respect, lifted to runs;
  \<^item> \<open>keyed_machine\<close>, a table of per-key entries whose steps touch one key only, lifted to the
    statement that the history of one key never depends on the traffic of the others.
\<close>

unbundle bit_operations_syntax

section \<open>Machine integers\<close>

text \<open>
  Unsigned integers are words of their width. A \<open>usize\<close> that only measures an allocated slice is
  a \<open>nat\<close>. An \<open>i64\<close> time stamp is an \<open>int\<close>; the code computes on time stamps with the
  saturating operations below, so the width shows where the operations clamp.
\<close>

type_synonym u8 = "8 word"
type_synonym u16 = "16 word"
type_synonym u32 = "32 word"
type_synonym u64 = "64 word"
type_synonym i64 = int
type_synonym bytes = "u8 list"

text \<open>The bytes of an ASCII literal.\<close>

definition ascii :: "string \<Rightarrow> bytes" where
  "ascii s = map of_char s"

named_theorems sat_defs \<open>definitions of the saturating operations\<close>
named_theorems codec_simps \<open>reader steps on a cursor that stands before the bytes a writer produced\<close>

definition MS_PER_DAY :: i64 where
  "MS_PER_DAY = 24 * 60 * 60 * 1000"

definition i64_max :: int where
  "i64_max = 2 ^ 63 - 1"

definition i64_min :: int where
  "i64_min = - (2 ^ 63)"

definition i64_ok :: "int \<Rightarrow> bool" where
  "i64_ok x \<longleftrightarrow> i64_min \<le> x \<and> x \<le> i64_max"

definition sat_i64 :: "int \<Rightarrow> int" where
  "sat_i64 x = max i64_min (min i64_max x)"

definition i64_sub :: "i64 \<Rightarrow> i64 \<Rightarrow> i64" where
  [sat_defs]: "i64_sub a b = sat_i64 (a - b)"

definition i64_add :: "i64 \<Rightarrow> i64 \<Rightarrow> i64" where
  [sat_defs]: "i64_add a b = sat_i64 (a + b)"

definition i64_mul :: "i64 \<Rightarrow> i64 \<Rightarrow> i64" where
  [sat_defs]: "i64_mul a b = sat_i64 (a * b)"

definition word_sat_sub :: "'a::len word \<Rightarrow> 'a word \<Rightarrow> 'a word" where
  "word_sat_sub a b = (if a \<le> b then 0 else a - b)"

definition word_sat_add :: "'a::len word \<Rightarrow> 'a word \<Rightarrow> 'a word" where
  "word_sat_add a b = (if a + b < a then - 1 else a + b)"

text \<open>A byte count that adds like a \<open>u64\<close> but is kept as a number.\<close>

definition u64_max :: nat where
  "u64_max = 2 ^ 64 - 1"

definition nat_sat_add :: "nat \<Rightarrow> nat \<Rightarrow> nat" where
  "nat_sat_add a b = min (a + b) u64_max"

lemmas i64_bound_defs = i64_max_def i64_min_def
lemmas i64_defs = sat_defs sat_i64_def i64_bound_defs

lemma sat_i64_ok [simp, intro]: "i64_ok (sat_i64 x)"
  by (auto simp: i64_ok_def sat_i64_def i64_bound_defs)

lemma sat_i64_id: "i64_ok x \<Longrightarrow> sat_i64 x = x"
  by (auto simp: i64_ok_def sat_i64_def)

lemma sat_i64_mono: "x \<le> y \<Longrightarrow> sat_i64 x \<le> sat_i64 y"
  by (auto simp: sat_i64_def)

lemma sat_i64_less_iff:
  assumes "i64_ok c" "i64_min < c"
  shows "sat_i64 x < c \<longleftrightarrow> x < c"
  using assms by (auto simp: sat_i64_def i64_ok_def)

lemma sat_i64_ge_iff:
  assumes "i64_ok c" "i64_min < c"
  shows "c \<le> sat_i64 x \<longleftrightarrow> c \<le> x"
  using sat_i64_less_iff [OF assms] by (metis not_le)

lemma i64_sub_less_iff:
  assumes "i64_ok c" "i64_min < c"
  shows "i64_sub a b < c \<longleftrightarrow> a - b < c"
  using assms by (simp add: i64_sub_def sat_i64_less_iff)

lemma i64_sub_ge_iff:
  assumes "i64_ok c" "i64_min < c"
  shows "c \<le> i64_sub a b \<longleftrightarrow> c \<le> a - b"
  using assms by (simp add: i64_sub_def sat_i64_ge_iff)

section \<open>Errors\<close>

text \<open>The \<open>CoreError\<close> values the modelled functions raise. Messages keep the text of the source.\<close>

datatype core_error =
    InvalidFriendCard string
  | InvalidKeyLength nat nat
  | Store string
  | Crypto string
  | SignatureInvalid
  | Malformed string
  | UnsupportedLink
  | DeviceLinkOffer

type_synonym 'a result = "core_error + 'a"

fun and_then :: "'e + 'a \<Rightarrow> ('a \<Rightarrow> 'e + 'b) \<Rightarrow> 'e + 'b" where
  "and_then (Inl e) f = Inl e"
| "and_then (Inr x) f = f x"

lemma and_then_Inr: "and_then m f = Inr y \<longleftrightarrow> (\<exists>x. m = Inr x \<and> f x = Inr y)"
  by (cases m) auto

lemma and_then_Inl: "and_then m f = Inl e \<longleftrightarrow> m = Inl e \<or> (\<exists>x. m = Inr x \<and> f x = Inl e)"
  by (cases m) auto

fun show_nat :: "nat \<Rightarrow> string" where
  "show_nat n = (if n < 10 then [char_of (48 + n)] else show_nat (n div 10) @ [char_of (48 + n mod 10)])"

declare show_nat.simps [simp del]

section \<open>Ordered lists and filters\<close>

lemma sorted_wrt_map_filter: "sorted_wrt R (map f xs) \<Longrightarrow> sorted_wrt R (map f (filter P xs))"
  by (induction xs) auto

lemma sorted_wrt_le_last:
  "sorted_wrt (<) (map f xs) \<Longrightarrow> x \<in> set xs \<Longrightarrow> f x \<le> (f (last xs) :: 'b :: linorder)"
  by (induction xs) (auto intro: less_imp_le)

lemma list_all2_map_eq: "list_all2 R xs ys \<Longrightarrow> (\<And>x y. R x y \<Longrightarrow> f y = f x) \<Longrightarrow> map f ys = map f xs"
  by (induction rule: list_all2_induct) auto

lemma sum_list_map_filter_le:
  "sum_list (map f (filter P (filter Q xs))) \<le> sum_list (map (f :: _ \<Rightarrow> nat) (filter P xs))"
  by (induction xs) auto

section \<open>Big-endian wire integers\<close>

text \<open>\<open>be_bytes k v\<close> is \<open>to_be_bytes\<close> of a \<open>k\<close>-byte integer, \<open>from_be\<close> is \<open>from_be_bytes\<close>.\<close>

fun be_bytes :: "nat \<Rightarrow> nat \<Rightarrow> bytes" where
  "be_bytes 0 v = []"
| "be_bytes (Suc k) v = be_bytes k (v div 256) @ [word_of_nat (v mod 256)]"

definition from_be :: "bytes \<Rightarrow> nat" where
  "from_be bs = foldl (\<lambda>a b. a * 256 + unat b) 0 bs"

definition u16_bytes :: "u16 \<Rightarrow> bytes" where
  "u16_bytes w = be_bytes 2 (unat w)"

definition u32_bytes :: "u32 \<Rightarrow> bytes" where
  "u32_bytes w = be_bytes 4 (unat w)"

definition u64_bytes :: "u64 \<Rightarrow> bytes" where
  "u64_bytes w = be_bytes 8 (unat w)"

lemma unat_lt_pow: "unat (w :: 'a::len word) < 2 ^ LENGTH('a)"
  by (rule unsigned_less)

lemma unat_sat_add: "unat (word_sat_add a b :: 'a::len word) = min (unat a + unat b) (2 ^ LENGTH('a) - 1)"
proof -
  have lt: "unat a < 2 ^ LENGTH('a)" "unat b < 2 ^ LENGTH('a)" by (rule unat_lt_pow)+
  show ?thesis
  proof (cases "unat a + unat b < 2 ^ LENGTH('a)")
    case True
    then have "unat (a + b) = unat a + unat b" by (simp add: unat_word_ariths(1))
    with True show ?thesis by (simp add: word_sat_add_def word_less_nat_alt)
  next
    case False
    moreover from lt have "unat a + unat b - 2 ^ LENGTH('a) < 2 ^ LENGTH('a)" by linarith
    ultimately have "unat (a + b) = unat a + unat b - 2 ^ LENGTH('a)"
      by (simp add: unat_word_ariths(1) le_mod_geq)
    with lt False have "unat (a + b) < unat a" by linarith
    then have "a + b < a" by (simp add: word_less_nat_alt)
    then show ?thesis using False by (simp add: word_sat_add_def unsigned_minus_1_eq_mask mask_eq_exp_minus_1)
  qed
qed

lemma length_be_bytes [simp]: "length (be_bytes k v) = k"
  by (induction k arbitrary: v) auto

lemma be_bytes_numeral [simp]:
  "be_bytes (numeral n) v = be_bytes (pred_numeral n) (v div 256) @ [word_of_nat (v mod 256)]"
  by (metis numeral_eq_Suc be_bytes.simps(2))

lemma length_u_bytes [simp]:
  "length (u16_bytes a) = 2" "length (u32_bytes b) = 4" "length (u64_bytes c) = 8"
  unfolding u16_bytes_def u32_bytes_def u64_bytes_def by (rule length_be_bytes)+

lemma from_be_Nil [simp]: "from_be [] = 0"
  by (simp add: from_be_def)

lemma from_be_snoc [simp]: "from_be (bs @ [b]) = from_be bs * 256 + unat b"
  by (simp add: from_be_def)

lemma from_be_be_bytes: "v < 256 ^ k \<Longrightarrow> from_be (be_bytes k v) = v"
proof (induction k arbitrary: v)
  case (Suc k)
  then have "v div 256 < 256 ^ k"
    by (simp add: less_mult_imp_div_less mult.commute)
  moreover have "unat (word_of_nat (v mod 256) :: u8) = v mod 256"
    by (simp add: unat_of_nat)
  ultimately show ?case
    by (simp add: Suc.IH)
qed simp

lemma from_be_less: "from_be bs < 256 ^ length bs"
proof (induction bs rule: rev_induct)
  case (snoc b bs)
  have "unat b < 256" using unat_lt_pow [of b] by simp
  with snoc show ?case by (simp add: algebra_simps)
qed simp

lemma be_bytes_from_be: "be_bytes (length bs) (from_be bs) = bs"
proof (induction bs rule: rev_induct)
  case (snoc b bs)
  have "unat b < 256" using unat_lt_pow [of b] by simp
  then have "(from_be bs * 256 + unat b) div 256 = from_be bs"
    and "(from_be bs * 256 + unat b) mod 256 = unat b" by simp_all
  with snoc show ?case by simp
qed simp

lemma from_be_word:
  "from_be (u16_bytes a) = unat a" "from_be (u32_bytes b) = unat b" "from_be (u64_bytes c) = unat c"
  using unat_lt_pow [of a] unat_lt_pow [of b] unat_lt_pow [of c]
  by (simp_all add: u16_bytes_def u32_bytes_def u64_bytes_def from_be_be_bytes del: be_bytes_numeral)

lemma word_bytes_from_be:
  "length bs = 2 \<Longrightarrow> u16_bytes (word_of_nat (from_be bs)) = bs"
  "length bs = 4 \<Longrightarrow> u32_bytes (word_of_nat (from_be bs)) = bs"
  "length bs = 8 \<Longrightarrow> u64_bytes (word_of_nat (from_be bs)) = bs"
  using from_be_less [of bs] be_bytes_from_be [of bs]
  by (simp_all add: u16_bytes_def u32_bytes_def u64_bytes_def unat_of_nat del: be_bytes_numeral)

section \<open>The bounds-checked cursor\<close>

text \<open>
  Every decoder of the core reads through a private cursor: a slice and an offset, \<open>take\<close> that
  refuses to run past the end, and \<open>finish\<close> that refuses trailing bytes. The twins differ only in
  the text of their errors, which is the first argument here. The code's \<open>checked_add\<close> guards an
  offset that is at most the length of the slice plus a length read from at most 32 bits, or a constant.
\<close>

record cursor =
  cur_data :: bytes
  cur_pos :: nat

definition cursor_new :: "bytes \<Rightarrow> cursor" where
  "cursor_new bs = \<lparr>cur_data = bs, cur_pos = 0\<rparr>"

definition cursor_take :: "(nat \<Rightarrow> nat \<Rightarrow> core_error) \<Rightarrow> nat \<Rightarrow> cursor \<Rightarrow> (bytes \<times> cursor) result" where
  "cursor_take short n c =
     (let fin = cur_pos c + n in
      if fin > length (cur_data c) then Inl (short n (cur_pos c))
      else Inr (take n (drop (cur_pos c) (cur_data c)), c\<lparr>cur_pos := fin\<rparr>))"

text \<open>\<open>cur_at pre bs\<close>: the cursor that has consumed \<open>pre\<close> and stands before \<open>bs\<close>.\<close>

definition cur_at :: "bytes \<Rightarrow> bytes \<Rightarrow> cursor" where
  "cur_at pre bs = \<lparr>cur_data = pre @ bs, cur_pos = length pre\<rparr>"

definition cursor_u8 :: "(nat \<Rightarrow> nat \<Rightarrow> core_error) \<Rightarrow> cursor \<Rightarrow> (u8 \<times> cursor) result" where
  "cursor_u8 short c = and_then (cursor_take short 1 c) (\<lambda>(b, d). Inr (b ! 0, d))"

definition cursor_u16 :: "(nat \<Rightarrow> nat \<Rightarrow> core_error) \<Rightarrow> cursor \<Rightarrow> (u16 \<times> cursor) result" where
  "cursor_u16 short c = and_then (cursor_take short 2 c) (\<lambda>(b, d). Inr (word_of_nat (from_be b), d))"

definition cursor_u32 :: "(nat \<Rightarrow> nat \<Rightarrow> core_error) \<Rightarrow> cursor \<Rightarrow> (u32 \<times> cursor) result" where
  "cursor_u32 short c = and_then (cursor_take short 4 c) (\<lambda>(b, d). Inr (word_of_nat (from_be b), d))"

definition cursor_u64 :: "(nat \<Rightarrow> nat \<Rightarrow> core_error) \<Rightarrow> cursor \<Rightarrow> (u64 \<times> cursor) result" where
  "cursor_u64 short c = and_then (cursor_take short 8 c) (\<lambda>(b, d). Inr (word_of_nat (from_be b), d))"

text \<open>A byte string behind its 16-bit length.\<close>

definition cursor_bytes :: "(nat \<Rightarrow> nat \<Rightarrow> core_error) \<Rightarrow> cursor \<Rightarrow> (bytes \<times> cursor) result" where
  "cursor_bytes short c = and_then (cursor_u16 short c) (\<lambda>(len, d). cursor_take short (unat len) d)"

definition wire_bytes :: "bytes \<Rightarrow> bytes" where
  "wire_bytes bs = u16_bytes (word_of_nat (length bs)) @ bs"

text \<open>A byte string behind its 32-bit length, and a signed integer in two's complement.\<close>

definition cursor_bytes32 :: "(nat \<Rightarrow> nat \<Rightarrow> core_error) \<Rightarrow> cursor \<Rightarrow> (bytes \<times> cursor) result" where
  "cursor_bytes32 short c = and_then (cursor_u32 short c) (\<lambda>(len, d). cursor_take short (unat len) d)"

definition wire_bytes32 :: "bytes \<Rightarrow> bytes" where
  "wire_bytes32 bs = u32_bytes (word_of_nat (length bs)) @ bs"

definition i64_bytes :: "i64 \<Rightarrow> bytes" where
  "i64_bytes v = u64_bytes (word_of_int v)"

definition cursor_i64 :: "(nat \<Rightarrow> nat \<Rightarrow> core_error) \<Rightarrow> cursor \<Rightarrow> (i64 \<times> cursor) result" where
  "cursor_i64 short c = and_then (cursor_u64 short c) (\<lambda>(w, d). Inr (sint w, d))"

lemma cursor_new_at: "cursor_new bs = cur_at [] bs"
  by (simp add: cursor_new_def cur_at_def)

lemma cursor_take_at: "cursor_take short n (cur_at pre bs) =
    (if n \<le> length bs then Inr (take n bs, cur_at (pre @ take n bs) (drop n bs)) else Inl (short n (length pre)))"
  by (auto simp: cursor_take_def cur_at_def Let_def)

lemma cursor_take_put [codec_simps]:
  "length xs = n \<Longrightarrow> cursor_take short n (cur_at pre (xs @ r)) = Inr (xs, cur_at (pre @ xs) r)"
  by (simp add: cursor_take_at)

lemma cursor_take_sound:
  assumes "cursor_take short n (cur_at pre bs) = Inr (xs, d)"
  shows "length xs = n \<and> (\<exists>r. bs = xs @ r \<and> d = cur_at (pre @ xs) r)"
  using assms by (auto simp: cursor_take_at split: if_splits intro!: exI [of _ "drop n bs"])

section \<open>Interfaces\<close>

subsection \<open>Codecs over a cursor\<close>

text \<open>\<open>read_many g n\<close> is the loop \<open>for _ in 0..n\<close> that pushes what \<open>g\<close> reads.\<close>

fun read_many :: "(cursor \<Rightarrow> ('a \<times> cursor) result) \<Rightarrow> nat \<Rightarrow> cursor \<Rightarrow> ('a list \<times> cursor) result" where
  "read_many g 0 c = Inr ([], c)"
| "read_many g (Suc n) c =
     and_then (g c) (\<lambda>(x, c1). and_then (read_many g n c1) (\<lambda>(xs, c2). Inr (x # xs, c2)))"

locale cursor_codec =
  fixes put :: "'a \<Rightarrow> bytes"
    and get :: "cursor \<Rightarrow> ('a \<times> cursor) result"
    and ok :: "'a \<Rightarrow> bool"
  assumes get_put: "ok x \<Longrightarrow> get (cur_at pre (put x @ r)) = Inr (x, cur_at (pre @ put x) r)"
    and get_sound: "get (cur_at pre bs) = Inr (x, d) \<Longrightarrow>
      ok x \<and> (\<exists>r. bs = put x @ r \<and> d = cur_at (pre @ put x) r)"
begin

lemma many_put:
  "list_all ok xs \<Longrightarrow>
   read_many get (length xs) (cur_at pre (concat (map put xs) @ r)) =
     Inr (xs, cur_at (pre @ concat (map put xs)) r)"
  by (induction xs arbitrary: pre) (simp_all add: get_put)

lemma many_put_all:
  "list_all ok xs \<Longrightarrow>
   read_many get (length xs) (cur_at pre (concat (map put xs))) = Inr (xs, cur_at (pre @ concat (map put xs)) [])"
  using many_put [of xs pre "[]"] by simp

lemma many_sound:
  "read_many get n (cur_at pre bs) = Inr (xs, d) \<Longrightarrow>
   length xs = n \<and> list_all ok xs \<and>
   (\<exists>r. bs = concat (map put xs) @ r \<and> d = cur_at (pre @ concat (map put xs)) r)"
proof (induction n arbitrary: pre bs xs)
  case (Suc n)
  from Suc.prems obtain x c1 ys where
    g: "get (cur_at pre bs) = Inr (x, c1)" and m: "read_many get n c1 = Inr (ys, d)" and xs: "xs = x # ys"
    by (auto simp: and_then_Inr)
  from get_sound [OF g] obtain r where
    r: "ok x" "bs = put x @ r" "c1 = cur_at (pre @ put x) r" by blast
  from Suc.IH [OF m [unfolded r(3)]] r xs show ?case by auto
qed simp

end

text \<open>
  The weaker contract of bytes that are written to be signed or hashed and never read back: the
  writer is injective even in front of arbitrary further bytes. Every codec has it.
\<close>

locale prefix_code =
  fixes put :: "'a \<Rightarrow> bytes"
    and ok :: "'a \<Rightarrow> bool"
  assumes put_split: "ok x \<Longrightarrow> ok y \<Longrightarrow> put x @ r = put y @ s \<Longrightarrow> x = y \<and> r = s"
begin

lemma many_split:
  "length xs = length ys \<Longrightarrow> list_all ok xs \<Longrightarrow> list_all ok ys \<Longrightarrow>
   concat (map put xs) @ r = concat (map put ys) @ s \<Longrightarrow> xs = ys \<and> r = s"
proof (induction xs ys rule: list_induct2)
  case (Cons x xs y ys)
  have "x = y \<and> concat (map put xs) @ r = concat (map put ys) @ s"
    using Cons.prems by (intro put_split) simp_all
  with Cons show ?case by simp
qed simp

lemma concat_inject:
  assumes "\<And>x. ok x \<Longrightarrow> put x \<noteq> []"
  shows "list_all ok xs \<Longrightarrow> list_all ok ys \<Longrightarrow> concat (map put xs) = concat (map put ys) \<Longrightarrow> xs = ys"
proof (induction xs arbitrary: ys)
  case Nil
  then show ?case using assms by (cases ys) auto
next
  case (Cons x xs)
  then obtain y ys' where ys: "ys = y # ys'" using assms by (cases ys) auto
  have "x = y \<and> concat (map put xs) = concat (map put ys')"
    using Cons.prems by (intro put_split) (simp_all add: ys)
  with Cons ys show ?case by simp
qed

end

sublocale cursor_codec \<subseteq> code: prefix_code put ok
proof unfold_locales
  fix x y r s
  assume "ok x" "ok y" "put x @ r = put y @ s"
  with get_put [of x "[]" r] get_put [of y "[]" s] show "x = y \<and> r = s"
    by (auto simp: cur_at_def)
qed

interpretation u8_codec: cursor_codec "\<lambda>b. [b]" "cursor_u8 short" "\<lambda>_. True" for short
  by unfold_locales
    (auto simp: cursor_u8_def cursor_take_at and_then_Inr Suc_le_length_iff split: if_splits)

interpretation u16_codec: cursor_codec u16_bytes "cursor_u16 short" "\<lambda>_. True" for short
  by unfold_locales
    (auto simp: cursor_u16_def codec_simps and_then_Inr from_be_word word_bytes_from_be
      dest!: cursor_take_sound)

interpretation u32_codec: cursor_codec u32_bytes "cursor_u32 short" "\<lambda>_. True" for short
  by unfold_locales
    (auto simp: cursor_u32_def codec_simps and_then_Inr from_be_word word_bytes_from_be
      dest!: cursor_take_sound)

interpretation u64_codec: cursor_codec u64_bytes "cursor_u64 short" "\<lambda>_. True" for short
  by unfold_locales
    (auto simp: cursor_u64_def codec_simps and_then_Inr from_be_word word_bytes_from_be
      dest!: cursor_take_sound)

lemma uint_frame_eq:
  "u64_bytes a @ r = u64_bytes b @ s \<longleftrightarrow> a = b \<and> r = s"
  "u32_bytes c @ r = u32_bytes d @ s \<longleftrightarrow> c = d \<and> r = s"
  by (rule iffI; (rule u64_codec.code.put_split u32_codec.code.put_split)?; simp)+

lemma u64_count: "m < 2 ^ 64 \<Longrightarrow> n < 2 ^ 64 \<Longrightarrow> word_of_nat m = (word_of_nat n :: u64) \<longleftrightarrow> m = n"
proof
  assume "m < 2 ^ 64" "n < 2 ^ 64" "word_of_nat m = (word_of_nat n :: u64)"
  moreover have "unat (word_of_nat k :: u64) = k" if "k < 2 ^ 64" for k
    using that by (simp add: unat_of_nat)
  ultimately show "m = n" by metis
qed simp

text \<open>A byte string behind its length is a codec as soon as the length field is one.\<close>

lemma length_prefixed_codec:
  fixes lput :: "'l::len word \<Rightarrow> bytes"
  assumes "cursor_codec lput lget (\<lambda>_. True)"
  shows "cursor_codec (\<lambda>bs. lput (word_of_nat (length bs)) @ bs)
    (\<lambda>c. and_then (lget c) (\<lambda>(len, d). cursor_take short (unat len) d)) (\<lambda>bs. length bs < 2 ^ LENGTH('l))"
proof unfold_locales
  fix x pre r
  assume "length (x :: bytes) < 2 ^ LENGTH('l)"
  then have "unat (word_of_nat (length x) :: 'l word) = length x" by (simp add: unat_of_nat)
  then show "and_then (lget (cur_at pre ((lput (word_of_nat (length x)) @ x) @ r)))
      (\<lambda>(len, d). cursor_take short (unat len) d) = Inr (x, cur_at (pre @ lput (word_of_nat (length x)) @ x) r)"
    by (simp add: cursor_codec.get_put [OF assms] codec_simps)
next
  fix pre bs x d
  assume "and_then (lget (cur_at pre bs)) (\<lambda>(len, d). cursor_take short (unat len) d) = Inr (x, d)"
  then obtain len c where u: "lget (cur_at pre bs) = Inr (len, c)"
    and t: "cursor_take short (unat len) c = Inr (x, d)"
    by (auto simp: and_then_Inr)
  from cursor_codec.get_sound [OF assms u] obtain r where r: "bs = lput len @ r" "c = cur_at (pre @ lput len) r"
    by blast
  from cursor_take_sound [OF t [unfolded r(2)]] obtain q where
    q: "length x = unat len" "r = x @ q" "d = cur_at ((pre @ lput len) @ x) q" by blast
  have "word_of_nat (length x) = len" by (simp add: q(1))
  moreover have "length x < 2 ^ LENGTH('l)" using unat_lt_pow [of len] q(1) by simp
  ultimately show "length x < 2 ^ LENGTH('l) \<and>
      (\<exists>r. bs = (lput (word_of_nat (length x)) @ x) @ r \<and> d = cur_at (pre @ lput (word_of_nat (length x)) @ x) r)"
    using r q by simp
qed

interpretation bytes_codec: cursor_codec wire_bytes "cursor_bytes short" "\<lambda>b. length b \<le> 65535" for short
  using length_prefixed_codec [OF u16_codec.cursor_codec_axioms, of short]
  by (simp add: wire_bytes_def [abs_def] cursor_bytes_def [abs_def] less_eq_Suc_le [symmetric] less_Suc_eq_le [symmetric])

interpretation bytes32_codec: cursor_codec wire_bytes32 "cursor_bytes32 short" "\<lambda>b. length b \<le> 4294967295" for short
  using length_prefixed_codec [OF u32_codec.cursor_codec_axioms, of short]
  by (simp add: wire_bytes32_def [abs_def] cursor_bytes32_def [abs_def] less_Suc_eq_le [symmetric])

lemma sint_i64: "i64_ok v \<Longrightarrow> sint (word_of_int v :: u64) = v"
  by (simp add: i64_ok_def i64_bound_defs signed_of_int signed_take_bit_int_eq_self)

lemma i64_ok_sint: "i64_ok (sint (w :: u64))"
  using sint_ge [of w] sint_lt [of w] by (simp add: i64_ok_def i64_bound_defs)

interpretation i64_codec: cursor_codec i64_bytes "cursor_i64 short" i64_ok for short
  by unfold_locales
    (auto simp: cursor_i64_def i64_bytes_def u64_codec.get_put and_then_Inr sint_i64 i64_ok_sint
      dest!: u64_codec.get_sound)

lemma cursor_u8_Cons [codec_simps]: "cursor_u8 short (cur_at pre (b # r)) = Inr (b, cur_at (pre @ [b]) r)"
  using u8_codec.get_put [of short pre b r] by simp

lemmas wire_put [codec_simps] =
  u8_codec.get_put u16_codec.get_put u32_codec.get_put u64_codec.get_put bytes_codec.get_put
  bytes32_codec.get_put i64_codec.get_put
lemmas wire_sound =
  u8_codec.get_sound u16_codec.get_sound u32_codec.get_sound u64_codec.get_sound bytes_codec.get_sound
  bytes32_codec.get_sound i64_codec.get_sound

subsection \<open>Machines with an invariant\<close>

locale machine_inv =
  fixes step :: "'s \<Rightarrow> 'e \<Rightarrow> 's"
    and start :: 's
    and inv :: "'s \<Rightarrow> bool"
  assumes inv_start: "inv start"
    and inv_step: "inv s \<Longrightarrow> inv (step s e)"
begin

lemma run_inv: "inv s \<Longrightarrow> inv (foldl step s es)"
  by (induction es arbitrary: s) (simp_all add: inv_step)

lemma reachable_inv: "inv (foldl step start es)"
  by (rule run_inv [OF inv_start])

end

text \<open>The same for a preorder between the states before and after a step.\<close>

locale machine_mono =
  fixes step :: "'s \<Rightarrow> 'e \<Rightarrow> 's"
    and inv :: "'s \<Rightarrow> bool"
    and rel :: "'s \<Rightarrow> 's \<Rightarrow> bool"
  assumes keep_inv: "inv s \<Longrightarrow> inv (step s e)"
    and rel_refl: "rel s s"
    and rel_trans: "rel s t \<Longrightarrow> rel t u \<Longrightarrow> rel s u"
    and rel_step: "inv s \<Longrightarrow> rel s (step s e)"
begin

lemma run_rel: "inv s \<Longrightarrow> rel s (foldl step s es)"
proof (induction es arbitrary: s)
  case (Cons e es)
  then have "rel (step s e) (foldl step (step s e) es)" by (intro Cons.IH keep_inv)
  with Cons.prems show ?case by (auto intro: rel_trans rel_step)
qed (simp add: rel_refl)

end

subsection \<open>Tables of independent entries\<close>

locale keyed_machine =
  fixes step :: "'s \<Rightarrow> 'k \<times> 'e \<Rightarrow> 's"
    and view :: "'s \<Rightarrow> 'k \<Rightarrow> 'v"
  assumes step_other: "k \<noteq> j \<Longrightarrow> view (step s (k, e)) j = view s j"
    and step_own: "view s k = view t k \<Longrightarrow> view (step s (k, e)) k = view (step t (k, e)) k"
begin

lemma run_projection:
  "view s j = view t j \<Longrightarrow>
   view (foldl step s es) j = view (foldl step t (filter (\<lambda>(k, _). k = j) es)) j"
proof (induction es arbitrary: s t)
  case (Cons ke es)
  obtain k e where ke: "ke = (k, e)" by (cases ke)
  show ?case
  proof (cases "k = j")
    case True
    with Cons.prems have "view (step s ke) j = view (step t ke) j"
      unfolding ke by (blast intro: step_own)
    from Cons.IH [OF this] show ?thesis by (simp add: ke True)
  next
    case False
    then have "view (step s ke) j = view t j"
      using Cons.prems step_other [of k j s e] unfolding ke by simp
    from Cons.IH [OF this] show ?thesis by (simp add: ke False)
  qed
qed simp

end

lemma distinct_remdups_adj_sorted: "sorted (xs :: 'a :: linorder list) \<Longrightarrow> distinct (remdups_adj xs)"
  by (induction xs rule: remdups_adj.induct) (auto split: if_splits)

end
