(* ===== verification/Seen_Ids.thy ===== *)
theory Seen_Ids
  imports Mesh_Prelude
begin

text \<open>
  The gossip dedupe set, \<open>core/src/gossip.rs\<close>: a bounded exact set of envelope ids, a hash set for
  membership beside a queue that records insertion order for FIFO eviction. Both the receive path
  and the authoring path share one instance behind a mutex, so an execution is a sequence of whole
  operations.
  The lemmas show that set and queue agree in every reachable state and never exceed the
  capacity, that the test-and-set answers "new" exactly once per id while the ids fit, and how
  long a recorded id is guaranteed to be remembered.
\<close>

section \<open>State and operations\<close>

definition DEFAULT_CAPACITY :: nat where
  "DEFAULT_CAPACITY = 50000"

record seen_ids =
  seen :: "bytes set"
  order :: "bytes list"
  capacity :: nat

definition seen_inner_new :: "nat \<Rightarrow> seen_ids" where
  "seen_inner_new cap = \<lparr>seen = {}, order = [], capacity = max cap 1\<rparr>"

text \<open>The loop \<open>while order.len() > capacity\<close>, popping the front and forgetting it.\<close>

fun seen_evict :: "nat \<Rightarrow> bytes set \<Rightarrow> bytes list \<Rightarrow> bytes set \<times> bytes list" where
  "seen_evict cap sn [] = (sn, [])"
| "seen_evict cap sn (x # xs) =
     (if length (x # xs) > cap then seen_evict cap (sn - {x}) xs else (sn, x # xs))"

definition seen_insert :: "seen_ids \<Rightarrow> bytes \<Rightarrow> seen_ids" where
  "seen_insert s msg_id =
     (let (sn, ord) = seen_evict (capacity s) (insert msg_id (seen s)) (order s @ [msg_id])
      in s\<lparr>seen := sn, order := ord\<rparr>)"

definition seen_ids_new :: seen_ids where
  "seen_ids_new = seen_inner_new DEFAULT_CAPACITY"

definition seen_contains :: "seen_ids \<Rightarrow> bytes \<Rightarrow> bool" where
  "seen_contains s msg_id \<longleftrightarrow> msg_id \<in> seen s"

definition check_and_record :: "seen_ids \<Rightarrow> bytes \<Rightarrow> bool \<times> seen_ids" where
  "check_and_record s msg_id =
     (if msg_id \<in> seen s then (False, s) else (True, seen_insert s msg_id))"

definition seen_record :: "seen_ids \<Rightarrow> bytes \<Rightarrow> seen_ids" where
  "seen_record s msg_id = (if msg_id \<notin> seen s then seen_insert s msg_id else s)"

definition seen_len :: "seen_ids \<Rightarrow> u64" where
  "seen_len s = word_of_nat (length (order s))"

definition seen_is_empty :: "seen_ids \<Rightarrow> bool" where
  "seen_is_empty s \<longleftrightarrow> order s = []"

datatype seen_op = CheckAndRecord bytes | Record bytes | Contains bytes

fun seen_step :: "seen_ids \<Rightarrow> seen_op \<Rightarrow> seen_ids" where
  "seen_step s (CheckAndRecord m) = snd (check_and_record s m)"
| "seen_step s (Record m) = seen_record s m"
| "seen_step s (Contains m) = s"

fun check_all :: "seen_ids \<Rightarrow> bytes list \<Rightarrow> bool list \<times> seen_ids" where
  "check_all s [] = ([], s)"
| "check_all s (m # ms) =
     (let (new, s') = check_and_record s m; (news, s'') = check_all s' ms in (new # news, s''))"

section \<open>The FIFO window\<close>

definition seen_inv :: "seen_ids \<Rightarrow> bool" where
  "seen_inv s \<longleftrightarrow>
     seen s = set (order s) \<and> distinct (order s) \<and> length (order s) \<le> capacity s \<and> 1 \<le> capacity s"

lemma seen_evict_drop:
  "distinct xs \<Longrightarrow>
   seen_evict cap (set xs) xs = (set (drop (length xs - cap) xs), drop (length xs - cap) xs)"
proof (induction xs)
  case (Cons x xs)
  then have "set (x # xs) - {x} = set xs" by auto
  with Cons show ?case by (simp add: Suc_diff_le)
qed simp

lemma seen_insert_window:
  assumes "seen_inv s" "m \<notin> seen s"
  shows "seen_insert s m = s\<lparr>seen := set (drop (Suc (length (order s)) - capacity s) (order s @ [m])),
                             order := drop (Suc (length (order s)) - capacity s) (order s @ [m])\<rparr>"
proof -
  have "insert m (seen s) = set (order s @ [m])" "distinct (order s @ [m])"
    using assms by (auto simp: seen_inv_def)
  then show ?thesis
    using seen_evict_drop [of "order s @ [m]" "capacity s"] by (simp add: seen_insert_def)
qed

lemma seen_insert_inv: "seen_inv s \<Longrightarrow> m \<notin> seen s \<Longrightarrow> seen_inv (seen_insert s m)"
  using seen_insert_window [of s m] by (auto simp: seen_inv_def dest: in_set_dropD)

lemma seen_record_inv: "seen_inv s \<Longrightarrow> seen_inv (seen_record s m)"
  by (simp add: seen_record_def seen_insert_inv)

lemma check_and_record_snd: "snd (check_and_record s m) = seen_record s m"
  by (simp add: check_and_record_def seen_record_def)

lemma capacity_seen_record [simp]: "capacity (seen_record s m) = capacity s"
  by (simp add: seen_record_def seen_insert_def split: prod.splits)

interpretation seen: machine_inv seen_step "seen_inner_new cap" seen_inv for cap
proof
  show "seen_inv (seen_inner_new cap)" by (simp add: seen_inv_def seen_inner_new_def)
  show "seen_inv (seen_step s e)" if "seen_inv s" for s e
    using that by (cases e) (simp_all add: seen_record_inv check_and_record_snd)
qed

text \<open>
  Invariant: after any sequence of operations on a dedupe set of any requested capacity,
  the hash set and the eviction queue hold exactly the same ids, the queue has no duplicates, and
  the number of retained ids never exceeds the (at least one) capacity.
\<close>
theorem seen_ids_reachable:
  "let s = foldl seen_step (seen_inner_new cap) ops in
   seen s = set (order s) \<and> distinct (order s) \<and> length (order s) \<le> max cap 1"
proof -
  have "capacity (foldl seen_step s ops) = capacity s" for s
  proof (induction ops arbitrary: s)
    case (Cons e ops)
    have "capacity (seen_step s e) = capacity s" by (cases e) (simp_all add: check_and_record_snd)
    with Cons show ?case by simp
  qed simp
  then have "capacity (foldl seen_step (seen_inner_new cap) ops) = max cap 1"
    by (simp add: seen_inner_new_def)
  with seen.reachable_inv [of cap ops] show ?thesis by (simp add: seen_inv_def Let_def)
qed

section \<open>Exactly-once answers\<close>

lemma seen_record_fits:
  assumes "seen_inv s" "card (insert m (seen s)) \<le> capacity s"
  shows "seen (seen_record s m) = insert m (seen s)"
proof (cases "m \<in> seen s")
  case True
  then show ?thesis by (auto simp: seen_record_def)
next
  case False
  with assms have "Suc (length (order s)) \<le> capacity s"
    by (simp add: seen_inv_def distinct_card)
  with False assms show ?thesis
    by (simp add: seen_record_def seen_insert_window) (auto simp: seen_inv_def)
qed

lemma check_all_fits:
  assumes "seen_inv s" "card (seen s \<union> set ms) \<le> capacity s"
  shows "fst (check_all s ms) = map (\<lambda>i. ms ! i \<notin> seen s \<union> set (take i ms)) [0..<length ms]"
  using assms
proof (induction ms arbitrary: s)
  case (Cons m ms)
  have fin: "finite (seen s)" using Cons.prems by (simp add: seen_inv_def)
  have "card (insert m (seen s)) \<le> card (seen s \<union> set (m # ms))"
    using fin by (intro card_mono) auto
  then have seen': "seen (seen_record s m) = insert m (seen s)"
    using Cons.prems by (intro seen_record_fits) auto
  have IH: "fst (check_all (seen_record s m) ms) =
      map (\<lambda>i. ms ! i \<notin> insert m (seen s) \<union> set (take i ms)) [0..<length ms]"
    using Cons.prems seen' by (subst Cons.IH) (auto simp: seen_record_inv)
  have "fst (check_all s (m # ms)) = (m \<notin> seen s) # fst (check_all (seen_record s m) ms)"
    by (simp add: split_def Let_def check_and_record_snd) (simp add: check_and_record_def)
  also have "\<dots> = map (\<lambda>i. (m # ms) ! i \<notin> seen s \<union> set (take i (m # ms))) [0..<length (m # ms)]"
    unfolding IH by (simp add: upt_conv_Cons map_Suc_upt [symmetric] del: upt_Suc) auto
  finally show ?case .
qed simp

text \<open>
  Flood dedupe: as long as the distinct ids presented fit the capacity, the test-and-set
  answers "new" for the first presentation of each id and "duplicate" for every later one,
  wherever the copies fall in the sequence, so an envelope is forwarded exactly once.
\<close>
theorem check_and_record_exactly_once:
  assumes "card (set ms) \<le> max cap 1"
  shows "fst (check_all (seen_inner_new cap) ms) = map (\<lambda>i. ms ! i \<notin> set (take i ms)) [0..<length ms]"
  using check_all_fits [of "seen_inner_new cap" ms] assms
  by (simp add: seen_inv_def seen_inner_new_def)

theorem check_and_record_exactly_once_witness:
  "fst (check_all (seen_inner_new 2) [[1], [2], [1], [2], [1]]) = [True, True, False, False, False]"
proof -
  have "card (set [[1], [2], [1], [2], [1 :: u8]]) \<le> max 2 1"
    by (simp add: insert_commute)
  from check_and_record_exactly_once [OF this] show ?thesis by (simp add: upt_rec)
qed

section \<open>How long an id is remembered\<close>

lemma seen_insert_keeps:
  assumes inv: "seen_inv s" "m \<notin> seen s" and x: "order s = pre @ x # post"
    and room: "Suc (length post) < capacity s"
  shows "\<exists>pre'. order (seen_insert s m) = pre' @ x # (post @ [m])"
proof -
  let ?d = "Suc (length (order s)) - capacity s"
  have "?d \<le> length pre" using room x by simp
  then have "drop ?d (order s @ [m]) = drop ?d pre @ x # (post @ [m])" by (simp add: x)
  then show ?thesis using seen_insert_window [OF inv] by auto
qed

lemma seen_record_keeps:
  assumes "seen_inv s" "order s = pre @ x # post" "length post + n < capacity s" "0 < n"
  shows "\<exists>pre' post'. order (seen_record s m) = pre' @ x # post' \<and> length post' + (n - 1) < capacity s"
proof (cases "m \<in> seen s")
  case True
  with assms show ?thesis by (intro exI [of _ pre] exI [of _ post]) (simp add: seen_record_def)
next
  case False
  with assms seen_insert_keeps [OF assms(1) False assms(2)] show ?thesis
    by (fastforce simp: seen_record_def)
qed

lemma seen_records_keep:
  assumes "seen_inv s" "order s = pre @ x # post" "length post + length ms < capacity s"
  shows "x \<in> seen (foldl seen_record s ms)"
  using assms
proof (induction ms arbitrary: s pre post)
  case Nil
  then show ?case by (auto simp: seen_inv_def)
next
  case (Cons m ms)
  from seen_record_keeps [OF Cons.prems(1,2), of "Suc (length ms)" m] Cons.prems(3)
  obtain pre' post' where "order (seen_record s m) = pre' @ x # post'" "length post' + length ms < capacity s"
    by auto
  with Cons.IH [OF seen_record_inv [OF Cons.prems(1)]] show ?case by simp
qed

text \<open>
  Retention: an id that was new when it was recorded is still recognised as seen after
  fewer than capacity further records, of any ids; only the capacity-th newer id can evict it.
\<close>
theorem recorded_id_retained:
  assumes "seen_inv s" "\<not> seen_contains s x" "length ms < capacity s"
  shows "seen_contains (foldl seen_record (seen_record s x) ms) x"
proof -
  have "order (seen_insert s x) = drop (Suc (length (order s)) - capacity s) (order s) @ x # []"
    using seen_insert_window [of s x] assms by (simp add: seen_contains_def seen_inv_def)
  with assms seen_records_keep [of "seen_record s x" _ x "[]" ms] show ?thesis
    by (simp add: seen_contains_def seen_record_def seen_insert_inv)
      (metis capacity_seen_record seen_record_def)
qed

theorem recorded_id_retained_witness:
  "seen_contains (foldl seen_record (seen_record (seen_inner_new 3) [7]) [[1], [2]]) [7]"
  by (rule recorded_id_retained) (simp_all add: seen_inv_def seen_inner_new_def seen_contains_def)

end
