(* ===== verification/Ble_Framing.thy ===== *)
theory Ble_Framing
  imports Mesh_Prelude
begin

text \<open>
  BLE link-layer fragmentation, \<open>core/src/framing.rs\<close>: \<open>fragment_ble_frame\<close> splits an application
  frame into fragments with a four-byte header (\<open>index16 | total16\<close>), and the stateful
  \<open>BleFrameReassembler\<close> puts them together again, dropping the partial frame on any input it did
  not expect. The limits come from \<open>core/src/limits.rs\<close>.
  The lemmas show that the two are inverse to each other for every frame and MTU that is not
  refused, whatever the reassembler saw before; that a frame is only ever produced from an
  unbroken run of its own fragments; and that the buffer is bounded on every input.
\<close>

section \<open>Limits and constants\<close>

definition MAX_ENVELOPE_SEALED_BYTES :: nat where
  "MAX_ENVELOPE_SEALED_BYTES = 512 * 1024"

definition ENVELOPE_FRAME_OVERHEAD :: nat where
  "ENVELOPE_FRAME_OVERHEAD = 1 + 16 + 1 + 8 + 8"

definition MAX_P2P_FRAME_BYTES :: nat where
  "MAX_P2P_FRAME_BYTES = ENVELOPE_FRAME_OVERHEAD + MAX_ENVELOPE_SEALED_BYTES"

definition FRAGMENT_HEADER_SIZE :: nat where
  "FRAGMENT_HEADER_SIZE = 4"

definition MAX_ATT_VALUE_LEN :: nat where
  "MAX_ATT_VALUE_LEN = 512"

definition MAX_FRAGMENTS :: nat where
  "MAX_FRAGMENTS = 65535"

definition ble_att_header_overhead :: u16 where
  "ble_att_header_overhead = 3"

definition ble_default_att_mtu :: u16 where
  "ble_default_att_mtu = 23"

definition ble_max_att_value_len :: u16 where
  "ble_max_att_value_len = word_of_nat MAX_ATT_VALUE_LEN"

lemmas framing_limits = MAX_ENVELOPE_SEALED_BYTES_def ENVELOPE_FRAME_OVERHEAD_def
  MAX_P2P_FRAME_BYTES_def FRAGMENT_HEADER_SIZE_def MAX_ATT_VALUE_LEN_def MAX_FRAGMENTS_def

section \<open>Fragmentation\<close>

text \<open>Rust's \<open>usize::div_ceil\<close>.\<close>

definition div_ceil :: "nat \<Rightarrow> nat \<Rightarrow> nat" where
  "div_ceil a b = (if a mod b > 0 then a div b + 1 else a div b)"

text \<open>One iteration of the fragment loop.\<close>

definition fragment_at :: "bytes \<Rightarrow> nat \<Rightarrow> nat \<Rightarrow> nat \<Rightarrow> bytes" where
  "fragment_at frame chunk_size tot index =
     (let start = index * chunk_size;
          fin = min (start + chunk_size) (length frame)
      in u16_bytes (word_of_nat index) @ u16_bytes (word_of_nat tot) @
         take (fin - start) (drop start frame))"

definition fragment_chunk_size :: "u32 \<Rightarrow> nat" where
  "fragment_chunk_size mtu_payload_size =
     max (min (unat mtu_payload_size) MAX_ATT_VALUE_LEN - FRAGMENT_HEADER_SIZE) 1"

definition fragment_ble_frame :: "bytes \<Rightarrow> u32 \<Rightarrow> bytes list option" where
  "fragment_ble_frame frame mtu_payload_size =
     (if length frame > MAX_P2P_FRAME_BYTES then None
      else let chunk_size = fragment_chunk_size mtu_payload_size;
               tot = max (div_ceil (length frame) chunk_size) 1
           in if tot > MAX_FRAGMENTS then None
              else Some (map (fragment_at frame chunk_size tot) [0..<tot]))"

section \<open>Reassembly\<close>

record reassembly_state =
  ra_buffer :: "bytes option"
  expected_total :: u16
  next_index :: u16

definition reassembly_default :: reassembly_state where
  "reassembly_default = \<lparr>ra_buffer = None, expected_total = 0, next_index = 0\<rparr>"

text \<open>\<open>u16::from_be_bytes\<close> of the two bytes at an offset; the caller has checked the length.\<close>

definition frag_index :: "bytes \<Rightarrow> u16" where
  "frag_index fragment = word_of_nat (from_be (take 2 fragment))"

definition frag_total :: "bytes \<Rightarrow> u16" where
  "frag_total fragment = word_of_nat (from_be (take 2 (drop 2 fragment)))"

definition frag_payload :: "bytes \<Rightarrow> bytes" where
  "frag_payload fragment = drop FRAGMENT_HEADER_SIZE fragment"

definition accept_fragment :: "reassembly_state \<Rightarrow> bytes \<Rightarrow> bytes option \<times> reassembly_state" where
  "accept_fragment state fragment =
     (if length fragment < FRAGMENT_HEADER_SIZE \<or> length fragment > MAX_ATT_VALUE_LEN
      then (None, reassembly_default)
      else
        let index = frag_index fragment; tot = frag_total fragment in
        if tot = 0 \<or> tot \<le> index then (None, reassembly_default)
        else
          let state1 = (if index = 0
                        then \<lparr>ra_buffer = Some [], expected_total = tot, next_index = 0\<rparr>
                        else state)
          in case ra_buffer state1 of
               None \<Rightarrow> (None, reassembly_default)
             | Some buffer \<Rightarrow>
                 if index \<noteq> next_index state1 \<or> tot \<noteq> expected_total state1
                 then (None, reassembly_default)
                 else if length buffer + length (frag_payload fragment) > MAX_P2P_FRAME_BYTES
                 then (None, reassembly_default)
                 else
                   let buffer' = buffer @ frag_payload fragment;
                       state2 = state1\<lparr>ra_buffer := Some buffer', next_index := next_index state1 + 1\<rparr>
                   in if next_index state2 < expected_total state2 then (None, state2)
                      else (Some buffer', state2\<lparr>ra_buffer := None\<rparr>))"

text \<open>A link's receive path: fragments in arrival order, with the answer to each.\<close>

fun accept_all :: "reassembly_state \<Rightarrow> bytes list \<Rightarrow> bytes option list \<times> reassembly_state" where
  "accept_all state [] = ([], state)"
| "accept_all state (f # fs) =
     (let (out, state') = accept_fragment state f; (outs, state'') = accept_all state' fs
      in (out # outs, state''))"

section \<open>Fragment arithmetic\<close>

lemma chunk_size_bounds: "1 \<le> fragment_chunk_size m" "fragment_chunk_size m \<le> 508"
  by (auto simp: fragment_chunk_size_def framing_limits)

lemma div_ceil_le: "0 < b \<Longrightarrow> a \<le> div_ceil a b * b"
proof -
  assume "0 < b"
  then have "a mod b < b" by simp
  moreover have "a = a div b * b + a mod b" by simp
  ultimately have "a \<le> (a div b + 1) * b" unfolding distrib_right mult_1 by linarith
  then show ?thesis by (auto simp: div_ceil_def)
qed

lemma div_ceil_gt:
  assumes "i < div_ceil a b"
  shows "i * b < a"
proof (cases "a mod b > 0")
  case True
  with assms have "i * b \<le> a div b * b" by (simp add: div_ceil_def)
  also have "\<dots> < a div b * b + a mod b" using True by linarith
  finally show ?thesis by simp
next
  case False
  with assms have "i < a div b" by (simp add: div_ceil_def)
  then show ?thesis
    by (metis div_le_mono not_le div_mult_self_is_m le_neq_trans less_nat_zero_code
        linorder_not_less gr0I mult_is_0 div_by_0)
qed

text \<open>The payloads of the fragments, in order, are the frame.\<close>

definition frame_chunk :: "bytes \<Rightarrow> nat \<Rightarrow> nat \<Rightarrow> bytes" where
  "frame_chunk frame k i = take (min (i * k + k) (length frame) - i * k) (drop (i * k) frame)"

lemma frame_chunk_eq: "frame_chunk frame k i = take k (drop (i * k) frame)"
  by (simp add: frame_chunk_def min_def)

lemma concat_frame_chunks: "concat (map (frame_chunk frame k) [0..<n]) = take (n * k) frame"
proof (induction n)
  case (Suc n)
  then show ?case
    by (simp add: frame_chunk_eq add.commute [of k] take_add)
qed simp

lemma frag_fields:
  assumes "i < 65536" "tot < 65536"
  shows "frag_index (fragment_at frame k tot i) = word_of_nat i"
    and "frag_total (fragment_at frame k tot i) = word_of_nat tot"
    and "frag_payload (fragment_at frame k tot i) = frame_chunk frame k i"
    and "length (fragment_at frame k tot i) = 4 + length (frame_chunk frame k i)"
  by (simp_all add: frag_index_def frag_total_def frag_payload_def fragment_at_def
      frame_chunk_def FRAGMENT_HEADER_SIZE_def from_be_word Let_def)

lemma unat_of_nat_u16 [simp]: "i < 65536 \<Longrightarrow> unat (word_of_nat i :: u16) = i"
  by (simp add: unat_of_nat)

lemmas u16_nat_simps = word_less_nat_alt word_le_nat_alt word_unat_eq_iff

section \<open>Every fragmented frame reassembles\<close>

text \<open>The state between two fragments of one frame, and the single step.\<close>

definition mid_state :: "bytes \<Rightarrow> nat \<Rightarrow> nat \<Rightarrow> nat \<Rightarrow> reassembly_state" where
  "mid_state frame k tot i =
     \<lparr>ra_buffer = Some (take (i * k) frame), expected_total = word_of_nat tot,
      next_index = word_of_nat i\<rparr>"

lemma accept_own_fragment:
  assumes lim: "length frame \<le> MAX_P2P_FRAME_BYTES" and k: "1 \<le> k" "k \<le> 508"
    and i: "i < tot" and tot: "tot \<le> 65535" and s: "i = 0 \<or> s = mid_state frame k tot i"
  shows "accept_fragment s (fragment_at frame k tot i) =
    (if Suc i < tot then (None, mid_state frame k tot (Suc i))
     else (Some (take (tot * k) frame), (mid_state frame k tot tot)\<lparr>ra_buffer := None\<rparr>))"
proof -
  let ?f = "fragment_at frame k tot i"
  note fields = frag_fields [of i tot frame k]
  have len: "length (frame_chunk frame k i) \<le> 508"
    using k by (simp add: frame_chunk_eq)
  have buf: "take (i * k) frame @ frame_chunk frame k i = take (Suc i * k) frame"
    by (simp add: frame_chunk_eq add.commute [of k] take_add)
  then have "length (take (i * k) frame) + length (frame_chunk frame k i) = length (take (Suc i * k) frame)"
    by (metis length_append)
  also have "\<dots> \<le> MAX_P2P_FRAME_BYTES"
    using lim by simp
  finally have small: "length (take (i * k) frame) + length (frame_chunk frame k i) \<le> MAX_P2P_FRAME_BYTES" .
  have f: "frag_index ?f = word_of_nat i" "frag_total ?f = word_of_nat tot"
    "frag_payload ?f = frame_chunk frame k i" "length ?f = 4 + length (frame_chunk frame k i)"
    using i tot by (simp_all add: fields)
  have hdr: "\<not> (length ?f < FRAGMENT_HEADER_SIZE \<or> length ?f > MAX_ATT_VALUE_LEN)"
    using f(4) len by (simp add: framing_limits)
  have ord: "\<not> ((word_of_nat tot :: u16) = 0 \<or> (word_of_nat tot :: u16) \<le> word_of_nat i)"
    using i tot by (simp add: u16_nat_simps)
  have st: "(if (word_of_nat i :: u16) = 0
             then \<lparr>ra_buffer = Some [], expected_total = word_of_nat tot, next_index = 0\<rparr>
             else s) = mid_state frame k tot i"
    using s i tot by (auto simp: mid_state_def u16_nat_simps)
  have nxt: "(word_of_nat i + 1 :: u16) = word_of_nat (Suc i)" by simp
  have lt: "(word_of_nat (Suc i) :: u16) < word_of_nat tot \<longleftrightarrow> Suc i < tot"
    using i tot by (simp add: u16_nat_simps del: of_nat_Suc)
  show ?thesis
  proof (cases "Suc i < tot")
    case True
    then show ?thesis
      unfolding accept_fragment_def Let_def f(1-3) if_not_P [OF hdr] if_not_P [OF ord] st
      using small lt by (simp add: mid_state_def buf nxt del: of_nat_Suc)
  next
    case False
    with i have "tot = Suc i" by simp
    then show ?thesis
      unfolding accept_fragment_def Let_def f(1-3) if_not_P [OF hdr] if_not_P [OF ord] st
      using small lt by (simp add: mid_state_def buf nxt del: of_nat_Suc)
  qed
qed

lemma accept_all_from:
  assumes "length frame \<le> MAX_P2P_FRAME_BYTES" "1 \<le> k" "k \<le> 508" "i < tot" "tot \<le> 65535"
    and "i = 0 \<or> s = mid_state frame k tot i"
  shows "accept_all s (map (fragment_at frame k tot) [i..<tot]) =
    (replicate (tot - Suc i) None @ [Some (take (tot * k) frame)],
     (mid_state frame k tot tot)\<lparr>ra_buffer := None\<rparr>)"
  using assms(4,6)
proof (induction "tot - Suc i" arbitrary: i s)
  case 0
  with assms have "[i..<tot] = [i]" by (simp add: upt_rec)
  with 0 assms show ?case
    by (simp add: accept_own_fragment)
next
  case (Suc d)
  then have lt: "Suc i < tot" by simp
  then have "[i..<tot] = i # [Suc i..<tot]" by (simp add: upt_rec)
  moreover have "tot - Suc i = Suc (tot - Suc (Suc i))" using lt by simp
  ultimately show ?case
    using Suc lt assms by (simp add: accept_own_fragment)
qed

text \<open>
  Claim C40. Round trip: whenever \<open>fragment_ble_frame\<close> accepts a frame, feeding its fragments in
  order to a reassembler in any state (fresh, or holding a partial frame of earlier traffic)
  answers nothing until the last fragment and the original frame on the last one, and leaves the
  reassembler without a buffered frame.
\<close>
theorem fragment_reassemble_roundtrip:
  assumes "fragment_ble_frame frame mtu = Some frags"
  shows "frags \<noteq> [] \<and>
    fst (accept_all s frags) = replicate (length frags - 1) None @ [Some frame] \<and>
    ra_buffer (snd (accept_all s frags)) = None"
proof -
  let ?k = "fragment_chunk_size mtu"
  let ?tot = "max (div_ceil (length frame) ?k) 1"
  from assms have lim: "length frame \<le> MAX_P2P_FRAME_BYTES" and tot: "?tot \<le> 65535"
    and frags: "frags = map (fragment_at frame ?k ?tot) [0..<?tot]"
    by (auto simp: fragment_ble_frame_def Let_def MAX_FRAGMENTS_def split: if_splits)
  have "length frame \<le> div_ceil (length frame) ?k * ?k"
    using chunk_size_bounds [of mtu] by (intro div_ceil_le) simp
  also have "\<dots> \<le> ?tot * ?k" by (intro mult_right_mono) simp_all
  finally have whole: "take (?tot * ?k) frame = frame" by simp
  have "accept_all s frags =
      (replicate (?tot - Suc 0) None @ [Some (take (?tot * ?k) frame)],
       (mid_state frame ?k ?tot ?tot)\<lparr>ra_buffer := None\<rparr>)"
    unfolding frags using lim tot chunk_size_bounds [of mtu]
    by (intro accept_all_from) simp_all
  then show ?thesis using whole frags by auto
qed

theorem fragment_reassemble_roundtrip_witness:
  "fragment_ble_frame [10, 20, 30] 6 = Some [[0, 0, 0, 2, 10, 20], [0, 1, 0, 2, 30]] \<and>
   fst (accept_all reassembly_default [[0, 0, 0, 2, 10, 20], [0, 1, 0, 2, 30]]) = [None, Some [10, 20, 30]]"
proof -
  have *: "fragment_ble_frame [10, 20, 30] 6 = Some [[0, 0, 0, 2, 10, 20], [0, 1, 0, 2, 30]]"
  proof -
    have k: "fragment_chunk_size 6 = 2" by (simp add: fragment_chunk_size_def framing_limits)
    have n: "length [10, 20, 30 :: u8] = 3" and t: "max (div_ceil 3 2) 1 = 2"
      by (simp_all add: div_ceil_def)
    have u: "[0..<2] = [0, 1 :: nat]" by (simp add: upt_rec)
    show ?thesis
      unfolding fragment_ble_frame_def k n Let_def t u
      by (simp add: framing_limits fragment_at_def u16_bytes_def)
  qed
  from fragment_reassemble_roundtrip [OF *, of reassembly_default] * show ?thesis by simp
qed

section \<open>Nothing but a whole frame comes out\<close>

text \<open>
  \<open>headed tot fr\<close>: the fragments of \<open>fr\<close> carry the indices 0, 1, 2 and so on, and all carry the
  count \<open>tot\<close>. The reassembler's buffer is always the payloads of such a run that ends the
  history of the link.
\<close>

definition headed :: "u16 \<Rightarrow> bytes list \<Rightarrow> bool" where
  "headed tot fr \<longleftrightarrow>
     (\<forall>i < length fr. unat (frag_index (fr ! i)) = i \<and> frag_total (fr ! i) = tot)"

definition buffered_run :: "bytes list \<Rightarrow> u16 \<Rightarrow> u16 \<Rightarrow> bytes \<Rightarrow> bool" where
  "buffered_run h tot nxt b \<longleftrightarrow>
     (\<exists>pre fr. h = pre @ fr \<and> length fr = unat nxt \<and> headed tot fr \<and>
        b = concat (map frag_payload fr))"

definition reassembly_inv :: "bytes list \<Rightarrow> reassembly_state \<Rightarrow> bool" where
  "reassembly_inv h s \<longleftrightarrow>
     (case ra_buffer s of
        None \<Rightarrow> True
      | Some b \<Rightarrow> buffered_run h (expected_total s) (next_index s) b \<and>
          next_index s < expected_total s \<and> length b \<le> MAX_P2P_FRAME_BYTES)"

definition whole_run :: "bytes list \<Rightarrow> bytes \<Rightarrow> bool" where
  "whole_run fr f \<longleftrightarrow> fr \<noteq> [] \<and>
     (\<forall>i < length fr. unat (frag_index (fr ! i)) = i \<and> unat (frag_total (fr ! i)) = length fr) \<and>
     f = concat (map frag_payload fr)"

lemma headed_snoc:
  "headed tot (fr @ [x]) \<longleftrightarrow> headed tot fr \<and> unat (frag_index x) = length fr \<and> frag_total x = tot"
  by (auto simp: headed_def nth_append less_Suc_eq all_conj_distrib)

lemma unat_succ_less: "(a :: u16) < b \<Longrightarrow> unat (a + 1) = Suc (unat a)"
  using unat_lt_pow [of b] by (simp add: unat_word_ariths word_less_nat_alt)

lemma buffered_run_step:
  assumes run: "buffered_run h tot nxt b"
    and x: "frag_index x = nxt" "frag_total x = tot" and lt: "nxt < tot"
  shows "buffered_run (h @ [x]) tot (nxt + 1) (b @ frag_payload x)"
proof -
  from run obtain pre fr where "h = pre @ fr" "length fr = unat nxt" "headed tot fr"
    "b = concat (map frag_payload fr)"
    by (auto simp: buffered_run_def)
  then have "h @ [x] = pre @ (fr @ [x])" "length (fr @ [x]) = unat (nxt + 1)"
    "headed tot (fr @ [x])" "b @ frag_payload x = concat (map frag_payload (fr @ [x]))"
    using x lt by (simp_all add: headed_snoc unat_succ_less)
  then show ?thesis unfolding buffered_run_def by blast
qed

lemma buffered_run_whole:
  "buffered_run h tot tot b \<Longrightarrow> tot \<noteq> 0 \<Longrightarrow> \<exists>pre fr. h = pre @ fr \<and> whole_run fr b"
proof -
  assume "buffered_run h tot tot b" and nz: "tot \<noteq> 0"
  then obtain pre fr where fr: "h = pre @ fr" "length fr = unat tot" "headed tot fr"
    "b = concat (map frag_payload fr)"
    by (auto simp: buffered_run_def)
  moreover have "fr \<noteq> []" using fr(2) nz by (metis list.size(3) unat_eq_zero)
  ultimately have "whole_run fr b" by (simp add: whole_run_def headed_def)
  with fr(1) show ?thesis by blast
qed

text \<open>The two ways a fragment is not refused: it extends the buffered run, or completes it.\<close>

lemma accept_fragment_cases:
  assumes acc: "accept_fragment s x = (out, s')" and inv: "reassembly_inv h s"
  obtains
    (refused) "out = None" "s' = reassembly_default"
  | (extended) b where "buffered_run (h @ [x]) (expected_total s') (next_index s') b"
      "length b \<le> MAX_P2P_FRAME_BYTES" "next_index s' < expected_total s'"
      "out = None" "ra_buffer s' = Some b"
  | (completed) tot b where "buffered_run (h @ [x]) tot tot b" "tot \<noteq> 0"
      "length b \<le> MAX_P2P_FRAME_BYTES" "out = Some b" "ra_buffer s' = None"
proof -
  define st where "st = (if frag_index x = 0
    then \<lparr>ra_buffer = Some [], expected_total = frag_total x, next_index = 0\<rparr> else s)"
  have st_run: "buffered_run h (expected_total st) (next_index st) b" if "ra_buffer st = Some b" for b
    using that inv by (auto simp: st_def reassembly_inv_def buffered_run_def headed_def split: if_splits)
  show thesis
  proof (cases "out = None \<and> s' = reassembly_default")
    case True
    with refused show thesis by blast
  next
    case False
    with acc obtain b where b: "ra_buffer st = Some b" and ix: "frag_index x = next_index st"
      and tt: "frag_total x = expected_total st" and ord: "frag_index x < frag_total x"
      and len: "length (b @ frag_payload x) \<le> MAX_P2P_FRAME_BYTES"
      and res: "(out, s') = (if next_index st + 1 < expected_total st
         then (None, st\<lparr>ra_buffer := Some (b @ frag_payload x), next_index := next_index st + 1\<rparr>)
         else (Some (b @ frag_payload x),
               st\<lparr>ra_buffer := None, next_index := next_index st + 1\<rparr>))"
      unfolding accept_fragment_def Let_def st_def [symmetric]
      by (auto simp: not_le split: if_splits option.splits)
    have run: "buffered_run (h @ [x]) (expected_total st) (next_index st + 1) (b @ frag_payload x)"
      using buffered_run_step [OF st_run [OF b] ix tt] ix tt ord by simp
    show thesis
    proof (cases "next_index st + 1 < expected_total st")
      case True
      with res have "out = None"
        "s' = st\<lparr>ra_buffer := Some (b @ frag_payload x), next_index := next_index st + 1\<rparr>" by simp_all
      with run len True show thesis by (intro extended [of "b @ frag_payload x"]) simp_all
    next
      case False
      have eq: "next_index st + 1 = expected_total st"
        using False ord ix tt unat_succ_less [of "next_index st" "expected_total st"]
        by (simp add: u16_nat_simps)
      from False res have "out = Some (b @ frag_payload x)" "ra_buffer s' = None" by simp_all
      with run len ord tt eq show thesis
        by (intro completed [of "expected_total st" "b @ frag_payload x"]) auto
    qed
  qed
qed

lemma reassembly_inv_step:
  assumes "reassembly_inv h s" "accept_fragment s x = (out, s')"
  shows "reassembly_inv (h @ [x]) s'"
  using assms(2,1)
  by (cases rule: accept_fragment_cases) (auto simp: reassembly_inv_def reassembly_default_def)

lemma accept_completes:
  assumes "reassembly_inv h s" "accept_fragment s x = (Some f, s')"
  shows "(\<exists>pre fr. h @ [x] = pre @ fr \<and> whole_run fr f) \<and> length f \<le> MAX_P2P_FRAME_BYTES"
  using assms(2,1)
  by (cases rule: accept_fragment_cases) (auto dest: buffered_run_whole)

lemma accept_all_sound:
  assumes "reassembly_inv h s"
  shows "reassembly_inv (h @ fs) (snd (accept_all s fs)) \<and>
    (\<forall>i f. i < length fs \<longrightarrow> fst (accept_all s fs) ! i = Some f \<longrightarrow>
      (\<exists>pre fr. h @ take (Suc i) fs = pre @ fr \<and> whole_run fr f) \<and> length f \<le> MAX_P2P_FRAME_BYTES)"
  using assms
proof (induction fs arbitrary: h s)
  case (Cons x fs)
  obtain out s' where acc: "accept_fragment s x = (out, s')" by fastforce
  from reassembly_inv_step [OF Cons.prems acc] have "reassembly_inv (h @ [x]) s'" .
  note IH = Cons.IH [OF this]
  have *: "accept_all s (x # fs) = (out # fst (accept_all s' fs), snd (accept_all s' fs))"
    by (simp add: acc split_def Let_def)
  show ?case
    unfolding * using IH accept_completes [OF Cons.prems, of x] acc
    by (auto simp: nth_Cons split: nat.splits)
qed simp

text \<open>
  Soundness on arbitrary, possibly hostile, link input: starting from a fresh
  reassembler, whenever the answer to the \<open>i\<close>-th fragment is a frame, the fragments received up to
  then end in an unbroken run with indices 0 to n-1 that all announce the count n, the frame is
  the concatenation of exactly their payloads, and it respects the frame limit; and whatever is
  still buffered respects the limit too.
\<close>
theorem reassembler_sound:
  assumes "fst (accept_all reassembly_default fs) ! i = Some f" "i < length fs"
  shows "(\<exists>pre fr. take (Suc i) fs = pre @ fr \<and> whole_run fr f) \<and>
    length f \<le> MAX_P2P_FRAME_BYTES \<and>
    (\<forall>b. ra_buffer (snd (accept_all reassembly_default fs)) = Some b \<longrightarrow>
         length b \<le> MAX_P2P_FRAME_BYTES)"
proof -
  have "reassembly_inv [] reassembly_default"
    by (simp add: reassembly_inv_def reassembly_default_def)
  from accept_all_sound [OF this, of fs] assms show ?thesis
    by (auto simp: reassembly_inv_def)
qed

theorem reassembler_sound_witness:
  "\<exists>pre fr. [[9], [0, 0, 0, 1, 7 :: u8]] = pre @ fr \<and> whole_run fr [7]"
proof -
  have "fst (accept_all reassembly_default [[9], [0, 0, 0, 1, 7]]) ! 1 = Some [7]"
    by (simp add: accept_fragment_def framing_limits frag_index_def frag_total_def frag_payload_def
        from_be_def Let_def split_def)
  from reassembler_sound [OF this] show ?thesis by simp
qed

end
