(* ===== verification/Chunk_Bitmap.thy ===== *)
theory Chunk_Bitmap
  imports Ble_Framing
begin

text \<open>
  The per-blob chunk bitmap of the media plane, \<open>core/src/media/bitmap.rs\<close>: which chunks of a blob
  are present, and which runs of missing chunks a resumed transfer asks for next. The unsigned
  counters are naturals here; the invariant bounds the chunk count by \<open>2 ^ 32\<close> and every other
  counter by the chunk count, so none of the code's \<open>u32\<close> operations wraps, except the one in
  \<open>from_bytes\<close>, where the wrap-around is written out.
  The lemmas show that the packed bits implement a finite set of chunk indices under every
  operation, that persisting and reloading loses nothing and accepts nothing else, what exactly
  \<open>missing_ranges\<close> returns, and that a transfer driven by it finishes.
\<close>

section \<open>State and operations\<close>

datatype media_error =
    EmptyBlob
  | BlobTooLarge u64 u64
  | MediaMalformed string
  | ChunkAuthFailed u32
  | DigestMismatch
  | MediaStore string

record chunk_range =
  range_start :: nat
  range_count :: nat

definition end_exclusive :: "chunk_range \<Rightarrow> nat" where
  "end_exclusive r = range_start r + range_count r"

definition range_contains :: "chunk_range \<Rightarrow> nat \<Rightarrow> bool" where
  "range_contains r index \<longleftrightarrow> index \<ge> range_start r \<and> index < end_exclusive r"

record chunk_bitmap =
  chunk_count :: nat
  present :: nat
  bits :: "u8 list"

definition byte_len :: "nat \<Rightarrow> nat" where
  "byte_len n = div_ceil n 8"

definition position :: "nat \<Rightarrow> nat \<times> u8" where
  "position index = (index div 8, push_bit (7 - index mod 8) 1)"

definition bitmap_empty :: "nat \<Rightarrow> media_error + chunk_bitmap" where
  "bitmap_empty n =
     (if n = 0 then Inl (MediaMalformed ''a blob has at least one chunk'')
      else Inr \<lparr>chunk_count = n, present = 0, bits = replicate (byte_len n) 0\<rparr>)"

text \<open>\<open>u8::count_ones\<close>.\<close>

definition count_ones :: "u8 \<Rightarrow> nat" where
  "count_ones b = length (filter (bit b) [0..<8])"

definition bitmap_from_bytes :: "nat \<Rightarrow> u8 list \<Rightarrow> media_error + chunk_bitmap" where
  "bitmap_from_bytes n bs =
     (if n = 0 then Inl (MediaMalformed ''a blob has at least one chunk'')
      else
        let expected = byte_len n in
        if length bs \<noteq> expected then
          Inl (MediaMalformed (''bitmap is '' @ show_nat (length bs) @ '' bytes, '' @ show_nat n @
            '' chunks needs '' @ show_nat expected))
        else
          let trailing_bits = ((expected * 8) mod 2 ^ 32 + 2 ^ 32 - n) mod 2 ^ 32 in
          if trailing_bits > 0 \<and> (bs ! (expected - 1)) AND (push_bit trailing_bits 1 - 1) \<noteq> 0
          then Inl (MediaMalformed ''bitmap sets bits past the last chunk'')
          else Inr \<lparr>chunk_count = n, present = sum_list (map count_ones bs), bits = bs\<rparr>)"

definition as_bytes :: "chunk_bitmap \<Rightarrow> u8 list" where
  "as_bytes bm = bits bm"

definition is_complete :: "chunk_bitmap \<Rightarrow> bool" where
  "is_complete bm \<longleftrightarrow> present bm = chunk_count bm"

definition bm_has :: "chunk_bitmap \<Rightarrow> nat \<Rightarrow> bool" where
  "bm_has bm index =
     (if index \<ge> chunk_count bm then False
      else case position index of (byte, b) \<Rightarrow> (bits bm ! byte) AND b \<noteq> 0)"

definition bm_set :: "chunk_bitmap \<Rightarrow> nat \<Rightarrow> bool \<times> chunk_bitmap" where
  "bm_set bm index =
     (if index \<ge> chunk_count bm \<or> bm_has bm index then (False, bm)
      else case position index of (byte, b) \<Rightarrow>
        (True, bm\<lparr>bits := (bits bm)[byte := (bits bm ! byte) OR b], present := present bm + 1\<rparr>))"

definition bm_clear :: "chunk_bitmap \<Rightarrow> nat \<Rightarrow> bool \<times> chunk_bitmap" where
  "bm_clear bm index =
     (if index \<ge> chunk_count bm \<or> \<not> bm_has bm index then (False, bm)
      else case position index of (byte, b) \<Rightarrow>
        (True, bm\<lparr>bits := (bits bm)[byte := (bits bm ! byte) AND (NOT b)], present := present bm - 1\<rparr>))"

text \<open>One index of the merge loop, then the loop over \<open>0..chunk_count\<close>.\<close>

definition merge_step :: "chunk_bitmap \<Rightarrow> chunk_bitmap \<times> nat \<Rightarrow> nat \<Rightarrow> chunk_bitmap \<times> nat" where
  "merge_step other st index =
     (case st of (bm, gained) \<Rightarrow>
        if bm_has other index
        then case bm_set bm index of (new, bm') \<Rightarrow> (bm', if new then gained + 1 else gained)
        else (bm, gained))"

definition bm_merge :: "chunk_bitmap \<Rightarrow> chunk_bitmap \<Rightarrow> media_error + (nat \<times> chunk_bitmap)" where
  "bm_merge bm other =
     (if chunk_count other \<noteq> chunk_count bm
      then Inl (MediaMalformed ''cannot merge bitmaps of different blobs'')
      else case foldl (merge_step other) (bm, 0) [0..<chunk_count bm] of
             (bm', gained) \<Rightarrow> Inr (gained, bm'))"

text \<open>The inner loop of \<open>missing_ranges\<close>: the length of one run and the index after it.\<close>

function scan_missing :: "chunk_bitmap \<Rightarrow> nat \<Rightarrow> nat \<Rightarrow> nat \<Rightarrow> nat \<times> nat" where
  "scan_missing bm budget index cnt =
     (if index < chunk_count bm \<and> \<not> bm_has bm index \<and> cnt < budget
      then scan_missing bm budget (index + 1) (cnt + 1)
      else (cnt, index))"
  by pat_completeness auto
termination
  by (relation "measure (\<lambda>(bm, _, index, _). chunk_count bm - index)") auto

declare scan_missing.simps [simp del]

lemma scan_missing_result:
  "scan_missing bm budget index cnt = (cnt', index') \<Longrightarrow>
   index \<le> index' \<and> cnt' - cnt = index' - index \<and> cnt \<le> cnt' \<and>
   (cnt \<le> budget \<longrightarrow> cnt' \<le> budget) \<and> (index \<le> chunk_count bm \<longrightarrow> index' \<le> chunk_count bm) \<and>
   (\<forall>i. index \<le> i \<and> i < index' \<longrightarrow> \<not> bm_has bm i) \<and>
   (index' < chunk_count bm \<longrightarrow> bm_has bm index' \<or> budget \<le> cnt')"
proof (induction bm budget index cnt rule: scan_missing.induct)
  case (1 bm budget index cnt)
  show ?case
  proof (cases "index < chunk_count bm \<and> \<not> bm_has bm index \<and> cnt < budget")
    case True
    with "1.prems" have "scan_missing bm budget (index + 1) (cnt + 1) = (cnt', index')"
      by (simp add: scan_missing.simps [of bm budget index cnt])
    note IH = "1.IH" [OF True this]
    have "\<not> bm_has bm i" if "index \<le> i" "i < index'" for i
      using that True IH by (cases "i = index") auto
    with IH True show ?thesis by auto
  next
    case False
    with "1.prems" show ?thesis
      by (auto simp: scan_missing.simps [of bm budget index cnt])
  qed
qed

lemma scan_missing_progress:
  "index < chunk_count bm \<Longrightarrow> \<not> bm_has bm index \<Longrightarrow> 0 < budget \<Longrightarrow>
   scan_missing bm budget index 0 = (cnt, index') \<Longrightarrow> index < index'"
  using scan_missing_result [of bm budget "index + 1" 1 cnt index']
  by (simp add: scan_missing.simps [of bm budget index 0])

lemma scan_missing_measure:
  assumes "index < chunk_count bm" "\<not> bm_has bm index" "0 < budget"
    "(cnt, index') = scan_missing bm budget index 0"
  shows "chunk_count bm - index' < chunk_count bm - index"
  using scan_missing_progress [OF assms(1-3) assms(4) [symmetric]] assms(1) by linarith

function missing_loop :: "chunk_bitmap \<Rightarrow> nat \<Rightarrow> nat \<Rightarrow> nat \<Rightarrow> chunk_range list \<Rightarrow> chunk_range list" where
  "missing_loop bm max_ranges budget index ranges =
     (if index < chunk_count bm \<and> budget > 0 \<and> length ranges < max_ranges
      then if bm_has bm index then missing_loop bm max_ranges budget (index + 1) ranges
           else case scan_missing bm budget index 0 of
                  (cnt, index') \<Rightarrow>
                    missing_loop bm max_ranges (budget - cnt) index'
                      (ranges @ [\<lparr>range_start = index, range_count = cnt\<rparr>])
      else ranges)"
  by pat_completeness auto
termination
  by (relation "measure (\<lambda>(bm, _, _, index, _). chunk_count bm - index)")
    (auto intro: scan_missing_measure)

declare missing_loop.simps [simp del]

definition missing_ranges :: "chunk_bitmap \<Rightarrow> nat \<Rightarrow> nat \<Rightarrow> chunk_range list" where
  "missing_ranges bm max_chunks max_ranges =
     (if max_chunks = 0 \<or> max_ranges = 0 then []
      else missing_loop bm max_ranges max_chunks 0 [])"

section \<open>The packed bits as a set of chunk indices\<close>

definition bit_at :: "u8 list \<Rightarrow> nat \<Rightarrow> bool" where
  "bit_at bs i = bit (bs ! (i div 8)) (7 - i mod 8)"

definition chunks :: "chunk_bitmap \<Rightarrow> nat set" where
  "chunks bm = {i. i < chunk_count bm \<and> bit_at (bits bm) i}"

definition bitmap_inv :: "chunk_bitmap \<Rightarrow> bool" where
  "bitmap_inv bm \<longleftrightarrow>
     0 < chunk_count bm \<and> chunk_count bm < 2 ^ 32 \<and> length (bits bm) = byte_len (chunk_count bm) \<and>
     present bm = card (chunks bm) \<and>
     (\<forall>i. chunk_count bm \<le> i \<and> i < 8 * length (bits bm) \<longrightarrow> \<not> bit_at (bits bm) i)"

lemma finite_chunks [simp]: "finite (chunks bm)"
  by (simp add: chunks_def)

lemma chunks_bound: "i \<in> chunks bm \<Longrightarrow> i < chunk_count bm"
  by (simp add: chunks_def)

lemma byte_len_bounds: "n \<le> 8 * byte_len n" "8 * byte_len n < n + 8"
  unfolding byte_len_def div_ceil_def by presburger+

lemma bm_has_chunks: "bm_has bm i \<longleftrightarrow> i \<in> chunks bm"
  by (auto simp: bm_has_def chunks_def bit_at_def position_def and_exp_eq_0_iff_not_bit push_bit_of_1)

text \<open>Writing one byte of the list changes one chunk.\<close>

lemma index_byte_in_range: "i < 8 * n \<Longrightarrow> i div 8 < (n :: nat)"
  by (simp add: less_mult_imp_div_less mult.commute)

lemma bit_at_eq_index: "(i :: nat) div 8 = j div 8 \<Longrightarrow> 7 - i mod 8 = 7 - j mod 8 \<Longrightarrow> i = j"
proof -
  assume d: "i div 8 = j div 8" and m: "7 - i mod 8 = 7 - j mod 8"
  have "i mod 8 < 8" "j mod 8 < 8" by simp_all
  with m have "i mod 8 = j mod 8" by linarith
  with d show ?thesis by (metis div_mult_mod_eq)
qed

lemma bit_at_set:
  assumes "i < 8 * length bs"
  shows "bit_at (bs[i div 8 := (bs ! (i div 8)) OR push_bit (7 - i mod 8) 1]) j \<longleftrightarrow> j = i \<or> bit_at bs j"
  using index_byte_in_range [OF assms] bit_at_eq_index [of j i]
  by (auto simp: bit_at_def nth_list_update bit_or_iff bit_exp_iff)

lemma bit_at_clear:
  assumes "i < 8 * length bs"
  shows "bit_at (bs[i div 8 := (bs ! (i div 8)) AND (NOT (push_bit (7 - i mod 8) 1))]) j \<longleftrightarrow> j \<noteq> i \<and> bit_at bs j"
  using index_byte_in_range [OF assms] bit_at_eq_index [of j i]
  by (auto simp: bit_at_def nth_list_update bit_and_iff bit_not_iff bit_exp_iff)

subsection \<open>Setting, clearing, merging\<close>

lemma index_in_bits: "bitmap_inv bm \<Longrightarrow> i < chunk_count bm \<Longrightarrow> i < 8 * length (bits bm)"
  using byte_len_bounds(1) [of "chunk_count bm"] by (simp add: bitmap_inv_def)

lemma bm_set_spec:
  assumes "bitmap_inv bm"
  shows "fst (bm_set bm i) \<longleftrightarrow> i < chunk_count bm \<and> i \<notin> chunks bm"
    and "chunks (snd (bm_set bm i)) = (if i < chunk_count bm then insert i (chunks bm) else chunks bm)"
    and "chunk_count (snd (bm_set bm i)) = chunk_count bm"
    and "bitmap_inv (snd (bm_set bm i))"
proof -
  have upd: "chunks (snd (bm_set bm i)) = insert i (chunks bm)" "bitmap_inv (snd (bm_set bm i))"
    if i: "i < chunk_count bm" "i \<notin> chunks bm"
  proof -
    let ?bs = "(bits bm)[i div 8 := (bits bm ! (i div 8)) OR push_bit (7 - i mod 8) 1]"
    have eq: "snd (bm_set bm i) = bm\<lparr>bits := ?bs, present := present bm + 1\<rparr>"
      using i by (simp add: bm_set_def bm_has_chunks position_def)
    have bits: "bit_at ?bs j \<longleftrightarrow> j = i \<or> bit_at (bits bm) j" for j
      by (rule bit_at_set) (rule index_in_bits [OF assms i(1)])
    show ch: "chunks (snd (bm_set bm i)) = insert i (chunks bm)"
      using i(1) bits by (auto simp: eq chunks_def)
    have "present (snd (bm_set bm i)) = card (chunks (snd (bm_set bm i)))"
      using assms i(2) by (simp add: ch) (simp add: eq bitmap_inv_def)
    then show "bitmap_inv (snd (bm_set bm i))"
      using assms i(1) bits by (auto simp: eq bitmap_inv_def)
  qed
  show "fst (bm_set bm i) \<longleftrightarrow> i < chunk_count bm \<and> i \<notin> chunks bm"
    by (auto simp: bm_set_def bm_has_chunks position_def)
  show "chunks (snd (bm_set bm i)) = (if i < chunk_count bm then insert i (chunks bm) else chunks bm)"
    using upd by (cases "i < chunk_count bm \<and> i \<notin> chunks bm") (auto simp: bm_set_def bm_has_chunks)
  show "chunk_count (snd (bm_set bm i)) = chunk_count bm"
    by (simp add: bm_set_def position_def)
  show "bitmap_inv (snd (bm_set bm i))"
    using upd assms by (cases "i < chunk_count bm \<and> i \<notin> chunks bm") (auto simp: bm_set_def bm_has_chunks)
qed

lemma bm_clear_spec:
  assumes "bitmap_inv bm"
  shows "fst (bm_clear bm i) \<longleftrightarrow> i \<in> chunks bm"
    and "chunks (snd (bm_clear bm i)) = chunks bm - {i}"
    and "bitmap_inv (snd (bm_clear bm i))"
proof -
  have upd: "chunks (snd (bm_clear bm i)) = chunks bm - {i}" "bitmap_inv (snd (bm_clear bm i))"
    if mem: "i \<in> chunks bm"
  proof -
    let ?bs = "(bits bm)[i div 8 := (bits bm ! (i div 8)) AND (NOT (push_bit (7 - i mod 8) 1))]"
    have i: "i < chunk_count bm" using mem by (rule chunks_bound)
    have eq: "snd (bm_clear bm i) = bm\<lparr>bits := ?bs, present := present bm - 1\<rparr>"
      using i mem by (simp add: bm_clear_def bm_has_chunks position_def)
    have bits: "bit_at ?bs j \<longleftrightarrow> j \<noteq> i \<and> bit_at (bits bm) j" for j
      by (rule bit_at_clear) (rule index_in_bits [OF assms i])
    show ch: "chunks (snd (bm_clear bm i)) = chunks bm - {i}"
      using bits by (auto simp: eq chunks_def)
    have "present (snd (bm_clear bm i)) = card (chunks (snd (bm_clear bm i)))"
      using assms mem by (simp add: ch) (simp add: eq bitmap_inv_def)
    then show "bitmap_inv (snd (bm_clear bm i))"
      using assms bits by (auto simp: eq bitmap_inv_def)
  qed
  show "fst (bm_clear bm i) \<longleftrightarrow> i \<in> chunks bm"
    by (auto simp: bm_clear_def bm_has_chunks position_def dest: chunks_bound)
  show "chunks (snd (bm_clear bm i)) = chunks bm - {i}" "bitmap_inv (snd (bm_clear bm i))"
    using upd assms by (cases "i \<in> chunks bm"; auto simp: bm_clear_def bm_has_chunks)+
qed

lemma merge_loop_spec:
  assumes "bitmap_inv bm" "chunk_count other = chunk_count bm" "n \<le> chunk_count bm"
  shows "case foldl (merge_step other) (bm, 0) [0..<n] of (bm', gained) \<Rightarrow>
    bitmap_inv bm' \<and> chunk_count bm' = chunk_count bm \<and>
    chunks bm' = chunks bm \<union> {i \<in> chunks other. i < n} \<and>
    gained = card ({i \<in> chunks other. i < n} - chunks bm)"
  using assms(3)
proof (induction n)
  case 0
  with assms(1) show ?case by simp
next
  case (Suc n)
  obtain bm1 g1 where st: "foldl (merge_step other) (bm, 0) [0..<n] = (bm1, g1)" by fastforce
  with Suc have inv: "bitmap_inv bm1" and cc: "chunk_count bm1 = chunk_count bm"
    and ch: "chunks bm1 = chunks bm \<union> {i \<in> chunks other. i < n}"
    and g: "g1 = card ({i \<in> chunks other. i < n} - chunks bm)" by simp_all
  have step: "foldl (merge_step other) (bm, 0) [0..<Suc n] = merge_step other (bm1, g1) n"
    by (simp add: st)
  have n: "n < chunk_count bm1" using Suc.prems cc by simp
  show ?case
  proof (cases "n \<in> chunks other")
    case False
    then have "{i \<in> chunks other. i < Suc n} = {i \<in> chunks other. i < n}"
      by (auto simp: less_Suc_eq)
    moreover have "merge_step other (bm1, g1) n = (bm1, g1)"
      using False by (simp add: merge_step_def bm_has_chunks)
    ultimately show ?thesis
      using inv cc ch g unfolding step by simp
  next
    case True
    then have S: "{i \<in> chunks other. i < Suc n} = insert n {i \<in> chunks other. i < n}"
      by (auto simp: less_Suc_eq)
    obtain new bm2 where set: "bm_set bm1 n = (new, bm2)" by fastforce
    from bm_set_spec [OF inv, of n] n set
    have sp: "new \<longleftrightarrow> n \<notin> chunks bm1" "chunks bm2 = insert n (chunks bm1)"
      "chunk_count bm2 = chunk_count bm1" "bitmap_inv bm2" by simp_all
    have mem: "n \<in> chunks bm1 \<longleftrightarrow> n \<in> chunks bm" using ch by auto
    have "merge_step other (bm1, g1) n = (bm2, if new then g1 + 1 else g1)"
      using True set by (simp add: merge_step_def bm_has_chunks)
    then show ?thesis
      using sp ch cc g mem unfolding step S by (auto simp: insert_Diff_if)
  qed
qed

text \<open>
  Merging the bitmap another source reports for the same blob is set union: nothing
  this device has is lost, nothing neither side has appears, and the returned count is exactly the
  number of chunks that were new. Bitmaps of different blobs are refused.
\<close>

theorem merge_is_union:
  assumes "bitmap_inv bm"
  shows "if chunk_count other = chunk_count bm
    then \<exists>gained bm'. bm_merge bm other = Inr (gained, bm') \<and> bitmap_inv bm' \<and>
      chunk_count bm' = chunk_count bm \<and> chunks bm' = chunks bm \<union> chunks other \<and>
      gained = card (chunks other - chunks bm) \<and> present bm' = present bm + gained
    else bm_merge bm other = Inl (MediaMalformed ''cannot merge bitmaps of different blobs'')"
proof (cases "chunk_count other = chunk_count bm")
  case True
  obtain bm' gained where f: "foldl (merge_step other) (bm, 0) [0..<chunk_count bm] = (bm', gained)"
    by fastforce
  have all: "{i \<in> chunks other. i < chunk_count bm} = chunks other"
    using True by (auto dest: chunks_bound)
  from merge_loop_spec [OF assms True order_refl] f all
  have sp: "bitmap_inv bm'" "chunk_count bm' = chunk_count bm" "chunks bm' = chunks bm \<union> chunks other"
    "gained = card (chunks other - chunks bm)" by simp_all
  have "card (chunks bm') = card (chunks bm) + card (chunks other - chunks bm)"
    using sp(3) card_Un_disjoint [of "chunks bm" "chunks other - chunks bm"] by simp
  then have "present bm' = present bm + gained"
    using sp(1,4) assms by (simp add: bitmap_inv_def)
  with sp f True show ?thesis by (simp add: bm_merge_def)
qed (simp add: bm_merge_def)

subsection \<open>Persisting and reloading\<close>

lemma count_ones_card: "count_ones b = card {k. k < 8 \<and> bit b k}"
proof -
  have "set (filter (bit b) [0..<8]) = {k. k < 8 \<and> bit b k}" by auto
  then show ?thesis unfolding count_ones_def by (metis distinct_card distinct_filter distinct_upt)
qed

lemma byte_index: "r < 8 \<Longrightarrow> (8 * m + r) div 8 = m \<and> (8 * m + r) mod 8 = (r :: nat)"
  by simp

lemma byte_indexE:
  assumes "8 * m \<le> i" "i < 8 * m + 8"
  obtains r where "i = 8 * m + r" "r < (8 :: nat)"
  using assms by (metis add_less_cancel_left le_Suc_ex)

lemma card_byte: "card {i. 8 * m \<le> i \<and> i < 8 * m + 8 \<and> bit (b :: u8) (7 - i mod 8)} = count_ones b"
proof -
  have "bij_betw (\<lambda>k. 8 * m + (7 - k)) {k. k < 8 \<and> bit b k}
      {i. 8 * m \<le> i \<and> i < 8 * m + 8 \<and> bit b (7 - i mod 8)}"
  proof (rule bij_betw_byWitness [where f' = "\<lambda>i. 7 - i mod 8"])
    show "(\<lambda>i. 7 - i mod 8) ` {i. 8 * m \<le> i \<and> i < 8 * m + 8 \<and> bit b (7 - i mod 8)}
        \<subseteq> {k. k < 8 \<and> bit b k}" by auto
    have "8 * m + (7 - (7 - i mod 8)) = i" if "8 * m \<le> i" "i < 8 * m + 8" for i
      using that by (elim byte_indexE) simp_all
    then show "\<forall>i\<in>{i. 8 * m \<le> i \<and> i < 8 * m + 8 \<and> bit b (7 - i mod 8)}. 8 * m + (7 - (7 - i mod 8)) = i"
      by auto
    have e: "7 - (8 * m + (7 - k)) mod 8 = k" if "k < 8" for k
      using that byte_index [of "7 - k" m] by (simp only:)
    then show "\<forall>k\<in>{k. k < 8 \<and> bit b k}. 7 - (8 * m + (7 - k)) mod 8 = k" by blast
    show "(\<lambda>k. 8 * m + (7 - k)) ` {k. k < 8 \<and> bit b k}
        \<subseteq> {i. 8 * m \<le> i \<and> i < 8 * m + 8 \<and> bit b (7 - i mod 8)}"
      using e by auto
  qed
  then show ?thesis by (simp add: count_ones_card bij_betw_same_card)
qed

lemma sum_count_ones: "sum_list (map count_ones bs) = card {i. i < 8 * length bs \<and> bit_at bs i}"
proof (induction bs rule: rev_induct)
  case (snoc b bs)
  let ?A = "{i. i < 8 * length bs \<and> bit_at bs i}"
  let ?B = "{i. 8 * length bs \<le> i \<and> i < 8 * length bs + 8 \<and> bit b (7 - i mod 8)}"
  have old: "bit_at (bs @ [b]) i \<longleftrightarrow> bit_at bs i" if "i < 8 * length bs" for i
    using index_byte_in_range [OF that] by (simp add: bit_at_def nth_append)
  have new: "bit_at (bs @ [b]) i \<longleftrightarrow> bit b (7 - i mod 8)"
    if "8 * length bs \<le> i" "i < 8 * length bs + 8" for i
  proof -
    have "i div 8 = length bs" using that by (elim byte_indexE) simp_all
    then show ?thesis by (simp add: bit_at_def)
  qed
  have "{i. i < 8 * length (bs @ [b]) \<and> bit_at (bs @ [b]) i} = ?A \<union> ?B"
  proof (rule set_eqI)
    fix i
    show "i \<in> {i. i < 8 * length (bs @ [b]) \<and> bit_at (bs @ [b]) i} \<longleftrightarrow> i \<in> ?A \<union> ?B"
      using old [of i] new [of i] by (cases "i < 8 * length bs") auto
  qed
  moreover have "finite ?A" "finite ?B" "?A \<inter> ?B = {}" by auto
  ultimately have "card {i. i < 8 * length (bs @ [b]) \<and> bit_at (bs @ [b]) i} = card ?A + card ?B"
    by (simp add: card_Un_disjoint)
  then show ?case using snoc by (simp add: card_byte)
qed simp

lemma mask_test: "(b :: u8) AND (push_bit t 1 - 1) \<noteq> 0 \<longleftrightarrow> (\<exists>k<t. bit b k)"
proof -
  have "b AND (push_bit t 1 - 1) = take_bit t b"
    by (simp add: take_bit_eq_mask mask_eq_exp_minus_1 push_bit_of_1)
  moreover have "bit b k \<Longrightarrow> k < 8" for k using bit_imp_le_length [of b k] by simp
  ultimately show ?thesis
    by (simp only:) (auto simp: bit_eq_iff [of "take_bit t b"] bit_take_bit_iff)
qed

lemma trailing_test:
  assumes "0 < n" "length bs = byte_len n"
  shows "(\<exists>k<8 * byte_len n - n. bit (bs ! (byte_len n - 1)) k) \<longleftrightarrow>
    (\<exists>i. n \<le> i \<and> i < 8 * length bs \<and> bit_at bs i)"
proof -
  let ?e = "byte_len n"
  have e: "n \<le> 8 * ?e" "8 * ?e < n + 8" "0 < ?e"
    using byte_len_bounds [of n] assms(1) by auto
  show ?thesis
  proof
    assume "\<exists>k<8 * ?e - n. bit (bs ! (?e - 1)) k"
    then obtain k where k: "k < 8 * ?e - n" "bit (bs ! (?e - 1)) k" by blast
    define i where "i = 8 * (?e - 1) + (7 - k)"
    have "k < 8" using k e by linarith
    then have "i div 8 = ?e - 1" "7 - i mod 8 = k" 
      using byte_index [of "7 - k" "?e - 1"] by (auto simp only: i_def)
    moreover have "n \<le> i" "i < 8 * ?e" using k e \<open>k < 8\<close> unfolding i_def by linarith+
    moreover note k
    ultimately show "\<exists>i. n \<le> i \<and> i < 8 * length bs \<and> bit_at bs i"
      by (auto simp: assms(2) bit_at_def intro!: exI [of _ i])
  next
    assume "\<exists>i. n \<le> i \<and> i < 8 * length bs \<and> bit_at bs i"
    then obtain i where i: "n \<le> i" "i < 8 * ?e" "bit_at bs i" by (auto simp: assms(2))
    obtain r where r: "i = 8 * (?e - 1) + r" "r < 8"
      by (rule byte_indexE [of "?e - 1" i]) (use i e in linarith)+
    have m: "i div 8 = ?e - 1" "i mod 8 = r"
      using byte_index [OF r(2), of "?e - 1"] by (simp_all only: r(1))
    have "7 - r < 8 * ?e - n" using r i e by linarith
    note m(1) and this [folded m(2)]
    with i(3) show "\<exists>k<8 * ?e - n. bit (bs ! (?e - 1)) k"
      by (auto simp: bit_at_def)
  qed
qed

text \<open>
  The persisted bytes are a faithful and exclusive representation: loading bytes for a
  blob of \<open>n\<close> chunks succeeds exactly on the bytes some well-formed bitmap of that blob persists,
  and gives that bitmap back, the present counter included. A truncated, padded or over-long row
  never loads.
\<close>

theorem bitmap_persist_roundtrip:
  assumes "n < 2 ^ 32"
  shows "bitmap_from_bytes n bs = Inr bm \<longleftrightarrow>
    bitmap_inv bm \<and> chunk_count bm = n \<and> as_bytes bm = bs"
proof (cases "0 < n \<and> length bs = byte_len n")
  case False
  then show ?thesis by (auto simp: bitmap_from_bytes_def bitmap_inv_def as_bytes_def Let_def)
next
  case True
  let ?e = "byte_len n"
  have e: "n \<le> 8 * ?e" "8 * ?e < n + 8" by (rule byte_len_bounds)+
  have t: "((?e * 8) mod 2 ^ 32 + 2 ^ 32 - n) mod 2 ^ 32 = 8 * ?e - n"
  proof (cases "?e * 8 < 2 ^ 32")
    case lt: True
    have "(?e * 8) mod 2 ^ 32 + 2 ^ 32 - n = (8 * ?e - n) + 2 ^ 32"
      using lt e by simp
    moreover have "8 * ?e - n < 2 ^ 32" using e by simp
    ultimately show ?thesis by (simp only: mod_add_self2 mod_less)
  next
    case False
    then have "?e * 8 = 2 ^ 32" using e assms by simp
    moreover have "2 ^ 32 - n < 2 ^ 32" using True by simp
    ultimately show ?thesis by (simp add: mult.commute)
  qed
  have g: "(8 * ?e - n > 0 \<and> (bs ! (?e - 1)) AND (push_bit (8 * ?e - n) 1 - 1) \<noteq> 0) \<longleftrightarrow>
      (\<exists>i. n \<le> i \<and> i < 8 * length bs \<and> bit_at bs i)" (is "_ \<longleftrightarrow> ?bad")
    using trailing_test [of n bs] True mask_test [of "bs ! (?e - 1)" "8 * ?e - n"] by auto
  have load: "bitmap_from_bytes n bs =
      (if ?bad then Inl (MediaMalformed ''bitmap sets bits past the last chunk'')
       else Inr \<lparr>chunk_count = n, present = sum_list (map count_ones bs), bits = bs\<rparr>)"
    using True unfolding g [symmetric] bitmap_from_bytes_def Let_def t by auto
  have card: "sum_list (map count_ones bs) = card {i. i < n \<and> bit_at bs i}" if "\<not> ?bad"
  proof -
    have "{i. i < 8 * length bs \<and> bit_at bs i} = {i. i < n \<and> bit_at bs i}"
      using that e True by (auto simp: not_le)
    then show ?thesis by (simp add: sum_count_ones)
  qed
  show ?thesis
  proof
    assume "bitmap_from_bytes n bs = Inr bm"
    then have nb: "\<not> ?bad" and bm: "bm = \<lparr>chunk_count = n, present = sum_list (map count_ones bs), bits = bs\<rparr>"
      unfolding load by (auto split: if_splits)
    show "bitmap_inv bm \<and> chunk_count bm = n \<and> as_bytes bm = bs"
      using nb card [OF nb] True assms by (simp add: bm bitmap_inv_def chunks_def as_bytes_def)
  next
    assume r: "bitmap_inv bm \<and> chunk_count bm = n \<and> as_bytes bm = bs"
    then have nb: "\<not> ?bad" by (auto simp: bitmap_inv_def as_bytes_def)
    have "present bm = sum_list (map count_ones bs)"
      using r card [OF nb] by (auto simp: bitmap_inv_def as_bytes_def chunks_def)
    with r nb show "bitmap_from_bytes n bs = Inr bm"
      unfolding load by (cases bm) (auto simp: as_bytes_def)
  qed
qed

section \<open>What a resumed transfer asks for\<close>

definition covered :: "chunk_range list \<Rightarrow> nat set" where
  "covered rs = {i. \<exists>r \<in> set rs. range_contains r i}"

definition separated :: "chunk_range list \<Rightarrow> bool" where
  "separated rs \<longleftrightarrow>
     list_all (\<lambda>r. 0 < range_count r) rs \<and> sorted_wrt (\<lambda>r s. end_exclusive r < range_start s) rs"

lemma covered_simps [simp]:
  "covered [] = {}"
  "covered (rs @ [r]) = covered rs \<union> {range_start r..<range_start r + range_count r}"
  by (auto simp: covered_def range_contains_def end_exclusive_def)

lemma finite_covered [simp]: "finite (covered rs)"
  by (induction rs rule: rev_induct) simp_all

text \<open>
  The state of the outer loop: the ranges collected so far cover exactly the missing chunks below
  the index, and a range that ends at the index is only there when no further one can follow it.
\<close>

definition loop_inv :: "chunk_bitmap \<Rightarrow> nat \<Rightarrow> nat \<Rightarrow> nat \<Rightarrow> nat \<Rightarrow> chunk_range list \<Rightarrow> bool" where
  "loop_inv bm max_chunks max_ranges budget index rs \<longleftrightarrow>
     index \<le> chunk_count bm \<and> covered rs = {i. i < index \<and> i \<notin> chunks bm} \<and>
     card (covered rs) + budget = max_chunks \<and> sum_list (map range_count rs) = card (covered rs) \<and>
     length rs \<le> max_ranges \<and> separated rs \<and>
     (\<forall>r \<in> set rs. end_exclusive r < index \<or>
        end_exclusive r = index \<and> (index < chunk_count bm \<longrightarrow> index \<in> chunks bm \<or> budget = 0))"

lemma loop_inv_start: "loop_inv bm max_chunks max_ranges max_chunks 0 []"
  by (simp add: loop_inv_def separated_def)

lemma loop_inv_skip:
  assumes inv: "loop_inv bm mc mr budget index rs" and "index < chunk_count bm" "index \<in> chunks bm"
  shows "loop_inv bm mc mr budget (index + 1) rs"
proof -
  have "{i. i < index + 1 \<and> i \<notin> chunks bm} = {i. i < index \<and> i \<notin> chunks bm}"
    using assms(3) by (auto simp: less_Suc_eq)
  moreover have "end_exclusive r < index + 1" if "r \<in> set rs" for r
    using inv that by (fastforce simp: loop_inv_def)
  moreover have "covered rs = {i. i < index \<and> i \<notin> chunks bm}"
    using inv by (simp add: loop_inv_def)
  ultimately show ?thesis
    using inv assms(2) by (simp add: loop_inv_def)
qed

lemma loop_inv_take:
  assumes inv: "loop_inv bm mc mr budget index rs"
    and hole: "index < chunk_count bm" "index \<notin> chunks bm" and room: "0 < budget" "length rs < mr"
    and scan: "scan_missing bm budget index 0 = (cnt, index')"
  shows "loop_inv bm mc mr (budget - cnt) index' (rs @ [\<lparr>range_start = index, range_count = cnt\<rparr>])"
proof -
  have sc: "cnt = index' - index" "index < index'" "cnt \<le> budget" "index' \<le> chunk_count bm"
    and free: "\<And>i. index \<le> i \<Longrightarrow> i < index' \<Longrightarrow> i \<notin> chunks bm"
    and stop: "index' < chunk_count bm \<longrightarrow> index' \<in> chunks bm \<or> budget \<le> cnt"
    using scan_missing_result [OF scan] scan_missing_progress [OF _ _ room(1) scan] hole
    by (auto simp: bm_has_chunks)
  let ?r = "\<lparr>range_start = index, range_count = cnt\<rparr>"
  from inv have old: "covered rs = {i. i < index \<and> i \<notin> chunks bm}" "card (covered rs) + budget = mc"
      "sum_list (map range_count rs) = card (covered rs)" "separated rs"
    and ends: "\<And>r. r \<in> set rs \<Longrightarrow> end_exclusive r < index"
    using hole room(1) by (auto simp: loop_inv_def)
  have run: "{index..<index + cnt} = {i. index \<le> i \<and> i < index' \<and> i \<notin> chunks bm}"
    using sc free by auto
  have cov: "covered (rs @ [?r]) = {i. i < index' \<and> i \<notin> chunks bm}"
    using sc(2) by (auto simp: old(1) run)
  have "covered rs \<inter> {index..<index + cnt} = {}"
    by (auto simp: old(1))
  then have card: "card (covered (rs @ [?r])) = card (covered rs) + cnt"
    by (simp add: card_Un_disjoint)
  have sep: "separated (rs @ [?r])"
    using old(4) ends sc(1,2) by (auto simp: separated_def sorted_wrt_append)
  have last: "end_exclusive r < index' \<or>
      end_exclusive r = index' \<and> (index' < chunk_count bm \<longrightarrow> index' \<in> chunks bm \<or> budget - cnt = 0)"
    if "r \<in> set (rs @ [?r])" for r
    using that ends [of r] sc stop by (auto simp: end_exclusive_def)
  have "card (covered (rs @ [?r])) + (budget - cnt) = mc"
    "sum_list (map range_count (rs @ [?r])) = card (covered (rs @ [?r]))"
    "length (rs @ [?r]) \<le> mr"
    unfolding card using old sc room by simp_all
  moreover have "\<forall>r \<in> set (rs @ [?r]). end_exclusive r < index' \<or>
      end_exclusive r = index' \<and> (index' < chunk_count bm \<longrightarrow> index' \<in> chunks bm \<or> budget - cnt = 0)"
    using last by (intro ballI)
  ultimately show ?thesis
    using sc(4) cov sep unfolding loop_inv_def by (intro conjI)
qed

lemma missing_loop_result:
  "loop_inv bm mc mr budget index rs \<Longrightarrow>
   \<exists>budget' index'. loop_inv bm mc mr budget' index' (missing_loop bm mr budget index rs) \<and>
     (index' = chunk_count bm \<or> budget' = 0 \<or> length (missing_loop bm mr budget index rs) = mr)"
proof (induction bm mr budget index rs rule: missing_loop.induct)
  case (1 bm mr budget index rs)
  show ?case
  proof (cases "index < chunk_count bm \<and> budget > 0 \<and> length rs < mr")
    case False
    then have "missing_loop bm mr budget index rs = rs" by (subst missing_loop.simps) (simp only: if_False)
    moreover have "index = chunk_count bm \<or> budget = 0 \<or> length rs = mr"
      using False "1.prems" by (auto simp: loop_inv_def)
    ultimately show ?thesis using "1.prems" by auto
  next
    case go: True
    show ?thesis
    proof (cases "bm_has bm index")
      case True
      have "missing_loop bm mr budget index rs = missing_loop bm mr budget (index + 1) rs"
        using go True by (subst missing_loop.simps) simp
      then show ?thesis
        using "1.IH"(1) [OF go True] loop_inv_skip [OF "1.prems"] go True
        by (simp add: bm_has_chunks)
    next
      case False
      obtain cnt index' where sc: "scan_missing bm budget index 0 = (cnt, index')" by fastforce
      have "missing_loop bm mr budget index rs = missing_loop bm mr (budget - cnt) index'
          (rs @ [\<lparr>range_start = index, range_count = cnt\<rparr>])"
        using go False sc by (subst missing_loop.simps) simp
      then show ?thesis
        using "1.IH"(2) [OF go False sc [symmetric]] loop_inv_take [OF "1.prems" _ _ _ _ sc] go False
        by (simp add: bm_has_chunks)
    qed
  qed
qed

lemma missing_ranges_facts:
  "\<exists>cut \<le> chunk_count bm.
     covered (missing_ranges bm mc mr) = {i. i < cut \<and> i \<notin> chunks bm} \<and> separated (missing_ranges bm mc mr) \<and>
     sum_list (map range_count (missing_ranges bm mc mr)) = card (covered (missing_ranges bm mc mr)) \<and>
     card (covered (missing_ranges bm mc mr)) \<le> mc \<and> length (missing_ranges bm mc mr) \<le> mr \<and>
     (cut = chunk_count bm \<or> card (covered (missing_ranges bm mc mr)) = mc \<or>
      length (missing_ranges bm mc mr) = mr)"
proof (cases "mc = 0 \<or> mr = 0")
  case True
  then show ?thesis
    by (intro exI [of _ 0]) (auto simp: missing_ranges_def separated_def)
next
  case False
  then have eq: "missing_ranges bm mc mr = missing_loop bm mr mc 0 []"
    by (simp add: missing_ranges_def)
  define rs where "rs = missing_ranges bm mc mr"
  obtain b cut where st: "loop_inv bm mc mr b cut rs"
      "cut = chunk_count bm \<or> b = 0 \<or> length rs = mr"
    using missing_loop_result [OF loop_inv_start] unfolding rs_def eq by blast
  show ?thesis
    unfolding rs_def [symmetric]
    using st by (intro exI [of _ cut]) (auto simp: loop_inv_def)
qed

text \<open>
  The exact answer of \<open>missing_ranges\<close>. The returned ranges are non-empty, ascending and
  maximal (never adjacent), they cover exactly the missing chunks below some cut-off and no present
  one, they ask for at most \<open>max_chunks\<close> chunks in at most \<open>max_ranges\<close> ranges, and the cut-off is
  the end of the blob unless one of the two limits was reached in full.
\<close>

theorem missing_ranges_exact:
  "\<exists>cut \<le> chunk_count bm.
     let rs = missing_ranges bm max_chunks max_ranges in
     covered rs = {i. i < cut \<and> i \<notin> chunks bm} \<and> separated rs \<and>
     sum_list (map range_count rs) = card (covered rs) \<and>
     card (covered rs) \<le> max_chunks \<and> length rs \<le> max_ranges \<and>
     (cut = chunk_count bm \<or> card (covered rs) = max_chunks \<or> length rs = max_ranges)"
  unfolding Let_def by (rule missing_ranges_facts)

section \<open>Transfers finish\<close>

text \<open>
  A fetch loop asks for something, receives part of what it asked for and records it. The
  interface: what is outstanding shrinks by what is recorded, and a request names outstanding
  work whenever there is any. The other side is an arbitrary answer to requests, possibly another
  one every round; all that is asked of it is that a request that names chunks is answered with at
  least one of them and with nothing else.
\<close>

definition serves :: "('r \<Rightarrow> nat set) \<Rightarrow> ('r \<Rightarrow> nat list) \<Rightarrow> bool" where
  "serves named answer \<longleftrightarrow> (\<forall>r. set (answer r) \<subseteq> named r \<and> (named r \<noteq> {} \<longrightarrow> answer r \<noteq> []))"

locale windowed_fetch =
  fixes outstanding :: "'s \<Rightarrow> nat set"
    and request :: "'s \<Rightarrow> 'r"
    and named :: "'r \<Rightarrow> nat set"
    and receive :: "'s \<Rightarrow> nat list \<Rightarrow> 's"
    and good :: "'s \<Rightarrow> bool"
  assumes finite_outstanding: "finite (outstanding s)"
    and request_outstanding: "named (request s) \<subseteq> outstanding s"
    and request_progress: "outstanding s \<noteq> {} \<Longrightarrow> named (request s) \<noteq> {}"
    and receive_outstanding:
      "good s \<Longrightarrow> set got \<subseteq> named (request s) \<Longrightarrow> outstanding (receive s got) = outstanding s - set got"
    and receive_good: "good s \<Longrightarrow> good (receive s got)"
begin

lemma round_shrinks:
  assumes "good s" "serves named answer"
  shows "card (outstanding (receive s (answer (request s)))) \<le> card (outstanding s) - 1"
proof -
  let ?got = "answer (request s)"
  have got: "set ?got \<subseteq> named (request s)" "named (request s) \<noteq> {} \<Longrightarrow> ?got \<noteq> []"
    using assms(2) by (auto simp: serves_def)
  have t: "outstanding (receive s ?got) = outstanding s - set ?got"
    using assms(1) got(1) by (rule receive_outstanding)
  show ?thesis
  proof (cases "outstanding s = {}")
    case False
    then have "?got \<noteq> []" by (intro got(2) request_progress)
    then obtain i where "i \<in> set ?got" "i \<in> outstanding s"
      using got(1) request_outstanding [of s] by (cases ?got) auto
    then have "outstanding (receive s ?got) \<subset> outstanding s" unfolding t by blast
    with finite_outstanding have "card (outstanding (receive s ?got)) < card (outstanding s)"
      by (rule psubset_card_mono)
    then show ?thesis by linarith
  qed (simp add: t)
qed

lemma rounds_shrink:
  "good s \<Longrightarrow> list_all (serves named) answers \<Longrightarrow>
   good (foldl (\<lambda>s answer. receive s (answer (request s))) s answers) \<and>
   card (outstanding (foldl (\<lambda>s answer. receive s (answer (request s))) s answers)) \<le> card (outstanding s) - length answers"
proof (induction answers arbitrary: s)
  case (Cons answer answers)
  then have "serves named answer" "list_all (serves named) answers" by simp_all
  with Cons.IH [OF receive_good [OF Cons.prems(1)], of "answer (request s)"] round_shrinks [OF Cons.prems(1), of answer]
  show ?case by (simp, linarith)
qed simp

lemma enough_rounds:
  assumes "good s" "list_all (serves named) answers" "card (outstanding s) \<le> length answers"
  shows "good (foldl (\<lambda>s answer. receive s (answer (request s))) s answers) \<and>
    outstanding (foldl (\<lambda>s answer. receive s (answer (request s))) s answers) = {}"
  using rounds_shrink [OF assms(1,2)] assms(3) finite_outstanding by simp

end

definition missing :: "chunk_bitmap \<Rightarrow> nat set" where
  "missing bm = {..<chunk_count bm} - chunks bm"

definition receive_chunks :: "chunk_bitmap \<Rightarrow> nat list \<Rightarrow> chunk_bitmap" where
  "receive_chunks bm got = foldl (\<lambda>b i. snd (bm_set b i)) bm got"

lemma receive_chunks_spec:
  "bitmap_inv bm \<Longrightarrow>
   bitmap_inv (receive_chunks bm got) \<and> chunk_count (receive_chunks bm got) = chunk_count bm \<and>
   missing (receive_chunks bm got) = missing bm - set got"
proof (induction got rule: rev_induct)
  case (snoc i got)
  define b where "b = receive_chunks bm got"
  note b = snoc.IH [OF snoc.prems, folded b_def]
  have step: "receive_chunks bm (got @ [i]) = snd (bm_set b i)"
    by (simp add: receive_chunks_def b_def)
  have "missing (snd (bm_set b i)) = missing b - {i}"
    using bm_set_spec(2,3) [of b i] b unfolding missing_def by (cases "i < chunk_count b") auto
  moreover have "missing bm - set got - {i} = missing bm - set (got @ [i])" by auto
  ultimately show ?case
    using bm_set_spec(3,4) [of b i] b unfolding step by presburger
qed (simp add: receive_chunks_def)

lemma missing_ranges_subset: "covered (missing_ranges bm mc mr) \<subseteq> missing bm"
proof -
  obtain cut where "cut \<le> chunk_count bm"
      and cov: "covered (missing_ranges bm mc mr) = {i. i < cut \<and> i \<notin> chunks bm}"
    using missing_ranges_facts [of bm mc mr] by (elim exE conjE)
  then show ?thesis unfolding cov missing_def by auto
qed

lemma missing_ranges_progress:
  assumes "0 < mc" "0 < mr" "missing bm \<noteq> {}"
  shows "covered (missing_ranges bm mc mr) \<noteq> {}"
proof
  assume none: "covered (missing_ranges bm mc mr) = {}"
  obtain cut where f: "cut \<le> chunk_count bm"
      "covered (missing_ranges bm mc mr) = {i. i < cut \<and> i \<notin> chunks bm}" "separated (missing_ranges bm mc mr)"
      "cut = chunk_count bm \<or> card (covered (missing_ranges bm mc mr)) = mc \<or>
       length (missing_ranges bm mc mr) = mr"
    using missing_ranges_facts [of bm mc mr] by blast
  have "missing_ranges bm mc mr = []"
  proof (cases "missing_ranges bm mc mr" rule: rev_cases)
    case (snoc rs r)
    with f(3) none show ?thesis by (simp add: separated_def)
  qed
  with f none assms show False by (auto simp: missing_def)
qed

interpretation transfer: windowed_fetch missing "\<lambda>bm. missing_ranges bm (Suc mc) (Suc mr)" covered
  receive_chunks bitmap_inv for mc mr
proof unfold_locales
  fix bm got
  show "finite (missing bm)" by (simp add: missing_def)
  show "covered (missing_ranges bm (Suc mc) (Suc mr)) \<subseteq> missing bm"
    by (rule missing_ranges_subset)
  show "missing bm \<noteq> {} \<Longrightarrow> covered (missing_ranges bm (Suc mc) (Suc mr)) \<noteq> {}"
    by (rule missing_ranges_progress) simp_all
  show "bitmap_inv bm \<Longrightarrow> missing (receive_chunks bm got) = missing bm - set got"
    "bitmap_inv bm \<Longrightarrow> bitmap_inv (receive_chunks bm got)"
    using receive_chunks_spec by blast+
qed

lemma missing_empty_complete: "bitmap_inv bm \<Longrightarrow> missing bm = {} \<longleftrightarrow> is_complete bm"
proof -
  assume inv: "bitmap_inv bm"
  have sub: "chunks bm \<subseteq> {..<chunk_count bm}" by (auto dest: chunks_bound)
  have "is_complete bm \<longleftrightarrow> card (chunks bm) = card {..<chunk_count bm}"
    using inv by (simp add: is_complete_def bitmap_inv_def)
  also have "\<dots> \<longleftrightarrow> chunks bm = {..<chunk_count bm}"
    using card_subset_eq [OF finite_lessThan sub] by metis
  also have "\<dots> \<longleftrightarrow> missing bm = {}"
    using sub by (simp only: missing_def Diff_eq_empty_iff) (simp only: set_eq_subset simp_thms)
  finally show ?thesis by (rule sym)
qed

text \<open>One round: ask for what \<open>missing_ranges\<close> plans with the given window, record what comes back.\<close>

definition fetch_round :: "nat \<Rightarrow> nat \<Rightarrow> chunk_bitmap \<Rightarrow> (chunk_range list \<Rightarrow> nat list) \<Rightarrow> chunk_bitmap" where
  "fetch_round max_chunks max_ranges bm answer = receive_chunks bm (answer (missing_ranges bm max_chunks max_ranges))"

text \<open>
  Claim C38. A resumable transfer finishes. Start from any well-formed bitmap and let every round ask for
  \<open>missing_ranges\<close> with a non-zero window. The other side may answer every request as it likes, another
  way every round, in any order and with duplicates, as long as a request that names chunks is
  answered with at least one of them. After as many rounds as chunks were missing the blob is complete;
  so the planner keeps asking for something while anything is missing.
\<close>

theorem transfer_completes:
  assumes inv: "bitmap_inv bm" and window: "0 < max_chunks" "0 < max_ranges"
    and answers: "list_all (serves covered) answers" "chunk_count bm - present bm \<le> length answers"
  shows "is_complete (foldl (fetch_round max_chunks max_ranges) bm answers)"
proof -
  obtain mc mr where w: "max_chunks = Suc mc" "max_ranges = Suc mr"
    using window by (auto simp: gr0_conv_Suc)
  have "missing bm = {..<chunk_count bm} - chunks bm" by (simp add: missing_def)
  then have "card (missing bm) = chunk_count bm - present bm"
    using inv chunks_bound [of _ bm] by (simp add: bitmap_inv_def card_Diff_subset subset_iff)
  with answers(2) transfer.enough_rounds [OF inv answers(1), of mc mr]
  have "bitmap_inv (foldl (fetch_round max_chunks max_ranges) bm answers) \<and>
      missing (foldl (fetch_round max_chunks max_ranges) bm answers) = {}"
    by (simp add: w fetch_round_def [abs_def])
  then show ?thesis using missing_empty_complete by blast
qed

text \<open>Concrete instances.\<close>

theorem merge_is_union_witness:
  "bitmap_inv \<lparr>chunk_count = 3, present = 1, bits = [64]\<rparr> \<and>
   (\<exists>gained bm'. bm_merge \<lparr>chunk_count = 3, present = 1, bits = [64]\<rparr>
       \<lparr>chunk_count = 3, present = 2, bits = [192]\<rparr> = Inr (gained, bm') \<and> bitmap_inv bm' \<and> gained = 1)"
proof -
  have at: "bit_at [64] i \<longleftrightarrow> i = 1" "bit_at [192] i \<longleftrightarrow> i = 0 \<or> i = 1" if "i < 8" for i
  proof -
    from that have "i = 0 \<or> i = 1 \<or> i = 2 \<or> i = 3 \<or> i = 4 \<or> i = 5 \<or> i = 6 \<or> i = 7" by linarith
    then show "bit_at [64] i \<longleftrightarrow> i = 1" "bit_at [192] i \<longleftrightarrow> i = 0 \<or> i = 1"
      by (elim disjE; simp add: bit_at_def)+
  qed
  have c: "chunks \<lparr>chunk_count = 3, present = 1, bits = [64]\<rparr> = {1}"
    "chunks \<lparr>chunk_count = 3, present = 2, bits = [192]\<rparr> = {0, 1}"
    by (auto simp: chunks_def at)
  have inv: "bitmap_inv \<lparr>chunk_count = 3, present = 1, bits = [64]\<rparr>"
    by (simp add: bitmap_inv_def c [unfolded One_nat_def] byte_len_def div_ceil_def at)
  from merge_is_union [OF inv, of "\<lparr>chunk_count = 3, present = 2, bits = [192]\<rparr>"] inv
  show ?thesis unfolding c by auto
qed

theorem bitmap_persist_roundtrip_witness:
  "\<exists>bm. bitmap_from_bytes 20 [135, 0, 16] = Inr bm \<and> bitmap_inv bm \<and> present bm = 5"
proof -
  have *: "bitmap_from_bytes 20 [135, 0, 16] = Inr \<lparr>chunk_count = 20, present = 5, bits = [135, 0, 16]\<rparr>"
    by (simp add: bitmap_from_bytes_def byte_len_def div_ceil_def count_ones_def upt_rec)
  then have "bitmap_inv \<lparr>chunk_count = 20, present = 5, bits = [135, 0, 16]\<rparr>"
    by (subst (asm) bitmap_persist_roundtrip) simp_all
  with * show ?thesis by simp
qed

theorem transfer_completes_witness:
  "is_complete (foldl (fetch_round 1 1) \<lparr>chunk_count = 2, present = 0, bits = [0]\<rparr>
     [\<lambda>rs. concat (map (\<lambda>r. [range_start r..<end_exclusive r]) rs), \<lambda>rs. concat (map (\<lambda>r. [range_start r..<end_exclusive r]) rs)])"
proof -
  let ?b = "\<lparr>chunk_count = 2, present = 0, bits = [0]\<rparr>"
  let ?all = "\<lambda>rs. concat (map (\<lambda>r. [range_start r..<end_exclusive r]) rs)"
  have inv: "bitmap_inv ?b"
    by (simp add: bitmap_inv_def chunks_def bit_at_def byte_len_def div_ceil_def)
  have all: "serves covered ?all"
  proof -
    have "set (?all rs) = covered rs" for rs by (auto simp: covered_def range_contains_def end_exclusive_def)
    then show ?thesis unfolding serves_def by (metis empty_set order_refl)
  qed
  show ?thesis by (rule transfer_completes [OF inv]) (use all in simp_all)
qed

end
