(* ===== verification/Device_Roster.thy ===== *)
theory Device_Roster
  imports Mesh_Prelude
begin

text \<open>
  The device certificates and rosters of \<open>core/src/device_roster.rs\<close>, first half: keys and ids, the
  bytes that are signed, and the wire codec. Ed25519 and BLAKE2b are third-party crates; they are
  the parameter \<open>crypto\<close>, and what a theorem relies on is a named hypothesis on it.
  The lemmas show that signatures of different contexts never share a pre-image, that a signed
  roster commits to every field, and that the wire codec is a bijection between the encodable
  rosters and the accepted byte strings.
\<close>

section \<open>Third-party cryptography\<close>

text \<open>
  \<open>blake2b n m\<close> is the \<open>n\<close>-byte BLAKE2b digest, \<open>ed_pk_ok\<close> says that 32 bytes decompress to a
  curve point, \<open>ed_verify\<close> is signature verification, \<open>ed_pk\<close> and \<open>ed_sign\<close> are the public key and
  the signature of a secret key.
\<close>

record crypto =
  blake2b :: "nat \<Rightarrow> bytes \<Rightarrow> bytes"
  ed_pk_ok :: "bytes \<Rightarrow> bool"
  ed_verify :: "bytes \<Rightarrow> bytes \<Rightarrow> bytes \<Rightarrow> bool"
  ed_pk :: "bytes \<Rightarrow> bytes"
  ed_sign :: "bytes \<Rightarrow> bytes \<Rightarrow> bytes"

definition digest_widths :: "crypto \<Rightarrow> bool" where
  "digest_widths cr \<longleftrightarrow> (\<forall>n m. length (blake2b cr n m) = n)"

definition signatures_verify :: "crypto \<Rightarrow> bool" where
  "signatures_verify cr \<longleftrightarrow> (\<forall>sk m. length sk = 32 \<longrightarrow>
     length (ed_pk cr sk) = 32 \<and> ed_pk_ok cr (ed_pk cr sk) \<and> length (ed_sign cr sk m) = 64 \<and>
     ed_verify cr (ed_pk cr sk) m (ed_sign cr sk m))"

section \<open>Keys, ids and signing contexts\<close>

definition DEVICE_ID_LEN :: nat where
  "DEVICE_ID_LEN = 16"

definition LEGACY_DEVICE_ID :: bytes where
  "LEGACY_DEVICE_ID = replicate 16 0"

definition KEY_LEN :: nat where
  "KEY_LEN = 32"

definition SIGNATURE_LEN :: nat where
  "SIGNATURE_LEN = 64"

definition ROSTER_HEAD_HASH_LEN :: nat where
  "ROSTER_HEAD_HASH_LEN = 32"

definition DEVICE_SOFT_CAP :: u32 where
  "DEVICE_SOFT_CAP = 8"

definition DEVICE_HARD_CAP :: u32 where
  "DEVICE_HARD_CAP = 16"

definition DEVICE_CERT_FLAG_ROSTER_SIGNING :: u32 where
  "DEVICE_CERT_FLAG_ROSTER_SIGNING = push_bit 0 1"

definition DEVICE_CERT_SIGN_DOMAIN :: bytes where
  "DEVICE_CERT_SIGN_DOMAIN = ascii ''CruiseMesh device certificate v1'' @ [0]"

definition ROSTER_SIGN_DOMAIN :: bytes where
  "ROSTER_SIGN_DOMAIN = ascii ''CruiseMesh device roster v1'' @ [0]"

definition MESSAGE_AUTHORING_SIGN_DOMAIN :: bytes where
  "MESSAGE_AUTHORING_SIGN_DOMAIN = ascii ''CruiseMesh device message authoring v1'' @ [0]"

definition SYNC_RECORD_SIGN_DOMAIN :: bytes where
  "SYNC_RECORD_SIGN_DOMAIN = ascii ''CruiseMesh device sync record v1'' @ [0]"

definition DEVICE_LINK_ACTIVATION_SIGN_DOMAIN :: bytes where
  "DEVICE_LINK_ACTIVATION_SIGN_DOMAIN = ascii ''CruiseMesh device link activation v1'' @ [0]"

definition DEVICE_LINK_BOOTSTRAP_SIGN_DOMAIN :: bytes where
  "DEVICE_LINK_BOOTSTRAP_SIGN_DOMAIN = ascii ''CruiseMesh device link bootstrap v1'' @ [0]"

definition LAN_OWN_DEVICE_PROOF_SIGN_DOMAIN :: bytes where
  "LAN_OWN_DEVICE_PROOF_SIGN_DOMAIN = ascii ''CruiseMesh LAN own device proof v1'' @ [0]"

definition ROSTER_HEAD_HASH_DOMAIN :: bytes where
  "ROSTER_HEAD_HASH_DOMAIN = ascii ''CruiseMesh device roster head v1'' @ [0]"

definition DEVICE_HINT_NAMESPACE_DOMAIN :: bytes where
  "DEVICE_HINT_NAMESPACE_DOMAIN = ascii ''CruiseMesh device hint namespace v1'' @ [0]"

datatype device_signing_domain =
    DomDeviceCert
  | DomRosterUpdate
  | DomMessageAuthoring
  | DomSyncRecord
  | DomDeviceLinkActivation
  | DomDeviceLinkBootstrap
  | DomLanOwnDeviceProof

fun domain_separator :: "device_signing_domain \<Rightarrow> bytes" where
  "domain_separator DomDeviceCert = DEVICE_CERT_SIGN_DOMAIN"
| "domain_separator DomRosterUpdate = ROSTER_SIGN_DOMAIN"
| "domain_separator DomMessageAuthoring = MESSAGE_AUTHORING_SIGN_DOMAIN"
| "domain_separator DomSyncRecord = SYNC_RECORD_SIGN_DOMAIN"
| "domain_separator DomDeviceLinkActivation = DEVICE_LINK_ACTIVATION_SIGN_DOMAIN"
| "domain_separator DomDeviceLinkBootstrap = DEVICE_LINK_BOOTSTRAP_SIGN_DOMAIN"
| "domain_separator DomLanOwnDeviceProof = LAN_OWN_DEVICE_PROOF_SIGN_DOMAIN"

definition derive_user_id :: "crypto \<Rightarrow> bytes \<Rightarrow> bytes" where
  "derive_user_id cr sign_pk = blake2b cr 16 sign_pk"

definition key_len_err :: "nat \<Rightarrow> nat \<Rightarrow> core_error" where
  "key_len_err expected actual = InvalidKeyLength expected (actual mod 2 ^ 32)"

definition check_key_len :: "bytes \<Rightarrow> nat \<Rightarrow> unit result" where
  "check_key_len key expected =
     (if length key \<noteq> expected then Inl (key_len_err expected (length key)) else Inr ())"

record device_keypair =
  kp_device_id :: bytes
  kp_sign_pk :: bytes
  kp_sign_sk :: bytes
  kp_agree_pk :: bytes
  kp_agree_sk :: bytes

definition DEVICE_KEYPAIR_LEN :: nat where
  "DEVICE_KEYPAIR_LEN = DEVICE_ID_LEN + 4 * KEY_LEN"

fun check_all_key_len :: "bytes list \<Rightarrow> nat \<Rightarrow> unit result" where
  "check_all_key_len [] n = Inr ()"
| "check_all_key_len (k # ks) n = and_then (check_key_len k n) (\<lambda>_. check_all_key_len ks n)"

definition core_encode_device_keypair :: "device_keypair \<Rightarrow> bytes result" where
  "core_encode_device_keypair d =
     and_then (check_key_len (kp_device_id d) DEVICE_ID_LEN) (\<lambda>_.
     and_then (check_all_key_len [kp_sign_pk d, kp_sign_sk d, kp_agree_pk d, kp_agree_sk d] KEY_LEN) (\<lambda>_.
     Inr (kp_device_id d @ kp_sign_pk d @ kp_sign_sk d @ kp_agree_pk d @ kp_agree_sk d)))"

text \<open>\<open>bytes[a..b]\<close>.\<close>

definition slice :: "nat \<Rightarrow> nat \<Rightarrow> bytes \<Rightarrow> bytes" where
  "slice a b bs = take (b - a) (drop a bs)"

definition core_decode_device_keypair :: "crypto \<Rightarrow> bytes \<Rightarrow> device_keypair result" where
  "core_decode_device_keypair cr bs =
     (if length bs \<noteq> DEVICE_KEYPAIR_LEN then
        Inl (Malformed (''expected '' @ show_nat DEVICE_KEYPAIR_LEN @ '' device keypair bytes, got '' @
          show_nat (length bs)))
      else
        let sign_pk = slice 16 48 bs; device_id = derive_user_id cr sign_pk in
        if device_id \<noteq> slice 0 16 bs then
          Inl (Malformed ''stored device keypair does not match its own signing key'')
        else
          Inr \<lparr>kp_device_id = device_id, kp_sign_pk = sign_pk, kp_sign_sk = slice 48 80 bs,
                kp_agree_pk = slice 80 112 bs, kp_agree_sk = slice 112 144 bs\<rparr>)"

definition core_derive_device_id :: "crypto \<Rightarrow> bytes \<Rightarrow> bytes result" where
  "core_derive_device_id cr pk =
     (if length pk \<noteq> KEY_LEN then Inl (key_len_err KEY_LEN (length pk)) else Inr (derive_user_id cr pk))"

definition core_device_stream_id :: "bytes option \<Rightarrow> bytes" where
  "core_device_stream_id sender_device_id =
     (case sender_device_id of
        Some i \<Rightarrow> if length i = DEVICE_ID_LEN then i else LEGACY_DEVICE_ID
      | None \<Rightarrow> LEGACY_DEVICE_ID)"

definition len_prefixed :: "bytes \<Rightarrow> bytes" where
  "len_prefixed bs = u64_bytes (word_of_nat (length bs)) @ bs"

definition device_namespace_input :: "bytes \<Rightarrow> bytes \<Rightarrow> bytes" where
  "device_namespace_input person_id device_id =
     DEVICE_HINT_NAMESPACE_DOMAIN @ len_prefixed person_id @ len_prefixed device_id"

definition core_device_namespace_id :: "crypto \<Rightarrow> bytes \<Rightarrow> bytes \<Rightarrow> bytes" where
  "core_device_namespace_id cr person_id device_id =
     (if length device_id \<noteq> DEVICE_ID_LEN \<or> device_id = LEGACY_DEVICE_ID then person_id
      else blake2b cr DEVICE_ID_LEN (device_namespace_input person_id device_id))"

definition domain_signed_bytes :: "device_signing_domain \<Rightarrow> bytes \<Rightarrow> bytes" where
  "domain_signed_bytes domain message = domain_separator domain @ len_prefixed message"

definition signing_key_from_bytes :: "bytes \<Rightarrow> bytes result" where
  "signing_key_from_bytes sk = (if length sk \<noteq> 32 then Inl (key_len_err 32 (length sk)) else Inr sk)"

definition verifying_key_from_bytes :: "crypto \<Rightarrow> bytes \<Rightarrow> bytes result" where
  "verifying_key_from_bytes cr pk =
     (if length pk \<noteq> 32 then Inl (key_len_err 32 (length pk))
      else if ed_pk_ok cr pk then Inr pk else Inl (Crypto ''invalid Ed25519 public key''))"

definition verify_raw :: "crypto \<Rightarrow> bytes \<Rightarrow> bytes \<Rightarrow> bytes \<Rightarrow> unit result" where
  "verify_raw cr sign_pk signed_bytes signature =
     (if length signature \<noteq> SIGNATURE_LEN then Inl SignatureInvalid
      else and_then (verifying_key_from_bytes cr sign_pk) (\<lambda>key.
        if ed_verify cr key signed_bytes signature then Inr () else Inl SignatureInvalid))"

definition core_device_sign :: "crypto \<Rightarrow> device_signing_domain \<Rightarrow> bytes \<Rightarrow> bytes \<Rightarrow> bytes result" where
  "core_device_sign cr domain sk message =
     and_then (signing_key_from_bytes sk) (\<lambda>key. Inr (ed_sign cr key (domain_signed_bytes domain message)))"

definition core_device_verify ::
  "crypto \<Rightarrow> device_signing_domain \<Rightarrow> bytes \<Rightarrow> bytes \<Rightarrow> bytes \<Rightarrow> unit result" where
  "core_device_verify cr domain pk message signature =
     verify_raw cr pk (domain_signed_bytes domain message) signature"

section \<open>Certificates and rosters\<close>

record device_cert =
  cert_person_id :: bytes
  cert_device_sign_pk :: bytes
  cert_device_agree_pk :: bytes
  cert_added_epoch :: u64
  cert_flags :: u32
  cert_signer_sign_pk :: bytes
  cert_signature :: bytes

definition cert_device_id :: "crypto \<Rightarrow> device_cert \<Rightarrow> bytes" where
  "cert_device_id cr cert = derive_user_id cr (cert_device_sign_pk cert)"

definition device_cert_body :: "device_cert \<Rightarrow> bytes" where
  "device_cert_body c =
     len_prefixed (cert_person_id c) @ len_prefixed (cert_device_sign_pk c) @
     len_prefixed (cert_device_agree_pk c) @ u64_bytes (cert_added_epoch c) @
     u32_bytes (cert_flags c) @ len_prefixed (cert_signer_sign_pk c)"

definition device_cert_signed_bytes :: "device_cert \<Rightarrow> bytes" where
  "device_cert_signed_bytes c = DEVICE_CERT_SIGN_DOMAIN @ device_cert_body c"

definition core_sign_device_cert :: "crypto \<Rightarrow> device_cert \<Rightarrow> bytes \<Rightarrow> device_cert result" where
  "core_sign_device_cert cr cert sk =
     and_then (signing_key_from_bytes sk) (\<lambda>key.
       let cert = cert\<lparr>cert_signer_sign_pk := ed_pk cr key\<rparr>
       in Inr (cert\<lparr>cert_signature := ed_sign cr key (device_cert_signed_bytes cert)\<rparr>))"

definition core_verify_device_cert :: "crypto \<Rightarrow> device_cert \<Rightarrow> unit result" where
  "core_verify_device_cert cr cert =
     verify_raw cr (cert_signer_sign_pk cert) (device_cert_signed_bytes cert) (cert_signature cert)"

record device_tombstone =
  tomb_device_id :: bytes
  revoked_at_seq :: u64

record roster =
  person_id :: bytes
  recovery_epoch :: u64
  roster_seq :: u64
  devices :: "device_cert list"
  tombstones :: "device_tombstone list"
  approving_device_id :: bytes
  inbox_key_generation :: u64
  signer_sign_pk :: bytes
  signature :: bytes

record roster_version =
  rv_epoch :: u64
  rv_seq :: u64

definition version_of :: "roster \<Rightarrow> roster_version" where
  "version_of r = \<lparr>rv_epoch = recovery_epoch r, rv_seq = roster_seq r\<rparr>"

text \<open>The derived \<open>Ord\<close> of \<open>RosterVersion\<close>: lexicographic.\<close>

definition version_less :: "roster_version \<Rightarrow> roster_version \<Rightarrow> bool" where
  "version_less a b \<longleftrightarrow> rv_epoch a < rv_epoch b \<or> rv_epoch a = rv_epoch b \<and> rv_seq a < rv_seq b"

definition cert_frame :: "device_cert \<Rightarrow> bytes" where
  "cert_frame c = len_prefixed (device_cert_body c @ len_prefixed (cert_signature c))"

definition tombstone_frame :: "device_tombstone \<Rightarrow> bytes" where
  "tombstone_frame t = len_prefixed (tomb_device_id t) @ u64_bytes (revoked_at_seq t)"

definition roster_signed_bytes :: "roster \<Rightarrow> bytes" where
  "roster_signed_bytes r =
     ROSTER_SIGN_DOMAIN @ len_prefixed (person_id r) @ u64_bytes (recovery_epoch r) @
     u64_bytes (roster_seq r) @ u64_bytes (word_of_nat (length (devices r))) @
     concat (map cert_frame (devices r)) @ u64_bytes (word_of_nat (length (tombstones r))) @
     concat (map tombstone_frame (tombstones r)) @ len_prefixed (approving_device_id r) @
     u64_bytes (inbox_key_generation r) @ len_prefixed (signer_sign_pk r)"

definition core_sign_roster :: "crypto \<Rightarrow> roster \<Rightarrow> bytes \<Rightarrow> roster result" where
  "core_sign_roster cr r sk =
     and_then (signing_key_from_bytes sk) (\<lambda>key.
       let r = r\<lparr>signer_sign_pk := ed_pk cr key\<rparr>
       in Inr (r\<lparr>signature := ed_sign cr key (roster_signed_bytes r)\<rparr>))"

definition roster_head_hash :: "crypto \<Rightarrow> roster \<Rightarrow> bytes" where
  "roster_head_hash cr r =
     blake2b cr ROSTER_HEAD_HASH_LEN (ROSTER_HEAD_HASH_DOMAIN @ roster_signed_bytes r)"

definition core_roster_device_ids :: "crypto \<Rightarrow> roster \<Rightarrow> bytes list" where
  "core_roster_device_ids cr r = map (cert_device_id cr) (devices r)"

section \<open>Wire codec\<close>

definition ROSTER_WIRE_VERSION :: u8 where
  "ROSTER_WIRE_VERSION = 1"

definition push_wire_bytes :: "bytes \<Rightarrow> bytes result" where
  "push_wire_bytes bs =
     (if length bs > 65535 then Inl (Malformed ''roster field is too long to encode'')
      else Inr (wire_bytes bs))"

definition push_wire_count :: "nat \<Rightarrow> string \<Rightarrow> bytes result" where
  "push_wire_count cnt field =
     (if cnt > 65535 then Inl (Malformed (''roster has too many '' @ field @ '' to encode''))
      else Inr (u16_bytes (word_of_nat cnt)))"

fun push_all :: "('a \<Rightarrow> bytes result) \<Rightarrow> 'a list \<Rightarrow> bytes result" where
  "push_all push [] = Inr []"
| "push_all push (x # xs) = and_then (push x) (\<lambda>a. and_then (push_all push xs) (\<lambda>b. Inr (a @ b)))"

definition push_cert :: "device_cert \<Rightarrow> bytes result" where
  "push_cert c =
     and_then (push_wire_bytes (cert_person_id c)) (\<lambda>a.
     and_then (push_wire_bytes (cert_device_sign_pk c)) (\<lambda>b.
     and_then (push_wire_bytes (cert_device_agree_pk c)) (\<lambda>d.
     and_then (push_wire_bytes (cert_signer_sign_pk c)) (\<lambda>e.
     and_then (push_wire_bytes (cert_signature c)) (\<lambda>f.
     Inr (a @ b @ d @ u64_bytes (cert_added_epoch c) @ u32_bytes (cert_flags c) @ e @ f))))))"

definition push_tombstone :: "device_tombstone \<Rightarrow> bytes result" where
  "push_tombstone t =
     and_then (push_wire_bytes (tomb_device_id t)) (\<lambda>a. Inr (a @ u64_bytes (revoked_at_seq t)))"

definition core_encode_roster :: "roster \<Rightarrow> bytes result" where
  "core_encode_roster r =
     and_then (push_wire_bytes (person_id r)) (\<lambda>pid.
     and_then (push_wire_count (length (devices r)) ''devices'') (\<lambda>nd.
     and_then (push_all push_cert (devices r)) (\<lambda>ds.
     and_then (push_wire_count (length (tombstones r)) ''tombstones'') (\<lambda>nt.
     and_then (push_all push_tombstone (tombstones r)) (\<lambda>ts.
     and_then (push_wire_bytes (approving_device_id r)) (\<lambda>ap.
     and_then (push_wire_bytes (signer_sign_pk r)) (\<lambda>sk.
     and_then (push_wire_bytes (signature r)) (\<lambda>sg.
     Inr ([ROSTER_WIRE_VERSION] @ pid @ u64_bytes (recovery_epoch r) @ u64_bytes (roster_seq r) @
       nd @ ds @ nt @ ts @ ap @ u64_bytes (inbox_key_generation r) @ sk @ sg)))))))))"

definition roster_short :: "nat \<Rightarrow> nat \<Rightarrow> core_error" where
  "roster_short n pos =
     Malformed (''truncated roster: need '' @ show_nat n @ '' more byte(s) at offset '' @ show_nat pos)"

definition roster_finish :: "cursor \<Rightarrow> unit result" where
  "roster_finish c =
     (if cur_pos c \<noteq> length (cur_data c)
      then Inl (Malformed (show_nat (length (cur_data c) - cur_pos c) @
             '' unexpected trailing byte(s) after the roster''))
      else Inr ())"

definition take_cert :: "cursor \<Rightarrow> (device_cert \<times> cursor) result" where
  "take_cert c =
     and_then (cursor_bytes roster_short c) (\<lambda>(pid, c).
     and_then (cursor_bytes roster_short c) (\<lambda>(spk, c).
     and_then (cursor_bytes roster_short c) (\<lambda>(apk, c).
     and_then (cursor_u64 roster_short c) (\<lambda>(epoch, c).
     and_then (cursor_u32 roster_short c) (\<lambda>(fl, c).
     and_then (cursor_bytes roster_short c) (\<lambda>(signer, c).
     and_then (cursor_bytes roster_short c) (\<lambda>(sg, c).
     Inr (\<lparr>cert_person_id = pid, cert_device_sign_pk = spk, cert_device_agree_pk = apk,
           cert_added_epoch = epoch, cert_flags = fl, cert_signer_sign_pk = signer,
           cert_signature = sg\<rparr>, c))))))))"

definition take_tombstone :: "cursor \<Rightarrow> (device_tombstone \<times> cursor) result" where
  "take_tombstone c =
     and_then (cursor_bytes roster_short c) (\<lambda>(i, c).
     and_then (cursor_u64 roster_short c) (\<lambda>(s, c).
     Inr (\<lparr>tomb_device_id = i, revoked_at_seq = s\<rparr>, c)))"

definition core_decode_roster :: "bytes \<Rightarrow> roster result" where
  "core_decode_roster bs =
     and_then (cursor_u8 roster_short (cursor_new bs)) (\<lambda>(version, c).
     if version \<noteq> ROSTER_WIRE_VERSION
     then Inl (Malformed (''unsupported roster wire version '' @ show_nat (unat version)))
     else
     and_then (cursor_bytes roster_short c) (\<lambda>(pid, c).
     and_then (cursor_u64 roster_short c) (\<lambda>(epoch, c).
     and_then (cursor_u64 roster_short c) (\<lambda>(sq, c).
     and_then (cursor_u16 roster_short c) (\<lambda>(nd, c).
     and_then (read_many take_cert (unat nd) c) (\<lambda>(ds, c).
     and_then (cursor_u16 roster_short c) (\<lambda>(nt, c).
     and_then (read_many take_tombstone (unat nt) c) (\<lambda>(ts, c).
     and_then (cursor_bytes roster_short c) (\<lambda>(ap, c).
     and_then (cursor_u64 roster_short c) (\<lambda>(gen, c).
     and_then (cursor_bytes roster_short c) (\<lambda>(signer, c).
     and_then (cursor_bytes roster_short c) (\<lambda>(sg, c).
     and_then (roster_finish c) (\<lambda>_.
     Inr \<lparr>person_id = pid, recovery_epoch = epoch, roster_seq = sq, devices = ds, tombstones = ts,
          approving_device_id = ap, inbox_key_generation = gen, signer_sign_pk = signer,
          signature = sg\<rparr>)))))))))))))"

subsection \<open>The codec is a bijection\<close>

lemma cursor_done: "roster_finish (cur_at pre bs) = Inr () \<longleftrightarrow> bs = []"
  by (simp add: roster_finish_def cur_at_def)

definition cert_wire :: "device_cert \<Rightarrow> bytes" where
  "cert_wire c = wire_bytes (cert_person_id c) @ wire_bytes (cert_device_sign_pk c) @
     wire_bytes (cert_device_agree_pk c) @ u64_bytes (cert_added_epoch c) @ u32_bytes (cert_flags c) @
     wire_bytes (cert_signer_sign_pk c) @ wire_bytes (cert_signature c)"

definition cert_fits :: "device_cert \<Rightarrow> bool" where
  "cert_fits c \<longleftrightarrow> length (cert_person_id c) \<le> 65535 \<and> length (cert_device_sign_pk c) \<le> 65535 \<and>
     length (cert_device_agree_pk c) \<le> 65535 \<and> length (cert_signer_sign_pk c) \<le> 65535 \<and>
     length (cert_signature c) \<le> 65535"

definition tombstone_wire :: "device_tombstone \<Rightarrow> bytes" where
  "tombstone_wire t = wire_bytes (tomb_device_id t) @ u64_bytes (revoked_at_seq t)"

definition tombstone_fits :: "device_tombstone \<Rightarrow> bool" where
  "tombstone_fits t \<longleftrightarrow> length (tomb_device_id t) \<le> 65535"

lemma push_wire_bytes_Inr: "push_wire_bytes b = Inr w \<longleftrightarrow> length b \<le> 65535 \<and> w = wire_bytes b"
  by (auto simp: push_wire_bytes_def)

lemma push_wire_count_Inr:
  "push_wire_count n f = Inr w \<longleftrightarrow> n \<le> 65535 \<and> w = u16_bytes (word_of_nat n)"
  by (auto simp: push_wire_count_def)

lemma push_cert_Inr: "push_cert c = Inr w \<longleftrightarrow> cert_fits c \<and> w = cert_wire c"
  by (auto simp: push_cert_def and_then_Inr push_wire_bytes_Inr cert_fits_def cert_wire_def)

lemma push_tombstone_Inr: "push_tombstone t = Inr w \<longleftrightarrow> tombstone_fits t \<and> w = tombstone_wire t"
  by (auto simp: push_tombstone_def and_then_Inr push_wire_bytes_Inr tombstone_fits_def tombstone_wire_def)

lemma push_all_Inr:
  assumes "\<And>x w. push x = Inr w \<longleftrightarrow> ok x \<and> w = put x"
  shows "push_all push xs = Inr w \<longleftrightarrow> list_all ok xs \<and> w = concat (map put xs)"
  by (induction xs arbitrary: w) (auto simp: and_then_Inr assms)

interpretation cert_codec: cursor_codec cert_wire take_cert cert_fits
proof unfold_locales
  fix x pre r
  assume "cert_fits x"
  then show "take_cert (cur_at pre (cert_wire x @ r)) = Inr (x, cur_at (pre @ cert_wire x) r)"
    by (simp add: take_cert_def cert_wire_def cert_fits_def codec_simps)
next
  fix pre bs x d
  assume "take_cert (cur_at pre bs) = Inr (x, d)"
  then show "cert_fits x \<and> (\<exists>r. bs = cert_wire x @ r \<and> d = cur_at (pre @ cert_wire x) r)"
    by (auto simp: take_cert_def cert_wire_def cert_fits_def and_then_Inr dest!: wire_sound)
qed

interpretation tombstone_codec: cursor_codec tombstone_wire take_tombstone tombstone_fits
proof unfold_locales
  fix x pre r
  assume "tombstone_fits x"
  then show "take_tombstone (cur_at pre (tombstone_wire x @ r)) = Inr (x, cur_at (pre @ tombstone_wire x) r)"
    by (simp add: take_tombstone_def tombstone_wire_def tombstone_fits_def codec_simps)
next
  fix pre bs x d
  assume "take_tombstone (cur_at pre bs) = Inr (x, d)"
  then show "tombstone_fits x \<and> (\<exists>r. bs = tombstone_wire x @ r \<and> d = cur_at (pre @ tombstone_wire x) r)"
    by (auto simp: take_tombstone_def tombstone_wire_def tombstone_fits_def and_then_Inr dest!: wire_sound)
qed

definition roster_fits :: "roster \<Rightarrow> bool" where
  "roster_fits r \<longleftrightarrow> length (person_id r) \<le> 65535 \<and> length (devices r) \<le> 65535 \<and>
     list_all cert_fits (devices r) \<and> length (tombstones r) \<le> 65535 \<and>
     list_all tombstone_fits (tombstones r) \<and> length (approving_device_id r) \<le> 65535 \<and>
     length (signer_sign_pk r) \<le> 65535 \<and> length (signature r) \<le> 65535"

definition roster_wire :: "roster \<Rightarrow> bytes" where
  "roster_wire r = ROSTER_WIRE_VERSION # wire_bytes (person_id r) @ u64_bytes (recovery_epoch r) @
     u64_bytes (roster_seq r) @ u16_bytes (word_of_nat (length (devices r))) @
     concat (map cert_wire (devices r)) @ u16_bytes (word_of_nat (length (tombstones r))) @
     concat (map tombstone_wire (tombstones r)) @ wire_bytes (approving_device_id r) @
     u64_bytes (inbox_key_generation r) @ wire_bytes (signer_sign_pk r) @ wire_bytes (signature r) @ []"

lemma core_encode_roster_Inr: "core_encode_roster r = Inr w \<longleftrightarrow> roster_fits r \<and> w = roster_wire r"
  by (auto simp: core_encode_roster_def and_then_Inr push_wire_bytes_Inr push_wire_count_Inr
      push_all_Inr [OF push_cert_Inr] push_all_Inr [OF push_tombstone_Inr] roster_fits_def roster_wire_def)

lemma roster_finish_Nil: "roster_finish (cur_at pre []) = Inr ()"
  by (simp add: cursor_done)

lemma unat_u16_le: "unat (w :: u16) \<le> 65535"
  using unat_lt_pow [of w] by simp

lemma unat_count: "n \<le> 65535 \<Longrightarrow> unat (word_of_nat n :: u16) = n"
  by (simp add: unat_of_nat)

lemma decode_roster_wire: "roster_fits r \<Longrightarrow> core_decode_roster (roster_wire r) = Inr r"
  by (simp add: roster_fits_def roster_wire_def core_decode_roster_def cursor_new_at unat_count
      cert_codec.many_put tombstone_codec.many_put roster_finish_Nil codec_simps del: append_Nil2)

lemma decode_roster_sound: "core_decode_roster bs = Inr r \<Longrightarrow> roster_fits r \<and> bs = roster_wire r"
  by (auto simp: core_decode_roster_def cursor_new_at and_then_Inr cursor_done unat_u16_le
      roster_fits_def roster_wire_def split: if_splits
      dest!: wire_sound cert_codec.many_sound tombstone_codec.many_sound)

text \<open>
  Claim C7. The wire codec of rosters is a bijection: a byte string decodes to a roster exactly
  when it is the encoding of that roster. So decoding loses nothing, trailing, truncated or
  non-canonical bytes never decode, and two byte strings never mean the same document.
\<close>

theorem roster_codec_bijective:
  "core_decode_roster bs = Inr r \<longleftrightarrow> core_encode_roster r = Inr bs"
  using decode_roster_wire decode_roster_sound by (auto simp: core_encode_roster_Inr)

section \<open>What a signature commits to\<close>

interpretation framed: prefix_code len_prefixed "\<lambda>b. length b < 2 ^ 64"
  by unfold_locales (auto simp: len_prefixed_def uint_frame_eq u64_count)

lemma framed_eq:
  "length x < 2 ^ 64 \<Longrightarrow> length y < 2 ^ 64 \<Longrightarrow> len_prefixed x @ r = len_prefixed y @ s \<longleftrightarrow> x = y \<and> r = s"
  using framed.put_split [of x y r s] by auto

lemmas frame_eqs = framed_eq uint_frame_eq u64_count

definition cert_sized :: "device_cert \<Rightarrow> bool" where
  "cert_sized c \<longleftrightarrow> length (cert_person_id c) < 2 ^ 64 \<and> length (cert_device_sign_pk c) < 2 ^ 64 \<and>
     length (cert_device_agree_pk c) < 2 ^ 64 \<and> length (cert_signer_sign_pk c) < 2 ^ 64 \<and>
     length (cert_signature c) < 2 ^ 64 \<and>
     length (device_cert_body c @ len_prefixed (cert_signature c)) < 2 ^ 64"

definition roster_sized :: "roster \<Rightarrow> bool" where
  "roster_sized r \<longleftrightarrow> length (person_id r) < 2 ^ 64 \<and> length (devices r) < 2 ^ 64 \<and>
     list_all cert_sized (devices r) \<and> length (tombstones r) < 2 ^ 64 \<and>
     list_all (\<lambda>t. length (tomb_device_id t) < 2 ^ 64) (tombstones r) \<and>
     length (approving_device_id r) < 2 ^ 64 \<and> length (signer_sign_pk r) < 2 ^ 64"

lemma cert_body_split:
  assumes "cert_sized x" "cert_sized y" "device_cert_body x @ r = device_cert_body y @ s"
  shows "x\<lparr>cert_signature := []\<rparr> = y\<lparr>cert_signature := []\<rparr> \<and> r = s"
  using assms unfolding device_cert_body_def cert_sized_def append_assoc
  by (cases x; cases y) (simp add: frame_eqs)

interpretation cert_frames: prefix_code cert_frame cert_sized
proof unfold_locales
  fix x y r s
  assume ok: "cert_sized x" "cert_sized y" and eq: "cert_frame x @ r = cert_frame y @ s"
  have "device_cert_body x @ len_prefixed (cert_signature x) @ [] =
      device_cert_body y @ len_prefixed (cert_signature y) @ [] \<and> r = s"
    using framed.put_split [OF _ _ eq [unfolded cert_frame_def]] ok by (simp add: cert_sized_def)
  then have "x\<lparr>cert_signature := []\<rparr> = y\<lparr>cert_signature := []\<rparr>"
    "len_prefixed (cert_signature x) @ [] = len_prefixed (cert_signature y) @ []" "r = s"
    using cert_body_split [OF ok] by blast+
  then show "x = y \<and> r = s"
    using framed.put_split [of "cert_signature x" "cert_signature y" "[]" "[]"] ok
    by (cases x; cases y) (simp add: cert_sized_def)
qed

interpretation tombstone_frames: prefix_code tombstone_frame "\<lambda>t. length (tomb_device_id t) < 2 ^ 64"
proof unfold_locales
  fix x y r s
  assume "length (tomb_device_id x) < 2 ^ 64" "length (tomb_device_id y) < 2 ^ 64"
    "tombstone_frame x @ r = tombstone_frame y @ s"
  then show "x = y \<and> r = s"
    unfolding tombstone_frame_def append_assoc by (cases x; cases y) (simp add: frame_eqs)
qed

lemma signed_bytes_eq_iff:
  assumes "roster_sized r" "roster_sized q"
  shows "roster_signed_bytes r = roster_signed_bytes q \<longleftrightarrow> r\<lparr>signature := []\<rparr> = q\<lparr>signature := []\<rparr>"
proof
  assume "r\<lparr>signature := []\<rparr> = q\<lparr>signature := []\<rparr>"
  then show "roster_signed_bytes r = roster_signed_bytes q"
    by (cases r; cases q) (simp add: roster_signed_bytes_def)
next
  assume eq: "roster_signed_bytes r = roster_signed_bytes q"
  define rest where "rest r = len_prefixed (approving_device_id r) @ u64_bytes (inbox_key_generation r) @
    len_prefixed (signer_sign_pk r) @ []" for r :: roster
  define tombs where "tombs r = concat (map tombstone_frame (tombstones r)) @ rest r" for r :: roster
  define certs where "certs r = concat (map cert_frame (devices r)) @
    u64_bytes (word_of_nat (length (tombstones r))) @ tombs r" for r :: roster
  have layout: "roster_signed_bytes r = ROSTER_SIGN_DOMAIN @ len_prefixed (person_id r) @
      u64_bytes (recovery_epoch r) @ u64_bytes (roster_seq r) @
      u64_bytes (word_of_nat (length (devices r))) @ certs r" for r
    by (simp add: roster_signed_bytes_def certs_def tombs_def rest_def)
  from eq assms have head: "person_id r = person_id q" "recovery_epoch r = recovery_epoch q"
      "roster_seq r = roster_seq q" "length (devices r) = length (devices q)" "certs r = certs q"
    unfolding layout roster_sized_def by (simp_all add: frame_eqs)
  have devs: "devices r = devices q \<and> u64_bytes (word_of_nat (length (tombstones r))) @ tombs r =
      u64_bytes (word_of_nat (length (tombstones q))) @ tombs q"
    using cert_frames.many_split [OF head(4) _ _ head(5) [unfolded certs_def]] assms
    by (simp add: roster_sized_def)
  then have w: "word_of_nat (length (tombstones r)) = (word_of_nat (length (tombstones q)) :: u64)"
    and t: "tombs r = tombs q"
    by (simp_all only: uint_frame_eq)
  from w have n: "length (tombstones r) = length (tombstones q)"
    using assms by (simp only: u64_count roster_sized_def)
  have tombs: "tombstones r = tombstones q \<and> rest r = rest q"
    using tombstone_frames.many_split [OF n _ _ t [unfolded tombs_def]] assms by (simp add: roster_sized_def)
  then have "approving_device_id r = approving_device_id q" "inbox_key_generation r = inbox_key_generation q"
    "signer_sign_pk r = signer_sign_pk q"
    using assms unfolding roster_sized_def rest_def by (simp_all only: frame_eqs)
  with head devs tombs show "r\<lparr>signature := []\<rparr> = q\<lparr>signature := []\<rparr>"
    by (cases r; cases q) simp
qed

text \<open>
  Claim C9. The bytes a roster signature covers determine every field of the document except the
  signature itself: person, version, each certificate with its own signature, each tombstone, the
  approving device, the inbox generation and the recorded signer. Equal signing bytes (or, by the
  same layout, equal head-hash inputs) mean the same document.
\<close>

theorem roster_signature_commits:
  assumes "roster_sized r" "roster_sized q"
  shows "roster_signed_bytes r = roster_signed_bytes q \<longleftrightarrow> r\<lparr>signature := []\<rparr> = q\<lparr>signature := []\<rparr>"
  using assms by (rule signed_bytes_eq_iff)

text \<open>The context strings: each is a NUL-free name and a NUL, and the names differ.\<close>

definition context_name :: "bytes \<Rightarrow> bytes" where
  "context_name bs = takeWhile (\<lambda>b. b \<noteq> 0) bs"

lemmas domain_defs =
  DEVICE_CERT_SIGN_DOMAIN_def ROSTER_SIGN_DOMAIN_def MESSAGE_AUTHORING_SIGN_DOMAIN_def
  SYNC_RECORD_SIGN_DOMAIN_def DEVICE_LINK_ACTIVATION_SIGN_DOMAIN_def
  DEVICE_LINK_BOOTSTRAP_SIGN_DOMAIN_def LAN_OWN_DEVICE_PROOF_SIGN_DOMAIN_def

lemma context_name_domain:
  "context_name (domain_separator d @ r) = butlast (domain_separator d)"
  by (cases d) (simp_all add: context_name_def domain_defs ascii_def)

lemma domain_separator_inj:
  assumes "domain_separator d @ r = domain_separator e @ s"
  shows "d = e \<and> r = s"
proof -
  have "butlast (domain_separator d) = butlast (domain_separator e)"
    using assms context_name_domain by metis
  then have "d = e"
    by (cases d; cases e) (simp_all add: domain_defs ascii_def)
  with assms show ?thesis by simp
qed

text \<open>
  Domain separation: the bytes that are signed determine the signing context and the
  message. A signature over a device message, sync record, link frame or LAN proof is never also a
  signature over another context's message, nor over a device certificate, nor over a roster, and a
  certificate's signing bytes are never a roster's.
\<close>

theorem signing_contexts_disjoint:
  assumes "length m < 2 ^ 64" "length n < 2 ^ 64" "cert_sized c" "roster_sized r"
  shows "(domain_signed_bytes d m = domain_signed_bytes e n \<longleftrightarrow> d = e \<and> m = n) \<and>
    domain_signed_bytes d m \<noteq> device_cert_signed_bytes c \<and>
    domain_signed_bytes d m \<noteq> roster_signed_bytes r \<and>
    device_cert_signed_bytes c \<noteq> roster_signed_bytes r"
proof (intro conjI)
  show "domain_signed_bytes d m = domain_signed_bytes e n \<longleftrightarrow> d = e \<and> m = n"
    using domain_separator_inj [of d "len_prefixed m" e "len_prefixed n"]
      framed.put_split [of m n "[]" "[]"] assms(1,2) by (auto simp: domain_signed_bytes_def)
  have cert: "device_cert_signed_bytes c = domain_separator DomDeviceCert @ device_cert_body c"
    by (simp add: device_cert_signed_bytes_def)
  obtain rest where rest: "roster_signed_bytes r =
      domain_separator DomRosterUpdate @ len_prefixed (person_id r) @ u64_bytes (recovery_epoch r) @ rest"
    by (simp add: roster_signed_bytes_def)
  show "device_cert_signed_bytes c \<noteq> roster_signed_bytes r"
    using domain_separator_inj [of DomDeviceCert _ DomRosterUpdate] unfolding cert rest by blast
  have nonempty: "u64_bytes w @ x \<noteq> []" for w x
    using length_u_bytes(3) [of w] by (metis append_is_Nil_conv list.size(3) zero_neq_numeral)
  show "domain_signed_bytes d m \<noteq> device_cert_signed_bytes c"
  proof
    assume "domain_signed_bytes d m = device_cert_signed_bytes c"
    then have "len_prefixed m @ [] = device_cert_body c"
      using domain_separator_inj [of d "len_prefixed m" DomDeviceCert] by (simp add: cert domain_signed_bytes_def)
    then have "len_prefixed m @ [] = len_prefixed (cert_person_id c) @ len_prefixed (cert_device_sign_pk c) @
        len_prefixed (cert_device_agree_pk c) @ u64_bytes (cert_added_epoch c) @ u32_bytes (cert_flags c) @
        len_prefixed (cert_signer_sign_pk c)"
      by (simp add: device_cert_body_def)
    from framed.put_split [OF assms(1) _ this] assms(3) nonempty show False
      by (auto simp: cert_sized_def)
  qed
  show "domain_signed_bytes d m \<noteq> roster_signed_bytes r"
  proof
    assume "domain_signed_bytes d m = roster_signed_bytes r"
    then have "len_prefixed m @ [] = len_prefixed (person_id r) @ u64_bytes (recovery_epoch r) @ rest"
      using domain_separator_inj [of d "len_prefixed m" DomRosterUpdate] by (simp add: rest domain_signed_bytes_def)
    from framed.put_split [OF assms(1) _ this] assms(4) nonempty show False
      by (auto simp: roster_sized_def)
  qed
qed

text \<open>
  Signing and verifying agree: with keys and signatures of the signature scheme's widths,
  a certificate and a roster signed by the code verify under the signer they record, and a device
  signature verifies in its own context.
\<close>

theorem signed_documents_verify:
  assumes "signatures_verify cr" "length sk = 32"
  shows "(\<exists>c'. core_sign_device_cert cr c sk = Inr c' \<and> core_verify_device_cert cr c' = Inr () \<and>
      cert_signer_sign_pk c' = ed_pk cr sk) \<and>
    (\<exists>r'. core_sign_roster cr r sk = Inr r' \<and> signer_sign_pk r' = ed_pk cr sk \<and>
      verify_raw cr (signer_sign_pk r') (roster_signed_bytes r') (signature r') = Inr ()) \<and>
    (\<exists>sg. core_device_sign cr d sk m = Inr sg \<and> core_device_verify cr d (ed_pk cr sk) m sg = Inr ())"
proof -
  have ok: "verify_raw cr (ed_pk cr sk) x (ed_sign cr sk x) = Inr ()" for x
    using assms by (simp add: signatures_verify_def verify_raw_def verifying_key_from_bytes_def SIGNATURE_LEN_def)
  have cert: "device_cert_signed_bytes (c\<lparr>cert_signature := s\<rparr>) = device_cert_signed_bytes c" for c :: device_cert and s
    by (simp add: device_cert_signed_bytes_def device_cert_body_def)
  have ros: "roster_signed_bytes (r\<lparr>signature := s\<rparr>) = roster_signed_bytes r" for r :: roster and s
    by (simp add: roster_signed_bytes_def)
  show ?thesis
    using assms(2) ok
    by (simp add: core_sign_device_cert_def core_verify_device_cert_def core_sign_roster_def
        core_device_sign_def core_device_verify_def signing_key_from_bytes_def Let_def cert ros)
qed

text \<open>
  Stored device keys survive storage: an encodable keypair whose id follows from its
  signing key decodes to itself, and whatever decodes encodes back to the same bytes and carries an
  id derived from its own signing key.
\<close>

theorem device_keypair_roundtrip:
  assumes "digest_widths cr"
  shows "core_decode_device_keypair cr bs = Inr d \<longleftrightarrow>
    core_encode_device_keypair d = Inr bs \<and> kp_device_id d = derive_user_id cr (kp_sign_pk d)"
proof -
  have w: "length (derive_user_id cr k) = 16" for k
    using assms by (simp add: digest_widths_def derive_user_id_def)
  have enc: "core_encode_device_keypair d = Inr bs \<longleftrightarrow>
      length (kp_device_id d) = 16 \<and> length (kp_sign_pk d) = 32 \<and> length (kp_sign_sk d) = 32 \<and>
      length (kp_agree_pk d) = 32 \<and> length (kp_agree_sk d) = 32 \<and>
      bs = kp_device_id d @ kp_sign_pk d @ kp_sign_sk d @ kp_agree_pk d @ kp_agree_sk d"
    by (auto simp: core_encode_device_keypair_def check_key_len_def and_then_Inr DEVICE_ID_LEN_def KEY_LEN_def)
  have split: "bs = slice 0 16 bs @ slice 16 48 bs @ slice 48 80 bs @ slice 80 112 bs @ slice 112 144 bs"
    if "length bs = 144"
  proof -
    have cut: "drop k bs = take 32 (drop k bs) @ drop (k + 32) bs" for k
      by (metis append_take_drop_id drop_drop add.commute)
    have "bs = take 16 bs @ drop 16 bs" by simp
    also have "drop 16 bs = slice 16 48 bs @ drop 48 bs" using cut [of 16] by (simp add: slice_def)
    also have "drop 48 bs = slice 48 80 bs @ drop 80 bs" using cut [of 48] by (simp add: slice_def)
    also have "drop 80 bs = slice 80 112 bs @ drop 112 bs" using cut [of 80] by (simp add: slice_def)
    also have "drop 112 bs = slice 112 144 bs" using that by (simp add: slice_def)
    also have "take 16 bs = slice 0 16 bs" by (simp add: slice_def)
    finally show ?thesis .
  qed
  show ?thesis
  proof
    assume dec: "core_decode_device_keypair cr bs = Inr d"
    then have len: "length bs = 144"
      by (simp add: core_decode_device_keypair_def DEVICE_KEYPAIR_LEN_def DEVICE_ID_LEN_def KEY_LEN_def
          split: if_splits)
    from dec have d: "derive_user_id cr (slice 16 48 bs) = slice 0 16 bs"
      "d = \<lparr>kp_device_id = slice 0 16 bs, kp_sign_pk = slice 16 48 bs, kp_sign_sk = slice 48 80 bs,
            kp_agree_pk = slice 80 112 bs, kp_agree_sk = slice 112 144 bs\<rparr>"
      by (auto simp: core_decode_device_keypair_def Let_def split: if_splits)
    have "length (slice a b bs) = b - a" if "b \<le> 144" for a b
      using that len by (simp add: slice_def)
    with d split [OF len] show "core_encode_device_keypair d = Inr bs \<and> kp_device_id d = derive_user_id cr (kp_sign_pk d)"
      unfolding enc by simp
  next
    assume "core_encode_device_keypair d = Inr bs \<and> kp_device_id d = derive_user_id cr (kp_sign_pk d)"
    then show "core_decode_device_keypair cr bs = Inr d"
      unfolding enc by (cases d) (simp add: core_decode_device_keypair_def slice_def Let_def
          DEVICE_KEYPAIR_LEN_def DEVICE_ID_LEN_def KEY_LEN_def w)
  qed
qed

section \<open>Concrete instances\<close>

text \<open>A stand-in scheme with the documented widths, to evaluate the hypotheses on.\<close>

definition sample_crypto :: crypto where
  "sample_crypto = \<lparr>blake2b = \<lambda>n m. if n = 16 then take n (m @ replicate n 0)
                             else take n (sum_list m # replicate n 0), ed_pk_ok = \<lambda>_. True,
     ed_verify = \<lambda>pk m s. s = pk @ take 32 (m @ replicate 32 0), ed_pk = \<lambda>sk. sk,
     ed_sign = \<lambda>sk m. sk @ take 32 (m @ replicate 32 0)\<rparr>"

lemma sample_crypto_ok [simp]: "digest_widths sample_crypto" "signatures_verify sample_crypto"
  by (simp_all add: digest_widths_def signatures_verify_def sample_crypto_def min_def)

definition sample_cert :: device_cert where
  "sample_cert = \<lparr>cert_person_id = replicate 16 1, cert_device_sign_pk = replicate 32 2,
     cert_device_agree_pk = replicate 32 3, cert_added_epoch = 0, cert_flags = 1,
     cert_signer_sign_pk = replicate 32 1, cert_signature = replicate 64 0\<rparr>"

definition sample_roster :: roster where
  "sample_roster = \<lparr>person_id = replicate 16 1, recovery_epoch = 0, roster_seq = 0,
     devices = [sample_cert], tombstones = [\<lparr>tomb_device_id = replicate 16 9, revoked_at_seq = 0\<rparr>],
     approving_device_id = replicate 16 2, inbox_key_generation = 1, signer_sign_pk = replicate 32 1,
     signature = replicate 64 0\<rparr>"

lemma sample_sized: "cert_sized sample_cert" "roster_sized sample_roster"
  "roster_sized (sample_roster\<lparr>inbox_key_generation := 2\<rparr>)"
  by (simp_all add: cert_sized_def roster_sized_def sample_cert_def sample_roster_def
      device_cert_body_def len_prefixed_def)

theorem roster_signature_commits_witness:
  "roster_sized sample_roster \<and>
   roster_signed_bytes sample_roster \<noteq> roster_signed_bytes (sample_roster\<lparr>inbox_key_generation := 2\<rparr>)"
  using roster_signature_commits [OF sample_sized(2,3)] sample_sized(2) by (simp add: sample_roster_def)

theorem signing_contexts_disjoint_witness:
  "domain_signed_bytes DomSyncRecord [7] \<noteq> domain_signed_bytes DomMessageAuthoring [7] \<and>
   domain_signed_bytes DomDeviceCert [7] \<noteq> device_cert_signed_bytes sample_cert"
  using signing_contexts_disjoint [OF _ _ sample_sized(1,2), of "[7]" "[7]" DomSyncRecord DomMessageAuthoring]
    signing_contexts_disjoint [OF _ _ sample_sized(1,2), of "[7]" "[7]" DomDeviceCert DomDeviceCert]
  by simp

theorem signed_documents_verify_witness:
  "\<exists>r'. core_sign_roster sample_crypto sample_roster (replicate 32 1) = Inr r' \<and>
     verify_raw sample_crypto (signer_sign_pk r') (roster_signed_bytes r') (signature r') = Inr ()"
  using signed_documents_verify [of sample_crypto "replicate 32 1" sample_cert sample_roster] by auto

theorem device_keypair_roundtrip_witness:
  "core_decode_device_keypair sample_crypto
     (replicate 16 2 @ replicate 32 2 @ replicate 32 3 @ replicate 32 4 @ replicate 32 5) =
   Inr \<lparr>kp_device_id = replicate 16 2, kp_sign_pk = replicate 32 2, kp_sign_sk = replicate 32 3,
         kp_agree_pk = replicate 32 4, kp_agree_sk = replicate 32 5\<rparr>"
  unfolding device_keypair_roundtrip [OF sample_crypto_ok(1)]
  by (simp add: core_encode_device_keypair_def check_key_len_def DEVICE_ID_LEN_def KEY_LEN_def
      derive_user_id_def sample_crypto_def)

end
