(* ===== verification/Roster_Validation.thy ===== *)
theory Roster_Validation
  imports Device_Roster
begin

text \<open>
  Validation of a roster against the person root, \<open>core_roster_validate\<close> of
  \<open>core/src/device_roster.rs\<close>: the fixed-width shape check, the device cap, duplicate and tombstone
  rules, the single roster-signing role, certificate signatures, the vouching fixpoint and the
  document signature. The lemmas show that the vouching loop terminates and computes exactly the
  certificates with a signature chain to the person root, and that validation accepts exactly the
  documents of a declarative specification.
\<close>

section \<open>Outcomes and the device cap\<close>

datatype roster_rejection =
    PersonMismatch
  | MalformedField
  | ReservedDeviceId
  | DuplicateDevice
  | CertSignatureInvalid
  | ChainBroken
  | RosterSignatureInvalid
  | SignerNotAuthorized
  | ApprovingDeviceMissing
  | ApprovingRoleMismatch
  | GenesisNotRootSigned
  | TombstonedDeviceActive
  | DeviceCapExceeded

datatype device_add_outcome = Added | AddedWithWarning | Refused

definition core_device_add_outcome :: "u32 \<Rightarrow> device_add_outcome" where
  "core_device_add_outcome n =
     (if n > DEVICE_HARD_CAP then Refused else if n > DEVICE_SOFT_CAP then AddedWithWarning else Added)"

section \<open>The checks, in the order of the code\<close>

fun scan_certs :: "crypto \<Rightarrow> bytes \<Rightarrow> bytes list \<Rightarrow> device_cert list \<Rightarrow> roster_rejection + bytes list" where
  "scan_certs cr pid ids [] = Inr ids"
| "scan_certs cr pid ids (c # cs) =
     (if length (cert_device_sign_pk c) \<noteq> KEY_LEN \<or> length (cert_device_agree_pk c) \<noteq> KEY_LEN \<or>
         length (cert_signer_sign_pk c) \<noteq> KEY_LEN \<or> length (cert_signature c) \<noteq> SIGNATURE_LEN
      then Inl MalformedField
      else if cert_person_id c \<noteq> pid then Inl PersonMismatch
      else let device_id = cert_device_id cr c in
        if device_id = LEGACY_DEVICE_ID then Inl ReservedDeviceId
        else if device_id \<in> set ids then Inl DuplicateDevice
        else scan_certs cr pid (ids @ [device_id]) cs)"

fun scan_tombstones :: "bytes list \<Rightarrow> bytes list \<Rightarrow> device_tombstone list \<Rightarrow> roster_rejection + bytes list" where
  "scan_tombstones device_ids ids [] = Inr ids"
| "scan_tombstones device_ids ids (t # ts) =
     (if length (tomb_device_id t) \<noteq> DEVICE_ID_LEN then Inl MalformedField
      else if tomb_device_id t \<in> set ids then Inl DuplicateDevice
      else if tomb_device_id t \<in> set device_ids then Inl TombstonedDeviceActive
      else scan_tombstones device_ids (ids @ [tomb_device_id t]) ts)"

text \<open>\<open>iter().position\<close>.\<close>

fun position_of :: "'a \<Rightarrow> 'a list \<Rightarrow> nat option" where
  "position_of x [] = None"
| "position_of x (y # ys) = (if y = x then Some 0 else map_option Suc (position_of x ys))"

definition signs_roster :: "device_cert \<Rightarrow> bool" where
  "signs_roster c \<longleftrightarrow> (cert_flags c) AND DEVICE_CERT_FLAG_ROSTER_SIGNING \<noteq> 0"

definition roles_ok :: "device_cert list \<Rightarrow> nat \<Rightarrow> bool" where
  "roles_ok certs approving =
     list_all (\<lambda>(index, c). signs_roster c = (index = approving)) (zip [0..<length certs] certs)"

definition cert_verifies :: "crypto \<Rightarrow> device_cert \<Rightarrow> bool" where
  "cert_verifies cr c \<longleftrightarrow>
     verify_raw cr (cert_signer_sign_pk c) (device_cert_signed_bytes c) (cert_signature c) = Inr ()"

subsection \<open>The vouching fixpoint\<close>

text \<open>
  One index of the inner loop, with the test \<open>reaches_root\<close> as an argument; one pass over all
  indices with the \<open>grew\<close> flag; and the outer loop, which ends when a pass adds nothing.
\<close>

definition vouch_one :: "(bool list \<Rightarrow> nat \<Rightarrow> bool) \<Rightarrow> bool list \<times> bool \<Rightarrow> nat \<Rightarrow> bool list \<times> bool" where
  "vouch_one reaches_root st index =
     (case st of (vouched, grew) \<Rightarrow>
        if vouched ! index then (vouched, grew)
        else if reaches_root vouched index then (vouched[index := True], True)
        else (vouched, grew))"

definition vouch_pass :: "(bool list \<Rightarrow> nat \<Rightarrow> bool) \<Rightarrow> bool list \<Rightarrow> bool list \<times> bool" where
  "vouch_pass reaches_root vouched =
     foldl (vouch_one reaches_root) (vouched, False) [0..<length vouched]"

definition unvouched :: "bool list \<Rightarrow> nat set" where
  "unvouched v = {i. i < length v \<and> \<not> v ! i}"

lemma finite_unvouched [simp]: "finite (unvouched v)"
  by (simp add: unvouched_def)

lemma vouch_fold:
  "list_all (\<lambda>i. i < length v) is \<Longrightarrow> foldl (vouch_one reach) (v, g) is = (v', g') \<Longrightarrow>
   length v' = length v \<and> unvouched v' \<subseteq> unvouched v \<and> (g \<longrightarrow> g') \<and>
   (g' \<and> \<not> g \<longrightarrow> unvouched v' \<subset> unvouched v) \<and>
   (\<not> g' \<longrightarrow> v' = v \<and> (\<forall>i \<in> set is. v ! i \<or> \<not> reach v i))"
proof (induction "is" arbitrary: v g)
  case (Cons i "is")
  show ?case
  proof (cases "\<not> v ! i \<and> reach v i")
    case True
    then have st: "vouch_one reach (v, g) i = (v[i := True], True)" by (simp add: vouch_one_def)
    have "unvouched (v[i := True]) = unvouched v - {i}" "i \<in> unvouched v"
      using True Cons.prems(1) by (auto simp: unvouched_def nth_list_update)
    then have "unvouched (v[i := True]) \<subset> unvouched v" by blast
    with Cons.IH [of "v[i := True]" True] Cons.prems st show ?thesis by auto
  next
    case False
    then have "vouch_one reach (v, g) i = (v, g)" by (auto simp: vouch_one_def)
    with Cons.IH [of v g] Cons.prems False show ?thesis by auto
  qed
qed simp

lemma vouch_pass_result:
  assumes "vouch_pass reach v = (v', g')"
  shows "length v' = length v" and "g' \<Longrightarrow> unvouched v' \<subset> unvouched v"
    and "\<not> g' \<Longrightarrow> v' = v" and "\<not> g' \<Longrightarrow> i < length v \<Longrightarrow> v ! i \<or> \<not> reach v i"
  using vouch_fold [OF _ assms [unfolded vouch_pass_def]] by (auto simp: list_all_iff)

function vouch_loop :: "(bool list \<Rightarrow> nat \<Rightarrow> bool) \<Rightarrow> bool list \<Rightarrow> bool list" where
  "vouch_loop reaches_root vouched =
     (case vouch_pass reaches_root vouched of (vouched', grew) \<Rightarrow>
        if grew then vouch_loop reaches_root vouched' else vouched')"
  by pat_completeness auto
termination
  by (relation "measure (\<lambda>(_, v). card (unvouched v))")
    (auto intro!: psubset_card_mono dest!: vouch_pass_result(2) [OF sym])

declare vouch_loop.simps [simp del]

definition reaches_root :: "bytes \<Rightarrow> device_cert list \<Rightarrow> bytes list \<Rightarrow> bytes list \<Rightarrow> bool list \<Rightarrow> nat \<Rightarrow> bool" where
  "reaches_root root certs device_ids signer_ids vouched index \<longleftrightarrow>
     cert_signer_sign_pk (certs ! index) = root \<or>
     list_ex (\<lambda>(v, i). v \<and> i = signer_ids ! index) (zip vouched device_ids)"

definition validate :: "crypto \<Rightarrow> roster \<Rightarrow> bytes \<Rightarrow> roster_rejection + unit" where
  "validate cr r root =
     (if length root \<noteq> KEY_LEN \<or> length (person_id r) \<noteq> DEVICE_ID_LEN \<or>
         length (approving_device_id r) \<noteq> DEVICE_ID_LEN \<or> length (signer_sign_pk r) \<noteq> KEY_LEN \<or>
         length (signature r) \<noteq> SIGNATURE_LEN
      then Inl MalformedField
      else if derive_user_id cr root \<noteq> person_id r then Inl PersonMismatch
      else if core_device_add_outcome (word_of_nat (length (devices r))) = Refused
      then Inl DeviceCapExceeded
      else
        and_then (scan_certs cr (person_id r) [] (devices r)) (\<lambda>device_ids.
        and_then (scan_tombstones device_ids [] (tombstones r)) (\<lambda>_.
        case position_of (approving_device_id r) device_ids of
          None \<Rightarrow> Inl ApprovingDeviceMissing
        | Some approving \<Rightarrow>
            if \<not> roles_ok (devices r) approving then Inl ApprovingRoleMismatch
            else if \<not> list_all (cert_verifies cr) (devices r) then Inl CertSignatureInvalid
            else
              let signer_ids = map (\<lambda>c. derive_user_id cr (cert_signer_sign_pk c)) (devices r);
                  vouched = vouch_loop (reaches_root root (devices r) device_ids signer_ids)
                              (replicate (length (devices r)) False)
              in if list_ex Not vouched then Inl ChainBroken
                 else
                   let signed_by_root = (signer_sign_pk r = root);
                       signed_by_approver = (signer_sign_pk r = cert_device_sign_pk (devices r ! approving))
                   in if \<not> signed_by_root \<and> \<not> signed_by_approver then Inl SignerNotAuthorized
                      else if roster_seq r = 0 \<and> \<not> signed_by_root then Inl GenesisNotRootSigned
                      else case verify_raw cr (signer_sign_pk r) (roster_signed_bytes r) (signature r) of
                             Inr _ \<Rightarrow> Inr ()
                           | Inl _ \<Rightarrow> Inl RosterSignatureInvalid)))"

definition core_roster_validate :: "crypto \<Rightarrow> roster \<Rightarrow> bytes \<Rightarrow> roster_rejection option" where
  "core_roster_validate cr r root = (case validate cr r root of Inl e \<Rightarrow> Some e | Inr _ \<Rightarrow> None)"

section \<open>The fixpoint computes the signature chains\<close>

text \<open>
  The contract of the loop: a test that only admits members of a target set when the marks so far
  are members, and that admits something whenever the marks are not yet the whole set.
\<close>

locale vouch_rule =
  fixes reach :: "bool list \<Rightarrow> nat \<Rightarrow> bool"
    and n :: nat
    and target :: "nat \<Rightarrow> bool"
  assumes sound: "length v = n \<Longrightarrow> i < n \<Longrightarrow> (\<And>j. j < n \<Longrightarrow> v ! j \<Longrightarrow> target j) \<Longrightarrow> reach v i \<Longrightarrow> target i"
    and complete: "length v = n \<Longrightarrow> (\<And>i. i < n \<Longrightarrow> v ! i \<or> \<not> reach v i) \<Longrightarrow> i < n \<Longrightarrow> target i \<Longrightarrow> v ! i"
begin

lemma fold_sound:
  "list_all (\<lambda>i. i < n) is \<Longrightarrow> length v = n \<Longrightarrow> (\<And>j. j < n \<Longrightarrow> v ! j \<Longrightarrow> target j) \<Longrightarrow>
   foldl (vouch_one reach) (v, g) is = (v', g') \<Longrightarrow> j < n \<Longrightarrow> v' ! j \<Longrightarrow> target j"
proof (induction "is" arbitrary: v g)
  case (Cons i "is")
  obtain v1 g1 where st: "vouch_one reach (v, g) i = (v1, g1)" by fastforce
  have i: "i < n" using Cons.prems(1) by simp
  have "length v1 = n" "\<And>j. j < n \<Longrightarrow> v1 ! j \<Longrightarrow> target j"
    using st Cons.prems(2,3) sound [OF Cons.prems(2) i Cons.prems(3)] i
    by (auto simp: vouch_one_def nth_list_update split: if_splits)
  with Cons.IH [of v1 g1] Cons.prems st show ?case by simp
qed simp

lemma loop_exact:
  assumes "length v = n" "\<And>j. j < n \<Longrightarrow> v ! j \<Longrightarrow> target j"
  shows "length (vouch_loop reach v) = n \<and> (\<forall>i<n. vouch_loop reach v ! i \<longleftrightarrow> target i)"
  using assms
proof (induction "card (unvouched v)" arbitrary: v rule: less_induct)
  case less
  obtain v' g where p: "vouch_pass reach v = (v', g)" by fastforce
  note res = vouch_pass_result [OF p]
  have mem: "target j" if "j < n" "v' ! j" for j
    using fold_sound [OF _ less.prems p [unfolded vouch_pass_def] that] less.prems(1)
    by (simp add: list_all_iff)
  show ?case
  proof (cases g)
    case True
    have "card (unvouched v') < card (unvouched v)"
      by (rule psubset_card_mono [OF finite_unvouched res(2) [OF True]])
    from less.hyps [OF this] mem res(1) less.prems(1) True p show ?thesis
      by (simp add: vouch_loop.simps [of reach v])
  next
    case False
    have "v ! i" if "i < n" "target i" for i
      using complete [OF less.prems(1) _ that] res(4) [OF False] less.prems(1) by blast
    with False p res(3) less.prems show ?thesis
      by (auto simp: vouch_loop.simps [of reach v])
  qed
qed

end

inductive chained :: "crypto \<Rightarrow> bytes \<Rightarrow> device_cert list \<Rightarrow> nat \<Rightarrow> bool"
  for cr :: crypto and root :: bytes and certs :: "device_cert list" where
  root_signed: "i < length certs \<Longrightarrow> cert_signer_sign_pk (certs ! i) = root \<Longrightarrow> chained cr root certs i"
| device_signed: "i < length certs \<Longrightarrow> chained cr root certs j \<Longrightarrow>
    cert_device_id cr (certs ! j) = derive_user_id cr (cert_signer_sign_pk (certs ! i)) \<Longrightarrow>
    chained cr root certs i"

inductive_cases chainedE: "chained cr root certs i"

lemma chained_bound: "chained cr root certs i \<Longrightarrow> i < length certs"
  by (erule chainedE)

definition signer_ids :: "crypto \<Rightarrow> device_cert list \<Rightarrow> bytes list" where
  "signer_ids cr certs = map (\<lambda>c. derive_user_id cr (cert_signer_sign_pk c)) certs"

lemma reaches_root_iff:
  assumes "length v = length certs" "i < length certs"
  shows "reaches_root root certs (map (cert_device_id cr) certs) (signer_ids cr certs) v i \<longleftrightarrow>
    cert_signer_sign_pk (certs ! i) = root \<or>
    (\<exists>j<length certs. v ! j \<and> cert_device_id cr (certs ! j) = derive_user_id cr (cert_signer_sign_pk (certs ! i)))"
  using assms by (simp add: reaches_root_def signer_ids_def list_ex_length cong: conj_cong)

interpretation roster_vouching: vouch_rule
  "reaches_root root certs (map (cert_device_id cr) certs) (signer_ids cr certs)"
  "length certs" "chained cr root certs" for cr root certs
proof unfold_locales
  fix v i
  assume "length v = length certs" "i < length certs"
    "\<And>j. j < length certs \<Longrightarrow> v ! j \<Longrightarrow> chained cr root certs j"
    "reaches_root root certs (map (cert_device_id cr) certs) (signer_ids cr certs) v i"
  then show "chained cr root certs i"
    unfolding reaches_root_iff [OF \<open>length v = length certs\<close> \<open>i < length certs\<close>]
    by (metis root_signed device_signed)
next
  fix v i
  assume len: "length v = length certs" and stable: "\<And>i. i < length certs \<Longrightarrow>
      v ! i \<or> \<not> reaches_root root certs (map (cert_device_id cr) certs) (signer_ids cr certs) v i"
  assume "chained cr root certs i"
  then show "v ! i"
  proof (induction rule: chained.induct)
    case (root_signed i)
    with stable [of i] len show ?case by (simp add: reaches_root_iff)
  next
    case (device_signed i j)
    with stable [of i] len show ?case by (auto simp: reaches_root_iff dest: chained_bound)
  qed
qed

lemma vouch_loop_chained:
  "list_ex Not (vouch_loop (reaches_root root certs (map (cert_device_id cr) certs) (signer_ids cr certs))
     (replicate (length certs) False)) \<longleftrightarrow> \<not> (\<forall>i<length certs. chained cr root certs i)"
proof -
  define v where "v = vouch_loop (reaches_root root certs (map (cert_device_id cr) certs) (signer_ids cr certs))
      (replicate (length certs) False)"
  have "length v = length certs" "\<And>i. i < length certs \<Longrightarrow> v ! i \<longleftrightarrow> chained cr root certs i"
    using roster_vouching.loop_exact [of "replicate (length certs) False" certs cr root]
    unfolding v_def by simp_all
  then show ?thesis unfolding v_def [symmetric] by (auto simp: list_ex_length)
qed

section \<open>Validation against its specification\<close>

definition cert_shape :: "crypto \<Rightarrow> bytes \<Rightarrow> device_cert \<Rightarrow> bool" where
  "cert_shape cr pid c \<longleftrightarrow>
     length (cert_device_sign_pk c) = 32 \<and> length (cert_device_agree_pk c) = 32 \<and>
     length (cert_signer_sign_pk c) = 32 \<and> length (cert_signature c) = 64 \<and>
     cert_person_id c = pid \<and> cert_device_id cr c \<noteq> replicate 16 0"

definition valid_roster :: "crypto \<Rightarrow> roster \<Rightarrow> bytes \<Rightarrow> bool" where
  "valid_roster cr r root \<longleftrightarrow>
     length root = 32 \<and> length (person_id r) = 16 \<and> length (approving_device_id r) = 16 \<and>
     length (signer_sign_pk r) = 32 \<and> length (signature r) = 64 \<and>
     derive_user_id cr root = person_id r \<and>
     length (devices r) mod 2 ^ 32 \<le> 16 \<and>
     list_all (cert_shape cr (person_id r)) (devices r) \<and> distinct (map (cert_device_id cr) (devices r)) \<and>
     list_all (\<lambda>t. length (tomb_device_id t) = 16) (tombstones r) \<and>
     distinct (map tomb_device_id (tombstones r)) \<and>
     cert_device_id cr ` set (devices r) \<inter> tomb_device_id ` set (tombstones r) = {} \<and>
     (\<exists>a<length (devices r). cert_device_id cr (devices r ! a) = approving_device_id r \<and>
        (\<forall>i<length (devices r). signs_roster (devices r ! i) = (i = a)) \<and>
        (signer_sign_pk r = root \<or> signer_sign_pk r = cert_device_sign_pk (devices r ! a))) \<and>
     list_all (cert_verifies cr) (devices r) \<and>
     (\<forall>i<length (devices r). chained cr root (devices r) i) \<and>
     (roster_seq r = 0 \<longrightarrow> signer_sign_pk r = root) \<and>
     verify_raw cr (signer_sign_pk r) (roster_signed_bytes r) (signature r) = Inr ()"

lemma scan_certs_Inr:
  "scan_certs cr pid ids cs = Inr out \<longleftrightarrow>
     list_all (cert_shape cr pid) cs \<and> distinct (map (cert_device_id cr) cs) \<and>
     set ids \<inter> cert_device_id cr ` set cs = {} \<and> out = ids @ map (cert_device_id cr) cs"
  by (induction cs arbitrary: ids)
    (auto simp: cert_shape_def KEY_LEN_def SIGNATURE_LEN_def LEGACY_DEVICE_ID_def Let_def)

lemma scan_tombstones_Inr:
  "scan_tombstones dev ids ts = Inr out \<longleftrightarrow>
     list_all (\<lambda>t. length (tomb_device_id t) = 16) ts \<and> distinct (map tomb_device_id ts) \<and>
     set ids \<inter> tomb_device_id ` set ts = {} \<and> set dev \<inter> tomb_device_id ` set ts = {} \<and>
     out = ids @ map tomb_device_id ts"
  by (induction ts arbitrary: ids) (auto simp: DEVICE_ID_LEN_def)

lemma position_of_Some:
  "distinct xs \<Longrightarrow> position_of x xs = Some a \<longleftrightarrow> a < length xs \<and> xs ! a = x"
  by (induction xs arbitrary: a) (auto simp: nth_Cons less_Suc_eq_0_disj in_set_conv_nth split: nat.splits)

lemma roles_ok_iff: "roles_ok certs a \<longleftrightarrow> (\<forall>i<length certs. signs_roster (certs ! i) = (i = a))"
  by (simp add: roles_ok_def list_all_length)

lemma device_cap_iff: "core_device_add_outcome (word_of_nat n) = Refused \<longleftrightarrow> n mod 2 ^ 32 > 16"
  by (simp add: core_device_add_outcome_def DEVICE_HARD_CAP_def DEVICE_SOFT_CAP_def word_less_nat_alt unat_of_nat)

lemma validate_valid: "validate cr r root = Inr () \<longleftrightarrow> valid_roster cr r root"
proof (cases "length root = 32 \<and> length (person_id r) = 16 \<and> length (approving_device_id r) = 16 \<and>
    length (signer_sign_pk r) = 32 \<and> length (signature r) = 64 \<and> derive_user_id cr root = person_id r \<and>
    length (devices r) mod 2 ^ 32 \<le> 16 \<and>
    list_all (cert_shape cr (person_id r)) (devices r) \<and> distinct (map (cert_device_id cr) (devices r)) \<and>
    list_all (\<lambda>t. length (tomb_device_id t) = 16) (tombstones r) \<and>
    distinct (map tomb_device_id (tombstones r)) \<and>
    cert_device_id cr ` set (devices r) \<inter> tomb_device_id ` set (tombstones r) = {}")
  case False
  then have "\<not> valid_roster cr r root" unfolding valid_roster_def by blast
  moreover from False have "validate cr r root \<noteq> Inr ()"
    by (auto simp: validate_def and_then_Inr scan_certs_Inr scan_tombstones_Inr device_cap_iff
        KEY_LEN_def SIGNATURE_LEN_def DEVICE_ID_LEN_def not_le split: if_splits)
  ultimately show ?thesis by simp
next
  case True
  let ?ids = "map (cert_device_id cr) (devices r)"
  have scans: "scan_certs cr (person_id r) [] (devices r) = Inr ?ids"
    "scan_tombstones ?ids [] (tombstones r) = Inr (map tomb_device_id (tombstones r))"
    using True by (auto simp: scan_certs_Inr scan_tombstones_Inr)
  have cap: "core_device_add_outcome (word_of_nat (length (devices r))) \<noteq> Refused"
    using True device_cap_iff [of "length (devices r)"] by simp
  have pos: "position_of (approving_device_id r) ?ids = Some a \<longleftrightarrow>
      a < length (devices r) \<and> cert_device_id cr (devices r ! a) = approving_device_id r" for a
    using True by (auto simp: position_of_Some)
  have ver: "(case verify_raw cr k m s of Inr _ \<Rightarrow> Inr () | Inl _ \<Rightarrow> Inl RosterSignatureInvalid) = Inr () \<longleftrightarrow>
      verify_raw cr k m s = Inr ()" for k m s
    by (auto split: sum.splits)
  have "validate cr r root = Inr () \<longleftrightarrow>
      (\<exists>a. position_of (approving_device_id r) ?ids = Some a \<and> roles_ok (devices r) a \<and>
        list_all (cert_verifies cr) (devices r) \<and> (\<forall>i<length (devices r). chained cr root (devices r) i) \<and>
        (signer_sign_pk r = root \<or> signer_sign_pk r = cert_device_sign_pk (devices r ! a)) \<and>
        (roster_seq r = 0 \<longrightarrow> signer_sign_pk r = root) \<and>
        verify_raw cr (signer_sign_pk r) (roster_signed_bytes r) (signature r) = Inr ())"
    using True cap
    by (simp add: validate_def scans KEY_LEN_def SIGNATURE_LEN_def DEVICE_ID_LEN_def Let_def
        vouch_loop_chained [unfolded signer_ids_def] ver split: option.splits)
  also have "\<dots> \<longleftrightarrow> valid_roster cr r root"
    unfolding pos roles_ok_iff valid_roster_def using True by blast
  finally show ?thesis .
qed

text \<open>
  Claim C1. Validation is exact: \<open>validate\<close> accepts a roster for a person root precisely when the
  document has the fixed widths, names the person the root derives to, lists at most sixteen
  distinct devices none of which is reserved or buried, gives the roster-signing role to exactly
  the approving device, and when every certificate verifies and has a chain of signatures that ends
  at the root, the signer is the root or the approving device (the root for a genesis), and the
  document signature verifies.
\<close>

theorem validate_exact: "validate cr r root = Inr () \<longleftrightarrow> valid_roster cr r root"
  by (rule validate_valid)

end
