(* ===== verification/Roster_Acceptance.thy ===== *)
theory Roster_Acceptance
  imports Roster_Validation
begin

text \<open>
  What a device does with a roster that arrives about a person, \<open>core_roster_accept\<close> of
  \<open>core/src/device_roster.rs\<close>, and its consequences for everything a device holds about that person
  over any sequence of arrivals: versions only climb, burials are forever, a fork quarantine is
  lifted only by the person, and only the person root raises the recovery epoch.
\<close>

section \<open>Decisions\<close>

datatype roster_update_outcome = Accepted | Ignored | ForkQuarantined

datatype roster_update_reason =
    FirstRoster
  | Superseded
  | Rollback
  | IdempotentRepeat
  | ForkedContent
  | PersonQuarantined
  | Invalid
  | RecoveryEpochRequiresRoot
  | TombstoneResurrected
  | InboxGenerationRegressed
  | VersionJumpTooLarge

definition ROSTER_MAX_VERSION_JUMP :: u64 where
  "ROSTER_MAX_VERSION_JUMP = 1000000"

record roster_update_decision =
  outcome :: roster_update_outcome
  reason :: roster_update_reason
  rejection :: "roster_rejection option"
  quarantined :: bool
  device_count_outcome :: device_add_outcome

definition decision :: "roster_update_outcome \<Rightarrow> roster_update_reason \<Rightarrow> bool \<Rightarrow> roster_update_decision" where
  "decision oc rs q =
     \<lparr>outcome = oc, reason = rs, rejection = None, quarantined = q, device_count_outcome = Added\<rparr>"

definition invalid :: "roster_rejection \<Rightarrow> roster_update_decision" where
  "invalid rej = (decision Ignored Invalid False)\<lparr>rejection := Some rej\<rparr>"

definition pierces_quarantine :: "roster option \<Rightarrow> roster \<Rightarrow> bytes \<Rightarrow> bool" where
  "pierces_quarantine stored incoming root =
     (case stored of
        None \<Rightarrow> False
      | Some st \<Rightarrow> person_id st = person_id incoming \<and> recovery_epoch incoming > recovery_epoch st \<and>
                   signer_sign_pk incoming = root)"

definition jump_too_large :: "roster \<Rightarrow> roster \<Rightarrow> bool" where
  "jump_too_large st incoming \<longleftrightarrow>
     word_sat_sub (recovery_epoch incoming) (recovery_epoch st) > ROSTER_MAX_VERSION_JUMP \<or>
     recovery_epoch incoming = recovery_epoch st \<and>
     word_sat_sub (roster_seq incoming) (roster_seq st) > ROSTER_MAX_VERSION_JUMP"

definition resurrects :: "crypto \<Rightarrow> roster \<Rightarrow> roster \<Rightarrow> bool" where
  "resurrects cr st incoming =
     list_ex (\<lambda>t. \<not> list_ex (\<lambda>later. tomb_device_id later = tomb_device_id t) (tombstones incoming) \<or>
                  tomb_device_id t \<in> set (map (cert_device_id cr) (devices incoming))) (tombstones st)"

definition ordering_verdict :: "crypto \<Rightarrow> roster option \<Rightarrow> bool \<Rightarrow> roster \<Rightarrow> bytes \<Rightarrow> roster_update_decision" where
  "ordering_verdict cr stored stored_quarantined incoming root =
     (if stored_quarantined \<and> \<not> pierces_quarantine stored incoming root
      then decision ForkQuarantined PersonQuarantined True
      else case validate cr incoming root of
        Inl rej \<Rightarrow> invalid rej
      | Inr _ \<Rightarrow>
          (case stored of
             None \<Rightarrow> decision Accepted FirstRoster False
           | Some st \<Rightarrow>
               if person_id st \<noteq> person_id incoming then invalid PersonMismatch
               else if version_less (version_of incoming) (version_of st) then decision Ignored Rollback False
               else if version_of incoming = version_of st then
                 (if roster_head_hash cr st = roster_head_hash cr incoming
                  then decision Ignored IdempotentRepeat False
                  else decision ForkQuarantined ForkedContent True)
               else if jump_too_large st incoming then decision Ignored VersionJumpTooLarge False
               else if recovery_epoch incoming > recovery_epoch st \<and> signer_sign_pk incoming \<noteq> root
               then decision Ignored RecoveryEpochRequiresRoot False
               else if resurrects cr st incoming then decision Ignored TombstoneResurrected False
               else if recovery_epoch incoming = recovery_epoch st \<and>
                       inbox_key_generation incoming < inbox_key_generation st
               then decision Ignored InboxGenerationRegressed False
               else decision Accepted Superseded False))"

definition core_roster_accept :: "crypto \<Rightarrow> roster option \<Rightarrow> bool \<Rightarrow> roster \<Rightarrow> bytes \<Rightarrow> roster_update_decision" where
  "core_roster_accept cr stored stored_quarantined incoming root =
     (ordering_verdict cr stored stored_quarantined incoming root)
       \<lparr>device_count_outcome := core_device_add_outcome (word_of_nat (length (devices incoming)))\<rparr>"

definition non_surfacing_device_count_outcome :: "device_add_outcome \<Rightarrow> device_add_outcome" where
  "non_surfacing_device_count_outcome oc = (case oc of AddedWithWarning \<Rightarrow> Added | other \<Rightarrow> other)"

text \<open>
  What a caller persists: the accepted document with the decision's bit, the bit alone on a fork,
  nothing otherwise.
\<close>

record held_roster =
  held :: "roster option"
  held_quarantined :: bool

definition apply_decision :: "held_roster \<Rightarrow> roster \<Rightarrow> roster_update_decision \<Rightarrow> held_roster" where
  "apply_decision s incoming d =
     (case outcome d of
        Accepted \<Rightarrow> \<lparr>held = Some incoming, held_quarantined = quarantined d\<rparr>
      | ForkQuarantined \<Rightarrow> s\<lparr>held_quarantined := True\<rparr>
      | Ignored \<Rightarrow> s)"

datatype roster_event = RosterArrives roster | PersonClearsFork

fun roster_step :: "crypto \<Rightarrow> bytes \<Rightarrow> held_roster \<Rightarrow> roster_event \<Rightarrow> held_roster" where
  "roster_step cr root s (RosterArrives r) =
     apply_decision s r (core_roster_accept cr (held s) (held_quarantined s) r root)"
| "roster_step cr root s PersonClearsFork = s\<lparr>held_quarantined := False\<rparr>"

section \<open>The exact acceptance condition\<close>

lemma decision_simps [simp]:
  "outcome (decision oc rs q) = oc" "reason (decision oc rs q) = rs" "quarantined (decision oc rs q) = q"
  "outcome (invalid rej) = Ignored" "reason (invalid rej) = Invalid" "quarantined (invalid rej) = False"
  by (simp_all add: decision_def invalid_def)

lemma accept_fields [simp]:
  "outcome (core_roster_accept cr st q r root) = outcome (ordering_verdict cr st q r root)"
  "reason (core_roster_accept cr st q r root) = reason (ordering_verdict cr st q r root)"
  "quarantined (core_roster_accept cr st q r root) = quarantined (ordering_verdict cr st q r root)"
  by (simp_all add: core_roster_accept_def)

lemma validate_cases: "(\<exists>rej. validate cr r root = Inl rej) \<or> validate cr r root = Inr ()"
  by (cases "validate cr r root") auto

text \<open>The documented rule for superseding a stored document.\<close>

definition supersedes :: "crypto \<Rightarrow> bytes \<Rightarrow> roster \<Rightarrow> roster \<Rightarrow> bool" where
  "supersedes cr root st r \<longleftrightarrow>
     person_id r = person_id st \<and> version_less (version_of st) (version_of r) \<and>
     unat (recovery_epoch r) \<le> unat (recovery_epoch st) + 1000000 \<and>
     (recovery_epoch r = recovery_epoch st \<longrightarrow> unat (roster_seq r) \<le> unat (roster_seq st) + 1000000) \<and>
     (recovery_epoch r > recovery_epoch st \<longrightarrow> signer_sign_pk r = root) \<and>
     tomb_device_id ` set (tombstones st) \<subseteq> tomb_device_id ` set (tombstones r) \<and>
     tomb_device_id ` set (tombstones st) \<inter> cert_device_id cr ` set (devices r) = {} \<and>
     (recovery_epoch r = recovery_epoch st \<longrightarrow> inbox_key_generation st \<le> inbox_key_generation r)"

lemma version_total: "version_less a b \<or> a = b \<or> version_less b a"
  by (cases a; cases b) (auto simp: version_less_def)

lemma version_less_irrefl: "version_less a b \<Longrightarrow> \<not> version_less b a" "\<not> version_less a a"
  by (auto simp: version_less_def)

lemma version_less_trans: "version_less a b \<Longrightarrow> version_less b c \<Longrightarrow> version_less a c"
  by (auto simp: version_less_def)

lemma resurrects_iff:
  "resurrects cr st r \<longleftrightarrow>
     \<not> (tomb_device_id ` set (tombstones st) \<subseteq> tomb_device_id ` set (tombstones r) \<and>
        tomb_device_id ` set (tombstones st) \<inter> cert_device_id cr ` set (devices r) = {})"
proof -
  have kept: "list_ex (\<lambda>later. tomb_device_id later = x) ts \<longleftrightarrow> x \<in> tomb_device_id ` set ts"
    for x and ts :: "device_tombstone list"
    by (auto simp: list_ex_iff)
  show ?thesis
    unfolding resurrects_def kept set_map by (auto simp: list_ex_iff)
qed

lemma sat_sub_le: "word_sat_sub a b \<le> (1000000 :: u64) \<longleftrightarrow> unat a \<le> unat b + 1000000"
  by (auto simp: word_sat_sub_def word_le_nat_alt unat_sub_if')

lemma jump_iff:
  "jump_too_large st r \<longleftrightarrow>
     \<not> (unat (recovery_epoch r) \<le> unat (recovery_epoch st) + 1000000 \<and>
        (recovery_epoch r = recovery_epoch st \<longrightarrow> unat (roster_seq r) \<le> unat (roster_seq st) + 1000000))"
  unfolding jump_too_large_def ROSTER_MAX_VERSION_JUMP_def not_le [symmetric] sat_sub_le by blast

lemma supersedes_ladder:
  "supersedes cr root st r \<longleftrightarrow>
     person_id st = person_id r \<and> \<not> version_less (version_of r) (version_of st) \<and>
     version_of r \<noteq> version_of st \<and> \<not> jump_too_large st r \<and>
     \<not> (recovery_epoch r > recovery_epoch st \<and> signer_sign_pk r \<noteq> root) \<and> \<not> resurrects cr st r \<and>
     \<not> (recovery_epoch r = recovery_epoch st \<and> inbox_key_generation r < inbox_key_generation st)"
proof -
  have "version_less (version_of st) (version_of r) \<longleftrightarrow>
      \<not> version_less (version_of r) (version_of st) \<and> version_of r \<noteq> version_of st"
    using version_total [of "version_of st" "version_of r"] version_less_irrefl by metis
  moreover have "inbox_key_generation st \<le> inbox_key_generation r \<longleftrightarrow>
      \<not> inbox_key_generation r < inbox_key_generation st" by auto
  ultimately show ?thesis
    unfolding supersedes_def resurrects_iff jump_iff by metis
qed

lemma verdict_iff:
  "outcome (ordering_verdict cr st q r root) = Accepted \<longleftrightarrow>
     validate cr r root = Inr () \<and> (q \<longrightarrow> pierces_quarantine st r root) \<and>
     (case st of None \<Rightarrow> True | Some h \<Rightarrow> supersedes cr root h r)"
proof (cases "q \<and> \<not> pierces_quarantine st r root \<or> validate cr r root \<noteq> Inr ()")
  case True
  then show ?thesis
    using validate_cases [of cr r root] by (auto simp: ordering_verdict_def)
next
  case False
  then show ?thesis
    by (cases st) (auto simp: ordering_verdict_def supersedes_ladder)
qed

lemma verdict_accepted_bit:
  "outcome (ordering_verdict cr st q r root) = Accepted \<Longrightarrow> \<not> quarantined (ordering_verdict cr st q r root)"
  unfolding verdict_iff by (cases st) (auto simp: ordering_verdict_def supersedes_ladder)

text \<open>
  Claim C3. The exact acceptance rule. A document is stored if and only if it validates, the
  person is not quarantined (or the document pierces the quarantine: root-signed at a strictly
  higher recovery epoch), and either nothing is held yet or it supersedes what is held: same
  person, strictly higher version without an absurd jump, a raised epoch signed by the root, every
  burial kept and none re-activated, and no inbox generation regression within an epoch.
\<close>

theorem roster_accept_exact:
  "outcome (core_roster_accept cr st q r root) = Accepted \<longleftrightarrow>
     validate cr r root = Inr () \<and> (if q then \<exists>h. st = Some h \<and> person_id h = person_id r \<and> recovery_epoch h < recovery_epoch r \<and>
           signer_sign_pk r = root else True) \<and>
     (case st of None \<Rightarrow> True | Some h \<Rightarrow> supersedes cr root h r)"
  by (cases st) (auto simp: accept_fields verdict_iff pierces_quarantine_def)

section \<open>Everything a device ever holds about a person\<close>

definition held_valid :: "crypto \<Rightarrow> bytes \<Rightarrow> held_roster \<Rightarrow> bool" where
  "held_valid cr root s \<longleftrightarrow> (case held s of None \<Rightarrow> True | Some r \<Rightarrow> valid_roster cr r root)"

lemma apply_accept_cases:
  "roster_step cr root s (RosterArrives r) =
     (if outcome (core_roster_accept cr (held s) (held_quarantined s) r root) = Accepted
      then \<lparr>held = Some r, held_quarantined = False\<rparr>
      else if outcome (core_roster_accept cr (held s) (held_quarantined s) r root) = ForkQuarantined
      then s\<lparr>held_quarantined := True\<rparr> else s)"
  by (auto simp: apply_decision_def ordering_verdict_def split: roster_update_outcome.splits sum.splits option.splits)

lemma held_valid_step: "held_valid cr root s \<Longrightarrow> held_valid cr root (roster_step cr root s e)"
proof (cases e)
  case (RosterArrives r)
  assume inv: "held_valid cr root s"
  show ?thesis
    unfolding RosterArrives apply_accept_cases
    using inv by (auto simp: held_valid_def verdict_iff validate_valid)
qed (simp add: held_valid_def)

definition buried :: "roster \<Rightarrow> bytes set" where
  "buried r = tomb_device_id ` set (tombstones r)"

definition active :: "crypto \<Rightarrow> roster \<Rightarrow> bytes set" where
  "active cr r = cert_device_id cr ` set (devices r)"

text \<open>\<open>later_or_same\<close>: what a held document may turn into.\<close>

definition later_or_same :: "held_roster \<Rightarrow> held_roster \<Rightarrow> bool" where
  "later_or_same s t \<longleftrightarrow>
     (case held s of
        None \<Rightarrow> True
      | Some r \<Rightarrow> \<exists>r'. held t = Some r' \<and> person_id r' = person_id r \<and>
          (r' = r \<or> version_less (version_of r) (version_of r')) \<and> buried r \<subseteq> buried r')"

lemma later_or_same_refl: "later_or_same s s"
  by (auto simp: later_or_same_def split: option.splits)

lemma later_or_same_trans: "later_or_same s t \<Longrightarrow> later_or_same t u \<Longrightarrow> later_or_same s u"
  by (auto simp: later_or_same_def split: option.splits intro: version_less_trans)

lemma later_or_same_step: "later_or_same s (roster_step cr root s e)"
proof (cases e)
  case (RosterArrives r)
  show ?thesis
    unfolding RosterArrives apply_accept_cases
    by (auto simp: later_or_same_def verdict_iff supersedes_def buried_def split: option.splits)
qed (auto simp: later_or_same_def split: option.splits)

interpretation held_machine: machine_inv "roster_step cr root" "\<lparr>held = None, held_quarantined = False\<rparr>"
  "held_valid cr root" for cr root
  by unfold_locales (simp_all add: held_valid_step, simp add: held_valid_def)

interpretation held_history: machine_mono "roster_step cr root" "held_valid cr root" later_or_same for cr root
  by unfold_locales
    (blast intro: held_valid_step later_or_same_refl later_or_same_trans later_or_same_step)+

lemma valid_disjoint: "valid_roster cr r root \<Longrightarrow> active cr r \<inter> buried r = {}"
  by (simp add: valid_roster_def active_def buried_def)

text \<open>
  Claim C5. Rosters only move forward. Once a valid document is held for a person, then after any
  sequence of arriving documents and manual fork clearances a valid document of the same person is
  held that is the same one or has a strictly higher version, every device that was buried is still
  buried, and none of them is active.
\<close>

theorem roster_history_monotone:
  assumes "held_valid cr root s" "held s = Some r"
  shows "\<exists>r'. held (foldl (roster_step cr root) s es) = Some r' \<and> valid_roster cr r' root \<and>
    person_id r' = person_id r \<and> (r' = r \<or> version_less (version_of r) (version_of r')) \<and>
    buried r \<subseteq> buried r' \<and> buried r \<inter> active cr r' = {}"
proof -
  have "later_or_same s (foldl (roster_step cr root) s es)"
    by (rule held_history.run_rel [OF assms(1)])
  then obtain r' where r': "held (foldl (roster_step cr root) s es) = Some r'" "person_id r' = person_id r"
      "r' = r \<or> version_less (version_of r) (version_of r')" "buried r \<subseteq> buried r'"
    using assms(2) by (auto simp: later_or_same_def)
  moreover have "valid_roster cr r' root"
    using held_machine.run_inv [OF assms(1), of es] r'(1) by (simp add: held_valid_def)
  moreover from this have "buried r \<inter> active cr r' = {}"
    using valid_disjoint [of cr r' root] r'(4) by blast
  ultimately show ?thesis by blast
qed

lemma quarantined_step:
  assumes "held_quarantined s"
  shows "(held_quarantined (roster_step cr root s e) \<and> held (roster_step cr root s e) = held s) \<or>
    e = PersonClearsFork \<or>
    (\<exists>r h. e = RosterArrives r \<and> held s = Some h \<and> valid_roster cr r root \<and> person_id r = person_id h \<and>
       signer_sign_pk r = root \<and> recovery_epoch h < recovery_epoch r)"
proof (cases e)
  case (RosterArrives r)
  show ?thesis
  proof (cases "outcome (core_roster_accept cr (held s) (held_quarantined s) r root) = Accepted")
    case True
    then show ?thesis
      using assms RosterArrives
      by (auto simp: verdict_iff validate_valid pierces_quarantine_def split: option.splits)
  next
    case False
    then show ?thesis
      unfolding RosterArrives apply_accept_cases using assms by simp
  qed
qed simp

text \<open>
  Claim C6. A fork quarantine is sticky. If a quarantined person is no longer quarantined after some
  sequence of events, then up to some event nothing about the person changed, and that event is
  either the person clearing the fork by hand or a valid document signed by the person root itself
  at a strictly higher recovery epoch than the held one. No other traffic lifts it.
\<close>

theorem quarantine_sticky:
  assumes "held_quarantined s" "\<not> held_quarantined (foldl (roster_step cr root) s es)"
  shows "\<exists>pre e post. es = pre @ e # post \<and>
    held_quarantined (foldl (roster_step cr root) s pre) \<and> held (foldl (roster_step cr root) s pre) = held s \<and>
    (e = PersonClearsFork \<or>
     (\<exists>r h. e = RosterArrives r \<and> held s = Some h \<and> valid_roster cr r root \<and> person_id r = person_id h \<and>
        signer_sign_pk r = root \<and> recovery_epoch h < recovery_epoch r))"
  using assms
proof (induction es arbitrary: s)
  case (Cons e es)
  show ?case
  proof (cases "held_quarantined (roster_step cr root s e) \<and> held (roster_step cr root s e) = held s")
    case True
    with Cons.IH [of "roster_step cr root s e"] Cons.prems(2) obtain pre f post where
      "es = pre @ f # post" "held_quarantined (foldl (roster_step cr root) (roster_step cr root s e) pre)"
      "held (foldl (roster_step cr root) (roster_step cr root s e) pre) = held s"
      "f = PersonClearsFork \<or>
       (\<exists>r h. f = RosterArrives r \<and> held s = Some h \<and> valid_roster cr r root \<and> person_id r = person_id h \<and>
          signer_sign_pk r = root \<and> recovery_epoch h < recovery_epoch r)" by auto
    then show ?thesis by (intro exI [of _ "e # pre"] exI [of _ f] exI [of _ post]) simp
  next
    case False
    with quarantined_step [OF Cons.prems(1), of cr root e] Cons.prems(1) show ?thesis
      by (intro exI [of _ "[]"] exI [of _ e] exI [of _ es]) simp
  qed
qed simp

text \<open>
  Only the person root raises the recovery epoch: whenever the held epoch has climbed over
  some sequence of events, one of the arrived documents validates, is signed by the person root and
  carries exactly the epoch now held.
\<close>

theorem recovery_epoch_needs_root:
  assumes "held s = Some r" "held (foldl (roster_step cr root) s es) = Some r'"
    and "recovery_epoch r < recovery_epoch r'"
  shows "\<exists>d. RosterArrives d \<in> set es \<and> valid_roster cr d root \<and> signer_sign_pk d = root \<and>
    recovery_epoch d = recovery_epoch r'"
  using assms(2,3)
proof (induction es arbitrary: r' rule: rev_induct)
  case (snoc e es)
  let ?t = "foldl (roster_step cr root) s es"
  have "\<exists>p. held ?t = Some p"
  proof (induction es rule: rev_induct)
    case (snoc f fs)
    then show ?case
      using later_or_same_step [of "foldl (roster_step cr root) s fs" cr root f]
      by (auto simp: later_or_same_def)
  qed (simp add: assms(1))
  then obtain p where p: "held ?t = Some p" by blast
  show ?case
  proof (cases "recovery_epoch p = recovery_epoch r'")
    case True
    with snoc.IH [OF p] snoc.prems(2) show ?thesis by auto
  next
    case False
    have st: "held (roster_step cr root ?t e) = Some r'" using snoc.prems(1) by simp
    obtain d where e: "e = RosterArrives d" using st p False by (cases e) auto
    have acc: "outcome (ordering_verdict cr (Some p) (held_quarantined ?t) d root) = Accepted" and "r' = d"
      using st p False unfolding e apply_accept_cases by (auto split: if_splits)
    then have "valid_roster cr d root" and sup: "supersedes cr root p d"
      by (auto simp: verdict_iff validate_valid)
    moreover have "recovery_epoch p < recovery_epoch d"
      using sup False \<open>r' = d\<close> by (auto simp: supersedes_def version_less_def version_of_def)
    ultimately show ?thesis using e \<open>r' = d\<close> by (auto simp: supersedes_def)
  qed
qed (use assms(1) in auto)

text \<open>The head hash of two documents does not collide by accident.\<close>

definition heads_distinguish :: "crypto \<Rightarrow> roster \<Rightarrow> roster \<Rightarrow> bool" where
  "heads_distinguish cr r q \<longleftrightarrow>
     (roster_head_hash cr r = roster_head_hash cr q \<longrightarrow> roster_signed_bytes r = roster_signed_bytes q)"

text \<open>
  Fork detection. When a valid document arrives at exactly the version already held for
  an unquarantined person, the held document stays, and the person is quarantined precisely when
  the two documents differ in anything but the signature bytes.
\<close>

theorem fork_detected:
  assumes "valid_roster cr h root" "valid_roster cr r root" "version_of r = version_of h"
    and "roster_sized h" "roster_sized r" "heads_distinguish cr h r"
  shows "let t = roster_step cr root \<lparr>held = Some h, held_quarantined = False\<rparr> (RosterArrives r)
    in held t = Some h \<and> (held_quarantined t \<longleftrightarrow> r\<lparr>signature := []\<rparr> \<noteq> h\<lparr>signature := []\<rparr>)"
proof -
  have "person_id h = person_id r"
    using assms(1,2) by (simp add: valid_roster_def)
  moreover have "validate cr r root = Inr ()"
    using assms(2) by (simp add: validate_valid)
  moreover have "roster_head_hash cr h = roster_head_hash cr r \<longleftrightarrow> h\<lparr>signature := []\<rparr> = r\<lparr>signature := []\<rparr>"
    using assms(6) signed_bytes_eq_iff [OF assms(4,5)]
    unfolding heads_distinguish_def roster_head_hash_def by metis
  ultimately show ?thesis
    using assms(3) version_less_irrefl(2)
    by (auto simp: apply_decision_def ordering_verdict_def Let_def)
qed

text \<open>
  What the returned quarantine bit is worth. When a quarantined person's document pierces
  the quarantine and then fails validation, the decision ignores it and returns \<open>quarantined = False\<close>;
  the person stays quarantined only because callers persist nothing for an ignored document.
\<close>

theorem pierced_invalid_bit:
  assumes "held_quarantined s" "pierces_quarantine (held s) r root" "validate cr r root = Inl rej"
  shows "let d = core_roster_accept cr (held s) (held_quarantined s) r root
    in outcome d = Ignored \<and> reason d = Invalid \<and> \<not> quarantined d \<and>
       roster_step cr root s (RosterArrives r) = s \<and> held_quarantined (roster_step cr root s (RosterArrives r))"
  using assms by (simp add: Let_def apply_decision_def ordering_verdict_def)

section \<open>Concrete instances\<close>

definition sample_root :: bytes where
  "sample_root = replicate 32 7"

definition issue :: "device_cert \<Rightarrow> device_cert" where
  "issue c = c\<lparr>cert_signature := ed_sign sample_crypto sample_root (device_cert_signed_bytes c)\<rparr>"

definition sign_doc :: "roster \<Rightarrow> roster" where
  "sign_doc r = r\<lparr>signature := ed_sign sample_crypto sample_root (roster_signed_bytes r)\<rparr>"

definition sample_device :: device_cert where
  "sample_device = issue \<lparr>cert_person_id = replicate 16 7, cert_device_sign_pk = replicate 32 2,
     cert_device_agree_pk = replicate 32 3, cert_added_epoch = 0, cert_flags = 1,
     cert_signer_sign_pk = sample_root, cert_signature = []\<rparr>"

definition sample_doc :: "u64 \<Rightarrow> u64 \<Rightarrow> u64 \<Rightarrow> roster" where
  "sample_doc epoch sq gen = sign_doc \<lparr>person_id = replicate 16 7, recovery_epoch = epoch, roster_seq = sq,
     devices = [sample_device], tombstones = [\<lparr>tomb_device_id = replicate 16 9, revoked_at_seq = 0\<rparr>],
     approving_device_id = replicate 16 2, inbox_key_generation = gen, signer_sign_pk = sample_root,
     signature = []\<rparr>"

lemma sample_sign: "length (ed_sign sample_crypto sample_root m) = 64"
  "verify_raw sample_crypto sample_root m (ed_sign sample_crypto sample_root m) = Inr ()"
  using sample_crypto_ok(2)
  by (simp_all add: signatures_verify_def verify_raw_def verifying_key_from_bytes_def sample_root_def
      SIGNATURE_LEN_def) (simp_all add: sample_crypto_def)

lemma sample_device_simps [simp]:
  "cert_person_id sample_device = replicate 16 7" "cert_device_sign_pk sample_device = replicate 32 2"
  "cert_device_agree_pk sample_device = replicate 32 3" "cert_flags sample_device = 1"
  "cert_signer_sign_pk sample_device = sample_root" "length (cert_signature sample_device) = 64"
  "cert_verifies sample_crypto sample_device"
  by (simp_all add: sample_device_def issue_def sample_sign cert_verifies_def
      device_cert_signed_bytes_def device_cert_body_def)

lemma sample_device_id [simp]: "cert_device_id sample_crypto sample_device = replicate 16 2"
  by (simp add: cert_device_id_def derive_user_id_def sample_crypto_def)

lemma sample_doc_simps [simp]:
  "person_id (sample_doc e s g) = replicate 16 7" "recovery_epoch (sample_doc e s g) = e"
  "roster_seq (sample_doc e s g) = s" "devices (sample_doc e s g) = [sample_device]"
  "tombstones (sample_doc e s g) = [\<lparr>tomb_device_id = replicate 16 9, revoked_at_seq = 0\<rparr>]"
  "approving_device_id (sample_doc e s g) = replicate 16 2" "inbox_key_generation (sample_doc e s g) = g"
  "signer_sign_pk (sample_doc e s g) = sample_root" "length (signature (sample_doc e s g)) = 64"
  "verify_raw sample_crypto sample_root (roster_signed_bytes (sample_doc e s g)) (signature (sample_doc e s g)) = Inr ()"
  by (simp_all add: sample_doc_def sign_doc_def sample_sign roster_signed_bytes_def)

lemma sample_doc_valid: "valid_roster sample_crypto (sample_doc e s g) sample_root"
proof -
  have "derive_user_id sample_crypto sample_root = replicate 16 7" "length sample_root = 32"
    by (simp_all add: derive_user_id_def sample_crypto_def sample_root_def)
  then show ?thesis
    by (simp add: valid_roster_def cert_shape_def chained.root_signed signs_roster_def
        DEVICE_CERT_FLAG_ROSTER_SIGNING_def replicate_eqI)
qed

lemma sample_supersedes:
  "supersedes sample_crypto sample_root (sample_doc 0 0 1) (sample_doc 1 0 1)" 
  "supersedes sample_crypto sample_root (sample_doc 0 0 1) (sample_doc 0 1 2)"
  by (simp_all add: supersedes_def version_less_def version_of_def jump_too_large_def word_sat_sub_def
      ROSTER_MAX_VERSION_JUMP_def replicate_eqI)

lemma sample_recovery_step:
  "roster_step sample_crypto sample_root \<lparr>held = Some (sample_doc 0 0 1), held_quarantined = q\<rparr>
     (RosterArrives (sample_doc 1 0 1)) = \<lparr>held = Some (sample_doc 1 0 1), held_quarantined = False\<rparr>"
  unfolding apply_accept_cases
  using sample_supersedes(1) sample_doc_valid [of 1 0 1]
  by (simp add: verdict_iff validate_valid pierces_quarantine_def)

theorem roster_history_monotone_witness:
  "\<exists>r'. held (foldl (roster_step sample_crypto sample_root)
       \<lparr>held = Some (sample_doc 0 0 1), held_quarantined = False\<rparr>
       [RosterArrives (sample_doc 1 0 1), PersonClearsFork, RosterArrives (sample_doc 0 5 1)]) = Some r' \<and>
     replicate 16 9 \<in> buried r'"
  using roster_history_monotone
    [of sample_crypto sample_root "\<lparr>held = Some (sample_doc 0 0 1), held_quarantined = False\<rparr>" "sample_doc 0 0 1"
     "[RosterArrives (sample_doc 1 0 1), PersonClearsFork, RosterArrives (sample_doc 0 5 1)]"]
    sample_doc_valid [of 0 0 1]
  by (auto simp: held_valid_def buried_def simp del: roster_step.simps foldl.simps)

theorem quarantine_sticky_witness:
  "\<exists>e. [RosterArrives (sample_doc 1 0 1)] = [e] \<and> (e = PersonClearsFork \<or>
     (\<exists>r h. e = RosterArrives r \<and> valid_roster sample_crypto r sample_root \<and> signer_sign_pk r = sample_root))"
  using quarantine_sticky [of "\<lparr>held = Some (sample_doc 0 0 1), held_quarantined = True\<rparr>"
      sample_crypto sample_root "[RosterArrives (sample_doc 1 0 1)]"]
  by (auto simp: sample_recovery_step Cons_eq_append_conv simp del: roster_step.simps)

theorem recovery_epoch_needs_root_witness:
  "\<exists>d. RosterArrives d \<in> set [RosterArrives (sample_doc 1 0 1)] \<and>
     valid_roster sample_crypto d sample_root \<and> signer_sign_pk d = sample_root \<and> recovery_epoch d = 1"
  using recovery_epoch_needs_root [of "\<lparr>held = Some (sample_doc 0 0 1), held_quarantined = False\<rparr>"
      "sample_doc 0 0 1" sample_crypto sample_root "[RosterArrives (sample_doc 1 0 1)]" "sample_doc 1 0 1"]
  by (simp add: sample_recovery_step del: roster_step.simps)

lemma sample_doc_sized: "roster_sized (sample_doc e s g)"
  by (simp add: roster_sized_def cert_sized_def device_cert_body_def len_prefixed_def sample_root_def)

lemma sample_heads_differ:
  "roster_head_hash sample_crypto (sample_doc 0 3 1) \<noteq> roster_head_hash sample_crypto (sample_doc 0 3 2)"
proof -
  have head: "roster_head_hash sample_crypto r = take 32 ((sum_list ROSTER_HEAD_HASH_DOMAIN +
      sum_list (roster_signed_bytes r)) # replicate 32 0)" for r
    by (simp add: roster_head_hash_def sample_crypto_def ROSTER_HEAD_HASH_LEN_def)
  have "sum_list (roster_signed_bytes (sample_doc 0 3 1)) \<noteq> sum_list (roster_signed_bytes (sample_doc 0 3 2))"
    by (simp add: roster_signed_bytes_def u64_bytes_def)
  then show ?thesis by (simp add: head)
qed

theorem fork_detected_witness:
  "held_quarantined (roster_step sample_crypto sample_root
     \<lparr>held = Some (sample_doc 0 3 1), held_quarantined = False\<rparr> (RosterArrives (sample_doc 0 3 2)))"
proof -
  have "sample_doc 0 3 2\<lparr>signature := []\<rparr> \<noteq> sample_doc 0 3 1\<lparr>signature := []\<rparr>"
    by (simp add: sample_doc_def sign_doc_def)
  with fork_detected [OF sample_doc_valid sample_doc_valid _ sample_doc_sized sample_doc_sized, of 0 3 2 0 3 1]
    sample_heads_differ
  show ?thesis by (simp add: heads_distinguish_def version_of_def Let_def del: roster_step.simps)
qed

theorem pierced_invalid_bit_witness:
  "let r = (sample_doc 1 0 1)\<lparr>approving_device_id := []\<rparr>;
       d = core_roster_accept sample_crypto (Some (sample_doc 0 0 1)) True r sample_root
   in outcome d = Ignored \<and> \<not> quarantined d"
proof -
  have "validate sample_crypto ((sample_doc 1 0 1)\<lparr>approving_device_id := []\<rparr>) sample_root = Inl MalformedField"
    by (simp add: validate_def DEVICE_ID_LEN_def)
  with pierced_invalid_bit [of "\<lparr>held = Some (sample_doc 0 0 1), held_quarantined = True\<rparr>"
      "(sample_doc 1 0 1)\<lparr>approving_device_id := []\<rparr>" sample_root sample_crypto]
  show ?thesis by (simp add: pierces_quarantine_def Let_def del: roster_step.simps)
qed

end
