(* ===== verification/Roster_Store.thy ===== *)
theory Roster_Store
  imports Roster_Acceptance
begin

text \<open>
  Persistence of contact rosters: \<open>core/src/roster_store.rs\<close>, the contact path
  \<open>MessageStore::apply_contact_roster\<close> of \<open>core/src/store.rs\<close> and the safety facts of
  \<open>core/src/contact_safety.rs\<close>. The SQLite tables are records and maps of rows; a statement is the
  function on rows that its SQL says, a primary-key or unique conflict included. Integer columns
  keep the unsigned value (the code casts to \<open>i64\<close> and back, which is a bijection). A transaction that
  errors is rolled back, so an error value carries no tables.
  The lemmas show that a saved roster is read back exactly, that damage heals to the quarantine bit
  alone, that the stored state refines the abstract transition of \<open>Roster_Acceptance\<close> for every
  document that arrives, without touching any other person, and that each fact is recorded once.
\<close>

section \<open>Tables\<close>

record roster_row =
  rr_epoch :: u64
  rr_seq :: u64
  rr_approving :: bytes
  rr_generation :: u64
  rr_signer :: bytes
  rr_signature :: bytes
  rr_head_hash :: bytes
  rr_quarantined :: bool

record device_row =
  dr_device_id :: bytes
  dr_ordinal :: nat
  dr_sign_pk :: "bytes option"
  dr_agree_pk :: "bytes option"
  dr_added_epoch :: "u64 option"
  dr_flags :: "u32 option"
  dr_signer :: "bytes option"
  dr_signature :: "bytes option"
  dr_revoked :: "u64 option"

datatype contact_safety_reason = DeviceRevoked | IdentityRecovered | RosterForked

record contact_safety_change =
  ch_reason :: contact_safety_reason
  ch_device_ids :: "bytes list"
  ch_epoch :: u64
  ch_seq :: u64

record fact_row =
  fr_id :: nat
  fr_person :: bytes
  fr_reason :: contact_safety_reason
  fr_epoch :: u64
  fr_seq :: u64
  fr_device_ids :: "bytes list"
  fr_acknowledged :: bool

record contact_row =
  c_sign_pk :: bytes
  c_relay_epoch :: u64

record tables =
  contacts :: "bytes \<rightharpoonup> contact_row"
  contact_rosters :: "bytes \<rightharpoonup> roster_row"
  contact_devices :: "bytes \<Rightarrow> device_row list"
  safety_facts :: "fact_row list"
  next_fact_id :: nat

section \<open>Reading and writing one person's roster\<close>

definition delete_person :: "tables \<Rightarrow> bytes \<Rightarrow> tables" where
  "delete_person tb p = tb\<lparr>contact_rosters := (contact_rosters tb)(p := None),
     contact_devices := (contact_devices tb)(p := [])\<rparr>"

definition quarantine_only_row :: roster_row where
  "quarantine_only_row = \<lparr>rr_epoch = 0, rr_seq = 0, rr_approving = [], rr_generation = 0, rr_signer = [],
     rr_signature = [], rr_head_hash = [], rr_quarantined = True\<rparr>"

definition self_heal_damaged_roster :: "tables \<Rightarrow> bytes \<Rightarrow> bool \<Rightarrow> tables" where
  "self_heal_damaged_roster tb p q =
     (let tb = delete_person tb p in
      if q then tb\<lparr>contact_rosters := (contact_rosters tb)(p \<mapsto> quarantine_only_row)\<rparr> else tb)"

definition cert_column :: "bytes option \<Rightarrow> string \<Rightarrow> bytes result" where
  "cert_column v field =
     (case v of Some b \<Rightarrow> Inr b
      | None \<Rightarrow> Inl (Store (''stored device certificate is missing '' @ field)))"

fun read_rows :: "bytes \<Rightarrow> device_row list \<Rightarrow> (device_cert list \<times> device_tombstone list) result" where
  "read_rows p [] = Inr ([], [])"
| "read_rows p (row # rows) =
     (case dr_revoked row of
        Some s \<Rightarrow> and_then (read_rows p rows) (\<lambda>(ds, ts).
          Inr (ds, \<lparr>tomb_device_id = dr_device_id row, revoked_at_seq = s\<rparr> # ts))
      | None \<Rightarrow>
          and_then (cert_column (dr_sign_pk row) ''device_sign_pk'') (\<lambda>spk.
          and_then (cert_column (dr_agree_pk row) ''device_agree_pk'') (\<lambda>apk.
          and_then (cert_column (dr_signer row) ''signer_sign_pk'') (\<lambda>signer.
          and_then (cert_column (dr_signature row) ''signature'') (\<lambda>sg.
          and_then (read_rows p rows) (\<lambda>(ds, ts).
          Inr (\<lparr>cert_person_id = p, cert_device_sign_pk = spk, cert_device_agree_pk = apk,
                cert_added_epoch = (case dr_added_epoch row of Some e \<Rightarrow> e | None \<Rightarrow> 0),
                cert_flags = (case dr_flags row of Some f \<Rightarrow> f | None \<Rightarrow> 0),
                cert_signer_sign_pk = signer, cert_signature = sg\<rparr> # ds, ts)))))))"

text \<open>\<open>ORDER BY revoked_at_seq IS NOT NULL ASC, ordinal ASC\<close>.\<close>

definition row_order :: "device_row \<Rightarrow> bool \<times> nat" where
  "row_order row = (dr_revoked row \<noteq> None, dr_ordinal row)"

definition load_state :: "crypto \<Rightarrow> tables \<Rightarrow> bytes \<Rightarrow> (held_roster \<times> tables) result" where
  "load_state cr tb p =
     (case contact_rosters tb p of
        None \<Rightarrow> Inr (\<lparr>held = None, held_quarantined = False\<rparr>, tb)
      | Some header \<Rightarrow>
          if rr_head_hash header = [] then
            Inr (\<lparr>held = None, held_quarantined = rr_quarantined header\<rparr>, tb)
          else
            and_then (read_rows p (sort_key row_order (contact_devices tb p))) (\<lambda>(ds, ts).
              let r = \<lparr>person_id = p, recovery_epoch = rr_epoch header, roster_seq = rr_seq header,
                       devices = ds, tombstones = ts, approving_device_id = rr_approving header,
                       inbox_key_generation = rr_generation header, signer_sign_pk = rr_signer header,
                       signature = rr_signature header\<rparr>
              in if roster_head_hash cr r \<noteq> rr_head_hash header
                 then Inr (\<lparr>held = None, held_quarantined = rr_quarantined header\<rparr>,
                           self_heal_damaged_roster tb p (rr_quarantined header))
                 else Inr (\<lparr>held = Some r, held_quarantined = rr_quarantined header\<rparr>, tb)))"

definition cert_row :: "crypto \<Rightarrow> nat \<times> device_cert \<Rightarrow> device_row" where
  "cert_row cr oc = (case oc of (ordinal, c) \<Rightarrow>
     \<lparr>dr_device_id = cert_device_id cr c, dr_ordinal = ordinal, dr_sign_pk = Some (cert_device_sign_pk c),
      dr_agree_pk = Some (cert_device_agree_pk c), dr_added_epoch = Some (cert_added_epoch c),
      dr_flags = Some (cert_flags c), dr_signer = Some (cert_signer_sign_pk c),
      dr_signature = Some (cert_signature c), dr_revoked = None\<rparr>)"

definition tombstone_row :: "nat \<times> device_tombstone \<Rightarrow> device_row" where
  "tombstone_row ot = (case ot of (ordinal, t) \<Rightarrow>
     \<lparr>dr_device_id = tomb_device_id t, dr_ordinal = ordinal, dr_sign_pk = None, dr_agree_pk = None,
      dr_added_epoch = None, dr_flags = None, dr_signer = None, dr_signature = None,
      dr_revoked = Some (revoked_at_seq t)\<rparr>)"

text \<open>One \<open>INSERT\<close> against the primary key \<open>(person_user_id, device_id)\<close>.\<close>

fun insert_rows :: "device_row list \<Rightarrow> device_row list \<Rightarrow> device_row list result" where
  "insert_rows rows [] = Inr rows"
| "insert_rows rows (row # rest) =
     (if dr_device_id row \<in> set (map dr_device_id rows)
      then Inl (Store ''UNIQUE constraint failed: contact_devices.person_user_id, contact_devices.device_id'')
      else insert_rows (rows @ [row]) rest)"

definition save_roster :: "crypto \<Rightarrow> tables \<Rightarrow> roster \<Rightarrow> bool \<Rightarrow> tables result" where
  "save_roster cr tb r q =
     (if list_ex (\<lambda>c. cert_person_id c \<noteq> person_id r) (devices r)
      then Inl (Store ''device certificate names a different person than its roster'')
      else
        let header = \<lparr>rr_epoch = recovery_epoch r, rr_seq = roster_seq r, rr_approving = approving_device_id r,
                      rr_generation = inbox_key_generation r, rr_signer = signer_sign_pk r,
                      rr_signature = signature r, rr_head_hash = roster_head_hash cr r, rr_quarantined = q\<rparr>
        in and_then (insert_rows [] (map (cert_row cr) (zip [0..<length (devices r)] (devices r)) @
                       map tombstone_row (zip [0..<length (tombstones r)] (tombstones r)))) (\<lambda>rows.
           Inr (tb\<lparr>contact_rosters := (contact_rosters tb)(person_id r \<mapsto> header),
                   contact_devices := (contact_devices tb)(person_id r := rows)\<rparr>)))"

definition set_quarantined :: "tables \<Rightarrow> bytes \<Rightarrow> bool \<Rightarrow> tables" where
  "set_quarantined tb p q =
     tb\<lparr>contact_rosters := (contact_rosters tb)
          (p := map_option (\<lambda>row. row\<lparr>rr_quarantined := q\<rparr>) (contact_rosters tb p))\<rparr>"

definition mark_quarantined :: "tables \<Rightarrow> bytes \<Rightarrow> tables" where
  "mark_quarantined tb p =
     tb\<lparr>contact_rosters := (contact_rosters tb)(p \<mapsto>
          (case contact_rosters tb p of None \<Rightarrow> quarantine_only_row
           | Some row \<Rightarrow> row\<lparr>rr_quarantined := True\<rparr>))\<rparr>"

datatype contact_device_state = DeviceUnknown | DeviceActive | DeviceBuried

definition device_state :: "tables \<Rightarrow> bytes \<Rightarrow> bytes \<Rightarrow> contact_device_state" where
  "device_state tb p device_id =
     (case find (\<lambda>row. dr_device_id row = device_id) (contact_devices tb p) of
        None \<Rightarrow> DeviceUnknown
      | Some row \<Rightarrow> (case dr_revoked row of None \<Rightarrow> DeviceActive | Some _ \<Rightarrow> DeviceBuried))"

definition active_device_ids :: "tables \<Rightarrow> bytes \<Rightarrow> bytes list" where
  "active_device_ids tb p =
     map dr_device_id (sort_key dr_ordinal (filter (\<lambda>row. dr_revoked row = None) (contact_devices tb p)))"

definition sweep_orphaned_persons :: "tables \<Rightarrow> tables" where
  "sweep_orphaned_persons tb =
     tb\<lparr>contact_rosters := (\<lambda>p. if contacts tb p = None then None else contact_rosters tb p),
        contact_devices := (\<lambda>p. if contacts tb p = None then [] else contact_devices tb p)\<rparr>"

section \<open>Safety facts\<close>

definition core_roster_newly_revoked :: "roster option \<Rightarrow> roster \<Rightarrow> bytes list" where
  "core_roster_newly_revoked previous current =
     (let known = (case previous of None \<Rightarrow> [] | Some r \<Rightarrow> map tomb_device_id (tombstones r))
      in map tomb_device_id (filter (\<lambda>t. tomb_device_id t \<notin> set known) (tombstones current)))"

definition core_roster_safety_changes ::
  "roster option \<Rightarrow> roster \<Rightarrow> roster_update_decision \<Rightarrow> contact_safety_change list" where
  "core_roster_safety_changes previous incoming d =
     (case previous of
        None \<Rightarrow> []
      | Some prev \<Rightarrow>
          (case outcome d of
             ForkQuarantined \<Rightarrow>
               if reason d = ForkedContent
               then [\<lparr>ch_reason = RosterForked, ch_device_ids = [], ch_epoch = recovery_epoch prev, ch_seq = roster_seq prev\<rparr>]
               else []
           | Accepted \<Rightarrow>
               (if recovery_epoch incoming > recovery_epoch prev
                then [\<lparr>ch_reason = IdentityRecovered, ch_device_ids = [], ch_epoch = recovery_epoch incoming,
                       ch_seq = roster_seq incoming\<rparr>]
                else []) @
               (let revoked = core_roster_newly_revoked (Some prev) incoming in
                if revoked \<noteq> []
                then [\<lparr>ch_reason = DeviceRevoked, ch_device_ids = revoked, ch_epoch = recovery_epoch incoming,
                       ch_seq = roster_seq incoming\<rparr>]
                else [])
           | Ignored \<Rightarrow> []))"

definition fact_key :: "fact_row \<Rightarrow> bytes \<times> contact_safety_reason \<times> u64 \<times> u64" where
  "fact_key f = (fr_person f, fr_reason f, fr_epoch f, fr_seq f)"

definition record_change :: "bytes \<Rightarrow> tables \<Rightarrow> contact_safety_change \<Rightarrow> tables" where
  "record_change p tb c =
     (if (p, ch_reason c, ch_epoch c, ch_seq c) \<in> set (map fact_key (safety_facts tb)) then tb
      else tb\<lparr>safety_facts := safety_facts tb @
                [\<lparr>fr_id = next_fact_id tb, fr_person = p, fr_reason = ch_reason c, fr_epoch = ch_epoch c,
                  fr_seq = ch_seq c, fr_device_ids = ch_device_ids c, fr_acknowledged = False\<rparr>],
              next_fact_id := next_fact_id tb + 1\<rparr>)"

definition record_changes :: "tables \<Rightarrow> bytes \<Rightarrow> contact_safety_change list \<Rightarrow> tables" where
  "record_changes tb p changes = foldl (record_change p) tb changes"

definition acknowledge_contact_safety_facts :: "tables \<Rightarrow> bytes \<Rightarrow> nat \<Rightarrow> nat \<times> tables" where
  "acknowledge_contact_safety_facts tb p through =
     (let hit = (\<lambda>f. fr_person f = p \<and> fr_id f \<le> through \<and> \<not> fr_acknowledged f)
      in (length (filter hit (safety_facts tb)),
          tb\<lparr>safety_facts := map (\<lambda>f. if hit f then f\<lparr>fr_acknowledged := True\<rparr> else f) (safety_facts tb)\<rparr>))"

definition CONTACT_SAFETY_FACT_PAGE :: nat where
  "CONTACT_SAFETY_FACT_PAGE = 200"

text \<open>Facts have ascending ids in insertion order, so \<open>ORDER BY id DESC\<close> is the reverse.\<close>

definition contact_safety_facts :: "tables \<Rightarrow> bool \<Rightarrow> fact_row list" where
  "contact_safety_facts tb include_acknowledged =
     take CONTACT_SAFETY_FACT_PAGE
       (filter (\<lambda>f. include_acknowledged \<or> \<not> fr_acknowledged f) (rev (safety_facts tb)))"

section \<open>Applying a gossiped roster\<close>

text \<open>The epilogue of an accepted document: a raised recovery epoch resets the relay epoch.\<close>

definition reset_relay_epoch :: "tables \<Rightarrow> bytes \<Rightarrow> tables" where
  "reset_relay_epoch tb p =
     tb\<lparr>contacts := (contacts tb)(p := map_option (\<lambda>c. c\<lparr>c_relay_epoch := 0\<rparr>) (contacts tb p))\<rparr>"

definition apply_contact_roster :: "crypto \<Rightarrow> tables \<Rightarrow> roster \<Rightarrow> (roster_update_decision \<times> tables) result" where
  "apply_contact_roster cr tb incoming =
     (case contacts tb (person_id incoming) of
        None \<Rightarrow>
          Inr (\<lparr>outcome = Ignored, reason = Invalid, rejection = Some PersonMismatch, quarantined = False,
                device_count_outcome = non_surfacing_device_count_outcome
                  (core_device_add_outcome (word_of_nat (length (devices incoming))))\<rparr>, tb)
      | Some contact \<Rightarrow>
          and_then (load_state cr tb (person_id incoming)) (\<lambda>(state, tb).
          let previous = held state;
              d = core_roster_accept cr (held state) (held_quarantined state) incoming (c_sign_pk contact);
              d = d\<lparr>device_count_outcome := non_surfacing_device_count_outcome (device_count_outcome d)\<rparr>;
              tb = record_changes tb (person_id incoming) (core_roster_safety_changes previous incoming d)
          in case outcome d of
               Accepted \<Rightarrow>
                 and_then (save_roster cr tb incoming (quarantined d)) (\<lambda>tb.
                 Inr (d, case previous of
                           Some h \<Rightarrow>
                             if recovery_epoch incoming > recovery_epoch h
                             then reset_relay_epoch tb (person_id incoming) else tb
                         | None \<Rightarrow> tb))
             | ForkQuarantined \<Rightarrow> Inr (d, set_quarantined tb (person_id incoming) True)
             | Ignored \<Rightarrow> Inr (d, tb)))"

definition clear_roster_quarantine :: "crypto \<Rightarrow> tables \<Rightarrow> bytes \<Rightarrow> (bool \<times> tables) result" where
  "clear_roster_quarantine cr tb p =
     and_then (load_state cr tb p) (\<lambda>(state, tb).
       Inr (held_quarantined state, if held_quarantined state then set_quarantined tb p False else tb))"

section \<open>A saved roster is read back exactly\<close>

lemma insert_rows_Inr:
  "insert_rows rows ins = Inr out \<longleftrightarrow>
     distinct (map dr_device_id ins) \<and> set (map dr_device_id rows) \<inter> set (map dr_device_id ins) = {} \<and>
     out = rows @ ins"
  by (induction ins arbitrary: rows) auto

lemma read_rows_append:
  "read_rows p (as @ bs) = and_then (read_rows p as) (\<lambda>(ds, ts).
     and_then (read_rows p bs) (\<lambda>(ds', ts'). Inr (ds @ ds', ts @ ts')))"
proof (induction as)
  case Nil
  show ?case by (cases "read_rows p bs") auto
next
  case (Cons row "as")
  show ?case
    by (cases "read_rows p as"; cases "read_rows p bs")
      (auto simp: Cons cert_column_def split: option.splits)
qed

lemma read_cert_rows:
  "length ns = length cs \<Longrightarrow> list_all (\<lambda>c. cert_person_id c = p) cs \<Longrightarrow>
   read_rows p (map (cert_row cr) (zip ns cs)) = Inr (cs, [])"
  by (induction ns cs rule: list_induct2) (auto simp: cert_row_def cert_column_def)

lemma read_tombstone_rows:
  "length ns = length ts \<Longrightarrow> read_rows p (map tombstone_row (zip ns ts)) = Inr ([], ts)"
  by (induction ns ts rule: list_induct2) (auto simp: tombstone_row_def)

definition saved_rows :: "crypto \<Rightarrow> roster \<Rightarrow> device_row list" where
  "saved_rows cr r = map (cert_row cr) (zip [0..<length (devices r)] (devices r)) @
     map tombstone_row (zip [0..<length (tombstones r)] (tombstones r))"

lemma sort_key_sorted: "sorted (map f xs) \<Longrightarrow> sort_key f xs = xs"
  by (induction xs) (auto simp: insort_is_Cons)

lemma sorted_saved_rows: "sort_key row_order (saved_rows cr r) = saved_rows cr r"
proof (rule sort_key_sorted)
  have "map (row_order \<circ> cert_row cr) (zip [0..<length cs] cs) = map (Pair False) [0..<length cs]" for cs
    by (rule nth_equalityI) (simp_all add: row_order_def cert_row_def)
  moreover have "map (row_order \<circ> tombstone_row) (zip [0..<length ts] ts) = map (Pair True) [0..<length ts]" for ts
    by (rule nth_equalityI) (simp_all add: row_order_def tombstone_row_def)
  ultimately have "map row_order (saved_rows cr r) =
      map (Pair False) [0..<length (devices r)] @ map (Pair True) [0..<length (tombstones r)]"
    by (simp add: saved_rows_def)
  then show "sorted (map row_order (saved_rows cr r))"
    by (auto simp: sorted_iff_nth_mono nth_append)
qed

lemma read_saved_rows:
  "list_all (\<lambda>c. cert_person_id c = p) (devices r) \<Longrightarrow>
   read_rows p (saved_rows cr r) = Inr (devices r, tombstones r)"
  by (simp add: saved_rows_def read_rows_append read_cert_rows read_tombstone_rows)

definition saved_header :: "crypto \<Rightarrow> roster \<Rightarrow> bool \<Rightarrow> roster_row" where
  "saved_header cr r q = \<lparr>rr_epoch = recovery_epoch r, rr_seq = roster_seq r, rr_approving = approving_device_id r,
     rr_generation = inbox_key_generation r, rr_signer = signer_sign_pk r,
     rr_signature = signature r, rr_head_hash = roster_head_hash cr r, rr_quarantined = q\<rparr>"

lemma valid_row_ids:
  assumes "valid_roster cr r root"
  shows "distinct (map dr_device_id (saved_rows cr r))"
proof -
  have "map (dr_device_id \<circ> cert_row cr) (zip [0..<length cs] cs) = map (cert_device_id cr) cs" for cs
    by (rule nth_equalityI) (simp_all add: cert_row_def)
  moreover have "map (dr_device_id \<circ> tombstone_row) (zip [0..<length ts] ts) = map tomb_device_id ts" for ts
    by (rule nth_equalityI) (simp_all add: tombstone_row_def)
  ultimately have "map dr_device_id (saved_rows cr r) =
      map (cert_device_id cr) (devices r) @ map tomb_device_id (tombstones r)"
    by (simp add: saved_rows_def)
  with assms show ?thesis by (simp add: valid_roster_def)
qed

lemma valid_same_person:
  "valid_roster cr r root \<Longrightarrow> list_all (\<lambda>c. cert_person_id c = person_id r) (devices r)"
  by (auto simp: valid_roster_def cert_shape_def list_all_iff)

lemma save_valid:
  assumes "valid_roster cr r root"
  shows "save_roster cr tb r q =
    Inr (tb\<lparr>contact_rosters := (contact_rosters tb)(person_id r \<mapsto> saved_header cr r q),
           contact_devices := (contact_devices tb)(person_id r := saved_rows cr r)\<rparr>)"
proof -
  have "insert_rows [] (saved_rows cr r) = Inr (saved_rows cr r)"
    using valid_row_ids [OF assms] by (simp add: insert_rows_Inr)
  moreover have "\<not> list_ex (\<lambda>c. cert_person_id c \<noteq> person_id r) (devices r)"
    using valid_same_person [OF assms] by (auto simp: list_ex_iff list_all_iff)
  ultimately show ?thesis
    by (simp add: save_roster_def saved_rows_def saved_header_def Let_def)
qed

definition stored_as :: "crypto \<Rightarrow> tables \<Rightarrow> roster \<Rightarrow> bool \<Rightarrow> bool" where
  "stored_as cr tb r q \<longleftrightarrow> contact_rosters tb (person_id r) = Some (saved_header cr r q) \<and>
     contact_devices tb (person_id r) = saved_rows cr r"

lemma roster_eta:
  "\<lparr>person_id = person_id r, recovery_epoch = recovery_epoch r, roster_seq = roster_seq r,
    devices = devices r, tombstones = tombstones r, approving_device_id = approving_device_id r,
    inbox_key_generation = inbox_key_generation r, signer_sign_pk = signer_sign_pk r,
    signature = signature r\<rparr> = (r :: roster)"
  by (cases r) simp

lemma load_stored:
  assumes "digest_widths cr" "stored_as cr tb r q" "list_all (\<lambda>c. cert_person_id c = person_id r) (devices r)"
  shows "load_state cr tb (person_id r) = Inr (\<lparr>held = Some r, held_quarantined = q\<rparr>, tb)"
proof -
  have "roster_head_hash cr r \<noteq> []"
    using assms(1) by (auto simp: digest_widths_def roster_head_hash_def ROSTER_HEAD_HASH_LEN_def
        dest!: spec [of _ 32] spec [of _ "ROSTER_HEAD_HASH_DOMAIN @ roster_signed_bytes r"])
  with assms show ?thesis
    by (simp add: stored_as_def load_state_def saved_header_def sorted_saved_rows read_saved_rows roster_eta Let_def)
qed

text \<open>
  A validated roster survives storage: saving it succeeds whatever was stored before, and
  reading the person back gives the identical document, in document order, with the quarantine bit
  it was saved with, and no repair.
\<close>

theorem roster_save_load:
  assumes "digest_widths cr" "valid_roster cr r root"
  shows "\<exists>tb'. save_roster cr tb r q = Inr tb' \<and>
    load_state cr tb' (person_id r) = Inr (\<lparr>held = Some r, held_quarantined = q\<rparr>, tb')"
  using load_stored [OF assms(1) _ valid_same_person [OF assms(2)]]
  by (simp add: save_valid [OF assms(2)] stored_as_def)

section \<open>The store refines the abstract transition\<close>

text \<open>
  What one person's rows mean, and whether they are damaged; \<open>load_state\<close> is this reading followed by
  the repair.
\<close>

definition view_of :: "crypto \<Rightarrow> bytes \<Rightarrow> roster_row option \<Rightarrow> device_row list \<Rightarrow> (held_roster \<times> bool) result" where
  "view_of cr p hdr rows =
     (case hdr of
        None \<Rightarrow> Inr (\<lparr>held = None, held_quarantined = False\<rparr>, False)
      | Some header \<Rightarrow>
          if rr_head_hash header = [] then Inr (\<lparr>held = None, held_quarantined = rr_quarantined header\<rparr>, False)
          else and_then (read_rows p (sort_key row_order rows)) (\<lambda>(ds, ts).
            let r = \<lparr>person_id = p, recovery_epoch = rr_epoch header, roster_seq = rr_seq header,
                     devices = ds, tombstones = ts, approving_device_id = rr_approving header,
                     inbox_key_generation = rr_generation header, signer_sign_pk = rr_signer header,
                     signature = rr_signature header\<rparr>
            in if roster_head_hash cr r \<noteq> rr_head_hash header
               then Inr (\<lparr>held = None, held_quarantined = rr_quarantined header\<rparr>, True)
               else Inr (\<lparr>held = Some r, held_quarantined = rr_quarantined header\<rparr>, False)))"

abbreviation view :: "crypto \<Rightarrow> tables \<Rightarrow> bytes \<Rightarrow> (held_roster \<times> bool) result" where
  "view cr tb p \<equiv> view_of cr p (contact_rosters tb p) (contact_devices tb p)"

lemma load_state_view:
  "load_state cr tb p = and_then (view cr tb p) (\<lambda>(s, damaged).
     Inr (s, if damaged then self_heal_damaged_roster tb p (held_quarantined s) else tb))"
  by (auto simp: load_state_def view_of_def Let_def split: option.splits)
    (cases "read_rows p (sort_key row_order (contact_devices tb p))"; auto)

lemma view_healed:
  assumes "view cr tb p = Inr (s, True)"
  shows "view cr (self_heal_damaged_roster tb p (held_quarantined s)) p = Inr (s, False)"
  using assms
  by (auto simp: view_of_def self_heal_damaged_roster_def delete_person_def quarantine_only_row_def
      and_then_Inr Let_def split: option.splits if_splits)

lemma load_settles:
  assumes "load_state cr tb p = Inr (s, tb1)"
  shows "view cr tb1 p = Inr (s, False)" "contacts tb1 = contacts tb" "safety_facts tb1 = safety_facts tb"
    "next_fact_id tb1 = next_fact_id tb"
    "\<And>p'. p' \<noteq> p \<Longrightarrow> contact_rosters tb1 p' = contact_rosters tb p' \<and> contact_devices tb1 p' = contact_devices tb p'"
proof -
  from assms obtain damaged where v: "view cr tb p = Inr (s, damaged)"
    and tb1: "tb1 = (if damaged then self_heal_damaged_roster tb p (held_quarantined s) else tb)"
    by (auto simp: load_state_view and_then_Inr)
  show "view cr tb1 p = Inr (s, False)"
    using v view_healed [of cr p tb s] by (cases damaged) (simp_all add: tb1)
  show "contacts tb1 = contacts tb" "safety_facts tb1 = safety_facts tb" "next_fact_id tb1 = next_fact_id tb"
    "\<And>p'. p' \<noteq> p \<Longrightarrow> contact_rosters tb1 p' = contact_rosters tb p' \<and> contact_devices tb1 p' = contact_devices tb p'"
    by (simp_all add: tb1 self_heal_damaged_roster_def delete_person_def Let_def)
qed

lemma view_settled_load: "view cr tb p = Inr (s, False) \<Longrightarrow> load_state cr tb p = Inr (s, tb)"
  by (simp add: load_state_view)

lemma view_set_quarantined:
  assumes "view_of cr p (Some hdr) rows = Inr (s, False)"
  shows "view_of cr p (Some (hdr\<lparr>rr_quarantined := q\<rparr>)) rows = Inr (s\<lparr>held_quarantined := q\<rparr>, False)"
  using assms
  by (cases "read_rows p (sort_key row_order rows)") (auto simp: view_of_def Let_def split: if_splits)

lemma view_no_row: "view_of cr p None rows = Inr (s, d) \<Longrightarrow> s = \<lparr>held = None, held_quarantined = False\<rparr>"
  by (simp add: view_of_def)

lemma record_changes_frame:
  "contact_rosters (record_changes tb p cs) = contact_rosters tb"
  "contact_devices (record_changes tb p cs) = contact_devices tb"
  "contacts (record_changes tb p cs) = contacts tb"
proof -
  have "contact_rosters (foldl (record_change p) tb cs) = contact_rosters tb \<and>
      contact_devices (foldl (record_change p) tb cs) = contact_devices tb \<and>
      contacts (foldl (record_change p) tb cs) = contacts tb"
    by (induction cs arbitrary: tb) (simp_all add: record_change_def)
  then show "contact_rosters (record_changes tb p cs) = contact_rosters tb"
    "contact_devices (record_changes tb p cs) = contact_devices tb"
    "contacts (record_changes tb p cs) = contacts tb"
    by (simp_all add: record_changes_def)
qed

lemma view_stored:
  assumes "digest_widths cr" "valid_roster cr r root"
  shows "view_of cr (person_id r) (Some (saved_header cr r q)) (saved_rows cr r) =
    Inr (\<lparr>held = Some r, held_quarantined = q\<rparr>, False)"
proof -
  let ?tb = "\<lparr>contacts = \<lambda>_. None, contact_rosters = \<lambda>_. Some (saved_header cr r q),
    contact_devices = \<lambda>_. saved_rows cr r, safety_facts = [], next_fact_id = 0\<rparr>"
  have "load_state cr ?tb (person_id r) = Inr (\<lparr>held = Some r, held_quarantined = q\<rparr>, ?tb)"
    by (rule load_stored [OF assms(1) _ valid_same_person [OF assms(2)]]) (simp add: stored_as_def)
  from load_settles(1) [OF this] show ?thesis by simp
qed

text \<open>
  \<open>holds_for cr tb tb' p s\<close>: the tables \<open>tb'\<close> hold \<open>s\<close> about \<open>p\<close> without need of repair, and agree with
  \<open>tb\<close> on everybody else. One lemma per way a transaction ends.
\<close>

definition holds_for :: "crypto \<Rightarrow> tables \<Rightarrow> tables \<Rightarrow> bytes \<Rightarrow> held_roster \<Rightarrow> bool" where
  "holds_for cr tb tb' p s \<longleftrightarrow> load_state cr tb' p = Inr (s, tb') \<and>
     (\<forall>p'. p' \<noteq> p \<longrightarrow> contact_rosters tb' p' = contact_rosters tb p' \<and>
        contact_devices tb' p' = contact_devices tb p' \<and> contacts tb' p' = contacts tb p')"

lemma holds_forI:
  assumes "view cr tb' p = Inr (s, False)"
    and "\<And>p'. p' \<noteq> p \<Longrightarrow> contact_rosters tb' p' = contact_rosters tb p' \<and>
       contact_devices tb' p' = contact_devices tb p' \<and> contacts tb' p' = contacts tb p'"
  shows "holds_for cr tb tb' p s"
  using assms by (simp add: holds_for_def view_settled_load)

lemma load_holds:
  assumes "load_state cr tb p = Inr (s, tb0)"
  shows "holds_for cr tb (record_changes tb0 p cs) p s"
  using load_settles [OF assms] by (intro holds_forI) (simp_all add: record_changes_frame)

lemma holds_for_view: "holds_for cr tb tb' p s \<Longrightarrow> view cr tb' p = Inr (s, False)"
  unfolding holds_for_def using load_settles(1) by blast

lemma fork_holds:
  assumes "holds_for cr tb tb1 p s" "s \<noteq> \<lparr>held = None, held_quarantined = False\<rparr>"
  shows "holds_for cr tb (set_quarantined tb1 p q) p (s\<lparr>held_quarantined := q\<rparr>)"
proof -
  note v = holds_for_view [OF assms(1)]
  then obtain hdr where hdr: "contact_rosters tb1 p = Some hdr"
    using assms(2) by (cases "contact_rosters tb1 p") (auto simp: view_of_def)
  show ?thesis
    using view_set_quarantined [of cr p hdr "contact_devices tb1 p" s q] v hdr assms(1)
    by (intro holds_forI) (simp_all add: set_quarantined_def holds_for_def)
qed

lemma save_holds:
  assumes "digest_widths cr" "holds_for cr tb tb1 (person_id r) s" "valid_roster cr r root"
  shows "\<exists>tb2. save_roster cr tb1 r False = Inr tb2 \<and>
    holds_for cr tb tb2 (person_id r) \<lparr>held = Some r, held_quarantined = False\<rparr> \<and>
    holds_for cr tb (reset_relay_epoch tb2 (person_id r)) (person_id r) \<lparr>held = Some r, held_quarantined = False\<rparr>"
proof -
  define tb2 where "tb2 = tb1\<lparr>contact_rosters := (contact_rosters tb1)(person_id r \<mapsto> saved_header cr r False),
      contact_devices := (contact_devices tb1)(person_id r := saved_rows cr r)\<rparr>"
  have others: "\<forall>p'. p' \<noteq> person_id r \<longrightarrow> contact_rosters tb1 p' = contact_rosters tb p' \<and>
      contact_devices tb1 p' = contact_devices tb p' \<and> contacts tb1 p' = contacts tb p'"
    using assms(2) by (simp add: holds_for_def)
  have "holds_for cr tb tb2 (person_id r) \<lparr>held = Some r, held_quarantined = False\<rparr>"
    "holds_for cr tb (reset_relay_epoch tb2 (person_id r)) (person_id r) \<lparr>held = Some r, held_quarantined = False\<rparr>"
    using view_stored [OF assms(1,3), of False] others
    by (auto intro!: holds_forI simp: tb2_def reset_relay_epoch_def)
  then show ?thesis
    using save_valid [OF assms(3), of tb1 False] by (auto simp: tb2_def)
qed

lemma apply_contact_roster_unfold:
  assumes "contacts tb (person_id r) = Some c" "load_state cr tb (person_id r) = Inr (s, tb0)"
  defines "d \<equiv> (core_roster_accept cr (held s) (held_quarantined s) r (c_sign_pk c))
    \<lparr>device_count_outcome := non_surfacing_device_count_outcome
       (core_device_add_outcome (word_of_nat (length (devices r))))\<rparr>"
  shows "apply_contact_roster cr tb r =
    (let tb1 = record_changes tb0 (person_id r) (core_roster_safety_changes (held s) r d) in
     case outcome d of
       Accepted \<Rightarrow> and_then (save_roster cr tb1 r (quarantined d)) (\<lambda>tb2.
         Inr (d, case held s of
                   Some h \<Rightarrow> if recovery_epoch r > recovery_epoch h then reset_relay_epoch tb2 (person_id r) else tb2
                 | None \<Rightarrow> tb2))
     | ForkQuarantined \<Rightarrow> Inr (d, set_quarantined tb1 (person_id r) True)
     | Ignored \<Rightarrow> Inr (d, tb1))"
proof -
  have "device_count_outcome (core_roster_accept cr (held s) (held_quarantined s) r (c_sign_pk c)) =
      core_device_add_outcome (word_of_nat (length (devices r)))"
    by (simp add: core_roster_accept_def)
  then show ?thesis
    unfolding d_def using assms(1,2)
    by (simp add: apply_contact_roster_def Let_def split: roster_update_outcome.split)
qed

lemma apply_refines:
  assumes "digest_widths cr" "contacts tb (person_id r) = Some c"
    and "load_state cr tb (person_id r) = Inr (s, tb0)"
  shows "\<exists>tb'. apply_contact_roster cr tb r =
      Inr ((core_roster_accept cr (held s) (held_quarantined s) r (c_sign_pk c))
        \<lparr>device_count_outcome := non_surfacing_device_count_outcome
           (core_device_add_outcome (word_of_nat (length (devices r))))\<rparr>, tb') \<and>
    holds_for cr tb tb' (person_id r) (roster_step cr (c_sign_pk c) s (RosterArrives r))"
proof -
  let ?p = "person_id r" and ?root = "c_sign_pk c"
  define d where "d = (core_roster_accept cr (held s) (held_quarantined s) r ?root)
    \<lparr>device_count_outcome := non_surfacing_device_count_outcome
       (core_device_add_outcome (word_of_nat (length (devices r))))\<rparr>"
  define tb1 where "tb1 = record_changes tb0 ?p (core_roster_safety_changes (held s) r d)"
  note run = apply_contact_roster_unfold [OF assms(2,3), folded d_def, folded tb1_def]
  have tb1: "holds_for cr tb tb1 ?p s"
    unfolding tb1_def by (rule load_holds [OF assms(3)])
  have d: "outcome d = outcome (ordering_verdict cr (held s) (held_quarantined s) r ?root)"
    "quarantined d = quarantined (ordering_verdict cr (held s) (held_quarantined s) r ?root)"
    by (simp_all add: d_def)
  show ?thesis
  proof (cases "outcome d")
    case Accepted
    then have q: "\<not> quarantined d" and "valid_roster cr r ?root"
      using verdict_accepted_bit [of cr "held s" "held_quarantined s" r ?root]
      by (simp_all add: d verdict_iff validate_valid)
    from save_holds [OF assms(1) tb1 this(2)] obtain tb2 where
      "save_roster cr tb1 r False = Inr tb2"
      "holds_for cr tb tb2 ?p \<lparr>held = Some r, held_quarantined = False\<rparr>"
      "holds_for cr tb (reset_relay_epoch tb2 ?p) ?p \<lparr>held = Some r, held_quarantined = False\<rparr>" by blast
    with Accepted q show ?thesis
      unfolding run apply_accept_cases d_def [symmetric] by (auto simp: d Let_def split: option.splits)
  next
    case Ignored
    with tb1 show ?thesis
      unfolding run apply_accept_cases d_def [symmetric] by (simp add: d Let_def tb1_def)
  next
    case ForkQuarantined
    then have "s \<noteq> \<lparr>held = None, held_quarantined = False\<rparr>"
      by (auto simp: d ordering_verdict_def split: sum.splits)
    from fork_holds [OF tb1 this, of True] ForkQuarantined show ?thesis
      unfolding run apply_accept_cases d_def [symmetric] by (simp add: d Let_def tb1_def)
  qed
qed

text \<open>
  Claim C20. Refinement. For a contact whose rows can be read, applying a gossiped roster commits,
  returns the decision of \<open>core_roster_accept\<close> on what was held (with the soft-cap warning removed),
  and what the store then holds about that person is exactly the abstract transition, settled
  without repair; every other person's rows are untouched. So what holds of the abstract
  transition over any sequence of arrivals holds of the database.
\<close>

theorem apply_contact_roster_refines:
  assumes "digest_widths cr" "contacts tb (person_id r) = Some c"
    and "load_state cr tb (person_id r) = Inr (s, tb0)"
  shows "\<exists>tb'. apply_contact_roster cr tb r =
      Inr ((core_roster_accept cr (held s) (held_quarantined s) r (c_sign_pk c))
        \<lparr>device_count_outcome := non_surfacing_device_count_outcome
           (core_device_add_outcome (word_of_nat (length (devices r))))\<rparr>, tb') \<and>
    holds_for cr tb tb' (person_id r) (roster_step cr (c_sign_pk c) s (RosterArrives r))"
  using assms by (rule apply_refines)

text \<open>
  The device rows answer for the stored document: after saving a valid roster,
  \<open>device_state\<close> says \<open>DeviceActive\<close> for exactly its listed devices, \<open>DeviceBuried\<close> for exactly its tombstones
  and \<open>DeviceUnknown\<close> for everything else, and \<open>active_device_ids\<close> lists the devices in document order.
\<close>

theorem device_state_answers:
  assumes "valid_roster cr r root" "save_roster cr tb r q = Inr tb'"
  shows "device_state tb' (person_id r) i =
      (if i \<in> active cr r then DeviceActive else if i \<in> buried r then DeviceBuried else DeviceUnknown) \<and>
    active_device_ids tb' (person_id r) = core_roster_device_ids cr r"
proof -
  have rows: "contact_devices tb' (person_id r) = saved_rows cr r"
    using assms save_valid [OF assms(1), of tb q] by auto
  let ?cs = "map (cert_row cr) (zip [0..<length (devices r)] (devices r))"
  let ?ts = "map tombstone_row (zip [0..<length (tombstones r)] (tombstones r))"
  have certs: "dr_revoked x = None" "dr_device_id x \<in> active cr r" if "x \<in> set ?cs" for x
    using that by (auto simp: cert_row_def active_def dest: set_zip_rightD)
  have tombs: "\<exists>y. dr_revoked x = Some y" "dr_device_id x \<in> buried r" if "x \<in> set ?ts" for x
    using that by (auto simp: tombstone_row_def buried_def dest: set_zip_rightD)
  have "map dr_device_id ?cs = map (cert_device_id cr) (devices r)"
    "map dr_device_id ?ts = map tomb_device_id (tombstones r)"
    by (rule nth_equalityI; simp add: cert_row_def tombstone_row_def)+
  then have ids: "dr_device_id ` set ?cs = active cr r" "dr_device_id ` set ?ts = buried r"
    and order: "map dr_device_id ?cs = core_roster_device_ids cr r"
    by (metis list.set_map active_def buried_def core_roster_device_ids_def)+
  have "device_state tb' (person_id r) i =
      (if i \<in> active cr r then DeviceActive else if i \<in> buried r then DeviceBuried else DeviceUnknown)"
  proof (cases "find (\<lambda>row. dr_device_id row = i) (saved_rows cr r)")
    case None
    then have "i \<notin> active cr r" "i \<notin> buried r"
      unfolding ids [symmetric] by (auto simp: find_None_iff saved_rows_def)
    with None show ?thesis by (simp add: device_state_def rows)
  next
    case (Some x)
    then have "x \<in> set (saved_rows cr r)" and xi: "dr_device_id x = i"
      by (metis (mono_tags, lifting) find_Some_iff nth_mem)+
    then have x: "x \<in> set ?cs \<or> x \<in> set ?ts" by (simp only: saved_rows_def set_append Un_iff)
    have "active cr r \<inter> buried r = {}" by (rule valid_disjoint [OF assms(1)])
    with x xi certs [of x] tombs [of x] Some show ?thesis
      unfolding device_state_def rows by fastforce
  qed
  moreover have "active_device_ids tb' (person_id r) = core_roster_device_ids cr r"
  proof -
    have "filter (\<lambda>row. dr_revoked row = None) (saved_rows cr r) = ?cs"
      using certs(1) tombs(1) by (auto simp: saved_rows_def filter_id_conv filter_empty_conv)
    moreover have "map dr_ordinal ?cs = [0..<length (devices r)]"
      by (rule nth_equalityI) (simp_all add: cert_row_def)
    ultimately show ?thesis
      using order by (simp add: active_device_ids_def rows sort_key_sorted)
  qed
  ultimately show ?thesis by blast
qed

section \<open>Facts are recorded once\<close>

definition facts_inv :: "tables \<Rightarrow> bool" where
  "facts_inv tb \<longleftrightarrow> distinct (map fact_key (safety_facts tb)) \<and> sorted_wrt (<) (map fr_id (safety_facts tb)) \<and>
     list_all (\<lambda>f. fr_id f < next_fact_id tb) (safety_facts tb)"

lemma record_change_inv: "facts_inv tb \<Longrightarrow> facts_inv (record_change p tb c)"
  by (auto simp: facts_inv_def record_change_def fact_key_def sorted_wrt_append list_all_iff)

lemma record_changes_inv: "facts_inv tb \<Longrightarrow> facts_inv (record_changes tb p cs)"
  unfolding record_changes_def by (induction cs arbitrary: tb) (simp_all add: record_change_inv)

lemma record_change_prefix:
  "\<exists>new. safety_facts (record_change p tb c) = safety_facts tb @ new \<and> list_all (\<lambda>f. fr_person f = p) new"
  by (auto simp: record_change_def)

lemma record_changes_prefix:
  "\<exists>new. safety_facts (record_changes tb p cs) = safety_facts tb @ new \<and> list_all (\<lambda>f. fr_person f = p) new"
proof (induction cs arbitrary: tb)
  case (Cons c cs)
  obtain n1 where n1: "safety_facts (record_change p tb c) = safety_facts tb @ n1" "list_all (\<lambda>f. fr_person f = p) n1"
    using record_change_prefix by blast
  obtain n2 where "safety_facts (record_changes (record_change p tb c) p cs) = safety_facts (record_change p tb c) @ n2"
    "list_all (\<lambda>f. fr_person f = p) n2" using Cons.IH by blast
  with n1 show ?case by (intro exI [of _ "n1 @ n2"]) (simp add: record_changes_def)
qed (simp add: record_changes_def)

lemma record_change_present:
  "(p, ch_reason c, ch_epoch c, ch_seq c) \<in> fact_key ` set (safety_facts (record_change p tb c))"
  by (force simp: record_change_def fact_key_def)

lemma record_changes_present:
  "c \<in> set cs \<Longrightarrow> (p, ch_reason c, ch_epoch c, ch_seq c) \<in> fact_key ` set (safety_facts (record_changes tb p cs))"
proof (induction cs arbitrary: tb)
  case (Cons d cs)
  show ?case
  proof (cases "c \<in> set cs")
    case True
    then show ?thesis using Cons.IH by (simp add: record_changes_def)
  next
    case False
    obtain new where "safety_facts (record_changes (record_change p tb d) p cs) = safety_facts (record_change p tb d) @ new"
      using record_changes_prefix by blast
    with False Cons.prems record_change_present [of p c tb] show ?thesis by (auto simp: record_changes_def)
  qed
qed simp

lemma save_roster_facts: "save_roster cr tb r q = Inr tb' \<Longrightarrow> safety_facts tb' = safety_facts tb \<and> next_fact_id tb' = next_fact_id tb"
  by (auto simp: save_roster_def Let_def and_then_Inr split: if_splits)

lemma apply_facts:
  assumes "contacts tb (person_id r) = Some c" "load_state cr tb (person_id r) = Inr (s, tb0)"
    and "apply_contact_roster cr tb r = Inr (d, tb')"
  shows "safety_facts tb' = safety_facts (record_changes tb0 (person_id r) (core_roster_safety_changes (held s) r d)) \<and>
    next_fact_id tb' = next_fact_id (record_changes tb0 (person_id r) (core_roster_safety_changes (held s) r d))"
  using assms(3) unfolding apply_contact_roster_unfold [OF assms(1,2)]
  by (auto simp: Let_def and_then_Inr set_quarantined_def reset_relay_epoch_def dest!: save_roster_facts
      split: roster_update_outcome.splits option.splits)

text \<open>
  Safety facts. Applying a document appends facts about that person only and keeps the
  fact table without duplicates and in observation order. A document that supersedes a held one and
  buries devices the held one had not leaves a \<open>DeviceRevoked\<close> fact at its version, one that raises the
  recovery epoch an \<open>IdentityRecovered\<close> fact, and a fork a \<open>RosterForked\<close> fact at the version defended.
\<close>

theorem safety_facts_recorded:
  assumes "facts_inv tb" "contacts tb (person_id r) = Some c"
    and "load_state cr tb (person_id r) = Inr (s, tb0)" "held s = Some h"
    and "apply_contact_roster cr tb r = Inr (d, tb')"
  shows "facts_inv tb' \<and>
    (\<exists>new. safety_facts tb' = safety_facts tb @ new \<and> list_all (\<lambda>f. fr_person f = person_id r) new) \<and>
    (outcome d = Accepted \<and> \<not> buried r \<subseteq> buried h \<longrightarrow>
       (person_id r, DeviceRevoked, recovery_epoch r, roster_seq r) \<in> fact_key ` set (safety_facts tb')) \<and>
    (outcome d = Accepted \<and> recovery_epoch h < recovery_epoch r \<longrightarrow>
       (person_id r, IdentityRecovered, recovery_epoch r, roster_seq r) \<in> fact_key ` set (safety_facts tb')) \<and>
    (reason d = ForkedContent \<and> outcome d = ForkQuarantined \<longrightarrow>
       (person_id r, RosterForked, recovery_epoch h, roster_seq h) \<in> fact_key ` set (safety_facts tb'))"
proof -
  let ?cs = "core_roster_safety_changes (held s) r d"
  note facts = apply_facts [OF assms(2,3,5)]
  note settled = load_settles [OF assms(3)]
  have "facts_inv tb0" using assms(1) settled(3,4) by (simp add: facts_inv_def)
  then have inv: "facts_inv tb'"
    using record_changes_inv [of tb0 "person_id r" ?cs] facts by (simp add: facts_inv_def)
  have pre: "\<exists>new. safety_facts tb' = safety_facts tb @ new \<and> list_all (\<lambda>f. fr_person f = person_id r) new"
    using record_changes_prefix [of tb0 "person_id r" ?cs] facts settled(3) by simp
  have mem: "(person_id r, ch_reason x, ch_epoch x, ch_seq x) \<in> fact_key ` set (safety_facts tb')" if "x \<in> set ?cs" for x
    using record_changes_present [OF that, of "person_id r" tb0] facts by simp
  have "core_roster_newly_revoked (Some h) r \<noteq> []" if "\<not> buried r \<subseteq> buried h"
    using that by (auto simp: core_roster_newly_revoked_def buried_def filter_empty_conv)
  then have rev: "\<exists>x \<in> set ?cs. ch_reason x = DeviceRevoked \<and> ch_epoch x = recovery_epoch r \<and> ch_seq x = roster_seq r"
    if "outcome d = Accepted" "\<not> buried r \<subseteq> buried h"
    using that assms(4) by (simp add: core_roster_safety_changes_def Let_def)
  have rec: "\<exists>x \<in> set ?cs. ch_reason x = IdentityRecovered \<and> ch_epoch x = recovery_epoch r \<and> ch_seq x = roster_seq r"
    if "outcome d = Accepted" "recovery_epoch h < recovery_epoch r"
    using that assms(4) by (simp add: core_roster_safety_changes_def Let_def)
  have fork: "\<exists>x \<in> set ?cs. ch_reason x = RosterForked \<and> ch_epoch x = recovery_epoch h \<and> ch_seq x = roster_seq h"
    if "outcome d = ForkQuarantined" "reason d = ForkedContent"
    using that assms(4) by (simp add: core_roster_safety_changes_def)
  show ?thesis
    using inv pre rev rec fork mem by (intro conjI impI) (blast | metis)+
qed

text \<open>
  The page of facts a reader gets can hide one nobody has read: there is a well-formed
  fact table with an unacknowledged fact that the newest-first page leaves out, because newer
  acknowledged facts of other contacts fill it.
\<close>

theorem safety_page_hides_unread:
  "\<exists>tb f. facts_inv tb \<and> f \<in> set (safety_facts tb) \<and> \<not> fr_acknowledged f \<and>
     f \<notin> set (contact_safety_facts tb True)"
proof -
  define fact where "fact n = \<lparr>fr_id = n, fr_person = [], fr_reason = DeviceRevoked, fr_epoch = 0,
    fr_seq = word_of_nat n, fr_device_ids = [], fr_acknowledged = (n \<noteq> 0)\<rparr>" for n
  define tb where "tb = \<lparr>contacts = \<lambda>_. None, contact_rosters = \<lambda>_. None, contact_devices = \<lambda>_. [],
    safety_facts = map fact [0..<201], next_fact_id = 201\<rparr>"
  have inj: "inj_on (\<lambda>n. fact_key (fact n)) {0..<201}"
  proof (rule inj_onI)
    fix m n assume mn: "m \<in> {0..<201}" "n \<in> {0..<201}" "fact_key (fact m) = fact_key (fact n)"
    then have "unat (word_of_nat m :: u64) = unat (word_of_nat n :: u64)" by (simp add: fact_key_def fact_def)
    with mn show "m = n" by (simp add: unat_of_nat)
  qed
  have ids: "map (\<lambda>n. fr_id (fact n)) [0..<201] = [0..<201]"
    by (rule nth_equalityI) (simp_all add: fact_def)
  have "facts_inv tb"
    using inj ids by (auto simp: facts_inv_def tb_def distinct_map comp_def list_all_iff fact_def)
  moreover have "contact_safety_facts tb True = take 200 (rev (map fact [0..<201]))"
    by (simp add: contact_safety_facts_def tb_def CONTACT_SAFETY_FACT_PAGE_def)
  moreover have "take 200 (rev (map fact [0..<201])) = rev (map fact [1..<201])"
    by (simp add: take_rev flip: map_map) (simp add: drop_map)
  moreover have "fact 0 \<notin> set (rev (map fact [1..<201]))"
    by (auto simp: fact_def)
  ultimately show ?thesis
    by (intro exI [of _ tb] exI [of _ "fact 0"]) (simp add: tb_def, simp add: fact_def)
qed

section \<open>Concrete instances\<close>

definition sample_tables :: tables where
  "sample_tables = \<lparr>contacts = [replicate 16 7 \<mapsto> \<lparr>c_sign_pk = sample_root, c_relay_epoch = 5\<rparr>],
     contact_rosters = \<lambda>_. None, contact_devices = \<lambda>_. [], safety_facts = [], next_fact_id = 1\<rparr>"

theorem roster_save_load_witness:
  "\<exists>tb'. save_roster sample_crypto sample_tables (sample_doc 0 0 1) True = Inr tb' \<and>
     load_state sample_crypto tb' (replicate 16 7) =
       Inr (\<lparr>held = Some (sample_doc 0 0 1), held_quarantined = True\<rparr>, tb')"
  using roster_save_load [OF sample_crypto_ok(1) sample_doc_valid, of sample_tables 0 0 1 True] by simp

lemma sample_load: "load_state sample_crypto sample_tables (replicate 16 7) =
    Inr (\<lparr>held = None, held_quarantined = False\<rparr>, sample_tables)"
  by (simp add: load_state_def sample_tables_def)

theorem apply_contact_roster_refines_witness:
  "\<exists>d tb'. apply_contact_roster sample_crypto sample_tables (sample_doc 0 0 1) = Inr (d, tb') \<and>
     holds_for sample_crypto sample_tables tb' (replicate 16 7)
       (roster_step sample_crypto sample_root \<lparr>held = None, held_quarantined = False\<rparr>
          (RosterArrives (sample_doc 0 0 1)))"
proof -
  have c: "contacts sample_tables (person_id (sample_doc 0 0 1)) = Some \<lparr>c_sign_pk = sample_root, c_relay_epoch = 5\<rparr>"
    by (simp add: sample_tables_def)
  have l: "load_state sample_crypto sample_tables (person_id (sample_doc 0 0 1)) =
      Inr (\<lparr>held = None, held_quarantined = False\<rparr>, sample_tables)"
    using sample_load by simp
  from apply_contact_roster_refines [OF sample_crypto_ok(1) c l] show ?thesis
    by (auto simp del: roster_step.simps)
qed

theorem device_state_answers_witness:
  "\<exists>tb'. save_roster sample_crypto sample_tables (sample_doc 0 0 1) False = Inr tb' \<and>
     device_state tb' (replicate 16 7) (replicate 16 2) = DeviceActive \<and>
     device_state tb' (replicate 16 7) (replicate 16 9) = DeviceBuried"
proof -
  obtain tb' where sv: "save_roster sample_crypto sample_tables (sample_doc 0 0 1) False = Inr tb'"
    using save_valid [OF sample_doc_valid, of sample_tables 0 0 1 False] by blast
  have "active sample_crypto (sample_doc 0 0 1) = {replicate 16 2}" "buried (sample_doc 0 0 1) = {replicate 16 9}"
    by (simp_all add: active_def buried_def)
  then show ?thesis
    using sv device_state_answers [OF sample_doc_valid sv, of "replicate 16 2"]
      device_state_answers [OF sample_doc_valid sv, of "replicate 16 9"]
    by (auto simp: replicate_eqI)
qed

theorem safety_facts_recorded_witness:
  "\<exists>tb d tb'. apply_contact_roster sample_crypto tb (sample_doc 1 0 1) = Inr (d, tb') \<and>
     (replicate 16 7, IdentityRecovered, 1, 0) \<in> fact_key ` set (safety_facts tb')"
proof -
  let ?r = "sample_doc 1 0 1" and ?s = "\<lparr>held = Some (sample_doc 0 0 1), held_quarantined = False\<rparr>"
  obtain tb where sv: "save_roster sample_crypto sample_tables (sample_doc 0 0 1) False = Inr tb"
    and ld: "load_state sample_crypto tb (person_id ?r) = Inr (?s, tb)"
    using load_stored [OF sample_crypto_ok(1) _ valid_same_person [OF sample_doc_valid], of _ 0 0 1 False]
      save_valid [OF sample_doc_valid, of sample_tables 0 0 1 False]
    by (auto simp: stored_as_def)
  have c: "contacts tb (person_id ?r) = Some \<lparr>c_sign_pk = sample_root, c_relay_epoch = 5\<rparr>"
    using sv save_valid [OF sample_doc_valid, of sample_tables 0 0 1 False] by (auto simp: sample_tables_def)
  have inv: "facts_inv tb"
    using save_roster_facts [OF sv] by (simp add: facts_inv_def sample_tables_def)
  from apply_refines [OF sample_crypto_ok(1) c ld] obtain d tb' where
    ap: "apply_contact_roster sample_crypto tb ?r = Inr (d, tb')"
    and d: "outcome d = outcome (ordering_verdict sample_crypto (held ?s) False ?r sample_root)" by auto
  have "outcome d = Accepted"
    unfolding d using sample_supersedes(1) sample_doc_valid [of 1 0 1] by (simp add: verdict_iff validate_valid)
  with safety_facts_recorded [OF inv c ld _ ap] ap show ?thesis by auto
qed

end
