(* ===== verification/Own_Devices.thy ===== *)
theory Own_Devices
  imports Roster_Acceptance
begin

text \<open>
  This person's own devices, from \<open>core/src/device_roster.rs\<close> and the fleet record of
  \<open>core/src/store.rs\<close>: the fleet projection and its monotone storage, the clone-or-sibling verdict on a
  peer that presents this person's identity, the person root recovered from a roster, and the LAN
  proof by which two devices of one person recognise each other. The lemmas give the exact meaning of
  an opened proof, show that a minted proof opens at the other end and never admits this device to
  itself, and that a validated roster always contains its person root.
\<close>

section \<open>The fleet record\<close>

record own_device_fleet =
  own_device_id :: "bytes option"
  fleet_device_ids :: "bytes list"
  projected_from :: roster_version

definition fleet_default :: own_device_fleet where
  "fleet_default = \<lparr>own_device_id = None, fleet_device_ids = [], projected_from = \<lparr>rv_epoch = 0, rv_seq = 0\<rparr>\<rparr>"

definition fleet_invalid :: "string \<Rightarrow> unit result" where
  "fleet_invalid detail = Inl (Store (''own device fleet '' @ detail))"

definition validate_own_device_fleet :: "own_device_fleet \<Rightarrow> unit result" where
  "validate_own_device_fleet fleet =
     (if list_ex (\<lambda>i. length i \<noteq> DEVICE_ID_LEN \<or> i = LEGACY_DEVICE_ID) (fleet_device_ids fleet)
      then fleet_invalid ''lists a device id that is not a real device id''
      else if length (remdups_adj (sort (fleet_device_ids fleet))) \<noteq> length (fleet_device_ids fleet)
      then fleet_invalid ''lists the same device twice''
      else if core_device_add_outcome (word_of_nat (length (fleet_device_ids fleet))) = Refused
      then fleet_invalid ''holds more devices than the hard cap''
      else case own_device_id fleet of
        Some own \<Rightarrow> if own \<notin> set (fleet_device_ids fleet)
                    then fleet_invalid ''does not list this device among its own devices'' else Inr ()
      | None \<Rightarrow> if fleet_device_ids fleet \<noteq> []
                then fleet_invalid ''names siblings without naming which device is this one'' else Inr ())"

text \<open>The tables \<open>own_device_fleet_version\<close> (one row) and \<open>own_device_fleet\<close> (rows in ordinal order).\<close>

record fleet_tables =
  fleet_version :: "roster_version option"
  fleet_rows :: "(bytes \<times> bool) list"

definition show_version :: "roster_version \<Rightarrow> string" where
  "show_version v = ''('' @ show_nat (unat (rv_epoch v)) @ '', '' @ show_nat (unat (rv_seq v)) @ '')''"

definition set_own_device_fleet :: "fleet_tables \<Rightarrow> own_device_fleet \<Rightarrow> fleet_tables result" where
  "set_own_device_fleet tb fleet =
     and_then (validate_own_device_fleet fleet) (\<lambda>_.
     let refusal = (case fleet_version tb of
           None \<Rightarrow> None
         | Some stored \<Rightarrow>
             if projected_from fleet = stored \<or> version_less (projected_from fleet) stored
             then Some (if projected_from fleet = stored then ''idempotent repeat'' else ''rollback'', stored)
             else None)
     in case refusal of
          Some (rule, stored) \<Rightarrow> Inl (Store (''own device fleet '' @ rule @ '': a projection from '' @
            show_version (projected_from fleet) @ '' does not supersede the stored '' @ show_version stored))
        | None \<Rightarrow> Inr \<lparr>fleet_version = Some (projected_from fleet),
            fleet_rows = map (\<lambda>i. (i, own_device_id fleet = Some i)) (fleet_device_ids fleet)\<rparr>)"

fun read_fleet_rows :: "own_device_fleet \<Rightarrow> (bytes \<times> bool) list \<Rightarrow> own_device_fleet" where
  "read_fleet_rows f [] = f"
| "read_fleet_rows f ((i, is_self) # rows) =
     read_fleet_rows ((if is_self then f\<lparr>own_device_id := Some i\<rparr> else f)
       \<lparr>fleet_device_ids := fleet_device_ids f @ [i]\<rparr>) rows"

definition own_device_fleet_of :: "fleet_tables \<Rightarrow> own_device_fleet" where
  "own_device_fleet_of tb =
     (read_fleet_rows fleet_default (fleet_rows tb))
       \<lparr>projected_from := (case fleet_version tb of Some v \<Rightarrow> v | None \<Rightarrow> projected_from fleet_default)\<rparr>"

section \<open>Peers that present this person's identity\<close>

datatype own_identity_peer = ClonePeer | SiblingPeer

definition core_own_identity_peer :: "own_device_fleet \<Rightarrow> bytes option \<Rightarrow> own_identity_peer" where
  "core_own_identity_peer fleet peer_device_id =
     (case peer_device_id of
        None \<Rightarrow> ClonePeer
      | Some peer \<Rightarrow>
          if own_device_id fleet = Some peer then ClonePeer
          else if peer \<in> set (fleet_device_ids fleet) then SiblingPeer
          else ClonePeer)"

datatype own_identity_lan_peer = NotOurIdentity | LanSibling | LanClone

definition own_identity_lan_peer ::
  "bytes \<Rightarrow> bytes \<Rightarrow> own_device_fleet option \<Rightarrow> bytes option \<Rightarrow> own_identity_lan_peer" where
  "own_identity_lan_peer own_agree_pk remote_static_key fleet peer_device_id =
     (if own_agree_pk = [] \<or> own_agree_pk \<noteq> remote_static_key then NotOurIdentity
      else case fleet of
        None \<Rightarrow> LanClone
      | Some f \<Rightarrow> (case core_own_identity_peer f peer_device_id of
                     SiblingPeer \<Rightarrow> LanSibling | ClonePeer \<Rightarrow> LanClone))"

definition derives_to_person :: "crypto \<Rightarrow> roster \<Rightarrow> bytes \<Rightarrow> bool" where
  "derives_to_person cr r key \<longleftrightarrow> length key = KEY_LEN \<and> derive_user_id cr key = person_id r"

definition core_roster_person_root_sign_pk :: "crypto \<Rightarrow> roster \<Rightarrow> bytes option" where
  "core_roster_person_root_sign_pk cr r =
     (if derives_to_person cr r (signer_sign_pk r) then Some (signer_sign_pk r)
      else find (derives_to_person cr r) (map cert_signer_sign_pk (devices r)))"

section \<open>The own-device LAN proof\<close>

definition LAN_OWN_DEVICE_PROOF_MAGIC :: bytes where
  "LAN_OWN_DEVICE_PROOF_MAGIC = ascii ''CMLANOD1''"

definition LAN_OWN_DEVICE_PROOF_LEN :: nat where
  "LAN_OWN_DEVICE_PROOF_LEN = length LAN_OWN_DEVICE_PROOF_MAGIC + KEY_LEN + SIGNATURE_LEN"

datatype lan_proof_role = Initiator | Responder

fun lan_proof_role_tag :: "lan_proof_role \<Rightarrow> u8" where
  "lan_proof_role_tag Initiator = 1"
| "lan_proof_role_tag Responder = 2"

definition lan_proof_signed_message :: "lan_proof_role \<Rightarrow> bytes \<Rightarrow> bytes" where
  "lan_proof_signed_message role handshake_hash = lan_proof_role_tag role # handshake_hash"

definition core_roster_names_a_sibling :: "crypto \<Rightarrow> roster \<Rightarrow> bytes \<Rightarrow> bool" where
  "core_roster_names_a_sibling cr r own =
     (list_ex (\<lambda>c. cert_device_id cr c \<noteq> own) (devices r) \<or>
      list_ex (\<lambda>t. tomb_device_id t \<noteq> own) (tombstones r))"

record lan_own_device_proof =
  proof_device_id :: bytes
  proof_revoked :: bool

definition core_own_device_lan_proof :: "crypto \<Rightarrow> bytes \<Rightarrow> bytes \<Rightarrow> lan_proof_role \<Rightarrow> bytes result" where
  "core_own_device_lan_proof cr sk handshake_hash role =
     (if handshake_hash = [] then Inl (Malformed ''a LAN own-device proof needs a finished handshake'')
      else and_then (signing_key_from_bytes sk) (\<lambda>key.
        let sg = ed_sign cr key (domain_signed_bytes DomLanOwnDeviceProof
                   (lan_proof_signed_message role handshake_hash))
        in Inr (LAN_OWN_DEVICE_PROOF_MAGIC @ ed_pk cr key @ sg)))"

definition core_own_device_lan_proof_open ::
  "crypto \<Rightarrow> roster \<Rightarrow> bytes \<Rightarrow> bytes \<Rightarrow> lan_proof_role \<Rightarrow> bytes \<Rightarrow> lan_own_device_proof option" where
  "core_own_device_lan_proof_open cr r handshake_hash payload peer_role own =
     (if handshake_hash = [] \<or> length payload \<noteq> LAN_OWN_DEVICE_PROOF_LEN then None
      else
        let magic = take (length LAN_OWN_DEVICE_PROOF_MAGIC) payload;
            rest = drop (length LAN_OWN_DEVICE_PROOF_MAGIC) payload
        in if magic \<noteq> LAN_OWN_DEVICE_PROOF_MAGIC then None
           else
             let device_sign_pk = take KEY_LEN rest; sg = drop KEY_LEN rest
             in case core_device_verify cr DomLanOwnDeviceProof device_sign_pk
                       (lan_proof_signed_message peer_role handshake_hash) sg of
                  Inl _ \<Rightarrow> None
                | Inr _ \<Rightarrow>
                    let device_id = derive_user_id cr device_sign_pk
                    in if own \<noteq> [] \<and> device_id = own then None
                       else if list_ex (\<lambda>c. cert_device_id cr c = device_id) (devices r)
                       then Some \<lparr>proof_device_id = device_id, proof_revoked = False\<rparr>
                       else if list_ex (\<lambda>t. tomb_device_id t = device_id) (tombstones r)
                       then Some \<lparr>proof_device_id = device_id, proof_revoked = True\<rparr>
                       else None)"

section \<open>The fleet only moves forward\<close>

lemma sorted_distinct_adj: "sorted (xs :: 'a::linorder list) \<Longrightarrow> distinct_adj xs \<longleftrightarrow> distinct xs"
  by (induction xs rule: induct_list012) (auto simp: distinct_adj_Cons)

lemma sort_dedup_distinct: "length (remdups_adj (sort xs)) = length xs \<longleftrightarrow> distinct (xs :: bytes list)"
  using distinct_adj_conv_length_remdups_adj [of "sort xs"] sorted_distinct_adj [of "sort xs"] by simp

definition fleet_ok :: "own_device_fleet \<Rightarrow> bool" where
  "fleet_ok f \<longleftrightarrow> list_all (\<lambda>i. length i = 16 \<and> i \<noteq> replicate 16 0) (fleet_device_ids f) \<and>
     distinct (fleet_device_ids f) \<and> length (fleet_device_ids f) mod 2 ^ 32 \<le> 16 \<and>
     (case own_device_id f of Some own \<Rightarrow> own \<in> set (fleet_device_ids f) | None \<Rightarrow> fleet_device_ids f = [])"

lemma validate_fleet_ok: "validate_own_device_fleet f = Inr () \<longleftrightarrow> fleet_ok f"
  by (auto simp: validate_own_device_fleet_def fleet_ok_def fleet_invalid_def sort_dedup_distinct device_cap_iff
      not_le list_ex_iff list_all_iff DEVICE_ID_LEN_def LEGACY_DEVICE_ID_def split: option.splits)

lemma read_rows_self:
  "read_fleet_rows f (map (\<lambda>i. (i, own = Some i)) ids) =
     f\<lparr>own_device_id := (if \<exists>i \<in> set ids. own = Some i then own else own_device_id f),
       fleet_device_ids := fleet_device_ids f @ ids\<rparr>"
  by (induction ids arbitrary: f) auto

text \<open>
  The own fleet is only ever replaced by a newer, internally consistent one: a write
  succeeds exactly when the fleet lists distinct real device ids within the cap, names this device
  among them (or is empty), and its roster version is strictly above the stored one; reading back
  after a write gives exactly the written fleet.
\<close>

theorem own_fleet_monotone:
  "set_own_device_fleet tb f = Inr tb' \<longleftrightarrow>
     fleet_ok f \<and> (case fleet_version tb of None \<Rightarrow> True | Some v \<Rightarrow> version_less v (projected_from f)) \<and>
     own_device_fleet_of tb' = f \<and> fleet_version tb' = Some (projected_from f) \<and>
     fleet_rows tb' = map (\<lambda>i. (i, own_device_id f = Some i)) (fleet_device_ids f)"
proof -
  have ord: "v = w \<or> version_less v w \<longleftrightarrow> \<not> version_less w v" for v w
    by (cases v; cases w) (auto simp: version_less_def)
  have readback: "own_device_fleet_of \<lparr>fleet_version = Some (projected_from f),
      fleet_rows = map (\<lambda>i. (i, own_device_id f = Some i)) (fleet_device_ids f)\<rparr> = f" if "fleet_ok f"
    using that by (cases f) (auto simp: own_device_fleet_of_def read_rows_self fleet_default_def fleet_ok_def
        split: option.splits)
  have "tb' = \<lparr>fleet_version = fleet_version tb', fleet_rows = fleet_rows tb'\<rparr>" by (cases tb') simp
  then show ?thesis
    using readback by (auto simp: set_own_device_fleet_def and_then_Inr validate_fleet_ok ord Let_def
        split: option.splits if_splits)
qed

section \<open>What an opened proof means\<close>

lemma magic_length: "length LAN_OWN_DEVICE_PROOF_MAGIC = 8" "LAN_OWN_DEVICE_PROOF_LEN = 104"
  by (simp_all add: LAN_OWN_DEVICE_PROOF_MAGIC_def LAN_OWN_DEVICE_PROOF_LEN_def ascii_def KEY_LEN_def SIGNATURE_LEN_def)

text \<open>
  The exact meaning of an opened LAN proof: it opens to a device precisely when there is a
  finished handshake, the payload is the magic, a key and a signature of the right widths, the
  signature verifies under that key over this handshake and the peer's role, the id is the one
  derived from the key and not this device's own, and the roster lists it, as revoked only when it
  is buried and not active. A stranger, a contact, another session's proof or this device's own
  proof handed back never opens.
\<close>

theorem lan_proof_open_exact:
  "core_own_device_lan_proof_open cr r hh payload role own = Some p \<longleftrightarrow>
     hh \<noteq> [] \<and>
     (\<exists>pk sg. payload = LAN_OWN_DEVICE_PROOF_MAGIC @ pk @ sg \<and> length pk = 32 \<and> length sg = 64 \<and>
        core_device_verify cr DomLanOwnDeviceProof pk (lan_proof_signed_message role hh) sg = Inr () \<and>
        proof_device_id p = derive_user_id cr pk \<and> \<not> (own \<noteq> [] \<and> proof_device_id p = own) \<and>
        (if proof_device_id p \<in> cert_device_id cr ` set (devices r) then \<not> proof_revoked p
         else proof_device_id p \<in> tomb_device_id ` set (tombstones r) \<and> proof_revoked p))"
proof -
  have ver: "(case v of Inl _ \<Rightarrow> None | Inr _ \<Rightarrow> x) = Some y \<longleftrightarrow> v = Inr () \<and> x = Some y" for v :: "unit result" and x and y :: lan_own_device_proof
    by (cases v) auto
  have mem: "list_ex (\<lambda>c. cert_device_id cr c = i) cs \<longleftrightarrow> i \<in> cert_device_id cr ` set cs"
    "list_ex (\<lambda>t. tomb_device_id t = i) ts \<longleftrightarrow> i \<in> tomb_device_id ` set ts" for i cs ts
    by (auto simp: list_ex_iff)
  have split: "payload = LAN_OWN_DEVICE_PROOF_MAGIC @ take 32 (drop 8 payload) @ drop 40 payload"
    if "length payload = 104" "take 8 payload = LAN_OWN_DEVICE_PROOF_MAGIC"
    using that append_take_drop_id [of 8 payload] append_take_drop_id [of 32 "drop 8 payload"] by simp
  show ?thesis (is "?open \<longleftrightarrow> ?spec")
  proof
    assume ?open
    then have "hh \<noteq> []" "length payload = 104" "take 8 payload = LAN_OWN_DEVICE_PROOF_MAGIC"
      and "core_device_verify cr DomLanOwnDeviceProof (take 32 (drop 8 payload))
          (lan_proof_signed_message role hh) (drop 40 payload) = Inr ()"
      and "p = \<lparr>proof_device_id = derive_user_id cr (take 32 (drop 8 payload)),
          proof_revoked = derive_user_id cr (take 32 (drop 8 payload)) \<notin> cert_device_id cr ` set (devices r)\<rparr>"
      and "own = [] \<or> derive_user_id cr (take 32 (drop 8 payload)) \<noteq> own"
      and "derive_user_id cr (take 32 (drop 8 payload)) \<in> cert_device_id cr ` set (devices r) \<or>
         derive_user_id cr (take 32 (drop 8 payload)) \<in> tomb_device_id ` set (tombstones r)"
      unfolding core_own_device_lan_proof_open_def magic_length Let_def ver mem KEY_LEN_def
      by (auto simp: ver mem split: if_splits)
    with split show ?spec
      by (intro conjI exI [of _ "take 32 (drop 8 payload)"] exI [of _ "drop 40 payload"]) auto
  next
    assume ?spec
    then show ?open
      by (cases p) (auto simp: core_own_device_lan_proof_open_def magic_length KEY_LEN_def Let_def ver mem)
  qed
qed

text \<open>
  Two devices of one person recognise each other: a proof a listed device mints on a
  session opens at the other end of that session, which expects the minter's role, to that
  device's id, and is flagged revoked only when the verifier's roster has buried the device and no
  longer lists it.
\<close>

theorem lan_proof_roundtrip:
  assumes "signatures_verify cr" "length sk = 32" "hh \<noteq> []"
    and "derive_user_id cr (ed_pk cr sk) \<in> cert_device_id cr ` set (devices r)"
    and "own \<noteq> derive_user_id cr (ed_pk cr sk)"
  shows "\<exists>payload. core_own_device_lan_proof cr sk hh role = Inr payload \<and>
    core_own_device_lan_proof_open cr r hh payload role own =
      Some \<lparr>proof_device_id = derive_user_id cr (ed_pk cr sk), proof_revoked = False\<rparr>"
proof -
  let ?m = "domain_signed_bytes DomLanOwnDeviceProof (lan_proof_signed_message role hh)"
  have s: "length (ed_pk cr sk) = 32" "length (ed_sign cr sk ?m) = 64" "ed_pk_ok cr (ed_pk cr sk)"
    "ed_verify cr (ed_pk cr sk) ?m (ed_sign cr sk ?m)"
    using assms(1,2) by (simp_all add: signatures_verify_def)
  have mem: "list_ex (\<lambda>c. cert_device_id cr c = derive_user_id cr (ed_pk cr sk)) (devices r)"
    using assms(4) by (auto simp: list_ex_iff)
  show ?thesis
    using s assms(2,3,5) mem
    by (simp add: core_own_device_lan_proof_def signing_key_from_bytes_def core_own_device_lan_proof_open_def
        magic_length KEY_LEN_def SIGNATURE_LEN_def core_device_verify_def verify_raw_def
        verifying_key_from_bytes_def Let_def)
qed

lemma lan_message_inj:
  "lan_proof_signed_message a h = lan_proof_signed_message b k \<longleftrightarrow> a = b \<and> h = k"
  by (cases a; cases b) (auto simp: lan_proof_signed_message_def)

section \<open>The person root inside a roster\<close>

lemma chained_root_signed:
  assumes "chained cr root certs i"
  shows "\<exists>j<length certs. cert_signer_sign_pk (certs ! j) = root"
  using assms by (induction rule: chained.induct) auto

text \<open>
  A validated roster contains its own trust anchor: the key recovered from it exists, has
  the width of a key and derives to the roster's person, and when no other key of that width derives
  to the same person, it is the root the roster was validated against.
\<close>

theorem person_root_recovered:
  assumes "valid_roster cr r root"
  shows "\<exists>k. core_roster_person_root_sign_pk cr r = Some k \<and> length k = 32 \<and>
    derive_user_id cr k = person_id r \<and>
    ((\<forall>k'. length k' = 32 \<and> derive_user_id cr k' = derive_user_id cr root \<longrightarrow> k' = root) \<longrightarrow> k = root)"
proof -
  have root: "derives_to_person cr r root" and dev: "devices r \<noteq> []"
    and chain: "\<forall>i<length (devices r). chained cr root (devices r) i"
    using assms by (auto simp: valid_roster_def derives_to_person_def KEY_LEN_def)
  then have "chained cr root (devices r) 0" by simp
  from chained_root_signed [OF this] have "root \<in> set (map cert_signer_sign_pk (devices r))"
    by auto
  then have "find (derives_to_person cr r) (map cert_signer_sign_pk (devices r)) \<noteq> None"
    using root unfolding find_None_iff by blast
  then obtain j where f: "find (derives_to_person cr r) (map cert_signer_sign_pk (devices r)) = Some j"
    by blast
  then have "derives_to_person cr r j" by (auto simp: find_Some_iff)
  with f obtain k where k: "core_roster_person_root_sign_pk cr r = Some k" "derives_to_person cr r k"
    by (cases "derives_to_person cr r (signer_sign_pk r)") (simp_all add: core_roster_person_root_sign_pk_def)
  moreover have "derive_user_id cr root = person_id r" using root by (simp add: derives_to_person_def)
  ultimately show ?thesis by (auto simp: derives_to_person_def KEY_LEN_def)
qed

text \<open>
  The clone guard. A LAN peer is classified only when it holds this identity's agreement
  key; it is accepted as a sibling exactly when the fleet is readable, an opened proof names a
  listed device and that device is not this one, and every other holder of the key is a clone.
\<close>

theorem own_identity_verdict:
  "own_identity_lan_peer own_pk remote fleet peer =
     (if own_pk \<noteq> [] \<and> remote = own_pk
      then if \<exists>f i. fleet = Some f \<and> peer = Some i \<and> i \<in> set (fleet_device_ids f) \<and> own_device_id f \<noteq> Some i
      then LanSibling else LanClone
      else NotOurIdentity)"
  by (auto simp: own_identity_lan_peer_def core_own_identity_peer_def split: option.splits)

section \<open>Concrete instances\<close>

definition two_device_roster :: roster where
  "two_device_roster = sample_roster\<lparr>devices := [sample_cert, sample_cert\<lparr>cert_device_sign_pk := replicate 32 4\<rparr>]\<rparr>"

theorem lan_proof_roundtrip_witness:
  "\<exists>payload. core_own_device_lan_proof sample_crypto (replicate 32 4) [1, 2, 3] Initiator = Inr payload \<and>
     core_own_device_lan_proof_open sample_crypto two_device_roster [1, 2, 3] payload Initiator (replicate 16 2) =
       Some \<lparr>proof_device_id = derive_user_id sample_crypto (ed_pk sample_crypto (replicate 32 4)), proof_revoked = False\<rparr>"
proof (rule lan_proof_roundtrip [OF sample_crypto_ok(2)])
  have id4: "derive_user_id sample_crypto (ed_pk sample_crypto (replicate 32 4)) = replicate 16 4"
    by (simp add: derive_user_id_def sample_crypto_def)
  show "derive_user_id sample_crypto (ed_pk sample_crypto (replicate 32 4))
      \<in> cert_device_id sample_crypto ` set (devices two_device_roster)"
    by (simp add: id4 two_device_roster_def sample_roster_def cert_device_id_def derive_user_id_def sample_crypto_def)
  show "replicate 16 2 \<noteq> derive_user_id sample_crypto (ed_pk sample_crypto (replicate 32 4))"
    by (simp add: id4 replicate_eqI)
qed simp_all

theorem person_root_recovered_witness:
  "\<exists>k. core_roster_person_root_sign_pk sample_crypto (sample_doc 0 0 1) = Some k \<and>
     derive_user_id sample_crypto k = replicate 16 7"
  using person_root_recovered [OF sample_doc_valid, of 0 0 1] by auto

end
