(* ===== verification/Wire_Kinds.thy ===== *)
theory Wire_Kinds
  imports Mesh_Prelude
begin

text \<open>
  The message kinds and capability bits of \<open>core/src/protocol.rs\<close> and the tables over them: which
  kinds are sync records, which are hidden spray kinds, and which capability bit vouches that a
  peer's delivered watermark moves past a hidden kind.
\<close>

section \<open>Kinds\<close>

definition KIND_TEXT :: u8 where "KIND_TEXT = 1"
definition KIND_RECEIPT :: u8 where "KIND_RECEIPT = 2"
definition KIND_FRIEND_REQUEST :: u8 where "KIND_FRIEND_REQUEST = 3"
definition KIND_GROUP_INVITE :: u8 where "KIND_GROUP_INVITE = 4"
definition KIND_PROFILE_SYNC :: u8 where "KIND_PROFILE_SYNC = 5"
definition KIND_FRIEND_DIRECTORY :: u8 where "KIND_FRIEND_DIRECTORY = 6"
definition KIND_INTRODUCED_FRIEND_REQUEST :: u8 where "KIND_INTRODUCED_FRIEND_REQUEST = 7"
definition KIND_LAN_ENDPOINT_HINT :: u8 where "KIND_LAN_ENDPOINT_HINT = 8"
definition KIND_RELAY_UPDATE :: u8 where "KIND_RELAY_UPDATE = 9"
definition KIND_SYNC_HISTORY :: u8 where "KIND_SYNC_HISTORY = 10"
definition KIND_SYNC_WATERMARK :: u8 where "KIND_SYNC_WATERMARK = 11"
definition KIND_SYNC_CONTACTS :: u8 where "KIND_SYNC_CONTACTS = 12"
definition KIND_SYNC_OWN_ROSTER :: u8 where "KIND_SYNC_OWN_ROSTER = 13"
definition KIND_SYNC_GROUPS :: u8 where "KIND_SYNC_GROUPS = 14"
definition KIND_SYNC_SETTINGS :: u8 where "KIND_SYNC_SETTINGS = 15"
definition KIND_ATTACHMENT_MANIFEST :: u8 where "KIND_ATTACHMENT_MANIFEST = 16"
definition KIND_ATTACHMENT_CHUNK :: u8 where "KIND_ATTACHMENT_CHUNK = 17"
definition KIND_REACTION :: u8 where "KIND_REACTION = 18"
definition KIND_GROUP_METADATA_UPDATE :: u8 where "KIND_GROUP_METADATA_UPDATE = 19"
definition KIND_SYNC_DIGEST :: u8 where "KIND_SYNC_DIGEST = 20"
definition KIND_ROSTER_GOSSIP :: u8 where "KIND_ROSTER_GOSSIP = 21"

lemmas kind_defs =
  KIND_TEXT_def KIND_RECEIPT_def KIND_FRIEND_REQUEST_def KIND_GROUP_INVITE_def
  KIND_PROFILE_SYNC_def KIND_FRIEND_DIRECTORY_def KIND_INTRODUCED_FRIEND_REQUEST_def
  KIND_LAN_ENDPOINT_HINT_def KIND_RELAY_UPDATE_def KIND_SYNC_HISTORY_def KIND_SYNC_WATERMARK_def
  KIND_SYNC_CONTACTS_def KIND_SYNC_OWN_ROSTER_def KIND_SYNC_GROUPS_def KIND_SYNC_SETTINGS_def
  KIND_ATTACHMENT_MANIFEST_def KIND_ATTACHMENT_CHUNK_def KIND_REACTION_def
  KIND_GROUP_METADATA_UPDATE_def KIND_SYNC_DIGEST_def KIND_ROSTER_GOSSIP_def

section \<open>Capability bits\<close>

definition CAP_ACKS_HIDDEN_KINDS :: u32 where "CAP_ACKS_HIDDEN_KINDS = 1"
definition CAP_RELAY_UPDATE :: u32 where "CAP_RELAY_UPDATE = push_bit 1 1"
definition CAP_MULTI_DEVICE :: u32 where "CAP_MULTI_DEVICE = push_bit 2 1"
definition CAP_ROSTER_GOSSIP :: u32 where "CAP_ROSTER_GOSSIP = push_bit 3 1"
definition CAP_OWN_ROSTER_NOTICE :: u32 where "CAP_OWN_ROSTER_NOTICE = push_bit 4 1"

lemmas cap_defs =
  CAP_ACKS_HIDDEN_KINDS_def CAP_RELAY_UPDATE_def CAP_MULTI_DEVICE_def
  CAP_ROSTER_GOSSIP_def CAP_OWN_ROSTER_NOTICE_def

definition core_own_capabilities :: u32 where
  "core_own_capabilities =
     CAP_ACKS_HIDDEN_KINDS OR CAP_RELAY_UPDATE OR CAP_MULTI_DEVICE OR CAP_ROSTER_GOSSIP OR CAP_OWN_ROSTER_NOTICE"

section \<open>Tables over the kinds\<close>

definition core_is_sync_record_kind :: "u8 \<Rightarrow> bool" where
  "core_is_sync_record_kind kind \<longleftrightarrow>
     kind \<in> {KIND_SYNC_HISTORY, KIND_SYNC_WATERMARK, KIND_SYNC_CONTACTS, KIND_SYNC_OWN_ROSTER,
             KIND_SYNC_GROUPS, KIND_SYNC_SETTINGS, KIND_SYNC_DIGEST}"

definition HIDDEN_SPRAY_KINDS :: "u8 list" where
  "HIDDEN_SPRAY_KINDS =
     [KIND_FRIEND_REQUEST, KIND_PROFILE_SYNC, KIND_FRIEND_DIRECTORY, KIND_INTRODUCED_FRIEND_REQUEST,
      KIND_RELAY_UPDATE, KIND_ROSTER_GOSSIP]"

definition core_is_hidden_spray_kind :: "u8 \<Rightarrow> bool" where
  "core_is_hidden_spray_kind kind \<longleftrightarrow> kind \<in> set HIDDEN_SPRAY_KINDS"

definition hidden_ack_capability :: "u8 \<Rightarrow> u32 option" where
  "hidden_ack_capability kind =
     (if kind = KIND_RELAY_UPDATE then Some CAP_RELAY_UPDATE
      else if kind = KIND_ROSTER_GOSSIP then Some CAP_ROSTER_GOSSIP
      else if kind \<in> {KIND_FRIEND_REQUEST, KIND_PROFILE_SYNC, KIND_FRIEND_DIRECTORY, KIND_INTRODUCED_FRIEND_REQUEST}
      then Some CAP_ACKS_HIDDEN_KINDS
      else None)"

definition core_kind_persists_msg_id_row :: "u8 \<Rightarrow> bool" where
  "core_kind_persists_msg_id_row kind \<longleftrightarrow>
     kind \<in> {KIND_TEXT, KIND_ATTACHMENT_MANIFEST, KIND_REACTION, KIND_GROUP_METADATA_UPDATE}"

section \<open>The tables agree\<close>

text \<open>The capability table has an entry for exactly the hidden spray kinds.\<close>

lemma hidden_ack_capability_domain:
  "hidden_ack_capability kind \<noteq> None \<longleftrightarrow> core_is_hidden_spray_kind kind"
  by (auto simp: hidden_ack_capability_def core_is_hidden_spray_kind_def HIDDEN_SPRAY_KINDS_def)

text \<open>No kind is at once a sync record and a hidden spray kind, and neither leaves a chat row.\<close>

lemma kind_classes_disjoint:
  "\<not> (core_is_sync_record_kind kind \<and> core_is_hidden_spray_kind kind)"
  "\<not> (core_is_sync_record_kind kind \<and> core_kind_persists_msg_id_row kind)"
  "\<not> (core_is_hidden_spray_kind kind \<and> core_kind_persists_msg_id_row kind)"
  by (auto simp: core_is_sync_record_kind_def core_is_hidden_spray_kind_def HIDDEN_SPRAY_KINDS_def
      core_kind_persists_msg_id_row_def kind_defs)

text \<open>This build vouches for every hidden kind it sends.\<close>

lemma own_capabilities_cover:
  "hidden_ack_capability kind = Some c \<Longrightarrow> core_own_capabilities AND c = c"
  by (auto simp: hidden_ack_capability_def core_own_capabilities_def cap_defs split: if_splits)

end
