(* ===== verification/Mesh_Router.thy ===== *)
theory Mesh_Router
  imports Wire_Kinds "HOL-Library.AList"
begin

text \<open>
  The mesh router of \<open>core/src/transport_policy.rs\<close>: which physical links are up, who is at the
  other end, which single link carries the data of each peer, where an epidemic frame is fanned
  out, and how far each peer has been walked through the carried backlog.

  The router keeps its peers in a hash map. The model keeps them as an association list, whose
  order stands for the map's iteration order; nothing in the code fixes that order, and the
  theorems show that no answer depends on it. The carry progress is only ever looked up by user
  and is a map. An address is the byte string of the Rust \<open>String\<close>, so that the code's string
  comparison is the lexicographic order on bytes. Each method takes its locks, computes and
  releases them; the model runs methods one after another.
\<close>

section \<open>Transports and route priority\<close>

datatype transport = Central | Peripheral | Lan

definition priority :: "transport \<Rightarrow> bytes option \<Rightarrow> bytes \<Rightarrow> u8" where
  "priority t local peer =
     (case t of
        Lan \<Rightarrow> 30
      | Central \<Rightarrow> (if (case local of None \<Rightarrow> True | Some l \<Rightarrow> l < peer) then 20 else 10)
      | Peripheral \<Rightarrow> (if (case local of None \<Rightarrow> False | Some l \<Rightarrow> l > peer) then 20 else 10))"

type_synonym address = bytes

record transport_route =
  route_transport :: transport
  route_address :: address

record identified_route =
  ident_transport :: transport
  ident_address :: address
  ident_user :: bytes

section \<open>Peers and carry progress\<close>

record peer =
  peer_transport :: transport
  connected_sequence :: u64
  peer_user_id :: "bytes option"
  peer_capabilities :: "u32 option"
  last_digest_at_ms :: "i64 option"
  hidden_offered :: "bytes set"
  own_device :: bool

record carried_cursor =
  received_at :: i64
  cursor_msg_id :: bytes

record logical_carry_state =
  lc_carried_cursor :: "carried_cursor option"
  carried_walk_done_at_ms :: "i64 option"
  targeted_carried_cursor :: "carried_cursor option"
  targeted_carried_walk_done_at_ms :: "i64 option"
  last_used_ms :: "i64 option"

definition logical_carry_default :: logical_carry_state where
  "logical_carry_default =
     \<lparr>lc_carried_cursor = None, carried_walk_done_at_ms = None, targeted_carried_cursor = None,
      targeted_carried_walk_done_at_ms = None, last_used_ms = None\<rparr>"

record carried_lane =
  lane_skip :: bool
  lane_after :: "carried_cursor option"

record router =
  peers :: "(address \<times> peer) list"
  logical_carry :: "bytes \<rightharpoonup> logical_carry_state"
  local_user_id :: "bytes option"
  next_connected_sequence :: u64

definition router_new :: router where
  "router_new = \<lparr>peers = [], logical_carry = Map.empty, local_user_id = None, next_connected_sequence = 0\<rparr>"

definition REDIGEST_MIN_INTERVAL_MS :: i64 where
  "REDIGEST_MIN_INTERVAL_MS = 3 * 60000"

definition REDIGEST_MAX_INTERVAL_MS :: i64 where
  "REDIGEST_MAX_INTERVAL_MS = 5 * 60000"

definition CARRIED_REWALK_MIN_INTERVAL_MS :: i64 where
  "CARRIED_REWALK_MIN_INTERVAL_MS = 30 * 60000"

definition LOGICAL_CARRY_STATE_TTL_MS :: i64 where
  "LOGICAL_CARRY_STATE_TTL_MS = 24 * 60 * 60000"

lemmas router_consts = REDIGEST_MIN_INTERVAL_MS_def REDIGEST_MAX_INTERVAL_MS_def
  CARRIED_REWALK_MIN_INTERVAL_MS_def LOGICAL_CARRY_STATE_TTL_MS_def

section \<open>Connections and handshakes\<close>

definition set_local_user_id :: "router \<Rightarrow> bytes \<Rightarrow> router" where
  "set_local_user_id s u = s\<lparr>local_user_id := Some u\<rparr>"

definition insert_peer :: "router \<Rightarrow> address \<Rightarrow> transport \<Rightarrow> bool \<Rightarrow> router" where
  "insert_peer s a t own =
     s\<lparr>peers := AList.update a
          \<lparr>peer_transport = t, connected_sequence = next_connected_sequence s, peer_user_id = None,
           peer_capabilities = None, last_digest_at_ms = None, hidden_offered = {}, own_device = own\<rparr> (peers s),
       next_connected_sequence := next_connected_sequence s + 1\<rparr>"

definition on_connected :: "router \<Rightarrow> address \<Rightarrow> transport \<Rightarrow> router" where
  "on_connected s a t = insert_peer s a t False"

definition on_own_device_connected :: "router \<Rightarrow> address \<Rightarrow> transport \<Rightarrow> router" where
  "on_own_device_connected s a t = insert_peer s a t True"

definition on_disconnected :: "router \<Rightarrow> address \<Rightarrow> router" where
  "on_disconnected s a = s\<lparr>peers := AList.delete a (peers s)\<rparr>"

definition hello_refused :: "peer \<Rightarrow> bytes \<Rightarrow> bool" where
  "hello_refused p u \<longleftrightarrow> own_device p \<or> (case peer_user_id p of None \<Rightarrow> False | Some known \<Rightarrow> known \<noteq> u)"

definition on_hello :: "router \<Rightarrow> address \<Rightarrow> bytes \<Rightarrow> bool \<times> router" where
  "on_hello s a u =
     (case map_of (peers s) a of
        None \<Rightarrow> (False, s)
      | Some p \<Rightarrow>
          if hello_refused p u then (False, s)
          else (True, s\<lparr>peers := AList.update a (p\<lparr>peer_user_id := Some u, hidden_offered := {}\<rparr>) (peers s),
                        logical_carry := (case logical_carry s u of
                            None \<Rightarrow> (logical_carry s)(u \<mapsto> logical_carry_default)
                          | Some _ \<Rightarrow> logical_carry s)\<rparr>))"

definition on_hello2 :: "router \<Rightarrow> address \<Rightarrow> bytes \<Rightarrow> u32 \<Rightarrow> bool \<times> router" where
  "on_hello2 s a u caps =
     (case map_of (peers s) a of
        None \<Rightarrow> (False, s)
      | Some p \<Rightarrow>
          if hello_refused p u then (False, s)
          else (True, s\<lparr>peers := AList.update a (p\<lparr>peer_user_id := Some u, peer_capabilities := Some caps\<rparr>) (peers s)\<rparr>))"

definition clear_transports :: "router \<Rightarrow> transport list \<Rightarrow> router" where
  "clear_transports s ts = s\<lparr>peers := filter (\<lambda>(a, p). peer_transport p \<notin> set ts) (peers s)\<rparr>"

definition router_clear :: "router \<Rightarrow> router" where
  "router_clear s = s\<lparr>peers := [], logical_carry := Map.empty\<rparr>"

section \<open>Hidden kinds\<close>

definition peer_acks_hidden_kind :: "router \<Rightarrow> address \<Rightarrow> u8 \<Rightarrow> bool" where
  "peer_acks_hidden_kind s a kind =
     (case hidden_ack_capability kind of
        None \<Rightarrow> True
      | Some required \<Rightarrow>
          (case Option.bind (map_of (peers s) a) peer_capabilities of
             None \<Rightarrow> False
           | Some caps \<Rightarrow> caps AND required = required))"

definition peer_acked_hidden_kinds :: "router \<Rightarrow> address \<Rightarrow> u8 list" where
  "peer_acked_hidden_kinds s a = filter (peer_acks_hidden_kind s a) HIDDEN_SPRAY_KINDS"

definition hidden_offered_for :: "router \<Rightarrow> address \<Rightarrow> bytes set" where
  "hidden_offered_for s a = (case map_of (peers s) a of None \<Rightarrow> {} | Some p \<Rightarrow> hidden_offered p)"

definition record_hidden_offered :: "router \<Rightarrow> address \<Rightarrow> bytes list \<Rightarrow> router" where
  "record_hidden_offered s a ids =
     (if ids = [] then s
      else case map_of (peers s) a of
        None \<Rightarrow> s
      | Some p \<Rightarrow> s\<lparr>peers := AList.update a (p\<lparr>hidden_offered := hidden_offered p \<union> set ids\<rparr>) (peers s)\<rparr>)"

section \<open>The carry lanes\<close>

definition tail_cursor_at :: "i64 \<Rightarrow> carried_cursor" where
  "tail_cursor_at now = \<lparr>received_at = now, cursor_msg_id = []\<rparr>"

text \<open>\<open>lane_from\<close> returns the lane and the new value of the walk-done marker it was given.\<close>

definition lane_from :: "i64 option \<Rightarrow> carried_cursor option \<Rightarrow> i64 \<Rightarrow> carried_lane \<times> i64 option" where
  "lane_from walk_done cursor now =
     (case walk_done of
        Some done_at \<Rightarrow>
          if i64_sub now done_at < CARRIED_REWALK_MIN_INTERVAL_MS
          then (case cursor of
                  Some tail \<Rightarrow> (\<lparr>lane_skip = False, lane_after = Some tail\<rparr>, walk_done)
                | None \<Rightarrow> (\<lparr>lane_skip = True, lane_after = None\<rparr>, walk_done))
          else (\<lparr>lane_skip = False, lane_after = None\<rparr>, None)
      | None \<Rightarrow> (\<lparr>lane_skip = False, lane_after = cursor\<rparr>, walk_done))"

definition carry_kept :: "i64 \<Rightarrow> logical_carry_state \<Rightarrow> bool" where
  "carry_kept now st =
     (case last_used_ms st of None \<Rightarrow> False | Some used \<Rightarrow> i64_sub now used < LOGICAL_CARRY_STATE_TTL_MS)"

definition touch_and_sweep ::
  "(bytes \<rightharpoonup> logical_carry_state) \<Rightarrow> bytes \<Rightarrow> i64 \<Rightarrow> (bytes \<rightharpoonup> logical_carry_state) \<times> logical_carry_state" where
  "touch_and_sweep carry u now =
     (let swept = (\<lambda>i. case carry i of
                        None \<Rightarrow> None
                      | Some st \<Rightarrow> if i = u \<or> carry_kept now st then Some st else None);
          st = (case swept u of None \<Rightarrow> logical_carry_default | Some st \<Rightarrow> st)\<lparr>last_used_ms := Some now\<rparr>
      in (swept(u \<mapsto> st), st))"

definition user_id_for :: "router \<Rightarrow> address \<Rightarrow> bytes option" where
  "user_id_for s a = Option.bind (map_of (peers s) a) peer_user_id"

definition carried_lane_for :: "router \<Rightarrow> address \<Rightarrow> i64 \<Rightarrow> carried_lane \<times> router" where
  "carried_lane_for s a now =
     (case user_id_for s a of
        None \<Rightarrow> (\<lparr>lane_skip = False, lane_after = None\<rparr>, s)
      | Some u \<Rightarrow>
          (let (carry, st) = touch_and_sweep (logical_carry s) u now;
               (lane, done) = lane_from (carried_walk_done_at_ms st) (lc_carried_cursor st) now
           in (lane, s\<lparr>logical_carry := carry(u \<mapsto> st\<lparr>carried_walk_done_at_ms := done\<rparr>)\<rparr>)))"

definition get_or_insert :: "'a option \<Rightarrow> 'a \<Rightarrow> 'a option" where
  "get_or_insert old v = (case old of None \<Rightarrow> Some v | Some x \<Rightarrow> Some x)"

definition record_carried_progress :: "router \<Rightarrow> address \<Rightarrow> carried_cursor option \<Rightarrow> bool \<Rightarrow> i64 \<Rightarrow> router" where
  "record_carried_progress s a nxt exhausted now =
     (case user_id_for s a of
        None \<Rightarrow> s
      | Some u \<Rightarrow>
          (let (carry, st) = touch_and_sweep (logical_carry s) u now in
           s\<lparr>logical_carry := carry(u \<mapsto>
             (if exhausted
              then st\<lparr>lc_carried_cursor := Some (case nxt of None \<Rightarrow> tail_cursor_at now | Some c \<Rightarrow> c),
                      carried_walk_done_at_ms := get_or_insert (carried_walk_done_at_ms st) now\<rparr>
              else if nxt \<noteq> None
              then st\<lparr>lc_carried_cursor := nxt, carried_walk_done_at_ms := None\<rparr>
              else st))\<rparr>))"

definition targeted_carried_lane_for :: "router \<Rightarrow> address \<Rightarrow> i64 \<Rightarrow> carried_lane \<times> router" where
  "targeted_carried_lane_for s a now =
     (case user_id_for s a of
        None \<Rightarrow> (\<lparr>lane_skip = False, lane_after = None\<rparr>, s)
      | Some u \<Rightarrow>
          (let (carry, st) = touch_and_sweep (logical_carry s) u now;
               (lane, done) = lane_from (targeted_carried_walk_done_at_ms st) (targeted_carried_cursor st) now
           in (lane, s\<lparr>logical_carry := carry(u \<mapsto> st\<lparr>targeted_carried_walk_done_at_ms := done\<rparr>)\<rparr>)))"

definition record_targeted_carried_progress ::
  "router \<Rightarrow> address \<Rightarrow> carried_cursor option \<Rightarrow> bool \<Rightarrow> i64 \<Rightarrow> router" where
  "record_targeted_carried_progress s a nxt exhausted now =
     (case user_id_for s a of
        None \<Rightarrow> s
      | Some u \<Rightarrow>
          (let (carry, st) = touch_and_sweep (logical_carry s) u now in
           s\<lparr>logical_carry := carry(u \<mapsto>
             (if exhausted
              then st\<lparr>targeted_carried_cursor := Some (case nxt of None \<Rightarrow> tail_cursor_at now | Some c \<Rightarrow> c),
                      targeted_carried_walk_done_at_ms := get_or_insert (targeted_carried_walk_done_at_ms st) now\<rparr>
              else if nxt \<noteq> None
              then st\<lparr>targeted_carried_cursor := nxt, targeted_carried_walk_done_at_ms := None\<rparr>
              else st))\<rparr>))"

section \<open>Route election\<close>

definition transport_for :: "router \<Rightarrow> address \<Rightarrow> transport option" where
  "transport_for s a = map_option peer_transport (map_of (peers s) a)"

definition route_of :: "address \<times> peer \<Rightarrow> transport_route" where
  "route_of ap = \<lparr>route_transport = peer_transport (snd ap), route_address = fst ap\<rparr>"

definition connected_routes :: "router \<Rightarrow> transport_route list" where
  "connected_routes s = map route_of (peers s)"

definition own_device_links :: "router \<Rightarrow> transport_route list" where
  "own_device_links s = sort_key route_address (map route_of (filter (\<lambda>(a, p). own_device p) (peers s)))"

definition identified_routes :: "router \<Rightarrow> identified_route list" where
  "identified_routes s = List.map_filter (\<lambda>(a, p). map_option
     (\<lambda>u. \<lparr>ident_transport = peer_transport p, ident_address = a, ident_user = u\<rparr>) (peer_user_id p)) (peers s)"

definition route_precedes :: "peer \<Rightarrow> peer \<Rightarrow> bytes option \<Rightarrow> bytes \<Rightarrow> bool" where
  "route_precedes candidate current local u \<longleftrightarrow>
     (let cp = priority (peer_transport candidate) local u; kp = priority (peer_transport current) local u
      in cp > kp \<or> (cp = kp \<and> connected_sequence candidate < connected_sequence current))"

fun select_step ::
  "bytes option \<Rightarrow> (bytes \<times> address \<times> peer) list \<Rightarrow> address \<times> peer \<Rightarrow> (bytes \<times> address \<times> peer) list" where
  "select_step local sel (a, p) =
     (case peer_user_id p of
        None \<Rightarrow> sel
      | Some u \<Rightarrow>
          (if (case map_of sel u of None \<Rightarrow> True | Some (_, current) \<Rightarrow> route_precedes p current local u)
           then AList.update u (a, p) sel else sel))"

definition selected_identified_routes :: "router \<Rightarrow> identified_route list" where
  "selected_identified_routes s =
     sort_key ident_user
       (map (\<lambda>(u, a, p). \<lparr>ident_transport = peer_transport p, ident_address = a, ident_user = u\<rparr>)
          (foldl (select_step (local_user_id s)) [] (peers s)))"

definition is_selected_route :: "router \<Rightarrow> address \<Rightarrow> bool" where
  "is_selected_route s a \<longleftrightarrow> list_ex (\<lambda>r. ident_address r = a) (selected_identified_routes s)"

definition relay_routes :: "router \<Rightarrow> address option \<Rightarrow> transport_route list" where
  "relay_routes s except =
     (let excluded_user = Option.bind (Option.bind except (map_of (peers s))) peer_user_id;
          selected_addresses = ident_address ` set
            (filter (\<lambda>r. excluded_user \<noteq> Some (ident_user r)) (selected_identified_routes s))
      in sort_key route_address (map route_of (filter (\<lambda>(a, p).
           if own_device p then False
           else if peer_user_id p \<noteq> None then a \<in> selected_addresses
           else except \<noteq> Some a) (peers s))))"

definition helloed_user_ids :: "router \<Rightarrow> bytes set" where
  "helloed_user_ids s = set (List.map_filter (peer_user_id \<circ> snd) (peers s))"

definition connected_user_count :: "router \<Rightarrow> u32" where
  "connected_user_count s = of_nat (card (helloed_user_ids s))"

text \<open>
  \<open>route_ordering\<close> compares by falling priority, then connection age, then address: the
  lexicographic order of this key.
\<close>

definition route_ordering :: "bytes option \<Rightarrow> bytes \<Rightarrow> address \<times> peer \<Rightarrow> int \<times> u64 \<times> address" where
  "route_ordering local u ap =
     (- uint (priority (peer_transport (snd ap)) local u), connected_sequence (snd ap), fst ap)"

definition routes_for :: "router \<Rightarrow> bytes \<Rightarrow> transport_route list" where
  "routes_for s u =
     map route_of (sort_key (route_ordering (local_user_id s) u)
       (filter (\<lambda>(a, p). peer_user_id p = Some u) (peers s)))"

definition route_for :: "router \<Rightarrow> bytes \<Rightarrow> transport_route option" where
  "route_for s u = (case routes_for s u of [] \<Rightarrow> None | r # _ \<Rightarrow> Some r)"

definition core_transport_send_plan :: "transport_route list \<Rightarrow> u32 \<Rightarrow> transport_route list" where
  "core_transport_send_plan routes frame_size = take 1 routes"

section \<open>The digest cadence\<close>

definition jitter_seed :: "bytes \<Rightarrow> u64" where
  "jitter_seed bs = foldl (\<lambda>h b. (h XOR ucast b) * 0x100000001b3) 0xcbf29ce484222325 bs"

definition should_redigest :: "i64 \<Rightarrow> i64 \<Rightarrow> u64 \<Rightarrow> bool" where
  "should_redigest now last_ms seed =
     (let span = (of_int (REDIGEST_MAX_INTERVAL_MS - REDIGEST_MIN_INTERVAL_MS) :: u64);
          jitter = uint (seed mod (span + 1));
          interval = REDIGEST_MIN_INTERVAL_MS + jitter
      in i64_sub now last_ms \<ge> interval)"

definition peer_capabilities_for :: "router \<Rightarrow> address \<Rightarrow> u32 option" where
  "peer_capabilities_for s a = Option.bind (map_of (peers s) a) peer_capabilities"

definition digest_due_for :: "router \<Rightarrow> address \<Rightarrow> i64 \<Rightarrow> bool" where
  "digest_due_for s a now =
     (case map_of (peers s) a of
        None \<Rightarrow> True
      | Some p \<Rightarrow>
          (case last_digest_at_ms p of
             None \<Rightarrow> True
           | Some last_ms \<Rightarrow>
               should_redigest now last_ms
                 (case peer_user_id p of None \<Rightarrow> jitter_seed a | Some u \<Rightarrow> jitter_seed u)))"

definition record_digest_sent :: "router \<Rightarrow> address \<Rightarrow> i64 \<Rightarrow> router" where
  "record_digest_sent s a now =
     (case map_of (peers s) a of
        None \<Rightarrow> s
      | Some p \<Rightarrow> s\<lparr>peers := AList.update a (p\<lparr>last_digest_at_ms := Some now\<rparr>) (peers s)\<rparr>)"

section \<open>Runs of the router\<close>

datatype router_event =
    SetLocalUserId bytes
  | Connected address transport
  | OwnDeviceConnected address transport
  | Disconnected address
  | Hello address bytes
  | Hello2 address bytes u32
  | HiddenOffered address "bytes list"
  | CarriedLane address i64
  | CarriedProgress address "carried_cursor option" bool i64
  | TargetedLane address i64
  | TargetedProgress address "carried_cursor option" bool i64
  | DigestSent address i64
  | ClearTransports "transport list"
  | RouterClear

fun router_step :: "router \<Rightarrow> router_event \<Rightarrow> router" where
  "router_step s (SetLocalUserId u) = set_local_user_id s u"
| "router_step s (Connected a t) = on_connected s a t"
| "router_step s (OwnDeviceConnected a t) = on_own_device_connected s a t"
| "router_step s (Disconnected a) = on_disconnected s a"
| "router_step s (Hello a u) = snd (on_hello s a u)"
| "router_step s (Hello2 a u caps) = snd (on_hello2 s a u caps)"
| "router_step s (HiddenOffered a ids) = record_hidden_offered s a ids"
| "router_step s (CarriedLane a now) = snd (carried_lane_for s a now)"
| "router_step s (CarriedProgress a nxt ex now) = record_carried_progress s a nxt ex now"
| "router_step s (TargetedLane a now) = snd (targeted_carried_lane_for s a now)"
| "router_step s (TargetedProgress a nxt ex now) = record_targeted_carried_progress s a nxt ex now"
| "router_step s (DigestSent a now) = record_digest_sent s a now"
| "router_step s (ClearTransports ts) = clear_transports s ts"
| "router_step s RouterClear = router_clear s"

section \<open>Invariants of every run\<close>

subsection \<open>Association lists as hash maps\<close>

lemma update_subset: "set (AList.update k v ps) \<subseteq> insert (k, v) (set ps)"
  by (induction ps) auto

lemma update_image_same:
  "map_of ps k = Some p \<Longrightarrow> f v = f p \<Longrightarrow> map (f \<circ> snd) (AList.update k v ps) = map (f \<circ> snd) ps"
  by (induction ps) (auto split: if_splits)

lemma update_image_fresh:
  "distinct (map (f \<circ> snd) ps) \<Longrightarrow> f v \<notin> (f \<circ> snd) ` set ps \<Longrightarrow>
   distinct (map (f \<circ> snd) (AList.update k v ps))"
proof (induction ps)
  case (Cons x ps)
  have "(f \<circ> snd) ` set (AList.update k v ps) \<subseteq> insert (f v) ((f \<circ> snd) ` set ps)"
    using update_subset [of k v ps] by auto
  with Cons show ?case by (cases x) auto
qed simp

lemma delete_filter: "AList.delete k ps = filter (\<lambda>(a, p). a \<noteq> k) ps"
  by (auto simp: AList.delete_eq intro!: filter_cong)

subsection \<open>Own-device links\<close>

text \<open>An own-device link is never identified, and no address is listed twice.\<close>

definition router_inv :: "router \<Rightarrow> bool" where
  "router_inv s \<longleftrightarrow> distinct (map fst (peers s)) \<and> (\<forall>(a, p)\<in>set (peers s). own_device p \<longrightarrow> peer_user_id p = None)"

text \<open>What one step may do to the peer table.\<close>

inductive table_step :: "(address \<times> peer) list \<Rightarrow> (address \<times> peer) list \<Rightarrow> bool" where
  same: "table_step ps ps"
| drop_links: "table_step ps (filter Q ps)"
| connect: "\<lbrakk>peer_user_id p = None\<rbrakk> \<Longrightarrow> table_step ps (AList.update a p ps)"
| amend: "\<lbrakk>map_of ps a = Some p; connected_sequence q = connected_sequence p; peer_transport q = peer_transport p;
    own_device q = own_device p; peer_user_id q = peer_user_id p \<or> \<not> own_device p\<rbrakk> \<Longrightarrow>
    table_step ps (AList.update a q ps)"

lemma lane_peers [simp]:
  "peers (snd (carried_lane_for s a now)) = peers s"
  "peers (record_carried_progress s a nxt ex now) = peers s"
  "peers (snd (targeted_carried_lane_for s a now)) = peers s"
  "peers (record_targeted_carried_progress s a nxt ex now) = peers s"
  by (simp_all add: carried_lane_for_def record_carried_progress_def targeted_carried_lane_for_def
      record_targeted_carried_progress_def split: option.split prod.split)

lemma router_table_step: "table_step (peers s) (peers (router_step s e))"
proof (cases e)
  case (Hello a u)
  then show ?thesis
    by (auto simp: on_hello_def hello_refused_def split: option.splits intro: table_step.same table_step.amend)
next
  case (Hello2 a u caps)
  then show ?thesis
    by (auto simp: on_hello2_def hello_refused_def split: option.splits intro: table_step.same table_step.amend)
next
  case (HiddenOffered a ids)
  then show ?thesis
    by (auto simp: record_hidden_offered_def split: option.splits intro: table_step.same table_step.amend)
next
  case (DigestSent a now)
  then show ?thesis
    by (auto simp: record_digest_sent_def split: option.splits intro: table_step.same table_step.amend)
next
  case RouterClear
  have "table_step (peers s) (filter (\<lambda>_. False) (peers s))" by (rule drop_links)
  with RouterClear show ?thesis by (simp add: router_clear_def)
qed (auto simp: set_local_user_id_def on_connected_def on_own_device_connected_def insert_peer_def
    on_disconnected_def delete_filter clear_transports_def intro: table_step.intros)

lemma table_step_own:
  assumes "table_step ps qs" "\<forall>(a, p)\<in>set ps. own_device p \<longrightarrow> peer_user_id p = None"
  shows "\<forall>(a, p)\<in>set qs. own_device p \<longrightarrow> peer_user_id p = None"
  using assms
proof cases
  case (connect p a)
  with assms(2) show ?thesis using update_subset [of a p ps] by fastforce
next
  case (amend a p q)
  with assms(2) have "own_device q \<longrightarrow> peer_user_id q = None" by (auto dest!: map_of_SomeD)
  with amend(1) assms(2) show ?thesis using update_subset [of a q ps] by fastforce
qed auto

lemma table_step_keys: "table_step ps qs \<Longrightarrow> distinct (map fst ps) \<Longrightarrow> distinct (map fst qs)"
  by (cases rule: table_step.cases) (auto simp: distinct_update intro: distinct_map_filter)

lemma router_inv_step: "router_inv s \<Longrightarrow> router_inv (router_step s e)"
  using router_table_step [of s e] table_step_own table_step_keys unfolding router_inv_def by blast

interpretation router_run: machine_inv router_step router_new router_inv
  by unfold_locales (simp add: router_inv_def router_new_def, rule router_inv_step)

subsection \<open>Connection ages\<close>

text \<open>
  The connection sequence is an atomic 64-bit counter. Until it wraps, that is for fewer than
  \<open>2 ^ 64\<close> connections, no two live links have the same age.
\<close>

definition ages_distinct :: "(address \<times> peer) list \<Rightarrow> bool" where
  "ages_distinct ps \<longleftrightarrow> distinct (map (connected_sequence \<circ> snd) ps)"

definition ages_below :: "nat \<Rightarrow> router \<Rightarrow> bool" where
  "ages_below n s \<longleftrightarrow> ages_distinct (peers s) \<and> next_connected_sequence s = of_nat n \<and>
     (\<forall>(a, p)\<in>set (peers s). unat (connected_sequence p) < n)"

lemma ages_connect:
  assumes "ages_below n s" "n < 2 ^ 64"
  shows "ages_below (Suc n) (insert_peer s a t own)"
proof -
  let ?p = "\<lparr>peer_transport = t, connected_sequence = next_connected_sequence s, peer_user_id = None,
     peer_capabilities = None, last_digest_at_ms = None, hidden_offered = {}, own_device = own\<rparr>"
  have n: "unat (next_connected_sequence s) = n"
    using assms by (simp add: ages_below_def unat_of_nat take_bit_nat_eq_self)
  have "connected_sequence ?p \<notin> (connected_sequence \<circ> snd) ` set (peers s)"
    using assms(1) n unfolding ages_below_def by fastforce
  then have "ages_distinct (AList.update a ?p (peers s))"
    using assms(1) update_image_fresh [of connected_sequence "peers s" ?p a]
    unfolding ages_below_def ages_distinct_def by blast
  moreover have "\<forall>(b, q)\<in>set (AList.update a ?p (peers s)). unat (connected_sequence q) < Suc n"
    using update_subset [of a ?p "peers s"] assms(1) n unfolding ages_below_def by fastforce
  ultimately show ?thesis
    using assms(1) by (simp add: insert_peer_def ages_below_def)
qed

lemma ages_amend:
  assumes "ages_below n s" "map_of (peers s) a = Some p" "connected_sequence q = connected_sequence p"
  shows "ages_below n (s\<lparr>peers := AList.update a q (peers s)\<rparr>)"
proof -
  have "ages_distinct (AList.update a q (peers s)) = ages_distinct (peers s)"
    using update_image_same [of "peers s" a p connected_sequence q] assms unfolding ages_distinct_def by simp
  moreover have "unat (connected_sequence q) < n"
    using assms by (auto simp: ages_below_def dest!: map_of_SomeD)
  then have "\<forall>(b, r)\<in>set (AList.update a q (peers s)). unat (connected_sequence r) < n"
    using update_subset [of a q "peers s"] assms(1) unfolding ages_below_def by fastforce
  ultimately show ?thesis using assms(1) by (simp add: ages_below_def)
qed

lemma ages_carry [simp]: "ages_below n (s\<lparr>logical_carry := c\<rparr>) = ages_below n s"
  by (simp add: ages_below_def)

lemma next_sequence_kept [simp]:
  "next_connected_sequence (snd (carried_lane_for s a now)) = next_connected_sequence s"
  "next_connected_sequence (record_carried_progress s a nxt ex now) = next_connected_sequence s"
  "next_connected_sequence (snd (targeted_carried_lane_for s a now)) = next_connected_sequence s"
  "next_connected_sequence (record_targeted_carried_progress s a nxt ex now) = next_connected_sequence s"
  by (simp_all add: carried_lane_for_def record_carried_progress_def targeted_carried_lane_for_def
      record_targeted_carried_progress_def split: option.split prod.split)

lemma ages_filter: "ages_distinct ps \<Longrightarrow> ages_distinct (filter Q ps)"
  unfolding ages_distinct_def by (rule distinct_map_filter)

lemma ages_step:
  assumes "ages_below n s" "n < 2 ^ 64"
  shows "ages_below n (router_step s e) \<or> ages_below (Suc n) (router_step s e)"
proof (cases e)
  case (Connected a t)
  then show ?thesis using ages_connect [OF assms] by (simp add: on_connected_def)
next
  case (OwnDeviceConnected a t)
  then show ?thesis using ages_connect [OF assms] by (simp add: on_own_device_connected_def)
next
  case (Hello a u)
  then show ?thesis
    using assms(1) by (auto simp: on_hello_def split: option.splits intro: ages_amend)
next
  case (Hello2 a u caps)
  then show ?thesis
    using assms(1) by (auto simp: on_hello2_def split: option.splits intro: ages_amend)
next
  case (HiddenOffered a ids)
  then show ?thesis
    using assms(1) by (auto simp: record_hidden_offered_def split: option.splits intro: ages_amend)
next
  case (DigestSent a now)
  then show ?thesis
    using assms(1) by (auto simp: record_digest_sent_def split: option.splits intro: ages_amend)
qed (use assms(1) in \<open>auto simp: ages_below_def set_local_user_id_def on_disconnected_def delete_filter
    clear_transports_def router_clear_def ages_filter ages_distinct_def [of "[]"]\<close>)

lemma ages_run:
  "ages_below n s \<Longrightarrow> n + length es < 2 ^ 64 \<Longrightarrow>
   \<exists>m\<le>n + length es. ages_below m (foldl router_step s es)"
proof (induction es arbitrary: n s)
  case (Cons e es)
  then have "n < 2 ^ 64" by simp
  from ages_step [OF Cons.prems(1) this] obtain m where m: "ages_below m (router_step s e)" "m \<le> Suc n"
    using le_SucI by blast
  then have "m + length es < 2 ^ 64" using Cons.prems(2) by simp
  from Cons.IH [OF m(1) this] obtain k where
    "k \<le> m + length es" "ages_below k (foldl router_step s (e # es))" by auto
  with m(2) show ?case by (intro exI [of _ k]) simp
qed auto

lemma reachable_ages_distinct:
  assumes "length es < 2 ^ 64"
  shows "ages_distinct (peers (foldl router_step router_new es))"
proof -
  have "ages_below 0 router_new" by (simp add: ages_below_def ages_distinct_def router_new_def)
  from ages_run [OF this, of es] assms show ?thesis by (auto simp: ages_below_def)
qed

section \<open>The election\<close>

text \<open>
  Specification: the elected link of a user is a live link identified as that user that no other
  such link beats, where links are ranked by priority and then by age.
\<close>

definition election_key :: "bytes option \<Rightarrow> bytes \<Rightarrow> peer \<Rightarrow> int \<times> u64" where
  "election_key local u p = (- uint (priority (peer_transport p) local u), connected_sequence p)"

definition elected :: "(address \<times> peer) list \<Rightarrow> bytes option \<Rightarrow> bytes \<Rightarrow> address \<times> peer \<Rightarrow> bool" where
  "elected ps local u ap \<longleftrightarrow>
     ap \<in> set ps \<and> peer_user_id (snd ap) = Some u \<and>
     (\<forall>bq\<in>set ps. peer_user_id (snd bq) = Some u \<longrightarrow> election_key local u (snd ap) \<le> election_key local u (snd bq))"

lemma route_precedes_key: "route_precedes p q local u \<longleftrightarrow> election_key local u p < election_key local u q"
  by (auto simp: route_precedes_def election_key_def Let_def less_prod_def word_less_def word_uint_eq_iff)

lemma elected_unique:
  assumes "ages_distinct ps" "elected ps local u ap" "elected ps local u bq"
  shows "ap = bq"
proof -
  have "election_key local u (snd ap) = election_key local u (snd bq)"
    using assms(2,3) unfolding elected_def by (meson order_antisym)
  then have "(connected_sequence \<circ> snd) ap = (connected_sequence \<circ> snd) bq" by (simp add: election_key_def)
  with assms show ?thesis
    unfolding ages_distinct_def distinct_map elected_def by (meson inj_onD)
qed

lemma elected_set_cong: "set ps = set qs \<Longrightarrow> elected ps local u = elected qs local u"
  unfolding elected_def by (rule ext) simp

definition selection_ok :: "bytes option \<Rightarrow> (address \<times> peer) list \<Rightarrow> (bytes \<times> address \<times> peer) list \<Rightarrow> bool" where
  "selection_ok local ps sel \<longleftrightarrow> distinct (map fst sel) \<and>
     (\<forall>u. case map_of sel u of
        None \<Rightarrow> \<forall>ap\<in>set ps. peer_user_id (snd ap) \<noteq> Some u
      | Some ap \<Rightarrow> elected ps local u ap)"

lemma selection_okD:
  assumes "selection_ok local ps sel"
  shows "map_of sel u = None \<Longrightarrow> ap \<in> set ps \<Longrightarrow> peer_user_id (snd ap) \<noteq> Some u"
    and "map_of sel u = Some ap \<Longrightarrow> elected ps local u ap"
    and "distinct (map fst sel)"
proof -
  from assms have c: "case map_of sel u of
      None \<Rightarrow> \<forall>ap\<in>set ps. peer_user_id (snd ap) \<noteq> Some u | Some ap \<Rightarrow> elected ps local u ap"
    unfolding selection_ok_def by blast
  show "map_of sel u = None \<Longrightarrow> ap \<in> set ps \<Longrightarrow> peer_user_id (snd ap) \<noteq> Some u" using c by simp
  show "map_of sel u = Some ap \<Longrightarrow> elected ps local u ap" using c by simp
  show "distinct (map fst sel)" using assms unfolding selection_ok_def by blast
qed

lemma elected_snoc_other:
  "peer_user_id (snd x) \<noteq> Some u \<Longrightarrow> elected ps local u ap \<Longrightarrow> elected (ps @ [x]) local u ap"
  by (auto simp: elected_def)

lemma selection_step:
  assumes ok: "selection_ok local ps sel"
  shows "selection_ok local (ps @ [(a, p)]) (select_step local sel (a, p))"
proof (cases "peer_user_id p")
  case None
  with ok show ?thesis by (fastforce simp: selection_ok_def elected_def split: option.splits)
next
  case (Some u)
  let ?sel = "select_step local sel (a, p)"
  have own: "\<exists>bq. map_of ?sel u = Some bq \<and> elected (ps @ [(a, p)]) local u bq"
  proof (cases "map_of sel u")
    case None
    with selection_okD(1) [OF ok None] Some show ?thesis by (auto simp: elected_def update_conv)
  next
    case (Some bq)
    note e = selection_okD(2) [OF ok Some]
    show ?thesis
    proof (cases "route_precedes p (snd bq) local u")
      case True
      then have "election_key local u p \<le> election_key local u (snd bq)" by (simp add: route_precedes_key)
      with e have "elected (ps @ [(a, p)]) local u (a, p)"
        using \<open>peer_user_id p = Some u\<close> unfolding elected_def by (auto intro: order_trans)
      with True Some \<open>peer_user_id p = Some u\<close> show ?thesis by (cases bq) (simp add: update_conv)
    next
      case False
      with e have "elected (ps @ [(a, p)]) local u bq"
        unfolding elected_def by (auto simp: route_precedes_key not_less)
      with False Some \<open>peer_user_id p = Some u\<close> show ?thesis by (cases bq) simp
    qed
  qed
  have other: "map_of ?sel v = map_of sel v" if "v \<noteq> u" for v
    using that Some by (simp add: update_conv)
  have "distinct (map fst ?sel)"
    using selection_okD(3) [OF ok] Some by (simp add: distinct_update)
  moreover have "case map_of ?sel v of
        None \<Rightarrow> \<forall>ap\<in>set (ps @ [(a, p)]). peer_user_id (snd ap) \<noteq> Some v
      | Some ap \<Rightarrow> elected (ps @ [(a, p)]) local v ap" for v
  proof (cases "v = u")
    case True
    with own show ?thesis by auto
  next
    case False
    then show ?thesis
      using Some selection_okD(1,2) [OF ok, of v] other [OF False]
      by (auto split: option.split intro!: elected_snoc_other simp del: select_step.simps)
  qed
  ultimately show ?thesis unfolding selection_ok_def by blast
qed

lemma selection_fold: "selection_ok local ps (foldl (select_step local) [] ps)"
proof (induction ps rule: rev_induct)
  case (snoc x ps)
  then show ?case using selection_step [of local ps _ "fst x" "snd x"] by simp
qed (simp add: selection_ok_def)

lemma selection_members:
  assumes "ages_distinct ps"
  shows "(u, ap) \<in> set (foldl (select_step local) [] ps) \<longleftrightarrow> elected ps local u ap"
proof -
  note ok = selection_fold [of local ps]
  have "map_of (foldl (select_step local) [] ps) u = Some ap \<longleftrightarrow> elected ps local u ap"
  proof
    assume e: "elected ps local u ap"
    then obtain bq where "map_of (foldl (select_step local) [] ps) u = Some bq"
      using selection_okD(1) [OF ok, of u ap] unfolding elected_def by (cases "map_of (foldl (select_step local) [] ps) u") auto
    with selection_okD(2) [OF ok this] elected_unique [OF assms e]
    show "map_of (foldl (select_step local) [] ps) u = Some ap" by metis
  qed (rule selection_okD(2) [OF ok])
  then show ?thesis using selection_okD(3) [OF ok] by (metis map_of_eq_Some_iff)
qed

definition ident_of :: "bytes \<Rightarrow> address \<times> peer \<Rightarrow> identified_route" where
  "ident_of u ap = \<lparr>ident_transport = peer_transport (snd ap), ident_address = fst ap, ident_user = u\<rparr>"

lemma selected_members:
  assumes "ages_distinct (peers s)"
  shows "set (selected_identified_routes s) = {ident_of u ap |u ap. elected (peers s) (local_user_id s) u ap}"
  using selection_members [OF assms]
  by (force simp: selected_identified_routes_def ident_of_def)

lemma selected_users:
  "sorted (map ident_user (selected_identified_routes s))"
  "distinct (map ident_user (selected_identified_routes s))"
proof -
  show "sorted (map ident_user (selected_identified_routes s))"
    by (simp add: selected_identified_routes_def)
  let ?f = "\<lambda>(u, a, p). \<lparr>ident_transport = peer_transport p, ident_address = a, ident_user = u\<rparr>"
  let ?sel = "foldl (select_step (local_user_id s)) [] (peers s)"
  have "mset (map ident_user (selected_identified_routes s)) = mset (map ident_user (map ?f ?sel))"
    by (simp only: selected_identified_routes_def mset_map mset_sort)
  also have "map ident_user (map ?f ?sel) = map fst ?sel" by auto
  finally show "distinct (map ident_user (selected_identified_routes s))"
    using selection_okD(3) [OF selection_fold] by (metis mset_eq_imp_distinct_iff)
qed

lemma elected_exists:
  assumes "ap \<in> set ps" "peer_user_id (snd ap) = Some u"
  shows "\<exists>bq. elected ps local u bq"
  using selection_okD(1,2) [OF selection_fold] assms by (metis not_None_eq)

lemma route_ordering_key:
  "route_ordering local u x \<le> route_ordering local u y \<Longrightarrow> election_key local u (snd x) \<le> election_key local u (snd y)"
  by (auto simp: route_ordering_def election_key_def less_eq_prod_def)

lemma elected_route_for:
  assumes "ages_distinct (peers s)" "elected (peers s) (local_user_id s) u ap"
  shows "route_for s u = Some (route_of ap)"
proof -
  let ?l = "filter (\<lambda>(a, p). peer_user_id p = Some u) (peers s)"
  let ?k = "route_ordering (local_user_id s) u"
  have "ap \<in> set ?l" using assms(2) by (cases ap) (simp add: elected_def)
  then have "sort_key ?k ?l \<noteq> []" by (metis set_sort list.set(1) empty_iff)
  then obtain h t where ht: "sort_key ?k ?l = h # t" by (meson neq_Nil_conv)
  then have h: "h \<in> set (peers s)" "peer_user_id (snd h) = Some u"
    by (auto dest!: arg_cong [where f = set] simp: case_prod_beta)
  have "sorted (map ?k (h # t))" unfolding ht [symmetric] by simp
  then have "\<forall>x\<in>set ?l. ?k h \<le> ?k x"
    using ht by (metis (no_types, lifting) set_sort set_ConsD sorted_wrt.simps(2) list.simps(9) order_refl list.set_map imageI)
  then have "\<forall>x\<in>set ?l. election_key (local_user_id s) u (snd h) \<le> election_key (local_user_id s) u (snd x)"
    by (blast intro: route_ordering_key)
  then have "elected (peers s) (local_user_id s) u h"
    using h unfolding elected_def by (auto simp: case_prod_beta)
  with assms have "h = ap" by (metis elected_unique)
  with ht show ?thesis by (simp add: route_for_def routes_for_def)
qed

lemma helloed_iff: "u \<in> helloed_user_ids s \<longleftrightarrow> (\<exists>ap\<in>set (peers s). peer_user_id (snd ap) = Some u)"
  by (force simp: helloed_user_ids_def List.map_filter_def image_iff)

lemma helloed_elected: "u \<in> helloed_user_ids s \<longleftrightarrow> (\<exists>ap. elected (peers s) (local_user_id s) u ap)"
  using elected_exists [of _ "peers s" u "local_user_id s"] unfolding helloed_iff elected_def by blast

lemma selected_order_irrelevant:
  assumes "ages_distinct (peers s)" "mset ps = mset (peers s)"
  shows "selected_identified_routes (s\<lparr>peers := ps\<rparr>) = selected_identified_routes s"
proof -
  let ?t = "s\<lparr>peers := ps\<rparr>"
  have sets: "set ps = set (peers s)" using assms(2) by (rule mset_eq_setD)
  have "distinct (map (connected_sequence \<circ> snd) ps)"
    using assms unfolding ages_distinct_def by (metis mset_eq_imp_distinct_iff mset_map)
  then have ages: "ages_distinct (peers ?t)" by (simp add: ages_distinct_def)
  have same: "set (selected_identified_routes ?t) = set (selected_identified_routes s)"
    using selected_members [OF ages] selected_members [OF assms(1)] elected_set_cong [OF sets]
    by simp
  have "inj_on ident_user (set (selected_identified_routes ?t) \<union> set (selected_identified_routes s))"
    using selected_users(2) [of s] unfolding same distinct_map by simp
  then show ?thesis
    using selected_users [of s] selected_users [of ?t] same by (intro map_sorted_distinct_set_unique [of ident_user])
qed

lemma ident_of_fields [simp]:
  "ident_user (ident_of u ap) = u" "ident_address (ident_of u ap) = fst ap"
  "ident_transport (ident_of u ap) = peer_transport (snd ap)"
  by (simp_all add: ident_of_def)

text \<open>
  Claim C10. One link carries the data of each peer. Whatever connects, identifies itself,
  disconnects or is cleared, in any order (fewer than \<open>2 ^ 64\<close> events, so that connection ages do
  not wrap), the election lists exactly the identified users, each once and in order, names for
  each the link that \<open>route_for\<close> sends on, and gives the same list for every iteration order of
  the peer table.
\<close>

theorem election_canonical:
  assumes "length es < 2 ^ 64" "s = foldl router_step router_new es" "mset ps = mset (peers s)"
  shows "selected_identified_routes (s\<lparr>peers := ps\<rparr>) = selected_identified_routes s \<and>
     sorted (map ident_user (selected_identified_routes s)) \<and>
     distinct (map ident_user (selected_identified_routes s)) \<and>
     ident_user ` set (selected_identified_routes s) = helloed_user_ids s \<and>
     (\<forall>r\<in>set (selected_identified_routes s). route_for s (ident_user r) =
        Some \<lparr>route_transport = ident_transport r, route_address = ident_address r\<rparr>)"
proof -
  have ages: "ages_distinct (peers s)" using reachable_ages_distinct assms(1,2) by simp
  note sel = selected_members [OF ages]
  have "\<forall>r\<in>set (selected_identified_routes s). route_for s (ident_user r) =
        Some \<lparr>route_transport = ident_transport r, route_address = ident_address r\<rparr>"
    unfolding sel using elected_route_for [OF ages] by (auto simp: ident_of_def route_of_def)
  moreover have "ident_user ` set (selected_identified_routes s) = helloed_user_ids s"
  proof (rule set_eqI)
    fix u
    show "u \<in> ident_user ` set (selected_identified_routes s) \<longleftrightarrow> u \<in> helloed_user_ids s"
      unfolding sel helloed_elected image_iff mem_Collect_eq Bex_def by (metis ident_of_fields(1))
  qed
  ultimately show ?thesis
    using selected_order_irrelevant [OF ages assms(3)] selected_users by blast
qed

section \<open>Epidemic fanout\<close>

lemma router_inv_map_of:
  "router_inv s \<Longrightarrow> map_of (peers s) a = Some p \<longleftrightarrow> (a, p) \<in> set (peers s)"
  by (simp add: router_inv_def)

lemma elected_address:
  assumes "router_inv s" "ages_distinct (peers s)" "(a, p) \<in> set (peers s)"
  shows "(\<exists>r\<in>set (selected_identified_routes s). Q (ident_user r) \<and> ident_address r = a) \<longleftrightarrow>
     (\<exists>u. peer_user_id p = Some u \<and> Q u \<and> elected (peers s) (local_user_id s) u (a, p))"
proof
  assume "\<exists>r\<in>set (selected_identified_routes s). Q (ident_user r) \<and> ident_address r = a"
  then obtain u q where e: "elected (peers s) (local_user_id s) u (a, q)" and "Q u"
    unfolding selected_members [OF assms(2)] by auto
  from e have "(a, q) \<in> set (peers s)" "peer_user_id q = Some u" by (simp_all add: elected_def)
  with assms(1,3) have "q = p" by (metis router_inv_map_of option.inject)
  with e \<open>Q u\<close> \<open>peer_user_id q = Some u\<close>
  show "\<exists>u. peer_user_id p = Some u \<and> Q u \<and> elected (peers s) (local_user_id s) u (a, p)" by blast
next
  assume "\<exists>u. peer_user_id p = Some u \<and> Q u \<and> elected (peers s) (local_user_id s) u (a, p)"
  then obtain u where u: "Q u" "elected (peers s) (local_user_id s) u (a, p)" by blast
  then have "ident_of u (a, p) \<in> set (selected_identified_routes s)"
    unfolding selected_members [OF assms(2)] by blast
  with u(1) show "\<exists>r\<in>set (selected_identified_routes s). Q (ident_user r) \<and> ident_address r = a"
    by (metis ident_of_fields(1,2) fst_conv)
qed

text \<open>Which links a fanout reaches, link by link.\<close>

definition fanned_out :: "router \<Rightarrow> address option \<Rightarrow> address \<Rightarrow> peer \<Rightarrow> bool" where
  "fanned_out s except a p \<longleftrightarrow> \<not> own_device p \<and>
     (case peer_user_id p of
        None \<Rightarrow> except \<noteq> Some a
      | Some u \<Rightarrow> Option.bind except (user_id_for s) \<noteq> Some u \<and> elected (peers s) (local_user_id s) u (a, p))"

lemma relay_members:
  assumes "router_inv s" "ages_distinct (peers s)"
  shows "r \<in> set (relay_routes s except) \<longleftrightarrow>
     (\<exists>a p. map_of (peers s) a = Some p \<and> r = route_of (a, p) \<and> fanned_out s except a p)"
proof -
  let ?x = "Option.bind (Option.bind except (map_of (peers s))) peer_user_id"
  let ?A = "ident_address ` set (filter (\<lambda>r. ?x \<noteq> Some (ident_user r)) (selected_identified_routes s))"
  have x: "?x = Option.bind except (user_id_for s)"
    by (cases except) (simp_all add: user_id_for_def)
  have keep: "(if own_device p then False else if peer_user_id p \<noteq> None then a \<in> ?A else except \<noteq> Some a) \<longleftrightarrow>
      fanned_out s except a p" if "(a, p) \<in> set (peers s)" for a p
  proof (cases "peer_user_id p")
    case (Some u)
    have "a \<in> ?A \<longleftrightarrow> (\<exists>r\<in>set (selected_identified_routes s). ?x \<noteq> Some (ident_user r) \<and> ident_address r = a)"
      by auto
    also have "\<dots> \<longleftrightarrow> ?x \<noteq> Some u \<and> elected (peers s) (local_user_id s) u (a, p)"
      unfolding elected_address [OF assms that, of "\<lambda>u. ?x \<noteq> Some u"] using Some by simp
    finally show ?thesis unfolding fanned_out_def x [symmetric] using Some by simp
  qed (simp add: fanned_out_def)
  have "relay_routes s except =
      sort_key route_address (map route_of (filter (\<lambda>(a, p). fanned_out s except a p) (peers s)))"
    unfolding relay_routes_def Let_def
    by (rule arg_cong [where f = "\<lambda>l. sort_key route_address (map route_of l)"], rule filter_cong [OF refl])
      (use keep in \<open>simp only: split_paired_all prod.case\<close>)
  then show ?thesis unfolding router_inv_map_of [OF assms(1)] by auto
qed

lemma elected_same_user:
  assumes "ages_distinct (peers s)" "elected (peers s) (local_user_id s) u x" "elected (peers s) (local_user_id s) u y"
  shows "route_of x = route_of y"
  using elected_unique [OF assms] by simp

lemma relay_one_per_user:
  assumes inv: "router_inv s" and ages: "ages_distinct (peers s)"
    and u: "u \<in> helloed_user_ids s" "Option.bind except (user_id_for s) \<noteq> Some u"
  shows "{r \<in> set (relay_routes s except). user_id_for s (route_address r) = Some u} = {the (route_for s u)}"
proof -
  note mem = relay_members [OF inv ages, where except = except]
  from u(1) obtain a p where e: "elected (peers s) (local_user_id s) u (a, p)"
    unfolding helloed_elected by (metis surj_pair)
  have p: "map_of (peers s) a = Some p" "peer_user_id p = Some u"
    using e inv by (simp_all add: elected_def router_inv_map_of)
  then have "\<not> own_device p" using inv by (force simp: router_inv_def)
  then have sent: "route_of (a, p) \<in> set (relay_routes s except)"
    unfolding mem using p e u(2) by (force simp: fanned_out_def)
  have only: "r = route_of (a, p)"
    if r: "r \<in> set (relay_routes s except)" "user_id_for s (route_address r) = Some u" for r
  proof -
    from r(1) obtain b q where q: "map_of (peers s) b = Some q" "r = route_of (b, q)" "fanned_out s except b q"
      unfolding mem by blast
    with r(2) have "elected (peers s) (local_user_id s) u (b, q)"
      by (auto simp: user_id_for_def route_of_def fanned_out_def split: option.splits)
    from elected_same_user [OF ages this e] q(2) show ?thesis by simp
  qed
  have "user_id_for s (route_address (route_of (a, p))) = Some u"
    using p by (simp add: user_id_for_def route_of_def)
  then have "{r \<in> set (relay_routes s except). user_id_for s (route_address r) = Some u} = {route_of (a, p)}"
    using sent by (intro subset_antisym subsetI) (use only in blast, simp)
  then show ?thesis using elected_route_for [OF ages e] by simp
qed


section \<open>Own-device links never become routes\<close>

lemma identified_not_own:
  assumes "router_inv s" "map_of (peers s) a = Some p" "own_device p"
  shows "peer_user_id p = None"
  using assms unfolding router_inv_def by (metis (mono_tags, lifting) case_prodD map_of_SomeD)

lemma identified_addresses:
  assumes "router_inv s"
  shows "r \<in> set (identified_routes s) \<Longrightarrow> \<exists>p. map_of (peers s) (ident_address r) = Some p \<and> peer_user_id p = Some (ident_user r)"
    and "q \<in> set (routes_for s u) \<Longrightarrow> \<exists>p. map_of (peers s) (route_address q) = Some p \<and> peer_user_id p = Some u"
  using assms by (auto simp: identified_routes_def routes_for_def route_of_def List.map_filter_def router_inv_map_of)

text \<open>
  A link admitted as one of this person's own devices is never a route. In every
  reachable router it is not among the identified routes, not elected, not a route to any user
  and not part of any fanout; and a HELLO or HELLO2 that claims a user id on it is refused and
  changes nothing.
\<close>

theorem own_device_never_route:
  assumes "length es < 2 ^ 64" "s = foldl router_step router_new es"
    and "map_of (peers s) a = Some p" "own_device p"
  shows "a \<notin> ident_address ` set (identified_routes s) \<and> \<not> is_selected_route s a \<and>
     a \<notin> route_address ` set (routes_for s u) \<and> a \<notin> route_address ` set (relay_routes s except) \<and>
     on_hello s a u = (False, s) \<and> on_hello2 s a u caps = (False, s)"
proof -
  have ages: "ages_distinct (peers s)" using reachable_ages_distinct assms(1,2) by simp
  have inv: "router_inv s" using router_run.reachable_inv assms(2) by simp
  have none: "peer_user_id p = None" by (rule identified_not_own [OF inv assms(3,4)])
  have "a \<notin> ident_address ` set (identified_routes s)"
    using identified_addresses(1) [OF inv] assms(3) none by fastforce
  moreover have "a \<notin> route_address ` set (routes_for s u)"
    using identified_addresses(2) [OF inv] assms(3) none by fastforce
  moreover have "\<not> is_selected_route s a"
  proof
    assume "is_selected_route s a"
    then have "\<exists>r\<in>set (selected_identified_routes s). True \<and> ident_address r = a"
      by (auto simp: is_selected_route_def list_ex_iff)
    moreover have "(a, p) \<in> set (peers s)" using assms(3) by (rule map_of_SomeD)
    ultimately show False
      using elected_address [OF inv ages, of a p "\<lambda>_. True"] none by simp
  qed
  moreover have "a \<notin> route_address ` set (relay_routes s except)"
    using relay_members [OF inv ages] assms(3,4) by (auto simp: route_of_def fanned_out_def)
  ultimately show ?thesis
    using assms(3,4) by (simp add: on_hello_def on_hello2_def hello_refused_def)
qed

section \<open>Both ends elect the same link\<close>

fun opposite :: "transport \<Rightarrow> transport" where
  "opposite Central = Peripheral"
| "opposite Peripheral = Central"
| "opposite Lan = Lan"

definition links_to :: "router \<Rightarrow> bytes \<Rightarrow> transport set" where
  "links_to s u = {peer_transport p |a p. (a, p) \<in> set (peers s) \<and> peer_user_id p = Some u}"

lemma priority_opposite:
  "a \<noteq> b \<Longrightarrow> priority (opposite t) (Some b) a = priority t (Some a) b"
  by (cases t) (auto simp: priority_def)

lemma priority_inj: "a \<noteq> b \<Longrightarrow> priority t (Some a) b = priority t' (Some a) b \<Longrightarrow> t = t'"
  by (cases t; cases t') (auto simp: priority_def split: if_splits)

lemma elected_transport:
  assumes "elected (peers s) local u ap" "t \<in> links_to s u"
  shows "priority t local u \<le> priority (peer_transport (snd ap)) local u"
  using assms by (fastforce simp: elected_def links_to_def election_key_def less_eq_prod_def word_le_def)

text \<open>
  The symmetric BLE election. Two phones see the same set of links from opposite ends,
  one's central role being the other's peripheral role. Whichever links are up, the phone that
  looks up a route to the other and the phone at the other end pick opposite ends of the same
  role: a LAN link when there is one, and otherwise the link on which the lexicographically
  smaller user is central, so that the two never cross over.
\<close>

theorem ble_election_symmetric:
  assumes "length es < 2 ^ 64" "s = foldl router_step router_new es" "local_user_id s = Some a"
    and "length es' < 2 ^ 64" "s' = foldl router_step router_new es'" "local_user_id s' = Some b"
    and "a \<noteq> b" "links_to s' a = opposite ` links_to s b" "route_for s b = Some r"
  shows "\<exists>r'. route_for s' a = Some r' \<and> route_transport r' = opposite (route_transport r) \<and>
     (Lan \<in> links_to s b \<longrightarrow> route_transport r = Lan)"
proof -
  have ages: "ages_distinct (peers s)" "ages_distinct (peers s')"
    using reachable_ages_distinct assms(1,2,4,5) by simp_all
  have "filter (\<lambda>(x, p). peer_user_id p = Some b) (peers s) \<noteq> []"
    using assms(9) by (auto simp: route_for_def routes_for_def)
  then have "b \<in> helloed_user_ids s" unfolding helloed_iff by (force simp: filter_empty_conv)
  then obtain x where x: "elected (peers s) (Some a) b x" unfolding helloed_elected assms(3) by blast
  have r: "r = route_of x" using elected_route_for [OF ages(1)] x assms(3,9) by simp
  let ?t = "peer_transport (snd x)"
  have t: "?t \<in> links_to s b" using x by (cases x) (auto simp: elected_def links_to_def)
  then have "opposite ?t \<in> links_to s' a" using assms(8) by blast
  then have "a \<in> helloed_user_ids s'" unfolding helloed_iff links_to_def by force
  then obtain y where y: "elected (peers s') (Some b) a y" unfolding helloed_elected assms(6) by blast
  let ?u = "peer_transport (snd y)"
  have "?u \<in> links_to s' a" using y by (cases y) (auto simp: elected_def links_to_def)
  then obtain t' where t': "?u = opposite t'" "t' \<in> links_to s b" using assms(8) by blast
  have "priority t' (Some a) b = priority ?t (Some a) b"
    using elected_transport [OF x t'(2)] elected_transport [OF y \<open>opposite ?t \<in> links_to s' a\<close>]
    unfolding t'(1) using priority_opposite [OF assms(7)] by simp
  then have "t' = ?t" by (rule priority_inj [OF assms(7)])
  moreover have "?t = Lan" if "Lan \<in> links_to s b"
    using elected_transport [OF x that] by (cases ?t) (auto simp: priority_def split: if_splits)
  ultimately show ?thesis
    using elected_route_for [OF ages(2)] y assms(6) t'(1) r by (auto simp: route_of_def)
qed

section \<open>The digest window\<close>

text \<open>The jittered cadence: never before three minutes, always after five.\<close>

lemma redigest_window:
  "should_redigest now last_ms seed \<Longrightarrow> REDIGEST_MIN_INTERVAL_MS \<le> now - last_ms"
  "REDIGEST_MAX_INTERVAL_MS \<le> now - last_ms \<Longrightarrow> should_redigest now last_ms seed"
proof -
  have span: "(of_int (REDIGEST_MAX_INTERVAL_MS - REDIGEST_MIN_INTERVAL_MS) :: u64) + 1 = 120001"
    by (simp add: router_consts)
  have "uint (seed mod 120001) < 120001" by (simp add: uint_mod)
  then obtain j where j: "uint (seed mod 120001) = j" "0 \<le> j" "j \<le> 120000" by simp
  have iff: "should_redigest now last_ms seed \<longleftrightarrow> REDIGEST_MIN_INTERVAL_MS + j \<le> now - last_ms"
    unfolding should_redigest_def Let_def span j(1)
    by (rule i64_sub_ge_iff) (use j(2,3) in \<open>simp_all add: i64_ok_def i64_bound_defs router_consts\<close>)
  show "should_redigest now last_ms seed \<Longrightarrow> REDIGEST_MIN_INTERVAL_MS \<le> now - last_ms"
    using iff j(2) by simp
  show "REDIGEST_MAX_INTERVAL_MS \<le> now - last_ms \<Longrightarrow> should_redigest now last_ms seed"
    using iff j(3) by (simp add: router_consts)
qed

section \<open>The carry walk and its cooldown\<close>

text \<open>
  \<open>walked u t s\<close>: the walk toward user \<open>u\<close> reached the tail at time \<open>t\<close> and holds a cursor there.
\<close>

definition walked :: "bytes \<Rightarrow> i64 \<Rightarrow> router \<Rightarrow> bool" where
  "walked u t s \<longleftrightarrow> (\<exists>st w c. logical_carry s u = Some st \<and> carried_walk_done_at_ms st = Some t \<and>
     lc_carried_cursor st = Some c \<and> last_used_ms st = Some w \<and> t \<le> w)"

definition in_cooldown :: "i64 \<Rightarrow> i64 \<Rightarrow> bool" where
  "in_cooldown t now \<longleftrightarrow> t \<le> now \<and> now < t + CARRIED_REWALK_MIN_INTERVAL_MS"

text \<open>
  An event is quiet for \<open>u\<close> when its clock is inside the cooldown, it is not a reset of the
  router, and it is not a round toward \<open>u\<close> that stopped on its budget with rows left to offer.
\<close>

fun quiet_event :: "bytes \<Rightarrow> i64 \<Rightarrow> router \<Rightarrow> router_event \<Rightarrow> bool" where
  "quiet_event u t s (CarriedLane a now) = in_cooldown t now"
| "quiet_event u t s (CarriedProgress a nxt ex now) =
     (in_cooldown t now \<and> (user_id_for s a = Some u \<longrightarrow> ex \<or> nxt = None))"
| "quiet_event u t s (TargetedLane a now) = in_cooldown t now"
| "quiet_event u t s (TargetedProgress a nxt ex now) = in_cooldown t now"
| "quiet_event u t s RouterClear = False"
| "quiet_event u t s _ = True"

fun quiet :: "bytes \<Rightarrow> i64 \<Rightarrow> router \<Rightarrow> router_event list \<Rightarrow> bool" where
  "quiet u t s [] = True"
| "quiet u t s (e # es) = (quiet_event u t s e \<and> quiet u t (router_step s e) es)"

lemma interval_ok [simp]:
  "i64_ok CARRIED_REWALK_MIN_INTERVAL_MS" "i64_min < CARRIED_REWALK_MIN_INTERVAL_MS"
  "i64_ok LOGICAL_CARRY_STATE_TTL_MS" "i64_min < LOGICAL_CARRY_STATE_TTL_MS"
  by (simp_all add: i64_ok_def i64_bound_defs router_consts)

lemma lane_during: "in_cooldown t now \<Longrightarrow>
  lane_from (Some t) (Some c) now = (\<lparr>lane_skip = False, lane_after = Some c\<rparr>, Some t)"
  by (simp add: lane_from_def in_cooldown_def i64_sub_less_iff)

lemma lane_due: "t + CARRIED_REWALK_MIN_INTERVAL_MS \<le> now \<Longrightarrow>
  lane_from (Some t) c now = (\<lparr>lane_skip = False, lane_after = None\<rparr>, None)"
  by (simp add: lane_from_def i64_sub_less_iff)

lemma touch_own:
  assumes "carry u = Some st"
  shows "touch_and_sweep carry u now =
    (fst (touch_and_sweep carry u now), st\<lparr>last_used_ms := Some now\<rparr>)"
  using assms by (simp add: touch_and_sweep_def Let_def)

lemma touch_other:
  assumes "carry u = Some st" "last_used_ms st = Some w" "t \<le> w" "in_cooldown t now" "v \<noteq> u"
  shows "fst (touch_and_sweep carry v now) u = Some st"
proof -
  have "now - w < LOGICAL_CARRY_STATE_TTL_MS" using assms(3,4) by (simp add: in_cooldown_def router_consts)
  then have "carry_kept now st" using assms(2) by (simp add: carry_kept_def i64_sub_less_iff)
  with assms(1,5) show ?thesis by (simp add: touch_and_sweep_def Let_def)
qed

text \<open>A round of either lane replaces one user's entry after the sweep.\<close>

definition carry_round :: "router \<Rightarrow> bytes \<Rightarrow> i64 \<Rightarrow> (logical_carry_state \<Rightarrow> logical_carry_state) \<Rightarrow> router" where
  "carry_round s v now f =
     (let (carry, st) = touch_and_sweep (logical_carry s) v now in s\<lparr>logical_carry := carry(v \<mapsto> f st)\<rparr>)"

lemma rounds_as_carry_round:
  "user_id_for s a = Some v \<Longrightarrow> snd (carried_lane_for s a now) =
     carry_round s v now (\<lambda>st. st\<lparr>carried_walk_done_at_ms :=
       snd (lane_from (carried_walk_done_at_ms st) (lc_carried_cursor st) now)\<rparr>)"
  "user_id_for s a = Some v \<Longrightarrow> record_carried_progress s a nxt ex now =
     carry_round s v now (\<lambda>st.
       if ex then st\<lparr>lc_carried_cursor := Some (case nxt of None \<Rightarrow> tail_cursor_at now | Some c \<Rightarrow> c),
                     carried_walk_done_at_ms := get_or_insert (carried_walk_done_at_ms st) now\<rparr>
       else if nxt \<noteq> None then st\<lparr>lc_carried_cursor := nxt, carried_walk_done_at_ms := None\<rparr> else st)"
  "user_id_for s a = Some v \<Longrightarrow> snd (targeted_carried_lane_for s a now) =
     carry_round s v now (\<lambda>st. st\<lparr>targeted_carried_walk_done_at_ms :=
       snd (lane_from (targeted_carried_walk_done_at_ms st) (targeted_carried_cursor st) now)\<rparr>)"
  "user_id_for s a = Some v \<Longrightarrow> record_targeted_carried_progress s a nxt ex now =
     carry_round s v now (\<lambda>st.
       if ex then st\<lparr>targeted_carried_cursor := Some (case nxt of None \<Rightarrow> tail_cursor_at now | Some c \<Rightarrow> c),
                     targeted_carried_walk_done_at_ms := get_or_insert (targeted_carried_walk_done_at_ms st) now\<rparr>
       else if nxt \<noteq> None
       then st\<lparr>targeted_carried_cursor := nxt, targeted_carried_walk_done_at_ms := None\<rparr> else st)"
  by (simp_all add: carried_lane_for_def record_carried_progress_def targeted_carried_lane_for_def
      record_targeted_carried_progress_def carry_round_def split: prod.split)

lemma rounds_unidentified:
  assumes "user_id_for s a = None"
  shows "snd (carried_lane_for s a now) = s" "record_carried_progress s a nxt ex now = s"
    "snd (targeted_carried_lane_for s a now) = s" "record_targeted_carried_progress s a nxt ex now = s"
  using assms by (simp_all add: carried_lane_for_def record_carried_progress_def
      targeted_carried_lane_for_def record_targeted_carried_progress_def)

lemma walked_round:
  assumes "walked u t s" "in_cooldown t now"
    and f: "\<And>st c. v = u \<Longrightarrow> carried_walk_done_at_ms st = Some t \<Longrightarrow> lc_carried_cursor st = Some c \<Longrightarrow>
      carried_walk_done_at_ms (f st) = Some t \<and> lc_carried_cursor (f st) \<noteq> None \<and> last_used_ms (f st) = last_used_ms st"
  shows "walked u t (carry_round s v now f)"
proof -
  from assms(1) obtain st w c where st: "logical_carry s u = Some st" "carried_walk_done_at_ms st = Some t"
    "lc_carried_cursor st = Some c" "last_used_ms st = Some w" "t \<le> w" unfolding walked_def by blast
  show ?thesis
  proof (cases "v = u")
    case True
    let ?st = "st\<lparr>last_used_ms := Some now\<rparr>"
    have "carry_round s v now f =
        s\<lparr>logical_carry := (fst (touch_and_sweep (logical_carry s) u now))(u \<mapsto> f ?st)\<rparr>"
      unfolding carry_round_def True by (subst touch_own [of "logical_carry s", OF st(1)]) simp
    moreover have "carried_walk_done_at_ms (f ?st) = Some t \<and> lc_carried_cursor (f ?st) \<noteq> None \<and>
        last_used_ms (f ?st) = Some now"
      using f [OF True, of ?st c] st by simp
    ultimately show ?thesis using assms(2) by (auto simp: walked_def in_cooldown_def)
  next
    case False
    then have "logical_carry (carry_round s v now f) u = Some st"
      using touch_other [of "logical_carry s", OF st(1,4,5) assms(2) False] by (auto simp: carry_round_def split: prod.split)
    with st show ?thesis unfolding walked_def by blast
  qed
qed

lemma walked_carry_eq: "logical_carry s' u = logical_carry s u \<Longrightarrow> walked u t s' = walked u t s"
  by (simp add: walked_def)

lemma walked_step:
  assumes w: "walked u t s" and q: "quiet_event u t s e"
  shows "walked u t (router_step s e)"
proof (cases e)
  case (Hello a v)
  then have "logical_carry (router_step s e) u = logical_carry s u"
    using w by (auto simp: on_hello_def walked_def split: option.splits)
  with w show ?thesis using walked_carry_eq by blast
next
  case (Hello2 a v caps)
  then have "logical_carry (router_step s e) u = logical_carry s u"
    by (simp add: on_hello2_def split: option.splits)
  with w show ?thesis using walked_carry_eq by blast
next
  case (CarriedLane a now)
  with q have "in_cooldown t now" by simp
  with w show ?thesis unfolding CarriedLane
    by (cases "user_id_for s a")
      (auto simp: rounds_unidentified rounds_as_carry_round lane_during intro!: walked_round)
next
  case (CarriedProgress a nxt ex now)
  with q have "in_cooldown t now" "user_id_for s a = Some u \<Longrightarrow> ex \<or> nxt = None" by simp_all
  with w show ?thesis unfolding CarriedProgress
    by (cases "user_id_for s a")
      (auto simp: rounds_unidentified rounds_as_carry_round get_or_insert_def intro!: walked_round)
next
  case (TargetedLane a now)
  with q w show ?thesis
    by (cases "user_id_for s a") (auto simp: rounds_unidentified rounds_as_carry_round intro!: walked_round)
next
  case (TargetedProgress a nxt ex now)
  with q w show ?thesis
    by (cases "user_id_for s a") (auto simp: rounds_unidentified rounds_as_carry_round intro!: walked_round)
next
  case (HiddenOffered a ids)
  then have "logical_carry (router_step s e) u = logical_carry s u"
    by (simp add: record_hidden_offered_def split: option.splits)
  with w show ?thesis using walked_carry_eq by blast
next
  case (DigestSent a now)
  then have "logical_carry (router_step s e) u = logical_carry s u"
    by (simp add: record_digest_sent_def split: option.splits)
  with w show ?thesis using walked_carry_eq by blast
qed (use w q in \<open>simp_all add: walked_def set_local_user_id_def on_connected_def on_own_device_connected_def
    insert_peer_def on_disconnected_def clear_transports_def\<close>)

lemma walked_run: "walked u t s \<Longrightarrow> quiet u t s es \<Longrightarrow> walked u t (foldl router_step s es)"
proof (induction es arbitrary: s)
  case (Cons e es)
  then have "walked u t (router_step s e)" by (intro walked_step) simp_all
  with Cons show ?case by simp
qed simp


section \<open>Witnesses\<close>

definition sample_links :: "router_event list" where
  "sample_links = [SetLocalUserId [1], Connected [10] Peripheral, Hello [10] [2], Connected [11] Central,
     Hello2 [11] [2] 1, OwnDeviceConnected [12] Lan, Hello [12] [3], Connected [13] Lan]"

definition sample_router :: router where
  "sample_router = foldl router_step router_new sample_links"

definition sample_far_links :: "router_event list" where
  "sample_far_links = [SetLocalUserId [2], Connected [20] Central, Hello [20] [1], Connected [21] Peripheral, Hello [21] [1]]"

definition sample_far_router :: router where
  "sample_far_router = foldl router_step router_new sample_far_links"

lemmas router_eval = router_new_def set_local_user_id_def on_connected_def on_own_device_connected_def
  insert_peer_def on_hello_def on_hello2_def hello_refused_def

definition sample_peer :: "transport \<Rightarrow> u64 \<Rightarrow> bytes option \<Rightarrow> u32 option \<Rightarrow> bool \<Rightarrow> peer" where
  "sample_peer t n u c own =
     \<lparr>peer_transport = t, connected_sequence = n, peer_user_id = u, peer_capabilities = c,
      last_digest_at_ms = None, hidden_offered = {}, own_device = own\<rparr>"

lemma sample_router_state:
  "peers sample_router = [([10], sample_peer Peripheral 0 (Some [2]) None False),
     ([11], sample_peer Central 1 (Some [2]) (Some 1) False), ([12], sample_peer Lan 2 None None True),
     ([13], sample_peer Lan 3 None None False)]"
  "local_user_id sample_router = Some [1]" "length sample_links < 2 ^ 64"
  by (simp_all add: sample_router_def sample_links_def router_eval sample_peer_def)

lemma sample_far_state:
  "peers sample_far_router = [([20], sample_peer Central 0 (Some [1]) None False),
     ([21], sample_peer Peripheral 1 (Some [1]) None False)]"
  "local_user_id sample_far_router = Some [2]" "length sample_far_links < 2 ^ 64"
  by (simp_all add: sample_far_router_def sample_far_links_def router_eval sample_peer_def)

lemma sample_route: "route_for sample_router [2] = Some \<lparr>route_transport = Central, route_address = [11]\<rparr>"
  by (simp add: route_for_def routes_for_def sample_router_state sample_peer_def route_of_def route_ordering_def
      priority_def less_eq_prod_def)

lemma links_to_code:
  "links_to s u = set (map (peer_transport \<circ> snd) (filter (\<lambda>ap. peer_user_id (snd ap) = Some u) (peers s)))"
  by (force simp: links_to_def)

theorem election_canonical_witness:
  "ident_user ` set (selected_identified_routes sample_router) = {[2]} \<and>
   selected_identified_routes (sample_router\<lparr>peers := rev (peers sample_router)\<rparr>) = selected_identified_routes sample_router"
  using election_canonical [OF sample_router_state(3) sample_router_def, of "rev (peers sample_router)"]
  by (simp add: helloed_user_ids_def sample_router_state sample_peer_def List.map_filter_def)


theorem own_device_never_route_witness:
  "\<not> is_selected_route sample_router [12] \<and> on_hello sample_router [12] [2] = (False, sample_router)"
  using own_device_never_route [OF sample_router_state(3) sample_router_def, of "[12]" "sample_peer Lan 2 None None True" "[2]"]
  by (simp add: sample_router_state) (simp add: sample_peer_def)

theorem ble_election_symmetric_witness:
  "\<exists>r'. route_for sample_far_router [1] = Some r' \<and> route_transport r' = Peripheral"
proof -
  have "links_to sample_far_router [1] = opposite ` links_to sample_router [2]"
    unfolding links_to_code sample_router_state sample_far_state by (simp add: sample_peer_def insert_commute)
  from ble_election_symmetric [OF sample_router_state(3) sample_router_def sample_router_state(2)
      sample_far_state(3) sample_far_router_def sample_far_state(2) _ this sample_route]
  show ?thesis by auto
qed


end
