(* ===== verification/Link_Trackers.thy ===== *)
theory Link_Trackers
  imports Mesh_Prelude
begin

text \<open>
  The small schedulers of \<open>core/src/transport_policy.rs\<close> that sit beside the router: the gate that
  rations third-party offers, the reconnect backoff, the LAN heartbeat and the debounce of
  failover resumes. Each guards its state with one mutex, so a run is a sequence of calls. Hash
  maps are only looked up by key here and are maps.
\<close>

section \<open>The carried-offer gate\<close>

definition MAX_CONCURRENT_CARRIED_OFFERS :: u32 where
  "MAX_CONCURRENT_CARRIED_OFFERS = 2"

definition CARRIED_OFFER_EPOCH_MS :: i64 where
  "CARRIED_OFFER_EPOCH_MS = 5000"

definition may_start_carried_offer :: "u32 \<Rightarrow> bool" where
  "may_start_carried_offer active_offers \<longleftrightarrow> active_offers < MAX_CONCURRENT_CARRIED_OFFERS"

record offer_reservation =
  res_id :: i64
  res_epoch_start_ms :: i64
  res_logical_peer_id :: "string option"

record carried_offer_epoch =
  initialized :: bool
  epoch_start_ms :: i64
  offers_this_epoch :: u32
  next_reservation_id :: i64
  uncommitted :: "i64 \<rightharpoonup> string option"
  offered_logical_peers :: "string set"

record carried_offer_gate =
  gate_epoch_ms :: i64
  gate_state :: carried_offer_epoch

definition with_epoch_ms :: "i64 \<Rightarrow> carried_offer_gate" where
  "with_epoch_ms ms =
     \<lparr>gate_epoch_ms = max ms 1,
      gate_state = \<lparr>initialized = False, epoch_start_ms = 0, offers_this_epoch = 0, next_reservation_id = 0,
        uncommitted = Map.empty, offered_logical_peers = {}\<rparr>\<rparr>"

definition gate_new :: carried_offer_gate where
  "gate_new = with_epoch_ms CARRIED_OFFER_EPOCH_MS"

definition epoch_rolled :: "carried_offer_gate \<Rightarrow> i64 \<Rightarrow> bool" where
  "epoch_rolled g now \<longleftrightarrow>
     \<not> initialized (gate_state g) \<or> now < epoch_start_ms (gate_state g) \<or>
     i64_sub now (epoch_start_ms (gate_state g)) \<ge> gate_epoch_ms g"

definition roll_epoch_if_needed :: "carried_offer_gate \<Rightarrow> i64 \<Rightarrow> carried_offer_epoch" where
  "roll_epoch_if_needed g now =
     (if \<not> epoch_rolled g now then gate_state g
      else (gate_state g)\<lparr>initialized := True, epoch_start_ms := now, offers_this_epoch := 0,
             uncommitted := Map.empty, offered_logical_peers := {}\<rparr>)"

definition try_reserve ::
  "carried_offer_gate \<Rightarrow> i64 \<Rightarrow> string option \<Rightarrow> offer_reservation option \<times> carried_offer_gate" where
  "try_reserve g now peer =
     (let st = roll_epoch_if_needed g now in
      if \<not> may_start_carried_offer (offers_this_epoch st) then (None, g\<lparr>gate_state := st\<rparr>)
      else if (case peer of None \<Rightarrow> False | Some p \<Rightarrow> p \<in> offered_logical_peers st) then (None, g\<lparr>gate_state := st\<rparr>)
      else
        let n = (if next_reservation_id st = i64_max then 0 else next_reservation_id st + 1) in
        (Some \<lparr>res_id = n, res_epoch_start_ms = epoch_start_ms st, res_logical_peer_id = peer\<rparr>,
         g\<lparr>gate_state := st\<lparr>next_reservation_id := n, offers_this_epoch := offers_this_epoch st + 1,
             uncommitted := (uncommitted st)(n \<mapsto> peer),
             offered_logical_peers := (case peer of None \<Rightarrow> offered_logical_peers st
                                        | Some p \<Rightarrow> insert p (offered_logical_peers st))\<rparr>\<rparr>))"

definition gate_commit :: "carried_offer_gate \<Rightarrow> offer_reservation \<Rightarrow> carried_offer_gate" where
  "gate_commit g r =
     (if res_epoch_start_ms r = epoch_start_ms (gate_state g)
      then g\<lparr>gate_state := (gate_state g)\<lparr>uncommitted := (uncommitted (gate_state g))(res_id r := None)\<rparr>\<rparr>
      else g)"

definition gate_release :: "carried_offer_gate \<Rightarrow> offer_reservation \<Rightarrow> carried_offer_gate" where
  "gate_release g r =
     (let st = gate_state g in
      if res_epoch_start_ms r \<noteq> epoch_start_ms st \<or> uncommitted st (res_id r) = None then g
      else g\<lparr>gate_state := st\<lparr>uncommitted := (uncommitted st)(res_id r := None),
               offers_this_epoch := word_sat_sub (offers_this_epoch st) 1,
               offered_logical_peers := (case res_logical_peer_id r of None \<Rightarrow> offered_logical_peers st
                                          | Some p \<Rightarrow> offered_logical_peers st - {p})\<rparr>\<rparr>)"

section \<open>Reconnect backoff\<close>

record backoff_state =
  consecutive_failures :: u32
  next_eligible_at_ms :: i64

record backoff_tracker =
  initial_backoff_ms :: i64
  max_backoff_ms :: i64
  max_consecutive_failures :: u32
  give_up_probe_ms :: i64
  backoff_states :: "string \<rightharpoonup> backoff_state"

definition backoff_new :: "i64 \<Rightarrow> i64 \<Rightarrow> u32 \<Rightarrow> i64 \<Rightarrow> backoff_tracker" where
  "backoff_new initial mx failures probe =
     \<lparr>initial_backoff_ms = max initial 0, max_backoff_ms = max mx 0, max_consecutive_failures = failures,
      give_up_probe_ms = max probe 0, backoff_states = Map.empty\<rparr>"

definition can_attempt :: "backoff_tracker \<Rightarrow> string \<Rightarrow> i64 \<Rightarrow> bool" where
  "can_attempt tr a now =
     (case backoff_states tr a of None \<Rightarrow> True | Some st \<Rightarrow> now \<ge> next_eligible_at_ms st)"

definition failure_count :: "backoff_tracker \<Rightarrow> string \<Rightarrow> u32" where
  "failure_count tr a = (case backoff_states tr a of None \<Rightarrow> 0 | Some st \<Rightarrow> consecutive_failures st)"

definition is_given_up :: "backoff_tracker \<Rightarrow> string \<Rightarrow> bool" where
  "is_given_up tr a \<longleftrightarrow> failure_count tr a \<ge> max_consecutive_failures tr"

definition retry_delay_ms :: "backoff_tracker \<Rightarrow> string \<Rightarrow> i64 \<Rightarrow> i64 option" where
  "retry_delay_ms tr a now =
     map_option (\<lambda>st. max (i64_sub (next_eligible_at_ms st) now) 0) (backoff_states tr a)"

text \<open>\<open>1_i64.checked_shl n\<close>: the shift is refused from 64 on, and bit 63 is the sign.\<close>

definition checked_shl_one :: "u32 \<Rightarrow> i64 option" where
  "checked_shl_one n =
     (if unat n < 63 then Some (2 ^ unat n) else if unat n = 63 then Some i64_min else None)"

definition backoff_after :: "backoff_tracker \<Rightarrow> u32 \<Rightarrow> i64" where
  "backoff_after tr failures =
     (if failures \<ge> max_consecutive_failures tr then give_up_probe_ms tr
      else min (i64_mul (initial_backoff_ms tr)
                  (case checked_shl_one (min (word_sat_sub failures 1) 20) of None \<Rightarrow> i64_max | Some m \<Rightarrow> m))
             (max_backoff_ms tr))"

definition record_failure :: "backoff_tracker \<Rightarrow> string \<Rightarrow> i64 \<Rightarrow> u32 \<times> backoff_tracker" where
  "record_failure tr a now =
     (let failures = (case backoff_states tr a of None \<Rightarrow> 1 | Some st \<Rightarrow> word_sat_add (consecutive_failures st) 1)
      in (failures, tr\<lparr>backoff_states := (backoff_states tr)(a \<mapsto>
            \<lparr>consecutive_failures = failures, next_eligible_at_ms = i64_add now (backoff_after tr failures)\<rparr>)\<rparr>))"

definition record_success :: "backoff_tracker \<Rightarrow> string \<Rightarrow> backoff_tracker" where
  "record_success tr a = tr\<lparr>backoff_states := (backoff_states tr)(a := None)\<rparr>"

definition backoff_clear :: "backoff_tracker \<Rightarrow> backoff_tracker" where
  "backoff_clear tr = tr\<lparr>backoff_states := Map.empty\<rparr>"

section \<open>The LAN heartbeat\<close>

datatype lan_health_action = HealthSend | HealthWait | HealthClose

type_synonym lan_health_decision = "lan_health_action \<times> u64 option"

record lan_link_state =
  pending_nonce :: "u64 option"
  sent_at_ms :: i64
  consecutive_timeouts :: u32

record lan_health_tracker =
  timeout_ms :: i64
  max_consecutive_timeouts :: u32
  lan_links :: "string \<rightharpoonup> lan_link_state"

definition lan_health_new :: "i64 \<Rightarrow> u32 \<Rightarrow> lan_health_tracker" where
  "lan_health_new timeout mx = \<lparr>timeout_ms = max timeout 0, max_consecutive_timeouts = mx, lan_links = Map.empty\<rparr>"

definition lan_next ::
  "lan_health_tracker \<Rightarrow> string \<Rightarrow> i64 \<Rightarrow> u64 \<Rightarrow> lan_health_decision \<times> lan_health_tracker" where
  "lan_next h a now nonce =
     (case lan_links h a of
        None \<Rightarrow>
          ((HealthSend, Some nonce), h\<lparr>lan_links := (lan_links h)(a \<mapsto>
             \<lparr>pending_nonce = Some nonce, sent_at_ms = now, consecutive_timeouts = 0\<rparr>)\<rparr>)
      | Some current \<Rightarrow>
          if pending_nonce current = None then
            ((HealthSend, Some nonce), h\<lparr>lan_links := (lan_links h)(a \<mapsto>
               current\<lparr>pending_nonce := Some nonce, sent_at_ms := now\<rparr>)\<rparr>)
          else if i64_sub now (sent_at_ms current) < timeout_ms h then ((HealthWait, None), h)
          else
            let failures = word_sat_add (consecutive_timeouts current) 1 in
            if failures \<ge> max_consecutive_timeouts h then
              ((HealthClose, None), h\<lparr>lan_links := (lan_links h)(a := None)\<rparr>)
            else
              ((HealthSend, Some nonce), h\<lparr>lan_links := (lan_links h)(a \<mapsto>
                 \<lparr>pending_nonce = Some nonce, sent_at_ms = now, consecutive_timeouts = failures\<rparr>)\<rparr>))"

definition lan_response :: "lan_health_tracker \<Rightarrow> string \<Rightarrow> u64 \<Rightarrow> i64 \<Rightarrow> i64 option \<times> lan_health_tracker" where
  "lan_response h a nonce now =
     (case lan_links h a of
        None \<Rightarrow> (None, h)
      | Some current \<Rightarrow>
          if pending_nonce current \<noteq> Some nonce then (None, h)
          else (Some (max (i64_sub now (sent_at_ms current)) 0),
                h\<lparr>lan_links := (lan_links h)(a \<mapsto>
                   \<lparr>pending_nonce = None, sent_at_ms = 0, consecutive_timeouts = 0\<rparr>)\<rparr>))"

definition lan_remove :: "lan_health_tracker \<Rightarrow> string \<Rightarrow> lan_health_tracker" where
  "lan_remove h a = h\<lparr>lan_links := (lan_links h)(a := None)\<rparr>"

definition lan_clear :: "lan_health_tracker \<Rightarrow> lan_health_tracker" where
  "lan_clear h = h\<lparr>lan_links := Map.empty\<rparr>"

section \<open>The failover debounce\<close>

definition FAILOVER_RESUME_WINDOW_MS :: i64 where
  "FAILOVER_RESUME_WINDOW_MS = 300"

record failover_resume_arm =
  arm_delay_ms :: i64
  arm_token :: i64

record armed_resume_window =
  armed_at_ms :: i64
  window_token :: i64

record failover_debounce =
  window_ms :: i64
  armed :: "string \<rightharpoonup> armed_resume_window"
  last_token :: i64

definition with_window_ms :: "i64 \<Rightarrow> failover_debounce" where
  "with_window_ms ms = \<lparr>window_ms = max ms 0, armed = Map.empty, last_token = 0\<rparr>"

definition debounce_new :: failover_debounce where
  "debounce_new = with_window_ms FAILOVER_RESUME_WINDOW_MS"

definition i64_wrapping_add :: "i64 \<Rightarrow> i64 \<Rightarrow> i64" where
  "i64_wrapping_add x y = sint (of_int (x + y) :: 64 word)"

definition request_absorbed :: "failover_debounce \<Rightarrow> string \<Rightarrow> i64 \<Rightarrow> bool" where
  "request_absorbed d k now =
     (case armed d k of
        None \<Rightarrow> False
      | Some w \<Rightarrow> (let elapsed = i64_sub now (armed_at_ms w) in 0 \<le> elapsed \<and> elapsed < window_ms d))"

definition debounce_request ::
  "failover_debounce \<Rightarrow> string \<Rightarrow> i64 \<Rightarrow> failover_resume_arm option \<times> failover_debounce" where
  "debounce_request d k now =
     (if request_absorbed d k now then (None, d)
      else
        let token = i64_wrapping_add (last_token d) 1 in
        (Some \<lparr>arm_delay_ms = window_ms d, arm_token = token\<rparr>,
         d\<lparr>last_token := token, armed := (armed d)(k \<mapsto> \<lparr>armed_at_ms = now, window_token = token\<rparr>)\<rparr>))"

definition debounce_fired :: "failover_debounce \<Rightarrow> string \<Rightarrow> i64 \<Rightarrow> failover_debounce" where
  "debounce_fired d k token =
     (if map_option window_token (armed d k) = Some token then d\<lparr>armed := (armed d)(k := None)\<rparr> else d)"

definition debounce_cancel :: "failover_debounce \<Rightarrow> string \<Rightarrow> failover_debounce" where
  "debounce_cancel d k = d\<lparr>armed := (armed d)(k := None)\<rparr>"

definition is_pending :: "failover_debounce \<Rightarrow> string \<Rightarrow> bool" where
  "is_pending d k \<longleftrightarrow> armed d k \<noteq> None"

definition debounce_clear :: "failover_debounce \<Rightarrow> failover_debounce" where
  "debounce_clear d = d\<lparr>armed := Map.empty\<rparr>"

section \<open>The gate rations offers\<close>

text \<open>
  A run of the gate with what its callers hold: every reservation ever granted, and those of the
  current epoch that were not released. A caller may commit or release what it was granted, in any
  order, late, twice, or never; anything it was not granted it cannot present.
\<close>

record gate_run =
  run_gate :: carried_offer_gate
  granted :: "offer_reservation list"
  live :: "offer_reservation list"

datatype gate_event =
    GateReserve i64 "string option"
  | GateCommit offer_reservation
  | GateRelease offer_reservation

definition release_counts :: "carried_offer_gate \<Rightarrow> offer_reservation \<Rightarrow> bool" where
  "release_counts g r \<longleftrightarrow> res_epoch_start_ms r = epoch_start_ms (gate_state g) \<and>
     uncommitted (gate_state g) (res_id r) \<noteq> None"

definition live_after_roll :: "gate_run \<Rightarrow> i64 \<Rightarrow> offer_reservation list" where
  "live_after_roll s now = (if epoch_rolled (run_gate s) now then [] else live s)"

fun gate_step :: "gate_run \<Rightarrow> gate_event \<Rightarrow> gate_run" where
  "gate_step s (GateReserve now p) =
     (case try_reserve (run_gate s) now p of
        (None, g) \<Rightarrow> s\<lparr>run_gate := g, live := live_after_roll s now\<rparr>
      | (Some r, g) \<Rightarrow> s\<lparr>run_gate := g, granted := r # granted s, live := r # live_after_roll s now\<rparr>)"
| "gate_step s (GateCommit r) =
     (if r \<in> set (granted s) then s\<lparr>run_gate := gate_commit (run_gate s) r\<rparr> else s)"
| "gate_step s (GateRelease r) =
     (if r \<in> set (granted s)
      then s\<lparr>run_gate := gate_release (run_gate s) r,
             live := (if release_counts (run_gate s) r then remove1 r (live s) else live s)\<rparr>
      else s)"

definition gate_start :: "i64 \<Rightarrow> gate_run" where
  "gate_start ms = \<lparr>run_gate = with_epoch_ms ms, granted = [], live = []\<rparr>"

definition one_per_peer :: "offer_reservation list \<Rightarrow> bool" where
  "one_per_peer rs \<longleftrightarrow> distinct (List.map_filter res_logical_peer_id rs)"

definition epoch_matches :: "carried_offer_epoch \<Rightarrow> offer_reservation list \<Rightarrow> bool" where
  "epoch_matches st rs \<longleftrightarrow>
     distinct rs \<and> length rs \<le> 2 \<and> offers_this_epoch st = of_nat (length rs) \<and> one_per_peer rs \<and>
     offered_logical_peers st = set (List.map_filter res_logical_peer_id rs) \<and>
     (\<forall>i. uncommitted st i \<noteq> None \<longrightarrow> (\<exists>r\<in>set rs. res_id r = i))"

definition gate_inv :: "nat \<Rightarrow> gate_run \<Rightarrow> bool" where
  "gate_inv n s \<longleftrightarrow>
     next_reservation_id (gate_state (run_gate s)) = int n \<and>
     distinct (map res_id (granted s)) \<and> (\<forall>r\<in>set (granted s). res_id r \<le> int n) \<and>
     set (live s) \<subseteq> set (granted s) \<and> epoch_matches (gate_state (run_gate s)) (live s)"

lemma map_filter_mem: "y \<in> set (List.map_filter f xs) \<longleftrightarrow> Some y \<in> f ` set xs"
  by (induction xs) (auto simp: map_filter_simps split: option.splits)

lemma map_filter_remove1:
  "distinct (List.map_filter f xs) \<Longrightarrow> x \<in> set xs \<Longrightarrow> f x = Some y \<Longrightarrow>
   set (List.map_filter f (remove1 x xs)) = set (List.map_filter f xs) - {y}"
proof (induction xs)
  case (Cons z zs)
  show ?case
  proof (cases "x = z")
    case True
    with Cons.prems show ?thesis by (auto simp: map_filter_simps)
  next
    case False
    with Cons have ih: "set (List.map_filter f (remove1 x zs)) = set (List.map_filter f zs) - {y}"
      by (simp add: map_filter_simps split: option.splits)
    have "y \<in> set (List.map_filter f zs)"
      using Cons.prems False by (force simp: List.map_filter_def)
    with Cons.prems(1) have "f z \<noteq> Some y" by (auto simp: map_filter_simps)
    with ih False show ?thesis by (auto simp: map_filter_simps split: option.splits)
  qed
qed simp

lemma map_filter_remove1_None:
  "f x = None \<Longrightarrow> List.map_filter f (remove1 x xs) = List.map_filter f xs"
  by (induction xs) (auto simp: map_filter_simps split: option.splits)

lemma distinct_map_filter_remove1:
  "distinct (List.map_filter f xs) \<Longrightarrow> distinct (List.map_filter f (remove1 x xs))"
proof (induction xs)
  case (Cons y ys)
  have "set (List.map_filter f (remove1 x ys)) \<subseteq> set (List.map_filter f ys)"
    unfolding List.map_filter_def using set_remove1_subset [of x ys] by auto
  with Cons show ?case by (auto simp: map_filter_simps split: option.splits)
qed simp

lemma rolled_matches:
  assumes "gate_inv n s"
  shows "epoch_matches (roll_epoch_if_needed (run_gate s) now) (live_after_roll s now)"
    "next_reservation_id (roll_epoch_if_needed (run_gate s) now) = int n"
    "set (live_after_roll s now) \<subseteq> set (granted s)"
  using assms by (auto simp: gate_inv_def roll_epoch_if_needed_def live_after_roll_def epoch_matches_def
      one_per_peer_def map_filter_simps)

lemma reserve_granted:
  assumes "epoch_matches st rs"
  shows "may_start_carried_offer (offers_this_epoch st) \<longleftrightarrow> length rs < 2"
proof -
  have "length rs \<le> 2" and offers: "offers_this_epoch st = of_nat (length rs)"
    using assms by (simp_all add: epoch_matches_def)
  then have "length rs = 0 \<or> length rs = 1 \<or> length rs = 2" by presburger
  with offers show ?thesis by (auto simp: may_start_carried_offer_def MAX_CONCURRENT_CARRIED_OFFERS_def)
qed

lemma reserve_matches:
  assumes "epoch_matches st rs" "length rs < 2" "i \<notin> res_id ` set rs"
    and "case p of None \<Rightarrow> True | Some q \<Rightarrow> q \<notin> offered_logical_peers st"
  shows "epoch_matches (st\<lparr>next_reservation_id := i, offers_this_epoch := offers_this_epoch st + 1,
      uncommitted := (uncommitted st)(i \<mapsto> p),
      offered_logical_peers := (case p of None \<Rightarrow> offered_logical_peers st | Some q \<Rightarrow> insert q (offered_logical_peers st))\<rparr>)
    (\<lparr>res_id = i, res_epoch_start_ms = e, res_logical_peer_id = p\<rparr> # rs)"
proof -
  have "\<lparr>res_id = i, res_epoch_start_ms = e, res_logical_peer_id = p\<rparr> \<notin> set rs" using assms(3) by force
  with assms(1,2,4) show ?thesis
    by (auto simp: epoch_matches_def one_per_peer_def map_filter_simps split: option.splits)
qed

lemma gate_reserve_inv:
  assumes inv: "gate_inv n s" and n: "int n < i64_max"
  shows "gate_inv n (gate_step s (GateReserve now p)) \<or> gate_inv (Suc n) (gate_step s (GateReserve now p))"
proof -
  let ?st = "roll_epoch_if_needed (run_gate s) now" and ?l = "live_after_roll s now"
  note roll = rolled_matches [OF inv, of now]
  show ?thesis
  proof (cases "may_start_carried_offer (offers_this_epoch ?st) \<and>
      (case p of None \<Rightarrow> True | Some q \<Rightarrow> q \<notin> offered_logical_peers ?st)")
    case True
    let ?i = "int n + 1"
    let ?r = "\<lparr>res_id = ?i, res_epoch_start_ms = epoch_start_ms ?st, res_logical_peer_id = p\<rparr>"
    have fresh: "\<forall>r\<in>set (granted s). res_id r < ?i" using inv by (auto simp: gate_inv_def)
    then have "?i \<notin> res_id ` set ?l" using roll(3) by force
    then have m: "epoch_matches (?st\<lparr>next_reservation_id := ?i, offers_this_epoch := offers_this_epoch ?st + 1,
        uncommitted := (uncommitted ?st)(?i \<mapsto> p),
        offered_logical_peers := (case p of None \<Rightarrow> offered_logical_peers ?st
          | Some q \<Rightarrow> insert q (offered_logical_peers ?st))\<rparr>) (?r # ?l)"
      using True reserve_granted [OF roll(1)] by (intro reserve_matches [OF roll(1)]) auto
    have "try_reserve (run_gate s) now p = (Some ?r, (run_gate s)\<lparr>gate_state :=
        ?st\<lparr>next_reservation_id := ?i, offers_this_epoch := offers_this_epoch ?st + 1,
        uncommitted := (uncommitted ?st)(?i \<mapsto> p),
        offered_logical_peers := (case p of None \<Rightarrow> offered_logical_peers ?st
          | Some q \<Rightarrow> insert q (offered_logical_peers ?st))\<rparr>\<rparr>)"
      using True n roll(2) by (auto simp: try_reserve_def Let_def split: option.splits)
    then have "gate_inv (Suc n) (gate_step s (GateReserve now p))"
      using m inv fresh roll(3) by (fastforce simp: gate_inv_def)
    then show ?thesis ..
  next
    case False
    then have "try_reserve (run_gate s) now p = (None, (run_gate s)\<lparr>gate_state := ?st\<rparr>)"
      by (auto simp: try_reserve_def Let_def split: option.splits)
    then have "gate_inv n (gate_step s (GateReserve now p))"
      using roll inv by (simp add: gate_inv_def)
    then show ?thesis ..
  qed
qed

lemma gate_release_inv:
  assumes inv: "gate_inv n s" and r: "r \<in> set (granted s)"
  shows "gate_inv n (gate_step s (GateRelease r))"
proof (cases "release_counts (run_gate s) r")
  case True
  let ?st = "gate_state (run_gate s)"
  let ?st' = "?st\<lparr>uncommitted := (uncommitted ?st)(res_id r := None),
      offers_this_epoch := word_sat_sub (offers_this_epoch ?st) 1,
      offered_logical_peers := (case res_logical_peer_id r of None \<Rightarrow> offered_logical_peers ?st
        | Some p \<Rightarrow> offered_logical_peers ?st - {p})\<rparr>"
  have m: "epoch_matches ?st (live s)" and sub: "set (live s) \<subseteq> set (granted s)"
    and ids: "inj_on res_id (set (granted s))"
    using inv by (auto simp: gate_inv_def distinct_map)
  from True m obtain r' where "r' \<in> set (live s)" "res_id r' = res_id r"
    by (auto simp: release_counts_def epoch_matches_def)
  with ids sub r have live: "r \<in> set (live s)" by (metis inj_onD subsetD)
  have "epoch_matches ?st' (remove1 r (live s))"
    unfolding epoch_matches_def
  proof (intro conjI)
    have d: "distinct (live s)" "length (live s) \<le> 2" "offers_this_epoch ?st = of_nat (length (live s))"
      "one_per_peer (live s)" "offered_logical_peers ?st = set (List.map_filter res_logical_peer_id (live s))"
      using m by (simp_all add: epoch_matches_def)
    show "distinct (remove1 r (live s))" using d(1) by simp
    show "length (remove1 r (live s)) \<le> 2" using d(2) live by (simp add: length_remove1)
    show "one_per_peer (remove1 r (live s))" using d(4) by (simp add: one_per_peer_def distinct_map_filter_remove1)
    have "length (live s) \<noteq> 0" using live by auto
    then have "length (live s) = 1 \<or> length (live s) = 2" using d(2) by presburger
    then show "offers_this_epoch ?st' = of_nat (length (remove1 r (live s)))"
      using d(3) live by (auto simp: word_sat_sub_def length_remove1 word_le_nat_alt)
    show "offered_logical_peers ?st' = set (List.map_filter res_logical_peer_id (remove1 r (live s)))"
      using d(4,5) live
      by (simp add: one_per_peer_def map_filter_remove1 map_filter_remove1_None split: option.split)
    show "\<forall>i. uncommitted ?st' i \<noteq> None \<longrightarrow> (\<exists>r'\<in>set (remove1 r (live s)). res_id r' = i)"
      using m d(1) by (auto simp: epoch_matches_def)
  qed
  with True inv r sub show ?thesis
    by (auto simp: gate_inv_def gate_release_def release_counts_def Let_def dest: notin_set_remove1)
next
  case False
  then have "gate_step s (GateRelease r) = s" using r by (auto simp: gate_release_def release_counts_def Let_def)
  with inv show ?thesis by simp
qed

lemma gate_commit_inv: "gate_inv n s \<Longrightarrow> gate_inv n (gate_step s (GateCommit r))"
  by (auto simp: gate_inv_def gate_commit_def epoch_matches_def)

lemma gate_step_inv:
  assumes "gate_inv n s" "int n < i64_max"
  shows "gate_inv n (gate_step s e) \<or> gate_inv (Suc n) (gate_step s e)"
proof (cases e)
  case (GateReserve now p)
  then show ?thesis using gate_reserve_inv [OF assms] by simp
next
  case (GateCommit r)
  then show ?thesis using gate_commit_inv assms(1) by blast
next
  case (GateRelease r)
  then show ?thesis using gate_release_inv [OF assms(1), of r] assms(1) by (cases "r \<in> set (granted s)") auto
qed

lemma gate_run_inv:
  "gate_inv n s \<Longrightarrow> int (n + length es) \<le> i64_max \<Longrightarrow> \<exists>m. gate_inv m (foldl gate_step s es)"
proof (induction es arbitrary: n s)
  case (Cons e es)
  then have "int n < i64_max" by simp
  from gate_step_inv [OF Cons.prems(1) this] obtain m where "gate_inv m (gate_step s e)" "m \<le> Suc n"
    using le_SucI by blast
  with Cons.IH [of m "gate_step s e"] Cons.prems(2) show ?case by simp
qed auto

lemma gate_start_inv: "gate_inv 0 (gate_start ms)"
  by (simp add: gate_inv_def gate_start_def with_epoch_ms_def epoch_matches_def one_per_peer_def map_filter_simps)

text \<open>
  The offer gate. Whatever callers do (reserving, committing, releasing, late or
  repeated releases, clocks that jump either way), at most two reservations of an epoch are live
  at any time and at most one per logical peer, and a request is granted exactly when, after the
  epoch has rolled if it is due, fewer than two are live and none of them is for the same peer.
\<close>

theorem offer_gate_rations:
  assumes "length es < 2 ^ 63" "s = foldl gate_step (gate_start ms) es"
  shows "length (live s) \<le> 2 \<and> one_per_peer (live s) \<and>
     (fst (try_reserve (run_gate s) now p) \<noteq> None \<longleftrightarrow>
        length (live_after_roll s now) < 2 \<and> (p = None \<or> p \<in> - (res_logical_peer_id ` set (live_after_roll s now))))"
proof -
  from gate_run_inv [OF gate_start_inv, of es ms] assms obtain m where inv: "gate_inv m s"
    by (auto simp: i64_max_def)
  note roll = rolled_matches [OF inv, of now]
  have "(case p of None \<Rightarrow> False | Some q \<Rightarrow> q \<in> offered_logical_peers (roll_epoch_if_needed (run_gate s) now)) \<longleftrightarrow>
      p \<noteq> None \<and> p \<in> res_logical_peer_id ` set (live_after_roll s now)"
    using roll(1) by (cases p) (simp_all add: epoch_matches_def map_filter_mem)
  then have "fst (try_reserve (run_gate s) now p) \<noteq> None \<longleftrightarrow>
      length (live_after_roll s now) < 2 \<and> (p = None \<or> p \<in> - (res_logical_peer_id ` set (live_after_roll s now)))"
    using reserve_granted [OF roll(1)] by (auto simp: try_reserve_def Let_def)
  with inv show ?thesis by (simp add: gate_inv_def epoch_matches_def)
qed

theorem offer_gate_rations_witness:
  "let s = foldl gate_step (gate_start 5000) [GateReserve 0 (Some ''a''), GateReserve 10 (Some ''b'')]
   in length (live s) \<le> 2 \<and> fst (try_reserve (run_gate s) 20 (Some ''c'')) = None"
proof -
  let ?s = "foldl gate_step (gate_start 5000) [GateReserve 0 (Some ''a''), GateReserve 10 (Some ''b'')]"
  have "length (live_after_roll ?s 20) = 2"
    by (simp add: gate_start_def with_epoch_ms_def try_reserve_def roll_epoch_if_needed_def epoch_rolled_def
        may_start_carried_offer_def MAX_CONCURRENT_CARRIED_OFFERS_def live_after_roll_def i64_defs)
  with offer_gate_rations [of "[GateReserve 0 (Some ''a''), GateReserve 10 (Some ''b'')]" ?s 5000 20 "Some ''c''"]
  show ?thesis by (simp del: gate_step.simps)
qed

section \<open>The backoff follows its schedule\<close>

datatype backoff_event = BackoffFailure i64 | BackoffSuccess

fun backoff_step :: "backoff_tracker \<Rightarrow> string \<times> backoff_event \<Rightarrow> backoff_tracker" where
  "backoff_step tr (a, BackoffFailure now) = snd (record_failure tr a now)"
| "backoff_step tr (a, BackoffSuccess) = record_success tr a"

text \<open>The times of an address's failures since its last success, latest first.\<close>

fun streak_step :: "string \<Rightarrow> i64 list \<Rightarrow> string \<times> backoff_event \<Rightarrow> i64 list" where
  "streak_step a ts (b, BackoffFailure now) = (if b = a then now # ts else ts)"
| "streak_step a ts (b, BackoffSuccess) = (if b = a then [] else ts)"

text \<open>The documented delay after the \<open>k\<close>-th failure in a row, over unbounded numbers.\<close>

definition nominal_backoff :: "backoff_tracker \<Rightarrow> nat \<Rightarrow> int" where
  "nominal_backoff tr k =
     (if k \<ge> unat (max_consecutive_failures tr) then give_up_probe_ms tr
      else min (initial_backoff_ms tr * 2 ^ min (k - 1) 20) (max_backoff_ms tr))"

definition capped_count :: "nat \<Rightarrow> u32" where
  "capped_count k = of_nat (min k (2 ^ 32 - 1))"

lemma unat_capped_count: "unat (capped_count k) = min k (2 ^ 32 - 1)"
  by (simp add: capped_count_def unat_of_nat take_bit_nat_eq_self)

lemma capped_count_Suc: "word_sat_add (capped_count k) 1 = capped_count (Suc k)"
proof (cases "k < 2 ^ 32 - 1")
  case True
  then have "unat (capped_count k + 1) = Suc k"
    by (simp add: unat_capped_count unat_word_ariths(1))
  then have "capped_count k + 1 = capped_count (Suc k)" "\<not> capped_count k + 1 < capped_count k"
    using True by (simp_all add: word_unat_eq_iff unat_capped_count word_less_nat_alt)
  then show ?thesis by (simp add: word_sat_add_def)
next
  case False
  then have "capped_count k = - 1" "capped_count (Suc k) = - 1"
    by (simp_all add: word_unat_eq_iff unat_capped_count unsigned_minus_1_eq_mask mask_eq_exp_minus_1)
  then show ?thesis by (simp add: word_sat_add_def word_less_nat_alt unsigned_minus_1_eq_mask mask_eq_exp_minus_1)
qed

lemma min_sat_i64: "0 \<le> x \<Longrightarrow> i64_ok b \<Longrightarrow> min (sat_i64 x) b = min x b"
  by (auto simp: sat_i64_def i64_ok_def i64_bound_defs min_def max_def)

lemma backoff_after_nominal:
  assumes "0 < k" "i64_ok (initial_backoff_ms tr)" "0 \<le> initial_backoff_ms tr" "i64_ok (max_backoff_ms tr)"
  shows "backoff_after tr (capped_count k) = nominal_backoff tr k"
proof -
  have "unat (max_consecutive_failures tr) < 2 ^ LENGTH(32)" by (rule unsigned_less)
  then have ge: "max_consecutive_failures tr \<le> capped_count k \<longleftrightarrow> unat (max_consecutive_failures tr) \<le> k"
    by (auto simp: word_le_nat_alt unat_capped_count)
  have "unat (word_sat_sub (capped_count k) 1) = min k (2 ^ 32 - 1) - 1"
    using assms(1) by (auto simp: word_sat_sub_def word_le_nat_alt unat_capped_count unat_sub_if' unat_eq_0)
  then have "unat (min (word_sat_sub (capped_count k) 1) 20) = min (k - 1) 20"
    by (simp add: min_def word_le_nat_alt) linarith
  then have shl: "checked_shl_one (min (word_sat_sub (capped_count k) 1) 20) = Some (2 ^ min (k - 1) 20)"
    by (simp only: checked_shl_one_def) (simp add: min_def)
  have "min (i64_mul (initial_backoff_ms tr) m) (max_backoff_ms tr) = min (initial_backoff_ms tr * m) (max_backoff_ms tr)"
    if "0 \<le> m" for m
    unfolding i64_mul_def by (rule min_sat_i64 [OF mult_nonneg_nonneg [OF assms(3) that] assms(4)])
  then show ?thesis
    by (simp add: backoff_after_def nominal_backoff_def ge shl)
qed

definition backoff_config :: "backoff_tracker \<Rightarrow> i64 \<times> i64 \<times> u32 \<times> i64" where
  "backoff_config tr = (initial_backoff_ms tr, max_backoff_ms tr, max_consecutive_failures tr, give_up_probe_ms tr)"

lemma backoff_config_step [simp]: "backoff_config (backoff_step tr ke) = backoff_config tr"
  by (cases ke; cases "snd ke") (auto simp: record_failure_def record_success_def backoff_config_def Let_def)

lemma backoff_config_run [simp]: "backoff_config (foldl backoff_step tr es) = backoff_config tr"
  by (induction es arbitrary: tr) simp_all

lemma backoff_after_config: "backoff_config tr = backoff_config tr' \<Longrightarrow> backoff_after tr = backoff_after tr'"
  by (rule ext) (simp add: backoff_after_def backoff_config_def)

definition streak_entry :: "backoff_tracker \<Rightarrow> i64 list \<Rightarrow> backoff_state option" where
  "streak_entry tr ts =
     (case ts of
        [] \<Rightarrow> None
      | t # _ \<Rightarrow> Some \<lparr>consecutive_failures = capped_count (length ts),
                     next_eligible_at_ms = i64_add t (backoff_after tr (capped_count (length ts)))\<rparr>)"

lemma streak_entry_step:
  assumes "backoff_states tr a = streak_entry tr ts"
  shows "backoff_states (backoff_step tr ke) a = streak_entry tr (streak_step a ts ke)"
proof -
  have one: "capped_count (Suc 0) = 1" by (simp add: capped_count_def)
  show ?thesis
    using assms one
    by (cases ke; cases "snd ke"; cases ts)
      (auto simp: record_failure_def record_success_def streak_entry_def Let_def capped_count_Suc)
qed

lemma streak_entry_config: "backoff_config tr = backoff_config tr' \<Longrightarrow> streak_entry tr ts = streak_entry tr' ts"
  using backoff_after_config [of tr tr'] by (simp add: streak_entry_def split: list.split)

lemma streak_entry_run:
  "backoff_states tr a = streak_entry tr ts \<Longrightarrow>
   backoff_states (foldl backoff_step tr es) a = streak_entry tr (foldl (streak_step a) ts es)"
proof (induction es arbitrary: tr ts)
  case (Cons e es)
  have "backoff_states (backoff_step tr e) a = streak_entry (backoff_step tr e) (streak_step a ts e)"
    using streak_entry_step [OF Cons.prems] streak_entry_config [OF backoff_config_step] by metis
  from Cons.IH [OF this] show ?case
    using streak_entry_config [OF backoff_config_step] by simp
qed simp

text \<open>
  Reconnect backoff. Over any interleaving of failures and successes of any addresses,
  whether an address may be tried depends only on its own failures since its last success: the
  wait after the \<open>k\<close>-th is the documented exponential delay (clamped shift, saturating arithmetic
  and all), the slow probe interval once the budget is used up, and an attempt is always allowed
  again once the longer of the two caps has passed, so giving up is never permanent.
\<close>

theorem backoff_schedule:
  assumes "i64_ok initial" "i64_ok mx" "i64_ok probe"
    and "tr = foldl backoff_step (backoff_new initial mx failures probe) es" "ts = foldl (streak_step a) [] es"
  shows "(can_attempt tr a now \<longleftrightarrow>
       (case ts of [] \<Rightarrow> True | t # _ \<Rightarrow> i64_add t (nominal_backoff tr (length ts)) \<le> now)) \<and>
     unat (failure_count tr a) = min (length ts) (2 ^ 32 - 1) \<and>
     (ts \<noteq> [] \<and> i64_add (hd ts) (max (max_backoff_ms tr) (give_up_probe_ms tr)) \<le> now \<longrightarrow> can_attempt tr a now)"
proof -
  let ?tr = "backoff_new initial mx failures probe"
  have cfg: "backoff_config tr = backoff_config ?tr" unfolding assms(4) by simp
  have entry: "backoff_states tr a = streak_entry tr ts"
    unfolding streak_entry_config [OF cfg] unfolding assms(4,5)
    by (rule streak_entry_run) (simp add: streak_entry_def backoff_new_def)
  have ok: "i64_ok (initial_backoff_ms tr)" "0 \<le> initial_backoff_ms tr" "i64_ok (max_backoff_ms tr)"
    using cfg assms(1,2) by (auto simp: backoff_config_def backoff_new_def i64_ok_def i64_bound_defs)
  have delay: "backoff_after tr (capped_count k) = nominal_backoff tr k" if "0 < k" for k
    by (rule backoff_after_nominal [OF that ok])
  have cap: "i64_add t (nominal_backoff tr k) \<le> i64_add t (max (max_backoff_ms tr) (give_up_probe_ms tr))" for t k
    unfolding i64_add_def by (rule sat_i64_mono) (auto simp: nominal_backoff_def)
  show ?thesis
  proof (cases ts)
    case Nil
    with entry show ?thesis by (simp add: can_attempt_def failure_count_def streak_entry_def)
  next
    case (Cons t r)
    with entry delay [of "Suc (length r)"]
    have "backoff_states tr a = Some \<lparr>consecutive_failures = capped_count (Suc (length r)),
        next_eligible_at_ms = i64_add t (nominal_backoff tr (Suc (length r)))\<rparr>"
      by (simp add: streak_entry_def)
    with Cons cap [of t "Suc (length r)"] show ?thesis
      by (auto simp: can_attempt_def failure_count_def unat_capped_count)
  qed
qed

theorem backoff_schedule_witness:
  "let tr = foldl backoff_step (backoff_new 5000 300000 6 600000)
       [(''x'', BackoffFailure 0), (''y'', BackoffFailure 1), (''x'', BackoffFailure 5000)]
   in can_attempt tr ''x'' 15000 \<and> \<not> can_attempt tr ''x'' 14999"
proof -
  let ?es = "[(''x'', BackoffFailure 0), (''y'', BackoffFailure 1), (''x'', BackoffFailure 5000)]"
  define tr where "tr = foldl backoff_step (backoff_new 5000 300000 6 600000) ?es"
  have ok: "i64_ok 5000" "i64_ok 300000" "i64_ok 600000" by (simp_all add: i64_ok_def i64_bound_defs)
  have ts: "[5000, 0] = foldl (streak_step ''x'') [] ?es" by simp
  note sched = backoff_schedule [OF ok tr_def ts]
  have "backoff_config tr = (5000, 300000, 6, 600000)"
    unfolding tr_def backoff_config_run by (simp add: backoff_config_def backoff_new_def)
  then have "nominal_backoff tr 2 = 10000" by (simp add: nominal_backoff_def backoff_config_def)
  moreover have "i64_add 5000 10000 = 15000" by (simp add: i64_defs)
  ultimately have "can_attempt tr ''x'' 15000" "\<not> can_attempt tr ''x'' 14999"
    using sched [of 15000] sched [of 14999] by (simp_all add: numeral_2_eq_2)
  then show ?thesis unfolding tr_def by simp
qed

section \<open>The heartbeat closes silent links only\<close>

datatype lan_event = LanNext i64 u64 | LanResponse u64 i64 | LanRemove

fun lan_step :: "lan_health_tracker \<Rightarrow> string \<times> lan_event \<Rightarrow> lan_health_tracker" where
  "lan_step h (a, LanNext now nonce) = snd (lan_next h a now nonce)"
| "lan_step h (a, LanResponse nonce now) = snd (lan_response h a nonce now)"
| "lan_step h (a, LanRemove) = lan_remove h a"

definition lan_config :: "lan_health_tracker \<Rightarrow> i64 \<times> u32" where
  "lan_config h = (timeout_ms h, max_consecutive_timeouts h)"

lemma lan_config_step [simp]: "lan_config (lan_step h ke) = lan_config h"
  by (cases ke; cases "snd ke")
    (auto simp: lan_next_def lan_response_def lan_remove_def lan_config_def Let_def split: option.split)

lemma lan_config_run [simp]: "lan_config (foldl lan_step h es) = lan_config h"
  by (induction es arbitrary: h) simp_all

text \<open>Each link's heartbeat is its own: traffic on other links never moves it.\<close>

interpretation lan_table: keyed_machine lan_step "\<lambda>h a. (lan_config h, lan_links h a)"
proof unfold_locales
  fix k j :: string and s t e
  show "k \<noteq> j \<Longrightarrow> (lan_config (lan_step s (k, e)), lan_links (lan_step s (k, e)) j) = (lan_config s, lan_links s j)"
    unfolding lan_config_step
    by (cases e) (auto simp: lan_next_def lan_response_def lan_remove_def Let_def split: option.split)
  show "(lan_config s, lan_links s k) = (lan_config t, lan_links t k) \<Longrightarrow>
      (lan_config (lan_step s (k, e)), lan_links (lan_step s (k, e)) k) =
      (lan_config (lan_step t (k, e)), lan_links (lan_step t (k, e)) k)"
    unfolding lan_config_step
    by (cases e) (auto simp: lan_next_def lan_response_def lan_remove_def lan_config_def Let_def split: option.split)
qed

definition fresh_link :: "lan_health_tracker \<Rightarrow> string \<Rightarrow> bool" where
  "fresh_link h a \<longleftrightarrow>
     (case lan_links h a of None \<Rightarrow> True | Some st \<Rightarrow> pending_nonce st = None \<and> consecutive_timeouts st = 0)"

lemma response_refreshes:
  "fst (lan_response h a nonce now) \<noteq> None \<Longrightarrow> fresh_link (snd (lan_response h a nonce now)) a"
  by (auto simp: lan_response_def fresh_link_def split: option.splits if_splits)

fun spaced :: "i64 \<Rightarrow> i64 list \<Rightarrow> bool" where
  "spaced d (t # t' # ts) \<longleftrightarrow> d \<le> t' - t \<and> spaced d (t' # ts)"
| "spaced d _ = True"

lemma spaced_snoc: "spaced d (ts @ [t, t']) \<longleftrightarrow> spaced d (ts @ [t]) \<and> d \<le> t' - t"
  by (induction ts rule: induct_list012) auto

lemma lan_next_timeout:
  assumes "lan_links h a = Some \<lparr>pending_nonce = Some n, sent_at_ms = t, consecutive_timeouts = of_nat k\<rparr>"
    and "i64_ok (timeout_ms h)" "0 \<le> timeout_ms h" "timeout_ms h \<le> now - t" "Suc k < 2 ^ 32"
  shows "lan_next h a now nonce =
     (if Suc k < unat (max_consecutive_timeouts h)
      then ((HealthSend, Some nonce), h\<lparr>lan_links := (lan_links h)(a \<mapsto>
              \<lparr>pending_nonce = Some nonce, sent_at_ms = now, consecutive_timeouts = of_nat (Suc k)\<rparr>)\<rparr>)
      else ((HealthClose, None), h\<lparr>lan_links := (lan_links h)(a := None)\<rparr>))"
proof -
  have late: "\<not> i64_sub now t < timeout_ms h"
    using assms(2-4) by (subst i64_sub_less_iff) (auto simp: i64_bound_defs)
  have cap: "of_nat k = capped_count k" "of_nat (Suc k) = capped_count (Suc k)"
    using assms(5) unfolding capped_count_def by (simp_all add: min_absorb1 del: of_nat_Suc)
  have "word_sat_add (of_nat k) 1 = (of_nat (Suc k) :: u32)" unfolding cap by (rule capped_count_Suc)
  moreover have "max_consecutive_timeouts h \<le> of_nat (Suc k) \<longleftrightarrow> \<not> Suc k < unat (max_consecutive_timeouts h)"
    using assms(5) by (simp add: word_le_nat_alt unat_of_nat take_bit_nat_eq_self not_less del: of_nat_Suc)
  ultimately show ?thesis
    using assms(1) late by (simp add: lan_next_def Let_def del: of_nat_Suc)
qed

lemma silent_probes:
  assumes "fresh_link h a" "i64_ok (timeout_ms h)" "0 \<le> timeout_ms h" "spaced (timeout_ms h) (map fst (ps @ [(t, n)]))"
    and "length ps < max 1 (unat (max_consecutive_timeouts h))"
  shows "lan_links (foldl lan_step h (map (\<lambda>(t, n). (a, LanNext t n)) (ps @ [(t, n)]))) a =
     Some \<lparr>pending_nonce = Some n, sent_at_ms = t, consecutive_timeouts = of_nat (length ps)\<rparr>"
  using assms(4,5)
proof (induction ps arbitrary: t n rule: rev_induct)
  case Nil
  show ?case using assms(1) by (auto simp: lan_next_def fresh_link_def split: option.splits)
next
  case (snoc p ps)
  obtain t0 n0 where p: "p = (t0, n0)" by (cases p)
  let ?h = "foldl lan_step h (map (\<lambda>(t, n). (a, LanNext t n)) (ps @ [p]))"
  have cfg: "timeout_ms ?h = timeout_ms h" "max_consecutive_timeouts ?h = max_consecutive_timeouts h"
    using lan_config_run [of h] unfolding lan_config_def by blast+
  have sp: "spaced (timeout_ms h) (map fst (ps @ [(t0, n0)]))" "timeout_ms h \<le> t - t0"
    using snoc.prems(1) p spaced_snoc [of _ "map fst ps" t0 t] by simp_all
  have len: "Suc (length ps) < unat (max_consecutive_timeouts h)" using snoc.prems(2) by simp
  then have "Suc (length ps) < 2 ^ 32" using unat_lt_pow [of "max_consecutive_timeouts h"] by simp
  with snoc.IH [OF sp(1)] len sp(2) assms(2,3) cfg p
  have "lan_next ?h a t n = ((HealthSend, Some n), ?h\<lparr>lan_links := (lan_links ?h)(a \<mapsto>
      \<lparr>pending_nonce = Some n, sent_at_ms = t, consecutive_timeouts = of_nat (Suc (length ps))\<rparr>)\<rparr>)"
    using lan_next_timeout [of ?h a n0 t0 "length ps" t n] by simp
  then show ?case by (simp del: of_nat_Suc)
qed

text \<open>
  The LAN heartbeat. Take a link that is new or has just answered, and any interleaving
  with the traffic of other links in which this link is probed at intervals of at least the
  timeout and never answers. Then each further probe is sent while fewer than the allowed number
  of probes have gone unanswered, and the link is closed exactly when that number is reached.
\<close>

theorem lan_silent_link_closed:
  assumes "fresh_link h a" "i64_ok (timeout_ms h)" "0 \<le> timeout_ms h"
    and "filter (\<lambda>(k, _). k = a) es = map (\<lambda>(t, n). (a, LanNext t n)) ps" "ps \<noteq> []"
    and "spaced (timeout_ms h) (map fst ps @ [now])" "length ps \<le> max 1 (unat (max_consecutive_timeouts h))"
    and "length ps < 2 ^ 32"
  shows "fst (lan_next (foldl lan_step h es) a now nonce) =
     (if length ps < unat (max_consecutive_timeouts h) then (HealthSend, Some nonce) else (HealthClose, None))"
proof -
  let ?h = "foldl lan_step h es" and ?g = "foldl lan_step h (map (\<lambda>(t, n). (a, LanNext t n)) ps)"
  obtain qs t n where ps: "ps = qs @ [(t, n)]" using assms(5) by (metis rev_exhaust surj_pair)
  have sp: "spaced (timeout_ms h) (map fst (qs @ [(t, n)]))" "timeout_ms h \<le> now - t"
    using assms(6) spaced_snoc [of _ "map fst qs" t now] by (simp_all add: ps)
  have "lan_links ?h a = lan_links ?g a"
    using lan_table.run_projection [of h a h es] assms(4) by simp
  also have "\<dots> = Some \<lparr>pending_nonce = Some n, sent_at_ms = t, consecutive_timeouts = of_nat (length qs)\<rparr>"
    unfolding ps by (rule silent_probes [OF assms(1-3) sp(1)]) (use assms(7) ps in simp)
  finally have entry: "lan_links ?h a = \<dots>" .
  have cfg: "timeout_ms ?h = timeout_ms h" "max_consecutive_timeouts ?h = max_consecutive_timeouts h"
    using lan_config_run [of h es] unfolding lan_config_def by blast+
  show ?thesis
    using lan_next_timeout [OF entry, of now nonce] assms(2,3,8) sp(2) cfg by (simp add: ps)
qed

theorem lan_silent_link_closed_witness:
  "fst (lan_next (foldl lan_step (lan_health_new 20000 2)
      [(''x'', LanNext 0 7), (''y'', LanNext 5 8), (''x'', LanNext 20000 9)]) ''x'' 40000 10) = (HealthClose, None)"
  using lan_silent_link_closed [of "lan_health_new 20000 2" "''x''"
      "[(''x'', LanNext 0 7), (''y'', LanNext 5 8), (''x'', LanNext 20000 9)]" "[(0, 7), (20000, 9)]" 40000 10]
  by (simp add: lan_health_new_def fresh_link_def i64_ok_def i64_bound_defs del: lan_step.simps)

section \<open>The debounce coalesces\<close>

datatype debounce_event =
    DebounceRequest string i64
  | DebounceFired string i64
  | DebounceCancel string
  | DebounceClear

fun debounce_step :: "failover_debounce \<Rightarrow> debounce_event \<Rightarrow> failover_debounce" where
  "debounce_step d (DebounceRequest k now) = snd (debounce_request d k now)"
| "debounce_step d (DebounceFired k token) = debounce_fired d k token"
| "debounce_step d (DebounceCancel k) = debounce_cancel d k"
| "debounce_step d DebounceClear = debounce_clear d"

text \<open>Events that leave the window of \<open>k\<close>, armed at \<open>t\<close> with this token, to itself.\<close>

fun leaves_window :: "failover_debounce \<Rightarrow> string \<Rightarrow> i64 \<Rightarrow> i64 \<Rightarrow> debounce_event \<Rightarrow> bool" where
  "leaves_window d k t token (DebounceRequest k' now) \<longleftrightarrow> k' \<noteq> k \<or> (t \<le> now \<and> now < t + window_ms d)"
| "leaves_window d k t token (DebounceFired k' token') \<longleftrightarrow> k' \<noteq> k \<or> token' \<noteq> token"
| "leaves_window d k t token (DebounceCancel k') \<longleftrightarrow> k' \<noteq> k"
| "leaves_window d k t token DebounceClear \<longleftrightarrow> False"

definition window_open :: "failover_debounce \<Rightarrow> string \<Rightarrow> i64 \<Rightarrow> i64 \<Rightarrow> bool" where
  "window_open d k t token \<longleftrightarrow> armed d k = Some \<lparr>armed_at_ms = t, window_token = token\<rparr>"

lemma window_ms_step [simp]: "window_ms (debounce_step d e) = window_ms d"
  by (cases e) (simp_all add: debounce_request_def debounce_fired_def debounce_cancel_def debounce_clear_def Let_def)

lemma window_ms_run [simp]: "window_ms (foldl debounce_step d es) = window_ms d"
  by (induction es arbitrary: d) simp_all

lemma absorbed_iff:
  assumes "window_open d k t token" "i64_ok (window_ms d)" "0 \<le> window_ms d"
  shows "request_absorbed d k now \<longleftrightarrow> t \<le> now \<and> now < t + window_ms d"
proof -
  have "0 \<le> i64_sub now t \<longleftrightarrow> 0 \<le> now - t"
    by (rule i64_sub_ge_iff) (simp_all add: i64_ok_def i64_bound_defs)
  moreover have "i64_sub now t < window_ms d \<longleftrightarrow> now - t < window_ms d"
    by (rule i64_sub_less_iff) (use assms(2,3) in \<open>auto simp: i64_bound_defs\<close>)
  ultimately show ?thesis using assms(1) by (auto simp: request_absorbed_def window_open_def Let_def)
qed

lemma window_step:
  assumes "window_open d k t token" "i64_ok (window_ms d)" "0 \<le> window_ms d" "leaves_window d k t token e"
  shows "window_open (debounce_step d e) k t token"
proof (cases e)
  case (DebounceRequest k' now)
  then show ?thesis
    using assms absorbed_iff [OF assms(1-3)]
    by (cases "k' = k") (auto simp: debounce_request_def window_open_def Let_def)
qed (use assms in \<open>auto simp: debounce_fired_def debounce_cancel_def window_open_def\<close>)

lemma leaves_window_cong: "window_ms d = window_ms d' \<Longrightarrow> leaves_window d k t token e = leaves_window d' k t token e"
  by (cases e) simp_all

lemma window_run:
  assumes "window_open d k t token" "i64_ok (window_ms d)" "0 \<le> window_ms d" "list_all (leaves_window d k t token) es"
  shows "window_open (foldl debounce_step d es) k t token"
  using assms
proof (induction es arbitrary: d)
  case (Cons e es)
  have "list_all (leaves_window (debounce_step d e) k t token) es"
    using Cons.prems(4) leaves_window_cong [of "debounce_step d e" d] by (simp add: list_all_iff)
  moreover have "window_open (debounce_step d e) k t token" using Cons.prems by (intro window_step) simp_all
  ultimately show ?case using Cons.IH [of "debounce_step d e"] Cons.prems(2,3) by simp
qed simp

text \<open>
  One resume per burst. Once a failover of a peer has armed a window, then over any
  requests of this peer inside the window, any requests, firings and cancellations of other peers,
  and any stale timer of this peer, every further request inside the window is absorbed; a request
  before or after it arms again, so a lost timer or a clock that jumps back never disables
  resuming; and once the timer of this window has fired, the next request arms at once.
\<close>

theorem failover_coalesces:
  assumes "i64_ok (window_ms d)" "0 \<le> window_ms d" "debounce_request d k t = (Some arm, d1)"
    and "list_all (leaves_window d1 k t (arm_token arm)) es" "d2 = foldl debounce_step d1 es"
  shows "(fst (debounce_request d2 k now) = None \<longleftrightarrow> t \<le> now \<and> now < t + window_ms d) \<and>
     fst (debounce_request (debounce_fired d2 k (arm_token arm)) k now) \<noteq> None \<and>
     arm_delay_ms arm = window_ms d"
proof -
  have d1: "window_open d1 k t (arm_token arm)" "window_ms d1 = window_ms d" "arm_delay_ms arm = window_ms d"
    using assms(3) by (auto simp: debounce_request_def window_open_def Let_def split: if_splits)
  have d2: "window_open d2 k t (arm_token arm)" "window_ms d2 = window_ms d"
    using window_run [OF d1(1)] assms(1,2,4) d1(2) by (simp_all add: assms(5))
  have "fst (debounce_request d2 k now) = None \<longleftrightarrow> request_absorbed d2 k now"
    by (simp add: debounce_request_def Let_def)
  moreover have "armed (debounce_fired d2 k (arm_token arm)) k = None"
    using d2(1) by (simp add: debounce_fired_def window_open_def)
  then have "fst (debounce_request (debounce_fired d2 k (arm_token arm)) k now) \<noteq> None"
    by (simp add: debounce_request_def request_absorbed_def Let_def)
  ultimately show ?thesis using absorbed_iff [OF d2(1)] assms(1,2) d1(3) d2(2) by simp
qed

theorem failover_coalesces_witness:
  "fst (debounce_request (foldl debounce_step (snd (debounce_request debounce_new ''p'' 1000))
     [DebounceRequest ''q'' 1050, DebounceFired ''p'' 9]) ''p'' 1200) = None"
proof -
  let ?arm = "\<lparr>arm_delay_ms = 300, arm_token = 1\<rparr>"
  have "debounce_request debounce_new ''p'' 1000 = (Some ?arm, snd (debounce_request debounce_new ''p'' 1000))"
    by (simp add: debounce_request_def debounce_new_def with_window_ms_def FAILOVER_RESUME_WINDOW_MS_def
        request_absorbed_def i64_wrapping_add_def Let_def)
  from failover_coalesces [OF _ _ this, of "[DebounceRequest ''q'' 1050, DebounceFired ''p'' 9]" _ 1200]
  show ?thesis
    by (simp add: debounce_new_def with_window_ms_def FAILOVER_RESUME_WINDOW_MS_def i64_ok_def i64_bound_defs
        del: debounce_step.simps)
qed

end
