(* ===== verification/Spray_Policy.thy ===== *)
theory Spray_Policy
  imports Mesh_Router
begin

text \<open>
  The digest-spray policy (\<open>core/src/spray_policy.rs\<close>): how often a peer may be sprayed, how many bytes may be
  queued at one link, and when an unchanged offer stops being repeated. The two hash maps of scheduling state are
  maps; the mutex is the sequencing of the operations. Byte counts are numbers with the \<open>u64\<close> saturation and
  truncation of the code written out. Writing to the event ring happens outside the lock and returns nothing to the
  policy: what would be written is part of the result here.
  The lemmas show that a link's bytes are bounded over any stretch of time, that every refusal ends, that
  reconnects cannot raise the rate, and that a lane is withheld exactly while it repeats a recent offer.
\<close>

section \<open>Budgets and intervals\<close>

definition CARRIED_SPRAY_BUDGET_BYTES :: nat where
  "CARRIED_SPRAY_BUDGET_BYTES = 256 * 1024"

definition OWN_OUTBOUND_SPRAY_BUDGET_BYTES :: nat where
  "OWN_OUTBOUND_SPRAY_BUDGET_BYTES = 256 * 1024"

definition OWN_RECEIPT_SPRAY_BUDGET_BYTES :: nat where
  "OWN_RECEIPT_SPRAY_BUDGET_BYTES = 64 * 1024"

definition TOTAL_ENCOUNTER_BUDGET_BYTES :: nat where
  "TOTAL_ENCOUNTER_BUDGET_BYTES =
     CARRIED_SPRAY_BUDGET_BYTES + OWN_OUTBOUND_SPRAY_BUDGET_BYTES + OWN_RECEIPT_SPRAY_BUDGET_BYTES"

definition LINK_BURST_BYTES :: nat where
  "LINK_BURST_BYTES = TOTAL_ENCOUNTER_BUDGET_BYTES"

definition LINK_DRAIN_BYTES_PER_SEC :: nat where
  "LINK_DRAIN_BYTES_PER_SEC = 24 * 1024"

definition MIN_USEFUL_BURST_BYTES :: nat where
  "MIN_USEFUL_BURST_BYTES = 16 * 1024"

definition RECONNECT_SPRAY_MIN_INTERVAL_MS :: i64 where
  "RECONNECT_SPRAY_MIN_INTERVAL_MS = 60000"

definition SPRAY_EXCHANGE_WINDOW_MS :: i64 where
  "SPRAY_EXCHANGE_WINDOW_MS = 15000"

definition FIRST_CONTACT_LAPSE_MS :: i64 where
  "FIRST_CONTACT_LAPSE_MS = 30 * 60000"

definition IDENTICAL_SET_REOFFER_INTERVAL_MS :: i64 where
  "IDENTICAL_SET_REOFFER_INTERVAL_MS = 30 * 60000"

definition RECEIPT_QUIET_MAX_SHIFT :: nat where
  "RECEIPT_QUIET_MAX_SHIFT = 5"

definition MAX_SPRAY_INTERVAL_MS :: i64 where
  "MAX_SPRAY_INTERVAL_MS = 30 * 60000"

definition SPRAY_RETRY_ARM_MAX_MS :: i64 where
  "SPRAY_RETRY_ARM_MAX_MS = 60000"

definition SPRAY_STATE_RETENTION_MS :: i64 where
  "SPRAY_STATE_RETENTION_MS = 2 * 60 * 60000"

definition core_spray_retry_arm_max_ms :: i64 where
  "core_spray_retry_arm_max_ms = SPRAY_RETRY_ARM_MAX_MS"

lemmas spray_limits =
  CARRIED_SPRAY_BUDGET_BYTES_def OWN_OUTBOUND_SPRAY_BUDGET_BYTES_def OWN_RECEIPT_SPRAY_BUDGET_BYTES_def
  TOTAL_ENCOUNTER_BUDGET_BYTES_def LINK_BURST_BYTES_def LINK_DRAIN_BYTES_PER_SEC_def MIN_USEFUL_BURST_BYTES_def
  RECONNECT_SPRAY_MIN_INTERVAL_MS_def SPRAY_EXCHANGE_WINDOW_MS_def FIRST_CONTACT_LAPSE_MS_def
  IDENTICAL_SET_REOFFER_INTERVAL_MS_def RECEIPT_QUIET_MAX_SHIFT_def MAX_SPRAY_INTERVAL_MS_def SPRAY_RETRY_ARM_MAX_MS_def
  SPRAY_STATE_RETENTION_MS_def REDIGEST_MAX_INTERVAL_MS_def REDIGEST_MIN_INTERVAL_MS_def

section \<open>Questions and answers\<close>

datatype spray_trigger = FirstContactTrigger | ReconnectTrigger | PeerDigestTrigger | MaintenanceTrigger

datatype spray_gate_reason =
  GateFirstContact | ExchangeOpen | IntervalElapsed | CadenceGated | ReceiptQuietBackoff | LinkBurstExhausted

record spray_gate =
  allow :: bool
  gate_reason :: spray_gate_reason
  gate_carried_budget :: nat
  gate_own_outbound_budget :: nat
  gate_own_receipt_budget :: nat
  retry_after_ms :: i64
  retry_worth_arming :: bool

datatype spray_admission_reason = AdmissionEmpty | SetChanged | ReofferLapsed | IdenticalSuppressed

record spray_lane_plan =
  set_digest :: u64
  lane_bytes :: nat

record spray_plan_shape =
  shape_carried :: spray_lane_plan
  shape_own_outbound :: spray_lane_plan
  shape_own_receipts :: spray_lane_plan

record spray_admission =
  adm_send :: bool
  send_carried :: bool
  send_own_outbound :: bool
  send_own_receipts :: bool
  adm_reason :: spray_admission_reason
  charged_bytes :: nat
  reoffer_in_ms :: i64

section \<open>The digest of an advertised set\<close>

fun le_bytes :: "nat \<Rightarrow> nat \<Rightarrow> bytes" where
  "le_bytes 0 v = []"
| "le_bytes (Suc k) v = word_of_nat (v mod 256) # le_bytes k (v div 256)"

definition fnv1a64 :: "bytes \<Rightarrow> u64" where
  "fnv1a64 bs = foldl (\<lambda>h b. (h XOR ucast b) * 0x100000001b3) 0xcbf29ce484222325 bs"

definition digest_step :: "u64 \<times> u64 \<times> u64 \<Rightarrow> bytes \<Rightarrow> u64 \<times> u64 \<times> u64" where
  "digest_step acc msg_id = (case acc of (s, x, n) \<Rightarrow>
     let h = fnv1a64 msg_id in (s + h, x XOR h, n + 1))"

definition spray_set_digest :: "bytes list \<Rightarrow> u64" where
  "spray_set_digest msg_ids =
     (case foldl digest_step (0, 0, 0) msg_ids of (s, x, n) \<Rightarrow>
        fnv1a64 (le_bytes 8 (unat s) @ le_bytes 8 (unat x) @ le_bytes 8 (unat n)))"

section \<open>State\<close>

record lane_state =
  lane_digest :: "u64 option"
  sprayed_at_ms :: i64

definition lane_default :: lane_state where
  "lane_default = \<lparr>lane_digest = None, sprayed_at_ms = i64_min\<rparr>"

record spray_peer =
  last_spray_at_ms :: i64
  exchange_open_until_ms :: i64
  quiet_rounds :: nat
  journaled_quiet_rounds :: "nat option"
  lanes :: "lane_state list"
  peer_touched_at_ms :: i64

definition LANE_CARRIED :: nat where
  "LANE_CARRIED = 0"

definition LANE_OWN_OUTBOUND :: nat where
  "LANE_OWN_OUTBOUND = 1"

definition LANE_OWN_RECEIPTS :: nat where
  "LANE_OWN_RECEIPTS = 2"

definition spray_peer_new :: "i64 \<Rightarrow> spray_peer" where
  "spray_peer_new now_ms =
     \<lparr>last_spray_at_ms = i64_min, exchange_open_until_ms = i64_min, quiet_rounds = 0, journaled_quiet_rounds = None,
      lanes = replicate 3 lane_default, peer_touched_at_ms = now_ms\<rparr>"

definition ever_sprayed :: "spray_peer \<Rightarrow> bool" where
  "ever_sprayed p \<longleftrightarrow> last_spray_at_ms p \<noteq> i64_min"

definition since_last_spray_ms :: "spray_peer \<Rightarrow> i64 \<Rightarrow> i64" where
  "since_last_spray_ms p now_ms =
     (if \<not> ever_sprayed p then i64_max else i64_sub now_ms (last_spray_at_ms p))"

record spray_link =
  tokens :: nat
  last_refill_ms :: i64
  link_touched_at_ms :: i64
  journaled_exhausted :: bool

definition spray_link_new :: "i64 \<Rightarrow> nat \<Rightarrow> spray_link" where
  "spray_link_new now_ms capacity =
     \<lparr>tokens = capacity, last_refill_ms = now_ms, link_touched_at_ms = now_ms, journaled_exhausted = False\<rparr>"

record spray_config =
  cfg_reconnect_min_interval_ms :: i64
  cfg_exchange_window_ms :: i64
  cfg_first_contact_lapse_ms :: i64
  cfg_reoffer_interval_ms :: i64
  cfg_max_interval_ms :: i64
  cfg_quiet_max_shift :: nat
  cfg_link_burst_bytes :: nat
  cfg_link_drain_bytes_per_sec :: nat
  cfg_carried_budget_bytes :: nat
  cfg_own_outbound_budget_bytes :: nat
  cfg_own_receipt_budget_bytes :: nat
  cfg_retention_ms :: i64

definition spray_config_default :: spray_config where
  "spray_config_default =
     \<lparr>cfg_reconnect_min_interval_ms = RECONNECT_SPRAY_MIN_INTERVAL_MS, cfg_exchange_window_ms = SPRAY_EXCHANGE_WINDOW_MS,
      cfg_first_contact_lapse_ms = FIRST_CONTACT_LAPSE_MS, cfg_reoffer_interval_ms = IDENTICAL_SET_REOFFER_INTERVAL_MS,
      cfg_max_interval_ms = MAX_SPRAY_INTERVAL_MS, cfg_quiet_max_shift = RECEIPT_QUIET_MAX_SHIFT,
      cfg_link_burst_bytes = LINK_BURST_BYTES, cfg_link_drain_bytes_per_sec = LINK_DRAIN_BYTES_PER_SEC,
      cfg_carried_budget_bytes = CARRIED_SPRAY_BUDGET_BYTES, cfg_own_outbound_budget_bytes = OWN_OUTBOUND_SPRAY_BUDGET_BYTES,
      cfg_own_receipt_budget_bytes = OWN_RECEIPT_SPRAY_BUDGET_BYTES, cfg_retention_ms = SPRAY_STATE_RETENTION_MS\<rparr>"

record spray_state =
  spray_peers :: "bytes \<rightharpoonup> spray_peer"
  spray_links :: "bytes \<rightharpoonup> spray_link"

record spray_policy =
  config :: spray_config
  sched :: spray_state

definition spray_new :: "spray_config \<Rightarrow> spray_policy" where
  "spray_new cfg = \<lparr>config = cfg, sched = \<lparr>spray_peers = Map.empty, spray_links = Map.empty\<rparr>\<rparr>"

section \<open>Buckets\<close>

definition retain :: "('v \<Rightarrow> bool) \<Rightarrow> ('k \<rightharpoonup> 'v) \<Rightarrow> ('k \<rightharpoonup> 'v)" where
  "retain keep m = (\<lambda>k. case m k of None \<Rightarrow> None | Some v \<Rightarrow> if keep v then Some v else None)"

definition spray_prune :: "spray_state \<Rightarrow> i64 \<Rightarrow> i64 \<Rightarrow> spray_state" where
  "spray_prune st now_ms retention_ms =
     st\<lparr>spray_peers := retain (\<lambda>p. i64_sub now_ms (peer_touched_at_ms p) \<le> retention_ms) (spray_peers st),
        spray_links := retain (\<lambda>l. i64_sub now_ms (link_touched_at_ms l) \<le> retention_ms) (spray_links st)\<rparr>"

definition or_insert :: "'v option \<Rightarrow> 'v \<Rightarrow> 'v" where
  "or_insert entry v = (case entry of None \<Rightarrow> v | Some x \<Rightarrow> x)"

definition refill_bytes :: "i64 \<Rightarrow> nat \<Rightarrow> nat" where
  "refill_bytes elapsed rate = (nat elapsed * rate div 1000) mod 2 ^ 64"

definition allowance_link :: "spray_config \<Rightarrow> spray_link \<Rightarrow> i64 \<Rightarrow> spray_link" where
  "allowance_link cfg link now_ms =
     (let capacity = cfg_link_burst_bytes cfg;
          elapsed = i64_sub now_ms (last_refill_ms link);
          refill = refill_bytes elapsed (cfg_link_drain_bytes_per_sec cfg);
          link' = (if elapsed > 0
            then (if refill > 0
                  then link\<lparr>tokens := min (nat_sat_add (tokens link) refill) capacity, last_refill_ms := now_ms\<rparr>
                  else link)
            else if elapsed < 0 then link\<lparr>last_refill_ms := now_ms\<rparr>
            else link)
      in link'\<lparr>link_touched_at_ms := now_ms\<rparr>)"

definition allowance :: "spray_config \<Rightarrow> spray_state \<Rightarrow> bytes \<Rightarrow> i64 \<Rightarrow> nat \<times> spray_state" where
  "allowance cfg st link_key now_ms =
     (let link = allowance_link cfg (or_insert (spray_links st link_key) (spray_link_new now_ms (cfg_link_burst_bytes cfg))) now_ms
      in (tokens link, st\<lparr>spray_links := (spray_links st)(link_key \<mapsto> link)\<rparr>))"

definition ms_to_accrue :: "spray_config \<Rightarrow> nat \<Rightarrow> nat \<Rightarrow> i64" where
  "ms_to_accrue cfg current target =
     (if current \<ge> target then 0
      else
        let missing = target - current;
            rate = max (cfg_link_drain_bytes_per_sec cfg) 1;
            ms = (missing * 1000 + (rate - 1)) div rate
        in if int ms \<le> i64_max then int ms else i64_max)"

definition lane_budgets :: "spray_config \<Rightarrow> nat \<Rightarrow> nat \<times> nat \<times> nat" where
  "lane_budgets cfg allowed =
     (let carried = cfg_carried_budget_bytes cfg;
          outbound = cfg_own_outbound_budget_bytes cfg;
          receipts = cfg_own_receipt_budget_bytes cfg;
          total = max (nat_sat_add (nat_sat_add carried outbound) receipts) 1
      in if allowed \<ge> total then (carried, outbound, receipts)
         else let scale = (\<lambda>lane. lane * allowed div total) in (scale carried, scale outbound, scale receipts))"

definition interval_for :: "spray_config \<Rightarrow> spray_trigger \<Rightarrow> spray_peer \<Rightarrow> i64" where
  "interval_for cfg trigger p =
     (let base = (if trigger = MaintenanceTrigger then REDIGEST_MAX_INTERVAL_MS else cfg_reconnect_min_interval_ms cfg)
      in if trigger = PeerDigestTrigger then base
         else
           let shift = min (quiet_rounds p) (cfg_quiet_max_shift cfg);
               stretched = i64_mul base (2 ^ shift)
           in max (min stretched (cfg_max_interval_ms cfg)) base)"

definition debit_link :: "spray_config \<Rightarrow> spray_link \<Rightarrow> nat \<Rightarrow> i64 \<Rightarrow> spray_link" where
  "debit_link cfg link bytes now_ms =
     (let capacity = cfg_link_burst_bytes cfg;
          elapsed = i64_sub now_ms (last_refill_ms link);
          link' = (if elapsed > 0
            then link\<lparr>tokens := min (nat_sat_add (tokens link) (refill_bytes elapsed (cfg_link_drain_bytes_per_sec cfg))) capacity,
                      last_refill_ms := now_ms\<rparr>
            else if elapsed < 0 then link\<lparr>last_refill_ms := now_ms\<rparr>
            else link)
      in link'\<lparr>tokens := tokens link' - bytes, link_touched_at_ms := now_ms\<rparr>)"

definition debit :: "spray_config \<Rightarrow> spray_state \<Rightarrow> bytes \<Rightarrow> nat \<Rightarrow> i64 \<Rightarrow> spray_state" where
  "debit cfg st link_key bytes now_ms =
     st\<lparr>spray_links := (spray_links st)(link_key \<mapsto>
        debit_link cfg (or_insert (spray_links st link_key) (spray_link_new now_ms (cfg_link_burst_bytes cfg))) bytes now_ms)\<rparr>"

section \<open>The gate\<close>

definition gate_denied :: "spray_gate_reason \<Rightarrow> i64 \<Rightarrow> spray_gate" where
  "gate_denied reason retry =
     \<lparr>allow = False, gate_reason = reason, gate_carried_budget = 0, gate_own_outbound_budget = 0, gate_own_receipt_budget = 0,
      retry_after_ms = retry, retry_worth_arming = (retry \<le> SPRAY_RETRY_ARM_MAX_MS)\<rparr>"

datatype spray_event_code = SprayDeferred | SprayBudgetExhausted | SprayAdmitted | SpraySuppressed

record gate_record =
  rec_code :: spray_event_code
  rec_outcome :: string
  rec_counts :: "(string \<times> i64) list"

definition note_quiet_backoff :: "spray_state \<Rightarrow> bytes \<Rightarrow> gate_record option \<times> spray_state" where
  "note_quiet_backoff st peer_key =
     (case spray_peers st peer_key of None \<Rightarrow> (None, st)
      | Some p \<Rightarrow>
          if journaled_quiet_rounds p = Some (quiet_rounds p) then (None, st)
          else (Some \<lparr>rec_code = SprayDeferred, rec_outcome = ''backed_off_for_want_of_receipts'',
                      rec_counts = [(''quiet_rounds'', int (quiet_rounds p))]\<rparr>,
                st\<lparr>spray_peers := (spray_peers st)(peer_key \<mapsto> p\<lparr>journaled_quiet_rounds := Some (quiet_rounds p)\<rparr>)\<rparr>))"

definition note_burst_exhausted :: "spray_state \<Rightarrow> bytes \<Rightarrow> gate_record option \<times> spray_state" where
  "note_burst_exhausted st link_key =
     (case spray_links st link_key of None \<Rightarrow> (None, st)
      | Some l \<Rightarrow>
          if journaled_exhausted l then (None, st)
          else (Some \<lparr>rec_code = SprayBudgetExhausted, rec_outcome = ''link_burst_allowance_spent'', rec_counts = []\<rparr>,
                st\<lparr>spray_links := (spray_links st)(link_key \<mapsto> l\<lparr>journaled_exhausted := True\<rparr>)\<rparr>))"

definition cadence :: "spray_config \<Rightarrow> spray_peer \<Rightarrow> bytes \<Rightarrow> spray_trigger \<Rightarrow> i64 \<Rightarrow> bool \<times> spray_gate_reason" where
  "cadence cfg p link_key trigger now_ms =
     (let first_contact = (trigger = FirstContactTrigger \<and> since_last_spray_ms p now_ms \<ge> cfg_first_contact_lapse_ms cfg);
          exchange_open = (trigger = PeerDigestTrigger \<and> now_ms < exchange_open_until_ms p)
      in if first_contact then (True, GateFirstContact)
         else if exchange_open then (True, ExchangeOpen)
         else
           let interval = interval_for cfg trigger p;
               elapsed = since_last_spray_ms p now_ms;
               due = (if trigger = MaintenanceTrigger \<and> quiet_rounds p = 0
                      then \<not> ever_sprayed p \<or> should_redigest now_ms (last_spray_at_ms p) (jitter_seed link_key)
                      else elapsed \<ge> interval)
           in if due then (True, IntervalElapsed)
              else if quiet_rounds p > 0 then (False, ReceiptQuietBackoff)
              else (False, CadenceGated))"

definition decide_spray ::
  "spray_policy \<Rightarrow> bytes \<Rightarrow> bytes \<Rightarrow> spray_trigger \<Rightarrow> i64 \<Rightarrow> (spray_gate \<times> gate_record option) \<times> spray_policy" where
  "decide_spray pol peer_key link_key trigger now_ms =
     (let cfg = config pol;
          (allowed, st1) = allowance cfg (spray_prune (sched pol) now_ms (cfg_retention_ms cfg)) link_key now_ms;
          p = (or_insert (spray_peers st1 peer_key) (spray_peer_new now_ms))\<lparr>peer_touched_at_ms := now_ms\<rparr>;
          st2 = st1\<lparr>spray_peers := (spray_peers st1)(peer_key \<mapsto> p)\<rparr>;
          (cadence_ok, reason) = cadence cfg p link_key trigger now_ms
      in if \<not> cadence_ok
         then
           let retry = max (i64_sub (interval_for cfg trigger p) (since_last_spray_ms p now_ms)) 1;
               (entry, st3) = (if reason = ReceiptQuietBackoff then note_quiet_backoff st2 peer_key else (None, st2))
           in ((gate_denied reason retry, entry), pol\<lparr>sched := st3\<rparr>)
         else
           let st3 = st2\<lparr>spray_peers := (spray_peers st2)(peer_key \<mapsto> p\<lparr>journaled_quiet_rounds := None\<rparr>)\<rparr>;
               target = min MIN_USEFUL_BURST_BYTES (cfg_link_burst_bytes cfg)
           in if allowed < target
              then
                let retry = max (ms_to_accrue cfg allowed target) 1;
                    (entry, st4) = note_burst_exhausted st3 link_key
                in ((gate_denied LinkBurstExhausted retry, entry), pol\<lparr>sched := st4\<rparr>)
              else
                let st4 = st3\<lparr>spray_links :=
                      (case spray_links st3 link_key of None \<Rightarrow> spray_links st3
                       | Some l \<Rightarrow> (spray_links st3)(link_key \<mapsto> l\<lparr>journaled_exhausted := False\<rparr>))\<rparr>;
                    (carried, outbound, receipts) = lane_budgets cfg allowed
                in ((\<lparr>allow = True, gate_reason = reason, gate_carried_budget = carried, gate_own_outbound_budget = outbound,
                      gate_own_receipt_budget = receipts, retry_after_ms = 0, retry_worth_arming = False\<rparr>, None),
                    pol\<lparr>sched := st4\<rparr>))"

record event_draft =
  draft_code :: spray_event_code
  draft_at_ms :: i64
  draft_outcome :: string
  draft_actor :: string
  draft_invariants :: "string list"
  draft_counts :: "(string \<times> i64) list"

definition may_spray ::
  "(bytes \<Rightarrow> string) \<Rightarrow> spray_policy \<Rightarrow> bytes \<Rightarrow> bytes \<Rightarrow> spray_trigger \<Rightarrow> i64 \<Rightarrow> (spray_gate \<times> event_draft list) \<times> spray_policy" where
  "may_spray pseudonym pol peer_key link_key trigger now_ms =
     (let ((gate, entry), pol') = decide_spray pol peer_key link_key trigger now_ms
      in ((gate, case entry of None \<Rightarrow> []
           | Some e \<Rightarrow> [\<lparr>draft_code = rec_code e, draft_at_ms = now_ms, draft_outcome = rec_outcome e,
               draft_actor = pseudonym peer_key, draft_invariants = [''SPRAY-01''],
               draft_counts = (''retry_after_ms'', max (retry_after_ms gate) 0) # rec_counts e\<rparr>]), pol'))"

section \<open>Admission of a plan\<close>

definition admit_lane ::
  "lane_state \<Rightarrow> spray_lane_plan \<Rightarrow> i64 \<Rightarrow> i64 \<Rightarrow> (bool \<times> spray_admission_reason \<times> i64) \<times> lane_state" where
  "admit_lane lane plan now_ms reoffer_interval_ms =
     (if lane_bytes plan = 0 then ((False, AdmissionEmpty, 0), lane)
      else
        let identical = (lane_digest lane = Some (set_digest plan));
            since = (if sprayed_at_ms lane = i64_min then i64_max else i64_sub now_ms (sprayed_at_ms lane))
        in if identical \<and> since < reoffer_interval_ms
           then ((False, IdenticalSuppressed, max (reoffer_interval_ms - since) 1), lane)
           else ((True, if identical then ReofferLapsed else SetChanged, 0),
                 lane\<lparr>lane_digest := Some (set_digest plan), sprayed_at_ms := now_ms\<rparr>))"

record admit_loop =
  al_lanes :: "lane_state list"
  al_sent :: "bool list"
  al_charged :: nat
  any_changed :: bool
  any_lapsed :: bool
  any_suppressed :: bool
  soonest_reoffer :: i64

definition admit_step :: "i64 \<Rightarrow> i64 \<Rightarrow> admit_loop \<Rightarrow> nat \<times> spray_lane_plan \<Rightarrow> admit_loop" where
  "admit_step now_ms reoffer_interval acc item =
     (case item of (index, plan) \<Rightarrow>
      case admit_lane (al_lanes acc ! index) plan now_ms reoffer_interval of ((send, reason, reoffer_in), lane) \<Rightarrow>
        let acc1 = acc\<lparr>al_lanes := (al_lanes acc)[index := lane], al_sent := (al_sent acc)[index := send]\<rparr>
        in if send
           then (let acc2 = acc1\<lparr>al_charged := nat_sat_add (al_charged acc) (lane_bytes plan)\<rparr>
                 in if reason = ReofferLapsed then acc2\<lparr>any_lapsed := True\<rparr> else acc2\<lparr>any_changed := True\<rparr>)
           else if reason = IdenticalSuppressed
           then acc1\<lparr>any_suppressed := True, soonest_reoffer := min (soonest_reoffer acc) reoffer_in\<rparr>
           else acc1)"

definition admit_lanes :: "lane_state list \<Rightarrow> spray_plan_shape \<Rightarrow> i64 \<Rightarrow> i64 \<Rightarrow> admit_loop" where
  "admit_lanes ls shape now_ms reoffer_interval =
     foldl (admit_step now_ms reoffer_interval)
       \<lparr>al_lanes = ls, al_sent = replicate 3 False, al_charged = 0, any_changed = False, any_lapsed = False,
        any_suppressed = False, soonest_reoffer = i64_max\<rparr>
       [(LANE_CARRIED, shape_carried shape), (LANE_OWN_OUTBOUND, shape_own_outbound shape),
        (LANE_OWN_RECEIPTS, shape_own_receipts shape)]"

definition admission_of :: "admit_loop \<Rightarrow> spray_admission" where
  "admission_of acc =
     \<lparr>adm_send = list_ex id (al_sent acc), send_carried = al_sent acc ! LANE_CARRIED,
      send_own_outbound = al_sent acc ! LANE_OWN_OUTBOUND, send_own_receipts = al_sent acc ! LANE_OWN_RECEIPTS,
      adm_reason = (if any_changed acc then SetChanged else if any_lapsed acc then ReofferLapsed
                    else if any_suppressed acc then IdenticalSuppressed else AdmissionEmpty),
      charged_bytes = al_charged acc,
      reoffer_in_ms = (if any_suppressed acc then soonest_reoffer acc else 0)\<rparr>"

definition saturate :: "nat \<Rightarrow> i64" where
  "saturate v = (if int v \<le> i64_max then int v else i64_max)"

definition admission_events ::
  "(bytes \<Rightarrow> string) \<Rightarrow> spray_admission \<Rightarrow> spray_plan_shape \<Rightarrow> bytes \<Rightarrow> i64 \<Rightarrow> event_draft list" where
  "admission_events pseudonym admission shape peer_key now_ms =
     (if adm_reason admission = AdmissionEmpty then []
      else
        let (code, outcome) =
              (if adm_send admission
               then (SprayAdmitted, if adm_reason admission = ReofferLapsed then ''reoffer_interval_lapsed'' else ''advertised_set_changed'')
               else (SpraySuppressed, ''every_lane_identical_to_the_last_offer''))
        in [\<lparr>draft_code = code, draft_at_ms = now_ms, draft_outcome = outcome, draft_actor = pseudonym peer_key,
             draft_invariants = [''SPRAY-01''],
             draft_counts =
               [(''charged_bytes'', saturate (charged_bytes admission)),
                (''carried_bytes'', saturate (lane_bytes (shape_carried shape))),
                (''own_outbound_bytes'', saturate (lane_bytes (shape_own_outbound shape))),
                (''own_receipt_bytes'', saturate (lane_bytes (shape_own_receipts shape))),
                (''reoffer_in_ms'', max (reoffer_in_ms admission) 0)]\<rparr>])"

definition admit_plan ::
  "(bytes \<Rightarrow> string) \<Rightarrow> spray_policy \<Rightarrow> bytes \<Rightarrow> bytes \<Rightarrow> spray_plan_shape \<Rightarrow> i64 \<Rightarrow>
   (spray_admission \<times> event_draft list) \<times> spray_policy" where
  "admit_plan pseudonym pol peer_key link_key shape now_ms =
     (let cfg = config pol;
          st = spray_prune (sched pol) now_ms (cfg_retention_ms cfg);
          p = (or_insert (spray_peers st peer_key) (spray_peer_new now_ms))
                \<lparr>peer_touched_at_ms := now_ms, last_spray_at_ms := now_ms\<rparr>;
          acc = admit_lanes (lanes p) shape now_ms (cfg_reoffer_interval_ms cfg);
          p1 = p\<lparr>lanes := al_lanes acc,
                  quiet_rounds := (if al_charged acc > 0 then min (quiet_rounds p + 1) (2 ^ 32 - 1) else quiet_rounds p)\<rparr>;
          st1 = st\<lparr>spray_peers := (spray_peers st)(peer_key \<mapsto> p1)\<rparr>;
          st2 = (if al_charged acc > 0 then debit cfg st1 link_key (al_charged acc) now_ms else st1);
          admission = admission_of acc
      in ((admission, admission_events pseudonym admission shape peer_key now_ms), pol\<lparr>sched := st2\<rparr>))"

section \<open>Other operations\<close>

definition open_exchange :: "spray_policy \<Rightarrow> bytes \<Rightarrow> bytes \<Rightarrow> (spray_peer \<Rightarrow> spray_peer) \<Rightarrow> i64 \<Rightarrow> spray_policy" where
  "open_exchange pol peer_key link_key arm now_ms =
     (let cfg = config pol;
          st = spray_prune (sched pol) now_ms (cfg_retention_ms cfg);
          p = (arm (or_insert (spray_peers st peer_key) (spray_peer_new now_ms)))
                \<lparr>exchange_open_until_ms := i64_add now_ms (cfg_exchange_window_ms cfg), peer_touched_at_ms := now_ms\<rparr>;
          st1 = st\<lparr>spray_peers := (spray_peers st)(peer_key \<mapsto> p)\<rparr>
      in pol\<lparr>sched := snd (allowance cfg st1 link_key now_ms)\<rparr>)"

definition note_digest_sent :: "spray_policy \<Rightarrow> bytes \<Rightarrow> bytes \<Rightarrow> i64 \<Rightarrow> spray_policy" where
  "note_digest_sent pol peer_key link_key now_ms =
     open_exchange pol peer_key link_key (\<lambda>p. p\<lparr>last_spray_at_ms := now_ms\<rparr>) now_ms"

definition note_digest_only_sent :: "spray_policy \<Rightarrow> bytes \<Rightarrow> bytes \<Rightarrow> i64 \<Rightarrow> spray_policy" where
  "note_digest_only_sent pol peer_key link_key now_ms = open_exchange pol peer_key link_key (\<lambda>p. p) now_ms"

definition note_bytes_queued :: "spray_policy \<Rightarrow> bytes \<Rightarrow> nat \<Rightarrow> i64 \<Rightarrow> spray_policy" where
  "note_bytes_queued pol link_key bytes now_ms =
     (if bytes = 0 then pol
      else pol\<lparr>sched := debit (config pol) (spray_prune (sched pol) now_ms (cfg_retention_ms (config pol))) link_key bytes now_ms\<rparr>)"

definition note_receipt_progress :: "spray_policy \<Rightarrow> bytes \<Rightarrow> i64 \<Rightarrow> spray_policy" where
  "note_receipt_progress pol peer_key now_ms =
     (let st = spray_prune (sched pol) now_ms (cfg_retention_ms (config pol));
          p = (or_insert (spray_peers st peer_key) (spray_peer_new now_ms))
                \<lparr>quiet_rounds := 0, journaled_quiet_rounds := None, peer_touched_at_ms := now_ms\<rparr>
      in pol\<lparr>sched := st\<lparr>spray_peers := (spray_peers st)(peer_key \<mapsto> p)\<rparr>\<rparr>)"

definition quiet_rounds_of :: "spray_policy \<Rightarrow> bytes \<Rightarrow> nat" where
  "quiet_rounds_of pol peer_key = (case spray_peers (sched pol) peer_key of None \<Rightarrow> 0 | Some p \<Rightarrow> quiet_rounds p)"

definition link_allowance_bytes :: "spray_policy \<Rightarrow> bytes \<Rightarrow> i64 \<Rightarrow> nat \<times> spray_policy" where
  "link_allowance_bytes pol link_key now_ms =
     (let (n, st) = allowance (config pol) (sched pol) link_key now_ms in (n, pol\<lparr>sched := st\<rparr>))"

definition note_link_closed :: "spray_policy \<Rightarrow> bytes \<Rightarrow> i64 \<Rightarrow> spray_policy" where
  "note_link_closed pol link_key now_ms =
     pol\<lparr>sched := snd (allowance (config pol) (spray_prune (sched pol) now_ms (cfg_retention_ms (config pol))) link_key now_ms)\<rparr>"

definition spray_clear :: "spray_policy \<Rightarrow> spray_policy" where
  "spray_clear pol = pol\<lparr>sched := \<lparr>spray_peers = Map.empty, spray_links = Map.empty\<rparr>\<rparr>"

section \<open>Runs\<close>

datatype spray_op =
    MaySpray bytes bytes spray_trigger
  | AdmitPlan bytes bytes spray_plan_shape
  | DigestSent bytes bytes
  | DigestOnlySent bytes bytes
  | BytesQueued bytes nat
  | ReceiptProgress bytes
  | AllowanceAsked bytes
  | LinkClosed bytes
  | Clear

definition no_ring :: "bytes \<Rightarrow> string" where
  "no_ring peer_key = ''peer-0''"

fun spray_step :: "spray_policy \<Rightarrow> i64 \<times> spray_op \<Rightarrow> spray_policy" where
  "spray_step pol (now, MaySpray p l trigger) = snd (may_spray no_ring pol p l trigger now)"
| "spray_step pol (now, AdmitPlan p l shape) = snd (admit_plan no_ring pol p l shape now)"
| "spray_step pol (now, DigestSent p l) = note_digest_sent pol p l now"
| "spray_step pol (now, DigestOnlySent p l) = note_digest_only_sent pol p l now"
| "spray_step pol (now, BytesQueued l n) = note_bytes_queued pol l n now"
| "spray_step pol (now, ReceiptProgress p) = note_receipt_progress pol p now"
| "spray_step pol (now, AllowanceAsked l) = snd (link_allowance_bytes pol l now)"
| "spray_step pol (now, LinkClosed l) = note_link_closed pol l now"
| "spray_step pol (now, Clear) = spray_clear pol"

text \<open>
  The clock of the callers is monotonic: the times of a run do not fall. They stay below \<open>CLOCK_LIMIT\<close>, nine
  million years, where no sum or product of the policy saturates or is truncated.
\<close>

definition CLOCK_LIMIT :: i64 where
  "CLOCK_LIMIT = 2 ^ 58"

fun clock_ok :: "i64 \<Rightarrow> (i64 \<times> spray_op) list \<Rightarrow> i64 \<Rightarrow> bool" where
  "clock_ok from [] until \<longleftrightarrow> 0 \<le> from \<and> from \<le> until \<and> until \<le> CLOCK_LIMIT"
| "clock_ok from ((t, _) # es) until \<longleftrightarrow> 0 \<le> from \<and> from \<le> t \<and> clock_ok t es until"

lemma clock_ok_range: "clock_ok a es b \<Longrightarrow> 0 \<le> a \<and> a \<le> b \<and> b \<le> CLOCK_LIMIT"
  by (induction a es b rule: clock_ok.induct) auto

lemma config_step [simp]: "config (spray_step pol e) = config pol"
  by (cases e; cases "snd e")
    (auto simp: may_spray_def decide_spray_def admit_plan_def note_digest_sent_def note_digest_only_sent_def open_exchange_def
      note_bytes_queued_def note_receipt_progress_def link_allowance_bytes_def note_link_closed_def spray_clear_def Let_def
      split: prod.split)

lemma config_run [simp]: "config (foldl spray_step pol es) = config pol"
  by (induction es arbitrary: pol) simp_all

lemma config_new [simp]: "config (spray_new cfg) = cfg"
  by (simp add: spray_new_def)

lemma default_config [simp]:
  "cfg_reconnect_min_interval_ms spray_config_default = 60000" "cfg_exchange_window_ms spray_config_default = 15000"
  "cfg_first_contact_lapse_ms spray_config_default = 1800000" "cfg_reoffer_interval_ms spray_config_default = 1800000"
  "cfg_max_interval_ms spray_config_default = 1800000" "cfg_quiet_max_shift spray_config_default = 5"
  "cfg_link_burst_bytes spray_config_default = 589824" "cfg_link_drain_bytes_per_sec spray_config_default = 24576"
  "cfg_carried_budget_bytes spray_config_default = 262144" "cfg_own_outbound_budget_bytes spray_config_default = 262144"
  "cfg_own_receipt_budget_bytes spray_config_default = 65536" "cfg_retention_ms spray_config_default = 7200000"
  by (simp_all add: spray_config_default_def spray_limits)

lemma clock_sub: "0 \<le> a \<Longrightarrow> a \<le> CLOCK_LIMIT \<Longrightarrow> 0 \<le> b \<Longrightarrow> b \<le> CLOCK_LIMIT \<Longrightarrow> i64_sub a b = a - b"
  by (simp add: i64_sub_def CLOCK_LIMIT_def sat_i64_def i64_bound_defs)

section \<open>One link's bucket\<close>

definition link_ok :: "i64 \<Rightarrow> spray_link \<Rightarrow> bool" where
  "link_ok now l \<longleftrightarrow> tokens l \<le> 589824 \<and> 0 \<le> last_refill_ms l \<and> last_refill_ms l \<le> link_touched_at_ms l \<and> link_touched_at_ms l \<le> now"

lemma link_ok_later: "link_ok now l \<Longrightarrow> now \<le> later \<Longrightarrow> link_ok later l"
  by (simp add: link_ok_def)

lemma link_new_ok: "0 \<le> now \<Longrightarrow> link_ok now (spray_link_new now 589824)"
  by (simp add: link_ok_def spray_link_new_def)

lemma refill_exact:
  assumes "0 \<le> e" "e \<le> CLOCK_LIMIT"
  shows "refill_bytes e 24576 = nat e * 24576 div 1000"
proof -
  have "nat e * 24576 div 1000 \<le> 2 ^ 58 * 24576 div 1000"
    using assms by (intro div_le_mono mult_right_mono) (auto simp: CLOCK_LIMIT_def nat_le_iff)
  then show ?thesis unfolding refill_bytes_def by (intro mod_less) simp
qed

lemma refill_scaled: "0 \<le> e \<Longrightarrow> e \<le> CLOCK_LIMIT \<Longrightarrow> 1000 * int (refill_bytes e 24576) \<le> 24576 * e"
  "0 \<le> e \<Longrightarrow> e \<le> CLOCK_LIMIT \<Longrightarrow> 24576 * e < 1000 * int (refill_bytes e 24576) + 1000"
proof -
  assume e: "0 \<le> e" "e \<le> CLOCK_LIMIT"
  have "int (refill_bytes e 24576) = e * 24576 div 1000"
    using e by (simp add: refill_exact zdiv_int)
  then show "1000 * int (refill_bytes e 24576) \<le> 24576 * e" "24576 * e < 1000 * int (refill_bytes e 24576) + 1000" by linarith+
qed

lemma link_after:
  assumes ok: "link_ok now l" and clock: "now \<le> CLOCK_LIMIT"
  defines "k \<equiv> min (tokens l + refill_bytes (now - last_refill_ms l) 24576) 589824"
  shows "tokens (allowance_link spray_config_default l now) = k" "tokens (debit_link spray_config_default l b now) = k - b"
    "last_refill_ms (allowance_link spray_config_default l now) \<in>
       {now, if refill_bytes (now - last_refill_ms l) 24576 = 0 then last_refill_ms l else now}"
    "last_refill_ms (debit_link spray_config_default l b now) = now"
    "link_touched_at_ms (allowance_link spray_config_default l now) = now"
    "link_touched_at_ms (debit_link spray_config_default l b now) = now"
proof -
  have sub: "i64_sub now (last_refill_ms l) = now - last_refill_ms l" "last_refill_ms l \<le> now"
    using ok clock by (auto simp: link_ok_def intro!: clock_sub)
  have zero: "refill_bytes 0 24576 = 0" by (simp add: refill_bytes_def)
  have sat: "min (nat_sat_add (tokens l) r) 589824 = min (tokens l + r) 589824" for r
    by (simp add: nat_sat_add_def u64_max_def)
  show "tokens (allowance_link spray_config_default l now) = k" "tokens (debit_link spray_config_default l b now) = k - b"
    "last_refill_ms (allowance_link spray_config_default l now) \<in>
       {now, if refill_bytes (now - last_refill_ms l) 24576 = 0 then last_refill_ms l else now}"
    "last_refill_ms (debit_link spray_config_default l b now) = now"
    "link_touched_at_ms (allowance_link spray_config_default l now) = now"
    "link_touched_at_ms (debit_link spray_config_default l b now) = now"
    using ok sub zero
    by (cases "last_refill_ms l = now"; auto simp: allowance_link_def debit_link_def Let_def sat k_def link_ok_def)+
qed

lemma link_after_ok:
  assumes "link_ok now l" "now \<le> CLOCK_LIMIT"
  shows "link_ok now (allowance_link spray_config_default l now)" "link_ok now (debit_link spray_config_default l b now)"
  using link_after [OF assms] assms(1) by (auto simp: link_ok_def split: if_splits)

text \<open>
  Thousand times the bytes a link could still take at \<open>now\<close>, fractions included: what the bucket holds and what
  has accrued since its last refill. A link without an entry has a full bucket.
\<close>

definition credit :: "i64 \<Rightarrow> spray_link option \<Rightarrow> int" where
  "credit now entry =
     (case entry of None \<Rightarrow> 589824000
      | Some l \<Rightarrow> min 589824000 (1000 * int (tokens l) + 24576 * (now - last_refill_ms l)))"

definition available :: "i64 \<Rightarrow> spray_link option \<Rightarrow> nat" where
  "available now entry = tokens (allowance_link spray_config_default (or_insert entry (spray_link_new now 589824)) now)"

lemma credit_le: "credit now entry \<le> 589824000"
  by (auto simp: credit_def split: option.split)

lemma credit_later: "now \<le> later \<Longrightarrow> credit later entry \<le> credit now entry + 24576 * (later - now)"
  by (auto simp: credit_def min_def split: option.split)

definition entry_ok :: "i64 \<Rightarrow> spray_link option \<Rightarrow> bool" where
  "entry_ok now entry \<longleftrightarrow> (\<forall>l. entry = Some l \<longrightarrow> link_ok now l)"

lemma or_insert_ok:
  assumes "entry_ok now entry" "0 \<le> now"
  shows "link_ok now (or_insert entry (spray_link_new now 589824))"
    "credit now (Some (or_insert entry (spray_link_new now 589824))) = credit now entry"
  using assms by (auto simp: or_insert_def entry_ok_def link_ok_def credit_def spray_link_new_def split: option.split)

lemma credit_touch:
  assumes "entry_ok now entry" "0 \<le> now" "now \<le> CLOCK_LIMIT"
  defines "l \<equiv> or_insert entry (spray_link_new now 589824)"
  shows "credit now (Some (allowance_link spray_config_default l now)) \<le> credit now entry"
    "b \<le> available now entry \<Longrightarrow> credit now (Some (debit_link spray_config_default l b now)) + 1000 * int b \<le> credit now entry"
proof -
  have ok: "link_ok now l" and same: "credit now (Some l) = credit now entry"
    using or_insert_ok [OF assms(1,2)] by (simp_all add: l_def)
  note after = link_after [OF ok assms(3)]
  have e: "1000 * int (refill_bytes (now - last_refill_ms l) 24576) \<le> 24576 * (now - last_refill_ms l)"
    using ok assms(3) by (intro refill_scaled(1)) (auto simp: link_ok_def)
  show "credit now (Some (allowance_link spray_config_default l now)) \<le> credit now entry"
    using after(1,3) e ok unfolding same [symmetric] by (auto simp: credit_def link_ok_def min_def split: if_splits)
  show "credit now (Some (debit_link spray_config_default l b now)) + 1000 * int b \<le> credit now entry"
    if "b \<le> available now entry"
  proof -
    have "b \<le> min (tokens l + refill_bytes (now - last_refill_ms l) 24576) 589824"
      using that after(1) by (simp add: available_def l_def)
    then show ?thesis using after(2,4) e ok unfolding same [symmetric] by (simp add: credit_def link_ok_def min_def)
  qed
qed

lemma credit_prune:
  assumes "entry_ok now entry" "0 \<le> now" "now \<le> CLOCK_LIMIT"
  shows "credit now (retain (\<lambda>l. i64_sub now (link_touched_at_ms l) \<le> 7200000) (\<lambda>_. entry) x) = credit now entry"
proof (cases entry)
  case (Some l)
  then have l: "link_ok now l" using assms(1) by (simp add: entry_ok_def)
  then have "i64_sub now (link_touched_at_ms l) = now - link_touched_at_ms l"
    using assms(2,3) by (intro clock_sub) (auto simp: link_ok_def)
  then show ?thesis using l Some by (auto simp: retain_def credit_def link_ok_def)
qed (simp add: retain_def)

lemma floor_min:
  "1000 * r \<le> e \<Longrightarrow> e < 1000 * r + 1000 \<Longrightarrow> min (t + r) 589824 = min 589824000 (1000 * t + e) div (1000 :: int)"
proof -
  assume r: "1000 * r \<le> e" "e < 1000 * r + 1000"
  have "(1000 * t + e) div 1000 = t + r" using r by (intro int_div_pos_eq [where r = "e - 1000 * r"]) (simp_all add: algebra_simps)
  moreover have "min a b div 1000 = min (a div 1000) (b div 1000)" for a b :: int
    by (simp add: min_def zdiv_mono1 antisym)
  ultimately show ?thesis by (simp add: min.commute)
qed

lemma available_credit:
  assumes "entry_ok now entry" "0 \<le> now" "now \<le> CLOCK_LIMIT"
  shows "int (available now entry) = credit now entry div 1000"
proof -
  let ?l = "or_insert entry (spray_link_new now 589824)"
  have ok: "link_ok now ?l" and same: "credit now (Some ?l) = credit now entry"
    using or_insert_ok [OF assms(1,2)] by simp_all
  have "0 \<le> now - last_refill_ms ?l" "now - last_refill_ms ?l \<le> CLOCK_LIMIT" using ok assms(3) by (auto simp: link_ok_def)
  note e = refill_scaled [OF this]
  have "int (available now entry) = min (int (tokens ?l) + int (refill_bytes (now - last_refill_ms ?l) 24576)) 589824"
    using link_after(1) [OF ok assms(3)] by (simp add: available_def)
  also have "\<dots> = credit now (Some ?l) div 1000" unfolding floor_min [OF e] by (simp add: credit_def)
  finally show ?thesis unfolding same .
qed

definition pruned :: "spray_policy \<Rightarrow> i64 \<Rightarrow> spray_state" where
  "pruned pol now = spray_prune (sched pol) now (cfg_retention_ms (config pol))"

definition touched_link :: "spray_policy \<Rightarrow> bytes \<Rightarrow> i64 \<Rightarrow> spray_link" where
  "touched_link pol l now =
     allowance_link (config pol) (or_insert (spray_links (pruned pol now) l) (spray_link_new now (cfg_link_burst_bytes (config pol)))) now"

definition met_peer :: "spray_policy \<Rightarrow> bytes \<Rightarrow> i64 \<Rightarrow> spray_peer" where
  "met_peer pol p now = (or_insert (spray_peers (pruned pol now) p) (spray_peer_new now))\<lparr>peer_touched_at_ms := now\<rparr>"

lemma note_states:
  "snd (note_quiet_backoff st k) =
     (case spray_peers st k of None \<Rightarrow> st
      | Some p \<Rightarrow> st\<lparr>spray_peers := (spray_peers st)(k \<mapsto> p\<lparr>journaled_quiet_rounds := Some (quiet_rounds p)\<rparr>)\<rparr>)"
  "snd (note_burst_exhausted st k') =
     (case spray_links st k' of None \<Rightarrow> st
      | Some l \<Rightarrow> st\<lparr>spray_links := (spray_links st)(k' \<mapsto> l\<lparr>journaled_exhausted := True\<rparr>)\<rparr>)"
proof -
  have p: "journaled_quiet_rounds p = Some n \<Longrightarrow> p\<lparr>journaled_quiet_rounds := Some n\<rparr> = p" for p :: spray_peer and n
    by (cases p) simp
  have l: "journaled_exhausted l \<Longrightarrow> l\<lparr>journaled_exhausted := True\<rparr> = l" for l :: spray_link
    by (cases l) simp
  show "snd (note_quiet_backoff st k) =
     (case spray_peers st k of None \<Rightarrow> st
      | Some p \<Rightarrow> st\<lparr>spray_peers := (spray_peers st)(k \<mapsto> p\<lparr>journaled_quiet_rounds := Some (quiet_rounds p)\<rparr>)\<rparr>)"
    by (auto simp: note_quiet_backoff_def p fun_upd_idem split: option.split)
  show "snd (note_burst_exhausted st k') =
     (case spray_links st k' of None \<Rightarrow> st
      | Some l \<Rightarrow> st\<lparr>spray_links := (spray_links st)(k' \<mapsto> l\<lparr>journaled_exhausted := True\<rparr>)\<rparr>)"
    by (auto simp: note_burst_exhausted_def l fun_upd_idem split: option.split)
qed

definition met :: "spray_policy \<Rightarrow> bytes \<Rightarrow> bytes \<Rightarrow> i64 \<Rightarrow> nat option \<Rightarrow> bool \<Rightarrow> spray_state" where
  "met pol p l now q j =
     (pruned pol now)\<lparr>spray_peers := (spray_peers (pruned pol now))(p \<mapsto> (met_peer pol p now)\<lparr>journaled_quiet_rounds := q\<rparr>),
        spray_links := (spray_links (pruned pol now))(l \<mapsto> (touched_link pol l now)\<lparr>journaled_exhausted := j\<rparr>)\<rparr>"

lemma decide_spray_cases:
  obtains (denied) reason where "cadence (config pol) (met_peer pol p now) l trigger now = (False, reason)"
      "fst (fst (decide_spray pol p l trigger now)) =
        gate_denied reason (max (i64_sub (interval_for (config pol) trigger (met_peer pol p now))
          (since_last_spray_ms (met_peer pol p now) now)) 1)"
      "\<exists>q j. sched (snd (decide_spray pol p l trigger now)) = met pol p l now q j"
  | (exhausted) reason where "cadence (config pol) (met_peer pol p now) l trigger now = (True, reason)"
      "tokens (touched_link pol l now) < min MIN_USEFUL_BURST_BYTES (cfg_link_burst_bytes (config pol))"
      "fst (fst (decide_spray pol p l trigger now)) =
        gate_denied LinkBurstExhausted (max (ms_to_accrue (config pol) (tokens (touched_link pol l now))
          (min MIN_USEFUL_BURST_BYTES (cfg_link_burst_bytes (config pol)))) 1)"
      "\<exists>q j. sched (snd (decide_spray pol p l trigger now)) = met pol p l now q j"
  | (allowed) reason c b r where "cadence (config pol) (met_peer pol p now) l trigger now = (True, reason)"
      "min MIN_USEFUL_BURST_BYTES (cfg_link_burst_bytes (config pol)) \<le> tokens (touched_link pol l now)"
      "lane_budgets (config pol) (tokens (touched_link pol l now)) = (c, b, r)"
      "fst (fst (decide_spray pol p l trigger now)) =
        \<lparr>allow = True, gate_reason = reason, gate_carried_budget = c, gate_own_outbound_budget = b,
         gate_own_receipt_budget = r, retry_after_ms = 0, retry_worth_arming = False\<rparr>"
      "\<exists>q j. sched (snd (decide_spray pol p l trigger now)) = met pol p l now q j"
proof -
  let ?L = "touched_link pol l now" and ?P = "met_peer pol p now"
  have id_l: "x\<lparr>journaled_exhausted := journaled_exhausted x\<rparr> = x" for x :: spray_link by simp
  have id_p: "x\<lparr>journaled_quiet_rounds := journaled_quiet_rounds x\<rparr> = x" for x :: spray_peer by simp
  have all: "allowance (config pol) (spray_prune (sched pol) now (cfg_retention_ms (config pol))) l now =
      (tokens ?L, (pruned pol now)\<lparr>spray_links := (spray_links (pruned pol now))(l \<mapsto> ?L)\<rparr>)"
    by (simp add: allowance_def touched_link_def pruned_def Let_def)
  obtain ok reason where cad: "cadence (config pol) ?P l trigger now = (ok, reason)" by fastforce
  obtain c b r where lb: "lane_budgets (config pol) (tokens ?L) = (c, b, r)" by (cases "lane_budgets (config pol) (tokens ?L)")
  note unfolded = decide_spray_def all cad lb Let_def met_peer_def [symmetric] case_prod_beta note_states met_def
  consider (d) "\<not> ok" | (e) "ok" "tokens ?L < min MIN_USEFUL_BURST_BYTES (cfg_link_burst_bytes (config pol))"
    | (a) "ok" "\<not> tokens ?L < min MIN_USEFUL_BURST_BYTES (cfg_link_burst_bytes (config pol))" by blast
  then show ?thesis
  proof cases
    case d
    have "\<exists>q j. sched (snd (decide_spray pol p l trigger now)) = met pol p l now q j"
      by (rule exI [of _ "if reason = ReceiptQuietBackoff then Some (quiet_rounds ?P) else journaled_quiet_rounds ?P"],
          rule exI [of _ "journaled_exhausted ?L"]) (use d in \<open>simp add: unfolded id_l id_p\<close>)
    with d cad show ?thesis by (intro denied) (simp_all add: unfolded)
  next
    case e
    have "\<exists>q j. sched (snd (decide_spray pol p l trigger now)) = met pol p l now q j"
      by (rule exI [of _ None], rule exI [of _ True]) (use e in \<open>simp add: unfolded\<close>)
    with e cad show ?thesis by (intro exhausted) (simp_all add: unfolded)
  next
    case a
    have "\<exists>q j. sched (snd (decide_spray pol p l trigger now)) = met pol p l now q j"
      by (rule exI [of _ None], rule exI [of _ False]) (use a in \<open>auto simp: unfolded\<close>)
    moreover have "fst (fst (decide_spray pol p l trigger now)) =
        \<lparr>allow = True, gate_reason = reason, gate_carried_budget = c, gate_own_outbound_budget = b,
         gate_own_receipt_budget = r, retry_after_ms = 0, retry_worth_arming = False\<rparr>"
      using a by (auto simp: unfolded)
    ultimately show ?thesis using a cad lb by (intro allowed) (auto simp: not_less)
  qed
qed

section \<open>What a step does to one link\<close>

definition prune_entry :: "i64 \<Rightarrow> spray_link option \<Rightarrow> spray_link option" where
  "prune_entry now entry = retain (\<lambda>l. i64_sub now (link_touched_at_ms l) \<le> 7200000) (\<lambda>_. entry) ()"

lemma prune_links: "spray_links (spray_prune st now 7200000) l = prune_entry now (spray_links st l)"
  by (simp add: spray_prune_def prune_entry_def retain_def)

definition bytes_charged :: "spray_policy \<Rightarrow> i64 \<times> spray_op \<Rightarrow> bytes \<Rightarrow> nat" where
  "bytes_charged pol e link =
     (case e of
        (now, AdmitPlan p l shape) \<Rightarrow> if l = link then charged_bytes (fst (fst (admit_plan no_ring pol p l shape now))) else 0
      | (now, BytesQueued l n) \<Rightarrow> if l = link then n else 0
      | _ \<Rightarrow> 0)"

definition link_effect :: "i64 \<Rightarrow> nat \<Rightarrow> spray_link option \<Rightarrow> spray_link option \<Rightarrow> bool" where
  "link_effect now b entry entry' \<longleftrightarrow>
     (\<exists>base\<in>{entry, prune_entry now entry}.
        let l = or_insert base (spray_link_new now 589824) in
        (b = 0 \<and> entry' = base) \<or>
        (b = 0 \<and> (\<exists>j. entry' = Some ((allowance_link spray_config_default l now)\<lparr>journaled_exhausted := j\<rparr>))) \<or>
        entry' = Some (debit_link spray_config_default l b now))"

lemma step_link_effect:
  assumes cfg: "config pol = spray_config_default" and op: "op \<noteq> Clear"
  shows "link_effect now (bytes_charged pol (now, op) link) (spray_links (sched pol) link)
    (spray_links (sched (spray_step pol (now, op))) link)"
proof -
  let ?e = "spray_links (sched pol) link" and ?c = spray_config_default
  have keep: "link_effect now 0 ?e (prune_entry now ?e)" "link_effect now 0 ?e ?e"
    by (auto simp: link_effect_def Let_def)
  have id_l: "\<exists>j. x = x\<lparr>journaled_exhausted := j\<rparr>" for x :: spray_link by (rule exI [of _ "journaled_exhausted x"]) simp
  have touch: "link_effect now 0 ?e (Some ((allowance_link ?c (or_insert base (spray_link_new now 589824)) now)))"
    "link_effect now 0 ?e (Some ((allowance_link ?c (or_insert base (spray_link_new now 589824)) now)\<lparr>journaled_exhausted := j\<rparr>))"
    "link_effect now b ?e (Some (debit_link ?c (or_insert base (spray_link_new now 589824)) b now))"
    if "base = ?e \<or> base = prune_entry now ?e" for base j b
    using that id_l by (auto simp: link_effect_def Let_def)
  note links = prune_links cfg touched_link_def pruned_def
  show ?thesis
  proof (cases op)
    case (MaySpray p l trigger)
    obtain q j where "sched (snd (decide_spray pol p l trigger now)) = met pol p l now q j"
      by (rule decide_spray_cases [of pol p now l trigger]) blast+
    then show ?thesis using keep touch MaySpray
      by (auto simp: may_spray_def case_prod_beta Let_def met_def links bytes_charged_def)
  next
    case (AdmitPlan p l shape)
    then show ?thesis using keep touch
      by (auto simp: admit_plan_def debit_def Let_def links bytes_charged_def admission_of_def)
  qed (use op keep touch in \<open>auto simp: note_digest_sent_def note_digest_only_sent_def open_exchange_def note_bytes_queued_def
      note_receipt_progress_def link_allowance_bytes_def note_link_closed_def allowance_def debit_def Let_def bytes_charged_def
      links\<close>)
qed

lemma credit_flag [simp]:
  "credit now (Some (l\<lparr>journaled_exhausted := j\<rparr>)) = credit now (Some l)"
  "entry_ok now (Some (l\<lparr>journaled_exhausted := j\<rparr>)) = entry_ok now (Some l)"
  by (simp_all add: credit_def entry_ok_def link_ok_def)

lemma prune_entry_ok: "entry_ok now entry \<Longrightarrow> entry_ok now (prune_entry now entry)"
  by (auto simp: entry_ok_def prune_entry_def retain_def split: option.splits if_splits)

lemma effect_ok:
  assumes ok: "entry_ok now entry" and now: "0 \<le> now" "now \<le> CLOCK_LIMIT" and eff: "link_effect now b entry entry'"
  shows "entry_ok now entry'"
proof -
  obtain base where base: "base \<in> {entry, prune_entry now entry}" and
    e: "let l = or_insert base (spray_link_new now 589824) in
        (b = 0 \<and> entry' = base) \<or>
        (b = 0 \<and> (\<exists>j. entry' = Some ((allowance_link spray_config_default l now)\<lparr>journaled_exhausted := j\<rparr>))) \<or>
        entry' = Some (debit_link spray_config_default l b now)"
    using eff unfolding link_effect_def by blast
  have "entry_ok now base" using base ok prune_entry_ok by auto
  with link_after_ok [OF or_insert_ok(1) [OF this now(1)] now(2)] e show ?thesis
    by (auto simp: Let_def) (simp_all add: entry_ok_def link_ok_def)
qed

lemma available_prune:
  assumes "entry_ok now entry" "0 \<le> now" "now \<le> CLOCK_LIMIT"
  shows "credit now (prune_entry now entry) = credit now entry" "available now (prune_entry now entry) = available now entry"
proof -
  show same: "credit now (prune_entry now entry) = credit now entry"
    unfolding prune_entry_def by (rule credit_prune [OF assms])
  show "available now (prune_entry now entry) = available now entry"
    using available_credit [OF assms] available_credit [OF prune_entry_ok [OF assms(1)] assms(2,3)] same by simp
qed

lemma effect_credit:
  assumes ok: "entry_ok now entry" and now: "0 \<le> now" "now \<le> CLOCK_LIMIT" and eff: "link_effect now b entry entry'"
    and b: "b \<le> available now entry"
  shows "credit now entry' + 1000 * int b \<le> credit now entry"
proof -
  obtain base where base: "base \<in> {entry, prune_entry now entry}" and
    e: "let l = or_insert base (spray_link_new now 589824) in
        (b = 0 \<and> entry' = base) \<or>
        (b = 0 \<and> (\<exists>j. entry' = Some ((allowance_link spray_config_default l now)\<lparr>journaled_exhausted := j\<rparr>))) \<or>
        entry' = Some (debit_link spray_config_default l b now)"
    using eff unfolding link_effect_def by blast
  have base_ok: "entry_ok now base" using base ok prune_entry_ok by auto
  have same: "credit now base = credit now entry" "available now base = available now entry"
    using base available_prune [OF ok now] by auto
  then show ?thesis using credit_touch [OF base_ok now] e b by (auto simp: Let_def)
qed

lemma step_entries_ok:
  assumes cfg: "config pol = spray_config_default" and ok: "\<And>l. entry_ok t (spray_links (sched pol) l)"
    and now: "t \<le> now" "0 \<le> t" "now \<le> CLOCK_LIMIT"
  shows "entry_ok now (spray_links (sched (spray_step pol (now, op))) link)"
proof (cases "op = Clear")
  case False
  have "entry_ok now (spray_links (sched pol) link)" using ok now(1) by (auto simp: entry_ok_def intro: link_ok_later)
  from effect_ok [OF this _ now(3) step_link_effect [OF cfg False]] now show ?thesis by simp
qed (simp add: spray_clear_def entry_ok_def)

lemma run_entries_ok:
  "config pol = spray_config_default \<Longrightarrow> (\<And>l. entry_ok t (spray_links (sched pol) l)) \<Longrightarrow> clock_ok t es until \<Longrightarrow>
   entry_ok until (spray_links (sched (foldl spray_step pol es)) link)"
proof (induction es arbitrary: pol t)
  case Nil
  then show ?case by (auto simp: entry_ok_def intro: link_ok_later)
next
  case (Cons e es)
  obtain now op where e: "e = (now, op)" by (cases e)
  have now: "t \<le> now" "0 \<le> t" "clock_ok now es until" using Cons.prems(3) by (auto simp: e)
  have "now \<le> CLOCK_LIMIT" using clock_ok_range [OF now(3)] by simp
  from Cons.IH [OF _ step_entries_ok [OF Cons.prems(1,2) now(1,2) this] now(3)] Cons.prems(1) show ?case by (simp add: e)
qed

fun total_charged :: "spray_policy \<Rightarrow> (i64 \<times> spray_op) list \<Rightarrow> bytes \<Rightarrow> nat" where
  "total_charged pol [] link = 0"
| "total_charged pol (e # es) link = bytes_charged pol e link + total_charged (spray_step pol e) es link"

fun within_allowance :: "spray_policy \<Rightarrow> (i64 \<times> spray_op) list \<Rightarrow> bytes \<Rightarrow> bool" where
  "within_allowance pol [] link \<longleftrightarrow> True"
| "within_allowance pol (e # es) link \<longleftrightarrow>
     bytes_charged pol e link \<le> fst (link_allowance_bytes pol link (fst e)) \<and> within_allowance (spray_step pol e) es link"

lemma link_allowance_available:
  "config pol = spray_config_default \<Longrightarrow> fst (link_allowance_bytes pol link now) = available now (spray_links (sched pol) link)"
  by (simp add: link_allowance_bytes_def allowance_def Let_def available_def)

text \<open>Clearing the policy, when the mesh stops, forgets what was charged.\<close>

definition clears :: "(i64 \<times> spray_op) list \<Rightarrow> nat" where
  "clears es = length (filter (\<lambda>e. snd e = Clear) es)"

lemma clears_simps [simp]: "clears [] = 0" "clears (e # es) = (if snd e = Clear then Suc (clears es) else clears es)"
  by (simp_all add: clears_def)

lemma charged_run:
  "config pol = spray_config_default \<Longrightarrow> (\<And>l. entry_ok t (spray_links (sched pol) l)) \<Longrightarrow> clock_ok t es until \<Longrightarrow>
   within_allowance pol es link \<Longrightarrow>
   1000 * int (total_charged pol es link) \<le> credit t (spray_links (sched pol) link) + 589824000 * int (clears es) + 24576 * (until - t)"
proof (induction es arbitrary: pol t)
  case Nil
  have "0 \<le> credit t (spray_links (sched pol) link)"
    using Nil.prems(2) [of link] by (auto simp: credit_def entry_ok_def link_ok_def split: option.split)
  with Nil.prems(3) show ?case by simp
next
  case (Cons e es)
  obtain now op where e: "e = (now, op)" by (cases e)
  have now: "t \<le> now" "0 \<le> t" "clock_ok now es until" using Cons.prems(3) by (auto simp: e)
  have lim: "now \<le> CLOCK_LIMIT" using clock_ok_range [OF now(3)] by simp
  have ok: "entry_ok now (spray_links (sched pol) link)"
    using Cons.prems(2) now(1) by (auto simp: entry_ok_def intro: link_ok_later)
  have b: "bytes_charged pol (now, op) link \<le> available now (spray_links (sched pol) link)"
    using Cons.prems(4) link_allowance_available [OF Cons.prems(1)] by (simp add: e)
  have "1000 * int (total_charged (spray_step pol e) es link) \<le>
      credit now (spray_links (sched (spray_step pol e)) link) + 589824000 * int (clears es) + 24576 * (until - now)"
    unfolding e
  proof (rule Cons.IH)
    show "entry_ok now (spray_links (sched (spray_step pol (now, op))) l)" for l
      by (rule step_entries_ok [OF Cons.prems(1,2) now(1,2) lim])
  qed (use Cons.prems now in \<open>simp_all add: e\<close>)
  moreover have "credit now (spray_links (sched (spray_step pol e)) link) + 1000 * int (bytes_charged pol (now, op) link)
      \<le> credit now (spray_links (sched pol) link) + (if op = Clear then 589824000 else 0)"
  proof (cases "op = Clear")
    case True
    have "0 \<le> credit now (spray_links (sched pol) link)"
      using ok by (auto simp: credit_def entry_ok_def link_ok_def split: option.split)
    with True credit_le [of now "spray_links (sched (spray_step pol e)) link"] show ?thesis by (simp add: bytes_charged_def)
  next
    case False
    then show ?thesis using effect_credit [OF ok _ lim step_link_effect [OF Cons.prems(1)] b] now by (auto simp: e)
  qed
  moreover have "credit now (spray_links (sched pol) link) \<le> credit t (spray_links (sched pol) link) + 24576 * (now - t)"
    by (rule credit_later [OF now(1)])
  ultimately show ?case by (cases "op = Clear") (simp_all add: e)
qed

lemma lane_budgets_within:
  assumes "lane_budgets spray_config_default allowed = (c, b, r)"
  shows "c + b + r \<le> allowed" "c \<le> 262144" "b \<le> 262144" "r \<le> 65536"
proof -
  have "c + b + r \<le> allowed \<and> c \<le> 262144 \<and> b \<le> 262144 \<and> r \<le> 65536"
  proof (cases "589824 \<le> allowed")
    case True
    then show ?thesis using assms by (auto simp: lane_budgets_def nat_sat_add_def u64_max_def)
  next
    case False
    then have e: "c = 262144 * allowed div 589824" "b = 262144 * allowed div 589824" "r = 65536 * allowed div 589824"
      using assms by (auto simp: lane_budgets_def nat_sat_add_def u64_max_def Let_def)
    have "589824 * (x * allowed div 589824) \<le> x * allowed" for x by simp
    from this [of 262144] this [of 65536] False show ?thesis unfolding e by linarith
  qed
  then show "c + b + r \<le> allowed" "c \<le> 262144" "b \<le> 262144" "r \<le> 65536" by auto
qed

lemma reachable_entries:
  "clock_ok 0 es until \<Longrightarrow> entry_ok until (spray_links (sched (foldl spray_step (spray_new spray_config_default) es)) link)"
  by (rule run_entries_ok) (simp_all add: spray_new_def entry_ok_def)

text \<open>
  Claim C25. What a link can be made to carry is bounded over every stretch of time. Take any reachable policy at
  \<open>t0\<close> and any further calls up to \<open>t1\<close>, whatever the mix of reconnects, closed links, prunings, gate
  questions and clearings of the whole policy. If no charge to the link exceeds its allowance when it is made, the bytes
  charged to it in that stretch are at most one burst, and one more for every clearing, plus what the drain rate
  gives in the time. And the budgets an open gate hands out stay, together, within
  the allowance, and each within its lane's budget, so that plans built to them make such charges.
\<close>

theorem link_burst_bounded:
  assumes reach: "pol = foldl spray_step (spray_new spray_config_default) before" and clock: "clock_ok 0 before t0" "clock_ok t0 es t1"
    and run: "within_allowance pol es link" and after: "pol' = foldl spray_step pol es"
    and gate: "gate = fst (fst (decide_spray pol' peer link trigger t1))"
  shows "1000 * total_charged pol es link \<le>
      1000 * LINK_BURST_BYTES * (1 + clears es) + LINK_DRAIN_BYTES_PER_SEC * nat (t1 - t0) \<and>
    (allow gate \<longrightarrow>
      gate_carried_budget gate + gate_own_outbound_budget gate + gate_own_receipt_budget gate
        \<le> fst (link_allowance_bytes pol' link t1) \<and>
      gate_carried_budget gate \<le> CARRIED_SPRAY_BUDGET_BYTES \<and> gate_own_outbound_budget gate \<le> OWN_OUTBOUND_SPRAY_BUDGET_BYTES \<and>
      gate_own_receipt_budget gate \<le> OWN_RECEIPT_SPRAY_BUDGET_BYTES)"
proof -
  have cfg: "config pol = spray_config_default" "config pol' = spray_config_default" by (simp_all add: reach after)
  have ok: "entry_ok t0 (spray_links (sched pol) l)" for l unfolding reach by (rule reachable_entries [OF clock(1)])
  have t: "t0 \<le> t1" "0 \<le> t1" "t1 \<le> CLOCK_LIMIT" using clock_ok_range [OF clock(2)] by auto
  have "1000 * int (total_charged pol es link) \<le> 589824000 + 589824000 * int (clears es) + 24576 * (t1 - t0)"
    using charged_run [OF cfg(1) ok clock(2) run] credit_le [of t0 "spray_links (sched pol) link"] by linarith
  then have "1000 * total_charged pol es link \<le> 1000 * LINK_BURST_BYTES * (1 + clears es) + LINK_DRAIN_BYTES_PER_SEC * nat (t1 - t0)"
    using t(1) by (simp add: spray_limits)
  moreover have "entry_ok t1 (spray_links (sched pol') link)" unfolding after by (rule run_entries_ok [OF cfg(1) ok clock(2)])
  then have tok: "tokens (touched_link pol' link t1) = fst (link_allowance_bytes pol' link t1)"
    using available_prune(2) [of t1] t link_allowance_available [OF cfg(2)]
    by (simp add: touched_link_def cfg pruned_def prune_links available_def)
  have "allow gate \<longrightarrow>
      gate_carried_budget gate + gate_own_outbound_budget gate + gate_own_receipt_budget gate
        \<le> fst (link_allowance_bytes pol' link t1) \<and>
      gate_carried_budget gate \<le> CARRIED_SPRAY_BUDGET_BYTES \<and> gate_own_outbound_budget gate \<le> OWN_OUTBOUND_SPRAY_BUDGET_BYTES \<and>
      gate_own_receipt_budget gate \<le> OWN_RECEIPT_SPRAY_BUDGET_BYTES"
  proof (cases rule: decide_spray_cases [of pol' peer t1 link trigger])
    case (allowed reason c b r)
    then show ?thesis using lane_budgets_within [of _ c b r] tok by (auto simp: cfg spray_limits gate)
  qed (auto simp: gate_denied_def gate)
  ultimately show ?thesis by blast
qed

section \<open>What a step does to one peer\<close>

lemma admit_step_parts [simp]:
  "al_lanes (admit_step now r acc (i, plan)) = (al_lanes acc)[i := snd (admit_lane (al_lanes acc ! i) plan now r)]"
  "al_sent (admit_step now r acc (i, plan)) = (al_sent acc)[i := fst (fst (admit_lane (al_lanes acc ! i) plan now r))]"
  "al_charged (admit_step now r acc (i, plan)) =
     (if fst (fst (admit_lane (al_lanes acc ! i) plan now r)) then nat_sat_add (al_charged acc) (lane_bytes plan) else al_charged acc)"
  by (auto simp: admit_step_def Let_def split: prod.split)

definition lane_plan :: "spray_plan_shape \<Rightarrow> nat \<Rightarrow> spray_lane_plan" where
  "lane_plan shape i = (if i = LANE_CARRIED then shape_carried shape else if i = LANE_OWN_OUTBOUND then shape_own_outbound shape
     else shape_own_receipts shape)"

lemmas lane_numbers = LANE_CARRIED_def LANE_OWN_OUTBOUND_def LANE_OWN_RECEIPTS_def

lemma less_3_cases: "i < 3 \<Longrightarrow> i = 0 \<or> i = 1 \<or> i = (2 :: nat)"
  by auto

lemma admit_lanes_nth:
  assumes "length ls = 3"
  shows "length (al_lanes (admit_lanes ls shape now r)) = 3" "length (al_sent (admit_lanes ls shape now r)) = 3"
    "i < 3 \<Longrightarrow> al_lanes (admit_lanes ls shape now r) ! i = snd (admit_lane (ls ! i) (lane_plan shape i) now r)"
    "i < 3 \<Longrightarrow> al_sent (admit_lanes ls shape now r) ! i = fst (fst (admit_lane (ls ! i) (lane_plan shape i) now r))"
proof -
  obtain a b c where ls: "ls = [a, b, c]" using assms by (auto simp: length_Suc_conv numeral_3_eq_3)
  show "length (al_lanes (admit_lanes ls shape now r)) = 3" "length (al_sent (admit_lanes ls shape now r)) = 3"
    by (simp_all add: admit_lanes_def ls lane_numbers numeral_2_eq_2)
  show "al_lanes (admit_lanes ls shape now r) ! i = snd (admit_lane (ls ! i) (lane_plan shape i) now r)" if "i < 3"
    using less_3_cases [OF that] by (auto simp: admit_lanes_def lane_plan_def ls lane_numbers numeral_2_eq_2)
  show "al_sent (admit_lanes ls shape now r) ! i = fst (fst (admit_lane (ls ! i) (lane_plan shape i) now r))" if "i < 3"
    using less_3_cases [OF that] by (auto simp: admit_lanes_def lane_plan_def ls lane_numbers numeral_2_eq_2 numeral_3_eq_3)
qed

definition lane_ok :: "i64 \<Rightarrow> lane_state \<Rightarrow> bool" where
  "lane_ok until lane \<longleftrightarrow> (case lane_digest lane of None \<Rightarrow> True | Some _ \<Rightarrow> 0 \<le> sprayed_at_ms lane \<and> sprayed_at_ms lane \<le> until)"

definition peer_ok :: "i64 \<Rightarrow> spray_peer \<Rightarrow> bool" where
  "peer_ok now p \<longleftrightarrow> 0 \<le> peer_touched_at_ms p \<and> peer_touched_at_ms p \<le> now \<and>
     (ever_sprayed p \<longrightarrow> 0 \<le> last_spray_at_ms p \<and> last_spray_at_ms p \<le> peer_touched_at_ms p) \<and>
     length (lanes p) = 3 \<and> list_all (lane_ok (peer_touched_at_ms p)) (lanes p)"

definition prune_peer :: "i64 \<Rightarrow> spray_peer option \<Rightarrow> spray_peer option" where
  "prune_peer now entry = retain (\<lambda>p. i64_sub now (peer_touched_at_ms p) \<le> 7200000) (\<lambda>_. entry) ()"

lemma prune_peers: "spray_peers (spray_prune st now 7200000) p = prune_peer now (spray_peers st p)"
  by (simp add: spray_prune_def prune_peer_def retain_def)

definition forget_journal :: "spray_peer option \<Rightarrow> spray_peer option" where
  "forget_journal entry = map_option (\<lambda>p. p\<lparr>journaled_quiet_rounds := None\<rparr>) entry"

fun peer_next :: "i64 \<Rightarrow> spray_op \<Rightarrow> bytes \<Rightarrow> spray_peer option \<Rightarrow> spray_peer option" where
  "peer_next now (MaySpray p l trigger) x entry =
     (if p = x then Some ((or_insert (prune_peer now entry) (spray_peer_new now))\<lparr>peer_touched_at_ms := now\<rparr>)
      else prune_peer now entry)"
| "peer_next now (AdmitPlan p l shape) x entry =
     (if p = x
      then let m = or_insert (prune_peer now entry) (spray_peer_new now);
               acc = admit_lanes (lanes m) shape now 1800000
           in Some (m\<lparr>peer_touched_at_ms := now, last_spray_at_ms := now, lanes := al_lanes acc,
                 quiet_rounds := (if al_charged acc > 0 then min (quiet_rounds m + 1) (2 ^ 32 - 1) else quiet_rounds m)\<rparr>)
      else prune_peer now entry)"
| "peer_next now (DigestSent p l) x entry =
     (if p = x
      then Some ((or_insert (prune_peer now entry) (spray_peer_new now))
        \<lparr>last_spray_at_ms := now, exchange_open_until_ms := i64_add now 15000, peer_touched_at_ms := now\<rparr>)
      else prune_peer now entry)"
| "peer_next now (DigestOnlySent p l) x entry =
     (if p = x
      then Some ((or_insert (prune_peer now entry) (spray_peer_new now))
        \<lparr>exchange_open_until_ms := i64_add now 15000, peer_touched_at_ms := now\<rparr>)
      else prune_peer now entry)"
| "peer_next now (BytesQueued l n) x entry = (if n = 0 then entry else prune_peer now entry)"
| "peer_next now (ReceiptProgress p) x entry =
     (if p = x
      then Some ((or_insert (prune_peer now entry) (spray_peer_new now))\<lparr>quiet_rounds := 0, peer_touched_at_ms := now\<rparr>)
      else prune_peer now entry)"
| "peer_next now (AllowanceAsked l) x entry = entry"
| "peer_next now (LinkClosed l) x entry = prune_peer now entry"
| "peer_next now Clear x entry = None"

lemma step_peer_next:
  assumes cfg: "config pol = spray_config_default"
  shows "forget_journal (spray_peers (sched (spray_step pol (now, op))) x) =
    forget_journal (peer_next now op x (spray_peers (sched pol) x))"
proof (cases op)
  case (MaySpray p l trigger)
  obtain q j where "sched (snd (decide_spray pol p l trigger now)) = met pol p l now q j"
    by (rule decide_spray_cases [of pol p now l trigger]) blast+
  then show ?thesis using MaySpray
    by (auto simp: may_spray_def case_prod_beta Let_def met_def met_peer_def pruned_def cfg prune_peers forget_journal_def)
qed (auto simp: note_digest_sent_def note_digest_only_sent_def open_exchange_def note_bytes_queued_def note_receipt_progress_def
    link_allowance_bytes_def note_link_closed_def allowance_def debit_def Let_def cfg prune_peers forget_journal_def admit_plan_def spray_clear_def)

lemma forget_journalD:
  assumes "forget_journal a = forget_journal b" "a = Some p"
  shows "\<exists>q. b = Some q \<and> last_spray_at_ms q = last_spray_at_ms p \<and> exchange_open_until_ms q = exchange_open_until_ms p \<and>
    quiet_rounds q = quiet_rounds p \<and> lanes q = lanes p \<and> peer_touched_at_ms q = peer_touched_at_ms p"
proof -
  obtain q where q: "b = Some q" "p\<lparr>journaled_quiet_rounds := None\<rparr> = q\<lparr>journaled_quiet_rounds := None\<rparr>"
    using assms by (cases b) (auto simp: forget_journal_def)
  then show ?thesis by (cases p; cases q) simp
qed

subsection \<open>The history of one peer\<close>

fun sprays :: "spray_op \<Rightarrow> bytes \<Rightarrow> bool" where
  "sprays (AdmitPlan p l shape) x \<longleftrightarrow> p = x"
| "sprays (DigestSent p l) x \<longleftrightarrow> p = x"
| "sprays _ x \<longleftrightarrow> False"

fun digests :: "spray_op \<Rightarrow> bytes \<Rightarrow> bool" where
  "digests (DigestSent p l) x \<longleftrightarrow> p = x"
| "digests (DigestOnlySent p l) x \<longleftrightarrow> p = x"
| "digests _ x \<longleftrightarrow> False"

definition times :: "(spray_op \<Rightarrow> bytes \<Rightarrow> bool) \<Rightarrow> (i64 \<times> spray_op) list \<Rightarrow> bytes \<Rightarrow> i64 set" where
  "times kind es x = {t. \<exists>op. (t, op) \<in> set es \<and> kind op x}"

lemma times_snoc: "times kind (es @ [(now, op)]) x = times kind es x \<union> (if kind op x then {now} else {})"
  by (auto simp: times_def)

definition peer_history :: "i64 \<Rightarrow> i64 set \<Rightarrow> i64 set \<Rightarrow> spray_peer option \<Rightarrow> bool" where
  "peer_history now S D entry \<longleftrightarrow>
     (\<forall>t\<in>S. now - t > 7200000 \<or> (\<exists>p. entry = Some p \<and> ever_sprayed p \<and> t \<le> last_spray_at_ms p)) \<and>
     (\<forall>p. entry = Some p \<longrightarrow> peer_ok now p \<and> (exchange_open_until_ms p = i64_min \<or> exchange_open_until_ms p \<in> (+) 15000 ` D))"

lemma peer_ok_later: "peer_ok now p \<Longrightarrow> now \<le> later \<Longrightarrow> peer_ok later p"
  by (simp add: peer_ok_def)

lemma peer_history_later: "peer_history now S D entry \<Longrightarrow> now \<le> later \<Longrightarrow> peer_history later S D entry"
  by (auto simp: peer_history_def intro: peer_ok_later)

lemma peer_history_prune:
  assumes "peer_history now S D entry" "0 \<le> now" "now \<le> CLOCK_LIMIT"
  shows "peer_history now S D (prune_peer now entry)"
proof (cases entry)
  case (Some p)
  then have p: "peer_ok now p" using assms(1) by (simp add: peer_history_def)
  then have "i64_sub now (peer_touched_at_ms p) = now - peer_touched_at_ms p"
    using assms(2,3) by (intro clock_sub) (auto simp: peer_ok_def)
  moreover have "now - t > 7200000" if "t \<in> S" "now - peer_touched_at_ms p > 7200000" for t
    using that assms(1) Some p unfolding peer_history_def peer_ok_def by fastforce
  ultimately show ?thesis using assms(1) Some by (auto simp: prune_peer_def retain_def peer_history_def)
qed (use assms(1) in \<open>simp add: prune_peer_def retain_def\<close>)

lemma peer_history_insert:
  assumes "peer_history now S D entry" "0 \<le> now"
  shows "peer_history now S D (Some (or_insert entry (spray_peer_new now)))"
  using assms
  by (auto simp: peer_history_def or_insert_def spray_peer_new_def ever_sprayed_def peer_ok_def lane_ok_def lane_default_def
      list_all_iff split: option.split)

lemma admit_lane_ok:
  "lane_ok u lane \<Longrightarrow> 0 \<le> now \<Longrightarrow> u \<le> now \<Longrightarrow> lane_ok now (snd (admit_lane lane plan now r))"
  by (auto simp: admit_lane_def lane_ok_def Let_def split: option.splits)

lemma peer_history_step:
  assumes hist: "peer_history t S D entry" and now: "0 \<le> t" "t \<le> now" "now \<le> CLOCK_LIMIT" and op: "op \<noteq> Clear"
  shows "peer_history now (S \<union> (if sprays op x then {now} else {})) (D \<union> (if digests op x then {now} else {}))
    (peer_next now op x entry)"
proof -
  have h: "peer_history now S D entry" by (rule peer_history_later [OF hist now(2)])
  have pr: "peer_history now S D (prune_peer now entry)" using peer_history_prune [OF h _ now(3)] now by simp
  define m where "m = or_insert (prune_peer now entry) (spray_peer_new now)"
  have m: "peer_history now S D (Some m)" using peer_history_insert [OF pr] now by (simp add: m_def)
  have le: "u \<le> now" if "u \<in> S" for u
    using m that unfolding peer_history_def peer_ok_def by fastforce
  have add: "i64_add now 15000 = now + 15000" using now by (simp add: i64_add_def CLOCK_LIMIT_def sat_i64_def i64_bound_defs)
  have mok: "peer_ok now m" using m by (simp add: peer_history_def)
  show ?thesis
  proof (cases op)
    case (AdmitPlan p l shape)
    have len: "length (lanes m) = 3" using mok by (simp add: peer_ok_def)
    note adm = admit_lanes_nth [OF len]
    have "list_all (lane_ok now) (al_lanes (admit_lanes (lanes m) shape now 1800000))"
      unfolding list_all_length adm(1)
    proof (intro allI impI)
      fix i :: nat assume "i < 3"
      then show "lane_ok now (al_lanes (admit_lanes (lanes m) shape now 1800000) ! i)"
        using mok now admit_lane_ok [of "peer_touched_at_ms m" "lanes m ! i" now]
        by (simp add: adm(3) peer_ok_def list_all_length)
    qed
    then show ?thesis using AdmitPlan pr m mok le now adm(1)
      by (auto simp: Let_def m_def [symmetric] peer_history_def peer_ok_def ever_sprayed_def i64_bound_defs)
  qed (use op pr h m mok le now add in
      \<open>auto simp: m_def [symmetric] peer_history_def peer_ok_def ever_sprayed_def i64_bound_defs list_all_length lane_ok_def split: option.splits\<close>)
qed

lemma peer_history_forget:
  assumes "forget_journal a = forget_journal b" "peer_history now S D b"
  shows "peer_history now S D a"
proof -
  have b: "\<exists>q. b = Some q \<and> last_spray_at_ms q = last_spray_at_ms p \<and> exchange_open_until_ms q = exchange_open_until_ms p \<and>
      lanes q = lanes p \<and> peer_touched_at_ms q = peer_touched_at_ms p" if "a = Some p" for p
    using forget_journalD [OF assms(1) that] by blast
  have a: "\<exists>p. a = Some p \<and> last_spray_at_ms p = last_spray_at_ms q" if "b = Some q" for q
    using forget_journalD [OF assms(1) [symmetric] that] by blast
  show ?thesis
    unfolding peer_history_def
  proof (intro conjI ballI allI impI)
    fix t assume "t \<in> S"
    then show "now - t > 7200000 \<or> (\<exists>p. a = Some p \<and> ever_sprayed p \<and> t \<le> last_spray_at_ms p)"
      using assms(2) a unfolding peer_history_def ever_sprayed_def by metis
  next
    fix p assume "a = Some p"
    from b [OF this] show "peer_ok now p" "exchange_open_until_ms p = i64_min \<or> exchange_open_until_ms p \<in> (+) 15000 ` D"
      using assms(2) by (auto simp: peer_history_def peer_ok_def ever_sprayed_def)
  qed
qed

lemma clock_ok_snoc:
  "clock_ok a (es @ [(t, op)]) until \<longleftrightarrow> clock_ok a es t \<and> t \<le> until \<and> until \<le> CLOCK_LIMIT"
proof (induction es arbitrary: a)
  case (Cons e es)
  then show ?case by (cases e) simp
qed auto

lemma reachable_history:
  "clock_ok 0 es until \<Longrightarrow> Clear \<notin> snd ` set es \<Longrightarrow>
   peer_history until (times sprays es x) (times digests es x)
     (spray_peers (sched (foldl spray_step (spray_new spray_config_default) es)) x)"
proof (induction es arbitrary: until rule: rev_induct)
  case Nil
  then show ?case by (simp add: peer_history_def times_def spray_new_def)
next
  case (snoc e es)
  obtain now op where e: "e = (now, op)" by (cases e)
  let ?pol = "foldl spray_step (spray_new spray_config_default) es"
  have now: "clock_ok 0 es now" "now \<le> until" "until \<le> CLOCK_LIMIT" using snoc.prems(1) by (simp_all add: e clock_ok_snoc)
  have "peer_history now (times sprays es x) (times digests es x) (spray_peers (sched ?pol) x)"
    using snoc.prems(2) by (intro snoc.IH now(1)) auto
  from peer_history_step [OF this, of now op x] now snoc.prems(2) clock_ok_range [OF now(1)]
  have "peer_history now (times sprays (es @ [(now, op)]) x) (times digests (es @ [(now, op)]) x)
      (peer_next now op x (spray_peers (sched ?pol) x))"
    by (auto simp: e times_snoc)
  from peer_history_later [OF peer_history_forget [OF step_peer_next this] now(2)] show ?case by (simp add: e)
qed

lemma interval_bounds:
  "interval_for spray_config_default trigger p \<ge> (if trigger = MaintenanceTrigger then 300000 else 60000)"
  "interval_for spray_config_default trigger p \<le> 1800000"
  by (auto simp: interval_for_def Let_def REDIGEST_MAX_INTERVAL_MS_def)

text \<open>
  Reconnect churn cannot raise the rate at which a peer is sprayed. On every run since the mesh
  started, whatever links come and go and whatever a shell claims the occasion to be: when the gate lets a
  spray through, every earlier digest or admitted plan for that peer lies at least a minute back (three for a maintenance
  tick); the one exception is the answer to the peer's digest within fifteen seconds of a digest sent to it, which
  is the rest of one exchange.
\<close>

theorem reconnect_cadence:
  assumes pol: "pol = foldl spray_step (spray_new spray_config_default) es" and clock: "clock_ok 0 es now" and run: "Clear \<notin> snd ` set es"
    and gate: "allow (fst (fst (decide_spray pol peer link trigger now)))"
  shows "(\<forall>t\<in>times sprays es peer. now - t \<ge> (if trigger = MaintenanceTrigger then REDIGEST_MIN_INTERVAL_MS else RECONNECT_SPRAY_MIN_INTERVAL_MS)) \<or>
    (trigger = PeerDigestTrigger \<and> (\<exists>t\<in>times digests es peer. now < t + SPRAY_EXCHANGE_WINDOW_MS))"
proof -
  have cfg: "config pol = spray_config_default" by (simp add: pol)
  have now: "0 \<le> now" "now \<le> CLOCK_LIMIT" using clock_ok_range [OF clock] by auto
  let ?S = "times sprays es peer" and ?D = "times digests es peer" and ?m = "met_peer pol peer now"
  have "peer_history now ?S ?D (Some (or_insert (prune_peer now (spray_peers (sched pol) peer)) (spray_peer_new now)))"
    unfolding pol by (intro peer_history_insert peer_history_prune reachable_history clock run now)
  then have h: "peer_history now ?S ?D (Some ?m)"
    by (auto simp: met_peer_def pruned_def cfg prune_peers peer_history_def peer_ok_def ever_sprayed_def list_all_length lane_ok_def
        split: option.splits)
  have since: "now - t > 7200000 \<or> since_last_spray_ms ?m now \<le> now - t" if "t \<in> ?S" for t
  proof -
    from h that have "now - t > 7200000 \<or> (ever_sprayed ?m \<and> t \<le> last_spray_at_ms ?m)" by (auto simp: peer_history_def)
    then show ?thesis using h now by (auto simp: since_last_spray_ms_def peer_history_def peer_ok_def clock_sub)
  qed
  obtain reason where cad: "cadence spray_config_default ?m link trigger now = (True, reason)"
    using gate by (cases rule: decide_spray_cases [of pol peer now link trigger]) (auto simp: gate_denied_def cfg)
  consider (first) "trigger = FirstContactTrigger" "1800000 \<le> since_last_spray_ms ?m now"
    | (exchange) "trigger = PeerDigestTrigger" "now < exchange_open_until_ms ?m"
    | (tick) "trigger = MaintenanceTrigger" "\<not> ever_sprayed ?m \<or> should_redigest now (last_spray_at_ms ?m) (jitter_seed link)"
    | (due) "interval_for spray_config_default trigger ?m \<le> since_last_spray_ms ?m now"
    using cad by (auto simp: cadence_def Let_def split: if_splits)
  then show ?thesis
  proof cases
    case first
    then show ?thesis using since by (force simp: spray_limits)
  next
    case exchange
    then have "exchange_open_until_ms ?m \<in> (+) 15000 ` ?D" using h now by (auto simp: peer_history_def i64_bound_defs)
    then show ?thesis using exchange by (auto simp: spray_limits add.commute)
  next
    case tick
    have "180000 \<le> now - t" if "t \<in> ?S" for t
      using tick(2) h that redigest_window(1) [of now "last_spray_at_ms ?m" "jitter_seed link"]
      by (force simp: peer_history_def spray_limits)
    with tick show ?thesis by (simp add: spray_limits)
  next
    case due
    then show ?thesis using since interval_bounds(1) [of trigger ?m] by (force simp: spray_limits)
  qed
qed

section \<open>The log of offers\<close>

text \<open>
  The abstract state of the suppression is the log of what was offered: time, peer, lane and the digest of the set. The
  policy keeps per peer and lane one entry of it, and forgets peers it has not heard of for two hours.
\<close>

type_synonym offer = "i64 \<times> bytes \<times> nat \<times> u64"

definition lane_admitted :: "spray_admission \<Rightarrow> nat \<Rightarrow> bool" where
  "lane_admitted a i \<longleftrightarrow> (if i = LANE_CARRIED then send_carried a else if i = LANE_OWN_OUTBOUND then send_own_outbound a
     else send_own_receipts a)"

fun offers_of :: "spray_policy \<Rightarrow> i64 \<times> spray_op \<Rightarrow> offer list" where
  "offers_of pol (now, AdmitPlan p l shape) =
     map (\<lambda>i. (now, p, i, set_digest (lane_plan shape i)))
       (filter (lane_admitted (fst (fst (admit_plan no_ring pol p l shape now)))) [0, 1, 2])"
| "offers_of pol _ = []"

fun offer_log :: "spray_policy \<Rightarrow> (i64 \<times> spray_op) list \<Rightarrow> offer list" where
  "offer_log pol [] = []"
| "offer_log pol (e # es) = offers_of pol e @ offer_log (spray_step pol e) es"

definition last_offer :: "offer list \<Rightarrow> bytes \<Rightarrow> nat \<Rightarrow> (u64 \<times> i64) option" where
  "last_offer log x i = foldl (\<lambda>found (t, p, j, d). if p = x \<and> j = i then Some (d, t) else found) None log"

lemma offer_log_snoc: "offer_log pol (es @ [e]) = offer_log pol es @ offers_of (foldl spray_step pol es) e"
  by (induction es arbitrary: pol) simp_all

lemma last_offer_append:
  "last_offer (log @ later) x i = (case last_offer later x i of None \<Rightarrow> last_offer log x i | Some f \<Rightarrow> Some f)"
proof (induction later rule: rev_induct)
  case (snoc o' os)
  then show ?case by (cases o') (simp add: last_offer_def)
qed (simp add: last_offer_def)

definition lane_view :: "spray_peer option \<Rightarrow> nat \<Rightarrow> (u64 \<times> i64) option" where
  "lane_view entry i =
     (case entry of None \<Rightarrow> None
      | Some p \<Rightarrow> map_option (\<lambda>d. (d, sprayed_at_ms (lanes p ! i))) (lane_digest (lanes p ! i)))"

definition view_matches :: "i64 \<Rightarrow> (u64 \<times> i64) option \<Rightarrow> (u64 \<times> i64) option \<Rightarrow> bool" where
  "view_matches now found logged \<longleftrightarrow>
     found = logged \<or> (found = None \<and> (\<exists>d t. logged = Some (d, t) \<and> now - t > 7200000))"

lemma view_matches_later: "view_matches now a b \<Longrightarrow> now \<le> later \<Longrightarrow> view_matches later a b"
  by (auto simp: view_matches_def)

lemma lane_view_prune:
  assumes "\<And>p. entry = Some p \<Longrightarrow> peer_ok now p" "0 \<le> now" "now \<le> CLOCK_LIMIT" "i < 3"
    and "view_matches now (lane_view entry i) logged"
  shows "view_matches now (lane_view (prune_peer now entry) i) logged"
proof (cases entry)
  case (Some p)
  have p: "peer_ok now p" using assms(1) Some by simp
  then have "i64_sub now (peer_touched_at_ms p) = now - peer_touched_at_ms p"
    using assms(2,3) by (intro clock_sub) (auto simp: peer_ok_def)
  moreover have "lane_ok (peer_touched_at_ms p) (lanes p ! i)" using p assms(4) by (auto simp: peer_ok_def list_all_length)
  ultimately show ?thesis
    using assms(5) Some by (auto simp: prune_peer_def retain_def lane_view_def view_matches_def lane_ok_def split: option.splits)
qed (use assms(5) in \<open>simp add: prune_peer_def retain_def\<close>)

lemma lane_view_insert: "i < 3 \<Longrightarrow> lane_view (Some (or_insert entry (spray_peer_new now))) i = lane_view entry i"
  by (auto simp: lane_view_def or_insert_def spray_peer_new_def lane_default_def split: option.split)

lemma admit_lane_sent:
  assumes "lane_ok u lane" "u \<le> now" "now \<le> CLOCK_LIMIT"
  shows "fst (fst (admit_lane lane plan now 1800000)) \<longleftrightarrow>
      lane_bytes plan \<noteq> 0 \<and> \<not> (lane_digest lane = Some (set_digest plan) \<and> now - sprayed_at_ms lane < 1800000)"
    "snd (admit_lane lane plan now 1800000) =
      (if fst (fst (admit_lane lane plan now 1800000)) then lane\<lparr>lane_digest := Some (set_digest plan), sprayed_at_ms := now\<rparr> else lane)"
proof -
  have "lane_digest lane = Some d \<Longrightarrow> sprayed_at_ms lane \<noteq> i64_min \<and> i64_sub now (sprayed_at_ms lane) = now - sprayed_at_ms lane" for d
    using assms by (auto simp: lane_ok_def i64_bound_defs intro!: clock_sub)
  then show "fst (fst (admit_lane lane plan now 1800000)) \<longleftrightarrow>
      lane_bytes plan \<noteq> 0 \<and> \<not> (lane_digest lane = Some (set_digest plan) \<and> now - sprayed_at_ms lane < 1800000)"
    by (auto simp: admit_lane_def Let_def)
  show "snd (admit_lane lane plan now 1800000) =
      (if fst (fst (admit_lane lane plan now 1800000)) then lane\<lparr>lane_digest := Some (set_digest plan), sprayed_at_ms := now\<rparr> else lane)"
    by (auto simp: admit_lane_def Let_def)
qed

lemma plan_admitted:
  assumes cfg: "config pol = spray_config_default" and i: "i < 3"
    and len: "length (lanes (or_insert (prune_peer now (spray_peers (sched pol) p)) (spray_peer_new now))) = 3"
  shows "lane_admitted (fst (fst (admit_plan no_ring pol p l shape now))) i \<longleftrightarrow>
    fst (fst (admit_lane (lanes (or_insert (prune_peer now (spray_peers (sched pol) p)) (spray_peer_new now)) ! i)
      (lane_plan shape i) now 1800000))"
  unfolding admit_lanes_nth(4) [OF len i, symmetric]
  using less_3_cases [OF i]
  by (auto simp: admit_plan_def Let_def cfg prune_peers lane_admitted_def admission_of_def lane_numbers)

lemma offers_last:
  "i < 3 \<Longrightarrow> last_offer (offers_of pol (now, AdmitPlan p l shape)) x i =
     (if p = x \<and> lane_admitted (fst (fst (admit_plan no_ring pol p l shape now))) i then Some (set_digest (lane_plan shape i), now) else None)"
  using less_3_cases [of i] by (auto simp: last_offer_def)

lemma lane_view_step:
  assumes cfg: "config pol = spray_config_default" and hist: "peer_history now S D (spray_peers (sched pol) x)"
    and now: "0 \<le> now" "now \<le> CLOCK_LIMIT" and op: "op \<noteq> Clear" and i: "i < 3"
    and view: "view_matches now (lane_view (spray_peers (sched pol) x) i) logged"
  shows "view_matches now (lane_view (peer_next now op x (spray_peers (sched pol) x)) i)
    (case last_offer (offers_of pol (now, op)) x i of None \<Rightarrow> logged | Some f \<Rightarrow> Some f)"
proof -
  let ?e = "spray_peers (sched pol) x"
  define m where "m = or_insert (prune_peer now ?e) (spray_peer_new now)"
  have ok: "peer_ok now p" if "?e = Some p" for p using hist that by (simp add: peer_history_def)
  have pv: "view_matches now (lane_view (prune_peer now ?e) i) logged" by (rule lane_view_prune [OF ok now i view])
  then have mv: "view_matches now (lane_view (Some m) i) logged" by (simp add: m_def lane_view_insert i)
  have mok: "peer_ok now m"
    using peer_history_insert [OF peer_history_prune [OF hist now] now(1)] by (simp add: peer_history_def m_def)
  show ?thesis
  proof (cases op)
    case (AdmitPlan p l shape)
    show ?thesis
    proof (cases "p = x")
      case True
      have len: "length (lanes m) = 3" and lane: "lane_ok (peer_touched_at_ms m) (lanes m ! i)" "peer_touched_at_ms m \<le> now"
        using mok i by (auto simp: peer_ok_def list_all_length)
      have "lane_admitted (fst (fst (admit_plan no_ring pol p l shape now))) i \<longleftrightarrow>
          fst (fst (admit_lane (lanes m ! i) (lane_plan shape i) now 1800000))"
        using plan_admitted [OF cfg i, of now p l shape] len True by (simp add: m_def)
      then show ?thesis
        using AdmitPlan True mv admit_lane_sent(2) [OF lane now(2)]
        by (auto simp: offers_last [OF i] Let_def m_def [symmetric] lane_view_def admit_lanes_nth(3) [OF len i] view_matches_def
            simp del: offers_of.simps)
    qed (use AdmitPlan pv in \<open>simp add: offers_last [OF i] del: offers_of.simps\<close>)
  qed (use op view pv mv in \<open>auto simp: last_offer_def m_def [symmetric] lane_view_def\<close>)
qed

lemma lane_view_forget: "forget_journal a = forget_journal b \<Longrightarrow> lane_view a i = lane_view b i"
  by (cases a; cases b) (auto simp: lane_view_def forget_journal_def dest: arg_cong [of _ _ lanes])

lemma reachable_lanes:
  "clock_ok 0 es until \<Longrightarrow> Clear \<notin> snd ` set es \<Longrightarrow> i < 3 \<Longrightarrow>
   view_matches until (lane_view (spray_peers (sched (foldl spray_step (spray_new spray_config_default) es)) x) i)
     (last_offer (offer_log (spray_new spray_config_default) es) x i)"
proof (induction es arbitrary: until rule: rev_induct)
  case Nil
  then show ?case by (simp add: view_matches_def lane_view_def spray_new_def last_offer_def)
next
  case (snoc e es)
  obtain now op where e: "e = (now, op)" by (cases e)
  let ?pol = "foldl spray_step (spray_new spray_config_default) es"
  have now: "clock_ok 0 es now" "now \<le> until" "until \<le> CLOCK_LIMIT" using snoc.prems(1) by (simp_all add: e clock_ok_snoc)
  have run: "Clear \<notin> snd ` set es" "op \<noteq> Clear" using snoc.prems(2) by (auto simp: e)
  have lim: "0 \<le> now" "now \<le> CLOCK_LIMIT" using clock_ok_range [OF now(1)] by auto
  from lane_view_step [OF _ reachable_history [OF now(1) run(1)] lim run(2) snoc.prems(3) snoc.IH [OF now(1) run(1) snoc.prems(3)]]
  show ?case
    using view_matches_later [OF _ now(2)] lane_view_forget [OF step_peer_next]
    by (simp add: e offer_log_snoc last_offer_append)
qed

text \<open>
  Claim C26. A lane is withheld exactly while it repeats a recent offer. On every run since the mesh started, a plan's
  lane is put on the radio if and only if it selected something and the last set offered to that peer on that
  lane, as the log of all offers has it, is another one or lies at least the re-offer interval back. What the policy keeps per
  peer, and that it forgets peers it has not heard of, never shows.
\<close>

theorem lane_offers_refine_log:
  assumes pol: "pol = foldl spray_step (spray_new spray_config_default) es" and clock: "clock_ok 0 es now" and run: "Clear \<notin> snd ` set es"
    and lane: "i \<in> {LANE_CARRIED, LANE_OWN_OUTBOUND, LANE_OWN_RECEIPTS}"
  shows "lane_admitted (fst (fst (admit_plan no_ring pol peer link shape now))) i \<longleftrightarrow>
    lane_bytes (lane_plan shape i) \<noteq> 0 \<and>
    \<not> (\<exists>t. last_offer (offer_log (spray_new spray_config_default) es) peer i = Some (set_digest (lane_plan shape i), t) \<and>
         now - t < IDENTICAL_SET_REOFFER_INTERVAL_MS)"
proof -
  let ?e = "spray_peers (sched pol) peer" and ?L = "last_offer (offer_log (spray_new spray_config_default) es) peer i"
  define m where "m = or_insert (prune_peer now ?e) (spray_peer_new now)"
  have i: "i < 3" using lane by (auto simp: lane_numbers)
  have now: "0 \<le> now" "now \<le> CLOCK_LIMIT" using clock_ok_range [OF clock] by auto
  have hist: "peer_history now (times sprays es peer) (times digests es peer) ?e" unfolding pol by (rule reachable_history [OF clock run])
  have mok: "peer_ok now m"
    using peer_history_insert [OF peer_history_prune [OF hist now] now(1)] by (simp add: peer_history_def m_def)
  then have len: "length (lanes m) = 3" and ok: "lane_ok (peer_touched_at_ms m) (lanes m ! i)" "peer_touched_at_ms m \<le> now"
    using i by (auto simp: peer_ok_def list_all_length)
  have "view_matches now (lane_view (prune_peer now ?e) i) ?L"
    using lane_view_prune [OF _ now i reachable_lanes [OF clock run i]] hist unfolding pol by (simp add: peer_history_def)
  then have "view_matches now (lane_view (Some m) i) ?L" by (simp add: m_def lane_view_insert i)
  moreover have "lane_admitted (fst (fst (admit_plan no_ring pol peer link shape now))) i \<longleftrightarrow>
      fst (fst (admit_lane (lanes m ! i) (lane_plan shape i) now 1800000))"
    using plan_admitted [OF _ i, of pol now peer link shape] len by (simp add: m_def pol)
  ultimately show ?thesis
    using admit_lane_sent(1) [OF ok now(2)] by (auto simp: view_matches_def lane_view_def spray_limits)
qed

section \<open>Asking again\<close>

lemma decide_step: "snd (decide_spray pol p l trigger now) = spray_step pol (now, MaySpray p l trigger)"
  by (simp add: may_spray_def case_prod_beta Let_def)

definition same_cadence :: "spray_peer \<Rightarrow> spray_peer \<Rightarrow> bool" where
  "same_cadence p q \<longleftrightarrow> last_spray_at_ms q = last_spray_at_ms p \<and> quiet_rounds q = quiet_rounds p \<and>
     exchange_open_until_ms q = exchange_open_until_ms p"

lemma met_peer_again:
  assumes cfg: "config pol = spray_config_default" and t: "0 \<le> now" "now \<le> later" "later - now \<le> 7200000" "later \<le> CLOCK_LIMIT"
  shows "same_cadence (met_peer pol p now) (met_peer (snd (decide_spray pol p l trigger now)) p later)"
proof -
  obtain q j where "sched (snd (decide_spray pol p l trigger now)) = met pol p l now q j"
    by (rule decide_spray_cases [of pol p now l trigger]) blast+
  moreover have "config (snd (decide_spray pol p l trigger now)) = spray_config_default" by (simp only: decide_step config_step cfg)
  moreover have "i64_sub later now = later - now" using t by (intro clock_sub) auto
  ultimately show ?thesis
    using t(3) by (auto simp: met_peer_def pruned_def spray_prune_def retain_def met_def or_insert_def same_cadence_def)
qed

lemma cadence_after:
  assumes denied: "cadence spray_config_default p l trigger now = (False, reason)" and ok: "peer_ok now p" and same: "same_cadence p q"
    and later: "now + max (i64_sub (interval_for spray_config_default trigger p) (since_last_spray_ms p now)) 1 \<le> later" "later \<le> CLOCK_LIMIT"
  shows "fst (cadence spray_config_default q l trigger later)"
proof -
  have p: "ever_sprayed p"
    using denied interval_bounds(2) [of trigger p]
    by (auto simp: cadence_def Let_def since_last_spray_ms_def i64_bound_defs split: if_splits)
  have last: "0 \<le> last_spray_at_ms p" "last_spray_at_ms p \<le> now" using ok p by (auto simp: peer_ok_def)
  then have now: "0 \<le> now" "now \<le> CLOCK_LIMIT" using later by linarith+
  have since: "since_last_spray_ms p now = now - last_spray_at_ms p" "since_last_spray_ms q later = later - last_spray_at_ms p"
    using p last now later same by (simp_all add: since_last_spray_ms_def ever_sprayed_def same_cadence_def clock_sub)
  have iv: "interval_for spray_config_default trigger q = interval_for spray_config_default trigger p"
    using same by (simp add: interval_for_def same_cadence_def)
  have "i64_sub (interval_for spray_config_default trigger p) (since_last_spray_ms p now) =
      interval_for spray_config_default trigger p - (now - last_spray_at_ms p)"
    unfolding since using last now interval_bounds [of trigger p]
    by (intro clock_sub) (auto simp: CLOCK_LIMIT_def split: if_splits)
  then have due: "interval_for spray_config_default trigger p \<le> later - last_spray_at_ms p" using later(1) by linarith
  have "should_redigest later (last_spray_at_ms q) seed" if "trigger = MaintenanceTrigger" "quiet_rounds q = 0" for seed
    using due interval_bounds(1) [of trigger p] that same
    by (intro redigest_window(2)) (simp add: spray_limits same_cadence_def)
  then show ?thesis using due since(2) iv by (auto simp: cadence_def Let_def)
qed

lemma touched_again:
  assumes cfg: "config pol = spray_config_default" and ok: "\<And>l. entry_ok now (spray_links (sched pol) l)"
    and t: "0 \<le> now" "now \<le> later" "later \<le> CLOCK_LIMIT"
  shows "int (tokens (touched_link (snd (decide_spray pol p l trigger now)) l later)) \<ge>
    min 589824 (int (tokens (touched_link pol l now)) + 24576 * (later - now) div 1000)"
proof -
  let ?L = "touched_link pol l now" and ?pol = "snd (decide_spray pol p l trigger now)"
  have Lok: "link_ok now ?L"
    using link_after_ok(1) or_insert_ok(1) prune_entry_ok ok t by (simp add: touched_link_def cfg pruned_def prune_links)
  obtain q j where st: "sched ?pol = met pol p l now q j" by (rule decide_spray_cases [of pol p now l trigger]) blast+
  have cfg': "config ?pol = spray_config_default" by (simp only: decide_step config_step cfg)
  have e: "spray_links (sched ?pol) l = Some (?L\<lparr>journaled_exhausted := j\<rparr>)" by (simp add: st met_def)
  have eok: "entry_ok later (spray_links (sched ?pol) l)"
    using Lok t by (auto simp: e entry_ok_def link_ok_def)
  have "tokens (touched_link ?pol l later) = available later (spray_links (sched ?pol) l)"
    using available_prune(2) [OF eok] t by (simp add: touched_link_def cfg' pruned_def prune_links available_def)
  moreover have "int (available later (spray_links (sched ?pol) l)) = credit later (spray_links (sched ?pol) l) div 1000"
    using available_credit [OF eok] t by simp
  moreover have "min 589824000 (1000 * int (tokens ?L) + 24576 * (later - now)) \<le> credit later (spray_links (sched ?pol) l)"
    using Lok by (auto simp: e credit_def link_ok_def min_def)
  then have "min 589824000 (1000 * int (tokens ?L) + 24576 * (later - now)) div 1000 \<le> credit later (spray_links (sched ?pol) l) div 1000"
    by (rule zdiv_mono1) simp
  moreover have "min 589824000 (1000 * int (tokens ?L) + 24576 * (later - now)) div 1000 =
      min 589824 (int (tokens ?L) + 24576 * (later - now) div 1000)"
    by (subst floor_min [symmetric, of "24576 * (later - now) div 1000"]) (auto simp: min.commute)
  ultimately show ?thesis by simp
qed

lemma accrues:
  assumes "T < 16384"
  shows "1 \<le> max (ms_to_accrue spray_config_default T 16384) 1" "max (ms_to_accrue spray_config_default T 16384) 1 \<le> 667"
    "16384 \<le> int T + 24576 * (max (ms_to_accrue spray_config_default T 16384) 1) div 1000"
proof -
  define ms where "ms = ((16384 - T) * 1000 + 24575) div 24576"
  have "ms \<le> 667" using div_le_mono [of "(16384 - T) * 1000 + 24575" 16408575 24576] by (simp add: ms_def)
  have "(16384 - T) * 1000 + 24575 = 24576 * ms + ((16384 - T) * 1000 + 24575) mod 24576" by (simp add: ms_def)
  moreover have "((16384 - T) * 1000 + 24575) mod 24576 \<le> 24575" using mod_less_divisor [of 24576] by (simp add: less_Suc_eq_le [symmetric])
  ultimately have up: "(16384 - T) * 1000 \<le> 24576 * ms" by linarith
  have e: "max (ms_to_accrue spray_config_default T 16384) 1 = int ms"
  proof -
    have "1 \<le> ms" using up assms by (cases ms) auto
    then show ?thesis using assms \<open>ms \<le> 667\<close> by (simp add: ms_to_accrue_def Let_def ms_def [symmetric] i64_bound_defs)
  qed
  have "int ((16384 - T) * 1000) \<le> int (24576 * ms)" using up by (simp only: of_nat_le_iff)
  then have "(1000 * (16384 - int T)) div 1000 \<le> (24576 * int ms) div 1000" using assms by (intro zdiv_mono1) (simp_all add: of_nat_diff)
  then show "16384 \<le> int T + 24576 * (max (ms_to_accrue spray_config_default T 16384) 1) div 1000" unfolding e by simp
  show "1 \<le> max (ms_to_accrue spray_config_default T 16384) 1" "max (ms_to_accrue spray_config_default T 16384) 1 \<le> 667"
    using e \<open>ms \<le> 667\<close> by auto
qed

definition sound :: "i64 \<Rightarrow> spray_policy \<Rightarrow> bool" where
  "sound now pol \<longleftrightarrow> config pol = spray_config_default \<and> 0 \<le> now \<and> now \<le> CLOCK_LIMIT \<and>
     (\<forall>l. entry_ok now (spray_links (sched pol) l)) \<and> (\<forall>p. peer_history now {} UNIV (spray_peers (sched pol) p))"

lemma sound_step:
  assumes "sound t pol" "t \<le> now" "now \<le> CLOCK_LIMIT"
  shows "sound now (spray_step pol (now, op))"
proof -
  have cfg: "config pol = spray_config_default" and t: "0 \<le> t" and links: "\<And>l. entry_ok t (spray_links (sched pol) l)"
    and peers: "\<And>p. peer_history t {} UNIV (spray_peers (sched pol) p)"
    using assms(1) by (auto simp: sound_def)
  have "peer_history now {} UNIV (peer_next now op p (spray_peers (sched pol) p))" for p
  proof (cases "op = Clear")
    case False
    from peer_history_step [OF peers t assms(2,3) False, of p p] show ?thesis by (auto simp: peer_history_def)
  qed (simp add: peer_history_def)
  then show ?thesis
    using step_entries_ok [OF cfg links assms(2) t assms(3)] peer_history_forget [OF step_peer_next [OF cfg]] assms t cfg
    by (auto simp: sound_def)
qed

lemma sound_run: "sound t pol \<Longrightarrow> clock_ok t es until \<Longrightarrow> sound until (foldl spray_step pol es)"
proof (induction es arbitrary: t pol)
  case Nil
  then show ?case by (auto simp: sound_def entry_ok_def intro: link_ok_later peer_history_later)
next
  case (Cons e es)
  obtain now op where e: "e = (now, op)" by (cases e)
  have "t \<le> now" "clock_ok now es until" "now \<le> CLOCK_LIMIT"
    using Cons.prems(2) clock_ok_range [of now es until] by (auto simp: e)
  with Cons.IH [OF sound_step [OF Cons.prems(1)]] show ?case by (simp add: e)
qed

lemma sound_new: "sound 0 (spray_new spray_config_default)"
  by (simp add: sound_def spray_new_def entry_ok_def peer_history_def CLOCK_LIMIT_def)

lemma met_peer_ok: "sound now pol \<Longrightarrow> peer_ok now (met_peer pol p now)"
  using peer_history_insert [OF peer_history_prune [of now "{}" UNIV "spray_peers (sched pol) p"]]
  by (auto simp: sound_def met_peer_def pruned_def prune_peers peer_history_def peer_ok_def ever_sprayed_def list_all_length lane_ok_def
      split: option.splits)

definition usable :: "spray_policy \<Rightarrow> bytes \<Rightarrow> i64 \<Rightarrow> bool" where
  "usable pol l now \<longleftrightarrow> 16384 \<le> tokens (touched_link pol l now)"

definition in_cadence :: "spray_policy \<Rightarrow> bytes \<Rightarrow> bytes \<Rightarrow> spray_trigger \<Rightarrow> i64 \<Rightarrow> bool" where
  "in_cadence pol p l trigger now \<longleftrightarrow> fst (cadence spray_config_default (met_peer pol p now) l trigger now)"

lemma gate_allows:
  assumes "config pol = spray_config_default"
  shows "allow (fst (fst (decide_spray pol p l trigger now))) \<longleftrightarrow> in_cadence pol p l trigger now \<and> usable pol l now"
  by (cases rule: decide_spray_cases [of pol p now l trigger])
    (auto simp: gate_denied_def assms in_cadence_def usable_def MIN_USEFUL_BURST_BYTES_def)

lemma wait_for_cadence:
  assumes s: "sound now pol" and no: "\<not> in_cadence pol p l trigger now"
  defines "r \<equiv> retry_after_ms (fst (fst (decide_spray pol p l trigger now)))"
  shows "1 \<le> r" "r \<le> 1800000" "same_cadence (met_peer pol p now) q \<Longrightarrow> now + r \<le> later \<Longrightarrow> later \<le> CLOCK_LIMIT \<Longrightarrow>
    fst (cadence spray_config_default q l trigger later)"
proof -
  have cfg: "config pol = spray_config_default" and now: "0 \<le> now" "now \<le> CLOCK_LIMIT" using s by (auto simp: sound_def)
  let ?m = "met_peer pol p now"
  obtain reason where den: "cadence spray_config_default ?m l trigger now = (False, reason)"
    using no by (cases "cadence spray_config_default ?m l trigger now") (auto simp: in_cadence_def)
  have r: "r = max (i64_sub (interval_for spray_config_default trigger ?m) (since_last_spray_ms ?m now)) 1"
    using den by (cases rule: decide_spray_cases [of pol p now l trigger]) (auto simp: r_def cfg gate_denied_def)
  have ok: "peer_ok now ?m" by (rule met_peer_ok [OF s])
  have "0 \<le> since_last_spray_ms ?m now"
    using ok now by (auto simp: since_last_spray_ms_def peer_ok_def clock_sub i64_bound_defs)
  then have "i64_sub (interval_for spray_config_default trigger ?m) (since_last_spray_ms ?m now) \<le> 1800000"
    using interval_bounds(2) [of trigger ?m] by (simp add: i64_sub_def sat_i64_def i64_bound_defs)
  then show "1 \<le> r" "r \<le> 1800000" by (simp_all add: r)
  show "fst (cadence spray_config_default q l trigger later)"
    if "same_cadence (met_peer pol p now) q" "now + r \<le> later" "later \<le> CLOCK_LIMIT"
    using cadence_after [OF den ok that(1)] that(2,3) unfolding r by blast
qed

lemma wait_for_bytes:
  assumes s: "sound now pol" and c: "in_cadence pol p l trigger now" and no: "\<not> usable pol l now"
  defines "r \<equiv> retry_after_ms (fst (fst (decide_spray pol p l trigger now)))"
  shows "1 \<le> r" "r \<le> 667" "16384 \<le> int (tokens (touched_link pol l now)) + 24576 * r div 1000"
proof -
  have cfg: "config pol = spray_config_default" using s by (simp add: sound_def)
  have "r = max (ms_to_accrue spray_config_default (tokens (touched_link pol l now)) 16384) 1"
    using c no by (cases rule: decide_spray_cases [of pol p now l trigger])
      (auto simp: r_def cfg gate_denied_def in_cadence_def usable_def MIN_USEFUL_BURST_BYTES_def)
  with accrues [of "tokens (touched_link pol l now)"] no
  show "1 \<le> r" "r \<le> 667" "16384 \<le> int (tokens (touched_link pol l now)) + 24576 * r div 1000"
    by (auto simp: usable_def)
qed

lemma usable_again:
  assumes s: "sound now pol" and t: "now \<le> later" "later \<le> CLOCK_LIMIT"
    and enough: "16384 \<le> int (tokens (touched_link pol l now)) + 24576 * (later - now) div 1000"
  shows "usable (snd (decide_spray pol p l trigger now)) l later"
proof -
  have "config pol = spray_config_default" "0 \<le> now" and "\<And>l. entry_ok now (spray_links (sched pol) l)" using s by (auto simp: sound_def)
  from touched_again [OF this(1,3,2) t, of l p trigger] enough show ?thesis by (simp add: usable_def)
qed

lemma sound_later: "sound now pol \<Longrightarrow> now \<le> later \<Longrightarrow> later \<le> CLOCK_LIMIT \<Longrightarrow> sound later pol"
  using sound_run [of now pol "[]" later] by (auto simp: sound_def)

lemma same_cadence_trans: "same_cadence p q \<Longrightarrow> same_cadence q r \<Longrightarrow> same_cadence p r"
  by (simp add: same_cadence_def)

lemma refusal_wait:
  assumes s: "sound now pol" and no: "\<not> allow (fst (fst (decide_spray pol p l trigger now)))"
  shows "1 \<le> retry_after_ms (fst (fst (decide_spray pol p l trigger now))) \<and>
    retry_after_ms (fst (fst (decide_spray pol p l trigger now))) \<le> 1800000"
proof (cases "in_cadence pol p l trigger now")
  case True
  then have "\<not> usable pol l now" using no gate_allows [of pol p l trigger now] s by (simp add: sound_def)
  with wait_for_bytes(1,2) [OF s True] show ?thesis by simp
qed (use wait_for_cadence(1,2) [OF s] in simp)

lemma second_refusal:
  assumes s: "sound now pol" and t: "now + 5400000 \<le> CLOCK_LIMIT"
    and ask1: "decide_spray pol p l trigger now = ((g1, e1), pol1)"
    and ask2: "decide_spray pol1 p l trigger (now + retry_after_ms g1) = ((g2, e2), pol2)"
    and no: "\<not> allow g1" "\<not> allow g2"
  shows "1 \<le> retry_after_ms g1 \<and> retry_after_ms g1 \<le> 1800000 \<and> 1 \<le> retry_after_ms g2 \<and> retry_after_ms g2 \<le> 1800000 \<and>
    in_cadence pol2 p l trigger (now + retry_after_ms g1 + retry_after_ms g2) \<and>
    usable pol2 l (now + retry_after_ms g1 + retry_after_ms g2)"
proof -
  have cfg: "config pol = spray_config_default" and now: "0 \<le> now" using s by (auto simp: sound_def)
  have p1: "pol1 = snd (decide_spray pol p l trigger now)" "fst (fst (decide_spray pol p l trigger now)) = g1" by (simp_all add: ask1)
  define t1 where "t1 = now + retry_after_ms g1"
  define t2 where "t2 = t1 + retry_after_ms g2"
  have p2: "pol2 = snd (decide_spray pol1 p l trigger t1)" "fst (fst (decide_spray pol1 p l trigger t1)) = g2" by (simp_all add: ask2 t1_def)
  have r1: "1 \<le> retry_after_ms g1 \<and> retry_after_ms g1 \<le> 1800000"
    using refusal_wait [OF s, of p l trigger] no(1) unfolding p1(2) by blast
  have "sound now pol1" unfolding p1(1) decide_step using t by (intro sound_step [OF s]) simp_all
  then have s1: "sound t1 pol1" using sound_later [of now pol1 t1] r1 t by (simp add: t1_def)
  then have cfg1: "config pol1 = spray_config_default" by (simp add: sound_def)
  have r2: "1 \<le> retry_after_ms g2 \<and> retry_after_ms g2 \<le> 1800000"
    using refusal_wait [OF s1, of p l trigger] no(2) unfolding p2(2) by blast
  have same1: "same_cadence (met_peer pol p now) (met_peer pol1 p t1)"
    unfolding p1(1) using r1 t now by (intro met_peer_again cfg) (auto simp: t1_def)
  have same2: "same_cadence (met_peer pol1 p t1) (met_peer pol2 p t2)"
    unfolding p2(1) using r1 r2 t now by (intro met_peer_again cfg1) (auto simp: t1_def t2_def)
  have t12: "now \<le> t1" "t1 \<le> t2" "t2 \<le> CLOCK_LIMIT" "t1 \<le> CLOCK_LIMIT" using r1 r2 t by (auto simp: t1_def t2_def)
  have "in_cadence pol2 p l trigger t2 \<and> usable pol2 l t2"
  proof (cases "in_cadence pol p l trigger now")
    case False
    note wc = wait_for_cadence(3) [OF s False, unfolded p1(2)]
    have "in_cadence pol1 p l trigger t1" unfolding in_cadence_def using wc [OF same1] t12 by (simp add: t1_def)
    moreover from this have "\<not> usable pol1 l t1" using no(2) gate_allows [OF cfg1] p2(2) by blast
    ultimately have "16384 \<le> int (tokens (touched_link pol1 l t1)) + 24576 * (t2 - t1) div 1000"
      using wait_for_bytes(3) [OF s1, of p l trigger, unfolded p2(2)] by (simp add: t2_def)
    then have "usable pol2 l t2" unfolding p2(1) using t12 by (intro usable_again [OF s1])
    moreover have "in_cadence pol2 p l trigger t2"
      unfolding in_cadence_def using wc [OF same_cadence_trans [OF same1 same2]] t12 by (simp add: t1_def)
    ultimately show ?thesis by blast
  next
    case True
    then have "\<not> usable pol l now" using no(1) gate_allows [OF cfg] p1(2) by blast
    then have "usable pol1 l t1"
      unfolding p1(1) using t12 wait_for_bytes(3) [OF s True, unfolded p1(2)] by (intro usable_again [OF s]) (simp_all add: t1_def)
    moreover from this have late: "\<not> in_cadence pol1 p l trigger t1" using no(2) gate_allows [OF cfg1] p2(2) by blast
    ultimately show ?thesis
      using wait_for_cadence(3) [OF s1 late same2, unfolded p2(2)] usable_again [OF s1 t12(2,3), of l p trigger] t12
      by (simp add: in_cadence_def usable_def t2_def p2(1) [symmetric])
  qed
  with r1 r2 show ?thesis by (simp add: t1_def t2_def)
qed

text \<open>
  No refusal of the gate is permanent. Ask any reachable policy about any peer, link and occasion, and
  whenever it refuses, ask again exactly when its answer says, with nothing sent in between: at most two refusals come
  before the gate opens, and each names a wait of at least one millisecond and at most half an hour.
\<close>

theorem spray_denials_end:
  assumes reach: "pol = foldl spray_step (spray_new spray_config_default) es" and clock: "clock_ok 0 es now" "now + 5400000 \<le> CLOCK_LIMIT"
    and ask1: "decide_spray pol peer link trigger now = ((g1, e1), pol1)"
    and ask2: "decide_spray pol1 peer link trigger (now + retry_after_ms g1) = ((g2, e2), pol2)"
    and ask3: "decide_spray pol2 peer link trigger (now + retry_after_ms g1 + retry_after_ms g2) = ((g3, e3), pol3)"
  shows "allow g1 \<or> (1 \<le> retry_after_ms g1 \<and> retry_after_ms g1 \<le> MAX_SPRAY_INTERVAL_MS \<and>
    (allow g2 \<or> (1 \<le> retry_after_ms g2 \<and> retry_after_ms g2 \<le> MAX_SPRAY_INTERVAL_MS \<and> allow g3)))"
proof (cases "allow g1")
  case False
  have s: "sound now pol" unfolding reach by (rule sound_run [OF sound_new clock(1)])
  have cfg: "config pol = spray_config_default" using s by (simp add: sound_def)
  have "1 \<le> retry_after_ms g1" "retry_after_ms g1 \<le> 1800000"
    using refusal_wait [OF s, of peer link trigger] False by (simp_all add: ask1)
  moreover have "config pol2 = spray_config_default"
    using decide_step [of pol peer link trigger now] decide_step [of pol1 peer link trigger] ask1 ask2 cfg config_step by (metis snd_conv)
  then have "allow g3" if "\<not> allow g2"
    using second_refusal [OF s clock(2) ask1 ask2 False that] gate_allows [of pol2] ask3 by (metis fst_conv)
  ultimately show ?thesis using second_refusal [OF s clock(2) ask1 ask2 False] by (auto simp: spray_limits)
qed simp

section \<open>Instances\<close>

abbreviation (input) "fresh_policy \<equiv> spray_new spray_config_default"

definition demo_shape :: spray_plan_shape where
  "demo_shape = \<lparr>shape_carried = \<lparr>set_digest = 7, lane_bytes = 4000\<rparr>, shape_own_outbound = \<lparr>set_digest = 9, lane_bytes = 0\<rparr>,
     shape_own_receipts = \<lparr>set_digest = 8, lane_bytes = 100\<rparr>\<rparr>"

lemmas spray_eval =
  spray_new_def note_digest_sent_def open_exchange_def note_bytes_queued_def debit_def debit_link_def allowance_def allowance_link_def
  spray_prune_def retain_def or_insert_def spray_link_new_def spray_peer_new_def refill_bytes_def nat_sat_add_def u64_max_def
  i64_defs Let_def met_peer_def pruned_def touched_link_def cadence_def interval_for_def since_last_spray_ms_def ever_sprayed_def
  exchange_open_until_ms_def spray_limits

lemma link_burst_bounded_witness:
  "total_charged fresh_policy [(10, BytesQueued [1] 1000), (1010, BytesQueued [1] 2000)] [1] = 3000 \<and>
   1000 * total_charged fresh_policy [(10, BytesQueued [1] 1000), (1010, BytesQueued [1] 2000)] [1]
     \<le> 1000 * LINK_BURST_BYTES + LINK_DRAIN_BYTES_PER_SEC * nat (1010 - 0)"
proof -
  let ?es = "[(10, BytesQueued [1] 1000), (1010, BytesQueued [1] 2000)]"
  have "within_allowance fresh_policy ?es [1]"
    by (simp add: link_allowance_bytes_def bytes_charged_def spray_eval del: spray_limits)
  moreover have "clock_ok 0 [] 0" "clock_ok 0 ?es 1010" by (simp_all add: CLOCK_LIMIT_def)
  ultimately show ?thesis
    using link_burst_bounded [where before = "[]" and ?t0.0 = 0 and es = ?es and ?t1.0 = 1010 and link = "[1]" and pol = fresh_policy and
        peer = "[2]" and trigger = ReconnectTrigger]
    by (simp add: bytes_charged_def)
qed

lemma reconnect_cadence_witness:
  "allow (fst (fst (decide_spray (spray_step fresh_policy (5, DigestSent [2] [1])) [2] [1] ReconnectTrigger 60005))) \<and>
   60005 - 5 \<ge> RECONNECT_SPRAY_MIN_INTERVAL_MS"
proof -
  let ?pol = "spray_step fresh_policy (5, DigestSent [2] [1])"
  have "in_cadence ?pol [2] [1] ReconnectTrigger 60005" "usable ?pol [1] 60005"
    by (simp_all add: in_cadence_def usable_def spray_eval)
  then have "allow (fst (fst (decide_spray ?pol [2] [1] ReconnectTrigger 60005)))" using gate_allows [of ?pol] by (simp del: spray_step.simps)
  with reconnect_cadence [of ?pol "[(5, DigestSent [2] [1])]" 60005 "[2]" "[1]" ReconnectTrigger] show ?thesis
    by (simp add: CLOCK_LIMIT_def times_def del: spray_step.simps)
qed

lemma lane_offers_refine_log_witness:
  "lane_admitted (fst (fst (admit_plan no_ring fresh_policy [2] [1] demo_shape 5))) LANE_CARRIED \<and>
   \<not> lane_admitted (fst (fst (admit_plan no_ring (spray_step fresh_policy (5, AdmitPlan [2] [1] demo_shape)) [2] [1] demo_shape 1000)))
       LANE_CARRIED"
proof -
  have first: "lane_admitted (fst (fst (admit_plan no_ring fresh_policy [2] [1] demo_shape 5))) LANE_CARRIED"
    using lane_offers_refine_log [of fresh_policy "[]" 5 LANE_CARRIED "[2]" "[1]" demo_shape]
    by (simp add: CLOCK_LIMIT_def last_offer_def lane_plan_def demo_shape_def)
  then have "last_offer (offer_log fresh_policy [(5, AdmitPlan [2] [1] demo_shape)]) [2] LANE_CARRIED = Some (7, 5)"
    using offers_last [of LANE_CARRIED fresh_policy 5 "[2]" "[1]" demo_shape "[2]"]
    by (simp add: lane_plan_def lane_numbers demo_shape_def del: offers_of.simps)
  with first show ?thesis
    using lane_offers_refine_log [of _ "[(5, AdmitPlan [2] [1] demo_shape)]" 1000 LANE_CARRIED "[2]" "[1]" demo_shape]
    by (simp add: CLOCK_LIMIT_def lane_plan_def demo_shape_def spray_limits del: offer_log.simps spray_step.simps)
qed

lemma spray_denials_end_witness:
  "\<exists>g1 e1 pol1. decide_spray (spray_step fresh_policy (5, DigestSent [2] [1])) [2] [1] ReconnectTrigger 1005 = ((g1, e1), pol1) \<and>
     \<not> allow g1 \<and> 1 \<le> retry_after_ms g1 \<and> retry_after_ms g1 \<le> MAX_SPRAY_INTERVAL_MS"
proof -
  let ?pol = "spray_step fresh_policy (5, DigestSent [2] [1])"
  have no: "\<not> in_cadence ?pol [2] [1] ReconnectTrigger 1005" by (simp add: in_cadence_def spray_eval)
  obtain g1 e1 pol1 where a1: "decide_spray ?pol [2] [1] ReconnectTrigger 1005 = ((g1, e1), pol1)" by (metis prod.exhaust)
  obtain g2 e2 pol2 where a2: "decide_spray pol1 [2] [1] ReconnectTrigger (1005 + retry_after_ms g1) = ((g2, e2), pol2)"
    by (metis prod.exhaust)
  obtain g3 e3 pol3 where a3: "decide_spray pol2 [2] [1] ReconnectTrigger (1005 + retry_after_ms g1 + retry_after_ms g2) = ((g3, e3), pol3)"
    by (metis prod.exhaust)
  have "\<not> allow g1" using gate_allows [of ?pol "[2]" "[1]" ReconnectTrigger 1005] no a1 by (simp del: spray_step.simps)
  moreover have "foldl spray_step fresh_policy [(5, DigestSent [2] [1])] = ?pol" "clock_ok 0 [(5, DigestSent [2] [1])] 1005"
    by (simp_all add: CLOCK_LIMIT_def)
  ultimately show ?thesis
    using spray_denials_end [of ?pol "[(5, DigestSent [2] [1])]" 1005, OF _ _ _ a1 a2 a3] a1 by (simp add: CLOCK_LIMIT_def del: spray_step.simps)
qed

end
