(* ===== verification/Sync_Stream.thy ===== *)
theory Sync_Stream
  imports Wire_Kinds Device_Roster
begin

text \<open>
  Anti-entropy between one person's devices (\<open>core/src/sync_stream.rs\<close>): the digest of stream
  watermarks and its wire codec, the gaps one digest shows against another, and the plan that
  fills them within a byte budget. The kind tables come from \<open>core/src/sync_record.rs\<close>.
\<close>

section \<open>Record kinds\<close>

datatype sync_record_kind =
  SrkHistory | SrkWatermarks | SrkContacts | SrkOwnRoster | SrkGroups | SrkSettings | SrkDigest

definition core_sync_record_kind_of :: "u8 \<Rightarrow> sync_record_kind option" where
  "core_sync_record_kind_of kind =
     (if kind = KIND_SYNC_HISTORY then Some SrkHistory
      else if kind = KIND_SYNC_WATERMARK then Some SrkWatermarks
      else if kind = KIND_SYNC_CONTACTS then Some SrkContacts
      else if kind = KIND_SYNC_OWN_ROSTER then Some SrkOwnRoster
      else if kind = KIND_SYNC_GROUPS then Some SrkGroups
      else if kind = KIND_SYNC_SETTINGS then Some SrkSettings
      else if kind = KIND_SYNC_DIGEST then Some SrkDigest
      else None)"

definition core_sync_kind_is_stream :: "sync_record_kind \<Rightarrow> bool" where
  "core_sync_kind_is_stream k \<longleftrightarrow> k \<noteq> SrkDigest"

definition core_sync_seal_is_current :: "roster_version \<Rightarrow> u64 \<Rightarrow> roster_version \<Rightarrow> u64 \<Rightarrow> bool" where
  "core_sync_seal_is_current sealed_for sealed_generation current current_generation \<longleftrightarrow>
     sealed_for = current \<and> sealed_generation = current_generation"

section \<open>The digest\<close>

definition SYNC_DIGEST_VERSION :: u8 where "SYNC_DIGEST_VERSION = 1"
definition SYNC_DIGEST_MAX_STREAMS :: nat where "SYNC_DIGEST_MAX_STREAMS = 512"
definition SYNC_STREAM_FLAG_CAN_SERVE :: u8 where "SYNC_STREAM_FLAG_CAN_SERVE = 1"

record sync_stream_digest =
  author_device_id :: bytes
  stream_kind :: u8
  through_seq :: u64
  can_serve :: bool

record sync_digest =
  digest_person_id :: bytes
  streams :: "sync_stream_digest list"

definition stream_key :: "sync_stream_digest \<Rightarrow> bytes \<times> u8" where
  "stream_key s = (author_device_id s, stream_kind s)"

fun repeats_neighbour :: "'a list \<Rightarrow> bool" where
  "repeats_neighbour (x # y # zs) \<longleftrightarrow> x = y \<or> repeats_neighbour (y # zs)"
| "repeats_neighbour _ = False"

definition push_stream :: "sync_stream_digest \<Rightarrow> bytes" where
  "push_stream s = author_device_id s @ [stream_kind s] @
     [if can_serve s then SYNC_STREAM_FLAG_CAN_SERVE else 0] @ u64_bytes (through_seq s)"

definition core_encode_sync_digest :: "sync_digest \<Rightarrow> bytes result" where
  "core_encode_sync_digest d =
     (if length (digest_person_id d) > 65535 then Inl (Malformed ''sync digest person id is too long'')
      else if length (streams d) > SYNC_DIGEST_MAX_STREAMS
      then Inl (Malformed (''sync digest names '' @ show_nat (length (streams d)) @ '' streams, over the '' @
             show_nat SYNC_DIGEST_MAX_STREAMS @ '' limit''))
      else if list_ex (\<lambda>s. length (author_device_id s) \<noteq> DEVICE_ID_LEN) (streams d)
      then Inl (Malformed (''sync digest device id must be '' @ show_nat DEVICE_ID_LEN @ '' bytes''))
      else
        let ss = sort_key stream_key (streams d) in
        if repeats_neighbour (map stream_key ss) then Inl (Malformed ''sync digest names one stream twice'')
        else Inr (SYNC_DIGEST_VERSION # u16_bytes (word_of_nat (length (digest_person_id d))) @ digest_person_id d @
               u16_bytes (word_of_nat (length ss)) @ concat (map push_stream ss)))"

definition digest_short :: "nat \<Rightarrow> nat \<Rightarrow> core_error" where
  "digest_short n pos = Malformed ''sync digest ended mid-field''"

definition digest_finish :: "cursor \<Rightarrow> unit result" where
  "digest_finish c =
     (if cur_pos c = length (cur_data c) then Inr () else Inl (Malformed ''sync digest has trailing bytes''))"

definition hex_digit :: "nat \<Rightarrow> char" where
  "hex_digit n = char_of (if n < 10 then 48 + n else 87 + n)"

definition show_hex_byte :: "u8 \<Rightarrow> string" where
  "show_hex_byte b = ''0x'' @ [hex_digit (unat b div 16), hex_digit (unat b mod 16)]"

definition take_stream :: "cursor \<Rightarrow> (sync_stream_digest \<times> cursor) result" where
  "take_stream c =
     and_then (cursor_take digest_short DEVICE_ID_LEN c) (\<lambda>(dev, c).
     and_then (cursor_u8 digest_short c) (\<lambda>(kind, c).
     and_then (cursor_u8 digest_short c) (\<lambda>(flags, c).
     if flags AND NOT SYNC_STREAM_FLAG_CAN_SERVE \<noteq> 0
     then Inl (Malformed (''sync digest stream carries unknown flag bits '' @ show_hex_byte flags))
     else
     and_then (cursor_u64 digest_short c) (\<lambda>(through, c).
     Inr (\<lparr>author_device_id = dev, stream_kind = kind, through_seq = through,
           can_serve = flags AND SYNC_STREAM_FLAG_CAN_SERVE \<noteq> 0\<rparr>, c)))))"

definition core_decode_sync_digest :: "bytes \<Rightarrow> sync_digest result" where
  "core_decode_sync_digest bs =
     and_then (cursor_u8 digest_short (cursor_new bs)) (\<lambda>(version, c).
     if version \<noteq> SYNC_DIGEST_VERSION
     then Inl (Malformed (''unsupported sync digest version '' @ show_nat (unat version)))
     else
     and_then (cursor_u16 digest_short c) (\<lambda>(person_len, c).
     and_then (cursor_take digest_short (unat person_len) c) (\<lambda>(person, c).
     and_then (cursor_u16 digest_short c) (\<lambda>(count, c).
     if unat count > SYNC_DIGEST_MAX_STREAMS
     then Inl (Malformed (''sync digest names '' @ show_nat (unat count) @ '' streams, over the '' @
            show_nat SYNC_DIGEST_MAX_STREAMS @ '' limit''))
     else
     and_then (read_many take_stream (unat count) c) (\<lambda>(ss, c).
     and_then (digest_finish c) (\<lambda>_.
     Inr \<lparr>digest_person_id = person, streams = ss\<rparr>))))))"

section \<open>Gaps\<close>

record sync_gap =
  gap_author :: bytes
  gap_kind :: u8
  after_seq :: u64
  gap_through_seq :: u64

definition held_through :: "sync_digest \<Rightarrow> bytes \<times> u8 \<Rightarrow> u64" where
  "held_through d k = (case find (\<lambda>mine. stream_key mine = k) (streams d) of None \<Rightarrow> 0 | Some mine \<Rightarrow> through_seq mine)"

definition fillable :: "sync_stream_digest \<Rightarrow> bool" where
  "fillable s \<longleftrightarrow> can_serve s \<and>
     (case core_sync_record_kind_of (stream_kind s) of None \<Rightarrow> False | Some k \<Rightarrow> core_sync_kind_is_stream k)"

definition gap_of :: "sync_digest \<Rightarrow> sync_stream_digest \<Rightarrow> sync_gap option" where
  "gap_of have_d s =
     (if \<not> fillable s then None
      else
        let held = held_through have_d (stream_key s) in
        if through_seq s > held
        then Some \<lparr>gap_author = author_device_id s, gap_kind = stream_kind s, after_seq = held, gap_through_seq = through_seq s\<rparr>
        else None)"

definition gap_key :: "sync_gap \<Rightarrow> bytes \<times> u8" where
  "gap_key g = (gap_author g, gap_kind g)"

definition core_sync_digest_gaps :: "sync_digest \<Rightarrow> sync_digest \<Rightarrow> sync_gap list result" where
  "core_sync_digest_gaps have_d peer =
     (if digest_person_id have_d \<noteq> digest_person_id peer
      then Inl (Malformed ''sync digests describe two different people'')
      else Inr (sort_key gap_key (List.map_filter (gap_of have_d) (streams peer))))"

section \<open>The backfill plan\<close>

record sync_backfill_offer =
  offer_author :: bytes
  offer_kind :: u8
  stream_seq :: u64
  sealed_for :: roster_version
  offer_inbox_key_generation :: u64
  byte_len :: u64

datatype sync_backfill_action = SbaSend | SbaReseal

record sync_backfill_step =
  offer_index :: u32
  step_action :: sync_backfill_action

record sync_backfill_plan =
  steps :: "sync_backfill_step list"
  deferred :: "u32 list"
  planned_bytes :: u64

definition offer_stream :: "sync_backfill_offer \<Rightarrow> bytes \<times> u8" where
  "offer_stream off = (offer_author off, offer_kind off)"

definition answers :: "sync_gap list \<Rightarrow> sync_backfill_offer \<Rightarrow> bool" where
  "answers gaps off \<longleftrightarrow> list_ex (\<lambda>g. gap_author g = offer_author off \<and> gap_kind g = offer_kind off \<and>
     stream_seq off > after_seq g \<and> stream_seq off \<le> gap_through_seq g) gaps"

definition offer_order :: "nat \<times> sync_backfill_offer \<Rightarrow> bytes \<times> u8 \<times> u64" where
  "offer_order io = (offer_author (snd io), offer_kind (snd io), stream_seq (snd io))"

definition matched_offers :: "sync_gap list \<Rightarrow> sync_backfill_offer list \<Rightarrow> (nat \<times> sync_backfill_offer) list" where
  "matched_offers gaps offers =
     sort_key offer_order (filter (\<lambda>(i, off). answers gaps off) (enumerate 0 offers))"

record plan_state =
  plan_steps :: "sync_backfill_step list"
  plan_deferred :: "u32 list"
  plan_bytes :: u64
  truncated :: "(bytes \<times> u8) list"

fun plan_step ::
  "roster_version \<Rightarrow> u64 \<Rightarrow> u64 \<Rightarrow> plan_state \<Rightarrow> nat \<times> sync_backfill_offer \<Rightarrow> plan_state" where
  "plan_step roster gen budget st (index, off) =
     (let already_cut = offer_stream off \<in> set (truncated st);
          next_bytes = word_sat_add (plan_bytes st) (byte_len off)
      in if already_cut \<or> next_bytes > budget
         then st\<lparr>truncated := (if already_cut then truncated st else truncated st @ [offer_stream off]),
                 plan_deferred := plan_deferred st @ [of_nat index]\<rparr>
         else st\<lparr>plan_bytes := next_bytes,
                 plan_steps := plan_steps st @
                   [\<lparr>offer_index = of_nat index,
                     step_action = (if core_sync_seal_is_current (sealed_for off) (offer_inbox_key_generation off) roster gen
                                    then SbaSend else SbaReseal)\<rparr>]\<rparr>)"

definition core_plan_sync_backfill ::
  "sync_gap list \<Rightarrow> sync_backfill_offer list \<Rightarrow> roster_version \<Rightarrow> u64 \<Rightarrow> u64 \<Rightarrow> sync_backfill_plan" where
  "core_plan_sync_backfill gaps offers roster gen budget =
     (let st = foldl (plan_step roster gen budget)
                 \<lparr>plan_steps = [], plan_deferred = [], plan_bytes = 0, truncated = []\<rparr> (matched_offers gaps offers)
      in \<lparr>steps = plan_steps st, deferred = plan_deferred st, planned_bytes = plan_bytes st\<rparr>)"

section \<open>The codec\<close>

definition stream_fits :: "sync_stream_digest \<Rightarrow> bool" where
  "stream_fits s \<longleftrightarrow> length (author_device_id s) = 16"

lemma flag_bits: "(flags :: u8) AND - 2 = 0 \<longleftrightarrow> flags = 0 \<or> flags = 1"
proof
  assume "flags AND - 2 = 0"
  moreover have "flags = (flags AND 1) OR (flags AND NOT 1)"
    by (rule bit_word_eqI) (auto simp: bit_simps)
  ultimately have "flags = flags AND 1" by simp
  then have "flags = flags mod 2" by (simp add: and_one_eq)
  then show "flags = 0 \<or> flags = 1" by (metis not_mod_2_eq_1_eq_0)
qed auto

interpretation stream_codec: cursor_codec push_stream take_stream stream_fits
proof unfold_locales
  fix x pre r
  assume "stream_fits x"
  then show "take_stream (cur_at pre (push_stream x @ r)) = Inr (x, cur_at (pre @ push_stream x) r)"
    by (simp add: take_stream_def push_stream_def stream_fits_def DEVICE_ID_LEN_def
        SYNC_STREAM_FLAG_CAN_SERVE_def flag_bits codec_simps)
next
  fix pre bs x d
  assume "take_stream (cur_at pre bs) = Inr (x, d)"
  then show "stream_fits x \<and> (\<exists>r. bs = push_stream x @ r \<and> d = cur_at (pre @ push_stream x) r)"
    by (auto simp: take_stream_def push_stream_def stream_fits_def DEVICE_ID_LEN_def and_then_Inr
        SYNC_STREAM_FLAG_CAN_SERVE_def flag_bits split: if_splits dest!: wire_sound cursor_take_sound)
qed

lemma repeats_iff: "sorted (xs :: 'a::linorder list) \<Longrightarrow> repeats_neighbour xs \<longleftrightarrow> \<not> distinct xs"
proof (induction xs rule: repeats_neighbour.induct)
  case (1 x y zs)
  then have "x \<in> set (y # zs) \<longleftrightarrow> x = y" by (auto intro: order_antisym)
  with 1 show ?case by auto
qed auto

definition digest_wire :: "sync_digest \<Rightarrow> bytes" where
  "digest_wire d = SYNC_DIGEST_VERSION # u16_bytes (word_of_nat (length (digest_person_id d))) @ digest_person_id d @
     u16_bytes (word_of_nat (length (streams d))) @ concat (map push_stream (streams d))"

definition digest_fits :: "sync_digest \<Rightarrow> bool" where
  "digest_fits d \<longleftrightarrow> length (digest_person_id d) \<le> 65535 \<and> length (streams d) \<le> 512 \<and> list_all stream_fits (streams d)"

definition in_order :: "sync_digest \<Rightarrow> sync_digest" where
  "in_order d = d\<lparr>streams := sort_key stream_key (streams d)\<rparr>"

lemma encode_digest_Inr:
  "core_encode_sync_digest d = Inr bs \<longleftrightarrow>
     digest_fits d \<and> distinct (map stream_key (streams d)) \<and> bs = digest_wire (in_order d)"
proof -
  let ?ss = "sort_key stream_key (streams d)"
  have "distinct (map stream_key ?ss) \<longleftrightarrow> distinct (map stream_key (streams d))"
    by (rule mset_eq_imp_distinct_iff) (simp only: mset_map mset_sort)
  moreover have "repeats_neighbour (map stream_key ?ss) \<longleftrightarrow> \<not> distinct (map stream_key ?ss)"
    by (rule repeats_iff) simp
  ultimately show ?thesis
    by (auto simp: core_encode_sync_digest_def digest_fits_def digest_wire_def in_order_def Let_def
        SYNC_DIGEST_MAX_STREAMS_def list_all_iff list_ex_iff stream_fits_def DEVICE_ID_LEN_def not_less)
qed

lemma digest_finish_at: "digest_finish (cur_at pre bs) = Inr () \<longleftrightarrow> bs = []"
  by (simp add: digest_finish_def cur_at_def)

lemma digest_finish_Nil: "digest_finish (cur_at pre []) = Inr ()"
  by (simp add: digest_finish_at)

lemma count_u16: "n \<le> 65535 \<Longrightarrow> unat (word_of_nat n :: u16) = n"
  by (simp add: unat_of_nat)

lemma decode_digest_Inr:
  "core_decode_sync_digest bs = Inr d \<longleftrightarrow> digest_fits d \<and> bs = digest_wire d"
proof
  assume "digest_fits d \<and> bs = digest_wire d"
  then show "core_decode_sync_digest bs = Inr d"
    by (simp add: digest_fits_def digest_wire_def core_decode_sync_digest_def cursor_new_at count_u16
        stream_codec.many_put_all SYNC_DIGEST_MAX_STREAMS_def digest_finish_Nil codec_simps)
next
  assume "core_decode_sync_digest bs = Inr d"
  then show "digest_fits d \<and> bs = digest_wire d"
    by (auto simp: core_decode_sync_digest_def cursor_new_at and_then_Inr digest_finish_at
        digest_fits_def digest_wire_def SYNC_DIGEST_MAX_STREAMS_def SYNC_DIGEST_VERSION_def unat_u16_le split: if_splits
        dest!: wire_sound cursor_take_sound stream_codec.many_sound)
qed

lemma in_order_eq:
  assumes "distinct (map stream_key (streams d))" "distinct (map stream_key (streams e))"
  shows "in_order d = in_order e \<longleftrightarrow> digest_person_id d = digest_person_id e \<and> set (streams d) = set (streams e)"
proof -
  have "sort_key stream_key (streams d) = sort_key stream_key (streams e)" if "set (streams d) = set (streams e)"
  proof (rule map_sorted_distinct_set_unique [where f = stream_key])
    have sorted_distinct: "distinct (map stream_key (sort_key stream_key xs))" if "distinct (map stream_key xs)" for xs
      using that by (metis mset_eq_imp_distinct_iff mset_map mset_sort)
    show "distinct (map stream_key (sort_key stream_key (streams d)))"
      "distinct (map stream_key (sort_key stream_key (streams e)))" using assms sorted_distinct by blast+
    show "inj_on stream_key (set (sort_key stream_key (streams d)) \<union> set (sort_key stream_key (streams e)))"
      using that assms(1) by (simp add: distinct_map)
    show "set (sort_key stream_key (streams d)) = set (sort_key stream_key (streams e))" using that by simp
  qed simp_all
  moreover have "set (streams d) = set (streams e)" if "sort_key stream_key (streams d) = sort_key stream_key (streams e)"
    using that by (metis set_sort)
  ultimately show ?thesis by (cases d; cases e) (auto simp: in_order_def)
qed

lemma digest_wire_inj: "digest_fits d \<Longrightarrow> digest_fits e \<Longrightarrow> digest_wire d = digest_wire e \<Longrightarrow> d = e"
  using decode_digest_Inr [of "digest_wire d"] by (metis sum.inject(2))

lemma in_order_fits: "digest_fits d \<Longrightarrow> digest_fits (in_order d)"
  by (simp add: digest_fits_def in_order_def list_all_iff)

text \<open>
  The digest codec. Encoding succeeds exactly for digests within the size limits whose
  device ids have their width and that name no stream twice; what it produces decodes to the same
  digest with its streams in order; and two digests have the same bytes exactly when they describe
  the same person and the same set of streams, so one view has one encoding.
\<close>

theorem sync_digest_roundtrip:
  "((\<exists>bs. core_encode_sync_digest d = Inr bs) \<longleftrightarrow>
      digest_fits d \<and> distinct (map stream_key (streams d))) \<and>
   (core_encode_sync_digest d = Inr bs \<longrightarrow> core_decode_sync_digest bs = Inr (in_order d)) \<and>
   (core_encode_sync_digest d = Inr bs \<and> core_encode_sync_digest e = Inr bs' \<longrightarrow>
      (bs = bs' \<longleftrightarrow> digest_person_id d = digest_person_id e \<and> set (streams d) = set (streams e)))"
proof -
  have "bs = bs' \<longleftrightarrow> in_order d = in_order e"
    if "core_encode_sync_digest d = Inr bs" "core_encode_sync_digest e = Inr bs'"
    using that digest_wire_inj [of "in_order d" "in_order e"] unfolding encode_digest_Inr
    by (auto intro: in_order_fits)
  then show ?thesis
    using in_order_eq [of d e] in_order_fits [of d] unfolding encode_digest_Inr decode_digest_Inr by blast
qed

section \<open>What the planner takes\<close>

text \<open>
  \<open>taken\<close> and \<open>left_out\<close> split the offers in plan order, given the bytes planned so far and the
  streams already cut; the loop of the planner computes them.
\<close>

fun taken :: "u64 \<Rightarrow> u64 \<Rightarrow> (bytes \<times> u8) set \<Rightarrow> (nat \<times> sync_backfill_offer) list \<Rightarrow> (nat \<times> sync_backfill_offer) list" where
  "taken budget b tr [] = []"
| "taken budget b tr (m # ms) =
     (if offer_stream (snd m) \<in> tr \<or> word_sat_add b (byte_len (snd m)) > budget
      then taken budget b (insert (offer_stream (snd m)) tr) ms
      else m # taken budget (word_sat_add b (byte_len (snd m))) tr ms)"

fun left_out :: "u64 \<Rightarrow> u64 \<Rightarrow> (bytes \<times> u8) set \<Rightarrow> (nat \<times> sync_backfill_offer) list \<Rightarrow> (nat \<times> sync_backfill_offer) list" where
  "left_out budget b tr [] = []"
| "left_out budget b tr (m # ms) =
     (if offer_stream (snd m) \<in> tr \<or> word_sat_add b (byte_len (snd m)) > budget
      then m # left_out budget b (insert (offer_stream (snd m)) tr) ms
      else left_out budget (word_sat_add b (byte_len (snd m))) tr ms)"

definition bytes_after :: "u64 \<Rightarrow> (nat \<times> sync_backfill_offer) list \<Rightarrow> u64" where
  "bytes_after b ms = foldl (\<lambda>b m. word_sat_add b (byte_len (snd m))) b ms"

definition as_step :: "roster_version \<Rightarrow> u64 \<Rightarrow> nat \<times> sync_backfill_offer \<Rightarrow> sync_backfill_step" where
  "as_step roster gen m =
     \<lparr>offer_index = of_nat (fst m),
      step_action = (if core_sync_seal_is_current (sealed_for (snd m)) (offer_inbox_key_generation (snd m)) roster gen
                     then SbaSend else SbaReseal)\<rparr>"

lemma plan_fold:
  "foldl (plan_step roster gen budget) st ms =
     \<lparr>plan_steps = plan_steps st @ map (as_step roster gen) (taken budget (plan_bytes st) (set (truncated st)) ms),
      plan_deferred = plan_deferred st @ map (of_nat \<circ> fst) (left_out budget (plan_bytes st) (set (truncated st)) ms),
      plan_bytes = bytes_after (plan_bytes st) (taken budget (plan_bytes st) (set (truncated st)) ms),
      truncated = truncated (foldl (plan_step roster gen budget) st ms)\<rparr>"
proof (induction ms arbitrary: st)
  case (Cons m ms)
  obtain i off where m: "m = (i, off)" by (cases m)
  show ?case
  proof (cases "offer_stream off \<in> set (truncated st) \<or> word_sat_add (plan_bytes st) (byte_len off) > budget")
    case True
    then show ?thesis
      using Cons.IH [of "plan_step roster gen budget st m"]
      by (cases "offer_stream off \<in> set (truncated st)") (simp_all add: m Let_def insert_absorb)
  next
    case False
    then show ?thesis
      using Cons.IH [of "plan_step roster gen budget st m"]
      by (simp add: m Let_def bytes_after_def as_step_def)
  qed
qed (simp add: bytes_after_def)

lemma plan_taken:
  "core_plan_sync_backfill gaps offers roster gen budget =
     \<lparr>steps = map (as_step roster gen) (taken budget 0 {} (matched_offers gaps offers)),
      deferred = map (of_nat \<circ> fst) (left_out budget 0 {} (matched_offers gaps offers)),
      planned_bytes = bytes_after 0 (taken budget 0 {} (matched_offers gaps offers))\<rparr>"
  unfolding core_plan_sync_backfill_def Let_def
  by (subst (1 2 3) plan_fold) simp

lemma taken_left_out: "mset (taken budget b tr ms) + mset (left_out budget b tr ms) = mset ms"
  by (induction ms arbitrary: b tr) auto

lemma taken_cut: "m \<in> set (taken budget b tr ms) \<Longrightarrow> offer_stream (snd m) \<notin> tr"
  by (induction ms arbitrary: b tr) (auto split: if_splits)

lemma bytes_within: "b \<le> budget \<Longrightarrow> bytes_after b (taken budget b tr ms) \<le> budget"
  by (induction ms arbitrary: b tr) (auto simp: bytes_after_def not_less)

lemma bytes_after_sum:
  "unat (bytes_after b ms) = min (unat b + (\<Sum>m\<leftarrow>ms. unat (byte_len (snd m)))) (2 ^ 64 - 1)"
proof (induction ms arbitrary: b)
  case Nil
  then show ?case using unat_lt_pow [of b] by (simp add: bytes_after_def)
next
  case (Cons m ms)
  then show ?case by (simp add: bytes_after_def unat_sat_add)
qed

text \<open>
  Of each stream the planner takes a prefix, and what cuts it is a record that no longer fits.
\<close>

lemma taken_prefix:
  "\<exists>n. filter (\<lambda>m. offer_stream (snd m) = k) (taken budget b tr ms) =
         take n (filter (\<lambda>m. offer_stream (snd m) = k) ms) \<and>
       (k \<notin> tr \<and> n < length (filter (\<lambda>m. offer_stream (snd m) = k) ms) \<longrightarrow>
          unat budget < unat (bytes_after b (taken budget b tr ms)) +
            unat (byte_len (snd (filter (\<lambda>m. offer_stream (snd m) = k) ms ! n))))"
proof (induction ms arbitrary: b tr)
  case (Cons m ms)
  let ?f = "filter (\<lambda>m. offer_stream (snd m) = k)"
  let ?b = "word_sat_add b (byte_len (snd m))"
  show ?case
  proof (cases "offer_stream (snd m) \<in> tr \<or> ?b > budget")
    case stop: True
    let ?t = "taken budget b (insert (offer_stream (snd m)) tr) ms"
    show ?thesis
    proof (cases "offer_stream (snd m) = k")
      case True
      then have "?f ?t = []" using taken_cut [of _ budget b "insert k tr" ms] by (auto simp: filter_empty_conv)
      moreover have "unat budget < unat (bytes_after b ?t) + unat (byte_len (snd m))" if "k \<notin> tr"
        using stop True that by (auto simp: word_less_nat_alt unat_sat_add bytes_after_sum)
      ultimately show ?thesis using stop True by (intro exI [of _ 0]) auto
    next
      case False
      with Cons.IH [of b "insert (offer_stream (snd m)) tr"] stop show ?thesis by auto
    qed
  next
    case False
    then have t: "taken budget b tr (m # ms) = m # taken budget ?b tr ms"
      and b: "bytes_after b (m # taken budget ?b tr ms) = bytes_after ?b (taken budget ?b tr ms)"
      by (simp_all add: bytes_after_def)
    from Cons.IH [of ?b tr] obtain n where
      n: "?f (taken budget ?b tr ms) = take n (?f ms)"
        "k \<notin> tr \<and> n < length (?f ms) \<longrightarrow>
          unat budget < unat (bytes_after ?b (taken budget ?b tr ms)) + unat (byte_len (snd (?f ms ! n)))"
      by blast
    show ?thesis
    proof (cases "offer_stream (snd m) = k")
      case True
      with n show ?thesis unfolding t b by (intro exI [of _ "Suc n"]) (simp del: taken.simps)
    next
      case False
      with n show ?thesis unfolding t b by (intro exI [of _ n]) (simp del: taken.simps)
    qed
  qed
qed simp

section \<open>The plan is a sound answer to the gaps\<close>

lemma matched_members:
  "(i, off) \<in> set (matched_offers gaps offers) \<longleftrightarrow> i < length offers \<and> off = offers ! i \<and> answers gaps off"
  by (auto simp: matched_offers_def in_set_enumerate_eq)

lemma matched_distinct: "distinct (map fst (matched_offers gaps offers))"
proof -
  have "distinct (map fst (filter (\<lambda>(i, off). answers gaps off) (enumerate 0 offers)))"
    by (rule distinct_map_filter) simp
  then show ?thesis unfolding matched_offers_def by (metis mset_eq_imp_distinct_iff mset_map mset_sort)
qed

lemma matched_indices: "set (map fst (matched_offers gaps offers)) = {i. i < length offers \<and> answers gaps (offers ! i)}"
  using matched_members [of _ _ gaps offers] by (force simp: image_iff)

lemma u32_index: "i < n \<Longrightarrow> n \<le> 2 ^ 32 \<Longrightarrow> unat (of_nat i :: u32) = i"
  by (simp add: unat_of_nat take_bit_nat_eq_self)

lemma taken_members: "m \<in> set (taken budget b tr ms) \<Longrightarrow> m \<in> set ms"
  using taken_left_out [of budget b tr ms] by (metis union_iff set_mset_mset)

lemma step_offer:
  assumes "length offers \<le> 2 ^ 32" "m \<in> set (matched_offers gaps offers)"
  shows "unat (offer_index (as_step roster gen m)) = fst m \<and> offers ! unat (offer_index (as_step roster gen m)) = snd m"
  using assms(2) matched_members [of "fst m" "snd m" gaps offers] u32_index [OF _ assms(1)] by (simp add: as_step_def)

text \<open>
  A backfill plan. Every offer that answers a gap is either sent or deferred, exactly
  once, and nothing else is; the planned bytes are the saturated sum of the sizes sent and stay
  within the budget; and a record goes out as stored exactly when its seal is current for the
  roster and the inbox key generation, and is re-sealed otherwise.
\<close>

theorem backfill_plan_sound:
  assumes "length offers \<le> 2 ^ 32" "p = core_plan_sync_backfill gaps offers roster gen budget"
  shows "mset (map (unat \<circ> offer_index) (steps p) @ map unat (deferred p)) =
       mset (filter (\<lambda>i. answers gaps (offers ! i)) [0..<length offers]) \<and>
     planned_bytes p \<le> budget \<and>
     unat (planned_bytes p) = min (\<Sum>st\<leftarrow>steps p. unat (byte_len (offers ! unat (offer_index st)))) (2 ^ 64 - 1) \<and>
     (\<forall>st\<in>set (steps p). step_action st = SbaSend \<longleftrightarrow>
        sealed_for (offers ! unat (offer_index st)) = roster \<and>
        offer_inbox_key_generation (offers ! unat (offer_index st)) = gen)"
proof -
  let ?ms = "matched_offers gaps offers"
  let ?t = "taken budget 0 {} ?ms" and ?l = "left_out budget 0 {} ?ms"
  have p: "steps p = map (as_step roster gen) ?t" "deferred p = map (of_nat \<circ> fst) ?l"
    "planned_bytes p = bytes_after 0 ?t" unfolding assms(2) plan_taken by simp_all
  have idx: "unat (of_nat (fst m) :: u32) = fst m \<and> offers ! fst m = snd m" if "m \<in> set ?ms" for m
    using step_offer [OF assms(1) that, of undefined undefined] unfolding as_step_def by auto
  have sub: "set ?t \<subseteq> set ?ms" "set ?l \<subseteq> set ?ms"
    using taken_left_out [of budget 0 "{}" ?ms] by (metis set_mset_mset set_mset_union Un_upper1, metis set_mset_mset set_mset_union Un_upper2)
  have ti: "map (unat \<circ> offer_index) (steps p) = map fst ?t" "map unat (deferred p) = map fst ?l"
    unfolding p using sub idx by (auto simp: as_step_def)
  have "mset (map fst ?t @ map fst ?l) = mset (map fst ?ms)"
    using taken_left_out [of budget 0 "{}" ?ms] by (simp flip: image_mset_union)
  also have "\<dots> = mset (filter (\<lambda>i. answers gaps (offers ! i)) [0..<length offers])"
    by (rule set_eq_iff_mset_eq_distinct [THEN iffD1]) (use matched_distinct matched_indices in auto)
  finally have 1: "mset (map (unat \<circ> offer_index) (steps p) @ map unat (deferred p)) = \<dots>" unfolding ti .
  have "map (\<lambda>st. unat (byte_len (offers ! unat (offer_index st)))) (steps p) = map (\<lambda>m. unat (byte_len (snd m))) ?t"
    unfolding p using sub idx by (auto simp: as_step_def)
  then have 2: "unat (planned_bytes p) =
      min (\<Sum>st\<leftarrow>steps p. unat (byte_len (offers ! unat (offer_index st)))) (2 ^ 64 - 1)"
    unfolding p(3) bytes_after_sum by simp
  have 3: "planned_bytes p \<le> budget" unfolding p(3) by (rule bytes_within) simp
  have "\<forall>st\<in>set (steps p). step_action st = SbaSend \<longleftrightarrow>
      sealed_for (offers ! unat (offer_index st)) = roster \<and> offer_inbox_key_generation (offers ! unat (offer_index st)) = gen"
    unfolding p(1) using sub idx by (auto simp: as_step_def core_sync_seal_is_current_def)
  with 1 2 3 show ?thesis by blast
qed

section \<open>Every round advances the watermark\<close>

lemma stream_matched:
  "map (\<lambda>m. stream_seq (snd m)) (filter (\<lambda>m. offer_stream (snd m) = k) (matched_offers gaps offers)) =
   sort (map stream_seq (filter (\<lambda>off. offer_stream off = k \<and> answers gaps off) offers))" (is "map ?q ?ms = _")
proof (rule properties_for_sort [symmetric])
  have sorted: "sorted_wrt (\<lambda>x y. offer_order x \<le> offer_order y) ?ms"
    unfolding matched_offers_def by (intro sorted_wrt_filter) (metis sorted_map sorted_sort_key)
  have "sorted_wrt (\<lambda>x y. ?q x \<le> ?q y) ?ms"
    by (rule sorted_wrt_mono_rel [OF _ sorted]) (auto simp: offer_order_def offer_stream_def less_eq_prod_def)
  then show "sorted (map ?q ?ms)" by (simp add: sorted_map)
  have "mset (map ?q ?ms) = image_mset (stream_seq \<circ> snd)
      (filter_mset (\<lambda>m. offer_stream (snd m) = k \<and> answers gaps (snd m)) (mset (enumerate 0 offers)))"
    by (simp add: matched_offers_def mset_filter case_prod_beta filter_filter_mset comp_def conj_commute)
  also have "\<dots> = image_mset stream_seq
      (filter_mset (\<lambda>off. offer_stream off = k \<and> answers gaps off) (mset (map snd (enumerate 0 offers))))"
    by (simp add: filter_mset_image_mset multiset.map_comp comp_def del: map_snd_enumerate)
  also have "\<dots> = mset (map stream_seq (filter (\<lambda>off. offer_stream off = k \<and> answers gaps off) offers))"
    by (simp add: mset_filter)
  finally show "mset (map ?q ?ms) = \<dots>" .
qed

text \<open>A receiver's watermark over the set of positions it holds of one stream.\<close>

definition watermark :: "nat set \<Rightarrow> nat \<Rightarrow> bool" where
  "watermark held w \<longleftrightarrow> {1..w} \<subseteq> held \<and> Suc w \<notin> held"

definition serves_gap :: "sync_gap list \<Rightarrow> sync_backfill_offer list \<Rightarrow> sync_gap \<Rightarrow> bool" where
  "serves_gap gaps offers g \<longleftrightarrow> g \<in> set gaps \<and> distinct (map gap_key gaps) \<and>
     distinct (map stream_seq (filter (\<lambda>off. offer_stream off = gap_key g) offers)) \<and>
     {unat (after_seq g)<..unat (gap_through_seq g)} \<subseteq>
       (unat \<circ> stream_seq) ` set (filter (\<lambda>off. offer_stream off = gap_key g) offers)"

lemma answers_own_gap:
  assumes "g \<in> set gaps" "distinct (map gap_key gaps)" "offer_stream off = gap_key g"
  shows "answers gaps off \<longleftrightarrow> after_seq g < stream_seq off \<and> stream_seq off \<le> gap_through_seq g"
proof -
  have "g' = g" if "g' \<in> set gaps" "gap_author g' = offer_author off" "gap_kind g' = offer_kind off" for g'
    using that assms by (auto simp: distinct_map inj_on_def gap_key_def offer_stream_def)
  with assms show ?thesis
    by (auto simp: answers_def list_ex_iff gap_key_def offer_stream_def)
qed

lemma sort_interval:
  assumes "distinct (xs :: u64 list)" "unat ` set xs = {a<..b}"
  shows "map unat (sort xs) = [Suc a..<Suc b]"
proof (rule sorted_distinct_set_unique)
  have "sorted_wrt (\<lambda>x y. unat x \<le> unat y) (sort xs)"
    by (rule sorted_wrt_mono_rel [OF _ sorted_sort]) (simp add: word_le_nat_alt)
  then show "sorted (map unat (sort xs))" by (simp add: sorted_map)
  show "distinct (map unat (sort xs))"
    using assms(1) by (auto simp: distinct_map inj_on_def word_unat_eq_iff)
  show "set (map unat (sort xs)) = set [Suc a..<Suc b]" using assms(2) by auto
qed (simp_all only: sorted_upt distinct_upt)

lemma served_sequence:
  assumes "serves_gap gaps offers g"
  shows "map (\<lambda>m. unat (stream_seq (snd m))) (filter (\<lambda>m. offer_stream (snd m) = gap_key g) (matched_offers gaps offers)) =
     [Suc (unat (after_seq g))..<Suc (unat (gap_through_seq g))]"
proof -
  let ?own = "filter (\<lambda>off. offer_stream off = gap_key g) offers"
  let ?fit = "filter (\<lambda>off. offer_stream off = gap_key g \<and> answers gaps off) offers"
  have ans: "answers gaps off \<longleftrightarrow> unat (after_seq g) < unat (stream_seq off) \<and> unat (stream_seq off) \<le> unat (gap_through_seq g)"
    if "offer_stream off = gap_key g" for off
    using answers_own_gap [of g gaps off] assms that
    by (simp add: serves_gap_def word_less_nat_alt word_le_nat_alt)
  have fit: "?fit = filter (\<lambda>off. answers gaps off) ?own" by (simp add: conj_commute)
  have "distinct (map stream_seq ?fit)"
    unfolding fit by (rule distinct_map_filter) (use assms in \<open>simp add: serves_gap_def\<close>)
  moreover have "unat ` set (map stream_seq ?fit) = {unat (after_seq g)<..unat (gap_through_seq g)}"
    using assms ans by (force simp: serves_gap_def image_iff)
  ultimately have "map unat (sort (map stream_seq ?fit)) = [Suc (unat (after_seq g))..<Suc (unat (gap_through_seq g))]"
    by (rule sort_interval)
  then show ?thesis
    using arg_cong [OF stream_matched [of "gap_key g" gaps offers], of "map unat"] by (simp add: comp_def)
qed

lemma upt_take: "take n [a..<b] = [a..<min b (a + n)]" if "a \<le> b"
  using that by (simp add: min_def)

text \<open>
  Claim C39. A round of anti-entropy advances the watermark. Take a gap that this device can fill
  (it has one record for every missing position) and a receiver whose watermark is where the gap
  begins. Then the records planned for that stream are, in order, the oldest missing ones without
  a hole, so that the receiver ends up holding a gap-free prefix longer by their number; and the
  stream is cut short only by a record that does not fit into the remaining budget.
\<close>

theorem backfill_advances_watermark:
  assumes "length offers \<le> 2 ^ 32" "p = core_plan_sync_backfill gaps offers roster gen budget"
    and "serves_gap gaps offers g" "watermark held (unat (after_seq g))" "after_seq g \<le> gap_through_seq g"
  shows "\<exists>n. map (\<lambda>st. unat (stream_seq (offers ! unat (offer_index st))))
         (filter (\<lambda>st. offer_stream (offers ! unat (offer_index st)) = gap_key g) (steps p)) =
         [Suc (unat (after_seq g))..<Suc (unat (after_seq g) + n)] \<and>
       unat (after_seq g) + n \<le> unat (gap_through_seq g) \<and>
       {1..unat (after_seq g) + n} \<subseteq> held \<union> {unat (after_seq g)<..unat (after_seq g) + n} \<and>
       (unat (after_seq g) + n < unat (gap_through_seq g) \<longrightarrow>
          (\<exists>off\<in>set offers. offer_stream off = gap_key g \<and> unat (stream_seq off) = Suc (unat (after_seq g) + n) \<and>
             unat budget < unat (planned_bytes p) + unat (byte_len off)))"
proof -
  let ?ms = "matched_offers gaps offers" and ?a = "unat (after_seq g)" and ?b = "unat (gap_through_seq g)"
  let ?t = "taken budget 0 {} ?ms" and ?f = "filter (\<lambda>m. offer_stream (snd m) = gap_key g)"
  have p: "steps p = map (as_step roster gen) ?t" "planned_bytes p = bytes_after 0 ?t"
    unfolding assms(2) plan_taken by simp_all
  have ab: "?a \<le> ?b" using assms(5) by (simp add: word_le_nat_alt)
  note seqs = served_sequence [OF assms(3)]
  then have len: "length (?f ?ms) = ?b - ?a" by (metis length_map length_upt diff_Suc_Suc)
  from taken_prefix [of "gap_key g" budget 0 "{}" ?ms] obtain n where
    n: "?f ?t = take n (?f ?ms)"
      "n < ?b - ?a \<longrightarrow> unat budget < unat (planned_bytes p) + unat (byte_len (snd (?f ?ms ! n)))"
    unfolding p(2) len by blast
  let ?n = "min n (?b - ?a)"
  have idx: "offers ! unat (offer_index (as_step roster gen m)) = snd m" if "m \<in> set ?t" for m
    using step_offer [OF assms(1) taken_members [OF that]] by blast
  have "map (\<lambda>st. unat (stream_seq (offers ! unat (offer_index st))))
      (filter (\<lambda>st. offer_stream (offers ! unat (offer_index st)) = gap_key g) (steps p)) =
      map (\<lambda>m. unat (stream_seq (snd m))) (?f ?t)"
    unfolding p(1) filter_map map_map comp_def using idx by (auto intro!: map_cong filter_cong)
  also have "\<dots> = take n [Suc ?a..<Suc ?b]" unfolding n(1) take_map [symmetric] seqs ..
  also have "\<dots> = [Suc ?a..<min (Suc ?b) (Suc ?a + n)]" by (rule upt_take) (use ab in simp)
  also have "min (Suc ?b) (Suc ?a + n) = Suc (?a + ?n)" using ab by linarith
  finally have 1: "map (\<lambda>st. unat (stream_seq (offers ! unat (offer_index st))))
      (filter (\<lambda>st. offer_stream (offers ! unat (offer_index st)) = gap_key g) (steps p)) = [Suc ?a..<Suc (?a + ?n)]" .
  have 2: "\<exists>off\<in>set offers. offer_stream off = gap_key g \<and> unat (stream_seq off) = Suc (?a + ?n) \<and>
      unat budget < unat (planned_bytes p) + unat (byte_len off)" if "?a + ?n < ?b"
  proof -
    have lt: "n < ?b - ?a" "?n = n" using that by (auto simp: min_def split: if_splits)
    then have "?f ?ms ! n \<in> set (?f ?ms)" unfolding len [symmetric] by (intro nth_mem)
    then have "snd (?f ?ms ! n) \<in> set offers" "offer_stream (snd (?f ?ms ! n)) = gap_key g"
      using matched_members [of "fst (?f ?ms ! n)" "snd (?f ?ms ! n)" gaps offers] by auto
    moreover have "unat (stream_seq (snd (?f ?ms ! n))) = Suc (?a + ?n)"
      using arg_cong [OF seqs, of "\<lambda>l. l ! n"] nth_upt [of "Suc ?a" n "Suc ?b"] lt len
      by (simp del: upt_Suc)
    ultimately show ?thesis using n(2) lt(1) by blast
  qed
  have "{1..?a + ?n} \<subseteq> held \<union> {?a<..?a + ?n}" using assms(4) by (auto simp: watermark_def)
  with 1 2 ab show ?thesis by (intro exI [of _ ?n]) auto
qed

section \<open>Witnesses\<close>

definition sample_stream :: "u64 \<Rightarrow> sync_stream_digest" where
  "sample_stream n = \<lparr>author_device_id = replicate 16 1, stream_kind = 10, through_seq = n, can_serve = True\<rparr>"

definition sample_offer :: "u64 \<Rightarrow> u64 \<Rightarrow> sync_backfill_offer" where
  "sample_offer n len = \<lparr>offer_author = replicate 16 1, offer_kind = 10, stream_seq = n,
     sealed_for = \<lparr>rv_epoch = 0, rv_seq = 1\<rparr>, offer_inbox_key_generation = 1, byte_len = len\<rparr>"

definition sample_gap :: sync_gap where
  "sample_gap = \<lparr>gap_author = replicate 16 1, gap_kind = 10, after_seq = 1, gap_through_seq = 3\<rparr>"

theorem sync_digest_roundtrip_witness:
  "\<exists>bs. core_encode_sync_digest \<lparr>digest_person_id = [9], streams = [sample_stream 3]\<rparr> = Inr bs \<and>
     core_decode_sync_digest bs = Inr (in_order \<lparr>digest_person_id = [9], streams = [sample_stream 3]\<rparr>)"
proof -
  define d where "d = \<lparr>digest_person_id = [9], streams = [sample_stream 3]\<rparr>"
  have "digest_fits d \<and> distinct (map stream_key (streams d))"
    by (simp add: d_def digest_fits_def stream_fits_def sample_stream_def)
  then obtain bs where "core_encode_sync_digest d = Inr bs"
    using sync_digest_roundtrip [of d undefined undefined undefined] by blast
  with sync_digest_roundtrip [of d bs undefined undefined] show ?thesis unfolding d_def by blast
qed

lemma sample_serves: "serves_gap [sample_gap] [sample_offer 3 5, sample_offer 2 5] sample_gap"
  by (auto simp: serves_gap_def sample_gap_def sample_offer_def offer_stream_def gap_key_def)

theorem backfill_plan_sound_witness:
  "planned_bytes (core_plan_sync_backfill [sample_gap] [sample_offer 3 5, sample_offer 2 5]
     \<lparr>rv_epoch = 0, rv_seq = 1\<rparr> 1 7) \<le> 7"
  using backfill_plan_sound [of "[sample_offer 3 5, sample_offer 2 5]" _ "[sample_gap]"
      "\<lparr>rv_epoch = 0, rv_seq = 1\<rparr>" 1 7] by simp

theorem backfill_advances_watermark_witness:
  "\<exists>n. map (\<lambda>st. unat (stream_seq ([sample_offer 3 5, sample_offer 2 5] ! unat (offer_index st))))
     (filter (\<lambda>st. offer_stream ([sample_offer 3 5, sample_offer 2 5] ! unat (offer_index st)) = gap_key sample_gap)
       (steps (core_plan_sync_backfill [sample_gap] [sample_offer 3 5, sample_offer 2 5]
          \<lparr>rv_epoch = 0, rv_seq = 1\<rparr> 1 7))) = [2..<2 + n] \<and> n \<le> 2"
proof -
  have "watermark {1} (unat (after_seq sample_gap))" by (auto simp: watermark_def sample_gap_def)
  moreover have "after_seq sample_gap \<le> gap_through_seq sample_gap" by (simp add: sample_gap_def)
  moreover have vals: "unat (after_seq sample_gap) = 1" "unat (gap_through_seq sample_gap) = 3"
    by (simp_all add: sample_gap_def)
  moreover have two: "Suc 1 = 2" "Suc (1 + n) = 2 + n" for n by simp_all
  ultimately obtain n where "map (\<lambda>st. unat (stream_seq ([sample_offer 3 5, sample_offer 2 5] ! unat (offer_index st))))
     (filter (\<lambda>st. offer_stream ([sample_offer 3 5, sample_offer 2 5] ! unat (offer_index st)) = gap_key sample_gap)
       (steps (core_plan_sync_backfill [sample_gap] [sample_offer 3 5, sample_offer 2 5]
          \<lparr>rv_epoch = 0, rv_seq = 1\<rparr> 1 7))) = [2..<2 + n]" "1 + n \<le> 3"
    using backfill_advances_watermark [OF _ refl sample_serves, of "{1}" "\<lparr>rv_epoch = 0, rv_seq = 1\<rparr>" 1 7]
    unfolding vals two by auto
  then show ?thesis by (intro exI [of _ n]) simp
qed

end
