(* ===== verification/Relay_Mailbox.thy ===== *)
theory Relay_Mailbox
  imports Mesh_Prelude
begin

text \<open>
  The relay daemon's store (\<open>RelayStore\<close> of \<open>relayd/src/lib.rs\<close>): the envelopes of every family's
  mailbox, the presence rows and the push registrations, with the handlers' checks in front of
  them. A table is the list of its rows; a statement is the function on rows its SQL says. The
  \<open>AUTOINCREMENT\<close> key is a counter that never goes back; an insert past the largest 64-bit key is
  SQLite's ``database or disk is full''. Other I/O errors of SQLite are not modelled. A transaction
  that ends in an error is rolled back, so an error carries no store. The mutex around the connection is
  the sequencing of calls. Authorization and rate limits stand before the operations modelled here.
  The lemmas show what a fetch page holds, that a message id keeps its first content, that
  storage stays within the family quota and the deposit shares, and that prune and acknowledgement remove nothing else.
\<close>

section \<open>Limits\<close>

definition RECIPIENT_HINT_LEN :: nat where
  "RECIPIENT_HINT_LEN = 8"

definition MSG_ID_LEN :: nat where
  "MSG_ID_LEN = 16"

definition DEFAULT_FETCH_LIMIT :: nat where
  "DEFAULT_FETCH_LIMIT = 100"

definition MAX_FETCH_LIMIT :: nat where
  "MAX_FETCH_LIMIT = 500"

definition MAX_FETCH_PAGE_SEALED_BYTES :: nat where
  "MAX_FETCH_PAGE_SEALED_BYTES = 8 * 1024 * 1024"

definition RELAYD_MAX_ENVELOPE_SEALED_BYTES :: nat where
  "RELAYD_MAX_ENVELOPE_SEALED_BYTES = 512 * 1024"

definition MAX_FETCH_HINTS :: nat where
  "MAX_FETCH_HINTS = 256"

definition MAX_ACK_IDS :: nat where
  "MAX_ACK_IDS = 512"

definition MAX_PUSH_HINTS :: nat where
  "MAX_PUSH_HINTS = 256"

definition MAX_RETENTION_MS :: i64 where
  "MAX_RETENTION_MS = 30 * 24 * 60 * 60 * 1000"

definition MAX_DEPOSIT_RETENTION_MS :: i64 where
  "MAX_DEPOSIT_RETENTION_MS = 8 * 24 * 60 * 60 * 1000"

definition PRESENCE_RETENTION_MS :: i64 where
  "PRESENCE_RETENTION_MS = 48 * 60 * 60 * 1000"

definition PUSH_REGISTRATION_RETENTION_MS :: i64 where
  "PUSH_REGISTRATION_RETENTION_MS = 45 * 24 * 60 * 60 * 1000"

definition DEPOSIT_QUOTA_TOTAL_PERCENT :: nat where
  "DEPOSIT_QUOTA_TOTAL_PERCENT = 50"

definition DEPOSIT_QUOTA_PER_DEPOSITOR_PERCENT :: nat where
  "DEPOSIT_QUOTA_PER_DEPOSITOR_PERCENT = 25"

definition MEMBER_DEPOSITOR :: string where
  "MEMBER_DEPOSITOR = ''''"

lemmas relay_limits =
  RECIPIENT_HINT_LEN_def MSG_ID_LEN_def DEFAULT_FETCH_LIMIT_def MAX_FETCH_LIMIT_def
  MAX_FETCH_PAGE_SEALED_BYTES_def RELAYD_MAX_ENVELOPE_SEALED_BYTES_def MAX_FETCH_HINTS_def
  MAX_ACK_IDS_def MAX_PUSH_HINTS_def MAX_RETENTION_MS_def MAX_DEPOSIT_RETENTION_MS_def
  PRESENCE_RETENTION_MS_def PUSH_REGISTRATION_RETENTION_MS_def

text \<open>Byte counts are natural numbers with the bound of \<open>u64\<close> (and \<open>usize\<close>) written out.\<close>

definition percent_of :: "nat \<Rightarrow> nat \<Rightarrow> nat" where
  "percent_of value percent = (value * percent div 100) mod 2 ^ 64"

definition deposit_total_share_bytes :: "nat \<Rightarrow> nat" where
  "deposit_total_share_bytes quota = percent_of quota DEPOSIT_QUOTA_TOTAL_PERCENT"

definition deposit_per_depositor_share_bytes :: "nat \<Rightarrow> nat" where
  "deposit_per_depositor_share_bytes quota = percent_of quota DEPOSIT_QUOTA_PER_DEPOSITOR_PERCENT"

section \<open>Tables\<close>

record stored_envelope =
  env_id :: i64
  env_family :: string
  env_msg_id :: bytes
  env_hop_ttl :: u8
  env_hint :: bytes
  env_sealed :: bytes
  env_expiry_ms :: i64
  env_created_at_ms :: i64
  env_depositor :: string

record stored_presence =
  ps_family :: string
  ps_hint :: bytes
  ps_last_seen_ms :: i64

record push_registration =
  pr_family :: string
  pr_device_token :: string
  pr_updated_ms :: i64

record push_registration_hint =
  ph_family :: string
  ph_device_token :: string
  ph_hint :: bytes

record relay_store =
  envelopes :: "stored_envelope list"
  envelope_seq :: i64
  presence :: "stored_presence list"
  push_registrations :: "push_registration list"
  push_hints :: "push_registration_hint list"

definition relay_store_open :: relay_store where
  "relay_store_open = \<lparr>envelopes = [], envelope_seq = 0, presence = [], push_registrations = [], push_hints = []\<rparr>"

datatype insert_outcome = InsertStored i64 | InsertMsgIdConflict

datatype deposit_share_scope = Depositor | AllDepositors

datatype quota_insert_result =
    QuotaStored i64
  | QuotaExceeded nat
  | DepositShareExceeded deposit_share_scope nat nat
  | QuotaMsgIdConflict

section \<open>Inserting envelopes\<close>

definition effective_expiry :: "i64 \<Rightarrow> i64 \<Rightarrow> i64" where
  "effective_expiry created_at_ms expiry_ms = min expiry_ms (i64_add created_at_ms MAX_RETENTION_MS)"

definition select_existing :: "relay_store \<Rightarrow> string \<Rightarrow> bytes \<Rightarrow> (i64 \<times> bytes) option" where
  "select_existing st family msg_id =
     map_option (\<lambda>r. (env_id r, env_sealed r))
       (find (\<lambda>r. env_family r = family \<and> env_msg_id r = msg_id) (envelopes st))"

definition bump_envelope :: "relay_store \<Rightarrow> string \<Rightarrow> bytes \<Rightarrow> u8 \<Rightarrow> i64 \<Rightarrow> relay_store" where
  "bump_envelope st family msg_id hop_ttl expiry_ms =
     st\<lparr>envelopes := map (\<lambda>r. if env_family r = family \<and> env_msg_id r = msg_id
          then r\<lparr>env_hop_ttl := max (env_hop_ttl r) hop_ttl, env_expiry_ms := max (env_expiry_ms r) expiry_ms\<rparr>
          else r) (envelopes st)\<rparr>"

definition insert_row ::
  "relay_store \<Rightarrow> string \<Rightarrow> bytes \<Rightarrow> u8 \<Rightarrow> bytes \<Rightarrow> bytes \<Rightarrow> i64 \<Rightarrow> i64 \<Rightarrow> string \<Rightarrow> string + (i64 \<times> relay_store)" where
  "insert_row st family msg_id hop_ttl hint sealed expiry_ms created_at_ms depositor =
     (if envelope_seq st \<ge> i64_max then Inl ''database or disk is full''
      else let new_id = envelope_seq st + 1 in
        Inr (new_id, st\<lparr>envelope_seq := new_id,
          envelopes := envelopes st @ [\<lparr>env_id = new_id, env_family = family, env_msg_id = msg_id,
            env_hop_ttl = hop_ttl, env_hint = hint, env_sealed = sealed, env_expiry_ms = expiry_ms,
            env_created_at_ms = created_at_ms, env_depositor = depositor\<rparr>]\<rparr>))"

definition insert_envelope ::
  "relay_store \<Rightarrow> string \<Rightarrow> bytes \<Rightarrow> u8 \<Rightarrow> bytes \<Rightarrow> bytes \<Rightarrow> i64 \<Rightarrow> i64 \<Rightarrow> string + (insert_outcome \<times> relay_store)" where
  "insert_envelope st family msg_id hop_ttl hint sealed expiry_ms created_at_ms =
     (let expiry_ms = effective_expiry created_at_ms expiry_ms in
      case select_existing st family msg_id of
        Some (i, stored_sealed) \<Rightarrow>
          if stored_sealed \<noteq> sealed then Inr (InsertMsgIdConflict, st)
          else Inr (InsertStored i, bump_envelope st family msg_id hop_ttl expiry_ms)
      | None \<Rightarrow>
          and_then (insert_row st family msg_id hop_ttl hint sealed expiry_ms created_at_ms MEMBER_DEPOSITOR)
            (\<lambda>(i, st'). Inr (InsertStored i, st')))"

section \<open>Quota admission\<close>

definition sealed_bytes_sum :: "(stored_envelope \<Rightarrow> bool) \<Rightarrow> relay_store \<Rightarrow> nat" where
  "sealed_bytes_sum P st = sum_list (map (\<lambda>r. length (env_sealed r)) (filter P (envelopes st)))"

definition family_sealed_bytes :: "relay_store \<Rightarrow> string \<Rightarrow> nat" where
  "family_sealed_bytes st family = sealed_bytes_sum (\<lambda>r. env_family r = family) st"

record quota_usage =
  family_bytes :: nat
  deposit_bytes :: nat
  depositor_bytes :: nat

definition quota_usage_on :: "relay_store \<Rightarrow> string \<Rightarrow> string option \<Rightarrow> quota_usage" where
  "quota_usage_on st family depositor =
     (case depositor of
        None \<Rightarrow> \<lparr>family_bytes = family_sealed_bytes st family, deposit_bytes = 0, depositor_bytes = 0\<rparr>
      | Some d \<Rightarrow>
          \<lparr>family_bytes = family_sealed_bytes st family,
           deposit_bytes = sealed_bytes_sum (\<lambda>r. env_family r = family \<and> env_depositor r \<noteq> '''') st,
           depositor_bytes = sealed_bytes_sum (\<lambda>r. env_family r = family \<and> env_depositor r = d) st\<rparr>)"

definition quota_rejection :: "quota_usage \<Rightarrow> nat \<Rightarrow> nat \<Rightarrow> string option \<Rightarrow> quota_insert_result option" where
  "quota_rejection usage candidate_bytes family_quota_bytes depositor =
     (if nat_sat_add (family_bytes usage) candidate_bytes > family_quota_bytes
      then Some (QuotaExceeded (family_bytes usage))
      else case depositor of None \<Rightarrow> None
      | Some _ \<Rightarrow>
          let per_depositor = deposit_per_depositor_share_bytes family_quota_bytes in
          if nat_sat_add (depositor_bytes usage) candidate_bytes > per_depositor
          then Some (DepositShareExceeded Depositor (depositor_bytes usage) per_depositor)
          else
            let total_share = deposit_total_share_bytes family_quota_bytes in
            if nat_sat_add (deposit_bytes usage) candidate_bytes > total_share
            then Some (DepositShareExceeded AllDepositors (deposit_bytes usage) total_share)
            else None)"

definition prune_expired_on :: "relay_store \<Rightarrow> i64 \<Rightarrow> nat \<times> relay_store" where
  "prune_expired_on st now_ms =
     (let retention_floor = i64_sub now_ms MAX_RETENTION_MS;
          envs = filter (\<lambda>r. \<not> (env_expiry_ms r \<le> now_ms \<or> env_created_at_ms r \<le> retention_floor)) (envelopes st);
          presence_floor = i64_sub now_ms PRESENCE_RETENTION_MS;
          pres = filter (\<lambda>r. \<not> ps_last_seen_ms r \<le> presence_floor) (presence st);
          push_floor = i64_sub now_ms PUSH_REGISTRATION_RETENTION_MS;
          hints = filter (\<lambda>h. \<not> list_ex (\<lambda>r. pr_family r = ph_family h \<and>
                     pr_device_token r = ph_device_token h \<and> pr_updated_ms r < push_floor) (push_registrations st))
                   (push_hints st);
          regs = filter (\<lambda>r. \<not> pr_updated_ms r < push_floor) (push_registrations st)
      in (length (envelopes st) - length envs + (length (presence st) - length pres) +
            (length (push_hints st) - length hints) + (length (push_registrations st) - length regs),
          st\<lparr>envelopes := envs, presence := pres, push_hints := hints, push_registrations := regs\<rparr>))"

definition insert_envelope_with_quota ::
  "relay_store \<Rightarrow> string \<Rightarrow> bytes \<Rightarrow> u8 \<Rightarrow> bytes \<Rightarrow> bytes \<Rightarrow> i64 \<Rightarrow> i64 \<Rightarrow> nat \<Rightarrow> string option \<Rightarrow>
   string + (quota_insert_result \<times> relay_store)" where
  "insert_envelope_with_quota st family msg_id hop_ttl hint sealed expiry_ms created_at_ms quota depositor =
     (if length sealed > RELAYD_MAX_ENVELOPE_SEALED_BYTES
      then Inl (''sealed envelope of '' @ show_nat (length sealed) @ '' bytes exceeds the '' @
                show_nat RELAYD_MAX_ENVELOPE_SEALED_BYTES @ ''-byte cap'')
      else
        let expiry_ms = effective_expiry created_at_ms expiry_ms in
        case select_existing st family msg_id of
          Some (i, stored_sealed) \<Rightarrow>
            if stored_sealed \<noteq> sealed then Inr (QuotaMsgIdConflict, st)
            else Inr (QuotaStored i, bump_envelope st family msg_id hop_ttl expiry_ms)
        | None \<Rightarrow>
            let candidate_bytes = length sealed;
                rejection = quota_rejection (quota_usage_on st family depositor) candidate_bytes quota depositor;
                st1 = (if rejection \<noteq> None then snd (prune_expired_on st created_at_ms) else st);
                rejection1 = (if rejection \<noteq> None
                  then quota_rejection (quota_usage_on st1 family depositor) candidate_bytes quota depositor
                  else rejection)
            in case rejection1 of
                 Some r \<Rightarrow> Inr (r, st1)
               | None \<Rightarrow>
                   and_then (insert_row st1 family msg_id hop_ttl hint sealed expiry_ms created_at_ms
                               (case depositor of None \<Rightarrow> MEMBER_DEPOSITOR | Some d \<Rightarrow> d))
                     (\<lambda>(i, st'). Inr (QuotaStored i, st')))"

type_synonym envelope_batch_row = "string \<times> bytes \<times> u8 \<times> bytes \<times> bytes \<times> i64 \<times> i64"

fun insert_batch_rows :: "relay_store \<Rightarrow> envelope_batch_row list \<Rightarrow> string + relay_store" where
  "insert_batch_rows st [] = Inr st"
| "insert_batch_rows st ((family, msg_id, hop_ttl, hint, sealed, expiry_ms, created_at_ms) # rows) =
     (let expiry_ms = effective_expiry created_at_ms expiry_ms in
      case select_existing st family msg_id of
        Some (_, stored) \<Rightarrow>
          if stored \<noteq> sealed then insert_batch_rows st rows
          else insert_batch_rows (bump_envelope st family msg_id hop_ttl expiry_ms) rows
      | None \<Rightarrow>
          and_then (insert_row st family msg_id hop_ttl hint sealed expiry_ms created_at_ms MEMBER_DEPOSITOR)
            (\<lambda>(_, st'). insert_batch_rows st' rows))"

definition insert_envelopes_batch :: "relay_store \<Rightarrow> envelope_batch_row list \<Rightarrow> string + relay_store" where
  "insert_envelopes_batch st rows =
     (case find (\<lambda>(_, _, _, _, sealed, _, _). length sealed > RELAYD_MAX_ENVELOPE_SEALED_BYTES) rows of
        Some (_, _, _, _, sealed, _, _) \<Rightarrow>
          Inl (''sealed envelope of '' @ show_nat (length sealed) @ '' bytes exceeds the '' @
               show_nat RELAYD_MAX_ENVELOPE_SEALED_BYTES @ ''-byte cap'')
      | None \<Rightarrow> insert_batch_rows st rows)"

section \<open>Reading, acknowledging, pruning\<close>

fun fill_page :: "stored_envelope list \<Rightarrow> stored_envelope list \<Rightarrow> nat \<Rightarrow> stored_envelope list" where
  "fill_page [] page sealed_bytes = page"
| "fill_page (row # rows) page sealed_bytes =
     (let next = nat_sat_add sealed_bytes (length (env_sealed row)) in
      if page \<noteq> [] \<and> next > MAX_FETCH_PAGE_SEALED_BYTES then page
      else fill_page rows (page @ [row]) next)"

definition row_matches :: "string \<Rightarrow> bytes list \<Rightarrow> i64 \<Rightarrow> stored_envelope \<Rightarrow> bool" where
  "row_matches family hints now_ms r \<longleftrightarrow>
     env_family r = family \<and> env_hint r \<in> set hints \<and> env_expiry_ms r > now_ms"

definition fetch_envelopes ::
  "relay_store \<Rightarrow> string \<Rightarrow> bytes list \<Rightarrow> i64 \<Rightarrow> nat \<Rightarrow> i64 \<Rightarrow> string + stored_envelope list" where
  "fetch_envelopes st family hints after_id limit now_ms =
     (if hints = [] then Inr []
      else if length hints > MAX_FETCH_HINTS
      then Inl (''at most '' @ show_nat MAX_FETCH_HINTS @ '' hints are allowed'')
      else Inr (fill_page
             (take (min limit MAX_FETCH_LIMIT)
               (sort_key env_id (filter (\<lambda>r. row_matches family hints now_ms r \<and> env_id r > after_id) (envelopes st))))
             [] 0))"

definition store_ack_envelopes :: "relay_store \<Rightarrow> string \<Rightarrow> i64 list \<Rightarrow> string + (nat \<times> relay_store)" where
  "store_ack_envelopes st family ids =
     (if ids = [] then Inr (0, st)
      else if length ids > MAX_ACK_IDS
      then Inl (''at most '' @ show_nat MAX_ACK_IDS @ '' ack ids are allowed'')
      else let kept = filter (\<lambda>r. \<not> (env_family r = family \<and> env_id r \<in> set ids)) (envelopes st) in
        Inr (length (envelopes st) - length kept, st\<lparr>envelopes := kept\<rparr>))"

definition count_for_family :: "relay_store \<Rightarrow> string \<Rightarrow> nat" where
  "count_for_family st family = length (filter (\<lambda>r. env_family r = family) (envelopes st))"

definition envelope_exists :: "relay_store \<Rightarrow> string \<Rightarrow> bytes \<Rightarrow> bool" where
  "envelope_exists st family msg_id \<longleftrightarrow>
     list_ex (\<lambda>r. env_family r = family \<and> env_msg_id r = msg_id) (envelopes st)"

section \<open>Push registrations\<close>

definition same_registration :: "string \<Rightarrow> string \<Rightarrow> push_registration \<Rightarrow> bool" where
  "same_registration family device r \<longleftrightarrow> pr_family r = family \<and> pr_device_token r = device"

fun insert_push_hints ::
  "string \<Rightarrow> string \<Rightarrow> bytes list \<Rightarrow> push_registration_hint list \<Rightarrow> string + push_registration_hint list" where
  "insert_push_hints family device [] rows = Inr rows"
| "insert_push_hints family device (hint # hints) rows =
     (if length hint \<noteq> RECIPIENT_HINT_LEN
      then Inl (''push hint must be '' @ show_nat RECIPIENT_HINT_LEN @ '' bytes'')
      else let row = \<lparr>ph_family = family, ph_device_token = device, ph_hint = hint\<rparr> in
        insert_push_hints family device hints (if row \<in> set rows then rows else rows @ [row]))"

definition replace_push_registration ::
  "relay_store \<Rightarrow> string \<Rightarrow> string \<Rightarrow> bytes list \<Rightarrow> i64 \<Rightarrow> string + relay_store" where
  "replace_push_registration st family device hints updated_ms =
     (if hints = [] \<or> length hints > MAX_PUSH_HINTS
      then Inl (''push registration requires 1..='' @ show_nat MAX_PUSH_HINTS @ '' hints'')
      else
        let regs = (if list_ex (same_registration family device) (push_registrations st)
                    then map (\<lambda>r. if same_registration family device r then r\<lparr>pr_updated_ms := updated_ms\<rparr> else r)
                           (push_registrations st)
                    else push_registrations st @
                           [\<lparr>pr_family = family, pr_device_token = device, pr_updated_ms = updated_ms\<rparr>]);
            kept = filter (\<lambda>h. \<not> (ph_family h = family \<and> ph_device_token h = device)) (push_hints st)
        in and_then (insert_push_hints family device hints kept)
             (\<lambda>rows. Inr (st\<lparr>push_registrations := regs, push_hints := rows\<rparr>)))"

definition push_device_tokens_for_hint :: "relay_store \<Rightarrow> string \<Rightarrow> bytes \<Rightarrow> i64 \<Rightarrow> string list" where
  "push_device_tokens_for_hint st family hint now_ms =
     (let fresh_after = i64_sub now_ms PUSH_REGISTRATION_RETENTION_MS in
      sort (remdups (map pr_device_token
        (filter (\<lambda>r. pr_family r = family \<and> pr_updated_ms r \<ge> fresh_after \<and>
            list_ex (\<lambda>h. ph_family h = pr_family r \<and> ph_device_token h = pr_device_token r \<and> ph_hint h = hint)
              (push_hints st))
          (push_registrations st)))))"

definition remove_push_device_token :: "relay_store \<Rightarrow> string \<Rightarrow> nat \<times> relay_store" where
  "remove_push_device_token st device =
     (let regs = filter (\<lambda>r. pr_device_token r \<noteq> device) (push_registrations st) in
      (length (push_registrations st) - length regs,
       st\<lparr>push_hints := filter (\<lambda>h. ph_device_token h \<noteq> device) (push_hints st), push_registrations := regs\<rparr>))"

section \<open>Presence\<close>

definition announce_presence :: "string \<Rightarrow> i64 \<Rightarrow> stored_presence list \<Rightarrow> bytes \<Rightarrow> stored_presence list" where
  "announce_presence family now_ms rows hint =
     (if list_ex (\<lambda>r. ps_family r = family \<and> ps_hint r = hint) rows
      then map (\<lambda>r. if ps_family r = family \<and> ps_hint r = hint then r\<lparr>ps_last_seen_ms := now_ms\<rparr> else r) rows
      else rows @ [\<lparr>ps_family = family, ps_hint = hint, ps_last_seen_ms = now_ms\<rparr>])"

text \<open>
  The query orders by the stamp, newest first; the order of rows with equal stamps, which SQL
  leaves open, is the order of the table here.
\<close>

definition store_sync_presence ::
  "relay_store \<Rightarrow> string \<Rightarrow> bytes list \<Rightarrow> bytes list \<Rightarrow> i64 \<Rightarrow> (bytes \<times> i64) list \<times> relay_store" where
  "store_sync_presence st family announce query now_ms =
     (let st1 = snd (prune_expired_on st now_ms);
          st2 = st1\<lparr>presence := foldl (announce_presence family now_ms) (presence st1) announce\<rparr>
      in (if query = [] then []
          else map (\<lambda>r. (ps_hint r, ps_last_seen_ms r))
                 (sort_key (\<lambda>r. - ps_last_seen_ms r)
                   (filter (\<lambda>r. ps_family r = family \<and> ps_hint r \<in> set query) (presence st2))),
          st2))"

section \<open>Request handlers behind authorization\<close>

datatype token_class = Member | Deposit

record family_access =
  fa_token :: string
  fa_class :: token_class
  fa_rate_key :: string
  fa_family_key :: string
  fa_quota_bytes :: nat
  fa_depositor :: "string option"

datatype api_error =
    BadRequest string
  | EnvelopeTooLarge nat
  | FamilyQuotaExceeded nat nat
  | DepositShareRefused deposit_share_scope nat nat nat
  | MsgIdConflictError
  | PresenceQueryOnly
  | Internal string

text \<open>The body of a request is decoded (JSON and base64) before these checks.\<close>

definition post_expiry :: "family_access \<Rightarrow> i64 \<Rightarrow> i64 \<Rightarrow> i64" where
  "post_expiry access now expiry_ms =
     (case fa_class access of
        Deposit \<Rightarrow> min expiry_ms (i64_add now MAX_DEPOSIT_RETENTION_MS)
      | Member \<Rightarrow> expiry_ms)"

definition post_envelope ::
  "relay_store \<Rightarrow> family_access \<Rightarrow> bytes \<Rightarrow> u8 \<Rightarrow> bytes \<Rightarrow> bytes \<Rightarrow> i64 \<Rightarrow> i64 \<Rightarrow> (api_error + i64) \<times> relay_store" where
  "post_envelope st access msg_id hop_ttl hint sealed expiry_ms now =
     (if length msg_id \<noteq> MSG_ID_LEN
      then (Inl (BadRequest (''msg_id must be '' @ show_nat MSG_ID_LEN @ '' bytes after base64url decoding'')), st)
      else if length hint \<noteq> RECIPIENT_HINT_LEN
      then (Inl (BadRequest (''recipient_hint must be '' @ show_nat RECIPIENT_HINT_LEN @
                  '' bytes after base64url decoding'')), st)
      else if sealed = [] then (Inl (BadRequest ''sealed must not be empty''), st)
      else if length sealed > RELAYD_MAX_ENVELOPE_SEALED_BYTES then (Inl (EnvelopeTooLarge (length sealed)), st)
      else case insert_envelope_with_quota st (fa_token access) msg_id hop_ttl hint sealed
                  (post_expiry access now expiry_ms) now (fa_quota_bytes access) (fa_depositor access) of
          Inl detail \<Rightarrow> (Inl (Internal detail), st)
        | Inr (result, st') \<Rightarrow>
            (case result of
               QuotaStored i \<Rightarrow> Inr i
             | QuotaExceeded usage \<Rightarrow> Inl (FamilyQuotaExceeded usage (fa_quota_bytes access))
             | DepositShareExceeded scope usage share \<Rightarrow>
                 Inl (DepositShareRefused scope usage share (fa_quota_bytes access))
             | QuotaMsgIdConflict \<Rightarrow> Inl MsgIdConflictError, st'))"

definition get_envelopes ::
  "relay_store \<Rightarrow> family_access \<Rightarrow> bytes list \<Rightarrow> i64 option \<Rightarrow> nat option \<Rightarrow> i64 \<Rightarrow>
   api_error + (stored_envelope list \<times> i64)" where
  "get_envelopes st access hints after limit now =
     (let after = (case after of None \<Rightarrow> 0 | Some a \<Rightarrow> a) in
      if after < 0 then Inl (BadRequest ''after must be non-negative'')
      else
        let limit = min (case limit of None \<Rightarrow> DEFAULT_FETCH_LIMIT | Some l \<Rightarrow> l) MAX_FETCH_LIMIT in
        case fetch_envelopes st (fa_token access) hints after limit now of
          Inl detail \<Rightarrow> Inl (Internal detail)
        | Inr rows \<Rightarrow> Inr (rows, if rows = [] then after else env_id (last rows)))"

definition ack_envelopes :: "relay_store \<Rightarrow> family_access \<Rightarrow> i64 list \<Rightarrow> (api_error + nat) \<times> relay_store" where
  "ack_envelopes st access ids =
     (if length ids > MAX_ACK_IDS
      then (Inl (BadRequest (''ids must contain at most '' @ show_nat MAX_ACK_IDS @ '' entries'')), st)
      else if list_ex (\<lambda>i. i \<le> 0) ids
      then (Inl (BadRequest ''ids must contain only positive relay ids''), st)
      else case store_ack_envelopes st (fa_token access) (remdups_adj (sort ids)) of
          Inl detail \<Rightarrow> (Inl (Internal detail), st)
        | Inr (deleted, st') \<Rightarrow> (Inr deleted, st'))"

definition MAX_PRESENCE_ANNOUNCE :: nat where
  "MAX_PRESENCE_ANNOUNCE = 4"

definition MAX_PRESENCE_QUERY :: nat where
  "MAX_PRESENCE_QUERY = 512"

definition MAX_DEPOSIT_PRESENCE_QUERY :: nat where
  "MAX_DEPOSIT_PRESENCE_QUERY = 8"

definition PRESENCE_BUCKET_ACTIVE_MS :: i64 where
  "PRESENCE_BUCKET_ACTIVE_MS = 150000"

definition PRESENCE_BUCKET_RECENT_MS :: i64 where
  "PRESENCE_BUCKET_RECENT_MS = 15 * 60 * 1000"

definition PRESENCE_BUCKET_DAY_MS :: i64 where
  "PRESENCE_BUCKET_DAY_MS = 24 * 60 * 60 * 1000"

definition coarse_presence :: "i64 \<Rightarrow> i64 \<Rightarrow> string \<times> i64" where
  "coarse_presence age_ms now_ms =
     (let (bucket, ceiling) =
        (if age_ms \<le> PRESENCE_BUCKET_ACTIVE_MS then (''active'', PRESENCE_BUCKET_ACTIVE_MS)
         else if age_ms \<le> PRESENCE_BUCKET_RECENT_MS then (''recent'', PRESENCE_BUCKET_RECENT_MS)
         else if age_ms \<le> PRESENCE_BUCKET_DAY_MS then (''day'', PRESENCE_BUCKET_DAY_MS)
         else (''older'', PRESENCE_RETENTION_MS))
      in (bucket, i64_sub now_ms (i64_sub ceiling 1)))"

text \<open>The order-preserving deduplication of \<open>decode_presence_hints\<close> and \<open>decode_fetch_hints\<close>.\<close>

definition first_occurrences :: "bytes list \<Rightarrow> bytes list" where
  "first_occurrences hints = foldl (\<lambda>out h. if h \<in> set out then out else out @ [h]) [] hints"

record presence_item =
  pi_hint :: bytes
  pi_last_seen_ms :: i64
  pi_recency :: "string option"

definition sync_presence ::
  "relay_store \<Rightarrow> family_access \<Rightarrow> bytes list \<Rightarrow> bytes list \<Rightarrow> i64 \<Rightarrow>
   (api_error + presence_item list) \<times> relay_store" where
  "sync_presence st access announce query now =
     (let cross_family = fa_class access = Deposit;
          query_cap = (if cross_family then MAX_DEPOSIT_PRESENCE_QUERY else MAX_PRESENCE_QUERY)
      in if cross_family \<and> announce \<noteq> [] then (Inl PresenceQueryOnly, st)
         else if length announce > MAX_PRESENCE_ANNOUNCE
         then (Inl (BadRequest (''announce must contain at most '' @ show_nat MAX_PRESENCE_ANNOUNCE @ '' hints'')), st)
         else if length query > query_cap
         then (Inl (BadRequest (''query must contain at most '' @ show_nat query_cap @ '' hints'')), st)
         else if list_ex (\<lambda>h. length h \<noteq> RECIPIENT_HINT_LEN) announce
         then (Inl (BadRequest (''announce entries must be '' @ show_nat RECIPIENT_HINT_LEN @
                     '' bytes after base64url decoding'')), st)
         else if list_ex (\<lambda>h. length h \<noteq> RECIPIENT_HINT_LEN) query
         then (Inl (BadRequest (''query entries must be '' @ show_nat RECIPIENT_HINT_LEN @
                     '' bytes after base64url decoding'')), st)
         else
           let (rows, st') = store_sync_presence st (fa_token access) (first_occurrences announce) (first_occurrences query) now
           in (Inr (map (\<lambda>(hint, last_seen_ms).
                  if cross_family
                  then let (recency, coarse) = coarse_presence (max (i64_sub now last_seen_ms) 0) now
                       in \<lparr>pi_hint = hint, pi_last_seen_ms = coarse, pi_recency = Some recency\<rparr>
                  else \<lparr>pi_hint = hint, pi_last_seen_ms = last_seen_ms, pi_recency = None\<rparr>) rows), st'))"

section \<open>Runs of the store\<close>

datatype relay_op =
    OpPost family_access bytes u8 bytes bytes i64 i64
  | OpAck family_access "i64 list"
  | OpPrune i64
  | OpPresence family_access "bytes list" "bytes list" i64
  | OpPushRegister string string "bytes list" i64
  | OpPushRemove string

fun relay_step :: "relay_store \<Rightarrow> relay_op \<Rightarrow> relay_store" where
  "relay_step st (OpPost access msg_id hop_ttl hint sealed expiry_ms now) =
     snd (post_envelope st access msg_id hop_ttl hint sealed expiry_ms now)"
| "relay_step st (OpAck access ids) = snd (ack_envelopes st access ids)"
| "relay_step st (OpPrune now) = snd (prune_expired_on st now)"
| "relay_step st (OpPresence access announce query now) = snd (sync_presence st access announce query now)"
| "relay_step st (OpPushRegister family device hints now) =
     (case replace_push_registration st family device hints now of Inl _ \<Rightarrow> st | Inr st' \<Rightarrow> st')"
| "relay_step st (OpPushRemove device) = snd (remove_push_device_token st device)"

text \<open>
  An operation changes the envelope table in one of four ways: it removes rows, it raises the hop budget and
  expiry of one message, it appends one fresh row, or it leaves the table alone. A contract of the
  store is proved once per way and holds for every run.
\<close>

definition same_content :: "stored_envelope \<Rightarrow> stored_envelope \<Rightarrow> bool" where
  "same_content r r' \<longleftrightarrow>
     env_id r' = env_id r \<and> env_family r' = env_family r \<and> env_msg_id r' = env_msg_id r \<and>
     env_hint r' = env_hint r \<and> env_sealed r' = env_sealed r \<and>
     env_created_at_ms r' = env_created_at_ms r \<and> env_depositor r' = env_depositor r \<and>
     env_hop_ttl r \<le> env_hop_ttl r' \<and> env_expiry_ms r \<le> env_expiry_ms r'"

lemma same_content_refl [simp]: "same_content r r"
  by (simp add: same_content_def)

lemma same_content_trans: "same_content r s \<Longrightarrow> same_content s t \<Longrightarrow> same_content r t"
  by (auto simp: same_content_def)

inductive table_change :: "relay_store \<Rightarrow> relay_store \<Rightarrow> bool" where
  kept: "envelopes st' = filter P (envelopes st) \<Longrightarrow> envelope_seq st' = envelope_seq st \<Longrightarrow> table_change st st'"
| bumped: "list_all2 same_content (envelopes st) (envelopes st') \<Longrightarrow> envelope_seq st' = envelope_seq st \<Longrightarrow>
    table_change st st'"
| appended: "envelope_seq st < i64_max \<Longrightarrow> envelope_seq st' = envelope_seq st + 1 \<Longrightarrow>
    envelopes st' = envelopes st @ [r] \<Longrightarrow> env_id r = envelope_seq st + 1 \<Longrightarrow>
    select_existing st (env_family r) (env_msg_id r) = None \<Longrightarrow> table_change st st'"

lemma table_change_same:
  "envelopes st' = envelopes st \<Longrightarrow> envelope_seq st' = envelope_seq st \<Longrightarrow> table_change st st'"
  by (rule kept [where P = "\<lambda>_. True"]) simp_all

lemma prune_change: "table_change st (snd (prune_expired_on st now))"
  by (rule kept) (simp_all add: prune_expired_on_def Let_def)

lemma bump_change: "table_change st (bump_envelope st family msg_id hop_ttl expiry_ms)"
  by (rule bumped)
    (simp_all add: bump_envelope_def list_all2_conv_all_nth same_content_def)

lemma insert_row_Inr:
  "insert_row st family msg_id hop_ttl hint sealed expiry_ms created_at_ms depositor = Inr (i, st') \<longleftrightarrow>
     envelope_seq st < i64_max \<and> i = envelope_seq st + 1 \<and>
     st' = st\<lparr>envelope_seq := envelope_seq st + 1,
        envelopes := envelopes st @ [\<lparr>env_id = envelope_seq st + 1, env_family = family, env_msg_id = msg_id,
            env_hop_ttl = hop_ttl, env_hint = hint, env_sealed = sealed, env_expiry_ms = expiry_ms,
            env_created_at_ms = created_at_ms, env_depositor = depositor\<rparr>]\<rparr>"
  by (auto simp: insert_row_def Let_def)

lemma select_existing_None:
  "select_existing st family msg_id = None \<longleftrightarrow>
     (\<forall>r\<in>set (envelopes st). \<not> (env_family r = family \<and> env_msg_id r = msg_id))"
  by (auto simp: select_existing_def find_None_iff)

lemma select_existing_prune:
  "select_existing st family msg_id = None \<Longrightarrow>
   select_existing (snd (prune_expired_on st now)) family msg_id = None"
  by (auto simp: select_existing_None prune_expired_on_def Let_def)

text \<open>The three ways an accepted or refused post leaves the store.\<close>

lemma insert_with_quota_cases:
  assumes "insert_envelope_with_quota st family msg_id hop_ttl hint sealed expiry_ms now quota depositor = Inr (res, st')"
  obtains
    (conflict) i other where "select_existing st family msg_id = Some (i, other)" "other \<noteq> sealed"
      "res = QuotaMsgIdConflict" "st' = st"
  | (dedupe) i where "select_existing st family msg_id = Some (i, sealed)" "res = QuotaStored i"
      "st' = bump_envelope st family msg_id hop_ttl (effective_expiry now expiry_ms)"
  | (refused) rej where "select_existing st family msg_id = None" "res = rej" "\<And>i. rej \<noteq> QuotaStored i"
      "st' = snd (prune_expired_on st now)"
      "quota_rejection (quota_usage_on st' family depositor) (length sealed) quota depositor = Some rej"
  | (stored) st1 where "select_existing st family msg_id = None"
      "st1 = st \<or> st1 = snd (prune_expired_on st now)"
      "quota_rejection (quota_usage_on st1 family depositor) (length sealed) quota depositor = None"
      "insert_row st1 family msg_id hop_ttl hint sealed (effective_expiry now expiry_ms) now
         (case depositor of None \<Rightarrow> MEMBER_DEPOSITOR | Some d \<Rightarrow> d) = Inr (envelope_seq st1 + 1, st')"
      "res = QuotaStored (envelope_seq st1 + 1)"
proof -
  have no_store: "quota_rejection u c q d = Some rej \<Longrightarrow> rej \<noteq> QuotaStored i" for u c q d rej i
    by (auto simp: quota_rejection_def Let_def split: if_splits option.splits)
  let ?ins = "\<lambda>st1. insert_row st1 family msg_id hop_ttl hint sealed (effective_expiry now expiry_ms) now
         (case depositor of None \<Rightarrow> MEMBER_DEPOSITOR | Some d \<Rightarrow> d)"
  let ?rej = "\<lambda>st1. quota_rejection (quota_usage_on st1 family depositor) (length sealed) quota depositor"
  let ?pr = "snd (prune_expired_on st now)"
  have small: "\<not> length sealed > RELAYD_MAX_ENVELOPE_SEALED_BYTES"
    using assms by (auto simp: insert_envelope_with_quota_def)
  show thesis
  proof (cases "select_existing st family msg_id")
    case (Some p)
    obtain i other where p: "p = (i, other)" by (cases p)
    show thesis
      using assms small Some conflict [of i other] dedupe [of i]
      by (auto simp: insert_envelope_with_quota_def Let_def p split: if_splits)
  next
    case None
    have ins: "res = QuotaStored (envelope_seq st1 + 1) \<and> ?ins st1 = Inr (envelope_seq st1 + 1, st')"
      if "and_then (?ins st1) (\<lambda>(i, st'). Inr (QuotaStored i, st')) = Inr (res, st')" for st1
      using that by (auto simp: and_then_Inr insert_row_Inr)
    show thesis
    proof (cases "?rej st")
      case none: None
      then have "and_then (?ins st) (\<lambda>(i, st'). Inr (QuotaStored i, st')) = Inr (res, st')"
        using assms small None by (simp add: insert_envelope_with_quota_def Let_def)
      from ins [OF this] none None show thesis using stored [of st] by blast
    next
      case (Some r0)
      show thesis
      proof (cases "?rej ?pr")
        case none: None
        then have "and_then (?ins ?pr) (\<lambda>(i, st'). Inr (QuotaStored i, st')) = Inr (res, st')"
          using assms small None Some by (simp add: insert_envelope_with_quota_def Let_def)
        from ins [OF this] none None show thesis using stored [of ?pr] by blast
      next
        case rej: (Some r1)
        then have "res = r1 \<and> st' = ?pr"
          using assms small None Some by (simp add: insert_envelope_with_quota_def Let_def)
        with rej None show thesis using refused [of r1] no_store [OF rej] by blast
      qed
    qed
  qed
qed

lemma insert_row_change:
  assumes "insert_row st family msg_id hop_ttl hint sealed expiry_ms created_at_ms depositor = Inr (i, st')"
    and "select_existing st family msg_id = None"
  shows "table_change st st'"
  using assms by (auto simp: insert_row_Inr intro!: appended)

lemma insert_with_quota_change:
  assumes "insert_envelope_with_quota st family msg_id hop_ttl hint sealed expiry_ms now quota depositor = Inr (res, st')"
  shows "table_change\<^sup>*\<^sup>* st st'"
  using assms
proof (cases rule: insert_with_quota_cases)
  case (stored st1)
  have "table_change\<^sup>*\<^sup>* st st1" using stored(2) prune_change by blast
  moreover have "table_change st1 st'"
  proof (rule insert_row_change [OF stored(4)])
    show "select_existing st1 family msg_id = None" using stored(1,2) select_existing_prune by metis
  qed
  ultimately show ?thesis by (rule rtranclp.rtrancl_into_rtrancl)
qed (use bump_change prune_change in auto)

lemma post_change: "table_change\<^sup>*\<^sup>* st (snd (post_envelope st access msg_id hop_ttl hint sealed expiry_ms now))"
  by (auto simp: post_envelope_def split: sum.splits dest: insert_with_quota_change)

lemma ack_change: "table_change st (snd (ack_envelopes st access ids))"
proof -
  have "table_change st st'" if "store_ack_envelopes st family is = Inr (n, st')" for family "is" n st'
    using that by (auto simp: store_ack_envelopes_def Let_def table_change_same intro!: kept split: if_splits)
  then show ?thesis
    by (auto simp: ack_envelopes_def table_change_same split: sum.splits)
qed

lemma presence_change: "table_change st (snd (sync_presence st access announce query now))"
proof -
  have "table_change st (snd (store_sync_presence st family an q now))" for family an q
    by (rule kept) (simp_all add: store_sync_presence_def prune_expired_on_def Let_def)
  then show ?thesis
    by (auto simp: sync_presence_def Let_def case_prod_beta table_change_same)
qed

lemma relay_step_change: "table_change\<^sup>*\<^sup>* st (relay_step st op)"
proof (cases op)
  case (OpPushRegister family device hints now)
  then have "table_change st (relay_step st op)"
    by (auto simp: replace_push_registration_def Let_def and_then_Inr split: sum.splits if_splits
             intro!: table_change_same)
  then show ?thesis by blast
next
  case (OpPushRemove device)
  then have "table_change st (relay_step st op)"
    by (auto simp: remove_push_device_token_def Let_def intro!: table_change_same)
  then show ?thesis by blast
qed (simp_all add: post_change ack_change presence_change prune_change r_into_rtranclp)

subsection \<open>Row keys\<close>

definition mailbox_inv :: "relay_store \<Rightarrow> bool" where
  "mailbox_inv st \<longleftrightarrow>
     sorted_wrt (<) (map env_id (envelopes st)) \<and>
     (\<forall>r\<in>set (envelopes st). 1 \<le> env_id r \<and> env_id r \<le> envelope_seq st) \<and>
     0 \<le> envelope_seq st \<and> envelope_seq st \<le> i64_max \<and>
     distinct (map (\<lambda>r. (env_family r, env_msg_id r)) (envelopes st))"

lemma table_change_inv: "table_change st st' \<Longrightarrow> mailbox_inv st \<Longrightarrow> mailbox_inv st'"
proof (induction rule: table_change.induct)
  case (kept st' P st)
  then show ?case by (auto simp: mailbox_inv_def sorted_wrt_map_filter distinct_map_filter)
next
  case (bumped st st')
  have ids: "map env_id (envelopes st') = map env_id (envelopes st)"
    by (rule list_all2_map_eq [OF bumped(1)]) (simp add: same_content_def)
  have keys: "map (\<lambda>r. (env_family r, env_msg_id r)) (envelopes st') = map (\<lambda>r. (env_family r, env_msg_id r)) (envelopes st)"
    by (rule list_all2_map_eq [OF bumped(1)]) (simp add: same_content_def)
  have "env_id ` set (envelopes st') = env_id ` set (envelopes st)" using ids by (metis list.set_map)
  then have "\<forall>r\<in>set (envelopes st'). 1 \<le> env_id r \<and> env_id r \<le> envelope_seq st"
    using bumped(3) unfolding mailbox_inv_def by (metis (no_types, lifting) imageE imageI)
  then show ?case using bumped ids keys by (simp add: mailbox_inv_def)
next
  case (appended st st' r)
  from appended(5) have "(env_family r, env_msg_id r) \<notin> (\<lambda>r. (env_family r, env_msg_id r)) ` set (envelopes st)"
    by (auto simp: select_existing_None)
  with appended show ?case by (auto simp: mailbox_inv_def sorted_wrt_append)
qed

lemma table_changes_inv: "table_change\<^sup>*\<^sup>* st st' \<Longrightarrow> mailbox_inv st \<Longrightarrow> mailbox_inv st'"
  by (induction rule: rtranclp_induct) (auto intro: table_change_inv)

interpretation relay_run: machine_inv relay_step relay_store_open mailbox_inv
  by unfold_locales
    (simp add: mailbox_inv_def relay_store_open_def i64_max_def, blast intro: table_changes_inv relay_step_change)

subsection \<open>Content of a row\<close>

definition rows_evolve :: "relay_store \<Rightarrow> relay_store \<Rightarrow> bool" where
  "rows_evolve st st' \<longleftrightarrow>
     envelope_seq st \<le> envelope_seq st' \<and>
     (\<forall>r'\<in>set (envelopes st'). env_id r' \<le> envelope_seq st \<longrightarrow> (\<exists>r\<in>set (envelopes st). same_content r r'))"

lemma rows_evolve_refl: "rows_evolve st st"
  by (auto simp: rows_evolve_def intro: same_content_refl)

lemma rows_evolve_trans: "rows_evolve st st' \<Longrightarrow> rows_evolve st' st'' \<Longrightarrow> rows_evolve st st''"
proof -
  assume 1: "rows_evolve st st'" and 2: "rows_evolve st' st''"
  have "\<exists>r\<in>set (envelopes st). same_content r r''"
    if r'': "r'' \<in> set (envelopes st'')" "env_id r'' \<le> envelope_seq st" for r''
  proof -
    from 1 2 r'' obtain r' where r': "r' \<in> set (envelopes st')" "same_content r' r''"
      unfolding rows_evolve_def by force
    then have "env_id r' \<le> envelope_seq st" using r''(2) by (simp add: same_content_def)
    with 1 r' show ?thesis unfolding rows_evolve_def by (meson same_content_trans)
  qed
  with 1 2 show "rows_evolve st st''" by (auto simp: rows_evolve_def)
qed

lemma table_change_evolve: "table_change st st' \<Longrightarrow> rows_evolve st st'"
proof (induction rule: table_change.induct)
  case (bumped st st')
  have "\<exists>r\<in>set (envelopes st). same_content r r'" if "r' \<in> set (envelopes st')" for r'
    using bumped(1) that by (metis in_set_conv_nth list_all2_conv_all_nth)
  then show ?case using bumped(2) by (simp add: rows_evolve_def)
next
  case (appended st st' r)
  have "\<exists>s\<in>set (envelopes st). same_content s r'"
    if "r' \<in> set (envelopes st')" "env_id r' \<le> envelope_seq st" for r'
    using that appended(3,4) by (auto intro: same_content_refl)
  then show ?case using appended(2) by (simp add: rows_evolve_def)
qed (auto simp: rows_evolve_def intro: same_content_refl)

lemma table_changes_evolve: "table_change\<^sup>*\<^sup>* st st' \<Longrightarrow> rows_evolve st st'"
  by (induction rule: rtranclp_induct) (auto intro: rows_evolve_refl rows_evolve_trans table_change_evolve)

interpretation relay_history: machine_mono relay_step "\<lambda>_. True" rows_evolve
  by unfold_locales
    (auto intro: rows_evolve_refl rows_evolve_trans table_changes_evolve relay_step_change)

lemma rows_by_id:
  assumes "mailbox_inv st" "r \<in> set (envelopes st)" "s \<in> set (envelopes st)" "env_id r = env_id s"
  shows "r = s"
proof -
  have "distinct (map env_id (envelopes st))"
    using assms(1) strict_sorted_iff [of "map env_id (envelopes st)"] by (simp add: mailbox_inv_def)
  with assms show ?thesis by (auto simp: distinct_map dest: inj_onD)
qed

lemma select_existing_Some:
  "select_existing st family msg_id = Some (i, sealed) \<Longrightarrow>
   \<exists>r\<in>set (envelopes st). env_id r = i \<and> env_family r = family \<and> env_msg_id r = msg_id \<and> env_sealed r = sealed"
  by (auto simp: select_existing_def find_Some_iff)

lemma insert_with_quota_stored:
  assumes "insert_envelope_with_quota st family msg_id hop_ttl hint sealed expiry_ms now quota depositor =
    Inr (QuotaStored i, st')"
  shows "\<exists>r\<in>set (envelopes st'). env_id r = i \<and> env_family r = family \<and> env_msg_id r = msg_id \<and> env_sealed r = sealed"
  using assms
proof (cases rule: insert_with_quota_cases)
  case (dedupe j)
  then obtain r where "r \<in> set (envelopes st)" "env_id r = i" "env_family r = family" "env_msg_id r = msg_id"
    "env_sealed r = sealed" using select_existing_Some [OF dedupe(1)] by auto
  then show ?thesis
    unfolding dedupe(3) bump_envelope_def
    by (intro bexI [of _ "r\<lparr>env_hop_ttl := max (env_hop_ttl r) hop_ttl,
          env_expiry_ms := max (env_expiry_ms r) (effective_expiry now expiry_ms)\<rparr>"]) (auto simp: image_iff)
next
  case (stored st1)
  then show ?thesis by (auto simp: insert_row_Inr)
qed auto

lemma post_stored:
  "post_envelope st access msg_id hop_ttl hint sealed expiry_ms now = (Inr i, st') \<Longrightarrow>
   \<exists>r\<in>set (envelopes st'). env_id r = i \<and> env_family r = fa_token access \<and> env_msg_id r = msg_id \<and> env_sealed r = sealed"
  by (auto simp: post_envelope_def split: if_splits sum.splits quota_insert_result.splits
           dest: insert_with_quota_stored)

lemma fill_page_subset: "set (fill_page rows page n) \<subseteq> set page \<union> set rows"
  by (induction rows page n rule: fill_page.induct) (auto simp: Let_def split: if_splits)

lemma fetched_rows:
  assumes "get_envelopes st reader hints cursor limit at = Inr (page, next)" "r \<in> set page"
  shows "r \<in> set (envelopes st) \<and> row_matches (fa_token reader) hints at r"
proof -
  obtain after n where "fetch_envelopes st (fa_token reader) hints after n at = Inr page"
    using assms(1) by (auto simp: get_envelopes_def Let_def split: if_splits sum.splits)
  then have "set page \<subseteq> {r \<in> set (envelopes st). row_matches (fa_token reader) hints at r}"
    by (auto simp: fetch_envelopes_def split: if_splits dest!: subsetD [OF fill_page_subset] in_set_takeD)
  with assms(2) show ?thesis by blast
qed

text \<open>
  What a message id means on the relay. A post answered with a row id has its content
  stored under that id, and whatever posts, fetches, acknowledgements, prunings, presence reports and push
  registrations follow, a fetch that returns this id returns the posted message id and sealed bytes, to a
  reader of that family token only, under a hint the reader asked for and unexpired: the first content under
  an id is never replaced and an id is never used again. The runs here leave out the rotation of a family
  token, which moves the rows to the new token, and the deletion of a family: both are in Relay_Families.
\<close>

theorem posted_content_is_kept:
  assumes post: "post_envelope st access msg_id hop_ttl hint sealed expiry_ms now = (Inr i, st')"
    and reach: "st = foldl relay_step relay_store_open before"
    and fetch: "get_envelopes (foldl relay_step st' later) reader hints cursor limit at = Inr (page, next)"
    and row: "r \<in> set page" "env_id r = i"
  shows "env_msg_id r = msg_id \<and> env_sealed r = sealed \<and> fa_token reader = fa_token access \<and>
    env_hint r \<in> set hints \<and> env_expiry_ms r > at"
proof -
  have inv: "mailbox_inv st" by (simp add: reach relay_run.reachable_inv)
  have inv': "mailbox_inv st'"
    using relay_run.inv_step [OF inv, of "OpPost access msg_id hop_ttl hint sealed expiry_ms now"] post by simp
  obtain r0 where r0: "r0 \<in> set (envelopes st')" "env_id r0 = i" "env_family r0 = fa_token access"
    "env_msg_id r0 = msg_id" "env_sealed r0 = sealed"
    using post_stored [OF post] by blast
  have in_table: "r \<in> set (envelopes (foldl relay_step st' later))" and
    m: "row_matches (fa_token reader) hints at r"
    using fetched_rows [OF fetch row(1)] by blast+
  have "i \<le> envelope_seq st'" using inv' r0 by (auto simp: mailbox_inv_def)
  then obtain r1 where r1: "r1 \<in> set (envelopes st')" "same_content r1 r"
    using relay_history.run_rel [of st' later] in_table row(2) by (auto simp: rows_evolve_def)
  then have "r1 = r0" using rows_by_id [OF inv'] r0 row(2) by (simp add: same_content_def)
  with r1 r0 m show ?thesis by (simp add: same_content_def row_matches_def)
qed

definition demo_access :: family_access where
  "demo_access = \<lparr>fa_token = ''fam'', fa_class = Member, fa_rate_key = ''member:fam'', fa_family_key = ''fam'',
     fa_quota_bytes = 1000, fa_depositor = None\<rparr>"

definition demo_friend :: family_access where
  "demo_friend = \<lparr>fa_token = ''fam'', fa_class = Deposit, fa_rate_key = ''deposit:fam'', fa_family_key = ''fam'',
     fa_quota_bytes = 1000, fa_depositor = Some ''cmdep1-x''\<rparr>"

abbreviation (input) "demo_msg n \<equiv> replicate 16 (n :: u8)"
abbreviation (input) "demo_hint \<equiv> replicate 8 (7 :: u8)"

lemmas demo_store_simps =
  post_envelope_def insert_envelope_with_quota_def select_existing_def quota_rejection_def quota_usage_on_def
  family_sealed_bytes_def sealed_bytes_sum_def insert_row_def effective_expiry_def post_expiry_def
  nat_sat_add_def u64_max_def relay_limits i64_defs demo_access_def relay_store_open_def
  deposit_total_share_bytes_def deposit_per_depositor_share_bytes_def percent_of_def
  DEPOSIT_QUOTA_TOTAL_PERCENT_def DEPOSIT_QUOTA_PER_DEPOSITOR_PERCENT_def demo_friend_def

lemma posted_content_is_kept_witness:
  "\<exists>r st'. post_envelope relay_store_open demo_access (demo_msg 1) 3 demo_hint [9, 9] 5000 1000 = (Inr 1, st') \<and>
     get_envelopes (relay_step st' (OpPost demo_access (demo_msg 1) 4 demo_hint [8] 5000 1001)) demo_access [demo_hint]
       (Some 0) None 1002 = Inr ([r], 1) \<and> env_sealed r = [9, 9]"
proof -
  define r where "r = \<lparr>env_id = 1, env_family = ''fam'', env_msg_id = demo_msg 1, env_hop_ttl = 3,
    env_hint = demo_hint, env_sealed = [9, 9], env_expiry_ms = 5000, env_created_at_ms = 1000, env_depositor = ''''\<rparr>"
  define st' where "st' = relay_store_open\<lparr>envelope_seq := 1, envelopes := [r]\<rparr>"
  have post: "post_envelope relay_store_open demo_access (demo_msg 1) 3 demo_hint [9, 9] 5000 1000 = (Inr 1, st')"
    by (simp add: demo_store_simps st'_def r_def MEMBER_DEPOSITOR_def)
  have conflict: "relay_step st' (OpPost demo_access (demo_msg 1) 4 demo_hint [8] 5000 1001) = st'"
    by (simp add: demo_store_simps st'_def r_def)
  have fetch: "get_envelopes st' demo_access [demo_hint] (Some 0) None 1002 = Inr ([r], 1)"
    by (simp add: get_envelopes_def fetch_envelopes_def row_matches_def st'_def r_def Let_def demo_access_def relay_limits)
  have "env_sealed r = [9, 9]"
    using posted_content_is_kept [OF post, of "[]" "[OpPost demo_access (demo_msg 1) 4 demo_hint [8] 5000 1001]"
        demo_access "[demo_hint]" "Some 0" None 1002 "[r]" 1 r] conflict fetch
    by (simp add: r_def)
  with post fetch conflict show ?thesis by auto
qed

section \<open>Storage stays within the quota\<close>

text \<open>
  The three totals an admission looks at are sums over rows of one class. A class is judged by family
  and depositor only, so it is blind to the hop and expiry bumps, and each way of changing the table
  moves a sum in the obvious direction.
\<close>

definition row_class :: "(string \<Rightarrow> string \<Rightarrow> bool) \<Rightarrow> stored_envelope \<Rightarrow> bool" where
  "row_class C r \<longleftrightarrow> C (env_family r) (env_depositor r)"

abbreviation "class_bytes C st \<equiv> sealed_bytes_sum (row_class C) st"

lemma class_bytes_filter:
  "envelopes st' = filter Q (envelopes st) \<Longrightarrow> class_bytes C st' \<le> class_bytes C st"
  unfolding sealed_bytes_sum_def by (simp only: sum_list_map_filter_le)

lemma class_bytes_prune: "class_bytes C (snd (prune_expired_on st now)) \<le> class_bytes C st"
  by (rule class_bytes_filter) (simp add: prune_expired_on_def Let_def)

lemma class_bytes_bump: "class_bytes C (bump_envelope st family msg_id hop_ttl expiry_ms) = class_bytes C st"
proof -
  have "sum_list (map (\<lambda>r. length (env_sealed r)) (filter (row_class C) (map (\<lambda>r. if P r
          then r\<lparr>env_hop_ttl := h r, env_expiry_ms := e r\<rparr> else r) xs))) =
        sum_list (map (\<lambda>r. length (env_sealed r)) (filter (row_class C) xs))" for P h e xs
    by (induction xs) (auto simp: row_class_def)
  then show ?thesis by (simp add: sealed_bytes_sum_def bump_envelope_def)
qed

lemma class_bytes_insert:
  assumes "insert_row st family msg_id hop_ttl hint sealed expiry_ms created_at_ms depositor = Inr (i, st')"
  shows "class_bytes C st' = class_bytes C st + (if C family depositor then length sealed else 0)"
  using assms by (auto simp: insert_row_Inr sealed_bytes_sum_def row_class_def)

lemma family_class: "family_sealed_bytes st f = class_bytes (\<lambda>g _. g = f) st"
  unfolding family_sealed_bytes_def by (rule arg_cong2 [of _ _ _ _ sealed_bytes_sum]) (auto simp: row_class_def)

lemma deposit_class:
  "sealed_bytes_sum (\<lambda>r. env_family r = f \<and> env_depositor r \<noteq> '''') st = class_bytes (\<lambda>g d. g = f \<and> d \<noteq> '''') st"
  by (rule arg_cong2 [of _ _ _ _ sealed_bytes_sum]) (auto simp: row_class_def)

lemma depositor_class:
  "sealed_bytes_sum (\<lambda>r. env_family r = f \<and> env_depositor r = e) st = class_bytes (\<lambda>g d. g = f \<and> d = e) st"
  by (rule arg_cong2 [of _ _ _ _ sealed_bytes_sum]) (auto simp: row_class_def)

lemma nat_sat_add_le: "q < u64_max \<Longrightarrow> nat_sat_add a b > q \<longleftrightarrow> a + b > q"
  by (auto simp: nat_sat_add_def)

lemma percent_of_le: "p \<le> 100 \<Longrightarrow> q < u64_max \<Longrightarrow> percent_of q p < u64_max"
proof -
  assume p: "p \<le> 100" and q: "q < u64_max"
  have "q * p div 100 \<le> q * 100 div 100" using p by (intro div_le_mono) simp
  moreover have "percent_of q p \<le> q * p div 100" unfolding percent_of_def by (rule mod_less_eq_dividend)
  ultimately show ?thesis using q by simp
qed

definition quota_inv :: "string \<Rightarrow> nat \<Rightarrow> relay_store \<Rightarrow> bool" where
  "quota_inv f q st \<longleftrightarrow>
     class_bytes (\<lambda>g _. g = f) st \<le> q \<and>
     class_bytes (\<lambda>g d. g = f \<and> d \<noteq> '''') st \<le> deposit_total_share_bytes q \<and>
     (\<forall>e. e \<noteq> '''' \<longrightarrow> class_bytes (\<lambda>g d. g = f \<and> d = e) st \<le> deposit_per_depositor_share_bytes q)"

lemma quota_inv_smaller:
  "(\<And>C. class_bytes C st' \<le> class_bytes C st) \<Longrightarrow> quota_inv f q st \<Longrightarrow> quota_inv f q st'"
  unfolding quota_inv_def by (meson le_trans)

lemma quota_inv_insert:
  assumes ins: "insert_row st family msg_id hop_ttl hint sealed expiry_ms now
       (case depositor of None \<Rightarrow> MEMBER_DEPOSITOR | Some d \<Rightarrow> d) = Inr (i, st')"
    and ok: "quota_rejection (quota_usage_on st family depositor) (length sealed) quota depositor = None"
    and inv: "quota_inv f q st" and q: "family = f \<Longrightarrow> quota = q" and small: "q < u64_max"
  shows "quota_inv f q st'"
proof (cases "family = f")
  case False
  then show ?thesis using inv by (simp add: quota_inv_def class_bytes_insert [OF ins])
next
  case True
  have share: "deposit_total_share_bytes q < u64_max" "deposit_per_depositor_share_bytes q < u64_max"
    using small percent_of_le [of _ q]
    by (simp_all add: deposit_total_share_bytes_def deposit_per_depositor_share_bytes_def
          DEPOSIT_QUOTA_TOTAL_PERCENT_def DEPOSIT_QUOTA_PER_DEPOSITOR_PERCENT_def)
  have fam: "class_bytes (\<lambda>g _. g = f) st + length sealed \<le> q"
    using ok True q nat_sat_add_le [OF small]
    by (auto simp: quota_rejection_def quota_usage_on_def family_class split: if_splits option.splits)
  have dep: "class_bytes (\<lambda>g d. g = f \<and> d \<noteq> '''') st + length sealed \<le> deposit_total_share_bytes q \<and>
      class_bytes (\<lambda>g d. g = f \<and> d = e) st + length sealed \<le> deposit_per_depositor_share_bytes q"
    if "depositor = Some e" for e
    using ok True q that nat_sat_add_le [OF share(1)] nat_sat_add_le [OF share(2)]
    by (auto simp: quota_rejection_def quota_usage_on_def deposit_class depositor_class Let_def split: if_splits)
  show ?thesis
    using fam inv dep True
    by (cases depositor) (auto simp: quota_inv_def class_bytes_insert [OF ins] MEMBER_DEPOSITOR_def)
qed

definition posts_under :: "string \<Rightarrow> nat \<Rightarrow> relay_op \<Rightarrow> bool" where
  "posts_under f q op \<longleftrightarrow>
     (case op of OpPost access _ _ _ _ _ _ \<Rightarrow> fa_token access \<noteq> f \<or> fa_quota_bytes access = q | _ \<Rightarrow> True)"

lemma quota_inv_post:
  assumes "quota_inv f q st" "fa_token access = f \<Longrightarrow> fa_quota_bytes access = q" "q < u64_max"
  shows "quota_inv f q (snd (post_envelope st access msg_id hop_ttl hint sealed expiry_ms now))"
proof -
  have "quota_inv f q st'"
    if "insert_envelope_with_quota st (fa_token access) msg_id hop_ttl hint sealed ex now
          (fa_quota_bytes access) (fa_depositor access) = Inr (res, st')" for ex res st'
    using that
  proof (cases rule: insert_with_quota_cases)
    case (stored st1)
    have "quota_inv f q st1"
      using stored(2) assms(1) quota_inv_smaller class_bytes_prune by metis
    with stored(4,3) show ?thesis by (rule quota_inv_insert) (use assms in simp_all)
  qed (use assms(1) quota_inv_smaller class_bytes_prune class_bytes_bump in \<open>metis order_refl\<close>)+
  then show ?thesis using assms(1) by (simp add: post_envelope_def split: sum.splits)
qed

lemma quota_inv_step:
  assumes "quota_inv f q st" "posts_under f q op" "q < u64_max"
  shows "quota_inv f q (relay_step st op)"
proof (cases op)
  case (OpPost access msg_id hop_ttl hint sealed expiry_ms now)
  with assms show ?thesis using quota_inv_post by (simp add: posts_under_def)
next
  case (OpAck access ids)
  have "\<exists>Q. envelopes (relay_step st op) = filter Q (envelopes st)"
    unfolding OpAck relay_step.simps ack_envelopes_def store_ack_envelopes_def Let_def
    by (auto simp: split: sum.splits if_splits intro: exI [of _ "\<lambda>_. True"])
  then show ?thesis using assms(1) quota_inv_smaller class_bytes_filter by metis
next
  case (OpPresence access announce query now)
  have "\<exists>Q. envelopes (relay_step st op) = filter Q (envelopes st)"
    unfolding OpPresence relay_step.simps sync_presence_def store_sync_presence_def prune_expired_on_def Let_def
    by (auto simp: case_prod_beta intro: exI [of _ "\<lambda>_. True"])
  then show ?thesis using assms(1) quota_inv_smaller class_bytes_filter by metis
next
  case (OpPrune now)
  then show ?thesis using assms(1) quota_inv_smaller class_bytes_prune by (metis relay_step.simps(3))
next
  case (OpPushRegister family device hints now)
  have "envelopes (relay_step st op) = envelopes st"
    unfolding OpPushRegister relay_step.simps replace_push_registration_def Let_def
    by (auto simp: and_then_Inr split: sum.splits if_splits)
  then show ?thesis using assms(1) by (simp add: quota_inv_def sealed_bytes_sum_def)
next
  case (OpPushRemove device)
  then show ?thesis using assms(1)
    by (simp add: quota_inv_def sealed_bytes_sum_def remove_push_device_token_def Let_def)
qed

text \<open>
  Claim C27. Fair storage. As long as every post to a family is admitted under the same quota, then
  whatever its members and friend-card holders post, acknowledge and let expire, in any order and against any
  traffic of other families: the sealed bytes stored for the family never exceed the quota, the rows deposited
  with friend credentials together never exceed half of it, and the rows of one credential never a quarter.
\<close>

theorem family_storage_bounded:
  assumes "quota < u64_max" and "list_all (posts_under family quota) ops"
  shows "family_sealed_bytes (foldl relay_step relay_store_open ops) family \<le> quota \<and>
    sealed_bytes_sum (\<lambda>r. env_family r = family \<and> env_depositor r \<noteq> '''') (foldl relay_step relay_store_open ops)
      \<le> quota div 2 \<and>
    (e \<noteq> '''' \<longrightarrow> sealed_bytes_sum (\<lambda>r. env_family r = family \<and> env_depositor r = e)
      (foldl relay_step relay_store_open ops) \<le> quota div 4)"
proof -
  have "quota_inv family quota st \<Longrightarrow> quota_inv family quota (foldl relay_step st ops)" for st
    using assms(2) by (induction ops arbitrary: st) (simp_all add: quota_inv_step assms(1))
  then have inv: "quota_inv family quota (foldl relay_step relay_store_open ops)"
    by (simp add: quota_inv_def sealed_bytes_sum_def relay_store_open_def)
  have "deposit_total_share_bytes quota \<le> quota div 2" "deposit_per_depositor_share_bytes quota \<le> quota div 4"
    by (auto simp: deposit_total_share_bytes_def deposit_per_depositor_share_bytes_def percent_of_def
          DEPOSIT_QUOTA_TOTAL_PERCENT_def DEPOSIT_QUOTA_PER_DEPOSITOR_PERCENT_def
        intro!: order_trans [OF mod_less_eq_dividend])
  with inv show ?thesis
    unfolding quota_inv_def family_class deposit_class depositor_class by (auto intro: order_trans)
qed

lemma family_storage_bounded_witness:
  "sealed_bytes_sum (\<lambda>r. env_family r = ''fam'' \<and> env_depositor r = ''cmdep1-x'')
     (foldl relay_step relay_store_open
       [OpPost demo_friend (demo_msg 1) 3 demo_hint (replicate 200 9) 5000 1000,
        OpPost demo_friend (demo_msg 2) 3 demo_hint (replicate 200 9) 5000 1001]) \<le> 250"
proof -
  have "list_all (posts_under ''fam'' 1000)
       [OpPost demo_friend (demo_msg 1) 3 demo_hint (replicate 200 9) 5000 1000,
        OpPost demo_friend (demo_msg 2) 3 demo_hint (replicate 200 9) 5000 1001]"
    by (simp add: posts_under_def demo_friend_def)
  moreover have "(1000 :: nat) < u64_max" by (simp add: u64_max_def)
  ultimately show ?thesis
    using family_storage_bounded [of 1000 "''fam''" _ "''cmdep1-x''"] by fastforce
qed

section \<open>Fetch pages\<close>

abbreviation "page_bytes page \<equiv> sum_list (map (\<lambda>r. length (env_sealed r)) page)"

definition pending :: "relay_store \<Rightarrow> string \<Rightarrow> bytes list \<Rightarrow> i64 \<Rightarrow> i64 \<Rightarrow> stored_envelope list" where
  "pending st family hints now after = filter (\<lambda>r. row_matches family hints now r \<and> env_id r > after) (envelopes st)"

lemma fill_page_grows:
  assumes "page \<noteq> []" "sealed_bytes = min (page_bytes page) u64_max" "length page = 1 \<or> page_bytes page \<le> MAX_FETCH_PAGE_SEALED_BYTES"
  shows "\<exists>n\<le>length rows. fill_page rows page sealed_bytes = page @ take n rows \<and>
     (length page + n = 1 \<or> page_bytes (page @ take n rows) \<le> MAX_FETCH_PAGE_SEALED_BYTES) \<and>
     (n < length rows \<longrightarrow> page_bytes (page @ take (Suc n) rows) > MAX_FETCH_PAGE_SEALED_BYTES)"
  using assms
proof (induction rows page sealed_bytes rule: fill_page.induct)
  case (2 row rows page sealed_bytes)
  let ?next = "nat_sat_add sealed_bytes (length (env_sealed row))"
  have big: "?next > MAX_FETCH_PAGE_SEALED_BYTES \<longleftrightarrow> page_bytes (page @ [row]) > MAX_FETCH_PAGE_SEALED_BYTES"
    by (auto simp: 2(3) nat_sat_add_def u64_max_def MAX_FETCH_PAGE_SEALED_BYTES_def)
  show ?case
  proof (cases "?next > MAX_FETCH_PAGE_SEALED_BYTES")
    case True
    then show ?thesis using 2(2,4) big by (intro exI [of _ 0]) auto
  next
    case False
    have next_eq: "?next = min (page_bytes (page @ [row])) u64_max"
      by (auto simp: 2(3) nat_sat_add_def)
    have "\<exists>n\<le>length rows. fill_page rows (page @ [row]) ?next = (page @ [row]) @ take n rows \<and>
       (length (page @ [row]) + n = 1 \<or> page_bytes ((page @ [row]) @ take n rows) \<le> MAX_FETCH_PAGE_SEALED_BYTES) \<and>
       (n < length rows \<longrightarrow> page_bytes ((page @ [row]) @ take (Suc n) rows) > MAX_FETCH_PAGE_SEALED_BYTES)"
      by (rule 2(1)) (use False big next_eq in auto)
    then obtain n where "n \<le> length rows" "fill_page rows (page @ [row]) ?next = (page @ [row]) @ take n rows"
      "length (page @ [row]) + n = 1 \<or> page_bytes ((page @ [row]) @ take n rows) \<le> MAX_FETCH_PAGE_SEALED_BYTES"
      "n < length rows \<longrightarrow> page_bytes ((page @ [row]) @ take (Suc n) rows) > MAX_FETCH_PAGE_SEALED_BYTES" by blast
    then show ?thesis using False 2(2) by (intro exI [of _ "Suc n"]) auto
  qed
qed auto

lemma fill_page_prefix:
  "\<exists>n\<le>length rows. fill_page rows [] 0 = take n rows \<and> (rows \<noteq> [] \<longrightarrow> n > 0) \<and>
     (n \<le> 1 \<or> page_bytes (take n rows) \<le> MAX_FETCH_PAGE_SEALED_BYTES) \<and>
     (n < length rows \<longrightarrow> page_bytes (take (Suc n) rows) > MAX_FETCH_PAGE_SEALED_BYTES)"
proof (cases rows)
  case (Cons row rest)
  have "\<exists>n\<le>length rest. fill_page rest [row] (nat_sat_add 0 (length (env_sealed row))) = [row] @ take n rest \<and>
     (length [row] + n = 1 \<or> page_bytes ([row] @ take n rest) \<le> MAX_FETCH_PAGE_SEALED_BYTES) \<and>
     (n < length rest \<longrightarrow> page_bytes ([row] @ take (Suc n) rest) > MAX_FETCH_PAGE_SEALED_BYTES)"
    by (rule fill_page_grows) (simp_all add: nat_sat_add_def)
  then obtain n where "n \<le> length rest"
    "fill_page rest [row] (nat_sat_add 0 (length (env_sealed row))) = [row] @ take n rest"
    "length [row] + n = 1 \<or> page_bytes ([row] @ take n rest) \<le> MAX_FETCH_PAGE_SEALED_BYTES"
    "n < length rest \<longrightarrow> page_bytes ([row] @ take (Suc n) rest) > MAX_FETCH_PAGE_SEALED_BYTES" by blast
  then show ?thesis by (intro exI [of _ "Suc n"]) (auto simp: Cons)
qed simp

lemma fetch_is_prefix:
  assumes "mailbox_inv st" "hints \<noteq> []" "length hints \<le> MAX_FETCH_HINTS"
  shows "fetch_envelopes st family hints after limit now =
     Inr (fill_page (take (min limit MAX_FETCH_LIMIT) (pending st family hints now after)) [] 0)"
proof -
  have "sorted (map env_id (pending st family hints now after))"
    using assms(1) sorted_wrt_map_filter strict_sorted_imp_sorted
    by (fastforce simp: mailbox_inv_def pending_def)
  with assms(2,3) show ?thesis
    by (simp add: fetch_envelopes_def pending_def sort_key_id_if_sorted)
qed

lemma mailbox_page:
  assumes inv: "mailbox_inv st"
    and hints: "hints \<noteq> []" "length hints \<le> MAX_FETCH_HINTS" and after: "after \<ge> 0" and limit: "limit > 0"
  shows "\<exists>n page next. get_envelopes st access hints (Some after) (Some limit) now = Inr (page, next) \<and>
     page = take n (pending st (fa_token access) hints now after) \<and> sorted_wrt (<) (map env_id page) \<and>
     (page = [] \<longleftrightarrow> pending st (fa_token access) hints now after = []) \<and>
     length page \<le> min limit MAX_FETCH_LIMIT \<and>
     (length page \<le> 1 \<or> page_bytes page \<le> MAX_FETCH_PAGE_SEALED_BYTES) \<and>
     (length page = min limit MAX_FETCH_LIMIT \<or> page = pending st (fa_token access) hints now after \<or>
      page_bytes (take (Suc n) (pending st (fa_token access) hints now after)) > MAX_FETCH_PAGE_SEALED_BYTES) \<and>
     next = (if page = [] then after else env_id (last page)) \<and>
     set page = {r \<in> set (pending st (fa_token access) hints now after). env_id r \<le> next}"
proof -
  define rows where "rows = pending st (fa_token access) hints now after"
  define l where "l = min limit MAX_FETCH_LIMIT"
  have l: "l > 0" using limit by (simp add: l_def MAX_FETCH_LIMIT_def)
  have sorted: "sorted_wrt (<) (map env_id rows)"
    using inv by (simp add: rows_def pending_def mailbox_inv_def sorted_wrt_map_filter)
  obtain n where n: "n \<le> length (take l rows)" "fill_page (take l rows) [] 0 = take n (take l rows)"
    "take l rows \<noteq> [] \<longrightarrow> n > 0" "n \<le> 1 \<or> page_bytes (take n (take l rows)) \<le> MAX_FETCH_PAGE_SEALED_BYTES"
    "n < length (take l rows) \<longrightarrow> page_bytes (take (Suc n) (take l rows)) > MAX_FETCH_PAGE_SEALED_BYTES"
    using fill_page_prefix [of "take l rows"] by blast
  define page where "page = take n rows"
  define nxt where "nxt = (if page = [] then after else env_id (last page))"
  have nl: "n \<le> l" "n \<le> length rows" using n(1) by auto
  have page: "fill_page (take l rows) [] 0 = page" using n(2) nl by (simp add: page_def min_absorb1)
  have get: "get_envelopes st access hints (Some after) (Some limit) now = Inr (page, nxt)"
    using after page fetch_is_prefix [OF inv hints] rows_def l_def nxt_def
    by (simp add: get_envelopes_def Let_def)
  have empty: "page = [] \<longleftrightarrow> rows = []" using n(3) l by (auto simp: page_def)
  have early: "length page = l \<or> page = rows \<or> page_bytes (take (Suc n) rows) > MAX_FETCH_PAGE_SEALED_BYTES"
    using n(5) nl by (cases "n < length rows"; cases "n < l") (auto simp: page_def min_def take_Suc_conv_app_nth)
  have split: "rows = page @ drop n rows" by (simp add: page_def)
  have "set page = {r \<in> set rows. env_id r \<le> nxt}"
  proof (cases "page = []")
    case True
    then show ?thesis using empty by simp
  next
    case False
    have sw: "sorted_wrt (<) (map env_id (page @ drop n rows))" using sorted split by simp
    have low: "env_id r \<le> nxt" if "r \<in> set page" for r
      using sw False that sorted_wrt_le_last [of env_id page r] by (simp add: nxt_def sorted_wrt_append)
    have high: "nxt < env_id r" if "r \<in> set (drop n rows)" for r
      using sw False that last_in_set [OF False] by (auto simp: nxt_def sorted_wrt_append)
    show ?thesis using low high split by (metis (no_types, lifting) Un_iff linorder_not_le set_append Collect_cong Collect_mem_eq)
  qed
  then show ?thesis
    using get sorted empty early nl n(4) page_def nxt_def rows_def l_def
    by (intro exI [of _ n] exI [of _ page] exI [of _ nxt]) (auto simp: sorted_wrt_take take_map [symmetric])
qed

text \<open>
  What a page of a mailbox holds. In every reachable store a fetch behind a non-negative cursor returns a
  prefix of the family's live rows for the asked hints above the cursor, in ascending id order, and the
  cursor to continue from. The page is empty exactly when there is no such row, so an empty page is the
  end of the mailbox; it has at most as many rows as asked and at most 500; a page of more than one row
  keeps within the byte budget; and it ends early only when the next row would break the budget.
  Every matching row at or below the returned cursor and above the asked one is on the page.
\<close>

theorem fetch_page_exact:
  assumes st: "st = foldl relay_step relay_store_open ops"
    and hints: "hints \<noteq> []" "length hints \<le> MAX_FETCH_HINTS" and after: "after \<ge> 0" and limit: "limit > 0"
  shows "\<exists>n page next. get_envelopes st access hints (Some after) (Some limit) now = Inr (page, next) \<and>
     page = take n (pending st (fa_token access) hints now after) \<and> sorted_wrt (<) (map env_id page) \<and>
     (page = [] \<longleftrightarrow> pending st (fa_token access) hints now after = []) \<and>
     length page \<le> min limit MAX_FETCH_LIMIT \<and>
     (length page \<le> 1 \<or> page_bytes page \<le> MAX_FETCH_PAGE_SEALED_BYTES) \<and>
     (length page = min limit MAX_FETCH_LIMIT \<or> page = pending st (fa_token access) hints now after \<or>
      page_bytes (take (Suc n) (pending st (fa_token access) hints now after)) > MAX_FETCH_PAGE_SEALED_BYTES) \<and>
     next = (if page = [] then after else env_id (last page)) \<and>
     set page = {r \<in> set (pending st (fa_token access) hints now after). env_id r \<le> next}"
  unfolding st by (rule mailbox_page [OF relay_run.reachable_inv hints after limit])

definition demo_posts :: "relay_op list" where
  "demo_posts =
     [OpPost demo_access (demo_msg 1) 3 demo_hint [9] 5000 1000, OpPost demo_access (demo_msg 2) 3 demo_hint [8] 900 1001,
      OpPost demo_friend (demo_msg 3) 3 demo_hint [7] 5000 1002]"

lemma fetch_page_exact_witness:
  "\<exists>page next. get_envelopes (foldl relay_step relay_store_open demo_posts) demo_access [demo_hint] (Some 0) (Some 10) 1003 =
     Inr (page, next) \<and> length page \<le> 10 \<and> sorted_wrt (<) (map env_id page) \<and>
     next = (if page = [] then 0 else env_id (last page))"
proof -
  have hints: "[demo_hint] \<noteq> []" "length [demo_hint] \<le> MAX_FETCH_HINTS" by (simp_all add: relay_limits)
  have "(0 :: int) \<le> 0" "(0 :: nat) < 10" by simp_all
  from fetch_page_exact [OF refl hints this, of demo_posts demo_access 1003]
  obtain page nxt where "get_envelopes (foldl relay_step relay_store_open demo_posts) demo_access [demo_hint]
      (Some 0) (Some 10) 1003 = Inr (page, nxt)" "sorted_wrt (<) (map env_id page)"
    "length page \<le> min 10 MAX_FETCH_LIMIT" "nxt = (if page = [] then 0 else env_id (last page))"
    by blast
  then show ?thesis by (intro exI [of _ page] exI [of _ nxt]) (simp add: relay_limits)
qed

end
