(* ===== verification/Relay_Cursor.thy ===== *)
theory Relay_Cursor
  imports Mesh_Prelude
begin

text \<open>
  How a client walks a relay mailbox: the cursor policy of \<open>core/src/relay_cursor.rs\<close>, the cursor
  table of \<open>core/src/store.rs\<close> and the walk of one mailbox in \<open>core/src/session/relay_pass.rs\<close>
  (\<open>start_walk\<close>, \<open>emit_walk_step\<close>, \<open>apply_fetch\<close>, \<open>apply_oversize\<close>, \<open>commit_page\<close>). The table is a map from the
  mailbox key to its row; reads and writes of it do not fail here. What the network and the
  message store answer (the rows of a page, whether they were stored, whether an acknowledgement is owed and
  succeeds) is an event. The protocol-event log, which records decisions and feeds nothing back, is left out.
  The lemmas show when a cursor moves, that a pass ends, how often a mailbox is swept, and that a sweep
  reaches the end of the mailbox having presented every row on the way.
\<close>

section \<open>Policy\<close>

definition RELAY_SWEEP_INTERVAL_MS :: i64 where
  "RELAY_SWEEP_INTERVAL_MS = 6 * 60 * 60 * 1000"

definition RELAY_MAILBOX_MAX_PAGES_PER_PASS :: u32 where
  "RELAY_MAILBOX_MAX_PAGES_PER_PASS = 4"

definition RELAY_MAILBOX_MAX_ENVELOPES_PER_PASS :: u32 where
  "RELAY_MAILBOX_MAX_ENVELOPES_PER_PASS = 512"

definition RELAY_MAILBOX_CONTINUATION_DELAY_MS :: i64 where
  "RELAY_MAILBOX_CONTINUATION_DELAY_MS = 1000"

definition RELAY_FETCH_MAX_ROWS :: u32 where
  "RELAY_FETCH_MAX_ROWS = 256"

datatype walk_action = ContinueWalk | YieldAndScheduleContinuation

definition relay_mailbox_walk_action :: "u32 \<Rightarrow> u32 \<Rightarrow> walk_action" where
  "relay_mailbox_walk_action pages_fetched envelopes_fetched =
     (if pages_fetched \<ge> RELAY_MAILBOX_MAX_PAGES_PER_PASS \<or> envelopes_fetched \<ge> RELAY_MAILBOX_MAX_ENVELOPES_PER_PASS
      then YieldAndScheduleContinuation else ContinueWalk)"

definition relay_sweep_due :: "bool \<Rightarrow> i64 \<Rightarrow> i64 \<Rightarrow> i64 \<Rightarrow> bool" where
  "relay_sweep_due swept_this_session last_sweep_at_ms sweep_progress_after_id now_ms =
     (if sweep_progress_after_id > 0 then True
      else if last_sweep_at_ms \<le> 0 then \<not> swept_this_session
      else if now_ms < last_sweep_at_ms then True
      else now_ms - last_sweep_at_ms \<ge> RELAY_SWEEP_INTERVAL_MS)"

definition relay_pass_start_cursor :: "bool \<Rightarrow> i64 \<Rightarrow> i64 \<Rightarrow> i64" where
  "relay_pass_start_cursor sweeping persisted_after_id sweep_progress_after_id =
     (if sweeping then max sweep_progress_after_id 0 else max persisted_after_id 0)"

definition relay_sweep_restart_from_zero :: "i64 \<Rightarrow> i64 \<Rightarrow> i64 \<Rightarrow> bool" where
  "relay_sweep_restart_from_zero sweep_progress_after_id sweep_started_at_ms now_ms =
     (if sweep_progress_after_id \<le> 0 then False
      else if sweep_started_at_ms \<le> 0 \<or> now_ms < sweep_started_at_ms then True
      else now_ms - sweep_started_at_ms \<ge> RELAY_SWEEP_INTERVAL_MS)"

definition relay_cursor_advance :: "i64 \<Rightarrow> i64 \<Rightarrow> bool \<Rightarrow> i64" where
  "relay_cursor_advance persisted_after_id page_next_cursor page_fully_processed =
     (let persisted = max persisted_after_id 0 in
      if \<not> page_fully_processed \<or> page_next_cursor \<le> persisted then persisted else page_next_cursor)"

definition relay_frontier_after_completed_sweep :: "i64 \<Rightarrow> i64 \<Rightarrow> i64" where
  "relay_frontier_after_completed_sweep persisted_after_id swept_through_id =
     (let persisted = max persisted_after_id 0; swept = max swept_through_id 0 in
      if swept \<le> 0 \<or> swept \<ge> persisted then persisted else swept)"

definition relay_fetch_walk_continues :: "u32 \<Rightarrow> i64 \<Rightarrow> i64 \<Rightarrow> bool" where
  "relay_fetch_walk_continues page_envelope_count after_id page_next_cursor \<longleftrightarrow>
     page_envelope_count > 0 \<and> page_next_cursor > after_id"

definition relay_fetch_batch_limit :: u32 where
  "relay_fetch_batch_limit = RELAY_FETCH_MAX_ROWS"

definition relay_fetch_shrunk_limit :: "u32 \<Rightarrow> u32 option" where
  "relay_fetch_shrunk_limit current_limit =
     (let current = min current_limit RELAY_FETCH_MAX_ROWS in
      if current \<le> 1 then None else Some (max (current div 2) 1))"

lemmas relay_policy =
  RELAY_SWEEP_INTERVAL_MS_def RELAY_MAILBOX_MAX_PAGES_PER_PASS_def RELAY_MAILBOX_MAX_ENVELOPES_PER_PASS_def
  RELAY_FETCH_MAX_ROWS_def relay_mailbox_walk_action_def relay_fetch_batch_limit_def

section \<open>The hint-source digest\<close>

text \<open>
  \<open>digest\<close> stands for the keyed hash and its base64url rendering, which are third-party code.
\<close>

definition RELAY_HINT_SOURCE_DIGEST_CONTEXT :: bytes where
  "RELAY_HINT_SOURCE_DIGEST_CONTEXT = map (\<lambda>c. of_nat (of_char c)) ''cruisemesh relay hint source set v1''"

definition hint_source_frame :: "bytes \<Rightarrow> bytes" where
  "hint_source_frame i = u64_bytes (of_nat (length i)) @ i"

definition relay_hint_source_digest :: "(bytes \<Rightarrow> string) \<Rightarrow> bytes list \<Rightarrow> string" where
  "relay_hint_source_digest digest source_ids =
     digest (RELAY_HINT_SOURCE_DIGEST_CONTEXT @ concat (map hint_source_frame (remdups_adj (sort source_ids))))"

section \<open>The cursor table\<close>

record fetch_cursor_row =
  after_id :: i64
  last_sweep_at_ms :: i64
  sweep_after_id :: i64
  sweep_started_at_ms :: i64

record cursor_store =
  fetch_cursors :: "string \<rightharpoonup> fetch_cursor_row"
  hint_source_digest :: "string option"

definition no_cursor :: fetch_cursor_row where
  "no_cursor = \<lparr>after_id = 0, last_sweep_at_ms = 0, sweep_after_id = 0, sweep_started_at_ms = 0\<rparr>"

definition relay_fetch_cursor :: "cursor_store \<Rightarrow> string \<Rightarrow> fetch_cursor_row" where
  "relay_fetch_cursor st config_key =
     (if config_key = '''' then no_cursor
      else case fetch_cursors st config_key of None \<Rightarrow> no_cursor | Some c \<Rightarrow> c)"

definition upsert_cursor ::
  "cursor_store \<Rightarrow> string \<Rightarrow> fetch_cursor_row \<Rightarrow> (fetch_cursor_row \<Rightarrow> fetch_cursor_row) \<Rightarrow> cursor_store" where
  "upsert_cursor st config_key fresh update =
     st\<lparr>fetch_cursors := (fetch_cursors st)(config_key \<mapsto>
          (case fetch_cursors st config_key of None \<Rightarrow> fresh | Some c \<Rightarrow> update c))\<rparr>"

definition advance_relay_fetch_cursor :: "cursor_store \<Rightarrow> string \<Rightarrow> i64 \<Rightarrow> bool \<Rightarrow> i64 \<times> cursor_store" where
  "advance_relay_fetch_cursor st config_key page_next_cursor page_fully_processed =
     (if config_key = '''' then (0, st)
      else
        let persisted = (case fetch_cursors st config_key of None \<Rightarrow> 0 | Some c \<Rightarrow> after_id c);
            advanced = relay_cursor_advance persisted page_next_cursor page_fully_processed
        in if advanced = persisted then (persisted, st)
           else (advanced, upsert_cursor st config_key (no_cursor\<lparr>after_id := advanced\<rparr>) (after_id_update (\<lambda>_. advanced))))"

definition advance_relay_sweep_cursor :: "cursor_store \<Rightarrow> string \<Rightarrow> i64 \<Rightarrow> bool \<Rightarrow> i64 \<Rightarrow> i64 \<times> cursor_store" where
  "advance_relay_sweep_cursor st config_key page_next_cursor page_fully_processed now_ms =
     (if config_key = '''' then (0, st)
      else
        let persisted = (case fetch_cursors st config_key of None \<Rightarrow> 0 | Some c \<Rightarrow> sweep_after_id c);
            advanced = relay_cursor_advance persisted page_next_cursor page_fully_processed
        in if advanced = persisted then (persisted, st)
           else if persisted \<le> 0
           then (advanced, upsert_cursor st config_key
                   (no_cursor\<lparr>sweep_after_id := advanced, sweep_started_at_ms := now_ms\<rparr>)
                   (\<lambda>c. c\<lparr>sweep_after_id := advanced, sweep_started_at_ms := now_ms\<rparr>))
           else (advanced, upsert_cursor st config_key (no_cursor\<lparr>sweep_after_id := advanced\<rparr>)
                   (sweep_after_id_update (\<lambda>_. advanced))))"

definition reset_relay_sweep_progress :: "cursor_store \<Rightarrow> string \<Rightarrow> i64 \<Rightarrow> cursor_store" where
  "reset_relay_sweep_progress st config_key now_ms =
     (if config_key = '''' then st
      else st\<lparr>fetch_cursors := (fetch_cursors st)(config_key :=
             map_option (\<lambda>c. c\<lparr>sweep_after_id := 0, sweep_started_at_ms := now_ms\<rparr>) (fetch_cursors st config_key))\<rparr>)"

definition note_relay_sweep_completed :: "cursor_store \<Rightarrow> string \<Rightarrow> i64 \<Rightarrow> i64 \<Rightarrow> bool \<times> cursor_store" where
  "note_relay_sweep_completed st config_key now_ms swept_through_id =
     (if config_key = '''' then (False, st)
      else
        let persisted = (case fetch_cursors st config_key of None \<Rightarrow> 0 | Some c \<Rightarrow> after_id c);
            repaired = relay_frontier_after_completed_sweep persisted swept_through_id;
            row = \<lparr>after_id = repaired, last_sweep_at_ms = now_ms, sweep_after_id = 0, sweep_started_at_ms = 0\<rparr>
        in (repaired < persisted, upsert_cursor st config_key row (\<lambda>_. row)))"

definition clear_relay_fetch_cursors :: "cursor_store \<Rightarrow> cursor_store" where
  "clear_relay_fetch_cursors st = st\<lparr>fetch_cursors := Map.empty\<rparr>"

definition note_relay_hint_sources :: "(bytes \<Rightarrow> string) \<Rightarrow> cursor_store \<Rightarrow> bytes list \<Rightarrow> bool \<times> cursor_store" where
  "note_relay_hint_sources digest st source_ids =
     (let d = relay_hint_source_digest digest source_ids in
      if hint_source_digest st = Some d then (False, st)
      else
        let invalidates = hint_source_digest st \<noteq> None;
            cursors = (if invalidates
              then (\<lambda>k. map_option (\<lambda>c. c\<lparr>after_id := 0, sweep_after_id := 0, sweep_started_at_ms := 0\<rparr>) (fetch_cursors st k))
              else fetch_cursors st)
        in (invalidates, st\<lparr>fetch_cursors := cursors, hint_source_digest := Some d\<rparr>))"

section \<open>The walk of one mailbox\<close>

record walk_state =
  sweeping :: bool
  walk_after_id :: i64
  walk_limit :: u32
  pages :: u32
  walk_envelopes :: u32
  swept_through :: i64
  walk_done :: bool

definition start_walk :: "cursor_store \<Rightarrow> string \<Rightarrow> bool \<Rightarrow> i64 \<Rightarrow> walk_state \<times> cursor_store" where
  "start_walk st key swept_this_session now =
     (let cursor = relay_fetch_cursor st key;
          sweep = relay_sweep_due swept_this_session (last_sweep_at_ms cursor) (sweep_after_id cursor) now;
          restart = (sweep \<and> relay_sweep_restart_from_zero (sweep_after_id cursor) (sweep_started_at_ms cursor) now);
          st' = (if restart then reset_relay_sweep_progress st key now else st);
          sweep_progress = (if restart then 0 else sweep_after_id cursor);
          start = relay_pass_start_cursor sweep (after_id cursor) sweep_progress
      in (\<lparr>sweeping = sweep, walk_after_id = start, walk_limit = relay_fetch_batch_limit, pages = 0,
           walk_envelopes = 0, swept_through = start, walk_done = False\<rparr>, st'))"

definition commit_page :: "cursor_store \<Rightarrow> string \<Rightarrow> i64 \<Rightarrow> walk_state \<Rightarrow> i64 \<Rightarrow> bool \<Rightarrow> walk_state \<times> cursor_store" where
  "commit_page st key now walk page_next_cursor fully_processed =
     (let cursor = relay_fetch_cursor st key;
          before = (if sweeping walk then sweep_after_id cursor else after_id cursor);
          (after, st') = (if sweeping walk then advance_relay_sweep_cursor st key page_next_cursor fully_processed now
                          else advance_relay_fetch_cursor st key page_next_cursor fully_processed)
      in if after > before
         then let moved = walk\<lparr>walk_after_id := after, swept_through := max (swept_through walk) after\<rparr>
              in (if relay_mailbox_walk_action (pages moved) (walk_envelopes moved) = YieldAndScheduleContinuation
                  then moved\<lparr>walk_done := True\<rparr> else moved, st')
         else (walk\<lparr>walk_done := True\<rparr>, st'))"

text \<open>
  A decoded page: how many rows it has, its cursor, what the ingest transaction reported (\<open>None\<close> when it failed,
  else whether every row reached a final disposition) and whether an acknowledgement is owed and can be sent.
\<close>

datatype ack_plan = NothingToAck | AckDeferred | AckIssued

record fetched_page =
  page_rows :: u32
  page_next_cursor :: i64
  page_ingest :: "bool option"
  page_ack :: ack_plan

definition apply_fetch ::
  "cursor_store \<Rightarrow> string \<Rightarrow> i64 \<Rightarrow> walk_state \<Rightarrow> fetched_page \<Rightarrow> walk_state \<times> i64 option \<times> cursor_store" where
  "apply_fetch st key now walk page =
     (let continues = relay_fetch_walk_continues (page_rows page) (walk_after_id walk) (page_next_cursor page);
          counted = walk\<lparr>pages := word_sat_add (pages walk) 1,
                         walk_envelopes := word_sat_add (walk_envelopes walk) (page_rows page)\<rparr>
      in if page_rows page = 0
         then (counted\<lparr>walk_done := True\<rparr>, None,
               if sweeping walk then snd (note_relay_sweep_completed st key now (swept_through walk)) else st)
         else if \<not> continues then (counted\<lparr>walk_done := True\<rparr>, None, st)
         else case page_ingest page of
             None \<Rightarrow> (counted\<lparr>walk_done := True\<rparr>, None, st)
           | Some fully_processed \<Rightarrow>
               let seen = counted\<lparr>swept_through := max (swept_through counted) (page_next_cursor page)\<rparr> in
               case page_ack page of
                 NothingToAck \<Rightarrow>
                   (let (walk', st') = commit_page st key now seen (page_next_cursor page) fully_processed in (walk', None, st'))
               | AckDeferred \<Rightarrow>
                   (let (walk', st') = commit_page st key now seen (page_next_cursor page) False in (walk', None, st'))
               | AckIssued \<Rightarrow> (seen, Some (page_next_cursor page), st))"

definition apply_oversize :: "walk_state \<Rightarrow> walk_state" where
  "apply_oversize walk =
     (case relay_fetch_shrunk_limit (walk_limit walk) of
        Some smaller \<Rightarrow> walk\<lparr>walk_limit := smaller\<rparr>
      | None \<Rightarrow> walk\<lparr>walk_done := True\<rparr>)"

text \<open>
  One mailbox of a pass: its walk, the acknowledgement that is outstanding (with the cursor of its page) and
  the table. An event answers the outstanding request; an event that answers nothing changes nothing.
\<close>

record mailbox_pass =
  mp_walk :: walk_state
  mp_ack :: "i64 option"
  mp_store :: cursor_store

datatype walk_event =
    PageDecoded fetched_page
  | PageUndecodable
  | BodyTooLarge
  | FetchFailed
  | AckAnswered bool

fun walk_step :: "string \<Rightarrow> i64 \<Rightarrow> mailbox_pass \<Rightarrow> walk_event \<Rightarrow> mailbox_pass" where
  "walk_step key now mp (AckAnswered ok) =
     (case mp_ack mp of None \<Rightarrow> mp
      | Some next \<Rightarrow>
          (let (walk, st) = commit_page (mp_store mp) key now (mp_walk mp) next ok
           in mp\<lparr>mp_walk := (if ok then walk else walk\<lparr>walk_done := True\<rparr>), mp_ack := None, mp_store := st\<rparr>))"
| "walk_step key now mp (PageDecoded page) =
     (if mp_ack mp \<noteq> None \<or> walk_done (mp_walk mp) then mp
      else let (walk, ack, st) = apply_fetch (mp_store mp) key now (mp_walk mp) page
           in mp\<lparr>mp_walk := walk, mp_ack := ack, mp_store := st\<rparr>)"
| "walk_step key now mp BodyTooLarge =
     (if mp_ack mp \<noteq> None \<or> walk_done (mp_walk mp) then mp else mp\<lparr>mp_walk := apply_oversize (mp_walk mp)\<rparr>)"
| "walk_step key now mp PageUndecodable =
     (if mp_ack mp \<noteq> None \<or> walk_done (mp_walk mp) then mp else mp\<lparr>mp_walk := (mp_walk mp)\<lparr>walk_done := True\<rparr>\<rparr>)"
| "walk_step key now mp FetchFailed =
     (if mp_ack mp \<noteq> None \<or> walk_done (mp_walk mp) then mp else mp\<lparr>mp_walk := (mp_walk mp)\<lparr>walk_done := True\<rparr>\<rparr>)"

definition start_pass :: "cursor_store \<Rightarrow> string \<Rightarrow> bool \<Rightarrow> i64 \<Rightarrow> mailbox_pass" where
  "start_pass st key swept_this_session now =
     (let (walk, st') = start_walk st key swept_this_session now in \<lparr>mp_walk = walk, mp_ack = None, mp_store = st'\<rparr>)"

definition pass_over :: "mailbox_pass \<Rightarrow> bool" where
  "pass_over mp \<longleftrightarrow> walk_done (mp_walk mp) \<and> mp_ack mp = None"

section \<open>Reading the table after a write\<close>

abbreviation "row st key \<equiv> relay_fetch_cursor st key"

lemma row_upsert:
  "key \<noteq> '''' \<Longrightarrow> relay_fetch_cursor (upsert_cursor st key fresh update) k =
     (if k = key then (case fetch_cursors st key of None \<Rightarrow> fresh | Some c \<Rightarrow> update c) else row st k)"
  by (auto simp: relay_fetch_cursor_def upsert_cursor_def split: option.splits)

lemma row_Some: "key \<noteq> '''' \<Longrightarrow> fetch_cursors st key = Some c \<Longrightarrow> relay_fetch_cursor st key = c"
  by (simp add: relay_fetch_cursor_def)

lemma row_None: "fetch_cursors st key = None \<Longrightarrow> relay_fetch_cursor st key = no_cursor"
  by (simp add: relay_fetch_cursor_def)

lemma row_reset:
  "relay_fetch_cursor (reset_relay_sweep_progress st key now) k =
     (if k = key \<and> key \<noteq> '''' \<and> fetch_cursors st key \<noteq> None
      then (row st key)\<lparr>sweep_after_id := 0, sweep_started_at_ms := now\<rparr> else row st k)"
  by (auto simp: relay_fetch_cursor_def reset_relay_sweep_progress_def no_cursor_def split: option.splits)

lemma no_cursor_sel [simp]:
  "after_id no_cursor = 0" "sweep_after_id no_cursor = 0" "last_sweep_at_ms no_cursor = 0" "sweep_started_at_ms no_cursor = 0"
  by (simp_all add: no_cursor_def)

lemma advance_fetch_row:
  assumes "key \<noteq> ''''"
  shows "advance_relay_fetch_cursor st key nxt full = (v, st') \<Longrightarrow>
    v = relay_cursor_advance (after_id (row st key)) nxt full \<and>
    relay_fetch_cursor st' k = (if k = key then (row st key)\<lparr>after_id := v\<rparr> else row st k)"
  using assms
  by (auto simp: advance_relay_fetch_cursor_def Let_def row_upsert split: if_splits option.splits)
     (auto simp: relay_fetch_cursor_def no_cursor_def)

lemma advance_sweep_row:
  assumes "key \<noteq> ''''"
  shows "advance_relay_sweep_cursor st key nxt full now = (v, st') \<Longrightarrow>
    v = relay_cursor_advance (sweep_after_id (row st key)) nxt full \<and>
    relay_fetch_cursor st' k =
      (if k = key then (row st key)\<lparr>sweep_after_id := v,
           sweep_started_at_ms := (if v \<noteq> sweep_after_id (row st key) \<and> sweep_after_id (row st key) \<le> 0 then now
             else sweep_started_at_ms (row st key))\<rparr> else row st k)"
  using assms
  by (auto simp: advance_relay_sweep_cursor_def Let_def row_upsert split: if_splits option.splits)
     (auto simp: relay_fetch_cursor_def no_cursor_def)

lemma completed_row:
  assumes "key \<noteq> ''''"
  shows "relay_fetch_cursor (snd (note_relay_sweep_completed st key now swept)) k =
    (if k = key then \<lparr>after_id = relay_frontier_after_completed_sweep (after_id (row st key)) swept,
        last_sweep_at_ms = now, sweep_after_id = 0, sweep_started_at_ms = 0\<rparr> else row st k)"
  using assms
  by (cases "fetch_cursors st key") (simp_all add: note_relay_sweep_completed_def Let_def row_upsert row_Some row_None)

definition resume_cursor :: "walk_state \<Rightarrow> fetch_cursor_row \<Rightarrow> i64" where
  "resume_cursor walk c = (if sweeping walk then sweep_after_id c else after_id c)"

lemma commit_page_row:
  assumes "key \<noteq> ''''" "commit_page st key now walk nxt full = (walk', st')"
  shows "relay_fetch_cursor st' key =
      (if sweeping walk
       then (row st key)\<lparr>sweep_after_id := relay_cursor_advance (sweep_after_id (row st key)) nxt full,
           sweep_started_at_ms := (if relay_cursor_advance (sweep_after_id (row st key)) nxt full \<noteq> sweep_after_id (row st key) \<and>
             sweep_after_id (row st key) \<le> 0 then now else sweep_started_at_ms (row st key))\<rparr>
       else (row st key)\<lparr>after_id := relay_cursor_advance (after_id (row st key)) nxt full\<rparr>)"
    and "k \<noteq> key \<Longrightarrow> relay_fetch_cursor st' k = row st k"
    and "sweeping walk' = sweeping walk" "walk_limit walk' = walk_limit walk" "pages walk' = pages walk"
proof -
  obtain v where "(if sweeping walk then advance_relay_sweep_cursor st key nxt full now
      else advance_relay_fetch_cursor st key nxt full) = (v, st')"
    using assms(2) by (auto simp: commit_page_def Let_def split: prod.splits if_splits)
  then show "relay_fetch_cursor st' key =
      (if sweeping walk
       then (row st key)\<lparr>sweep_after_id := relay_cursor_advance (sweep_after_id (row st key)) nxt full,
           sweep_started_at_ms := (if relay_cursor_advance (sweep_after_id (row st key)) nxt full \<noteq> sweep_after_id (row st key) \<and>
             sweep_after_id (row st key) \<le> 0 then now else sweep_started_at_ms (row st key))\<rparr>
       else (row st key)\<lparr>after_id := relay_cursor_advance (after_id (row st key)) nxt full\<rparr>)"
    and "k \<noteq> key \<Longrightarrow> relay_fetch_cursor st' k = row st k"
    using advance_fetch_row [OF assms(1), of st nxt full v st'] advance_sweep_row [OF assms(1), of st nxt full now v st']
    by (auto split: if_splits)
  show "sweeping walk' = sweeping walk" "walk_limit walk' = walk_limit walk" "pages walk' = pages walk"
    using assms(2) by (auto simp: commit_page_def Let_def split: prod.splits if_splits)
qed

section \<open>A pass ends\<close>

fun halvings :: "nat \<Rightarrow> nat" where
  "halvings n = (if n \<le> 1 then 0 else Suc (halvings (n div 2)))"

declare halvings.simps [simp del]

definition pass_fuel :: "mailbox_pass \<Rightarrow> nat" where
  "pass_fuel mp = (if pass_over mp then 0
     else halvings (unat (walk_limit (mp_walk mp))) + 2 * (4 - unat (pages (mp_walk mp))) + (if mp_ack mp = None then 1 else 2))"

definition pass_inv :: "mailbox_pass \<Rightarrow> bool" where
  "pass_inv mp \<longleftrightarrow> walk_limit (mp_walk mp) \<le> 256 \<and> pages (mp_walk mp) \<le> 4 \<and>
     (mp_ack mp = None \<longrightarrow> \<not> walk_done (mp_walk mp) \<longrightarrow> pages (mp_walk mp) < 4) \<and>
     (mp_ack mp \<noteq> None \<longrightarrow> \<not> walk_done (mp_walk mp))"

definition fits :: "mailbox_pass \<Rightarrow> walk_event \<Rightarrow> bool" where
  "fits mp e \<longleftrightarrow> (case e of AckAnswered _ \<Rightarrow> mp_ack mp \<noteq> None | _ \<Rightarrow> mp_ack mp = None \<and> \<not> walk_done (mp_walk mp))"

fun answered :: "string \<Rightarrow> i64 \<Rightarrow> mailbox_pass \<Rightarrow> walk_event list \<Rightarrow> bool" where
  "answered key now mp [] \<longleftrightarrow> True"
| "answered key now mp (e # es) \<longleftrightarrow> fits mp e \<and> answered key now (walk_step key now mp e) es"

lemma commit_page_done:
  "commit_page st key now walk nxt full = (walk', st') \<Longrightarrow> pages walk \<ge> 4 \<Longrightarrow> walk_done walk'"
  by (auto simp: commit_page_def Let_def relay_policy split: prod.splits if_splits)

lemma commit_page_keeps:
  "commit_page st key now walk nxt full = (walk', st') \<Longrightarrow> walk_limit walk' = walk_limit walk \<and> pages walk' = pages walk"
  by (auto simp: commit_page_def Let_def split: prod.splits if_splits)

lemma page_counted: "pages (w :: walk_state) < 4 \<Longrightarrow> unat (word_sat_add (pages w) 1) = Suc (unat (pages w))"
  by (simp add: unat_sat_add word_less_nat_alt)

lemma commit_page_live:
  "commit_page st key now walk nxt full = (walk', st') \<Longrightarrow>
   walk_limit walk' = walk_limit walk \<and> pages walk' = pages walk \<and> (pages walk' \<ge> 4 \<longrightarrow> walk_done walk')"
  using commit_page_keeps commit_page_done by fastforce

lemma limit_not_single: "\<not> (256 :: u32) \<le> 1"
  by (simp add: word_le_nat_alt)

lemma halvings_shrink:
  assumes "relay_fetch_shrunk_limit l = Some l'" "l \<le> 256"
  shows "halvings (unat l) = Suc (halvings (unat l'))" "l' \<le> 256"
proof -
  have min: "min l RELAY_FETCH_MAX_ROWS = l" using assms(2) by (simp add: RELAY_FETCH_MAX_ROWS_def min_def)
  have big: "\<not> l \<le> 1" and l': "l' = max (l div 2) 1"
    using assms(1) by (auto simp: relay_fetch_shrunk_limit_def min Let_def split: if_splits)
  have n: "unat l \<ge> 2" using big by (simp add: word_le_nat_alt)
  have half: "unat (l div 2) = unat l div 2" by (simp add: unat_div)
  have "l div 2 \<ge> 1" using n by (simp add: word_le_nat_alt half)
  then have u: "unat l' = unat l div 2" by (simp add: l' max_def half)
  show "halvings (unat l) = Suc (halvings (unat l'))" using n by (subst halvings.simps) (simp add: u)
  have "unat l \<le> 256" using assms(2) by (simp add: word_le_nat_alt)
  then show "l' \<le> 256" by (simp add: word_le_nat_alt u)
qed

lemma pass_inv_commit:
  assumes inv: "pages walk \<le> 4" "walk_limit walk \<le> 256"
    and c: "commit_page st key now walk nxt full = (walk', st')"
  shows "pass_inv (mp\<lparr>mp_walk := walk', mp_ack := None, mp_store := st'\<rparr>)"
  using commit_page_keeps [OF c] commit_page_done [OF c] inv
  by (cases "pages walk = 4") (auto simp: pass_inv_def)

lemma pass_step_decreases:
  assumes inv: "pass_inv mp" and fit: "fits mp e"
  shows "pass_inv (walk_step key now mp e) \<and> pass_fuel (walk_step key now mp e) < pass_fuel mp"
proof (cases e)
  case (AckAnswered ok)
  then obtain nxt where ack: "mp_ack mp = Some nxt" using fit by (auto simp: fits_def)
  then have live: "\<not> walk_done (mp_walk mp)" "pages (mp_walk mp) \<le> 4" "walk_limit (mp_walk mp) \<le> 256"
    using inv by (auto simp: pass_inv_def)
  obtain walk st where c: "commit_page (mp_store mp) key now (mp_walk mp) nxt ok = (walk, st)" by fastforce
  have "pass_inv (walk_step key now mp e)"
    using pass_inv_commit [OF live(2,3) c, of mp] AckAnswered ack c by (auto simp: pass_inv_def)
  then show ?thesis
    using AckAnswered ack c live commit_page_keeps [OF c] by (auto simp: pass_fuel_def pass_over_def)
next
  case (PageDecoded page)
  then have live: "mp_ack mp = None" "\<not> walk_done (mp_walk mp)" "pages (mp_walk mp) < 4" "walk_limit (mp_walk mp) \<le> 256"
    using fit inv by (auto simp: fits_def pass_inv_def)
  let ?c = "word_sat_add (pages (mp_walk mp)) 1"
  have count: "unat ?c = Suc (unat (pages (mp_walk mp)))" "?c \<le> 4" "unat (pages (mp_walk mp)) < 4"
    using page_counted [OF live(3)] live(3) by (simp_all add: word_le_nat_alt word_less_nat_alt)
  obtain walk ack st where a: "apply_fetch (mp_store mp) key now (mp_walk mp) page = (walk, ack, st)"
    by (metis prod_cases3)
  then have step: "walk_step key now mp e = mp\<lparr>mp_walk := walk, mp_ack := ack, mp_store := st\<rparr>"
    using PageDecoded live by simp
  have keep: "walk_limit walk = walk_limit (mp_walk mp) \<and> pages walk = ?c \<and>
      (ack \<noteq> None \<longrightarrow> \<not> walk_done walk) \<and> (ack = None \<longrightarrow> pages walk = 4 \<longrightarrow> walk_done walk)"
    using a live
    by (auto simp: apply_fetch_def Let_def split: if_splits option.splits ack_plan.splits prod.splits
        dest!: commit_page_live)
  show ?thesis
  proof
    show "pass_inv (walk_step key now mp e)"
      using keep live count unfolding step pass_inv_def by (auto simp: order_le_less)
    show "pass_fuel (walk_step key now mp e) < pass_fuel mp"
      using keep live count unfolding step pass_fuel_def pass_over_def by auto
  qed
next
  case BodyTooLarge
  then have live: "mp_ack mp = None" "\<not> walk_done (mp_walk mp)" "pages (mp_walk mp) < 4" "walk_limit (mp_walk mp) \<le> 256"
    using fit inv by (auto simp: fits_def pass_inv_def)
  show ?thesis
  proof (cases "relay_fetch_shrunk_limit (walk_limit (mp_walk mp))")
    case (Some l)
    then show ?thesis
      using BodyTooLarge live halvings_shrink [OF Some live(4)]
      by (simp add: apply_oversize_def pass_inv_def pass_fuel_def pass_over_def less_imp_le)
  qed (use BodyTooLarge live in \<open>simp add: apply_oversize_def pass_inv_def pass_fuel_def pass_over_def less_imp_le\<close>)
qed (use fit inv in \<open>auto simp: fits_def pass_inv_def pass_fuel_def pass_over_def\<close>)

lemma pass_start: "pass_inv (start_pass st key swept now) \<and> pass_fuel (start_pass st key swept now) = 17"
proof -
  have "halvings 256 = 8" by (simp add: halvings.simps)
  then show ?thesis
    by (simp add: start_pass_def start_walk_def Let_def pass_inv_def pass_fuel_def pass_over_def relay_policy)
qed

text \<open>
  Claim C29. A pass over one mailbox ends. Whatever a server answers, hostile or not, and however the
  store and the acknowledgements fare, at most seventeen requests are answered before the walk of this mailbox is
  over: eight halvings of the page size, four pages, and their acknowledgements. As long as it is not over, there is
  a request outstanding for the next answer.
\<close>

theorem walk_pass_terminates:
  assumes "answered key now (start_pass st key swept started) es"
  shows "length es \<le> 17 \<and> (length es = 17 \<longrightarrow> pass_over (foldl (walk_step key now) (start_pass st key swept started) es)) \<and>
    (pass_over (foldl (walk_step key now) (start_pass st key swept started) es) \<or>
     (\<exists>e. fits (foldl (walk_step key now) (start_pass st key swept started) es) e))"
proof -
  have run: "pass_inv mp \<Longrightarrow> answered key now mp es \<Longrightarrow>
      pass_fuel (foldl (walk_step key now) mp es) + length es \<le> pass_fuel mp" for mp
  proof (induction es arbitrary: mp)
    case (Cons e es)
    then have "pass_inv (walk_step key now mp e)" "pass_fuel (walk_step key now mp e) < pass_fuel mp"
      using pass_step_decreases by auto
    with Cons show ?case by fastforce
  qed simp
  let ?mp = "foldl (walk_step key now) (start_pass st key swept started) es"
  have "pass_fuel ?mp + length es \<le> 17" using run [OF _ assms] pass_start by metis
  moreover have "pass_over ?mp" if "pass_fuel ?mp = 0" using that by (auto simp: pass_fuel_def split: if_splits)
  moreover have "pass_over ?mp \<or> fits ?mp (if mp_ack ?mp = None then FetchFailed else AckAnswered True)"
    by (auto simp: pass_over_def fits_def)
  ultimately show ?thesis by (auto simp del: foldl.simps)
qed

lemma walk_pass_terminates_witness:
  "pass_over (foldl (walk_step ''k'' 5) (start_pass \<lparr>fetch_cursors = Map.empty, hint_source_digest = None\<rparr> ''k'' False 5)
     [BodyTooLarge, FetchFailed])"
proof -
  have "answered ''k'' 5 (start_pass \<lparr>fetch_cursors = Map.empty, hint_source_digest = None\<rparr> ''k'' False 5)
     [BodyTooLarge, FetchFailed]"
    by (simp add: start_pass_def start_walk_def Let_def fits_def apply_oversize_def relay_fetch_shrunk_limit_def relay_policy
        limit_not_single)
  from walk_pass_terminates [OF this] show ?thesis
    by (simp add: start_pass_def start_walk_def Let_def fits_def apply_oversize_def relay_fetch_shrunk_limit_def relay_policy
        pass_over_def limit_not_single split: walk_event.splits)
qed

section \<open>When a cursor moves\<close>

definition commits :: "mailbox_pass \<Rightarrow> walk_event \<Rightarrow> i64 \<Rightarrow> bool" where
  "commits mp e v \<longleftrightarrow>
     (case e of
        PageDecoded page \<Rightarrow> page_rows page > 0 \<and> page_next_cursor page = v \<and> v > walk_after_id (mp_walk mp) \<and>
          page_ingest page = Some True \<and> page_ack page = NothingToAck \<and> mp_ack mp = None
      | AckAnswered ok \<Rightarrow> ok \<and> mp_ack mp = Some v
      | _ \<Rightarrow> False)"

definition ends_sweep :: "mailbox_pass \<Rightarrow> walk_event \<Rightarrow> bool" where
  "ends_sweep mp e \<longleftrightarrow>
     sweeping (mp_walk mp) \<and> (case e of PageDecoded page \<Rightarrow> page_rows page = 0 | _ \<Rightarrow> False)"

lemma advance_nonneg:
  "p \<ge> 0 \<Longrightarrow> relay_cursor_advance p nxt full = (if full \<and> nxt > p then nxt else p)"
  by (auto simp: relay_cursor_advance_def Let_def)

definition cursor_law :: "mailbox_pass \<Rightarrow> walk_event \<Rightarrow> i64 \<Rightarrow> fetch_cursor_row \<Rightarrow> fetch_cursor_row \<Rightarrow> bool" where
  "cursor_law mp e now c c' \<longleftrightarrow>
     (after_id c' > after_id c \<longrightarrow> \<not> sweeping (mp_walk mp) \<and> commits mp e (after_id c')) \<and>
     (after_id c' < after_id c \<longrightarrow> ends_sweep mp e \<and> after_id c' = swept_through (mp_walk mp) \<and> last_sweep_at_ms c' = now) \<and>
     (sweep_after_id c' > sweep_after_id c \<longrightarrow> sweeping (mp_walk mp) \<and> commits mp e (sweep_after_id c')) \<and>
     (sweep_after_id c' < sweep_after_id c \<longrightarrow> ends_sweep mp e \<and> sweep_after_id c' = 0) \<and>
     (last_sweep_at_ms c' \<noteq> last_sweep_at_ms c \<longrightarrow> ends_sweep mp e)"

lemma cursor_law_same [simp]: "cursor_law mp e now c c"
  by (simp add: cursor_law_def)

lemma cursor_law_commit:
  assumes key: "key \<noteq> ''''" and pos: "after_id (row st key) \<ge> 0" "sweep_after_id (row st key) \<ge> 0"
    and c: "commit_page st key now walk nxt full = (walk', st')"
    and sweep: "sweeping walk = sweeping (mp_walk mp)" and full: "full \<Longrightarrow> commits mp e nxt"
  shows "cursor_law mp e now (row st key) (row st' key)"
  using full sweep pos by (auto simp: cursor_law_def commit_page_row(1) [OF key c] advance_nonneg)

lemma step_other_rows:
  assumes "key \<noteq> ''''" "k \<noteq> key"
  shows "row (mp_store (walk_step key now mp e)) k = row (mp_store mp) k"
  using assms
  by (cases e)
    (auto simp: apply_fetch_def Let_def completed_row
      split: option.splits prod.splits if_splits ack_plan.splits dest: commit_page_row(2))

text \<open>
  When a mailbox cursor moves. In a step of the walk, the frontier rises only outside a sweep and the sweep cursor only
  in one, each exactly to the cursor of the page that this step commits: a page of rows above the walk's position that was stored
  completely and owes no acknowledgement, or the page whose acknowledgement just succeeded. The frontier falls
  only when a sweep meets the empty page, to the highest id the walk proved to exist; the same page clears the
  sweep cursor and is the only one that restarts the sweep interval. The rows of other mailboxes never change.
\<close>

theorem cursor_moves_with_committed_page:
  assumes key: "key \<noteq> ''''"
    and pos: "after_id (row (mp_store mp) key) \<ge> 0" "sweep_after_id (row (mp_store mp) key) \<ge> 0"
  shows "cursor_law mp e now (row (mp_store mp) key) (row (mp_store (walk_step key now mp e)) key) \<and>
    (k \<noteq> key \<longrightarrow> row (mp_store (walk_step key now mp e)) k = row (mp_store mp) k)"
proof
  show "k \<noteq> key \<longrightarrow> row (mp_store (walk_step key now mp e)) k = row (mp_store mp) k"
    using step_other_rows [OF key] by blast
  let ?st = "mp_store mp" and ?w = "mp_walk mp"
  show "cursor_law mp e now (row ?st key) (row (mp_store (walk_step key now mp e)) key)"
  proof (cases e)
    case (AckAnswered ok)
    show ?thesis
    proof (cases "mp_ack mp")
      case (Some nxt)
      obtain walk st where c: "commit_page ?st key now ?w nxt ok = (walk, st)" by fastforce
      have "cursor_law mp e now (row ?st key) (row st key)"
        by (rule cursor_law_commit [OF key pos c]) (simp_all add: commits_def AckAnswered Some)
      then show ?thesis using AckAnswered Some c by simp
    qed (simp add: AckAnswered)
  next
    case (PageDecoded page)
    show ?thesis
    proof (cases "mp_ack mp \<noteq> None \<or> walk_done ?w")
      case False
      then have ack: "mp_ack mp = None" "\<not> walk_done ?w" by auto
      let ?counted = "?w\<lparr>pages := word_sat_add (pages ?w) 1, walk_envelopes := word_sat_add (walk_envelopes ?w) (page_rows page)\<rparr>"
      let ?seen = "?counted\<lparr>swept_through := max (swept_through ?counted) (page_next_cursor page)\<rparr>"
      consider (empty) "page_rows page = 0"
        | (stop) "page_rows page \<noteq> 0" "\<not> relay_fetch_walk_continues (page_rows page) (walk_after_id ?w) (page_next_cursor page) \<or>
              page_ingest page = None \<or> page_ack page = AckIssued"
        | (commit) full where "page_rows page \<noteq> 0" "page_next_cursor page > walk_after_id ?w"
            "page_ingest page = Some full" "page_ack page \<noteq> AckIssued"
        unfolding relay_fetch_walk_continues_def word_gt_0 by (cases "page_ingest page") blast+
      then show ?thesis
      proof cases
        case empty
        then show ?thesis
          using PageDecoded ack pos
          by (auto simp: apply_fetch_def Let_def completed_row [OF key] cursor_law_def ends_sweep_def
              relay_frontier_after_completed_sweep_def split: if_splits)
      next
        case stop
        then have "mp_store (walk_step key now mp e) = ?st"
          using PageDecoded ack by (auto simp: apply_fetch_def Let_def split: option.splits)
        then show ?thesis by simp
      next
        case (commit full)
        let ?full = "full \<and> page_ack page = NothingToAck"
        obtain walk st where c: "commit_page ?st key now ?seen (page_next_cursor page) ?full = (walk, st)" by fastforce
        have "mp_store (walk_step key now mp e) = st"
          using PageDecoded ack commit c
          by (cases "page_ack page") (auto simp: apply_fetch_def Let_def relay_fetch_walk_continues_def word_gt_0)
        moreover have "cursor_law mp e now (row ?st key) (row st key)"
          by (rule cursor_law_commit [OF key pos c])
            (use commit ack in \<open>simp_all add: commits_def PageDecoded word_gt_0\<close>)
        ultimately show ?thesis by simp
      qed
    qed (simp add: PageDecoded)
  qed (auto simp: apply_oversize_def)
qed

definition demo_cursors :: cursor_store where
  "demo_cursors = \<lparr>fetch_cursors = [''k'' \<mapsto> no_cursor\<lparr>after_id := 4, last_sweep_at_ms := 7\<rparr>], hint_source_digest = None\<rparr>"

definition demo_page :: "u32 \<Rightarrow> i64 \<Rightarrow> bool \<Rightarrow> ack_plan \<Rightarrow> fetched_page" where
  "demo_page n nxt full ack = \<lparr>page_rows = n, page_next_cursor = nxt, page_ingest = Some full, page_ack = ack\<rparr>"

lemmas demo_walk_simps =
  demo_cursors_def demo_page_def start_pass_def start_walk_def relay_fetch_cursor_def relay_sweep_due_def
  relay_pass_start_cursor_def apply_fetch_def commit_page_def relay_fetch_walk_continues_def
  advance_relay_fetch_cursor_def relay_cursor_advance_def upsert_cursor_def word_sat_add_def relay_policy
  no_cursor_def

lemma cursor_moves_with_committed_page_witness:
  "after_id (row (mp_store (walk_step ''k'' 8 (start_pass demo_cursors ''k'' True 8) (PageDecoded (demo_page 2 9 True NothingToAck)))) ''k'') = 9
   \<and> cursor_law (start_pass demo_cursors ''k'' True 8) (PageDecoded (demo_page 2 9 True NothingToAck)) 8
     (row (mp_store (start_pass demo_cursors ''k'' True 8)) ''k'')
     (row (mp_store (walk_step ''k'' 8 (start_pass demo_cursors ''k'' True 8) (PageDecoded (demo_page 2 9 True NothingToAck)))) ''k'')"
proof
  have pos: "after_id (row (mp_store (start_pass demo_cursors ''k'' True 8)) ''k'') \<ge> 0"
    "sweep_after_id (row (mp_store (start_pass demo_cursors ''k'' True 8)) ''k'') \<ge> 0"
    by (simp_all add: demo_walk_simps Let_def)
  show "after_id (row (mp_store (walk_step ''k'' 8 (start_pass demo_cursors ''k'' True 8) (PageDecoded (demo_page 2 9 True NothingToAck)))) ''k'') = 9"
    by (simp add: demo_walk_simps Let_def)
  show "cursor_law (start_pass demo_cursors ''k'' True 8) (PageDecoded (demo_page 2 9 True NothingToAck)) 8
     (row (mp_store (start_pass demo_cursors ''k'' True 8)) ''k'')
     (row (mp_store (walk_step ''k'' 8 (start_pass demo_cursors ''k'' True 8) (PageDecoded (demo_page 2 9 True NothingToAck)))) ''k'')"
    using cursor_moves_with_committed_page [of "''k''" "start_pass demo_cursors ''k'' True 8", OF _ pos]
    by (simp del: walk_step.simps)
qed

text \<open>
  Claim C31. An acknowledgement hides a row that was not stored. A page on which some row failed to be stored
  (\<open>fully_processed\<close> is false) but which earned an acknowledgement is committed as fully processed once the
  acknowledgement succeeds: the cursor moves to the end of the page, past the failed row, which no ordinary pass asks for again.
\<close>

theorem acked_page_skips_failed_row:
  assumes key: "key \<noteq> ''''" and idle: "mp_ack mp = None" "\<not> walk_done (mp_walk mp)"
    and page: "page_rows page > 0" "page_next_cursor page > walk_after_id (mp_walk mp)"
    and failed: "page_ingest page = Some False" and ack: "page_ack page = AckIssued"
    and cur: "resume_cursor (mp_walk mp) (row (mp_store mp) key) \<ge> 0"
      "page_next_cursor page > resume_cursor (mp_walk mp) (row (mp_store mp) key)"
  shows "resume_cursor (mp_walk mp) (row (mp_store (walk_step key now (walk_step key now mp (PageDecoded page)) (AckAnswered True))) key)
    = page_next_cursor page"
proof -
  let ?mp = "walk_step key now mp (PageDecoded page)"
  have mid: "mp_ack ?mp = Some (page_next_cursor page)" "mp_store ?mp = mp_store mp" "sweeping (mp_walk ?mp) = sweeping (mp_walk mp)"
    using idle page failed ack by (auto simp: apply_fetch_def Let_def relay_fetch_walk_continues_def word_gt_0)
  obtain walk st where c: "commit_page (mp_store mp) key now (mp_walk ?mp) (page_next_cursor page) True = (walk, st)" by fastforce
  have "mp_store (walk_step key now ?mp (AckAnswered True)) = st"
    using c mid(1,2) by (simp del: walk_step.simps(2))
  then show ?thesis
    using cur mid(3) by (auto simp: resume_cursor_def commit_page_row(1) [OF key c] advance_nonneg)
qed

lemma acked_page_skips_failed_row_witness:
  "resume_cursor (mp_walk (start_pass demo_cursors ''k'' True 8))
     (row (mp_store (walk_step ''k'' 8 (walk_step ''k'' 8 (start_pass demo_cursors ''k'' True 8)
       (PageDecoded (demo_page 2 9 False AckIssued))) (AckAnswered True))) ''k'') = 9"
proof -
  let ?mp = "start_pass demo_cursors ''k'' True 8"
  have mp: "mp_ack ?mp = None" "\<not> walk_done (mp_walk ?mp)" "walk_after_id (mp_walk ?mp) = 4"
    "resume_cursor (mp_walk ?mp) (row (mp_store ?mp) ''k'') = 4"
    by (simp_all add: demo_walk_simps Let_def resume_cursor_def)
  show ?thesis
    using acked_page_skips_failed_row [of "''k''" ?mp "demo_page 2 9 False AckIssued" 8] mp
    by (simp add: demo_page_def)
qed

section \<open>A sweep reaches the end of the mailbox\<close>

text \<open>
  A pass in which every page is stored and every acknowledgement it earns succeeds, against a server
  that may be in another state at every request. \<open>drive\<close> plays the requests of one pass, \<open>sweep_passes\<close> a
  sequence of passes; both collect the ids the server presented.
\<close>

definition clean_page :: "i64 list \<Rightarrow> i64 \<Rightarrow> bool \<Rightarrow> fetched_page" where
  "clean_page ids after acked =
     \<lparr>page_rows = of_nat (length ids), page_next_cursor = (if ids = [] then after else last ids),
      page_ingest = Some True, page_ack = (if acked then AckIssued else NothingToAck)\<rparr>"

definition clean_exchange :: "string \<Rightarrow> i64 \<Rightarrow> mailbox_pass \<Rightarrow> i64 list \<Rightarrow> bool \<Rightarrow> mailbox_pass" where
  "clean_exchange key now mp ids acked =
     (let mp' = walk_step key now mp (PageDecoded (clean_page ids (walk_after_id (mp_walk mp)) acked))
      in if acked then walk_step key now mp' (AckAnswered True) else mp')"

fun drive :: "string \<Rightarrow> i64 \<Rightarrow> ('s \<Rightarrow> i64 \<Rightarrow> i64 list) \<Rightarrow> mailbox_pass \<Rightarrow> ('s \<times> bool) list \<Rightarrow> mailbox_pass \<times> i64 set" where
  "drive key now page mp [] = (mp, {})"
| "drive key now page mp ((s, acked) # ss) =
     (if pass_over mp then (mp, {})
      else let ids = page s (walk_after_id (mp_walk mp));
               (mp', seen) = drive key now page (clean_exchange key now mp ids acked) ss
           in (mp', set ids \<union> seen))"

fun sweep_passes ::
  "string \<Rightarrow> ('s \<Rightarrow> i64 \<Rightarrow> i64 list) \<Rightarrow> bool \<Rightarrow> cursor_store \<Rightarrow> (i64 \<times> ('s \<times> bool) list) list \<Rightarrow> cursor_store \<times> i64 set" where
  "sweep_passes key page session st [] = (st, {})"
| "sweep_passes key page session st ((now, ss) # ps) =
     (let (mp, seen) = drive key now page (start_pass st key session now) ss;
          (st', seen') = sweep_passes key page session (mp_store mp) ps
      in (st', seen \<union> seen'))"

definition sweep_at :: "string \<Rightarrow> mailbox_pass \<Rightarrow> i64 \<Rightarrow> bool" where
  "sweep_at key mp a \<longleftrightarrow>
     sweeping (mp_walk mp) \<and> mp_ack mp = None \<and> \<not> walk_done (mp_walk mp) \<and> walk_after_id (mp_walk mp) = a \<and>
     a = max (sweep_after_id (row (mp_store mp) key)) 0 \<and> pages (mp_walk mp) < 4"

lemma commit_page_forward:
  assumes "key \<noteq> ''''" "commit_page st key now walk nxt True = (walk', st')" "sweeping walk"
    and "nxt > max (sweep_after_id (row st key)) 0"
  shows "walk_after_id walk' = nxt \<and> walk_done walk' = (walk_done walk \<or>
    relay_mailbox_walk_action (pages walk) (walk_envelopes walk) = YieldAndScheduleContinuation)"
proof -
  have v: "fst (advance_relay_sweep_cursor st key nxt True now) = nxt"
    using assms(4) advance_sweep_row [OF assms(1), of st nxt True now]
    by (cases "advance_relay_sweep_cursor st key nxt True now") (fastforce simp: relay_cursor_advance_def Let_def)
  then show ?thesis
    using assms(2-4) by (auto simp: commit_page_def Let_def case_prod_beta split: if_splits)
qed

lemma clean_exchange_rows:
  assumes key: "key \<noteq> ''''" and at: "sweep_at key mp a" and ids: "ids \<noteq> []" "last ids > a" "length ids < 2 ^ 32"
  shows "let mp' = clean_exchange key now mp ids acked; c = row (mp_store mp) key in
     row (mp_store mp') key = c\<lparr>sweep_after_id := last ids,
        sweep_started_at_ms := (if sweep_after_id c \<le> 0 then now else sweep_started_at_ms c)\<rparr> \<and>
     unat (pages (mp_walk mp')) = Suc (unat (pages (mp_walk mp))) \<and> (pass_over mp' \<or> sweep_at key mp' (last ids))"
proof -
  let ?w = "mp_walk mp" and ?c = "row (mp_store mp) key"
  let ?p = "clean_page ids a acked"
  let ?counted = "?w\<lparr>pages := word_sat_add (pages ?w) 1, walk_envelopes := word_sat_add (walk_envelopes ?w) (page_rows ?p)\<rparr>"
  let ?seen = "?counted\<lparr>swept_through := max (swept_through ?counted) (last ids)\<rparr>"
  have live: "sweeping ?w" "mp_ack mp = None" "\<not> walk_done ?w" "walk_after_id ?w = a" "a = max (sweep_after_id ?c) 0" "pages ?w < 4"
    using at by (auto simp: sweep_at_def)
  have rows: "page_rows ?p \<noteq> 0"
  proof -
    have "unat (page_rows ?p) = length ids" using ids(3) by (simp add: clean_page_def unat_of_nat)
    then show ?thesis using ids(1) by (metis length_0_conv unat_0)
  qed
  have cont: "relay_fetch_walk_continues (page_rows ?p) (walk_after_id ?w) (page_next_cursor ?p)"
    using rows ids live(4) by (simp add: relay_fetch_walk_continues_def clean_page_def word_gt_0)
  obtain walk st where c: "commit_page (mp_store mp) key now ?seen (last ids) True = (walk, st)" by fastforce
  have ex: "clean_exchange key now mp ids acked = mp\<lparr>mp_walk := walk, mp_ack := None, mp_store := st\<rparr>"
    using live rows cont c ids(1)
    by (cases acked) (simp_all add: clean_exchange_def apply_fetch_def Let_def clean_page_def)
  have fwd: "last ids > max (sweep_after_id ?c) 0" using ids(2) live(5) by simp
  have row': "row st key = ?c\<lparr>sweep_after_id := last ids,
      sweep_started_at_ms := (if sweep_after_id ?c \<le> 0 then now else sweep_started_at_ms ?c)\<rparr>"
    using commit_page_row(1) [OF key c] live(1) fwd by (auto simp: relay_cursor_advance_def Let_def)
  have w: "walk_after_id walk = last ids" "walk_done walk = (relay_mailbox_walk_action (pages ?seen) (walk_envelopes ?seen) = YieldAndScheduleContinuation)"
    "sweeping walk" "pages walk = word_sat_add (pages ?w) 1"
    using commit_page_forward [OF key c] commit_page_row(3,5) [OF key c] live(1,3) fwd by auto
  have less: "\<not> walk_done walk \<Longrightarrow> pages walk < 4"
    unfolding w(2,4) by (auto simp: relay_policy not_le split: if_splits)
  have "unat (pages walk) = Suc (unat (pages ?w))" using page_counted [OF live(6)] w(4) by simp
  then show ?thesis
    using row' w less fwd unfolding ex by (auto simp: Let_def pass_over_def sweep_at_def)
qed

lemma clean_exchange_end:
  assumes key: "key \<noteq> ''''" and at: "sweep_at key mp a"
  shows "let mp' = clean_exchange key now mp [] acked; c = row (mp_store mp') key in
     pass_over mp' \<and> last_sweep_at_ms c = now \<and> sweep_after_id c = 0 \<and> sweep_started_at_ms c = 0"
  using at by (simp add: clean_exchange_def sweep_at_def clean_page_def apply_fetch_def Let_def completed_row [OF key] pass_over_def)

definition swept :: "i64 \<Rightarrow> fetch_cursor_row \<Rightarrow> bool" where
  "swept now c \<longleftrightarrow> last_sweep_at_ms c = now \<and> sweep_after_id c = 0 \<and> sweep_started_at_ms c = 0"

definition steady :: "('s \<Rightarrow> i64 set) \<Rightarrow> ('s \<times> bool) list \<Rightarrow> i64 \<Rightarrow> bool" where
  "steady rows ss i \<longleftrightarrow> (\<forall>s\<in>fst ` set ss. i \<in> rows s)"

locale paged_mailbox =
  fixes valid :: "'s \<Rightarrow> bool" and rows :: "'s \<Rightarrow> i64 set" and page :: "'s \<Rightarrow> i64 \<Rightarrow> i64 list"
  assumes page_empty: "valid s \<Longrightarrow> a \<ge> 0 \<Longrightarrow> page s a = [] \<longleftrightarrow> (\<forall>i\<in>rows s. i \<le> a)"
    and page_above: "valid s \<Longrightarrow> a \<ge> 0 \<Longrightarrow> i \<in> set (page s a) \<Longrightarrow> i \<in> rows s \<and> a < i"
    and page_complete: "valid s \<Longrightarrow> a \<ge> 0 \<Longrightarrow> i \<in> rows s \<Longrightarrow> a < i \<Longrightarrow> page s a \<noteq> [] \<Longrightarrow> i \<le> last (page s a) \<Longrightarrow> i \<in> set (page s a)"
    and page_short: "valid s \<Longrightarrow> a \<ge> 0 \<Longrightarrow> length (page s a) < 2 ^ 32"
begin

lemma drive_pass:
  assumes "key \<noteq> ''''" "sweep_at key mp a" "\<forall>s\<in>fst ` set ss. valid s \<and> rows s \<subseteq> {1..B}" "length ss + unat (pages (mp_walk mp)) \<ge> 4"
    and "drive key now page mp ss = (mp', seen)"
  shows "(swept now (row (mp_store mp') key) \<and> (\<forall>i>a. steady rows ss i \<longrightarrow> i \<in> seen)) \<or>
    (\<exists>b>a. b \<le> B \<and> row (mp_store mp') key = (row (mp_store mp) key)\<lparr>sweep_after_id := b,
        sweep_started_at_ms := (if sweep_after_id (row (mp_store mp) key) \<le> 0 then now else sweep_started_at_ms (row (mp_store mp) key))\<rparr> \<and>
      (\<forall>i>a. i \<le> b \<longrightarrow> steady rows ss i \<longrightarrow> i \<in> seen))"
  using assms(2-5)
proof (induction ss arbitrary: mp a mp' seen)
  case Nil
  then have "pages (mp_walk mp) < 4" by (simp add: sweep_at_def)
  with Nil show ?case by (simp add: word_less_nat_alt)
next
  case (Cons sa ss)
  obtain s acked where sa: "sa = (s, acked)" by (cases sa)
  have live: "\<not> pass_over mp" "walk_after_id (mp_walk mp) = a" "a \<ge> 0" using Cons.prems(1) by (auto simp: sweep_at_def pass_over_def)
  have s: "valid s" "rows s \<subseteq> {1..B}" using Cons.prems(2) by (auto simp: sa)
  define ids where "ids = page s a"
  define mp1 where "mp1 = clean_exchange key now mp ids acked"
  obtain mp2 seen2 where d: "drive key now page mp1 ss = (mp2, seen2)" by fastforce
  have res: "mp' = mp2" "seen = set ids \<union> seen2"
    using Cons.prems(4) live d by (simp_all add: sa ids_def mp1_def)
  show ?case
  proof (cases "ids = []")
    case True
    have fin: "pass_over mp1" "swept now (row (mp_store mp1) key)"
      using clean_exchange_end [OF assms(1) Cons.prems(1), of now acked] True by (auto simp: mp1_def Let_def swept_def)
    then have "mp2 = mp1" using d by (cases ss) auto
    moreover have "\<forall>i>a. \<not> i \<in> rows s" using page_empty [OF s(1) live(3)] True by (auto simp: ids_def)
    ultimately show ?thesis using fin(2) res by (auto simp: steady_def sa)
  next
    case False
    have lst: "last ids \<in> rows s" "a < last ids"
      using page_above [OF s(1) live(3), of "last ids"] False by (auto simp: ids_def)
    have cover: "i \<in> set ids" if "a < i" "i \<le> last ids" "i \<in> rows s" for i
      using page_complete [OF s(1) live(3) that(3,1)] that(2) False by (simp add: ids_def)
    have short: "length ids < 2 ^ 32" using page_short [OF s(1) live(3)] by (simp add: ids_def)
    let ?c = "row (mp_store mp) key" and ?c1 = "row (mp_store mp1) key"
    have ex: "?c1 = ?c\<lparr>sweep_after_id := last ids,
          sweep_started_at_ms := (if sweep_after_id ?c \<le> 0 then now else sweep_started_at_ms ?c)\<rparr>"
        "unat (pages (mp_walk mp1)) = Suc (unat (pages (mp_walk mp)))" "pass_over mp1 \<or> sweep_at key mp1 (last ids)"
      using clean_exchange_rows [OF assms(1) Cons.prems(1) False lst(2) short, of now acked] by (auto simp: mp1_def Let_def)
    from ex(3) show ?thesis
    proof
      assume "pass_over mp1"
      then have "mp2 = mp1" "seen2 = {}" using d by (cases ss; auto)+
      then show ?thesis
        using ex(1) lst s(2) cover res by (intro disjI2 exI [of _ "last ids"]) (auto simp: steady_def sa)
    next
      assume at: "sweep_at key mp1 (last ids)"
      have "\<forall>s\<in>fst ` set ss. valid s \<and> rows s \<subseteq> {1..B}" "length ss + unat (pages (mp_walk mp1)) \<ge> 4"
        using Cons.prems(2,3) ex(2) by (auto simp: sa)
      from Cons.IH [OF at this d] show ?thesis
      proof
        assume "swept now (row (mp_store mp2) key) \<and> (\<forall>i>last ids. steady rows ss i \<longrightarrow> i \<in> seen2)"
        then show ?thesis using cover res
          by (intro disjI1) (auto simp: steady_def sa, metis linorder_not_less)
      next
        assume "\<exists>b>last ids. b \<le> B \<and> row (mp_store mp2) key = ?c1\<lparr>sweep_after_id := b,
            sweep_started_at_ms := (if sweep_after_id ?c1 \<le> 0 then now else sweep_started_at_ms ?c1)\<rparr> \<and>
          (\<forall>i>last ids. i \<le> b \<longrightarrow> steady rows ss i \<longrightarrow> i \<in> seen2)"
        then obtain b where b: "b > last ids" "b \<le> B" "row (mp_store mp2) key = ?c1\<lparr>sweep_after_id := b,
            sweep_started_at_ms := (if sweep_after_id ?c1 \<le> 0 then now else sweep_started_at_ms ?c1)\<rparr>"
          "\<forall>i>last ids. i \<le> b \<longrightarrow> steady rows ss i \<longrightarrow> i \<in> seen2" by blast
        have "\<not> sweep_after_id ?c1 \<le> 0" using ex(1) lst(2) live(3) by simp
        with b(3) ex(1) have row2: "row (mp_store mp2) key = ?c\<lparr>sweep_after_id := b,
            sweep_started_at_ms := (if sweep_after_id ?c \<le> 0 then now else sweep_started_at_ms ?c)\<rparr>" by simp
        show ?thesis
          using b(1,2,4) row2 lst(2) cover res
          by (intro disjI2 exI [of _ b]) (auto simp: steady_def sa, metis linorder_not_less)
      qed
    qed
  qed
qed

lemma sweep_completes:
  assumes key: "key \<noteq> ''''"
    and states: "\<forall>(t, ss)\<in>set ps. length ss \<ge> 4 \<and> (\<forall>s\<in>fst ` set ss. valid s \<and> rows s \<subseteq> {1..B})"
    and times: "\<forall>(t, ss)\<in>set ps. t0 \<le> t \<and> t < t0 + RELAY_SWEEP_INTERVAL_MS" "0 < t0"
    and start: "a = max (sweep_after_id (row st key)) 0"
      "if a = 0 then ps \<noteq> [] \<longrightarrow> fst (hd ps) = t0 \<and> relay_sweep_due session (last_sweep_at_ms (row st key)) 0 t0
       else sweep_started_at_ms (row st key) = t0"
    and enough: "int (length ps) > B - a" "B \<ge> a"
  shows "\<exists>k<length ps. swept (fst (ps ! k)) (row (fst (sweep_passes key page session st (take (Suc k) ps))) key) \<and>
    (\<forall>i>a. (\<forall>(t, ss)\<in>set ps. steady rows ss i) \<longrightarrow> i \<in> snd (sweep_passes key page session st (take (Suc k) ps)))"
  using states times(1) start enough
proof (induction ps arbitrary: st a)
  case (Cons p ps)
  obtain t ss where p: "p = (t, ss)" by (cases p)
  let ?c = "row st key"
  have t: "t0 \<le> t" "t < t0 + RELAY_SWEEP_INTERVAL_MS" "a = 0 \<Longrightarrow> t = t0" using Cons.prems(2,4) by (auto simp: p)
  have due: "relay_sweep_due session (last_sweep_at_ms ?c) (sweep_after_id ?c) t"
    using Cons.prems(3,4) t(3) by (auto simp: p relay_sweep_due_def split: if_splits)
  have no_restart: "\<not> relay_sweep_restart_from_zero (sweep_after_id ?c) (sweep_started_at_ms ?c) t"
    using Cons.prems(3,4) t times(2) by (auto simp: relay_sweep_restart_from_zero_def split: if_splits)
  let ?mp = "start_pass st key session t"
  have mp: "mp_store ?mp = st" "sweep_at key ?mp a" "pages (mp_walk ?mp) = 0"
    using due no_restart Cons.prems(3)
    by (simp_all add: start_pass_def start_walk_def Let_def sweep_at_def relay_pass_start_cursor_def max.commute)
  obtain mp' seen where d: "drive key t page ?mp ss = (mp', seen)" by fastforce
  have valid: "\<forall>s\<in>fst ` set ss. valid s \<and> rows s \<subseteq> {1..B}" "length ss + unat (pages (mp_walk ?mp)) \<ge> 4"
    using Cons.prems(1) mp(3) by (auto simp: p)
  from drive_pass [OF key mp(2) valid d] show ?case
  proof
    assume fin: "swept t (row (mp_store mp') key) \<and> (\<forall>i>a. steady rows ss i \<longrightarrow> i \<in> seen)"
    then show ?thesis by (intro exI [of _ 0]) (auto simp: p d)
  next
    assume "\<exists>b>a. b \<le> B \<and> row (mp_store mp') key = (row (mp_store ?mp) key)\<lparr>sweep_after_id := b,
        sweep_started_at_ms := (if sweep_after_id (row (mp_store ?mp) key) \<le> 0 then t
          else sweep_started_at_ms (row (mp_store ?mp) key))\<rparr> \<and> (\<forall>i>a. i \<le> b \<longrightarrow> steady rows ss i \<longrightarrow> i \<in> seen)"
    then obtain b where b: "b > a" "b \<le> B" "\<forall>i>a. i \<le> b \<longrightarrow> steady rows ss i \<longrightarrow> i \<in> seen"
      and row': "row (mp_store mp') key = ?c\<lparr>sweep_after_id := b,
        sweep_started_at_ms := (if sweep_after_id ?c \<le> 0 then t else sweep_started_at_ms ?c)\<rparr>"
      unfolding mp(1) by blast
    have started: "sweep_started_at_ms (row (mp_store mp') key) = t0"
      using Cons.prems(3,4) t(3) by (auto simp: row' split: if_splits)
    have "\<exists>k<length ps. swept (fst (ps ! k)) (row (fst (sweep_passes key page session (mp_store mp') (take (Suc k) ps))) key) \<and>
      (\<forall>i>b. (\<forall>(t, ss)\<in>set ps. steady rows ss i) \<longrightarrow> i \<in> snd (sweep_passes key page session (mp_store mp') (take (Suc k) ps)))"
    proof (rule Cons.IH)
      show "b = max (sweep_after_id (row (mp_store mp') key)) 0" using b(1) Cons.prems(3) by (simp add: row')
      show "if b = 0 then ps \<noteq> [] \<longrightarrow> fst (hd ps) = t0 \<and> relay_sweep_due session (last_sweep_at_ms (row (mp_store mp') key)) 0 t0
        else sweep_started_at_ms (row (mp_store mp') key) = t0" using b(1) Cons.prems(3) started by simp
    qed (use Cons.prems b in auto)
    then obtain k where k: "k < length ps"
      "swept (fst (ps ! k)) (row (fst (sweep_passes key page session (mp_store mp') (take (Suc k) ps))) key)"
      "\<forall>i>b. (\<forall>(t, ss)\<in>set ps. steady rows ss i) \<longrightarrow> i \<in> snd (sweep_passes key page session (mp_store mp') (take (Suc k) ps))"
      by blast
    have fst_eq: "fst (sweep_passes key page session st (take (Suc (Suc k)) (p # ps))) =
        fst (sweep_passes key page session (mp_store mp') (take (Suc k) ps))"
      and snd_eq: "snd (sweep_passes key page session st (take (Suc (Suc k)) (p # ps))) =
        seen \<union> snd (sweep_passes key page session (mp_store mp') (take (Suc k) ps))"
      by (simp_all add: p d case_prod_beta)
    have "i \<in> seen \<union> snd (sweep_passes key page session (mp_store mp') (take (Suc k) ps))"
      if "i > a" "\<forall>(t, ss)\<in>set (p # ps). steady rows ss i" for i
      using that k(3) b(3) by (cases "i \<le> b") (auto simp: p)
    with k(1,2) show ?thesis
      by (intro exI [of _ "Suc k"]) (simp add: fst_eq snd_eq del: sweep_passes.simps take_Suc_Cons)
  qed
qed simp

end

section \<open>The sweep schedule and the hint sources\<close>

lemma sweep_schedule:
  assumes "key \<noteq> ''''" "now > 0"
  shows "relay_sweep_due session (last_sweep_at_ms (row (snd (note_relay_sweep_completed st key now through)) key))
      (sweep_after_id (row (snd (note_relay_sweep_completed st key now through)) key)) t \<longleftrightarrow>
    t < now \<or> t \<ge> now + RELAY_SWEEP_INTERVAL_MS"
  using assms by (auto simp: completed_row relay_sweep_due_def)

interpretation hint_frames: prefix_code hint_source_frame "\<lambda>b. length b < 2 ^ 64"
  by unfold_locales (auto simp: hint_source_frame_def uint_frame_eq u64_count)

lemma sorted_set_unique:
  "remdups_adj (sort xs) = remdups_adj (sort ys) \<longleftrightarrow> set xs = set (ys :: 'a :: linorder list)"
proof
  assume "remdups_adj (sort xs) = remdups_adj (sort ys)"
  then have "set (remdups_adj (sort xs)) = set (remdups_adj (sort ys))" by simp
  then show "set xs = set ys" by simp
next
  assume eq: "set xs = set ys"
  have "sorted_wrt (<) (remdups_adj (sort zs))" for zs :: "'a list"
    by (simp add: strict_sorted_iff sorted_remdups_adj distinct_remdups_adj_sorted)
  then show "remdups_adj (sort xs) = remdups_adj (sort ys)"
    by (intro strict_sorted_equal) (simp_all add: eq)
qed

text \<open>
  A change of the people and groups a device polls for makes it walk every mailbox again. When the
  digest of the previous id set is on record, looking at the current ids reports a change exactly when the set of ids
  differs (their order and repetitions do not matter, and no two sets are framed alike; the hash is only assumed not to
  collide on the two inputs). A change puts the frontier and the sweep cursor of every mailbox back to 0 and
  leaves every date of the last sweep alone; no change leaves the table as it is.
\<close>

theorem hint_change_rewalks:
  assumes sizes: "list_all (\<lambda>b. length b < 2 ^ 64) old" "list_all (\<lambda>b. length b < 2 ^ 64) new"
    and no_collision: "relay_hint_source_digest digest old = relay_hint_source_digest digest new \<longrightarrow>
      concat (map hint_source_frame (remdups_adj (sort old))) = concat (map hint_source_frame (remdups_adj (sort new)))"
    and recorded: "hint_source_digest st = Some (relay_hint_source_digest digest old)"
    and note_it: "note_relay_hint_sources digest st new = (changed, st')"
  shows "changed = (set new \<noteq> set old) \<and> hint_source_digest st' = Some (relay_hint_source_digest digest new) \<and>
    row st' k = (if changed then (row st k)\<lparr>after_id := 0, sweep_after_id := 0, sweep_started_at_ms := 0\<rparr> else row st k)"
proof -
  have "relay_hint_source_digest digest old = relay_hint_source_digest digest new \<longleftrightarrow> set new = set old"
  proof
    assume eq: "relay_hint_source_digest digest old = relay_hint_source_digest digest new"
    have "remdups_adj (sort old) = remdups_adj (sort new)"
    proof (rule hint_frames.concat_inject)
      show "hint_source_frame x \<noteq> []" for x
        by (simp add: hint_source_frame_def length_greater_0_conv [symmetric] del: length_greater_0_conv)
    qed (use sizes no_collision [rule_format, OF eq] in \<open>simp_all add: list_all_iff\<close>)
    then show "set new = set old" by (simp add: sorted_set_unique)
  next
    assume "set new = set old"
    then have "remdups_adj (sort old) = remdups_adj (sort new)" by (simp add: sorted_set_unique)
    then show "relay_hint_source_digest digest old = relay_hint_source_digest digest new"
      by (simp add: relay_hint_source_digest_def)
  qed
  then show ?thesis
    using note_it recorded
    by (auto simp: note_relay_hint_sources_def Let_def relay_fetch_cursor_def no_cursor_def split: if_splits option.splits)
qed

definition demo_digest :: "bytes \<Rightarrow> string" where
  "demo_digest b = map (\<lambda>w. char_of (unat w)) b"

definition demo_noted :: cursor_store where
  "demo_noted = \<lparr>fetch_cursors = [''k'' \<mapsto> no_cursor\<lparr>after_id := 9, last_sweep_at_ms := 5\<rparr>],
     hint_source_digest = Some (relay_hint_source_digest demo_digest [[2], [1]])\<rparr>"

lemma demo_digest_inj: "demo_digest a = demo_digest b \<Longrightarrow> a = b"
proof -
  have "inj (\<lambda>w :: u8. (char_of (unat w) :: char))"
  proof (rule injI)
    fix v w :: u8 assume "char_of (unat v) = (char_of (unat w) :: char)"
    then have "of_char (char_of (unat v) :: char) = (of_char (char_of (unat w) :: char) :: nat)" by simp
    then have "unat v = unat w" using unat_lt_pow [of v] unat_lt_pow [of w] by simp
    then show "v = w" by (rule unsigned_word_eqI)
  qed
  then show "demo_digest a = demo_digest b \<Longrightarrow> a = b" unfolding demo_digest_def by (simp add: inj_map_eq_map)
qed

lemma hint_change_rewalks_witness:
  "fst (note_relay_hint_sources demo_digest demo_noted [[1], [2], [3]]) \<and>
   row (snd (note_relay_hint_sources demo_digest demo_noted [[1], [2], [3]])) ''k'' = no_cursor\<lparr>last_sweep_at_ms := 5\<rparr>"
proof -
  obtain changed st' where n: "note_relay_hint_sources demo_digest demo_noted [[1], [2], [3]] = (changed, st')" by fastforce
  have sizes: "list_all (\<lambda>b :: bytes. length b < 2 ^ 64) [[2], [1]]" "list_all (\<lambda>b :: bytes. length b < 2 ^ 64) [[1], [2], [3]]"
    by simp_all
  have collision: "relay_hint_source_digest demo_digest [[2], [1]] = relay_hint_source_digest demo_digest [[1], [2], [3]] \<longrightarrow>
      concat (map hint_source_frame (remdups_adj (sort [[2], [1]]))) = concat (map hint_source_frame (remdups_adj (sort [[1], [2], [3]])))"
    unfolding relay_hint_source_digest_def by (rule impI, drule demo_digest_inj) (simp only: append_same_eq same_append_eq)
  have rec: "hint_source_digest demo_noted = Some (relay_hint_source_digest demo_digest [[2], [1]])"
    unfolding demo_noted_def by (simp only: cursor_store.simps)
  have old: "row demo_noted ''k'' = no_cursor\<lparr>after_id := 9, last_sweep_at_ms := 5\<rparr>"
    unfolding demo_noted_def relay_fetch_cursor_def by (simp only: cursor_store.simps) simp
  have "[3] \<in> set [[1], [2], [3 :: u8]]" "[3] \<notin> set [[2], [1 :: u8]]" by simp_all
  then have sets: "set [[1], [2], [3]] \<noteq> set [[2], [1 :: u8]]" by metis
  from hint_change_rewalks [OF sizes collision rec n, of "''k''"] sets
  have "changed" "row st' ''k'' = (row demo_noted ''k'')\<lparr>after_id := 0, sweep_after_id := 0, sweep_started_at_ms := 0\<rparr>"
    by (simp_all only: if_True not_False_eq_True)
  then show ?thesis by (simp add: n old no_cursor_def)
qed

end
