(* ===== verification/Relay_Sweep.thy ===== *)
theory Relay_Sweep
  imports Relay_Mailbox Relay_Cursor
begin

text \<open>
  The client's mailbox walk against the relay daemon's store. The client is verified against the interface
  \<open>paged_mailbox\<close>; here the fetch route of the daemon is shown to provide it, in every state its
  operations can reach, and the two ends are put together.
\<close>

text \<open>
  What a request meets: the daemon's store, the credential and hints the client sends, and the daemon's
  clock. The next request may meet another store, and may send another day's hints.
\<close>

record relay_view =
  rv_store :: relay_store
  rv_access :: family_access
  rv_hints :: "bytes list"
  rv_clock :: i64

definition view_ok :: "relay_view \<Rightarrow> bool" where
  "view_ok v \<longleftrightarrow> mailbox_inv (rv_store v) \<and> rv_hints v \<noteq> [] \<and> length (rv_hints v) \<le> MAX_FETCH_HINTS"

definition view_rows :: "relay_view \<Rightarrow> i64 set" where
  "view_rows v = env_id ` {r \<in> set (envelopes (rv_store v)). row_matches (fa_token (rv_access v)) (rv_hints v) (rv_clock v) r}"

definition view_page :: "relay_view \<Rightarrow> i64 \<Rightarrow> i64 list" where
  "view_page v after =
     (case get_envelopes (rv_store v) (rv_access v) (rv_hints v) (Some after) (Some (unat relay_fetch_batch_limit)) (rv_clock v) of
        Inl _ \<Rightarrow> []
      | Inr (page, _) \<Rightarrow> map env_id page)"

lemma view_page_of:
  assumes "view_ok v" "a \<ge> 0"
  obtains page :: "stored_envelope list" where "view_page v a = map env_id page" "length page \<le> MAX_FETCH_LIMIT"
    "page = [] \<longleftrightarrow> (\<forall>i\<in>view_rows v. i \<le> a)"
    "page \<noteq> [] \<Longrightarrow> env_id ` set page = {i \<in> view_rows v. a < i \<and> i \<le> env_id (last page)}"
proof -
  let ?rows = "pending (rv_store v) (fa_token (rv_access v)) (rv_hints v) (rv_clock v) a"
  have lim: "unat relay_fetch_batch_limit > 0" by (simp add: relay_policy)
  obtain page nxt where p: "get_envelopes (rv_store v) (rv_access v) (rv_hints v) (Some a)
      (Some (unat relay_fetch_batch_limit)) (rv_clock v) = Inr (page, nxt)"
    "page = [] \<longleftrightarrow> ?rows = []" "length page \<le> min (unat relay_fetch_batch_limit) MAX_FETCH_LIMIT"
    "nxt = (if page = [] then a else env_id (last page))" "set page = {r \<in> set ?rows. env_id r \<le> nxt}"
    using mailbox_page [of "rv_store v" "rv_hints v" a "unat relay_fetch_batch_limit" "rv_access v" "rv_clock v"] assms lim
    unfolding view_ok_def by blast
  have rows: "env_id ` set ?rows = {i \<in> view_rows v. a < i}" by (auto simp: pending_def view_rows_def)
  show thesis
  proof (rule that)
    show "view_page v a = map env_id page" by (simp add: view_page_def p(1))
    show "length page \<le> MAX_FETCH_LIMIT" using p(3) by simp
    show "page = [] \<longleftrightarrow> (\<forall>i\<in>view_rows v. i \<le> a)"
    proof -
      have "?rows = [] \<longleftrightarrow> env_id ` set ?rows = {}" by simp
      also have "\<dots> \<longleftrightarrow> (\<forall>i\<in>view_rows v. i \<le> a)" unfolding rows by (auto simp: not_less)
      finally show ?thesis using p(2) by simp
    qed
    assume "page \<noteq> []"
    then show "env_id ` set page = {i \<in> view_rows v. a < i \<and> i \<le> env_id (last page)}"
      using p(4,5) rows by (auto simp: image_iff set_eq_iff) metis
  qed
qed

interpretation relayd: paged_mailbox view_ok view_rows view_page
proof
  fix s a i assume s: "view_ok s" "a \<ge> (0 :: int)"
  obtain page :: "stored_envelope list" where p: "view_page s a = map env_id page" "length page \<le> MAX_FETCH_LIMIT"
    "page = [] \<longleftrightarrow> (\<forall>i\<in>view_rows s. i \<le> a)"
    "page \<noteq> [] \<Longrightarrow> env_id ` set page = {i \<in> view_rows s. a < i \<and> i \<le> env_id (last page)}"
    using view_page_of [OF s] by blast
  show "view_page s a = [] \<longleftrightarrow> (\<forall>i\<in>view_rows s. i \<le> a)" using p(1,3) by simp
  show "i \<in> view_rows s \<and> a < i" if "i \<in> set (view_page s a)"
    using that p(1,4) by (cases "page = []") auto
  show "i \<in> set (view_page s a)" if "i \<in> view_rows s" "a < i" "view_page s a \<noteq> []" "i \<le> last (view_page s a)"
    using that p(1,4) by (auto simp: last_map)
  show "length (view_page s a) < 2 ^ 32" using p(1,2) by (simp add: MAX_FETCH_LIMIT_def)
qed

text \<open>
  Claim C21. A sweep of a relay mailbox finishes and misses nothing. Take any sequence of passes over one
  mailbox, each request of which meets a store the daemon can be in, with whatever credential, hints and clock the client and the
  daemon then have; let the ids the daemon has handed out stay below a bound \<open>B\<close>, let every page be stored and its
  acknowledgements succeed, and let the passes fall into one sweep interval, the first finding the sweep due. Then at the latest
  after \<open>B + 1\<close> passes the sweep is recorded complete, the budget of a pass notwithstanding, and every envelope
  that was readable at all of the requests has been presented to the client.
\<close>

theorem relay_sweep_presents_all:
  assumes key: "key \<noteq> ''''"
    and reach: "\<forall>(t, ss)\<in>set ps. length ss \<ge> 4 \<and> (\<forall>v\<in>fst ` set ss.
        (\<exists>ops. rv_store v = foldl relay_step relay_store_open ops) \<and> envelope_seq (rv_store v) \<le> B \<and>
        rv_hints v \<noteq> [] \<and> length (rv_hints v) \<le> MAX_FETCH_HINTS)"
    and times: "\<forall>(t, ss)\<in>set ps. t0 \<le> t \<and> t < t0 + RELAY_SWEEP_INTERVAL_MS" "0 < t0" "fst (hd ps) = t0"
    and due: "sweep_after_id (relay_fetch_cursor st key) = 0"
      "relay_sweep_due session (last_sweep_at_ms (relay_fetch_cursor st key)) 0 t0"
    and enough: "int (length ps) > B" "B \<ge> 0"
  shows "\<exists>k<length ps. swept (fst (ps ! k)) (relay_fetch_cursor (fst (sweep_passes key view_page session st (take (Suc k) ps))) key) \<and>
    (\<forall>i>0. (\<forall>(t, ss)\<in>set ps. steady view_rows ss i) \<longrightarrow> i \<in> snd (sweep_passes key view_page session st (take (Suc k) ps)))"
proof -
  have states: "\<forall>(t, ss)\<in>set ps. length ss \<ge> 4 \<and> (\<forall>v\<in>fst ` set ss. view_ok v \<and> view_rows v \<subseteq> {1..B})"
  proof -
    have "view_ok v \<and> view_rows v \<subseteq> {1..B}"
      if "\<exists>ops. rv_store v = foldl relay_step relay_store_open ops" "envelope_seq (rv_store v) \<le> B"
        "rv_hints v \<noteq> []" "length (rv_hints v) \<le> MAX_FETCH_HINTS" for v
    proof -
      have inv: "mailbox_inv (rv_store v)" using that(1) relay_run.reachable_inv by force
      then have "view_rows v \<subseteq> {1..B}" using that(2) unfolding mailbox_inv_def view_rows_def by fastforce
      with inv that(3,4) show ?thesis by (simp add: view_ok_def)
    qed
    with reach show ?thesis by fastforce
  qed
  show ?thesis
    using relayd.sweep_completes [OF key states times(1,2), of 0 st session] times(3) due enough by simp
qed

definition demo_view :: relay_view where
  "demo_view = \<lparr>rv_store = foldl relay_step relay_store_open [OpPost demo_access (demo_msg 1) 3 demo_hint [9] 5000 1000],
     rv_access = demo_access, rv_hints = [demo_hint], rv_clock = 1001\<rparr>"

definition demo_passes :: "(i64 \<times> (relay_view \<times> bool) list) list" where
  "demo_passes = [(50, replicate 4 (demo_view, True)), (60, replicate 4 (demo_view, True))]"

lemma relay_sweep_presents_all_witness:
  "\<exists>k<2. swept (fst (demo_passes ! k)) (relay_fetch_cursor (fst (sweep_passes ''k'' view_page False
       \<lparr>fetch_cursors = Map.empty, hint_source_digest = None\<rparr> (take (Suc k) demo_passes))) ''k'') \<and>
     1 \<in> snd (sweep_passes ''k'' view_page False \<lparr>fetch_cursors = Map.empty, hint_source_digest = None\<rparr> (take (Suc k) demo_passes))"
proof -
  let ?st = "\<lparr>fetch_cursors = Map.empty, hint_source_digest = None\<rparr>"
  have store: "envelope_seq (rv_store demo_view) = 1" "1 \<in> view_rows demo_view"
    by (auto simp: demo_view_def view_rows_def row_matches_def demo_store_simps image_iff)
  have reach: "\<forall>(t, ss)\<in>set demo_passes. length ss \<ge> 4 \<and> (\<forall>v\<in>fst ` set ss.
        (\<exists>ops. rv_store v = foldl relay_step relay_store_open ops) \<and> envelope_seq (rv_store v) \<le> 1 \<and>
        rv_hints v \<noteq> [] \<and> length (rv_hints v) \<le> MAX_FETCH_HINTS)"
  proof -
    have "\<exists>ops. rv_store demo_view = foldl relay_step relay_store_open ops" unfolding demo_view_def by (simp only: relay_view.simps) blast
    moreover have "rv_hints demo_view \<noteq> []" "length (rv_hints demo_view) \<le> MAX_FETCH_HINTS"
      by (simp_all add: demo_view_def MAX_FETCH_HINTS_def)
    ultimately show ?thesis using store(1) by (simp add: demo_passes_def)
  qed
  have "\<forall>(t, ss)\<in>set demo_passes. 50 \<le> t \<and> t < 50 + RELAY_SWEEP_INTERVAL_MS" "fst (hd demo_passes) = 50"
    "int (length demo_passes) > 1" "length demo_passes = 2"
    "\<forall>(t, ss)\<in>set demo_passes. steady view_rows ss 1"
    using store(2) by (simp_all add: demo_passes_def RELAY_SWEEP_INTERVAL_MS_def steady_def)
  moreover have "sweep_after_id (relay_fetch_cursor ?st ''k'') = 0" "relay_sweep_due False (last_sweep_at_ms (relay_fetch_cursor ?st ''k'')) 0 50"
    by (simp_all add: relay_fetch_cursor_def relay_sweep_due_def)
  ultimately show ?thesis
    using relay_sweep_presents_all [OF _ reach, of "''k''" 50 ?st False] by fastforce
qed

end
