(* ===== verification/Utf8_Text.thy ===== *)
theory Utf8_Text
  imports Mesh_Prelude
begin

text \<open>
  What the core uses of Rust's \<open>str\<close> and of \<open>std::net\<close>. A \<open>String\<close> is the list of its UTF-8
  bytes; \<open>utf8_validate\<close> is the check behind \<open>String::from_utf8\<close>, with the position and the length
  it reports. Patterns are ASCII, so splitting and prefix tests work on bytes; \<open>trim\<close> and
  \<open>is_whitespace\<close> work on the characters. The address parser follows \<open>IpAddr::from_str\<close>.
\<close>

type_synonym utf8 = bytes

section \<open>Validation\<close>

definition byte_in :: "nat \<Rightarrow> nat \<Rightarrow> u8 \<Rightarrow> bool" where
  "byte_in lo hi b \<longleftrightarrow> lo \<le> unat b \<and> unat b \<le> hi"

definition utf8_width :: "u8 \<Rightarrow> nat" where
  "utf8_width b =
     (if byte_in 0 0x7F b then 1 else if byte_in 0xC2 0xDF b then 2
      else if byte_in 0xE0 0xEF b then 3 else if byte_in 0xF0 0xF4 b then 4 else 0)"

definition second_byte_ok :: "u8 \<Rightarrow> u8 \<Rightarrow> bool" where
  "second_byte_ok b =
     (if b = 0xE0 then byte_in 0xA0 0xBF else if b = 0xED then byte_in 0x80 0x9F
      else if b = 0xF0 then byte_in 0x90 0xBF else if b = 0xF4 then byte_in 0x80 0x8F
      else byte_in 0x80 0xBF)"

definition tail_tests :: "u8 \<Rightarrow> (u8 \<Rightarrow> bool) list" where
  "tail_tests b = take (utf8_width b - 1) [second_byte_ok b, byte_in 0x80 0xBF, byte_in 0x80 0xBF]"

text \<open>The error length is absent when the text ends inside a character.\<close>

fun check_tail :: "(u8 \<Rightarrow> bool) list \<Rightarrow> nat \<Rightarrow> bytes \<Rightarrow> nat option option" where
  "check_tail [] k bs = None"
| "check_tail (p # ps) k [] = Some None"
| "check_tail (p # ps) k (b # bs) = (if p b then check_tail ps (Suc k) bs else Some (Some k))"

definition char_error :: "u8 \<Rightarrow> bytes \<Rightarrow> nat option option" where
  "char_error b bs = (if utf8_width b = 0 then Some (Some 1) else check_tail (tail_tests b) 1 bs)"

function utf8_validate :: "nat \<Rightarrow> bytes \<Rightarrow> (nat \<times> nat option) option" where
  "utf8_validate i [] = None"
| "utf8_validate i (b # bs) =
     (case char_error b bs of
        Some e \<Rightarrow> Some (i, e)
      | None \<Rightarrow> utf8_validate (i + utf8_width b) (drop (utf8_width b - 1) bs))"
  by pat_completeness auto
termination by (relation "measure (length \<circ> snd)") auto

definition utf8_ok :: "bytes \<Rightarrow> bool" where
  "utf8_ok bs \<longleftrightarrow> utf8_validate 0 bs = None"

definition show_utf8_error :: "nat \<times> nat option \<Rightarrow> string" where
  "show_utf8_error e =
     (case e of
        (i, Some n) \<Rightarrow> ''invalid utf-8 sequence of '' @ show_nat n @ '' bytes from index '' @ show_nat i
      | (i, None) \<Rightarrow> ''incomplete utf-8 byte sequence from index '' @ show_nat i)"

definition from_utf8 :: "bytes \<Rightarrow> utf8 result" where
  "from_utf8 bs = (case utf8_validate 0 bs of None \<Rightarrow> Inr bs | Some e \<Rightarrow> Inl (Malformed (show_utf8_error e)))"

section \<open>Characters\<close>

function utf8_chars :: "utf8 \<Rightarrow> bytes list" where
  "utf8_chars [] = []"
| "utf8_chars (b # bs) = (b # take (utf8_width b - 1) bs) # utf8_chars (drop (utf8_width b - 1) bs)"
  by pat_completeness auto
termination by (relation "measure length") auto

fun code_point :: "bytes \<Rightarrow> nat" where
  "code_point [a] = unat a"
| "code_point [a, b] = unat a mod 32 * 64 + unat b mod 64"
| "code_point [a, b, c] = unat a mod 16 * 4096 + unat b mod 64 * 64 + unat c mod 64"
| "code_point [a, b, c, d] = unat a mod 8 * 262144 + unat b mod 64 * 4096 + unat c mod 64 * 64 + unat d mod 64"
| "code_point _ = 0"

definition is_whitespace :: "bytes \<Rightarrow> bool" where
  "is_whitespace ch \<longleftrightarrow> (let c = code_point ch in
     9 \<le> c \<and> c \<le> 13 \<or> c \<in> {0x20, 0x85, 0xA0, 0x1680, 0x2028, 0x2029, 0x202F, 0x205F, 0x3000} \<or>
     0x2000 \<le> c \<and> c \<le> 0x200A)"

definition trim :: "utf8 \<Rightarrow> utf8" where
  "trim t = concat (rev (dropWhile is_whitespace (rev (dropWhile is_whitespace (utf8_chars t)))))"

section \<open>Patterns\<close>

definition has_prefix :: "utf8 \<Rightarrow> utf8 \<Rightarrow> bool" where
  "has_prefix t p \<longleftrightarrow> take (length p) t = p"

definition trim_end_matches :: "u8 \<Rightarrow> utf8 \<Rightarrow> utf8" where
  "trim_end_matches c t = rev (dropWhile (\<lambda>b. b = c) (rev t))"

fun split_once :: "utf8 \<Rightarrow> utf8 \<Rightarrow> (utf8 \<times> utf8) option" where
  "split_once p [] = (if p = [] then Some ([], []) else None)"
| "split_once p (c # cs) =
     (if has_prefix (c # cs) p then Some ([], drop (length p) (c # cs))
      else map_option (\<lambda>(a, b). (c # a, b)) (split_once p cs))"

definition rsplit_once :: "u8 \<Rightarrow> utf8 \<Rightarrow> (utf8 \<times> utf8) option" where
  "rsplit_once c t = map_option (\<lambda>(a, b). (rev b, rev a)) (split_once [c] (rev t))"

definition first_field :: "u8 set \<Rightarrow> utf8 \<Rightarrow> utf8" where
  "first_field cs t = takeWhile (\<lambda>b. b \<notin> cs) t"

definition to_ascii_lowercase :: "utf8 \<Rightarrow> utf8" where
  "to_ascii_lowercase t = map (\<lambda>b. if byte_in 65 90 b then b + 32 else b) t"

definition is_ascii_alphanumeric :: "bytes \<Rightarrow> bool" where
  "is_ascii_alphanumeric ch \<longleftrightarrow>
     (case ch of [b] \<Rightarrow> byte_in 48 57 b \<or> byte_in 65 90 b \<or> byte_in 97 122 b | _ \<Rightarrow> False)"

section \<open>Address literals\<close>

definition digit_value :: "nat \<Rightarrow> u8 \<Rightarrow> nat option" where
  "digit_value radix b =
     (let d = (if byte_in 48 57 b then Some (unat b - 48) else if byte_in 97 122 b then Some (unat b - 87)
               else if byte_in 65 90 b then Some (unat b - 55) else None) in
      case d of Some v \<Rightarrow> if v < radix then Some v else None | None \<Rightarrow> None)"

definition read_number :: "nat \<Rightarrow> nat \<Rightarrow> bool \<Rightarrow> nat \<Rightarrow> bytes \<Rightarrow> (nat \<times> bytes) option" where
  "read_number radix max_digits allow_zero_prefix max_value s =
     (let ds = takeWhile (\<lambda>b. digit_value radix b \<noteq> None) s;
          v = foldl (\<lambda>a b. a * radix + the (digit_value radix b)) 0 ds in
      if length ds > max_digits \<or> ds = [] then None
      else if \<not> allow_zero_prefix \<and> hd s = 48 \<and> length ds > 1 then None
      else if v > max_value then None
      else Some (v, drop (length ds) s))"

definition read_given_char :: "u8 \<Rightarrow> bytes \<Rightarrow> bytes option" where
  "read_given_char c s = (case s of b # r \<Rightarrow> if b = c then Some r else None | [] \<Rightarrow> None)"

definition read_separator :: "u8 \<Rightarrow> nat \<Rightarrow> (bytes \<Rightarrow> ('a \<times> bytes) option) \<Rightarrow> bytes \<Rightarrow> ('a \<times> bytes) option" where
  "read_separator sep index inner s =
     (if index > 0 then Option.bind (read_given_char sep s) inner else inner s)"

fun read_octets :: "nat \<Rightarrow> nat \<Rightarrow> bytes \<Rightarrow> (nat list \<times> bytes) option" where
  "read_octets 0 i s = Some ([], s)"
| "read_octets (Suc n) i s =
     (case read_separator 46 i (read_number 10 3 False 255) s of
        None \<Rightarrow> None
      | Some (v, r) \<Rightarrow> map_option (\<lambda>(vs, r'). (v # vs, r')) (read_octets n (Suc i) r))"

definition read_ipv4_addr :: "bytes \<Rightarrow> (nat list \<times> bytes) option" where
  "read_ipv4_addr s = read_octets 4 0 s"

text \<open>\<open>read_groups n i s\<close> reads up to \<open>n\<close> more groups, the next one having index \<open>i\<close>.\<close>

fun read_groups :: "nat \<Rightarrow> nat \<Rightarrow> bytes \<Rightarrow> nat list \<times> bool \<times> bytes" where
  "read_groups 0 i s = ([], False, s)"
| "read_groups (Suc n) i s =
     (case (if n \<ge> 1 then read_separator 58 i read_ipv4_addr s else None) of
        Some (v4, r) \<Rightarrow> ([v4 ! 0 * 256 + v4 ! 1, v4 ! 2 * 256 + v4 ! 3], True, r)
      | None \<Rightarrow>
          (case read_separator 58 i (read_number 16 4 True 65535) s of
             Some (g, r) \<Rightarrow> (case read_groups n (Suc i) r of (gs, v4, r') \<Rightarrow> (g # gs, v4, r'))
           | None \<Rightarrow> ([], False, s)))"

definition read_ipv6_addr :: "bytes \<Rightarrow> (nat list \<times> bytes) option" where
  "read_ipv6_addr s =
     (case read_groups 8 0 s of
        (lead, v4, r) \<Rightarrow>
          if length lead = 8 then Some (lead, r)
          else if v4 then None
          else Option.bind (Option.bind (read_given_char 58 r) (read_given_char 58)) (\<lambda>r'.
            case read_groups (8 - (length lead + 1)) 0 r' of
              (trail, _, r'') \<Rightarrow> Some (lead @ replicate (8 - length lead - length trail) 0 @ trail, r'')))"

datatype ip_addr = V4 "nat list" | V6 "nat list"

definition parse_ip_addr :: "utf8 \<Rightarrow> ip_addr option" where
  "parse_ip_addr s =
     (case (case read_ipv4_addr s of
              Some (v, r) \<Rightarrow> Some (V4 v, r)
            | None \<Rightarrow> map_option (\<lambda>(v, r). (V6 v, r)) (read_ipv6_addr s)) of
        Some (a, []) \<Rightarrow> Some a
      | _ \<Rightarrow> None)"

definition parse_ipv4_addr :: "utf8 \<Rightarrow> nat list option" where
  "parse_ipv4_addr s =
     (if length s > 15 then None
      else case read_ipv4_addr s of Some (v, []) \<Rightarrow> Some v | _ \<Rightarrow> None)"

section \<open>Laws\<close>

lemma has_prefix_append [simp]: "has_prefix (p @ t) p"
  by (simp add: has_prefix_def)

lemma has_prefix_split: "has_prefix t p \<Longrightarrow> t = p @ drop (length p) t"
  by (metis has_prefix_def append_take_drop_id)

lemma has_prefix_iff: "has_prefix t p \<longleftrightarrow> (\<exists>r. t = p @ r)"
  by (metis has_prefix_append has_prefix_split)

lemma split_once_join: "split_once p t = Some (a, b) \<Longrightarrow> t = a @ p @ b"
proof (induction t arbitrary: a)
  case (Cons c cs)
  show ?case
  proof (cases "has_prefix (c # cs) p")
    case True
    with Cons.prems show ?thesis using has_prefix_split [OF True] by auto
  next
    case False
    with Cons show ?thesis by auto
  qed
qed (auto split: if_splits)

text \<open>The first separator is the one that is found.\<close>

lemma split_once_byte: "c \<notin> set a \<Longrightarrow> split_once [c] (a @ c # b) = Some (a, b)"
  by (induction a) (auto simp: has_prefix_def)

lemma split_once_byte_None: "c \<notin> set a \<Longrightarrow> split_once [c] a = None"
  by (induction a) (auto simp: has_prefix_def)

lemma rsplit_once_byte: "c \<notin> set b \<Longrightarrow> rsplit_once c (a @ c # b) = Some (a, b)"
  using split_once_byte [of c "rev b" "rev a"] by (simp add: rsplit_once_def)

lemma rsplit_once_None: "c \<notin> set a \<Longrightarrow> rsplit_once c a = None"
  by (simp add: rsplit_once_def split_once_byte_None)

lemma first_field_append:
  "set a \<inter> cs = {} \<Longrightarrow> (t = [] \<or> hd t \<in> cs) \<Longrightarrow> first_field cs (a @ t) = a"
  by (induction a) (auto simp: first_field_def takeWhile_eq_Nil_iff neq_Nil_conv)

section \<open>Evaluation\<close>

lemma read_ipv4_eval: "read_ipv4_addr s = read_octets (Suc (Suc (Suc (Suc 0)))) 0 s"
  by (simp add: read_ipv4_addr_def numeral_eq_Suc)

lemmas text_eval = ascii_def trim_def utf8_width_def byte_in_def is_whitespace_def Let_def
  trim_end_matches_def has_prefix_def to_ascii_lowercase_def first_field_def rsplit_once_def

lemmas addr_eval = parse_ip_addr_def parse_ipv4_addr_def read_ipv4_eval read_separator_def
  read_number_def digit_value_def read_given_char_def byte_in_def Let_def

section \<open>Trimming\<close>

lemma utf8_chars_ascii: "list_all (byte_in 0 0x7F) p \<Longrightarrow> utf8_chars (p @ r) = map (\<lambda>b. [b]) p @ utf8_chars r"
  by (induction p) (simp_all add: utf8_width_def)

lemma check_tail_length: "check_tail ps k bs = None \<Longrightarrow> length ps \<le> length bs"
  by (induction ps k bs rule: check_tail.induct) (auto split: if_splits)

lemma char_in_text: "char_error b bs = None \<Longrightarrow> utf8_width b - 1 \<le> length bs"
  using check_tail_length [of "tail_tests b" 1 bs]
  by (auto simp: char_error_def tail_tests_def utf8_width_def split: if_splits)

text \<open>Behind a whole text the characters start anew.\<close>

lemma utf8_chars_append: "utf8_validate i p = None \<Longrightarrow> utf8_chars (p @ r) = utf8_chars p @ utf8_chars r"
proof (induction i p rule: utf8_validate.induct)
  case (2 i b bs)
  then have ok: "char_error b bs = None" and rest: "utf8_validate (i + utf8_width b) (drop (utf8_width b - 1) bs) = None"
    by (auto split: option.splits)
  from char_in_text [OF ok] 2(1) [OF ok rest] show ?case by simp
qed simp

lemma concat_utf8_chars: "concat (utf8_chars t) = t"
  by (induction t rule: utf8_chars.induct) simp_all

lemma visible_not_blank: "byte_in 0x21 0x7E b \<Longrightarrow> \<not> is_whitespace [b]"
  by (auto simp: is_whitespace_def byte_in_def Let_def)

lemma trim_keeps_prefix:
  assumes "list_all (byte_in 0x21 0x7E) p" "p \<noteq> []"
  shows "has_prefix (trim (p @ r)) p"
proof -
  let ?A = "map (\<lambda>b. [b]) p" and ?B = "utf8_chars r"
  have ascii: "list_all (byte_in 0 0x7F) p" using assms(1) by (auto simp: list_all_iff byte_in_def)
  have vis: "\<not> is_whitespace (hd ?A)" "\<not> is_whitespace (hd (rev ?A))"
    using assms visible_not_blank by (auto simp: list_all_iff hd_map hd_rev last_map)
  have "dropWhile is_whitespace (?A @ ?B) = ?A @ ?B" "dropWhile is_whitespace (rev ?A) = rev ?A"
    using vis assms(2) by (cases ?A; cases "rev ?A"; simp)+
  moreover have "dropWhile is_whitespace (rev ?B @ rev ?A) = dropWhile is_whitespace (rev ?B) @ dropWhile is_whitespace (rev ?A)"
    if "dropWhile is_whitespace (rev ?A) = rev ?A"
  proof (cases "\<exists>ch\<in>set (rev ?B). \<not> is_whitespace ch")
    case True
    then show ?thesis using that dropWhile_append1 by metis
  next
    case False
    then have "dropWhile is_whitespace (rev ?B) = []" by simp
    moreover have "dropWhile is_whitespace (rev ?B @ rev ?A) = dropWhile is_whitespace (rev ?A)"
      using False by (intro dropWhile_append2) auto
    ultimately show ?thesis by simp
  qed
  ultimately have "trim (p @ r) = p @ concat (rev (dropWhile is_whitespace (rev ?B)))"
    by (simp add: trim_def utf8_chars_ascii [OF ascii] concat_map_singleton [of "\<lambda>b. b", simplified])
  then show ?thesis by simp
qed

text \<open>Trimming a text that ends in visible ASCII only takes whole characters off its front.\<close>

lemma trim_front:
  assumes "utf8_ok pre" "list_all (byte_in 0x21 0x7E) t" "t \<noteq> []"
  obtains cut kept where "pre = cut @ kept" "trim (pre @ t) = kept @ t"
proof -
  let ?T = "map (\<lambda>b. [b]) t" and ?C = "utf8_chars pre"
  have ascii: "list_all (byte_in 0 0x7F) t" using assms(2) by (auto simp: list_all_iff byte_in_def)
  have chars: "utf8_chars (pre @ t) = ?C @ ?T"
    using utf8_chars_append [of 0 pre t] utf8_chars_ascii [OF ascii, of "[]"] assms(1) by (simp add: utf8_ok_def)
  have vis: "\<not> is_whitespace (hd ?T)" "\<not> is_whitespace (hd (rev ?T))"
    using assms(2,3) visible_not_blank by (auto simp: list_all_iff hd_map hd_rev last_map)
  have front: "dropWhile is_whitespace (?C @ ?T) = dropWhile is_whitespace ?C @ ?T"
  proof (cases "\<exists>ch\<in>set ?C. \<not> is_whitespace ch")
    case True
    then show ?thesis using dropWhile_append1 by metis
  next
    case False
    then have "dropWhile is_whitespace (?C @ ?T) = dropWhile is_whitespace ?T" by (intro dropWhile_append2) auto
    moreover have "dropWhile is_whitespace ?T = ?T" using vis(1) assms(3) by (cases ?T) auto
    moreover have "dropWhile is_whitespace ?C = []" using False by simp
    ultimately show ?thesis by simp
  qed
  have "dropWhile is_whitespace (rev ?T @ xs) = rev ?T @ xs" for xs using vis(2) assms(3) by (cases "rev ?T") auto
  then have "trim (pre @ t) = concat (dropWhile is_whitespace ?C) @ t"
    by (simp add: trim_def chars front concat_map_singleton [of "\<lambda>b. b", simplified])
  moreover have "pre = concat (takeWhile is_whitespace ?C) @ concat (dropWhile is_whitespace ?C)"
    by (simp add: concat_utf8_chars flip: concat_append)
  ultimately show thesis using that by blast
qed

end
