(* ===== verification/Relay_Endpoints.thy ===== *)
theory Relay_Endpoints
  imports Device_Roster Utf8_Text
begin

text \<open>
  The routing half of \<open>core/src/relay_wire.rs\<close>: relay URLs and credentials, and which mailbox an
  envelope for a contact or a group is posted to or polled from. BLAKE2b and base64url are
  third-party crates; they are the parameter \<open>relay_prims\<close>.
\<close>

record relay_prims =
  prim_crypto :: crypto
  b64_enc :: "bytes \<Rightarrow> utf8"
  b64_dec :: "utf8 \<Rightarrow> bytes option"

section \<open>Credentials\<close>

definition RELAY_DEPOSIT_TOKEN_PREFIX :: utf8 where
  "RELAY_DEPOSIT_TOKEN_PREFIX = ascii ''cmdep1-''"

definition RELAY_DEPOSIT_TOKEN_CONTEXT :: bytes where
  "RELAY_DEPOSIT_TOKEN_CONTEXT = ascii ''cruisemesh relay deposit token v1''"

definition relay_token_is_deposit :: "utf8 \<Rightarrow> bool" where
  "relay_token_is_deposit token = has_prefix (trim token) RELAY_DEPOSIT_TOKEN_PREFIX"

definition relay_deposit_token_for :: "relay_prims \<Rightarrow> utf8 \<Rightarrow> utf8" where
  "relay_deposit_token_for rp member_token =
     (let member = trim member_token in
      if member = [] \<or> has_prefix member RELAY_DEPOSIT_TOKEN_PREFIX then member
      else RELAY_DEPOSIT_TOKEN_PREFIX @
             b64_enc rp (blake2b (prim_crypto rp) 32 (RELAY_DEPOSIT_TOKEN_CONTEXT @ member)))"

section \<open>Relay URLs\<close>

definition SCHEME_SEP :: utf8 where
  "SCHEME_SEP = ascii ''://''"

definition after_scheme :: "utf8 \<Rightarrow> utf8" where
  "after_scheme url = (case split_once SCHEME_SEP url of Some (_, rest) \<Rightarrow> rest | None \<Rightarrow> url)"

definition relay_url_host :: "utf8 \<Rightarrow> utf8" where
  "relay_url_host url =
     (let authority = first_field {47, 63, 35} (after_scheme url);
          host_port = (case rsplit_once 64 authority of Some (_, h) \<Rightarrow> h | None \<Rightarrow> authority) in
      if has_prefix host_port [91] then first_field {93} (drop 1 host_port)
      else case rsplit_once 58 host_port of Some (h, _) \<Rightarrow> h | None \<Rightarrow> host_port)"

definition is_loopback_relay_host :: "utf8 \<Rightarrow> bool" where
  "is_loopback_relay_host h =
     (let host = trim_end_matches 46 h in
      to_ascii_lowercase host = ascii ''localhost'' \<or> host = ascii ''::1'' \<or> host = ascii ''10.0.2.2'' \<or>
      (case parse_ipv4_addr host of Some ip \<Rightarrow> ip ! 0 = 127 | None \<Rightarrow> False))"

definition relay_url_transport_is_secure :: "utf8 \<Rightarrow> bool" where
  "relay_url_transport_is_secure url =
     (case split_once SCHEME_SEP url of
        Some (scheme, _) \<Rightarrow>
          if scheme = ascii ''https'' then True
          else if scheme = ascii ''http'' then is_loopback_relay_host (relay_url_host url)
          else False
      | None \<Rightarrow> False)"

definition normalize_relay_url :: "utf8 \<Rightarrow> utf8" where
  "normalize_relay_url value =
     (let trimmed = trim_end_matches 47 (trim value) in
      if trimmed = [] then []
      else let candidate =
             (case split_once SCHEME_SEP trimmed of
                Some (scheme, rest) \<Rightarrow> to_ascii_lowercase scheme @ SCHEME_SEP @ rest
              | None \<Rightarrow> ascii ''https://'' @ trimmed) in
           if relay_url_transport_is_secure candidate then candidate else [])"

definition relay_url_is_insecure :: "utf8 \<Rightarrow> bool" where
  "relay_url_is_insecure value \<longleftrightarrow>
     trim_end_matches 47 (trim value) \<noteq> [] \<and> normalize_relay_url value = []"

definition relay_host_only :: "utf8 \<Rightarrow> utf8" where
  "relay_host_only url = first_field {47, 63, 35} (after_scheme url)"

section \<open>Endpoint resolution\<close>

record relay_endpoint =
  ep_url :: utf8
  ep_token :: utf8

definition unwrap_or_default :: "utf8 option \<Rightarrow> utf8" where
  "unwrap_or_default o' = (case o' of Some t \<Rightarrow> t | None \<Rightarrow> [])"

definition relay_endpoint_from :: "utf8 option \<Rightarrow> utf8 option \<Rightarrow> relay_endpoint option" where
  "relay_endpoint_from url token =
     (let u = normalize_relay_url (unwrap_or_default url);
          t = trim (unwrap_or_default token) in
      if u = [] \<or> t = [] then None else Some \<lparr>ep_url = u, ep_token = t\<rparr>)"

definition resolved_contact_relay ::
  "relay_prims \<Rightarrow> utf8 option \<Rightarrow> utf8 option \<Rightarrow> utf8 option \<Rightarrow> utf8 option \<Rightarrow> relay_endpoint option" where
  "resolved_contact_relay rp contact_url contact_token fallback_url fallback_token =
     (case (relay_endpoint_from contact_url contact_token, relay_endpoint_from fallback_url fallback_token) of
        (Some contact, Some fallback) \<Rightarrow>
          if ep_url contact = ep_url fallback \<and> relay_token_is_deposit (ep_token contact) \<and>
             relay_deposit_token_for rp (ep_token fallback) = ep_token contact
          then Some fallback else Some contact
      | (Some contact, None) \<Rightarrow> Some contact
      | (None, fallback) \<Rightarrow> fallback)"

definition relay_contact_shares_own_family ::
  "relay_prims \<Rightarrow> utf8 option \<Rightarrow> utf8 option \<Rightarrow> utf8 option \<Rightarrow> utf8 option \<Rightarrow> bool" where
  "relay_contact_shares_own_family rp contact_url contact_token own_url own_token =
     (case (relay_endpoint_from contact_url contact_token, relay_endpoint_from own_url own_token) of
        (Some contact, Some own) \<Rightarrow>
          ep_url contact = ep_url own \<and>
          (ep_token contact = ep_token own \<or> ep_token contact = relay_deposit_token_for rp (ep_token own))
      | _ \<Rightarrow> False)"

definition poll_filter :: "relay_endpoint option \<Rightarrow> relay_endpoint option" where
  "poll_filter e = (case e of Some ep \<Rightarrow> if \<not> relay_token_is_deposit (ep_token ep) then Some ep else None | None \<Rightarrow> None)"

definition resolved_contact_poll_relay ::
  "relay_prims \<Rightarrow> utf8 option \<Rightarrow> utf8 option \<Rightarrow> utf8 option \<Rightarrow> utf8 option \<Rightarrow> relay_endpoint option" where
  "resolved_contact_poll_relay rp contact_url contact_token fallback_url fallback_token =
     poll_filter (resolved_contact_relay rp contact_url contact_token fallback_url fallback_token)"

definition card_is_another_familys_deposit :: "relay_prims \<Rightarrow> relay_endpoint \<Rightarrow> relay_endpoint \<Rightarrow> bool" where
  "card_is_another_familys_deposit rp contact own \<longleftrightarrow>
     relay_token_is_deposit (ep_token contact) \<and> relay_deposit_token_for rp (ep_token own) \<noteq> ep_token contact"

definition resolved_contact_delivery_relay ::
  "relay_prims \<Rightarrow> utf8 option \<Rightarrow> utf8 option \<Rightarrow> utf8 option \<Rightarrow> utf8 option \<Rightarrow> bool \<Rightarrow> relay_endpoint option" where
  "resolved_contact_delivery_relay rp contact_url contact_token fallback_url fallback_token usable =
     (if usable then resolved_contact_relay rp contact_url contact_token fallback_url fallback_token
      else case relay_endpoint_from fallback_url fallback_token of
             None \<Rightarrow> None
           | Some fallback \<Rightarrow>
               (case relay_endpoint_from contact_url contact_token of
                  Some contact \<Rightarrow>
                    if ep_url contact = ep_url fallback then None
                    else if card_is_another_familys_deposit rp contact fallback then None
                    else Some fallback
                | None \<Rightarrow> Some fallback))"

record group_relay_member =
  mem_relay_url :: "utf8 option"
  mem_relay_token :: "utf8 option"
  mem_endpoint_usable :: bool
  mem_endpoint_answering :: bool

text \<open>The loop over the members, with the flag \<open>any_member_blocks_fallback\<close>.\<close>

fun fanout_walk ::
  "relay_prims \<Rightarrow> utf8 option \<Rightarrow> utf8 option \<Rightarrow> group_relay_member list \<Rightarrow> bool \<Rightarrow> relay_endpoint option" where
  "fanout_walk rp furl ftok [] blocked = (if blocked then None else relay_endpoint_from furl ftok)"
| "fanout_walk rp furl ftok (m # ms) blocked =
     (if \<not> mem_endpoint_answering m then fanout_walk rp furl ftok ms True
      else if \<not> mem_endpoint_usable m \<and>
              (case (relay_endpoint_from (mem_relay_url m) (mem_relay_token m), relay_endpoint_from furl ftok) of
                 (Some c, Some own) \<Rightarrow> card_is_another_familys_deposit rp c own
               | _ \<Rightarrow> False)
      then fanout_walk rp furl ftok ms True
      else case resolved_contact_delivery_relay rp (mem_relay_url m) (mem_relay_token m) furl ftok (mem_endpoint_usable m) of
             Some e \<Rightarrow> Some e
           | None \<Rightarrow> fanout_walk rp furl ftok ms blocked)"

definition core_group_fanout_relay_target ::
  "relay_prims \<Rightarrow> group_relay_member list \<Rightarrow> utf8 option \<Rightarrow> utf8 option \<Rightarrow> relay_endpoint option" where
  "core_group_fanout_relay_target rp members furl ftok = fanout_walk rp furl ftok members False"

definition resolved_contact_delivery_poll_relay ::
  "relay_prims \<Rightarrow> utf8 option \<Rightarrow> utf8 option \<Rightarrow> utf8 option \<Rightarrow> utf8 option \<Rightarrow> bool \<Rightarrow> relay_endpoint option" where
  "resolved_contact_delivery_poll_relay rp contact_url contact_token fallback_url fallback_token usable =
     (if \<not> usable then None
      else resolved_contact_poll_relay rp contact_url contact_token fallback_url fallback_token)"

section \<open>What the composer says\<close>

datatype contact_delivery_kind = SharedMailbox | OwnMailbox utf8 | NearbyOnly

definition contact_delivery ::
  "relay_prims \<Rightarrow> utf8 option \<Rightarrow> utf8 option \<Rightarrow> utf8 option \<Rightarrow> utf8 option \<Rightarrow> contact_delivery_kind" where
  "contact_delivery rp contact_url contact_token own_url own_token =
     (case relay_endpoint_from contact_url contact_token of
        None \<Rightarrow> NearbyOnly
      | Some contact \<Rightarrow>
          if (case relay_endpoint_from own_url own_token of
                Some own \<Rightarrow> ep_url own = ep_url contact \<and>
                  (ep_token contact = ep_token own \<or> ep_token contact = relay_deposit_token_for rp (ep_token own))
              | None \<Rightarrow> False)
          then SharedMailbox else OwnMailbox (relay_host_only (ep_url contact)))"

datatype composer_reach_kind = Fine | RepliesCannotReachMe | TheyCannotBeReached | NeitherDirectionWorks

definition composer_reach :: "contact_delivery_kind \<Rightarrow> bool \<Rightarrow> bool \<Rightarrow> bool \<Rightarrow> composer_reach_kind" where
  "composer_reach delivery own_relay_configured contact_nearby added_while_nearby =
     (if contact_nearby \<or> added_while_nearby then Fine
      else case (own_relay_configured, delivery = NearbyOnly) of
             (False, True) \<Rightarrow> NeitherDirectionWorks
           | (False, False) \<Rightarrow> RepliesCannotReachMe
           | (True, True) \<Rightarrow> TheyCannotBeReached
           | (True, False) \<Rightarrow> Fine)"

section \<open>Where credentials may travel\<close>

lemma secure_scheme:
  assumes "relay_url_transport_is_secure u"
  shows "has_prefix u (ascii ''https://'') \<or>
    has_prefix u (ascii ''http://'') \<and> is_loopback_relay_host (relay_url_host u)"
proof -
  from assms obtain scheme rest where s: "split_once SCHEME_SEP u = Some (scheme, rest)"
    by (auto simp: relay_url_transport_is_secure_def split: option.splits)
  from split_once_join [OF s] have u: "u = (scheme @ SCHEME_SEP) @ rest" by simp
  have "ascii ''https://'' = ascii ''https'' @ SCHEME_SEP" "ascii ''http://'' = ascii ''http'' @ SCHEME_SEP"
    by (simp_all add: ascii_def SCHEME_SEP_def)
  moreover have "has_prefix u (scheme @ SCHEME_SEP)" by (subst u) (rule has_prefix_append)
  ultimately show ?thesis using assms s
    by (auto simp: relay_url_transport_is_secure_def split: if_splits)
qed

lemma normalize_secure: "normalize_relay_url v \<noteq> [] \<Longrightarrow> relay_url_transport_is_secure (normalize_relay_url v)"
  by (auto simp: normalize_relay_url_def Let_def split: if_splits)

lemma endpoint_secure:
  "relay_endpoint_from u t = Some e \<Longrightarrow>
   relay_url_transport_is_secure (ep_url e) \<and> ep_token e \<noteq> [] \<and> ep_token e = trim (unwrap_or_default t)"
  using normalize_secure by (auto simp: relay_endpoint_from_def Let_def split: if_splits)

definition is_endpoint :: "relay_endpoint \<Rightarrow> bool" where
  "is_endpoint e \<longleftrightarrow> (\<exists>u t. relay_endpoint_from u t = Some e)"

lemma resolved_from: "resolved_contact_relay rp cu ct fu ft = Some e \<Longrightarrow> is_endpoint e"
  by (auto simp: resolved_contact_relay_def is_endpoint_def split: option.splits if_splits)

lemma delivery_from: "resolved_contact_delivery_relay rp cu ct fu ft usable = Some e \<Longrightarrow> is_endpoint e"
  by (cases usable)
    (auto simp: resolved_contact_delivery_relay_def is_endpoint_def resolved_contact_relay_def split: option.splits if_splits)

lemma fanout_from: "fanout_walk rp fu ft ms blocked = Some e \<Longrightarrow> is_endpoint e"
proof (induction ms arbitrary: blocked)
  case (Cons m ms)
  then show ?case by (auto dest: delivery_from split: option.splits if_splits)
qed (auto simp: is_endpoint_def split: if_splits)

definition usable_transport :: "relay_endpoint \<Rightarrow> bool" where
  "usable_transport e \<longleftrightarrow>
     has_prefix (ep_url e) (ascii ''https://'') \<or>
     has_prefix (ep_url e) (ascii ''http://'') \<and> is_loopback_relay_host (relay_url_host (ep_url e))"

lemma endpoint_transport: "relay_endpoint_from u t = Some e \<Longrightarrow> usable_transport e"
  using endpoint_secure secure_scheme unfolding usable_transport_def by blast

text \<open>
  No relay credential is ever sent in the clear: every endpoint the routing functions
  return, for posting to a contact, for polling on a contact's behalf or for a group fan-out, carries
  an \<open>https\<close> URL, or an \<open>http\<close> URL whose host is accepted by the code's own host check, which knows the
  loopback names and the alias 10.0.2.2 an emulator gives to its host. It holds for URLs from any source,
  typed, scanned or received; the host check itself is taken as the code has it, and
  \<open>relay_url_host_userinfo\<close> below shows that it is not misled by user information.
\<close>

theorem relay_credentials_never_cleartext:
  assumes "Some e \<in> {resolved_contact_relay rp cu ct fu ft, resolved_contact_poll_relay rp cu ct fu ft,
    resolved_contact_delivery_relay rp cu ct fu ft usable, resolved_contact_delivery_poll_relay rp cu ct fu ft usable,
    core_group_fanout_relay_target rp members fu ft}"
  shows "has_prefix (ep_url e) (ascii ''https://'') \<or>
    has_prefix (ep_url e) (ascii ''http://'') \<and> is_loopback_relay_host (relay_url_host (ep_url e))"
proof -
  have poll: "poll_filter x = Some e \<Longrightarrow> x = Some e" for x
    by (auto simp: poll_filter_def split: option.splits if_splits)
  have "is_endpoint e"
    using assms
    by (auto simp: resolved_contact_poll_relay_def resolved_contact_delivery_poll_relay_def
        core_group_fanout_relay_target_def eq_commute [of "Some e"] split: if_splits
        dest!: poll dest: resolved_from delivery_from fanout_from)
  then show ?thesis using endpoint_transport unfolding usable_transport_def is_endpoint_def by blast
qed

text \<open>User information in front of an attacker's host does not make the host look local.\<close>

lemma relay_url_host_userinfo:
  assumes "set user \<inter> {47, 63, 35} = {}" "set h \<inter> {47, 63, 35, 64, 58, 91} = {}"
    and "tail = [] \<or> hd tail \<in> {47, 63, 35}"
  shows "relay_url_host (ascii ''http://'' @ user @ 64 # h @ tail) = h"
proof -
  have "split_once SCHEME_SEP (ascii ''http://'' @ r) = Some (ascii ''http'', r)" for r
    by (simp add: ascii_def SCHEME_SEP_def has_prefix_def)
  moreover have "first_field {47, 63, 35} ((user @ 64 # h) @ tail) = user @ 64 # h"
    using assms by (intro first_field_append) auto
  moreover have "rsplit_once 64 (user @ 64 # h) = Some (user, h)"
    using assms by (intro rsplit_once_byte) auto
  moreover have "rsplit_once 58 h = None" "\<not> has_prefix h [91]"
    using assms by (auto simp: rsplit_once_None has_prefix_iff)
  ultimately show ?thesis by (simp add: relay_url_host_def after_scheme_def)
qed

section \<open>Which mailbox a message lands in\<close>

text \<open>
  A message for a contact who shared internet delivery goes to the contact's own mailbox
  whenever their endpoint is in service, except that a card of our own family is served with our
  member credential, which is the same mailbox. It is posted to our mailbox in the contact's place
  only when the card has been written off, lies on another host and is not another family's deposit
  card, so that no message is marked posted in a mailbox its recipient never reads.
\<close>

theorem post_reaches_contact_mailbox:
  assumes "relay_endpoint_from cu ct = Some c"
    and "resolved_contact_delivery_relay rp cu ct fu ft usable = Some e"
  shows "usable \<and> e = c \<or>
    usable \<and> Some e = relay_endpoint_from fu ft \<and> relay_contact_shares_own_family rp cu ct fu ft \<or>
    \<not> usable \<and> Some e = relay_endpoint_from fu ft \<and> ep_url c \<noteq> ep_url e \<and> \<not> card_is_another_familys_deposit rp c e"
  using assms
  by (auto simp: resolved_contact_delivery_relay_def resolved_contact_relay_def relay_contact_shares_own_family_def
      split: option.splits if_splits)

text \<open>A member keeps the group out of our own mailbox when it rests, or when its card is another family's.\<close>

definition blocks_fallback :: "relay_prims \<Rightarrow> utf8 option \<Rightarrow> utf8 option \<Rightarrow> group_relay_member \<Rightarrow> bool" where
  "blocks_fallback rp fu ft m \<longleftrightarrow> \<not> mem_endpoint_answering m \<or>
     \<not> mem_endpoint_usable m \<and> (\<exists>c own. relay_endpoint_from (mem_relay_url m) (mem_relay_token m) = Some c \<and>
        relay_endpoint_from fu ft = Some own \<and> card_is_another_familys_deposit rp c own)"

definition member_target :: "relay_prims \<Rightarrow> utf8 option \<Rightarrow> utf8 option \<Rightarrow> group_relay_member \<Rightarrow> relay_endpoint option" where
  "member_target rp fu ft m =
     resolved_contact_delivery_relay rp (mem_relay_url m) (mem_relay_token m) fu ft (mem_endpoint_usable m)"

lemma fanout_walk_spec:
  "fanout_walk rp fu ft ms blocked =
     (case find (\<lambda>m. \<not> blocks_fallback rp fu ft m \<and> member_target rp fu ft m \<noteq> None) ms of
        Some m \<Rightarrow> member_target rp fu ft m
      | None \<Rightarrow> if blocked \<or> list_ex (blocks_fallback rp fu ft) ms then None else relay_endpoint_from fu ft)"
proof (induction ms arbitrary: blocked)
  case (Cons m ms)
  have blk: "blocks_fallback rp fu ft m \<longleftrightarrow> \<not> mem_endpoint_answering m \<or> \<not> mem_endpoint_usable m \<and>
      (case (relay_endpoint_from (mem_relay_url m) (mem_relay_token m), relay_endpoint_from fu ft) of
         (Some c, Some own) \<Rightarrow> card_is_another_familys_deposit rp c own | _ \<Rightarrow> False)"
    by (auto simp: blocks_fallback_def split: option.splits)
  show ?case
  proof (cases "blocks_fallback rp fu ft m")
    case True
    then have "fanout_walk rp fu ft (m # ms) blocked = fanout_walk rp fu ft ms True"
      unfolding fanout_walk.simps blk by auto
    with True Cons.IH [of True] show ?thesis by simp
  next
    case False
    then have "fanout_walk rp fu ft (m # ms) blocked =
        (case member_target rp fu ft m of Some e \<Rightarrow> Some e | None \<Rightarrow> fanout_walk rp fu ft ms blocked)"
      unfolding fanout_walk.simps blk member_target_def by auto
    with False Cons.IH [of blocked] show ?thesis by (simp split: option.splits)
  qed
qed simp

text \<open>
  The mailbox of a group fan-out is the one of the first member, in membership order, who
  neither rests nor carries another family's written-off card and who resolves to some endpoint. Our
  own mailbox is the fallback only if no member blocks it: one resting member, or one lapsed card of
  another family, keeps the envelope queued when nobody else resolves.
\<close>

theorem group_fanout_target_spec:
  "core_group_fanout_relay_target rp members fu ft =
     (case find (\<lambda>m. \<not> blocks_fallback rp fu ft m \<and> member_target rp fu ft m \<noteq> None) members of
        Some m \<Rightarrow> member_target rp fu ft m
      | None \<Rightarrow> if list_ex (blocks_fallback rp fu ft) members then None else relay_endpoint_from fu ft)"
  by (simp add: core_group_fanout_relay_target_def fanout_walk_spec)

section \<open>Witnesses\<close>

definition sample_prims :: relay_prims where
  "sample_prims = \<lparr>prim_crypto = sample_crypto, b64_enc = id, b64_dec = Some\<rparr>"

definition sample_card :: relay_endpoint where
  "sample_card = \<lparr>ep_url = ascii ''http://127.0.0.1:8080'', ep_token = ascii ''cmdep1-abc''\<rparr>"

definition sample_own :: relay_endpoint where
  "sample_own = \<lparr>ep_url = ascii ''https://relay.example'', ep_token = ascii ''member''\<rparr>"

lemmas url_eval = normalize_relay_url_def relay_url_transport_is_secure_def relay_url_host_def
  after_scheme_def is_loopback_relay_host_def SCHEME_SEP_def relay_endpoint_from_def unwrap_or_default_def

lemma sample_card_resolves:
  "relay_endpoint_from (Some (ascii '' HTTP://127.0.0.1:8080/ '')) (Some (ascii ''cmdep1-abc'')) = Some sample_card"
  by (simp add: text_eval addr_eval url_eval sample_card_def)

lemma sample_own_resolves:
  "relay_endpoint_from (Some (ascii ''relay.example'')) (Some (ascii ''member '')) = Some sample_own"
  by (simp add: text_eval addr_eval url_eval sample_own_def)

lemma sample_delivery:
  "resolved_contact_delivery_relay sample_prims (Some (ascii '' HTTP://127.0.0.1:8080/ '')) (Some (ascii ''cmdep1-abc''))
     (Some (ascii ''relay.example'')) (Some (ascii ''member '')) True = Some sample_card"
  by (simp add: resolved_contact_delivery_relay_def resolved_contact_relay_def sample_card_resolves sample_own_resolves)
    (simp add: sample_card_def sample_own_def ascii_def)

theorem relay_credentials_never_cleartext_witness:
  "has_prefix (ep_url sample_card) (ascii ''https://'') \<or>
   has_prefix (ep_url sample_card) (ascii ''http://'') \<and> is_loopback_relay_host (relay_url_host (ep_url sample_card))"
  by (rule relay_credentials_never_cleartext [of sample_card sample_prims "Some (ascii '' HTTP://127.0.0.1:8080/ '')"
        "Some (ascii ''cmdep1-abc'')" "Some (ascii ''relay.example'')" "Some (ascii ''member '')" True "[]"])
    (simp add: sample_delivery)

theorem post_reaches_contact_mailbox_witness:
  "resolved_contact_delivery_relay sample_prims (Some (ascii '' HTTP://127.0.0.1:8080/ '')) (Some (ascii ''cmdep1-abc''))
     (Some (ascii ''relay.example'')) (Some (ascii ''member '')) True = Some sample_card \<and>
   (sample_card = sample_card \<or> relay_contact_shares_own_family sample_prims (Some (ascii '' HTTP://127.0.0.1:8080/ ''))
     (Some (ascii ''cmdep1-abc'')) (Some (ascii ''relay.example'')) (Some (ascii ''member '')))"
  using post_reaches_contact_mailbox [OF sample_card_resolves sample_delivery] sample_delivery by simp

end
