(* ===== verification/Relay_Families.thy ===== *)
theory Relay_Families
  imports Relay_Mailbox Utf8_Text
begin

text \<open>
  Families of the relay daemon (\<open>relayd/src/lib.rs\<close>): the \<open>families\<close> table with its provisioning and
  administration, the authorization of a bearer credential, and the rotation of a family's token.
  The hash behind a deposit token, the Ed25519 check and the random family ids come from other crates
  and are parameters. Credentials are trimmed before they reach these operations, so the code's
  \<open>trim\<close> is the identity on them. The pre-authorization gate, which only remembers credentials to save lookups, is left out.
  The lemmas show what a credential may do, that the pass state a shell shows is the state the relay
  enforces, and that a rotation moves a mailbox without losing a row.
\<close>

unbundle bit_operations_syntax

section \<open>Credentials\<close>

definition DEPOSIT_TOKEN_PREFIX :: string where
  "DEPOSIT_TOKEN_PREFIX = ''cmdep1-''"

definition FAMILY_ID_PREFIX :: string where
  "FAMILY_ID_PREFIX = ''cmfid1-''"

definition MAX_FAMILY_TOKEN_LEN :: nat where
  "MAX_FAMILY_TOKEN_LEN = 1024"

definition MIN_ROTATION_TOKEN_LEN :: nat where
  "MIN_ROTATION_TOKEN_LEN = 24"

definition FAMILY_EXPIRY_GRACE_MS :: i64 where
  "FAMILY_EXPIRY_GRACE_MS = 7 * 24 * 60 * 60 * 1000"

definition starts_with :: "string \<Rightarrow> string \<Rightarrow> bool" where
  "starts_with s p \<longleftrightarrow> take (length p) s = p"

definition deposit_token_for :: "(string \<Rightarrow> string) \<Rightarrow> string \<Rightarrow> string" where
  "deposit_token_for hash member =
     (if member = '''' \<or> starts_with member DEPOSIT_TOKEN_PREFIX then member
      else DEPOSIT_TOKEN_PREFIX @ hash member)"

definition is_deposit_token :: "string \<Rightarrow> bool" where
  "is_deposit_token token \<longleftrightarrow> starts_with token DEPOSIT_TOKEN_PREFIX"

definition is_family_id :: "string \<Rightarrow> bool" where
  "is_family_id value \<longleftrightarrow> starts_with value FAMILY_ID_PREFIX"

section \<open>The families table\<close>

record family_row =
  fam_token :: string
  fam_id :: string
  fam_status :: string
  fam_plan :: "string option"
  fam_quota_bytes :: "nat option"
  fam_created_ms :: i64
  fam_expires_ms :: "i64 option"
  fam_note :: "string option"
  fam_deposit_token :: string
  fam_rotation_pk :: "bytes option"

record relay_server =
  rs_store :: relay_store
  rs_families :: "family_row list"

definition get_family_on :: "relay_server \<Rightarrow> string \<Rightarrow> family_row option" where
  "get_family_on rs token = find (\<lambda>f. fam_token f = token) (rs_families rs)"

definition resolve_family_on :: "relay_server \<Rightarrow> string \<Rightarrow> family_row option" where
  "resolve_family_on rs id_or_token =
     (case find (\<lambda>f. fam_id f = id_or_token) (rs_families rs) of
        Some f \<Rightarrow> Some f
      | None \<Rightarrow> get_family_on rs id_or_token)"

definition get_family_by_credential_on :: "relay_server \<Rightarrow> string \<Rightarrow> (family_row \<times> token_class) option" where
  "get_family_by_credential_on rs credential =
     map_option (\<lambda>f. (f, if fam_token f = credential then Member else Deposit))
       (case find (\<lambda>f. fam_token f = credential) (rs_families rs) of
          Some f \<Rightarrow> Some f
        | None \<Rightarrow> find (\<lambda>f. fam_deposit_token f = credential) (rs_families rs))"

text \<open>The statement behind provisioning; \<open>deposit_token\<close> and \<open>family_id\<close> are unique too, and a row that breaks that is refused.\<close>

definition upsert_family ::
  "(string \<Rightarrow> string) \<Rightarrow> string \<Rightarrow> relay_server \<Rightarrow> string \<Rightarrow> string option \<Rightarrow> nat option \<Rightarrow> i64 option \<Rightarrow> string option \<Rightarrow> i64 \<Rightarrow>
   string + relay_server" where
  "upsert_family hash fresh_id rs token plan quota_bytes expires_ms note now_ms =
     (if list_ex (\<lambda>f. fam_token f \<noteq> token \<and> fam_deposit_token f = deposit_token_for hash token) (rs_families rs)
      then Inl ''UNIQUE constraint failed: families.deposit_token''
      else if list_ex (\<lambda>f. fam_token f = token) (rs_families rs)
      then Inr (rs\<lparr>rs_families := map (\<lambda>f. if fam_token f = token
             then f\<lparr>fam_status := ''active'', fam_plan := plan, fam_quota_bytes := quota_bytes,
                    fam_expires_ms := expires_ms, fam_note := note, fam_deposit_token := deposit_token_for hash token\<rparr>
             else f) (rs_families rs)\<rparr>)
      else if list_ex (\<lambda>f. fam_id f = fresh_id) (rs_families rs) then Inl ''UNIQUE constraint failed: families.family_id''
      else Inr (rs\<lparr>rs_families := rs_families rs @
             [\<lparr>fam_token = token, fam_id = fresh_id, fam_status = ''active'', fam_plan = plan,
               fam_quota_bytes = quota_bytes, fam_created_ms = now_ms, fam_expires_ms = expires_ms, fam_note = note,
               fam_deposit_token = deposit_token_for hash token, fam_rotation_pk = None\<rparr>]\<rparr>))"

definition coalesce :: "'a option \<Rightarrow> 'a option \<Rightarrow> 'a option" where
  "coalesce new old = (case new of None \<Rightarrow> old | Some _ \<Rightarrow> new)"

definition patch_family ::
  "relay_server \<Rightarrow> string \<Rightarrow> string option \<Rightarrow> string option \<Rightarrow> nat option \<Rightarrow> i64 option \<Rightarrow> string option \<Rightarrow>
   family_row option \<times> relay_server" where
  "patch_family rs token status plan quota_bytes expires_ms note =
     (let rs' = rs\<lparr>rs_families := map (\<lambda>f. if fam_token f = token
            then f\<lparr>fam_status := (case status of None \<Rightarrow> fam_status f | Some s \<Rightarrow> s), fam_plan := coalesce plan (fam_plan f),
                   fam_quota_bytes := coalesce quota_bytes (fam_quota_bytes f),
                   fam_expires_ms := coalesce expires_ms (fam_expires_ms f), fam_note := coalesce note (fam_note f)\<rparr>
            else f) (rs_families rs)\<rparr>
      in (get_family_on rs' token, rs'))"

definition delete_family :: "relay_server \<Rightarrow> string \<Rightarrow> bool \<times> relay_server" where
  "delete_family rs token =
     (list_ex (\<lambda>f. fam_token f = token) (rs_families rs),
      rs\<lparr>rs_store := (rs_store rs)\<lparr>envelopes := filter (\<lambda>r. env_family r \<noteq> token) (envelopes (rs_store rs)),
           presence := filter (\<lambda>p. ps_family p \<noteq> token) (presence (rs_store rs)),
           push_hints := filter (\<lambda>h. ph_family h \<noteq> token) (push_hints (rs_store rs)),
           push_registrations := filter (\<lambda>p. pr_family p \<noteq> token) (push_registrations (rs_store rs))\<rparr>,
         rs_families := filter (\<lambda>f. fam_token f \<noteq> token) (rs_families rs)\<rparr>)"

record family_usage =
  fu_family :: family_row
  fu_usage_bytes :: nat
  fu_envelope_count :: nat

definition list_families :: "relay_server \<Rightarrow> string option \<Rightarrow> nat \<Rightarrow> nat \<Rightarrow> family_usage list \<times> nat" where
  "list_families rs status_filter limit offset =
     (let matching = filter (\<lambda>f. case status_filter of None \<Rightarrow> True | Some s \<Rightarrow> fam_status f = s) (rs_families rs)
      in (map (\<lambda>f. \<lparr>fu_family = f, fu_usage_bytes = family_sealed_bytes (rs_store rs) (fam_token f),
                   fu_envelope_count = count_for_family (rs_store rs) (fam_token f)\<rparr>)
            (take limit (drop offset (sort_key (\<lambda>f. (fam_created_ms f, fam_token f)) matching))),
          length matching))"

section \<open>Authorization\<close>

datatype family_op = PostOp | ReadOp | PresenceOp | RotateOp | StatusOp

definition allowed_for_deposit :: "family_op \<Rightarrow> bool" where
  "allowed_for_deposit op \<longleftrightarrow> op = PostOp \<or> op = PresenceOp"

record app_state =
  app_server :: relay_server
  app_auth_tokens :: "string list"
  app_static_deposit_tokens :: "string \<rightharpoonup> string"
  app_family_quota_bytes :: nat
  app_admin_token :: "string option"

datatype auth_error =
    DepositOnly
  | Unauthorized
  | FamilySuspended
  | FamilyExpired bool

definition family_limit_key :: "string \<Rightarrow> string \<Rightarrow> string" where
  "family_limit_key family_id token = (if family_id = '''' then token else family_id)"

definition family_rate_key :: "token_class \<Rightarrow> string \<Rightarrow> string" where
  "family_rate_key cls family_key = (case cls of Member \<Rightarrow> ''member'' | Deposit \<Rightarrow> ''deposit'') @ '':'' @ family_key"

definition billing_refusal :: "family_row \<Rightarrow> family_op \<Rightarrow> i64 \<Rightarrow> auth_error option" where
  "billing_refusal family op now_ms =
     (if op = StatusOp then None
      else if fam_status family \<noteq> ''active'' then Some FamilySuspended
      else case fam_expires_ms family of None \<Rightarrow> None
        | Some expires_ms \<Rightarrow>
            if now_ms > i64_add expires_ms FAMILY_EXPIRY_GRACE_MS then Some (FamilyExpired False)
            else if now_ms > expires_ms \<and> op = PostOp then Some (FamilyExpired True)
            else None)"

definition authorize_family :: "app_state \<Rightarrow> string \<Rightarrow> family_op \<Rightarrow> i64 \<Rightarrow> auth_error + family_access" where
  "authorize_family app token op now_ms =
     (if token \<in> set (app_auth_tokens app)
      then Inr \<lparr>fa_token = token, fa_class = Member, fa_rate_key = family_rate_key Member token,
             fa_family_key = token, fa_quota_bytes = app_family_quota_bytes app, fa_depositor = None\<rparr>
      else case app_static_deposit_tokens app token of
        Some member \<Rightarrow>
          if \<not> allowed_for_deposit op then Inl DepositOnly
          else Inr \<lparr>fa_token = member, fa_class = Deposit, fa_rate_key = family_rate_key Deposit member,
                 fa_family_key = member, fa_quota_bytes = app_family_quota_bytes app, fa_depositor = Some token\<rparr>
      | None \<Rightarrow>
          (case get_family_by_credential_on (app_server app) token of
             None \<Rightarrow> Inl Unauthorized
           | Some (family, cls) \<Rightarrow>
               if cls = Deposit \<and> \<not> allowed_for_deposit op then Inl DepositOnly
               else case billing_refusal family op now_ms of
                   Some e \<Rightarrow> Inl e
                 | None \<Rightarrow>
                     let family_key = family_limit_key (fam_id family) (fam_token family) in
                     Inr \<lparr>fa_token = fam_token family, fa_class = cls, fa_rate_key = family_rate_key cls family_key,
                       fa_family_key = family_key,
                       fa_quota_bytes = (case fam_quota_bytes family of None \<Rightarrow> app_family_quota_bytes app | Some q \<Rightarrow> q),
                       fa_depositor = (case cls of Member \<Rightarrow> None | Deposit \<Rightarrow> Some token)\<rparr>))"

definition family_pass_state :: "family_row \<Rightarrow> i64 \<Rightarrow> string" where
  "family_pass_state family now_ms =
     (if fam_status family \<noteq> ''active'' then ''suspended''
      else case fam_expires_ms family of None \<Rightarrow> ''active''
        | Some expires_ms \<Rightarrow>
            if now_ms > i64_add expires_ms FAMILY_EXPIRY_GRACE_MS then ''suspended''
            else if now_ms > expires_ms then ''grace''
            else ''active'')"

section \<open>Rotation\<close>

definition string_bytes :: "string \<Rightarrow> bytes" where
  "string_bytes s = map (\<lambda>c. of_nat (of_char c)) s"

definition ROTATION_SIGNING_DOMAIN :: bytes where
  "ROTATION_SIGNING_DOMAIN = string_bytes ''CruiseMesh family token rotation v1'' @ [0]"

definition rotation_signed_bytes :: "string \<Rightarrow> string \<Rightarrow> bytes" where
  "rotation_signed_bytes current_token new_token =
     ROTATION_SIGNING_DOMAIN @
     concat (map (\<lambda>t. u16_bytes (of_nat (length t)) @ string_bytes t) [current_token, new_token])"

record rotation_authority =
  ra_public_key :: bytes
  ra_signature :: bytes

datatype rotation_check = CheckAccepted | CheckRegister | CheckRefused

definition check_rotation_authority ::
  "(bytes \<Rightarrow> bytes \<Rightarrow> bytes \<Rightarrow> bool) \<Rightarrow> bytes option \<Rightarrow> bytes \<Rightarrow> rotation_authority \<Rightarrow> rotation_check" where
  "check_rotation_authority verify stored_pk message authority =
     (case stored_pk of
        Some stored \<Rightarrow>
          if stored \<noteq> ra_public_key authority then CheckRefused
          else if verify (ra_public_key authority) message (ra_signature authority) then CheckAccepted
          else CheckRefused
      | None \<Rightarrow>
          if verify (ra_public_key authority) message (ra_signature authority) then CheckRegister else CheckRefused)"

datatype family_rotation =
    Rotated family_row nat
  | AlreadyRotated family_row
  | UnknownFamily
  | TokenTaken
  | RotationUnauthorized

definition move_envelopes :: "string \<Rightarrow> string \<Rightarrow> stored_envelope list \<Rightarrow> stored_envelope list" where
  "move_envelopes old new rows = map (\<lambda>r. if env_family r = old then r\<lparr>env_family := new\<rparr> else r) rows"

definition move_presence :: "string \<Rightarrow> string \<Rightarrow> stored_presence list \<Rightarrow> stored_presence list" where
  "move_presence old new rows = map (\<lambda>r. if ps_family r = old then r\<lparr>ps_family := new\<rparr> else r) rows"

definition moved_store :: "relay_store \<Rightarrow> string \<Rightarrow> string \<Rightarrow> relay_store" where
  "moved_store st old new =
     st\<lparr>envelopes := move_envelopes old new (envelopes st), presence := move_presence old new (presence st),
        push_hints := filter (\<lambda>h. ph_family h \<noteq> old) (push_hints st),
        push_registrations := filter (\<lambda>r. pr_family r \<noteq> old) (push_registrations st)\<rparr>"

definition envelopes_collide :: "relay_store \<Rightarrow> string \<Rightarrow> string \<Rightarrow> bool" where
  "envelopes_collide st old new \<longleftrightarrow>
     list_ex (\<lambda>r. env_family r = old \<and> list_ex (\<lambda>s. env_family s = new \<and> env_msg_id s = env_msg_id r) (envelopes st))
       (envelopes st)"

definition presence_collides :: "relay_store \<Rightarrow> string \<Rightarrow> string \<Rightarrow> bool" where
  "presence_collides st old new \<longleftrightarrow>
     list_ex (\<lambda>r. ps_family r = old \<and> list_ex (\<lambda>s. ps_family s = new \<and> ps_hint s = ps_hint r) (presence st))
       (presence st)"

definition set_rotation_pk :: "relay_server \<Rightarrow> string \<Rightarrow> bytes \<Rightarrow> relay_server" where
  "set_rotation_pk rs token pk =
     rs\<lparr>rs_families := map (\<lambda>f. if fam_token f = token then f\<lparr>fam_rotation_pk := Some pk\<rparr> else f) (rs_families rs)\<rparr>"

definition rotate_family_token ::
  "(bytes \<Rightarrow> bytes \<Rightarrow> bytes \<Rightarrow> bool) \<Rightarrow> (string \<Rightarrow> string) \<Rightarrow> relay_server \<Rightarrow> string \<Rightarrow> string \<Rightarrow> rotation_authority \<Rightarrow>
   string + (family_rotation \<times> relay_server)" where
  "rotate_family_token verify hash rs current_token new_token authority =
     (let target = (case get_family_on rs current_token of
            Some row \<Rightarrow> Some (row, current_token = new_token)
          | None \<Rightarrow> map_option (\<lambda>row. (row, True)) (get_family_on rs new_token))
      in case target of None \<Rightarrow> Inr (UnknownFamily, rs)
      | Some (row, already_rotated) \<Rightarrow>
          let message = rotation_signed_bytes current_token new_token;
              check = check_rotation_authority verify (fam_rotation_pk row) message authority
          in if check = CheckRefused \<or> (check = CheckRegister \<and> already_rotated) then Inr (RotationUnauthorized, rs)
             else
               let rs1 = (if check = CheckRegister then set_rotation_pk rs (fam_token row) (ra_public_key authority) else rs)
               in if already_rotated
                  then (case get_family_on rs1 (fam_token row) of
                          None \<Rightarrow> Inl ''family vanished during rotation''
                        | Some family \<Rightarrow> Inr (AlreadyRotated family, rs1))
                  else
                    let new_deposit = deposit_token_for hash new_token
                    in if get_family_by_credential_on rs1 new_token \<noteq> None \<or> get_family_by_credential_on rs1 new_deposit \<noteq> None
                       then Inr (TokenTaken, rs)
                       else if envelopes_collide (rs_store rs1) current_token new_token
                       then Inl ''UNIQUE constraint failed: envelopes.family_token, envelopes.msg_id''
                       else if presence_collides (rs_store rs1) current_token new_token
                       then Inl ''UNIQUE constraint failed: presence.family_token, presence.hint''
                       else
                         let moved = count_for_family (rs_store rs1) current_token;
                             rs2 = rs1\<lparr>rs_store := moved_store (rs_store rs1) current_token new_token,
                                       rs_families := map (\<lambda>f. if fam_token f = current_token
                                          then f\<lparr>fam_token := new_token, fam_deposit_token := new_deposit\<rparr> else f) (rs_families rs1)\<rparr>
                         in case get_family_on rs2 new_token of
                              None \<Rightarrow> Inl ''family vanished during rotation''
                            | Some family \<Rightarrow> Inr (Rotated family moved, rs2))"

section \<open>Administration routes and the rotation route\<close>

datatype family_api_error =
    FamBadRequest string
  | FamInternal string
  | FamNotFound
  | AdminUnauthorized
  | FamilyRefused auth_error
  | RotationTokenTaken
  | RotationUnsupported
  | RotationNotSigned

definition debug_str :: "string \<Rightarrow> string" where
  "debug_str s = CHR 0x22 # s @ [CHR 0x22]"

definition constant_time_eq :: "string \<Rightarrow> string \<Rightarrow> bool" where
  "constant_time_eq a b \<longleftrightarrow>
     length a = length b \<and> fold (\<lambda>(x, y) acc. acc OR (x XOR y)) (zip (string_bytes a) (string_bytes b)) 0 = 0"

definition authorize_admin :: "app_state \<Rightarrow> string \<Rightarrow> family_api_error option" where
  "authorize_admin app provided =
     (case app_admin_token app of
        None \<Rightarrow> Some FamNotFound
      | Some expected \<Rightarrow> if \<not> constant_time_eq provided expected then Some AdminUnauthorized else None)"

definition validate_quota_bytes :: "nat option \<Rightarrow> family_api_error option" where
  "validate_quota_bytes quota_bytes =
     (if quota_bytes = Some 0
      then Some (FamBadRequest ''quota_bytes must be greater than 0 (omit it for the server default)'') else None)"

text \<open>Rust's \<open>char::is_whitespace\<close> and \<open>char::is_control\<close> on the characters of a token.\<close>

definition blank_or_control :: "bytes \<Rightarrow> bool" where
  "blank_or_control ch \<longleftrightarrow> is_whitespace ch \<or> code_point ch < 32 \<or> 127 \<le> code_point ch \<and> code_point ch < 160"

definition token_chars :: "string \<Rightarrow> bytes list" where
  "token_chars token = utf8_chars (map of_char token)"

record family_response =
  resp_family :: family_row
  resp_effective_quota_bytes :: nat
  resp_usage_bytes :: nat
  resp_envelope_count :: nat

definition family_response_of :: "app_state \<Rightarrow> family_row \<Rightarrow> family_response" where
  "family_response_of app row =
     \<lparr>resp_family = row,
      resp_effective_quota_bytes = (case fam_quota_bytes row of None \<Rightarrow> app_family_quota_bytes app | Some q \<Rightarrow> q),
      resp_usage_bytes = family_sealed_bytes (rs_store (app_server app)) (fam_token row),
      resp_envelope_count = count_for_family (rs_store (app_server app)) (fam_token row)\<rparr>"

definition provision_refusal :: "app_state \<Rightarrow> string \<Rightarrow> nat option \<Rightarrow> family_api_error option" where
  "provision_refusal app token quota_bytes =
     (if token = '''' \<or> length token > MAX_FAMILY_TOKEN_LEN
      then Some (FamBadRequest (''token must be 1..='' @ show_nat MAX_FAMILY_TOKEN_LEN @ '' characters''))
      else if list_ex blank_or_control (token_chars token)
      then Some (FamBadRequest ''token must not contain whitespace or control characters'')
      else if app_admin_token app = Some token \<or> token \<in> set (app_auth_tokens app)
      then Some (FamBadRequest ''token collides with a server-configured token'')
      else if is_deposit_token token
      then Some (FamBadRequest (''token must not start with the deposit-token prefix '' @ debug_str DEPOSIT_TOKEN_PREFIX))
      else if is_family_id token
      then Some (FamBadRequest (''token must not start with the family-id prefix '' @ debug_str FAMILY_ID_PREFIX))
      else validate_quota_bytes quota_bytes)"

definition admin_provision_family ::
  "(string \<Rightarrow> string) \<Rightarrow> string \<Rightarrow> app_state \<Rightarrow> string \<Rightarrow> string \<Rightarrow> string option \<Rightarrow> nat option \<Rightarrow> i64 option \<Rightarrow> string option \<Rightarrow> i64 \<Rightarrow>
   (family_api_error + family_response) \<times> app_state" where
  "admin_provision_family hash fresh_id app provided token plan quota_bytes expires_ms note now_ms =
     (case authorize_admin app provided of Some e \<Rightarrow> (Inl e, app)
      | None \<Rightarrow>
          (case provision_refusal app token quota_bytes of Some e \<Rightarrow> (Inl e, app)
           | None \<Rightarrow>
               (case upsert_family hash fresh_id (app_server app) token plan quota_bytes expires_ms note now_ms of
                  Inl detail \<Rightarrow> (Inl (FamInternal detail), app)
                | Inr rs' \<Rightarrow>
                    let app' = app\<lparr>app_server := rs'\<rparr>
                    in (case get_family_on rs' token of
                          None \<Rightarrow> Inl (FamInternal ''family vanished after upsert'')
                        | Some row \<Rightarrow> Inr (family_response_of app' row), app'))))"

definition status_refusal :: "string option \<Rightarrow> family_api_error option" where
  "status_refusal status =
     (case status of None \<Rightarrow> None
      | Some s \<Rightarrow>
          if s \<noteq> ''active'' \<and> s \<noteq> ''suspended''
          then Some (FamBadRequest (''status must be '' @ debug_str ''active'' @ '' or '' @ debug_str ''suspended'')) else None)"

definition DEFAULT_FAMILY_LIST_LIMIT :: nat where
  "DEFAULT_FAMILY_LIST_LIMIT = 100"

definition MAX_FAMILY_LIST_LIMIT :: nat where
  "MAX_FAMILY_LIST_LIMIT = 500"

definition admin_list_families ::
  "app_state \<Rightarrow> string \<Rightarrow> string option \<Rightarrow> nat option \<Rightarrow> nat option \<Rightarrow> family_api_error + (family_usage list \<times> nat \<times> nat \<times> nat)" where
  "admin_list_families app provided status limit offset =
     (case authorize_admin app provided of Some e \<Rightarrow> Inl e
      | None \<Rightarrow>
          (case status_refusal status of Some e \<Rightarrow> Inl e
           | None \<Rightarrow>
               let limit = max 1 (min (case limit of None \<Rightarrow> DEFAULT_FAMILY_LIST_LIMIT | Some l \<Rightarrow> l) MAX_FAMILY_LIST_LIMIT);
                   offset = (case offset of None \<Rightarrow> 0 | Some v \<Rightarrow> v);
                   (families, total) = list_families (app_server app) status limit offset
               in Inr (families, total, limit, offset)))"

definition admin_get_family :: "app_state \<Rightarrow> string \<Rightarrow> string \<Rightarrow> family_api_error + family_response" where
  "admin_get_family app provided id_or_token =
     (case authorize_admin app provided of Some e \<Rightarrow> Inl e
      | None \<Rightarrow>
          (case resolve_family_on (app_server app) id_or_token of
             None \<Rightarrow> Inl FamNotFound
           | Some row \<Rightarrow> Inr (family_response_of app row)))"

definition admin_patch_family ::
  "app_state \<Rightarrow> string \<Rightarrow> string \<Rightarrow> string option \<Rightarrow> string option \<Rightarrow> nat option \<Rightarrow> i64 option \<Rightarrow> string option \<Rightarrow>
   (family_api_error + family_response) \<times> app_state" where
  "admin_patch_family app provided id_or_token status plan quota_bytes expires_ms note =
     (case authorize_admin app provided of Some e \<Rightarrow> (Inl e, app)
      | None \<Rightarrow>
      case status_refusal status of Some e \<Rightarrow> (Inl e, app)
      | None \<Rightarrow>
      case validate_quota_bytes quota_bytes of Some e \<Rightarrow> (Inl e, app)
      | None \<Rightarrow>
      case resolve_family_on (app_server app) id_or_token of None \<Rightarrow> (Inl FamNotFound, app)
      | Some family \<Rightarrow>
          let (row, rs') = patch_family (app_server app) (fam_token family) status plan quota_bytes expires_ms note;
              app' = app\<lparr>app_server := rs'\<rparr>
          in (case row of None \<Rightarrow> Inl FamNotFound | Some r \<Rightarrow> Inr (family_response_of app' r), app'))"

definition admin_delete_family :: "app_state \<Rightarrow> string \<Rightarrow> string \<Rightarrow> (family_api_error + bool) \<times> app_state" where
  "admin_delete_family app provided id_or_token =
     (case authorize_admin app provided of Some e \<Rightarrow> (Inl e, app)
      | None \<Rightarrow>
      case resolve_family_on (app_server app) id_or_token of None \<Rightarrow> (Inl FamNotFound, app)
      | Some family \<Rightarrow>
          let (deleted, rs') = delete_family (app_server app) (fam_token family)
          in (if \<not> deleted then Inl FamNotFound else Inr True, app\<lparr>app_server := rs'\<rparr>))"

definition decode_fixed_base64_field :: "nat \<Rightarrow> bytes option \<Rightarrow> string \<Rightarrow> family_api_error + bytes" where
  "decode_fixed_base64_field n value field =
     (case value of None \<Rightarrow> Inl (FamBadRequest (field @ '' is required''))
      | Some bytes \<Rightarrow>
          if length bytes = n then Inr bytes
          else Inl (FamBadRequest (field @ '' must decode to exactly '' @ show_nat n @ '' bytes'')))"

definition rotation_refusal :: "app_state \<Rightarrow> string \<Rightarrow> family_api_error option" where
  "rotation_refusal app new_token =
     (if length new_token < MIN_ROTATION_TOKEN_LEN \<or> length new_token > MAX_FAMILY_TOKEN_LEN
      then Some (FamBadRequest (''new_token must be '' @ show_nat MIN_ROTATION_TOKEN_LEN @ ''..='' @
                   show_nat MAX_FAMILY_TOKEN_LEN @ '' characters''))
      else if list_ex blank_or_control (token_chars new_token)
      then Some (FamBadRequest ''new_token must not contain whitespace or control characters'')
      else if is_deposit_token new_token
      then Some (FamBadRequest (''new_token must not start with the deposit-token prefix '' @ debug_str DEPOSIT_TOKEN_PREFIX))
      else if is_family_id new_token
      then Some (FamBadRequest (''new_token must not start with the family-id prefix '' @ debug_str FAMILY_ID_PREFIX))
      else if app_admin_token app = Some new_token \<or> new_token \<in> set (app_auth_tokens app) \<or>
              app_static_deposit_tokens app new_token \<noteq> None
      then Some RotationTokenTaken
      else None)"

record rotate_family_response =
  rot_family_token :: string
  rot_deposit_token :: string
  rot_envelopes_moved :: nat
  rot_rotated :: bool

definition rotate_family ::
  "(bytes \<Rightarrow> bytes \<Rightarrow> bytes \<Rightarrow> bool) \<Rightarrow> (string \<Rightarrow> string) \<Rightarrow> app_state \<Rightarrow> string \<Rightarrow> string \<Rightarrow> bytes option \<Rightarrow> bytes option \<Rightarrow> i64 \<Rightarrow>
   (family_api_error + rotate_family_response) \<times> app_state" where
  "rotate_family verify hash app presented new_token rotation_pk rotation_sig now_ms =
     (case authorize_family app presented RotateOp now_ms of Inl e \<Rightarrow> (Inl (FamilyRefused e), app)
      | Inr access \<Rightarrow>
      case rotation_refusal app new_token of Some e \<Rightarrow> (Inl e, app)
      | None \<Rightarrow>
      case decode_fixed_base64_field 32 rotation_pk ''rotation_pk'' of Inl e \<Rightarrow> (Inl e, app)
      | Inr pk \<Rightarrow>
      case decode_fixed_base64_field 64 rotation_sig ''rotation_sig'' of Inl e \<Rightarrow> (Inl e, app)
      | Inr signature \<Rightarrow>
      case rotate_family_token verify hash (app_server app) (fa_token access) new_token
             \<lparr>ra_public_key = pk, ra_signature = signature\<rparr> of
        Inl detail \<Rightarrow> (Inl (FamInternal detail), app)
      | Inr (outcome, rs') \<Rightarrow>
          (case outcome of
             Rotated family moved \<Rightarrow>
               Inr \<lparr>rot_family_token = fam_token family, rot_deposit_token = fam_deposit_token family,
                    rot_envelopes_moved = moved, rot_rotated = True\<rparr>
           | AlreadyRotated family \<Rightarrow>
               Inr \<lparr>rot_family_token = fam_token family, rot_deposit_token = fam_deposit_token family,
                    rot_envelopes_moved = 0, rot_rotated = False\<rparr>
           | UnknownFamily \<Rightarrow> Inl RotationUnsupported
           | TokenTaken \<Rightarrow> Inl RotationTokenTaken
           | RotationUnauthorized \<Rightarrow> Inl RotationNotSigned,
           app\<lparr>app_server := rs'\<rparr>))"

record family_status_response =
  fs_plan :: "string option"
  fs_expires_ms :: "i64 option"
  fs_state :: string

definition family_status :: "app_state \<Rightarrow> string \<Rightarrow> i64 \<Rightarrow> auth_error + family_status_response" where
  "family_status app presented now_ms =
     map_sum id (\<lambda>access.
       case get_family_on (app_server app) (fa_token access) of
         None \<Rightarrow> \<lparr>fs_plan = None, fs_expires_ms = None, fs_state = ''active''\<rparr>
       | Some family \<Rightarrow>
           \<lparr>fs_plan = fam_plan family, fs_expires_ms = fam_expires_ms family, fs_state = family_pass_state family now_ms\<rparr>)
       (authorize_family app presented StatusOp now_ms)"

section \<open>What a credential may do\<close>

definition may :: "app_state \<Rightarrow> string \<Rightarrow> family_op \<Rightarrow> i64 \<Rightarrow> bool" where
  "may app token op now \<longleftrightarrow> (case authorize_family app token op now of Inl _ \<Rightarrow> False | Inr _ \<Rightarrow> True)"

lemma find_SomeD: "find P xs = Some x \<Longrightarrow> P x \<and> x \<in> set xs"
  by (auto simp: find_Some_iff)

lemma credential_class:
  assumes "get_family_by_credential_on rs token = Some (f, cls)"
  shows "f \<in> set (rs_families rs)" "cls = Member \<longleftrightarrow> fam_token f = token" "cls = Deposit \<Longrightarrow> fam_deposit_token f = token"
  using assms by (auto simp: get_family_by_credential_on_def split: option.splits if_splits dest!: find_SomeD)

text \<open>
  A friend card posts and asks for presence, nothing else. Whatever credential is presented and however the
  daemon is configured: an access of deposit class is only granted for posting and presence, and what it posts
  is charged to the presented credential; an access of member class is only granted for the family's own token and
  charged to nobody's share. Either way a static token, a derived static token or a row of the table stands behind the access.
\<close>

theorem credential_confined:
  assumes "authorize_family app token op now = Inr access"
  shows "(fa_class access = Deposit \<longrightarrow> (op = PostOp \<or> op = PresenceOp) \<and> fa_depositor access = Some token) \<and>
    (fa_class access = Member \<longrightarrow> fa_token access = token \<and> fa_depositor access = None) \<and>
    (token \<in> set (app_auth_tokens app) \<or> app_static_deposit_tokens app token = Some (fa_token access) \<or>
     (\<exists>f\<in>set (rs_families (app_server app)). fa_token access = fam_token f \<and>
        token = (if fa_class access = Member then fam_token f else fam_deposit_token f)))"
proof -
  consider (static) "token \<in> set (app_auth_tokens app)"
    | (derived) m where "token \<notin> set (app_auth_tokens app)" "app_static_deposit_tokens app token = Some m"
    | (hosted) f cls where "token \<notin> set (app_auth_tokens app)" "app_static_deposit_tokens app token = None"
        "get_family_by_credential_on (app_server app) token = Some (f, cls)"
    using assms by (auto simp: authorize_family_def split: if_splits option.splits)
  then show ?thesis
  proof cases
    case static
    then show ?thesis using assms by (auto simp: authorize_family_def)
  next
    case derived
    then show ?thesis using assms by (auto simp: authorize_family_def allowed_for_deposit_def split: if_splits)
  next
    case hosted
    have acc: "\<not> (cls = Deposit \<and> \<not> allowed_for_deposit op)" "fa_class access = cls" "fa_token access = fam_token f"
      "fa_depositor access = (case cls of Member \<Rightarrow> None | Deposit \<Rightarrow> Some token)"
      using assms hosted by (auto simp: authorize_family_def Let_def split: if_splits option.splits)
    then show ?thesis
      using credential_class [OF hosted(3)] by (cases cls) (force simp: allowed_for_deposit_def)+
  qed
qed

text \<open>
  The pass state a shell shows is what the relay enforces. For a hosted family and its own token: posting
  is granted exactly while the state is \<open>active\<close>, draining the mailbox (and announcing presence, and rotating) exactly
  while it is \<open>active\<close> or \<open>grace\<close>, and reading the state itself always. The state has no other value than these and \<open>suspended\<close>.
\<close>

theorem pass_state_is_enforced:
  assumes "token \<notin> set (app_auth_tokens app)" "app_static_deposit_tokens app token = None"
    and "get_family_on (app_server app) token = Some f"
  shows "family_pass_state f now \<in> {''active'', ''grace'', ''suspended''} \<and>
    (may app token PostOp now \<longleftrightarrow> family_pass_state f now = ''active'') \<and>
    (may app token ReadOp now \<longleftrightarrow> family_pass_state f now \<noteq> ''suspended'') \<and>
    (may app token PresenceOp now \<longleftrightarrow> family_pass_state f now \<noteq> ''suspended'') \<and>
    (may app token RotateOp now \<longleftrightarrow> family_pass_state f now \<noteq> ''suspended'') \<and> may app token StatusOp now"
proof -
  have "get_family_by_credential_on (app_server app) token = Some (f, Member)"
    using assms(3) by (auto simp: get_family_by_credential_on_def get_family_on_def dest: find_SomeD)
  then have "may app token op now \<longleftrightarrow> billing_refusal f op now = None" for op
    using assms(1,2) by (simp add: may_def authorize_family_def Let_def split: option.split)
  then show ?thesis
    by (auto simp: billing_refusal_def family_pass_state_def split: option.splits)
qed

definition demo_family :: family_row where
  "demo_family = \<lparr>fam_token = ''fam'', fam_id = ''cmfid1-a'', fam_status = ''active'', fam_plan = None, fam_quota_bytes = None,
     fam_created_ms = 0, fam_expires_ms = Some 1000, fam_note = None, fam_deposit_token = ''cmdep1-fam'', fam_rotation_pk = None\<rparr>"

definition demo_app :: "relay_store \<Rightarrow> app_state" where
  "demo_app st = \<lparr>app_server = \<lparr>rs_store = st, rs_families = [demo_family]\<rparr>, app_auth_tokens = [],
     app_static_deposit_tokens = Map.empty, app_family_quota_bytes = 1000, app_admin_token = None\<rparr>"

lemma credential_confined_witness:
  "\<exists>access. authorize_family (demo_app relay_store_open) ''cmdep1-fam'' PostOp 500 = Inr access \<and>
     fa_depositor access = Some ''cmdep1-fam''"
proof -
  obtain access where a: "authorize_family (demo_app relay_store_open) ''cmdep1-fam'' PostOp 500 = Inr access"
      "fa_class access = Deposit"
    by (simp add: authorize_family_def demo_app_def demo_family_def get_family_by_credential_on_def billing_refusal_def
        allowed_for_deposit_def Let_def FAMILY_EXPIRY_GRACE_MS_def i64_defs)
  with credential_confined [OF a(1)] show ?thesis by blast
qed

lemma pass_state_is_enforced_witness:
  "may (demo_app relay_store_open) ''fam'' PostOp 900 \<and> \<not> may (demo_app relay_store_open) ''fam'' PostOp 1001 \<and>
   may (demo_app relay_store_open) ''fam'' ReadOp 1001 \<and> family_pass_state demo_family 1001 = ''grace''"
proof -
  have hyps: "''fam'' \<notin> set (app_auth_tokens (demo_app relay_store_open))"
    "app_static_deposit_tokens (demo_app relay_store_open) ''fam'' = None"
    "get_family_on (app_server (demo_app relay_store_open)) ''fam'' = Some demo_family"
    by (simp_all add: demo_app_def demo_family_def get_family_on_def)
  have "family_pass_state demo_family 900 = ''active''" "family_pass_state demo_family 1001 = ''grace''"
    by (simp_all add: family_pass_state_def demo_family_def FAMILY_EXPIRY_GRACE_MS_def i64_defs)
  then show ?thesis
    using pass_state_is_enforced [OF hyps, of 900] pass_state_is_enforced [OF hyps, of 1001] by simp
qed

section \<open>A rotation moves the mailbox\<close>

definition families_inv :: "relay_server \<Rightarrow> bool" where
  "families_inv rs \<longleftrightarrow>
     distinct (map fam_token (rs_families rs)) \<and> distinct (map fam_deposit_token (rs_families rs)) \<and>
     fam_token ` set (rs_families rs) \<inter> fam_deposit_token ` set (rs_families rs) = {}"

definition resolves :: "relay_server \<Rightarrow> string \<Rightarrow> bool" where
  "resolves rs credential \<longleftrightarrow> get_family_by_credential_on rs credential \<noteq> None"

lemma resolves_iff:
  "resolves rs credential \<longleftrightarrow> (\<exists>f\<in>set (rs_families rs). fam_token f = credential \<or> fam_deposit_token f = credential)"
proof -
  have "resolves rs credential \<longleftrightarrow> find (\<lambda>f. fam_token f = credential) (rs_families rs) \<noteq> None \<or>
      find (\<lambda>f. fam_deposit_token f = credential) (rs_families rs) \<noteq> None"
    by (auto simp: resolves_def get_family_by_credential_on_def split: option.splits)
  then show ?thesis by (simp only: find_None_iff) blast
qed

definition rekey :: "string \<Rightarrow> string \<Rightarrow> string \<Rightarrow> bytes \<Rightarrow> family_row \<Rightarrow> family_row" where
  "rekey old new new_deposit pk f =
     (if fam_token f = old then f\<lparr>fam_token := new, fam_deposit_token := new_deposit, fam_rotation_pk := Some pk\<rparr> else f)"

definition rekeyed :: "relay_server \<Rightarrow> string \<Rightarrow> string \<Rightarrow> string \<Rightarrow> bytes \<Rightarrow> relay_server" where
  "rekeyed rs old new new_deposit pk =
     rs\<lparr>rs_store := moved_store (rs_store rs) old new,
        rs_families := map (rekey old new new_deposit pk) (rs_families rs)\<rparr>"

lemma rekey_fields:
  "fam_token (rekey old new dep pk f) = (if fam_token f = old then new else fam_token f)"
  "fam_deposit_token (rekey old new dep pk f) = (if fam_token f = old then dep else fam_deposit_token f)"
  "fam_id (rekey old new dep pk f) = fam_id f"
  "fam_rotation_pk (rekey old new dep pk f) = (if fam_token f = old then Some pk else fam_rotation_pk f)"
  by (simp_all add: rekey_def)

lemma rekeyed_parts:
  "rs_store (rekeyed rs old new dep pk) = moved_store (rs_store rs) old new"
  "rs_families (rekeyed rs old new dep pk) = map (rekey old new dep pk) (rs_families rs)"
  by (simp_all add: rekeyed_def)

lemma get_familyD: "get_family_on rs token = Some row \<Longrightarrow> row \<in> set (rs_families rs) \<and> fam_token row = token"
  by (auto simp: get_family_on_def dest: find_SomeD)

lemma get_family_unique:
  "distinct (map fam_token (rs_families rs)) \<Longrightarrow> get_family_on rs token = Some row \<Longrightarrow>
   f \<in> set (rs_families rs) \<Longrightarrow> fam_token f = token \<Longrightarrow> f = row"
  by (auto simp: distinct_map dest!: get_familyD intro: inj_onD)

lemma resolves_set_rotation_pk: "resolves (set_rotation_pk rs token pk) credential = resolves rs credential"
proof -
  have "list_ex (\<lambda>f. fam_token f = credential \<or> fam_deposit_token f = credential)
      (map (\<lambda>f. if fam_token f = token then f\<lparr>fam_rotation_pk := Some pk\<rparr> else f) fams) \<longleftrightarrow>
    list_ex (\<lambda>f. fam_token f = credential \<or> fam_deposit_token f = credential) fams" for fams
    by (induction fams) auto
  moreover have "rs_families (set_rotation_pk rs token pk) =
      map (\<lambda>f. if fam_token f = token then f\<lparr>fam_rotation_pk := Some pk\<rparr> else f) (rs_families rs)"
    by (simp add: set_rotation_pk_def)
  ultimately show ?thesis by (simp only: resolves_iff list_ex_iff)
qed

lemma rotated_cases:
  assumes inv: "families_inv rs"
    and rot: "rotate_family_token verify hash rs current new authority = Inr (Rotated family moved, rs')"
  shows "current \<noteq> new" "verify (ra_public_key authority) (rotation_signed_bytes current new) (ra_signature authority)"
    "\<exists>row. get_family_on rs current = Some row \<and> fam_rotation_pk row \<in> {None, Some (ra_public_key authority)}"
    "\<not> resolves rs new" "\<not> resolves rs (deposit_token_for hash new)"
    "moved = count_for_family (rs_store rs) current"
    "rs' = rekeyed rs current new (deposit_token_for hash new) (ra_public_key authority)"
    "get_family_on rs' new = Some family"
proof -
  obtain row where row: "get_family_on rs current = Some row" "current \<noteq> new"
    using rot by (auto simp: rotate_family_token_def Let_def split: option.splits if_splits)
  define check where "check = check_rotation_authority verify (fam_rotation_pk row) (rotation_signed_bytes current new) authority"
  define rs1 where "rs1 = (if check = CheckRegister then set_rotation_pk rs (fam_token row) (ra_public_key authority) else rs)"
  have tok: "fam_token row = current" using row(1) by (auto simp: get_family_on_def dest: find_SomeD)
  have step: "check \<noteq> CheckRefused" "\<not> resolves rs1 new" "\<not> resolves rs1 (deposit_token_for hash new)"
    "moved = count_for_family (rs_store rs1) current"
    "rs' = rs1\<lparr>rs_store := moved_store (rs_store rs1) current new,
        rs_families := map (\<lambda>f. if fam_token f = current
          then f\<lparr>fam_token := new, fam_deposit_token := deposit_token_for hash new\<rparr> else f) (rs_families rs1)\<rparr>"
    "get_family_on rs' new = Some family"
    using rot row unfolding rotate_family_token_def rs1_def check_def resolves_def
    by (auto simp: Let_def split: if_splits option.splits)
  have same: "rs_store rs1 = rs_store rs" "resolves rs1 c = resolves rs c" for c
    by (simp_all add: rs1_def resolves_set_rotation_pk) (simp add: set_rotation_pk_def)
  have auth: "verify (ra_public_key authority) (rotation_signed_bytes current new) (ra_signature authority)"
    "fam_rotation_pk row = Some (ra_public_key authority) \<or> (fam_rotation_pk row = None \<and> check = CheckRegister)"
    using step(1) unfolding check_def check_rotation_authority_def by (auto split: option.splits if_splits)
  have only: "f = row" if "f \<in> set (rs_families rs)" "fam_token f = current" for f
    using get_family_unique [OF _ row(1) that] inv by (simp add: families_inv_def)
  have fams: "map (\<lambda>f. if fam_token f = current
          then f\<lparr>fam_token := new, fam_deposit_token := deposit_token_for hash new\<rparr> else f) (rs_families rs1) =
      map (rekey current new (deposit_token_for hash new) (ra_public_key authority)) (rs_families rs)"
    using auth(2) only by (auto simp: rs1_def set_rotation_pk_def tok rekey_def)
  have rest: "rs1\<lparr>rs_store := x, rs_families := y\<rparr> = rs\<lparr>rs_store := x, rs_families := y\<rparr>" for x y
    by (simp add: rs1_def set_rotation_pk_def)
  show "current \<noteq> new" "verify (ra_public_key authority) (rotation_signed_bytes current new) (ra_signature authority)"
    "\<exists>row. get_family_on rs current = Some row \<and> fam_rotation_pk row \<in> {None, Some (ra_public_key authority)}"
    "\<not> resolves rs new" "\<not> resolves rs (deposit_token_for hash new)" "moved = count_for_family (rs_store rs) current"
    "get_family_on rs' new = Some family"
    using row auth step same by auto
  show "rs' = rekeyed rs current new (deposit_token_for hash new) (ra_public_key authority)"
    unfolding step(5) fams same(1) rest rekeyed_def ..
qed

lemma sort_key_map_same:
  assumes "\<And>x. k (g x) = k x"
  shows "sort_key k (map g xs) = map g (sort_key k xs)"
proof -
  have "insort_key k (g x) (map g ys) = map g (insort_key k x ys)" for x ys
    by (induction ys) (auto simp: assms)
  then show ?thesis by (induction xs) simp_all
qed

lemma fill_page_map:
  assumes "\<And>x. env_sealed (g x) = env_sealed x"
  shows "fill_page (map g rows) (map g page) n = map g (fill_page rows page n)"
proof (induction rows page n rule: fill_page.induct)
  case (2 row rows page n)
  then show ?case by (auto simp: Let_def assms)
qed simp

lemma fetch_moved:
  assumes fresh: "\<forall>r\<in>set (envelopes st). env_family r \<noteq> new"
  shows "fetch_envelopes (moved_store st old new) new hints after limit now =
    map_sum id (map (env_family_update (\<lambda>_. new))) (fetch_envelopes st old hints after limit now)"
proof -
  let ?g = "\<lambda>r :: stored_envelope. if env_family r = old then r\<lparr>env_family := new\<rparr> else r"
  let ?P = "\<lambda>f (r :: stored_envelope). row_matches f hints now r \<and> env_id r > after"
  have filt: "filter (?P new) (map ?g rows) = map ?g (filter (?P old) rows)"
    if "\<forall>r\<in>set rows. env_family r \<noteq> new" for rows
    using that by (induction rows) (auto simp: row_matches_def)
  have sorted: "sort_key env_id (map ?g rows) = map ?g (sort_key env_id rows)" for rows
    by (rule sort_key_map_same) simp
  have fill: "fill_page (map ?g rows) [] 0 = map ?g (fill_page rows [] 0)" for rows
    using fill_page_map [of ?g rows "[]" 0] by simp
  have "map ?g page = map (env_family_update (\<lambda>_. new)) page" if "set page \<subseteq> {r. env_family r = old}" for page
    using that by (induction page) auto
  moreover have "set (fill_page (take n (sort_key env_id (filter (?P old) (envelopes st)))) [] 0) \<subseteq> {r. env_family r = old}" for n
    by (auto simp: row_matches_def dest!: subsetD [OF fill_page_subset] in_set_takeD)
  ultimately show ?thesis
    using filt [OF fresh] sorted fill
    by (simp add: fetch_envelopes_def moved_store_def move_envelopes_def take_map) blast
qed

lemma get_envelopes_moved:
  assumes "\<forall>r\<in>set (envelopes st). env_family r \<noteq> new" "fa_token access = old"
  shows "get_envelopes (moved_store st old new) (access\<lparr>fa_token := new\<rparr>) hints cursor limit now =
    map_sum id (map_prod (map (env_family_update (\<lambda>_. new))) id) (get_envelopes st access hints cursor limit now)"
  using assms(2)
  by (auto simp: get_envelopes_def Let_def fetch_moved [OF assms(1)] last_map split: sum.splits)

lemma deposit_token_differs: "\<not> is_deposit_token new \<Longrightarrow> new \<noteq> '''' \<Longrightarrow> deposit_token_for hash new \<noteq> new"
  by (auto simp: deposit_token_for_def is_deposit_token_def starts_with_def) (metis append_eq_conv_conj)

lemma rekeyed_old_gone:
  assumes inv: "families_inv rs" and row: "get_family_on rs old = Some row"
    and free: "\<not> resolves rs new" "\<not> resolves rs dep" and c: "c = old \<or> c = fam_deposit_token row"
  shows "\<not> resolves (rekeyed rs old new dep pk) c"
proof -
  have inj: "inj_on fam_deposit_token (set (rs_families rs))"
    and disj: "fam_token ` set (rs_families rs) \<inter> fam_deposit_token ` set (rs_families rs) = {}"
    using inv by (auto simp: families_inv_def distinct_map)
  have r: "row \<in> set (rs_families rs)" "fam_token row = old" using get_familyD [OF row] by auto
  have "fam_token (rekey old new dep pk f) \<noteq> c \<and> fam_deposit_token (rekey old new dep pk f) \<noteq> c"
    if f: "f \<in> set (rs_families rs)" for f
  proof (cases "fam_token f = old")
    case True
    then show ?thesis using c free r by (auto simp: rekey_fields resolves_iff)
  next
    case False
    then have "fam_deposit_token f \<noteq> fam_deposit_token row" using inj_onD [OF inj _ f r(1)] r(2) by auto
    then show ?thesis using False c f r disj by (auto simp: rekey_fields)
  qed
  then show ?thesis by (auto simp: resolves_iff rekeyed_parts)
qed

lemma distinct_map_rekey:
  assumes dist: "distinct (map h (rs_families rs))" "distinct (map fam_token (rs_families rs))"
    and fresh: "\<And>f. f \<in> set (rs_families rs) \<Longrightarrow> h f \<noteq> v"
    and h: "\<And>f. h (rekey old new dep pk f) = (if fam_token f = old then v else h f)"
  shows "distinct (map h (map (rekey old new dep pk) (rs_families rs)))"
proof -
  have "(\<lambda>f. h (rekey old new dep pk f)) x \<noteq> (\<lambda>f. h (rekey old new dep pk f)) y"
    if "x \<in> set (rs_families rs)" "y \<in> set (rs_families rs)" "x \<noteq> y" for x y
    using that dist fresh [OF that(1)] fresh [OF that(2)] by (auto simp: h distinct_map dest: inj_onD)
  then show ?thesis using dist by (auto simp: distinct_map comp_def intro!: inj_onI)
qed

lemma rekeyed_inv:
  assumes inv: "families_inv rs" and free: "\<not> resolves rs new" "\<not> resolves rs dep" and dep: "dep \<noteq> new"
  shows "families_inv (rekeyed rs old new dep pk)"
proof -
  have fresh: "fam_token f \<noteq> new" "fam_deposit_token f \<noteq> new" "fam_token f \<noteq> dep" "fam_deposit_token f \<noteq> dep"
    if "f \<in> set (rs_families rs)" for f
    using free that by (auto simp: resolves_iff)
  have "distinct (map fam_token (map (rekey old new dep pk) (rs_families rs)))"
    by (rule distinct_map_rekey [where v = new]) (use inv fresh in \<open>auto simp: families_inv_def rekey_fields\<close>)
  moreover have "distinct (map fam_deposit_token (map (rekey old new dep pk) (rs_families rs)))"
    by (rule distinct_map_rekey [where v = dep]) (use inv fresh in \<open>auto simp: families_inv_def rekey_fields\<close>)
  moreover have "fam_token ` set (map (rekey old new dep pk) (rs_families rs)) \<inter>
      fam_deposit_token ` set (map (rekey old new dep pk) (rs_families rs)) = {}"
  proof -
    have "fam_token (rekey old new dep pk x) \<noteq> fam_deposit_token (rekey old new dep pk y)"
      if "x \<in> set (rs_families rs)" "y \<in> set (rs_families rs)" for x y
    proof -
      have "fam_token x \<noteq> fam_deposit_token y" using inv that unfolding families_inv_def by blast
      then show ?thesis using fresh [OF that(1)] fresh [OF that(2)] dep by (simp add: rekey_fields eq_commute [of dep new])
    qed
    then show ?thesis by auto
  qed
  ultimately show ?thesis by (simp add: families_inv_def rekeyed_parts)
qed

lemma rekeyed_family:
  assumes inv: "families_inv rs" and row: "get_family_on rs old = Some row" and free: "\<not> resolves rs new"
    and new: "get_family_on (rekeyed rs old new dep pk) new = Some family"
  shows "family = rekey old new dep pk row"
proof -
  obtain f where f: "f \<in> set (rs_families rs)" "family = rekey old new dep pk f" "fam_token family = new"
    using get_familyD [OF new] by (auto simp: rekeyed_parts)
  then have "fam_token f = old" using free by (auto simp: rekey_fields resolves_iff split: if_splits)
  then show ?thesis using get_family_unique [OF _ row f(1)] inv f(2) by (simp add: families_inv_def)
qed

lemma moved_rows:
  shows "\<forall>r\<in>set (envelopes st). env_family r \<noteq> new \<Longrightarrow> count_for_family (moved_store st old new) new = count_for_family st old"
    "other \<noteq> old \<Longrightarrow> other \<noteq> new \<Longrightarrow>
      filter (\<lambda>r. env_family r = other) (envelopes (moved_store st old new)) = filter (\<lambda>r. env_family r = other) (envelopes st)"
proof -
  have "length (filter (\<lambda>r. env_family r = new) (move_envelopes old new rows)) = length (filter (\<lambda>r. env_family r = old) rows)"
    if "\<forall>r\<in>set rows. env_family r \<noteq> new" for rows
    using that by (induction rows) (auto simp: move_envelopes_def)
  then show "count_for_family (moved_store st old new) new = count_for_family st old"
    if "\<forall>r\<in>set (envelopes st). env_family r \<noteq> new"
    using that by (simp add: count_for_family_def moved_store_def)
  show "filter (\<lambda>r. env_family r = other) (envelopes (moved_store st old new)) = filter (\<lambda>r. env_family r = other) (envelopes st)"
    if "other \<noteq> old" "other \<noteq> new"
  proof -
    have "filter (\<lambda>r. env_family r = other) (move_envelopes old new rows) = filter (\<lambda>r. env_family r = other) rows" for rows
      using that by (induction rows) (auto simp: move_envelopes_def)
    then show ?thesis by (simp add: moved_store_def)
  qed
qed

lemma row_credentials:
  assumes inv: "families_inv rs" and f: "f \<in> set (rs_families rs)"
  shows "get_family_by_credential_on rs (fam_token f) = Some (f, Member)"
    "get_family_by_credential_on rs (fam_deposit_token f) = Some (f, Deposit)"
proof -
  have inj: "inj_on fam_token (set (rs_families rs))" "inj_on fam_deposit_token (set (rs_families rs))"
    and disj: "\<And>g. g \<in> set (rs_families rs) \<Longrightarrow> fam_token g \<noteq> fam_deposit_token f"
    using inv f by (auto simp: families_inv_def distinct_map)
  have the_row: "find (\<lambda>g. h g = h f) (rs_families rs) = Some f" if "inj_on h (set (rs_families rs))" for h :: "family_row \<Rightarrow> string"
  proof (cases "find (\<lambda>g. h g = h f) (rs_families rs)")
    case None
    then show ?thesis using f by (auto simp: find_None_iff)
  next
    case (Some g)
    then show ?thesis using find_SomeD [OF Some] inj_onD [OF that _ _ f] by auto
  qed
  have "find (\<lambda>g. fam_token g = fam_deposit_token f) (rs_families rs) = None" using disj by (auto simp: find_None_iff)
  then show "get_family_by_credential_on rs (fam_token f) = Some (f, Member)"
    "get_family_by_credential_on rs (fam_deposit_token f) = Some (f, Deposit)"
    using the_row [OF inj(1)] the_row [OF inj(2)] disj [OF f] by (simp_all add: get_family_by_credential_on_def)
qed

text \<open>
  Claim C22. A rotation re-keys a family without losing a row and cuts the old credentials off. When the daemon
  answers \<open>Rotated\<close> to a call for a new member token: the caller signed for exactly this pair of tokens with the family's
  rotation key (or with the key this rotation registers), and that key stays on the row; neither old credential of the family
  resolves any more, the new pair resolves to the family as member and deposit credential, and credentials stay unambiguous; row by row the stored envelopes are what they
  were, with the same ids and contents, those of the old token now under the new one, and the answer
  counts them; and no push registration of the old token survives. If no envelope was waiting under the new token before, which
  a post in flight across an earlier rotation can bring about, then every device that asks with the new token
  gets page for page what the old token would have got.
\<close>

theorem rotation_keeps_mail:
  assumes inv: "families_inv rs" and token: "\<not> is_deposit_token new" "new \<noteq> ''''"
    and rot: "rotate_family_token verify hash rs current new authority = Inr (Rotated family moved, rs')"
    and old: "get_family_on rs current = Some row"
  shows "verify (ra_public_key authority) (rotation_signed_bytes current new) (ra_signature authority) \<and>
    fam_rotation_pk row \<in> {None, Some (ra_public_key authority)} \<and> fam_rotation_pk family = Some (ra_public_key authority) \<and>
    \<not> resolves rs' current \<and> \<not> resolves rs' (fam_deposit_token row) \<and>
    fam_token family = new \<and> fam_deposit_token family = deposit_token_for hash new \<and> fam_id family = fam_id row \<and> families_inv rs' \<and>
    get_family_by_credential_on rs' new = Some (family, Member) \<and>
    get_family_by_credential_on rs' (deposit_token_for hash new) = Some (family, Deposit) \<and>
    list_all2 (\<lambda>r r'. r' = (if env_family r = current then r\<lparr>env_family := new\<rparr> else r)) (envelopes (rs_store rs)) (envelopes (rs_store rs')) \<and>
    moved = count_for_family (rs_store rs) current \<and>
    push_device_tokens_for_hint (rs_store rs') current hint now = [] \<and>
    ((\<forall>r\<in>set (envelopes (rs_store rs)). env_family r \<noteq> new) \<longrightarrow>
       moved = count_for_family (rs_store rs') new \<and>
       (fa_token access = current \<longrightarrow> get_envelopes (rs_store rs') (access\<lparr>fa_token := new\<rparr>) hints cursor limit now =
          map_sum id (map_prod (map (env_family_update (\<lambda>_. new))) id) (get_envelopes (rs_store rs) access hints cursor limit now)))"
proof -
  note r = rotated_cases [OF inv rot]
  note new = r(8) [unfolded r(7)]
  have "fam_token row = current" using get_familyD [OF old] by simp
  then have family: "fam_token family = new" "fam_deposit_token family = deposit_token_for hash new" "fam_id family = fam_id row"
    "fam_rotation_pk family = Some (ra_public_key authority)"
    by (simp_all add: rekeyed_family [OF inv old r(4) new] rekey_fields)
  have store: "rs_store rs' = moved_store (rs_store rs) current new" by (simp add: r(7) rekeyed_parts)
  have gone: "\<not> resolves rs' current" "\<not> resolves rs' (fam_deposit_token row)"
    unfolding r(7) by (rule rekeyed_old_gone [OF inv old r(4,5)]; simp)+
  have inv': "families_inv rs'"
    unfolding r(7) by (rule rekeyed_inv [OF inv r(4,5) deposit_token_differs [OF token]])
  have "family \<in> set (rs_families rs')" using get_familyD [OF r(8)] by simp
  then have cred: "get_family_by_credential_on rs' new = Some (family, Member)"
    "get_family_by_credential_on rs' (deposit_token_for hash new) = Some (family, Deposit)"
    using row_credentials [OF inv'] family(1,2) by metis+
  have push: "push_device_tokens_for_hint (rs_store rs') current hint now = []"
    by (simp add: store moved_store_def push_device_tokens_for_hint_def)
  have rows: "list_all2 (\<lambda>r r'. r' = (if env_family r = current then r\<lparr>env_family := new\<rparr> else r)) (envelopes (rs_store rs)) (envelopes (rs_store rs'))"
    by (simp add: store moved_store_def move_envelopes_def list_all2_map2 list_all2_same)
  show ?thesis
    using r(2,3,6) old family gone inv' cred push rows moved_rows(1) get_envelopes_moved [of "rs_store rs" new access current]
    by (simp add: store)
qed

lemma resolves_member: "get_family_by_credential_on rs token = Some (f, cls) \<Longrightarrow> resolves rs (fam_token f)"
  using credential_class(1) by (force simp: resolves_iff)

lemma authorized_reader:
  assumes "authorize_family app token ReadOp now = Inr access"
  shows "fa_token access \<in> set (app_auth_tokens app) \<or> resolves (app_server app) (fa_token access)"
  using assms
  by (auto simp: authorize_family_def allowed_for_deposit_def Let_def resolves_member split: if_splits option.splits)

text \<open>
  Claim C24. A post that is in flight while its family rotates is acknowledged and lost to the family. The
  handler authorizes the credential before it reads the body; when the rotation commits in between, the
  row is inserted under the token the handler resolved before. It is stored and answered with its id, and no
  credential the relay accepts for reading afterwards is ever served that row.
\<close>

theorem post_across_rotation_stranded:
  assumes inv: "families_inv rs" and app: "app_server app = rs" and hosted: "current \<notin> set (app_auth_tokens app)"
    and access: "authorize_family app credential PostOp before = Inr access" "fa_token access = current"
    and rot: "rotate_family_token verify hash rs current new authority = Inr (Rotated family moved, rs')"
    and post: "post_envelope (rs_store rs') access msg_id hop_ttl hint sealed expiry_ms now = (Inr i, st')"
  shows "\<exists>r\<in>set (envelopes st'). env_id r = i \<and> env_msg_id r = msg_id \<and> env_sealed r = sealed \<and>
    (\<forall>reader access' later hints cursor limit page seen.
       authorize_family (app\<lparr>app_server := rs'\<lparr>rs_store := st'\<rparr>\<rparr>) reader ReadOp later = Inr access' \<longrightarrow>
       get_envelopes st' access' hints cursor limit later = Inr (page, seen) \<longrightarrow> r \<notin> set page)"
proof -
  note r = rotated_cases [OF inv rot]
  obtain row where "get_family_on rs current = Some row" using r(3) by blast
  from rekeyed_old_gone [OF inv this r(4,5)] have gone: "\<not> resolves rs' current" by (simp add: r(7))
  obtain r where r: "r \<in> set (envelopes st')" "env_id r = i" "env_family r = current" "env_msg_id r = msg_id" "env_sealed r = sealed"
    using post_stored [OF post] access(2) by blast
  have "r \<notin> set page"
    if auth: "authorize_family (app\<lparr>app_server := rs'\<lparr>rs_store := st'\<rparr>\<rparr>) reader ReadOp later = Inr access'"
      and fetch: "get_envelopes st' access' hints cursor limit later = Inr (page, seen)"
    for reader access' later hints cursor limit page seen
  proof
    assume "r \<in> set page"
    then have "fa_token access' = current" using fetched_rows [OF fetch] r(3) by (auto simp: row_matches_def)
    then show False using authorized_reader [OF auth] hosted gone by (simp add: resolves_iff)
  qed
  with r show ?thesis by blast
qed

definition demo_server :: relay_server where
  "demo_server = \<lparr>rs_store = relay_store_open\<lparr>envelope_seq := 1,
       envelopes := [\<lparr>env_id = 1, env_family = ''fam'', env_msg_id = demo_msg 1, env_hop_ttl = 3, env_hint = demo_hint,
         env_sealed = [9, 9], env_expiry_ms = 5000, env_created_at_ms = 1000, env_depositor = ''''\<rparr>]\<rparr>,
     rs_families = [demo_family]\<rparr>"

definition demo_verify :: "bytes \<Rightarrow> bytes \<Rightarrow> bytes \<Rightarrow> bool" where
  "demo_verify pk message signature \<longleftrightarrow> signature = pk @ message"

definition demo_authority :: rotation_authority where
  "demo_authority = \<lparr>ra_public_key = [1], ra_signature = [1] @ rotation_signed_bytes ''fam'' ''new''\<rparr>"

lemma demo_rotation:
  "rotate_family_token demo_verify id demo_server ''fam'' ''new'' demo_authority =
     Inr (Rotated (rekey ''fam'' ''new'' ''cmdep1-new'' [1] demo_family) 1, rekeyed demo_server ''fam'' ''new'' ''cmdep1-new'' [1])"
  "families_inv demo_server" "get_family_on demo_server ''fam'' = Some demo_family"
  by (simp_all add: rotate_family_token_def demo_server_def demo_family_def demo_verify_def demo_authority_def Let_def
      get_family_on_def get_family_by_credential_on_def check_rotation_authority_def set_rotation_pk_def deposit_token_for_def
      starts_with_def DEPOSIT_TOKEN_PREFIX_def envelopes_collide_def presence_collides_def relay_store_open_def rekey_def rekeyed_def
      count_for_family_def families_inv_def)

lemma rotation_keeps_mail_witness:
  "\<exists>rs' page. rotate_family_token demo_verify id demo_server ''fam'' ''new'' demo_authority =
       Inr (Rotated (rekey ''fam'' ''new'' ''cmdep1-new'' [1] demo_family) 1, rs') \<and>
     \<not> resolves rs' ''fam'' \<and> \<not> resolves rs' ''cmdep1-fam'' \<and>
     get_envelopes (rs_store rs') (demo_access\<lparr>fa_token := ''new''\<rparr>) [demo_hint] (Some 0) None 1002 = Inr (page, 1) \<and>
     map env_sealed page = [[9, 9]]"
proof -
  let ?rs' = "rekeyed demo_server ''fam'' ''new'' ''cmdep1-new'' [1]"
  have fresh: "\<forall>r\<in>set (envelopes (rs_store demo_server)). env_family r \<noteq> ''new''" "\<not> is_deposit_token ''new''" "''new'' \<noteq> ''''"
    by (simp_all add: demo_server_def is_deposit_token_def starts_with_def DEPOSIT_TOKEN_PREFIX_def)
  have old: "get_envelopes (rs_store demo_server) demo_access [demo_hint] (Some 0) None 1002 =
      Inr (envelopes (rs_store demo_server), 1)"
    by (simp add: get_envelopes_def fetch_envelopes_def row_matches_def demo_server_def Let_def demo_access_def relay_limits
        relay_store_open_def)
  have "fa_token demo_access = ''fam''" "map env_sealed (envelopes (rs_store demo_server)) = [[9, 9]]"
    "fam_deposit_token demo_family = ''cmdep1-fam''"
    by (simp_all add: demo_access_def demo_server_def demo_family_def)
  with rotation_keeps_mail [OF demo_rotation(2) fresh(2,3) demo_rotation(1,3), of _ 1002 demo_access "[demo_hint]" "Some 0" None] fresh(1)
  show ?thesis using demo_rotation(1) old by (intro exI [of _ ?rs']) (auto simp: comp_def)
qed

lemma post_across_rotation_stranded_witness:
  "\<exists>access st'. authorize_family (demo_app (rs_store demo_server)) ''fam'' PostOp 500 = Inr access \<and>
     post_envelope (rs_store (rekeyed demo_server ''fam'' ''new'' ''cmdep1-new'' [1])) access (demo_msg 2) 3 demo_hint [8] 5000 1000 =
       (Inr 2, st') \<and>
     (\<exists>r\<in>set (envelopes st'). env_id r = 2 \<and>
        (\<forall>page seen. get_envelopes st' (demo_access\<lparr>fa_token := ''new''\<rparr>) [demo_hint] (Some 0) None 600 = Inr (page, seen) \<longrightarrow> r \<notin> set page))"
proof -
  let ?app = "demo_app (rs_store demo_server)" and ?rs' = "rekeyed demo_server ''fam'' ''new'' ''cmdep1-new'' [1]"
  obtain access where a: "authorize_family ?app ''fam'' PostOp 500 = Inr access" "fa_token access = ''fam''"
      "fa_quota_bytes access = 1000" "fa_depositor access = None" "fa_class access = Member"
    by (simp add: authorize_family_def demo_app_def demo_family_def get_family_by_credential_on_def billing_refusal_def
        Let_def FAMILY_EXPIRY_GRACE_MS_def i64_defs)
  obtain st' where p: "post_envelope (rs_store ?rs') access (demo_msg 2) 3 demo_hint [8] 5000 1000 = (Inr 2, st')"
    using a(2-5) by (simp add: demo_store_simps rekeyed_def moved_store_def move_envelopes_def demo_server_def MEMBER_DEPOSITOR_def)
  have app: "app_server ?app = demo_server" "''fam'' \<notin> set (app_auth_tokens ?app)"
    by (simp_all add: demo_app_def demo_server_def)
  have reader: "authorize_family (?app\<lparr>app_server := ?rs'\<lparr>rs_store := st'\<rparr>\<rparr>) ''new'' ReadOp 600 =
      Inr (demo_access\<lparr>fa_token := ''new'', fa_rate_key := ''member:cmfid1-a'', fa_family_key := ''cmfid1-a''\<rparr>)"
    by (simp add: authorize_family_def demo_app_def rekeyed_def rekey_def demo_family_def get_family_by_credential_on_def
        billing_refusal_def Let_def FAMILY_EXPIRY_GRACE_MS_def i64_defs demo_server_def demo_access_def family_rate_key_def
        family_limit_key_def)
  have same: "get_envelopes st' (demo_access\<lparr>fa_token := ''new''\<rparr>) [demo_hint] (Some 0) None 600 =
      get_envelopes st' (demo_access\<lparr>fa_token := ''new'', fa_rate_key := ''member:cmfid1-a'', fa_family_key := ''cmfid1-a''\<rparr>)
        [demo_hint] (Some 0) None 600"
    by (simp add: get_envelopes_def)
  obtain r where "r \<in> set (envelopes st')" "env_id r = 2"
    "\<forall>page seen. get_envelopes st' (demo_access\<lparr>fa_token := ''new''\<rparr>) [demo_hint] (Some 0) None 600 = Inr (page, seen) \<longrightarrow> r \<notin> set page"
    using post_across_rotation_stranded [OF demo_rotation(2) app a(1,2) demo_rotation(1) p] reader unfolding same by blast
  with a(1) p show ?thesis by blast
qed

section \<open>Runs of the family routes\<close>

datatype server_op =
    Provision string string string "string option" "nat option" "i64 option" "string option" i64
  | Patch string string "string option" "string option" "nat option" "i64 option" "string option"
  | DeleteFamily string string
  | Rotate string string "bytes option" "bytes option" i64
  | MailOp relay_op

fun server_step :: "(bytes \<Rightarrow> bytes \<Rightarrow> bytes \<Rightarrow> bool) \<Rightarrow> (string \<Rightarrow> string) \<Rightarrow> app_state \<Rightarrow> server_op \<Rightarrow> app_state" where
  "server_step verify hash app (Provision fresh_id provided token plan quota expires note now) =
     snd (admin_provision_family hash fresh_id app provided token plan quota expires note now)"
| "server_step verify hash app (Patch provided handle status plan quota expires note) =
     snd (admin_patch_family app provided handle status plan quota expires note)"
| "server_step verify hash app (DeleteFamily provided handle) = snd (admin_delete_family app provided handle)"
| "server_step verify hash app (Rotate presented new_token pk signature now) =
     snd (rotate_family verify hash app presented new_token pk signature now)"
| "server_step verify hash app (MailOp op) =
     app\<lparr>app_server := (app_server app)\<lparr>rs_store := relay_step (rs_store (app_server app)) op\<rparr>\<rparr>"

definition row_ok :: "(string \<Rightarrow> string) \<Rightarrow> app_state \<Rightarrow> family_row \<Rightarrow> bool" where
  "row_ok hash app f \<longleftrightarrow>
     fam_token f \<noteq> '''' \<and> \<not> is_deposit_token (fam_token f) \<and> fam_deposit_token f = deposit_token_for hash (fam_token f) \<and>
     fam_token f \<notin> set (app_auth_tokens app) \<and> app_admin_token app \<noteq> Some (fam_token f)"

definition credentials_inv :: "(string \<Rightarrow> string) \<Rightarrow> app_state \<Rightarrow> bool" where
  "credentials_inv hash app \<longleftrightarrow>
     distinct (map fam_token (rs_families (app_server app))) \<and> (\<forall>f\<in>set (rs_families (app_server app)). row_ok hash app f)"

lemma constant_time_eq_iff: "constant_time_eq a b \<longleftrightarrow> a = b"
proof -
  have xor0: "x XOR y = 0 \<longleftrightarrow> x = y" for x y :: u8
    by (metis xor.assoc xor.left_neutral xor.right_neutral xor_self_eq)
  have or0: "fold (\<lambda>(x, y) acc. acc OR (x XOR y)) ps (n :: u8) = 0 \<longleftrightarrow> n = 0 \<and> (\<forall>(x, y)\<in>set ps. x = y)" for ps n
    by (induction ps arbitrary: n) (auto simp: or_eq_0_iff xor0)
  have "string_bytes a = string_bytes b \<longleftrightarrow> a = b"
  proof -
    have "unat (of_nat (of_char c) :: u8) = of_char c" for c :: char
      by (simp add: unat_of_nat)
    then have "inj (\<lambda>c. of_nat (of_char c) :: u8)" by (metis injI of_char_eq_iff)
    then show ?thesis unfolding string_bytes_def by (rule inj_map_eq_map)
  qed
  then show ?thesis
    using list_eq_iff_zip_eq [of "string_bytes a" "string_bytes b"] by (auto simp: constant_time_eq_def or0 string_bytes_def)
qed

lemma deposit_token_prefix:
  "\<not> is_deposit_token t \<Longrightarrow> t \<noteq> '''' \<Longrightarrow> is_deposit_token (deposit_token_for hash t)"
  "\<not> is_deposit_token t \<Longrightarrow> t \<noteq> '''' \<Longrightarrow> deposit_token_for hash t = DEPOSIT_TOKEN_PREFIX @ hash t"
  by (auto simp: is_deposit_token_def deposit_token_for_def starts_with_def)

lemma credentials_inv_families:
  assumes inj: "inj hash" and inv: "credentials_inv hash app"
  shows "families_inv (app_server app)"
proof -
  let ?F = "set (rs_families (app_server app))"
  have ok: "\<not> is_deposit_token (fam_token f)" "is_deposit_token (fam_deposit_token f)"
      "fam_deposit_token f = DEPOSIT_TOKEN_PREFIX @ hash (fam_token f)" if "f \<in> ?F" for f
    using inv that deposit_token_prefix by (auto simp: credentials_inv_def row_ok_def)
  have "inj_on fam_deposit_token ?F"
  proof (rule inj_onI)
    fix f g assume fg: "f \<in> ?F" "g \<in> ?F" "fam_deposit_token f = fam_deposit_token g"
    then have "fam_token f = fam_token g" using ok(3) inj by (auto dest: injD)
    with fg show "f = g" using inv by (auto simp: credentials_inv_def distinct_map dest: inj_onD)
  qed
  moreover have "fam_token ` ?F \<inter> fam_deposit_token ` ?F = {}" 
  proof -
    have "fam_token f \<noteq> fam_deposit_token g" if "f \<in> ?F" "g \<in> ?F" for f g using ok(1) [OF that(1)] ok(2) [OF that(2)] by metis
    then show ?thesis by blast
  qed
  ultimately show ?thesis using inv by (simp add: families_inv_def credentials_inv_def distinct_map)
qed

lemma row_ok_server [simp]: "row_ok hash (app\<lparr>app_server := rs\<rparr>) f = row_ok hash app f"
  by (simp add: row_ok_def)

lemma admin_ok_token:
  assumes "provision_refusal app token quota = None"
  shows "token \<noteq> ''''" "\<not> is_deposit_token token" "token \<notin> set (app_auth_tokens app)" "app_admin_token app \<noteq> Some token"
  using assms by (auto simp: provision_refusal_def split: if_splits)

lemma rotation_ok_token:
  assumes "rotation_refusal app token = None"
  shows "token \<noteq> ''''" "\<not> is_deposit_token token" "token \<notin> set (app_auth_tokens app)" "app_admin_token app \<noteq> Some token"
  using assms by (auto simp: rotation_refusal_def MIN_ROTATION_TOKEN_LEN_def split: if_splits)

lemma row_map_inv:
  assumes inv: "credentials_inv hash app" and fams: "rs_families rs' = map g (rs_families (app_server app))"
    and keep: "\<And>f. f \<in> set (rs_families (app_server app)) \<Longrightarrow>
      fam_token (g f) = fam_token f \<and> fam_deposit_token (g f) \<in> {fam_deposit_token f, deposit_token_for hash (fam_token f)}"
  shows "credentials_inv hash (app\<lparr>app_server := rs'\<rparr>)"
proof -
  have "map fam_token (rs_families rs') = map fam_token (rs_families (app_server app))"
    using keep by (simp add: fams)
  then have "distinct (map fam_token (rs_families rs'))" using inv by (simp add: credentials_inv_def)
  moreover have "row_ok hash app (g f)" if "f \<in> set (rs_families (app_server app))" for f
    using inv keep [OF that] that by (auto simp: credentials_inv_def row_ok_def)
  ultimately show ?thesis by (auto simp: credentials_inv_def fams simp del: map_map)
qed

lemma provision_inv:
  assumes inv: "credentials_inv hash app"
  shows "credentials_inv hash (snd (admin_provision_family hash fresh_id app provided token plan quota expires note now))"
proof (cases "authorize_admin app provided = None \<and> provision_refusal app token quota = None")
  case False
  then show ?thesis using inv by (auto simp: admin_provision_family_def split: option.split)
next
  case True
  have "credentials_inv hash (app\<lparr>app_server := rs\<rparr>)"
    if up: "upsert_family hash fresh_id (app_server app) token plan quota expires note now = Inr rs" for rs
  proof (cases "\<exists>f\<in>set (rs_families (app_server app)). fam_token f = token")
    case old: True
    show ?thesis
      by (rule row_map_inv [OF inv, where g = "\<lambda>f. if fam_token f = token
             then f\<lparr>fam_status := ''active'', fam_plan := plan, fam_quota_bytes := quota,
                    fam_expires_ms := expires, fam_note := note, fam_deposit_token := deposit_token_for hash token\<rparr>
             else f"]) (use old up in \<open>auto simp: upsert_family_def list_ex_iff split: if_splits\<close>)
  next
    case new: False
    then show ?thesis
      using inv admin_ok_token [of app token quota] True up
      by (auto simp: upsert_family_def list_ex_iff credentials_inv_def row_ok_def split: if_splits)
  qed
  with True inv show ?thesis by (auto simp: admin_provision_family_def Let_def split: sum.split)
qed

lemma patch_inv:
  assumes inv: "credentials_inv hash app"
  shows "credentials_inv hash (snd (admin_patch_family app provided handle status plan quota expires note))"
proof -
  have "credentials_inv hash (app\<lparr>app_server := snd (patch_family (app_server app) token status plan quota expires note)\<rparr>)" for token
    by (rule row_map_inv [OF inv, where g = "\<lambda>f. if fam_token f = token
            then f\<lparr>fam_status := (case status of None \<Rightarrow> fam_status f | Some s \<Rightarrow> s), fam_plan := coalesce plan (fam_plan f),
                   fam_quota_bytes := coalesce quota (fam_quota_bytes f),
                   fam_expires_ms := coalesce expires (fam_expires_ms f), fam_note := coalesce note (fam_note f)\<rparr>
            else f"]) (auto simp: patch_family_def Let_def)
  then show ?thesis using inv by (simp add: admin_patch_family_def case_prod_beta Let_def split: option.split)
qed

lemma delete_inv:
  assumes inv: "credentials_inv hash app"
  shows "credentials_inv hash (snd (admin_delete_family app provided handle))"
proof -
  have "credentials_inv hash (app\<lparr>app_server := snd (delete_family (app_server app) token)\<rparr>)" for token
    using inv by (auto simp: credentials_inv_def delete_family_def row_ok_def distinct_map_filter)
  then show ?thesis using inv by (simp add: admin_delete_family_def case_prod_beta Let_def split: option.split)
qed

lemma rotate_token_inv:
  assumes inj: "inj hash" and inv: "credentials_inv hash app"
    and token: "token \<noteq> []" "\<not> is_deposit_token token" "token \<notin> set (app_auth_tokens app)" "app_admin_token app \<noteq> Some token"
    and rot: "rotate_family_token verify hash (app_server app) current token authority = Inr (outcome, rs')"
  shows "credentials_inv hash (app\<lparr>app_server := rs'\<rparr>)"
proof (cases outcome)
  case (Rotated family moved)
  note r = rotated_cases [OF credentials_inv_families [OF inj inv] rot [unfolded Rotated]]
  have inv': "families_inv rs'"
    unfolding r(7) by (rule rekeyed_inv [OF credentials_inv_families [OF inj inv] r(4,5) deposit_token_differs [OF token(2,1)]])
  have "row_ok hash app f" if "f \<in> set (rs_families rs')" for f
    using that inv token by (auto simp: r(7) rekeyed_parts credentials_inv_def row_ok_def rekey_fields split: if_splits)
  with inv' show ?thesis by (simp add: credentials_inv_def families_inv_def)
next
  case (AlreadyRotated family)
  have "rs' = app_server app"
    using rot AlreadyRotated by (auto simp: rotate_family_token_def Let_def split: option.splits if_splits)
  then show ?thesis using inv by (simp add: credentials_inv_def)
qed (use rot inv in \<open>auto simp: rotate_family_token_def Let_def credentials_inv_def split: option.splits if_splits\<close>)

lemma rotate_inv:
  assumes inj: "inj hash" and inv: "credentials_inv hash app"
  shows "credentials_inv hash (snd (rotate_family verify hash app presented new_token pk signature now))"
  using inv rotate_token_inv [OF inj inv rotation_ok_token]
  by (auto simp: rotate_family_def split: sum.split option.split)

lemma server_step_inv: "inj hash \<Longrightarrow> credentials_inv hash app \<Longrightarrow> credentials_inv hash (server_step verify hash app op)"
  by (cases op) (simp_all add: provision_inv patch_inv delete_inv rotate_inv, simp add: credentials_inv_def)

lemma family_run:
  assumes "inj hash" "credentials_inv hash start"
  shows "machine_inv (server_step verify hash) start (credentials_inv hash)"
  using assms by unfold_locales (simp_all add: server_step_inv)

lemma reachable_credentials:
  assumes "inj hash" "rs_families (app_server start) = []"
  shows "credentials_inv hash (foldl (server_step verify hash) start ops)"
proof -
  have "credentials_inv hash start" using assms(2) by (simp add: credentials_inv_def)
  from machine_inv.reachable_inv [OF family_run [OF assms(1) this]] show ?thesis .
qed

text \<open>
  Claim C23. Credentials stay unambiguous. On every run of the provisioning, administration, rotation and mailbox routes
  from a table without families, whoever calls them: a credential belongs to at most one family; the class it is
  given can be read off its prefix; each family's deposit token is the one derived from its current token; and no
  family token is one of the operator's. The hypothesis is that the hash behind deposit tokens has no collisions.
\<close>

theorem credentials_unambiguous:
  assumes inj: "inj hash" and start: "rs_families (app_server start) = []"
    and app: "app = foldl (server_step verify hash) start ops"
  shows "(\<forall>f\<in>set (rs_families (app_server app)). \<forall>g\<in>set (rs_families (app_server app)).
        {fam_token f, fam_deposit_token f} \<inter> {fam_token g, fam_deposit_token g} \<noteq> {} \<longrightarrow> f = g) \<and>
    (\<forall>c f cls. get_family_by_credential_on (app_server app) c = Some (f, cls) \<longrightarrow> (cls = Deposit \<longleftrightarrow> is_deposit_token c)) \<and>
    (\<forall>f\<in>set (rs_families (app_server app)). fam_deposit_token f = deposit_token_for hash (fam_token f) \<and>
        fam_token f \<notin> set (app_auth_tokens app) \<and> app_admin_token app \<noteq> Some (fam_token f))"
proof -
  have inv: "credentials_inv hash app" unfolding app by (rule reachable_credentials [OF inj start])
  then have rows: "row_ok hash app f" if "f \<in> set (rs_families (app_server app))" for f
    using that by (simp add: credentials_inv_def)
  have fams: "inj_on fam_token (set (rs_families (app_server app)))" "inj_on fam_deposit_token (set (rs_families (app_server app)))"
    "fam_token ` set (rs_families (app_server app)) \<inter> fam_deposit_token ` set (rs_families (app_server app)) = {}"
    using credentials_inv_families [OF inj inv] by (simp_all add: families_inv_def distinct_map)
  have "f = g" if "f \<in> set (rs_families (app_server app))" "g \<in> set (rs_families (app_server app))"
      "{fam_token f, fam_deposit_token f} \<inter> {fam_token g, fam_deposit_token g} \<noteq> {}" for f g
    using that fams by (auto dest: inj_onD)
  moreover have "cls = Deposit \<longleftrightarrow> is_deposit_token c"
    if "get_family_by_credential_on (app_server app) c = Some (f, cls)" for c f cls
    using credential_class [OF that] rows [of f] deposit_token_prefix(1) [of "fam_token f" hash]
    by (cases cls) (auto simp: row_ok_def)
  ultimately show ?thesis using rows unfolding row_ok_def by blast
qed

definition keyed_rows_kept :: "relay_server \<Rightarrow> relay_server \<Rightarrow> bool" where
  "keyed_rows_kept rs rs' \<longleftrightarrow>
     (\<forall>f\<in>set (rs_families rs). \<exists>f'\<in>set (rs_families rs'). fam_id f' = fam_id f \<and> fam_token f' = fam_token f \<and>
        (fam_rotation_pk f \<noteq> None \<longrightarrow> fam_rotation_pk f' = fam_rotation_pk f))"

lemma keyed_rows_kept_refl: "rs_families rs' = rs_families rs \<Longrightarrow> keyed_rows_kept rs rs'"
  by (auto simp: keyed_rows_kept_def)

lemma keyed_rows_kept_map:
  assumes "rs_families rs' = map g (rs_families rs) @ added"
    and "\<And>f. fam_id (g f) = fam_id f \<and> fam_token (g f) = fam_token f \<and> fam_rotation_pk (g f) = fam_rotation_pk f"
  shows "keyed_rows_kept rs rs'"
  using assms by (fastforce simp: keyed_rows_kept_def)

lemma provision_keeps:
  "keyed_rows_kept (app_server app)
     (app_server (snd (admin_provision_family hash fresh_id app provided token plan quota expires note now)))"
proof -
  have "keyed_rows_kept rs rs'" if up: "upsert_family hash fresh_id rs token plan quota expires note now = Inr rs'" for rs rs'
  proof (cases "list_ex (\<lambda>f. fam_token f = token) (rs_families rs)")
    case True
    show ?thesis
      by (rule keyed_rows_kept_map [where added = "[]" and g = "\<lambda>f. if fam_token f = token
             then f\<lparr>fam_status := ''active'', fam_plan := plan, fam_quota_bytes := quota,
                    fam_expires_ms := expires, fam_note := note, fam_deposit_token := deposit_token_for hash token\<rparr>
             else f"]) (use True up in \<open>auto simp: upsert_family_def split: if_splits\<close>)
  qed (use up in \<open>auto simp: upsert_family_def keyed_rows_kept_def split: if_splits\<close>)
  then show ?thesis
    by (auto simp: admin_provision_family_def Let_def keyed_rows_kept_refl split: option.split sum.split)
qed

lemma patch_keeps:
  "keyed_rows_kept (app_server app) (app_server (snd (admin_patch_family app provided handle status plan quota expires note)))"
proof -
  have "keyed_rows_kept rs (snd (patch_family rs token status plan quota expires note))" for rs token
    by (rule keyed_rows_kept_map [where added = "[]" and g = "\<lambda>f. if fam_token f = token
            then f\<lparr>fam_status := (case status of None \<Rightarrow> fam_status f | Some s \<Rightarrow> s), fam_plan := coalesce plan (fam_plan f),
                   fam_quota_bytes := coalesce quota (fam_quota_bytes f),
                   fam_expires_ms := coalesce expires (fam_expires_ms f), fam_note := coalesce note (fam_note f)\<rparr>
            else f"]) (auto simp: patch_family_def Let_def)
  then show ?thesis
    by (simp add: admin_patch_family_def case_prod_beta Let_def keyed_rows_kept_refl split: option.split)
qed

lemma rotate_family_effect:
  "snd (rotate_family verify hash app presented new_token pk signature now) = app \<or>
   (\<exists>current public_key sig outcome rs'. signature = Some sig \<and>
      snd (rotate_family verify hash app presented new_token pk signature now) = app\<lparr>app_server := rs'\<rparr> \<and>
      rotate_family_token verify hash (app_server app) current new_token \<lparr>ra_public_key = public_key, ra_signature = sig\<rparr> =
        Inr (outcome, rs'))"
proof (cases "rotate_family verify hash app presented new_token pk signature now")
  case (Pair answer app')
  then show ?thesis
    unfolding rotate_family_def decode_fixed_base64_field_def by (auto split: sum.splits option.splits if_splits)
qed

lemma rotate_keeps:
  assumes inv: "families_inv rs" and rot: "rotate_family_token verify hash rs current new authority = Inr (outcome, rs')"
    and f: "f \<in> set (rs_families rs)" "fam_rotation_pk f = Some key"
  shows "\<exists>f'\<in>set (rs_families rs'). fam_id f' = fam_id f \<and> fam_rotation_pk f' = Some key \<and>
    (fam_token f' = fam_token f \<or>
     (verify key (rotation_signed_bytes (fam_token f) (fam_token f')) (ra_signature authority) \<and> fam_token f' = new))"
proof (cases "\<exists>family moved. outcome = Rotated family moved")
  case False
  then have "rs' = rs"
    using rot by (auto simp: rotate_family_token_def Let_def split: option.splits if_splits)
  with f show ?thesis by blast
next
  case True
  then obtain family moved where o: "outcome = Rotated family moved" by blast
  note r = rotated_cases [OF inv rot [unfolded o]]
  obtain row where row: "get_family_on rs current = Some row" "fam_rotation_pk row \<in> {None, Some (ra_public_key authority)}"
    using r(3) by blast
  let ?f = "rekey current new (deposit_token_for hash new) (ra_public_key authority) f"
  have key: "key = ra_public_key authority" if "fam_token f = current"
    using get_family_unique [OF _ row(1) f(1) that] inv row(2) f(2) by (simp add: families_inv_def)
  have "?f \<in> set (rs_families rs')" using f(1) by (simp add: r(7) rekeyed_parts)
  then show ?thesis using f(2) key r(2) by (intro bexI [of _ ?f]) (auto simp: rekey_fields)
qed

text \<open>
  Once a family has a rotation key, no other key re-keys it. Take any reachable server and a family with a
  registered key, and any request but an operator's deletion: the family is still there under its
  id, with the same key, and if its token changed, the request was a rotation to that token signed by that key over
  exactly the old and the new token.
\<close>

theorem rotation_key_sticky:
  assumes inj: "inj hash" and start: "rs_families (app_server start) = []"
    and app: "app = foldl (server_step verify hash) start ops"
    and f: "f \<in> set (rs_families (app_server app))" "fam_rotation_pk f = Some key"
    and op: "\<And>provided handle. op \<noteq> DeleteFamily provided handle"
  shows "\<exists>f'\<in>set (rs_families (app_server (server_step verify hash app op))). fam_id f' = fam_id f \<and> fam_rotation_pk f' = Some key \<and>
    (fam_token f' = fam_token f \<or>
     (\<exists>presented pk signature now. op = Rotate presented (fam_token f') pk (Some signature) now \<and>
        verify key (rotation_signed_bytes (fam_token f) (fam_token f')) signature))"
proof (cases op)
  case (Rotate presented new_token pk signature now)
  have fams: "families_inv (app_server app)"
    using credentials_inv_families [OF inj reachable_credentials [OF inj start]] by (simp add: app)
  consider (same) "app_server (server_step verify hash app op) = app_server app"
    | (rotated) current public_key sig outcome rs' where "signature = Some sig" "app_server (server_step verify hash app op) = rs'"
        "rotate_family_token verify hash (app_server app) current new_token \<lparr>ra_public_key = public_key, ra_signature = sig\<rparr> = Inr (outcome, rs')"
    using rotate_family_effect [of verify hash app presented new_token pk signature now] unfolding Rotate server_step.simps by fastforce
  then show ?thesis
  proof cases
    case same
    then show ?thesis using f by auto
  next
    case rotated
    from rotate_keeps [OF fams rotated(3) f] show ?thesis unfolding rotated(2) using rotated(1) Rotate by auto
  qed
next
  case (MailOp mail)
  then show ?thesis using f by auto
qed (use op f provision_keeps patch_keeps in \<open>fastforce simp: keyed_rows_kept_def\<close>)+

definition empty_app :: app_state where
  "empty_app = \<lparr>app_server = \<lparr>rs_store = relay_store_open, rs_families = []\<rparr>, app_auth_tokens = [],
     app_static_deposit_tokens = Map.empty, app_family_quota_bytes = 1000, app_admin_token = Some ''admin''\<rparr>"

definition demo_new_token :: string where
  "demo_new_token = replicate 24 (CHR ''n'')"

definition demo_ops :: "server_op list" where
  "demo_ops = [Provision ''cmfid1-a'' ''admin'' ''fam'' None None None None 0,
     Rotate ''fam'' demo_new_token (Some (replicate 32 1)) (Some (replicate 64 2)) 10]"

abbreviation (input) "any_signature \<equiv> (\<lambda>_ _ signature. signature = replicate 64 (2 :: u8))"

lemma visible_token:
  assumes "list_all (\<lambda>c. byte_in 0x21 0x7E (of_char c)) token"
  shows "\<not> list_ex blank_or_control (token_chars token)"
proof -
  have "list_all (byte_in 0 0x7F) (map of_char token)" using assms by (auto simp: list_all_iff byte_in_def)
  then have "token_chars token = map (\<lambda>c. [of_char c]) token"
    using utf8_chars_ascii [of "map of_char token" "[]"] by (simp add: token_chars_def comp_def)
  moreover have "\<not> blank_or_control [b]" if "byte_in 0x21 0x7E b" for b
    using that visible_not_blank by (auto simp: blank_or_control_def byte_in_def)
  ultimately show ?thesis using assms by (auto simp: list_ex_iff list_all_iff)
qed

lemma demo_run:
  "rs_families (app_server (foldl (server_step any_signature id) empty_app demo_ops)) =
     [\<lparr>fam_token = demo_new_token, fam_id = ''cmfid1-a'', fam_status = ''active'', fam_plan = None, fam_quota_bytes = None,
       fam_created_ms = 0, fam_expires_ms = None, fam_note = None, fam_deposit_token = ''cmdep1-'' @ demo_new_token,
       fam_rotation_pk = Some (replicate 32 1)\<rparr>]"
proof -
  have tok: "length demo_new_token = 24" "\<not> starts_with demo_new_token DEPOSIT_TOKEN_PREFIX"
    "\<not> starts_with demo_new_token FAMILY_ID_PREFIX" "demo_new_token \<noteq> ''fam''" "''fam'' \<noteq> demo_new_token" "demo_new_token \<noteq> ''admin''" "''admin'' \<noteq> demo_new_token"
    "demo_new_token \<noteq> ''cmdep1-fam''" "''cmdep1-fam'' \<noteq> demo_new_token" "demo_new_token \<noteq> ''''"
    by (simp_all add: demo_new_token_def starts_with_def DEPOSIT_TOKEN_PREFIX_def FAMILY_ID_PREFIX_def eval_nat_numeral)
  have plain: "\<not> list_ex blank_or_control (token_chars demo_new_token)" "\<not> list_ex blank_or_control (token_chars ''fam'')"
    by (rule visible_token, simp add: demo_new_token_def byte_in_def list_all_iff)+
  show ?thesis using tok plain
    by (simp add: demo_ops_def empty_app_def admin_provision_family_def authorize_admin_def constant_time_eq_iff provision_refusal_def
        MAX_FAMILY_TOKEN_LEN_def is_deposit_token_def is_family_id_def starts_with_def validate_quota_bytes_def
        upsert_family_def Let_def rotate_family_def authorize_family_def get_family_by_credential_on_def get_family_on_def
        billing_refusal_def rotation_refusal_def MIN_ROTATION_TOKEN_LEN_def decode_fixed_base64_field_def rotate_family_token_def
        check_rotation_authority_def set_rotation_pk_def deposit_token_for_def DEPOSIT_TOKEN_PREFIX_def FAMILY_ID_PREFIX_def
        envelopes_collide_def presence_collides_def relay_store_open_def)
qed

lemma credentials_unambiguous_witness:
  "\<exists>f\<in>set (rs_families (app_server (foldl (server_step any_signature id) empty_app demo_ops))).
     fam_deposit_token f = deposit_token_for id (fam_token f) \<and> fam_token f = demo_new_token"
proof -
  have "rs_families (app_server empty_app) = []" by (simp add: empty_app_def)
  from credentials_unambiguous [OF inj_on_id this refl, where ops = demo_ops and verify = any_signature] show ?thesis
    unfolding demo_run by simp
qed

lemma rotation_key_sticky_witness:
  "\<exists>f'\<in>set (rs_families (app_server (server_step any_signature id (foldl (server_step any_signature id) empty_app demo_ops)
       (Rotate demo_new_token ''fam'' (Some (replicate 32 3)) (Some (replicate 64 2)) 20)))).
     fam_rotation_pk f' = Some (replicate 32 1)"
proof -
  let ?app = "foldl (server_step any_signature id) empty_app demo_ops"
  have "rs_families (app_server empty_app) = []" by (simp add: empty_app_def)
  moreover obtain f where "f \<in> set (rs_families (app_server ?app))" "fam_rotation_pk f = Some (replicate 32 1)"
    unfolding demo_run by simp
  ultimately show ?thesis
    using rotation_key_sticky [OF inj_on_id _ refl, where ops = demo_ops and verify = any_signature and start = empty_app and
        op = "Rotate demo_new_token ''fam'' (Some (replicate 32 3)) (Some (replicate 64 2)) 20" and f = f and key = "replicate 32 1"]
    by blast
qed

end
