(* ===== verification/Json_Fault.thy ===== *)
theory Json_Fault
  imports Mesh_Prelude
begin

text \<open>
  \<open>core/src/json_fault.rs\<close>: how a JSON error is described in a log without quoting the input, by
  category, position and length.
\<close>

datatype json_category = JsonIo | JsonSyntax | JsonData | JsonEof

record json_error =
  je_category :: json_category
  je_line :: nat
  je_column :: nat

fun category_name :: "json_category \<Rightarrow> string" where
  "category_name JsonIo = ''io''"
| "category_name JsonSyntax = ''syntax''"
| "category_name JsonData = ''data''"
| "category_name JsonEof = ''eof''"

definition json_fault :: "json_error \<Rightarrow> nat \<Rightarrow> string" where
  "json_fault e len =
     (if je_line e = 0 \<and> je_column e = 0 then category_name (je_category e) @ '' error in '' @ show_nat len @ ''B''
      else category_name (je_category e) @ '' error at line '' @ show_nat (je_line e) @ '' column '' @
           show_nat (je_column e) @ '' of '' @ show_nat len @ ''B'')"

end
