(* ===== verification/Relay_Wire.thy ===== *)
theory Relay_Wire
  imports Relay_Endpoints Relay_Families Json_Fault
begin

text \<open>
  The codec half of \<open>core/src/relay_wire.rs\<close>, with \<open>core/src/json_fault.rs\<close> and the page the relay
  daemon answers a fetch with (\<open>relayd/src/lib.rs\<close>). The JSON layer is \<open>serde_json\<close>: a parser and a
  renderer per message, which are parameters, as is base64url. What a theorem relies on is a named
  hypothesis on them.
\<close>

section \<open>JSON\<close>

type_synonym 'a json_parser = "bytes \<Rightarrow> json_error + 'a"
type_synonym 'a json_renderer = "'a \<Rightarrow> string + bytes"

definition json_encode :: "'a json_renderer \<Rightarrow> 'a \<Rightarrow> bytes result" where
  "json_encode render v =
     (case render v of Inl e \<Rightarrow> Inl (Malformed (''invalid relay JSON: '' @ e)) | Inr bs \<Rightarrow> Inr bs)"

definition json_decode :: "'a json_parser \<Rightarrow> bytes \<Rightarrow> 'a result" where
  "json_decode parse body =
     (case parse body of
        Inl e \<Rightarrow> Inl (Malformed (''invalid relay JSON: '' @ json_fault e (length body)))
      | Inr v \<Rightarrow> Inr v)"

section \<open>Bounds and checks\<close>

definition RELAY_MAX_SEALED_BYTES :: nat where
  "RELAY_MAX_SEALED_BYTES = 512 * 1024"

definition RELAY_FETCH_PAGE_ROWS :: nat where
  "RELAY_FETCH_PAGE_ROWS = 256"

definition RELAY_MAX_RESPONSE_BODY_BYTES :: nat where
  "RELAY_MAX_RESPONSE_BODY_BYTES = 12 * 1024 * 1024"

definition RELAY_FETCH_MAX_DECODED_BYTES :: nat where
  "RELAY_FETCH_MAX_DECODED_BYTES = RELAY_MAX_RESPONSE_BODY_BYTES"

definition RELAY_MAX_PRESENCE_ROWS :: nat where
  "RELAY_MAX_PRESENCE_ROWS = 256"

lemmas relay_wire_bounds = RELAY_MAX_SEALED_BYTES_def RELAY_FETCH_PAGE_ROWS_def
  RELAY_MAX_RESPONSE_BODY_BYTES_def RELAY_FETCH_MAX_DECODED_BYTES_def RELAY_MAX_PRESENCE_ROWS_def

definition relay_validate_envelope_sizes :: "nat \<Rightarrow> nat \<Rightarrow> nat \<Rightarrow> unit result" where
  "relay_validate_envelope_sizes msg_id_len hint_len sealed_len =
     (if msg_id_len \<noteq> 16 then Inl (Malformed ''relay msg_id must be 16 bytes'')
      else if hint_len \<noteq> 8 then Inl (Malformed ''relay recipient hint must be 8 bytes'')
      else if sealed_len = 0 then Inl (Malformed ''relay sealed payload cannot be empty'')
      else if sealed_len > RELAY_MAX_SEALED_BYTES then Inl (Malformed ''relay sealed payload is too large'')
      else Inr ())"

definition validate_envelope :: "bytes \<Rightarrow> bytes \<Rightarrow> bytes \<Rightarrow> unit result" where
  "validate_envelope msg_id hint sealed = relay_validate_envelope_sizes (length msg_id) (length hint) (length sealed)"

definition validate_hint :: "bytes \<Rightarrow> unit result" where
  "validate_hint hint =
     (if length hint \<noteq> 8 then Inl (Malformed ''relay recipient hint must be 8 bytes'') else Inr ())"

definition b64_decode :: "relay_prims \<Rightarrow> utf8 \<Rightarrow> bytes result" where
  "b64_decode rp v = (case b64_dec rp v of None \<Rightarrow> Inl (Malformed ''invalid relay base64url'') | Some b \<Rightarrow> Inr b)"

definition max_b64_len :: "nat \<Rightarrow> nat" where
  "max_b64_len decoded_len = nat_sat_add (min (decoded_len * 4) u64_max) 2 div 3"

definition validate_b64_len :: "utf8 \<Rightarrow> nat \<Rightarrow> string \<Rightarrow> unit result" where
  "validate_b64_len v decoded_len field =
     (if length v \<noteq> max_b64_len decoded_len then Inl (Malformed (field @ '' has invalid encoded length'')) else Inr ())"

definition validate_response_body :: "bytes \<Rightarrow> unit result" where
  "validate_response_body body =
     (if length body > RELAY_MAX_RESPONSE_BODY_BYTES then Inl (Malformed ''relay response body is too large'') else Inr ())"

fun validate_all_hints :: "bytes list \<Rightarrow> unit result" where
  "validate_all_hints [] = Inr ()"
| "validate_all_hints (h # hs) = and_then (validate_hint h) (\<lambda>_. validate_all_hints hs)"

section \<open>Posting, fetching, acknowledging\<close>

record post_envelope_wire =
  pw_msg_id :: utf8
  pw_hop_ttl :: u8
  pw_recipient_hint :: utf8
  pw_sealed :: utf8
  pw_expiry_ms :: i64

definition relay_encode_post_envelope ::
  "relay_prims \<Rightarrow> post_envelope_wire json_renderer \<Rightarrow> bytes \<Rightarrow> u8 \<Rightarrow> bytes \<Rightarrow> bytes \<Rightarrow> i64 \<Rightarrow> bytes result" where
  "relay_encode_post_envelope rp render msg_id hop_ttl recipient_hint sealed expiry_ms =
     and_then (validate_envelope msg_id recipient_hint sealed) (\<lambda>_.
       json_encode render \<lparr>pw_msg_id = b64_enc rp msg_id, pw_hop_ttl = hop_ttl,
         pw_recipient_hint = b64_enc rp recipient_hint, pw_sealed = b64_enc rp sealed, pw_expiry_ms = expiry_ms\<rparr>)"

definition relay_decode_post_response :: "i64 json_parser \<Rightarrow> bytes \<Rightarrow> i64 result" where
  "relay_decode_post_response parse body =
     and_then (validate_response_body body) (\<lambda>_.
     and_then (json_decode parse body) (\<lambda>i.
       if i < 0 then Inl (Malformed ''relay id cannot be negative'') else Inr i))"

definition show_i64 :: "i64 \<Rightarrow> string" where
  "show_i64 i = (if i < 0 then ''-'' @ show_nat (nat (- i)) else show_nat (nat i))"

fun join_commas :: "utf8 list \<Rightarrow> utf8" where
  "join_commas [] = []"
| "join_commas [x] = x"
| "join_commas (x # y # ys) = x @ [44] @ join_commas (y # ys)"

definition relay_build_fetch_path :: "relay_prims \<Rightarrow> bytes list \<Rightarrow> i64 \<Rightarrow> u32 \<Rightarrow> utf8 result" where
  "relay_build_fetch_path rp hints after_id limit =
     (if limit = 0 \<or> unat limit > RELAY_FETCH_PAGE_ROWS then Inl (Malformed ''relay fetch limit is out of range'')
      else if after_id < 0 then Inl (Malformed ''relay cursor cannot be negative'')
      else and_then (validate_all_hints hints) (\<lambda>_.
        Inr (ascii ''/envelopes?hints='' @ join_commas (map (b64_enc rp) hints) @ ascii ''&after='' @
             ascii (show_i64 after_id) @ ascii ''&limit='' @ ascii (show_nat (unat limit)))))"

record envelope_wire =
  ew_id :: i64
  ew_msg_id :: utf8
  ew_hop_ttl :: u8
  ew_recipient_hint :: utf8
  ew_sealed :: utf8
  ew_expiry_ms :: i64

record fetch_response =
  fr_envelopes :: "envelope_wire list"
  fr_next_cursor :: i64

record fetched_envelope =
  fe_id :: i64
  fe_msg_id :: bytes
  fe_hop_ttl :: u8
  fe_recipient_hint :: bytes
  fe_sealed :: bytes
  fe_expiry_ms :: i64

record fetch_page =
  fp_envelopes :: "fetched_envelope list"
  fp_next_cursor :: i64

text \<open>The loop over the rows, with \<open>decoded_bytes\<close> and \<open>previous_id\<close>; it returns the rows and the last id.\<close>

fun decode_rows ::
  "relay_prims \<Rightarrow> envelope_wire list \<Rightarrow> nat \<Rightarrow> i64 option \<Rightarrow> (fetched_envelope list \<times> i64 option) result" where
  "decode_rows rp [] decoded previous = Inr ([], previous)"
| "decode_rows rp (item # items) decoded previous =
     (if ew_id item < 0 \<or> (case previous of Some p \<Rightarrow> ew_id item \<le> p | None \<Rightarrow> False)
      then Inl (Malformed ''relay envelope ids must be non-negative and increasing'')
      else
        and_then (validate_b64_len (ew_msg_id item) 16 ''relay msg_id'') (\<lambda>_.
        and_then (validate_b64_len (ew_recipient_hint item) 8 ''relay recipient hint'') (\<lambda>_.
        if ew_sealed item = [] \<or> length (ew_sealed item) > max_b64_len RELAY_MAX_SEALED_BYTES
        then Inl (Malformed ''relay sealed payload is too large'')
        else
          and_then (b64_decode rp (ew_msg_id item)) (\<lambda>msg_id.
          and_then (b64_decode rp (ew_recipient_hint item)) (\<lambda>hint.
          and_then (b64_decode rp (ew_sealed item)) (\<lambda>sealed.
          and_then (validate_envelope msg_id hint sealed) (\<lambda>_.
          if decoded + length sealed > u64_max then Inl (Malformed ''relay fetch page payload size overflow'')
          else if decoded + length sealed > RELAY_FETCH_MAX_DECODED_BYTES
          then Inl (Malformed ''relay fetch page payload is too large'')
          else
            and_then (decode_rows rp items (decoded + length sealed) (Some (ew_id item))) (\<lambda>(rows, last_id).
            Inr (\<lparr>fe_id = ew_id item, fe_msg_id = msg_id, fe_hop_ttl = ew_hop_ttl item, fe_recipient_hint = hint,
                   fe_sealed = sealed, fe_expiry_ms = ew_expiry_ms item\<rparr> # rows, last_id)))))))))"

definition relay_decode_fetch_page :: "relay_prims \<Rightarrow> fetch_response json_parser \<Rightarrow> bytes \<Rightarrow> fetch_page result" where
  "relay_decode_fetch_page rp parse body =
     and_then (validate_response_body body) (\<lambda>_.
     and_then (json_decode parse body) (\<lambda>wire.
     if length (fr_envelopes wire) > RELAY_FETCH_PAGE_ROWS
     then Inl (Malformed ''relay fetch page contains too many envelopes'')
     else if fr_next_cursor wire < 0 then Inl (Malformed ''relay cursor cannot be negative'')
     else
       and_then (decode_rows rp (fr_envelopes wire) 0 None) (\<lambda>(rows, previous_id).
       if (case previous_id of Some last_id \<Rightarrow> fr_next_cursor wire \<noteq> last_id | None \<Rightarrow> False)
       then Inl (Malformed ''relay cursor does not match the fetch page'')
       else Inr \<lparr>fp_envelopes = rows, fp_next_cursor = fr_next_cursor wire\<rparr>)))"

definition relay_encode_ack_request :: "i64 list json_renderer \<Rightarrow> i64 list \<Rightarrow> bytes result" where
  "relay_encode_ack_request render ids =
     (if list_ex (\<lambda>i. i < 0) ids then Inl (Malformed ''relay id cannot be negative'') else json_encode render ids)"

section \<open>Presence\<close>

record presence_request =
  pq_announce :: "utf8 list"
  pq_query :: "utf8 list"

definition relay_encode_presence_request ::
  "relay_prims \<Rightarrow> presence_request json_renderer \<Rightarrow> bytes list \<Rightarrow> bytes list \<Rightarrow> bytes result" where
  "relay_encode_presence_request rp render announce query =
     and_then (validate_all_hints (announce @ query)) (\<lambda>_.
       json_encode render \<lparr>pq_announce = map (b64_enc rp) announce, pq_query = map (b64_enc rp) query\<rparr>)"

record presence_response =
  pr_now_ms :: i64
  pr_presence :: "(utf8 \<times> i64) list"

record presence_page =
  pp_now_ms :: i64
  pp_presence :: "(bytes \<times> i64) list"

fun decode_presence_rows :: "relay_prims \<Rightarrow> (utf8 \<times> i64) list \<Rightarrow> (bytes \<times> i64) list result" where
  "decode_presence_rows rp [] = Inr []"
| "decode_presence_rows rp ((hint_text, last_seen_ms) # items) =
     and_then (b64_decode rp hint_text) (\<lambda>hint.
     and_then (validate_hint hint) (\<lambda>_.
     and_then (decode_presence_rows rp items) (\<lambda>rows. Inr ((hint, last_seen_ms) # rows))))"

definition relay_decode_presence_page :: "relay_prims \<Rightarrow> presence_response json_parser \<Rightarrow> bytes \<Rightarrow> presence_page result" where
  "relay_decode_presence_page rp parse body =
     and_then (validate_response_body body) (\<lambda>_.
     and_then (json_decode parse body) (\<lambda>wire.
     if length (pr_presence wire) > RELAY_MAX_PRESENCE_ROWS
     then Inl (Malformed ''relay presence page contains too many entries'')
     else and_then (decode_presence_rows rp (pr_presence wire)) (\<lambda>rows.
       Inr \<lparr>pp_now_ms = pr_now_ms wire, pp_presence = rows\<rparr>)))"

section \<open>Rotating the member token\<close>

definition relay_rotate_path :: utf8 where
  "relay_rotate_path = ascii ''/family/rotate''"

definition FAMILY_ROTATION_SIGN_DOMAIN :: bytes where
  "FAMILY_ROTATION_SIGN_DOMAIN = ascii ''CruiseMesh family token rotation v1'' @ [0]"

definition family_rotation_signing_bytes :: "utf8 \<Rightarrow> utf8 \<Rightarrow> bytes" where
  "family_rotation_signing_bytes current_token new_token =
     FAMILY_ROTATION_SIGN_DOMAIN @
     concat (map (\<lambda>field. u16_bytes (of_nat (min (length field) 65535)) @ field) [current_token, new_token])"

record rotate_family_request =
  rq_new_token :: utf8
  rq_rotation_pk :: utf8
  rq_rotation_sig :: utf8

definition relay_encode_rotate_request ::
  "relay_prims \<Rightarrow> rotate_family_request json_renderer \<Rightarrow> utf8 \<Rightarrow> utf8 \<Rightarrow> bytes \<Rightarrow> bytes result" where
  "relay_encode_rotate_request rp render current_token new_token person_root_sign_sk =
     (if relay_token_is_deposit new_token then Inl (Malformed ''a family's member token may not be deposit-class'')
      else if trim new_token = [] \<or> trim current_token = [] then Inl (Malformed ''a family token cannot be empty'')
      else
        let new = trim new_token in
        and_then (signing_key_from_bytes person_root_sign_sk) (\<lambda>sk.
          json_encode render
            \<lparr>rq_new_token = new, rq_rotation_pk = b64_enc rp (ed_pk (prim_crypto rp) sk),
             rq_rotation_sig = b64_enc rp (ed_sign (prim_crypto rp) sk (family_rotation_signing_bytes current_token new))\<rparr>))"

record rotate_response_wire =
  rr_family_token :: utf8
  rr_deposit_token :: utf8
  rr_envelopes_moved :: u64
  rr_rotated :: bool

definition relay_decode_rotate_response ::
  "relay_prims \<Rightarrow> rotate_response_wire json_parser \<Rightarrow> bytes \<Rightarrow> utf8 \<Rightarrow> rotate_response_wire result" where
  "relay_decode_rotate_response rp parse body expected_token =
     and_then (validate_response_body body) (\<lambda>_.
     and_then (json_decode parse body) (\<lambda>wire.
     if rr_family_token wire \<noteq> expected_token
     then Inl (Malformed ''the relay rotated to a different token than the one requested'')
     else if rr_deposit_token wire \<noteq> relay_deposit_token_for rp (rr_family_token wire)
     then Inl (Malformed ''the relay's deposit token does not attenuate from the rotated member token'')
     else Inr wire))"

section \<open>The family's pass\<close>

datatype core_family_pass_state = PassActive | PassGrace | PassSuspended | PassUnknown

record family_status_wire =
  fs_plan :: "utf8 option"
  fs_expires_ms :: "i64 option"
  fs_state :: utf8

record core_family_status =
  cfs_plan :: "utf8 option"
  cfs_expires_ms :: "i64 option"
  cfs_state :: core_family_pass_state

definition relay_family_status_path :: utf8 where
  "relay_family_status_path = ascii ''/family/status''"

definition pass_state_of :: "utf8 \<Rightarrow> core_family_pass_state" where
  "pass_state_of word =
     (if word = ascii ''active'' then PassActive else if word = ascii ''grace'' then PassGrace
      else if word = ascii ''suspended'' then PassSuspended else PassUnknown)"

definition relay_decode_family_status :: "family_status_wire json_parser \<Rightarrow> bytes \<Rightarrow> core_family_status result" where
  "relay_decode_family_status parse body =
     and_then (validate_response_body body) (\<lambda>_.
     and_then (json_decode parse body) (\<lambda>wire.
     Inr \<lparr>cfs_plan = fs_plan wire, cfs_expires_ms = fs_expires_ms wire, cfs_state = pass_state_of (fs_state wire)\<rparr>))"

definition relay_pass_delivery_through_ms :: "core_family_status \<Rightarrow> i64 \<Rightarrow> i64 option" where
  "relay_pass_delivery_through_ms status now_ms =
     (if cfs_state status = PassSuspended then None
      else case cfs_expires_ms status of
             Some expires \<Rightarrow> if expires > now_ms then Some expires else None
           | None \<Rightarrow> None)"

section \<open>The relay's answer to a fetch\<close>

record envelope_response =
  er_id :: i64
  er_msg_id :: utf8
  er_hop_ttl :: u8
  er_recipient_hint :: utf8
  er_sealed :: utf8
  er_expiry_ms :: i64
  er_created_at_ms :: i64

record get_envelopes_response =
  ger_envelopes :: "envelope_response list"
  ger_next_cursor :: i64

definition envelope_response_of :: "relay_prims \<Rightarrow> stored_envelope \<Rightarrow> envelope_response" where
  "envelope_response_of rp row =
     \<lparr>er_id = env_id row, er_msg_id = b64_enc rp (env_msg_id row), er_hop_ttl = env_hop_ttl row,
      er_recipient_hint = b64_enc rp (env_hint row), er_sealed = b64_enc rp (env_sealed row),
      er_expiry_ms = env_expiry_ms row, er_created_at_ms = env_created_at_ms row\<rparr>"

definition get_envelopes_response_of :: "relay_prims \<Rightarrow> stored_envelope list \<Rightarrow> i64 \<Rightarrow> get_envelopes_response" where
  "get_envelopes_response_of rp rows next_cursor =
     \<lparr>ger_envelopes = map (envelope_response_of rp) rows, ger_next_cursor = next_cursor\<rparr>"

section \<open>What a decoded page is worth\<close>

text \<open>The documented behaviour of unpadded base64url: it reads back, has the right length and uses its alphabet.\<close>

definition base64url_text :: "utf8 \<Rightarrow> bool" where
  "base64url_text t \<longleftrightarrow> list_all (\<lambda>b. is_ascii_alphanumeric [b] \<or> b = 45 \<or> b = 95) t"

definition base64_laws :: "relay_prims \<Rightarrow> bool" where
  "base64_laws rp \<longleftrightarrow>
     (\<forall>bs. b64_dec rp (b64_enc rp bs) = Some bs \<and> length (b64_enc rp bs) = (length bs * 4 + 2) div 3 \<and> base64url_text (b64_enc rp bs))"

text \<open>
  The laws of the JSON layer the pair of programs relies on, for answers whose text fields are base64url and so
  are written without escapes: the client reads back the fields it knows of what the server wrote, and the
  rendering adds a bounded number of bytes per row.
\<close>

definition client_view :: "get_envelopes_response \<Rightarrow> fetch_response" where
  "client_view resp =
     \<lparr>fr_envelopes = map (\<lambda>e. \<lparr>ew_id = er_id e, ew_msg_id = er_msg_id e, ew_hop_ttl = er_hop_ttl e,
        ew_recipient_hint = er_recipient_hint e, ew_sealed = er_sealed e, ew_expiry_ms = er_expiry_ms e\<rparr>) (ger_envelopes resp),
      fr_next_cursor = ger_next_cursor resp\<rparr>"

definition response_fits :: "get_envelopes_response \<Rightarrow> bool" where
  "response_fits resp \<longleftrightarrow>
     i64_ok (ger_next_cursor resp) \<and> length (ger_envelopes resp) \<le> 500 \<and>
     list_all (\<lambda>e. i64_ok (er_id e) \<and> i64_ok (er_expiry_ms e) \<and> i64_ok (er_created_at_ms e) \<and>
       base64url_text (er_msg_id e) \<and> base64url_text (er_recipient_hint e) \<and> base64url_text (er_sealed e) \<and>
       length (er_msg_id e) \<le> 22 \<and> length (er_recipient_hint e) \<le> 11 \<and> length (er_sealed e) \<le> 1000000) (ger_envelopes resp)"

definition json_carries :: "(get_envelopes_response \<Rightarrow> bytes) \<Rightarrow> fetch_response json_parser \<Rightarrow> bool" where
  "json_carries render parse \<longleftrightarrow>
     (\<forall>resp. response_fits resp \<longrightarrow> parse (render resp) = Inr (client_view resp) \<and>
        length (render resp) \<le> 64 + sum_list (map (\<lambda>e. 256 + length (er_sealed e)) (ger_envelopes resp)))"

definition envelope_sized :: "bytes \<Rightarrow> bytes \<Rightarrow> bytes \<Rightarrow> bool" where
  "envelope_sized msg_id hint sealed \<longleftrightarrow>
     length msg_id = 16 \<and> length hint = 8 \<and> sealed \<noteq> [] \<and> length sealed \<le> RELAY_MAX_SEALED_BYTES"

lemma validate_envelope_iff: "validate_envelope m h s = Inr () \<longleftrightarrow> envelope_sized m h s"
  by (auto simp: validate_envelope_def relay_validate_envelope_sizes_def envelope_sized_def)

definition page_ok :: "nat \<Rightarrow> i64 option \<Rightarrow> fetched_envelope list \<Rightarrow> i64 option \<Rightarrow> bool" where
  "page_ok decoded previous rows last_id \<longleftrightarrow>
     sorted_wrt (<) (map fe_id rows) \<and>
     (\<forall>r\<in>set rows. 0 \<le> fe_id r \<and> (\<forall>p. previous = Some p \<longrightarrow> p < fe_id r) \<and>
        envelope_sized (fe_msg_id r) (fe_recipient_hint r) (fe_sealed r)) \<and>
     (rows \<noteq> [] \<longrightarrow> decoded + sum_list (map (length \<circ> fe_sealed) rows) \<le> RELAY_FETCH_MAX_DECODED_BYTES) \<and>
     last_id = (if rows = [] then previous else Some (fe_id (last rows)))"

lemma decode_rows_ok:
  "decode_rows rp items decoded previous = Inr (rows, last_id) \<Longrightarrow>
   page_ok decoded previous rows last_id \<and> length rows = length items"
proof (induction items arbitrary: decoded previous rows)
  case Nil
  then show ?case by (simp add: page_ok_def)
next
  case (Cons item items)
  from Cons.prems obtain msg_id hint sealed rest where
    ord: "0 \<le> ew_id item" "\<And>p. previous = Some p \<Longrightarrow> p < ew_id item"
    and sized: "envelope_sized msg_id hint sealed"
    and fits: "decoded + length sealed \<le> RELAY_FETCH_MAX_DECODED_BYTES"
    and rest: "decode_rows rp items (decoded + length sealed) (Some (ew_id item)) = Inr (rest, last_id)"
    and rows: "rows = \<lparr>fe_id = ew_id item, fe_msg_id = msg_id, fe_hop_ttl = ew_hop_ttl item, fe_recipient_hint = hint,
                   fe_sealed = sealed, fe_expiry_ms = ew_expiry_ms item\<rparr> # rest"
    by (auto simp: and_then_Inr validate_envelope_iff not_le not_less split: if_splits option.splits)
  have "page_ok (decoded + length sealed) (Some (ew_id item)) rest last_id" "length rest = length items"
    using Cons.IH [OF rest] by simp_all
  then show ?case
    using ord sized fits unfolding rows page_ok_def
    by (auto intro: less_trans)
qed

text \<open>
  Claim C30. Whatever a relay or a captive portal answers, a fetch page that decodes is well formed: at
  most 256 rows with strictly increasing non-negative ids, every row with a 16-byte message id, an
  8-byte hint and a payload of 1 byte to 512 KiB, at most 12 MiB of payload in all, and a non-negative
  cursor that is the id of the last row.
\<close>

theorem decoded_page_well_formed:
  assumes "relay_decode_fetch_page rp parse body = Inr page"
  shows "length (fp_envelopes page) \<le> 256 \<and> sorted_wrt (<) (map fe_id (fp_envelopes page)) \<and>
    list_all (\<lambda>r. 0 \<le> fe_id r \<and> length (fe_msg_id r) = 16 \<and> length (fe_recipient_hint r) = 8 \<and>
      1 \<le> length (fe_sealed r) \<and> length (fe_sealed r) \<le> 512 * 1024) (fp_envelopes page) \<and>
    sum_list (map (length \<circ> fe_sealed) (fp_envelopes page)) \<le> 12 * 1024 * 1024 \<and>
    0 \<le> fp_next_cursor page \<and> (fp_envelopes page = [] \<or> fp_next_cursor page = fe_id (last (fp_envelopes page)))"
proof -
  from assms obtain wire where w: "validate_response_body body = Inr ()" "json_decode parse body = Inr wire"
    by (auto simp: relay_decode_fetch_page_def and_then_Inr)
  with assms have len: "length (fr_envelopes wire) \<le> RELAY_FETCH_PAGE_ROWS" and cur: "0 \<le> fr_next_cursor wire"
    by (auto simp: relay_decode_fetch_page_def not_less split: if_splits)
  with assms w obtain rows last_id where d: "decode_rows rp (fr_envelopes wire) 0 None = Inr (rows, last_id)"
    and rest: "(if (case last_id of Some l \<Rightarrow> fr_next_cursor wire \<noteq> l | None \<Rightarrow> False)
      then Inl (Malformed ''relay cursor does not match the fetch page'')
      else Inr \<lparr>fp_envelopes = rows, fp_next_cursor = fr_next_cursor wire\<rparr>) = Inr page"
    by (auto simp: relay_decode_fetch_page_def and_then_Inr)
  from rest have page: "page = \<lparr>fp_envelopes = rows, fp_next_cursor = fr_next_cursor wire\<rparr>"
    and last: "last_id = None \<or> last_id = Some (fr_next_cursor wire)"
    by (auto split: if_splits option.splits)
  from decode_rows_ok [OF d] show ?thesis
    using len cur last unfolding page
    by (cases "rows = []")
      (auto simp: page_ok_def relay_wire_bounds envelope_sized_def list_all_iff Suc_le_eq)
qed

section \<open>What the relay serves, the phone accepts\<close>

definition rows_sized :: "relay_store \<Rightarrow> bool" where
  "rows_sized st \<longleftrightarrow>
     (\<forall>r\<in>set (envelopes st). envelope_sized (env_msg_id r) (env_hint r) (env_sealed r) \<and>
        i64_ok (env_expiry_ms r) \<and> i64_ok (env_created_at_ms r))"

text \<open>The times of an operation are machine integers.\<close>

definition op_times_ok :: "relay_op \<Rightarrow> bool" where
  "op_times_ok op \<longleftrightarrow> (case op of OpPost _ _ _ _ _ expiry_ms now \<Rightarrow> i64_ok expiry_ms \<and> i64_ok now | _ \<Rightarrow> True)"

lemma rows_sized_subset:
  "rows_sized st \<Longrightarrow> set (envelopes st') \<subseteq> set (envelopes st) \<Longrightarrow> rows_sized st'"
  by (auto simp: rows_sized_def)

lemma rows_sized_bump: "rows_sized st \<Longrightarrow> i64_ok e \<Longrightarrow> rows_sized (bump_envelope st family msg_id hop_ttl e)"
  by (auto simp: rows_sized_def bump_envelope_def max_def)

lemma rows_sized_prune: "rows_sized st \<Longrightarrow> rows_sized (snd (prune_expired_on st now))"
  by (erule rows_sized_subset) (auto simp: prune_expired_on_def Let_def)

lemma effective_expiry_ok: "i64_ok e \<Longrightarrow> i64_ok (effective_expiry now e)"
  by (auto simp: effective_expiry_def i64_add_def min_def)

lemma post_expiry_ok: "i64_ok e \<Longrightarrow> i64_ok (post_expiry access now e)"
  by (auto simp: post_expiry_def i64_add_def min_def split: token_class.splits)

lemma rows_sized_post:
  assumes "rows_sized st" "i64_ok expiry_ms" "i64_ok now"
  shows "rows_sized (snd (post_envelope st access msg_id hop_ttl hint sealed expiry_ms now))"
proof -
  have "rows_sized st'"
    if ins: "insert_envelope_with_quota st family msg_id hop_ttl hint sealed e now quota depositor = Inr (res, st')"
    and sized: "envelope_sized msg_id hint sealed" "i64_ok e" for family e quota depositor res st'
    using ins
  proof (cases rule: insert_with_quota_cases)
    case (stored st1)
    then have "rows_sized st1" using assms rows_sized_prune by auto
    with stored(4) sized assms(3) effective_expiry_ok show ?thesis by (auto simp: insert_row_Inr rows_sized_def)
  qed (use assms sized rows_sized_bump rows_sized_prune effective_expiry_ok in auto)
  then show ?thesis
    using assms post_expiry_ok
    by (auto simp: post_envelope_def relay_limits envelope_sized_def relay_wire_bounds split: sum.splits)
qed

lemma rows_sized_step:
  assumes st: "rows_sized st" and ok: "op_times_ok op"
  shows "rows_sized (relay_step st op)"
proof (cases op)
  case (OpAck access ids)
  have "rows_sized st'" if "store_ack_envelopes st f is = Inr (n, st')" for f "is" n st'
    using that by (intro rows_sized_subset [OF st]) (auto simp: store_ack_envelopes_def Let_def split: if_splits)
  then show ?thesis using st OpAck by (auto simp: ack_envelopes_def split: sum.splits)
next
  case (OpPresence access announce query now)
  have "rows_sized (snd (store_sync_presence st f an q now))" for f an q
    by (intro rows_sized_subset [OF st]) (auto simp: store_sync_presence_def prune_expired_on_def Let_def)
  then show ?thesis using st OpPresence by (auto simp: sync_presence_def Let_def case_prod_beta)
next
  case (OpPushRegister family device hints now)
  then show ?thesis using st
    by (auto simp: replace_push_registration_def Let_def and_then_Inr rows_sized_def split: sum.splits if_splits)
next
  case (OpPushRemove device)
  then show ?thesis using st by (auto simp: remove_push_device_token_def Let_def rows_sized_def)
qed (use st ok rows_sized_post rows_sized_prune in \<open>auto simp: op_times_ok_def\<close>)

interpretation sized_run:
  machine_inv "\<lambda>st op. if op_times_ok op then relay_step st op else st" relay_store_open rows_sized
proof unfold_locales
  show "rows_sized relay_store_open" by (simp add: rows_sized_def relay_store_open_def)
qed (simp add: rows_sized_step)

lemma rows_sized_run:
  assumes "list_all op_times_ok ops"
  shows "rows_sized (foldl relay_step relay_store_open ops)"
proof -
  have "foldl (\<lambda>st op. if op_times_ok op then relay_step st op else st) s ops = foldl relay_step s ops" for s
    using assms by (induction ops arbitrary: s) auto
  then show ?thesis using sized_run.reachable_inv [of ops] by simp
qed

lemma max_b64_small: "n \<le> RELAY_MAX_SEALED_BYTES \<Longrightarrow> max_b64_len n = (n * 4 + 2) div 3"
  by (auto simp: max_b64_len_def nat_sat_add_def u64_max_def relay_wire_bounds)

definition client_row :: "stored_envelope \<Rightarrow> fetched_envelope" where
  "client_row r =
     \<lparr>fe_id = env_id r, fe_msg_id = env_msg_id r, fe_hop_ttl = env_hop_ttl r, fe_recipient_hint = env_hint r,
      fe_sealed = env_sealed r, fe_expiry_ms = env_expiry_ms r\<rparr>"

definition wire_row :: "relay_prims \<Rightarrow> stored_envelope \<Rightarrow> envelope_wire" where
  "wire_row rp r =
     \<lparr>ew_id = env_id r, ew_msg_id = b64_enc rp (env_msg_id r), ew_hop_ttl = env_hop_ttl r,
      ew_recipient_hint = b64_enc rp (env_hint r), ew_sealed = b64_enc rp (env_sealed r), ew_expiry_ms = env_expiry_ms r\<rparr>"

lemma decode_wire_row:
  assumes laws: "base64_laws rp" and sized: "envelope_sized (env_msg_id r) (env_hint r) (env_sealed r)"
    and ord: "0 \<le> env_id r" "\<And>p. previous = Some p \<Longrightarrow> p < env_id r"
    and fits: "decoded + length (env_sealed r) \<le> RELAY_FETCH_MAX_DECODED_BYTES"
  shows "decode_rows rp (wire_row rp r # items) decoded previous =
    and_then (decode_rows rp items (decoded + length (env_sealed r)) (Some (env_id r)))
      (\<lambda>(rows, last_id). Inr (client_row r # rows, last_id))"
proof -
  have b64: "b64_decode rp (b64_enc rp bs) = Inr bs" "length (b64_enc rp bs) = (length bs * 4 + 2) div 3" for bs
    using laws by (auto simp: b64_decode_def base64_laws_def)
  have v: "validate_b64_len (b64_enc rp (env_msg_id r)) 16 f = Inr ()"
    "validate_b64_len (b64_enc rp (env_hint r)) 8 f = Inr ()" for f
    using sized b64 by (simp_all add: validate_b64_len_def envelope_sized_def max_b64_len_def nat_sat_add_def u64_max_def)
  have ne: "b64_enc rp (env_sealed r) \<noteq> []"
    using sized b64(2) [of "env_sealed r"] by (cases "env_sealed r") (auto simp: envelope_sized_def)
  have le: "length (b64_enc rp (env_sealed r)) \<le> max_b64_len RELAY_MAX_SEALED_BYTES"
    using sized unfolding b64(2) max_b64_small [OF order_refl] envelope_sized_def
    by (intro div_le_mono add_right_mono mult_right_mono) auto
  have val: "validate_envelope (env_msg_id r) (env_hint r) (env_sealed r) = Inr ()"
    using sized by (simp add: validate_envelope_iff)
  have small: "\<not> decoded + length (env_sealed r) > u64_max" "\<not> decoded + length (env_sealed r) > RELAY_FETCH_MAX_DECODED_BYTES"
    using fits by (simp_all add: relay_wire_bounds u64_max_def)
  have ord': "\<not> (env_id r < 0 \<or> (case previous of Some p \<Rightarrow> env_id r \<le> p | None \<Rightarrow> False))"
    using ord by (auto split: option.splits)
  show ?thesis
    using ord' v ne le small by (cases previous) (simp_all add: wire_row_def client_row_def b64(1) val)
qed

lemma decode_wire_rows:
  assumes laws: "base64_laws rp"
  shows "\<lbrakk>sorted_wrt (<) (map env_id rows);
     \<forall>r\<in>set rows. 0 \<le> env_id r \<and> (\<forall>p. previous = Some p \<longrightarrow> p < env_id r) \<and>
        envelope_sized (env_msg_id r) (env_hint r) (env_sealed r);
     decoded + page_bytes rows \<le> RELAY_FETCH_MAX_DECODED_BYTES\<rbrakk> \<Longrightarrow>
   decode_rows rp (map (wire_row rp) rows) decoded previous =
     Inr (map client_row rows, if rows = [] then previous else Some (env_id (last rows)))"
proof (induction rows arbitrary: decoded previous)
  case (Cons r rows)
  have "decode_rows rp (map (wire_row rp) (r # rows)) decoded previous =
      and_then (decode_rows rp (map (wire_row rp) rows) (decoded + length (env_sealed r)) (Some (env_id r)))
        (\<lambda>(rows, last_id). Inr (client_row r # rows, last_id))"
    unfolding list.map using Cons.prems by (intro decode_wire_row [OF laws]) auto
  also have "decode_rows rp (map (wire_row rp) rows) (decoded + length (env_sealed r)) (Some (env_id r)) =
      Inr (map client_row rows, if rows = [] then Some (env_id r) else Some (env_id (last rows)))"
    using Cons.prems by (intro Cons.IH) auto
  finally show ?case by simp
qed simp

lemma rendered_page_fits:
  assumes laws: "base64_laws rp" and carries: "json_carries render parse"
    and fits: "response_fits (get_envelopes_response_of rp rows c)"
    and rows: "length rows \<le> 256" "page_bytes rows \<le> MAX_FETCH_PAGE_SEALED_BYTES"
  shows "length (render (get_envelopes_response_of rp rows c)) \<le> RELAY_MAX_RESPONSE_BODY_BYTES"
proof -
  have row: "3 * (256 + length (b64_enc rp (env_sealed r))) \<le> 770 + 4 * length (env_sealed r)" for r
    using laws by (auto simp: base64_laws_def)
  have "3 * sum_list (map (\<lambda>r. 256 + length (b64_enc rp (env_sealed r))) rows) \<le> 770 * length rows + 4 * page_bytes rows"
  proof (induction rows)
    case (Cons r rows)
    then show ?case using row [of r] by simp
  qed simp
  also have "\<dots> \<le> 770 * 256 + 4 * MAX_FETCH_PAGE_SEALED_BYTES"
    using rows by (intro add_mono mult_le_mono2) auto
  finally have "sum_list (map (\<lambda>r. 256 + length (b64_enc rp (env_sealed r))) rows) + 64 \<le> RELAY_MAX_RESPONSE_BODY_BYTES"
    by (simp add: relay_limits relay_wire_bounds)
  moreover have "length (render (get_envelopes_response_of rp rows c)) \<le>
      64 + sum_list (map (\<lambda>r. 256 + length (b64_enc rp (env_sealed r))) rows)"
    using carries fits
    by (auto simp: json_carries_def get_envelopes_response_of_def envelope_response_of_def comp_def
        dest!: spec [of _ "get_envelopes_response_of rp rows c"])
  ultimately show ?thesis by linarith
qed

text \<open>
  The relay and the phone agree on the fetch page, whatever is in the mailbox. From every
  reachable store the daemon answers a fetch of at most 256 rows with a page that stays below the
  phone's 12 MiB response cap after base64url and JSON, and the phone's decoder accepts that page and
  recovers every row with its id, message id, hop budget, hint, payload and expiry, and the cursor.
  So no mailbox can wedge a phone that asks within its own limit. Assumed are base64url and, for
  answers whose texts are base64url, that JSON reads back and adds at most 256 bytes to a row.
\<close>

theorem served_page_decodes:
  assumes st: "st = foldl relay_step relay_store_open ops" "list_all op_times_ok ops"
    and laws: "base64_laws rp" "json_carries render parse"
    and hints: "hints \<noteq> []" "length hints \<le> MAX_FETCH_HINTS" and after: "after \<ge> 0"
    and after_ok: "after \<le> i64_max" and limit: "0 < limit" "limit \<le> 256"
  shows "\<exists>page next. get_envelopes st access hints (Some after) (Some limit) now = Inr (page, next) \<and>
    relay_decode_fetch_page rp parse (render (get_envelopes_response_of rp page next)) =
      Inr \<lparr>fp_envelopes = map client_row page, fp_next_cursor = next\<rparr>"
proof -
  have inv: "mailbox_inv st" and sized: "rows_sized st"
    unfolding st(1) using rows_sized_run [OF st(2)] by (auto intro: relay_run.reachable_inv)
  from mailbox_page [OF inv hints after limit(1), of access now]
  obtain n page nxt where get: "get_envelopes st access hints (Some after) (Some limit) now = Inr (page, nxt)"
    and page: "page = take n (pending st (fa_token access) hints now after)"
    and sorted: "sorted_wrt (<) (map env_id page)" and len: "length page \<le> min limit MAX_FETCH_LIMIT"
    and budget: "length page \<le> 1 \<or> page_bytes page \<le> MAX_FETCH_PAGE_SEALED_BYTES"
    and nxt: "nxt = (if page = [] then after else env_id (last page))"
    by blast
  have row: "0 \<le> env_id r \<and> env_id r \<le> i64_max \<and> envelope_sized (env_msg_id r) (env_hint r) (env_sealed r) \<and>
      i64_ok (env_expiry_ms r) \<and> i64_ok (env_created_at_ms r)" if "r \<in> set page" for r
  proof -
    from that have "r \<in> set (envelopes st)" using set_take_subset unfolding page pending_def by fastforce
    then show ?thesis using inv sized by (fastforce simp: mailbox_inv_def rows_sized_def)
  qed
  have bytes: "page_bytes page \<le> MAX_FETCH_PAGE_SEALED_BYTES"
  proof (cases "length page \<le> 1")
    case True
    then show ?thesis using row by (cases page) (auto simp: envelope_sized_def relay_wire_bounds relay_limits)
  qed (use budget in auto)
  have range: "0 \<le> nxt \<and> nxt \<le> i64_max" using nxt after after_ok row [OF last_in_set] by auto
  then have fits: "response_fits (get_envelopes_response_of rp page nxt)"
    using row len laws(1)
    by (force simp: response_fits_def get_envelopes_response_of_def envelope_response_of_def list_all_iff i64_ok_def
        i64_min_def base64_laws_def envelope_sized_def relay_wire_bounds relay_limits)
  have cap: "length (render (get_envelopes_response_of rp page nxt)) \<le> RELAY_MAX_RESPONSE_BODY_BYTES"
    using len limit bytes by (intro rendered_page_fits [OF laws fits]) auto
  have wire: "json_decode parse (render (get_envelopes_response_of rp page nxt)) =
      Inr \<lparr>fr_envelopes = map (wire_row rp) page, fr_next_cursor = nxt\<rparr>"
    using laws(2) fits
    by (simp add: json_decode_def json_carries_def client_view_def get_envelopes_response_of_def
        envelope_response_of_def wire_row_def comp_def)
  have rows: "decode_rows rp (map (wire_row rp) page) 0 None =
      Inr (map client_row page, if page = [] then None else Some (env_id (last page)))"
    using sorted row bytes by (intro decode_wire_rows [OF laws(1)]) (auto simp: relay_wire_bounds relay_limits)
  have "relay_decode_fetch_page rp parse (render (get_envelopes_response_of rp page nxt)) =
      Inr \<lparr>fp_envelopes = map client_row page, fp_next_cursor = nxt\<rparr>"
    using cap wire rows len limit nxt range
    by (simp add: relay_decode_fetch_page_def validate_response_body_def relay_wire_bounds)
  with get show ?thesis by blast
qed

section \<open>The two halves of a rotation\<close>

lemma string_bytes_ascii: "string_bytes s = ascii s"
  by (simp add: string_bytes_def ascii_def of_char_def)

lemma rotation_bytes_agree:
  assumes "length cur \<le> 65535" "length repl \<le> 65535"
  shows "family_rotation_signing_bytes (string_bytes cur) (string_bytes repl) = rotation_signed_bytes cur repl"
  using assms
  by (simp add: family_rotation_signing_bytes_def rotation_signed_bytes_def FAMILY_ROTATION_SIGN_DOMAIN_def
      ROTATION_SIGNING_DOMAIN_def string_bytes_ascii ascii_def)

text \<open>
  A rotation the owner's phone signs is one the relay honours: the request carries the
  replacement token, and its key and signature pass the relay's check over the tokens the relay
  itself resolved, registering the key on a family that has none and matching the key a family has
  pinned. A family that pinned another key refuses it.
\<close>

theorem rotation_request_honoured:
  assumes crypto: "signatures_verify (prim_crypto rp)" and b64: "base64_laws rp"
    and verify: "verify = ed_verify (prim_crypto rp)"
    and sk: "length sk = 32" and len: "length cur \<le> 1024" "length repl \<le> 1024"
    and tok: "trim (string_bytes repl) = string_bytes repl" "string_bytes repl \<noteq> []" "trim (string_bytes cur) \<noteq> []"
      "\<not> relay_token_is_deposit (string_bytes repl)"
  shows "\<exists>pk sig. relay_encode_rotate_request rp render (string_bytes cur) (string_bytes repl) sk =
      json_encode render \<lparr>rq_new_token = string_bytes repl, rq_rotation_pk = b64_enc rp pk, rq_rotation_sig = b64_enc rp sig\<rparr> \<and>
    length pk = 32 \<and> length sig = 64 \<and>
    check_rotation_authority verify stored (rotation_signed_bytes cur repl) \<lparr>ra_public_key = pk, ra_signature = sig\<rparr> =
      (case stored of None \<Rightarrow> CheckRegister | Some k \<Rightarrow> if k = pk then CheckAccepted else CheckRefused)"
proof -
  let ?pk = "ed_pk (prim_crypto rp) sk"
  let ?sig = "ed_sign (prim_crypto rp) sk (rotation_signed_bytes cur repl)"
  have bytes: "family_rotation_signing_bytes (string_bytes cur) (string_bytes repl) = rotation_signed_bytes cur repl"
    using len by (intro rotation_bytes_agree) auto
  have key: "signing_key_from_bytes sk = Inr sk"
    using sk by (simp add: signing_key_from_bytes_def)
  have v: "verify ?pk (rotation_signed_bytes cur repl) ?sig" "length ?pk = 32" "length ?sig = 64"
    using crypto sk verify by (auto simp: signatures_verify_def)
  have "relay_encode_rotate_request rp render (string_bytes cur) (string_bytes repl) sk =
      json_encode render \<lparr>rq_new_token = string_bytes repl, rq_rotation_pk = b64_enc rp ?pk, rq_rotation_sig = b64_enc rp ?sig\<rparr>"
    using tok by (simp add: relay_encode_rotate_request_def key bytes Let_def)
  with v show ?thesis
    by (intro exI [of _ ?pk] exI [of _ ?sig]) (auto simp: check_rotation_authority_def split: option.splits)
qed

section \<open>Witnesses\<close>

text \<open>Unpadded base64url, and a JSON stand-in made of the binary codecs.\<close>

definition b64_char :: "nat \<Rightarrow> u8" where
  "b64_char v = word_of_nat (if v < 26 then v + 65 else if v < 52 then v + 71 else if v < 62 then v - 4 else if v = 62 then 45 else 95)"

definition b64_value :: "u8 \<Rightarrow> nat" where
  "b64_value b = (let c = unat b in
     if c = 45 then 62 else if c = 95 then 63 else if c < 58 then c + 4 else if c < 91 then c - 65 else c - 71)"

definition three :: "nat \<Rightarrow> bytes" where
  "three n = [b64_char (n div 64 div 64), b64_char (n div 64 mod 64), b64_char (n mod 64)]"

fun base64url :: "bytes \<Rightarrow> utf8" where
  "base64url (a # b # c # r) =
     (let n = (unat a * 256 + unat b) * 256 + unat c in b64_char (n div 64 div 64 div 64) # b64_char (n div 64 div 64 mod 64) #
        b64_char (n div 64 mod 64) # b64_char (n mod 64) # base64url r)"
| "base64url [a, b] = three ((unat a * 256 + unat b) * 4)"
| "base64url [a] = tl (three (unat a * 16))"
| "base64url [] = []"

fun base64url_read :: "utf8 \<Rightarrow> bytes" where
  "base64url_read (a # b # c # d # r) =
     (let n = ((b64_value a * 64 + b64_value b) * 64 + b64_value c) * 64 + b64_value d in
      word_of_nat (n div 256 div 256) # word_of_nat (n div 256 mod 256) # word_of_nat (n mod 256) # base64url_read r)"
| "base64url_read [a, b, c] =
     (let n = ((b64_value a * 64 + b64_value b) * 64 + b64_value c) div 4 in [word_of_nat (n div 256), word_of_nat (n mod 256)])"
| "base64url_read [a, b] = [word_of_nat ((b64_value a * 64 + b64_value b) div 16)]"
| "base64url_read _ = []"

lemma b64_char_back [simp]: "v < 64 \<Longrightarrow> b64_value (b64_char v) = v"
  by (auto simp: b64_char_def b64_value_def Let_def unat_of_nat)

lemma b64_char_text: "v < 64 \<Longrightarrow> is_ascii_alphanumeric [b64_char v] \<or> b64_char v = 45 \<or> b64_char v = 95"
  by (auto simp: b64_char_def is_ascii_alphanumeric_def byte_in_def unat_of_nat)

lemma byte_bound: "unat (b :: u8) < 256"
  using unat_lt_pow [of b] by simp

lemma next_byte: "(c :: nat) < 256 \<Longrightarrow> (x * 256 + c) div 256 = x" "c < 256 \<Longrightarrow> (x * 256 + c) mod 256 = c"
  by simp_all

lemma base64url_back: "base64url_read (base64url bs) = bs"
proof (induction bs rule: base64url.induct)
  case (1 a b c r)
  define n where "n = (unat a * 256 + unat b) * 256 + unat c"
  have n: "n div 64 div 64 div 64 < 64" using byte_bound [of a] byte_bound [of b] byte_bound [of c] by (simp add: n_def)
  have "((n div 64 div 64 div 64 * 64 + n div 64 div 64 mod 64) * 64 + n div 64 mod 64) * 64 + n mod 64 = n" by simp
  moreover have "n div 256 div 256 = unat a" "n div 256 mod 256 = unat b" "n mod 256 = unat c"
    unfolding n_def by (simp_all only: next_byte byte_bound)
  ultimately show ?case using 1 [OF n_def] n unfolding base64url.simps Let_def n_def [symmetric] by (simp add: Let_def)
next
  case (2 a b)
  define n where "n = (unat a * 256 + unat b) * 4"
  have "n div 64 div 64 < 64" using byte_bound [of a] byte_bound [of b] by (simp add: n_def)
  moreover have "(n div 64 div 64 * 64 + n div 64 mod 64) * 64 + n mod 64 = n" by simp
  moreover have "n div 4 div 256 = unat a" "n div 4 mod 256 = unat b" using byte_bound [of b] by (simp_all add: n_def)
  ultimately show ?case unfolding base64url.simps n_def [symmetric] three_def by (simp add: Let_def)
next
  case (3 a)
  define n where "n = unat a * 16"
  have "n div 64 < 64" using byte_bound [of a] by (simp add: n_def)
  moreover have "n div 64 * 64 + n mod 64 = n" by (rule div_mult_mod_eq)
  moreover have "n div 16 = unat a" by (simp add: n_def)
  ultimately show ?case unfolding base64url.simps n_def [symmetric] three_def by simp
qed simp

lemma base64url_length: "length (base64url bs) = (length bs * 4 + 2) div 3"
  by (induction bs rule: base64url.induct) (simp_all add: three_def Let_def)

lemma base64url_alphabet: "base64url_text (base64url bs)"
proof (induction bs rule: base64url.induct)
  case (1 a b c r)
  define n where "n = (unat a * 256 + unat b) * 256 + unat c"
  have "n div 64 div 64 div 64 < 64" using byte_bound [of a] byte_bound [of b] byte_bound [of c] by (simp add: n_def)
  with 1 [OF n_def] show ?case
    unfolding base64url.simps Let_def n_def [symmetric] by (simp add: base64url_text_def b64_char_text)
next
  case (2 a b)
  have "(unat a * 256 + unat b) * 4 div 64 div 64 < 64" using byte_bound [of a] byte_bound [of b] by simp
  then show ?case by (simp add: three_def base64url_text_def b64_char_text)
qed (simp_all add: three_def base64url_text_def b64_char_text)

definition demo_prims :: relay_prims where
  "demo_prims = \<lparr>prim_crypto = sample_crypto, b64_enc = base64url, b64_dec = \<lambda>s. Some (base64url_read s)\<rparr>"

lemma demo_base64: "base64_laws demo_prims"
  by (simp add: base64_laws_def demo_prims_def base64url_back base64url_length base64url_alphabet)

definition demo_short :: "nat \<Rightarrow> nat \<Rightarrow> core_error" where
  "demo_short n pos = Malformed ''short''"

definition put_row :: "envelope_response \<Rightarrow> bytes" where
  "put_row e = i64_bytes (er_id e) @ wire_bytes (er_msg_id e) @ [er_hop_ttl e] @ wire_bytes (er_recipient_hint e) @
     wire_bytes32 (er_sealed e) @ i64_bytes (er_expiry_ms e) @ i64_bytes (er_created_at_ms e)"

definition get_row :: "cursor \<Rightarrow> (envelope_response \<times> cursor) result" where
  "get_row c =
     and_then (cursor_i64 demo_short c) (\<lambda>(i, c). and_then (cursor_bytes demo_short c) (\<lambda>(m, c).
     and_then (cursor_u8 demo_short c) (\<lambda>(t, c). and_then (cursor_bytes demo_short c) (\<lambda>(h, c).
     and_then (cursor_bytes32 demo_short c) (\<lambda>(s, c). and_then (cursor_i64 demo_short c) (\<lambda>(x, c).
     and_then (cursor_i64 demo_short c) (\<lambda>(y, c).
       Inr (\<lparr>er_id = i, er_msg_id = m, er_hop_ttl = t, er_recipient_hint = h, er_sealed = s, er_expiry_ms = x,
         er_created_at_ms = y\<rparr>, c))))))))"

definition row_fits :: "envelope_response \<Rightarrow> bool" where
  "row_fits e \<longleftrightarrow> i64_ok (er_id e) \<and> length (er_msg_id e) \<le> 65535 \<and> length (er_recipient_hint e) \<le> 65535 \<and>
     length (er_sealed e) \<le> 4294967295 \<and> i64_ok (er_expiry_ms e) \<and> i64_ok (er_created_at_ms e)"

interpretation row_codec: cursor_codec put_row get_row row_fits
proof unfold_locales
  fix x pre r
  assume "row_fits x"
  then show "get_row (cur_at pre (put_row x @ r)) = Inr (x, cur_at (pre @ put_row x) r)"
    by (simp add: get_row_def put_row_def row_fits_def codec_simps)
next
  fix pre bs x d
  assume "get_row (cur_at pre bs) = Inr (x, d)"
  then show "row_fits x \<and> (\<exists>r. bs = put_row x @ r \<and> d = cur_at (pre @ put_row x) r)"
    by (auto simp: get_row_def put_row_def row_fits_def and_then_Inr dest!: wire_sound)
qed

definition demo_render :: "get_envelopes_response \<Rightarrow> bytes" where
  "demo_render resp = i64_bytes (ger_next_cursor resp) @ u16_bytes (word_of_nat (length (ger_envelopes resp))) @
     concat (map put_row (ger_envelopes resp))"

definition demo_parse :: "fetch_response json_parser" where
  "demo_parse body =
     (case and_then (cursor_i64 demo_short (cursor_new body)) (\<lambda>(n, c). and_then (cursor_u16 demo_short c) (\<lambda>(k, c).
        and_then (read_many get_row (unat k) c) (\<lambda>(rows, c). Inr \<lparr>ger_envelopes = rows, ger_next_cursor = n\<rparr>))) of
        Inl _ \<Rightarrow> Inl \<lparr>je_category = JsonSyntax, je_line = 1, je_column = 1\<rparr>
      | Inr resp \<Rightarrow> Inr (client_view resp))"

lemma length_put_row:
  "length (put_row e) = 33 + length (er_msg_id e) + length (er_recipient_hint e) + length (er_sealed e)"
  by (simp add: put_row_def i64_bytes_def wire_bytes_def wire_bytes32_def)

lemma demo_json: "json_carries demo_render demo_parse"
  unfolding json_carries_def
proof (intro allI impI)
  fix resp
  assume fits: "response_fits resp"
  let ?rows = "ger_envelopes resp"
  have rows: "list_all row_fits ?rows"
    using fits by (auto simp: response_fits_def row_fits_def list_all_iff)
  have "unat (word_of_nat (length ?rows) :: u16) = length ?rows"
    using fits by (simp add: response_fits_def unat_of_nat)
  then have "demo_parse (demo_render resp) = Inr (client_view resp)"
    using row_codec.many_put_all [OF rows] fits
    by (simp add: demo_parse_def demo_render_def cursor_new_at codec_simps response_fits_def client_view_def)
  moreover have "sum_list (map (\<lambda>e. length (put_row e)) ?rows) \<le> sum_list (map (\<lambda>e. 256 + length (er_sealed e)) ?rows)"
    using fits by (intro sum_list_mono) (auto simp: response_fits_def list_all_iff length_put_row)
  then have "length (demo_render resp) \<le> 64 + sum_list (map (\<lambda>e. 256 + length (er_sealed e)) ?rows)"
    by (simp add: demo_render_def length_concat comp_def i64_bytes_def)
  ultimately show "demo_parse (demo_render resp) = Inr (client_view resp) \<and>
      length (demo_render resp) \<le> 64 + sum_list (map (\<lambda>e. 256 + length (er_sealed e)) ?rows)" by blast
qed

theorem served_page_decodes_witness:
  "\<exists>page next. get_envelopes (foldl relay_step relay_store_open demo_posts) demo_access [demo_hint] (Some 0) (Some 10) 1003 =
      Inr (page, next) \<and>
    relay_decode_fetch_page demo_prims demo_parse (demo_render (get_envelopes_response_of demo_prims page next)) =
      Inr \<lparr>fp_envelopes = map client_row page, fp_next_cursor = next\<rparr>"
  by (rule served_page_decodes [OF refl _ demo_base64 demo_json])
    (simp_all add: demo_posts_def op_times_ok_def i64_ok_def i64_bound_defs relay_limits)

theorem decoded_page_well_formed_witness:
  "\<exists>page. relay_decode_fetch_page demo_prims demo_parse (demo_render \<lparr>ger_envelopes = [], ger_next_cursor = 7\<rparr>) = Inr page \<and>
     0 \<le> fp_next_cursor page"
proof -
  have fits: "response_fits \<lparr>ger_envelopes = [], ger_next_cursor = 7\<rparr>"
    by (simp add: response_fits_def i64_ok_def i64_bound_defs)
  have "length (demo_render \<lparr>ger_envelopes = [], ger_next_cursor = 7\<rparr>) = 10"
    by (simp add: demo_render_def i64_bytes_def)
  then have page: "relay_decode_fetch_page demo_prims demo_parse (demo_render \<lparr>ger_envelopes = [], ger_next_cursor = 7\<rparr>) =
      Inr \<lparr>fp_envelopes = [], fp_next_cursor = 7\<rparr>"
    using demo_json fits
    by (simp add: relay_decode_fetch_page_def validate_response_body_def relay_wire_bounds json_decode_def
        json_carries_def client_view_def)
  from decoded_page_well_formed [OF page] page show ?thesis by auto
qed

theorem rotation_request_honoured_witness:
  "\<exists>pk sig. relay_encode_rotate_request demo_prims (\<lambda>q. Inr (rq_new_token q)) (string_bytes ''old'') (string_bytes ''new'') (replicate 32 5) =
      json_encode (\<lambda>q. Inr (rq_new_token q)) \<lparr>rq_new_token = string_bytes ''new'', rq_rotation_pk = base64url pk, rq_rotation_sig = base64url sig\<rparr> \<and>
    check_rotation_authority (ed_verify sample_crypto) None (rotation_signed_bytes ''old'' ''new'')
      \<lparr>ra_public_key = pk, ra_signature = sig\<rparr> = CheckRegister"
proof -
  have tok: "trim (string_bytes ''new'') = string_bytes ''new''" "string_bytes ''new'' \<noteq> []" "trim (string_bytes ''old'') \<noteq> []"
    "\<not> relay_token_is_deposit (string_bytes ''new'')"
    by (simp_all add: string_bytes_def text_eval relay_token_is_deposit_def RELAY_DEPOSIT_TOKEN_PREFIX_def)
  have "signatures_verify (prim_crypto demo_prims)" "ed_verify sample_crypto = ed_verify (prim_crypto demo_prims)"
    "length (replicate 32 (5 :: u8)) = 32" "length ''old'' \<le> 1024" "length ''new'' \<le> 1024"
    by (simp_all add: demo_prims_def)
  from rotation_request_honoured [OF this(1) demo_base64 this(2,3,4,5) tok, of "\<lambda>q. Inr (rq_new_token q)" None]
  show ?thesis by (auto simp: demo_prims_def)
qed

end
