(* ===== verification/Timeline.thy ===== *)
theory Timeline
  imports Mesh_Prelude
begin

text \<open>
  Conversation order and its annotations: the causal floor on the display time stamp of an
  authored message, \<open>core/src/causal_order.rs\<close>, and the backward pass that marks messages whose
  late arrival displaced them, \<open>core/src/late_arrival.rs\<close>.
  The lemmas show that a reply sorts after everything it answers whenever the clocks are within
  the accepted skew and never leaves a bounded window around the own clock, and that the one-pass
  computation of the marks agrees with their declarative meaning.
\<close>

section \<open>The causal floor\<close>

definition CAUSAL_ORDER_MAX_SKEW_MS :: i64 where
  "CAUSAL_ORDER_MAX_SKEW_MS = 24 * 60 * 60 * 1000"

definition causal_display_timestamp :: "i64 option \<Rightarrow> i64 \<Rightarrow> i64" where
  "causal_display_timestamp newest_in_chat_ms now_ms =
     (case newest_in_chat_ms of
        None \<Rightarrow> now_ms
      | Some newest \<Rightarrow>
          if newest < now_ms then now_ms
          else if i64_sub newest now_ms > CAUSAL_ORDER_MAX_SKEW_MS then now_ms
          else i64_add newest 1)"

text \<open>The newest time stamp of a chat, as the store reports it to the authoring path.\<close>

definition newest_in :: "i64 list \<Rightarrow> i64 option" where
  "newest_in chat = (if chat = [] then None else Some (Max (set chat)))"

text \<open>
  Causal order: a reply authored in a chat carries a stamp at or after the own clock
  and at most one accepted skew plus one millisecond ahead of it; and whenever nothing in the chat
  is further ahead of the clock than the accepted skew, the reply sorts strictly after every
  message it can answer, at the bound of the integer range excepted.
\<close>
theorem causal_reply_order:
  assumes "i64_ok now" "list_all i64_ok chat"
  shows "now \<le> causal_display_timestamp (newest_in chat) now \<and>
    causal_display_timestamp (newest_in chat) now \<le> now + CAUSAL_ORDER_MAX_SKEW_MS + 1 \<and>
    ((\<forall>t \<in> set chat. t \<le> now + CAUSAL_ORDER_MAX_SKEW_MS \<and> t < i64_max) \<longrightarrow>
     (\<forall>t \<in> set chat. t < causal_display_timestamp (newest_in chat) now))"
proof (cases "chat = []")
  case True
  then show ?thesis
    by (simp add: newest_in_def causal_display_timestamp_def CAUSAL_ORDER_MAX_SKEW_MS_def)
next
  case False
  define m where "m = Max (set chat)"
  from False have mem: "m \<in> set chat" and le: "\<And>t. t \<in> set chat \<Longrightarrow> t \<le> m"
    and newest: "newest_in chat = Some m" by (simp_all add: m_def newest_in_def)
  have ok: "i64_ok m" using mem assms(2) by (simp add: list_all_iff)
  have sub: "i64_sub m now > CAUSAL_ORDER_MAX_SKEW_MS \<longleftrightarrow> m - now > CAUSAL_ORDER_MAX_SKEW_MS"
    by (auto simp: i64_defs CAUSAL_ORDER_MAX_SKEW_MS_def)
  have add: "i64_add m 1 = (if m = i64_max then i64_max else m + 1)"
    using ok by (auto simp: i64_defs i64_ok_def)
  have val: "causal_display_timestamp (newest_in chat) now =
      (if m < now \<or> m - now > CAUSAL_ORDER_MAX_SKEW_MS then now
       else if m = i64_max then i64_max else m + 1)"
    by (simp add: newest causal_display_timestamp_def sub add)
  show ?thesis
    unfolding val
  proof (intro conjI impI ballI)
    fix t assume *: "\<forall>t \<in> set chat. t \<le> now + CAUSAL_ORDER_MAX_SKEW_MS \<and> t < i64_max" and "t \<in> set chat"
    with le have "t \<le> m" by blast
    moreover from * mem have "m \<le> now + CAUSAL_ORDER_MAX_SKEW_MS" "m < i64_max" by blast+
    ultimately show "t < (if m < now \<or> m - now > CAUSAL_ORDER_MAX_SKEW_MS then now
        else if m = i64_max then i64_max else m + 1)"
      by simp
  qed (use ok assms(1) in \<open>auto simp: i64_ok_def CAUSAL_ORDER_MAX_SKEW_MS_def\<close>)
qed

theorem causal_reply_order_witness:
  "causal_display_timestamp (newest_in [100, 300000]) 10000 = 300001 \<and>
   100 < causal_display_timestamp (newest_in [100, 300000]) 10000 \<and>
   300000 < causal_display_timestamp (newest_in [100, 300000]) 10000"
proof -
  have "i64_ok 10000" "list_all i64_ok [100, 300000]" by (simp_all add: i64_ok_def i64_bound_defs)
  from causal_reply_order [OF this]
  show ?thesis
    by (simp add: causal_display_timestamp_def newest_in_def CAUSAL_ORDER_MAX_SKEW_MS_def i64_defs)
qed

section \<open>Late-arrival marks\<close>

definition LATE_ARRIVAL_MIN_DELAY_MS :: i64 where
  "LATE_ARRIVAL_MIN_DELAY_MS = 10 * 60 * 1000"

record late_arrival_input =
  display_ts_ms :: i64
  arrival_ts_ms :: "i64 option"
  is_own :: bool

definition effective_arrival :: "late_arrival_input \<Rightarrow> i64" where
  "effective_arrival row =
     (case arrival_ts_ms row of Some a \<Rightarrow> a | None \<Rightarrow> display_ts_ms row)"

text \<open>
  The backward loop over the rows: the flags of a suffix together with \<open>min_below\<close>, the minimum
  effective arrival over it.
\<close>

fun late_arrival_pass :: "late_arrival_input list \<Rightarrow> bool list \<times> i64 option" where
  "late_arrival_pass [] = ([], None)"
| "late_arrival_pass (row # rows) =
     (let (flags, min_below) = late_arrival_pass rows;
          flag = (case (is_own row, arrival_ts_ms row, min_below) of
                    (False, Some arrival, Some below) \<Rightarrow>
                      i64_sub arrival (display_ts_ms row) \<ge> LATE_ARRIVAL_MIN_DELAY_MS \<and> arrival > below
                  | _ \<Rightarrow> False);
          effective = effective_arrival row
      in (flag # flags,
          Some (case min_below of None \<Rightarrow> effective | Some current \<Rightarrow> min current effective)))"

definition late_arrival_flags :: "late_arrival_input list \<Rightarrow> bool list" where
  "late_arrival_flags rows = fst (late_arrival_pass rows)"

text \<open>The documented meaning of a mark: late by the threshold, and displaced by a row below it.\<close>

definition shows_arrival :: "late_arrival_input list \<Rightarrow> nat \<Rightarrow> bool" where
  "shows_arrival rows i \<longleftrightarrow>
     \<not> is_own (rows ! i) \<and>
     (\<exists>a. arrival_ts_ms (rows ! i) = Some a \<and>
          a - display_ts_ms (rows ! i) \<ge> LATE_ARRIVAL_MIN_DELAY_MS \<and>
          (\<exists>j. i < j \<and> j < length rows \<and> effective_arrival (rows ! j) < a))"

lemma late_arrival_pass_min:
  "snd (late_arrival_pass rows) =
     (if rows = [] then None else Some (Min (effective_arrival ` set rows)))"
proof (induction rows)
  case (Cons row rows)
  then show ?case
    by (auto simp: split_def Let_def min.commute split: option.splits)
qed simp

lemma late_delay_iff:
  "i64_sub a b \<ge> LATE_ARRIVAL_MIN_DELAY_MS \<longleftrightarrow> a - b \<ge> LATE_ARRIVAL_MIN_DELAY_MS"
  by (rule i64_sub_ge_iff) (simp_all add: LATE_ARRIVAL_MIN_DELAY_MS_def i64_ok_def i64_bound_defs)

lemma displaced_iff:
  "(\<exists>j. i < j \<and> j < length (row # rows) \<and> P ((row # rows) ! j)) \<longleftrightarrow>
   (\<exists>j. i \<le> j \<and> j < length rows \<and> P (rows ! j))"
  by (metis (no_types, opaque_lifting) Suc_le_eq Suc_le_mono length_Cons less_Suc_eq_le
      less_nat_zero_code not_less_eq nth_Cons_Suc old.nat.exhaust)

lemma shows_arrival_Suc: "shows_arrival (row # rows) (Suc i) = shows_arrival rows i"
proof -
  have "(\<exists>j. Suc i < j \<and> j < length (row # rows) \<and> effective_arrival ((row # rows) ! j) < a) \<longleftrightarrow>
        (\<exists>j. i < j \<and> j < length rows \<and> effective_arrival (rows ! j) < a)" for a
    using displaced_iff [of "Suc i" row rows "\<lambda>r. effective_arrival r < a"] by (simp only: Suc_le_eq)
  then show ?thesis by (simp only: shows_arrival_def nth_Cons_Suc)
qed

lemma late_arrival_pass_head:
  "hd (fst (late_arrival_pass (row # rows))) = shows_arrival (row # rows) 0"
proof -
  have below: "(\<exists>j. 0 < j \<and> j < length (row # rows) \<and> effective_arrival ((row # rows) ! j) < a) \<longleftrightarrow>
        (\<exists>r \<in> set rows. effective_arrival r < a)" for a
    using displaced_iff [of 0 row rows "\<lambda>r. effective_arrival r < a"]
    by (simp only: le0 simp_thms) (auto simp: set_conv_nth)
  have least: "(\<exists>r \<in> set rows. effective_arrival r < a) \<longleftrightarrow>
      rows \<noteq> [] \<and> Min (effective_arrival ` set rows) < a" for a
    by (cases "rows = []") (simp_all add: Min_less_iff)
  obtain flags mb where p: "late_arrival_pass rows = (flags, mb)" by fastforce
  have mb: "mb = (if rows = [] then None else Some (Min (effective_arrival ` set rows)))"
    using late_arrival_pass_min [of rows] p by simp
  show ?thesis
    unfolding shows_arrival_def below least nth_Cons_0
    by (cases "is_own row"; cases "arrival_ts_ms row"; cases "rows = []")
      (simp_all add: p mb late_delay_iff)
qed

text \<open>
  The single backward pass computes the documented marks: one flag per row, set exactly
  when the row is someone else's, arrived at least the threshold after it was sent, and some row
  displayed below it was already held when it landed.
\<close>
theorem late_arrival_flags_correct:
  "late_arrival_flags rows = map (shows_arrival rows) [0..<length rows]"
proof (induction rows)
  case (Cons row rows)
  have "late_arrival_flags (row # rows) = hd (fst (late_arrival_pass (row # rows))) # late_arrival_flags rows"
    by (simp add: late_arrival_flags_def split_def Let_def)
  also have "\<dots> = shows_arrival (row # rows) 0 # map (shows_arrival rows) [0..<length rows]"
    using Cons late_arrival_pass_head by simp
  also have "\<dots> = map (shows_arrival (row # rows)) [0..<length (row # rows)]"
    by (simp add: upt_conv_Cons map_Suc_upt [symmetric] shows_arrival_Suc comp_def del: upt_Suc)
  finally show ?case .
qed (simp add: late_arrival_flags_def)

end
