(* ===== verification/Link_Frames.thy ===== *)
theory Link_Frames
  imports Wire_Kinds Ble_Framing Device_Roster Utf8_Text
begin

text \<open>
  The link frames of \<open>core/src/protocol.rs\<close>: what a phone writes on a BLE or LAN link and what it
  accepts from one, with the rule that decides which hosts may be advertised, and the ids an
  envelope header carries. The lemmas show that every frame a phone can send is parsed back, that a
  parsed frame is well formed, and what a LAN hint may point at.
\<close>

section \<open>Constants\<close>

definition FRAME_TYPE_HELLO :: u8 where "FRAME_TYPE_HELLO = 0x01"
definition FRAME_TYPE_ENVELOPE :: u8 where "FRAME_TYPE_ENVELOPE = 0x02"
definition FRAME_TYPE_DIGEST :: u8 where "FRAME_TYPE_DIGEST = 0x03"
definition FRAME_TYPE_LAN_ENDPOINT :: u8 where "FRAME_TYPE_LAN_ENDPOINT = 0x04"
definition FRAME_TYPE_TRANSPORT_PROBE :: u8 where "FRAME_TYPE_TRANSPORT_PROBE = 0x05"
definition FRAME_TYPE_HELLO2 :: u8 where "FRAME_TYPE_HELLO2 = 0x06"
definition FRAME_TYPE_OWN_ROSTER :: u8 where "FRAME_TYPE_OWN_ROSTER = 0x07"

definition HELLO2_USER_ID_LEN :: nat where "HELLO2_USER_ID_LEN = 16"
definition FRAME_MSG_ID_LEN :: nat where "FRAME_MSG_ID_LEN = 16"
definition FRAME_HINT_LEN :: nat where "FRAME_HINT_LEN = 8"
definition LAN_INSTANCE_TOKEN_LEN :: nat where "LAN_INSTANCE_TOKEN_LEN = 8"
definition LAN_ENDPOINT_VERSION :: u8 where "LAN_ENDPOINT_VERSION = 1"
definition TRANSPORT_PROBE_VERSION :: u8 where "TRANSPORT_PROBE_VERSION = 1"
definition MAX_LAN_HOST_BYTES :: nat where "MAX_LAN_HOST_BYTES = 255"
definition MAX_LAN_HOST_ZONE_BYTES :: nat where "MAX_LAN_HOST_ZONE_BYTES = 32"
definition DEFAULT_HOP_TTL :: u8 where "DEFAULT_HOP_TTL = 7"
definition DEFAULT_EXPIRY_MS :: i64 where "DEFAULT_EXPIRY_MS = 7 * 24 * 60 * 60 * 1000"

lemmas frame_types = FRAME_TYPE_HELLO_def FRAME_TYPE_ENVELOPE_def FRAME_TYPE_DIGEST_def
  FRAME_TYPE_LAN_ENDPOINT_def FRAME_TYPE_TRANSPORT_PROBE_def FRAME_TYPE_HELLO2_def FRAME_TYPE_OWN_ROSTER_def

lemmas frame_consts = HELLO2_USER_ID_LEN_def FRAME_MSG_ID_LEN_def FRAME_HINT_LEN_def LAN_INSTANCE_TOKEN_LEN_def
  LAN_ENDPOINT_VERSION_def TRANSPORT_PROBE_VERSION_def MAX_LAN_HOST_BYTES_def MAX_LAN_HOST_ZONE_BYTES_def

section \<open>The cursor\<close>

text \<open>\<open>short_read len\<close> is the error of a cursor over \<open>len\<close> bytes that is asked for more than it has.\<close>

definition short_read :: "nat \<Rightarrow> nat \<Rightarrow> nat \<Rightarrow> core_error" where
  "short_read len n pos =
     Malformed (''truncated: need '' @ show_nat n @ '' more byte(s) at offset '' @ show_nat pos @ '', have '' @
       show_nat (len - pos))"

definition cursor_finish :: "cursor \<Rightarrow> unit result" where
  "cursor_finish c =
     (if cur_pos c \<noteq> length (cur_data c)
      then Inl (Malformed (show_nat (length (cur_data c) - cur_pos c) @ '' unexpected trailing byte(s) after decoding''))
      else Inr ())"

definition cursor_is_finished :: "cursor \<Rightarrow> bool" where
  "cursor_is_finished c \<longleftrightarrow> cur_pos c = length (cur_data c)"

definition take_remaining :: "cursor \<Rightarrow> bytes" where
  "take_remaining c = drop (cur_pos c) (cur_data c)"

section \<open>Local hosts\<close>

definition is_local_ipv4 :: "nat list \<Rightarrow> bool" where
  "is_local_ipv4 o' \<longleftrightarrow>
     o' ! 0 = 10 \<or> o' ! 0 = 172 \<and> 16 \<le> o' ! 1 \<and> o' ! 1 \<le> 31 \<or> o' ! 0 = 192 \<and> o' ! 1 = 168 \<or>
     o' ! 0 = 169 \<and> o' ! 1 = 254 \<or> o' ! 0 = 100 \<and> 64 \<le> o' ! 1 \<and> o' ! 1 \<le> 127"

definition is_ipv6_link_local :: "nat list \<Rightarrow> bool" where
  "is_ipv6_link_local g \<longleftrightarrow> (word_of_nat (g ! 0) :: u16) AND 0xffc0 = 0xfe80"

definition is_local_ipv6 :: "nat list \<Rightarrow> bool" where
  "is_local_ipv6 g \<longleftrightarrow> is_ipv6_link_local g \<or> (word_of_nat (g ! 0) :: u16) AND 0xfe00 = 0xfc00"

definition plausible_zone :: "utf8 \<Rightarrow> bool" where
  "plausible_zone zone \<longleftrightarrow> zone \<noteq> [] \<and> length zone \<le> MAX_LAN_HOST_ZONE_BYTES \<and>
     list_all (\<lambda>c. is_ascii_alphanumeric c \<or> c \<in> {[45], [95], [46]}) (utf8_chars zone)"

definition is_local_lan_host :: "utf8 \<Rightarrow> bool" where
  "is_local_lan_host host =
     (let (literal, zone) = (case split_once [37] host of Some (l, z) \<Rightarrow> (l, Some z) | None \<Rightarrow> (host, None)) in
      if (case zone of Some z \<Rightarrow> \<not> plausible_zone z | None \<Rightarrow> False) then False
      else case parse_ip_addr literal of
             Some (V4 a) \<Rightarrow> zone = None \<and> is_local_ipv4 a
           | Some (V6 g) \<Rightarrow> (zone = None \<or> is_ipv6_link_local g) \<and> is_local_ipv6 g
           | None \<Rightarrow> False)"

definition is_reachable_lan_host :: "utf8 \<Rightarrow> bool" where
  "is_reachable_lan_host host =
     (if \<not> is_local_lan_host host then False
      else case parse_ip_addr (case split_once [37] host of Some (l, _) \<Rightarrow> l | None \<Rightarrow> host) of
             Some (V6 g) \<Rightarrow> \<not> is_ipv6_link_local g
           | Some (V4 _) \<Rightarrow> True
           | None \<Rightarrow> False)"

definition validate_lan_endpoint_fields :: "bytes \<Rightarrow> utf8 \<Rightarrow> u16 \<Rightarrow> unit result" where
  "validate_lan_endpoint_fields instance_token host port =
     (if length instance_token \<noteq> LAN_INSTANCE_TOKEN_LEN
      then Inl (Malformed (''LAN instance token must be '' @ show_nat LAN_INSTANCE_TOKEN_LEN @ '' bytes''))
      else if port = 0 then Inl (Malformed ''LAN endpoint port must be non-zero'')
      else if host = [] \<or> length host > MAX_LAN_HOST_BYTES \<or> list_ex is_whitespace (utf8_chars host)
      then Inl (Malformed ''LAN endpoint host is empty, too long, or contains whitespace'')
      else if \<not> is_local_lan_host host
      then Inl (Malformed ''LAN endpoint host must be a local network address'')
      else Inr ())"

section \<open>Frames and their encoders\<close>

record digest_entry =
  de_sender_user_id :: bytes
  de_through_lamport :: u64

datatype frame =
    Hello bytes
  | Hello2 bytes u32
  | OwnRoster bytes
  | Envelope bytes u8 i64 bytes bytes
  | Digest bytes "digest_entry list" "bytes list"
  | LanEndpoint bytes utf8 u16
  | TransportProbe u64 bool

definition encode_hello :: "bytes \<Rightarrow> bytes" where
  "encode_hello user_id = FRAME_TYPE_HELLO # user_id"

definition u32_le_bytes :: "u32 \<Rightarrow> bytes" where
  "u32_le_bytes w = rev (u32_bytes w)"

definition u32_from_le :: "bytes \<Rightarrow> u32" where
  "u32_from_le bs = word_of_nat (from_be (rev bs))"

definition encode_hello2 :: "bytes \<Rightarrow> u32 \<Rightarrow> bytes result" where
  "encode_hello2 user_id capabilities =
     (if length user_id \<noteq> HELLO2_USER_ID_LEN
      then Inl (Malformed (''HELLO2 user_id must be '' @ show_nat HELLO2_USER_ID_LEN @ '' bytes''))
      else Inr (FRAME_TYPE_HELLO2 # user_id @ u32_le_bytes capabilities))"

definition encode_own_roster :: "bytes \<Rightarrow> bytes result" where
  "encode_own_roster document =
     (if document = [] then Inl (Malformed ''own roster notice carries no document'')
      else if length document + 1 > MAX_P2P_FRAME_BYTES
      then Inl (Malformed (''own roster notice exceeds '' @ show_nat MAX_P2P_FRAME_BYTES @ ''-byte limit''))
      else Inr (FRAME_TYPE_OWN_ROSTER # document))"

definition encode_envelope_frame :: "bytes \<Rightarrow> u8 \<Rightarrow> i64 \<Rightarrow> bytes \<Rightarrow> bytes \<Rightarrow> bytes" where
  "encode_envelope_frame msg_id hop_ttl expiry recipient_hint sealed =
     FRAME_TYPE_ENVELOPE # msg_id @ [hop_ttl] @ i64_bytes expiry @ recipient_hint @ sealed"

definition put_digest_entry :: "digest_entry \<Rightarrow> bytes" where
  "put_digest_entry e = wire_bytes (de_sender_user_id e) @ u64_bytes (de_through_lamport e)"

definition digest_capacity :: "bytes \<Rightarrow> digest_entry list \<Rightarrow> bytes list \<Rightarrow> nat option" where
  "digest_capacity chat_id entries recent =
     (let n = 1 + 2 + length chat_id + 2 + sum_list (map (\<lambda>e. 2 + length (de_sender_user_id e) + 8) entries) + 2 +
              length recent * FRAME_MSG_ID_LEN in
      if n > u64_max then None else Some n)"

definition encode_digest :: "bytes \<Rightarrow> digest_entry list \<Rightarrow> bytes list \<Rightarrow> bytes result" where
  "encode_digest chat_id entries recent_msg_ids =
     (if length chat_id > 65535 then Inl (Malformed ''digest chat_id is too long'')
      else if length entries > 65535 then Inl (Malformed ''digest contains too many entries'')
      else if length recent_msg_ids > 65535 then Inl (Malformed ''digest contains too many recent message ids'')
      else if list_ex (\<lambda>e. length (de_sender_user_id e) > 65535) entries
      then Inl (Malformed ''digest sender_user_id is too long'')
      else if list_ex (\<lambda>m. length m \<noteq> FRAME_MSG_ID_LEN) recent_msg_ids
      then Inl (Malformed (''digest msg_id must be exactly '' @ show_nat FRAME_MSG_ID_LEN @ '' bytes''))
      else if digest_capacity chat_id entries recent_msg_ids = None
      then Inl (Malformed ''digest frame is too large'')
      else Inr (FRAME_TYPE_DIGEST # wire_bytes chat_id @ u16_bytes (word_of_nat (length entries)) @
             concat (map put_digest_entry entries) @ u16_bytes (word_of_nat (length recent_msg_ids)) @
             concat recent_msg_ids))"

definition encode_lan_endpoint :: "bytes \<Rightarrow> utf8 \<Rightarrow> u16 \<Rightarrow> bytes result" where
  "encode_lan_endpoint instance_token host port =
     and_then (validate_lan_endpoint_fields instance_token host port) (\<lambda>_.
       Inr (FRAME_TYPE_LAN_ENDPOINT # LAN_ENDPOINT_VERSION # instance_token @ u16_bytes port @
            word_of_nat (length host) # host))"

definition encode_transport_probe :: "u64 \<Rightarrow> bool \<Rightarrow> bytes" where
  "encode_transport_probe nonce response =
     FRAME_TYPE_TRANSPORT_PROBE # TRANSPORT_PROBE_VERSION # of_bool response # u64_bytes nonce"

section \<open>Parsing\<close>

definition take_digest_entry :: "nat \<Rightarrow> cursor \<Rightarrow> (digest_entry \<times> cursor) result" where
  "take_digest_entry len c =
     and_then (cursor_bytes (short_read len) c) (\<lambda>(sender, c).
     and_then (cursor_u64 (short_read len) c) (\<lambda>(lamport, c).
     Inr (\<lparr>de_sender_user_id = sender, de_through_lamport = lamport\<rparr>, c)))"

definition parse_envelope :: "bytes \<Rightarrow> frame result" where
  "parse_envelope rest =
     (let short = short_read (length rest) in
      and_then (cursor_take short FRAME_MSG_ID_LEN (cursor_new rest)) (\<lambda>(msg_id, c).
      and_then (cursor_u8 short c) (\<lambda>(hop_ttl, c).
      and_then (cursor_i64 short c) (\<lambda>(expiry, c).
      and_then (cursor_take short FRAME_HINT_LEN c) (\<lambda>(hint, c).
        let sealed = take_remaining c in
        if sealed = [] then Inl (Malformed ''envelope frame missing sealed payload'')
        else if length sealed > MAX_ENVELOPE_SEALED_BYTES
        then Inl (Malformed (''sealed envelope exceeds '' @ show_nat MAX_ENVELOPE_SEALED_BYTES @ ''-byte limit''))
        else Inr (Envelope msg_id hop_ttl expiry hint sealed))))))"

definition parse_digest :: "bytes \<Rightarrow> frame result" where
  "parse_digest rest =
     (let short = short_read (length rest) in
      and_then (cursor_bytes short (cursor_new rest)) (\<lambda>(chat_id, c).
      and_then (cursor_u16 short c) (\<lambda>(entry_count, c).
      and_then (read_many (take_digest_entry (length rest)) (unat entry_count) c) (\<lambda>(entries, c).
      and_then (cursor_u16 short c) (\<lambda>(id_count, c).
      and_then (read_many (cursor_take short FRAME_MSG_ID_LEN) (unat id_count) c) (\<lambda>(ids, c).
      and_then (cursor_finish c) (\<lambda>_. Inr (Digest chat_id entries ids))))))))"

text \<open>\<open>std::str::from_utf8\<close> with the position of the error dropped.\<close>

definition host_from_utf8 :: "bytes \<Rightarrow> utf8 result" where
  "host_from_utf8 bs = (if utf8_ok bs then Inr bs else Inl (Malformed ''LAN endpoint host is not UTF-8''))"

definition parse_lan_endpoint :: "bytes \<Rightarrow> frame result" where
  "parse_lan_endpoint rest =
     (let short = short_read (length rest) in
      and_then (cursor_u8 short (cursor_new rest)) (\<lambda>(version, c).
      if version \<noteq> LAN_ENDPOINT_VERSION
      then Inl (Malformed (''unsupported LAN endpoint version: '' @ show_nat (unat version)))
      else
        and_then (cursor_take short LAN_INSTANCE_TOKEN_LEN c) (\<lambda>(token, c).
        and_then (cursor_u16 short c) (\<lambda>(port, c).
        and_then (cursor_u8 short c) (\<lambda>(host_len, c).
        and_then (cursor_take short (unat host_len) c) (\<lambda>(host_bytes, c).
        and_then (cursor_finish c) (\<lambda>_.
        and_then (host_from_utf8 host_bytes) (\<lambda>host.
        and_then (validate_lan_endpoint_fields token host port) (\<lambda>_.
        Inr (LanEndpoint token host port))))))))))"

definition parse_transport_probe :: "bytes \<Rightarrow> frame result" where
  "parse_transport_probe rest =
     (let short = short_read (length rest) in
      and_then (cursor_u8 short (cursor_new rest)) (\<lambda>(version, c).
      if version \<noteq> TRANSPORT_PROBE_VERSION
      then Inl (Malformed (''unsupported transport probe version: '' @ show_nat (unat version)))
      else
        and_then (cursor_u8 short c) (\<lambda>(flag, c).
        and_then (if flag = 0 then Inr False else if flag = 1 then Inr True
                  else Inl (Malformed (''invalid transport probe response flag: '' @ show_nat (unat flag)))) (\<lambda>response.
        and_then (cursor_u64 short c) (\<lambda>(nonce, c).
        and_then (cursor_finish c) (\<lambda>_.
        Inr (TransportProbe nonce response)))))))"

definition hex_digit :: "nat \<Rightarrow> char" where
  "hex_digit n = (if n < 10 then char_of (48 + n) else char_of (87 + n))"

definition parse_frame :: "bytes \<Rightarrow> frame result" where
  "parse_frame bytes =
     (if length bytes > MAX_P2P_FRAME_BYTES
      then Inl (Malformed (''frame exceeds '' @ show_nat MAX_P2P_FRAME_BYTES @ ''-byte limit''))
      else case bytes of
        [] \<Rightarrow> Inl (Malformed ''empty frame: missing frame-type byte'')
      | frame_type # rest \<Rightarrow>
          if frame_type = FRAME_TYPE_HELLO then
            if rest = [] then Inl (Malformed ''HELLO frame missing user_id'') else Inr (Hello rest)
          else if frame_type = FRAME_TYPE_HELLO2 then
            if length rest < HELLO2_USER_ID_LEN + 4
            then Inl (Malformed ''HELLO2 frame too short for user_id + capabilities'')
            else Inr (Hello2 (take HELLO2_USER_ID_LEN rest) (u32_from_le (take 4 (drop HELLO2_USER_ID_LEN rest))))
          else if frame_type = FRAME_TYPE_OWN_ROSTER then
            if rest = [] then Inl (Malformed ''own roster notice missing document'') else Inr (OwnRoster rest)
          else if frame_type = FRAME_TYPE_ENVELOPE then parse_envelope rest
          else if frame_type = FRAME_TYPE_DIGEST then parse_digest rest
          else if frame_type = FRAME_TYPE_LAN_ENDPOINT then parse_lan_endpoint rest
          else if frame_type = FRAME_TYPE_TRANSPORT_PROBE then parse_transport_probe rest
          else Inl (Malformed (''unknown frame type byte: 0x'' @
                 [hex_digit (unat frame_type div 16), hex_digit (unat frame_type mod 16)])))"

section \<open>Header fields of an envelope\<close>

definition compute_recipient_hint :: "crypto \<Rightarrow> bytes \<Rightarrow> i64 \<Rightarrow> bytes" where
  "compute_recipient_hint cr recipient_user_id timestamp_ms =
     blake2b cr FRAME_HINT_LEN (recipient_user_id @ i64_bytes (timestamp_ms div MS_PER_DAY))"

definition fanout_msg_id :: "crypto \<Rightarrow> bytes \<Rightarrow> bytes \<Rightarrow> bytes" where
  "fanout_msg_id cr original_msg_id member_user_id =
     blake2b cr FRAME_MSG_ID_LEN (ascii ''cruisemesh group fanout v1'' @ original_msg_id @ member_user_id)"

definition device_fanout_msg_id :: "crypto \<Rightarrow> bytes \<Rightarrow> bytes \<Rightarrow> bytes" where
  "device_fanout_msg_id cr original_msg_id device_id =
     (if length device_id \<noteq> DEVICE_ID_LEN \<or> device_id = LEGACY_DEVICE_ID then original_msg_id
      else blake2b cr FRAME_MSG_ID_LEN (ascii ''cruisemesh device fanout v1'' @ original_msg_id @ device_id))"

definition default_expiry :: "i64 \<Rightarrow> i64" where
  "default_expiry timestamp_ms = i64_add timestamp_ms DEFAULT_EXPIRY_MS"

section \<open>Well-formed frames and their bytes\<close>

interpretation fixed_codec: cursor_codec "\<lambda>b. b" "cursor_take short n" "\<lambda>b. length b = n" for short n
  by unfold_locales (auto simp: codec_simps dest: cursor_take_sound)

interpretation digest_entry_codec:
  cursor_codec put_digest_entry "take_digest_entry len" "\<lambda>e. length (de_sender_user_id e) \<le> 65535" for len
  by unfold_locales
    (auto simp: take_digest_entry_def put_digest_entry_def codec_simps and_then_Inr dest!: wire_sound)

lemma cursor_finish_at [simp]: "cursor_finish (cur_at pre r) = Inr () \<longleftrightarrow> r = []"
  by (simp add: cursor_finish_def cur_at_def)

lemma cursor_finish_end [simp]: "cursor_finish (cur_at pre []) = Inr ()"
  by simp

lemma take_remaining_at [simp]: "take_remaining (cur_at pre r) = r"
  by (simp add: take_remaining_def cur_at_def)

fun frame_ok :: "frame \<Rightarrow> bool" where
  "frame_ok (Hello user_id) = (user_id \<noteq> [])"
| "frame_ok (Hello2 user_id capabilities) = (length user_id = 16)"
| "frame_ok (OwnRoster document) = (document \<noteq> [])"
| "frame_ok (Envelope msg_id hop_ttl expiry hint sealed) =
     (length msg_id = 16 \<and> i64_ok expiry \<and> length hint = 8 \<and> sealed \<noteq> [] \<and> length sealed \<le> MAX_ENVELOPE_SEALED_BYTES)"
| "frame_ok (Digest chat_id entries recent) =
     (length chat_id \<le> 65535 \<and> length entries \<le> 65535 \<and> list_all (\<lambda>e. length (de_sender_user_id e) \<le> 65535) entries \<and>
      length recent \<le> 65535 \<and> list_all (\<lambda>m. length m = 16) recent)"
| "frame_ok (LanEndpoint token host port) =
     (utf8_ok host \<and> validate_lan_endpoint_fields token host port = Inr ())"
| "frame_ok (TransportProbe nonce response) = True"

fun frame_wire :: "frame \<Rightarrow> bytes" where
  "frame_wire (Hello user_id) = 0x01 # user_id"
| "frame_wire (Hello2 user_id capabilities) = 0x06 # user_id @ u32_le_bytes capabilities"
| "frame_wire (OwnRoster document) = 0x07 # document"
| "frame_wire (Envelope msg_id hop_ttl expiry hint sealed) = 0x02 # msg_id @ [hop_ttl] @ i64_bytes expiry @ hint @ sealed"
| "frame_wire (Digest chat_id entries recent) =
     0x03 # wire_bytes chat_id @ u16_bytes (word_of_nat (length entries)) @ concat (map put_digest_entry entries) @
       u16_bytes (word_of_nat (length recent)) @ concat recent"
| "frame_wire (LanEndpoint token host port) = 0x04 # 1 # token @ u16_bytes port @ word_of_nat (length host) # host"
| "frame_wire (TransportProbe nonce response) = 0x05 # 1 # of_bool response # u64_bytes nonce"

text \<open>Every encoder of the module, by the frame it writes.\<close>

fun encode_frame :: "frame \<Rightarrow> bytes result" where
  "encode_frame (Hello user_id) = Inr (encode_hello user_id)"
| "encode_frame (Hello2 user_id capabilities) = encode_hello2 user_id capabilities"
| "encode_frame (OwnRoster document) = encode_own_roster document"
| "encode_frame (Envelope msg_id hop_ttl expiry hint sealed) = Inr (encode_envelope_frame msg_id hop_ttl expiry hint sealed)"
| "encode_frame (Digest chat_id entries recent) = encode_digest chat_id entries recent"
| "encode_frame (LanEndpoint token host port) = encode_lan_endpoint token host port"
| "encode_frame (TransportProbe nonce response) = Inr (encode_transport_probe nonce response)"

lemma u32_le_inverse [simp]: "u32_from_le (u32_le_bytes w) = w"
  by (simp add: u32_from_le_def u32_le_bytes_def from_be_word)

lemma length_u32_le [simp]: "length (u32_le_bytes w) = 4"
  by (simp add: u32_le_bytes_def)

lemma u32_le_bytes_from: "length bs = 4 \<Longrightarrow> u32_le_bytes (u32_from_le bs) = bs"
  using word_bytes_from_be(2) [of "rev bs"] by (simp add: u32_from_le_def u32_le_bytes_def)

lemma u16_len: "n \<le> 65535 \<Longrightarrow> unat (word_of_nat n :: u16) = n"
  by (simp add: unat_of_nat)

lemma u8_len: "n \<le> 255 \<Longrightarrow> unat (word_of_nat n :: u8) = n"
  by (simp add: unat_of_nat)

lemma parse_envelope_iff:
  "parse_envelope rest = Inr f \<longleftrightarrow> (\<exists>m t e h s. f = Envelope m t e h s \<and> frame_ok f \<and> 2 # rest = frame_wire f)"
proof
  assume "parse_envelope rest = Inr f"
  then show "\<exists>m t e h s. f = Envelope m t e h s \<and> frame_ok f \<and> 2 # rest = frame_wire f"
    by (auto simp: parse_envelope_def Let_def and_then_Inr cursor_new_at frame_consts
        dest!: fixed_codec.get_sound wire_sound split: if_splits)
next
  assume "\<exists>m t e h s. f = Envelope m t e h s \<and> frame_ok f \<and> 2 # rest = frame_wire f"
  then show "parse_envelope rest = Inr f"
    by (auto simp: parse_envelope_def Let_def cursor_new_at frame_consts codec_simps)
qed

lemma parse_digest_iff:
  "parse_digest rest = Inr f \<longleftrightarrow> (\<exists>c es ms. f = Digest c es ms \<and> frame_ok f \<and> 3 # rest = frame_wire f)"
proof
  assume "parse_digest rest = Inr f"
  then obtain chat c1 ec c2 es c3 ic c4 ms c5 where
    p: "cursor_bytes (short_read (length rest)) (cur_at [] rest) = Inr (chat, c1)"
      "cursor_u16 (short_read (length rest)) c1 = Inr (ec, c2)"
      "read_many (take_digest_entry (length rest)) (unat ec) c2 = Inr (es, c3)"
      "cursor_u16 (short_read (length rest)) c3 = Inr (ic, c4)"
      "read_many (cursor_take (short_read (length rest)) 16) (unat ic) c4 = Inr (ms, c5)"
      "cursor_finish c5 = Inr ()" "f = Digest chat es ms"
    by (auto simp: parse_digest_def Let_def and_then_Inr cursor_new_at frame_consts)
  obtain r1 where r1: "length chat \<le> 65535" "rest = wire_bytes chat @ r1" "c1 = cur_at (wire_bytes chat) r1"
    using bytes_codec.get_sound [OF p(1)] by auto
  obtain r2 where r2: "r1 = u16_bytes ec @ r2" "c2 = cur_at (wire_bytes chat @ u16_bytes ec) r2"
    using u16_codec.get_sound [OF p(2) [unfolded r1(3)]] by auto
  obtain r3 pre3 where r3: "length es = unat ec" "list_all (\<lambda>e. length (de_sender_user_id e) \<le> 65535) es"
    "r2 = concat (map put_digest_entry es) @ r3" "c3 = cur_at pre3 r3"
    using digest_entry_codec.many_sound [OF p(3) [unfolded r2(2)]] by auto
  obtain r4 pre4 where r4: "r3 = u16_bytes ic @ r4" "c4 = cur_at pre4 r4"
    using u16_codec.get_sound [OF p(4) [unfolded r3(4)]] by auto
  obtain r5 pre5 where r5: "length ms = unat ic" "list_all (\<lambda>m. length m = 16) ms" "r4 = concat (map (\<lambda>b. b) ms) @ r5" "c5 = cur_at pre5 r5"
    using fixed_codec.many_sound [OF p(5) [unfolded r4(2)]] by auto
  have "length es \<le> 65535" "length ms \<le> 65535" using r3(1) r5(1) unat_lt_pow [of ec] unat_lt_pow [of ic] by auto
  moreover have "word_of_nat (length es) = ec" "word_of_nat (length ms) = ic" by (simp_all add: r3(1) r5(1))
  moreover have "r5 = []" using p(6) by (simp add: r5(4))
  ultimately show "\<exists>c es ms. f = Digest c es ms \<and> frame_ok f \<and> 3 # rest = frame_wire f"
    using r1(1,2) r2(1) r3(2,3) r4(1) r5(2,3) p(7) by auto
next
  assume "\<exists>c es ms. f = Digest c es ms \<and> frame_ok f \<and> 3 # rest = frame_wire f"
  then obtain chat es ms where f: "f = Digest chat es ms" "frame_ok f" and w: "3 # rest = frame_wire f" by blast
  have ids: "read_many (cursor_take (short_read (length rest)) 16) (length ms) (cur_at pre (concat ms)) = Inr (ms, cur_at (pre @ concat ms) [])" for pre
    using fixed_codec.many_put_all [of 16 ms _ pre] f by simp
  have ents: "read_many (take_digest_entry (length rest)) (length es) (cur_at pre (concat (map put_digest_entry es) @ r)) =
      Inr (es, cur_at (pre @ concat (map put_digest_entry es)) r)" for pre r
    using digest_entry_codec.many_put [of es _ pre r] f by simp
  show "parse_digest rest = Inr f"
    using f w ids ents
    by (simp add: parse_digest_def Let_def cursor_new_at frame_consts codec_simps u16_len)
qed

lemma host_from_utf8_Inr [simp]: "host_from_utf8 bs = Inr h \<longleftrightarrow> utf8_ok bs \<and> h = bs"
  by (auto simp: host_from_utf8_def)

lemma validate_lan_ok:
  "validate_lan_endpoint_fields t h p = Inr () \<longleftrightarrow>
     length t = 8 \<and> p \<noteq> 0 \<and> h \<noteq> [] \<and> length h \<le> 255 \<and> \<not> list_ex is_whitespace (utf8_chars h) \<and> is_local_lan_host h"
  by (auto simp: validate_lan_endpoint_fields_def frame_consts)

lemma parse_lan_endpoint_iff:
  "parse_lan_endpoint rest = Inr f \<longleftrightarrow> (\<exists>t h p. f = LanEndpoint t h p \<and> frame_ok f \<and> 4 # rest = frame_wire f)"
proof
  assume "parse_lan_endpoint rest = Inr f"
  then show "\<exists>t h p. f = LanEndpoint t h p \<and> frame_ok f \<and> 4 # rest = frame_wire f"
    by (auto simp: parse_lan_endpoint_def Let_def and_then_Inr cursor_new_at frame_consts
        dest!: wire_sound fixed_codec.get_sound split: if_splits)
next
  assume "\<exists>t h p. f = LanEndpoint t h p \<and> frame_ok f \<and> 4 # rest = frame_wire f"
  then obtain t h p where f: "f = LanEndpoint t h p" "frame_ok f" "4 # rest = frame_wire f" by blast
  then have "length h \<le> 255" "length t = 8" by (auto simp: validate_lan_ok)
  then show "parse_lan_endpoint rest = Inr f"
    using f cursor_take_put [of h "length h" _ _ "[]"]
    by (simp add: parse_lan_endpoint_def Let_def cursor_new_at frame_consts codec_simps u8_len host_from_utf8_def)
qed

lemma parse_probe_iff:
  "parse_transport_probe rest = Inr f \<longleftrightarrow> (\<exists>n r. f = TransportProbe n r \<and> 5 # rest = frame_wire f)"
proof
  assume "parse_transport_probe rest = Inr f"
  then show "\<exists>n r. f = TransportProbe n r \<and> 5 # rest = frame_wire f"
    by (auto simp: parse_transport_probe_def Let_def and_then_Inr cursor_new_at frame_consts
        dest!: wire_sound split: if_splits)
next
  assume "\<exists>n r. f = TransportProbe n r \<and> 5 # rest = frame_wire f"
  then obtain n r where f: "f = TransportProbe n r" "5 # rest = frame_wire f" by blast
  then show "parse_transport_probe rest = Inr f"
    using u64_codec.get_put [of _ _ n "[]"]
    by (cases r) (simp_all add: parse_transport_probe_def Let_def cursor_new_at frame_consts codec_simps)
qed

fun tolerates_tail :: "frame \<Rightarrow> bool" where
  "tolerates_tail (Hello2 user_id capabilities) = True"
| "tolerates_tail _ = False"

lemma parse_frame_iff:
  "parse_frame bs = Inr f \<longleftrightarrow>
     length bs \<le> MAX_P2P_FRAME_BYTES \<and> frame_ok f \<and>
     (\<exists>tail. bs = frame_wire f @ tail \<and> (tail = [] \<or> tolerates_tail f))"
proof (cases "length bs \<le> MAX_P2P_FRAME_BYTES \<and> bs \<noteq> []")
  case False
  moreover have "frame_wire f \<noteq> []" by (cases f) simp_all
  ultimately show ?thesis by (cases bs) (auto simp: parse_frame_def)
next
  case True
  then obtain ty rest where bs: "bs = ty # rest" by (cases bs) auto
  have len: "\<not> length bs > MAX_P2P_FRAME_BYTES" using True by simp
  have hello2: "length rest \<ge> 20 \<Longrightarrow>
      rest = take 16 rest @ u32_le_bytes (u32_from_le (take 4 (drop 16 rest))) @ drop 20 rest"
  proof -
    assume "length rest \<ge> 20"
    then have "u32_le_bytes (u32_from_le (take 4 (drop 16 rest))) = take 4 (drop 16 rest)"
      by (intro u32_le_bytes_from) simp
    moreover have "rest = take 16 rest @ take 4 (drop 16 rest) @ drop 4 (drop 16 rest)"
      by (simp only: append_take_drop_id)
    moreover have "drop 4 (drop 16 rest) = drop 20 rest" by simp
    ultimately show ?thesis by simp
  qed
  show ?thesis
  proof (cases "ty = FRAME_TYPE_HELLO2")
    case True
    show ?thesis
    proof (cases "length rest < 20")
      case True
      with \<open>ty = FRAME_TYPE_HELLO2\<close> len show ?thesis unfolding bs
        by (cases f) (auto simp: parse_frame_def frame_types frame_consts)
    next
      case False
      with \<open>ty = FRAME_TYPE_HELLO2\<close> len have p: "parse_frame bs = Inr (Hello2 (take 16 rest) (u32_from_le (take 4 (drop 16 rest))))"
        unfolding bs by (simp add: parse_frame_def frame_types frame_consts)
      then show ?thesis unfolding p using hello2 False \<open>ty = FRAME_TYPE_HELLO2\<close> len unfolding bs
        by (cases f) (auto simp: frame_types intro: exI [of _ "drop 20 rest"])
    qed
  next
    case False
    then show ?thesis using len unfolding bs
      by (cases f) (auto simp: parse_frame_def frame_types parse_envelope_iff parse_digest_iff parse_lan_endpoint_iff parse_probe_iff)
  qed
qed

text \<open>
  Claim C28. \<open>parse_frame\<close> accepts exactly the bytes of the well-formed frames, up to the frame size
  limit, and reads each as that frame: nothing truncated, oversized, mislabelled or followed by
  garbage is a frame, except that a capability HELLO may carry further bytes, which are ignored.
\<close>

theorem parse_frame_exact:
  "parse_frame bs = Inr f \<longleftrightarrow>
     length bs \<le> MAX_P2P_FRAME_BYTES \<and> frame_ok f \<and>
     (\<exists>tail. bs = frame_wire f @ tail \<and> (tail = [] \<or> tolerates_tail f))"
  by (rule parse_frame_iff)

lemma encode_frame_wire: "encode_frame f = Inr bs \<Longrightarrow> bs = frame_wire f"
  by (cases f)
    (auto simp: encode_hello_def encode_hello2_def encode_own_roster_def encode_envelope_frame_def encode_digest_def
      encode_lan_endpoint_def encode_transport_probe_def frame_types frame_consts and_then_Inr split: if_splits)

text \<open>
  Every frame a phone writes within the size limit is read by the other phone as the frame it
  wrote. The encoders refuse what would not be read back, except for two header fields their callers
  produce: a HELLO is sent with a user id, and an envelope with a 16-byte message id, an 8-byte hint
  and a sealed payload of at most the maximum size.
\<close>

theorem frame_roundtrip:
  assumes "encode_frame f = Inr bs" "length bs \<le> MAX_P2P_FRAME_BYTES"
    and "\<And>u. f = Hello u \<Longrightarrow> u \<noteq> []"
    and "\<And>m t e h s. f = Envelope m t e h s \<Longrightarrow> length m = 16 \<and> i64_ok e \<and> length h = 8 \<and> s \<noteq> [] \<and> length s \<le> MAX_ENVELOPE_SEALED_BYTES"
    and "\<And>t h p. f = LanEndpoint t h p \<Longrightarrow> utf8_ok h"
  shows "parse_frame bs = Inr f"
proof -
  have "frame_ok f"
    using assms
    by (cases f)
      (auto simp: encode_hello2_def encode_own_roster_def encode_digest_def encode_lan_endpoint_def frame_consts
        and_then_Inr list_all_iff list_ex_iff not_less split: if_splits)
  then show ?thesis
    using assms(2) encode_frame_wire [OF assms(1)] by (simp add: parse_frame_iff)
qed

section \<open>What a LAN hint may point at\<close>

lemma read_octets_bounds:
  "read_octets n i s = Some (vs, r) \<Longrightarrow> length vs = n \<and> list_all (\<lambda>v. v \<le> 255) vs"
proof (induction n arbitrary: i s vs)
  case (Suc n)
  then obtain v r1 ws where "read_separator 46 i (read_number 10 3 False 255) s = Some (v, r1)"
    "read_octets n (Suc i) r1 = Some (ws, r)" "vs = v # ws"
    by (auto split: option.splits prod.splits)
  moreover from this(1) have "v \<le> 255"
    by (auto simp: read_separator_def read_number_def Let_def bind_eq_Some_conv split: if_splits)
  ultimately show ?case using Suc.IH by auto
qed simp

lemma read_groups_bounds:
  "read_groups n i s = (gs, v4, r) \<Longrightarrow> length gs \<le> n \<and> list_all (\<lambda>g. g \<le> 65535) gs"
proof (induction n arbitrary: i s gs v4 r)
  case (Suc n)
  show ?case
  proof (cases "if n \<ge> 1 then read_separator 58 i read_ipv4_addr s else None")
    case (Some p)
    obtain vs r1 where p: "p = (vs, r1)" by (cases p)
    then have "length vs = 4 \<and> list_all (\<lambda>v. v \<le> 255) vs" "n \<ge> 1"
      using Some by (auto simp: read_separator_def read_ipv4_addr_def bind_eq_Some_conv split: if_splits dest: read_octets_bounds)
    moreover from this have "\<forall>k<4. vs ! k \<le> 255" by (simp add: list_all_length)
    then have "vs ! 0 \<le> 255" "vs ! 1 \<le> 255" "vs ! 2 \<le> 255" "vs ! 3 \<le> 255" by auto
    ultimately show ?thesis using Suc.prems Some p by auto
  next
    case None
    show ?thesis
    proof (cases "read_separator 58 i (read_number 16 4 True 65535) s")
      case None': None
      then show ?thesis using Suc.prems None by simp
    next
      case (Some q)
      obtain g r1 where q: "q = (g, r1)" by (cases q)
      obtain hs w r2 where rest: "read_groups n (Suc i) r1 = (hs, w, r2)" by (cases "read_groups n (Suc i) r1") auto
      have "g \<le> 65535" using Some q
        by (auto simp: read_separator_def read_number_def Let_def bind_eq_Some_conv split: if_splits)
      with Suc.IH [OF rest] show ?thesis using Suc.prems None Some q rest by auto
    qed
  qed
qed simp

lemma parse_ip_bounds:
  "parse_ip_addr s = Some (V4 v) \<Longrightarrow> length v = 4 \<and> list_all (\<lambda>o'. o' \<le> 255) v"
  "parse_ip_addr s = Some (V6 g) \<Longrightarrow> length g = 8 \<and> list_all (\<lambda>o'. o' \<le> 65535) g"
proof -
  assume "parse_ip_addr s = Some (V4 v)"
  then have "read_ipv4_addr s = Some (v, [])"
    by (auto simp: parse_ip_addr_def split: option.splits list.splits prod.splits)
  then show "length v = 4 \<and> list_all (\<lambda>o'. o' \<le> 255) v"
    unfolding read_ipv4_addr_def by (rule read_octets_bounds)
next
  assume "parse_ip_addr s = Some (V6 g)"
  then have six: "read_ipv6_addr s = Some (g, [])"
    by (auto simp: parse_ip_addr_def split: option.splits list.splits prod.splits)
  obtain lead v4 r where l: "read_groups 8 0 s = (lead, v4, r)" by (cases "read_groups 8 0 s") auto
  from read_groups_bounds [OF l] have lead: "length lead \<le> 8" "list_all (\<lambda>o'. o' \<le> 65535) lead" by auto
  show "length g = 8 \<and> list_all (\<lambda>o'. o' \<le> 65535) g"
  proof (cases "length lead = 8")
    case True
    with six l lead show ?thesis by (simp add: read_ipv6_addr_def)
  next
    case False
    with six l obtain r' where r': "(case read_groups (8 - (length lead + 1)) 0 r' of
        (trail, _, r'') \<Rightarrow> Some (lead @ replicate (8 - length lead - length trail) 0 @ trail, r'')) = Some (g, [])"
      by (auto simp: read_ipv6_addr_def bind_eq_Some_conv split: if_splits)
    obtain trail w r'' where t: "read_groups (8 - (length lead + 1)) 0 r' = (trail, w, r'')"
      by (cases "read_groups (8 - (length lead + 1)) 0 r'") auto
    with r' have g: "g = lead @ replicate (8 - length lead - length trail) 0 @ trail" by simp
    from read_groups_bounds [OF t] lead False show ?thesis unfolding g by (auto simp: list_all_iff)
  qed
qed

lemma prefix_mask_int: "x AND (mask (m + n) AND NOT (mask n)) = x div 2 ^ n mod 2 ^ m * (2 ^ n :: int)"
  using slice_eq_mask [of n m x]
  by (simp add: and.assoc push_bit_eq_mult take_bit_eq_mod drop_bit_eq_div)

lemma zdiv_range: "0 < d \<Longrightarrow> x div d = k \<longleftrightarrow> k * d \<le> x \<and> x < k * d + (d :: int)"
proof
  assume d: "0 < d" and k: "x div d = k"
  have "x = k * d + x mod d" using div_mult_mod_eq [of x d] by (simp add: k)
  then show "k * d \<le> x \<and> x < k * d + d"
    using pos_mod_sign [OF d, of x] pos_mod_bound [OF d, of x] by linarith
next
  assume "k * d \<le> x \<and> x < k * d + d"
  then show "x div d = k" by (intro int_div_pos_eq [of _ _ _ "x - k * d"]) auto
qed

lemma prefix_mask_range:
  fixes w p :: u16
  assumes "uint c = mask 16 AND NOT (mask n)" "n \<le> 16" "uint p = k * 2 ^ n"
  shows "w AND c = p \<longleftrightarrow> uint p \<le> uint w \<and> uint w < uint p + 2 ^ n"
proof -
  have lt: "0 \<le> uint w" "uint w < 2 ^ 16" using uint_lt2p [of w] by auto
  have bound: "uint w div 2 ^ n < 2 ^ (16 - n)"
  proof (rule ccontr)
    assume "\<not> uint w div 2 ^ n < 2 ^ (16 - n)"
    then have "(2 :: int) ^ (16 - n) * 2 ^ n \<le> uint w div 2 ^ n * 2 ^ n" by (intro mult_right_mono) auto
    also have "\<dots> \<le> uint w" by (simp flip: minus_mod_eq_div_mult)
    finally show False using lt assms(2) by (simp flip: power_add)
  qed
  have "uint w div 2 ^ n mod 2 ^ (16 - n) = uint w div 2 ^ n"
    using bound by (intro mod_pos_pos_trivial) (simp_all add: pos_imp_zdiv_nonneg_iff)
  then have "uint (w AND c) = uint w div 2 ^ n * 2 ^ n"
    using prefix_mask_int [of "uint w" "16 - n" n] assms(1,2) by (simp add: unsigned_and_eq)
  then have "w AND c = p \<longleftrightarrow> uint w div 2 ^ n = k"
    by (simp add: word_uint_eq_iff assms(3))
  also have "\<dots> \<longleftrightarrow> k * 2 ^ n \<le> uint w \<and> uint w < k * 2 ^ n + 2 ^ n"
    by (simp add: zdiv_range)
  finally show ?thesis by (simp add: assms(3))
qed
text \<open>\<open>fe80::/10\<close> and \<open>fc00::/7\<close>, read off the leading group.\<close>

lemma ipv6_local_range:
  assumes "g ! 0 \<le> 65535"
  shows "is_ipv6_link_local g \<longleftrightarrow> 0xfe80 \<le> g ! 0 \<and> g ! 0 \<le> 0xfebf"
    and "is_local_ipv6 g \<longleftrightarrow> 0xfe80 \<le> g ! 0 \<and> g ! 0 \<le> 0xfebf \<or> 0xfc00 \<le> g ! 0 \<and> g ! 0 \<le> 0xfdff"
proof -
  let ?w = "word_of_nat (g ! 0) :: u16"
  have w: "uint ?w = int (g ! 0)" using assms by (simp add: uint_nat unat_of_nat)
  show a: "is_ipv6_link_local g \<longleftrightarrow> 0xfe80 \<le> g ! 0 \<and> g ! 0 \<le> 0xfebf"
    unfolding is_ipv6_link_local_def
    by (subst prefix_mask_range [where n = 6 and k = 1018]) (auto simp: mask_eq_exp_minus_1 w)
  show "is_local_ipv6 g \<longleftrightarrow> 0xfe80 \<le> g ! 0 \<and> g ! 0 \<le> 0xfebf \<or> 0xfc00 \<le> g ! 0 \<and> g ! 0 \<le> 0xfdff"
    unfolding is_local_ipv6_def a
    by (subst prefix_mask_range [where n = 9 and k = 126]) (auto simp: mask_eq_exp_minus_1 w)
qed

definition host_literal :: "utf8 \<Rightarrow> utf8" where
  "host_literal host = (case split_once [37] host of Some (l, _) \<Rightarrow> l | None \<Rightarrow> host)"

fun in_local_range :: "ip_addr \<Rightarrow> bool" where
  "in_local_range (V4 v) \<longleftrightarrow> length v = 4 \<and> list_all (\<lambda>o'. o' \<le> 255) v \<and>
     (v ! 0 = 10 \<or> v ! 0 = 172 \<and> v ! 1 \<in> {16..31} \<or> v ! 0 = 192 \<and> v ! 1 = 168 \<or>
      v ! 0 = 169 \<and> v ! 1 = 254 \<or> v ! 0 = 100 \<and> v ! 1 \<in> {64..127})"
| "in_local_range (V6 g) \<longleftrightarrow> length g = 8 \<and> (g ! 0 \<in> {0xfe80..0xfebf} \<or> g ! 0 \<in> {0xfc00..0xfdff})"

lemma local_host_range:
  assumes "is_local_lan_host host"
  shows "\<exists>a. parse_ip_addr (host_literal host) = Some a \<and> in_local_range a"
proof -
  let ?a = "parse_ip_addr (host_literal host)"
  have "?a = None \<Longrightarrow> False"
    using assms by (cases "split_once [37] host") (auto simp: is_local_lan_host_def host_literal_def split: if_splits)
  then obtain a where "?a = Some a" by blast
  moreover from this have "case a of V4 v \<Rightarrow> is_local_ipv4 v | V6 g \<Rightarrow> is_local_ipv6 g"
    using assms
    by (cases "split_once [37] host"; cases a) (auto simp: is_local_lan_host_def host_literal_def split: if_splits)
  ultimately have a: "?a = Some a" "case a of V4 v \<Rightarrow> is_local_ipv4 v | V6 g \<Rightarrow> is_local_ipv6 g" .
  show ?thesis
  proof (cases a)
    case (V4 v)
    with a parse_ip_bounds(1) [of "host_literal host" v] show ?thesis by (auto simp: is_local_ipv4_def)
  next
    case (V6 g)
    with a parse_ip_bounds(2) [of "host_literal host" g] have g: "length g = 8" "list_all (\<lambda>o'. o' \<le> 65535) g" by auto
    then have "g ! 0 \<le> 65535" by (simp add: list_all_length)
    with V6 a g ipv6_local_range(2) [of g] show ?thesis by auto
  qed
qed

text \<open>
  A LAN hint accepted from a link never makes the phone dial anything but a local address: the
  host is an address literal, never a name, of a private, link-local or shared IPv4 range or of the
  link-local or unique-local IPv6 range, on a non-zero port; and one the phone would publish about
  itself is moreover not an IPv6 link-local address.
\<close>

theorem lan_hint_points_local:
  assumes "parse_frame bs = Inr (LanEndpoint token host port)"
  shows "port \<noteq> 0 \<and> (\<exists>a. parse_ip_addr (host_literal host) = Some a \<and> in_local_range a \<and>
    (is_reachable_lan_host host \<longleftrightarrow> (case a of V4 v \<Rightarrow> True | V6 g \<Rightarrow> g ! 0 \<in> {0xfc00..0xfdff})))"
proof -
  from assms have ok: "port \<noteq> 0" "is_local_lan_host host" by (simp_all add: parse_frame_iff validate_lan_ok)
  from local_host_range [OF ok(2)] obtain a where a: "parse_ip_addr (host_literal host) = Some a" "in_local_range a" by blast
  have "is_reachable_lan_host host \<longleftrightarrow> (case a of V4 v \<Rightarrow> True | V6 g \<Rightarrow> g ! 0 \<in> {0xfc00..0xfdff})"
    using a ok(2) ipv6_local_range(1)
    by (cases a) (auto simp: is_reachable_lan_host_def host_literal_def)
  with a ok(1) show ?thesis by blast
qed

section \<open>Witnesses\<close>

definition sample_lan_frame :: frame where
  "sample_lan_frame = LanEndpoint (replicate 8 7) (ascii ''192.168.1.7'') 9000"

lemma sample_host:
  "utf8_ok (ascii ''192.168.1.7'')" "validate_lan_endpoint_fields (replicate 8 7) (ascii ''192.168.1.7'') 9000 = Inr ()"
proof -
  show "utf8_ok (ascii ''192.168.1.7'')"
    by (simp add: utf8_ok_def ascii_def char_error_def utf8_width_def byte_in_def tail_tests_def)
  have "split_once [37] (ascii ''192.168.1.7'') = None" by (rule split_once_byte_None) (simp add: ascii_def)
  moreover have "parse_ip_addr (ascii ''192.168.1.7'') = Some (V4 [192, 168, 1, 7])"
    by (simp add: addr_eval ascii_def)
  ultimately have "is_local_lan_host (ascii ''192.168.1.7'')"
    by (simp add: is_local_lan_host_def is_local_ipv4_def)
  moreover have "\<not> list_ex is_whitespace (utf8_chars (ascii ''192.168.1.7''))"
    by (simp add: text_eval)
  ultimately show "validate_lan_endpoint_fields (replicate 8 7) (ascii ''192.168.1.7'') 9000 = Inr ()"
    by (simp add: validate_lan_ok) (simp add: ascii_def)
qed

lemma sample_lan_encodes: "encode_frame sample_lan_frame = Inr (frame_wire sample_lan_frame)"
  by (simp add: sample_lan_frame_def encode_lan_endpoint_def sample_host frame_types frame_consts)

lemma sample_lan_small: "length (frame_wire sample_lan_frame) \<le> MAX_P2P_FRAME_BYTES"
  by (simp add: sample_lan_frame_def ascii_def MAX_P2P_FRAME_BYTES_def ENVELOPE_FRAME_OVERHEAD_def MAX_ENVELOPE_SEALED_BYTES_def)

theorem frame_roundtrip_witness: "parse_frame (frame_wire sample_lan_frame) = Inr sample_lan_frame"
  by (rule frame_roundtrip [OF sample_lan_encodes sample_lan_small]) (simp_all add: sample_lan_frame_def sample_host)

theorem lan_hint_points_local_witness:
  "\<exists>a. parse_ip_addr (host_literal (ascii ''192.168.1.7'')) = Some a \<and> in_local_range a"
proof -
  have "parse_frame (frame_wire sample_lan_frame) = Inr (LanEndpoint (replicate 8 7) (ascii ''192.168.1.7'') 9000)"
    using sample_lan_small by (simp add: parse_frame_iff sample_lan_frame_def sample_host)
  from lan_hint_points_local [OF this] show ?thesis by blast
qed

end
