(* ===== verification/Message_Bodies.thy ===== *)
theory Message_Bodies
  imports Link_Frames Relay_Endpoints
begin

text \<open>
  What travels inside a sealed envelope: the message body with its extension fields
  (\<open>core/src/protocol.rs\<close>), and the structured contents of receipts, profile and relay notices, LAN
  hints, attachments and reactions (\<open>core/src/protocol.rs\<close>, \<open>core/src/content.rs\<close>). The lemmas show
  the round trips, the tolerance of fields from later builds, and that a relay notice never carries
  more than a deposit credential.
\<close>

section \<open>Receipts\<close>

definition GROUP_ID_LEN :: nat where "GROUP_ID_LEN = 16"
definition RECEIPT_TYPE_DELIVERED :: u8 where "RECEIPT_TYPE_DELIVERED = 1"
definition RECEIPT_TYPE_READ :: u8 where "RECEIPT_TYPE_READ = 2"

record receipt_content =
  rc_chat_id :: bytes
  rc_sender_user_id :: bytes
  rc_lamport :: u64
  rc_receipt_type :: u8
  rc_group_id :: "bytes option"

definition validate_receipt_content :: "receipt_content \<Rightarrow> unit result" where
  "validate_receipt_content content =
     (if rc_receipt_type content \<noteq> RECEIPT_TYPE_DELIVERED \<and> rc_receipt_type content \<noteq> RECEIPT_TYPE_READ
      then Inl (Malformed ''invalid receipt type'')
      else if int (unat (rc_lamport content)) > i64_max
      then Inl (Malformed ''receipt lamport exceeds the supported range'')
      else case rc_group_id content of
             Some group_id \<Rightarrow>
               if length group_id \<noteq> GROUP_ID_LEN
               then Inl (Malformed (''group receipt id must be exactly '' @ show_nat GROUP_ID_LEN @ '' bytes''))
               else Inr ()
           | None \<Rightarrow> Inr ())"

definition encode_receipt_content :: "receipt_content \<Rightarrow> bytes result" where
  "encode_receipt_content content =
     and_then (validate_receipt_content content) (\<lambda>_.
     if length (rc_chat_id content) > 65535 \<or> length (rc_sender_user_id content) > 65535
     then Inl (Malformed ''receipt identity is too long'')
     else Inr (wire_bytes (rc_chat_id content) @ wire_bytes (rc_sender_user_id content) @
            u64_bytes (rc_lamport content) @ [rc_receipt_type content] @
            (case rc_group_id content of Some group_id \<Rightarrow> wire_bytes group_id | None \<Rightarrow> [])))"

definition decode_receipt_content :: "bytes \<Rightarrow> receipt_content result" where
  "decode_receipt_content bytes =
     (let short = short_read (length bytes) in
      and_then (cursor_bytes short (cursor_new bytes)) (\<lambda>(chat_id, c).
      and_then (cursor_bytes short c) (\<lambda>(sender, c).
      and_then (cursor_u64 short c) (\<lambda>(lamport, c).
      and_then (cursor_u8 short c) (\<lambda>(receipt_type, c).
      and_then (if cursor_is_finished c then Inr (None, c)
                else and_then (cursor_bytes short c) (\<lambda>(g, c). Inr (Some g, c))) (\<lambda>(group_id, c).
      and_then (cursor_finish c) (\<lambda>_.
      let content = \<lparr>rc_chat_id = chat_id, rc_sender_user_id = sender, rc_lamport = lamport,
                     rc_receipt_type = receipt_type, rc_group_id = group_id\<rparr> in
      and_then (validate_receipt_content content) (\<lambda>_. Inr content))))))))"

section \<open>Attachments and reactions\<close>

definition ATTACHMENT_WIRE_VERSION :: u8 where "ATTACHMENT_WIRE_VERSION = 1"
definition ATTACHMENT_MAX_BLOB_BYTES :: nat where "ATTACHMENT_MAX_BLOB_BYTES = 180 * 1024"
definition REACTION_WIRE_VERSION :: u8 where "REACTION_WIRE_VERSION = 1"
definition REACTION_MAX_EMOJI_BYTES :: nat where "REACTION_MAX_EMOJI_BYTES = 32"

datatype attachment_media_type = Image | Audio

record attachment_payload =
  at_media_type :: attachment_media_type
  at_mime_type :: utf8
  at_duration_ms :: i64
  at_blob :: bytes
  at_caption :: utf8

definition encode_attachment_payload :: "attachment_payload \<Rightarrow> bytes result" where
  "encode_attachment_payload p =
     (if at_duration_ms p < 0 \<or> at_duration_ms p > 4294967295 then Inl (Malformed ''invalid attachment duration'')
      else if length (at_blob p) > ATTACHMENT_MAX_BLOB_BYTES then Inl (Malformed ''attachment blob is too large'')
      else if length (at_mime_type p) > 65535 \<or> length (at_caption p) > 65535
      then Inl (Malformed ''attachment string is too long'')
      else Inr ([ATTACHMENT_WIRE_VERSION, case at_media_type p of Image \<Rightarrow> 1 | Audio \<Rightarrow> 2] @
             wire_bytes (at_mime_type p) @ u32_bytes (word_of_int (at_duration_ms p)) @
             u32_bytes (word_of_nat (length (at_blob p))) @ at_blob p @ wire_bytes (at_caption p)))"

text \<open>The cursor of \<open>content.rs\<close> answers \<open>None\<close> where the others report an error.\<close>

definition opt :: "'a result \<Rightarrow> 'a option" where
  "opt r = (case r of Inr v \<Rightarrow> Some v | Inl _ \<Rightarrow> None)"

definition no_read :: "nat \<Rightarrow> nat \<Rightarrow> core_error" where
  "no_read n pos = Malformed []"

definition read_string16 :: "nat option \<Rightarrow> cursor \<Rightarrow> (utf8 \<times> cursor) result" where
  "read_string16 max_bytes c =
     and_then (cursor_bytes no_read c) (\<lambda>(bs, c).
     if (case max_bytes of Some m \<Rightarrow> length bs > m | None \<Rightarrow> False) then Inl (Malformed [])
     else and_then (from_utf8 bs) (\<lambda>t. Inr (t, c)))"

definition decode_attachment_payload :: "bytes \<Rightarrow> attachment_payload option" where
  "decode_attachment_payload bytes = opt
     (and_then (cursor_u8 no_read (cursor_new bytes)) (\<lambda>(version, c).
      if version \<noteq> ATTACHMENT_WIRE_VERSION then Inl (Malformed [])
      else
        and_then (cursor_u8 no_read c) (\<lambda>(media, c).
        and_then (if media = 1 then Inr Image else if media = 2 then Inr Audio else Inl (Malformed [])) (\<lambda>media_type.
        and_then (read_string16 None c) (\<lambda>(mime, c).
        and_then (cursor_u32 no_read c) (\<lambda>(duration, c).
        and_then (cursor_u32 no_read c) (\<lambda>(blob_len, c).
        if unat blob_len > ATTACHMENT_MAX_BLOB_BYTES then Inl (Malformed [])
        else
          and_then (cursor_take no_read (unat blob_len) c) (\<lambda>(blob, c).
          and_then (read_string16 None c) (\<lambda>(caption, c).
          Inr \<lparr>at_media_type = media_type, at_mime_type = mime, at_duration_ms = int (unat duration), at_blob = blob,
               at_caption = caption\<rparr>)))))))))"

record message_target =
  mt_sender_user_id :: bytes
  mt_lamport :: u64
  mt_kind :: u8

record reaction_payload =
  re_target :: message_target
  re_emoji :: utf8

definition encode_reaction_payload :: "reaction_payload \<Rightarrow> bytes result" where
  "encode_reaction_payload p =
     (if length (mt_sender_user_id (re_target p)) > 65535 then Inl (Malformed ''reaction sender id is too long'')
      else if length (re_emoji p) > REACTION_MAX_EMOJI_BYTES then Inl (Malformed ''reaction emoji is too long'')
      else Inr (REACTION_WIRE_VERSION # wire_bytes (mt_sender_user_id (re_target p)) @
             u64_bytes (mt_lamport (re_target p)) @ [mt_kind (re_target p)] @ wire_bytes (re_emoji p)))"

definition decode_reaction_payload :: "bytes \<Rightarrow> reaction_payload option" where
  "decode_reaction_payload bytes = opt
     (and_then (cursor_u8 no_read (cursor_new bytes)) (\<lambda>(version, c).
      if version \<noteq> REACTION_WIRE_VERSION then Inl (Malformed [])
      else
        and_then (cursor_bytes no_read c) (\<lambda>(sender, c).
        and_then (cursor_u64 no_read c) (\<lambda>(lamport, c).
        and_then (cursor_u8 no_read c) (\<lambda>(kind, c).
        and_then (read_string16 (Some REACTION_MAX_EMOJI_BYTES) c) (\<lambda>(emoji, c).
        if \<not> cursor_is_finished c then Inl (Malformed [])
        else Inr \<lparr>re_target = \<lparr>mt_sender_user_id = sender, mt_lamport = lamport, mt_kind = kind\<rparr>, re_emoji = emoji\<rparr>))))))"

section \<open>The message body\<close>

definition MESSAGE_EXTENSION_REPLY_TO_MSG_ID :: u8 where "MESSAGE_EXTENSION_REPLY_TO_MSG_ID = 1"
definition MESSAGE_EXTENSION_SENDER_DEVICE_ID :: u8 where "MESSAGE_EXTENSION_SENDER_DEVICE_ID = 0x20"
definition MESSAGE_EXTENSION_SENDER_ROSTER_HEAD :: u8 where "MESSAGE_EXTENSION_SENDER_ROSTER_HEAD = 0x21"

record message_body =
  mb_kind :: u8
  mb_chat_id :: bytes
  mb_lamport :: u64
  mb_timestamp :: i64
  mb_content :: bytes

record body_extensions =
  bx_reply_to_msg_id :: "bytes option"
  bx_sender_device_id :: "bytes option"
  bx_sender_roster_head :: "bytes option"

definition validate_message_body_fields :: "u8 \<Rightarrow> bytes \<Rightarrow> u64 \<Rightarrow> bytes \<Rightarrow> unit result" where
  "validate_message_body_fields kind chat_id lamport content =
     (if int (unat lamport) > i64_max then Inl (Malformed ''message lamport exceeds the supported range'')
      else if kind = KIND_RECEIPT then
        and_then (decode_receipt_content content) (\<lambda>receipt.
          if rc_chat_id receipt \<noteq> chat_id then Inl (Malformed ''receipt chat id does not match its message body'')
          else Inr ())
      else if kind = KIND_ATTACHMENT_MANIFEST then
        if decode_attachment_payload content = None then Inl (Malformed ''invalid attachment payload'') else Inr ()
      else if kind = KIND_REACTION \<and> decode_reaction_payload content = None
      then Inl (Malformed ''invalid reaction payload'')
      else if kind = KIND_ROSTER_GOSSIP then and_then (core_decode_roster content) (\<lambda>_. Inr ())
      else Inr ())"

definition encode_message_body :: "message_body \<Rightarrow> bytes result" where
  "encode_message_body body =
     and_then (validate_message_body_fields (mb_kind body) (mb_chat_id body) (mb_lamport body) (mb_content body)) (\<lambda>_.
     if length (mb_chat_id body) > 65535 then Inl (Malformed ''message chat id is too long'')
     else if length (mb_content body) > 4294967295 then Inl (Malformed ''message content is too long'')
     else Inr (mb_kind body # wire_bytes (mb_chat_id body) @ u64_bytes (mb_lamport body) @ i64_bytes (mb_timestamp body) @
            wire_bytes32 (mb_content body)))"

definition push_extension :: "u8 \<Rightarrow> bytes \<Rightarrow> nat \<Rightarrow> string \<Rightarrow> bytes result" where
  "push_extension extension_type value expected_len field =
     (if length value \<noteq> expected_len
      then Inl (Malformed (field @ '' must be exactly '' @ show_nat expected_len @ '' bytes''))
      else Inr (extension_type # u16_bytes (word_of_nat expected_len) @ value))"

definition push_optional :: "u8 \<Rightarrow> bytes option \<Rightarrow> nat \<Rightarrow> string \<Rightarrow> bytes result" where
  "push_optional extension_type value expected_len field =
     (case value of Some v \<Rightarrow> push_extension extension_type v expected_len field | None \<Rightarrow> Inr [])"

definition encode_message_body_extended :: "message_body \<Rightarrow> body_extensions \<Rightarrow> bytes result" where
  "encode_message_body_extended body x =
     and_then (encode_message_body body) (\<lambda>out.
     and_then (push_optional MESSAGE_EXTENSION_REPLY_TO_MSG_ID (bx_reply_to_msg_id x) FRAME_MSG_ID_LEN ''reply_to_msg_id'') (\<lambda>r.
     and_then (push_optional MESSAGE_EXTENSION_SENDER_DEVICE_ID (bx_sender_device_id x) DEVICE_ID_LEN ''sender_device_id'') (\<lambda>d.
     and_then (push_optional MESSAGE_EXTENSION_SENDER_ROSTER_HEAD (bx_sender_roster_head x) ROSTER_HEAD_HASH_LEN
                ''sender_roster_head'') (\<lambda>h.
     Inr (out @ r @ d @ h)))))"

definition encode_message_body_with_reply :: "message_body \<Rightarrow> bytes \<Rightarrow> bytes result" where
  "encode_message_body_with_reply body reply_to_msg_id =
     encode_message_body_extended body
       \<lparr>bx_reply_to_msg_id = Some reply_to_msg_id, bx_sender_device_id = None, bx_sender_roster_head = None\<rparr>"

definition take_extension :: "bytes option \<Rightarrow> bytes \<Rightarrow> nat \<Rightarrow> string \<Rightarrow> bytes option result" where
  "take_extension slot value expected_len field =
     (if length value \<noteq> expected_len
      then Inl (Malformed (field @ '' extension must be exactly '' @ show_nat expected_len @ '' bytes''))
      else if slot \<noteq> None then Inl (Malformed (''duplicate '' @ field @ '' extension''))
      else Inr (Some value))"

definition accept_extension :: "u8 \<Rightarrow> bytes \<Rightarrow> body_extensions \<Rightarrow> body_extensions result" where
  "accept_extension extension_type value x =
     (if extension_type = MESSAGE_EXTENSION_REPLY_TO_MSG_ID then
        and_then (take_extension (bx_reply_to_msg_id x) value FRAME_MSG_ID_LEN ''reply-to'') (\<lambda>s.
          Inr (x\<lparr>bx_reply_to_msg_id := s\<rparr>))
      else if extension_type = MESSAGE_EXTENSION_SENDER_DEVICE_ID then
        and_then (take_extension (bx_sender_device_id x) value DEVICE_ID_LEN ''sender device id'') (\<lambda>s.
          Inr (x\<lparr>bx_sender_device_id := s\<rparr>))
      else if extension_type = MESSAGE_EXTENSION_SENDER_ROSTER_HEAD then
        and_then (take_extension (bx_sender_roster_head x) value ROSTER_HEAD_HASH_LEN ''sender roster head'') (\<lambda>s.
          Inr (x\<lparr>bx_sender_roster_head := s\<rparr>))
      else Inr x)"

definition take_tlv :: "(nat \<Rightarrow> nat \<Rightarrow> core_error) \<Rightarrow> cursor \<Rightarrow> ((u8 \<times> bytes) \<times> cursor) result" where
  "take_tlv short c =
     and_then (cursor_u8 short c) (\<lambda>(extension_type, c).
     and_then (cursor_u16 short c) (\<lambda>(extension_len, c).
     and_then (cursor_take short (unat extension_len) c) (\<lambda>(value, c). Inr ((extension_type, value), c))))"

lemma cursor_take_progress:
  "cursor_take short n c = Inr (v, d) \<Longrightarrow> cur_data d = cur_data c \<and> cur_pos d = cur_pos c + n \<and> cur_pos d \<le> length (cur_data c)"
  by (auto simp: cursor_take_def Let_def split: if_splits)

lemma take_tlv_progress:
  "take_tlv short c = Inr (tv, d) \<Longrightarrow> length (cur_data d) - cur_pos d < length (cur_data c) - cur_pos c"
  by (auto simp: take_tlv_def cursor_u8_def cursor_u16_def and_then_Inr dest!: cursor_take_progress)

function read_extensions :: "(nat \<Rightarrow> nat \<Rightarrow> core_error) \<Rightarrow> cursor \<Rightarrow> body_extensions \<Rightarrow> body_extensions result" where
  "read_extensions short c x =
     (if cursor_is_finished c then Inr x
      else case take_tlv short c of
             Inl e \<Rightarrow> Inl e
           | Inr (tv, c') \<Rightarrow>
               (case accept_extension (fst tv) (snd tv) x of
                  Inl e \<Rightarrow> Inl e
                | Inr x' \<Rightarrow> read_extensions short c' x'))"
  by pat_completeness auto
termination
  by (relation "measure (\<lambda>(short, c, x). length (cur_data c) - cur_pos c)") (auto dest: take_tlv_progress)

declare read_extensions.simps [simp del]

definition no_extensions :: body_extensions where
  "no_extensions = \<lparr>bx_reply_to_msg_id = None, bx_sender_device_id = None, bx_sender_roster_head = None\<rparr>"

definition decode_extended_message_body :: "bytes \<Rightarrow> (message_body \<times> body_extensions) result" where
  "decode_extended_message_body bytes =
     (let short = short_read (length bytes) in
      and_then (cursor_u8 short (cursor_new bytes)) (\<lambda>(kind, c).
      and_then (cursor_bytes short c) (\<lambda>(chat_id, c).
      and_then (cursor_u64 short c) (\<lambda>(lamport, c).
      and_then (cursor_i64 short c) (\<lambda>(timestamp, c).
      and_then (cursor_bytes32 short c) (\<lambda>(content, c).
      and_then (read_extensions short c no_extensions) (\<lambda>x.
      and_then (validate_message_body_fields kind chat_id lamport content) (\<lambda>_.
      Inr (\<lparr>mb_kind = kind, mb_chat_id = chat_id, mb_lamport = lamport, mb_timestamp = timestamp,
            mb_content = content\<rparr>, x)))))))))"

definition decode_message_body :: "bytes \<Rightarrow> message_body result" where
  "decode_message_body bytes = and_then (decode_extended_message_body bytes) (\<lambda>(body, _). Inr body)"

section \<open>Profile, relay and LAN notices\<close>

definition PROFILE_SYNC_VERSION :: u8 where "PROFILE_SYNC_VERSION = 2"
definition PROFILE_SYNC_MAX_AVATAR_BYTES :: nat where "PROFILE_SYNC_MAX_AVATAR_BYTES = 64 * 1024"
definition PROFILE_SYNC_MAX_NAME_BYTES :: nat where "PROFILE_SYNC_MAX_NAME_BYTES = 128"
definition RELAY_UPDATE_VERSION :: u8 where "RELAY_UPDATE_VERSION = 1"
definition RELAY_UPDATE_MAX_URL_BYTES :: nat where "RELAY_UPDATE_MAX_URL_BYTES = 512"
definition RELAY_UPDATE_MAX_TOKEN_BYTES :: nat where "RELAY_UPDATE_MAX_TOKEN_BYTES = 256"
definition RELAY_UPDATE_MAX_SUBJECT_BYTES :: nat where "RELAY_UPDATE_MAX_SUBJECT_BYTES = 64"
definition LAN_ENDPOINT_CONTENT_VERSION :: u8 where "LAN_ENDPOINT_CONTENT_VERSION = 1"

lemmas content_consts = GROUP_ID_LEN_def RECEIPT_TYPE_DELIVERED_def RECEIPT_TYPE_READ_def ATTACHMENT_WIRE_VERSION_def
  ATTACHMENT_MAX_BLOB_BYTES_def REACTION_WIRE_VERSION_def REACTION_MAX_EMOJI_BYTES_def PROFILE_SYNC_VERSION_def
  PROFILE_SYNC_MAX_AVATAR_BYTES_def PROFILE_SYNC_MAX_NAME_BYTES_def RELAY_UPDATE_VERSION_def RELAY_UPDATE_MAX_URL_BYTES_def
  RELAY_UPDATE_MAX_TOKEN_BYTES_def RELAY_UPDATE_MAX_SUBJECT_BYTES_def LAN_ENDPOINT_CONTENT_VERSION_def

record profile_sync_content =
  ps_avatar_epoch :: i64
  ps_name :: utf8
  ps_avatar :: bytes
  ps_fof_version :: u8
  ps_fof_enabled :: bool
  ps_fof_revision :: u64

definition name_too_long :: "core_error" where
  "name_too_long = Malformed (''profile name exceeds '' @ show_nat PROFILE_SYNC_MAX_NAME_BYTES @ '' UTF-8 bytes'')"

definition encode_profile_sync_content :: "profile_sync_content \<Rightarrow> bytes result" where
  "encode_profile_sync_content content =
     (if length (ps_name content) > PROFILE_SYNC_MAX_NAME_BYTES then Inl name_too_long
      else if length (ps_avatar content) > PROFILE_SYNC_MAX_AVATAR_BYTES
      then Inl (Malformed (''profile avatar exceeds '' @ show_nat PROFILE_SYNC_MAX_AVATAR_BYTES @ '' bytes''))
      else Inr (PROFILE_SYNC_VERSION # i64_bytes (ps_avatar_epoch content) @ wire_bytes (ps_name content) @
             wire_bytes32 (ps_avatar content) @ [ps_fof_version content, of_bool (ps_fof_enabled content)] @
             u64_bytes (ps_fof_revision content)))"

definition decode_profile_sync_content :: "bytes \<Rightarrow> profile_sync_content result" where
  "decode_profile_sync_content bytes =
     (let short = short_read (length bytes) in
      and_then (cursor_u8 short (cursor_new bytes)) (\<lambda>(version, c).
      if version \<noteq> 1 \<and> version \<noteq> PROFILE_SYNC_VERSION
      then Inl (Malformed (''unknown profile-sync version: '' @ show_nat (unat version)))
      else
        and_then (cursor_i64 short c) (\<lambda>(epoch, c).
        and_then (cursor_bytes short c) (\<lambda>(name_bytes, c).
        if length name_bytes > PROFILE_SYNC_MAX_NAME_BYTES then Inl name_too_long
        else
          and_then (from_utf8 name_bytes) (\<lambda>name.
          and_then (cursor_u32 short c) (\<lambda>(avatar_len, c).
          if unat avatar_len > PROFILE_SYNC_MAX_AVATAR_BYTES
          then Inl (Malformed (''profile avatar too large: '' @ show_nat (unat avatar_len) @ '' bytes''))
          else
            and_then (cursor_take short (unat avatar_len) c) (\<lambda>(avatar, c).
            and_then
              (if version \<ge> 2 then
                 and_then (cursor_u8 short c) (\<lambda>(protocol_version, c).
                 and_then (cursor_u8 short c) (\<lambda>(flag, c).
                 and_then (if flag = 0 then Inr False else if flag = 1 then Inr True
                           else Inl (Malformed (''invalid friends-of-friends enabled value: '' @ show_nat (unat flag)))) (\<lambda>enabled.
                 and_then (cursor_u64 short c) (\<lambda>(revision, c).
                 Inr ((protocol_version, enabled, revision), c)))))
               else Inr ((0, False, 0), c)) (\<lambda>((fof_version, fof_enabled, fof_revision), c).
            and_then (cursor_finish c) (\<lambda>_.
            Inr \<lparr>ps_avatar_epoch = epoch, ps_name = name, ps_avatar = avatar, ps_fof_version = fof_version,
                 ps_fof_enabled = fof_enabled, ps_fof_revision = fof_revision\<rparr>)))))))))"

record relay_update_content =
  ru_subject_user_id :: bytes
  ru_relay_epoch :: i64
  ru_relay_url :: utf8
  ru_relay_token :: utf8

definition subject_out_of_range :: "bytes \<Rightarrow> bool" where
  "subject_out_of_range subject \<longleftrightarrow> subject = [] \<or> length subject > RELAY_UPDATE_MAX_SUBJECT_BYTES"

definition validate_relay_update_credential :: "utf8 \<Rightarrow> utf8 \<Rightarrow> unit result" where
  "validate_relay_update_credential relay_url relay_token =
     (if (relay_url = []) \<noteq> (relay_token = [])
      then Inl (Malformed ''relay update must carry both a url and a token, or neither'')
      else if relay_token \<noteq> [] \<and> \<not> relay_token_is_deposit relay_token
      then Inl (Malformed ''relay update credential must be deposit-class'')
      else Inr ())"

definition encode_relay_update_content :: "relay_prims \<Rightarrow> relay_update_content \<Rightarrow> bytes result" where
  "encode_relay_update_content rp content =
     (if subject_out_of_range (ru_subject_user_id content)
      then Inl (Malformed ''relay update subject user id is out of range'')
      else
        let url = normalize_relay_url (ru_relay_url content);
            token = relay_deposit_token_for rp (ru_relay_token content);
            (url, token) = (if url = [] \<or> token = [] then ([], []) else (url, token)) in
        if length url > RELAY_UPDATE_MAX_URL_BYTES
        then Inl (Malformed (''relay update url exceeds '' @ show_nat RELAY_UPDATE_MAX_URL_BYTES @ '' bytes''))
        else if length token > RELAY_UPDATE_MAX_TOKEN_BYTES
        then Inl (Malformed (''relay update token exceeds '' @ show_nat RELAY_UPDATE_MAX_TOKEN_BYTES @ '' bytes''))
        else Inr (RELAY_UPDATE_VERSION # wire_bytes (ru_subject_user_id content) @ i64_bytes (ru_relay_epoch content) @
               wire_bytes url @ wire_bytes token))"

definition decode_relay_update_content :: "bytes \<Rightarrow> relay_update_content result" where
  "decode_relay_update_content bytes =
     (let short = short_read (length bytes) in
      and_then (cursor_u8 short (cursor_new bytes)) (\<lambda>(version, c).
      if version \<noteq> RELAY_UPDATE_VERSION
      then Inl (Malformed (''unknown relay-update version: '' @ show_nat (unat version)))
      else
        and_then (cursor_bytes short c) (\<lambda>(subject, c).
        if subject_out_of_range subject then Inl (Malformed ''relay update subject user id is out of range'')
        else
          and_then (cursor_i64 short c) (\<lambda>(epoch, c).
          and_then (cursor_bytes short c) (\<lambda>(url_bytes, c).
          if length url_bytes > RELAY_UPDATE_MAX_URL_BYTES
          then Inl (Malformed (''relay update url exceeds '' @ show_nat RELAY_UPDATE_MAX_URL_BYTES @ '' bytes''))
          else
            and_then (cursor_bytes short c) (\<lambda>(token_bytes, c).
            if length token_bytes > RELAY_UPDATE_MAX_TOKEN_BYTES
            then Inl (Malformed (''relay update token exceeds '' @ show_nat RELAY_UPDATE_MAX_TOKEN_BYTES @ '' bytes''))
            else
              and_then (cursor_finish c) (\<lambda>_.
              and_then (from_utf8 url_bytes) (\<lambda>url.
              and_then (from_utf8 token_bytes) (\<lambda>token.
              and_then (validate_relay_update_credential url token) (\<lambda>_.
              Inr \<lparr>ru_subject_user_id = subject, ru_relay_epoch = epoch, ru_relay_url = url, ru_relay_token = token\<rparr>)))))))))) "

record lan_endpoint_content =
  le_instance_token :: bytes
  le_network_id :: bytes
  le_host :: utf8
  le_port :: u16
  le_expires_at_ms :: i64

definition encode_lan_endpoint_content :: "lan_endpoint_content \<Rightarrow> bytes result" where
  "encode_lan_endpoint_content content =
     and_then (validate_lan_endpoint_fields (le_instance_token content) (le_host content) (le_port content)) (\<lambda>_.
     if length (le_network_id content) > 32 then Inl (Malformed ''LAN network id exceeds 32 bytes'')
     else Inr (LAN_ENDPOINT_CONTENT_VERSION # le_instance_token content @ u16_bytes (le_port content) @
            i64_bytes (le_expires_at_ms content) @ word_of_nat (length (le_network_id content)) # le_network_id content @
            word_of_nat (length (le_host content)) # le_host content))"

definition decode_lan_endpoint_content :: "bytes \<Rightarrow> lan_endpoint_content result" where
  "decode_lan_endpoint_content bytes =
     (let short = short_read (length bytes) in
      and_then (cursor_u8 short (cursor_new bytes)) (\<lambda>(version, c).
      if version \<noteq> LAN_ENDPOINT_CONTENT_VERSION
      then Inl (Malformed (''unsupported LAN endpoint content version: '' @ show_nat (unat version)))
      else
        and_then (cursor_take short LAN_INSTANCE_TOKEN_LEN c) (\<lambda>(token, c).
        and_then (cursor_u16 short c) (\<lambda>(port, c).
        and_then (cursor_i64 short c) (\<lambda>(expires, c).
        and_then (cursor_u8 short c) (\<lambda>(network_id_len, c).
        if unat network_id_len > 32 then Inl (Malformed ''LAN network id exceeds 32 bytes'')
        else
          and_then (cursor_take short (unat network_id_len) c) (\<lambda>(network_id, c).
          and_then (cursor_u8 short c) (\<lambda>(host_len, c).
          and_then (cursor_take short (unat host_len) c) (\<lambda>(host_bytes, c).
          and_then (host_from_utf8 host_bytes) (\<lambda>host.
          and_then (cursor_finish c) (\<lambda>_.
          and_then (validate_lan_endpoint_fields token host port) (\<lambda>_.
          Inr \<lparr>le_instance_token = token, le_network_id = network_id, le_host = host, le_port = port,
               le_expires_at_ms = expires\<rparr>))))))))))))"

section \<open>Round trips\<close>

lemma from_utf8_Inr [simp]: "from_utf8 bs = Inr t \<longleftrightarrow> utf8_ok bs \<and> t = bs"
  by (auto simp: from_utf8_def utf8_ok_def split: option.splits)

lemma cursor_is_finished_at [simp]: "cursor_is_finished (cur_at pre r) \<longleftrightarrow> r = []"
  by (simp add: cursor_is_finished_def cur_at_def)

lemma wire_bytes_not_Nil [simp]: "wire_bytes b \<noteq> []"
  by (simp add: wire_bytes_def u16_bytes_def)

lemma wire_put_end [codec_simps]:
  "cursor_u64 short (cur_at pre (u64_bytes w)) = Inr (w, cur_at (pre @ u64_bytes w) [])"
  "length b \<le> 65535 \<Longrightarrow> cursor_bytes short (cur_at pre (wire_bytes b)) = Inr (b, cur_at (pre @ wire_bytes b) [])"
  "length b \<le> 4294967295 \<Longrightarrow> cursor_bytes32 short (cur_at pre (wire_bytes32 b)) = Inr (b, cur_at (pre @ wire_bytes32 b) [])"
  "length b = n \<Longrightarrow> cursor_take short n (cur_at pre b) = Inr (b, cur_at (pre @ b) [])"
  using u64_codec.get_put [of short pre w "[]"] bytes_codec.get_put [of b short pre "[]"]
    bytes32_codec.get_put [of b short pre "[]"] cursor_take_put [of b n short pre "[]"] by simp_all

definition receipt_ok :: "receipt_content \<Rightarrow> bool" where
  "receipt_ok r \<longleftrightarrow> validate_receipt_content r = Inr () \<and> length (rc_chat_id r) \<le> 65535 \<and> length (rc_sender_user_id r) \<le> 65535"

definition receipt_wire :: "receipt_content \<Rightarrow> bytes" where
  "receipt_wire r = wire_bytes (rc_chat_id r) @ wire_bytes (rc_sender_user_id r) @ u64_bytes (rc_lamport r) @
     rc_receipt_type r # (case rc_group_id r of Some g \<Rightarrow> wire_bytes g | None \<Rightarrow> [])"

lemma encode_receipt_iff: "encode_receipt_content r = Inr bs \<longleftrightarrow> receipt_ok r \<and> bs = receipt_wire r"
  by (auto simp: encode_receipt_content_def receipt_ok_def receipt_wire_def and_then_Inr split: if_splits)

lemma decode_receipt_iff: "decode_receipt_content bs = Inr r \<longleftrightarrow> receipt_ok r \<and> bs = receipt_wire r"
proof
  assume d: "decode_receipt_content bs = Inr r"
  show "receipt_ok r \<and> bs = receipt_wire r"
    using d unfolding decode_receipt_content_def receipt_ok_def receipt_wire_def Let_def
    by (auto simp: and_then_Inr cursor_new_at split: if_splits dest!: wire_sound)
next
  assume r: "receipt_ok r \<and> bs = receipt_wire r"
  then have g: "\<forall>g. rc_group_id r = Some g \<longrightarrow> length g \<le> 65535"
    by (auto simp: receipt_ok_def validate_receipt_content_def content_consts split: if_splits)
  show "decode_receipt_content bs = Inr r"
    using r g
    by (cases r; cases "rc_group_id r")
      (simp_all add: decode_receipt_content_def receipt_ok_def receipt_wire_def cursor_new_at codec_simps Let_def)
qed

text \<open>
  Receipts have one encoding: the decoder accepts exactly what the encoder writes for a receipt
  of a known type, with a representable lamport and, for a group receipt, a 16-byte group id, and
  gives that receipt back.
\<close>

theorem receipt_codec_exact:
  "decode_receipt_content bs = Inr r \<longleftrightarrow> encode_receipt_content r = Inr bs"
  by (simp add: decode_receipt_iff encode_receipt_iff)

subsection \<open>Extensions\<close>

definition put_tlv :: "u8 \<times> bytes \<Rightarrow> bytes" where
  "put_tlv tv = fst tv # wire_bytes (snd tv)"

abbreviation "tlv_ok tv \<equiv> length (snd tv) \<le> 65535"

lemma put_tlv_not_Nil [simp]: "put_tlv tv \<noteq> []"
  by (simp add: put_tlv_def)

lemma and_then_assoc: "and_then (and_then m f) h = and_then m (\<lambda>x. and_then (f x) h)"
  by (cases m) simp_all

lemma take_tlv_bytes: "take_tlv short c = and_then (cursor_u8 short c) (\<lambda>(t, c). and_then (cursor_bytes short c) (\<lambda>(v, c). Inr ((t, v), c)))"
  by (simp add: take_tlv_def cursor_bytes_def and_then_assoc case_prod_beta')

interpretation tlv_codec: cursor_codec put_tlv "take_tlv short" tlv_ok for short
  by unfold_locales
    (auto simp: take_tlv_bytes put_tlv_def codec_simps and_then_Inr dest!: wire_sound)

text \<open>The loop on the parsed fields, without the cursor.\<close>

fun accept_extensions :: "(u8 \<times> bytes) list \<Rightarrow> body_extensions \<Rightarrow> body_extensions result" where
  "accept_extensions [] x = Inr x"
| "accept_extensions (tv # tvs) x = and_then (accept_extension (fst tv) (snd tv) x) (accept_extensions tvs)"

lemma read_extensions_put:
  "list_all tlv_ok tvs \<Longrightarrow> read_extensions short (cur_at pre (concat (map put_tlv tvs))) x = accept_extensions tvs x"
proof (induction tvs arbitrary: pre x)
  case Nil
  then show ?case by (simp add: read_extensions.simps [of short])
next
  case (Cons tv tvs)
  have "take_tlv short (cur_at pre (put_tlv tv @ concat (map put_tlv tvs))) =
      Inr (tv, cur_at (pre @ put_tlv tv) (concat (map put_tlv tvs)))"
    using Cons.prems by (intro tlv_codec.get_put) simp
  then have "read_extensions short (cur_at pre (concat (map put_tlv (tv # tvs)))) x =
      and_then (accept_extension (fst tv) (snd tv) x) (read_extensions short (cur_at (pre @ put_tlv tv) (concat (map put_tlv tvs))))"
    by (subst read_extensions.simps) (simp split: sum.splits)
  then show ?case using Cons by (cases "accept_extension (fst tv) (snd tv) x") simp_all
qed

lemma read_extensions_sound:
  "read_extensions short (cur_at pre bs) x = Inr y \<Longrightarrow>
   \<exists>tvs. list_all tlv_ok tvs \<and> bs = concat (map put_tlv tvs) \<and> accept_extensions tvs x = Inr y"
proof (induction "length bs" arbitrary: pre bs x rule: less_induct)
  case less
  show ?case
  proof (cases "bs = []")
    case True
    with less.prems show ?thesis by (intro exI [of _ "[]"]) (simp add: read_extensions.simps [of short])
  next
    case False
    with less.prems obtain tv c x1 where t: "take_tlv short (cur_at pre bs) = Inr (tv, c)"
      and a: "accept_extension (fst tv) (snd tv) x = Inr x1" and r: "read_extensions short c x1 = Inr y"
      by (subst (asm) read_extensions.simps) (auto split: sum.splits)
    from tlv_codec.get_sound [OF t] obtain bs' where bs: "tlv_ok tv" "bs = put_tlv tv @ bs'" "c = cur_at (pre @ put_tlv tv) bs'"
      by blast
    have "length bs' < length bs" using bs(2) by (simp add: put_tlv_def)
    from less.hyps [OF this r [unfolded bs(3)]] obtain tvs where
      "list_all tlv_ok tvs" "bs' = concat (map put_tlv tvs)" "accept_extensions tvs x1 = Inr y" by blast
    with a bs show ?thesis by (intro exI [of _ "tv # tvs"]) simp
  qed
qed

definition known_extension :: "u8 \<Rightarrow> bool" where
  "known_extension t \<longleftrightarrow> t \<in> {1, 0x20, 0x21}"

lemmas extension_types = MESSAGE_EXTENSION_REPLY_TO_MSG_ID_def MESSAGE_EXTENSION_SENDER_DEVICE_ID_def
  MESSAGE_EXTENSION_SENDER_ROSTER_HEAD_def

lemma accept_unknown: "\<not> known_extension t \<Longrightarrow> accept_extension t v x = Inr x"
  by (simp add: accept_extension_def known_extension_def extension_types)

lemma accept_all_known: "accept_extensions (filter (\<lambda>tv. known_extension (fst tv)) tvs) x = accept_extensions tvs x"
proof (induction tvs arbitrary: x)
  case (Cons tv tvs)
  then show ?case by (cases "accept_extension (fst tv) (snd tv) x") (auto simp: accept_unknown)
qed simp

definition body_ok :: "message_body \<Rightarrow> bool" where
  "body_ok b \<longleftrightarrow> validate_message_body_fields (mb_kind b) (mb_chat_id b) (mb_lamport b) (mb_content b) = Inr () \<and>
     length (mb_chat_id b) \<le> 65535 \<and> length (mb_content b) \<le> 4294967295 \<and> i64_ok (mb_timestamp b)"

definition body_wire :: "message_body \<Rightarrow> bytes" where
  "body_wire b = mb_kind b # wire_bytes (mb_chat_id b) @ u64_bytes (mb_lamport b) @ i64_bytes (mb_timestamp b) @
     wire_bytes32 (mb_content b)"

lemma encode_body_iff:
  "i64_ok (mb_timestamp b) \<Longrightarrow> encode_message_body b = Inr bs \<longleftrightarrow> body_ok b \<and> bs = body_wire b"
  by (auto simp: encode_message_body_def body_ok_def body_wire_def and_then_Inr split: if_splits)

lemma decode_body_put:
  assumes "length (mb_chat_id b) \<le> 65535" "length (mb_content b) \<le> 4294967295" "i64_ok (mb_timestamp b)"
    and "list_all tlv_ok tvs"
  shows "decode_extended_message_body (body_wire b @ concat (map put_tlv tvs)) =
    and_then (accept_extensions tvs no_extensions) (\<lambda>x.
    and_then (validate_message_body_fields (mb_kind b) (mb_chat_id b) (mb_lamport b) (mb_content b)) (\<lambda>_. Inr (b, x)))"
  using assms
  by (cases b) (simp add: decode_extended_message_body_def body_wire_def cursor_new_at codec_simps Let_def read_extensions_put)

lemma decode_body_sound:
  assumes "decode_extended_message_body bs = Inr (b, x)"
  shows "body_ok b \<and> (\<exists>tvs. list_all tlv_ok tvs \<and> bs = body_wire b @ concat (map put_tlv tvs) \<and> accept_extensions tvs no_extensions = Inr x)"
  using assms
  unfolding decode_extended_message_body_def Let_def
  by (auto simp: and_then_Inr cursor_new_at body_ok_def body_wire_def dest!: wire_sound read_extensions_sound)

text \<open>
  Messages from later builds are readable: fields of unknown types, in any number and place
  among the extensions, change nothing in what is decoded, neither the body nor the known extensions
  nor the verdict on a malformed or repeated known extension.
\<close>

theorem unknown_extensions_ignored:
  assumes "encode_message_body b = Inr base" "i64_ok (mb_timestamp b)" "list_all tlv_ok tvs"
  shows "decode_extended_message_body (base @ concat (map put_tlv tvs)) =
    decode_extended_message_body (base @ concat (map put_tlv (filter (\<lambda>tv. known_extension (fst tv)) tvs)))"
proof -
  from assms(1,2) have b: "body_ok b" "base = body_wire b" by (simp_all add: encode_body_iff)
  have "list_all tlv_ok (filter (\<lambda>tv. known_extension (fst tv)) tvs)" using assms(3) by (auto simp: list_all_iff)
  with b assms(2,3) show ?thesis by (simp add: body_ok_def decode_body_put accept_all_known)
qed

lemma push_optional_wire:
  "push_optional t v n f = Inr out \<Longrightarrow> n \<le> 65535 \<Longrightarrow>
   out = concat (map put_tlv (case v of Some w \<Rightarrow> [(t, w)] | None \<Rightarrow> [])) \<and> (\<forall>w. v = Some w \<longrightarrow> length w = n)"
  by (auto simp: push_optional_def push_extension_def put_tlv_def wire_bytes_def split: option.splits if_splits)

text \<open>
  A sealed message is read as it was written: whatever combination of the reply, device and
  roster-head extensions an encoder accepts, the decoder returns the body and exactly those extensions,
  and a build without extensions reads the body alone.
\<close>

theorem message_body_roundtrip:
  assumes enc: "encode_message_body_extended b x = Inr bs" and ts: "i64_ok (mb_timestamp b)"
  shows "decode_extended_message_body bs = Inr (b, x) \<and> decode_message_body bs = Inr b"
proof -
  let ?l = "\<lambda>t v. (case v of Some w \<Rightarrow> [(t, w)] | None \<Rightarrow> []) :: (u8 \<times> bytes) list"
  let ?tvs = "?l 1 (bx_reply_to_msg_id x) @ ?l 0x20 (bx_sender_device_id x) @ ?l 0x21 (bx_sender_roster_head x)"
  from enc obtain out r d h where e: "encode_message_body b = Inr out"
    and p: "push_optional 1 (bx_reply_to_msg_id x) 16 ''reply_to_msg_id'' = Inr r"
      "push_optional 0x20 (bx_sender_device_id x) 16 ''sender_device_id'' = Inr d"
      "push_optional 0x21 (bx_sender_roster_head x) 32 ''sender_roster_head'' = Inr h"
    and bs: "bs = out @ r @ d @ h"
    by (auto simp: encode_message_body_extended_def and_then_Inr extension_types frame_consts DEVICE_ID_LEN_def ROSTER_HEAD_HASH_LEN_def)
  from e ts have b: "body_ok b" "out = body_wire b" by (simp_all add: encode_body_iff)
  note w = push_optional_wire [OF p(1), simplified] push_optional_wire [OF p(2), simplified] push_optional_wire [OF p(3), simplified]
  have wire: "bs = body_wire b @ concat (map put_tlv ?tvs)" using bs b(2) w by simp
  have ok: "list_all tlv_ok ?tvs" using w by (auto split: option.splits)
  have "accept_extensions ?tvs no_extensions = Inr x"
    using w by (cases x)
      (auto simp: no_extensions_def accept_extension_def take_extension_def extension_types frame_consts DEVICE_ID_LEN_def
        ROSTER_HEAD_HASH_LEN_def split: option.splits)
  with b ok have "decode_extended_message_body bs = Inr (b, x)"
    unfolding wire by (subst decode_body_put) (auto simp: body_ok_def)
  then show ?thesis by (simp add: decode_message_body_def)
qed

section \<open>Structured contents\<close>

lemma from_utf8_ok [simp]: "utf8_ok bs \<Longrightarrow> from_utf8 bs = Inr bs" "utf8_ok bs \<Longrightarrow> host_from_utf8 bs = Inr bs"
  by simp_all

lemma attachment_roundtrip:
  assumes "encode_attachment_payload p = Inr bs" "utf8_ok (at_mime_type p)" "utf8_ok (at_caption p)"
  shows "decode_attachment_payload (bs @ trailing) = Some p"
proof -
  have d: "unat (word_of_int (at_duration_ms p) :: u32) = nat (at_duration_ms p)" "0 \<le> at_duration_ms p"
    and l: "length (at_blob p) \<le> 184320" "length (at_mime_type p) \<le> 65535" "length (at_caption p) \<le> 65535"
    using assms by (auto simp: encode_attachment_payload_def content_consts unat_eq_nat_uint uint_word_of_int
        mod_pos_pos_trivial split: if_splits)
  have n: "unat (word_of_nat (length (at_blob p)) :: u32) = length (at_blob p)"
    using l by (simp add: unat_of_nat)
  have t: "from_utf8 (at_mime_type p) = Inr (at_mime_type p)" "from_utf8 (at_caption p) = Inr (at_caption p)"
    using assms by simp_all
  show ?thesis
    using assms(1) l n t d
    by (cases p; cases "at_media_type p")
      (auto simp: encode_attachment_payload_def decode_attachment_payload_def read_string16_def opt_def cursor_new_at
        codec_simps content_consts split: if_splits)
qed

lemma reaction_roundtrip:
  assumes "encode_reaction_payload p = Inr bs" "utf8_ok (re_emoji p)"
  shows "decode_reaction_payload bs = Some p"
proof -
  have t: "from_utf8 (re_emoji p) = Inr (re_emoji p)" using assms by simp
  show ?thesis
    using assms(1) t
    by (cases p; cases "re_target p")
      (auto simp: encode_reaction_payload_def decode_reaction_payload_def read_string16_def opt_def cursor_new_at
        codec_simps content_consts split: if_splits)
qed

lemma profile_roundtrip:
  assumes "encode_profile_sync_content p = Inr bs" "utf8_ok (ps_name p)" "i64_ok (ps_avatar_epoch p)"
  shows "decode_profile_sync_content bs = Inr p"
proof -
  have l: "length (ps_name p) \<le> 128" "length (ps_avatar p) \<le> 65536" and t: "from_utf8 (ps_name p) = Inr (ps_name p)"
    using assms by (auto simp: encode_profile_sync_content_def content_consts split: if_splits)
  have n: "unat (word_of_nat (length (ps_avatar p)) :: u32) = length (ps_avatar p)"
    using l by (simp add: unat_of_nat)
  show ?thesis
    using assms l n t
    by (cases p; cases "ps_fof_enabled p")
      (auto simp: encode_profile_sync_content_def decode_profile_sync_content_def cursor_new_at wire_bytes32_def
        codec_simps content_consts Let_def split: if_splits)
qed

lemma lan_content_roundtrip:
  assumes "encode_lan_endpoint_content p = Inr bs" "utf8_ok (le_host p)" "i64_ok (le_expires_at_ms p)"
  shows "decode_lan_endpoint_content bs = Inr p"
proof -
  have v: "validate_lan_endpoint_fields (le_instance_token p) (le_host p) (le_port p) = Inr ()"
    and l: "length (le_network_id p) \<le> 32" and h: "host_from_utf8 (le_host p) = Inr (le_host p)"
    using assms by (auto simp: encode_lan_endpoint_content_def and_then_Inr split: if_splits)
  then have len: "length (le_host p) \<le> 255" "length (le_instance_token p) = 8" by (simp_all add: validate_lan_ok)
  have n: "unat (word_of_nat (length (le_network_id p)) :: u8) = length (le_network_id p)"
    "unat (word_of_nat (length (le_host p)) :: u8) = length (le_host p)"
    using l len by (simp_all add: u8_len)
  show ?thesis
    using assms v l h len n
    by (cases p)
      (auto simp: encode_lan_endpoint_content_def decode_lan_endpoint_content_def cursor_new_at codec_simps content_consts
        frame_consts Let_def split: if_splits)
qed

section \<open>Relay notices carry deposit credentials only\<close>

lemma deposit_prefix_visible: "list_all (byte_in 0x21 0x7E) RELAY_DEPOSIT_TOKEN_PREFIX" "RELAY_DEPOSIT_TOKEN_PREFIX \<noteq> []"
  by (simp_all add: RELAY_DEPOSIT_TOKEN_PREFIX_def ascii_def byte_in_def)

lemma prefixed_is_deposit: "has_prefix t RELAY_DEPOSIT_TOKEN_PREFIX \<Longrightarrow> relay_token_is_deposit t"
  using trim_keeps_prefix [OF deposit_prefix_visible] by (auto simp: relay_token_is_deposit_def has_prefix_iff)

lemma attenuated_is_deposit: "relay_deposit_token_for rp t = [] \<or> relay_token_is_deposit (relay_deposit_token_for rp t)"
  by (auto simp: relay_deposit_token_for_def Let_def intro: prefixed_is_deposit)

definition relay_update_wire :: "bytes \<Rightarrow> i64 \<Rightarrow> utf8 \<Rightarrow> utf8 \<Rightarrow> bytes" where
  "relay_update_wire subject epoch url token = 1 # wire_bytes subject @ i64_bytes epoch @ wire_bytes url @ wire_bytes token"

definition endpoint_or_none :: "utf8 \<Rightarrow> utf8 \<Rightarrow> bool" where
  "endpoint_or_none url token \<longleftrightarrow> url = [] \<and> token = [] \<or> url \<noteq> [] \<and> token \<noteq> [] \<and> relay_token_is_deposit token"

lemma credential_ok_iff: "validate_relay_update_credential url token = Inr () \<longleftrightarrow> endpoint_or_none url token"
  by (auto simp: validate_relay_update_credential_def endpoint_or_none_def)

lemma decode_relay_update_sound:
  assumes "decode_relay_update_content bs = Inr c"
  shows "bs = relay_update_wire (ru_subject_user_id c) (ru_relay_epoch c) (ru_relay_url c) (ru_relay_token c) \<and>
    endpoint_or_none (ru_relay_url c) (ru_relay_token c)"
  using assms unfolding decode_relay_update_content_def Let_def
  by (auto simp: and_then_Inr cursor_new_at content_consts relay_update_wire_def credential_ok_iff
      dest!: wire_sound split: if_splits)

text \<open>
  No relay notice can hand a member credential to a contact. Whatever relay settings a phone
  holds, the notice it writes carries either no endpoint at all or an encrypted-transport URL with a
  deposit-class token; and whatever bytes arrive, a notice that decodes carries no endpoint or a
  complete one with a deposit-class token, and is the canonical encoding of what was decoded.
\<close>

theorem relay_notice_deposit_only:
  assumes "encode_relay_update_content rp sent = Inr written" and "decode_relay_update_content received = Inr got"
  shows "(\<exists>url token. written = relay_update_wire (ru_subject_user_id sent) (ru_relay_epoch sent) url token \<and>
      endpoint_or_none url token \<and> (url = [] \<or> relay_url_transport_is_secure url)) \<and>
    received = relay_update_wire (ru_subject_user_id got) (ru_relay_epoch got) (ru_relay_url got) (ru_relay_token got) \<and>
    endpoint_or_none (ru_relay_url got) (ru_relay_token got)"
proof -
  let ?u = "normalize_relay_url (ru_relay_url sent)" and ?t = "relay_deposit_token_for rp (ru_relay_token sent)"
  let ?p = "if ?u = [] \<or> ?t = [] then ([], []) else (?u, ?t)"
  have "written = relay_update_wire (ru_subject_user_id sent) (ru_relay_epoch sent) (fst ?p) (snd ?p)"
    using assms(1)
    by (auto simp: encode_relay_update_content_def relay_update_wire_def content_consts Let_def split: if_splits)
  moreover have "endpoint_or_none (fst ?p) (snd ?p)"
    using attenuated_is_deposit [of rp "ru_relay_token sent"] by (auto simp: endpoint_or_none_def)
  moreover have "fst ?p = [] \<or> relay_url_transport_is_secure (fst ?p)"
    using normalize_secure by auto
  ultimately show ?thesis using decode_relay_update_sound [OF assms(2)] by blast
qed

section \<open>Witnesses\<close>

definition sample_body :: message_body where
  "sample_body = \<lparr>mb_kind = KIND_TEXT, mb_chat_id = [1, 2], mb_lamport = 3, mb_timestamp = - 7, mb_content = ascii ''hi''\<rparr>"

lemma sample_body_encodes: "encode_message_body sample_body = Inr (body_wire sample_body)" "i64_ok (mb_timestamp sample_body)"
  by (simp_all add: sample_body_def encode_message_body_def body_wire_def validate_message_body_fields_def KIND_TEXT_def
      KIND_RECEIPT_def KIND_ATTACHMENT_MANIFEST_def KIND_REACTION_def KIND_ROSTER_GOSSIP_def i64_ok_def i64_bound_defs ascii_def)

theorem unknown_extensions_ignored_witness:
  "decode_extended_message_body (body_wire sample_body @ concat (map put_tlv [(0x55, [9]), (1, replicate 16 4), (0x60, [])])) =
     decode_extended_message_body (body_wire sample_body @ concat (map put_tlv [(1, replicate 16 4)]))"
  using unknown_extensions_ignored [OF sample_body_encodes, of "[(0x55, [9]), (1, replicate 16 4), (0x60, [])]"]
  by (simp add: known_extension_def)

definition sample_extensions :: body_extensions where
  "sample_extensions =
     \<lparr>bx_reply_to_msg_id = Some (replicate 16 4), bx_sender_device_id = None, bx_sender_roster_head = Some (replicate 32 6)\<rparr>"

theorem message_body_roundtrip_witness:
  "\<exists>bs. encode_message_body_extended sample_body sample_extensions = Inr bs \<and>
     decode_extended_message_body bs = Inr (sample_body, sample_extensions)"
proof -
  have "\<exists>bs. encode_message_body_extended sample_body sample_extensions = Inr bs"
    by (simp add: encode_message_body_extended_def sample_body_encodes sample_extensions_def push_optional_def push_extension_def
        frame_consts ROSTER_HEAD_HASH_LEN_def)
  then show ?thesis using message_body_roundtrip [OF _ sample_body_encodes(2)] by blast
qed

definition sample_notice :: relay_update_content where
  "sample_notice = \<lparr>ru_subject_user_id = [1], ru_relay_epoch = 5, ru_relay_url = [], ru_relay_token = ascii ''member''\<rparr>"

lemma sample_notice_codec:
  "encode_relay_update_content sample_prims sample_notice = Inr (relay_update_wire [1] 5 [] [])"
  "decode_relay_update_content (relay_update_wire [1] 5 [] []) = Inr (sample_notice\<lparr>ru_relay_token := []\<rparr>)"
proof -
  have "normalize_relay_url [] = []" by (simp add: normalize_relay_url_def trim_def trim_end_matches_def)
  then show "encode_relay_update_content sample_prims sample_notice = Inr (relay_update_wire [1] 5 [] [])"
    by (simp add: encode_relay_update_content_def sample_notice_def subject_out_of_range_def content_consts
        relay_update_wire_def Let_def)
  have "utf8_ok []" by (simp add: utf8_ok_def)
  then show "decode_relay_update_content (relay_update_wire [1] 5 [] []) = Inr (sample_notice\<lparr>ru_relay_token := []\<rparr>)"
    by (simp add: decode_relay_update_content_def relay_update_wire_def sample_notice_def cursor_new_at codec_simps
        content_consts subject_out_of_range_def validate_relay_update_credential_def i64_ok_def i64_bound_defs Let_def)
qed

theorem relay_notice_deposit_only_witness:
  "endpoint_or_none (ru_relay_url (sample_notice\<lparr>ru_relay_token := []\<rparr>)) (ru_relay_token (sample_notice\<lparr>ru_relay_token := []\<rparr>))"
  using relay_notice_deposit_only [OF sample_notice_codec] by blast

end
