(* ===== verification/Group_State.thy ===== *)
theory Group_State
  imports Message_Bodies
begin

text \<open>
  Groups (\<open>core/src/groups.rs\<close> without its ciphers): a group with its members and key, the invite and
  metadata codecs, and the merge of metadata updates. The lemmas show the round trips of both codecs, that
  members are only ever added, and that phones which have seen the same updates agree, with the exact
  conditions that takes.
\<close>

section \<open>Groups and updates\<close>

definition GROUP_KEY_LEN :: nat where "GROUP_KEY_LEN = 32"
definition GROUP_METADATA_VERSION :: u8 where "GROUP_METADATA_VERSION = 1"
definition GROUP_USER_ID_LEN :: nat where "GROUP_USER_ID_LEN = 16"
definition MAX_GROUP_MEMBERS :: nat where "MAX_GROUP_MEMBERS = 64"
definition MAX_GROUP_NAME_BYTES :: nat where "MAX_GROUP_NAME_BYTES = 128"

lemmas group_consts = GROUP_ID_LEN_def GROUP_KEY_LEN_def GROUP_METADATA_VERSION_def GROUP_USER_ID_LEN_def
  MAX_GROUP_MEMBERS_def MAX_GROUP_NAME_BYTES_def

record group =
  gr_id :: bytes
  gr_name :: utf8
  gr_member_user_ids :: "bytes list"
  gr_key :: bytes
  gr_metadata_revision :: u64
  gr_metadata_changed_by :: bytes

record group_metadata_update =
  gu_group_id :: bytes
  gu_name :: utf8
  gu_revision :: u64
  gu_changed_by :: bytes
  gu_member_user_ids :: "bytes list"

definition validate_user_id :: "bytes \<Rightarrow> string \<Rightarrow> unit result" where
  "validate_user_id user_id label =
     (if length user_id \<noteq> GROUP_USER_ID_LEN
      then Inl (Malformed (label @ '' must be '' @ show_nat GROUP_USER_ID_LEN @ '' bytes, got '' @ show_nat (length user_id)))
      else Inr ())"

definition validate_group_id :: "bytes \<Rightarrow> unit result" where
  "validate_group_id group_id =
     (if length group_id \<noteq> GROUP_ID_LEN
      then Inl (Malformed (''group id must be '' @ show_nat GROUP_ID_LEN @ '' bytes, got '' @ show_nat (length group_id)))
      else Inr ())"

definition validate_group_name :: "utf8 \<Rightarrow> unit result" where
  "validate_group_name name =
     (if trim name = [] then Inl (Malformed ''group name must not be empty'')
      else if length name > MAX_GROUP_NAME_BYTES
      then Inl (Malformed (''group name exceeds '' @ show_nat MAX_GROUP_NAME_BYTES @ '' UTF-8 bytes''))
      else Inr ())"

fun validate_each :: "bytes list \<Rightarrow> unit result" where
  "validate_each [] = Inr ()"
| "validate_each (m # ms) = and_then (validate_user_id m ''group member UserID'') (\<lambda>_. validate_each ms)"

definition validate_member_user_ids :: "bytes list \<Rightarrow> unit result" where
  "validate_member_user_ids ms =
     (if length ms > MAX_GROUP_MEMBERS then Inl (Malformed (''group exceeds '' @ show_nat MAX_GROUP_MEMBERS @ '' members''))
      else validate_each ms)"

definition validate_group :: "group \<Rightarrow> unit result" where
  "validate_group g =
     and_then (validate_group_id (gr_id g)) (\<lambda>_.
     and_then (validate_group_name (gr_name g)) (\<lambda>_.
     and_then (validate_member_user_ids (gr_member_user_ids g)) (\<lambda>_.
     if length (gr_key g) \<noteq> GROUP_KEY_LEN then Inl (InvalidKeyLength GROUP_KEY_LEN (length (gr_key g)))
     else if gr_metadata_changed_by g \<noteq> [] then validate_user_id (gr_metadata_changed_by g) ''group metadata changed_by''
     else Inr ())))"

definition validate_group_metadata_update :: "group_metadata_update \<Rightarrow> unit result" where
  "validate_group_metadata_update u =
     and_then (validate_group_id (gu_group_id u)) (\<lambda>_.
     if gu_revision u = 0 then Inl (Malformed ''group metadata revision must be positive'')
     else
       and_then (validate_user_id (gu_changed_by u) ''group metadata changed_by'') (\<lambda>_.
       and_then (validate_group_name (gu_name u)) (\<lambda>_.
       validate_member_user_ids (gu_member_user_ids u))))"

definition canonicalize_members :: "bytes list \<Rightarrow> bytes list" where
  "canonicalize_members ms = remdups_adj (sort ms)"

section \<open>Creating and rotating\<close>

text \<open>The identifier and the keys come from the operating system.\<close>

definition create_group :: "bytes \<Rightarrow> bytes \<Rightarrow> utf8 \<Rightarrow> bytes list \<Rightarrow> group result" where
  "create_group group_id key name ms =
     and_then (validate_group_name name) (\<lambda>_.
     and_then (validate_member_user_ids ms) (\<lambda>_.
     Inr \<lparr>gr_id = group_id, gr_name = name, gr_member_user_ids = canonicalize_members ms, gr_key = key,
          gr_metadata_revision = 0, gr_metadata_changed_by = []\<rparr>))"

definition rotate_group :: "bytes \<Rightarrow> group \<Rightarrow> bytes list \<Rightarrow> group result" where
  "rotate_group key g ms =
     and_then (validate_group g) (\<lambda>_.
     and_then (validate_member_user_ids ms) (\<lambda>_.
     Inr (g\<lparr>gr_member_user_ids := canonicalize_members ms, gr_key := key\<rparr>)))"

section \<open>Codecs\<close>

definition put_members :: "bytes list \<Rightarrow> bytes" where
  "put_members ms = u16_bytes (word_of_nat (length ms)) @ concat (map wire_bytes ms)"

definition take_user_id :: "nat \<Rightarrow> string \<Rightarrow> cursor \<Rightarrow> (bytes \<times> cursor) result" where
  "take_user_id len label c =
     and_then (cursor_bytes (short_read len) c) (\<lambda>(user_id, c).
     and_then (validate_user_id user_id label) (\<lambda>_. Inr (user_id, c)))"

definition group_utf8 :: "string \<Rightarrow> bytes \<Rightarrow> utf8 result" where
  "group_utf8 what bs =
     (case utf8_validate 0 bs of
        None \<Rightarrow> Inr bs
      | Some e \<Rightarrow> Inl (Malformed (what @ '' name is not UTF-8: '' @ show_utf8_error e)))"

definition take_members :: "nat \<Rightarrow> string \<Rightarrow> cursor \<Rightarrow> (bytes list \<times> cursor) result" where
  "take_members len what c =
     and_then (cursor_u16 (short_read len) c) (\<lambda>(count, c).
     if unat count > MAX_GROUP_MEMBERS
     then Inl (Malformed (what @ '' has too many members: '' @ show_nat (unat count)))
     else read_many (take_user_id len ''group member UserID'') (unat count) c)"

definition encode_group_invite_content :: "group \<Rightarrow> bytes result" where
  "encode_group_invite_content g =
     and_then (validate_group g) (\<lambda>_.
     Inr (gr_id g @ gr_key g @ wire_bytes (gr_name g) @ put_members (canonicalize_members (gr_member_user_ids g))))"

definition decode_group_invite_content :: "bytes \<Rightarrow> group result" where
  "decode_group_invite_content bs =
     (let len = length bs in
      and_then (cursor_take (short_read len) GROUP_ID_LEN (cursor_new bs)) (\<lambda>(gid, c).
      and_then (cursor_take (short_read len) GROUP_KEY_LEN c) (\<lambda>(key, c).
      and_then (cursor_bytes (short_read len) c) (\<lambda>(name_bytes, c).
      and_then (group_utf8 ''group invite'' name_bytes) (\<lambda>name.
      and_then (validate_group_name name) (\<lambda>_.
      and_then (take_members len ''group'' c) (\<lambda>(ms, c).
      and_then (cursor_finish c) (\<lambda>_.
      let g = \<lparr>gr_id = gid, gr_name = name, gr_member_user_ids = canonicalize_members ms, gr_key = key,
               gr_metadata_revision = 0, gr_metadata_changed_by = []\<rparr> in
      and_then (validate_group g) (\<lambda>_. Inr g)))))))))"

definition encode_group_metadata_update :: "group_metadata_update \<Rightarrow> bytes result" where
  "encode_group_metadata_update u =
     and_then (validate_group_metadata_update u) (\<lambda>_.
     Inr (GROUP_METADATA_VERSION # gu_group_id u @ u64_bytes (gu_revision u) @ wire_bytes (gu_changed_by u) @
          wire_bytes (gu_name u) @ put_members (canonicalize_members (gu_member_user_ids u))))"

definition decode_group_metadata_update :: "bytes \<Rightarrow> group_metadata_update result" where
  "decode_group_metadata_update bs =
     (let len = length bs in
      and_then (cursor_u8 (short_read len) (cursor_new bs)) (\<lambda>(version, c).
      if version \<noteq> GROUP_METADATA_VERSION
      then Inl (Malformed (''unsupported group metadata version '' @ show_nat (unat version)))
      else
        and_then (cursor_take (short_read len) GROUP_ID_LEN c) (\<lambda>(gid, c).
        and_then (cursor_u64 (short_read len) c) (\<lambda>(revision, c).
        and_then (take_user_id len ''group metadata changed_by'' c) (\<lambda>(changed_by, c).
        and_then (cursor_bytes (short_read len) c) (\<lambda>(name_bytes, c).
        and_then (group_utf8 ''group metadata'' name_bytes) (\<lambda>name.
        and_then (validate_group_name name) (\<lambda>_.
        and_then (take_members len ''group metadata'' c) (\<lambda>(ms, c).
        and_then (cursor_finish c) (\<lambda>_.
        let u = \<lparr>gu_group_id = gid, gu_name = name, gu_revision = revision, gu_changed_by = changed_by,
                 gu_member_user_ids = canonicalize_members ms\<rparr> in
        and_then (validate_group_metadata_update u) (\<lambda>_. Inr u)))))))))))"

section \<open>Metadata updates\<close>

definition create_group_metadata_update ::
  "group \<Rightarrow> bytes \<Rightarrow> utf8 \<Rightarrow> bytes list \<Rightarrow> group_metadata_update result" where
  "create_group_metadata_update g changed_by name ms =
     and_then (validate_group g) (\<lambda>_.
     if changed_by \<notin> set (gr_member_user_ids g) then Inl (Malformed ''group metadata author is not a member'')
     else
       let name = trim name in
       and_then (validate_group_name name) (\<lambda>_.
       and_then (validate_member_user_ids ms) (\<lambda>_.
       let ms = canonicalize_members ms in
       if \<not> list_all (\<lambda>m. m \<in> set ms) (gr_member_user_ids g)
       then Inl (Malformed ''group metadata update cannot remove members'')
       else if gr_metadata_revision g = - 1 then Inl (Malformed ''group metadata revision overflow'')
       else Inr \<lparr>gu_group_id = gr_id g, gu_name = name, gu_revision = gr_metadata_revision g + 1,
                 gu_changed_by = changed_by, gu_member_user_ids = ms\<rparr>)))"

definition apply_group_metadata_update :: "group \<Rightarrow> group_metadata_update \<Rightarrow> bytes \<Rightarrow> group option result" where
  "apply_group_metadata_update g u sender =
     and_then (validate_group g) (\<lambda>_.
     and_then (validate_group_metadata_update u) (\<lambda>_.
     if gu_group_id u \<noteq> gr_id g then Inl (Malformed ''group metadata update id does not match group'')
     else if gu_changed_by u \<noteq> sender then Inl (Malformed ''group metadata signer does not match changed_by'')
     else if sender \<notin> set (gr_member_user_ids g) then Inl (Malformed ''group metadata signer is not a member'')
     else
       let merged_members = canonicalize_members (gr_member_user_ids g @ gu_member_user_ids u) in
       and_then (validate_member_user_ids merged_members) (\<lambda>_.
       let membership_changed = (merged_members \<noteq> gr_member_user_ids g);
           name_wins = ((gu_revision u, gu_changed_by u) > (gr_metadata_revision g, gr_metadata_changed_by g)) in
       if \<not> membership_changed \<and> \<not> name_wins then Inr None
       else Inr (Some
         \<lparr>gr_id = gr_id g, gr_name = (if name_wins then gu_name u else gr_name g), gr_member_user_ids = merged_members,
          gr_key = gr_key g, gr_metadata_revision = (if name_wins then gu_revision u else gr_metadata_revision g),
          gr_metadata_changed_by = (if name_wins then gu_changed_by u else gr_metadata_changed_by g)\<rparr>))))"

text \<open>A phone that receives updates one after the other and keeps what applies.\<close>

definition receive_update :: "group \<Rightarrow> group_metadata_update \<Rightarrow> group" where
  "receive_update g u =
     (case apply_group_metadata_update g u (gu_changed_by u) of Inr (Some g') \<Rightarrow> g' | _ \<Rightarrow> g)"

section \<open>Validation\<close>

lemma validate_user_id_ok [simp]: "validate_user_id u l = Inr () \<longleftrightarrow> length u = GROUP_USER_ID_LEN"
  by (simp add: validate_user_id_def)

lemma validate_each_ok [simp]: "validate_each ms = Inr () \<longleftrightarrow> (\<forall>m\<in>set ms. length m = GROUP_USER_ID_LEN)"
  by (induction ms) (auto simp: and_then_Inr)

lemma validate_members_ok [simp]:
  "validate_member_user_ids ms = Inr () \<longleftrightarrow> length ms \<le> MAX_GROUP_MEMBERS \<and> (\<forall>m\<in>set ms. length m = GROUP_USER_ID_LEN)"
  by (auto simp: validate_member_user_ids_def)

lemma validate_name_ok [simp]: "validate_group_name n = Inr () \<longleftrightarrow> trim n \<noteq> [] \<and> length n \<le> MAX_GROUP_NAME_BYTES"
  by (auto simp: validate_group_name_def)

lemma validate_group_id_ok [simp]: "validate_group_id i = Inr () \<longleftrightarrow> length i = GROUP_ID_LEN"
  by (simp add: validate_group_id_def)

lemma validate_group_ok:
  "validate_group g = Inr () \<longleftrightarrow> length (gr_id g) = GROUP_ID_LEN \<and> validate_group_name (gr_name g) = Inr () \<and>
     validate_member_user_ids (gr_member_user_ids g) = Inr () \<and> length (gr_key g) = GROUP_KEY_LEN \<and>
     (gr_metadata_changed_by g = [] \<or> length (gr_metadata_changed_by g) = GROUP_USER_ID_LEN)"
  by (auto simp: validate_group_def and_then_Inr simp del: validate_name_ok validate_members_ok)

lemma validate_update_ok:
  "validate_group_metadata_update u = Inr () \<longleftrightarrow> length (gu_group_id u) = GROUP_ID_LEN \<and> gu_revision u \<noteq> 0 \<and>
     length (gu_changed_by u) = GROUP_USER_ID_LEN \<and> validate_group_name (gu_name u) = Inr () \<and>
     validate_member_user_ids (gu_member_user_ids u) = Inr ()"
  by (auto simp: validate_group_metadata_update_def and_then_Inr simp del: validate_name_ok validate_members_ok)

lemma canonical_set: "canonicalize_members ms = sorted_list_of_set (set ms)"
  by (rule sorted_distinct_set_unique) (simp_all add: canonicalize_members_def distinct_remdups_adj_sorted)

lemma canonical_simps [simp]:
  "set (canonicalize_members ms) = set ms" "length (canonicalize_members ms) = card (set ms)"
  "canonicalize_members (canonicalize_members ms) = canonicalize_members ms"
  by (simp_all add: canonical_set)

section \<open>Merging updates\<close>

type_synonym group_stamp = "u64 \<times> bytes"

definition group_stamp_of :: "group \<Rightarrow> group_stamp" where
  "group_stamp_of g = (gr_metadata_revision g, gr_metadata_changed_by g)"

definition update_stamp :: "group_metadata_update \<Rightarrow> group_stamp" where
  "update_stamp u = (gu_revision u, gu_changed_by u)"

text \<open>The people a phone knows in the group after a set of updates, and the names it has seen.\<close>

definition all_members :: "group \<Rightarrow> group_metadata_update set \<Rightarrow> bytes set" where
  "all_members g U = set (gr_member_user_ids g) \<union> (\<Union>u\<in>U. set (gu_member_user_ids u))"

definition seen_names :: "group \<Rightarrow> group_metadata_update set \<Rightarrow> (group_stamp \<times> utf8) set" where
  "seen_names g U = insert (group_stamp_of g, gr_name g) ((\<lambda>u. (update_stamp u, gu_name u)) ` U)"

definition well_formed_group :: "group \<Rightarrow> bool" where
  "well_formed_group g \<longleftrightarrow> validate_group g = Inr () \<and> canonicalize_members (gr_member_user_ids g) = gr_member_user_ids g"

definition update_admissible :: "group \<Rightarrow> group_metadata_update \<Rightarrow> bool" where
  "update_admissible g u \<longleftrightarrow> validate_group_metadata_update u = Inr () \<and> gu_group_id u = gr_id g \<and>
     gu_changed_by u \<in> set (gr_member_user_ids g)"

definition merged :: "group \<Rightarrow> group_metadata_update set \<Rightarrow> group \<Rightarrow> bool" where
  "merged g U h \<longleftrightarrow> well_formed_group h \<and> gr_id h = gr_id g \<and> gr_key h = gr_key g \<and>
     set (gr_member_user_ids h) = all_members g U \<and>
     group_stamp_of h = Max (fst ` seen_names g U) \<and> (group_stamp_of h, gr_name h) \<in> seen_names g U"

lemma receive_form:
  assumes "well_formed_group h" "update_admissible h u"
    and "card (set (gr_member_user_ids h) \<union> set (gu_member_user_ids u)) \<le> MAX_GROUP_MEMBERS"
  shows "receive_update h u = h\<lparr>gr_member_user_ids := canonicalize_members (gr_member_user_ids h @ gu_member_user_ids u),
     gr_name := if group_stamp_of h < update_stamp u then gu_name u else gr_name h,
     gr_metadata_revision := fst (max (group_stamp_of h) (update_stamp u)),
     gr_metadata_changed_by := snd (max (group_stamp_of h) (update_stamp u))\<rparr>"
proof -
  let ?m = "canonicalize_members (gr_member_user_ids h @ gu_member_user_ids u)"
  have ok: "validate_group h = Inr ()" "validate_group_metadata_update u = Inr ()" "gu_group_id u = gr_id h"
      "gu_changed_by u \<in> set (gr_member_user_ids h)" "canonicalize_members (gr_member_user_ids h) = gr_member_user_ids h"
    using assms by (simp_all add: well_formed_group_def update_admissible_def)
  then have v: "validate_member_user_ids ?m = Inr ()"
    using assms(3) by (auto simp: validate_group_ok validate_update_ok)
  have "apply_group_metadata_update h u (gu_changed_by u) =
     (if ?m = gr_member_user_ids h \<and> \<not> group_stamp_of h < update_stamp u then Inr None
      else Inr (Some \<lparr>gr_id = gr_id h, gr_name = (if group_stamp_of h < update_stamp u then gu_name u else gr_name h),
        gr_member_user_ids = ?m, gr_key = gr_key h,
        gr_metadata_revision = (if group_stamp_of h < update_stamp u then gu_revision u else gr_metadata_revision h),
        gr_metadata_changed_by = (if group_stamp_of h < update_stamp u then gu_changed_by u else gr_metadata_changed_by h)\<rparr>))"
    using ok v unfolding group_stamp_of_def update_stamp_def
    by (simp add: apply_group_metadata_update_def Let_def del: validate_members_ok less_prod_simp)
  then show ?thesis
    by (cases "group_stamp_of h < update_stamp u") (auto simp: receive_update_def max_def group_stamp_of_def update_stamp_def
        simp del: less_prod_simp less_eq_prod_simp dest: leD)
qed

lemma well_formed_received:
  assumes "well_formed_group h" "update_admissible h u"
    and "card (set (gr_member_user_ids h) \<union> set (gu_member_user_ids u)) \<le> MAX_GROUP_MEMBERS"
  shows "well_formed_group (receive_update h u)"
  using assms unfolding receive_form [OF assms]
  by (auto simp: well_formed_group_def update_admissible_def validate_group_ok validate_update_ok max_def
      group_stamp_of_def update_stamp_def)

lemma merged_step:
  assumes "merged g U h" "finite U" "update_admissible g u" "card (all_members g (insert u U)) \<le> MAX_GROUP_MEMBERS"
  shows "merged g (insert u U) (receive_update h u)"
proof -
  have h: "well_formed_group h" "gr_id h = gr_id g" "set (gr_member_user_ids h) = all_members g U"
      "group_stamp_of h = Max (fst ` seen_names g U)" "(group_stamp_of h, gr_name h) \<in> seen_names g U"
    using assms(1) by (auto simp: merged_def)
  have adm: "update_admissible h u" using assms(3) h by (auto simp: update_admissible_def all_members_def)
  have members: "set (gr_member_user_ids h) \<union> set (gu_member_user_ids u) = all_members g (insert u U)"
    using h(3) by (auto simp: all_members_def)
  with assms(4) have small: "card (set (gr_member_user_ids h) \<union> set (gu_member_user_ids u)) \<le> MAX_GROUP_MEMBERS" by simp
  have names: "seen_names g (insert u U) = insert (update_stamp u, gu_name u) (seen_names g U)" by (auto simp: seen_names_def)
  have "Max (fst ` seen_names g (insert u U)) = max (update_stamp u) (group_stamp_of h)"
    unfolding names using h(4) assms(2) by (simp add: seen_names_def)
  moreover have "group_stamp_of (receive_update h u) = max (group_stamp_of h) (update_stamp u)"
    unfolding receive_form [OF h(1) adm small] by (simp add: group_stamp_of_def)
  moreover have "gr_name (receive_update h u) = (if group_stamp_of h < update_stamp u then gu_name u else gr_name h)"
      "set (gr_member_user_ids (receive_update h u)) = all_members g (insert u U)"
      "gr_id (receive_update h u) = gr_id g" "gr_key (receive_update h u) = gr_key g"
    unfolding receive_form [OF h(1) adm small] using members assms(1) by (simp_all add: merged_def)
  ultimately show ?thesis
    using well_formed_received [OF h(1) adm small] h(5) by (auto simp: merged_def names max_def max.commute)
qed

lemma merged_run:
  assumes "well_formed_group g" "\<forall>u\<in>set us. update_admissible g u" "card (all_members g (set us)) \<le> MAX_GROUP_MEMBERS"
  shows "merged g (set us) (foldl receive_update g us)"
  using assms(2,3)
proof (induction us rule: rev_induct)
  case Nil
  then show ?case using assms(1) by (simp add: merged_def all_members_def seen_names_def)
next
  case (snoc u us)
  have "card (all_members g (set us)) \<le> card (all_members g (set (us @ [u])))"
    by (rule card_mono) (auto simp: all_members_def)
  with snoc show ?case using merged_step [of g "set us" "foldl receive_update g us" u] by simp
qed

lemma merged_unique:
  assumes "merged g U h" "merged g U h'"
    and "\<And>s n n'. (s, n) \<in> seen_names g U \<Longrightarrow> (s, n') \<in> seen_names g U \<Longrightarrow> n = n'"
  shows "h = h'"
proof -
  have "gr_member_user_ids h = gr_member_user_ids h'"
    using assms(1,2) unfolding merged_def well_formed_group_def canonical_set by metis
  moreover have "gr_name h = gr_name h'" "group_stamp_of h = group_stamp_of h'"
    using assms(1,2) assms(3) [of "group_stamp_of h"] unfolding merged_def by auto
  ultimately show ?thesis using assms(1,2) by (cases h; cases h') (auto simp: merged_def group_stamp_of_def)
qed

section \<open>Codec laws\<close>

interpretation user_id_codec: cursor_codec wire_bytes "take_user_id len label" "\<lambda>u. length u = GROUP_USER_ID_LEN" for len label
proof unfold_locales
  fix x pre r :: bytes
  assume "length x = GROUP_USER_ID_LEN"
  then show "take_user_id len label (cur_at pre (wire_bytes x @ r)) = Inr (x, cur_at (pre @ wire_bytes x) r)"
    using bytes_codec.get_put [of x "short_read len" pre r] by (simp add: take_user_id_def validate_user_id_def group_consts)
next
  fix pre bs x :: bytes and d
  assume "take_user_id len label (cur_at pre bs) = Inr (x, d)"
  then have "cursor_bytes (short_read len) (cur_at pre bs) = Inr (x, d)" "length x = GROUP_USER_ID_LEN"
    by (auto simp: take_user_id_def and_then_Inr)
  then show "length x = GROUP_USER_ID_LEN \<and> (\<exists>r. bs = wire_bytes x @ r \<and> d = cur_at (pre @ wire_bytes x) r)"
    using bytes_codec.get_sound by blast
qed

lemma take_members_put:
  assumes "validate_member_user_ids ms = Inr ()"
  shows "take_members len what (cur_at pre (put_members ms)) = Inr (ms, cur_at (pre @ put_members ms) [])"
proof -
  have ms: "list_all (\<lambda>u. length u = GROUP_USER_ID_LEN) ms" "length ms \<le> 64"
    using assms by (simp_all add: list_all_iff MAX_GROUP_MEMBERS_def)
  then have "unat (word_of_nat (length ms) :: u16) = length ms" by (simp add: unat_of_nat take_bit_nat_eq_self)
  moreover have "cursor_u16 (short_read len) (cur_at pre (put_members ms)) =
      Inr (word_of_nat (length ms), cur_at (pre @ u16_bytes (word_of_nat (length ms))) (concat (map wire_bytes ms)))"
    unfolding put_members_def by (rule u16_codec.get_put) simp
  ultimately show ?thesis
    using user_id_codec.many_put_all [OF ms(1), of len "''group member UserID''" "pre @ u16_bytes (word_of_nat (length ms))"] ms(2)
    by (simp add: take_members_def MAX_GROUP_MEMBERS_def put_members_def)
qed

lemma group_utf8_ok [simp]: "utf8_validate 0 bs = None \<Longrightarrow> group_utf8 what bs = Inr bs"
  by (simp add: group_utf8_def)

definition canonical_group :: "group \<Rightarrow> group" where
  "canonical_group g = \<lparr>gr_id = gr_id g, gr_name = gr_name g, gr_member_user_ids = canonicalize_members (gr_member_user_ids g),
     gr_key = gr_key g, gr_metadata_revision = 0, gr_metadata_changed_by = []\<rparr>"

definition canonical_update :: "group_metadata_update \<Rightarrow> group_metadata_update" where
  "canonical_update u = \<lparr>gu_group_id = gu_group_id u, gu_name = gu_name u, gu_revision = gu_revision u,
     gu_changed_by = gu_changed_by u, gu_member_user_ids = canonicalize_members (gu_member_user_ids u)\<rparr>"

lemma canonical_members_ok: "validate_member_user_ids ms = Inr () \<Longrightarrow> validate_member_user_ids (canonicalize_members ms) = Inr ()"
  using card_length [of ms] by auto

lemma invite_arrives:
  assumes "encode_group_invite_content g = Inr bs" "utf8_validate 0 (gr_name g) = None"
  shows "decode_group_invite_content bs = Inr (canonical_group g)"
proof -
  let ?ms = "canonicalize_members (gr_member_user_ids g)"
  from assms(1) have ok: "validate_group g = Inr ()" and bs: "bs = gr_id g @ gr_key g @ wire_bytes (gr_name g) @ put_members ?ms"
    by (auto simp: encode_group_invite_content_def and_then_Inr)
  then have len: "length (gr_id g) = GROUP_ID_LEN" "length (gr_key g) = GROUP_KEY_LEN" "length (gr_name g) \<le> 65535"
      "validate_group_name (gr_name g) = Inr ()" "validate_member_user_ids ?ms = Inr ()"
    using canonical_members_ok [of "gr_member_user_ids g"] by (auto simp: validate_group_ok MAX_GROUP_NAME_BYTES_def simp del: validate_members_ok)
  have "validate_group (canonical_group g) = Inr ()" using ok len(5) by (simp add: validate_group_ok canonical_group_def)
  then show ?thesis
    using len assms(2) bytes_codec.get_put [OF len(3)] take_members_put [OF len(5)] unfolding bs
    by (simp add: decode_group_invite_content_def Let_def cursor_new_at codec_simps canonical_group_def
        del: validate_members_ok validate_name_ok)
qed

lemma update_arrives:
  assumes "encode_group_metadata_update u = Inr bs" "utf8_validate 0 (gu_name u) = None"
  shows "decode_group_metadata_update bs = Inr (canonical_update u)"
proof -
  let ?ms = "canonicalize_members (gu_member_user_ids u)"
  from assms(1) have ok: "validate_group_metadata_update u = Inr ()"
    and bs: "bs = [GROUP_METADATA_VERSION] @ gu_group_id u @ u64_bytes (gu_revision u) @ wire_bytes (gu_changed_by u) @
        wire_bytes (gu_name u) @ put_members ?ms"
    by (auto simp: encode_group_metadata_update_def and_then_Inr)
  then have len: "length (gu_group_id u) = GROUP_ID_LEN" "length (gu_changed_by u) = GROUP_USER_ID_LEN" "length (gu_name u) \<le> 65535"
      "validate_group_name (gu_name u) = Inr ()" "validate_member_user_ids ?ms = Inr ()"
    using canonical_members_ok [of "gu_member_user_ids u"] by (auto simp: validate_update_ok MAX_GROUP_NAME_BYTES_def simp del: validate_members_ok)
  have "validate_group_metadata_update (canonical_update u) = Inr ()" using ok len(5) by (simp add: validate_update_ok canonical_update_def)
  then show ?thesis
    using len assms(2) bytes_codec.get_put [OF len(3)] take_members_put [OF len(5)] unfolding bs
    by (simp add: decode_group_metadata_update_def Let_def cursor_new_at codec_simps u8_codec.get_put u64_codec.get_put user_id_codec.get_put
        canonical_update_def del: validate_members_ok validate_name_ok append.simps)
qed

section \<open>Properties\<close>

text \<open>
  Claim C32. Phones converge. Phones that start from the same group and receive the same updates, in any
  order and any number of times, end with the same group: the key and the id unchanged, exactly the
  members of the group and of all updates, and the name of the highest stamp. It takes that every author
  is a member from the start, that no more than 64 people come together, and that no stamp is used for
  two names.
\<close>

theorem group_updates_converge:
  assumes "well_formed_group g" "\<forall>u\<in>set us. update_admissible g u" "set us' = set us"
    and "card (all_members g (set us)) \<le> MAX_GROUP_MEMBERS"
    and "\<And>s n n'. (s, n) \<in> seen_names g (set us) \<Longrightarrow> (s, n') \<in> seen_names g (set us) \<Longrightarrow> n = n'"
  shows "foldl receive_update g us' = foldl receive_update g us \<and>
    set (gr_member_user_ids (foldl receive_update g us)) = all_members g (set us) \<and>
    gr_id (foldl receive_update g us) = gr_id g \<and> gr_key (foldl receive_update g us) = gr_key g \<and>
    (Max (fst ` seen_names g (set us)), gr_name (foldl receive_update g us)) \<in> seen_names g (set us)"
proof -
  have m: "merged g (set us) (foldl receive_update g us)" using merged_run [OF assms(1,2,4)] .
  moreover have "merged g (set us) (foldl receive_update g us')" using merged_run [of g us'] assms by simp
  ultimately show ?thesis using merged_unique [OF _ m assms(5)] by (auto simp: merged_def)
qed

text \<open>What a reader may rely on in a name and in a member list.\<close>

definition sound_name :: "utf8 \<Rightarrow> bool" where
  "sound_name name \<longleftrightarrow> utf8_ok name \<and> trim name \<noteq> [] \<and> length name \<le> 128"

definition sound_members :: "bytes list \<Rightarrow> bool" where
  "sound_members ms \<longleftrightarrow> length ms \<le> 64 \<and> list_all (\<lambda>m. length m = 16) ms \<and> sorted ms \<and> distinct ms"

lemma group_utf8_Inr: "group_utf8 what bs = Inr name \<longleftrightarrow> name = bs \<and> utf8_ok bs"
  by (auto simp: group_utf8_def utf8_ok_def split: option.splits)

lemma sound_membersI: "validate_member_user_ids (canonicalize_members ms) = Inr () \<Longrightarrow> sound_members (canonicalize_members ms)"
  by (simp add: sound_members_def list_all_iff group_consts) (simp add: canonical_set)

lemma decoded_invite_sound:
  assumes "decode_group_invite_content bs = Inr h"
  shows "length (gr_id h) = 16 \<and> length (gr_key h) = 32 \<and> sound_name (gr_name h) \<and> sound_members (gr_member_user_ids h) \<and>
    gr_metadata_revision h = 0 \<and> gr_metadata_changed_by h = []"
proof -
  from assms obtain ms where h: "validate_group h = Inr ()" "utf8_ok (gr_name h)" "gr_member_user_ids h = canonicalize_members ms"
      "gr_metadata_revision h = 0" "gr_metadata_changed_by h = []"
    by (auto simp: decode_group_invite_content_def Let_def and_then_Inr group_utf8_Inr split: prod.splits)
  then have "sound_members (gr_member_user_ids h)" using sound_membersI [of ms] by (simp add: validate_group_ok)
  with h show ?thesis by (simp add: validate_group_ok sound_name_def group_consts)
qed

lemma decoded_update_sound:
  assumes "decode_group_metadata_update bs = Inr v"
  shows "length (gu_group_id v) = 16 \<and> gu_revision v \<noteq> 0 \<and> length (gu_changed_by v) = 16 \<and> sound_name (gu_name v) \<and>
    sound_members (gu_member_user_ids v)"
proof -
  from assms obtain ms where v: "validate_group_metadata_update v = Inr ()" "utf8_ok (gu_name v)"
      "gu_member_user_ids v = canonicalize_members ms"
    by (auto simp: decode_group_metadata_update_def Let_def and_then_Inr group_utf8_Inr split: prod.splits if_splits)
  then have "sound_members (gu_member_user_ids v)" using sound_membersI [of ms] by (simp add: validate_update_ok)
  with v show ?thesis by (simp add: validate_update_ok sound_name_def group_consts)
qed

text \<open>
  Claim C33. Group contents survive the wire, and nothing unsound is read from it. An invite that is written
  reads back as the group with its members in canonical order and no metadata stamp; a metadata update
  reads back as itself with its members in canonical order. Whatever bytes are read, an invite that is
  accepted has ids and key of the right width, a non-blank UTF-8 name of at most 128 bytes, at most 64
  members in strictly ascending order and no stamp; an update that is accepted likewise, with a positive revision
  and an author.
\<close>

theorem group_contents_arrive:
  "(encode_group_invite_content g = Inr bs \<and> utf8_ok (gr_name g) \<longrightarrow> decode_group_invite_content bs = Inr (canonical_group g)) \<and>
   (encode_group_metadata_update u = Inr bs \<and> utf8_ok (gu_name u) \<longrightarrow> decode_group_metadata_update bs = Inr (canonical_update u)) \<and>
   (decode_group_invite_content any = Inr h \<longrightarrow>
      length (gr_id h) = 16 \<and> length (gr_key h) = 32 \<and> sound_name (gr_name h) \<and> sound_members (gr_member_user_ids h) \<and>
      gr_metadata_revision h = 0 \<and> gr_metadata_changed_by h = []) \<and>
   (decode_group_metadata_update any = Inr v \<longrightarrow>
      length (gu_group_id v) = 16 \<and> gu_revision v \<noteq> 0 \<and> length (gu_changed_by v) = 16 \<and> sound_name (gu_name v) \<and>
      sound_members (gu_member_user_ids v))"
  using invite_arrives update_arrives decoded_invite_sound decoded_update_sound by (auto simp: utf8_ok_def)

section \<open>Witnesses\<close>

definition demo_member :: "u8 \<Rightarrow> bytes" where
  "demo_member n = replicate 16 n"

definition demo_group :: group where
  "demo_group = \<lparr>gr_id = replicate 16 9, gr_name = ascii ''Deck'', gr_member_user_ids = [demo_member 1, demo_member 2],
     gr_key = replicate 32 7, gr_metadata_revision = 0, gr_metadata_changed_by = []\<rparr>"

definition demo_update :: "u8 \<Rightarrow> utf8 \<Rightarrow> bytes list \<Rightarrow> group_metadata_update" where
  "demo_update author name ms = \<lparr>gu_group_id = replicate 16 9, gu_name = name, gu_revision = 1, gu_changed_by = demo_member author,
     gu_member_user_ids = ms\<rparr>"

lemma demo_member_less [simp]: "m < n \<Longrightarrow> demo_member m < demo_member n"
proof -
  have "demo_member n = n # replicate 15 n" for n by (simp add: demo_member_def numeral_eq_Suc)
  then show "m < n \<Longrightarrow> demo_member m < demo_member n" by simp
qed

lemma demo_member_eq [simp]: "demo_member m = demo_member n \<longleftrightarrow> m = n" "length (demo_member n) = 16" "demo_member n \<noteq> []"
  by (auto simp: demo_member_def)

lemma demo_name_ok: "trim (ascii ''Deck'') \<noteq> []" "trim (ascii ''Ship'') \<noteq> []" "length (ascii ''Deck'') = 4" "length (ascii ''Ship'') = 4"
    "utf8_ok (ascii ''Deck'')" "ascii ''Deck'' \<noteq> ascii ''Ship''"
  by (simp_all add: text_eval utf8_ok_def ascii_def char_error_def utf8_width_def byte_in_def tail_tests_def)

lemma demo_canonical: "canonicalize_members [demo_member 1, demo_member 2] = [demo_member 1, demo_member 2]"
  by (simp add: canonicalize_members_def less_imp_le)

lemma demo_group_ok: "well_formed_group demo_group"
  by (simp add: well_formed_group_def demo_group_def validate_group_ok group_consts demo_name_ok demo_canonical)

lemma demo_update_ok:
  "a \<in> {1, 2} \<Longrightarrow> n \<in> {ascii ''Deck'', ascii ''Ship''} \<Longrightarrow> ms = [demo_member k] \<Longrightarrow>
   update_admissible demo_group (demo_update a n ms)"
  by (auto simp: update_admissible_def validate_update_ok demo_update_def demo_group_def group_consts demo_name_ok)

theorem group_updates_converge_witness:
  "foldl receive_update demo_group [demo_update 2 (ascii ''Ship'') [demo_member 4], demo_update 1 (ascii ''Deck'') [demo_member 3]] =
   foldl receive_update demo_group [demo_update 1 (ascii ''Deck'') [demo_member 3], demo_update 2 (ascii ''Ship'') [demo_member 4]]"
proof -
  let ?u = "demo_update 1 (ascii ''Deck'') [demo_member 3]" and ?v = "demo_update 2 (ascii ''Ship'') [demo_member 4]"
  show ?thesis
  proof (rule conjunct1 [OF group_updates_converge [OF demo_group_ok]])
    show "\<forall>u\<in>set [?u, ?v]. update_admissible demo_group u" by (simp add: demo_update_ok)
    show "card (all_members demo_group (set [?u, ?v])) \<le> MAX_GROUP_MEMBERS"
      by (simp add: all_members_def demo_group_def demo_update_def MAX_GROUP_MEMBERS_def card_insert_if)
    show "n = n'" if "(s, n) \<in> seen_names demo_group (set [?u, ?v])" "(s, n') \<in> seen_names demo_group (set [?u, ?v])" for s n n'
      using that by (auto simp: seen_names_def group_stamp_of_def update_stamp_def demo_update_def demo_group_def)
  qed auto
qed

theorem group_contents_arrive_witness:
  "\<exists>bs. encode_group_invite_content demo_group = Inr bs \<and> decode_group_invite_content bs = Inr demo_group \<and>
     sound_members (gr_member_user_ids demo_group)"
proof -
  have ok: "validate_group demo_group = Inr ()" using demo_group_ok by (simp add: well_formed_group_def)
  then obtain bs where bs: "encode_group_invite_content demo_group = Inr bs" by (simp add: encode_group_invite_content_def)
  have "canonical_group demo_group = demo_group" by (simp add: canonical_group_def demo_group_def demo_canonical)
  moreover have "utf8_ok (gr_name demo_group)" by (simp add: demo_group_def demo_name_ok)
  ultimately show ?thesis using group_contents_arrive [of demo_group bs _ bs demo_group] bs by simp
qed

section \<open>What the conditions are for\<close>

text \<open>
  An update by somebody who was just added is refused until the addition has arrived: a phone that
  receives the two in the other order never learns of the person added last.
\<close>

theorem late_addition_lost:
  "let added = demo_update 1 (ascii ''Deck'') [demo_member 3]; then_adds = demo_update 3 (ascii ''Ship'') [demo_member 4] in
   demo_member 4 \<in> set (gr_member_user_ids (foldl receive_update demo_group [added, then_adds])) \<and>
   demo_member 4 \<notin> set (gr_member_user_ids (foldl receive_update demo_group [then_adds, added]))"
proof -
  let ?a = "demo_update 1 (ascii ''Deck'') [demo_member 3]" and ?b = "demo_update 3 (ascii ''Ship'') [demo_member 4]"
  have a: "merged demo_group {?a} (receive_update demo_group ?a)"
    using merged_run [OF demo_group_ok, of "[?a]"] demo_update_ok
    by (simp add: all_members_def demo_group_def demo_update_def MAX_GROUP_MEMBERS_def card_insert_if)
  let ?h = "receive_update demo_group ?a"
  have h: "well_formed_group ?h" "gr_id ?h = replicate 16 9" "set (gr_member_user_ids ?h) = {demo_member 1, demo_member 2, demo_member 3}"
    using a by (auto simp: merged_def all_members_def demo_group_def demo_update_def)
  have b: "update_admissible ?h ?b"
    using h by (simp add: update_admissible_def validate_update_ok demo_update_def group_consts demo_name_ok)
  have small: "card (set (gr_member_user_ids ?h) \<union> set (gu_member_user_ids ?b)) \<le> MAX_GROUP_MEMBERS"
    unfolding h(3) by (simp add: demo_update_def MAX_GROUP_MEMBERS_def card_insert_if)
  have "demo_member 4 \<in> set (gr_member_user_ids (receive_update ?h ?b))"
    unfolding receive_form [OF h(1) b small] by (simp add: demo_update_def)
  moreover have "receive_update demo_group ?b = demo_group"
    using demo_group_ok by (simp add: receive_update_def apply_group_metadata_update_def well_formed_group_def demo_update_def demo_group_def
        validate_update_ok split: sum.splits option.splits) (auto simp: and_then_Inr split: if_splits)
  ultimately show ?thesis using h(3) by (simp add: Let_def)
qed

text \<open>
  Two names under one stamp, as two devices of one person write them from the same revision, leave every
  phone with the name that reached it first.
\<close>

theorem same_stamp_splits_name:
  "let u = demo_update 1 (ascii ''Deck'') []; v = demo_update 1 (ascii ''Ship'') [] in
   gr_name (foldl receive_update demo_group [u, v]) \<noteq> gr_name (foldl receive_update demo_group [v, u])"
proof -
  have adm: "update_admissible h (demo_update 1 n [])"
    if "n \<in> {ascii ''Deck'', ascii ''Ship''}" "gr_id h = gr_id demo_group" "gr_member_user_ids h = gr_member_user_ids demo_group" for h n
    using that by (auto simp: update_admissible_def validate_update_ok demo_update_def demo_group_def group_consts demo_name_ok)
  have form: "receive_update h (demo_update 1 n []) = h\<lparr>gr_name := if group_stamp_of h < (1, demo_member 1) then n else gr_name h,
      gr_metadata_revision := fst (max (group_stamp_of h) (1, demo_member 1)),
      gr_metadata_changed_by := snd (max (group_stamp_of h) (1, demo_member 1))\<rparr>"
    if "n \<in> {ascii ''Deck'', ascii ''Ship''}" "well_formed_group h" "gr_id h = gr_id demo_group"
      "gr_member_user_ids h = gr_member_user_ids demo_group" for h n
    using receive_form [OF that(2) adm [OF that(1,3,4)]] that(4)
    by (simp add: demo_update_def update_stamp_def demo_group_def demo_canonical MAX_GROUP_MEMBERS_def card_insert_if)
  have wf: "well_formed_group (receive_update demo_group (demo_update 1 n []))" if "n \<in> {ascii ''Deck'', ascii ''Ship''}" for n
    using well_formed_received [OF demo_group_ok adm [OF that]]
    by (simp add: demo_update_def demo_group_def MAX_GROUP_MEMBERS_def card_insert_if)
  have "gr_name (receive_update (receive_update demo_group (demo_update 1 n [])) (demo_update 1 n' [])) = n"
    if "n \<in> {ascii ''Deck'', ascii ''Ship''}" "n' \<in> {ascii ''Deck'', ascii ''Ship''}" for n n'
    using form [OF that(1) demo_group_ok] form [OF that(2) wf [OF that(1)]]
    by (simp add: group_stamp_of_def demo_group_def)
  then show ?thesis by (simp add: Let_def demo_name_ok)
qed

end
