(* ===== verification/Friend_Cards.thy ===== *)
theory Friend_Cards
  imports Relay_Endpoints Json_Fault "HOL-Library.AList"
begin

text \<open>
  Identities and the cards people exchange to become contacts: \<open>core/src/identity.rs\<close> and the setup
  card of \<open>core/src/relay_setup.rs\<close>. A friend card travels as JSON, as one of the binary link forms
  \<open>CMFRIEND2\<close> to \<open>CMFRIEND4\<close>, or inside a shared card that a mutual acquaintance signs. The lemmas show
  that a signature commits to every field, that nothing is imported with a signature that does not
  verify, that the compressed link form loses nothing, and what a scanned text is taken for.
  Ed25519, BLAKE2b, base64url, base32 and \<open>serde_json\<close> are third-party crates and parameters.
\<close>

section \<open>Identities\<close>

definition USER_ID_LEN :: nat where "USER_ID_LEN = 16"
definition FRIEND_LINK_PREFIX :: utf8 where "FRIEND_LINK_PREFIX = ascii ''CMFRIEND1:''"
definition FRIEND_LINK_PREFIX_V2 :: utf8 where "FRIEND_LINK_PREFIX_V2 = ascii ''CMFRIEND2:''"
definition SHARED_CARD_PREFIX :: utf8 where "SHARED_CARD_PREFIX = ascii ''CMSHARE1:''"
definition FRIEND_LINK_PREFIX_V3 :: utf8 where "FRIEND_LINK_PREFIX_V3 = ascii ''CMFRIEND3:''"
definition FRIEND_LINK_PREFIX_V4 :: utf8 where "FRIEND_LINK_PREFIX_V4 = ascii ''CMFRIEND4:''"
definition DEVICE_LINK_PREFIX :: utf8 where "DEVICE_LINK_PREFIX = ascii ''CMLINK1:''"
definition EMIT_FRIEND_LINK_V3 :: bool where "EMIT_FRIEND_LINK_V3 = True"
definition EMIT_FRIEND_LINK_V4 :: bool where "EMIT_FRIEND_LINK_V4 = False"
definition V3_URL_TAG_NONE :: u8 where "V3_URL_TAG_NONE = 0"
definition V3_URL_TAG_EXPLICIT :: u8 where "V3_URL_TAG_EXPLICIT = 1"
definition V3_URL_TAG_OFFICIAL :: u8 where "V3_URL_TAG_OFFICIAL = 2"
definition V3_TOKEN_TAG_NONE :: u8 where "V3_TOKEN_TAG_NONE = 0"
definition V3_TOKEN_TAG_VERBATIM :: u8 where "V3_TOKEN_TAG_VERBATIM = 1"
definition V3_TOKEN_TAG_HEX :: u8 where "V3_TOKEN_TAG_HEX = 2"
definition V3_SIG_TAG_NONE :: u8 where "V3_SIG_TAG_NONE = 0"
definition V3_SIG_TAG_PRESENT :: u8 where "V3_SIG_TAG_PRESENT = 1"
definition V4_ROSTER_TAG_NONE :: u8 where "V4_ROSTER_TAG_NONE = 0"
definition V4_ROSTER_TAG_HASH :: u8 where "V4_ROSTER_TAG_HASH = 1"
definition FRIEND_CARD_SIGNATURE_LEN :: nat where "FRIEND_CARD_SIGNATURE_LEN = 64"
definition FRIEND_CARD_SIGN_DOMAIN :: bytes where
  "FRIEND_CARD_SIGN_DOMAIN = ascii ''CruiseMesh friend card self-signature v1'' @ [0]"
definition V3_MAX_PACKED_HEX_CHARS :: nat where "V3_MAX_PACKED_HEX_CHARS = 2 * 255"
definition MAX_FRIEND_CARD_JSON_BYTES :: nat where "MAX_FRIEND_CARD_JSON_BYTES = 16 * 1024"
definition MAX_FRIEND_TEXT_BYTES :: nat where "MAX_FRIEND_TEXT_BYTES = 24 * 1024"
definition MAX_DISPLAY_NAME_BYTES :: nat where "MAX_DISPLAY_NAME_BYTES = 128"
definition MAX_RELAY_URL_BYTES :: nat where "MAX_RELAY_URL_BYTES = 2 * 1024"
definition MAX_RELAY_TOKEN_BYTES :: nat where "MAX_RELAY_TOKEN_BYTES = 1024"
definition OFFICIAL_RELAY_HOST :: utf8 where "OFFICIAL_RELAY_HOST = ascii ''relay.cruisemesh.app''"
definition OFFICIAL_RELAY_URL :: utf8 where "OFFICIAL_RELAY_URL = ascii ''https://'' @ OFFICIAL_RELAY_HOST"

lemmas card_tags = V3_URL_TAG_NONE_def V3_URL_TAG_EXPLICIT_def V3_URL_TAG_OFFICIAL_def
  V3_TOKEN_TAG_NONE_def V3_TOKEN_TAG_VERBATIM_def V3_TOKEN_TAG_HEX_def V3_SIG_TAG_NONE_def
  V3_SIG_TAG_PRESENT_def V4_ROSTER_TAG_NONE_def V4_ROSTER_TAG_HASH_def
lemmas card_limits = MAX_DISPLAY_NAME_BYTES_def MAX_RELAY_URL_BYTES_def MAX_RELAY_TOKEN_BYTES_def
  FRIEND_CARD_SIGNATURE_LEN_def ROSTER_HEAD_HASH_LEN_def USER_ID_LEN_def
  V3_MAX_PACKED_HEX_CHARS_def
lemmas link_prefixes = FRIEND_LINK_PREFIX_def FRIEND_LINK_PREFIX_V2_def FRIEND_LINK_PREFIX_V3_def
  FRIEND_LINK_PREFIX_V4_def SHARED_CARD_PREFIX_def DEVICE_LINK_PREFIX_def

record identity =
  id_user_id :: bytes
  id_sign_pk :: bytes
  id_sign_sk :: bytes
  id_agree_pk :: bytes
  id_agree_sk :: bytes

record friend_card =
  fc_name :: utf8
  fc_sign_pk :: bytes
  fc_agree_pk :: bytes
  fc_relay_url :: "utf8 option"
  fc_relay_token :: "utf8 option"
  fc_signature :: "bytes option"
  fc_roster_head_hash :: "bytes option"

datatype json_value =
    JNull
  | JBool bool
  | JNumber string
  | JString utf8
  | JArray "json_value list"
  | JObject "(utf8 \<times> json_value) list"

text \<open>
  The third-party functions: \<open>relay_prims\<close> (hash, signatures, base64url), X25519, base32, the text of a
  base64url or JSON fault, and the JSON reader and writer at the two types the code uses them at.
\<close>

record card_prims =
  cp_relay :: relay_prims
  x25519_pk :: "bytes \<Rightarrow> bytes"
  b32_enc :: "bytes \<Rightarrow> utf8"
  b64_fault :: "utf8 \<Rightarrow> string"
  json_error_text :: "json_error \<Rightarrow> string"
  card_to_json :: "friend_card \<Rightarrow> string + utf8"
  card_from_json :: "utf8 \<Rightarrow> json_error + friend_card"
  value_to_json :: "json_value \<Rightarrow> string + utf8"
  value_from_json :: "utf8 \<Rightarrow> json_error + json_value"

definition card_crypto :: "card_prims \<Rightarrow> crypto" where
  "card_crypto cp = prim_crypto (cp_relay cp)"

text \<open>The two secrets come from the operating system.\<close>

definition generate_identity :: "card_prims \<Rightarrow> bytes \<Rightarrow> bytes \<Rightarrow> identity" where
  "generate_identity cp sign_sk agree_sk =
     (let cr = card_crypto cp; sign_pk = ed_pk cr sign_sk in
      \<lparr>id_user_id = derive_user_id cr sign_pk, id_sign_pk = sign_pk, id_sign_sk = sign_sk,
       id_agree_pk = x25519_pk cp agree_sk, id_agree_sk = agree_sk\<rparr>)"

function byte_chunks :: "nat \<Rightarrow> 'a list \<Rightarrow> 'a list list" where
  "byte_chunks n [] = []"
| "byte_chunks n (x # xs) = (if n = 0 then [x # xs] else take n (x # xs) # byte_chunks n (drop n (x # xs)))"
  by pat_completeness auto
termination by (relation "measure (length \<circ> snd)") auto

fun join :: "utf8 \<Rightarrow> utf8 list \<Rightarrow> utf8" where
  "join sep [] = []"
| "join sep [t] = t"
| "join sep (t # ts) = t @ sep @ join sep ts"

definition format_user_id :: "card_prims \<Rightarrow> bytes \<Rightarrow> utf8" where
  "format_user_id cp user_id = ascii ''CM-'' @ join (ascii ''-'') (byte_chunks 4 (b32_enc cp user_id))"

definition SAFETY_WORD_COUNT :: nat where "SAFETY_WORD_COUNT = 6"
definition SAFETY_WORDS_DOMAIN :: bytes where "SAFETY_WORDS_DOMAIN = ascii ''cruisemesh-safety-words-v1''"

text \<open>\<open>wordlist\<close> is the table \<open>BIP39_ENGLISH\<close> of 2048 words.\<close>

definition safety_word_index :: "nat \<Rightarrow> nat \<Rightarrow> nat" where
  "safety_word_index bits i = bits div 2 ^ (128 - 11 * (i + 1)) mod 2048"

definition fingerprint_words :: "crypto \<Rightarrow> utf8 list \<Rightarrow> bytes \<Rightarrow> utf8 list" where
  "fingerprint_words cr wordlist user_id =
     (let digest = blake2b cr 32 (SAFETY_WORDS_DOMAIN @ user_id); bits = from_be (take 16 digest) in
      map (\<lambda>i. wordlist ! safety_word_index bits i) [0..<SAFETY_WORD_COUNT])"

definition friend_card_user_id :: "crypto \<Rightarrow> friend_card \<Rightarrow> bytes" where
  "friend_card_user_id cr fc = derive_user_id cr (fc_sign_pk fc)"

section \<open>Recognising a card\<close>

record contact =
  ct_user_id :: bytes
  ct_name :: utf8
  ct_sign_pk :: bytes
  ct_agree_pk :: bytes
  ct_relay_url :: "utf8 option"
  ct_relay_token :: "utf8 option"
  ct_nickname :: "utf8 option"

definition contact_display_name :: "contact \<Rightarrow> utf8" where
  "contact_display_name c =
     (case map_option trim (ct_nickname c) of
        Some nickname \<Rightarrow> if nickname \<noteq> [] then nickname else ct_name c
      | None \<Rightarrow> ct_name c)"

datatype friend_card_match =
    New
  | AlreadySaved utf8 bool
  | NameTaken bytes utf8

text \<open>\<open>lower\<close> is the Unicode lower-case mapping of \<open>str::to_lowercase\<close>.\<close>

definition same_name :: "(utf8 \<Rightarrow> utf8) \<Rightarrow> contact \<Rightarrow> contact \<Rightarrow> bool" where
  "same_name lower candidate c \<longleftrightarrow> lower (contact_display_name c) = lower (contact_display_name candidate)"

definition friend_card_match_of :: "(utf8 \<Rightarrow> utf8) \<Rightarrow> contact \<Rightarrow> contact list \<Rightarrow> friend_card_match" where
  "friend_card_match_of lower candidate existing =
     (case List.find (\<lambda>c. ct_user_id c = ct_user_id candidate) existing of
        Some saved \<Rightarrow>
          AlreadySaved (contact_display_name saved)
            (list_ex (same_name lower candidate) (filter (\<lambda>c. ct_user_id c \<noteq> ct_user_id candidate) existing))
      | None \<Rightarrow>
          (case List.find (same_name lower candidate) (filter (\<lambda>c. ct_user_id c \<noteq> ct_user_id candidate) existing) of
             None \<Rightarrow> New
           | Some other \<Rightarrow> NameTaken (ct_user_id other) (contact_display_name other)))"

section \<open>Signing a card\<close>

definition opt_len_prefixed :: "bytes option \<Rightarrow> bytes" where
  "opt_len_prefixed v = (case v of None \<Rightarrow> [0] | Some bs \<Rightarrow> 1 # len_prefixed bs)"

definition friend_card_signed_bytes :: "friend_card \<Rightarrow> bytes" where
  "friend_card_signed_bytes fc =
     FRIEND_CARD_SIGN_DOMAIN @ len_prefixed (fc_sign_pk fc) @ len_prefixed (fc_agree_pk fc) @
     opt_len_prefixed (fc_relay_url fc) @ opt_len_prefixed (fc_relay_token fc) @
     len_prefixed (fc_name fc) @
     (case fc_roster_head_hash fc of Some h \<Rightarrow> len_prefixed h | None \<Rightarrow> [])"

definition sign_friend_card :: "crypto \<Rightarrow> friend_card \<Rightarrow> bytes \<Rightarrow> bytes result" where
  "sign_friend_card cr fc sign_sk =
     and_then (signing_key_from_bytes sign_sk) (\<lambda>key. Inr (ed_sign cr key (friend_card_signed_bytes fc)))"

definition verify_friend_card_self_signature :: "crypto \<Rightarrow> friend_card \<Rightarrow> unit result" where
  "verify_friend_card_self_signature cr fc =
     (case fc_signature fc of
        None \<Rightarrow> Inr ()
      | Some sig \<Rightarrow>
          if length sig \<noteq> FRIEND_CARD_SIGNATURE_LEN then Inl SignatureInvalid
          else and_then (verifying_key_from_bytes cr (fc_sign_pk fc)) (\<lambda>key.
                 if ed_verify cr key (friend_card_signed_bytes fc) sig then Inr () else Inl SignatureInvalid))"

definition longer_than :: "nat \<Rightarrow> utf8 option \<Rightarrow> bool" where
  "longer_than n v = (case v of Some t \<Rightarrow> length t > n | None \<Rightarrow> False)"

definition validate_friend_card :: "friend_card \<Rightarrow> unit result" where
  "validate_friend_card fc =
     (if length (fc_name fc) > MAX_DISPLAY_NAME_BYTES
      then Inl (InvalidFriendCard (''display name exceeds '' @ show_nat MAX_DISPLAY_NAME_BYTES @ '' UTF-8 bytes''))
      else if longer_than MAX_RELAY_URL_BYTES (fc_relay_url fc) then Inl (InvalidFriendCard ''relay URL is too long'')
      else if longer_than MAX_RELAY_TOKEN_BYTES (fc_relay_token fc)
      then Inl (InvalidFriendCard ''relay token is too long'')
      else if length (fc_sign_pk fc) \<noteq> 32 then Inl (key_len_err 32 (length (fc_sign_pk fc)))
      else if length (fc_agree_pk fc) \<noteq> 32 then Inl (key_len_err 32 (length (fc_agree_pk fc)))
      else if (case fc_signature fc of Some sig \<Rightarrow> length sig \<noteq> FRIEND_CARD_SIGNATURE_LEN | None \<Rightarrow> False)
      then Inl SignatureInvalid
      else if (case fc_roster_head_hash fc of Some h \<Rightarrow> length h \<noteq> ROSTER_HEAD_HASH_LEN | None \<Rightarrow> False)
      then Inl (InvalidFriendCard (''roster head hash must be '' @ show_nat ROSTER_HEAD_HASH_LEN @ '' bytes''))
      else Inr ())"

definition make_friend_card ::
  "card_prims \<Rightarrow> utf8 \<Rightarrow> identity \<Rightarrow> utf8 option \<Rightarrow> utf8 option \<Rightarrow> utf8 result" where
  "make_friend_card cp name identity relay_url relay_token =
     (let relay_token = (case map_option (relay_deposit_token_for (cp_relay cp)) relay_token of
                           Some token \<Rightarrow> if token \<noteq> [] then Some token else None
                         | None \<Rightarrow> None);
          fc = \<lparr>fc_name = name, fc_sign_pk = id_sign_pk identity, fc_agree_pk = id_agree_pk identity,
                  fc_relay_url = relay_url, fc_relay_token = relay_token, fc_signature = None,
                  fc_roster_head_hash = None\<rparr> in
      and_then (validate_friend_card fc) (\<lambda>_.
      and_then (sign_friend_card (card_crypto cp) fc (id_sign_sk identity)) (\<lambda>sig.
      case card_to_json cp (fc\<lparr>fc_signature := Some sig\<rparr>) of
        Inl e \<Rightarrow> Inl (InvalidFriendCard e)
      | Inr json \<Rightarrow>
          if length json > MAX_FRIEND_CARD_JSON_BYTES then Inl (InvalidFriendCard ''friend card is too large'')
          else Inr json)))"

definition friend_card_from_json :: "card_prims \<Rightarrow> utf8 \<Rightarrow> friend_card result" where
  "friend_card_from_json cp json =
     (if length json > MAX_FRIEND_CARD_JSON_BYTES then Inl (InvalidFriendCard ''friend card is too large'')
      else case card_from_json cp json of
             Inl e \<Rightarrow> Inl (InvalidFriendCard (''invalid card JSON: '' @ json_fault e (length json)))
           | Inr fc \<Rightarrow> and_then (validate_friend_card fc) (\<lambda>_. Inr fc))"

definition parse_friend_card :: "card_prims \<Rightarrow> utf8 \<Rightarrow> friend_card result" where
  "parse_friend_card cp json =
     and_then (friend_card_from_json cp json) (\<lambda>fc.
     and_then (verify_friend_card_self_signature (card_crypto cp) fc) (\<lambda>_. Inr fc))"

section \<open>Binary link forms\<close>

definition card_short :: "nat \<Rightarrow> nat \<Rightarrow> core_error" where
  "card_short n pos = InvalidFriendCard ''truncated friend card''"

definition read_binary_slice :: "nat \<Rightarrow> cursor \<Rightarrow> (bytes \<times> cursor) result" where
  "read_binary_slice n c = cursor_take card_short n c"

definition read_byte :: "cursor \<Rightarrow> (u8 \<times> cursor) result" where
  "read_byte c = and_then (read_binary_slice 1 c) (\<lambda>(b, c). Inr (b ! 0, c))"

definition read_be_u16 :: "cursor \<Rightarrow> (u16 \<times> cursor) result" where
  "read_be_u16 c =
     and_then (read_byte c) (\<lambda>(a, c).
     and_then (read_byte c) (\<lambda>(b, c). Inr (word_of_nat (from_be [a, b]), c)))"

definition card_utf8 :: "bytes \<Rightarrow> utf8 result" where
  "card_utf8 bs =
     (case utf8_validate 0 bs of None \<Rightarrow> Inr bs | Some e \<Rightarrow> Inl (InvalidFriendCard (show_utf8_error e)))"

definition read_v3_u16_string :: "cursor \<Rightarrow> (utf8 \<times> cursor) result" where
  "read_v3_u16_string c =
     and_then (read_be_u16 c) (\<lambda>(len, c).
     and_then (read_binary_slice (unat len) c) (\<lambda>(v, c).
     and_then (card_utf8 v) (\<lambda>t. Inr (t, c))))"

definition card_end :: "cursor \<Rightarrow> string \<Rightarrow> unit result" where
  "card_end c what =
     (if cur_pos c \<noteq> length (cur_data c) then Inl (InvalidFriendCard (''trailing bytes after '' @ what)) else Inr ())"

subsection \<open>CMFRIEND2\<close>

definition encode_opt_field :: "utf8 option \<Rightarrow> bytes" where
  "encode_opt_field v = (case v of Some t \<Rightarrow> 1 # wire_bytes t | None \<Rightarrow> [0])"

definition card_head :: "friend_card \<Rightarrow> bytes" where
  "card_head fc = fc_sign_pk fc @ fc_agree_pk fc @ word_of_nat (length (fc_name fc)) # fc_name fc"

definition name_fits :: "friend_card \<Rightarrow> unit result" where
  "name_fits fc =
     (if length (fc_name fc) > 255 then Inl (InvalidFriendCard ''display name too long to encode'') else Inr ())"

definition encode_friend_card_binary :: "friend_card \<Rightarrow> bytes result" where
  "encode_friend_card_binary fc =
     and_then (validate_friend_card fc) (\<lambda>_.
     and_then (name_fits fc) (\<lambda>_.
     Inr (card_head fc @ encode_opt_field (fc_relay_url fc) @ encode_opt_field (fc_relay_token fc))))"

definition decode_opt_field :: "cursor \<Rightarrow> (utf8 option \<times> cursor) result" where
  "decode_opt_field c =
     and_then (read_byte c) (\<lambda>(flag, c).
     if flag = 0 then Inr (None, c)
     else if flag = 1 then and_then (read_v3_u16_string c) (\<lambda>(t, c). Inr (Some t, c))
     else Inl (InvalidFriendCard (''invalid optional-field flag '' @ show_nat (unat flag))))"

text \<open>The four reads that open every binary card: both keys, the length of the name, the name.\<close>

definition decode_card_head :: "cursor \<Rightarrow> ((bytes \<times> bytes \<times> utf8) \<times> cursor) result" where
  "decode_card_head c =
     and_then (read_binary_slice 32 c) (\<lambda>(sign_pk, c).
     and_then (read_binary_slice 32 c) (\<lambda>(agree_pk, c).
     and_then (read_byte c) (\<lambda>(name_len, c).
     and_then (read_binary_slice (unat name_len) c) (\<lambda>(name_bytes, c).
     and_then (card_utf8 name_bytes) (\<lambda>name. Inr ((sign_pk, agree_pk, name), c))))))"

definition decode_friend_card_binary :: "bytes \<Rightarrow> friend_card result" where
  "decode_friend_card_binary bs =
     and_then (decode_card_head (cursor_new bs)) (\<lambda>((sign_pk, agree_pk, name), c).
     and_then (decode_opt_field c) (\<lambda>(relay_url, c).
     and_then (decode_opt_field c) (\<lambda>(relay_token, c).
     and_then (card_end c ''friend card'') (\<lambda>_.
     let fc = \<lparr>fc_name = name, fc_sign_pk = sign_pk, fc_agree_pk = agree_pk, fc_relay_url = relay_url,
               fc_relay_token = relay_token, fc_signature = None, fc_roster_head_hash = None\<rparr> in
     and_then (validate_friend_card fc) (\<lambda>_. Inr fc)))))"

subsection \<open>CMFRIEND3 and CMFRIEND4\<close>

definition encode_v3_signature_field :: "bytes option \<Rightarrow> bytes result" where
  "encode_v3_signature_field v =
     (case v of
        None \<Rightarrow> Inr [V3_SIG_TAG_NONE]
      | Some sig \<Rightarrow>
          if length sig \<noteq> FRIEND_CARD_SIGNATURE_LEN then Inl SignatureInvalid
          else Inr (V3_SIG_TAG_PRESENT # sig))"

definition encode_v3_url_field :: "utf8 option \<Rightarrow> bytes" where
  "encode_v3_url_field v =
     (case v of
        None \<Rightarrow> [V3_URL_TAG_NONE]
      | Some url \<Rightarrow>
          if url = OFFICIAL_RELAY_URL then [V3_URL_TAG_OFFICIAL]
          else V3_URL_TAG_EXPLICIT # wire_bytes url)"

definition hex_nibble :: "u8 \<Rightarrow> u8 option" where
  "hex_nibble b =
     (if byte_in 48 57 b then Some (b - 48) else if byte_in 97 102 b then Some (b - 97 + 10) else None)"

fun hex_pairs :: "bytes \<Rightarrow> bytes option" where
  "hex_pairs (a # b # r) =
     Option.bind (hex_nibble a) (\<lambda>x. Option.bind (hex_nibble b) (\<lambda>y.
       map_option (\<lambda>raw. (push_bit 4 x OR y) # raw) (hex_pairs r)))"
| "hex_pairs _ = Some []"

definition packable_hex_bytes :: "utf8 \<Rightarrow> bytes option" where
  "packable_hex_bytes token =
     (if token = [] \<or> odd (length token) \<or> length token > V3_MAX_PACKED_HEX_CHARS then None
      else hex_pairs token)"

definition from_digit16 :: "u8 \<Rightarrow> u8" where
  "from_digit16 d = (if d < 10 then 48 + d else 97 + (d - 10))"

definition hex_string :: "bytes \<Rightarrow> utf8" where
  "hex_string bs = concat (map (\<lambda>b. [from_digit16 (drop_bit 4 b), from_digit16 (b AND 0x0F)]) bs)"

definition encode_v3_token_field :: "utf8 option \<Rightarrow> bytes" where
  "encode_v3_token_field v =
     (case v of
        None \<Rightarrow> [V3_TOKEN_TAG_NONE]
      | Some token \<Rightarrow>
          (case packable_hex_bytes token of
             Some raw \<Rightarrow> V3_TOKEN_TAG_HEX # word_of_nat (length raw) # raw
           | None \<Rightarrow> V3_TOKEN_TAG_VERBATIM # wire_bytes token))"

definition encode_friend_card_binary_v3 :: "friend_card \<Rightarrow> bytes result" where
  "encode_friend_card_binary_v3 fc =
     and_then (validate_friend_card fc) (\<lambda>_.
     and_then (name_fits fc) (\<lambda>_.
     and_then (encode_v3_signature_field (fc_signature fc)) (\<lambda>sig.
     Inr (card_head fc @ encode_v3_url_field (fc_relay_url fc) @ encode_v3_token_field (fc_relay_token fc) @ sig))))"

definition decode_v3_url_field :: "cursor \<Rightarrow> (utf8 option \<times> cursor) result" where
  "decode_v3_url_field c =
     and_then (read_byte c) (\<lambda>(tag, c).
     if tag = V3_URL_TAG_NONE then Inr (None, c)
     else if tag = V3_URL_TAG_EXPLICIT then and_then (read_v3_u16_string c) (\<lambda>(t, c). Inr (Some t, c))
     else if tag = V3_URL_TAG_OFFICIAL then Inr (Some OFFICIAL_RELAY_URL, c)
     else Inl (InvalidFriendCard (''invalid relay URL tag '' @ show_nat (unat tag))))"

definition decode_v3_token_field :: "cursor \<Rightarrow> (utf8 option \<times> cursor) result" where
  "decode_v3_token_field c =
     and_then (read_byte c) (\<lambda>(tag, c).
     if tag = V3_TOKEN_TAG_NONE then Inr (None, c)
     else if tag = V3_TOKEN_TAG_VERBATIM then and_then (read_v3_u16_string c) (\<lambda>(t, c). Inr (Some t, c))
     else if tag = V3_TOKEN_TAG_HEX then
       and_then (read_byte c) (\<lambda>(len, c).
       if len = 0 then Inl (InvalidFriendCard ''empty packed relay token'')
       else and_then (read_binary_slice (unat len) c) (\<lambda>(raw, c). Inr (Some (hex_string raw), c)))
     else Inl (InvalidFriendCard (''invalid relay token tag '' @ show_nat (unat tag))))"

definition decode_v3_signature_field :: "cursor \<Rightarrow> (bytes option \<times> cursor) result" where
  "decode_v3_signature_field c =
     and_then (read_byte c) (\<lambda>(tag, c).
     if tag = V3_SIG_TAG_NONE then Inr (None, c)
     else if tag = V3_SIG_TAG_PRESENT then
       and_then (read_binary_slice FRIEND_CARD_SIGNATURE_LEN c) (\<lambda>(sig, c). Inr (Some sig, c))
     else Inl (InvalidFriendCard (''invalid signature tag '' @ show_nat (unat tag))))"

definition decode_friend_card_binary_v3 :: "crypto \<Rightarrow> bytes \<Rightarrow> friend_card result" where
  "decode_friend_card_binary_v3 cr bs =
     and_then (decode_card_head (cursor_new bs)) (\<lambda>((sign_pk, agree_pk, name), c).
     and_then (decode_v3_url_field c) (\<lambda>(relay_url, c).
     and_then (decode_v3_token_field c) (\<lambda>(relay_token, c).
     and_then (decode_v3_signature_field c) (\<lambda>(sig, c).
     and_then (card_end c ''friend card'') (\<lambda>_.
     let fc = \<lparr>fc_name = name, fc_sign_pk = sign_pk, fc_agree_pk = agree_pk, fc_relay_url = relay_url,
               fc_relay_token = relay_token, fc_signature = sig, fc_roster_head_hash = None\<rparr> in
     and_then (validate_friend_card fc) (\<lambda>_.
     and_then (verify_friend_card_self_signature cr fc) (\<lambda>_. Inr fc)))))))"

definition encode_v4_roster_head_field :: "bytes option \<Rightarrow> bytes result" where
  "encode_v4_roster_head_field v =
     (case v of
        None \<Rightarrow> Inr [V4_ROSTER_TAG_NONE]
      | Some h \<Rightarrow>
          if length h \<noteq> ROSTER_HEAD_HASH_LEN
          then Inl (InvalidFriendCard (''roster head hash must be '' @ show_nat ROSTER_HEAD_HASH_LEN @ '' bytes''))
          else Inr (V4_ROSTER_TAG_HASH # h))"

definition encode_friend_card_binary_v4 :: "friend_card \<Rightarrow> bytes result" where
  "encode_friend_card_binary_v4 fc =
     and_then (encode_friend_card_binary_v3 fc) (\<lambda>out.
     and_then (encode_v4_roster_head_field (fc_roster_head_hash fc)) (\<lambda>h. Inr (out @ h)))"

definition decode_v4_roster_head_field :: "cursor \<Rightarrow> (bytes option \<times> cursor) result" where
  "decode_v4_roster_head_field c =
     and_then (read_byte c) (\<lambda>(tag, c).
     if tag = V4_ROSTER_TAG_NONE then Inr (None, c)
     else if tag = V4_ROSTER_TAG_HASH then
       and_then (read_binary_slice ROSTER_HEAD_HASH_LEN c) (\<lambda>(h, c). Inr (Some h, c))
     else Inl (InvalidFriendCard (''invalid roster-head tag '' @ show_nat (unat tag))))"

definition decode_friend_card_binary_v4 :: "crypto \<Rightarrow> bytes \<Rightarrow> friend_card result" where
  "decode_friend_card_binary_v4 cr bs =
     and_then (decode_card_head (cursor_new bs)) (\<lambda>((sign_pk, agree_pk, name), c).
     and_then (decode_v3_url_field c) (\<lambda>(relay_url, c).
     and_then (decode_v3_token_field c) (\<lambda>(relay_token, c).
     and_then (decode_v3_signature_field c) (\<lambda>(sig, c).
     and_then (decode_v4_roster_head_field c) (\<lambda>(head, c).
     let fc = \<lparr>fc_name = name, fc_sign_pk = sign_pk, fc_agree_pk = agree_pk, fc_relay_url = relay_url,
               fc_relay_token = relay_token, fc_signature = sig, fc_roster_head_hash = head\<rparr> in
     and_then (validate_friend_card fc) (\<lambda>_.
     and_then (verify_friend_card_self_signature cr fc) (\<lambda>_. Inr fc)))))))"

section \<open>Links and scanned texts\<close>

definition make_friend_link :: "card_prims \<Rightarrow> utf8 \<Rightarrow> utf8 result" where
  "make_friend_link cp card_json =
     and_then (friend_card_from_json cp card_json) (\<lambda>fc.
     let b64 = b64_enc (cp_relay cp) in
     if fc_roster_head_hash fc \<noteq> None \<and> fc_signature fc \<noteq> None \<and> \<not> EMIT_FRIEND_LINK_V4
     then Inl (InvalidFriendCard ''a signed card with a roster head cannot be emitted as CMFRIEND3'')
     else if EMIT_FRIEND_LINK_V4 then
       and_then (encode_friend_card_binary_v4 fc) (\<lambda>binary. Inr (FRIEND_LINK_PREFIX_V4 @ b64 binary))
     else if EMIT_FRIEND_LINK_V3 then
       and_then (encode_friend_card_binary_v3 fc) (\<lambda>binary. Inr (FRIEND_LINK_PREFIX_V3 @ b64 binary))
     else and_then (encode_friend_card_binary fc) (\<lambda>binary. Inr (FRIEND_LINK_PREFIX_V2 @ b64 binary)))"

definition link_byte :: "u8 \<Rightarrow> bool" where
  "link_byte b \<longleftrightarrow> is_ascii_alphanumeric [b] \<or> b = 95 \<or> b = 45"

definition extract_link_body :: "utf8 \<Rightarrow> utf8 \<Rightarrow> utf8 option" where
  "extract_link_body text prefix =
     (if has_prefix text prefix then Some (drop (length prefix) text)
      else map_option (\<lambda>(_, tail). takeWhile link_byte tail) (split_once prefix text))"

definition MAX_PARSED_FRIEND_CARD_VERSION :: nat where "MAX_PARSED_FRIEND_CARD_VERSION = 4"
definition u32_max :: nat where "u32_max = 4294967295"

definition is_ascii_digit :: "u8 \<Rightarrow> bool" where
  "is_ascii_digit b = byte_in 48 57 b"

definition decimal :: "utf8 \<Rightarrow> nat" where
  "decimal ds = foldl (\<lambda>a b. a * 10 + (unat b - 48)) 0 ds"

definition parse_scheme_version_digits :: "utf8 \<Rightarrow> nat option" where
  "parse_scheme_version_digits rest =
     (let digits = takeWhile is_ascii_digit rest in
      case drop (length digits) rest of
        [] \<Rightarrow> None
      | b # _ \<Rightarrow>
          if b \<noteq> 58 \<or> digits = [] then None
          else if hd digits = 48 \<and> length digits > 1 then Some u32_max
          else Some (if decimal digits > u32_max then u32_max else decimal digits))"

lemma split_once_shorter: "split_once p t = Some (a, b) \<Longrightarrow> p \<noteq> [] \<Longrightarrow> length b < length t"
  using split_once_join by fastforce

function cruise_scheme_versions :: "utf8 \<Rightarrow> utf8 \<Rightarrow> nat list" where
  "cruise_scheme_versions text name =
     (if name = [] then []
      else case split_once name text of
             None \<Rightarrow> []
           | Some (_, rest) \<Rightarrow>
               (case parse_scheme_version_digits rest of Some v \<Rightarrow> [v] | None \<Rightarrow> []) @
               cruise_scheme_versions rest name)"
  by pat_completeness auto
termination by (relation "measure (length \<circ> fst)") (auto dest: split_once_shorter)

declare cruise_scheme_versions.simps [simp del]

definition cruise_scheme_version :: "utf8 \<Rightarrow> utf8 \<Rightarrow> nat option" where
  "cruise_scheme_version text name = (case cruise_scheme_versions text name of [] \<Rightarrow> None | v # _ \<Rightarrow> Some v)"

definition unsupported_link_error :: "utf8 \<Rightarrow> core_error option" where
  "unsupported_link_error text =
     (let friend_versions = cruise_scheme_versions text (ascii ''CMFRIEND'') in
      if friend_versions \<noteq> [] \<and> list_all (\<lambda>v. v = 0 \<or> v > MAX_PARSED_FRIEND_CARD_VERSION) friend_versions
      then Some UnsupportedLink
      else if split_once DEVICE_LINK_PREFIX text \<noteq> None then Some DeviceLinkOffer
      else if cruise_scheme_version text (ascii ''CMLINK'') \<noteq> None then Some UnsupportedLink
      else case cruise_scheme_version text (ascii ''CMSHARE'') of
             Some v \<Rightarrow> if v \<noteq> 1 then Some UnsupportedLink else None
           | None \<Rightarrow> None)"

definition strip_blank :: "utf8 \<Rightarrow> utf8" where
  "strip_blank t = concat (filter (\<lambda>ch. \<not> is_whitespace ch) (utf8_chars t))"

definition link_bytes :: "card_prims \<Rightarrow> utf8 \<Rightarrow> bytes result" where
  "link_bytes cp encoded =
     (let compact = strip_blank encoded in
      case b64_dec (cp_relay cp) compact of
        Some bs \<Rightarrow> Inr bs
      | None \<Rightarrow> Inl (InvalidFriendCard (b64_fault cp compact)))"

definition parse_friend_text :: "card_prims \<Rightarrow> utf8 \<Rightarrow> friend_card result" where
  "parse_friend_text cp text =
     (if length text > MAX_FRIEND_TEXT_BYTES then Inl (InvalidFriendCard ''shared friend text is too large'')
      else let trimmed = trim text; cr = card_crypto cp in
        case unsupported_link_error trimmed of
          Some e \<Rightarrow> Inl e
        | None \<Rightarrow>
        case extract_link_body trimmed FRIEND_LINK_PREFIX_V4 of
          Some encoded \<Rightarrow> and_then (link_bytes cp encoded) (decode_friend_card_binary_v4 cr)
        | None \<Rightarrow>
        case extract_link_body trimmed FRIEND_LINK_PREFIX_V3 of
          Some encoded \<Rightarrow> and_then (link_bytes cp encoded) (decode_friend_card_binary_v3 cr)
        | None \<Rightarrow>
        case extract_link_body trimmed FRIEND_LINK_PREFIX_V2 of
          Some encoded \<Rightarrow> and_then (link_bytes cp encoded) decode_friend_card_binary
        | None \<Rightarrow>
        case extract_link_body trimmed FRIEND_LINK_PREFIX of
          Some encoded \<Rightarrow>
            and_then (link_bytes cp encoded) (\<lambda>json.
            and_then (card_utf8 json) (parse_friend_card cp))
        | None \<Rightarrow>
            (case parse_friend_card cp trimmed of
               Inr fc \<Rightarrow> Inr fc
             | Inl _ \<Rightarrow> Inl (InvalidFriendCard ''not a CruiseMesh friend card'')))"

section \<open>Shared cards\<close>

definition SHARED_CARD_LIFETIME_MS :: i64 where "SHARED_CARD_LIFETIME_MS = 7 * MS_PER_DAY"
definition SHARED_CARD_CLOCK_SKEW_MS :: i64 where "SHARED_CARD_CLOCK_SKEW_MS = 24 * 60 * 60 * 1000"
definition SHARED_CARD_VERSION :: u8 where "SHARED_CARD_VERSION = 1"
definition SHARED_CARD_SIGN_DOMAIN :: bytes where
  "SHARED_CARD_SIGN_DOMAIN = ascii ''CruiseMesh shared contact v1'' @ [0]"

record shared_friend_card =
  sc_version :: u8
  sc_card :: friend_card
  sc_sharer_user_id :: bytes
  sc_policy_revision :: u64
  sc_issued_at_ms :: i64
  sc_expires_at_ms :: i64
  sc_signature :: bytes

datatype friend_import = Direct friend_card | Shared shared_friend_card

record friend_request_content =
  frq_card :: friend_card
  frq_shared :: "shared_friend_card option"

definition shared_card_body_bytes :: "shared_friend_card \<Rightarrow> bytes result" where
  "shared_card_body_bytes sc =
     (if length (sc_sharer_user_id sc) \<noteq> USER_ID_LEN then Inl (Malformed ''invalid sharer UserID'')
      else
        and_then (encode_friend_card_binary (sc_card sc)) (\<lambda>card_binary.
        if length card_binary > 65535 then Inl (InvalidFriendCard ''shared card is too large'')
        else Inr (sc_version sc # wire_bytes card_binary @ sc_sharer_user_id sc @ u64_bytes (sc_policy_revision sc) @
               i64_bytes (sc_issued_at_ms sc) @ i64_bytes (sc_expires_at_ms sc))))"

definition shared_card_signed_bytes :: "shared_friend_card \<Rightarrow> bytes result" where
  "shared_card_signed_bytes sc = and_then (shared_card_body_bytes sc) (\<lambda>body. Inr (SHARED_CARD_SIGN_DOMAIN @ body))"

definition unknown_shared_version :: "u8 \<Rightarrow> core_error" where
  "unknown_shared_version v = InvalidFriendCard (''unknown shared card version: '' @ show_nat (unat v))"

definition validate_shared_card_shape :: "shared_friend_card \<Rightarrow> unit result" where
  "validate_shared_card_shape sc =
     (if sc_version sc \<noteq> SHARED_CARD_VERSION then Inl (unknown_shared_version (sc_version sc))
      else
        and_then (validate_friend_card (sc_card sc)) (\<lambda>_.
        if length (sc_sharer_user_id sc) \<noteq> USER_ID_LEN then Inl (Malformed ''invalid sharer UserID'')
        else if length (sc_signature sc) \<noteq> 64 then Inl (Malformed ''invalid shared card signature length'')
        else if sc_expires_at_ms sc \<le> sc_issued_at_ms sc \<or>
                i64_sub (sc_expires_at_ms sc) (sc_issued_at_ms sc) > SHARED_CARD_LIFETIME_MS
        then Inl (Malformed ''invalid shared card validity window'')
        else Inr ()))"

definition create_shared_friend_card ::
  "crypto \<Rightarrow> identity \<Rightarrow> friend_card \<Rightarrow> u64 \<Rightarrow> i64 \<Rightarrow> shared_friend_card result" where
  "create_shared_friend_card cr sharer fc policy_revision now_ms =
     and_then (validate_friend_card fc) (\<lambda>_.
     if length (id_user_id sharer) \<noteq> USER_ID_LEN then Inl (Malformed ''invalid sharer UserID'')
     else
       let sc = \<lparr>sc_version = SHARED_CARD_VERSION, sc_card = fc, sc_sharer_user_id = id_user_id sharer,
                 sc_policy_revision = policy_revision, sc_issued_at_ms = now_ms,
                 sc_expires_at_ms = i64_add now_ms SHARED_CARD_LIFETIME_MS, sc_signature = []\<rparr> in
       and_then (signing_key_from_bytes (id_sign_sk sharer)) (\<lambda>key.
       and_then (shared_card_signed_bytes sc) (\<lambda>signed.
       Inr (sc\<lparr>sc_signature := ed_sign cr key signed\<rparr>))))"

definition encode_shared_friend_card :: "shared_friend_card \<Rightarrow> bytes result" where
  "encode_shared_friend_card sc =
     and_then (validate_shared_card_shape sc) (\<lambda>_.
     and_then (shared_card_body_bytes sc) (\<lambda>body. Inr (body @ sc_signature sc)))"

definition make_shared_contact_code :: "card_prims \<Rightarrow> shared_friend_card \<Rightarrow> utf8 result" where
  "make_shared_contact_code cp sc =
     and_then (encode_shared_friend_card sc) (\<lambda>binary. Inr (SHARED_CARD_PREFIX @ b64_enc (cp_relay cp) binary))"

definition decode_shared_friend_card :: "bytes \<Rightarrow> shared_friend_card result" where
  "decode_shared_friend_card bs =
     and_then (read_byte (cursor_new bs)) (\<lambda>(version, c).
     if version \<noteq> SHARED_CARD_VERSION then Inl (unknown_shared_version version)
     else
       and_then (read_be_u16 c) (\<lambda>(card_len, c).
       and_then (read_binary_slice (unat card_len) c) (\<lambda>(card_binary, c).
       and_then (decode_friend_card_binary card_binary) (\<lambda>fc.
       and_then (read_binary_slice USER_ID_LEN c) (\<lambda>(sharer, c).
       and_then (read_binary_slice 8 c) (\<lambda>(revision, c).
       and_then (read_binary_slice 8 c) (\<lambda>(issued, c).
       and_then (read_binary_slice 8 c) (\<lambda>(expires, c).
       and_then (read_binary_slice 64 c) (\<lambda>(sig, c).
       and_then (card_end c ''shared card'') (\<lambda>_.
       let sc = \<lparr>sc_version = version, sc_card = fc, sc_sharer_user_id = sharer,
                 sc_policy_revision = word_of_nat (from_be revision),
                 sc_issued_at_ms = sint (word_of_nat (from_be issued) :: u64),
                 sc_expires_at_ms = sint (word_of_nat (from_be expires) :: u64), sc_signature = sig\<rparr> in
       and_then (validate_shared_card_shape sc) (\<lambda>_. Inr sc)))))))))))"

definition parse_friend_import :: "card_prims \<Rightarrow> utf8 \<Rightarrow> friend_import result" where
  "parse_friend_import cp text =
     (if length text > MAX_FRIEND_TEXT_BYTES then Inl (InvalidFriendCard ''shared friend text is too large'')
      else let trimmed = trim text in
        case unsupported_link_error trimmed of
          Some e \<Rightarrow> Inl e
        | None \<Rightarrow>
        case extract_link_body trimmed SHARED_CARD_PREFIX of
          Some encoded \<Rightarrow>
            and_then (link_bytes cp encoded) (\<lambda>binary.
            and_then (decode_shared_friend_card binary) (\<lambda>sc. Inr (Shared sc)))
        | None \<Rightarrow> and_then (parse_friend_text cp text) (\<lambda>fc. Inr (Direct fc)))"

definition shared_card_expired :: "shared_friend_card \<Rightarrow> i64 \<Rightarrow> bool" where
  "shared_card_expired sc now_ms \<longleftrightarrow> now_ms > sc_expires_at_ms sc"

definition verify_shared_friend_card ::
  "crypto \<Rightarrow> shared_friend_card \<Rightarrow> bytes \<Rightarrow> bytes \<Rightarrow> u64 \<Rightarrow> i64 \<Rightarrow> bool result" where
  "verify_shared_friend_card cr sc sharer_sign_pk expected_card_user_id expected_policy_revision now_ms =
     (case validate_shared_card_shape sc of
        Inl _ \<Rightarrow> Inr False
      | Inr _ \<Rightarrow>
          if derive_user_id cr (fc_sign_pk (sc_card sc)) \<noteq> expected_card_user_id \<or>
             derive_user_id cr sharer_sign_pk \<noteq> sc_sharer_user_id sc \<or>
             sc_policy_revision sc \<noteq> expected_policy_revision \<or>
             now_ms < i64_sub (sc_issued_at_ms sc) SHARED_CARD_CLOCK_SKEW_MS \<or>
             now_ms > i64_add (sc_expires_at_ms sc) SHARED_CARD_CLOCK_SKEW_MS
          then Inr False
          else
            and_then (verifying_key_from_bytes cr sharer_sign_pk) (\<lambda>key.
            if length (sc_signature sc) \<noteq> 64 then Inl (Malformed ''invalid shared card signature length'')
            else and_then (shared_card_signed_bytes sc) (\<lambda>signed. Inr (ed_verify cr key signed (sc_signature sc)))))"

section \<open>Friend requests\<close>

definition make_shared_friend_request_payload :: "card_prims \<Rightarrow> utf8 \<Rightarrow> shared_friend_card \<Rightarrow> utf8 result" where
  "make_shared_friend_request_payload cp card_json sc =
     and_then (parse_friend_card cp card_json) (\<lambda>_.
     case value_from_json cp card_json of
       Inl e \<Rightarrow> Inl (InvalidFriendCard (json_error_text cp e))
     | Inr (JObject members) \<Rightarrow>
         and_then (encode_shared_friend_card sc) (\<lambda>binary.
         case value_to_json cp (JObject (AList.update (ascii ''shared'') (JString (b64_enc (cp_relay cp) binary)) members)) of
           Inl e \<Rightarrow> Inl (InvalidFriendCard e)
         | Inr json \<Rightarrow>
             if length json > MAX_FRIEND_CARD_JSON_BYTES
             then Inl (InvalidFriendCard ''friend request payload is too large'') else Inr json)
     | Inr _ \<Rightarrow> Inl (InvalidFriendCard ''friend card is not an object''))"

definition json_get :: "json_value \<Rightarrow> utf8 \<Rightarrow> json_value option" where
  "json_get v k = (case v of JObject members \<Rightarrow> map_of members k | _ \<Rightarrow> None)"

definition request_tail :: "card_prims \<Rightarrow> json_value option \<Rightarrow> shared_friend_card option result" where
  "request_tail cp tail =
     (case tail of
        None \<Rightarrow> Inr None
      | Some (JString encoded) \<Rightarrow>
          (case b64_dec (cp_relay cp) encoded of
             None \<Rightarrow> Inl (InvalidFriendCard (b64_fault cp encoded))
           | Some binary \<Rightarrow> and_then (decode_shared_friend_card binary) (\<lambda>sc. Inr (Some sc)))
      | Some _ \<Rightarrow> Inl (InvalidFriendCard ''invalid shared tail''))"

definition parse_friend_request_content :: "card_prims \<Rightarrow> utf8 \<Rightarrow> friend_request_content result" where
  "parse_friend_request_content cp json =
     and_then (parse_friend_card cp json) (\<lambda>fc.
     case value_from_json cp json of
       Inl e \<Rightarrow> Inl (InvalidFriendCard (''invalid friend request JSON: '' @ json_fault e (length json)))
     | Inr v \<Rightarrow>
         and_then (request_tail cp (json_get v (ascii ''shared''))) (\<lambda>tail.
         Inr \<lparr>frq_card = fc, frq_shared = tail\<rparr>))"

section \<open>Relay setup cards\<close>

definition RELAY_SETUP_PREFIX :: utf8 where "RELAY_SETUP_PREFIX = ascii ''CMRELAY1:''"
definition MAX_RELAY_SETUP_TEXT_BYTES :: nat where "MAX_RELAY_SETUP_TEXT_BYTES = 8 * 1024"
definition RELAY_TOKEN_FINGERPRINT_DOMAIN :: bytes where
  "RELAY_TOKEN_FINGERPRINT_DOMAIN = ascii ''CruiseMesh relay token fingerprint v1'' @ [0]"
definition RELAY_TOKEN_FINGERPRINT_LEN :: nat where "RELAY_TOKEN_FINGERPRINT_LEN = 4"

record relay_setup =
  rs_relay_url :: utf8
  rs_relay_token :: utf8

record relay_setup_wire =
  rsw_v :: u8
  rsw_relay_url :: utf8
  rsw_relay_token :: utf8

definition invalid_setup :: "string \<Rightarrow> core_error" where
  "invalid_setup message = Malformed (''invalid relay setup: '' @ message)"

definition has_blank :: "utf8 \<Rightarrow> bool" where
  "has_blank t = list_ex is_whitespace (utf8_chars t)"

definition validate_setup :: "utf8 \<Rightarrow> utf8 \<Rightarrow> relay_setup result" where
  "validate_setup url token =
     (let relay_url = normalize_relay_url url; relay_token = trim token in
      if relay_url = [] then Inl (invalid_setup ''relay URL is required'')
      else if \<not> has_prefix relay_url (ascii ''https://'') then Inl (invalid_setup ''relay URL must use HTTPS'')
      else if length relay_url > MAX_RELAY_URL_BYTES then Inl (invalid_setup ''relay URL is too large'')
      else if has_blank relay_url then Inl (invalid_setup ''relay URL contains whitespace'')
      else if relay_token = [] then Inl (invalid_setup ''relay token is required'')
      else if length relay_token > MAX_RELAY_TOKEN_BYTES then Inl (invalid_setup ''relay token is too large'')
      else if has_blank relay_token then Inl (invalid_setup ''relay token contains whitespace'')
      else Inr \<lparr>rs_relay_url = relay_url, rs_relay_token = relay_token\<rparr>)"

definition make_relay_setup_card ::
  "relay_prims \<Rightarrow> (relay_setup_wire \<Rightarrow> string + bytes) \<Rightarrow> utf8 \<Rightarrow> utf8 \<Rightarrow> utf8 result" where
  "make_relay_setup_card rp render url token =
     and_then (validate_setup url token) (\<lambda>setup.
     case render \<lparr>rsw_v = 1, rsw_relay_url = rs_relay_url setup, rsw_relay_token = rs_relay_token setup\<rparr> of
       Inl e \<Rightarrow> Inl (invalid_setup e)
     | Inr json \<Rightarrow> Inr (RELAY_SETUP_PREFIX @ b64_enc rp json))"

definition parse_relay_setup_text ::
  "relay_prims \<Rightarrow> (bytes \<Rightarrow> relay_setup_wire option) \<Rightarrow> utf8 \<Rightarrow> relay_setup result" where
  "parse_relay_setup_text rp parse text =
     (if length text > MAX_RELAY_SETUP_TEXT_BYTES then Inl (invalid_setup ''relay setup text is too large'')
      else case split_once RELAY_SETUP_PREFIX text of
        None \<Rightarrow> Inl (invalid_setup ''missing CMRELAY1 card'')
      | Some (_, tail) \<Rightarrow>
          (let encoded = takeWhile link_byte tail in
           if encoded = [] then Inl (invalid_setup ''relay setup card is incomplete'')
           else case b64_dec rp encoded of
             None \<Rightarrow> Inl (invalid_setup ''relay setup card is not valid base64url'')
           | Some json \<Rightarrow>
               if length json > MAX_RELAY_SETUP_TEXT_BYTES then Inl (invalid_setup ''relay setup card is too large'')
               else case parse json of
                 None \<Rightarrow> Inl (invalid_setup ''relay setup card payload is not valid JSON'')
               | Some wire \<Rightarrow>
                   if rsw_v wire \<noteq> 1
                   then Inl (invalid_setup (''unsupported relay setup version '' @ show_nat (unat (rsw_v wire))))
                   else validate_setup (rsw_relay_url wire) (rsw_relay_token wire)))"

definition relay_setup_is_official :: "utf8 \<Rightarrow> bool" where
  "relay_setup_is_official relay_url =
     (let url = normalize_relay_url relay_url in
      if has_prefix url (ascii ''https://'')
      then to_ascii_lowercase (drop (length (ascii ''https://'')) url) = to_ascii_lowercase OFFICIAL_RELAY_HOST
      else False)"

text \<open>\<open>HEXLOWER\<close> renders like \<open>hex_string\<close>.\<close>

definition relay_token_fingerprint :: "crypto \<Rightarrow> utf8 \<Rightarrow> utf8" where
  "relay_token_fingerprint cr relay_token =
     hex_string (blake2b cr RELAY_TOKEN_FINGERPRINT_LEN (RELAY_TOKEN_FINGERPRINT_DOMAIN @ relay_token))"

section \<open>Fields\<close>

definition utf8_opt :: "utf8 option \<Rightarrow> bool" where
  "utf8_opt v = (case v of None \<Rightarrow> True | Some t \<Rightarrow> utf8_ok t)"

text \<open>Every Rust \<open>String\<close> is valid UTF-8.\<close>

definition card_text_ok :: "friend_card \<Rightarrow> bool" where
  "card_text_ok fc \<longleftrightarrow> utf8_ok (fc_name fc) \<and> utf8_opt (fc_relay_url fc) \<and> utf8_opt (fc_relay_token fc)"

definition card_sized :: "friend_card \<Rightarrow> bool" where
  "card_sized fc \<longleftrightarrow>
     length (fc_name fc) \<le> MAX_DISPLAY_NAME_BYTES \<and> \<not> longer_than MAX_RELAY_URL_BYTES (fc_relay_url fc) \<and>
     \<not> longer_than MAX_RELAY_TOKEN_BYTES (fc_relay_token fc) \<and> length (fc_sign_pk fc) = 32 \<and>
     length (fc_agree_pk fc) = 32 \<and>
     (case fc_signature fc of Some sig \<Rightarrow> length sig = FRIEND_CARD_SIGNATURE_LEN | None \<Rightarrow> True) \<and>
     (case fc_roster_head_hash fc of Some h \<Rightarrow> length h = ROSTER_HEAD_HASH_LEN | None \<Rightarrow> True)"

lemma validate_friend_card_iff: "validate_friend_card fc = Inr u \<longleftrightarrow> card_sized fc"
  by (auto simp: validate_friend_card_def card_sized_def split: option.splits)

lemma read_byte_u8: "read_byte = cursor_u8 card_short"
  by (simp add: fun_eq_iff read_byte_def read_binary_slice_def cursor_u8_def)

lemma read_slice_put [codec_simps]:
  "length xs = n \<Longrightarrow> read_binary_slice n (cur_at pre (xs @ r)) = Inr (xs, cur_at (pre @ xs) r)"
  by (simp add: read_binary_slice_def codec_simps)

lemma read_slice_end: "length xs = n \<Longrightarrow> read_binary_slice n (cur_at pre xs) = Inr (xs, cur_at (pre @ xs) [])"
  using read_slice_put [of xs n pre "[]"] by simp

lemma read_byte_put [codec_simps]: "read_byte (cur_at pre (b # r)) = Inr (b, cur_at (pre @ [b]) r)"
  by (simp add: read_byte_u8 codec_simps)

lemma length2_E: "length xs = 2 \<Longrightarrow> (\<And>a b. xs = [a, b] \<Longrightarrow> P) \<Longrightarrow> P"
  by (metis One_nat_def Suc_1 length_0_conv length_Suc_conv)

lemma read_be_u16_put [codec_simps]:
  "read_be_u16 (cur_at pre (u16_bytes w @ r)) = Inr (w, cur_at (pre @ u16_bytes w) r)"
proof -
  obtain a b where ab: "u16_bytes w = [a, b]" by (rule length2_E [of "u16_bytes w"]) simp_all
  have "word_of_nat (from_be [a, b]) = w" by (simp add: ab [symmetric] from_be_word)
  then show ?thesis by (simp add: ab read_be_u16_def codec_simps)
qed

lemma card_utf8_ok [simp]: "utf8_ok t \<Longrightarrow> card_utf8 t = Inr t"
  by (simp add: card_utf8_def utf8_ok_def)

lemma read_string_put [codec_simps]:
  assumes "utf8_ok t" "length t \<le> 65535"
  shows "read_v3_u16_string (cur_at pre (wire_bytes t @ r)) = Inr (t, cur_at (pre @ wire_bytes t) r)"
proof -
  have "unat (word_of_nat (length t) :: u16) = length t" using assms(2) by (simp add: unat_of_nat)
  then show ?thesis using assms by (simp add: read_v3_u16_string_def wire_bytes_def codec_simps)
qed

lemma decode_opt_field_put [codec_simps]:
  assumes "utf8_opt v" "\<not> longer_than 65535 v"
  shows "decode_opt_field (cur_at pre (encode_opt_field v @ r)) = Inr (v, cur_at (pre @ encode_opt_field v) r)"
  using assms
  by (auto simp: decode_opt_field_def encode_opt_field_def utf8_opt_def longer_than_def codec_simps
      split: option.splits)

lemma decode_url_field_put [codec_simps]:
  assumes "utf8_opt v" "\<not> longer_than 65535 v"
  shows "decode_v3_url_field (cur_at pre (encode_v3_url_field v @ r)) = Inr (v, cur_at (pre @ encode_v3_url_field v) r)"
  using assms
  by (auto simp: decode_v3_url_field_def encode_v3_url_field_def utf8_opt_def longer_than_def card_tags codec_simps
      split: option.splits)

subsection \<open>Packed hex tokens\<close>

lemma hex_digit_char: "hex_nibble b = Some d \<Longrightarrow> from_digit16 d = b \<and> unat d < 16"
  by (auto simp: hex_nibble_def from_digit16_def byte_in_def word_less_nat_alt unat_sub_if' unat_word_ariths split: if_splits)

lemma nibbles:
  assumes "unat (x :: u8) < 16" "unat (y :: u8) < 16"
  shows "drop_bit 4 (push_bit 4 x OR y) = x" "(push_bit 4 x OR y) AND 0x0F = y"
proof -
  have "take_bit 4 x = x" "take_bit 4 y = y"
    using assms by (simp_all add: take_bit_nat_eq_self unsigned_take_bit_eq word_unat_eq_iff)
  then have high: "4 \<le> n \<Longrightarrow> \<not> bit x n" "4 \<le> n \<Longrightarrow> \<not> bit y n" for n
    by (metis bit_take_bit_iff not_less)+
  show "drop_bit 4 (push_bit 4 x OR y) = x"
    using high by (intro bit_word_eqI) (auto simp: bit_simps not_le [symmetric])
  have low: "(0x0F :: u8) = mask 4" by (simp add: mask_eq_exp_minus_1)
  show "(push_bit 4 x OR y) AND 0x0F = y"
    unfolding low using high by (intro bit_word_eqI) (auto simp: bit_simps not_le [symmetric])
qed

lemma hex_pairs_string: "hex_pairs t = Some raw \<Longrightarrow> even (length t) \<Longrightarrow> hex_string raw = t \<and> 2 * length raw = length t"
proof (induction t arbitrary: raw rule: hex_pairs.induct)
  case (1 a b r)
  then obtain x y raw' where xy: "hex_nibble a = Some x" "hex_nibble b = Some y" "hex_pairs r = Some raw'"
      "raw = (push_bit 4 x OR y) # raw'"
    by (auto simp: bind_eq_Some_conv)
  with 1 have "hex_string raw' = r \<and> 2 * length raw' = length r" by simp
  with xy hex_digit_char [OF xy(1)] hex_digit_char [OF xy(2)] show ?case
    by (simp add: hex_string_def nibbles del: drop_bit_or)
qed (auto simp: hex_string_def)

lemma packable_hex_unpack:
  "packable_hex_bytes t = Some raw \<Longrightarrow> hex_string raw = t \<and> 0 < length raw \<and> length raw \<le> 255"
  using hex_pairs_string [of t raw] by (auto simp: packable_hex_bytes_def card_limits split: if_splits)

lemma decode_token_field_put [codec_simps]:
  assumes "utf8_opt v" "\<not> longer_than 65535 v"
  shows "decode_v3_token_field (cur_at pre (encode_v3_token_field v @ r)) = Inr (v, cur_at (pre @ encode_v3_token_field v) r)"
proof (cases v)
  case None
  then show ?thesis by (simp add: decode_v3_token_field_def encode_v3_token_field_def card_tags codec_simps)
next
  case (Some t)
  show ?thesis
  proof (cases "packable_hex_bytes t")
    case None
    with Some assms show ?thesis
      by (simp add: decode_v3_token_field_def encode_v3_token_field_def utf8_opt_def longer_than_def card_tags codec_simps)
  next
    case raw: (Some raw)
    from packable_hex_unpack [OF this] have u: "hex_string raw = t" "0 < length raw" "length raw \<le> 255" by auto
    then have len: "unat (word_of_nat (length raw) :: u8) = length raw" by (simp add: unat_of_nat)
    then have "(word_of_nat (length raw) :: u8) \<noteq> 0" using u(2) by (metis less_numeral_extra(3) unat_0)
    with Some raw u len show ?thesis
      by (simp add: decode_v3_token_field_def encode_v3_token_field_def card_tags codec_simps)
  qed
qed

lemma decode_signature_field_put [codec_simps]:
  assumes "encode_v3_signature_field v = Inr bs"
  shows "decode_v3_signature_field (cur_at pre (bs @ r)) = Inr (v, cur_at (pre @ bs) r)"
  using assms
  by (auto simp: decode_v3_signature_field_def encode_v3_signature_field_def card_tags codec_simps split: option.splits if_splits)

lemma decode_head_field_put [codec_simps]:
  assumes "encode_v4_roster_head_field v = Inr bs"
  shows "decode_v4_roster_head_field (cur_at pre (bs @ r)) = Inr (v, cur_at (pre @ bs) r)"
  using assms
  by (auto simp: decode_v4_roster_head_field_def encode_v4_roster_head_field_def card_tags codec_simps split: option.splits if_splits)

lemma decode_card_head_put [codec_simps]:
  assumes "card_sized fc" "card_text_ok fc"
  shows "decode_card_head (cur_at pre (card_head fc @ r)) =
    Inr ((fc_sign_pk fc, fc_agree_pk fc, fc_name fc), cur_at (pre @ card_head fc) r)"
proof -
  have "unat (word_of_nat (length (fc_name fc)) :: u8) = length (fc_name fc)"
    using assms(1) by (simp add: card_sized_def card_limits unat_of_nat)
  then show ?thesis
    using assms by (simp add: decode_card_head_def card_head_def card_sized_def card_text_ok_def codec_simps)
qed

lemma card_end_at: "card_end (cur_at pre bs) what = (if bs = [] then Inr () else Inl (InvalidFriendCard (''trailing bytes after '' @ what)))"
  by (auto simp: card_end_def cur_at_def)

lemma card_fields_fit:
  assumes "card_sized fc" "card_text_ok fc"
  shows "utf8_opt (fc_relay_url fc)" "utf8_opt (fc_relay_token fc)"
    "\<not> longer_than 65535 (fc_relay_url fc)" "\<not> longer_than 65535 (fc_relay_token fc)"
  using assms by (auto simp: card_sized_def card_text_ok_def longer_than_def card_limits split: option.splits)

text \<open>What a link form keeps of a card.\<close>

definition unsigned_card :: "friend_card \<Rightarrow> friend_card" where
  "unsigned_card fc = fc\<lparr>fc_signature := None, fc_roster_head_hash := None\<rparr>"

lemma card_sized_parts:
  assumes "card_sized fc"
  shows "card_sized (unsigned_card fc)" "card_sized (fc\<lparr>fc_roster_head_hash := None\<rparr>)" "length (fc_name fc) \<le> 255"
  using assms by (simp_all add: card_sized_def unsigned_card_def card_limits)

lemma v2_roundtrip:
  assumes "encode_friend_card_binary fc = Inr bs" "card_text_ok fc"
  shows "decode_friend_card_binary bs = Inr (unsigned_card fc)"
proof -
  have sized: "card_sized fc"
    and bs: "bs = card_head fc @ encode_opt_field (fc_relay_url fc) @ encode_opt_field (fc_relay_token fc)"
    using assms(1) by (auto simp: encode_friend_card_binary_def and_then_Inr validate_friend_card_iff)
  let ?fc = "\<lparr>fc_name = fc_name fc, fc_sign_pk = fc_sign_pk fc, fc_agree_pk = fc_agree_pk fc, fc_relay_url = fc_relay_url fc,
    fc_relay_token = fc_relay_token fc, fc_signature = None, fc_roster_head_hash = None\<rparr>"
  have eq: "?fc = unsigned_card fc" by (simp add: unsigned_card_def)
  have "validate_friend_card (unsigned_card fc) = Inr ()"
    using card_sized_parts(1) [OF sized] validate_friend_card_iff by blast
  moreover have "decode_opt_field (cur_at pre (encode_opt_field (fc_relay_token fc))) =
      Inr (fc_relay_token fc, cur_at (pre @ encode_opt_field (fc_relay_token fc)) [])" for pre
    using decode_opt_field_put [of "fc_relay_token fc" pre "[]"] card_fields_fit [OF sized assms(2)] by simp
  ultimately show ?thesis
    using card_fields_fit [OF sized assms(2)]
    by (simp add: decode_friend_card_binary_def cursor_new_at bs codec_simps sized assms(2) card_end_at eq)
qed

lemma v3_encoded:
  assumes "encode_friend_card_binary_v3 fc = Inr bs"
  obtains sig where "card_sized fc" "encode_v3_signature_field (fc_signature fc) = Inr sig"
    "bs = card_head fc @ encode_v3_url_field (fc_relay_url fc) @ encode_v3_token_field (fc_relay_token fc) @ sig"
  using assms by (auto simp: encode_friend_card_binary_v3_def and_then_Inr validate_friend_card_iff)

lemma v3_encodes: "card_sized fc \<Longrightarrow> \<exists>bs. encode_friend_card_binary_v3 fc = Inr bs"
proof -
  assume sized: "card_sized fc"
  then have "name_fits fc = Inr ()" using card_sized_parts(3) [OF sized] by (simp add: name_fits_def)
  moreover have "\<exists>sig. encode_v3_signature_field (fc_signature fc) = Inr sig"
    using sized by (auto simp: encode_v3_signature_field_def card_sized_def split: option.splits)
  moreover have "validate_friend_card fc = Inr ()" using sized validate_friend_card_iff by blast
  ultimately show ?thesis by (auto simp: encode_friend_card_binary_v3_def)
qed

lemma v3_roundtrip:
  assumes "encode_friend_card_binary_v3 fc = Inr bs" "card_text_ok fc"
  shows "decode_friend_card_binary_v3 cr bs =
    and_then (verify_friend_card_self_signature cr (fc\<lparr>fc_roster_head_hash := None\<rparr>)) (\<lambda>_. Inr (fc\<lparr>fc_roster_head_hash := None\<rparr>))"
proof -
  obtain sig where sized: "card_sized fc" and sig: "encode_v3_signature_field (fc_signature fc) = Inr sig"
    and bs: "bs = card_head fc @ encode_v3_url_field (fc_relay_url fc) @ encode_v3_token_field (fc_relay_token fc) @ sig"
    using assms(1) by (rule v3_encoded)
  have eq: "\<lparr>fc_name = fc_name fc, fc_sign_pk = fc_sign_pk fc, fc_agree_pk = fc_agree_pk fc, fc_relay_url = fc_relay_url fc,
    fc_relay_token = fc_relay_token fc, fc_signature = fc_signature fc, fc_roster_head_hash = None\<rparr> =
    fc\<lparr>fc_roster_head_hash := None\<rparr>" by simp
  have "validate_friend_card (fc\<lparr>fc_roster_head_hash := None\<rparr>) = Inr ()"
    using card_sized_parts(2) [OF sized] validate_friend_card_iff by blast
  moreover have "decode_v3_signature_field (cur_at pre sig) = Inr (fc_signature fc, cur_at (pre @ sig) [])" for pre
    using decode_signature_field_put [OF sig, of pre "[]"] by simp
  ultimately show ?thesis
    using card_fields_fit [OF sized assms(2)]
    by (simp add: decode_friend_card_binary_v3_def cursor_new_at bs codec_simps sized assms(2) card_end_at eq Let_def)
qed

lemma v4_roundtrip:
  assumes "encode_friend_card_binary_v4 fc = Inr bs" "card_text_ok fc"
  shows "decode_friend_card_binary_v4 cr (bs @ later) =
    and_then (verify_friend_card_self_signature cr fc) (\<lambda>_. Inr fc)"
proof -
  obtain out h where out: "encode_friend_card_binary_v3 fc = Inr out"
    and h: "encode_v4_roster_head_field (fc_roster_head_hash fc) = Inr h" and bs: "bs = out @ h"
    using assms(1) by (auto simp: encode_friend_card_binary_v4_def and_then_Inr)
  obtain sig where sized: "card_sized fc" and sig: "encode_v3_signature_field (fc_signature fc) = Inr sig"
    and out': "out = card_head fc @ encode_v3_url_field (fc_relay_url fc) @ encode_v3_token_field (fc_relay_token fc) @ sig"
    using out by (rule v3_encoded)
  have eq: "\<lparr>fc_name = fc_name fc, fc_sign_pk = fc_sign_pk fc, fc_agree_pk = fc_agree_pk fc, fc_relay_url = fc_relay_url fc,
    fc_relay_token = fc_relay_token fc, fc_signature = fc_signature fc, fc_roster_head_hash = fc_roster_head_hash fc\<rparr> = fc"
    by simp
  have "validate_friend_card fc = Inr ()" using sized validate_friend_card_iff by blast
  then show ?thesis
    using card_fields_fit [OF sized assms(2)]
    by (simp add: decode_friend_card_binary_v4_def cursor_new_at bs out' codec_simps sized decode_signature_field_put [OF sig]
        decode_head_field_put [OF h] assms(2) eq Let_def)
qed

section \<open>What a signature commits to\<close>

interpretation opt_framed: prefix_code opt_len_prefixed "\<lambda>v. case v of None \<Rightarrow> True | Some b \<Rightarrow> length b < 2 ^ 64"
  by unfold_locales (auto simp: opt_len_prefixed_def framed_eq split: option.splits)

lemma sized_frames:
  assumes "card_sized fc"
  shows "length (fc_sign_pk fc) < 2 ^ 64" "length (fc_agree_pk fc) < 2 ^ 64" "length (fc_name fc) < 2 ^ 64"
    "case fc_relay_url fc of None \<Rightarrow> True | Some b \<Rightarrow> length b < 2 ^ 64"
    "case fc_relay_token fc of None \<Rightarrow> True | Some b \<Rightarrow> length b < 2 ^ 64"
    "fc_roster_head_hash fc = Some h \<Longrightarrow> length h < 2 ^ 64"
  using assms by (auto simp: card_sized_def longer_than_def card_limits split: option.splits)

lemma len_prefixed_not_Nil [simp]: "len_prefixed b \<noteq> []" "[] \<noteq> len_prefixed b"
proof -
  have "length (len_prefixed b) = 8 + length b" by (simp add: len_prefixed_def)
  then show "len_prefixed b \<noteq> []" "[] \<noteq> len_prefixed b" by auto
qed

lemma card_signed_bytes_inj:
  assumes "card_sized a" "card_sized b" "friend_card_signed_bytes a = friend_card_signed_bytes b"
  shows "a\<lparr>fc_signature := None\<rparr> = b\<lparr>fc_signature := None\<rparr>"
proof -
  define head where "head fc = (case fc_roster_head_hash fc of Some h \<Rightarrow> len_prefixed h | None \<Rightarrow> [])" for fc :: friend_card
  note sa = sized_frames [OF assms(1)] and sb = sized_frames [OF assms(2)]
  from assms(3) have "len_prefixed (fc_sign_pk a) @ len_prefixed (fc_agree_pk a) @ opt_len_prefixed (fc_relay_url a) @
      opt_len_prefixed (fc_relay_token a) @ len_prefixed (fc_name a) @ head a =
    len_prefixed (fc_sign_pk b) @ len_prefixed (fc_agree_pk b) @ opt_len_prefixed (fc_relay_url b) @
      opt_len_prefixed (fc_relay_token b) @ len_prefixed (fc_name b) @ head b"
    by (simp add: friend_card_signed_bytes_def head_def)
  from framed.put_split [OF sa(1) sb(1) this] have pk: "fc_sign_pk a = fc_sign_pk b"
    and "len_prefixed (fc_agree_pk a) @ opt_len_prefixed (fc_relay_url a) @
      opt_len_prefixed (fc_relay_token a) @ len_prefixed (fc_name a) @ head a =
    len_prefixed (fc_agree_pk b) @ opt_len_prefixed (fc_relay_url b) @
      opt_len_prefixed (fc_relay_token b) @ len_prefixed (fc_name b) @ head b" by blast+
  from framed.put_split [OF sa(2) sb(2) this(2)] have ag: "fc_agree_pk a = fc_agree_pk b"
    and "opt_len_prefixed (fc_relay_url a) @ opt_len_prefixed (fc_relay_token a) @ len_prefixed (fc_name a) @ head a =
    opt_len_prefixed (fc_relay_url b) @ opt_len_prefixed (fc_relay_token b) @ len_prefixed (fc_name b) @ head b" by blast+
  from opt_framed.put_split [OF sa(4) sb(4) this(2)] have url: "fc_relay_url a = fc_relay_url b"
    and "opt_len_prefixed (fc_relay_token a) @ len_prefixed (fc_name a) @ head a =
    opt_len_prefixed (fc_relay_token b) @ len_prefixed (fc_name b) @ head b" by blast+
  from opt_framed.put_split [OF sa(5) sb(5) this(2)] have tok: "fc_relay_token a = fc_relay_token b"
    and "len_prefixed (fc_name a) @ head a = len_prefixed (fc_name b) @ head b" by blast+
  from framed.put_split [OF sa(3) sb(3) this(2)] have nm: "fc_name a = fc_name b" and hd: "head a = head b" by blast+
  have "fc_roster_head_hash a = fc_roster_head_hash b"
  proof (cases "fc_roster_head_hash a"; cases "fc_roster_head_hash b")
    fix x y assume xy: "fc_roster_head_hash a = Some x" "fc_roster_head_hash b = Some y"
    with hd framed.put_split [OF sa(6) sb(6), of x y "[]" "[]"] show ?thesis by (simp add: head_def)
  qed (use hd in \<open>auto simp: head_def\<close>)
  with pk ag url tok nm show ?thesis by (cases a, cases b) simp
qed

text \<open>The domains of the two card signatures and of the device signatures are pairwise incompatible.\<close>

lemma card_domains_differ:
  "friend_card_signed_bytes fc \<noteq> SHARED_CARD_SIGN_DOMAIN @ body"
  "friend_card_signed_bytes fc \<noteq> domain_separator d @ body"
  "SHARED_CARD_SIGN_DOMAIN @ body' \<noteq> domain_separator d @ body"
  by (cases d; simp add: friend_card_signed_bytes_def FRIEND_CARD_SIGN_DOMAIN_def SHARED_CARD_SIGN_DOMAIN_def ascii_def
      DEVICE_CERT_SIGN_DOMAIN_def ROSTER_SIGN_DOMAIN_def MESSAGE_AUTHORING_SIGN_DOMAIN_def SYNC_RECORD_SIGN_DOMAIN_def
      DEVICE_LINK_ACTIVATION_SIGN_DOMAIN_def DEVICE_LINK_BOOTSTRAP_SIGN_DOMAIN_def LAN_OWN_DEVICE_PROOF_SIGN_DOMAIN_def)+

section \<open>Nothing is imported with a bad signature\<close>

definition card_authentic :: "crypto \<Rightarrow> friend_card \<Rightarrow> bool" where
  "card_authentic cr fc =
     (case fc_signature fc of
        None \<Rightarrow> True
      | Some sig \<Rightarrow> length sig = 64 \<and> ed_pk_ok cr (fc_sign_pk fc) \<and> ed_verify cr (fc_sign_pk fc) (friend_card_signed_bytes fc) sig)"

lemma verify_self_signature_iff:
  "card_sized fc \<Longrightarrow> verify_friend_card_self_signature cr fc = Inr u \<longleftrightarrow> card_authentic cr fc"
  by (auto simp: verify_friend_card_self_signature_def card_authentic_def and_then_Inr verifying_key_from_bytes_def
      card_sized_def card_limits split: option.splits if_splits)

lemma binary_imports_authentic:
  "decode_friend_card_binary bs = Inr fc \<Longrightarrow> card_sized fc \<and> card_authentic cr fc"
  "decode_friend_card_binary_v3 cr bs = Inr fc \<Longrightarrow> card_sized fc \<and> card_authentic cr fc"
  "decode_friend_card_binary_v4 cr bs = Inr fc \<Longrightarrow> card_sized fc \<and> card_authentic cr fc"
    apply (auto simp: decode_friend_card_binary_def and_then_Inr Let_def validate_friend_card_iff card_authentic_def; fail)
   apply (auto simp: decode_friend_card_binary_v3_def and_then_Inr Let_def validate_friend_card_iff verify_self_signature_iff; fail)
  apply (auto simp: decode_friend_card_binary_v4_def and_then_Inr Let_def validate_friend_card_iff verify_self_signature_iff; fail)
  done

lemma json_import_authentic:
  "parse_friend_card cp json = Inr fc \<Longrightarrow> card_sized fc \<and> card_authentic (card_crypto cp) fc"
  by (auto simp: parse_friend_card_def friend_card_from_json_def and_then_Inr validate_friend_card_iff verify_self_signature_iff
      split: if_splits sum.splits)

lemma text_import_authentic:
  assumes "parse_friend_text cp text = Inr fc"
  shows "card_sized fc \<and> card_authentic (card_crypto cp) fc"
  using assms
  by (auto simp: parse_friend_text_def Let_def and_then_Inr
      split: if_splits option.splits sum.splits
      dest: binary_imports_authentic [where cr = "card_crypto cp"] json_import_authentic)

section \<open>Scanning a text for a link\<close>

text \<open>
  \<open>plain_lead\<close>: any text before a link in which no code begins, such as \<open>https://cruisemesh.app/f#\<close> or
  \<open>Add me on CruiseMesh:\<close>. Every code begins with \<open>CM\<close>.
\<close>

definition plain_lead :: "utf8 \<Rightarrow> bool" where
  "plain_lead pre \<longleftrightarrow> utf8_ok pre \<and> split_once (ascii ''CM'') pre = None"

definition b64_link_laws :: "relay_prims \<Rightarrow> bool" where
  "b64_link_laws rp \<longleftrightarrow>
     (\<forall>bs. b64_dec rp (b64_enc rp bs) = Some bs \<and> list_all link_byte (b64_enc rp bs) \<and>
           length (b64_enc rp bs) \<le> 2 * length bs)"

lemma link_byte_visible: "link_byte b \<Longrightarrow> byte_in 0x21 0x7E b \<and> b \<noteq> 58"
  by (auto simp: link_byte_def is_ascii_alphanumeric_def byte_in_def)

lemma split_once_absent: "c \<in> set p \<Longrightarrow> c \<notin> set t \<Longrightarrow> split_once p t = None"
  using split_once_join [of p t] by (cases "split_once p t") fastforce+

lemma no_scheme_without_colon: "58 \<notin> set t \<Longrightarrow> parse_scheme_version_digits t = None"
proof -
  assume "58 \<notin> set t"
  then have "b \<noteq> 58" if "drop n t = b # r" for n b r
    using that in_set_dropD [of b n t] by auto
  then show ?thesis by (auto simp: parse_scheme_version_digits_def Let_def split: list.splits)
qed

lemma no_versions_without_colon: "58 \<notin> set t \<Longrightarrow> cruise_scheme_versions t name = []"
proof (induction t name rule: cruise_scheme_versions.induct)
  case (1 t name)
  have "58 \<notin> set rest" if "split_once name t = Some (a, rest)" for a rest
    using split_once_join [OF that] 1(2) by auto
  with 1 show ?case
    by (subst cruise_scheme_versions.simps) (auto simp: no_scheme_without_colon split: option.splits)
qed

lemma versions_cong:
  "split_once name u = map_option (\<lambda>(a, b). (f a, b)) (split_once name t) \<Longrightarrow>
   cruise_scheme_versions u name = cruise_scheme_versions t name"
  by (subst (1 2) cruise_scheme_versions.simps) (auto split: option.splits)

lemma skip_lead:
  assumes "split_once (ascii ''CM'') pre = None" "t = 67 # t'"
  shows "split_once (67 # 77 # q) (pre @ t) = map_option (\<lambda>(a, b). (pre @ a, b)) (split_once (67 # 77 # q) t)"
  using assms(1)
proof (induction pre)
  case Nil
  then show ?case by (cases "split_once (67 # 77 # q) t") auto
next
  case (Cons c pre)
  then have nocm: "\<not> has_prefix (c # pre) (ascii ''CM'')" and tail: "split_once (ascii ''CM'') pre = None"
    by (auto split: if_splits)
  have "\<not> has_prefix ((c # pre) @ t) (67 # 77 # q)"
    using nocm assms(2) by (cases pre) (auto simp: has_prefix_def ascii_def)
  with Cons.IH [OF tail] show ?case by (auto simp: option.map_comp comp_def case_prod_unfold)
qed

lemma skip_lead_prefix:
  assumes "split_once (ascii ''CM'') pre = None" "t = 67 # t'" "pre \<noteq> []"
  shows "\<not> has_prefix (pre @ t) (67 # 77 # q)"
proof -
  obtain c r where pre: "pre = c # r" using assms(3) by (cases pre) auto
  with assms(1) have "\<not> has_prefix (c # r) (ascii ''CM'')" by (auto split: if_splits)
  then show ?thesis using assms(2) pre by (cases r) (auto simp: has_prefix_def ascii_def)
qed

lemma split_once_later: "split_once p (a @ b) = None \<Longrightarrow> split_once p b = None"
  by (induction a) (auto split: if_splits)

lemma trim_visible:
  assumes "list_all (byte_in 0x21 0x7E) t"
  shows "trim t = t"
proof (cases t)
  case Nil
  then show ?thesis by (simp add: trim_def)
next
  case (Cons c cs)
  have ascii: "list_all (byte_in 0 0x7F) t" using assms by (auto simp: list_all_iff byte_in_def)
  have chars: "utf8_chars t = map (\<lambda>b. [b]) t" using utf8_chars_ascii [OF ascii, of "[]"] by simp
  have "dropWhile is_whitespace (map (\<lambda>b. [b]) xs) = map (\<lambda>b. [b]) xs" if "list_all (byte_in 0x21 0x7E) xs" for xs
    using that visible_not_blank by (cases xs) auto
  from this [of t] this [of "rev t"] assms show ?thesis
    by (simp add: trim_def chars rev_map [symmetric] list_all_iff)
qed

lemma strip_visible:
  assumes "list_all (byte_in 0x21 0x7E) t"
  shows "strip_blank t = t"
proof -
  have ascii: "list_all (byte_in 0 0x7F) t" using assms by (auto simp: list_all_iff byte_in_def)
  have "filter (\<lambda>ch. \<not> is_whitespace ch) (map (\<lambda>b. [b]) t) = map (\<lambda>b. [b]) t"
    using assms visible_not_blank by (auto simp: list_all_iff intro!: filter_True)
  then show ?thesis using utf8_chars_ascii [OF ascii, of "[]"] by (simp add: strip_blank_def)
qed

lemma plain_prefix_scan:
  assumes pre: "split_once (ascii ''CM'') pre = None" and body: "58 \<notin> set body"
    and t: "t = ascii ''CMFRIEND3:'' @ body"
  shows "unsupported_link_error (pre @ t) = None"
    and "extract_link_body (pre @ t) FRIEND_LINK_PREFIX_V4 = None"
    and "extract_link_body (pre @ t) FRIEND_LINK_PREFIX_V3 = Some (if pre = [] then body else takeWhile link_byte body)"
proof -
  have t67: "t = 67 # drop 1 t" by (simp add: t ascii_def)
  note skip = skip_lead [OF pre t67]
  have nosplit: "split_once p body = None" if "58 \<in> set p" for p using split_once_absent body that by blast
  have v4: "split_once FRIEND_LINK_PREFIX_V4 (pre @ t) = None" and dl: "split_once DEVICE_LINK_PREFIX (pre @ t) = None"
    using skip [of "drop 2 FRIEND_LINK_PREFIX_V4"] skip [of "drop 2 DEVICE_LINK_PREFIX"]
      nosplit [of FRIEND_LINK_PREFIX_V4] nosplit [of DEVICE_LINK_PREFIX]
    by (simp_all add: t link_prefixes ascii_def has_prefix_def)
  have "cruise_scheme_versions (pre @ t) n = cruise_scheme_versions t n" if "n = 67 # 77 # q" for n q
    unfolding that by (rule versions_cong [OF skip])
  moreover have "cruise_scheme_versions t (ascii ''CMLINK'') = cruise_scheme_versions body (ascii ''CMLINK'')"
    "cruise_scheme_versions t (ascii ''CMSHARE'') = cruise_scheme_versions body (ascii ''CMSHARE'')"
    by (rule versions_cong [where f = "\<lambda>a. ascii ''CMFRIEND3:'' @ a"],
        simp add: t ascii_def has_prefix_def option.map_comp comp_def case_prod_unfold)+
  moreover have "cruise_scheme_versions t (ascii ''CMFRIEND'') = [3]"
  proof -
    have "cruise_scheme_versions (51 # 58 # body) (ascii ''CMFRIEND'') = cruise_scheme_versions body (ascii ''CMFRIEND'')"
      by (rule versions_cong [where f = "\<lambda>a. 51 # 58 # a"])
        (simp add: ascii_def has_prefix_def option.map_comp comp_def case_prod_unfold)
    then have "cruise_scheme_versions (51 # 58 # body) (ascii ''CMFRIEND'') = []"
      by (simp add: no_versions_without_colon body)
    moreover have "parse_scheme_version_digits (51 # 58 # body) = Some 3"
      by (simp add: parse_scheme_version_digits_def is_ascii_digit_def byte_in_def decimal_def u32_max_def Let_def)
    ultimately show ?thesis
      by (subst cruise_scheme_versions.simps) (simp add: t ascii_def has_prefix_def)
  qed
  ultimately show "unsupported_link_error (pre @ t) = None"
    using dl no_versions_without_colon [OF body]
    by (simp add: unsupported_link_error_def cruise_scheme_version_def MAX_PARSED_FRIEND_CARD_VERSION_def Let_def ascii_def)
  have "\<not> has_prefix (pre @ t) FRIEND_LINK_PREFIX_V4"
    using v4 by (cases "pre @ t") (auto simp: has_prefix_def link_prefixes ascii_def split: if_splits)
  then show "extract_link_body (pre @ t) FRIEND_LINK_PREFIX_V4 = None"
    using v4 by (simp add: extract_link_body_def)
  show "extract_link_body (pre @ t) FRIEND_LINK_PREFIX_V3 = Some (if pre = [] then body else takeWhile link_byte body)"
  proof (cases "pre = []")
    case True
    then show ?thesis by (simp add: extract_link_body_def t link_prefixes ascii_def has_prefix_def)
  next
    case False
    then have "\<not> has_prefix (pre @ t) FRIEND_LINK_PREFIX_V3"
      using skip_lead_prefix [OF pre t67, of "drop 2 FRIEND_LINK_PREFIX_V3"] by (simp add: link_prefixes ascii_def)
    moreover have "split_once FRIEND_LINK_PREFIX_V3 (pre @ t) = Some (pre, body)"
      using skip [of "drop 2 FRIEND_LINK_PREFIX_V3"] by (simp add: t link_prefixes ascii_def has_prefix_def)
    ultimately show ?thesis using False by (simp add: extract_link_body_def)
  qed
qed

section \<open>A card on its way\<close>

lemma v3_length: "encode_friend_card_binary_v3 fc = Inr bs \<Longrightarrow> length bs \<le> 3336"
proof (elim v3_encoded)
  fix sig
  assume sized: "card_sized fc" and sig: "encode_v3_signature_field (fc_signature fc) = Inr sig"
    and bs: "bs = card_head fc @ encode_v3_url_field (fc_relay_url fc) @ encode_v3_token_field (fc_relay_token fc) @ sig"
  have "length (card_head fc) \<le> 193" using sized by (simp add: card_head_def card_sized_def card_limits)
  moreover have "length (encode_v3_url_field (fc_relay_url fc)) \<le> 2051"
    using sized by (auto simp: encode_v3_url_field_def card_sized_def longer_than_def card_limits wire_bytes_def split: option.splits)
  moreover have "length (encode_v3_token_field (fc_relay_token fc)) \<le> 1027"
  proof (cases "fc_relay_token fc")
    case (Some t)
    then have "length t \<le> 1024" using sized by (simp add: card_sized_def longer_than_def card_limits)
    with Some packable_hex_unpack [of t] show ?thesis
      by (auto simp: encode_v3_token_field_def wire_bytes_def split: option.splits)
  qed (simp add: encode_v3_token_field_def)
  moreover have "length sig \<le> 65"
    using sig by (auto simp: encode_v3_signature_field_def card_limits split: option.splits if_splits)
  ultimately show ?thesis by (simp add: bs)
qed

lemma link_is_read:
  assumes laws: "b64_link_laws (cp_relay cp)" and lead: "plain_lead pre" and small: "length pre \<le> 16000"
    and binary: "encode_friend_card_binary_v3 fc = Inr binary"
  shows "parse_friend_text cp (pre @ FRIEND_LINK_PREFIX_V3 @ b64_enc (cp_relay cp) binary) =
    decode_friend_card_binary_v3 (card_crypto cp) binary"
proof -
  let ?body = "b64_enc (cp_relay cp) binary" and ?t = "ascii ''CMFRIEND3:'' @ b64_enc (cp_relay cp) binary"
  have link: "list_all link_byte ?body" and dec: "b64_dec (cp_relay cp) ?body = Some binary"
    and len: "length ?body \<le> 2 * length binary"
    using laws by (auto simp: b64_link_laws_def)
  have visible: "list_all (byte_in 0x21 0x7E) ?body" and colon: "58 \<notin> set ?body" and whole: "takeWhile link_byte ?body = ?body"
    using link link_byte_visible by (auto simp: list_all_iff)
  have "list_all (byte_in 0x21 0x7E) (ascii ''CMFRIEND3:'')" by (simp add: ascii_def byte_in_def)
  with visible have "list_all (byte_in 0x21 0x7E) ?t" "?t \<noteq> []" by (simp_all add: ascii_def)
  then obtain cut kept where pre: "pre = cut @ kept" and trim: "trim (pre @ ?t) = kept @ ?t"
    using trim_front [of pre ?t] lead by (auto simp: plain_lead_def)
  have "length (pre @ ?t) \<le> MAX_FRIEND_TEXT_BYTES"
    using small len v3_length [OF binary] by (simp add: MAX_FRIEND_TEXT_BYTES_def ascii_def)
  moreover have nocm: "split_once (ascii ''CM'') kept = None"
    using lead split_once_later by (auto simp: plain_lead_def pre)
  note plain_prefix_scan [OF nocm colon refl]
  ultimately show ?thesis
    using trim
    by (simp add: parse_friend_text_def Let_def FRIEND_LINK_PREFIX_V3_def link_bytes_def strip_visible [OF visible] dec whole)
qed

definition own_token :: "card_prims \<Rightarrow> utf8 option \<Rightarrow> utf8 option" where
  "own_token cp token =
     (case map_option (relay_deposit_token_for (cp_relay cp)) token of
        Some t \<Rightarrow> if t \<noteq> [] then Some t else None
      | None \<Rightarrow> None)"

definition own_card :: "card_prims \<Rightarrow> utf8 \<Rightarrow> identity \<Rightarrow> utf8 option \<Rightarrow> utf8 option \<Rightarrow> friend_card" where
  "own_card cp name idt url token =
     \<lparr>fc_name = name, fc_sign_pk = id_sign_pk idt, fc_agree_pk = id_agree_pk idt, fc_relay_url = url,
      fc_relay_token = own_token cp token, fc_signature = None, fc_roster_head_hash = None\<rparr>"

definition card_json_law :: "card_prims \<Rightarrow> bool" where
  "card_json_law cp \<longleftrightarrow> (\<forall>fc json. card_to_json cp fc = Inr json \<longrightarrow> card_from_json cp json = Inr fc)"

lemma make_friend_card_own:
  "make_friend_card cp name idt url token =
     and_then (validate_friend_card (own_card cp name idt url token)) (\<lambda>_.
     and_then (sign_friend_card (card_crypto cp) (own_card cp name idt url token) (id_sign_sk idt)) (\<lambda>sig.
     case card_to_json cp ((own_card cp name idt url token)\<lparr>fc_signature := Some sig\<rparr>) of
       Inl e \<Rightarrow> Inl (InvalidFriendCard e)
     | Inr json \<Rightarrow>
         if length json > MAX_FRIEND_CARD_JSON_BYTES then Inl (InvalidFriendCard ''friend card is too large'')
         else Inr json))"
  by (simp add: make_friend_card_def own_card_def own_token_def Let_def)

lemma make_friend_card_Inr:
  assumes "make_friend_card cp name idt url token = Inr json"
  obtains sig where "card_sized (own_card cp name idt url token)"
    "sign_friend_card (card_crypto cp) (own_card cp name idt url token) (id_sign_sk idt) = Inr sig"
    "card_to_json cp ((own_card cp name idt url token)\<lparr>fc_signature := Some sig\<rparr>) = Inr json"
    "length json \<le> MAX_FRIEND_CARD_JSON_BYTES"
proof -
  from assms obtain sig where sig: "card_sized (own_card cp name idt url token)"
      "sign_friend_card (card_crypto cp) (own_card cp name idt url token) (id_sign_sk idt) = Inr sig"
    by (auto simp: make_friend_card_own and_then_Inr validate_friend_card_iff)
  then have "validate_friend_card (own_card cp name idt url token) = Inr ()" using validate_friend_card_iff by blast
  with assms sig that show thesis
    by (cases "card_to_json cp ((own_card cp name idt url token)\<lparr>fc_signature := Some sig\<rparr>)")
      (auto simp: make_friend_card_own split: if_splits)
qed

lemma signed_card_authentic:
  assumes "signatures_verify cr" "sign_friend_card cr fc sk = Inr sig" "fc_sign_pk fc = ed_pk cr sk" "card_sized fc"
  shows "card_sized (fc\<lparr>fc_signature := Some sig\<rparr>)" "card_authentic cr (fc\<lparr>fc_signature := Some sig\<rparr>)"
  using assms
  by (auto simp: sign_friend_card_def signing_key_from_bytes_def signatures_verify_def card_sized_def card_authentic_def
      friend_card_signed_bytes_def FRIEND_CARD_SIGNATURE_LEN_def split: if_splits)

lemma own_card_link:
  assumes json: "card_json_law cp" and b64: "b64_link_laws (cp_relay cp)" and sigs: "signatures_verify (card_crypto cp)"
    and key: "id_sign_pk idt = ed_pk (card_crypto cp) (id_sign_sk idt)"
    and made: "make_friend_card cp name idt url token = Inr json"
    and utf: "card_text_ok (own_card cp name idt url token)" and lead: "plain_lead pre" "length pre \<le> 16000"
  shows "\<exists>link sig. make_friend_link cp json = Inr link \<and>
    parse_friend_text cp (pre @ link) = Inr ((own_card cp name idt url token)\<lparr>fc_signature := Some sig\<rparr>) \<and>
    card_authentic (card_crypto cp) ((own_card cp name idt url token)\<lparr>fc_signature := Some sig\<rparr>)"
proof -
  let ?own = "own_card cp name idt url token"
  obtain sig where sized: "card_sized ?own" and sig: "sign_friend_card (card_crypto cp) ?own (id_sign_sk idt) = Inr sig"
    and enc: "card_to_json cp (?own\<lparr>fc_signature := Some sig\<rparr>) = Inr json" and len: "length json \<le> MAX_FRIEND_CARD_JSON_BYTES"
    using made by (rule make_friend_card_Inr)
  let ?fc = "?own\<lparr>fc_signature := Some sig\<rparr>"
  have pk: "fc_sign_pk ?own = ed_pk (card_crypto cp) (id_sign_sk idt)" using key by (simp add: own_card_def)
  note signed = signed_card_authentic [OF sigs sig pk sized]
  have "validate_friend_card ?fc = Inr ()" using signed(1) validate_friend_card_iff by blast
  then have reread: "friend_card_from_json cp json = Inr ?fc"
    using enc json len by (simp add: friend_card_from_json_def card_json_law_def)
  obtain binary where binary: "encode_friend_card_binary_v3 ?fc = Inr binary" using v3_encodes [OF signed(1)] by blast
  have nohead: "fc_roster_head_hash ?fc = None" by (simp add: own_card_def)
  then have same: "?fc\<lparr>fc_roster_head_hash := None\<rparr> = ?fc" by simp
  have "make_friend_link cp json = Inr (FRIEND_LINK_PREFIX_V3 @ b64_enc (cp_relay cp) binary)"
    using nohead by (simp add: make_friend_link_def reread binary EMIT_FRIEND_LINK_V4_def EMIT_FRIEND_LINK_V3_def Let_def)
  moreover have "card_text_ok ?fc" using utf by (simp add: card_text_ok_def)
  then have "decode_friend_card_binary_v3 (card_crypto cp) binary = Inr ?fc"
    using v3_roundtrip [OF binary] signed verify_self_signature_iff [OF signed(1), of "card_crypto cp" "()"] by (simp add: same)
  ultimately show ?thesis
    using link_is_read [OF b64 lead binary] signed(2) by auto
qed

section \<open>Shared cards on their way\<close>

lemma v2_unsigned: "encode_friend_card_binary fc = Inr bs \<Longrightarrow> encode_friend_card_binary (unsigned_card fc) = Inr bs"
  by (auto simp: encode_friend_card_binary_def and_then_Inr validate_friend_card_iff card_sized_parts(1) name_fits_def)
    (simp_all add: unsigned_card_def card_head_def)

lemma v2_length: "encode_friend_card_binary fc = Inr bs \<Longrightarrow> length bs \<le> 65535"
  by (auto simp: encode_friend_card_binary_def and_then_Inr validate_friend_card_iff card_sized_def card_head_def
      encode_opt_field_def longer_than_def wire_bytes_def card_limits split: option.splits)

lemma v2_encodes: "card_sized fc \<Longrightarrow> \<exists>bs. encode_friend_card_binary fc = Inr bs"
  using validate_friend_card_iff [of fc "()"] card_sized_parts(3) [of fc]
  by (simp add: encode_friend_card_binary_def name_fits_def)

lemma i64_read: "i64_ok v \<Longrightarrow> sint (word_of_nat (from_be (i64_bytes v)) :: u64) = v"
  by (simp add: i64_bytes_def from_be_word sint_i64)

lemma length_i64_bytes [simp]: "length (i64_bytes v) = 8"
  by (simp add: i64_bytes_def)

definition shared_ok :: "shared_friend_card \<Rightarrow> bool" where
  "shared_ok sc \<longleftrightarrow> card_text_ok (sc_card sc) \<and> i64_ok (sc_issued_at_ms sc) \<and> i64_ok (sc_expires_at_ms sc)"

lemma shared_encoded:
  assumes "encode_shared_friend_card sc = Inr bs"
  obtains cb where "validate_shared_card_shape sc = Inr ()" "encode_friend_card_binary (sc_card sc) = Inr cb"
    "bs = 1 # wire_bytes cb @ sc_sharer_user_id sc @ u64_bytes (sc_policy_revision sc) @
       i64_bytes (sc_issued_at_ms sc) @ i64_bytes (sc_expires_at_ms sc) @ sc_signature sc"
    "length (sc_sharer_user_id sc) = 16" "length (sc_signature sc) = 64" "sc_version sc = 1"
  using assms
  by (auto simp: encode_shared_friend_card_def shared_card_body_bytes_def validate_shared_card_shape_def and_then_Inr
      SHARED_CARD_VERSION_def USER_ID_LEN_def split: if_splits)

lemma shared_stripped_shape:
  "validate_shared_card_shape sc = Inr () \<Longrightarrow> validate_shared_card_shape (sc\<lparr>sc_card := unsigned_card (sc_card sc)\<rparr>) = Inr ()"
  using card_sized_parts(1) [of "sc_card sc"]
  by (auto simp: validate_shared_card_shape_def and_then_Inr validate_friend_card_iff split: if_splits)

lemma shared_roundtrip:
  assumes "encode_shared_friend_card sc = Inr bs" "shared_ok sc"
  shows "decode_shared_friend_card bs = Inr (sc\<lparr>sc_card := unsigned_card (sc_card sc)\<rparr>)"
proof -
  obtain cb where shape: "validate_shared_card_shape sc = Inr ()" and cb: "encode_friend_card_binary (sc_card sc) = Inr cb"
    and bs: "bs = 1 # wire_bytes cb @ sc_sharer_user_id sc @ u64_bytes (sc_policy_revision sc) @
       i64_bytes (sc_issued_at_ms sc) @ i64_bytes (sc_expires_at_ms sc) @ sc_signature sc"
    and lens: "length (sc_sharer_user_id sc) = 16" "length (sc_signature sc) = 64" and v: "sc_version sc = 1"
    using assms(1) by (rule shared_encoded)
  have len: "unat (word_of_nat (length cb) :: u16) = length cb" using v2_length [OF cb] by (simp add: unat_of_nat)
  have fc: "decode_friend_card_binary cb = Inr (unsigned_card (sc_card sc))"
    using v2_roundtrip [OF cb] assms(2) by (simp add: shared_ok_def)
  have eq: "\<lparr>sc_version = 1, sc_card = unsigned_card (sc_card sc), sc_sharer_user_id = sc_sharer_user_id sc,
      sc_policy_revision = sc_policy_revision sc, sc_issued_at_ms = sc_issued_at_ms sc, sc_expires_at_ms = sc_expires_at_ms sc,
      sc_signature = sc_signature sc\<rparr> = sc\<lparr>sc_card := unsigned_card (sc_card sc)\<rparr>" using v by simp
  have ok: "i64_ok (sc_issued_at_ms sc)" "i64_ok (sc_expires_at_ms sc)" using assms(2) by (simp_all add: shared_ok_def)
  show ?thesis
    by (simp add: decode_shared_friend_card_def cursor_new_at bs wire_bytes_def codec_simps read_slice_end len fc lens
        USER_ID_LEN_def SHARED_CARD_VERSION_def card_end_at from_be_word i64_read ok eq shared_stripped_shape [OF shape] Let_def)
qed

lemma shared_body_inj:
  assumes "shared_card_body_bytes a = Inr body" "shared_card_body_bytes b = Inr body" "shared_ok a" "shared_ok b"
  shows "a\<lparr>sc_card := unsigned_card (sc_card a), sc_signature := []\<rparr> = b\<lparr>sc_card := unsigned_card (sc_card b), sc_signature := []\<rparr>"
proof -
  obtain ca cb where ca: "encode_friend_card_binary (sc_card a) = Inr ca" and cb: "encode_friend_card_binary (sc_card b) = Inr cb"
    and lens: "length (sc_sharer_user_id a) = 16" "length (sc_sharer_user_id b) = 16"
    and eq: "sc_version a # wire_bytes ca @ sc_sharer_user_id a @ u64_bytes (sc_policy_revision a) @
      i64_bytes (sc_issued_at_ms a) @ i64_bytes (sc_expires_at_ms a) @ [] =
      sc_version b # wire_bytes cb @ sc_sharer_user_id b @ u64_bytes (sc_policy_revision b) @
      i64_bytes (sc_issued_at_ms b) @ i64_bytes (sc_expires_at_ms b) @ []"
    using assms(1,2) by (auto simp: shared_card_body_bytes_def and_then_Inr USER_ID_LEN_def split: if_splits)
  have oks: "i64_ok (sc_issued_at_ms a)" "i64_ok (sc_issued_at_ms b)" "i64_ok (sc_expires_at_ms a)" "i64_ok (sc_expires_at_ms b)"
    using assms(3,4) by (simp_all add: shared_ok_def)
  from eq have ver: "sc_version a = sc_version b"
    and "wire_bytes ca @ sc_sharer_user_id a @ u64_bytes (sc_policy_revision a) @
      i64_bytes (sc_issued_at_ms a) @ i64_bytes (sc_expires_at_ms a) @ [] =
      wire_bytes cb @ sc_sharer_user_id b @ u64_bytes (sc_policy_revision b) @
      i64_bytes (sc_issued_at_ms b) @ i64_bytes (sc_expires_at_ms b) @ []" by auto
  from bytes_codec.code.put_split [OF v2_length [OF ca] v2_length [OF cb] this(2)] have same: "ca = cb"
    and "sc_sharer_user_id a @ u64_bytes (sc_policy_revision a) @ i64_bytes (sc_issued_at_ms a) @ i64_bytes (sc_expires_at_ms a) @ [] =
      sc_sharer_user_id b @ u64_bytes (sc_policy_revision b) @ i64_bytes (sc_issued_at_ms b) @ i64_bytes (sc_expires_at_ms b) @ []"
    by blast+
  then have ids: "sc_sharer_user_id a = sc_sharer_user_id b" "sc_policy_revision a = sc_policy_revision b"
    and "i64_bytes (sc_issued_at_ms a) @ i64_bytes (sc_expires_at_ms a) @ [] =
      i64_bytes (sc_issued_at_ms b) @ i64_bytes (sc_expires_at_ms b) @ []"
    using lens by (auto simp: uint_frame_eq)
  from i64_codec.code.put_split [OF oks(1,2) this(3)] have iss: "sc_issued_at_ms a = sc_issued_at_ms b"
    and "i64_bytes (sc_expires_at_ms a) @ [] = i64_bytes (sc_expires_at_ms b) @ []" by blast+
  from i64_codec.code.put_split [OF oks(3,4) this(2)] have "sc_expires_at_ms a = sc_expires_at_ms b" by blast
  moreover have "unsigned_card (sc_card a) = unsigned_card (sc_card b)"
    using v2_roundtrip [OF ca] v2_roundtrip [OF cb] same assms(3,4) by (simp add: shared_ok_def)
  ultimately show ?thesis using ver ids iss by (cases a, cases b) simp
qed

lemma shared_signed_ignores: "shared_card_signed_bytes (sc\<lparr>sc_signature := s\<rparr>) = shared_card_signed_bytes sc"
  by (simp add: shared_card_signed_bytes_def shared_card_body_bytes_def cong: if_cong)

lemma shared_card_created:
  assumes sigs: "signatures_verify cr" and made: "create_shared_friend_card cr sharer fc pr now = Inr sc"
    and now: "i64_ok now" "now < i64_max" and utf: "card_text_ok fc"
  shows "validate_shared_card_shape sc = Inr ()" "shared_ok sc" "sc_card sc = fc" "sc_sharer_user_id sc = id_user_id sharer"
    "sc_policy_revision sc = pr" "sc_issued_at_ms sc = now" "sc_expires_at_ms sc = i64_add now SHARED_CARD_LIFETIME_MS"
    "\<exists>sb. shared_card_signed_bytes sc = Inr sb \<and> sc_signature sc = ed_sign cr (id_sign_sk sharer) sb"
    "length (id_sign_sk sharer) = 32"
proof -
  let ?sc = "\<lparr>sc_version = SHARED_CARD_VERSION, sc_card = fc, sc_sharer_user_id = id_user_id sharer,
    sc_policy_revision = pr, sc_issued_at_ms = now, sc_expires_at_ms = i64_add now SHARED_CARD_LIFETIME_MS, sc_signature = []\<rparr>"
  obtain sb where sized: "card_sized fc" and uid: "length (id_user_id sharer) = USER_ID_LEN"
    and sk: "length (id_sign_sk sharer) = 32" and sb: "shared_card_signed_bytes ?sc = Inr sb"
    and sc: "sc = ?sc\<lparr>sc_signature := ed_sign cr (id_sign_sk sharer) sb\<rparr>"
    using made
    by (auto simp: create_shared_friend_card_def and_then_Inr validate_friend_card_iff signing_key_from_bytes_def Let_def
        split: if_splits)
  have valid: "validate_friend_card fc = Inr ()" using sized validate_friend_card_iff by blast
  have window: "now < i64_add now SHARED_CARD_LIFETIME_MS"
      "i64_sub (i64_add now SHARED_CARD_LIFETIME_MS) now \<le> SHARED_CARD_LIFETIME_MS"
    using now by (auto simp: i64_defs i64_ok_def SHARED_CARD_LIFETIME_MS_def MS_PER_DAY_def)
  have "length (ed_sign cr (id_sign_sk sharer) sb) = 64" using sigs sk by (simp add: signatures_verify_def)
  then show "validate_shared_card_shape sc = Inr ()"
    using window uid valid by (simp add: sc validate_shared_card_shape_def)
  show "shared_ok sc" using now utf by (simp add: sc shared_ok_def i64_add_def)
  show "sc_card sc = fc" "sc_sharer_user_id sc = id_user_id sharer" "sc_policy_revision sc = pr" "sc_issued_at_ms sc = now"
    "sc_expires_at_ms sc = i64_add now SHARED_CARD_LIFETIME_MS" by (simp_all add: sc)
  show "\<exists>sb. shared_card_signed_bytes sc = Inr sb \<and> sc_signature sc = ed_sign cr (id_sign_sk sharer) sb"
    by (intro exI [of _ sb] conjI) (simp_all only: sc shared_signed_ignores sb, simp)
  show "length (id_sign_sk sharer) = 32" by (rule sk)
qed

lemma shared_signed_stripped:
  "shared_card_signed_bytes sc = Inr sb \<Longrightarrow>
   shared_card_signed_bytes (sc\<lparr>sc_card := unsigned_card (sc_card sc)\<rparr>) = Inr sb"
  by (auto simp: shared_card_signed_bytes_def shared_card_body_bytes_def and_then_Inr split: if_splits dest: v2_unsigned)

lemma shared_card_arrives:
  assumes sigs: "signatures_verify cr" and made: "create_shared_friend_card cr sharer fc pr now = Inr sc"
    and now: "i64_ok now" "now < i64_max" and utf: "card_text_ok fc"
    and key: "id_sign_pk sharer = ed_pk cr (id_sign_sk sharer)" "id_user_id sharer = derive_user_id cr (id_sign_pk sharer)"
  shows "\<exists>bs got. encode_shared_friend_card sc = Inr bs \<and> decode_shared_friend_card bs = Inr got \<and>
    got = sc\<lparr>sc_card := unsigned_card fc\<rparr> \<and>
    verify_shared_friend_card cr got (id_sign_pk sharer) uid pr' t =
      Inr (uid = derive_user_id cr (fc_sign_pk fc) \<and> pr' = pr \<and> i64_sub now SHARED_CARD_CLOCK_SKEW_MS \<le> t \<and>
           t \<le> i64_add (i64_add now SHARED_CARD_LIFETIME_MS) SHARED_CARD_CLOCK_SKEW_MS)"
proof -
  note made' = shared_card_created [OF sigs made now utf]
  obtain sb where sb: "shared_card_signed_bytes sc = Inr sb"
    and sig: "sc_signature sc = ed_sign cr (id_sign_sk sharer) sb" using made'(8) by blast
  obtain body where "shared_card_body_bytes sc = Inr body" using sb by (auto simp: shared_card_signed_bytes_def and_then_Inr)
  then have enc: "encode_shared_friend_card sc = Inr (body @ sc_signature sc)" using made'(1) by (simp add: encode_shared_friend_card_def)
  let ?got = "sc\<lparr>sc_card := unsigned_card fc\<rparr>"
  have shape: "validate_shared_card_shape ?got = Inr ()" using shared_stripped_shape [OF made'(1)] made'(3) by simp
  have bytes: "shared_card_signed_bytes ?got = Inr sb" using shared_signed_stripped [OF sb] made'(3) by simp
  have pk: "verifying_key_from_bytes cr (id_sign_pk sharer) = Inr (id_sign_pk sharer)"
    using sigs made'(9) key(1) by (simp add: signatures_verify_def verifying_key_from_bytes_def)
  have "length (sc_signature sc) = 64" "ed_verify cr (id_sign_pk sharer) sb (sc_signature sc)"
    using sigs made'(9) sig key(1) by (simp_all add: signatures_verify_def)
  then have "verify_shared_friend_card cr ?got (id_sign_pk sharer) uid pr' t =
      Inr (uid = derive_user_id cr (fc_sign_pk fc) \<and> pr' = pr \<and> i64_sub now SHARED_CARD_CLOCK_SKEW_MS \<le> t \<and>
           t \<le> i64_add (i64_add now SHARED_CARD_LIFETIME_MS) SHARED_CARD_CLOCK_SKEW_MS)"
    using shape bytes pk key(2) made'
    by (auto simp: verify_shared_friend_card_def unsigned_card_def not_less)
  moreover have "decode_shared_friend_card (body @ sc_signature sc) = Inr ?got"
    using shared_roundtrip [OF enc made'(2)] made'(3) by simp
  ultimately show ?thesis using enc by blast
qed

section \<open>The hosted relay is recognised by its host\<close>

lemma lowercase_absent:
  assumes "to_ascii_lowercase h = to_ascii_lowercase OFFICIAL_RELAY_HOST"
  shows "47 \<notin> set h \<and> 63 \<notin> set h \<and> 35 \<notin> set h \<and> 64 \<notin> set h \<and> 58 \<notin> set h \<and> 91 \<notin> set h"
proof -
  have "(if byte_in 65 90 c then c + 32 else c) \<in> set (to_ascii_lowercase h)" if "c \<in> set h" for c
    using that unfolding to_ascii_lowercase_def set_map by (rule imageI)
  note img = this [unfolded assms]
  show ?thesis
    by (intro conjI notI; drule img; simp add: text_eval OFFICIAL_RELAY_HOST_def)
qed

lemma official_setup_host:
  assumes "relay_setup_is_official url"
  shows "to_ascii_lowercase (relay_url_host (normalize_relay_url url)) = OFFICIAL_RELAY_HOST"
    and "relay_url_transport_is_secure (normalize_relay_url url)"
proof -
  let ?u = "normalize_relay_url url" and ?h = "drop (length (ascii ''https://'')) (normalize_relay_url url)"
  have pre: "has_prefix ?u (ascii ''https://'')" and host: "to_ascii_lowercase ?h = to_ascii_lowercase OFFICIAL_RELAY_HOST"
    using assms by (auto simp: relay_setup_is_official_def Let_def split: if_splits)
  have u: "?u = ascii ''https://'' @ ?h" using has_prefix_split [OF pre] .
  define h where "h = ?h"
  note u = u [folded h_def] and free = lowercase_absent [OF host, folded h_def]
  have split: "split_once SCHEME_SEP ?u = Some (ascii ''https'', h)"
    unfolding u by (simp add: SCHEME_SEP_def ascii_def has_prefix_def)
  then have "after_scheme ?u = h" by (simp add: after_scheme_def)
  moreover have "first_field {47, 63, 35} h = h" using first_field_append [of h "{47, 63, 35}" "[]"] free by simp
  moreover have "\<not> has_prefix h [91]" using free by (auto simp: has_prefix_iff)
  ultimately have "relay_url_host ?u = h"
    using free by (simp add: relay_url_host_def rsplit_once_None Let_def)
  then show "to_ascii_lowercase (relay_url_host ?u) = OFFICIAL_RELAY_HOST"
    using host by (simp add: h_def text_eval OFFICIAL_RELAY_HOST_def)
  show "relay_url_transport_is_secure ?u" by (simp add: relay_url_transport_is_secure_def split)
qed

section \<open>Whom a card belongs to\<close>

text \<open>Identity beats name: only a name that belongs to somebody else, and to nobody with this identity, is a warning.\<close>

lemma card_match_spec:
  "friend_card_match_of lower cand existing = New \<longleftrightarrow>
     \<not> (\<exists>c\<in>set existing. ct_user_id c = ct_user_id cand \<or> same_name lower cand c)"
  "(\<exists>n s. friend_card_match_of lower cand existing = AlreadySaved n s) \<longleftrightarrow>
     (\<exists>c\<in>set existing. ct_user_id c = ct_user_id cand)"
  "(\<exists>u n. friend_card_match_of lower cand existing = NameTaken u n) \<longleftrightarrow>
     (\<forall>c\<in>set existing. ct_user_id c \<noteq> ct_user_id cand) \<and> (\<exists>c\<in>set existing. same_name lower cand c)"
  unfolding friend_card_match_of_def
  by (auto simp: find_None_iff find_Some_iff split: option.splits)

section \<open>Properties\<close>

lemma request_card:
  "parse_friend_request_content cp json = Inr req \<Longrightarrow> parse_friend_card cp json = Inr (frq_card req)"
  by (cases "value_from_json cp json") (auto simp: parse_friend_request_content_def and_then_Inr)

lemma import_card: "parse_friend_import cp text = Inr (Direct fc) \<Longrightarrow> parse_friend_text cp text = Inr fc"
  by (auto simp: parse_friend_import_def and_then_Inr Let_def split: if_splits option.splits)

text \<open>
  What a card signature commits to. Two well-formed cards with the same signed bytes agree
  in every field but the signature itself, an absent roster head differing from every present one. Two
  shared cards with the same signed bytes agree in the sharer, the revision, the window and in the name, keys,
  relay URL and token of the card inside; they need not agree in the inner card's own signature and
  roster head, which the signed bytes leave out. And no bytes are at once those of a friend
  card, of a shared card and of a device signature.
\<close>

theorem card_signatures_commit:
  "(card_sized a \<and> card_sized b \<and> friend_card_signed_bytes a = friend_card_signed_bytes b \<longrightarrow>
      a\<lparr>fc_signature := None\<rparr> = b\<lparr>fc_signature := None\<rparr>) \<and>
   (shared_ok x \<and> shared_ok y \<and> shared_card_signed_bytes x = Inr m \<and> shared_card_signed_bytes y = Inr m \<longrightarrow>
      x\<lparr>sc_card := unsigned_card (sc_card x), sc_signature := []\<rparr> = y\<lparr>sc_card := unsigned_card (sc_card y), sc_signature := []\<rparr>) \<and>
   (shared_card_signed_bytes x = Inr m \<longrightarrow> shared_card_signed_bytes (x\<lparr>sc_card := unsigned_card (sc_card x)\<rparr>) = Inr m \<and>
      m \<noteq> friend_card_signed_bytes a \<and> m \<noteq> domain_signed_bytes d msg \<and> domain_signed_bytes d msg \<noteq> friend_card_signed_bytes a)"
proof (intro conjI impI)
  assume "card_sized a \<and> card_sized b \<and> friend_card_signed_bytes a = friend_card_signed_bytes b"
  then show "a\<lparr>fc_signature := None\<rparr> = b\<lparr>fc_signature := None\<rparr>" using card_signed_bytes_inj by blast
next
  assume *: "shared_ok x \<and> shared_ok y \<and> shared_card_signed_bytes x = Inr m \<and> shared_card_signed_bytes y = Inr m"
  then obtain body where "shared_card_body_bytes x = Inr body" "shared_card_body_bytes y = Inr body"
    by (auto simp: shared_card_signed_bytes_def and_then_Inr)
  with * show "x\<lparr>sc_card := unsigned_card (sc_card x), sc_signature := []\<rparr> = y\<lparr>sc_card := unsigned_card (sc_card y), sc_signature := []\<rparr>"
    using shared_body_inj by blast
next
  assume m: "shared_card_signed_bytes x = Inr m"
  then show "shared_card_signed_bytes (x\<lparr>sc_card := unsigned_card (sc_card x)\<rparr>) = Inr m" by (rule shared_signed_stripped)
  from m obtain body where "m = SHARED_CARD_SIGN_DOMAIN @ body" by (auto simp: shared_card_signed_bytes_def and_then_Inr)
  then show "m \<noteq> friend_card_signed_bytes a" "m \<noteq> domain_signed_bytes d msg"
    using card_domains_differ by (metis domain_signed_bytes_def)+
  show "domain_signed_bytes d msg \<noteq> friend_card_signed_bytes a"
    using card_domains_differ(2) by (metis domain_signed_bytes_def)
qed

lemma failing_signature:
  assumes "card_sized fc" "\<not> card_authentic cr fc"
  shows "\<exists>e. and_then (verify_friend_card_self_signature cr fc) k = Inl e"
  using verify_self_signature_iff [OF assms(1), of cr "()"] assms(2) by (cases "verify_friend_card_self_signature cr fc") auto

lemma forged_json_refused:
  assumes "card_from_json cp json = Inr fc" "\<not> card_authentic (card_crypto cp) fc"
  shows "\<exists>e. parse_friend_card cp json = Inl e" "\<exists>e. parse_friend_request_content cp json = Inl e"
proof -
  have no: "parse_friend_card cp json \<noteq> Inr c" for c
    using assms json_import_authentic [of cp json c]
    by (auto simp: parse_friend_card_def friend_card_from_json_def and_then_Inr split: if_splits)
  then show "\<exists>e. parse_friend_card cp json = Inl e" by (cases "parse_friend_card cp json") auto
  show "\<exists>e. parse_friend_request_content cp json = Inl e"
    using no request_card [of cp json] by (cases "parse_friend_request_content cp json") auto
qed

lemma forged_v3_refused:
  assumes "encode_friend_card_binary_v3 fc = Inr bs" "card_text_ok fc" "\<not> card_authentic cr (fc\<lparr>fc_roster_head_hash := None\<rparr>)"
  shows "\<exists>e. decode_friend_card_binary_v3 cr bs = Inl e"
proof -
  have "card_sized fc" using assms(1) by (rule v3_encoded)
  then show ?thesis using v3_roundtrip [OF assms(1,2)] failing_signature [OF card_sized_parts(2) assms(3)] by simp
qed

lemma forged_v4_refused:
  assumes "encode_friend_card_binary_v4 fc = Inr bs" "card_text_ok fc" "\<not> card_authentic cr fc"
  shows "\<exists>e. decode_friend_card_binary_v4 cr (bs @ later) = Inl e"
proof -
  obtain out where "encode_friend_card_binary_v3 fc = Inr out"
    using assms(1) by (auto simp: encode_friend_card_binary_v4_def and_then_Inr)
  then have "card_sized fc" by (rule v3_encoded)
  then show ?thesis using v4_roundtrip [OF assms(1,2)] failing_signature [OF _ assms(3)] by simp
qed

text \<open>
  Claim C11. Nothing is imported with a bad signature, and a bad signature is never dropped to make a card
  importable. Whatever text is scanned or pasted, and whatever friend request arrives, an accepted card is
  within all bounds and either carries no signature or one of 64 bytes that verifies under the card's own
  key over its fields. And a document that carries a signature which does not verify is refused: a JSON card
  and a friend request around one, the bytes of a \<open>CMFRIEND3\<close> link and the scanned text with such a
  link, and the bytes of a \<open>CMFRIEND4\<close> link with whatever a later version appends. The older \<open>CMFRIEND2\<close> form
  carries no signature. Base64url is assumed to read back what it writes.
\<close>

theorem imported_card_authentic:
  "(parse_friend_text cp scan = Inr fc \<or> parse_friend_import cp scan = Inr (Direct fc) \<or>
      parse_friend_request_content cp scan = Inr req \<and> fc = frq_card req \<longrightarrow>
      card_sized fc \<and> card_authentic (card_crypto cp) fc) \<and>
   (card_from_json cp json = Inr forged \<and> \<not> card_authentic (card_crypto cp) forged \<longrightarrow>
      (\<exists>e. parse_friend_card cp json = Inl e) \<and> (\<exists>e. parse_friend_request_content cp json = Inl e)) \<and>
   (encode_friend_card_binary_v3 forged = Inr bs \<and> card_text_ok forged \<and>
      \<not> card_authentic (card_crypto cp) (forged\<lparr>fc_roster_head_hash := None\<rparr>) \<longrightarrow>
      (\<exists>e. decode_friend_card_binary_v3 (card_crypto cp) bs = Inl e) \<and>
      (b64_link_laws (cp_relay cp) \<and> plain_lead pre \<and> length pre \<le> 16000 \<longrightarrow>
         (\<exists>e. parse_friend_text cp (pre @ FRIEND_LINK_PREFIX_V3 @ b64_enc (cp_relay cp) bs) = Inl e))) \<and>
   (encode_friend_card_binary_v4 forged = Inr bs \<and> card_text_ok forged \<and> \<not> card_authentic (card_crypto cp) forged \<longrightarrow>
      (\<exists>e. decode_friend_card_binary_v4 (card_crypto cp) (bs @ later) = Inl e))"
proof -
  have "card_sized fc \<and> card_authentic (card_crypto cp) fc"
    if "parse_friend_text cp scan = Inr fc \<or> parse_friend_import cp scan = Inr (Direct fc) \<or>
      parse_friend_request_content cp scan = Inr req \<and> fc = frq_card req"
    using that import_card [of cp scan fc] request_card [of cp scan req] text_import_authentic [of cp scan fc]
      json_import_authentic [of cp scan fc] by blast
  then show ?thesis
    using forged_json_refused [of cp json forged] forged_v3_refused [of forged bs "card_crypto cp"]
      forged_v4_refused [of forged bs "card_crypto cp" later] link_is_read [of cp pre forged bs] by simp
qed

text \<open>
  Claim C13. A card reaches the other phone. The link made from one's own card, bare or behind any UTF-8
  text of at most 16000 bytes without the capitals \<open>CM\<close> every code begins with (an address such as \<open>https://cruisemesh.app/f#\<close>, prose such as \<open>Add me on
  CruiseMesh:\<close> in any language, with blanks and line breaks), is read back as exactly that card: the
  name, both keys, the relay URL and the token attenuated to its deposit form, with a signature that
  verifies. Base64url and JSON are assumed to read back what they write.
\<close>

theorem own_card_arrives:
  assumes "card_json_law cp" "b64_link_laws (cp_relay cp)" "signatures_verify (card_crypto cp)"
    and "id_sign_pk idt = ed_pk (card_crypto cp) (id_sign_sk idt)"
    and "make_friend_card cp name idt url token = Inr json"
    and "card_text_ok (own_card cp name idt url token)" and "plain_lead pre" "length pre \<le> 16000"
  shows "\<exists>link sig. make_friend_link cp json = Inr link \<and>
    parse_friend_text cp (pre @ link) = Inr ((own_card cp name idt url token)\<lparr>fc_signature := Some sig\<rparr>) \<and>
    card_authentic (card_crypto cp) ((own_card cp name idt url token)\<lparr>fc_signature := Some sig\<rparr>)"
  using assms by (rule own_card_link)

text \<open>
  Claim C14. A shared card is honoured. What a sharer issues is encoded, read back by the scanner, and
  accepted at the phone of the shared person exactly while the clock is within a day of the seven-day
  window, for that person and under the discovery revision it was issued for. The card that arrives
  has lost its own signature and roster head.
\<close>

theorem shared_card_honoured:
  assumes "signatures_verify cr" "create_shared_friend_card cr sharer fc pr now = Inr sc"
    and "i64_ok now" "now < i64_max" "card_text_ok fc"
    and "id_sign_pk sharer = ed_pk cr (id_sign_sk sharer)" "id_user_id sharer = derive_user_id cr (id_sign_pk sharer)"
  shows "\<exists>bs got. encode_shared_friend_card sc = Inr bs \<and> decode_shared_friend_card bs = Inr got \<and>
    got = sc\<lparr>sc_card := unsigned_card fc\<rparr> \<and>
    verify_shared_friend_card cr got (id_sign_pk sharer) uid pr' t =
      Inr (uid = derive_user_id cr (fc_sign_pk fc) \<and> pr' = pr \<and> i64_sub now SHARED_CARD_CLOCK_SKEW_MS \<le> t \<and>
           t \<le> i64_add (i64_add now SHARED_CARD_LIFETIME_MS) SHARED_CARD_CLOCK_SKEW_MS)"
  using assms by (rule shared_card_arrives)

text \<open>
  A setup card that is accepted without asking names the hosted relay: its host is the official one
  whatever else the URL was written with, and its transport is secure.
\<close>

theorem official_setup_is_hosted:
  assumes "relay_setup_is_official url"
  shows "to_ascii_lowercase (relay_url_host (normalize_relay_url url)) = OFFICIAL_RELAY_HOST \<and>
    relay_url_transport_is_secure (normalize_relay_url url)"
  using official_setup_host [OF assms] by simp

section \<open>Witnesses\<close>

lemma hex_digit_back: "unat d < 16 \<Longrightarrow> hex_nibble (from_digit16 d) = Some d"
  by (auto simp: hex_nibble_def from_digit16_def byte_in_def word_less_nat_alt unat_word_ariths unat_sub_if')

lemma nibble_bounds: "unat (drop_bit 4 (b :: u8)) < 16" "unat (b AND 0x0F) < 16"
proof -
  have "unat b < 256" using unat_lt_pow [of b] by simp
  then show "unat (drop_bit 4 b) < 16" by (simp add: drop_bit_eq_div unat_div)
  have low: "(0x0F :: u8) = mask 4" by (simp add: mask_eq_exp_minus_1)
  show "unat (b AND 0x0F) < 16"
    unfolding low take_bit_eq_mask [symmetric] using take_bit_nat_less_exp [of 4 "unat b"] by (simp add: unsigned_take_bit_eq)
qed

lemma nibbles_join: "push_bit 4 (drop_bit 4 b) OR (b AND 0x0F) = (b :: u8)"
proof -
  have low: "(0x0F :: u8) = mask 4" by (simp add: mask_eq_exp_minus_1)
  show ?thesis unfolding low by (rule bit_word_eqI) (auto simp: bit_simps)
qed

lemma hex_string_pairs: "hex_pairs (hex_string bs) = Some bs"
  by (induction bs) (simp_all add: hex_string_def hex_digit_back nibble_bounds nibbles_join)

lemma hex_string_link: "list_all link_byte (hex_string bs)" "length (hex_string bs) = 2 * length bs"
proof -
  have "link_byte (from_digit16 d)" if "unat d < 16" for d
    using that by (auto simp: link_byte_def is_ascii_alphanumeric_def from_digit16_def byte_in_def word_less_nat_alt
        unat_word_ariths unat_sub_if')
  then show "list_all link_byte (hex_string bs)" by (auto simp: hex_string_def list_all_iff nibble_bounds)
  show "length (hex_string bs) = 2 * length bs" by (induction bs) (simp_all add: hex_string_def)
qed

definition demo_id :: identity where
  "demo_id = \<lparr>id_user_id = replicate 16 7, id_sign_pk = replicate 32 7, id_sign_sk = replicate 32 7,
     id_agree_pk = replicate 32 8, id_agree_sk = replicate 32 8\<rparr>"

definition demo_own :: friend_card where
  "demo_own = \<lparr>fc_name = [65], fc_sign_pk = replicate 32 7, fc_agree_pk = replicate 32 8, fc_relay_url = Some OFFICIAL_RELAY_URL,
     fc_relay_token = None, fc_signature = None, fc_roster_head_hash = None\<rparr>"

definition demo_signed :: friend_card where
  "demo_signed = demo_own\<lparr>fc_signature := Some (ed_sign sample_crypto (replicate 32 7) (friend_card_signed_bytes demo_own))\<rparr>"

definition demo_cards :: card_prims where
  "demo_cards = \<lparr>cp_relay = \<lparr>prim_crypto = sample_crypto, b64_enc = hex_string, b64_dec = hex_pairs\<rparr>, x25519_pk = id,
     b32_enc = id, b64_fault = \<lambda>_. [], json_error_text = \<lambda>_. [],
     card_to_json = \<lambda>fc. if fc = demo_signed then Inr (ascii ''{}'') else Inl [], card_from_json = \<lambda>_. Inr demo_signed,
     value_to_json = \<lambda>_. Inl [], value_from_json = \<lambda>_. Inr JNull\<rparr>"

lemma demo_laws:
  "card_json_law demo_cards" "b64_link_laws (cp_relay demo_cards)" "card_crypto demo_cards = sample_crypto"
  by (auto simp: card_json_law_def b64_link_laws_def demo_cards_def card_crypto_def hex_string_pairs hex_string_link)

lemma demo_own_card: "own_card demo_cards [65] demo_id (Some OFFICIAL_RELAY_URL) None = demo_own"
  by (simp add: own_card_def own_token_def demo_own_def demo_id_def)

lemma demo_own_sized: "card_sized demo_own" "card_text_ok demo_own"
  by (simp_all add: card_sized_def card_text_ok_def demo_own_def card_limits longer_than_def utf8_opt_def utf8_ok_def
      char_error_def tail_tests_def OFFICIAL_RELAY_URL_def OFFICIAL_RELAY_HOST_def text_eval)

lemma demo_sign: "sign_friend_card sample_crypto demo_own (id_sign_sk demo_id) =
    Inr (ed_sign sample_crypto (replicate 32 7) (friend_card_signed_bytes demo_own))"
  by (simp add: sign_friend_card_def signing_key_from_bytes_def demo_id_def)

lemma demo_made: "make_friend_card demo_cards [65] demo_id (Some OFFICIAL_RELAY_URL) None = Inr (ascii ''{}'')"
proof -
  have "validate_friend_card demo_own = Inr ()" using demo_own_sized validate_friend_card_iff by blast
  moreover have "card_to_json demo_cards demo_signed = Inr (ascii ''{}'')" by (simp add: demo_cards_def)
  ultimately show ?thesis
    by (simp add: make_friend_card_own demo_own_card demo_laws demo_sign demo_signed_def [symmetric] MAX_FRIEND_CARD_JSON_BYTES_def ascii_def)
qed

theorem own_card_arrives_witness:
  "\<exists>link sig. make_friend_link demo_cards (ascii ''{}'') = Inr link \<and>
     parse_friend_text demo_cards (ascii ''Add me on CruiseMesh: '' @ link) = Inr (demo_own\<lparr>fc_signature := Some sig\<rparr>) \<and>
     card_authentic sample_crypto (demo_own\<lparr>fc_signature := Some sig\<rparr>)"
proof -
  have "signatures_verify (card_crypto demo_cards)" "id_sign_pk demo_id = ed_pk (card_crypto demo_cards) (id_sign_sk demo_id)"
    by (simp_all add: demo_laws demo_id_def) (simp add: sample_crypto_def)
  moreover have "plain_lead (ascii ''Add me on CruiseMesh: '')" "length (ascii ''Add me on CruiseMesh: '') \<le> 16000"
    by (simp_all add: plain_lead_def utf8_ok_def char_error_def tail_tests_def text_eval has_prefix_def)
  ultimately show ?thesis
    using own_card_arrives [OF demo_laws(1,2) _ _ demo_made] by (simp add: demo_own_card demo_own_sized demo_laws)
qed

lemma demo_signed_ok: "verify_friend_card_self_signature sample_crypto demo_signed = Inr ()" "validate_friend_card demo_signed = Inr ()"
proof -
  have "fc_sign_pk demo_own = ed_pk sample_crypto (id_sign_sk demo_id)" by (simp add: demo_own_def demo_id_def sample_crypto_def)
  from signed_card_authentic [OF sample_crypto_ok(2) demo_sign this demo_own_sized(1)]
  have "card_sized demo_signed" "card_authentic sample_crypto demo_signed" by (simp_all add: demo_signed_def)
  then show "verify_friend_card_self_signature sample_crypto demo_signed = Inr ()" "validate_friend_card demo_signed = Inr ()"
    using verify_self_signature_iff validate_friend_card_iff by blast+
qed

lemma demo_scan: "parse_friend_text demo_cards (ascii ''{}'') = Inr demo_signed"
proof -
  have scan: "trim (ascii ''{}'') = ascii ''{}''" by (simp add: trim_visible ascii_def byte_in_def)
  have none: "cruise_scheme_versions (ascii ''{}'') n = []" for n
    by (rule no_versions_without_colon) (simp add: ascii_def)
  have "parse_friend_card demo_cards (ascii ''{}'') = Inr demo_signed"
    using demo_signed_ok
    by (simp add: parse_friend_card_def friend_card_from_json_def MAX_FRIEND_CARD_JSON_BYTES_def ascii_def demo_laws)
      (simp add: demo_cards_def)
  moreover have "extract_link_body (ascii ''{}'') p = None" "split_once p (ascii ''{}'') = None" if "58 \<in> set p" for p
  proof -
    have "\<not> has_prefix (ascii ''{}'') p" using that set_take_subset [of "length p" "ascii ''{}''"] by (auto simp: has_prefix_def ascii_def)
    moreover show "split_once p (ascii ''{}'') = None" using split_once_absent [of 58 p "ascii ''{}''"] that by (simp add: ascii_def)
    ultimately show "extract_link_body (ascii ''{}'') p = None" by (simp add: extract_link_body_def)
  qed
  moreover have "58 \<in> set p" if "p \<in> {FRIEND_LINK_PREFIX_V4, FRIEND_LINK_PREFIX_V3, FRIEND_LINK_PREFIX_V2, FRIEND_LINK_PREFIX, DEVICE_LINK_PREFIX}" for p
    using that by (auto simp: link_prefixes ascii_def)
  ultimately show ?thesis
    by (simp add: parse_friend_text_def scan unsupported_link_error_def cruise_scheme_version_def none Let_def)
      (simp add: MAX_FRIEND_TEXT_BYTES_def ascii_def)
qed

definition demo_forged :: friend_card where
  "demo_forged = demo_own\<lparr>fc_signature := Some (replicate 64 0)\<rparr>"

lemma demo_forged_facts:
  "\<not> card_authentic sample_crypto demo_forged" "card_text_ok demo_forged" "\<exists>bs. encode_friend_card_binary_v3 demo_forged = Inr bs"
  "demo_forged\<lparr>fc_roster_head_hash := None\<rparr> = demo_forged"
proof -
  have "replicate 64 (0 :: u8) \<noteq> replicate 32 7 @ xs" for xs
  proof
    assume "replicate 64 (0 :: u8) = replicate 32 7 @ xs"
    from arg_cong [OF this, of hd] show False by (simp add: hd_append)
  qed
  then show "\<not> card_authentic sample_crypto demo_forged"
    by (simp add: card_authentic_def demo_forged_def demo_own_def sample_crypto_def)
  show "card_text_ok demo_forged" using demo_own_sized(2) by (simp add: demo_forged_def card_text_ok_def)
  have "card_sized demo_forged" using demo_own_sized(1) by (simp add: demo_forged_def card_sized_def card_limits)
  then show "\<exists>bs. encode_friend_card_binary_v3 demo_forged = Inr bs" by (rule v3_encodes)
  show "demo_forged\<lparr>fc_roster_head_hash := None\<rparr> = demo_forged" by (simp add: demo_forged_def demo_own_def)
qed

text \<open>A signed card is imported; the same card with another signature is refused, behind prose too.\<close>

theorem imported_card_authentic_witness:
  "card_sized demo_signed \<and> card_authentic sample_crypto demo_signed \<and>
   (\<exists>bs e. encode_friend_card_binary_v3 demo_forged = Inr bs \<and>
      parse_friend_text demo_cards (ascii ''Add me on CruiseMesh: '' @ FRIEND_LINK_PREFIX_V3 @ b64_enc (cp_relay demo_cards) bs) = Inl e)"
proof -
  obtain bs where bs: "encode_friend_card_binary_v3 demo_forged = Inr bs" using demo_forged_facts(3) by blast
  have "plain_lead (ascii ''Add me on CruiseMesh: '')" "length (ascii ''Add me on CruiseMesh: '') \<le> 16000"
    by (simp_all add: plain_lead_def utf8_ok_def char_error_def tail_tests_def text_eval has_prefix_def)
  with imported_card_authentic [of demo_cards "ascii ''{}''" demo_signed _ _ demo_forged bs "ascii ''Add me on CruiseMesh: ''"]
    demo_scan bs demo_forged_facts demo_laws show ?thesis by auto
qed

lemma demo_shared:
  obtains sc where "create_shared_friend_card sample_crypto demo_id demo_signed 3 0 = Inr sc" "sc_card sc = demo_signed"
    "\<exists>m. shared_card_signed_bytes sc = Inr m" "shared_ok sc"
proof -
  have utf: "card_text_ok demo_signed" using demo_own_sized by (simp add: demo_signed_def card_text_ok_def)
  obtain cb where cb: "encode_friend_card_binary demo_signed = Inr cb"
    using v2_encodes demo_signed_ok(2) validate_friend_card_iff by blast
  then have "\<exists>sc. create_shared_friend_card sample_crypto demo_id demo_signed 3 0 = Inr sc"
    using v2_length [OF cb]
    by (simp add: create_shared_friend_card_def demo_signed_ok demo_id_def USER_ID_LEN_def signing_key_from_bytes_def Let_def
        shared_card_signed_bytes_def shared_card_body_bytes_def)
  then obtain sc where sc: "create_shared_friend_card sample_crypto demo_id demo_signed 3 0 = Inr sc" ..
  have "i64_ok 0" "(0 :: i64) < i64_max" by (simp_all add: i64_ok_def i64_bound_defs)
  note made = shared_card_created [OF sample_crypto_ok(2) sc this utf]
  from that [OF sc made(3) _ made(2)] made(8) show thesis by blast
qed

theorem shared_card_honoured_witness:
  "\<exists>sc bs got. create_shared_friend_card sample_crypto demo_id demo_signed 3 0 = Inr sc \<and>
     encode_shared_friend_card sc = Inr bs \<and> decode_shared_friend_card bs = Inr got \<and>
     verify_shared_friend_card sample_crypto got (replicate 32 7) (replicate 16 7) 3 5 = Inr True \<and>
     verify_shared_friend_card sample_crypto got (replicate 32 7) (replicate 16 7) 4 5 = Inr False"
proof -
  obtain sc where sc: "create_shared_friend_card sample_crypto demo_id demo_signed 3 0 = Inr sc" by (rule demo_shared)
  have utf: "card_text_ok demo_signed" using demo_own_sized by (simp add: demo_signed_def card_text_ok_def)
  have now: "i64_ok 0" "(0 :: i64) < i64_max" by (simp_all add: i64_ok_def i64_bound_defs)
  have key: "id_sign_pk demo_id = ed_pk sample_crypto (id_sign_sk demo_id)"
      "id_user_id demo_id = derive_user_id sample_crypto (id_sign_pk demo_id)"
    by (simp_all add: demo_id_def sample_crypto_def derive_user_id_def)
  have pk: "id_sign_pk demo_id = replicate 32 7" "derive_user_id sample_crypto (fc_sign_pk demo_signed) = replicate 16 7"
    by (simp_all add: demo_id_def demo_signed_def demo_own_def sample_crypto_def derive_user_id_def)
  have win: "i64_sub 0 SHARED_CARD_CLOCK_SKEW_MS \<le> 5 \<and> 5 \<le> i64_add (i64_add 0 SHARED_CARD_LIFETIME_MS) SHARED_CARD_CLOCK_SKEW_MS"
    by (simp add: i64_defs SHARED_CARD_CLOCK_SKEW_MS_def SHARED_CARD_LIFETIME_MS_def MS_PER_DAY_def)
  note arrives = shared_card_honoured [OF sample_crypto_ok(2) sc now utf key, of "replicate 16 7"]
  show ?thesis using arrives [of 3 5] arrives [of 4 5] sc win pk by auto
qed

theorem card_signatures_commit_witness:
  "demo_own\<lparr>fc_signature := None\<rparr> = demo_signed\<lparr>fc_signature := None\<rparr> \<and>
   (\<exists>sc m. shared_card_signed_bytes sc = Inr m \<and> m \<noteq> friend_card_signed_bytes demo_own)"
proof -
  obtain sc m where m: "shared_card_signed_bytes sc = Inr m" "shared_ok sc" by (rule demo_shared) blast
  have "friend_card_signed_bytes demo_own = friend_card_signed_bytes demo_signed"
    by (simp add: demo_signed_def friend_card_signed_bytes_def)
  moreover have "card_sized demo_own" "card_sized demo_signed"
    using demo_own_sized demo_signed_ok validate_friend_card_iff by blast+
  ultimately show ?thesis
    using card_signatures_commit [of demo_own demo_signed sc sc m DomDeviceCert "[]"] m by blast
qed

theorem official_setup_is_hosted_witness:
  "to_ascii_lowercase (relay_url_host (normalize_relay_url (ascii '' HTTPS://Relay.CruiseMesh.app/ ''))) = OFFICIAL_RELAY_HOST \<and>
   relay_url_transport_is_secure (normalize_relay_url (ascii '' HTTPS://Relay.CruiseMesh.app/ ''))"
  by (rule official_setup_is_hosted)
    (simp add: relay_setup_is_official_def OFFICIAL_RELAY_HOST_def text_eval url_eval)

end
