(* ===== verification/Relay_Health.thy ===== *)
theory Relay_Health
  imports Device_Roster Utf8_Text
begin

text \<open>
  How a phone treats the relays it talks to: the classification of their rejections
  (\<open>core/src/relay_status.rs\<close>), when a contact's endpoint is written off or rested and when it is
  tried again (\<open>core/src/contact_relay_health.rs\<close>), and the pacing of requests, the quiet window
  after a 429 and the health of a pass (\<open>core/src/session/relay_policy.rs\<close>). The lemmas bound the
  requests a phone sends, over any sequence of passes and clocks.
\<close>

section \<open>Rejections\<close>

datatype core_relay_fault =
    PassExpired
  | PassSuspended
  | TokenRejected
  | MailboxFull
  | MessageTooLarge
  | RateLimited
  | MsgIdConflict
  | Outage

definition relay_classify_http_error :: "u16 \<Rightarrow> utf8 option \<Rightarrow> core_relay_fault" where
  "relay_classify_http_error http_status relay_code =
     (if relay_code = Some (ascii ''family_expired'') then PassExpired
      else if relay_code = Some (ascii ''family_suspended'') then PassSuspended
      else if relay_code = Some (ascii ''family_quota_exceeded'') then MailboxFull
      else if relay_code = Some (ascii ''envelope_too_large'') then MessageTooLarge
      else if relay_code = Some (ascii ''rate_limited'') then RateLimited
      else if relay_code = Some (ascii ''msg_id_conflict'') then MsgIdConflict
      else if http_status = 401 \<or> http_status = 403 then TokenRejected
      else if http_status = 507 then MailboxFull
      else if http_status = 413 then MessageTooLarge
      else if http_status = 429 then RateLimited
      else if http_status = 409 then MsgIdConflict
      else Outage)"

fun relay_fault_is_transient :: "core_relay_fault \<Rightarrow> bool" where
  "relay_fault_is_transient RateLimited = True"
| "relay_fault_is_transient MsgIdConflict = True"
| "relay_fault_is_transient Outage = True"
| "relay_fault_is_transient _ = False"

fun relay_fault_rank :: "core_relay_fault \<Rightarrow> nat" where
  "relay_fault_rank PassSuspended = 7"
| "relay_fault_rank PassExpired = 6"
| "relay_fault_rank TokenRejected = 5"
| "relay_fault_rank MailboxFull = 4"
| "relay_fault_rank MessageTooLarge = 3"
| "relay_fault_rank RateLimited = 2"
| "relay_fault_rank Outage = 1"
| "relay_fault_rank MsgIdConflict = 0"

text \<open>\<open>str::parse::<u64>\<close>: an optional plus sign and at least one digit, without overflow.\<close>

definition parse_u64 :: "utf8 \<Rightarrow> nat option" where
  "parse_u64 t =
     (let ds = (case t of b # r \<Rightarrow> if b = 43 then r else t | [] \<Rightarrow> t); v = foldl (\<lambda>a b. a * 10 + (unat b - 48)) 0 ds in
      if ds = [] \<or> \<not> list_all (byte_in 48 57) ds \<or> v > u64_max then None else Some v)"

definition relay_retry_after_ms :: "utf8 option \<Rightarrow> nat" where
  "relay_retry_after_ms retry_after_header =
     (let seconds = (case retry_after_header of
                       None \<Rightarrow> 30
                     | Some h \<Rightarrow> (case parse_u64 (trim h) of None \<Rightarrow> 30 | Some v \<Rightarrow> v)) in
      max 1 (min 60 seconds) * 1000)"

section \<open>Endpoints of contacts\<close>

definition CONTACT_RELAY_STALE_STREAK :: i64 where "CONTACT_RELAY_STALE_STREAK = 2"
definition CONTACT_RELAY_RECHECK_MS :: i64 where "CONTACT_RELAY_RECHECK_MS = 6 * 60 * 60 * 1000"
definition CONTACT_RELAY_UNREACHABLE_STREAK :: i64 where "CONTACT_RELAY_UNREACHABLE_STREAK = 2"
definition CONTACT_RELAY_UNREACHABLE_STALE_STREAK :: i64 where "CONTACT_RELAY_UNREACHABLE_STALE_STREAK = 4"
definition CONTACT_RELAY_UNREACHABLE_REST_MS :: i64 where "CONTACT_RELAY_UNREACHABLE_REST_MS = 30 * 60 * 1000"

lemmas contact_relay_consts = CONTACT_RELAY_STALE_STREAK_def CONTACT_RELAY_RECHECK_MS_def
  CONTACT_RELAY_UNREACHABLE_STREAK_def CONTACT_RELAY_UNREACHABLE_STALE_STREAK_def CONTACT_RELAY_UNREACHABLE_REST_MS_def

fun contact_relay_fault_is_authoritative :: "core_relay_fault \<Rightarrow> bool" where
  "contact_relay_fault_is_authoritative TokenRejected = True"
| "contact_relay_fault_is_authoritative PassExpired = True"
| "contact_relay_fault_is_authoritative PassSuspended = True"
| "contact_relay_fault_is_authoritative _ = False"

definition core_contact_relay_is_stale :: "i64 \<Rightarrow> bool" where
  "core_contact_relay_is_stale reject_streak \<longleftrightarrow> reject_streak \<ge> CONTACT_RELAY_STALE_STREAK"

definition probe_due :: "i64 \<Rightarrow> i64 \<Rightarrow> i64 \<Rightarrow> bool" where
  "probe_due marked_at_ms now_ms window_ms =
     (if marked_at_ms \<le> 0 \<or> now_ms < marked_at_ms then True else now_ms - marked_at_ms \<ge> window_ms)"

definition core_contact_relay_recheck_due :: "i64 \<Rightarrow> i64 \<Rightarrow> bool" where
  "core_contact_relay_recheck_due rejected_at_ms now_ms = probe_due rejected_at_ms now_ms CONTACT_RELAY_RECHECK_MS"

definition core_contact_relay_endpoint_usable :: "i64 \<Rightarrow> i64 \<Rightarrow> i64 \<Rightarrow> bool" where
  "core_contact_relay_endpoint_usable reject_streak rejected_at_ms now_ms =
     (if \<not> core_contact_relay_is_stale reject_streak then True
      else core_contact_relay_recheck_due rejected_at_ms now_ms)"

definition core_contact_relay_streak_delta :: "core_relay_fault \<Rightarrow> i64" where
  "core_contact_relay_streak_delta fault = (if contact_relay_fault_is_authoritative fault then 1 else 0)"

definition core_contact_relay_unreachable_delta :: "bool \<Rightarrow> i64" where
  "core_contact_relay_unreachable_delta other_relay_answered = (if other_relay_answered then 1 else 0)"

definition core_contact_relay_unreachable_endpoint_usable :: "i64 \<Rightarrow> i64 \<Rightarrow> i64 \<Rightarrow> bool" where
  "core_contact_relay_unreachable_endpoint_usable unreachable_streak rested_at_ms now_ms =
     (if unreachable_streak < CONTACT_RELAY_UNREACHABLE_STREAK then True
      else probe_due rested_at_ms now_ms CONTACT_RELAY_UNREACHABLE_REST_MS)"

definition core_contact_relay_unreachable_is_stale :: "i64 \<Rightarrow> bool" where
  "core_contact_relay_unreachable_is_stale unreachable_streak \<longleftrightarrow>
     unreachable_streak \<ge> CONTACT_RELAY_UNREACHABLE_STALE_STREAK"

section \<open>Network cost, pacing and backoff\<close>

datatype core_relay_roaming = RoamingYes | RoamingNo | RoamingUnknown
datatype core_relay_network_verdict = Permitted | DeferredRoaming | DeferredConstrained

definition core_relay_network_permitted :: "core_relay_roaming \<Rightarrow> bool \<Rightarrow> bool \<Rightarrow> core_relay_network_verdict" where
  "core_relay_network_permitted roaming constrained user_allows_roaming =
     (if roaming = RoamingYes \<and> \<not> user_allows_roaming then DeferredRoaming
      else if constrained then DeferredConstrained
      else Permitted)"

definition FAMILY_RELAY_REQUEST_INTERVAL_MS :: i64 where "FAMILY_RELAY_REQUEST_INTERVAL_MS = 500"
definition FAMILY_RELAY_BACKOFF_BASE_MS :: nat where "FAMILY_RELAY_BACKOFF_BASE_MS = 1000"
definition FAMILY_RELAY_BACKOFF_CAP_MS :: nat where "FAMILY_RELAY_BACKOFF_CAP_MS = 60000"
definition FAMILY_RELAY_JITTER_WINDOW_MS :: nat where "FAMILY_RELAY_JITTER_WINDOW_MS = 1000"
definition FAMILY_RELAY_BACKOFF_MAX_EXPONENT :: nat where "FAMILY_RELAY_BACKOFF_MAX_EXPONENT = 6"
definition FAMILY_RELAY_JITTER_CONTEXT :: bytes where
  "FAMILY_RELAY_JITTER_CONTEXT = ascii ''cruisemesh family relay backoff jitter v1''"

lemmas family_relay_consts = FAMILY_RELAY_REQUEST_INTERVAL_MS_def FAMILY_RELAY_BACKOFF_BASE_MS_def
  FAMILY_RELAY_BACKOFF_CAP_MS_def FAMILY_RELAY_JITTER_WINDOW_MS_def FAMILY_RELAY_BACKOFF_MAX_EXPONENT_def

record relay_pacer =
  pc_interval_ms :: i64
  pc_next_request_at_ms :: i64

definition pacer_with_interval_ms :: "i64 \<Rightarrow> relay_pacer" where
  "pacer_with_interval_ms interval_ms = \<lparr>pc_interval_ms = max interval_ms 0, pc_next_request_at_ms = 0\<rparr>"

definition pacer_new :: relay_pacer where
  "pacer_new = pacer_with_interval_ms FAMILY_RELAY_REQUEST_INTERVAL_MS"

definition pacer_reserve :: "relay_pacer \<Rightarrow> i64 \<Rightarrow> relay_pacer \<times> i64" where
  "pacer_reserve p now_ms =
     (let request_at_ms = max now_ms (pc_next_request_at_ms p) in
      (p\<lparr>pc_next_request_at_ms := i64_add request_at_ms (pc_interval_ms p)\<rparr>, i64_sub request_at_ms now_ms))"

definition core_family_relay_jitter_ms :: "crypto \<Rightarrow> bytes \<Rightarrow> nat" where
  "core_family_relay_jitter_ms cr identity_public_bytes =
     from_be (blake2b cr 8 (FAMILY_RELAY_JITTER_CONTEXT @ u64_bytes (word_of_nat (length identity_public_bytes)) @
       identity_public_bytes)) mod (FAMILY_RELAY_JITTER_WINDOW_MS + 1)"

definition core_family_relay_backoff_delay_ms :: "nat \<Rightarrow> nat \<Rightarrow> nat \<Rightarrow> nat" where
  "core_family_relay_backoff_delay_ms retry_after_ms consecutive_rate_limits jitter_ms =
     (let exponent = min (consecutive_rate_limits - 1) FAMILY_RELAY_BACKOFF_MAX_EXPONENT;
          exponential_ms = min (FAMILY_RELAY_BACKOFF_BASE_MS * 2 ^ exponent) FAMILY_RELAY_BACKOFF_CAP_MS;
          floor_ms = max retry_after_ms exponential_ms in
      nat_sat_add floor_ms jitter_ms)"

definition core_family_relay_backoff_cap_ms :: nat where
  "core_family_relay_backoff_cap_ms = FAMILY_RELAY_BACKOFF_CAP_MS"

record family_backoff =
  fb_consecutive_rate_limits :: u32

definition family_backoff_new :: family_backoff where
  "family_backoff_new = \<lparr>fb_consecutive_rate_limits = 0\<rparr>"

definition on_rate_limited :: "crypto \<Rightarrow> family_backoff \<Rightarrow> nat \<Rightarrow> bytes \<Rightarrow> family_backoff \<times> nat" where
  "on_rate_limited cr b retry_after_ms identity_public_bytes =
     (let consecutive = word_sat_add (fb_consecutive_rate_limits b) 1 in
      (b\<lparr>fb_consecutive_rate_limits := consecutive\<rparr>,
       core_family_relay_backoff_delay_ms retry_after_ms (unat consecutive)
         (core_family_relay_jitter_ms cr identity_public_bytes)))"

definition on_successful_pass :: "family_backoff \<Rightarrow> family_backoff" where
  "on_successful_pass b = b\<lparr>fb_consecutive_rate_limits := 0\<rparr>"

datatype core_relay_rerun_action = RunAgain | ScheduleRateLimitRetry | StopRerun

definition core_relay_rerun_action_of :: "bool \<Rightarrow> bool \<Rightarrow> i64 \<Rightarrow> core_relay_rerun_action" where
  "core_relay_rerun_action_of pending_requested can_sync backoff_remaining_ms =
     (if \<not> pending_requested \<or> \<not> can_sync then StopRerun
      else if backoff_remaining_ms > 0 then ScheduleRateLimitRetry
      else RunAgain)"

section \<open>The health of a pass\<close>

datatype core_relay_pass_health =
    HealthOk
  | QuotaFull
  | HealthMessageTooLarge
  | HealthRateLimited
  | Expired
  | ExpiredReadOnly
  | Suspended
  | HealthTokenRejected
  | Failing

definition core_worse_relay_fault :: "core_relay_fault option \<Rightarrow> core_relay_fault \<Rightarrow> core_relay_fault" where
  "core_worse_relay_fault current observed =
     (case current of
        None \<Rightarrow> observed
      | Some cur \<Rightarrow> if relay_fault_rank observed > relay_fault_rank cur then observed else cur)"

definition core_relay_pass_health_of :: "core_relay_fault option \<Rightarrow> bool \<Rightarrow> bool \<Rightarrow> core_relay_pass_health" where
  "core_relay_pass_health_of fault own_relay_succeeded any_relay_succeeded =
     (if fault = Some MailboxFull then QuotaFull
      else if fault = Some MessageTooLarge then HealthMessageTooLarge
      else if fault = Some RateLimited then HealthRateLimited
      else if fault = Some PassExpired
      then (if own_relay_succeeded \<and> any_relay_succeeded then ExpiredReadOnly else Expired)
      else if own_relay_succeeded \<and> any_relay_succeeded then HealthOk
      else if fault = Some PassSuspended then Suspended
      else if fault = Some TokenRejected then HealthTokenRejected
      else Failing)"

section \<open>Spaced instants\<close>

lemma spaced_span:
  assumes "sorted_wrt (\<lambda>a b. a + d \<le> b) xs" "xs \<noteq> []"
  shows "hd xs + (int (length xs) - 1) * d \<le> last xs"
  using assms
proof (induction xs)
  case (Cons x xs)
  show ?case
  proof (cases "xs = []")
    case False
    with Cons have "hd xs + (int (length xs) - 1) * d \<le> last xs" "x + d \<le> hd xs" by simp_all
    with False show ?thesis by (simp add: algebra_simps)
  qed simp
qed simp

lemma spaced_count:
  assumes "sorted_wrt (\<lambda>a b. a + d \<le> b) xs" "0 < d" "\<forall>x\<in>set xs. lo \<le> x \<and> x \<le> hi"
  shows "int (length xs) \<le> max 0 ((hi - lo) div d + 1)"
proof (cases "xs = []")
  case False
  then have "lo \<le> hd xs" "last xs \<le> hi" using assms(3) by simp_all
  with spaced_span [OF assms(1) False] have "(int (length xs) - 1) * d \<le> hi - lo" by linarith
  then have "int (length xs) - 1 \<le> (hi - lo) div d" using assms(2) zdiv_mono1 [of "(int (length xs) - 1) * d" "hi - lo" d] by simp
  then show ?thesis by linarith
qed simp

section \<open>Pacing\<close>

fun pacer_slots :: "relay_pacer \<Rightarrow> i64 list \<Rightarrow> i64 list" where
  "pacer_slots p [] = []"
| "pacer_slots p (now # nows) = (case pacer_reserve p now of (q, wait) \<Rightarrow> (now + wait) # pacer_slots q nows)"

definition clocks_ok :: "i64 list \<Rightarrow> bool" where
  "clocks_ok nows = list_all (\<lambda>now. 0 \<le> now \<and> now \<le> i64_max) nows"

lemma pacer_slots_Cons:
  assumes "0 \<le> now" "now \<le> i64_max" "0 \<le> pc_next_request_at_ms p" "pc_next_request_at_ms p \<le> i64_max" "0 \<le> pc_interval_ms p"
  shows "pacer_slots p (now # nows) =
    max now (pc_next_request_at_ms p) #
      pacer_slots (p\<lparr>pc_next_request_at_ms := min i64_max (max now (pc_next_request_at_ms p) + pc_interval_ms p)\<rparr>) nows"
  using assms by (simp add: pacer_reserve_def Let_def i64_defs)

lemma pacer_slots_spaced:
  assumes "clocks_ok nows" "0 \<le> pc_next_request_at_ms p" "pc_next_request_at_ms p \<le> i64_max" "0 \<le> pc_interval_ms p"
  shows "list_all (\<lambda>s. pc_next_request_at_ms p \<le> s) (pacer_slots p nows) \<and>
    sorted_wrt (\<lambda>a b. min i64_max (a + pc_interval_ms p) \<le> b) (pacer_slots p nows) \<and>
    list_all2 (\<lambda>now s. now \<le> s) nows (pacer_slots p nows)"
  using assms
proof (induction nows arbitrary: p)
  case (Cons now nows)
  let ?r = "max now (pc_next_request_at_ms p)"
  let ?q = "p\<lparr>pc_next_request_at_ms := min i64_max (?r + pc_interval_ms p)\<rparr>"
  have now: "0 \<le> now" "now \<le> i64_max" "clocks_ok nows" using Cons.prems(1) by (simp_all add: clocks_ok_def)
  have "list_all (\<lambda>s. min i64_max (?r + pc_interval_ms p) \<le> s) (pacer_slots ?q nows) \<and>
      sorted_wrt (\<lambda>a b. min i64_max (a + pc_interval_ms p) \<le> b) (pacer_slots ?q nows) \<and>
      list_all2 (\<lambda>now s. now \<le> s) nows (pacer_slots ?q nows)"
    using Cons.IH [of ?q] now Cons.prems by (simp add: i64_max_def)
  moreover have "pc_next_request_at_ms p \<le> min i64_max (?r + pc_interval_ms p)" using Cons.prems by simp
  ultimately show ?case
    unfolding pacer_slots_Cons [OF now(1,2) Cons.prems(2-4)]
    by (auto simp: list_all_iff intro: order_trans)
qed simp

section \<open>Endpoints that stay dead\<close>

text \<open>
  The passes at which a request is spent on an endpoint that never recovers: every pass that finds it
  usable tries it, and the failure advances the streak and stamps the time.
\<close>

fun dead_attempts :: "(i64 \<Rightarrow> i64 \<Rightarrow> i64 \<Rightarrow> bool) \<Rightarrow> i64 \<Rightarrow> i64 \<Rightarrow> i64 list \<Rightarrow> i64 list" where
  "dead_attempts usable streak at [] = []"
| "dead_attempts usable streak at (now # nows) =
     (if usable streak at now then now # dead_attempts usable (streak + 1) now nows
      else dead_attempts usable streak at nows)"

locale rested_endpoint =
  fixes usable :: "i64 \<Rightarrow> i64 \<Rightarrow> i64 \<Rightarrow> bool"
    and limit window :: i64
  assumes limit_pos: "1 \<le> limit" and window_pos: "0 < window"
    and usable_below: "streak < limit \<Longrightarrow> usable streak at now"
    and usable_rested: "limit \<le> streak \<Longrightarrow> 0 < at \<Longrightarrow> at \<le> now \<Longrightarrow> usable streak at now \<longleftrightarrow> at + window \<le> now"
begin

lemma attempts_subset: "set (dead_attempts usable streak at nows) \<subseteq> set nows"
  by (induction nows arbitrary: streak at) auto

lemma rested_spaced:
  assumes "limit \<le> streak" "0 < at" "sorted (at # nows)"
  shows "sorted_wrt (\<lambda>a b. a + window \<le> b) (at # dead_attempts usable streak at nows)"
  using assms
proof (induction nows arbitrary: streak at)
  case (Cons now nows)
  then have le: "at \<le> now" and s: "sorted (now # nows)" "sorted (at # nows)" by auto
  show ?case
  proof (cases "usable streak at now")
    case True
    then have gap: "at + window \<le> now" using usable_rested [OF Cons.prems(1,2) le] by simp
    have "0 < now" using le Cons.prems(2) by simp
    then have "sorted_wrt (\<lambda>a b. a + window \<le> b) (now # dead_attempts usable (streak + 1) now nows)"
      using Cons.IH [of "streak + 1" now] Cons.prems(1) s by simp
    then show ?thesis using True gap window_pos by (auto dest: spec)
  next
    case False
    then show ?thesis using Cons.IH [of streak at] Cons.prems s by simp
  qed
qed simp

lemma attempts_bounded:
  assumes "sorted nows" "\<forall>n\<in>set nows. t0 \<le> n \<and> n \<le> t0 + span" "0 < t0" "0 \<le> span" "0 \<le> streak" "streak < limit"
  shows "int (length (dead_attempts usable streak at nows)) \<le> limit - streak + span div window"
  using assms
proof (induction nows arbitrary: streak at)
  case Nil
  then show ?case using window_pos by (simp add: pos_imp_zdiv_nonneg_iff)
next
  case (Cons now nows)
  have step: "dead_attempts usable streak at (now # nows) = now # dead_attempts usable (streak + 1) now nows"
    using usable_below [OF Cons.prems(6)] by simp
  show ?case
  proof (cases "streak + 1 < limit")
    case True
    then have "int (length (dead_attempts usable (streak + 1) now nows)) \<le> limit - (streak + 1) + span div window"
      using Cons.IH [of "streak + 1" now] Cons.prems by simp
    then show ?thesis by (simp only: step list.size)
  next
    case False
    then have lim: "limit = streak + 1" using Cons.prems(6) by linarith
    have pos: "0 < now" using Cons.prems(2,3) by auto
    have sp: "sorted_wrt (\<lambda>a b. a + window \<le> b) (now # dead_attempts usable (streak + 1) now nows)"
      using rested_spaced [of "streak + 1" now nows] lim pos Cons.prems(1) by simp
    have within: "\<forall>x\<in>set (now # dead_attempts usable (streak + 1) now nows). t0 \<le> x \<and> x \<le> t0 + span"
      using Cons.prems(2) attempts_subset [of "streak + 1" now nows] by auto
    have "int (length (now # dead_attempts usable (streak + 1) now nows)) \<le> max 0 (span div window + 1)"
      using spaced_count [OF sp window_pos within] by (simp only: add_diff_cancel_left')
    moreover have "0 \<le> span div window" using Cons.prems(4) window_pos by (simp add: pos_imp_zdiv_nonneg_iff)
    ultimately show ?thesis unfolding step lim by simp
  qed
qed

end

interpretation rejected: rested_endpoint core_contact_relay_endpoint_usable CONTACT_RELAY_STALE_STREAK CONTACT_RELAY_RECHECK_MS
  by unfold_locales
    (auto simp: core_contact_relay_endpoint_usable_def core_contact_relay_is_stale_def core_contact_relay_recheck_due_def
      probe_due_def contact_relay_consts)

interpretation silent: rested_endpoint core_contact_relay_unreachable_endpoint_usable CONTACT_RELAY_UNREACHABLE_STREAK
  CONTACT_RELAY_UNREACHABLE_REST_MS
  by unfold_locales
    (auto simp: core_contact_relay_unreachable_endpoint_usable_def probe_due_def contact_relay_consts)

section \<open>The quiet window after a 429\<close>

lemma jitter_bound: "core_family_relay_jitter_ms cr i \<le> FAMILY_RELAY_JITTER_WINDOW_MS"
  by (simp add: core_family_relay_jitter_ms_def FAMILY_RELAY_JITTER_WINDOW_MS_def less_Suc_eq_le [symmetric])

lemma retry_after_range: "1000 \<le> relay_retry_after_ms h" "relay_retry_after_ms h \<le> 60000"
  by (simp_all add: relay_retry_after_ms_def Let_def)

fun quiet_windows :: "crypto \<Rightarrow> bytes \<Rightarrow> family_backoff \<Rightarrow> nat list \<Rightarrow> nat list" where
  "quiet_windows cr ident b [] = []"
| "quiet_windows cr ident b (retry # retries) =
     (case on_rate_limited cr b retry ident of (b', d) \<Rightarrow> d # quiet_windows cr ident b' retries)"

lemma word_sat_inc: "unat (word_sat_add w (1 :: u32)) = min (unat w + 1) (2 ^ 32 - 1)"
  by (simp add: unat_sat_add)

lemma quiet_windows_nth:
  assumes "i < length retries" "\<forall>r\<in>set retries. r \<le> 60000"
  shows "quiet_windows cr ident b retries ! i =
    max (retries ! i) (min 60000 (1000 * 2 ^ min (unat (fb_consecutive_rate_limits b) + i) 6)) + core_family_relay_jitter_ms cr ident"
  using assms
proof (induction retries arbitrary: b i)
  case (Cons r rs)
  let ?w = "word_sat_add (fb_consecutive_rate_limits b) 1"
  have u: "unat ?w = min (unat (fb_consecutive_rate_limits b) + 1) (2 ^ 32 - 1)" by (rule word_sat_inc)
  have first: "core_family_relay_backoff_delay_ms r (unat ?w) (core_family_relay_jitter_ms cr ident) =
      max r (min 60000 (1000 * 2 ^ min (unat (fb_consecutive_rate_limits b)) 6)) + core_family_relay_jitter_ms cr ident"
  proof -
    have e: "min (unat ?w - Suc 0) 6 = min (unat (fb_consecutive_rate_limits b)) 6" unfolding u by auto
    have "r \<le> 60000" using Cons.prems(2) by simp
    then show ?thesis
      using jitter_bound [of cr ident]
      unfolding core_family_relay_backoff_delay_ms_def Let_def family_relay_consts One_nat_def e
      by (simp add: nat_sat_add_def u64_max_def min.commute [of 60000])
  qed
  show ?case
  proof (cases i)
    case 0
    then show ?thesis using first by (simp add: on_rate_limited_def Let_def)
  next
    case (Suc j)
    have "min (unat ?w + j) 6 = min (unat (fb_consecutive_rate_limits b) + Suc j) 6" unfolding u by auto
    with Suc Cons show ?thesis by (simp add: on_rate_limited_def Let_def)
  qed
qed simp

section \<open>Properties\<close>

lemma pacer_new_fields [simp]:
  "pc_next_request_at_ms pacer_new = 0" "pc_interval_ms pacer_new = 500"
  by (simp_all add: pacer_new_def pacer_with_interval_ms_def family_relay_consts)

lemma sorted_wrt_filter_sub: "sorted_wrt R xs \<Longrightarrow> sorted_wrt R (filter P xs)"
  by (induction xs) auto

text \<open>
  Claim C34. The request budget. Whatever times callers ask the pacer at, in any order, no request is
  due before it was asked for, and in no stretch of \<open>W\<close> milliseconds are more than \<open>W div 500 + 1\<close>
  requests due.
\<close>

theorem relay_request_budget:
  assumes "clocks_ok nows" "0 \<le> t" "0 \<le> W" "t + W < i64_max"
  shows "int (length (filter (\<lambda>s. t \<le> s \<and> s \<le> t + W) (pacer_slots pacer_new nows))) \<le> W div FAMILY_RELAY_REQUEST_INTERVAL_MS + 1 \<and>
    list_all2 (\<lambda>now s. now \<le> s) nows (pacer_slots pacer_new nows)"
proof -
  let ?P = "\<lambda>s. t \<le> s \<and> s \<le> t + W" and ?slots = "pacer_slots pacer_new nows"
  have "sorted_wrt (\<lambda>a b. min i64_max (a + 500) \<le> b) ?slots \<and> list_all2 (\<lambda>now s. now \<le> s) nows ?slots"
    using pacer_slots_spaced [OF assms(1), of pacer_new] by (simp add: i64_max_def)
  then have "sorted_wrt (\<lambda>a b. min i64_max (a + 500) \<le> b) (filter ?P ?slots)" and later: "list_all2 (\<lambda>now s. now \<le> s) nows ?slots"
    by (simp_all add: sorted_wrt_filter_sub)
  then have "sorted_wrt (\<lambda>a b. a + 500 \<le> b) (filter ?P ?slots)"
    using assms(4) by (elim sorted_wrt_mono_rel [rotated]) auto
  then have "int (length (filter ?P ?slots)) \<le> max 0 ((t + W - t) div 500 + 1)" by (rule spaced_count) auto
  then show ?thesis using later assms(3) by (simp add: FAMILY_RELAY_REQUEST_INTERVAL_MS_def max_absorb2 pos_imp_zdiv_nonneg_iff)
qed

text \<open>
  A dead card costs little. However many passes run within a stretch of time, an endpoint
  that keeps rejecting is asked at most twice and once more per six hours, and one that never answers
  at most twice and once more per half hour, starting from a clean record.
\<close>

theorem dead_endpoint_requests_bounded:
  assumes "sorted nows" "\<forall>n\<in>set nows. t0 \<le> n \<and> n \<le> t0 + span" "0 < t0" "0 \<le> span"
  shows "int (length (dead_attempts core_contact_relay_endpoint_usable 0 0 nows)) \<le> 2 + span div CONTACT_RELAY_RECHECK_MS \<and>
    int (length (dead_attempts core_contact_relay_unreachable_endpoint_usable 0 0 nows)) \<le> 2 + span div CONTACT_RELAY_UNREACHABLE_REST_MS"
  using rejected.attempts_bounded [OF assms, of 0 0] silent.attempts_bounded [OF assms, of 0 0]
  by (simp add: CONTACT_RELAY_STALE_STREAK_def CONTACT_RELAY_UNREACHABLE_STREAK_def)

text \<open>
  The quiet windows of a streak of 429s. The window after the \<open>i\<close>-th refusal of a streak is the larger of what
  the relay asked for and a second doubled per earlier refusal up to a minute, plus an offset below a
  second that depends on the identity alone; so it never undercuts the relay and never exceeds 61 seconds,
  and a completed pass starts the curve again.
\<close>

theorem quiet_window_exact:
  assumes "i < length headers"
  shows "quiet_windows cr ident (on_successful_pass b) (map relay_retry_after_ms headers) ! i =
      max (relay_retry_after_ms (headers ! i)) (min 60000 (1000 * 2 ^ min i 6)) + core_family_relay_jitter_ms cr ident \<and>
    quiet_windows cr ident (on_successful_pass b) (map relay_retry_after_ms headers) ! i \<le> 61000"
proof -
  have "quiet_windows cr ident (on_successful_pass b) (map relay_retry_after_ms headers) ! i =
      max (relay_retry_after_ms (headers ! i)) (min 60000 (1000 * 2 ^ min i 6)) + core_family_relay_jitter_ms cr ident"
    using quiet_windows_nth [of i "map relay_retry_after_ms headers" cr ident "on_successful_pass b"] assms retry_after_range(2)
    by (simp add: on_successful_pass_def)
  moreover have "max (relay_retry_after_ms (headers ! i)) (min 60000 (1000 * 2 ^ min i 6)) \<le> 60000"
    using retry_after_range(2) by simp
  ultimately show ?thesis using jitter_bound [of cr ident] by (simp add: FAMILY_RELAY_JITTER_WINDOW_MS_def)
qed

text \<open>
  The health of a pass does not depend on the order its requests failed in.
\<close>

lemma worse_fault_rank:
  "relay_fault_rank (core_worse_relay_fault cur f) = max (case cur of None \<Rightarrow> 0 | Some c \<Rightarrow> relay_fault_rank c) (relay_fault_rank f)"
  by (auto simp: core_worse_relay_fault_def split: option.splits)

lemma fault_rank_inj: "relay_fault_rank f = relay_fault_rank g \<longleftrightarrow> f = g"
  by (cases f; cases g) simp_all

lemma worst_fault_max:
  "faults \<noteq> [] \<Longrightarrow>
   \<exists>w\<in>set faults. foldl (\<lambda>cur f. Some (core_worse_relay_fault cur f)) None faults = Some w \<and>
     (\<forall>f\<in>set faults. relay_fault_rank f \<le> relay_fault_rank w)"
proof (induction faults rule: rev_induct)
  case (snoc f fs)
  show ?case
  proof (cases "fs = []")
    case False
    with snoc.IH obtain w where w: "w \<in> set fs" "foldl (\<lambda>cur f. Some (core_worse_relay_fault cur f)) None fs = Some w"
        "\<forall>g\<in>set fs. relay_fault_rank g \<le> relay_fault_rank w" by blast
    then show ?thesis by (auto simp: core_worse_relay_fault_def)
  qed (simp add: core_worse_relay_fault_def)
qed simp

theorem pass_health_order_free:
  assumes "set faults = set faults'"
  shows "core_relay_pass_health_of (foldl (\<lambda>cur f. Some (core_worse_relay_fault cur f)) None faults) own any =
    core_relay_pass_health_of (foldl (\<lambda>cur f. Some (core_worse_relay_fault cur f)) None faults') own any"
proof (cases "faults = []")
  case True
  then have "faults' = []" using assms by simp
  with True show ?thesis by simp
next
  case False
  then have "faults' \<noteq> []" using assms by auto
  from worst_fault_max [OF False] worst_fault_max [OF this] obtain w v where
    w: "w \<in> set faults" "foldl (\<lambda>cur f. Some (core_worse_relay_fault cur f)) None faults = Some w" "\<forall>f\<in>set faults. relay_fault_rank f \<le> relay_fault_rank w"
    and v: "v \<in> set faults'" "foldl (\<lambda>cur f. Some (core_worse_relay_fault cur f)) None faults' = Some v" "\<forall>f\<in>set faults'. relay_fault_rank f \<le> relay_fault_rank v"
    by blast
  have "relay_fault_rank w = relay_fault_rank v" using w v assms by (auto intro: order_antisym)
  then show ?thesis using w v by (simp add: fault_rank_inj)
qed

section \<open>Witnesses\<close>

lemma demo_slots: "pacer_slots pacer_new [10000, 10000, 10250, 12000] = [10000, 10500, 11000, 12000]"
  by (simp add: pacer_slots_Cons i64_max_def del: pacer_slots.simps(2))

theorem relay_request_budget_witness:
  "int (length (filter (\<lambda>s. 10000 \<le> s \<and> s \<le> 10000 + 999) (pacer_slots pacer_new [10000, 10000, 10250, 12000]))) \<le> 2 \<and>
   pacer_slots pacer_new [10000, 10000, 10250, 12000] = [10000, 10500, 11000, 12000]"
  using relay_request_budget [of "[10000, 10000, 10250, 12000]" 10000 999]
  unfolding demo_slots by (simp add: clocks_ok_def i64_max_def FAMILY_RELAY_REQUEST_INTERVAL_MS_def)

theorem dead_endpoint_requests_bounded_witness:
  "int (length (dead_attempts core_contact_relay_endpoint_usable 0 0 [1, 2, 3, 21600002])) \<le> 3 \<and>
   dead_attempts core_contact_relay_endpoint_usable 0 0 [1, 2, 3, 21600002] = [1, 2, 21600002]"
proof -
  have "sorted [1, 2, 3, 21600002 :: i64]" "\<forall>n\<in>set [1, 2, 3, 21600002 :: i64]. 1 \<le> n \<and> n \<le> 1 + 21600001" by simp_all
  from dead_endpoint_requests_bounded [OF this] show ?thesis
    by (simp add: core_contact_relay_endpoint_usable_def core_contact_relay_is_stale_def core_contact_relay_recheck_due_def
        probe_due_def contact_relay_consts)
qed

end
