(* ===== verification/Contact_Relay.thy ===== *)
theory Contact_Relay
  imports Friend_Cards Message_Bodies Relay_Health
begin

text \<open>
  Where mail for a contact is posted, as the database keeps it: the relay columns of the contacts table
  with the operations of \<open>core/src/store.rs\<close> that import a card, apply a contact's relay notice and record
  how their endpoint behaves, and the evidence a relay pass commits (\<open>core/src/session/relay_pass.rs\<close>).
  The lemmas show who can move an endpoint, that a notice cannot pin it, that mail is posted again after a
  move, and that a failure streak is not laundered.
\<close>

section \<open>Tables\<close>

record contact_entry =
  ce_user_id :: bytes
  ce_name :: utf8
  ce_sign_pk :: bytes
  ce_agree_pk :: bytes
  ce_relay_url :: "utf8 option"
  ce_relay_token :: "utf8 option"
  ce_nickname :: "utf8 option"
  ce_avatar :: "bytes option"
  ce_avatar_epoch :: i64
  ce_relay_epoch :: i64
  ce_reject_streak :: i64
  ce_rejected_at :: i64
  ce_unreachable_key :: "utf8 option"
  ce_unreachable_streak :: i64
  ce_unreachable_at :: i64

text \<open>A queued envelope or receipt, as far as the relay marker goes.\<close>

record authored_row =
  ar_recipient :: bytes
  ar_relay_posted_at :: "i64 option"

record contact_tables =
  contacts :: "contact_entry list"
  blocked_identities :: "bytes list"
  carried_uploaded_to :: "utf8 option list"
  outbound_envelopes :: "authored_row list"
  outgoing_receipts :: "authored_row list"

definition entry_for :: "contact_tables \<Rightarrow> bytes \<Rightarrow> contact_entry option" where
  "entry_for db u = List.find (\<lambda>e. ce_user_id e = u) (contacts db)"

text \<open>\<open>UPDATE contacts SET f WHERE P\<close>, with the number of rows changed.\<close>

definition update_where :: "(contact_entry \<Rightarrow> bool) \<Rightarrow> (contact_entry \<Rightarrow> contact_entry) \<Rightarrow> contact_tables \<Rightarrow> contact_tables \<times> nat" where
  "update_where P f db =
     (db\<lparr>contacts := map (\<lambda>e. if P e then f e else e) (contacts db)\<rparr>, length (filter P (contacts db)))"

section \<open>Importing a card\<close>

definition new_entry :: "contact \<Rightarrow> contact_entry" where
  "new_entry c = \<lparr>ce_user_id = ct_user_id c, ce_name = ct_name c, ce_sign_pk = ct_sign_pk c, ce_agree_pk = ct_agree_pk c,
     ce_relay_url = ct_relay_url c, ce_relay_token = ct_relay_token c, ce_nickname = None, ce_avatar = None, ce_avatar_epoch = 0,
     ce_relay_epoch = 0, ce_reject_streak = 0, ce_rejected_at = 0, ce_unreachable_key = None, ce_unreachable_streak = 0,
     ce_unreachable_at = 0\<rparr>"

definition endpoint_differs :: "contact \<Rightarrow> contact_entry \<Rightarrow> bool" where
  "endpoint_differs c e \<longleftrightarrow> ct_relay_url c \<noteq> ce_relay_url e \<or> ct_relay_token c \<noteq> ce_relay_token e"

definition update_entry :: "contact \<Rightarrow> contact_entry \<Rightarrow> contact_entry" where
  "update_entry c e = e\<lparr>ce_name := ct_name c, ce_sign_pk := ct_sign_pk c, ce_agree_pk := ct_agree_pk c,
     ce_relay_url := ct_relay_url c, ce_relay_token := ct_relay_token c,
     ce_reject_streak := (if endpoint_differs c e then 0 else ce_reject_streak e),
     ce_rejected_at := (if endpoint_differs c e then 0 else ce_rejected_at e),
     ce_unreachable_key := (if endpoint_differs c e then None else ce_unreachable_key e),
     ce_unreachable_streak := (if endpoint_differs c e then 0 else ce_unreachable_streak e),
     ce_unreachable_at := (if endpoint_differs c e then 0 else ce_unreachable_at e)\<rparr>"

definition upsert_contact :: "contact_tables \<Rightarrow> contact \<Rightarrow> contact_tables" where
  "upsert_contact db c =
     (if entry_for db (ct_user_id c) = None then db\<lparr>contacts := contacts db @ [new_entry c]\<rparr>
      else fst (update_where (\<lambda>e. ce_user_id e = ct_user_id c) (update_entry c) db))"

definition present :: "utf8 option \<Rightarrow> bool" where
  "present v = (case v of Some t \<Rightarrow> trim t \<noteq> [] | None \<Rightarrow> False)"

definition upsert_imported_contact :: "contact_tables \<Rightarrow> contact \<Rightarrow> contact_tables \<times> contact" where
  "upsert_imported_contact db c =
     (let incoming_has_relay = present (ct_relay_url c) \<and> present (ct_relay_token c);
          c = (if \<not> incoming_has_relay then
                 (case entry_for db (ct_user_id c) of
                    Some e \<Rightarrow>
                      if present (ce_relay_url e) \<and> present (ce_relay_token e)
                      then c\<lparr>ct_relay_url := ce_relay_url e, ct_relay_token := ce_relay_token e\<rparr> else c
                  | None \<Rightarrow> c)
               else c);
          db = upsert_contact db c in
      (db\<lparr>blocked_identities := filter (\<lambda>u. u \<noteq> ct_user_id c) (blocked_identities db)\<rparr>, c))"

definition set_contact_avatar :: "contact_tables \<Rightarrow> bytes \<Rightarrow> bytes option \<Rightarrow> i64 \<Rightarrow> contact_tables \<times> bool" where
  "set_contact_avatar db u avatar epoch =
     (let avatar = (case avatar of Some b \<Rightarrow> if b \<noteq> [] then Some b else None | None \<Rightarrow> None) in
      case update_where (\<lambda>e. ce_user_id e = u \<and> epoch > ce_avatar_epoch e)
             (\<lambda>e. e\<lparr>ce_avatar := avatar, ce_avatar_epoch := epoch\<rparr>) db of
        (db, changed) \<Rightarrow> (db, changed > 0))"

section \<open>Relay notices\<close>

definition RELAY_EPOCH_MAX_SKEW_MS :: i64 where
  "RELAY_EPOCH_MAX_SKEW_MS = 3 * 24 * 60 * 60 * 1000"

definition move_entry :: "utf8 option \<Rightarrow> utf8 option \<Rightarrow> i64 \<Rightarrow> contact_entry \<Rightarrow> contact_entry" where
  "move_entry url token epoch e = e\<lparr>ce_relay_url := url, ce_relay_token := token, ce_relay_epoch := epoch,
     ce_reject_streak := 0, ce_rejected_at := 0, ce_unreachable_key := None, ce_unreachable_streak := 0,
     ce_unreachable_at := 0\<rparr>"

definition unpost :: "bytes \<Rightarrow> authored_row list \<Rightarrow> authored_row list" where
  "unpost u rows = map (\<lambda>r. if ar_recipient r = u \<and> ar_relay_posted_at r \<noteq> None then r\<lparr>ar_relay_posted_at := None\<rparr> else r) rows"

definition non_empty :: "utf8 \<Rightarrow> utf8 option" where
  "non_empty t = (if t \<noteq> [] then Some t else None)"

definition apply_contact_relay_update ::
  "contact_tables \<Rightarrow> bytes \<Rightarrow> relay_update_content \<Rightarrow> i64 \<Rightarrow> (contact_tables \<times> bool) result" where
  "apply_contact_relay_update db sender content now_ms =
     (if ru_subject_user_id content \<noteq> sender
      then Inl (Malformed ''relay update may only change the sending contact's own endpoint'')
      else if ru_relay_epoch content > i64_add now_ms RELAY_EPOCH_MAX_SKEW_MS then Inr (db, False)
      else
        and_then (validate_relay_update_credential (ru_relay_url content) (ru_relay_token content)) (\<lambda>_.
        case update_where (\<lambda>e. ce_user_id e = sender \<and> ru_relay_epoch content > ce_relay_epoch e)
               (move_entry (non_empty (ru_relay_url content)) (non_empty (ru_relay_token content)) (ru_relay_epoch content)) db of
          (moved, changed) \<Rightarrow>
            if changed > 0 then
              Inr (moved\<lparr>carried_uploaded_to := map (\<lambda>_. None) (carried_uploaded_to moved),
                         outbound_envelopes := unpost sender (outbound_envelopes moved),
                         outgoing_receipts := unpost sender (outgoing_receipts moved)\<rparr>, True)
            else Inr (moved, False)))"

definition contact_relay_epoch :: "contact_tables \<Rightarrow> bytes \<Rightarrow> i64" where
  "contact_relay_epoch db u = (case entry_for db u of Some e \<Rightarrow> ce_relay_epoch e | None \<Rightarrow> 0)"

section \<open>How an endpoint behaves\<close>

definition note_contact_relay_rejected :: "contact_tables \<Rightarrow> bytes \<Rightarrow> i64 \<Rightarrow> contact_tables \<times> i64" where
  "note_contact_relay_rejected db u now_ms =
     (let db = fst (update_where (\<lambda>e. ce_user_id e = u)
                 (\<lambda>e. e\<lparr>ce_reject_streak := ce_reject_streak e + 1, ce_rejected_at := now_ms\<rparr>) db) in
      (db, case entry_for db u of Some e \<Rightarrow> ce_reject_streak e | None \<Rightarrow> 0))"

definition clear_contact_relay_rejection :: "contact_tables \<Rightarrow> bytes \<Rightarrow> contact_tables" where
  "clear_contact_relay_rejection db u =
     fst (update_where (\<lambda>e. ce_user_id e = u \<and> ce_reject_streak e \<noteq> 0)
            (\<lambda>e. e\<lparr>ce_reject_streak := 0, ce_rejected_at := 0\<rparr>) db)"

definition list_contact_relay_rejections :: "contact_tables \<Rightarrow> (bytes \<times> i64 \<times> i64) list" where
  "list_contact_relay_rejections db =
     map (\<lambda>e. (ce_user_id e, ce_reject_streak e, ce_rejected_at e)) (filter (\<lambda>e. ce_reject_streak e > 0) (contacts db))"

definition note_contact_relay_unreachable :: "contact_tables \<Rightarrow> bytes \<Rightarrow> utf8 \<Rightarrow> i64 \<Rightarrow> (contact_tables \<times> i64) result" where
  "note_contact_relay_unreachable db u key now_ms =
     (if key = [] then Inl (Malformed ''contact relay endpoint key must not be empty'')
      else
        let db = fst (update_where (\<lambda>e. ce_user_id e = u)
                   (\<lambda>e. e\<lparr>ce_unreachable_streak := (if ce_unreachable_key e = Some key then ce_unreachable_streak e + 1 else 1),
                         ce_unreachable_key := Some key, ce_unreachable_at := now_ms\<rparr>) db) in
        Inr (db, case entry_for db u of Some e \<Rightarrow> ce_unreachable_streak e | None \<Rightarrow> 0))"

definition clear_contact_relay_unreachable :: "contact_tables \<Rightarrow> bytes \<Rightarrow> contact_tables" where
  "clear_contact_relay_unreachable db u =
     fst (update_where (\<lambda>e. ce_user_id e = u \<and> ce_unreachable_streak e \<noteq> 0)
            (\<lambda>e. e\<lparr>ce_unreachable_key := None, ce_unreachable_streak := 0, ce_unreachable_at := 0\<rparr>) db)"

definition list_contact_relay_unreachable :: "contact_tables \<Rightarrow> (bytes \<times> utf8 \<times> i64 \<times> i64) list" where
  "list_contact_relay_unreachable db =
     map (\<lambda>e. (ce_user_id e, the (ce_unreachable_key e), ce_unreachable_streak e, ce_unreachable_at e))
       (filter (\<lambda>e. ce_unreachable_streak e > 0 \<and> ce_unreachable_key e \<noteq> None) (contacts db))"

section \<open>The evidence of a pass\<close>

record pass_config =
  pcf_contact_user_id :: "bytes option"
  pcf_cursor_key :: utf8
  pcf_answered :: bool
  pcf_attempted :: bool

record pass_evidence =
  pe_configs :: "pass_config list"
  pe_rejections :: "bytes list"
  pe_rejection_recoveries :: "bytes list"
  pe_recoveries :: "bytes list"
  pe_own_relay_succeeded :: bool

datatype silence_evidence = CommitSilence | DiscardSilence

definition provisional_silence :: "pass_config list \<Rightarrow> (bytes \<times> utf8) list" where
  "provisional_silence configs =
     concat (map (\<lambda>cfg. case pcf_contact_user_id cfg of
        None \<Rightarrow> []
      | Some u \<Rightarrow>
          if pcf_answered cfg \<or> \<not> pcf_attempted cfg then []
          else if pcf_cursor_key cfg = [] then []
          else [(u, pcf_cursor_key cfg)]) configs)"

text \<open>The result: the tables, the silences committed and those discarded.\<close>

definition commit_evidence :: "contact_tables \<Rightarrow> pass_evidence \<Rightarrow> i64 \<Rightarrow> silence_evidence \<Rightarrow> contact_tables \<times> nat \<times> nat" where
  "commit_evidence db ev now_ms silence =
     (let provisional = provisional_silence (pe_configs ev);
          db = foldl (\<lambda>db u. fst (note_contact_relay_rejected db u now_ms)) db (pe_rejections ev);
          db = foldl clear_contact_relay_rejection db (pe_rejection_recoveries ev);
          db = foldl clear_contact_relay_unreachable db (pe_recoveries ev) in
      if silence = DiscardSilence then (db, 0, length provisional)
      else if pe_own_relay_succeeded ev then
        foldl (\<lambda>(db, committed, discarded) (u, key).
                 case note_contact_relay_unreachable db u key now_ms of
                   Inr (db', _) \<Rightarrow> (db', Suc committed, discarded)
                 | Inl _ \<Rightarrow> (db, committed, discarded)) (db, 0, 0) provisional
      else (db, 0, length provisional))"

section \<open>Histories\<close>

datatype contact_op =
    UpsertContact contact
  | ImportContact contact
  | SetAvatar bytes "bytes option" i64
  | RelayNotice bytes relay_update_content i64
  | NoteRejected bytes i64
  | ClearRejection bytes
  | NoteUnreachable bytes utf8 i64
  | ClearUnreachable bytes

definition contact_step :: "contact_tables \<Rightarrow> contact_op \<Rightarrow> contact_tables" where
  "contact_step db op =
     (case op of
        UpsertContact c \<Rightarrow> upsert_contact db c
      | ImportContact c \<Rightarrow> fst (upsert_imported_contact db c)
      | SetAvatar u avatar epoch \<Rightarrow> fst (set_contact_avatar db u avatar epoch)
      | RelayNotice u content now \<Rightarrow>
          (case apply_contact_relay_update db u content now of Inr (db', _) \<Rightarrow> db' | Inl _ \<Rightarrow> db)
      | NoteRejected u now \<Rightarrow> fst (note_contact_relay_rejected db u now)
      | ClearRejection u \<Rightarrow> clear_contact_relay_rejection db u
      | NoteUnreachable u key now \<Rightarrow>
          (case note_contact_relay_unreachable db u key now of Inr (db', _) \<Rightarrow> db' | Inl _ \<Rightarrow> db)
      | ClearUnreachable u \<Rightarrow> clear_contact_relay_unreachable db u)"

definition book_ok :: "contact_tables \<Rightarrow> bool" where
  "book_ok db \<longleftrightarrow> distinct (map ce_user_id (contacts db))"

section \<open>One row at a time\<close>

lemma find_map_id:
  "(\<And>e. ce_user_id (g e) = ce_user_id e) \<Longrightarrow>
   List.find (\<lambda>e. ce_user_id e = u) (map g es) = map_option g (List.find (\<lambda>e. ce_user_id e = u) es)"
  by (induction es) auto

lemma entry_for_id: "entry_for db u = Some e \<Longrightarrow> ce_user_id e = u"
  by (auto simp: entry_for_def find_Some_iff)

lemma entry_for_update:
  assumes "\<And>e. ce_user_id (f e) = ce_user_id e"
  shows "entry_for (fst (update_where P f db)) u = map_option (\<lambda>e. if P e then f e else e) (entry_for db u)"
  using find_map_id [of "\<lambda>e. if P e then f e else e" u "contacts db"] assms by (simp add: entry_for_def update_where_def)

lemma entry_for_other [simp]:
  "entry_for (db\<lparr>blocked_identities := x\<rparr>) u = entry_for db u"
  "entry_for (db\<lparr>carried_uploaded_to := y, outbound_envelopes := z, outgoing_receipts := w\<rparr>) u = entry_for db u"
  by (simp_all add: entry_for_def)

lemma entry_for_append:
  "entry_for (db\<lparr>contacts := contacts db @ [e]\<rparr>) u =
     (case entry_for db u of Some x \<Rightarrow> Some x | None \<Rightarrow> if ce_user_id e = u then Some e else None)"
proof -
  have "List.find P (xs @ [e]) = (case List.find P xs of Some x \<Rightarrow> Some x | None \<Rightarrow> if P e then Some e else None)" for P xs
    by (induction xs) auto
  then show ?thesis by (simp add: entry_for_def)
qed

lemma some_changed_iff:
  assumes "book_ok db"
  shows "0 < snd (update_where (\<lambda>e. ce_user_id e = u \<and> Q e) f db) \<longleftrightarrow> (\<exists>e. entry_for db u = Some e \<and> Q e)"
proof -
  have "(\<exists>e\<in>set es. ce_user_id e = u \<and> Q e) \<longleftrightarrow> (\<exists>e. List.find (\<lambda>e. ce_user_id e = u) es = Some e \<and> Q e)"
    if "distinct (map ce_user_id es)" for es
    using that by (induction es) (auto simp: image_iff)
  from this [of "contacts db"] assms show ?thesis
    by (auto simp: update_where_def entry_for_def book_ok_def filter_empty_conv)
qed

subsection \<open>What each operation does to a row\<close>

lemma entry_upsert:
  "entry_for (upsert_contact db c) u =
     (if ct_user_id c = u then Some (case entry_for db u of None \<Rightarrow> new_entry c | Some e \<Rightarrow> update_entry c e) else entry_for db u)"
proof (cases "entry_for db (ct_user_id c)")
  case None
  then show ?thesis by (auto simp: upsert_contact_def entry_for_append new_entry_def split: option.splits)
next
  case (Some e)
  then have "entry_for (upsert_contact db c) u =
      map_option (\<lambda>e. if ce_user_id e = ct_user_id c then update_entry c e else e) (entry_for db u)"
    by (simp add: upsert_contact_def entry_for_update update_entry_def)
  with Some show ?thesis by (cases "entry_for db u") (auto dest: entry_for_id)
qed

definition merged_card :: "contact_tables \<Rightarrow> contact \<Rightarrow> contact" where
  "merged_card db c = snd (upsert_imported_contact db c)"

lemma merged_card_id [simp]: "ct_user_id (merged_card db c) = ct_user_id c"
  by (auto simp: merged_card_def upsert_imported_contact_def Let_def split: option.splits)

lemma entry_import: "entry_for (fst (upsert_imported_contact db c)) u = entry_for (upsert_contact db (merged_card db c)) u"
  by (simp add: merged_card_def upsert_imported_contact_def Let_def)

lemma entry_avatar:
  "entry_for (fst (set_contact_avatar db v avatar epoch)) u = map_option (\<lambda>e.
     if ce_user_id e = v \<and> epoch > ce_avatar_epoch e
     then e\<lparr>ce_avatar := (case avatar of Some b \<Rightarrow> if b \<noteq> [] then Some b else None | None \<Rightarrow> None), ce_avatar_epoch := epoch\<rparr>
     else e) (entry_for db u)"
  by (simp add: set_contact_avatar_def Let_def update_where_def [abs_def] entry_for_def find_map_id split: prod.splits)

definition notice_admissible :: "bytes \<Rightarrow> relay_update_content \<Rightarrow> i64 \<Rightarrow> bool" where
  "notice_admissible u content now \<longleftrightarrow>
     ru_subject_user_id content = u \<and> ru_relay_epoch content \<le> i64_add now RELAY_EPOCH_MAX_SKEW_MS \<and>
     validate_relay_update_credential (ru_relay_url content) (ru_relay_token content) = Inr ()"

lemma notice_result:
  assumes "book_ok db" "notice_admissible v content now"
  shows "\<exists>db'. apply_contact_relay_update db v content now =
      Inr (db', case entry_for db v of Some e \<Rightarrow> ru_relay_epoch content > ce_relay_epoch e | None \<Rightarrow> False) \<and>
    entry_for db' u = map_option (\<lambda>e. if ce_user_id e = v \<and> ru_relay_epoch content > ce_relay_epoch e
      then move_entry (non_empty (ru_relay_url content)) (non_empty (ru_relay_token content)) (ru_relay_epoch content) e
      else e) (entry_for db u)"
proof -
  let ?f = "move_entry (non_empty (ru_relay_url content)) (non_empty (ru_relay_token content)) (ru_relay_epoch content)"
  let ?P = "\<lambda>e. ce_user_id e = v \<and> ru_relay_epoch content > ce_relay_epoch e"
  obtain moved changed where up: "update_where ?P ?f db = (moved, changed)" by fastforce
  have "entry_for moved u = map_option (\<lambda>e. if ?P e then ?f e else e) (entry_for db u)"
    using entry_for_update [of ?f ?P db u] up by (simp add: move_entry_def)
  moreover have "0 < changed \<longleftrightarrow> (case entry_for db v of Some e \<Rightarrow> ru_relay_epoch content > ce_relay_epoch e | None \<Rightarrow> False)"
    using some_changed_iff [OF assms(1), of v "\<lambda>e. ru_relay_epoch content > ce_relay_epoch e" ?f] up by (auto split: option.splits)
  ultimately show ?thesis
    using assms(2) up by (auto simp: notice_admissible_def apply_contact_relay_update_def not_less split: option.splits)
qed

lemma notice_refused:
  assumes "\<not> notice_admissible v content now"
  shows "contact_step db (RelayNotice v content now) = db"
proof (cases "validate_relay_update_credential (ru_relay_url content) (ru_relay_token content)")
  case (Inl e)
  then show ?thesis by (simp add: contact_step_def apply_contact_relay_update_def)
next
  case (Inr x)
  then have "ru_subject_user_id content \<noteq> v \<or> ru_relay_epoch content > i64_add now RELAY_EPOCH_MAX_SKEW_MS"
    using assms by (auto simp: notice_admissible_def)
  then show ?thesis by (auto simp: contact_step_def apply_contact_relay_update_def)
qed

lemma entry_notice:
  assumes "book_ok db"
  shows "entry_for (contact_step db (RelayNotice v content now)) u = map_option (\<lambda>e.
     if ce_user_id e = v \<and> notice_admissible v content now \<and> ru_relay_epoch content > ce_relay_epoch e
     then move_entry (non_empty (ru_relay_url content)) (non_empty (ru_relay_token content)) (ru_relay_epoch content) e
     else e) (entry_for db u)"
proof (cases "notice_admissible v content now")
  case True
  with notice_result [OF assms True, of u] show ?thesis by (auto simp: contact_step_def)
next
  case False
  then show ?thesis by (cases "entry_for db u") (simp_all add: notice_refused)
qed

lemma entry_rejected:
  "entry_for (fst (note_contact_relay_rejected db v now)) u = map_option (\<lambda>e.
     if ce_user_id e = v then e\<lparr>ce_reject_streak := ce_reject_streak e + 1, ce_rejected_at := now\<rparr> else e) (entry_for db u)"
  by (simp add: note_contact_relay_rejected_def Let_def entry_for_update)

lemma entry_clear_rejection:
  "entry_for (clear_contact_relay_rejection db v) u = map_option (\<lambda>e.
     if ce_user_id e = v \<and> ce_reject_streak e \<noteq> 0 then e\<lparr>ce_reject_streak := 0, ce_rejected_at := 0\<rparr> else e) (entry_for db u)"
  by (simp add: clear_contact_relay_rejection_def entry_for_update)

lemma entry_unreachable:
  "entry_for (contact_step db (NoteUnreachable v key now)) u = map_option (\<lambda>e.
     if ce_user_id e = v \<and> key \<noteq> []
     then e\<lparr>ce_unreachable_streak := (if ce_unreachable_key e = Some key then ce_unreachable_streak e + 1 else 1),
           ce_unreachable_key := Some key, ce_unreachable_at := now\<rparr> else e) (entry_for db u)"
  by (cases "entry_for db u"; cases "key = []")
    (simp_all add: contact_step_def note_contact_relay_unreachable_def Let_def entry_for_update)

lemma entry_clear_unreachable:
  "entry_for (clear_contact_relay_unreachable db v) u = map_option (\<lambda>e.
     if ce_user_id e = v \<and> ce_unreachable_streak e \<noteq> 0
     then e\<lparr>ce_unreachable_key := None, ce_unreachable_streak := 0, ce_unreachable_at := 0\<rparr> else e) (entry_for db u)"
  by (simp add: clear_contact_relay_unreachable_def entry_for_update)

fun contact_key :: "contact_op \<Rightarrow> bytes" where
  "contact_key (UpsertContact c) = ct_user_id c"
| "contact_key (ImportContact c) = ct_user_id c"
| "contact_key (SetAvatar u _ _) = u"
| "contact_key (RelayNotice u _ _) = u"
| "contact_key (NoteRejected u _) = u"
| "contact_key (ClearRejection u) = u"
| "contact_key (NoteUnreachable u _ _) = u"
| "contact_key (ClearUnreachable u) = u"

text \<open>What a step makes of the row it concerns; \<open>None\<close> is a contact that is not stored yet.\<close>

fun row_step :: "contact_op \<Rightarrow> contact_entry option \<Rightarrow> contact_entry option" where
  "row_step (UpsertContact c) eo = Some (case eo of None \<Rightarrow> new_entry c | Some e \<Rightarrow> update_entry c e)"
| "row_step (ImportContact c) eo = Some (case eo of
     None \<Rightarrow> new_entry c
   | Some e \<Rightarrow> update_entry
       (if \<not> (present (ct_relay_url c) \<and> present (ct_relay_token c)) \<and> present (ce_relay_url e) \<and> present (ce_relay_token e)
        then c\<lparr>ct_relay_url := ce_relay_url e, ct_relay_token := ce_relay_token e\<rparr> else c) e)"
| "row_step (SetAvatar u avatar epoch) eo = map_option (\<lambda>e. if epoch > ce_avatar_epoch e
     then e\<lparr>ce_avatar := (case avatar of Some b \<Rightarrow> if b \<noteq> [] then Some b else None | None \<Rightarrow> None), ce_avatar_epoch := epoch\<rparr> else e) eo"
| "row_step (RelayNotice u content now) eo = map_option (\<lambda>e. if notice_admissible u content now \<and> ru_relay_epoch content > ce_relay_epoch e
     then move_entry (non_empty (ru_relay_url content)) (non_empty (ru_relay_token content)) (ru_relay_epoch content) e else e) eo"
| "row_step (NoteRejected u now) eo = map_option (\<lambda>e. e\<lparr>ce_reject_streak := ce_reject_streak e + 1, ce_rejected_at := now\<rparr>) eo"
| "row_step (ClearRejection u) eo = map_option (\<lambda>e. if ce_reject_streak e \<noteq> 0 then e\<lparr>ce_reject_streak := 0, ce_rejected_at := 0\<rparr> else e) eo"
| "row_step (NoteUnreachable u key now) eo = map_option (\<lambda>e. if key \<noteq> []
     then e\<lparr>ce_unreachable_streak := (if ce_unreachable_key e = Some key then ce_unreachable_streak e + 1 else 1),
           ce_unreachable_key := Some key, ce_unreachable_at := now\<rparr> else e) eo"
| "row_step (ClearUnreachable u) eo = map_option (\<lambda>e. if ce_unreachable_streak e \<noteq> 0
     then e\<lparr>ce_unreachable_key := None, ce_unreachable_streak := 0, ce_unreachable_at := 0\<rparr> else e) eo"

lemma merged_card_eq:
  "merged_card db c = (case entry_for db (ct_user_id c) of
     Some e \<Rightarrow> (if \<not> (present (ct_relay_url c) \<and> present (ct_relay_token c)) \<and> present (ce_relay_url e) \<and> present (ce_relay_token e)
        then c\<lparr>ct_relay_url := ce_relay_url e, ct_relay_token := ce_relay_token e\<rparr> else c)
   | None \<Rightarrow> c)"
  by (simp add: merged_card_def upsert_imported_contact_def Let_def split: option.splits)

lemma entry_import_step:
  "entry_for (contact_step db (ImportContact c)) u =
     (if ct_user_id c = u then row_step (ImportContact c) (entry_for db u) else entry_for db u)"
proof -
  have "entry_for (contact_step db (ImportContact c)) u = entry_for (upsert_contact db (merged_card db c)) u"
    by (simp add: contact_step_def entry_import)
  also have "\<dots> = (if ct_user_id c = u
      then Some (case entry_for db u of None \<Rightarrow> new_entry (merged_card db c) | Some e \<Rightarrow> update_entry (merged_card db c) e)
      else entry_for db u)"
    by (simp add: entry_upsert)
  finally show ?thesis by (auto simp: merged_card_eq split: option.splits)
qed

lemma entry_step:
  assumes "book_ok db"
  shows "entry_for (contact_step db op) u = (if contact_key op = u then row_step op (entry_for db u) else entry_for db u)"
proof (cases "entry_for db u")
  case None
  then show ?thesis
    using entry_notice [OF assms]
    by (cases op) (auto simp: contact_step_def [of _ "UpsertContact _"] entry_import_step
        contact_step_def [of _ "SetAvatar _ _ _"] contact_step_def [of _ "NoteRejected _ _"] contact_step_def [of _ "ClearRejection _"]
        contact_step_def [of _ "ClearUnreachable _"] entry_upsert entry_avatar entry_rejected entry_clear_rejection
        entry_unreachable entry_clear_unreachable)
next
  case (Some e)
  then show ?thesis
    using entry_notice [OF assms] entry_for_id [OF Some]
    by (cases op) (auto simp: contact_step_def [of _ "UpsertContact _"] entry_import_step
        contact_step_def [of _ "SetAvatar _ _ _"] contact_step_def [of _ "NoteRejected _ _"] contact_step_def [of _ "ClearRejection _"]
        contact_step_def [of _ "ClearUnreachable _"] entry_upsert entry_avatar entry_rejected entry_clear_rejection
        entry_unreachable entry_clear_unreachable)
qed

lemma update_where_ids: "(\<And>e. ce_user_id (f e) = ce_user_id e) \<Longrightarrow> map ce_user_id (contacts (fst (update_where P f db))) = map ce_user_id (contacts db)"
  by (simp add: update_where_def comp_def if_distrib cong: if_cong)

lemma entry_for_None: "entry_for db u = None \<longleftrightarrow> u \<notin> ce_user_id ` set (contacts db)"
  by (auto simp: entry_for_def find_None_iff)

lemma book_ok_upsert: "book_ok db \<Longrightarrow> book_ok (upsert_contact db c)"
  by (auto simp: upsert_contact_def book_ok_def update_where_ids update_entry_def new_entry_def entry_for_None)

lemma book_ok_step: "book_ok db \<Longrightarrow> book_ok (contact_step db op)"
proof (cases op)
  case (ImportContact c)
  assume "book_ok db"
  then have "book_ok (upsert_contact db (merged_card db c))" by (rule book_ok_upsert)
  then show ?thesis by (simp add: ImportContact contact_step_def merged_card_def upsert_imported_contact_def Let_def book_ok_def)
next
  case (UpsertContact c)
  assume "book_ok db"
  then show ?thesis by (simp add: UpsertContact contact_step_def book_ok_upsert)
next
  case (RelayNotice v content now)
  assume ok: "book_ok db"
  let ?f = "move_entry (non_empty (ru_relay_url content)) (non_empty (ru_relay_token content)) (ru_relay_epoch content)"
  have "map ce_user_id (contacts (fst (update_where P ?f db))) = map ce_user_id (contacts db)" for P
    by (rule update_where_ids) (simp add: move_entry_def)
  note ids = this
  show ?thesis
  proof (cases "notice_admissible v content now")
    case False
    with ok show ?thesis by (simp add: RelayNotice notice_refused)
  next
    case True
    obtain moved changed where up:
      "update_where (\<lambda>e. ce_user_id e = v \<and> ru_relay_epoch content > ce_relay_epoch e) ?f db = (moved, changed)" by fastforce
    with ids ok have "distinct (map ce_user_id (contacts moved))" by (metis book_ok_def fst_conv)
    with True up show ?thesis
      by (auto simp: RelayNotice notice_admissible_def contact_step_def apply_contact_relay_update_def book_ok_def not_less)
  qed
qed (auto simp: contact_step_def set_contact_avatar_def note_contact_relay_rejected_def clear_contact_relay_rejection_def
    note_contact_relay_unreachable_def clear_contact_relay_unreachable_def Let_def book_ok_def update_where_ids
    split: prod.splits dest!: arg_cong [of _ _ fst])

text \<open>The history of one contact never depends on what happens to the others.\<close>

interpretation contact_rows: keyed_machine
  "\<lambda>db (u, op). if book_ok db \<and> contact_key op = u then contact_step db op else db"
  "\<lambda>db u. (book_ok db, entry_for db u)"
  by unfold_locales (auto simp: book_ok_step entry_step split: if_splits)

definition contact_inv :: "i64 \<Rightarrow> contact_tables \<Rightarrow> bool" where
  "contact_inv bound db \<longleftrightarrow> book_ok db \<and> (\<forall>u e. entry_for db u = Some e \<longrightarrow> ce_relay_epoch e \<le> bound)"

text \<open>The clock a notice was judged by; the other operations set no epoch.\<close>

fun op_clock_ok :: "i64 \<Rightarrow> contact_op \<Rightarrow> bool" where
  "op_clock_ok latest (RelayNotice u content now) \<longleftrightarrow> now \<le> latest"
| "op_clock_ok latest _ \<longleftrightarrow> True"

definition epoch_bound :: "i64 \<Rightarrow> i64" where
  "epoch_bound latest = max 0 (i64_add latest RELAY_EPOCH_MAX_SKEW_MS)"

lemma row_step_epoch:
  assumes "row_step op eo = Some e'" "op_clock_ok latest op" "\<And>e. eo = Some e \<Longrightarrow> ce_relay_epoch e \<le> epoch_bound latest"
  shows "ce_relay_epoch e' \<le> epoch_bound latest"
proof -
  have notice: "ru_relay_epoch content \<le> epoch_bound latest" if "notice_admissible u content now" "now \<le> latest" for u content now
    using that sat_i64_mono [of "now + RELAY_EPOCH_MAX_SKEW_MS" "latest + RELAY_EPOCH_MAX_SKEW_MS"]
    by (simp add: notice_admissible_def epoch_bound_def i64_add_def max_def)
  have "0 \<le> epoch_bound latest" by (simp add: epoch_bound_def)
  with assms notice show ?thesis
    by (cases op; cases eo) (auto simp: new_entry_def update_entry_def move_entry_def split: if_splits)
qed

lemma contact_inv_step:
  assumes "contact_inv (epoch_bound latest) db" "op_clock_ok latest op"
  shows "contact_inv (epoch_bound latest) (contact_step db op)"
proof -
  have ok: "book_ok db" using assms(1) by (simp add: contact_inv_def)
  have "ce_relay_epoch e \<le> epoch_bound latest" if "entry_for (contact_step db op) u = Some e" for u e
    using that assms row_step_epoch [of op "entry_for db u" e latest]
    by (auto simp: entry_step [OF ok] contact_inv_def split: if_splits)
  with ok show ?thesis by (simp add: contact_inv_def book_ok_step)
qed

lemma contact_inv_run:
  "contact_inv (epoch_bound latest) db \<Longrightarrow> list_all (op_clock_ok latest) ops \<Longrightarrow>
   contact_inv (epoch_bound latest) (foldl contact_step db ops)"
  by (induction ops arbitrary: db) (simp_all add: contact_inv_step)

lemma row_step_present: "row_step op (Some e) \<noteq> None"
  by (cases op) auto

lemma row_step_epoch_mono: "row_step op (Some e) = Some e' \<Longrightarrow> ce_relay_epoch e \<le> ce_relay_epoch e'"
  by (cases op) (auto simp: update_entry_def move_entry_def split: if_splits)

interpretation contact_epochs: machine_mono contact_step book_ok
  "\<lambda>db db'. \<forall>u e. entry_for db u = Some e \<longrightarrow> (\<exists>e'. entry_for db' u = Some e' \<and> ce_relay_epoch e \<le> ce_relay_epoch e')"
proof unfold_locales
  fix s e
  assume ok: "book_ok s"
  then show "book_ok (contact_step s e)" by (rule book_ok_step)
  show "\<forall>u x. entry_for s u = Some x \<longrightarrow> (\<exists>e'. entry_for (contact_step s e) u = Some e' \<and> ce_relay_epoch x \<le> ce_relay_epoch e')"
  proof (intro allI impI)
    fix u x
    assume x: "entry_for s u = Some x"
    obtain y where "row_step e (Some x) = Some y" using row_step_present [of e x] by blast
    with x row_step_epoch_mono [of e x y]
    show "\<exists>e'. entry_for (contact_step s e) u = Some e' \<and> ce_relay_epoch x \<le> ce_relay_epoch e'"
      by (auto simp: entry_step [OF ok])
  qed
qed (blast, meson order_trans)

section \<open>Properties\<close>

lemma unpost_ids: "map ar_recipient (unpost u rows) = map ar_recipient rows"
  unfolding unpost_def map_map by (rule map_cong [OF refl]) simp

lemma unpost_clears: "r \<in> set (unpost u rows) \<Longrightarrow> ar_recipient r = u \<Longrightarrow> ar_relay_posted_at r = None"
  unfolding unpost_def set_map by (elim imageE) (simp split: if_split_asm)

lemma filter_map_keep: "(\<And>x. P (g x) = P x) \<Longrightarrow> (\<And>x. P x \<Longrightarrow> g x = x) \<Longrightarrow> filter P (map g xs) = filter P xs"
  by (induction xs) auto

lemma unpost_others: "filter (\<lambda>r. ar_recipient r \<noteq> u) (unpost u rows) = filter (\<lambda>r. ar_recipient r \<noteq> u) rows"
  unfolding unpost_def by (rule filter_map_keep) auto

definition endpoint_of :: "contact_entry \<Rightarrow> utf8 option \<times> utf8 option" where
  "endpoint_of e = (ce_relay_url e, ce_relay_token e)"

lemma credential_deposit:
  "validate_relay_update_credential url token = Inr () \<Longrightarrow> token = [] \<or> relay_token_is_deposit token"
  by (auto simp: validate_relay_update_credential_def split: if_splits)

text \<open>
  Claim C16. Who moves an endpoint. Whatever happens to the contacts table, the endpoint stored for a
  person changes only when a card of that person is imported on this phone, or by a notice that person
  sealed about themselves, newer than what is held and stamped no more than three days ahead of this
  phone's clock; and a notice installs no credential but a deposit one.
\<close>

theorem endpoint_moved_by_owner:
  assumes "book_ok db" "entry_for db u = Some e" "entry_for (contact_step db op) u = Some e'" "endpoint_of e' \<noteq> endpoint_of e"
  shows "(\<exists>c. (op = UpsertContact c \<or> op = ImportContact c) \<and> ct_user_id c = u) \<or>
    (\<exists>content now. op = RelayNotice u content now \<and> ru_subject_user_id content = u \<and>
       ce_relay_epoch e < ru_relay_epoch content \<and> ru_relay_epoch content \<le> i64_add now RELAY_EPOCH_MAX_SKEW_MS \<and>
       endpoint_of e' = (non_empty (ru_relay_url content), non_empty (ru_relay_token content)) \<and>
       (case ce_relay_token e' of None \<Rightarrow> True | Some t \<Rightarrow> relay_token_is_deposit t))"
  using assms(2-)
  by (cases op)
    (auto simp: entry_step [OF assms(1)] endpoint_of_def move_entry_def notice_admissible_def non_empty_def
      dest: credential_deposit split: if_splits)

text \<open>
  Claim C18. A notice cannot pin an endpoint. After any history whose notices were judged by clocks up to
  \<open>latest\<close>, an honest notice of a known contact stamped beyond \<open>latest\<close> by more than three days, and
  by then not ahead of this phone's clock by more than that, is applied: the endpoint becomes the
  announced one with a clean record.
\<close>

theorem notice_never_pinned:
  assumes "contacts db0 = []" "list_all (op_clock_ok latest) ops" "entry_for (foldl contact_step db0 ops) u = Some e"
    and "notice_admissible u content now" "epoch_bound latest < ru_relay_epoch content"
  shows "\<exists>db' e'. apply_contact_relay_update (foldl contact_step db0 ops) u content now = Inr (db', True) \<and>
    entry_for db' u = Some e' \<and> endpoint_of e' = (non_empty (ru_relay_url content), non_empty (ru_relay_token content)) \<and>
    ce_reject_streak e' = 0 \<and> ce_unreachable_streak e' = 0"
proof -
  let ?db = "foldl contact_step db0 ops"
  have "contact_inv (epoch_bound latest) db0" using assms(1) by (simp add: contact_inv_def book_ok_def entry_for_def)
  then have inv: "contact_inv (epoch_bound latest) ?db" using assms(2) by (rule contact_inv_run)
  then have newer: "ce_relay_epoch e < ru_relay_epoch content" using assms(3,5) by (force simp: contact_inv_def)
  from inv have "book_ok ?db" by (simp add: contact_inv_def)
  from notice_result [OF this assms(4), of u] assms(3) newer entry_for_id [OF assms(3)] show ?thesis
    by (auto simp: endpoint_of_def move_entry_def)
qed

text \<open>
  Claim C19. Mail follows a moved endpoint. When a notice is applied, no envelope or receipt addressed to
  that contact still counts as posted, no carried row as uploaded; rows to others keep their mark, and no
  row is lost, added or reordered.
\<close>

theorem moved_endpoint_reposts:
  assumes "apply_contact_relay_update db u content now = Inr (db', True)"
  shows "map ar_recipient (outbound_envelopes db') = map ar_recipient (outbound_envelopes db) \<and>
    map ar_recipient (outgoing_receipts db') = map ar_recipient (outgoing_receipts db) \<and>
    (\<forall>r\<in>set (outbound_envelopes db') \<union> set (outgoing_receipts db'). ar_recipient r = u \<longrightarrow> ar_relay_posted_at r = None) \<and>
    filter (\<lambda>r. ar_recipient r \<noteq> u) (outbound_envelopes db') = filter (\<lambda>r. ar_recipient r \<noteq> u) (outbound_envelopes db) \<and>
    filter (\<lambda>r. ar_recipient r \<noteq> u) (outgoing_receipts db') = filter (\<lambda>r. ar_recipient r \<noteq> u) (outgoing_receipts db) \<and>
    carried_uploaded_to db' = replicate (length (carried_uploaded_to db)) None"
proof -
  have "carried_uploaded_to db' = replicate (length (carried_uploaded_to db)) None \<and>
      outbound_envelopes db' = unpost u (outbound_envelopes db) \<and> outgoing_receipts db' = unpost u (outgoing_receipts db)"
    using assms by (auto simp: apply_contact_relay_update_def and_then_Inr update_where_def map_replicate_const split: if_splits)
  then have fields: "carried_uploaded_to db' = replicate (length (carried_uploaded_to db)) None"
    "outbound_envelopes db' = unpost u (outbound_envelopes db)" "outgoing_receipts db' = unpost u (outgoing_receipts db)" by blast+
  have "\<forall>r\<in>set (unpost u (outbound_envelopes db)) \<union> set (unpost u (outgoing_receipts db)). ar_recipient r = u \<longrightarrow> ar_relay_posted_at r = None"
    using unpost_clears by blast
  then show ?thesis unfolding fields by (intro conjI unpost_ids unpost_others refl)
qed

text \<open>
  A streak is not laundered. The count of rejections held against a contact's endpoint falls
  only when a post to it succeeds, when a different endpoint is installed, or when the contact announces
  one anew; re-importing the same card, other faults, silence and other contacts never lower it.
\<close>

theorem rejection_streak_kept:
  assumes "book_ok db" "entry_for db u = Some e" "entry_for (contact_step db op) u = Some e'" "0 \<le> ce_reject_streak e"
    and "ce_reject_streak e' < ce_reject_streak e"
  shows "op = ClearRejection u \<or> endpoint_of e' \<noteq> endpoint_of e \<or>
    (\<exists>content now. op = RelayNotice u content now \<and> notice_admissible u content now \<and> ce_relay_epoch e < ru_relay_epoch content)"
  using assms(2-)
  by (cases op) (auto simp: entry_step [OF assms(1)] endpoint_of_def update_entry_def endpoint_differs_def split: if_splits)

section \<open>Witnesses\<close>

definition demo_contact :: contact where
  "demo_contact = \<lparr>ct_user_id = [1], ct_name = [65], ct_sign_pk = replicate 32 1, ct_agree_pk = replicate 32 2,
     ct_relay_url = Some (ascii ''https://a''), ct_relay_token = Some (ascii ''cmdep1-a''), ct_nickname = None\<rparr>"

definition demo_book :: contact_tables where
  "demo_book = \<lparr>contacts = [], blocked_identities = [], carried_uploaded_to = [Some [1], None],
     outbound_envelopes = [\<lparr>ar_recipient = [1], ar_relay_posted_at = Some 5\<rparr>, \<lparr>ar_recipient = [2], ar_relay_posted_at = Some 6\<rparr>],
     outgoing_receipts = []\<rparr>"

definition demo_history :: "contact_op list" where
  "demo_history = [UpsertContact demo_contact, NoteRejected [1] 100, NoteRejected [1] 200]"

definition demo_notice :: relay_update_content where
  "demo_notice = \<lparr>ru_subject_user_id = [1], ru_relay_epoch = 300000000, ru_relay_url = ascii ''https://b'',
     ru_relay_token = ascii ''cmdep1-b''\<rparr>"

definition demo_entry :: contact_entry where
  "demo_entry = (new_entry demo_contact)\<lparr>ce_reject_streak := 2, ce_rejected_at := 200\<rparr>"

lemma demo_book_ok: "book_ok (foldl contact_step demo_book ops)"
proof -
  have "book_ok demo_book" by (simp add: book_ok_def demo_book_def)
  moreover have "book_ok db \<Longrightarrow> book_ok (foldl contact_step db ops)" for db
    by (induction ops arbitrary: db) (simp_all add: book_ok_step)
  ultimately show ?thesis by blast
qed

lemma demo_state: "entry_for (foldl contact_step demo_book demo_history) [1] = Some demo_entry"
  using demo_book_ok [of "[]"] demo_book_ok [of "take 1 demo_history"] demo_book_ok [of "take 2 demo_history"]
  by (simp add: demo_history_def entry_step book_ok_step demo_contact_def)
    (simp add: entry_for_def demo_book_def demo_entry_def new_entry_def demo_contact_def)

lemma demo_notice_ok: "notice_admissible [1] demo_notice 299999999"
  by (simp add: notice_admissible_def demo_notice_def i64_defs RELAY_EPOCH_MAX_SKEW_MS_def validate_relay_update_credential_def
      relay_token_is_deposit_def RELAY_DEPOSIT_TOKEN_PREFIX_def text_eval)

theorem notice_never_pinned_witness:
  "\<exists>db' e'. apply_contact_relay_update (foldl contact_step demo_book demo_history) [1] demo_notice 299999999 = Inr (db', True) \<and>
     entry_for db' [1] = Some e' \<and> endpoint_of e' = (Some (ascii ''https://b''), Some (ascii ''cmdep1-b'')) \<and>
     ce_reject_streak e' = 0 \<and> ce_unreachable_streak e' = 0"
proof -
  have "contacts demo_book = []" "list_all (op_clock_ok 0) demo_history" "epoch_bound 0 < ru_relay_epoch demo_notice"
    by (simp_all add: demo_book_def demo_history_def epoch_bound_def demo_notice_def i64_defs RELAY_EPOCH_MAX_SKEW_MS_def)
  from notice_never_pinned [OF this(1,2) demo_state demo_notice_ok this(3)] show ?thesis
    by (simp add: demo_notice_def non_empty_def ascii_def)
qed

lemma demo_step: "entry_for (contact_step (foldl contact_step demo_book demo_history) (RelayNotice [1] demo_notice 299999999)) [1] =
    Some (move_entry (Some (ascii ''https://b'')) (Some (ascii ''cmdep1-b'')) 300000000 demo_entry)"
  using demo_notice_ok
  by (simp add: entry_step demo_book_ok demo_state demo_entry_def new_entry_def)
    (simp add: demo_notice_def non_empty_def ascii_def move_entry_def)

theorem endpoint_moved_by_owner_witness:
  "\<exists>content now. RelayNotice [1] demo_notice 299999999 = RelayNotice [1] content now \<and> ru_subject_user_id content = [1] \<and>
     ce_relay_epoch demo_entry < ru_relay_epoch content"
proof -
  have "endpoint_of (move_entry (Some (ascii ''https://b'')) (Some (ascii ''cmdep1-b'')) 300000000 demo_entry) \<noteq> endpoint_of demo_entry"
    by (simp add: endpoint_of_def move_entry_def demo_entry_def new_entry_def demo_contact_def ascii_def)
  from endpoint_moved_by_owner [OF demo_book_ok demo_state demo_step this] show ?thesis by auto
qed

theorem rejection_streak_kept_witness:
  "endpoint_of (move_entry (Some (ascii ''https://b'')) (Some (ascii ''cmdep1-b'')) 300000000 demo_entry) \<noteq> endpoint_of demo_entry \<or>
   (\<exists>content now. RelayNotice [1] demo_notice 299999999 = RelayNotice [1] content now \<and> notice_admissible [1] content now \<and>
      ce_relay_epoch demo_entry < ru_relay_epoch content)"
  using rejection_streak_kept [OF demo_book_ok demo_state demo_step]
  by (simp add: move_entry_def demo_entry_def)

lemma demo_applied: "\<exists>db'. apply_contact_relay_update (foldl contact_step demo_book demo_history) [1] demo_notice 299999999 = Inr (db', True)"
  using notice_result [OF demo_book_ok demo_notice_ok, of demo_history "[1]"] demo_state
  by (auto simp: demo_entry_def new_entry_def demo_notice_def)

theorem moved_endpoint_reposts_witness:
  "\<exists>db'. apply_contact_relay_update (foldl contact_step demo_book demo_history) [1] demo_notice 299999999 = Inr (db', True) \<and>
     (\<forall>r\<in>set (outbound_envelopes db') \<union> set (outgoing_receipts db'). ar_recipient r = [1] \<longrightarrow> ar_relay_posted_at r = None)"
proof -
  obtain db' where db': "apply_contact_relay_update (foldl contact_step demo_book demo_history) [1] demo_notice 299999999 = Inr (db', True)"
    using demo_applied by blast
  with moved_endpoint_reposts [OF db'] show ?thesis by blast
qed

text \<open>
  A notice that restates the endpoint already held, stamped newer, is reported as a move: it clears the
  rejections held against that endpoint and makes posted mail due again.
\<close>

theorem restated_notice_clears_streak:
  "\<exists>content db'. (non_empty (ru_relay_url content), non_empty (ru_relay_token content)) = endpoint_of demo_entry \<and>
     ce_reject_streak demo_entry = 2 \<and>
     apply_contact_relay_update (foldl contact_step demo_book demo_history) [1] content 299999999 = Inr (db', True) \<and>
     (\<exists>e'. entry_for db' [1] = Some e' \<and> endpoint_of e' = endpoint_of demo_entry \<and> ce_reject_streak e' = 0)"
proof -
  let ?c = "demo_notice\<lparr>ru_relay_url := ascii ''https://a'', ru_relay_token := ascii ''cmdep1-a''\<rparr>"
  have "notice_admissible [1] ?c 299999999"
    by (simp add: notice_admissible_def demo_notice_def i64_defs RELAY_EPOCH_MAX_SKEW_MS_def validate_relay_update_credential_def
        relay_token_is_deposit_def RELAY_DEPOSIT_TOKEN_PREFIX_def text_eval)
  from notice_result [OF demo_book_ok this, of demo_history "[1]"] demo_state
  show ?thesis
    by (intro exI [of _ ?c])
      (auto simp: demo_entry_def new_entry_def demo_notice_def endpoint_of_def move_entry_def demo_contact_def non_empty_def ascii_def)
qed

end
