(* ===== verification/Connection_Health.thy ===== *)
theory Connection_Health
  imports Relay_Health "HOL-Library.Product_Lexorder" "HOL-Library.List_Lexorder" "HOL-Library.Multiset"
begin

text \<open>
  What the connection page says (\<open>core/src/connection_health.rs\<close>): the state of this phone with its one
  reason and action, the grouping of people, and the line about mail that waits for a person. The lemmas
  show that the card is honest and never stays undecided, that grouping loses and repeats nobody and does
  not depend on the order people are given in, and that age alone never turns waiting mail into a fault.
\<close>

section \<open>Facts\<close>

definition CONNECTION_CHECKING_TIMEOUT_MS :: i64 where "CONNECTION_CHECKING_TIMEOUT_MS = 10000"
definition CONNECTION_PRESENCE_ONLINE_WINDOW_MS :: i64 where "CONNECTION_PRESENCE_ONLINE_WINDOW_MS = 150000"
definition RELAY_DELIVERY_DELAYED_THRESHOLD_MS :: i64 where "RELAY_DELIVERY_DELAYED_THRESHOLD_MS = 10 * 60 * 1000"

datatype core_mesh_runtime = MeshStopped | MeshStarting | MeshActive | MeshBluetoothOff

datatype core_direct_path_state = PathOff | PathStarting | PathAvailable

datatype core_relay_path_state =
    RelayNotSetUp
  | RelayChecking
  | RelayConnected
  | RelayWaitingForInternet
  | RelayUnreachable
  | RelayPassExpired
  | RelayPassExpiredReadOnly
  | RelayPassSuspended
  | RelaySetupRejected
  | RelayStorageFull
  | RelaySyncingSlowed

record core_connection_health_input =
  hi_runtime :: core_mesh_runtime
  hi_bluetooth :: core_direct_path_state
  hi_bluetooth_links :: u32
  hi_local_wifi :: core_direct_path_state
  hi_local_wifi_links :: u32
  hi_relay :: core_relay_path_state
  hi_validated_internet :: bool
  hi_nearby_friend_count :: u32
  hi_checking_since_ms :: i64
  hi_now_ms :: i64

datatype core_connection_health = HealthChecking | HealthReady | HealthLimited | HealthNeedsAttention

datatype core_health_reason =
    ReasonMeshStopped
  | ReasonBluetoothOff
  | ReasonPassSuspended
  | ReasonPassExpired
  | ReasonPassExpiredReadOnly
  | ReasonOwnSetupRejected
  | ReasonStorageFull
  | ReasonShorePassUnreachable
  | ReasonWaitingForInternet
  | ReasonShorePassSlowed
  | ReasonNoPathAvailable

datatype core_health_action = StartMesh | TurnOnBluetooth | ManageShorePass | HowToFix

record core_connection_evidence =
  ev_nearby_friend_count :: u32
  ev_bluetooth :: core_direct_path_state
  ev_bluetooth_links :: u32
  ev_local_wifi :: core_direct_path_state
  ev_local_wifi_links :: u32
  ev_relay :: core_relay_path_state
  ev_any_path_usable :: bool
  ev_own_relay_usable :: bool

record core_connection_health_report =
  hr_state :: core_connection_health
  hr_evidence :: core_connection_evidence
  hr_reason :: "core_health_reason option"
  hr_action :: "core_health_action option"

section \<open>This phone\<close>

definition core_connection_checking_expired :: "i64 \<Rightarrow> i64 \<Rightarrow> bool" where
  "core_connection_checking_expired checking_since_ms now_ms =
     (if checking_since_ms \<le> 0 \<or> now_ms < checking_since_ms then True
      else now_ms - checking_since_ms \<ge> CONNECTION_CHECKING_TIMEOUT_MS)"

definition normalized_relay :: "core_connection_health_input \<Rightarrow> bool \<Rightarrow> core_relay_path_state" where
  "normalized_relay input checking_expired =
     (case hi_relay input of
        RelayNotSetUp \<Rightarrow> RelayNotSetUp
      | RelayChecking \<Rightarrow>
          if \<not> checking_expired then RelayChecking
          else if \<not> hi_validated_internet input then RelayWaitingForInternet
          else RelayUnreachable
      | other \<Rightarrow>
          if (other = RelayConnected \<or> other = RelaySyncingSlowed) \<and> \<not> hi_validated_internet input
          then RelayWaitingForInternet else other)"

fun relay_is_actionable :: "core_relay_path_state \<Rightarrow> bool" where
  "relay_is_actionable RelayPassExpired = True"
| "relay_is_actionable RelayPassExpiredReadOnly = True"
| "relay_is_actionable RelayPassSuspended = True"
| "relay_is_actionable RelaySetupRejected = True"
| "relay_is_actionable RelayStorageFull = True"
| "relay_is_actionable _ = False"

fun relay_can_deliver :: "core_relay_path_state \<Rightarrow> bool" where
  "relay_can_deliver RelayConnected = True"
| "relay_can_deliver RelaySyncingSlowed = True"
| "relay_can_deliver _ = False"

fun relay_is_degraded :: "core_relay_path_state \<Rightarrow> bool" where
  "relay_is_degraded RelayNotSetUp = False"
| "relay_is_degraded RelayChecking = False"
| "relay_is_degraded RelayConnected = False"
| "relay_is_degraded RelayWaitingForInternet = True"
| "relay_is_degraded RelayUnreachable = True"
| "relay_is_degraded RelaySyncingSlowed = True"
| "relay_is_degraded RelayPassExpired = True"
| "relay_is_degraded RelayPassExpiredReadOnly = True"
| "relay_is_degraded RelayPassSuspended = True"
| "relay_is_degraded RelaySetupRejected = True"
| "relay_is_degraded RelayStorageFull = True"

fun relay_reason :: "core_relay_path_state \<Rightarrow> (core_health_reason \<times> core_health_action option) option" where
  "relay_reason RelayPassSuspended = Some (ReasonPassSuspended, Some ManageShorePass)"
| "relay_reason RelayPassExpired = Some (ReasonPassExpired, Some ManageShorePass)"
| "relay_reason RelayPassExpiredReadOnly = Some (ReasonPassExpiredReadOnly, Some ManageShorePass)"
| "relay_reason RelaySetupRejected = Some (ReasonOwnSetupRejected, Some HowToFix)"
| "relay_reason RelayStorageFull = Some (ReasonStorageFull, Some HowToFix)"
| "relay_reason RelayUnreachable = Some (ReasonShorePassUnreachable, None)"
| "relay_reason RelayWaitingForInternet = Some (ReasonWaitingForInternet, None)"
| "relay_reason RelaySyncingSlowed = Some (ReasonShorePassSlowed, None)"
| "relay_reason _ = None"

definition reason_and_action ::
  "core_mesh_runtime \<Rightarrow> bool \<Rightarrow> core_relay_path_state \<Rightarrow> bool \<Rightarrow> (core_health_reason \<times> core_health_action option) option" where
  "reason_and_action runtime bluetooth_off relay any_path_usable =
     (if runtime = MeshStopped then Some (ReasonMeshStopped, Some StartMesh)
      else if bluetooth_off then Some (ReasonBluetoothOff, Some TurnOnBluetooth)
      else case relay_reason relay of
             Some r \<Rightarrow> Some r
           | None \<Rightarrow> if \<not> any_path_usable then Some (ReasonNoPathAvailable, None) else None)"

definition core_connection_check_pending ::
  "core_mesh_runtime \<Rightarrow> core_direct_path_state \<Rightarrow> core_direct_path_state \<Rightarrow> core_relay_path_state \<Rightarrow> bool" where
  "core_connection_check_pending runtime bluetooth local_wifi relay \<longleftrightarrow>
     runtime = MeshStarting \<or> bluetooth = PathStarting \<or> local_wifi = PathStarting \<or> relay = RelayChecking"

definition core_classify_connection_health :: "core_connection_health_input \<Rightarrow> core_connection_health_report" where
  "core_classify_connection_health input =
     (let checking_expired = core_connection_checking_expired (hi_checking_since_ms input) (hi_now_ms input);
          relay = normalized_relay input checking_expired;
          bluetooth_off = (hi_bluetooth input = PathOff \<or> hi_runtime input = MeshBluetoothOff);
          bluetooth = (if bluetooth_off then PathOff else hi_bluetooth input);
          stopped = (hi_runtime input = MeshStopped);
          bluetooth_usable = (\<not> stopped \<and> bluetooth = PathAvailable);
          local_wifi_usable = (\<not> stopped \<and> hi_local_wifi input = PathAvailable);
          own_relay_usable = (\<not> stopped \<and> relay_can_deliver relay);
          any_path_usable = (bluetooth_usable \<or> local_wifi_usable \<or> own_relay_usable);
          evidence = \<lparr>ev_nearby_friend_count = hi_nearby_friend_count input, ev_bluetooth = bluetooth,
                      ev_bluetooth_links = hi_bluetooth_links input, ev_local_wifi = hi_local_wifi input,
                      ev_local_wifi_links = hi_local_wifi_links input, ev_relay = relay,
                      ev_any_path_usable = any_path_usable, ev_own_relay_usable = own_relay_usable\<rparr>;
          pending = core_connection_check_pending (hi_runtime input) bluetooth (hi_local_wifi input) relay in
      if \<not> stopped \<and> \<not> checking_expired \<and> (hi_runtime input = MeshStarting \<or> \<not> any_path_usable \<and> pending)
      then \<lparr>hr_state = HealthChecking, hr_evidence = evidence, hr_reason = None, hr_action = None\<rparr>
      else
        let (reason, action) = (case reason_and_action (hi_runtime input) bluetooth_off relay any_path_usable of
                                  Some (r, a) \<Rightarrow> (Some r, a) | None \<Rightarrow> (None, None));
            degraded = (bluetooth_off \<or> relay_is_degraded relay \<or> relay_is_actionable relay \<or>
                        reason = Some ReasonNoPathAvailable);
            state = (if stopped \<or> \<not> any_path_usable then HealthNeedsAttention
                     else if degraded then HealthLimited else HealthReady);
            (reason, action) = (if state = HealthReady then (None, None) else (reason, action)) in
        \<lparr>hr_state = state, hr_evidence = evidence, hr_reason = reason, hr_action = action\<rparr>)"

section \<open>People\<close>

datatype core_direct_link = LinkBluetooth | LinkLocalWifi

datatype core_person_attention = AttentionDelayed | AttentionMessageTooLarge | AttentionPassBlocked | AttentionSetupRejected

datatype core_person_reach = DirectBluetooth | DirectLocalWifi | RelayPresence | ReachNone

datatype core_person_group = GroupNeedsAttention | GroupReachableNow | GroupOtherPeople

record core_person_health_input =
  ph_user_id :: bytes
  ph_display_name :: utf8
  ph_blocked :: bool
  ph_direct_link :: "core_direct_link option"
  ph_presence_last_seen_ms :: i64
  ph_last_seen_ms :: i64
  ph_attention :: "core_person_attention option"
  ph_attention_since_ms :: i64

record core_person_placement =
  pp_user_id :: bytes
  pp_group :: core_person_group
  pp_reach :: core_person_reach
  pp_attention :: "core_person_attention option"

record core_people_groups =
  pg_needs_attention :: "core_person_placement list"
  pg_reachable_now :: "core_person_placement list"
  pg_other_people :: "core_person_placement list"

fun core_person_attention_rank :: "core_person_attention \<Rightarrow> nat" where
  "core_person_attention_rank AttentionSetupRejected = 4"
| "core_person_attention_rank AttentionPassBlocked = 3"
| "core_person_attention_rank AttentionMessageTooLarge = 2"
| "core_person_attention_rank AttentionDelayed = 1"

definition core_person_reach_of :: "core_direct_link option \<Rightarrow> i64 \<Rightarrow> bool \<Rightarrow> i64 \<Rightarrow> core_person_reach" where
  "core_person_reach_of direct_link presence_last_seen_ms own_relay_usable now_ms =
     (case direct_link of
        Some LinkBluetooth \<Rightarrow> DirectBluetooth
      | Some LinkLocalWifi \<Rightarrow> DirectLocalWifi
      | None \<Rightarrow>
          if own_relay_usable \<and> presence_last_seen_ms > 0 \<and> now_ms \<ge> presence_last_seen_ms \<and>
             now_ms - presence_last_seen_ms \<le> CONNECTION_PRESENCE_ONLINE_WINDOW_MS
          then RelayPresence else ReachNone)"

definition core_person_is_reachable_now :: "core_person_reach \<Rightarrow> bool" where
  "core_person_is_reachable_now reach \<longleftrightarrow> reach \<noteq> ReachNone"

definition newest_evidence_ms :: "core_person_health_input \<Rightarrow> i64" where
  "newest_evidence_ms person = max (max (ph_last_seen_ms person) (ph_presence_last_seen_ms person)) 0"

definition place_person :: "bool \<Rightarrow> i64 \<Rightarrow> core_person_health_input \<Rightarrow> core_person_placement" where
  "place_person own_relay_usable now_ms person =
     (let reach = core_person_reach_of (ph_direct_link person) (ph_presence_last_seen_ms person) own_relay_usable now_ms;
          group = (if ph_attention person \<noteq> None then GroupNeedsAttention
                   else if core_person_is_reachable_now reach then GroupReachableNow
                   else GroupOtherPeople) in
      \<lparr>pp_user_id = ph_user_id person, pp_group = group, pp_reach = reach, pp_attention = ph_attention person\<rparr>)"

text \<open>
  Each comparison is the lexicographic one of a key, so the stable sort by it is \<open>sort_key\<close>. Lower case is
  a function of Rust's Unicode tables and a parameter.
\<close>

definition attention_key :: "(utf8 \<Rightarrow> utf8) \<Rightarrow> core_person_health_input \<Rightarrow> int \<times> int \<times> utf8 \<times> bytes" where
  "attention_key lower person =
     (- int (case ph_attention person of Some a \<Rightarrow> core_person_attention_rank a | None \<Rightarrow> 0),
      if ph_attention_since_ms person > 0 then ph_attention_since_ms person else i64_max,
      lower (ph_display_name person), ph_user_id person)"

definition reachable_key :: "(utf8 \<Rightarrow> utf8) \<Rightarrow> core_person_health_input \<Rightarrow> utf8 \<times> bytes" where
  "reachable_key lower person = (lower (ph_display_name person), ph_user_id person)"

definition other_key :: "(utf8 \<Rightarrow> utf8) \<Rightarrow> core_person_health_input \<Rightarrow> int \<times> utf8 \<times> bytes" where
  "other_key lower person = (- newest_evidence_ms person, lower (ph_display_name person), ph_user_id person)"

definition core_group_people ::
  "(utf8 \<Rightarrow> utf8) \<Rightarrow> core_person_health_input list \<Rightarrow> bool \<Rightarrow> i64 \<Rightarrow> core_people_groups" where
  "core_group_people lower people own_relay_usable now_ms =
     (let place = place_person own_relay_usable now_ms;
          placed = filter (\<lambda>p. \<not> ph_blocked p) people;
          members = (\<lambda>g. filter (\<lambda>p. pp_group (place p) = g) placed) in
      \<lparr>pg_needs_attention = map place (sort_key (attention_key lower) (members GroupNeedsAttention)),
       pg_reachable_now = map place (sort_key (reachable_key lower) (members GroupReachableNow)),
       pg_other_people = map place (sort_key (other_key lower) (members GroupOtherPeople))\<rparr>)"

section \<open>Waiting mail\<close>

datatype core_delivery_state = Sending | WillDeliverWhenReconnected | DeliveryWaitingForInternet

datatype core_delivery_blocked_reason =
    ContactSetupRejected
  | BlockedPassExpired
  | BlockedPassSuspended
  | BlockedStorageFull
  | BlockedOwnSetupRejected
  | BlockedMessageTooLarge

record core_delivery_line =
  dl_count :: u32
  dl_state :: core_delivery_state
  dl_delayed :: bool
  dl_blocked_reason :: "core_delivery_blocked_reason option"
  dl_attention :: "core_person_attention option"
  dl_oldest_waiting_ms :: i64

record core_delivery_line_input =
  li_queued :: u32
  li_relay :: core_relay_path_state
  li_own_relay_usable :: bool
  li_contact_has_relay_endpoint :: bool
  li_contact_relay_stale :: bool
  li_direct_link :: bool
  li_delivery_receipt_is_newest_evidence :: bool

definition core_contact_route_usable :: "bool \<Rightarrow> bool \<Rightarrow> bool \<Rightarrow> bool \<Rightarrow> bool" where
  "core_contact_route_usable direct_link own_relay_usable contact_has_relay_endpoint contact_relay_stale \<longleftrightarrow>
     direct_link \<or> own_relay_usable \<and> contact_has_relay_endpoint \<and> \<not> contact_relay_stale"

definition core_contact_endpoint_resting :: "i64 \<Rightarrow> i64 \<Rightarrow> i64 \<Rightarrow> i64 \<Rightarrow> i64 \<Rightarrow> bool" where
  "core_contact_endpoint_resting relay_reject_streak relay_rejected_at_ms relay_unreachable_streak relay_unreachable_at_ms now_ms \<longleftrightarrow>
     \<not> core_contact_relay_endpoint_usable relay_reject_streak relay_rejected_at_ms now_ms \<or>
     \<not> core_contact_relay_unreachable_endpoint_usable relay_unreachable_streak relay_unreachable_at_ms now_ms"

datatype core_person_route = RouteDirectBluetooth | RouteDirectLocalWifi | RouteShorePass | RouteNoneNow

definition core_person_best_route :: "core_direct_link option \<Rightarrow> bool \<Rightarrow> bool \<Rightarrow> bool \<Rightarrow> core_person_route" where
  "core_person_best_route direct_link own_relay_usable contact_has_relay_endpoint contact_endpoint_resting =
     (case direct_link of
        Some LinkBluetooth \<Rightarrow> RouteDirectBluetooth
      | Some LinkLocalWifi \<Rightarrow> RouteDirectLocalWifi
      | None \<Rightarrow>
          if core_contact_route_usable False own_relay_usable contact_has_relay_endpoint contact_endpoint_resting
          then RouteShorePass else RouteNoneNow)"

definition core_relay_queue_reflects_delivery :: "core_relay_path_state \<Rightarrow> bool \<Rightarrow> bool \<Rightarrow> bool" where
  "core_relay_queue_reflects_delivery relay contact_has_relay_endpoint contact_relay_stale \<longleftrightarrow>
     relay \<noteq> RelayNotSetUp \<and> contact_has_relay_endpoint \<and> \<not> contact_relay_stale"

record core_recipient_delivery_input =
  ri_waiting_count :: u32
  ri_unposted_waiting_count :: u32
  ri_oldest_waiting_ms :: i64
  ri_last_progress_ms :: i64
  ri_oversized_waiting :: bool
  ri_relay_reject_streak :: i64
  ri_relay_rejected_at_ms :: i64
  ri_relay_unreachable_streak :: i64
  ri_relay_unreachable_at_ms :: i64
  ri_relay :: core_relay_path_state
  ri_own_relay_usable :: bool
  ri_contact_has_relay_endpoint :: bool
  ri_direct_link :: bool
  ri_now_ms :: i64

record delivery_facts =
  df_waiting_count :: u32
  df_unposted_waiting_count :: u32
  df_oldest_waiting_ms :: i64
  df_last_progress_ms :: i64
  df_oversized_waiting :: bool
  df_contact_endpoint_resting :: bool
  df_contact_setup_actionable :: bool
  df_relay :: core_relay_path_state
  df_own_relay_usable :: bool
  df_contact_has_relay_endpoint :: bool
  df_direct_link :: bool
  df_now_ms :: i64

definition delivery_progress_possible :: "delivery_facts \<Rightarrow> bool" where
  "delivery_progress_possible facts \<longleftrightarrow> df_unposted_waiting_count facts > 0"

definition delivery_progress_stalled :: "i64 \<Rightarrow> i64 \<Rightarrow> i64 \<Rightarrow> bool" where
  "delivery_progress_stalled last_progress_ms oldest_waiting_ms now_ms =
     (let since = max last_progress_ms oldest_waiting_ms in
      if since \<le> 0 \<or> now_ms < since then False else now_ms - since \<ge> RELAY_DELIVERY_DELAYED_THRESHOLD_MS)"

definition delivery_blocked_reason :: "delivery_facts \<Rightarrow> core_delivery_blocked_reason option" where
  "delivery_blocked_reason facts =
     (if df_oversized_waiting facts then Some BlockedMessageTooLarge
      else if df_direct_link facts \<or> \<not> df_contact_has_relay_endpoint facts then None
      else if df_contact_setup_actionable facts then Some ContactSetupRejected
      else case df_relay facts of
             RelayPassSuspended \<Rightarrow> Some BlockedPassSuspended
           | RelayPassExpired \<Rightarrow> Some BlockedPassExpired
           | RelayPassExpiredReadOnly \<Rightarrow> Some BlockedPassExpired
           | RelayStorageFull \<Rightarrow> Some BlockedStorageFull
           | RelaySetupRejected \<Rightarrow> Some BlockedOwnSetupRejected
           | _ \<Rightarrow> None)"

definition delivery_attention :: "core_delivery_blocked_reason option \<Rightarrow> bool \<Rightarrow> core_person_attention option" where
  "delivery_attention blocked_reason delayed =
     (case blocked_reason of
        Some ContactSetupRejected \<Rightarrow> Some AttentionSetupRejected
      | Some BlockedMessageTooLarge \<Rightarrow> Some AttentionMessageTooLarge
      | Some _ \<Rightarrow> Some AttentionPassBlocked
      | None \<Rightarrow> if delayed then Some AttentionDelayed else None)"

definition classify_delivery :: "delivery_facts \<Rightarrow> core_delivery_line option" where
  "classify_delivery facts =
     (if df_waiting_count facts = 0 then None
      else
        let route_usable = core_contact_route_usable (df_direct_link facts) (df_own_relay_usable facts)
                             (df_contact_has_relay_endpoint facts) (df_contact_endpoint_resting facts);
            state = (if route_usable then Sending
                     else if df_relay facts = RelayWaitingForInternet \<and> df_contact_has_relay_endpoint facts \<and>
                             \<not> df_contact_endpoint_resting facts
                     then DeliveryWaitingForInternet else WillDeliverWhenReconnected);
            delayed = (route_usable \<and> delivery_progress_possible facts \<and>
                       delivery_progress_stalled (df_last_progress_ms facts) (df_oldest_waiting_ms facts) (df_now_ms facts));
            blocked_reason = delivery_blocked_reason facts in
        Some \<lparr>dl_count = df_waiting_count facts, dl_state = state, dl_delayed = delayed, dl_blocked_reason = blocked_reason,
              dl_attention = delivery_attention blocked_reason delayed, dl_oldest_waiting_ms = df_oldest_waiting_ms facts\<rparr>)"

definition input_resting :: "core_recipient_delivery_input \<Rightarrow> bool" where
  "input_resting input =
     core_contact_endpoint_resting (ri_relay_reject_streak input) (ri_relay_rejected_at_ms input)
       (ri_relay_unreachable_streak input) (ri_relay_unreachable_at_ms input) (ri_now_ms input)"

definition core_classify_recipient_delivery :: "core_recipient_delivery_input \<Rightarrow> core_delivery_line option" where
  "core_classify_recipient_delivery input =
     classify_delivery
       \<lparr>df_waiting_count = ri_waiting_count input, df_unposted_waiting_count = ri_unposted_waiting_count input,
        df_oldest_waiting_ms = ri_oldest_waiting_ms input, df_last_progress_ms = ri_last_progress_ms input,
        df_oversized_waiting = ri_oversized_waiting input, df_contact_endpoint_resting = input_resting input,
        df_contact_setup_actionable = (core_contact_relay_is_stale (ri_relay_reject_streak input) \<or>
          core_contact_relay_unreachable_is_stale (ri_relay_unreachable_streak input)),
        df_relay = ri_relay input, df_own_relay_usable = ri_own_relay_usable input,
        df_contact_has_relay_endpoint = ri_contact_has_relay_endpoint input, df_direct_link = ri_direct_link input,
        df_now_ms = ri_now_ms input\<rparr>"

definition line_facts :: "core_delivery_line_input \<Rightarrow> delivery_facts" where
  "line_facts input =
     \<lparr>df_waiting_count = li_queued input, df_unposted_waiting_count = li_queued input, df_oldest_waiting_ms = 0,
      df_last_progress_ms = 0, df_oversized_waiting = False, df_contact_endpoint_resting = li_contact_relay_stale input,
      df_contact_setup_actionable = False, df_relay = li_relay input, df_own_relay_usable = li_own_relay_usable input,
      df_contact_has_relay_endpoint = li_contact_has_relay_endpoint input, df_direct_link = li_direct_link input, df_now_ms = 0\<rparr>"

definition core_classify_delivery_line :: "core_delivery_line_input \<Rightarrow> core_delivery_state option" where
  "core_classify_delivery_line input =
     (if \<not> core_relay_queue_reflects_delivery (li_relay input) (li_contact_has_relay_endpoint input) (li_contact_relay_stale input)
      then None
      else if li_delivery_receipt_is_newest_evidence input then None
      else map_option dl_state (classify_delivery (line_facts input)))"

section \<open>The card\<close>

lemma relay_reason_degraded: "relay_reason r = None \<longleftrightarrow> \<not> relay_is_degraded r"
  by (cases r) simp_all

lemma actionable_degraded: "relay_is_actionable r \<Longrightarrow> relay_is_degraded r"
  by (cases r) simp_all

lemma deliver_needs_internet: "relay_can_deliver (normalized_relay input b) \<Longrightarrow> hi_validated_internet input"
  by (auto simp: normalized_relay_def split: core_relay_path_state.splits if_splits)

lemma checking_not_expired:
  "core_connection_checking_expired since now \<longleftrightarrow> \<not> (0 < since \<and> since \<le> now \<and> now < since + CONNECTION_CHECKING_TIMEOUT_MS)"
  by (auto simp: core_connection_checking_expired_def)

text \<open>The classification with the path facts named.\<close>

definition path_usable :: "core_connection_health_input \<Rightarrow> bool" where
  "path_usable input \<longleftrightarrow> hi_runtime input \<noteq> MeshStopped \<and>
     (hi_bluetooth input = PathAvailable \<and> hi_runtime input \<noteq> MeshBluetoothOff \<or> hi_local_wifi input = PathAvailable \<or>
      hi_relay input \<in> {RelayConnected, RelaySyncingSlowed} \<and> hi_validated_internet input)"

lemma can_deliver_input:
  "relay_can_deliver (normalized_relay input b) \<longleftrightarrow> hi_relay input \<in> {RelayConnected, RelaySyncingSlowed} \<and> hi_validated_internet input"
  by (cases "hi_relay input") (auto simp: normalized_relay_def)

definition check_window :: "core_connection_health_input \<Rightarrow> bool" where
  "check_window input \<longleftrightarrow> 0 < hi_checking_since_ms input \<and> hi_checking_since_ms input \<le> hi_now_ms input \<and>
     hi_now_ms input < hi_checking_since_ms input + CONNECTION_CHECKING_TIMEOUT_MS"

definition undecided :: "core_connection_health_input \<Rightarrow> bool" where
  "undecided input \<longleftrightarrow> hi_runtime input \<noteq> MeshStopped \<and> check_window input \<and>
     (hi_runtime input = MeshStarting \<or>
      \<not> path_usable input \<and> (hi_bluetooth input = PathStarting \<and> hi_runtime input \<noteq> MeshBluetoothOff \<or>
        hi_local_wifi input = PathStarting \<or> hi_relay input = RelayChecking))"

lemma checking_relay: "\<not> b \<Longrightarrow> normalized_relay input b = RelayChecking \<longleftrightarrow> hi_relay input = RelayChecking"
  by (auto simp: normalized_relay_def split: core_relay_path_state.splits)

definition input_bluetooth_off :: "core_connection_health_input \<Rightarrow> bool" where
  "input_bluetooth_off input \<longleftrightarrow> hi_bluetooth input = PathOff \<or> hi_runtime input = MeshBluetoothOff"

definition input_relay :: "core_connection_health_input \<Rightarrow> core_relay_path_state" where
  "input_relay input = normalized_relay input (core_connection_checking_expired (hi_checking_since_ms input) (hi_now_ms input))"

text \<open>The reason and action before the last rule, which clears them for a ready phone.\<close>

definition raw_reason :: "core_mesh_runtime \<Rightarrow> bool \<Rightarrow> core_relay_path_state \<Rightarrow> bool \<Rightarrow> core_health_reason option \<times> core_health_action option" where
  "raw_reason runtime off relay usable =
     (case reason_and_action runtime off relay usable of Some (r, a) \<Rightarrow> (Some r, a) | None \<Rightarrow> (None, None))"

lemma relay_reason_specific: "relay_reason r = Some (x, a) \<Longrightarrow> x \<noteq> ReasonNoPathAvailable"
  by (cases r) auto

lemma raw_reason_no_path: "fst (raw_reason rt off r True) \<noteq> Some ReasonNoPathAvailable"
  by (auto simp: raw_reason_def reason_and_action_def dest: relay_reason_specific split: option.splits)

lemma raw_reason_some: "fst (raw_reason rt off r u) \<noteq> None \<longleftrightarrow> rt = MeshStopped \<or> off \<or> relay_is_degraded r \<or> \<not> u"
  using relay_reason_degraded [of r] by (auto simp: raw_reason_def reason_and_action_def split: option.splits)

lemma raw_action_some: "snd (raw_reason rt off r u) \<noteq> None \<Longrightarrow> fst (raw_reason rt off r u) \<noteq> None"
  by (auto simp: raw_reason_def split: option.splits prod.splits)

lemma usable_running: "path_usable input \<Longrightarrow> hi_runtime input \<noteq> MeshStopped"
  by (simp add: path_usable_def)

lemma health_form:
  "let r = core_classify_connection_health input;
       raw = raw_reason (hi_runtime input) (input_bluetooth_off input) (input_relay input) (path_usable input) in
   hr_state r = (if undecided input then HealthChecking
      else if \<not> path_usable input then HealthNeedsAttention
      else if input_bluetooth_off input \<or> relay_is_degraded (input_relay input) then HealthLimited else HealthReady) \<and>
   (hr_reason r, hr_action r) = (if hr_state r \<in> {HealthChecking, HealthReady} then (None, None) else raw)"
proof -
  let ?x = "core_connection_checking_expired (hi_checking_since_ms input) (hi_now_ms input)"
  let ?b = "if hi_bluetooth input = PathOff \<or> hi_runtime input = MeshBluetoothOff then PathOff else hi_bluetooth input"
  let ?raw = "raw_reason (hi_runtime input) (input_bluetooth_off input) (input_relay input) (path_usable input)"
  have u: "(hi_runtime input \<noteq> MeshStopped \<and> ?b = PathAvailable \<or>
     hi_runtime input \<noteq> MeshStopped \<and> hi_local_wifi input = PathAvailable \<or>
     hi_runtime input \<noteq> MeshStopped \<and> relay_can_deliver (normalized_relay input ?x)) = path_usable input"
    by (auto simp: path_usable_def can_deliver_input)
  have c: "(hi_runtime input \<noteq> MeshStopped \<and> \<not> ?x \<and> (hi_runtime input = MeshStarting \<or> \<not> path_usable input \<and>
      core_connection_check_pending (hi_runtime input) ?b (hi_local_wifi input) (normalized_relay input ?x))) = undecided input"
    by (auto simp: undecided_def check_window_def checking_not_expired core_connection_check_pending_def checking_relay)
  have w: "(case reason_and_action (hi_runtime input) (hi_bluetooth input = PathOff \<or> hi_runtime input = MeshBluetoothOff)
      (normalized_relay input ?x) (path_usable input) of Some (r, a) \<Rightarrow> (Some r, a) | None \<Rightarrow> (None, None)) = ?raw"
    by (simp add: raw_reason_def input_bluetooth_off_def input_relay_def)
  have d: "(input_bluetooth_off input \<or> relay_is_degraded (input_relay input) \<or> relay_is_actionable (input_relay input) \<or>
      fst ?raw = Some ReasonNoPathAvailable) = (input_bluetooth_off input \<or> relay_is_degraded (input_relay input))" if "path_usable input"
    using that actionable_degraded raw_reason_no_path by auto
  show ?thesis
    unfolding core_classify_connection_health_def Let_def u c w
    unfolding input_bluetooth_off_def [symmetric] input_relay_def [symmetric] split_beta
    using d usable_running [of input] by (cases "path_usable input"; cases "undecided input") simp_all
qed

section \<open>The groups\<close>

lemma sort_key_perm:
  assumes "mset xs' = mset xs" "distinct (map f xs)" "\<And>x y. k x = k y \<Longrightarrow> f x = f y"
  shows "sort_key k (filter P xs') = sort_key k (filter P xs)"
proof (rule sort_key_inj_key_eq)
  show "mset (filter P xs') = mset (sort_key k (filter P xs))" using assms(1) by simp
  have inj: "inj_on f (set xs)" using assms(2) by (simp add: distinct_map)
  have "set xs' = set xs" using assms(1) by (metis set_mset_mset)
  then have sub: "set (filter P xs') \<subseteq> set xs" by auto
  show "inj_on k (set (filter P xs'))"
    by (rule inj_onI) (use sub in \<open>blast intro: inj_onD [OF inj] assms(3)\<close>)
qed simp

lemma keys_identify:
  "attention_key lower p = attention_key lower q \<Longrightarrow> ph_user_id p = ph_user_id q"
  "reachable_key lower p = reachable_key lower q \<Longrightarrow> ph_user_id p = ph_user_id q"
  "other_key lower p = other_key lower q \<Longrightarrow> ph_user_id p = ph_user_id q"
  by (simp_all add: attention_key_def reachable_key_def other_key_def)

lemma groups_perm:
  assumes "mset people' = mset people" "distinct (map ph_user_id people)"
  shows "core_group_people lower people' own now = core_group_people lower people own now"
  unfolding core_group_people_def Let_def filter_filter
  by (simp only: sort_key_perm [OF assms keys_identify(1)] sort_key_perm [OF assms keys_identify(2)]
      sort_key_perm [OF assms keys_identify(3)])

lemma place_group:
  "pp_group (place_person own now p) = GroupNeedsAttention \<longleftrightarrow> pp_attention (place_person own now p) \<noteq> None"
  "pp_group (place_person own now p) = GroupReachableNow \<longleftrightarrow>
     pp_attention (place_person own now p) = None \<and> pp_reach (place_person own now p) \<noteq> ReachNone"
  "pp_group (place_person own now p) = GroupOtherPeople \<longleftrightarrow>
     pp_attention (place_person own now p) = None \<and> pp_reach (place_person own now p) = ReachNone"
  by (auto simp: place_person_def Let_def core_person_is_reachable_now_def)

text \<open>
  What a line of the page says about a person, without reference to how the code places people: it carries
  their id and their attention, a direct link by its own name, and presence only for somebody without a
  link who was seen within the window, not in the future, while this phone can post.
\<close>

definition seen_lately :: "bool \<Rightarrow> i64 \<Rightarrow> core_person_health_input \<Rightarrow> bool" where
  "seen_lately own now p \<longleftrightarrow> own \<and> ph_presence_last_seen_ms p \<in> {0<..now} \<and> now \<le> ph_presence_last_seen_ms p + 150 * 1000"

definition line_of :: "bool \<Rightarrow> i64 \<Rightarrow> core_person_health_input \<Rightarrow> core_person_placement \<Rightarrow> bool" where
  "line_of own now p q \<longleftrightarrow> pp_user_id q = ph_user_id p \<and> pp_attention q = ph_attention p \<and>
     (pp_reach q = DirectBluetooth \<longleftrightarrow> ph_direct_link p = Some LinkBluetooth) \<and>
     (pp_reach q = DirectLocalWifi \<longleftrightarrow> ph_direct_link p = Some LinkLocalWifi) \<and>
     (pp_reach q = RelayPresence \<longleftrightarrow> ph_direct_link p = None \<and> seen_lately own now p)"

text \<open>The lines are those of exactly the people with the property, one line each.\<close>

definition lines_of ::
  "bool \<Rightarrow> i64 \<Rightarrow> (core_person_health_input \<Rightarrow> bool) \<Rightarrow> core_person_health_input list \<Rightarrow> core_person_placement list \<Rightarrow> bool" where
  "lines_of own now P people qs \<longleftrightarrow> (\<exists>ps. mset ps = mset (filter P people) \<and> list_all2 (line_of own now) ps qs)"

lemma place_line: "line_of own now p (place_person own now p)"
  by (auto simp: line_of_def place_person_def Let_def core_person_reach_of_def seen_lately_def
      CONNECTION_PRESENCE_ONLINE_WINDOW_MS_def split: option.split core_direct_link.split)

lemma place_group_input:
  "pp_group (place_person own now p) = GroupNeedsAttention \<longleftrightarrow> ph_attention p \<noteq> None"
  "pp_group (place_person own now p) = GroupReachableNow \<longleftrightarrow>
     ph_attention p = None \<and> (ph_direct_link p \<noteq> None \<or> seen_lately own now p)"
  "pp_group (place_person own now p) = GroupOtherPeople \<longleftrightarrow>
     ph_attention p = None \<and> ph_direct_link p = None \<and> \<not> seen_lately own now p"
proof -
  have none: "pp_reach (place_person own now p) = ReachNone \<longleftrightarrow> ph_direct_link p = None \<and> \<not> seen_lately own now p"
    by (auto simp: place_person_def Let_def core_person_reach_of_def seen_lately_def
        CONNECTION_PRESENCE_ONLINE_WINDOW_MS_def split: option.split core_direct_link.split)
  have att: "pp_attention (place_person own now p) = ph_attention p" by (simp add: place_person_def Let_def)
  show "pp_group (place_person own now p) = GroupNeedsAttention \<longleftrightarrow> ph_attention p \<noteq> None"
    "pp_group (place_person own now p) = GroupReachableNow \<longleftrightarrow>
       ph_attention p = None \<and> (ph_direct_link p \<noteq> None \<or> seen_lately own now p)"
    "pp_group (place_person own now p) = GroupOtherPeople \<longleftrightarrow>
       ph_attention p = None \<and> ph_direct_link p = None \<and> \<not> seen_lately own now p"
    unfolding place_group att none by auto
qed

lemma placed_lines:
  assumes "\<And>p. P p \<longleftrightarrow> \<not> ph_blocked p \<and> pp_group (place_person own now p) = G"
  shows "lines_of own now P people (map (place_person own now) (sort_key k
    (filter (\<lambda>p. pp_group (place_person own now p) = G) (filter (\<lambda>p. \<not> ph_blocked p) people))))"
proof -
  have "mset (sort_key k (filter (\<lambda>p. pp_group (place_person own now p) = G) (filter (\<lambda>p. \<not> ph_blocked p) people))) =
      mset (filter P people)"
    by (simp add: assms filter_filter)
  moreover have "list_all2 (line_of own now) ps (map (place_person own now) ps)" for ps
    by (simp add: list_all2_map2 list.rel_refl place_line)
  ultimately show ?thesis unfolding lines_of_def by blast
qed

lemma sorted_attention:
  "sorted_wrt (\<lambda>p q. fst (attention_key lower p) \<le> fst (attention_key lower q)) (sort_key (attention_key lower) xs)"
proof -
  have "sorted_wrt (\<lambda>p q. attention_key lower p \<le> attention_key lower q) (sort_key (attention_key lower) xs)"
    using sorted_sort_key [of "attention_key lower" xs] by (simp add: sorted_map)
  then show ?thesis by (rule sorted_wrt_mono_rel [rotated]) (auto simp: less_eq_prod_def)
qed

definition placement_rank :: "core_person_placement \<Rightarrow> nat" where
  "placement_rank p = (case pp_attention p of Some a \<Rightarrow> core_person_attention_rank a | None \<Rightarrow> 0)"

lemma groups_by_severity:
  "sorted_wrt (\<lambda>p q. placement_rank q \<le> placement_rank p) (pg_needs_attention (core_group_people lower people own now))"
  using sorted_attention by (simp add: core_group_people_def Let_def sorted_wrt_map placement_rank_def place_person_def attention_key_def)

section \<open>The delivery line\<close>

lemma stalled_since:
  "delivery_progress_stalled progress oldest now \<Longrightarrow>
   oldest + RELAY_DELIVERY_DELAYED_THRESHOLD_MS \<le> now \<and> progress + RELAY_DELIVERY_DELAYED_THRESHOLD_MS \<le> now"
  by (auto simp: delivery_progress_stalled_def Let_def split: if_splits)

lemma attention_none: "delivery_attention b d = None \<longleftrightarrow> b = None \<and> \<not> d"
  by (auto simp: delivery_attention_def split: option.splits core_delivery_blocked_reason.splits)

lemma blocked_needs_internet:
  "delivery_blocked_reason facts \<noteq> None \<Longrightarrow> delivery_blocked_reason facts \<noteq> Some BlockedMessageTooLarge \<Longrightarrow>
   \<not> df_direct_link facts \<and> df_contact_has_relay_endpoint facts"
  by (auto simp: delivery_blocked_reason_def split: if_splits)

lemma best_route_usable:
  "core_person_best_route link own endpoint resting \<noteq> RouteNoneNow \<longleftrightarrow> core_contact_route_usable (link \<noteq> None) own endpoint resting"
  by (auto simp: core_person_best_route_def core_contact_route_usable_def split: option.splits core_direct_link.splits)

lemma reported_line:
  assumes "classify_delivery facts = Some line"
  shows "dl_count line = df_waiting_count facts" "df_waiting_count facts \<noteq> 0"
    "dl_state line = Sending \<longleftrightarrow> core_contact_route_usable (df_direct_link facts) (df_own_relay_usable facts)
       (df_contact_has_relay_endpoint facts) (df_contact_endpoint_resting facts)"
    "dl_delayed line \<Longrightarrow> dl_state line = Sending \<and> df_unposted_waiting_count facts \<noteq> 0 \<and>
       delivery_progress_stalled (df_last_progress_ms facts) (df_oldest_waiting_ms facts) (df_now_ms facts)"
    "dl_blocked_reason line = delivery_blocked_reason facts"
    "dl_attention line = delivery_attention (dl_blocked_reason line) (dl_delayed line)"
  using assms by (auto simp: classify_delivery_def Let_def delivery_progress_possible_def split: if_splits)

section \<open>Properties\<close>

text \<open>
  Claim C36. The card is honest and never stays undecided. It shows Checking only within ten seconds of
  the start of a check and only while the service starts or nothing can carry a message yet; it asks for
  attention exactly when nothing can carry a message and no check is open; a reason is given exactly
  for a phone that is limited or needs attention, and an action never without a reason. Shore Pass counts
  as usable only on a running phone with validated internet.
\<close>

theorem connection_card_honest:
  "let r = core_classify_connection_health input in
   (hr_state r = HealthChecking) = undecided input \<and>
   (hr_state r = HealthNeedsAttention) = (\<not> undecided input \<and> \<not> path_usable input) \<and>
   (hr_reason r = None) = (hr_state r = HealthChecking \<or> hr_state r = HealthReady) \<and>
   (hr_reason r = None \<longrightarrow> hr_action r = None) \<and>
   (hr_state r = HealthChecking \<longrightarrow> hi_now_ms input < hi_checking_since_ms input + CONNECTION_CHECKING_TIMEOUT_MS) \<and>
   (ev_own_relay_usable (hr_evidence r) \<longrightarrow> hi_validated_internet input \<and> hi_runtime input \<noteq> MeshStopped)"
proof -
  let ?r = "core_classify_connection_health input"
  let ?raw = "raw_reason (hi_runtime input) (input_bluetooth_off input) (input_relay input) (path_usable input)"
  have form: "hr_state ?r = (if undecided input then HealthChecking else if \<not> path_usable input then HealthNeedsAttention
      else if input_bluetooth_off input \<or> relay_is_degraded (input_relay input) then HealthLimited else HealthReady)"
    "(hr_reason ?r, hr_action ?r) = (if hr_state ?r \<in> {HealthChecking, HealthReady} then (None, None) else ?raw)"
    using health_form [of input] by (simp_all add: Let_def)
  have relay: "ev_own_relay_usable (hr_evidence ?r) \<Longrightarrow> hi_validated_internet input \<and> hi_runtime input \<noteq> MeshStopped"
    by (simp add: core_classify_connection_health_def Let_def split_beta can_deliver_input split: if_splits)
  have raw: "hr_state ?r \<notin> {HealthChecking, HealthReady} \<Longrightarrow> fst ?raw \<noteq> None"
    unfolding raw_reason_some using form(1) by (simp split: if_splits)
  have fields: "hr_reason ?r = (if hr_state ?r \<in> {HealthChecking, HealthReady} then None else fst ?raw)"
      "hr_action ?r = (if hr_state ?r \<in> {HealthChecking, HealthReady} then None else snd ?raw)"
    using arg_cong [OF form(2), of fst] arg_cong [OF form(2), of snd] by (simp_all split: if_splits)
  have window: "undecided input \<Longrightarrow> hi_now_ms input < hi_checking_since_ms input + CONNECTION_CHECKING_TIMEOUT_MS"
    by (simp add: undecided_def check_window_def)
  have reason: "(hr_reason ?r = None) = (hr_state ?r = HealthChecking \<or> hr_state ?r = HealthReady)" "hr_reason ?r = None \<Longrightarrow> hr_action ?r = None"
    using raw fields by (auto split: if_splits)
  show ?thesis unfolding Let_def using form(1) relay reason window by (auto split: if_splits)
qed

text \<open>
  Everybody who is not blocked has exactly one line, in the group their own evidence calls for:
  people with a fault need attention, whatever their links; of the others those with a direct link, or seen
  within the last 150 seconds while this phone can post, are reachable now; the rest are the other
  people. A line shows the person's fault, and as reach their direct link, or else their presence. People who
  need attention come in order of severity, and the page does not depend on the order people are handed
  over in.
\<close>

theorem people_grouped:
  assumes "mset people' = mset people" "distinct (map ph_user_id people)"
  shows "let g = core_group_people lower people own now in
    core_group_people lower people' own now = g \<and>
    lines_of own now (\<lambda>p. \<not> ph_blocked p \<and> ph_attention p \<noteq> None) people (pg_needs_attention g) \<and>
    lines_of own now (\<lambda>p. \<not> ph_blocked p \<and> ph_attention p = None \<and> (ph_direct_link p \<noteq> None \<or> seen_lately own now p))
      people (pg_reachable_now g) \<and>
    lines_of own now (\<lambda>p. \<not> ph_blocked p \<and> ph_attention p = None \<and> ph_direct_link p = None \<and> \<not> seen_lately own now p)
      people (pg_other_people g) \<and>
    sorted_wrt (\<lambda>p q. placement_rank q \<le> placement_rank p) (pg_needs_attention g)"
  unfolding Let_def
proof (intro conjI groups_perm [OF assms] groups_by_severity)
  show "lines_of own now (\<lambda>p. \<not> ph_blocked p \<and> ph_attention p \<noteq> None) people (pg_needs_attention (core_group_people lower people own now))"
    "lines_of own now (\<lambda>p. \<not> ph_blocked p \<and> ph_attention p = None \<and> (ph_direct_link p \<noteq> None \<or> seen_lately own now p))
      people (pg_reachable_now (core_group_people lower people own now))"
    "lines_of own now (\<lambda>p. \<not> ph_blocked p \<and> ph_attention p = None \<and> ph_direct_link p = None \<and> \<not> seen_lately own now p)
      people (pg_other_people (core_group_people lower people own now))"
    unfolding core_group_people_def Let_def core_people_groups.simps
    by (rule placed_lines; simp add: place_group_input)+
qed

text \<open>
  Claim C37. Age alone is never a fault. Mail waiting for a person is called delayed only while a route
  to them is usable, this phone still has some of it to hand over and nothing has moved for ten minutes;
  a fault is named only for oversized mail, or when the internet is their only route, which a direct link
  or a card without endpoint rules out; they need attention exactly for such a fault or delay; and the
  line says Sending exactly when the route shown for the person is not empty.
\<close>

theorem waiting_mail_judged:
  assumes "core_classify_recipient_delivery input = Some line" "ri_direct_link input = (link \<noteq> None)"
  shows "dl_count line = ri_waiting_count input \<and> ri_waiting_count input \<noteq> 0 \<and>
    (dl_delayed line \<longrightarrow> dl_state line = Sending \<and> ri_unposted_waiting_count input \<noteq> 0 \<and>
       ri_oldest_waiting_ms input + RELAY_DELIVERY_DELAYED_THRESHOLD_MS \<le> ri_now_ms input \<and>
       ri_last_progress_ms input + RELAY_DELIVERY_DELAYED_THRESHOLD_MS \<le> ri_now_ms input) \<and>
    (dl_blocked_reason line \<noteq> None \<and> dl_blocked_reason line \<noteq> Some BlockedMessageTooLarge \<longrightarrow>
       link = None \<and> ri_contact_has_relay_endpoint input) \<and>
    (dl_attention line = None) = (dl_blocked_reason line = None \<and> \<not> dl_delayed line) \<and>
    (dl_state line = Sending) =
      (core_person_best_route link (ri_own_relay_usable input) (ri_contact_has_relay_endpoint input) (input_resting input) \<noteq> RouteNoneNow)"
proof -
  define facts where "facts = \<lparr>df_waiting_count = ri_waiting_count input, df_unposted_waiting_count = ri_unposted_waiting_count input,
        df_oldest_waiting_ms = ri_oldest_waiting_ms input, df_last_progress_ms = ri_last_progress_ms input,
        df_oversized_waiting = ri_oversized_waiting input, df_contact_endpoint_resting = input_resting input,
        df_contact_setup_actionable = (core_contact_relay_is_stale (ri_relay_reject_streak input) \<or>
          core_contact_relay_unreachable_is_stale (ri_relay_unreachable_streak input)),
        df_relay = ri_relay input, df_own_relay_usable = ri_own_relay_usable input,
        df_contact_has_relay_endpoint = ri_contact_has_relay_endpoint input, df_direct_link = ri_direct_link input,
        df_now_ms = ri_now_ms input\<rparr>"
  from assms(1) have c: "classify_delivery facts = Some line" by (simp add: core_classify_recipient_delivery_def facts_def)
  from reported_line [OF c] show ?thesis
    using assms(2) best_route_usable [of link] blocked_needs_internet [of facts] stalled_since attention_none
    by (auto simp: facts_def)
qed

section \<open>Witnesses\<close>

definition demo_input :: core_connection_health_input where
  "demo_input = \<lparr>hi_runtime = MeshActive, hi_bluetooth = PathOff, hi_bluetooth_links = 0, hi_local_wifi = PathOff,
     hi_local_wifi_links = 0, hi_relay = RelayConnected, hi_validated_internet = True, hi_nearby_friend_count = 0,
     hi_checking_since_ms = 0, hi_now_ms = 1000\<rparr>"

theorem connection_card_honest_witness:
  "hr_state (core_classify_connection_health demo_input) = HealthLimited \<and>
   hr_reason (core_classify_connection_health demo_input) = Some ReasonBluetoothOff \<and>
   hi_validated_internet demo_input"
proof -
  have "\<not> undecided demo_input" "path_usable demo_input"
    by (simp_all add: demo_input_def undecided_def check_window_def path_usable_def)
  with connection_card_honest [of demo_input] have "hr_state (core_classify_connection_health demo_input) \<noteq> HealthNeedsAttention"
    by (simp add: Let_def)
  moreover have "hr_reason (core_classify_connection_health demo_input) = Some ReasonBluetoothOff"
    "hr_state (core_classify_connection_health demo_input) = HealthLimited"
    by (simp_all add: core_classify_connection_health_def demo_input_def Let_def core_connection_checking_expired_def
        normalized_relay_def reason_and_action_def)
  ultimately show ?thesis by (simp add: demo_input_def)
qed

definition demo_person :: "u8 \<Rightarrow> core_person_attention option \<Rightarrow> core_person_health_input" where
  "demo_person n a = \<lparr>ph_user_id = [n], ph_display_name = [n], ph_blocked = False, ph_direct_link = None,
     ph_presence_last_seen_ms = 0, ph_last_seen_ms = 5, ph_attention = a, ph_attention_since_ms = 0\<rparr>"

theorem people_grouped_witness:
  "core_group_people id [demo_person 2 (Some AttentionDelayed), demo_person 1 None] True 9 =
   core_group_people id [demo_person 1 None, demo_person 2 (Some AttentionDelayed)] True 9"
  using people_grouped [of "[demo_person 2 (Some AttentionDelayed), demo_person 1 None]"
      "[demo_person 1 None, demo_person 2 (Some AttentionDelayed)]" id True 9]
  by (simp add: demo_person_def Let_def)

definition demo_waiting :: core_recipient_delivery_input where
  "demo_waiting = \<lparr>ri_waiting_count = 2, ri_unposted_waiting_count = 1, ri_oldest_waiting_ms = 1000, ri_last_progress_ms = 2000,
     ri_oversized_waiting = False, ri_relay_reject_streak = 0, ri_relay_rejected_at_ms = 0, ri_relay_unreachable_streak = 0,
     ri_relay_unreachable_at_ms = 0, ri_relay = RelayConnected, ri_own_relay_usable = True, ri_contact_has_relay_endpoint = True,
     ri_direct_link = False, ri_now_ms = 602000\<rparr>"

lemmas delivery_eval = core_classify_recipient_delivery_def classify_delivery_def input_resting_def core_contact_endpoint_resting_def
  core_contact_relay_endpoint_usable_def core_contact_relay_unreachable_endpoint_usable_def core_contact_relay_is_stale_def
  core_contact_relay_unreachable_is_stale_def contact_relay_consts core_contact_route_usable_def delivery_progress_possible_def
  delivery_progress_stalled_def delivery_blocked_reason_def delivery_attention_def RELAY_DELIVERY_DELAYED_THRESHOLD_MS_def

theorem waiting_mail_judged_witness:
  "\<exists>line. core_classify_recipient_delivery demo_waiting = Some line \<and> dl_delayed line \<and>
     ri_unposted_waiting_count demo_waiting \<noteq> 0 \<and>
     core_person_best_route None True True (input_resting demo_waiting) = RouteShorePass"
proof -
  obtain line where line: "core_classify_recipient_delivery demo_waiting = Some line" "dl_delayed line"
    by (simp add: delivery_eval demo_waiting_def Let_def)
  have "ri_direct_link demo_waiting = ((None :: core_direct_link option) \<noteq> None)" by (simp add: demo_waiting_def)
  from waiting_mail_judged [OF line(1) this] line show ?thesis
    by (auto simp: core_person_best_route_def demo_waiting_def split: if_splits)
qed

text \<open>
  Through the entry point without ages an expired pass still makes the classifier name a blocking fault;
  only the projection to the movement state keeps it from the caller.
\<close>

theorem line_entry_hides_fault:
  "\<exists>input line. classify_delivery (line_facts input) = Some line \<and> dl_blocked_reason line = Some BlockedPassExpired \<and>
     core_classify_delivery_line input = Some (dl_state line)"
  by (intro exI [of _ "\<lparr>li_queued = 1, li_relay = RelayPassExpired, li_own_relay_usable = False, li_contact_has_relay_endpoint = True,
       li_contact_relay_stale = False, li_direct_link = False, li_delivery_receipt_is_newest_evidence = False\<rparr>"])
    (simp add: delivery_eval line_facts_def core_classify_delivery_line_def core_relay_queue_reflects_delivery_def Let_def)

end
