(* ===== verification/Outbound_Queue.thy ===== *)
theory Outbound_Queue
  imports Timeline Group_State Contact_Relay Connection_Health
begin

text \<open>
  The tables behind sending (\<open>core/src/store.rs\<close>) and the rules by which a queued envelope leaves
  (\<open>core/src/outbound_retirement.rs\<close>): coverage by a delivered receipt, supersession by a newer snapshot,
  expiry. Also what the relay uploader draws, and the delivery state the connection page reads. A table is
  the list of its rows in insertion order; a statement that fails leaves the tables as they were. The
  diagnostic records the code writes beside these steps are left out. The lemmas say that the
  draw is fair between recipients; \<open>Authoring\<close> says what a queued message can be removed for.
\<close>

section \<open>Tables\<close>

text \<open>\<open>as i64\<close> and \<open>as u64\<close> of the code, between the API's unsigned counters and SQLite's integers.\<close>

definition as_i64 :: "u64 \<Rightarrow> i64" where "as_i64 w = sint w"
definition as_u64 :: "i64 \<Rightarrow> u64" where "as_u64 v = word_of_int v"

record message_row =
  mr_chat_id :: bytes
  mr_sender_user_id :: bytes
  mr_sender_device_id :: bytes
  mr_lamport :: i64
  mr_timestamp :: i64
  mr_kind :: u8
  mr_payload :: bytes
  mr_msg_id :: "bytes option"
  mr_reply_to_msg_id :: "bytes option"

record receipt_row =
  rr_chat_id :: bytes
  rr_sender_user_id :: bytes
  rr_receipt_type :: u8
  rr_through_lamport :: i64
  rr_via_transport :: "u8 option"

record watermark_row =
  wr_chat_id :: bytes
  wr_sender_user_id :: bytes
  wr_high_lamport :: i64

record outbound_row =
  or_dedupe_key :: bytes
  or_msg_id :: bytes
  or_recipient_user_id :: bytes
  or_chat_id :: bytes
  or_sender_user_id :: bytes
  or_kind :: u8
  or_lamport :: i64
  or_timestamp :: i64
  or_hop_ttl :: u8
  or_expiry :: i64
  or_recipient_hint :: bytes
  or_sealed :: bytes
  or_queued_at :: i64
  or_relay_posted_at :: "i64 option"

record outgoing_receipt_row =
  og_chat_id :: bytes
  og_sender_user_id :: bytes
  og_receipt_type :: u8
  og_through_lamport :: i64

record receipt_envelope_row =
  re_chat_id :: bytes
  re_sender_user_id :: bytes
  re_receipt_type :: u8
  re_through_lamport :: i64
  re_msg_id :: bytes
  re_recipient_user_id :: bytes
  re_timestamp :: i64
  re_hop_ttl :: u8
  re_expiry :: i64
  re_recipient_hint :: bytes
  re_sealed :: bytes
  re_queued_at :: i64
  re_relay_posted_at :: "i64 option"

record group_row =
  gw_group_id :: bytes
  gw_name :: utf8
  gw_group_key :: bytes
  gw_metadata_revision :: i64
  gw_metadata_changed_by :: bytes

record group_member_row =
  gm_group_id :: bytes
  gm_user_id :: bytes
  gm_added_at_ms :: i64

record setting_row =
  ss_key :: utf8
  ss_value :: bytes
  ss_epoch :: i64
  ss_author_device_id :: bytes

datatype peer_connection_transport = ViaBluetooth | ViaLocalWifi | ViaShorePass | ViaCarried

datatype peer_connection_event_kind = Connected | Disconnected | PresenceSeen | MessageDelivered | MessageReceived

record peer_event_row =
  pv_user_id :: bytes
  pv_transport :: peer_connection_transport
  pv_kind :: peer_connection_event_kind
  pv_occurred_at_ms :: i64

record peer_summary_row =
  ps_user_id :: bytes
  ps_transport :: peer_connection_transport
  ps_last_connected_at_ms :: "i64 option"
  ps_last_disconnected_at_ms :: "i64 option"
  ps_last_seen_at_ms :: "i64 option"
  ps_last_delivered_at_ms :: "i64 option"
  ps_last_received_at_ms :: "i64 option"

datatype core_link_activation_stage = NotLinking | AwaitingBootstrap | AwaitingRosterAck | Activated | Revoked

record outbox =
  ob_contacts :: "contact_entry list"
  ob_blocked :: "bytes list"
  ob_introduced :: "bytes list"
  ob_groups :: "group_row list"
  ob_members :: "group_member_row list"
  ob_messages :: "message_row list"
  ob_receipts :: "receipt_row list"
  ob_watermarks :: "watermark_row list"
  ob_outbound :: "outbound_row list"
  ob_outgoing :: "outgoing_receipt_row list"
  ob_receipt_envelopes :: "receipt_envelope_row list"
  ob_settings :: "setting_row list"
  ob_events :: "peer_event_row list"
  ob_summaries :: "peer_summary_row list"
  ob_own_device :: "bytes option"
  ob_stage :: core_link_activation_stage

record outbound_envelope =
  oe_msg_id :: bytes
  oe_recipient_user_id :: bytes
  oe_chat_id :: bytes
  oe_sender_user_id :: bytes
  oe_kind :: u8
  oe_lamport :: u64
  oe_timestamp :: i64
  oe_hop_ttl :: u8
  oe_expiry :: i64
  oe_recipient_hint :: bytes
  oe_sealed :: bytes

record outgoing_receipt_envelope =
  oge_msg_id :: bytes
  oge_recipient_user_id :: bytes
  oge_chat_id :: bytes
  oge_sender_user_id :: bytes
  oge_receipt_type :: u8
  oge_through_lamport :: u64
  oge_timestamp :: i64
  oge_hop_ttl :: u8
  oge_expiry :: i64
  oge_recipient_hint :: bytes
  oge_sealed :: bytes

definition row_to_outbound :: "outbound_row \<Rightarrow> outbound_envelope" where
  "row_to_outbound r = \<lparr>oe_msg_id = or_msg_id r, oe_recipient_user_id = or_recipient_user_id r, oe_chat_id = or_chat_id r,
     oe_sender_user_id = or_sender_user_id r, oe_kind = or_kind r, oe_lamport = as_u64 (or_lamport r),
     oe_timestamp = or_timestamp r, oe_hop_ttl = or_hop_ttl r, oe_expiry = or_expiry r,
     oe_recipient_hint = or_recipient_hint r, oe_sealed = or_sealed r\<rparr>"

definition row_to_outgoing_receipt :: "receipt_envelope_row \<Rightarrow> outgoing_receipt_envelope" where
  "row_to_outgoing_receipt r = \<lparr>oge_msg_id = re_msg_id r, oge_recipient_user_id = re_recipient_user_id r,
     oge_chat_id = re_chat_id r, oge_sender_user_id = re_sender_user_id r, oge_receipt_type = re_receipt_type r,
     oge_through_lamport = as_u64 (re_through_lamport r), oge_timestamp = re_timestamp r, oge_hop_ttl = re_hop_ttl r,
     oge_expiry = re_expiry r, oge_recipient_hint = re_recipient_hint r, oge_sealed = re_sealed r\<rparr>"

text \<open>\<open>MAX\<close> and \<open>MIN\<close> over a column, empty when no row matches; the scalar \<open>COALESCE(MAX(a, b), a, b)\<close>.\<close>

definition sql_max :: "i64 list \<Rightarrow> i64 option" where
  "sql_max xs = (case xs of [] \<Rightarrow> None | x # r \<Rightarrow> Some (fold max r x))"

definition sql_min :: "i64 list \<Rightarrow> i64 option" where
  "sql_min xs = (case xs of [] \<Rightarrow> None | x # r \<Rightarrow> Some (fold min r x))"

definition coalesce_i64 :: "i64 option \<Rightarrow> i64 \<Rightarrow> i64" where
  "coalesce_i64 x d = (case x of Some v \<Rightarrow> v | None \<Rightarrow> d)"

definition latest :: "i64 option \<Rightarrow> i64 option \<Rightarrow> i64 option" where
  "latest a b = (case (a, b) of (Some x, Some y) \<Rightarrow> Some (max x y) | (Some x, None) \<Rightarrow> Some x | (None, y) \<Rightarrow> y)"

definition is_contact :: "outbox \<Rightarrow> bytes \<Rightarrow> bool" where
  "is_contact ob u \<longleftrightarrow> (\<exists>c \<in> set (ob_contacts ob). ce_user_id c = u)"

definition is_group :: "outbox \<Rightarrow> bytes \<Rightarrow> bool" where
  "is_group ob u \<longleftrightarrow> (\<exists>g \<in> set (ob_groups ob). gw_group_id g = u)"

definition has_message :: "outbox \<Rightarrow> bytes \<Rightarrow> bytes \<Rightarrow> i64 \<Rightarrow> bool" where
  "has_message ob chat sender lamport \<longleftrightarrow>
     (\<exists>m \<in> set (ob_messages ob). mr_chat_id m = chat \<and> mr_sender_user_id m = sender \<and> mr_lamport m = lamport)"

definition receipt_is :: "bytes \<Rightarrow> bytes \<Rightarrow> u8 \<Rightarrow> receipt_row \<Rightarrow> bool" where
  "receipt_is chat sender t r \<longleftrightarrow> rr_chat_id r = chat \<and> rr_sender_user_id r = sender \<and> rr_receipt_type r = t"

section \<open>The gate of a device being linked\<close>

datatype core_link_gated_action = Advertise | Author | Ack

datatype core_link_gate_reason = NeverLinked | LinkActivated | BootstrapPending | RosterAckPending | DeviceRevoked

record core_link_gate_verdict =
  gv_allowed :: bool
  gv_stage :: core_link_activation_stage
  gv_action :: core_link_gated_action
  gv_reason :: core_link_gate_reason

definition core_link_activation_gate :: "core_link_activation_stage \<Rightarrow> core_link_gated_action \<Rightarrow> core_link_gate_verdict" where
  "core_link_activation_gate stage action =
     (let (allowed, reason) =
        (case stage of
           NotLinking \<Rightarrow> (True, NeverLinked)
         | Activated \<Rightarrow> (True, LinkActivated)
         | AwaitingBootstrap \<Rightarrow> (False, BootstrapPending)
         | AwaitingRosterAck \<Rightarrow> (False, RosterAckPending)
         | Revoked \<Rightarrow> (False, DeviceRevoked))
      in \<lparr>gv_allowed = allowed, gv_stage = stage, gv_action = action, gv_reason = reason\<rparr>)"

definition reason_debug :: "core_link_gate_reason \<Rightarrow> string" where
  "reason_debug r =
     (case r of NeverLinked \<Rightarrow> ''NeverLinked'' | LinkActivated \<Rightarrow> ''Activated'' | BootstrapPending \<Rightarrow> ''BootstrapPending''
      | RosterAckPending \<Rightarrow> ''RosterAckPending'' | DeviceRevoked \<Rightarrow> ''DeviceRevoked'')"

definition gate_refusal :: "core_link_gate_verdict \<Rightarrow> core_error" where
  "gate_refusal v =
     (let action = (case gv_action v of Advertise \<Rightarrow> ''appear on the mesh'' | Author \<Rightarrow> ''send'' | Ack \<Rightarrow> ''acknowledge mail'') in
      if gv_stage v = Revoked
      then Store (''this device was removed from its person's devices and cannot '' @ action @ '' ('' @ reason_debug (gv_reason v) @ '')'')
      else Store (''this device is still being set up and cannot '' @ action @ '' yet ('' @ reason_debug (gv_reason v) @ '')''))"

definition link_gate :: "outbox \<Rightarrow> core_link_gated_action \<Rightarrow> core_link_gate_verdict" where
  "link_gate ob action = core_link_activation_gate (ob_stage ob) action"

definition guard_link_gate :: "outbox \<Rightarrow> core_link_gated_action \<Rightarrow> unit result" where
  "guard_link_gate ob action =
     (let verdict = link_gate ob action in if gv_allowed verdict then Inr () else Inl (gate_refusal verdict))"

definition link_gate_allows :: "outbox \<Rightarrow> core_link_gated_action \<Rightarrow> bool" where
  "link_gate_allows ob action = gv_allowed (link_gate ob action)"

section \<open>Retirement\<close>

definition LAN_ENDPOINT_HINT_EXPIRY_MS :: i64 where "LAN_ENDPOINT_HINT_EXPIRY_MS = 30 * 60 * 1000"

definition authored_delivery_lifetime_ms :: "u8 \<Rightarrow> i64" where
  "authored_delivery_lifetime_ms kind =
     (if kind = KIND_LAN_ENDPOINT_HINT then LAN_ENDPOINT_HINT_EXPIRY_MS else DEFAULT_EXPIRY_MS)"

definition authored_expiry :: "u8 \<Rightarrow> i64 \<Rightarrow> i64" where
  "authored_expiry kind routing_timestamp_ms = i64_add routing_timestamp_ms (authored_delivery_lifetime_ms kind)"

definition supersedes_queued_generations :: "u8 \<Rightarrow> bool" where
  "supersedes_queued_generations kind \<longleftrightarrow>
     kind \<in> {KIND_PROFILE_SYNC, KIND_FRIEND_DIRECTORY, KIND_LAN_ENDPOINT_HINT, KIND_RELAY_UPDATE, KIND_SYNC_DIGEST,
             KIND_ROSTER_GOSSIP}"

definition covered_by_delivered_watermark :: "u64 \<Rightarrow> u64 \<Rightarrow> bool" where
  "covered_by_delivered_watermark lamport delivered_through \<longleftrightarrow> delivered_through > 0 \<and> lamport \<le> delivered_through"

text \<open>The \<open>WHERE\<close> clauses of the three statements, as tests of a row.\<close>

definition retire_covered_sql :: "outbox \<Rightarrow> bytes \<Rightarrow> bytes \<Rightarrow> i64 \<Rightarrow> outbound_row \<Rightarrow> bool" where
  "retire_covered_sql ob chat sender through r \<longleftrightarrow>
     or_recipient_user_id r = chat \<and> or_chat_id r = chat \<and> or_sender_user_id r = sender \<and> or_lamport r \<le> through \<and>
     or_relay_posted_at r \<noteq> None \<and> is_contact ob chat \<and> \<not> is_group ob chat \<and>
     has_message ob (or_chat_id r) (or_sender_user_id r) (or_lamport r)"

definition covered_awaiting_relay_sql :: "outbox \<Rightarrow> outbound_row \<Rightarrow> bool" where
  "covered_awaiting_relay_sql ob r \<longleftrightarrow>
     or_recipient_user_id r = or_chat_id r \<and>
     (\<exists>rc \<in> set (ob_receipts ob). receipt_is (or_chat_id r) (or_sender_user_id r) 1 rc \<and> or_lamport r \<le> rr_through_lamport rc) \<and>
     is_contact ob (or_chat_id r) \<and> \<not> is_group ob (or_chat_id r) \<and>
     has_message ob (or_chat_id r) (or_sender_user_id r) (or_lamport r)"

definition retire_superseded_sql :: "outbox \<Rightarrow> bytes \<Rightarrow> bytes \<Rightarrow> u8 \<Rightarrow> i64 \<Rightarrow> outbound_row \<Rightarrow> bool" where
  "retire_superseded_sql ob recipient sender kind lamport r \<longleftrightarrow>
     or_recipient_user_id r = recipient \<and> or_chat_id r = recipient \<and> or_sender_user_id r = sender \<and> or_kind r = kind \<and>
     or_lamport r < lamport \<and> \<not> is_group ob recipient"

definition delete_outbound :: "(outbound_row \<Rightarrow> bool) \<Rightarrow> outbox \<Rightarrow> outbox \<times> nat" where
  "delete_outbound P ob =
     (ob\<lparr>ob_outbound := filter (\<lambda>r. \<not> P r) (ob_outbound ob)\<rparr>, length (filter P (ob_outbound ob)))"

definition retire_receipt_covered :: "outbox \<Rightarrow> bytes \<Rightarrow> bytes \<Rightarrow> u64 \<Rightarrow> outbox \<times> nat" where
  "retire_receipt_covered ob chat_id sender_user_id through_lamport =
     (if through_lamport = 0 then (ob, 0)
      else delete_outbound (retire_covered_sql ob chat_id sender_user_id (as_i64 through_lamport)) ob)"

definition stored_through :: "outbox \<Rightarrow> bytes \<Rightarrow> bytes \<Rightarrow> u8 \<Rightarrow> i64 option" where
  "stored_through ob chat sender t = map_option rr_through_lamport (List.find (receipt_is chat sender t) (ob_receipts ob))"

definition delivered_watermark :: "outbox \<Rightarrow> bytes \<Rightarrow> bytes \<Rightarrow> u64" where
  "delivered_watermark ob chat_id sender_user_id =
     as_u64 (max (coalesce_i64 (stored_through ob chat_id sender_user_id RECEIPT_TYPE_DELIVERED) 0) 0)"

definition retire_covered_after_relay_post :: "outbox \<Rightarrow> bytes \<Rightarrow> outbox \<times> nat" where
  "retire_covered_after_relay_post ob msg_id =
     (case List.find (\<lambda>r. or_msg_id r = msg_id \<and> or_recipient_user_id r = or_chat_id r \<and> is_contact ob (or_chat_id r))
             (ob_outbound ob) of
        None \<Rightarrow> (ob, 0)
      | Some r \<Rightarrow>
          retire_receipt_covered ob (or_chat_id r) (or_sender_user_id r)
            (delivered_watermark ob (or_chat_id r) (or_sender_user_id r)))"

definition retire_superseded :: "outbox \<Rightarrow> bytes \<Rightarrow> bytes \<Rightarrow> bytes \<Rightarrow> u8 \<Rightarrow> u64 \<Rightarrow> outbox \<times> nat" where
  "retire_superseded ob recipient_user_id chat_id sender_user_id kind lamport =
     (if \<not> supersedes_queued_generations kind \<or> recipient_user_id \<noteq> chat_id then (ob, 0)
      else delete_outbound (retire_superseded_sql ob recipient_user_id sender_user_id kind (as_i64 lamport)) ob)"

definition backfill_rejoins_the_queue :: "outbox \<Rightarrow> outbound_envelope \<Rightarrow> bool" where
  "backfill_rejoins_the_queue ob envelope \<longleftrightarrow>
     \<not> supersedes_queued_generations (oe_kind envelope) \<and>
     \<not> covered_by_delivered_watermark (oe_lamport envelope)
         (delivered_watermark ob (oe_chat_id envelope) (oe_sender_user_id envelope))"

definition sweep_receipt_covered :: "outbox \<Rightarrow> outbox \<times> nat" where
  "sweep_receipt_covered ob =
     foldl (\<lambda>(acc, removed) rc.
         if rr_through_lamport rc \<le> 0 then (acc, removed)
         else let (acc', n) = retire_receipt_covered acc (rr_chat_id rc) (rr_sender_user_id rc) (as_u64 (rr_through_lamport rc))
              in (acc', removed + n))
       (ob, 0)
       (filter (\<lambda>rc. rr_receipt_type rc = RECEIPT_TYPE_DELIVERED \<and> rr_through_lamport rc > 0) (ob_receipts ob))"

section \<open>Posting, expiry and what the uploader draws\<close>

definition mark_outbound_envelope_relay_posted :: "outbox \<Rightarrow> bytes \<Rightarrow> i64 \<Rightarrow> outbox \<times> bool" where
  "mark_outbound_envelope_relay_posted ob msg_id posted_at_ms =
     (let changed = (\<exists>r \<in> set (ob_outbound ob). or_msg_id r = msg_id);
          marked = ob\<lparr>ob_outbound := map (\<lambda>r. if or_msg_id r = msg_id then r\<lparr>or_relay_posted_at := Some posted_at_ms\<rparr> else r)
                                       (ob_outbound ob)\<rparr> in
      (if changed then fst (retire_covered_after_relay_post marked msg_id) else marked, changed))"

definition prune_expired_outbound_envelopes :: "outbox \<Rightarrow> i64 \<Rightarrow> outbox \<times> nat" where
  "prune_expired_outbound_envelopes ob now_ms = delete_outbound (\<lambda>r. or_expiry r \<le> now_ms) ob"

text \<open>\<open>ROW_NUMBER() OVER (PARTITION BY p ORDER BY k)\<close>; keys are unique, so a row's number counts the smaller ones.\<close>

definition row_number :: "('r \<Rightarrow> 'p) \<Rightarrow> ('r \<Rightarrow> 'k :: linorder) \<Rightarrow> 'r list \<Rightarrow> 'r \<Rightarrow> nat" where
  "row_number p k rows r = Suc (length (filter (\<lambda>q. p q = p r \<and> k q < k r) rows))"

definition round_robin :: "('r \<Rightarrow> 'p) \<Rightarrow> ('r \<Rightarrow> 'k :: linorder) \<Rightarrow> ('r \<Rightarrow> 'o :: linorder) \<Rightarrow> 'r list \<Rightarrow> 'r list" where
  "round_robin p k age rows = sort_key (\<lambda>r. (row_number p k rows r, age r)) rows"

definition sql_limit :: "u64 \<Rightarrow> 'r list \<Rightarrow> 'r list" where
  "sql_limit limit rows = (if as_i64 limit < 0 then rows else take (nat (as_i64 limit)) rows)"

definition relay_candidates :: "outbox \<Rightarrow> i64 \<Rightarrow> bytes list \<Rightarrow> outbound_row list" where
  "relay_candidates ob now_ms skip =
     filter (\<lambda>r. or_relay_posted_at r = None \<and> or_expiry r > now_ms \<and> or_recipient_user_id r \<notin> set skip) (ob_outbound ob)"

definition draw_key :: "outbox \<Rightarrow> outbound_row \<Rightarrow> bool \<times> i64 \<times> bytes" where
  "draw_key ob r = (covered_awaiting_relay_sql ob r, or_queued_at r, or_msg_id r)"

definition outbound_draw :: "outbox \<Rightarrow> u64 \<Rightarrow> i64 \<Rightarrow> bytes list \<Rightarrow> outbound_row list" where
  "outbound_draw ob limit now_ms skip =
     sql_limit limit (round_robin or_recipient_user_id (draw_key ob) (\<lambda>r. (or_queued_at r, or_msg_id r))
       (relay_candidates ob now_ms skip))"

definition pending_relay_outbound_envelopes :: "outbox \<Rightarrow> u64 \<Rightarrow> i64 \<Rightarrow> bytes list \<Rightarrow> outbound_envelope list" where
  "pending_relay_outbound_envelopes ob limit now_ms skip_recipient_user_ids =
     (if \<not> link_gate_allows ob Advertise then []
      else map row_to_outbound (outbound_draw ob limit now_ms skip_recipient_user_ids))"

definition receipt_candidates :: "outbox \<Rightarrow> i64 \<Rightarrow> bytes list \<Rightarrow> receipt_envelope_row list" where
  "receipt_candidates ob now_ms skip =
     filter (\<lambda>r. re_relay_posted_at r = None \<and> re_expiry r > now_ms \<and> re_recipient_user_id r \<notin> set skip)
       (ob_receipt_envelopes ob)"

definition receipt_draw :: "outbox \<Rightarrow> u64 \<Rightarrow> i64 \<Rightarrow> bytes list \<Rightarrow> receipt_envelope_row list" where
  "receipt_draw ob limit now_ms skip =
     sql_limit limit (round_robin re_recipient_user_id (\<lambda>r. (re_queued_at r, re_msg_id r)) (\<lambda>r. (re_queued_at r, re_msg_id r))
       (receipt_candidates ob now_ms skip))"

definition pending_relay_outgoing_receipt_envelopes :: "outbox \<Rightarrow> u64 \<Rightarrow> i64 \<Rightarrow> bytes list \<Rightarrow> outgoing_receipt_envelope list" where
  "pending_relay_outgoing_receipt_envelopes ob limit now_ms skip_recipient_user_ids =
     map row_to_outgoing_receipt (receipt_draw ob limit now_ms skip_recipient_user_ids)"

definition mark_outgoing_receipt_envelope_relay_posted :: "outbox \<Rightarrow> bytes \<Rightarrow> i64 \<Rightarrow> outbox \<times> bool" where
  "mark_outgoing_receipt_envelope_relay_posted ob msg_id posted_at_ms =
     (ob\<lparr>ob_receipt_envelopes := map (\<lambda>r. if re_msg_id r = msg_id then r\<lparr>re_relay_posted_at := Some posted_at_ms\<rparr> else r)
            (ob_receipt_envelopes ob)\<rparr>,
      \<exists>r \<in> set (ob_receipt_envelopes ob). re_msg_id r = msg_id)"

definition prune_expired_outgoing_receipt_envelopes :: "outbox \<Rightarrow> i64 \<Rightarrow> outbox \<times> nat" where
  "prune_expired_outgoing_receipt_envelopes ob now_ms =
     (ob\<lparr>ob_receipt_envelopes := filter (\<lambda>r. \<not> re_expiry r \<le> now_ms) (ob_receipt_envelopes ob)\<rparr>,
      length (filter (\<lambda>r. re_expiry r \<le> now_ms) (ob_receipt_envelopes ob)))"

definition outbound_envelopes_after :: "outbox \<Rightarrow> bytes \<Rightarrow> bytes \<Rightarrow> u64 \<Rightarrow> outbound_envelope list" where
  "outbound_envelopes_after ob chat_id sender_user_id after_lamport =
     map row_to_outbound (sort_key or_lamport
       (filter (\<lambda>r. or_chat_id r = chat_id \<and> or_sender_user_id r = sender_user_id \<and> or_lamport r > as_i64 after_lamport)
         (ob_outbound ob)))"

text \<open>The walk stops at the first envelope that would overflow the budget.\<close>

fun take_budget :: "nat \<Rightarrow> nat \<Rightarrow> outbound_envelope list \<Rightarrow> outbound_envelope list \<times> bool" where
  "take_budget used budget [] = ([], False)"
| "take_budget used budget (e # es) =
     (if nat_sat_add used (length (oe_sealed e)) > budget then ([], True)
      else let (selected, exhausted) = take_budget (used + length (oe_sealed e)) budget es in (e # selected, exhausted))"

definition outbound_envelopes_after_budgeted ::
    "outbox \<Rightarrow> bytes \<Rightarrow> bytes \<Rightarrow> u64 \<Rightarrow> bytes set \<Rightarrow> i64 \<Rightarrow> u64 \<Rightarrow> outbound_envelope list \<times> bool" where
  "outbound_envelopes_after_budgeted ob chat_id sender_user_id after_lamport known_msg_ids now_ms budget_bytes =
     take_budget 0 (unat budget_bytes) (map row_to_outbound (sort_key or_lamport
       (filter (\<lambda>r. or_chat_id r = chat_id \<and> or_sender_user_id r = sender_user_id \<and> or_lamport r > as_i64 after_lamport \<and>
            or_expiry r > now_ms \<and> or_msg_id r \<notin> known_msg_ids) (ob_outbound ob))))"

definition pending_relay_outbound_depth_by_recipient :: "outbox \<Rightarrow> i64 \<Rightarrow> (bytes \<times> nat) list" where
  "pending_relay_outbound_depth_by_recipient ob now_ms =
     (let unposted = map or_recipient_user_id (relay_candidates ob now_ms []) in
      sort_key (\<lambda>(u, n). (- int n, u)) (map (\<lambda>u. (u, count_list unposted u)) (remdups unposted)))"

section \<open>Receipts from a peer\<close>

definition validate_sqlite_u64 :: "string \<Rightarrow> u64 \<Rightarrow> unit result" where
  "validate_sqlite_u64 field v =
     (if int (unat v) > i64_max then Inl (Malformed (field @ '' exceeds the supported range'')) else Inr ())"

definition validate_receipt_watermark :: "u8 \<Rightarrow> u64 \<Rightarrow> unit result" where
  "validate_receipt_watermark receipt_type through_lamport =
     (if receipt_type \<noteq> RECEIPT_TYPE_DELIVERED \<and> receipt_type \<noteq> RECEIPT_TYPE_READ
      then Inl (Malformed ''invalid receipt type'')
      else validate_sqlite_u64 ''receipt watermark'' through_lamport)"

definition core_is_visible_chat_kind :: "u8 \<Rightarrow> bool" where
  "core_is_visible_chat_kind kind \<longleftrightarrow> kind \<in> {KIND_TEXT, KIND_ATTACHMENT_MANIFEST, KIND_GROUP_INVITE}"

definition core_peer_transport_for_arrival :: "u8 \<Rightarrow> peer_connection_transport" where
  "core_peer_transport_for_arrival transport =
     (if transport = 0 then ViaBluetooth else if transport = 3 then ViaLocalWifi
      else if transport = 1 \<or> transport = 4 then ViaCarried else ViaShorePass)"

text \<open>One row of evidence: repeats within thirty seconds are dropped, thirty days and a thousand rows are kept.\<close>

definition recent_events :: "peer_event_row list \<Rightarrow> peer_event_row list" where
  "recent_events es =
     (let n = length es;
          newest = take 1000 (sort_key (\<lambda>i. (- pv_occurred_at_ms (es ! i), - int i)) [0..<n]) in
      map ((!) es) (filter (\<lambda>i. i \<in> set newest) [0..<n]))"

definition event_columns :: "bytes \<Rightarrow> peer_connection_transport \<Rightarrow> peer_connection_event_kind \<Rightarrow> i64 \<Rightarrow> peer_summary_row" where
  "event_columns user transport kind at = \<lparr>ps_user_id = user, ps_transport = transport,
     ps_last_connected_at_ms = (if kind = Connected then Some at else None),
     ps_last_disconnected_at_ms = (if kind = Disconnected then Some at else None),
     ps_last_seen_at_ms = (if kind = PresenceSeen then Some at else None),
     ps_last_delivered_at_ms = (if kind = MessageDelivered then Some at else None),
     ps_last_received_at_ms = (if kind = MessageReceived then Some at else None)\<rparr>"

definition merge_summary :: "peer_summary_row \<Rightarrow> peer_summary_row \<Rightarrow> peer_summary_row" where
  "merge_summary old new = old\<lparr>
     ps_last_connected_at_ms := latest (ps_last_connected_at_ms old) (ps_last_connected_at_ms new),
     ps_last_disconnected_at_ms := latest (ps_last_disconnected_at_ms old) (ps_last_disconnected_at_ms new),
     ps_last_seen_at_ms := latest (ps_last_seen_at_ms old) (ps_last_seen_at_ms new),
     ps_last_delivered_at_ms := latest (ps_last_delivered_at_ms old) (ps_last_delivered_at_ms new),
     ps_last_received_at_ms := latest (ps_last_received_at_ms old) (ps_last_received_at_ms new)\<rparr>"

definition record_peer_connection_event_tx ::
    "outbox \<Rightarrow> bytes \<Rightarrow> peer_connection_transport \<Rightarrow> peer_connection_event_kind \<Rightarrow> i64 \<Rightarrow> outbox" where
  "record_peer_connection_event_tx ob user_id transport kind occurred_at_ms =
     (let repeated = (\<exists>e \<in> set (ob_events ob). pv_user_id e = user_id \<and> pv_transport e = transport \<and> pv_kind e = kind \<and>
                        pv_occurred_at_ms e \<ge> occurred_at_ms - 30000);
          events = (if repeated then ob_events ob
                    else ob_events ob @ [\<lparr>pv_user_id = user_id, pv_transport = transport, pv_kind = kind,
                                          pv_occurred_at_ms = occurred_at_ms\<rparr>]);
          fresh = event_columns user_id transport kind occurred_at_ms;
          same = (\<lambda>s. ps_user_id s = user_id \<and> ps_transport s = transport);
          summaries = (if \<exists>s \<in> set (ob_summaries ob). same s
                       then map (\<lambda>s. if same s then merge_summary s fresh else s) (ob_summaries ob)
                       else ob_summaries ob @ [fresh]);
          kept = filter (\<lambda>e. \<not> pv_occurred_at_ms e < i64_sub occurred_at_ms (30 * 24 * 60 * 60 * 1000)) events in
      ob\<lparr>ob_events := recent_events kept, ob_summaries := summaries\<rparr>)"

definition receipt_newly_covers_visible_authored_message :: "outbox \<Rightarrow> bytes \<Rightarrow> bytes \<Rightarrow> u64 \<Rightarrow> u64 \<Rightarrow> bool" where
  "receipt_newly_covers_visible_authored_message ob chat_id sender_user_id previous_through effective_through \<longleftrightarrow>
     \<not> effective_through \<le> previous_through \<and>
     (\<exists>m \<in> set (ob_messages ob). mr_chat_id m = chat_id \<and> mr_sender_user_id m = sender_user_id \<and>
        mr_lamport m > as_i64 previous_through \<and> mr_lamport m \<le> as_i64 effective_through \<and>
        core_is_visible_chat_kind (mr_kind m))"

definition record_delivered_evidence :: "outbox \<Rightarrow> bytes \<Rightarrow> bytes \<Rightarrow> u64 \<Rightarrow> u64 \<Rightarrow> u8 option \<Rightarrow> i64 \<Rightarrow> outbox" where
  "record_delivered_evidence ob chat_id sender_user_id previous_through effective_through via_transport received_at_ms =
     (if received_at_ms < 0 then ob
      else if \<not> receipt_newly_covers_visible_authored_message ob chat_id sender_user_id previous_through effective_through then ob
      else if \<not> is_contact ob chat_id then ob
      else
        let transport = (case via_transport of Some v \<Rightarrow> core_peer_transport_for_arrival v | None \<Rightarrow> ViaCarried) in
        record_peer_connection_event_tx ob chat_id transport MessageDelivered received_at_ms)"

text \<open>The upsert of a receipt row: the watermark only climbs, and an unknown route never hides a known one.\<close>

definition upsert_receipt :: "receipt_row \<Rightarrow> receipt_row list \<Rightarrow> receipt_row list" where
  "upsert_receipt new rows =
     (let same = receipt_is (rr_chat_id new) (rr_sender_user_id new) (rr_receipt_type new) in
      if \<exists>r \<in> set rows. same r
      then map (\<lambda>r. if same r then
                  r\<lparr>rr_via_transport :=
                      (if rr_via_transport new \<noteq> None \<and>
                          (rr_through_lamport new > rr_through_lamport r \<or>
                           rr_through_lamport new = rr_through_lamport r \<and> rr_via_transport r = None)
                       then rr_via_transport new else rr_via_transport r),
                    rr_through_lamport := max (rr_through_lamport r) (rr_through_lamport new)\<rparr>
                else r) rows
      else rows @ [new])"

definition record_receipt :: "outbox \<Rightarrow> bytes \<Rightarrow> bytes \<Rightarrow> u8 \<Rightarrow> u64 \<Rightarrow> u8 option \<Rightarrow> i64 option \<Rightarrow> outbox result" where
  "record_receipt ob chat_id sender_user_id receipt_type through_lamport via_transport received_at_ms =
     and_then (validate_receipt_watermark receipt_type through_lamport) (\<lambda>_.
       let previous_through = coalesce_i64 (stored_through ob chat_id sender_user_id receipt_type) 0;
           ob1 = ob\<lparr>ob_receipts := upsert_receipt
                    \<lparr>rr_chat_id = chat_id, rr_sender_user_id = sender_user_id, rr_receipt_type = receipt_type,
                     rr_through_lamport = as_i64 through_lamport, rr_via_transport = via_transport\<rparr> (ob_receipts ob)\<rparr> in
       if receipt_type \<noteq> RECEIPT_TYPE_DELIVERED then Inr ob1
       else
         let effective = coalesce_i64 (stored_through ob1 chat_id sender_user_id receipt_type) 0;
             ob2 = fst (retire_receipt_covered ob1 chat_id sender_user_id (as_u64 (max effective 0))) in
         Inr (case received_at_ms of
                None \<Rightarrow> ob2
              | Some at \<Rightarrow>
                  record_delivered_evidence ob2 chat_id sender_user_id (as_u64 (max previous_through 0))
                    (as_u64 (max effective 0)) via_transport at))"

definition receipt_through :: "outbox \<Rightarrow> bytes \<Rightarrow> bytes \<Rightarrow> u8 \<Rightarrow> u64" where
  "receipt_through ob chat_id sender_user_id receipt_type =
     as_u64 (coalesce_i64 (stored_through ob chat_id sender_user_id receipt_type) 0)"

definition receipt_via_transport :: "outbox \<Rightarrow> bytes \<Rightarrow> bytes \<Rightarrow> u8 \<Rightarrow> u8 option" where
  "receipt_via_transport ob chat_id sender_user_id receipt_type =
     Option.bind (List.find (receipt_is chat_id sender_user_id receipt_type) (ob_receipts ob)) rr_via_transport"

section \<open>Delivery state of a person\<close>

record core_recipient_delivery_status =
  ds_recipient_user_id :: bytes
  ds_waiting_count :: nat
  ds_oldest_waiting_ms :: i64
  ds_last_progress_ms :: i64
  ds_unposted_waiting_count :: nat
  ds_oversized_waiting :: bool
  ds_relay_reject_streak :: i64
  ds_relay_rejected_at_ms :: i64
  ds_relay_unreachable_streak :: i64
  ds_relay_unreachable_at_ms :: i64

definition recipient_rows :: "outbox \<Rightarrow> bytes \<Rightarrow> i64 \<Rightarrow> outbound_row list" where
  "recipient_rows ob recipient through =
     filter (\<lambda>r. or_recipient_user_id r = recipient \<and> or_chat_id r = recipient \<and> or_lamport r > through) (ob_outbound ob)"

definition waiting_visible :: "i64 \<Rightarrow> outbound_row \<Rightarrow> bool" where
  "waiting_visible now_ms r \<longleftrightarrow> or_expiry r > now_ms \<and> core_is_visible_chat_kind (or_kind r)"

definition recipient_status :: "outbox \<Rightarrow> bytes \<Rightarrow> i64 \<Rightarrow> bytes \<Rightarrow> core_recipient_delivery_status" where
  "recipient_status ob own_user_id now_ms recipient =
     (let through = coalesce_i64 (stored_through ob recipient own_user_id RECEIPT_TYPE_DELIVERED) 0;
          rows = recipient_rows ob recipient through;
          visible = filter (waiting_visible now_ms) rows;
          last_upload_ms = coalesce_i64 (sql_max (List.map_filter or_relay_posted_at rows)) 0;
          last_delivered_ms = coalesce_i64 (sql_max (List.map_filter ps_last_delivered_at_ms
                                 (filter (\<lambda>s. ps_user_id s = recipient) (ob_summaries ob)))) 0;
          (reject_streak, rejected_at, unreachable_streak, unreachable_at) =
            (case List.find (\<lambda>c. ce_user_id c = recipient) (ob_contacts ob) of
               Some c \<Rightarrow> (ce_reject_streak c, ce_rejected_at c, ce_unreachable_streak c, ce_unreachable_at c)
             | None \<Rightarrow> (0, 0, 0, 0)) in
      \<lparr>ds_recipient_user_id = recipient, ds_waiting_count = length visible,
       ds_oldest_waiting_ms = max (coalesce_i64 (sql_min (map or_queued_at visible)) 0) 0,
       ds_last_progress_ms = max (max last_upload_ms last_delivered_ms) 0,
       ds_unposted_waiting_count = length (filter (\<lambda>r. or_relay_posted_at r = None) visible),
       ds_oversized_waiting = (\<exists>r \<in> set visible. length (or_sealed r) > MAX_ENVELOPE_SEALED_BYTES),
       ds_relay_reject_streak = reject_streak, ds_relay_rejected_at_ms = rejected_at,
       ds_relay_unreachable_streak = unreachable_streak, ds_relay_unreachable_at_ms = unreachable_at\<rparr>)"

definition recipient_delivery_status ::
    "outbox \<Rightarrow> bytes \<Rightarrow> bytes list \<Rightarrow> i64 \<Rightarrow> core_recipient_delivery_status list result" where
  "recipient_delivery_status ob own_user_id recipient_user_ids now_ms =
     (if own_user_id = [] then Inl (Malformed ''own user id must not be empty'')
      else Inr (map (recipient_status ob own_user_id now_ms)
             (filter (\<lambda>u. \<not> (u = [] \<or> length u > 128) \<and> u \<notin> set (ob_blocked ob)) recipient_user_ids)))"

section \<open>Deleting a chat\<close>

text \<open>What \<open>delete_contact\<close> and \<open>delete_group\<close> remove of these tables; the authored watermark is kept.\<close>

definition purge_chat :: "outbox \<Rightarrow> bytes \<Rightarrow> outbox" where
  "purge_chat ob chat =
     ob\<lparr>ob_messages := filter (\<lambda>m. mr_chat_id m \<noteq> chat) (ob_messages ob),
        ob_receipts := filter (\<lambda>r. rr_chat_id r \<noteq> chat) (ob_receipts ob),
        ob_outgoing := filter (\<lambda>r. og_chat_id r \<noteq> chat) (ob_outgoing ob),
        ob_receipt_envelopes := filter (\<lambda>r. re_chat_id r \<noteq> chat) (ob_receipt_envelopes ob),
        ob_outbound := filter (\<lambda>r. or_chat_id r \<noteq> chat) (ob_outbound ob)\<rparr>"

text \<open>A contact somebody introduced is blocked on the way out; \<open>ob_introduced\<close> holds the provenance rows that say so.\<close>

definition delete_contact :: "outbox \<Rightarrow> bytes \<Rightarrow> outbox \<times> bool" where
  "delete_contact ob user_id =
     (let removed = is_contact ob user_id;
          introduced = (removed \<and> user_id \<in> set (ob_introduced ob));
          ob1 = ob\<lparr>ob_contacts := filter (\<lambda>c. ce_user_id c \<noteq> user_id) (ob_contacts ob),
                   ob_blocked := (if introduced then List.insert user_id (ob_blocked ob) else ob_blocked ob),
                   ob_introduced := filter (\<lambda>u. u \<noteq> user_id) (ob_introduced ob)\<rparr> in
      (purge_chat ob1 user_id, removed))"

definition delete_group :: "outbox \<Rightarrow> bytes \<Rightarrow> outbox \<times> bool" where
  "delete_group ob group_id =
     (purge_chat (ob\<lparr>ob_members := filter (\<lambda>m. gm_group_id m \<noteq> group_id) (ob_members ob),
                    ob_groups := filter (\<lambda>g. gw_group_id g \<noteq> group_id) (ob_groups ob)\<rparr>) group_id, is_group ob group_id)"


section \<open>A draw that is fair between recipients\<close>

lemma sort_key_prefix:
  assumes "distinct xs" "r \<in> set xs" "card {q \<in> set xs. f q \<le> f r} \<le> n"
  shows "r \<in> set (take n (sort_key f xs))"
proof -
  let ?ys = "sort_key f xs"
  obtain i where i: "i < length ?ys" "?ys ! i = r"
    using assms(2) by (metis in_set_conv_nth set_sort)
  have "(!) ?ys ` {..i} \<subseteq> {q \<in> set xs. f q \<le> f r}"
  proof
    fix q assume "q \<in> (!) ?ys ` {..i}"
    then obtain j where j: "j \<le> i" "q = ?ys ! j" by auto
    then have "map f ?ys ! j \<le> map f ?ys ! i"
      using i by (intro sorted_nth_mono) auto
    moreover have "q \<in> set ?ys" using i j by (metis le_less_trans nth_mem)
    ultimately show "q \<in> {q \<in> set xs. f q \<le> f r}" using i j by simp
  qed
  from card_mono [OF _ this] have "card ((!) ?ys ` {..i}) \<le> n"
    using assms(3) by simp
  moreover have "card ((!) ?ys ` {..i}) = Suc i"
    using assms(1) i by (subst card_image) (auto simp: inj_on_def nth_eq_iff_index_eq)
  ultimately have "i < n" by simp
  then show ?thesis using i by (metis in_set_conv_nth length_take min_less_iff_conj nth_take)
qed

lemma sort_key_take_closed:
  assumes "q \<in> set (take n (sort_key f xs))" "r \<in> set xs" "f r < f q"
  shows "r \<in> set (take n (sort_key f xs))"
proof -
  let ?ys = "sort_key f xs"
  obtain i where i: "i < length ?ys" "i < n" "?ys ! i = q"
    using assms(1) by (auto simp: in_set_conv_nth)
  obtain j where j: "j < length ?ys" "?ys ! j = r"
    using assms(2) by (metis in_set_conv_nth set_sort)
  have "\<not> i \<le> j"
  proof
    assume "i \<le> j"
    then have "map f ?ys ! i \<le> map f ?ys ! j" using j by (intro sorted_nth_mono) auto
    with i j assms(3) show False by simp
  qed
  with i j show ?thesis by (metis in_set_conv_nth length_take less_trans linorder_not_le min_less_iff_conj nth_take)
qed

text \<open>
  A queue drawn in rounds: rows have an identity, a recipient and an order within the recipient, and two
  rows of one recipient with the same order key are one row.
\<close>

locale fair_queue =
  fixes ident :: "'r \<Rightarrow> 'i" and rcp :: "'r \<Rightarrow> 'p" and key :: "'r \<Rightarrow> 'k :: linorder" and age :: "'r \<Rightarrow> 'o :: linorder"
  assumes key_ident: "key r = key q \<Longrightarrow> ident r = ident q"
begin

lemma rank_mono:
  assumes "r \<in> set rows" "rcp r = rcp q" "key r < key q"
  shows "row_number rcp key rows r < row_number rcp key rows q"
proof -
  let ?A = "\<lambda>q. filter (\<lambda>p. rcp p = rcp q \<and> key p < key q) rows"
  have "?A r = filter (\<lambda>p. key p < key r) (?A q)"
    using assms by (auto intro: filter_cong)
  moreover have "r \<in> set (?A q)" using assms by simp
  ultimately have "length (?A r) < length (?A q)"
    by (metis (no_types, lifting) length_filter_less less_irrefl)
  then show ?thesis by (simp add: row_number_def)
qed

lemma rank_inj:
  assumes "distinct (map ident rows)"
  shows "inj_on (\<lambda>r. (rcp r, row_number rcp key rows r)) (set rows)"
proof (rule inj_onI)
  fix r q assume rq: "r \<in> set rows" "q \<in> set rows" "(rcp r, row_number rcp key rows r) = (rcp q, row_number rcp key rows q)"
  then have "\<not> key r < key q" "\<not> key q < key r"
    using rank_mono [of r rows q] rank_mono [of q rows r] by auto
  then have "ident r = ident q" by (intro key_ident) auto
  with rq assms show "r = q" by (auto simp: distinct_map dest: inj_onD)
qed

lemma rank_pos: "0 < row_number rcp key rows r"
  by (simp add: row_number_def)

lemma low_ranks:
  assumes "distinct (map ident rows)"
  shows "card {r \<in> set rows. row_number rcp key rows r \<le> k} \<le> k * card (rcp ` set rows)"
proof -
  let ?S = "{r \<in> set rows. row_number rcp key rows r \<le> k}"
  have "card ?S = card ((\<lambda>r. (rcp r, row_number rcp key rows r)) ` ?S)"
    by (rule card_image [symmetric]) (rule inj_on_subset [OF rank_inj [OF assms]], auto)
  also have "\<dots> \<le> card (rcp ` set rows \<times> {1..k})"
    using rank_pos by (intro card_mono) (auto simp: Suc_le_eq)
  finally show ?thesis by (simp add: card_cartesian_product mult.commute)
qed

text \<open>With room for \<open>k\<close> rows of every recipient, each one's first \<open>k\<close> rows are drawn.\<close>

lemma first_rows_drawn:
  assumes d: "distinct (map ident rows)" and r: "r \<in> set rows" "row_number rcp key rows r \<le> k"
    and n: "k * card (rcp ` set rows) \<le> n"
  shows "r \<in> set (take n (round_robin rcp key age rows))"
proof -
  have "{q \<in> set rows. (row_number rcp key rows q, age q) \<le> (row_number rcp key rows r, age r)} \<subseteq> {q \<in> set rows. row_number rcp key rows q \<le> k}"
    using r by auto
  from card_mono [OF _ this]
  have "card {q \<in> set rows. (row_number rcp key rows q, age q) \<le> (row_number rcp key rows r, age r)} \<le> n"
    using low_ranks [OF d, of k] n by simp
  then show ?thesis
    using d r(1) unfolding round_robin_def by (intro sort_key_prefix) (simp_all add: distinct_map)
qed

text \<open>A row is never drawn while an earlier row of the same recipient waits.\<close>

lemma earlier_rows_drawn:
  assumes "q \<in> set (take n (round_robin rcp key age rows))" "r \<in> set rows" "rcp r = rcp q" "key r < key q"
  shows "r \<in> set (take n (round_robin rcp key age rows))"
  using assms(1) rank_mono [OF assms(2-4)] unfolding round_robin_def
  by (intro sort_key_take_closed [OF _ assms(2)]) auto

lemma first_row: "u \<in> rcp ` set rows \<Longrightarrow> \<exists>r \<in> set rows. rcp r = u \<and> row_number rcp key rows r = 1"
proof -
  assume "u \<in> rcp ` set rows"
  then have ne: "{r \<in> set rows. rcp r = u} \<noteq> {}" by auto
  obtain r where r: "r \<in> set rows" "rcp r = u" "\<And>q. q \<in> set rows \<Longrightarrow> rcp q = u \<Longrightarrow> key r \<le> key q"
    using arg_min_if_finite [OF _ ne, of key] by (auto simp: not_less)
  then have "filter (\<lambda>q. rcp q = rcp r \<and> key q < key r) rows = []"
    by (auto simp: filter_empty_conv not_less)
  with r show ?thesis by (auto simp: row_number_def)
qed

text \<open>Room for one row per recipient leaves nobody out.\<close>

lemma everyone_served:
  assumes "distinct (map ident rows)" "card (rcp ` set rows) \<le> n"
  shows "rcp ` set (take n (round_robin rcp key age rows)) = rcp ` set rows"
proof
  show "rcp ` set (take n (round_robin rcp key age rows)) \<subseteq> rcp ` set rows"
    by (auto simp: round_robin_def dest: in_set_takeD)
  show "rcp ` set rows \<subseteq> rcp ` set (take n (round_robin rcp key age rows))"
  proof
    fix u assume "u \<in> rcp ` set rows"
    from first_row [OF this] obtain r where "r \<in> set rows" "rcp r = u" "row_number rcp key rows r = 1" by auto
    with first_rows_drawn [OF assms(1), of r 1 n] assms(2) show "u \<in> rcp ` set (take n (round_robin rcp key age rows))"
      by auto
  qed
qed

end

lemma draw_key_ident: "draw_key ob r = draw_key ob q \<Longrightarrow> or_msg_id r = or_msg_id q"
  by (simp add: draw_key_def)

interpretation outbound_fair: fair_queue or_msg_id or_recipient_user_id "draw_key ob" "\<lambda>r. (or_queued_at r, or_msg_id r)" for ob
  by unfold_locales (rule draw_key_ident)

interpretation receipt_fair: fair_queue re_msg_id re_recipient_user_id "\<lambda>r. (re_queued_at r, re_msg_id r)"
    "\<lambda>r. (re_queued_at r, re_msg_id r)"
  by unfold_locales simp

lemma as_i64_as_u64 [simp]: "i64_ok v \<Longrightarrow> as_i64 (as_u64 v) = v"
  by (simp add: as_i64_def as_u64_def sint_i64)

lemma as_u64_as_i64 [simp]: "as_u64 (as_i64 w) = w"
  by (simp add: as_i64_def as_u64_def)

lemma i64_ok_as_i64 [simp]: "i64_ok (as_i64 w)"
  by (simp add: as_i64_def i64_ok_sint)

lemma as_i64_small: "uint w \<le> i64_max \<Longrightarrow> as_i64 w = uint w"
  using as_i64_as_u64 [of "uint w"] uint_ge_0 [of w] by (simp add: as_u64_def i64_ok_def i64_min_def del: as_i64_as_u64)

lemma sql_limit_small: "uint limit \<le> i64_max \<Longrightarrow> sql_limit limit rows = take (unat limit) rows"
  by (simp add: sql_limit_def as_i64_small not_less)

lemma outbound_draw_small:
  "uint limit \<le> i64_max \<Longrightarrow> outbound_draw ob limit now skip =
     take (unat limit) (round_robin or_recipient_user_id (draw_key ob) (\<lambda>r. (or_queued_at r, or_msg_id r)) (relay_candidates ob now skip))"
  by (simp add: outbound_draw_def sql_limit_small)

lemma receipt_draw_small:
  "uint limit \<le> i64_max \<Longrightarrow> receipt_draw ob limit now skip =
     take (unat limit) (round_robin re_recipient_user_id (\<lambda>r. (re_queued_at r, re_msg_id r)) (\<lambda>r. (re_queued_at r, re_msg_id r))
       (receipt_candidates ob now skip))"
  by (simp add: receipt_draw_def sql_limit_small)

lemma relay_draw_rows:
  assumes ids: "distinct (map or_msg_id (ob_outbound ob))" "distinct (map re_msg_id (ob_receipt_envelopes ob))"
    and gate: "link_gate_allows ob Advertise" and limit: "uint limit \<le> i64_max"
  shows "set (pending_relay_outbound_envelopes ob limit now skip) \<subseteq> row_to_outbound ` set (relay_candidates ob now skip) \<and>
    (\<forall>r k. r \<in> set (relay_candidates ob now skip) \<and>
       row_number or_recipient_user_id (draw_key ob) (relay_candidates ob now skip) r \<le> k \<and>
       k * card (or_recipient_user_id ` set (relay_candidates ob now skip)) \<le> unat limit \<longrightarrow>
       row_to_outbound r \<in> set (pending_relay_outbound_envelopes ob limit now skip)) \<and>
    (card (or_recipient_user_id ` set (relay_candidates ob now skip)) \<le> unat limit \<longrightarrow>
       oe_recipient_user_id ` set (pending_relay_outbound_envelopes ob limit now skip) =
       or_recipient_user_id ` set (relay_candidates ob now skip)) \<and>
    (\<forall>q r. q \<in> set (outbound_draw ob limit now skip) \<and> r \<in> set (relay_candidates ob now skip) \<and>
       or_recipient_user_id r = or_recipient_user_id q \<and> covered_awaiting_relay_sql ob q \<and> \<not> covered_awaiting_relay_sql ob r \<longrightarrow>
       r \<in> set (outbound_draw ob limit now skip)) \<and>
    (card (re_recipient_user_id ` set (receipt_candidates ob now skip)) \<le> unat limit \<longrightarrow>
       oge_recipient_user_id ` set (pending_relay_outgoing_receipt_envelopes ob limit now skip) =
       re_recipient_user_id ` set (receipt_candidates ob now skip))"
proof -
  let ?C = "relay_candidates ob now skip"
  have d: "distinct (map or_msg_id ?C)" "distinct (map re_msg_id (receipt_candidates ob now skip))"
    using ids by (simp_all add: relay_candidates_def receipt_candidates_def distinct_map_filter)
  have pend: "pending_relay_outbound_envelopes ob limit now skip = map row_to_outbound (outbound_draw ob limit now skip)"
    using gate by (simp add: pending_relay_outbound_envelopes_def)
  have img: "oe_recipient_user_id ` set (map row_to_outbound rows) = or_recipient_user_id ` set rows" for rows
    by (simp add: image_image row_to_outbound_def)
  have rimg: "oge_recipient_user_id ` set (map row_to_outgoing_receipt rows) = re_recipient_user_id ` set rows" for rows
    by (simp add: image_image row_to_outgoing_receipt_def)
  have sub: "set (outbound_draw ob limit now skip) \<subseteq> set ?C"
    using limit by (auto simp: outbound_draw_small round_robin_def dest: in_set_takeD)
  have first: "r \<in> set (outbound_draw ob limit now skip)"
    if "r \<in> set ?C" "row_number or_recipient_user_id (draw_key ob) ?C r \<le> k"
      "k * card (or_recipient_user_id ` set ?C) \<le> unat limit" for r k
    using outbound_fair.first_rows_drawn [OF d(1) that] limit by (simp add: outbound_draw_small)
  have all: "or_recipient_user_id ` set (outbound_draw ob limit now skip) = or_recipient_user_id ` set ?C"
    if "card (or_recipient_user_id ` set ?C) \<le> unat limit"
    using outbound_fair.everyone_served [OF d(1) that] limit by (simp add: outbound_draw_small)
  have early: "r \<in> set (outbound_draw ob limit now skip)"
    if "q \<in> set (outbound_draw ob limit now skip)" "r \<in> set ?C" "or_recipient_user_id r = or_recipient_user_id q"
      "covered_awaiting_relay_sql ob q" "\<not> covered_awaiting_relay_sql ob r" for q r
  proof -
    have "draw_key ob r < draw_key ob q" using that(4,5) by (simp add: draw_key_def)
    from outbound_fair.earlier_rows_drawn [OF _ that(2,3) this] that(1) limit show ?thesis
      by (simp add: outbound_draw_small)
  qed
  have receipts: "oge_recipient_user_id ` set (pending_relay_outgoing_receipt_envelopes ob limit now skip) =
       re_recipient_user_id ` set (receipt_candidates ob now skip)"
    if "card (re_recipient_user_id ` set (receipt_candidates ob now skip)) \<le> unat limit"
    using receipt_fair.everyone_served [OF d(2) that] limit
    by (simp only: pending_relay_outgoing_receipt_envelopes_def rimg receipt_draw_small)
  show ?thesis
    unfolding pend img
  proof (intro conjI allI impI)
    show "set (map row_to_outbound (outbound_draw ob limit now skip)) \<subseteq> row_to_outbound ` set ?C"
      using sub by auto
  qed (use first all early receipts in auto)
qed

text \<open>
  The same read off the tables: which rows wait for the uploader, which of them a delivered receipt
  of the recipient covers, and the order in which the rows of one recipient go up.
\<close>

definition awaits_upload :: "outbox \<Rightarrow> i64 \<Rightarrow> bytes list \<Rightarrow> outbound_row set" where
  "awaits_upload ob now skip = {r \<in> set (ob_outbound ob).
     or_relay_posted_at r = None \<and> now < or_expiry r \<and> or_recipient_user_id r \<notin> set skip}"

definition receipts_await_upload :: "outbox \<Rightarrow> i64 \<Rightarrow> bytes list \<Rightarrow> receipt_envelope_row set" where
  "receipts_await_upload ob now skip = {r \<in> set (ob_receipt_envelopes ob).
     re_relay_posted_at r = None \<and> now < re_expiry r \<and> re_recipient_user_id r \<notin> set skip}"

definition receipt_covers :: "outbox \<Rightarrow> outbound_row \<Rightarrow> bool" where
  "receipt_covers ob r \<longleftrightarrow> or_recipient_user_id r = or_chat_id r \<and>
     (\<exists>rc \<in> set (ob_receipts ob). rr_chat_id rc = or_chat_id r \<and> rr_sender_user_id rc = or_sender_user_id r \<and>
        rr_receipt_type rc = 1 \<and> or_lamport r \<le> rr_through_lamport rc) \<and>
     (\<exists>m \<in> set (ob_messages ob). mr_chat_id m = or_chat_id r \<and> mr_sender_user_id m = or_sender_user_id r \<and> mr_lamport m = or_lamport r) \<and>
     or_chat_id r \<in> ce_user_id ` set (ob_contacts ob) \<and> or_chat_id r \<notin> gw_group_id ` set (ob_groups ob)"

definition goes_before :: "outbox \<Rightarrow> outbound_row \<Rightarrow> outbound_row \<Rightarrow> bool" where
  "goes_before ob q r \<longleftrightarrow> \<not> receipt_covers ob q \<and> receipt_covers ob r \<or>
     receipt_covers ob q = receipt_covers ob r \<and>
       (or_queued_at q < or_queued_at r \<or> or_queued_at q = or_queued_at r \<and> or_msg_id q < or_msg_id r)"

lemma image_key: "u \<in> f ` A \<longleftrightarrow> (\<exists>y \<in> A. f y = u)"
  by auto

lemma receipt_covers_sql: "covered_awaiting_relay_sql ob r = receipt_covers ob r"
  unfolding covered_awaiting_relay_sql_def receipt_covers_def receipt_is_def is_contact_def is_group_def has_message_def image_key
  by blast

lemma candidate_sets:
  "set (relay_candidates ob now skip) = awaits_upload ob now skip"
  "set (receipt_candidates ob now skip) = receipts_await_upload ob now skip"
  by (auto simp: relay_candidates_def receipt_candidates_def awaits_upload_def receipts_await_upload_def)

lemma draw_key_order: "draw_key ob q < draw_key ob r \<longleftrightarrow> goes_before ob q r"
  by (auto simp: draw_key_def goes_before_def receipt_covers_sql)

lemma row_number_card:
  assumes "distinct (map or_msg_id (ob_outbound ob))"
  shows "row_number or_recipient_user_id (draw_key ob) (relay_candidates ob now skip) r =
    Suc (card {q \<in> awaits_upload ob now skip. or_recipient_user_id q = or_recipient_user_id r \<and> goes_before ob q r})"
proof -
  have "distinct (relay_candidates ob now skip)" using assms by (simp add: relay_candidates_def distinct_map)
  then show ?thesis
    by (simp add: row_number_def draw_key_order distinct_length_filter candidate_sets Collect_conj_eq Int_commute)
qed


definition waiting_row :: "bytes \<Rightarrow> bytes \<Rightarrow> i64 \<Rightarrow> outbound_row" where
  "waiting_row i rcp at = \<lparr>or_dedupe_key = i, or_msg_id = i, or_recipient_user_id = rcp, or_chat_id = rcp, or_sender_user_id = [1],
     or_kind = KIND_TEXT, or_lamport = at, or_timestamp = at, or_hop_ttl = 3, or_expiry = 1000, or_recipient_hint = [], or_sealed = [],
     or_queued_at = at, or_relay_posted_at = None\<rparr>"

definition waiting_mail :: outbox where
  "waiting_mail = \<lparr>ob_contacts = [], ob_blocked = [], ob_introduced = [], ob_groups = [], ob_members = [], ob_messages = [],
     ob_receipts = [], ob_watermarks = [], ob_outbound = [waiting_row [10] [2] 1, waiting_row [11] [2] 2, waiting_row [12] [3] 3],
     ob_outgoing = [], ob_receipt_envelopes = [], ob_settings = [], ob_events = [], ob_summaries = [], ob_own_device = None,
     ob_stage = NotLinking\<rparr>"

lemma waiting_candidates: "relay_candidates waiting_mail 5 [] = [waiting_row [10] [2] 1, waiting_row [11] [2] 2, waiting_row [12] [3] 3]"
  by (simp add: relay_candidates_def waiting_mail_def waiting_row_def)


end
