(* ===== verification/Authoring.thy ===== *)
theory Authoring
  imports Outbound_Queue
begin

text \<open>
  Writing a message (\<open>core/src/authoring.rs\<close>, the draft of \<open>core/src/sync_outbound.rs\<close>): the lamport it gets,
  its sealed body, the rows of one transaction, the repair copy for a peer with a gap, group messages and
  invites, and the receipts this device owes. Random ids and the sealing functions are parameters. The
  lemmas follow the queue and the counters over every sequence of operations.
\<close>

section \<open>Bodies and envelopes\<close>

record stored_message =
  sm_chat_id :: bytes
  sm_sender_user_id :: bytes
  sm_lamport :: u64
  sm_timestamp :: i64
  sm_kind :: u8
  sm_payload :: bytes
  sm_sender_device_id :: bytes

record authored_envelope =
  ae_message :: stored_message
  ae_envelope :: outbound_envelope
  ae_frame :: bytes
  ae_acknowledged_delivered :: u64

record authored_receipt =
  aur_envelope :: outgoing_receipt_envelope
  aur_frame :: bytes

record authored_group_metadata_update =
  agu_group :: group
  agu_update :: group_metadata_update
  agu_authored :: authored_envelope

text \<open>The ciphers: BLAKE2b for the hints, pairwise sealing to an agreement key and sealing to a group.\<close>

record sealing =
  sl_crypto :: crypto
  sl_seal_message :: "identity \<Rightarrow> bytes \<Rightarrow> bytes \<Rightarrow> bytes result"
  sl_seal_group_message :: "identity \<Rightarrow> group \<Rightarrow> bytes \<Rightarrow> bytes result"

definition wire_device_id :: "bytes \<Rightarrow> bytes option" where
  "wire_device_id sender_device_id = (if sender_device_id \<noteq> LEGACY_DEVICE_ID then Some sender_device_id else None)"

definition own_authoring_device_id :: "outbox \<Rightarrow> bytes" where
  "own_authoring_device_id ob = core_device_stream_id (ob_own_device ob)"

definition encoded_body :: "stored_message \<Rightarrow> bytes \<Rightarrow> bytes option \<Rightarrow> bytes result" where
  "encoded_body message wire_chat_id reply_to_msg_id =
     (let body = \<lparr>mb_kind = sm_kind message, mb_chat_id = wire_chat_id, mb_lamport = sm_lamport message,
                  mb_timestamp = sm_timestamp message, mb_content = sm_payload message\<rparr> in
      case (reply_to_msg_id, wire_device_id (sm_sender_device_id message)) of
        (Some i, None) \<Rightarrow> encode_message_body_with_reply body i
      | (None, None) \<Rightarrow> encode_message_body body
      | (reply, device) \<Rightarrow> encode_message_body_extended body
            \<lparr>bx_reply_to_msg_id = reply, bx_sender_device_id = device, bx_sender_roster_head = None\<rparr>)"

definition build_pairwise_envelope ::
    "sealing \<Rightarrow> identity \<Rightarrow> contact \<Rightarrow> stored_message \<Rightarrow> bytes option \<Rightarrow> i64 \<Rightarrow> bytes \<Rightarrow> i64 \<Rightarrow> outbound_envelope result" where
  "build_pairwise_envelope sl me c message reply_to_msg_id routing_timestamp_ms msg_id expiry =
     and_then (encoded_body message (id_user_id me) reply_to_msg_id) (\<lambda>body.
     and_then (sl_seal_message sl me (ct_agree_pk c) body) (\<lambda>sealed.
     Inr \<lparr>oe_msg_id = msg_id, oe_recipient_user_id = ct_user_id c, oe_chat_id = sm_chat_id message,
          oe_sender_user_id = sm_sender_user_id message, oe_kind = sm_kind message, oe_lamport = sm_lamport message,
          oe_timestamp = sm_timestamp message, oe_hop_ttl = DEFAULT_HOP_TTL, oe_expiry = expiry,
          oe_recipient_hint = compute_recipient_hint (sl_crypto sl) (ct_user_id c) routing_timestamp_ms,
          oe_sealed = sealed\<rparr>))"

definition authored :: "stored_message \<Rightarrow> outbound_envelope \<Rightarrow> u64 \<Rightarrow> authored_envelope" where
  "authored message envelope acknowledged_delivered =
     \<lparr>ae_message = message, ae_envelope = envelope,
      ae_frame = encode_envelope_frame (oe_msg_id envelope) (oe_hop_ttl envelope) (oe_expiry envelope)
                   (oe_recipient_hint envelope) (oe_sealed envelope),
      ae_acknowledged_delivered = acknowledged_delivered\<rparr>"

definition authored_receipt_of :: "outgoing_receipt_envelope \<Rightarrow> authored_receipt" where
  "authored_receipt_of envelope =
     \<lparr>aur_envelope = envelope,
      aur_frame = encode_envelope_frame (oge_msg_id envelope) (oge_hop_ttl envelope) (oge_expiry envelope)
                    (oge_recipient_hint envelope) (oge_sealed envelope)\<rparr>"

section \<open>Counters\<close>

definition next_authored_lamport :: "outbox \<Rightarrow> bytes \<Rightarrow> bytes \<Rightarrow> u64 \<times> u64" where
  "next_authored_lamport ob chat_id sender_user_id =
     (let own = coalesce_i64 (sql_max (map mr_lamport
                  (filter (\<lambda>m. mr_chat_id m = chat_id \<and> mr_sender_user_id m = sender_user_id) (ob_messages ob)))) 0;
          receipt = (\<lambda>t. coalesce_i64 (sql_max (map rr_through_lamport
                  (filter (receipt_is chat_id sender_user_id t) (ob_receipts ob)))) 0);
          delivered = receipt RECEIPT_TYPE_DELIVERED;
          read = receipt RECEIPT_TYPE_READ;
          authored_high = coalesce_i64 (sql_max (map wr_high_lamport
                  (filter (\<lambda>w. wr_chat_id w = chat_id \<and> wr_sender_user_id w = sender_user_id) (ob_watermarks ob)))) 0 in
      (as_u64 (i64_add (max (max (max own delivered) read) authored_high) 1), as_u64 delivered))"

definition causal_timestamp_for_chat :: "outbox \<Rightarrow> bytes \<Rightarrow> i64 \<Rightarrow> i64" where
  "causal_timestamp_for_chat ob chat_id now_ms =
     causal_display_timestamp (sql_max (map mr_timestamp (filter (\<lambda>m. mr_chat_id m = chat_id) (ob_messages ob)))) now_ms"

definition record_authored_watermark :: "outbox \<Rightarrow> stored_message \<Rightarrow> outbox" where
  "record_authored_watermark ob message =
     (let same = (\<lambda>w. wr_chat_id w = sm_chat_id message \<and> wr_sender_user_id w = sm_sender_user_id message);
          high = as_i64 (sm_lamport message) in
      ob\<lparr>ob_watermarks :=
           (if \<exists>w \<in> set (ob_watermarks ob). same w
            then map (\<lambda>w. if same w then w\<lparr>wr_high_lamport := max (wr_high_lamport w) high\<rparr> else w) (ob_watermarks ob)
            else ob_watermarks ob @ [\<lparr>wr_chat_id = sm_chat_id message, wr_sender_user_id = sm_sender_user_id message,
                                      wr_high_lamport = high\<rparr>])\<rparr>)"

section \<open>The draft shared with sibling devices\<close>

definition SYNC_DRAFT_KEY_PREFIX :: utf8 where "SYNC_DRAFT_KEY_PREFIX = ascii ''chat.draft.''"

definition core_sync_draft_key :: "bytes \<Rightarrow> utf8" where
  "core_sync_draft_key chat_id = SYNC_DRAFT_KEY_PREFIX @ hex_string chat_id"

definition setting :: "outbox \<Rightarrow> utf8 \<Rightarrow> setting_row option" where
  "setting ob key = List.find (\<lambda>s. ss_key s = key) (ob_settings ob)"

definition setting_order_key :: "setting_row \<Rightarrow> u64 \<times> bytes \<times> bytes" where
  "setting_order_key s = (as_u64 (ss_epoch s), ss_author_device_id s, ss_value s)"

definition put_setting :: "outbox \<Rightarrow> setting_row \<Rightarrow> outbox result" where
  "put_setting ob entry =
     (if length (ss_author_device_id entry) \<noteq> DEVICE_ID_LEN
      then Inl (Malformed ''a shared setting must name the device that wrote it'')
      else case setting ob (ss_key entry) of
        Some stored \<Rightarrow>
          if setting_order_key entry > setting_order_key stored
          then Inr (ob\<lparr>ob_settings := map (\<lambda>s. if ss_key s = ss_key entry then entry else s) (ob_settings ob)\<rparr>)
          else Inr ob
      | None \<Rightarrow> Inr (ob\<lparr>ob_settings := ob_settings ob @ [entry]\<rparr>))"

definition clear_chat_draft :: "outbox \<Rightarrow> bytes \<Rightarrow> i64 \<Rightarrow> outbox result" where
  "clear_chat_draft ob chat_id at_ms =
     (let key = core_sync_draft_key chat_id in
      case setting ob key of
        None \<Rightarrow> Inr ob
      | Some existing \<Rightarrow>
          if ss_value existing = [] then Inr ob
          else
            let epoch = max (if at_ms \<ge> 0 then as_u64 at_ms else 0) (word_sat_add (as_u64 (ss_epoch existing)) 1) in
            put_setting ob \<lparr>ss_key = key, ss_value = [], ss_epoch = as_i64 epoch,
                            ss_author_device_id = own_authoring_device_id ob\<rparr>)"

datatype outbound_author_claim = ClaimAuthor | AlreadyAuthoredBySibling bytes u64

definition outbound_claim :: "outbox \<Rightarrow> bytes \<Rightarrow> bytes \<Rightarrow> bytes \<Rightarrow> u8 \<Rightarrow> bytes \<Rightarrow> i64 \<Rightarrow> outbound_author_claim" where
  "outbound_claim ob own_person_id own_device_id chat_id kind payload not_before_ms =
     (let siblings = filter (\<lambda>m. mr_chat_id m = chat_id \<and> mr_sender_user_id m = own_person_id \<and> mr_kind m = kind \<and>
            mr_payload m = payload \<and> mr_sender_device_id m \<noteq> own_device_id \<and> mr_sender_device_id m \<noteq> LEGACY_DEVICE_ID \<and>
            mr_timestamp m \<ge> not_before_ms) (ob_messages ob) in
      case sort_key (\<lambda>m. - mr_lamport m) siblings of
        [] \<Rightarrow> ClaimAuthor
      | m # _ \<Rightarrow> AlreadyAuthoredBySibling (mr_sender_device_id m) (as_u64 (mr_lamport m)))"

section \<open>The rows of one authored message\<close>

definition outbound_message_dedupe_key :: "bytes \<Rightarrow> bytes \<Rightarrow> u8 \<Rightarrow> u64 \<Rightarrow> bytes \<Rightarrow> bytes" where
  "outbound_message_dedupe_key chat_id sender_user_id kind lamport recipient_user_id =
     1 # wire_bytes chat_id @ wire_bytes sender_user_id @ [kind] @ u64_bytes lamport @ wire_bytes recipient_user_id"

definition envelope_row :: "outbound_envelope \<Rightarrow> i64 \<Rightarrow> outbound_row" where
  "envelope_row e queued_at_ms = \<lparr>or_dedupe_key = outbound_message_dedupe_key (oe_chat_id e) (oe_sender_user_id e) (oe_kind e)
        (oe_lamport e) (oe_recipient_user_id e),
     or_msg_id = oe_msg_id e, or_recipient_user_id = oe_recipient_user_id e, or_chat_id = oe_chat_id e,
     or_sender_user_id = oe_sender_user_id e, or_kind = oe_kind e, or_lamport = as_i64 (oe_lamport e),
     or_timestamp = oe_timestamp e, or_hop_ttl = oe_hop_ttl e, or_expiry = oe_expiry e,
     or_recipient_hint = oe_recipient_hint e, or_sealed = oe_sealed e, or_queued_at = queued_at_ms,
     or_relay_posted_at = None\<rparr>"

text \<open>\<open>INSERT OR IGNORE\<close>: a row with a stored key or id is not inserted.\<close>

definition queue_outbound_row :: "outbox \<Rightarrow> outbound_envelope \<Rightarrow> i64 \<Rightarrow> outbox" where
  "queue_outbound_row ob envelope queued_at_ms =
     (let row = envelope_row envelope queued_at_ms in
      if \<exists>r \<in> set (ob_outbound ob). or_dedupe_key r = or_dedupe_key row \<or> or_msg_id r = or_msg_id row then ob
      else ob\<lparr>ob_outbound := ob_outbound ob @ [row]\<rparr>)"

definition message_row_of :: "stored_message \<Rightarrow> bytes \<Rightarrow> bytes option \<Rightarrow> message_row" where
  "message_row_of m msg_id reply_to_msg_id = \<lparr>mr_chat_id = sm_chat_id m, mr_sender_user_id = sm_sender_user_id m,
     mr_sender_device_id = sm_sender_device_id m, mr_lamport = as_i64 (sm_lamport m), mr_timestamp = sm_timestamp m,
     mr_kind = sm_kind m, mr_payload = sm_payload m, mr_msg_id = Some msg_id, mr_reply_to_msg_id = reply_to_msg_id\<rparr>"

definition message_key :: "message_row \<Rightarrow> bytes \<times> bytes \<times> bytes \<times> i64" where
  "message_key m = (mr_chat_id m, mr_sender_user_id m, mr_sender_device_id m, mr_lamport m)"

definition insert_message :: "outbox \<Rightarrow> message_row \<Rightarrow> outbox" where
  "insert_message ob row =
     (if \<exists>m \<in> set (ob_messages ob). message_key m = message_key row then ob
      else ob\<lparr>ob_messages := ob_messages ob @ [row]\<rparr>)"

definition insert_authored_rows :: "outbox \<Rightarrow> stored_message \<Rightarrow> outbound_envelope \<Rightarrow> bytes option \<Rightarrow> i64 \<Rightarrow> outbox result" where
  "insert_authored_rows ob message envelope reply_to_msg_id queued_at_ms =
     (let ob1 = record_authored_watermark ob message;
          ob2 = insert_message ob1 (message_row_of message (oe_msg_id envelope) reply_to_msg_id);
          ob3 = queue_outbound_row ob2 envelope queued_at_ms in
      and_then (if sm_kind message = KIND_TEXT \<or> sm_kind message = KIND_ATTACHMENT_MANIFEST
                then clear_chat_draft ob3 (sm_chat_id message) queued_at_ms else Inr ob3) (\<lambda>ob4.
      Inr (fst (retire_superseded ob4 (oe_recipient_user_id envelope) (oe_chat_id envelope) (oe_sender_user_id envelope)
                 (oe_kind envelope) (oe_lamport envelope)))))"

definition is_pairwise_kind :: "u8 \<Rightarrow> bool" where
  "is_pairwise_kind kind \<longleftrightarrow>
     kind \<in> {KIND_TEXT, KIND_FRIEND_REQUEST, KIND_GROUP_INVITE, KIND_PROFILE_SYNC, KIND_FRIEND_DIRECTORY,
             KIND_INTRODUCED_FRIEND_REQUEST, KIND_LAN_ENDPOINT_HINT, KIND_RELAY_UPDATE, KIND_ROSTER_GOSSIP,
             KIND_ATTACHMENT_MANIFEST, KIND_REACTION}"

section \<open>Messages to one person\<close>

definition pairwise_message :: "outbox \<Rightarrow> identity \<Rightarrow> bytes \<Rightarrow> u8 \<Rightarrow> bytes \<Rightarrow> u64 \<Rightarrow> i64 \<Rightarrow> stored_message" where
  "pairwise_message ob me chat kind payload lamport timestamp_ms =
     \<lparr>sm_chat_id = chat, sm_sender_user_id = id_user_id me, sm_lamport = lamport,
      sm_timestamp = causal_timestamp_for_chat ob chat timestamp_ms, sm_kind = kind, sm_payload = payload,
      sm_sender_device_id = own_authoring_device_id ob\<rparr>"

definition author_pairwise_message ::
    "sealing \<Rightarrow> outbox \<Rightarrow> identity \<Rightarrow> contact \<Rightarrow> u8 \<Rightarrow> bytes \<Rightarrow> bytes option \<Rightarrow> i64 \<Rightarrow> bytes \<Rightarrow> (authored_envelope \<times> outbox) result" where
  "author_pairwise_message sl ob me c kind payload reply_to_msg_id timestamp_ms msg_id =
     and_then (guard_link_gate ob Author) (\<lambda>_.
     if \<not> is_pairwise_kind kind then Inl (Malformed (''unsupported pairwise authored kind '' @ show_nat (unat kind)))
     else
       let (lamport, acknowledged_delivered) = next_authored_lamport ob (ct_user_id c) (id_user_id me);
           message = pairwise_message ob me (ct_user_id c) kind payload lamport timestamp_ms in
       and_then (build_pairwise_envelope sl me c message reply_to_msg_id timestamp_ms msg_id (authored_expiry kind timestamp_ms)) (\<lambda>envelope.
       and_then (insert_authored_rows ob message envelope reply_to_msg_id timestamp_ms) (\<lambda>ob'.
       Inr (authored message envelope acknowledged_delivered, ob'))))"

definition author_friend_request ::
    "sealing \<Rightarrow> outbox \<Rightarrow> identity \<Rightarrow> contact \<Rightarrow> utf8 \<Rightarrow> i64 \<Rightarrow> bytes \<Rightarrow> (authored_envelope \<times> outbox) result" where
  "author_friend_request sl ob me c friend_card_json timestamp_ms msg_id =
     author_pairwise_message sl ob me c KIND_FRIEND_REQUEST friend_card_json None timestamp_ms msg_id"

text \<open>The id a stored message was sent under, or a fresh one that is written back to a row without any.\<close>

definition stable_backfill_msg_id :: "outbox \<Rightarrow> stored_message \<Rightarrow> bytes \<Rightarrow> bytes \<times> outbox" where
  "stable_backfill_msg_id ob message fresh =
     (let device = core_device_stream_id (Some (sm_sender_device_id message));
          same = (\<lambda>m. mr_chat_id m = sm_chat_id message \<and> mr_sender_user_id m = sm_sender_user_id message \<and>
                      mr_lamport m = as_i64 (sm_lamport message) \<and> mr_sender_device_id m = device);
          stored = Option.bind (List.find same (ob_messages ob)) mr_msg_id in
      case stored of
        Some (b # bs) \<Rightarrow> (b # bs, ob)
      | _ \<Rightarrow> (fresh, ob\<lparr>ob_messages := map (\<lambda>m. if same m \<and> mr_msg_id m = None then m\<lparr>mr_msg_id := Some fresh\<rparr> else m)
                                         (ob_messages ob)\<rparr>))"

definition backfill_pairwise_envelope ::
    "sealing \<Rightarrow> outbox \<Rightarrow> identity \<Rightarrow> contact \<Rightarrow> stored_message \<Rightarrow> bytes option \<Rightarrow> bytes \<Rightarrow> (authored_envelope \<times> outbox) result" where
  "backfill_pairwise_envelope sl ob me c message reply_to_msg_id fresh =
     and_then (guard_link_gate ob Author) (\<lambda>_.
     if \<not> is_pairwise_kind (sm_kind message) \<or> sm_chat_id message \<noteq> ct_user_id c \<or> sm_sender_user_id message \<noteq> id_user_id me
     then Inl (Malformed ''legacy message does not match pairwise author or contact'')
     else
       case List.find (\<lambda>r. or_chat_id r = sm_chat_id message \<and> or_sender_user_id r = sm_sender_user_id message \<and>
              or_kind r = sm_kind message \<and> or_lamport r = as_i64 (sm_lamport message) \<and>
              or_recipient_user_id r = ct_user_id c) (ob_outbound ob) of
         Some r \<Rightarrow> Inr (authored message (row_to_outbound r) 0, ob)
       | None \<Rightarrow>
           let (msg_id, ob1) = stable_backfill_msg_id ob message fresh in
           and_then (build_pairwise_envelope sl me c message reply_to_msg_id (sm_timestamp message) msg_id
                      (default_expiry (sm_timestamp message))) (\<lambda>envelope.
           let ob2 = record_authored_watermark ob1 message;
               ob3 = (if backfill_rejoins_the_queue ob2 envelope then queue_outbound_row ob2 envelope (sm_timestamp message) else ob2) in
           Inr (authored message envelope 0, ob3)))"

section \<open>Messages to a group\<close>

definition group_envelope :: "sealing \<Rightarrow> group \<Rightarrow> stored_message \<Rightarrow> bytes \<Rightarrow> bytes \<Rightarrow> i64 \<Rightarrow> outbound_envelope" where
  "group_envelope sl g message msg_id sealed timestamp_ms =
     \<lparr>oe_msg_id = msg_id, oe_recipient_user_id = gr_id g, oe_chat_id = gr_id g, oe_sender_user_id = sm_sender_user_id message,
      oe_kind = sm_kind message, oe_lamport = sm_lamport message, oe_timestamp = sm_timestamp message,
      oe_hop_ttl = DEFAULT_HOP_TTL, oe_expiry = default_expiry timestamp_ms,
      oe_recipient_hint = compute_recipient_hint (sl_crypto sl) (gr_id g) timestamp_ms, oe_sealed = sealed\<rparr>"

definition author_group_message ::
    "sealing \<Rightarrow> outbox \<Rightarrow> identity \<Rightarrow> group \<Rightarrow> u8 \<Rightarrow> bytes \<Rightarrow> bytes option \<Rightarrow> i64 \<Rightarrow> bytes \<Rightarrow> (authored_envelope \<times> outbox) result" where
  "author_group_message sl ob me g kind payload reply_to_msg_id timestamp_ms msg_id =
     and_then (guard_link_gate ob Author) (\<lambda>_.
     if kind \<noteq> KIND_TEXT \<and> kind \<noteq> KIND_ATTACHMENT_MANIFEST \<and> kind \<noteq> KIND_REACTION
     then Inl (Malformed (''unsupported group authored kind '' @ show_nat (unat kind)))
     else if id_user_id me \<notin> set (gr_member_user_ids g) then Inl (Malformed ''group author is not a member'')
     else
       let (lamport, acknowledged_delivered) = next_authored_lamport ob (gr_id g) (id_user_id me);
           message = pairwise_message ob me (gr_id g) kind payload lamport timestamp_ms in
       and_then (encoded_body message (gr_id g) reply_to_msg_id) (\<lambda>body.
       and_then (sl_seal_group_message sl me g body) (\<lambda>sealed.
       let envelope = group_envelope sl g message msg_id sealed timestamp_ms in
       and_then (insert_authored_rows ob message envelope reply_to_msg_id timestamp_ms) (\<lambda>ob'.
       Inr (authored message envelope acknowledged_delivered, ob')))))"

text \<open>Storing a group: older metadata never replaces newer, and a known member keeps the time of joining.\<close>

definition upsert_group_tx :: "outbox \<Rightarrow> group \<Rightarrow> i64 \<Rightarrow> outbox result" where
  "upsert_group_tx ob g now_ms =
     and_then (validate_group g) (\<lambda>_.
       let same = (\<lambda>r. gw_group_id r = gr_id g);
           row = \<lparr>gw_group_id = gr_id g, gw_name = gr_name g, gw_group_key = gr_key g,
                  gw_metadata_revision = as_i64 (gr_metadata_revision g), gw_metadata_changed_by = gr_metadata_changed_by g\<rparr>;
           previous = filter (\<lambda>m. gm_group_id m = gr_id g) (ob_members ob);
           added_at = (\<lambda>u. case List.find (\<lambda>m. gm_user_id m = u) previous of
                             Some m \<Rightarrow> gm_added_at_ms m | None \<Rightarrow> if previous = [] then 0 else now_ms);
           stored = ob\<lparr>ob_groups := (if \<exists>r \<in> set (ob_groups ob). same r
                                     then map (\<lambda>r. if same r then row else r) (ob_groups ob) else ob_groups ob @ [row]),
                       ob_members := filter (\<lambda>m. gm_group_id m \<noteq> gr_id g) (ob_members ob) @
                         map (\<lambda>u. \<lparr>gm_group_id = gr_id g, gm_user_id = u, gm_added_at_ms = added_at u\<rparr>)
                           (canonicalize_members (gr_member_user_ids g))\<rparr> in
       case List.find same (ob_groups ob) of
         Some r \<Rightarrow>
           if (as_u64 (gw_metadata_revision r), gw_metadata_changed_by r) > (gr_metadata_revision g, gr_metadata_changed_by g)
           then Inr ob else Inr stored
       | None \<Rightarrow> Inr stored)"

definition author_group_metadata_update ::
    "sealing \<Rightarrow> outbox \<Rightarrow> identity \<Rightarrow> group \<Rightarrow> utf8 \<Rightarrow> bytes list \<Rightarrow> i64 \<Rightarrow> bytes \<Rightarrow> i64 \<Rightarrow>
     (authored_group_metadata_update \<times> outbox) result" where
  "author_group_metadata_update sl ob me g name member_user_ids timestamp_ms msg_id clock_ms =
     and_then (guard_link_gate ob Author) (\<lambda>_.
     and_then (create_group_metadata_update g (id_user_id me) name member_user_ids) (\<lambda>update.
     and_then (apply_group_metadata_update g update (id_user_id me)) (\<lambda>applied.
     case applied of
       None \<Rightarrow> Inl (Malformed ''group metadata update had no effect'')
     | Some updated_group \<Rightarrow>
         and_then (encode_group_metadata_update update) (\<lambda>payload.
         let (lamport, acknowledged_delivered) = next_authored_lamport ob (gr_id g) (id_user_id me);
             message = pairwise_message ob me (gr_id g) KIND_GROUP_METADATA_UPDATE payload lamport timestamp_ms in
         and_then (encoded_body message (gr_id g) None) (\<lambda>body.
         and_then (sl_seal_group_message sl me g body) (\<lambda>sealed.
         let envelope = group_envelope sl g message msg_id sealed timestamp_ms in
         and_then (upsert_group_tx ob updated_group clock_ms) (\<lambda>ob1.
         and_then (insert_authored_rows ob1 message envelope None timestamp_ms) (\<lambda>ob2.
         Inr (\<lparr>agu_group = updated_group, agu_update = update,
               agu_authored = authored message envelope acknowledged_delivered\<rparr>, ob2)))))))))"

text \<open>One envelope per member; the \<open>n\<close>th one draws the id \<open>msg_ids n\<close>.\<close>

fun queue_invites ::
    "sealing \<Rightarrow> identity \<Rightarrow> stored_message \<Rightarrow> i64 \<Rightarrow> u64 \<Rightarrow> (nat \<Rightarrow> bytes) \<Rightarrow> contact list \<Rightarrow> outbox \<Rightarrow>
     (authored_envelope list \<times> outbox) result" where
  "queue_invites sl me message timestamp_ms acknowledged_delivered msg_ids [] ob = Inr ([], ob)"
| "queue_invites sl me message timestamp_ms acknowledged_delivered msg_ids (member # members) ob =
     (if ct_user_id member = id_user_id me
      then queue_invites sl me message timestamp_ms acknowledged_delivered msg_ids members ob
      else
        and_then (build_pairwise_envelope sl me member message None timestamp_ms (msg_ids 0)
                   (authored_expiry KIND_GROUP_INVITE timestamp_ms)) (\<lambda>envelope.
        and_then (insert_authored_rows ob message envelope None timestamp_ms) (\<lambda>ob'.
        and_then (queue_invites sl me message timestamp_ms acknowledged_delivered (\<lambda>n. msg_ids (Suc n)) members ob') (\<lambda>(rest, ob'').
        Inr (authored message envelope acknowledged_delivered # rest, ob'')))))"

definition queue_group_invites ::
    "sealing \<Rightarrow> outbox \<Rightarrow> identity \<Rightarrow> group \<Rightarrow> contact list \<Rightarrow> i64 \<Rightarrow> (nat \<Rightarrow> bytes) \<Rightarrow> (authored_envelope list \<times> outbox) result" where
  "queue_group_invites sl ob me g members timestamp_ms msg_ids =
     and_then (guard_link_gate ob Author) (\<lambda>_.
     and_then (encode_group_invite_content g) (\<lambda>invite.
     let (lamport, acknowledged_delivered) = next_authored_lamport ob (gr_id g) (id_user_id me);
         message = pairwise_message ob me (gr_id g) KIND_GROUP_INVITE invite lamport timestamp_ms in
     queue_invites sl me message timestamp_ms acknowledged_delivered msg_ids members ob))"

section \<open>Receipts this device owes\<close>

definition outgoing_is :: "bytes \<Rightarrow> bytes \<Rightarrow> u8 \<Rightarrow> outgoing_receipt_row \<Rightarrow> bool" where
  "outgoing_is chat sender t r \<longleftrightarrow> og_chat_id r = chat \<and> og_sender_user_id r = sender \<and> og_receipt_type r = t"

definition receipt_envelope_is :: "bytes \<Rightarrow> bytes \<Rightarrow> u8 \<Rightarrow> receipt_envelope_row \<Rightarrow> bool" where
  "receipt_envelope_is chat sender t r \<longleftrightarrow> re_chat_id r = chat \<and> re_sender_user_id r = sender \<and> re_receipt_type r = t"

definition outgoing_through :: "outbox \<Rightarrow> bytes \<Rightarrow> bytes \<Rightarrow> u8 \<Rightarrow> i64 option" where
  "outgoing_through ob chat sender t = map_option og_through_lamport (List.find (outgoing_is chat sender t) (ob_outgoing ob))"

definition upsert_outgoing :: "(i64 \<Rightarrow> i64 \<Rightarrow> i64) \<Rightarrow> outbox \<Rightarrow> bytes \<Rightarrow> bytes \<Rightarrow> u8 \<Rightarrow> i64 \<Rightarrow> outbox" where
  "upsert_outgoing merge ob chat sender t through =
     ob\<lparr>ob_outgoing :=
          (if \<exists>r \<in> set (ob_outgoing ob). outgoing_is chat sender t r
           then map (\<lambda>r. if outgoing_is chat sender t r then r\<lparr>og_through_lamport := merge (og_through_lamport r) through\<rparr> else r)
                  (ob_outgoing ob)
           else ob_outgoing ob @ [\<lparr>og_chat_id = chat, og_sender_user_id = sender, og_receipt_type = t,
                                   og_through_lamport = through\<rparr>])\<rparr>"

definition record_outgoing_receipt :: "outbox \<Rightarrow> bytes \<Rightarrow> bytes \<Rightarrow> u8 \<Rightarrow> u64 \<Rightarrow> outbox result" where
  "record_outgoing_receipt ob chat_id sender_user_id receipt_type through_lamport =
     and_then (validate_receipt_watermark receipt_type through_lamport) (\<lambda>_.
     Inr (upsert_outgoing max ob chat_id sender_user_id receipt_type (as_i64 through_lamport)))"

definition upsert_receipt_envelope :: "outbox \<Rightarrow> outgoing_receipt_envelope \<Rightarrow> i64 \<Rightarrow> outbox result" where
  "upsert_receipt_envelope ob e queued_at_ms =
     (let same = receipt_envelope_is (oge_chat_id e) (oge_sender_user_id e) (oge_receipt_type e);
          row = \<lparr>re_chat_id = oge_chat_id e, re_sender_user_id = oge_sender_user_id e, re_receipt_type = oge_receipt_type e,
                 re_through_lamport = as_i64 (oge_through_lamport e), re_msg_id = oge_msg_id e,
                 re_recipient_user_id = oge_recipient_user_id e, re_timestamp = oge_timestamp e, re_hop_ttl = oge_hop_ttl e,
                 re_expiry = oge_expiry e, re_recipient_hint = oge_recipient_hint e, re_sealed = oge_sealed e,
                 re_queued_at = queued_at_ms, re_relay_posted_at = None\<rparr> in
      if \<exists>r \<in> set (ob_receipt_envelopes ob). \<not> same r \<and> re_msg_id r = oge_msg_id e
      then Inl (Store ''UNIQUE constraint failed: outgoing_receipt_envelopes.msg_id'')
      else Inr (ob\<lparr>ob_receipt_envelopes :=
             (if \<exists>r \<in> set (ob_receipt_envelopes ob). same r
              then map (\<lambda>r. if same r then row else r) (ob_receipt_envelopes ob)
              else ob_receipt_envelopes ob @ [row])\<rparr>))"

text \<open>The sealed receipt for \<open>recipient\<close>, filed under \<open>chat\<close>: their id, or the group's.\<close>

definition seal_receipt ::
    "sealing \<Rightarrow> identity \<Rightarrow> contact \<Rightarrow> bytes \<Rightarrow> bytes \<Rightarrow> bytes option \<Rightarrow> u8 \<Rightarrow> u64 \<Rightarrow> i64 \<Rightarrow> bytes \<Rightarrow> outgoing_receipt_envelope result" where
  "seal_receipt sl me c chat acked group_id receipt_type through timestamp_ms msg_id =
     and_then (encode_receipt_content \<lparr>rc_chat_id = id_user_id me, rc_sender_user_id = acked, rc_lamport = through,
                rc_receipt_type = receipt_type, rc_group_id = group_id\<rparr>) (\<lambda>content.
     and_then (encode_message_body \<lparr>mb_kind = KIND_RECEIPT, mb_chat_id = id_user_id me, mb_lamport = 0,
                mb_timestamp = timestamp_ms, mb_content = content\<rparr>) (\<lambda>body.
     and_then (sl_seal_message sl me (ct_agree_pk c) body) (\<lambda>sealed.
     Inr \<lparr>oge_msg_id = msg_id, oge_recipient_user_id = ct_user_id c, oge_chat_id = chat, oge_sender_user_id = acked,
          oge_receipt_type = receipt_type, oge_through_lamport = through, oge_timestamp = timestamp_ms,
          oge_hop_ttl = DEFAULT_HOP_TTL, oge_expiry = default_expiry timestamp_ms,
          oge_recipient_hint = compute_recipient_hint (sl_crypto sl) (ct_user_id c) timestamp_ms, oge_sealed = sealed\<rparr>)))"

definition author_receipt ::
    "sealing \<Rightarrow> outbox \<Rightarrow> identity \<Rightarrow> contact \<Rightarrow> bytes \<Rightarrow> u8 \<Rightarrow> u64 \<Rightarrow> i64 \<Rightarrow> bytes \<Rightarrow> (authored_receipt option \<times> outbox) result" where
  "author_receipt sl ob me c acked receipt_type through_lamport timestamp_ms msg_id =
     and_then (guard_link_gate ob Author) (\<lambda>_.
     if receipt_type \<noteq> RECEIPT_TYPE_DELIVERED \<and> receipt_type \<noteq> RECEIPT_TYPE_READ then Inl (Malformed ''invalid receipt type'')
     else
     and_then (validate_sqlite_u64 ''receipt watermark'' through_lamport) (\<lambda>_.
     if (case outgoing_through ob (ct_user_id c) acked receipt_type of Some v \<Rightarrow> v \<ge> as_i64 through_lamport | None \<Rightarrow> False)
     then Inr (None, ob)
     else
       let ob1 = upsert_outgoing (\<lambda>_ new. new) ob (ct_user_id c) acked receipt_type (as_i64 through_lamport) in
       and_then (seal_receipt sl me c (ct_user_id c) acked None receipt_type through_lamport timestamp_ms msg_id) (\<lambda>envelope.
       and_then (upsert_receipt_envelope ob1 envelope timestamp_ms) (\<lambda>ob2.
       Inr (Some (authored_receipt_of envelope), ob2)))))"

text \<open>The common part of the two \<open>ensure\<close> operations, which the code writes out twice.\<close>

definition ensure_receipt ::
    "sealing \<Rightarrow> outbox \<Rightarrow> identity \<Rightarrow> contact \<Rightarrow> bytes \<Rightarrow> bytes \<Rightarrow> bytes option \<Rightarrow> u8 \<Rightarrow> u64 \<Rightarrow> i64 \<Rightarrow> bytes \<Rightarrow>
     (authored_receipt \<times> outbox) result" where
  "ensure_receipt sl ob me c chat acked group_id receipt_type through_lamport timestamp_ms msg_id =
     and_then (validate_sqlite_u64 ''receipt watermark'' through_lamport) (\<lambda>_.
     let desired = max through_lamport (as_u64 (coalesce_i64 (outgoing_through ob chat acked receipt_type) 0));
         existing = map_option row_to_outgoing_receipt
                      (List.find (receipt_envelope_is chat acked receipt_type) (ob_receipt_envelopes ob));
         fresh =
           (let ob1 = upsert_outgoing max ob chat acked receipt_type (as_i64 desired) in
            and_then (seal_receipt sl me c chat acked group_id receipt_type desired timestamp_ms msg_id) (\<lambda>envelope.
            and_then (upsert_receipt_envelope ob1 envelope timestamp_ms) (\<lambda>ob2.
            Inr (authored_receipt_of envelope, ob2)))) in
     case existing of
       Some envelope \<Rightarrow> if oge_through_lamport envelope \<ge> desired then Inr (authored_receipt_of envelope, ob) else fresh
     | None \<Rightarrow> fresh)"

definition ensure_authored_receipt ::
    "sealing \<Rightarrow> outbox \<Rightarrow> identity \<Rightarrow> contact \<Rightarrow> bytes \<Rightarrow> u8 \<Rightarrow> u64 \<Rightarrow> i64 \<Rightarrow> bytes \<Rightarrow> (authored_receipt \<times> outbox) result" where
  "ensure_authored_receipt sl ob me c acked receipt_type through_lamport timestamp_ms msg_id =
     and_then (guard_link_gate ob Author) (\<lambda>_.
     if receipt_type \<noteq> RECEIPT_TYPE_DELIVERED \<and> receipt_type \<noteq> RECEIPT_TYPE_READ then Inl (Malformed ''invalid receipt type'')
     else if through_lamport = 0 then Inl (Malformed ''receipt watermark must be positive'')
     else ensure_receipt sl ob me c (ct_user_id c) acked None receipt_type through_lamport timestamp_ms msg_id)"

definition ensure_authored_group_receipt ::
    "sealing \<Rightarrow> outbox \<Rightarrow> identity \<Rightarrow> contact \<Rightarrow> bytes \<Rightarrow> u8 \<Rightarrow> u64 \<Rightarrow> i64 \<Rightarrow> bytes \<Rightarrow> (authored_receipt \<times> outbox) result" where
  "ensure_authored_group_receipt sl ob me author group_id receipt_type through_lamport timestamp_ms msg_id =
     (if receipt_type \<noteq> RECEIPT_TYPE_DELIVERED \<and> receipt_type \<noteq> RECEIPT_TYPE_READ then Inl (Malformed ''invalid receipt type'')
      else if through_lamport = 0 then Inl (Malformed ''receipt watermark must be positive'')
      else
      and_then (guard_link_gate ob Author) (\<lambda>_.
      if length group_id \<noteq> GROUP_ID_LEN
      then Inl (Malformed (''group receipt id must be exactly '' @ show_nat GROUP_ID_LEN @ '' bytes''))
      else ensure_receipt sl ob me author group_id (ct_user_id author) (Some group_id) receipt_type through_lamport timestamp_ms msg_id))"


section \<open>Every operation on the tables\<close>

datatype outbox_op =
    AuthorPairwise sealing identity contact u8 bytes "bytes option" i64 bytes
  | BackfillPairwise sealing identity contact stored_message "bytes option" bytes
  | AuthorGroup sealing identity group u8 bytes "bytes option" i64 bytes
  | AuthorGroupUpdate sealing identity group utf8 "bytes list" i64 bytes i64
  | QueueInvites sealing identity group "contact list" i64 "nat \<Rightarrow> bytes"
  | AuthorReceipt sealing identity contact bytes u8 u64 i64 bytes
  | EnsureReceipt sealing identity contact bytes u8 u64 i64 bytes
  | EnsureGroupReceipt sealing identity contact bytes u8 u64 i64 bytes
  | RecordReceipt bytes bytes u8 u64 "u8 option" "i64 option"
  | RecordOutgoing bytes bytes u8 u64
  | MarkPosted bytes i64
  | MarkReceiptPosted bytes i64
  | PruneOutbound i64
  | PruneReceipts i64
  | Sweep
  | DeleteContact bytes
  | DeleteGroup bytes

text \<open>A failed transaction is rolled back.\<close>

definition committed :: "outbox \<Rightarrow> ('a \<times> outbox) result \<Rightarrow> outbox" where
  "committed ob r = (case r of Inl _ \<Rightarrow> ob | Inr (_, ob') \<Rightarrow> ob')"

definition committed_unit :: "outbox \<Rightarrow> outbox result \<Rightarrow> outbox" where
  "committed_unit ob r = (case r of Inl _ \<Rightarrow> ob | Inr ob' \<Rightarrow> ob')"

fun outbox_step :: "outbox \<Rightarrow> outbox_op \<Rightarrow> outbox" where
  "outbox_step ob (AuthorPairwise sl me c kind payload reply t i) = committed ob (author_pairwise_message sl ob me c kind payload reply t i)"
| "outbox_step ob (BackfillPairwise sl me c m reply i) = committed ob (backfill_pairwise_envelope sl ob me c m reply i)"
| "outbox_step ob (AuthorGroup sl me g kind payload reply t i) = committed ob (author_group_message sl ob me g kind payload reply t i)"
| "outbox_step ob (AuthorGroupUpdate sl me g name ms t i now) = committed ob (author_group_metadata_update sl ob me g name ms t i now)"
| "outbox_step ob (QueueInvites sl me g ms t ids) = committed ob (queue_group_invites sl ob me g ms t ids)"
| "outbox_step ob (AuthorReceipt sl me c acked rt l t i) = committed ob (author_receipt sl ob me c acked rt l t i)"
| "outbox_step ob (EnsureReceipt sl me c acked rt l t i) = committed ob (ensure_authored_receipt sl ob me c acked rt l t i)"
| "outbox_step ob (EnsureGroupReceipt sl me c g rt l t i) = committed ob (ensure_authored_group_receipt sl ob me c g rt l t i)"
| "outbox_step ob (RecordReceipt chat sender rt l via at) = committed_unit ob (record_receipt ob chat sender rt l via at)"
| "outbox_step ob (RecordOutgoing chat sender rt l) = committed_unit ob (record_outgoing_receipt ob chat sender rt l)"
| "outbox_step ob (MarkPosted i at) = fst (mark_outbound_envelope_relay_posted ob i at)"
| "outbox_step ob (MarkReceiptPosted i at) = fst (mark_outgoing_receipt_envelope_relay_posted ob i at)"
| "outbox_step ob (PruneOutbound now) = fst (prune_expired_outbound_envelopes ob now)"
| "outbox_step ob (PruneReceipts now) = fst (prune_expired_outgoing_receipt_envelopes ob now)"
| "outbox_step ob Sweep = fst (sweep_receipt_covered ob)"
| "outbox_step ob (DeleteContact u) = fst (delete_contact ob u)"
| "outbox_step ob (DeleteGroup g) = fst (delete_group ob g)"

text \<open>The ids an operation puts into the queue fit the 16-bit length fields of a deduplication key; ids are 16 bytes.\<close>

fun short_ids :: "outbox_op \<Rightarrow> bool" where
  "short_ids (AuthorPairwise sl me c kind payload reply t i) \<longleftrightarrow> length (id_user_id me) \<le> 65535 \<and> length (ct_user_id c) \<le> 65535"
| "short_ids (BackfillPairwise sl me c m reply i) \<longleftrightarrow> length (id_user_id me) \<le> 65535 \<and> length (ct_user_id c) \<le> 65535"
| "short_ids (AuthorGroup sl me g kind payload reply t i) \<longleftrightarrow> length (id_user_id me) \<le> 65535 \<and> length (gr_id g) \<le> 65535"
| "short_ids (AuthorGroupUpdate sl me g name ms t i now) \<longleftrightarrow> length (id_user_id me) \<le> 65535 \<and> length (gr_id g) \<le> 65535"
| "short_ids (QueueInvites sl me g ms t ids) \<longleftrightarrow> length (id_user_id me) \<le> 65535 \<and> length (gr_id g) \<le> 65535 \<and>
     (\<forall>c \<in> set ms. length (ct_user_id c) \<le> 65535)"
| "short_ids _ \<longleftrightarrow> True"

text \<open>What the primary keys and unique constraints say, that integers are 64-bit, and that the counter is
  at or above everything queued.\<close>

definition high_mark :: "outbox \<Rightarrow> bytes \<Rightarrow> bytes \<Rightarrow> i64" where
  "high_mark ob chat sender =
     coalesce_i64 (sql_max (map wr_high_lamport
       (filter (\<lambda>w. wr_chat_id w = chat \<and> wr_sender_user_id w = sender) (ob_watermarks ob)))) 0"

definition row_key :: "outbound_row \<Rightarrow> bytes" where
  "row_key r = outbound_message_dedupe_key (or_chat_id r) (or_sender_user_id r) (or_kind r) (as_u64 (or_lamport r)) (or_recipient_user_id r)"

definition queue_ok :: "outbound_row list \<Rightarrow> bool" where
  "queue_ok rows \<longleftrightarrow> distinct (map or_msg_id rows) \<and> distinct (map or_dedupe_key rows) \<and>
     (\<forall>r \<in> set rows. i64_ok (or_lamport r) \<and> or_dedupe_key r = row_key r \<and>
        length (or_chat_id r) \<le> 65535 \<and> length (or_sender_user_id r) \<le> 65535 \<and> length (or_recipient_user_id r) \<le> 65535)"

definition outbox_ok :: "outbox \<Rightarrow> bool" where
  "outbox_ok ob \<longleftrightarrow> queue_ok (ob_outbound ob) \<and>
     distinct (map message_key (ob_messages ob)) \<and> (\<forall>m \<in> set (ob_messages ob). i64_ok (mr_lamport m)) \<and>
     distinct (map (\<lambda>r. (rr_chat_id r, rr_sender_user_id r, rr_receipt_type r)) (ob_receipts ob)) \<and>
     (\<forall>r \<in> set (ob_receipts ob). i64_ok (rr_through_lamport r)) \<and>
     distinct (map (\<lambda>w. (wr_chat_id w, wr_sender_user_id w)) (ob_watermarks ob)) \<and>
     (\<forall>w \<in> set (ob_watermarks ob). i64_ok (wr_high_lamport w)) \<and>
     (\<forall>r \<in> set (ob_outbound ob). or_lamport r \<le> high_mark ob (or_chat_id r) (or_sender_user_id r))"

lemma sql_max_Max: "sql_max xs = (if xs = [] then None else Some (Max (set xs)))"
  by (cases xs) (auto simp: sql_max_def Max.set_eq_fold simp del: list.set(2))

lemma coalesce_max_ge: "x \<in> set xs \<Longrightarrow> x \<le> coalesce_i64 (sql_max xs) d"
  by (auto simp: sql_max_Max coalesce_i64_def)

lemma coalesce_max_in: "coalesce_i64 (sql_max xs) d \<in> set xs \<or> xs = [] \<and> coalesce_i64 (sql_max xs) d = d"
  by (cases "xs = []") (auto simp: sql_max_Max coalesce_i64_def)

lemma coalesce_max_ok: "\<forall>x \<in> set xs. i64_ok x \<Longrightarrow> i64_ok (coalesce_i64 (sql_max xs) 0)"
  using coalesce_max_in [of xs 0] by (auto simp: i64_ok_def i64_bound_defs)

subsection \<open>The counter\<close>

lemma high_mark_recorded:
  assumes "0 \<le> as_i64 (sm_lamport m)"
  shows "high_mark (record_authored_watermark ob m) c s =
    (if c = sm_chat_id m \<and> s = sm_sender_user_id m then max (high_mark ob c s) (as_i64 (sm_lamport m)) else high_mark ob c s)"
proof -
  let ?l = "as_i64 (sm_lamport m)" and ?W = "ob_watermarks ob"
  let ?same = "\<lambda>w. wr_chat_id w = sm_chat_id m \<and> wr_sender_user_id w = sm_sender_user_id m"
  let ?up = "\<lambda>w. if ?same w then w\<lparr>wr_high_lamport := max (wr_high_lamport w) ?l\<rparr> else w"
  have up: "wr_chat_id (?up w) = wr_chat_id w" "wr_sender_user_id (?up w) = wr_sender_user_id w" for w by simp_all
  have filt: "filter (\<lambda>w. wr_chat_id w = c \<and> wr_sender_user_id w = s) (map ?up ws) =
      map ?up (filter (\<lambda>w. wr_chat_id w = c \<and> wr_sender_user_id w = s) ws)" for ws
    by (induction ws) auto
  show ?thesis
  proof (cases "c = sm_chat_id m \<and> s = sm_sender_user_id m")
    case True
    let ?F = "filter ?same ?W"
    have mx: "coalesce_i64 (sql_max (map (\<lambda>w. max (wr_high_lamport w) ?l) ws)) 0 = max (coalesce_i64 (sql_max (map wr_high_lamport ws)) 0) ?l"
      if "ws \<noteq> []" for ws
    proof -
      have "Max ((\<lambda>w. max (wr_high_lamport w) ?l) ` set ws) = Max ((\<lambda>x. max x ?l) ` wr_high_lamport ` set ws)"
        by (simp add: image_image)
      also have "\<dots> = max (Max (wr_high_lamport ` set ws)) ?l"
        using that by (subst mono_Max_commute [symmetric]) (auto simp: mono_def)
      finally show ?thesis using that by (simp add: sql_max_Max coalesce_i64_def)
    qed
    have F: "map wr_high_lamport (map ?up ?F) = map (\<lambda>w. max (wr_high_lamport w) ?l) ?F" by auto
    have G: "filter ?same (map ?up ws) = map ?up (filter ?same ws)" for ws by (induction ws) auto
    show ?thesis
    proof (cases "\<exists>w \<in> set ?W. ?same w")
      case ex: True
      then have "?F \<noteq> []" by (auto simp: filter_empty_conv)
      from mx [OF this] have "coalesce_i64 (sql_max (map wr_high_lamport (filter ?same (map ?up ?W)))) 0 =
          max (coalesce_i64 (sql_max (map wr_high_lamport ?F)) 0) ?l"
        by (simp only: G F)
      with ex True show ?thesis by (simp only: record_authored_watermark_def high_mark_def Let_def) simp
    next
      case none: False
      then have "?F = []" by (auto simp: filter_empty_conv)
      with none True assms show ?thesis
        by (auto simp: record_authored_watermark_def high_mark_def Let_def sql_max_def coalesce_i64_def)
    qed
  next
    case False
    have "map wr_high_lamport (map ?up (filter (\<lambda>w. wr_chat_id w = c \<and> wr_sender_user_id w = s) ?W)) =
        map wr_high_lamport (filter (\<lambda>w. wr_chat_id w = c \<and> wr_sender_user_id w = s) ?W)"
      using False by auto
    then have "coalesce_i64 (sql_max (map wr_high_lamport (filter (\<lambda>w. wr_chat_id w = c \<and> wr_sender_user_id w = s) (map ?up ?W)))) 0 =
        coalesce_i64 (sql_max (map wr_high_lamport (filter (\<lambda>w. wr_chat_id w = c \<and> wr_sender_user_id w = s) ?W))) 0"
      by (simp only: filt)
    with False show ?thesis
      by (simp only: record_authored_watermark_def high_mark_def Let_def) auto
  qed
qed

subsection \<open>What one authored message changes\<close>

definition matching :: "stored_message \<Rightarrow> outbound_envelope \<Rightarrow> bool" where
  "matching m e \<longleftrightarrow> oe_chat_id e = sm_chat_id m \<and> oe_sender_user_id e = sm_sender_user_id m \<and> oe_kind e = sm_kind m \<and>
     oe_lamport e = sm_lamport m \<and> uint (sm_lamport m) \<le> i64_max"

definition short_envelope :: "outbound_envelope \<Rightarrow> bool" where
  "short_envelope e \<longleftrightarrow> length (oe_chat_id e) \<le> 65535 \<and> length (oe_sender_user_id e) \<le> 65535 \<and> length (oe_recipient_user_id e) \<le> 65535"

lemma dedupe_key_inject:
  assumes "outbound_message_dedupe_key a b k l c = outbound_message_dedupe_key a' b' k' l' c'"
    "length a \<le> 65535" "length b \<le> 65535" "length c \<le> 65535" "length a' \<le> 65535" "length b' \<le> 65535" "length c' \<le> 65535"
  shows "a = a' \<and> b = b' \<and> k = k' \<and> l = l' \<and> c = c'"
proof -
  note split = bytes_codec.code.put_split
  from assms(1) have 1: "a = a' \<and> wire_bytes b @ k # u64_bytes l @ wire_bytes c = wire_bytes b' @ k' # u64_bytes l' @ wire_bytes c'"
    by (intro split) (simp_all add: outbound_message_dedupe_key_def assms)
  then have 2: "b = b' \<and> k # u64_bytes l @ wire_bytes c = k' # u64_bytes l' @ wire_bytes c'"
    by (intro split) (simp_all add: assms)
  then have "l = l' \<and> wire_bytes c = wire_bytes c'"
    by (intro u64_codec.code.put_split) simp_all
  moreover from this have "c = c' \<and> [] = ([] :: bytes)" by (intro split) (simp_all add: assms)
  ultimately show ?thesis using 1 2 by simp
qed

lemma matching_lamport: "matching m e \<Longrightarrow> 0 \<le> as_i64 (sm_lamport m)"
  by (simp add: matching_def as_i64_small)

lemma encode_body_lamport: "encode_message_body b = Inr out \<Longrightarrow> uint (mb_lamport b) \<le> i64_max"
  by (auto simp: encode_message_body_def validate_message_body_fields_def and_then_Inr split: if_splits)

lemma encoded_body_lamport: "encoded_body m w r = Inr out \<Longrightarrow> uint (sm_lamport m) \<le> i64_max"
  by (auto simp: encoded_body_def Let_def and_then_Inr encode_message_body_with_reply_def encode_message_body_extended_def
      split: option.splits dest!: encode_body_lamport)

lemma built_envelope:
  assumes "build_pairwise_envelope sl me c m reply t i x = Inr e"
  shows "matching m e" "oe_msg_id e = i" "oe_recipient_user_id e = ct_user_id c" "oe_expiry e = x"
  using assms by (auto simp: build_pairwise_envelope_def and_then_Inr matching_def dest: encoded_body_lamport)

lemma group_envelope_matching:
  "encoded_body m w r = Inr out \<Longrightarrow> sm_chat_id m = gr_id g \<Longrightarrow> matching m (group_envelope sl g m i sealed t)"
  by (simp add: matching_def group_envelope_def encoded_body_lamport)

definition superseded_by :: "outbox \<Rightarrow> outbound_envelope \<Rightarrow> outbound_row \<Rightarrow> bool" where
  "superseded_by ob e r \<longleftrightarrow> supersedes_queued_generations (oe_kind e) \<and> oe_recipient_user_id e = oe_chat_id e \<and>
     retire_superseded_sql ob (oe_recipient_user_id e) (oe_sender_user_id e) (oe_kind e) (as_i64 (oe_lamport e)) r"

lemma draft_frame:
  assumes "clear_chat_draft ob chat t = Inr ob'"
  shows "\<exists>s. ob' = ob\<lparr>ob_settings := s\<rparr>"
proof -
  have "\<exists>s. ob = ob\<lparr>ob_settings := s\<rparr>" by (rule exI [of _ "ob_settings ob"]) simp
  with assms show ?thesis
    by (auto simp: clear_chat_draft_def put_setting_def Let_def split: option.splits if_splits)
qed

lemma recorded_frame: "\<exists>w. record_authored_watermark ob m = ob\<lparr>ob_watermarks := w\<rparr>"
  by (auto simp: record_authored_watermark_def Let_def)

lemma inserted_rows:
  assumes "insert_authored_rows ob m e reply t = Inr ob'"
  shows "ob_watermarks ob' = ob_watermarks (record_authored_watermark ob m)"
    "ob_messages ob' = ob_messages (insert_message ob (message_row_of m (oe_msg_id e) reply))"
    "ob_outbound ob' = filter (\<lambda>r. \<not> superseded_by ob e r) (ob_outbound (queue_outbound_row ob e t))"
    "ob_receipts ob' = ob_receipts ob" "ob_contacts ob' = ob_contacts ob" "ob_groups ob' = ob_groups ob"
    "ob_own_device ob' = ob_own_device ob"
proof -
  obtain w where w: "record_authored_watermark ob m = ob\<lparr>ob_watermarks := w\<rparr>"
    using recorded_frame by blast
  let ?ob1 = "ob\<lparr>ob_watermarks := w\<rparr>"
  let ?ob2 = "insert_message ?ob1 (message_row_of m (oe_msg_id e) reply)"
  let ?ob3 = "queue_outbound_row ?ob2 e t"
  obtain s where ob': "ob' = fst (retire_superseded (?ob3\<lparr>ob_settings := s\<rparr>) (oe_recipient_user_id e) (oe_chat_id e)
      (oe_sender_user_id e) (oe_kind e) (oe_lamport e))"
  proof -
    obtain ob4 where "ob4 = ?ob3 \<or> clear_chat_draft ?ob3 (sm_chat_id m) t = Inr ob4"
      and ob': "ob' = fst (retire_superseded ob4 (oe_recipient_user_id e) (oe_chat_id e) (oe_sender_user_id e) (oe_kind e) (oe_lamport e))"
      using assms unfolding insert_authored_rows_def Let_def w by (auto simp: and_then_Inr split: if_splits)
    then have "\<exists>s. ob4 = ?ob3\<lparr>ob_settings := s\<rparr>"
      using draft_frame by (metis outbox.surjective outbox.update_convs(12))
    with ob' that show ?thesis by auto
  qed
  have grp: "is_group (?ob3\<lparr>ob_settings := s\<rparr>) = is_group ob"
    by (rule ext) (simp add: is_group_def insert_message_def queue_outbound_row_def Let_def)
  have sup: "retire_superseded_sql (?ob3\<lparr>ob_settings := s\<rparr>) = retire_superseded_sql ob"
    by (intro ext) (simp add: retire_superseded_sql_def grp)
  have q: "ob_outbound ?ob3 = ob_outbound (queue_outbound_row ob e t)"
    by (simp add: queue_outbound_row_def insert_message_def Let_def)
  show "ob_outbound ob' = filter (\<lambda>r. \<not> superseded_by ob e r) (ob_outbound (queue_outbound_row ob e t))"
    unfolding ob' q [symmetric]
    by (cases "supersedes_queued_generations (oe_kind e) \<and> oe_recipient_user_id e = oe_chat_id e")
      (auto simp: retire_superseded_def delete_outbound_def superseded_by_def sup)
  show "ob_watermarks ob' = ob_watermarks (record_authored_watermark ob m)"
    "ob_messages ob' = ob_messages (insert_message ob (message_row_of m (oe_msg_id e) reply))"
    "ob_receipts ob' = ob_receipts ob" "ob_contacts ob' = ob_contacts ob" "ob_groups ob' = ob_groups ob"
    "ob_own_device ob' = ob_own_device ob"
    unfolding ob' w by (simp_all add: retire_superseded_def delete_outbound_def queue_outbound_row_def insert_message_def Let_def)
qed

subsection \<open>The invariant\<close>

lemma queue_ok_filter: "queue_ok rows \<Longrightarrow> queue_ok (filter P rows)"
  by (auto simp: queue_ok_def distinct_map_filter)

lemma queue_ok_queued: "queue_ok (ob_outbound ob) \<Longrightarrow> short_envelope e \<Longrightarrow> queue_ok (ob_outbound (queue_outbound_row ob e t))"
  by (auto simp: queue_ok_def queue_outbound_row_def Let_def envelope_row_def row_key_def short_envelope_def)

lemma queued_rows:
  "r \<in> set (ob_outbound (queue_outbound_row ob e t)) \<Longrightarrow> r \<in> set (ob_outbound ob) \<or> r = envelope_row e t"
  by (auto simp: queue_outbound_row_def Let_def split: if_splits)

definition messages_ok :: "outbox \<Rightarrow> bool" where
  "messages_ok ob \<longleftrightarrow> distinct (map message_key (ob_messages ob)) \<and> (\<forall>m \<in> set (ob_messages ob). i64_ok (mr_lamport m))"

definition receipts_ok :: "outbox \<Rightarrow> bool" where
  "receipts_ok ob \<longleftrightarrow>
     distinct (map (\<lambda>r. (rr_chat_id r, rr_sender_user_id r, rr_receipt_type r)) (ob_receipts ob)) \<and>
     (\<forall>r \<in> set (ob_receipts ob). i64_ok (rr_through_lamport r))"

definition marks_ok :: "outbox \<Rightarrow> bool" where
  "marks_ok ob \<longleftrightarrow>
     distinct (map (\<lambda>w. (wr_chat_id w, wr_sender_user_id w)) (ob_watermarks ob)) \<and>
     (\<forall>w \<in> set (ob_watermarks ob). i64_ok (wr_high_lamport w))"

lemma outbox_ok_iff:
  "outbox_ok ob \<longleftrightarrow> queue_ok (ob_outbound ob) \<and> messages_ok ob \<and> receipts_ok ob \<and> marks_ok ob \<and>
     (\<forall>r \<in> set (ob_outbound ob). or_lamport r \<le> high_mark ob (or_chat_id r) (or_sender_user_id r))"
  by (simp add: outbox_ok_def messages_ok_def receipts_ok_def marks_ok_def)

lemma marks_ok_recorded: "marks_ok ob \<Longrightarrow> marks_ok (record_authored_watermark ob m)"
proof -
  assume ok: "marks_ok ob"
  have mx: "i64_ok a \<Longrightarrow> i64_ok b \<Longrightarrow> i64_ok (max a b)" for a b by (auto simp: max_def)
  have keys: "map (\<lambda>w. (wr_chat_id w, wr_sender_user_id w)) (map (\<lambda>w. if P w then w\<lparr>wr_high_lamport := h w\<rparr> else w) ws) =
      map (\<lambda>w. (wr_chat_id w, wr_sender_user_id w)) ws" for P h ws
    by (induction ws) auto
  from ok show ?thesis
    by (auto simp: marks_ok_def record_authored_watermark_def Let_def mx keys simp del: map_map)
qed

lemma messages_ok_inserted: "messages_ok ob \<Longrightarrow> i64_ok (mr_lamport m) \<Longrightarrow> messages_ok (insert_message ob m)"
  by (auto simp: messages_ok_def insert_message_def)

lemma ok_inserted:
  assumes ok: "outbox_ok ob" and m: "matching m e" "short_envelope e" and ins: "insert_authored_rows ob m e reply t = Inr ob'"
  shows "outbox_ok ob'"
proof -
  note rows = inserted_rows [OF ins]
  have high: "high_mark ob' c s = high_mark (record_authored_watermark ob m) c s" for c s
    by (simp add: high_mark_def rows)
  have low: "or_lamport r \<le> high_mark ob' (or_chat_id r) (or_sender_user_id r)" if "r \<in> set (ob_outbound ob')" for r
  proof -
    from that have "r \<in> set (ob_outbound ob) \<or> r = envelope_row e t" by (auto simp: rows dest: queued_rows)
    then show ?thesis
    proof
      assume "r \<in> set (ob_outbound ob)"
      with ok have "or_lamport r \<le> high_mark ob (or_chat_id r) (or_sender_user_id r)" by (simp add: outbox_ok_iff)
      then show ?thesis by (auto simp: high high_mark_recorded [OF matching_lamport [OF m(1)]])
    next
      assume "r = envelope_row e t"
      with m(1) show ?thesis by (simp add: high high_mark_recorded [OF matching_lamport [OF m(1)]] envelope_row_def matching_def)
    qed
  qed
  have "queue_ok (ob_outbound ob')" using ok m(2) by (simp add: rows outbox_ok_iff queue_ok_filter queue_ok_queued)
  moreover have "messages_ok ob'"
    using ok messages_ok_inserted [of ob "message_row_of m (oe_msg_id e) reply"]
    by (simp add: outbox_ok_iff messages_ok_def rows message_row_of_def)
  moreover have "marks_ok ob'"
    using ok marks_ok_recorded [of ob m] by (simp add: outbox_ok_iff marks_ok_def rows)
  moreover have "receipts_ok ob'" using ok by (simp add: outbox_ok_iff receipts_ok_def rows)
  ultimately show ?thesis using low by (simp add: outbox_ok_iff)
qed

text \<open>An operation that touches none of the four tables, or only drops queued rows, keeps the invariant.\<close>

lemma ok_frame:
  assumes "outbox_ok ob" "ob_watermarks ob' = ob_watermarks ob"
    "ob_messages ob' = ob_messages ob \<or> messages_ok ob'" "ob_receipts ob' = ob_receipts ob \<or> receipts_ok ob'"
    "queue_ok (ob_outbound ob')"
    "\<And>r. r \<in> set (ob_outbound ob') \<Longrightarrow> \<exists>q \<in> set (ob_outbound ob). or_lamport q = or_lamport r \<and> or_chat_id q = or_chat_id r \<and>
        or_sender_user_id q = or_sender_user_id r"
  shows "outbox_ok ob'"
proof -
  have high: "high_mark ob' = high_mark ob" by (intro ext) (simp add: high_mark_def assms(2))
  have "or_lamport r \<le> high_mark ob' (or_chat_id r) (or_sender_user_id r)" if "r \<in> set (ob_outbound ob')" for r
    using assms(6) [OF that] assms(1) by (auto simp: outbox_ok_iff high)
  with assms(1-5) show ?thesis
    by (auto simp: outbox_ok_iff messages_ok_def receipts_ok_def marks_ok_def)
qed

subsection \<open>What each operation changes\<close>

lemma covered_frame:
  "fst (retire_receipt_covered ob chat sender l) =
     ob\<lparr>ob_outbound := filter (\<lambda>r. l = 0 \<or> \<not> retire_covered_sql ob chat sender (as_i64 l) r) (ob_outbound ob)\<rparr>"
  by (cases "l = 0") (simp_all add: retire_receipt_covered_def delete_outbound_def)

text \<open>Two states with the same messages, queue, receipts, counters, contacts and groups.\<close>

definition same_mail :: "outbox \<Rightarrow> outbox \<Rightarrow> bool" where
  "same_mail ob ob' \<longleftrightarrow> ob_outbound ob' = ob_outbound ob \<and> ob_messages ob' = ob_messages ob \<and> ob_receipts ob' = ob_receipts ob \<and>
     ob_watermarks ob' = ob_watermarks ob \<and> ob_contacts ob' = ob_contacts ob \<and> ob_groups ob' = ob_groups ob"

lemma same_mail_refl [simp]: "same_mail ob ob"
  by (simp add: same_mail_def)

lemma evidence_frame: "same_mail ob (record_delivered_evidence ob chat sender p l via t)"
  by (auto simp: record_delivered_evidence_def record_peer_connection_event_tx_def Let_def same_mail_def split: option.splits)

lemma retire_covered_cong:
  "is_contact ob' = is_contact ob \<Longrightarrow> is_group ob' = is_group ob \<Longrightarrow> has_message ob' = has_message ob \<Longrightarrow>
   retire_covered_sql ob' = retire_covered_sql ob"
  by (intro ext) (simp add: retire_covered_sql_def)

lemma posted_cases:
  "fst (mark_outbound_envelope_relay_posted ob i t) =
     (let marked = ob\<lparr>ob_outbound := map (\<lambda>r. if or_msg_id r = i then r\<lparr>or_relay_posted_at := Some t\<rparr> else r) (ob_outbound ob)\<rparr> in
      if \<exists>r \<in> set (ob_outbound ob). or_msg_id r = i then fst (retire_covered_after_relay_post marked i) else marked)"
  by (simp add: mark_outbound_envelope_relay_posted_def Let_def)

lemma after_post_cases:
  "fst (retire_covered_after_relay_post ob i) = ob \<or>
   (\<exists>chat sender. fst (retire_covered_after_relay_post ob i) =
      fst (retire_receipt_covered ob chat sender (delivered_watermark ob chat sender)))"
  by (auto simp: retire_covered_after_relay_post_def split: option.splits)

lemma sweep_frame: "\<exists>rows. fst (sweep_receipt_covered ob) = ob\<lparr>ob_outbound := rows\<rparr> \<and> (\<exists>P. rows = filter P (ob_outbound ob))"
proof -
  let ?f = "\<lambda>(acc, removed) rc. if rr_through_lamport rc \<le> 0 then (acc, removed)
         else let (acc', n) = retire_receipt_covered acc (rr_chat_id rc) (rr_sender_user_id rc) (as_u64 (rr_through_lamport rc))
              in (acc', removed + n)"
  have "\<exists>P. fst (foldl ?f (a, k) rcs) = a\<lparr>ob_outbound := filter P (ob_outbound a)\<rparr>" for rcs a k
  proof (induction rcs arbitrary: a k)
    case Nil
    show ?case by (rule exI [of _ "\<lambda>_. True"]) simp
  next
    case (Cons rc rcs)
    show ?case
    proof (cases "rr_through_lamport rc \<le> 0")
      case True
      with Cons show ?thesis by simp
    next
      case False
      obtain a' n where an: "retire_receipt_covered a (rr_chat_id rc) (rr_sender_user_id rc) (as_u64 (rr_through_lamport rc)) = (a', n)"
        by fastforce
      then obtain Q where a': "a' = a\<lparr>ob_outbound := filter Q (ob_outbound a)\<rparr>"
        using covered_frame [of a "rr_chat_id rc" "rr_sender_user_id rc" "as_u64 (rr_through_lamport rc)"] by auto
      from Cons [of a' "k + n"] obtain P where "fst (foldl ?f (a', k + n) rcs) = a'\<lparr>ob_outbound := filter P (ob_outbound a')\<rparr>" by auto
      with False an a' have "fst (foldl ?f (a, k) (rc # rcs)) = a\<lparr>ob_outbound := filter (\<lambda>r. Q r \<and> P r) (ob_outbound a)\<rparr>"
        by (simp add: conj_commute)
      then show ?thesis by blast
    qed
  qed
  from this [of ob 0] show ?thesis unfolding sweep_receipt_covered_def by blast
qed

definition receipt_op :: "outbox_op \<Rightarrow> bool" where
  "receipt_op op \<longleftrightarrow> (case op of AuthorReceipt _ _ _ _ _ _ _ _ \<Rightarrow> True | EnsureReceipt _ _ _ _ _ _ _ _ \<Rightarrow> True
     | EnsureGroupReceipt _ _ _ _ _ _ _ _ \<Rightarrow> True | RecordOutgoing _ _ _ _ \<Rightarrow> True | MarkReceiptPosted _ _ \<Rightarrow> True
     | PruneReceipts _ \<Rightarrow> True | _ \<Rightarrow> False)"

lemma upsert_receipt_envelope_frame: "upsert_receipt_envelope ob e t = Inr ob' \<Longrightarrow> same_mail ob ob'"
  by (auto simp: upsert_receipt_envelope_def Let_def same_mail_def split: if_splits)

lemma upsert_outgoing_frame: "same_mail (upsert_outgoing f ob c s t l) ob' \<Longrightarrow> same_mail ob ob'"
  by (simp add: upsert_outgoing_def same_mail_def)

lemmas receipt_frames = upsert_outgoing_frame [OF upsert_receipt_envelope_frame]

lemma ensure_receipt_frame: "ensure_receipt sl ob me c chat acked g rt l t i = Inr (x, ob') \<Longrightarrow> same_mail ob ob'"
  by (auto simp: ensure_receipt_def Let_def and_then_Inr split: option.splits if_splits dest: receipt_frames)

lemma committed_frame:
  "(\<And>x ob'. r = Inr (x, ob') \<Longrightarrow> same_mail ob ob') \<Longrightarrow> same_mail ob (committed ob r)"
  by (cases r) (auto simp: committed_def)

lemma receipt_op_frame: "receipt_op op \<Longrightarrow> same_mail ob (outbox_step ob op)"
proof (cases op)
  case (AuthorReceipt sl me c acked rt l t i)
  show ?thesis unfolding AuthorReceipt outbox_step.simps
    by (rule committed_frame) (auto simp: author_receipt_def Let_def and_then_Inr split: option.splits if_splits dest: receipt_frames)
next
  case (EnsureReceipt sl me c acked rt l t i)
  show ?thesis unfolding EnsureReceipt outbox_step.simps
    by (rule committed_frame) (auto simp: ensure_authored_receipt_def and_then_Inr split: if_splits dest: ensure_receipt_frame)
next
  case (EnsureGroupReceipt sl me c g rt l t i)
  show ?thesis unfolding EnsureGroupReceipt outbox_step.simps
    by (rule committed_frame) (auto simp: ensure_authored_group_receipt_def and_then_Inr split: if_splits dest: ensure_receipt_frame)
next
  case (RecordOutgoing chat sender rt l)
  then show ?thesis
    by (cases "validate_receipt_watermark rt l")
      (simp_all add: committed_unit_def record_outgoing_receipt_def same_mail_def upsert_outgoing_def)
qed (simp_all add: receipt_op_def same_mail_def mark_outgoing_receipt_envelope_relay_posted_def
      prune_expired_outgoing_receipt_envelopes_def)

lemma author_pairwise_Inr:
  assumes "author_pairwise_message sl ob me c kind payload reply t i = Inr (a, ob')"
  obtains m e where "ae_message a = m" "ae_envelope a = e" "matching m e" "insert_authored_rows ob m e reply t = Inr ob'"
    "oe_msg_id e = i" "oe_recipient_user_id e = ct_user_id c" "sm_chat_id m = ct_user_id c" "sm_sender_user_id m = id_user_id me"
    "sm_kind m = kind" "sm_payload m = payload" "sm_sender_device_id m = own_authoring_device_id ob"
    "sm_lamport m = fst (next_authored_lamport ob (ct_user_id c) (id_user_id me))"
proof -
  define m where "m = pairwise_message ob me (ct_user_id c) kind payload (fst (next_authored_lamport ob (ct_user_id c) (id_user_id me))) t"
  from assms obtain e where e: "build_pairwise_envelope sl me c m reply t i (authored_expiry kind t) = Inr e"
    "insert_authored_rows ob m e reply t = Inr ob'" "ae_message a = m" "ae_envelope a = e"
    by (auto simp: author_pairwise_message_def and_then_Inr authored_def m_def Let_def split: if_splits prod.splits)
  from built_envelope [OF e(1)] e(2-4) show thesis by (rule_tac that [of m e]) (auto simp: m_def pairwise_message_def)
qed

lemma author_group_Inr:
  assumes "author_group_message sl ob me g kind payload reply t i = Inr (a, ob')"
  obtains m e where "ae_message a = m" "matching m e" "insert_authored_rows ob m e reply t = Inr ob'"
    "oe_recipient_user_id e = gr_id g" "sm_chat_id m = gr_id g" "sm_sender_user_id m = id_user_id me"
    "sm_kind m \<in> {KIND_TEXT, KIND_ATTACHMENT_MANIFEST, KIND_REACTION}"
    "sm_lamport m = fst (next_authored_lamport ob (gr_id g) (id_user_id me))"
proof -
  define m where "m = pairwise_message ob me (gr_id g) kind payload (fst (next_authored_lamport ob (gr_id g) (id_user_id me))) t"
  from assms obtain body sealed where e: "encoded_body m (gr_id g) reply = Inr body"
    "insert_authored_rows ob m (group_envelope sl g m i sealed t) reply t = Inr ob'" "ae_message a = m"
    "kind \<in> {KIND_TEXT, KIND_ATTACHMENT_MANIFEST, KIND_REACTION}"
    by (auto simp: author_group_message_def and_then_Inr authored_def m_def Let_def split: if_splits prod.splits)
  show thesis
    using e group_envelope_matching [OF e(1), of g]
    by (rule_tac that [of m "group_envelope sl g m i sealed t"]) (auto simp: m_def pairwise_message_def group_envelope_def)
qed

lemma upsert_group_frame:
  "upsert_group_tx ob g now = Inr ob' \<Longrightarrow> ob_outbound ob' = ob_outbound ob \<and> ob_messages ob' = ob_messages ob \<and>
     ob_receipts ob' = ob_receipts ob \<and> ob_watermarks ob' = ob_watermarks ob \<and> ob_contacts ob' = ob_contacts ob"
  by (auto simp: upsert_group_tx_def Let_def and_then_Inr split: option.splits if_splits)

lemma author_group_update_Inr:
  assumes "author_group_metadata_update sl ob me g name ms t i now = Inr (a, ob')"
  obtains m e g' ob1 where "upsert_group_tx ob g' now = Inr ob1" "matching m e" "insert_authored_rows ob1 m e None t = Inr ob'"
    "oe_recipient_user_id e = gr_id g" "sm_chat_id m = gr_id g" "sm_sender_user_id m = id_user_id me"
    "sm_kind m = KIND_GROUP_METADATA_UPDATE"
proof -
  obtain l k where lk: "next_authored_lamport ob (gr_id g) (id_user_id me) = (l, k)" by fastforce
  from assms obtain payload g' ob1 body sealed where
      e: "upsert_group_tx ob g' now = Inr ob1"
        "encoded_body (pairwise_message ob me (gr_id g) KIND_GROUP_METADATA_UPDATE payload l t) (gr_id g) None = Inr body"
        "insert_authored_rows ob1 (pairwise_message ob me (gr_id g) KIND_GROUP_METADATA_UPDATE payload l t)
          (group_envelope sl g (pairwise_message ob me (gr_id g) KIND_GROUP_METADATA_UPDATE payload l t) i sealed t) None t = Inr ob'"
    by (auto simp: author_group_metadata_update_def and_then_Inr Let_def lk split: option.splits)
  show thesis
    using group_envelope_matching [OF e(2), of g] by (rule_tac that [OF e(1) _ e(3)]) (auto simp: pairwise_message_def group_envelope_def)
qed

lemma queue_invites_induct:
  assumes "queue_invites sl me m t k ids ms ob = Inr (xs, ob')" "P ob"
    and step: "\<And>c i e s s'. c \<in> set ms \<Longrightarrow> build_pairwise_envelope sl me c m None t i (authored_expiry KIND_GROUP_INVITE t) = Inr e \<Longrightarrow>
      P s \<Longrightarrow> insert_authored_rows s m e None t = Inr s' \<Longrightarrow> P s'"
  shows "P ob'"
  using assms
proof (induction ms arbitrary: ids ob xs)
  case (Cons c ms)
  note st = Cons.prems(3) [OF list.set_intros(2)]
  show ?case
  proof (cases "ct_user_id c = id_user_id me")
    case True
    with Cons.prems(1) show ?thesis by (intro Cons.IH [OF _ Cons.prems(2) st]) auto
  next
    case False
    with Cons.prems(1) obtain e s ys where e: "build_pairwise_envelope sl me c m None t (ids 0) (authored_expiry KIND_GROUP_INVITE t) = Inr e"
        "insert_authored_rows ob m e None t = Inr s" "queue_invites sl me m t k (\<lambda>n. ids (Suc n)) ms s = Inr (ys, ob')"
      by (auto simp: and_then_Inr)
    have "P s" by (rule Cons.prems(3) [OF _ e(1) Cons.prems(2) e(2)]) simp
    from Cons.IH [OF e(3) this st] show ?thesis .
  qed
qed simp

lemma invites_Inr:
  assumes "queue_group_invites sl ob me g ms t ids = Inr (xs, ob')"
  obtains m k where "queue_invites sl me m t k ids ms ob = Inr (xs, ob')" "sm_chat_id m = gr_id g"
    "sm_sender_user_id m = id_user_id me" "sm_kind m = KIND_GROUP_INVITE"
    "sm_lamport m = fst (next_authored_lamport ob (gr_id g) (id_user_id me))"
proof -
  define m where "m invite = pairwise_message ob me (gr_id g) KIND_GROUP_INVITE invite
      (fst (next_authored_lamport ob (gr_id g) (id_user_id me))) t" for invite
  from assms obtain invite where "queue_invites sl me (m invite) t (snd (next_authored_lamport ob (gr_id g) (id_user_id me))) ids ms ob = Inr (xs, ob')"
    by (auto simp: queue_group_invites_def and_then_Inr m_def Let_def case_prod_beta)
  then show thesis by (rule that) (simp_all add: m_def pairwise_message_def)
qed

lemma backfill_Inr:
  assumes "backfill_pairwise_envelope sl ob me c m reply f = Inr (a, ob')"
  obtains (queued) r where "r \<in> set (ob_outbound ob)" "ob' = ob" "ae_envelope a = row_to_outbound r"
      "or_lamport r = as_i64 (sm_lamport m)" "or_kind r = sm_kind m" "or_chat_id r = ct_user_id c"
      "or_sender_user_id r = id_user_id me" "or_recipient_user_id r = ct_user_id c"
  | (built) i ob1 e where "stable_backfill_msg_id ob m f = (i, ob1)" "ae_envelope a = e" "matching m e" "oe_msg_id e = i"
      "oe_recipient_user_id e = ct_user_id c" "sm_chat_id m = ct_user_id c" "sm_sender_user_id m = id_user_id me"
      "\<not> (\<exists>r \<in> set (ob_outbound ob). or_chat_id r = sm_chat_id m \<and> or_sender_user_id r = sm_sender_user_id m \<and> or_kind r = sm_kind m \<and>
           or_lamport r = as_i64 (sm_lamport m) \<and> or_recipient_user_id r = ct_user_id c)"
      "ob' = (let ob2 = record_authored_watermark ob1 m in
              if backfill_rejoins_the_queue ob2 e then queue_outbound_row ob2 e (sm_timestamp m) else ob2)"
proof -
  let ?P = "\<lambda>r. or_chat_id r = sm_chat_id m \<and> or_sender_user_id r = sm_sender_user_id m \<and> or_kind r = sm_kind m \<and>
      or_lamport r = as_i64 (sm_lamport m) \<and> or_recipient_user_id r = ct_user_id c"
  have ids: "sm_chat_id m = ct_user_id c" "sm_sender_user_id m = id_user_id me"
    using assms by (auto simp: backfill_pairwise_envelope_def and_then_Inr split: if_splits)
  show thesis
  proof (cases "List.find ?P (ob_outbound ob)")
    case None
    with assms ids obtain i ob1 e where e: "stable_backfill_msg_id ob m f = (i, ob1)"
        "build_pairwise_envelope sl me c m reply (sm_timestamp m) i (default_expiry (sm_timestamp m)) = Inr e"
        "ae_envelope a = e" "ob' = (let ob2 = record_authored_watermark ob1 m in
              if backfill_rejoins_the_queue ob2 e then queue_outbound_row ob2 e (sm_timestamp m) else ob2)"
      by (auto simp: backfill_pairwise_envelope_def and_then_Inr authored_def Let_def split: if_splits prod.splits)
    from None have "\<not> (\<exists>r \<in> set (ob_outbound ob). ?P r)" by (auto simp: find_None_iff)
    with e built_envelope [OF e(2)] ids show thesis by (intro built) auto
  next
    case (Some r)
    then have "r \<in> set (ob_outbound ob)" "?P r" by (auto simp: find_Some_iff)
    moreover have "a = authored m (row_to_outbound r) 0 \<and> ob' = ob"
      using assms Some ids by (simp add: backfill_pairwise_envelope_def and_then_Inr split: if_splits)
    ultimately show thesis using ids by (intro queued [of r]) (auto simp: authored_def)
  qed
qed

lemma ok_same_rows:
  "outbox_ok ob \<Longrightarrow> ob_outbound ob' = ob_outbound ob \<Longrightarrow> ob_messages ob' = ob_messages ob \<Longrightarrow> ob_receipts ob' = ob_receipts ob \<Longrightarrow>
   ob_watermarks ob' = ob_watermarks ob \<Longrightarrow> outbox_ok ob'"
  by (rule ok_frame) (auto simp: outbox_ok_iff)

lemma ok_same_mail: "outbox_ok ob \<Longrightarrow> same_mail ob ob' \<Longrightarrow> outbox_ok ob'"
  by (rule ok_same_rows) (simp_all add: same_mail_def)

lemma ok_filtered: "outbox_ok ob \<Longrightarrow> outbox_ok (ob\<lparr>ob_outbound := filter P (ob_outbound ob)\<rparr>)"
  by (rule ok_frame) (auto simp: outbox_ok_iff queue_ok_filter)

lemma ok_committed: "outbox_ok ob \<Longrightarrow> (\<And>x ob'. r = Inr (x, ob') \<Longrightarrow> outbox_ok ob') \<Longrightarrow> outbox_ok (committed ob r)"
  by (cases r) (auto simp: committed_def)

lemma receipts_ok_upsert:
  assumes "receipts_ok ob" "i64_ok (rr_through_lamport new)"
  shows "receipts_ok (ob\<lparr>ob_receipts := upsert_receipt new (ob_receipts ob)\<rparr>)"
proof -
  have mx: "i64_ok a \<Longrightarrow> i64_ok b \<Longrightarrow> i64_ok (max a b)" for a b by (auto simp: max_def)
  have keys: "map (\<lambda>r. (rr_chat_id r, rr_sender_user_id r, rr_receipt_type r))
      (map (\<lambda>r. if P r then r\<lparr>rr_via_transport := v r, rr_through_lamport := h r\<rparr> else r) rs) =
      map (\<lambda>r. (rr_chat_id r, rr_sender_user_id r, rr_receipt_type r)) rs" for P v h rs
    by (induction rs) auto
  from assms show ?thesis
    by (auto simp: receipts_ok_def upsert_receipt_def Let_def mx keys receipt_is_def simp del: map_map)
qed

definition with_receipt :: "outbox \<Rightarrow> bytes \<Rightarrow> bytes \<Rightarrow> u8 \<Rightarrow> u64 \<Rightarrow> u8 option \<Rightarrow> outbox" where
  "with_receipt ob chat sender rt l via = ob\<lparr>ob_receipts := upsert_receipt
     \<lparr>rr_chat_id = chat, rr_sender_user_id = sender, rr_receipt_type = rt, rr_through_lamport = as_i64 l, rr_via_transport = via\<rparr> (ob_receipts ob)\<rparr>"

lemma record_receipt_Inr:
  assumes "record_receipt ob chat sender rt l via at = Inr ob'"
  shows "validate_receipt_watermark rt l = Inr () \<and>
    (rt \<noteq> RECEIPT_TYPE_DELIVERED \<and> ob' = with_receipt ob chat sender rt l via \<or>
     rt = RECEIPT_TYPE_DELIVERED \<and> same_mail (fst (retire_receipt_covered (with_receipt ob chat sender rt l via) chat sender
        (as_u64 (max (coalesce_i64 (stored_through (with_receipt ob chat sender rt l via) chat sender rt) 0) 0)))) ob')"
proof -
  note def = assms [unfolded record_receipt_def with_receipt_def [symmetric] Let_def]
  show ?thesis
  proof (cases "rt = RECEIPT_TYPE_DELIVERED")
    case True
    with def show ?thesis by (cases at) (auto simp: and_then_Inr intro: evidence_frame)
  next
    case False
    with def show ?thesis by (auto simp: and_then_Inr)
  qed
qed

lemma ok_record_receipt:
  assumes ok: "outbox_ok ob" and r: "record_receipt ob chat sender rt l via at = Inr ob'"
  shows "outbox_ok ob'"
proof -
  let ?ob1 = "with_receipt ob chat sender rt l via"
  have "receipts_ok ?ob1" unfolding with_receipt_def by (rule receipts_ok_upsert) (use ok in \<open>simp_all add: outbox_ok_iff\<close>)
  then have ob1: "outbox_ok ?ob1" by (intro ok_frame [OF ok]) (use ok in \<open>auto simp: outbox_ok_iff with_receipt_def\<close>)
  from record_receipt_Inr [OF r] show ?thesis using ob1 ok_filtered [OF ob1] by (auto simp: covered_frame intro: ok_same_mail)
qed

lemma ok_marked:
  assumes ok: "outbox_ok ob"
  shows "outbox_ok (ob\<lparr>ob_outbound := map (\<lambda>r. if or_msg_id r = i then r\<lparr>or_relay_posted_at := Some t\<rparr> else r) (ob_outbound ob)\<rparr>)"
proof -
  let ?f = "\<lambda>r. if or_msg_id r = i then r\<lparr>or_relay_posted_at := Some t\<rparr> else r"
  have f: "or_msg_id (?f r) = or_msg_id r" "or_dedupe_key (?f r) = or_dedupe_key r" "or_lamport (?f r) = or_lamport r"
    "or_chat_id (?f r) = or_chat_id r" "or_sender_user_id (?f r) = or_sender_user_id r" for r
    by simp_all
  have "queue_ok (map ?f rows)" if "queue_ok rows" for rows
    using that by (auto simp: queue_ok_def f o_def row_key_def)
  then show ?thesis by (intro ok_frame [OF ok]) (use ok f in \<open>auto simp: outbox_ok_iff\<close>)
qed

lemma ok_posted:
  assumes ok: "outbox_ok ob"
  shows "outbox_ok (fst (mark_outbound_envelope_relay_posted ob i t))"
proof -
  let ?marked = "ob\<lparr>ob_outbound := map (\<lambda>r. if or_msg_id r = i then r\<lparr>or_relay_posted_at := Some t\<rparr> else r) (ob_outbound ob)\<rparr>"
  note marked = ok_marked [OF ok, of i t]
  have "outbox_ok (fst (retire_covered_after_relay_post ?marked i))"
    using after_post_cases [of ?marked i] marked ok_filtered [OF marked] by (auto simp only: covered_frame)
  with marked show ?thesis by (simp add: posted_cases Let_def)
qed

lemma stable_id_frame:
  assumes "stable_backfill_msg_id ob m f = (i, ob1)"
  shows "\<exists>h. ob1 = ob\<lparr>ob_messages := map h (ob_messages ob)\<rparr> \<and> (\<forall>x. message_key (h x) = message_key x \<and> mr_lamport (h x) = mr_lamport x)"
proof -
  have "\<exists>h. ob = ob\<lparr>ob_messages := map h (ob_messages ob)\<rparr> \<and> (\<forall>x. message_key (h x) = message_key x \<and> mr_lamport (h x) = mr_lamport x)"
    by (rule exI [of _ id]) simp
  with assms show ?thesis
    by (auto simp: stable_backfill_msg_id_def Let_def message_key_def split: option.splits list.splits)
qed

lemma ok_backfill:
  assumes ok: "outbox_ok ob" and b: "backfill_pairwise_envelope sl ob me c m reply f = Inr (a, ob')"
    and short: "length (id_user_id me) \<le> 65535" "length (ct_user_id c) \<le> 65535"
  shows "outbox_ok ob'"
  using b
proof (cases rule: backfill_Inr)
  case (queued r)
  with ok show ?thesis by simp
next
  case (built i ob1 e)
  from stable_id_frame [OF built(1)] obtain h where h: "ob1 = ob\<lparr>ob_messages := map h (ob_messages ob)\<rparr>"
    "\<And>x. message_key (h x) = message_key x" "\<And>x. mr_lamport (h x) = mr_lamport x" by blast
  have "messages_ok ob1" using ok by (simp add: outbox_ok_iff messages_ok_def h o_def)
  then have ok1: "outbox_ok ob1" by (intro ok_frame [OF ok]) (use ok in \<open>auto simp: outbox_ok_iff h\<close>)
  let ?ob2 = "record_authored_watermark ob1 m"
  obtain w where w: "?ob2 = ob1\<lparr>ob_watermarks := w\<rparr>" using recorded_frame by blast
  note high = high_mark_recorded [OF matching_lamport [OF built(3)]]
  have short_e: "short_envelope e" using built(3,5,6,7) short by (simp add: short_envelope_def matching_def)
  have ok2: "outbox_ok ?ob2"
  proof -
    have "marks_ok ?ob2" using ok1 by (simp add: outbox_ok_iff marks_ok_recorded)
    moreover have "or_lamport r \<le> high_mark ?ob2 (or_chat_id r) (or_sender_user_id r)" if "r \<in> set (ob_outbound ob1)" for r
    proof -
      have "or_lamport r \<le> high_mark ob1 (or_chat_id r) (or_sender_user_id r)" using ok1 that by (simp add: outbox_ok_iff)
      then show ?thesis by (auto simp: high)
    qed
    ultimately show ?thesis using ok1 by (simp add: outbox_ok_iff messages_ok_def receipts_ok_def w)
  qed
  have "outbox_ok (queue_outbound_row ?ob2 e (sm_timestamp m))"
  proof -
    let ?q = "queue_outbound_row ?ob2 e (sm_timestamp m)"
    have "ob_watermarks ?q = ob_watermarks ?ob2 \<and> ob_messages ?q = ob_messages ?ob2 \<and> ob_receipts ?q = ob_receipts ?ob2"
      by (simp add: queue_outbound_row_def Let_def)
    moreover have "high_mark ?q = high_mark ?ob2" by (intro ext) (simp add: high_mark_def calculation)
    moreover have "or_lamport r \<le> high_mark ?ob2 (or_chat_id r) (or_sender_user_id r)" if "r \<in> set (ob_outbound ?q)" for r
      using queued_rows [OF that] ok2 built(3) by (auto simp: outbox_ok_iff high envelope_row_def matching_def)
    ultimately show ?thesis
      using ok2 queue_ok_queued [of ?ob2 e] short_e by (simp add: outbox_ok_iff messages_ok_def receipts_ok_def marks_ok_def)
  qed
  with ok2 show ?thesis unfolding built(9) Let_def by simp
qed

lemma ok_purged: "outbox_ok ob \<Longrightarrow> outbox_ok (purge_chat ob chat)"
proof (rule ok_frame)
  assume ok: "outbox_ok ob"
  show "queue_ok (ob_outbound (purge_chat ob chat))"
    using ok by (simp add: purge_chat_def outbox_ok_iff queue_ok_filter)
  have "messages_ok (purge_chat ob chat)" "receipts_ok (purge_chat ob chat)"
    using ok by (simp_all add: purge_chat_def outbox_ok_iff messages_ok_def receipts_ok_def distinct_map_filter)
  then show "ob_messages (purge_chat ob chat) = ob_messages ob \<or> messages_ok (purge_chat ob chat)"
    "ob_receipts (purge_chat ob chat) = ob_receipts ob \<or> receipts_ok (purge_chat ob chat)" by auto
qed (auto simp: purge_chat_def)

lemma outbox_ok_step:
  assumes ok: "outbox_ok ob" and short: "short_ids op"
  shows "outbox_ok (outbox_step ob op)"
proof (cases "receipt_op op")
  case True
  from ok_same_mail [OF ok receipt_op_frame [OF this]] show ?thesis .
next
  case other: False
  show ?thesis
  proof (cases op)
    case (AuthorPairwise sl me c kind payload reply t i)
    show ?thesis unfolding AuthorPairwise outbox_step.simps
    proof (rule ok_committed [OF ok])
      fix a ob' assume "author_pairwise_message sl ob me c kind payload reply t i = Inr (a, ob')"
      then show "outbox_ok ob'"
        by (rule author_pairwise_Inr) (rule ok_inserted [OF ok], use short AuthorPairwise in \<open>auto simp: short_envelope_def matching_def\<close>)
    qed
  next
    case (BackfillPairwise sl me c m reply f)
    show ?thesis unfolding BackfillPairwise outbox_step.simps
      by (rule ok_committed [OF ok], rule ok_backfill [OF ok]) (use short BackfillPairwise in auto)
  next
    case (AuthorGroup sl me g kind payload reply t i)
    show ?thesis unfolding AuthorGroup outbox_step.simps
    proof (rule ok_committed [OF ok])
      fix a ob' assume "author_group_message sl ob me g kind payload reply t i = Inr (a, ob')"
      then show "outbox_ok ob'"
        by (rule author_group_Inr) (rule ok_inserted [OF ok], use short AuthorGroup in \<open>auto simp: short_envelope_def matching_def\<close>)
    qed
  next
    case (AuthorGroupUpdate sl me g name ms t i now)
    show ?thesis unfolding AuthorGroupUpdate outbox_step.simps
    proof (rule ok_committed [OF ok])
      fix a ob' assume "author_group_metadata_update sl ob me g name ms t i now = Inr (a, ob')"
      then obtain m e g' ob1 where u: "upsert_group_tx ob g' now = Inr ob1" "matching m e" "insert_authored_rows ob1 m e None t = Inr ob'"
          "oe_recipient_user_id e = gr_id g" "sm_chat_id m = gr_id g" "sm_sender_user_id m = id_user_id me"
        by (rule author_group_update_Inr)
      have "outbox_ok ob1" using upsert_group_frame [OF u(1)] by (intro ok_same_rows [OF ok]) auto
      from ok_inserted [OF this u(2) _ u(3)] show "outbox_ok ob'"
        using u short AuthorGroupUpdate by (auto simp: short_envelope_def matching_def)
    qed
  next
    case (QueueInvites sl me g ms t ids)
    show ?thesis unfolding QueueInvites outbox_step.simps
    proof (rule ok_committed [OF ok])
      fix xs ob' assume "queue_group_invites sl ob me g ms t ids = Inr (xs, ob')"
      then obtain m k where q: "queue_invites sl me m t k ids ms ob = Inr (xs, ob')" "sm_chat_id m = gr_id g" "sm_sender_user_id m = id_user_id me"
        by (rule invites_Inr)
      from q(1) ok show "outbox_ok ob'"
      proof (rule queue_invites_induct)
        fix c i e s s'
        assume c: "c \<in> set ms" and b: "build_pairwise_envelope sl me c m None t i (authored_expiry KIND_GROUP_INVITE t) = Inr e"
          and s: "outbox_ok s" "insert_authored_rows s m e None t = Inr s'"
        have "length (ct_user_id c) \<le> 65535" "length (gr_id g) \<le> 65535" "length (id_user_id me) \<le> 65535"
          using c short QueueInvites by simp_all
        with built_envelope(1,3) [OF b] q(2,3) have "short_envelope e" by (simp add: short_envelope_def matching_def)
        from ok_inserted [OF s(1) built_envelope(1) [OF b] this s(2)] show "outbox_ok s'" .
      qed
    qed
  next
    case (RecordReceipt chat sender rt l via at)
    then show ?thesis using ok ok_record_receipt [OF ok]
      by (cases "record_receipt ob chat sender rt l via at") (auto simp: committed_unit_def)
  next
    case (MarkPosted i t)
    then show ?thesis by (simp add: ok_posted [OF ok])
  next
    case (PruneOutbound now)
    then show ?thesis using ok_filtered [OF ok] by (simp add: prune_expired_outbound_envelopes_def delete_outbound_def)
  next
    case Sweep
    then show ?thesis using sweep_frame [of ob] ok_filtered [OF ok] by auto
  next
    case (DeleteContact u)
    have "outbox_ok (purge_chat (ob\<lparr>ob_contacts := x, ob_blocked := y, ob_introduced := z\<rparr>) u)" for x y z
      by (rule ok_purged) (rule ok_same_rows [OF ok], simp_all)
    then show ?thesis by (simp add: DeleteContact delete_contact_def Let_def)
  next
    case (DeleteGroup g)
    have "outbox_ok (purge_chat (ob\<lparr>ob_members := x, ob_groups := y\<rparr>) g)" for x y
      by (rule ok_purged) (rule ok_same_rows [OF ok], simp_all)
    then show ?thesis by (simp add: DeleteGroup delete_group_def)
  qed (use other in \<open>simp_all add: receipt_op_def\<close>)
qed

section \<open>Why a queued envelope leaves\<close>

definition posted_by :: "outbox_op \<Rightarrow> outbound_row \<Rightarrow> bool" where
  "posted_by op r \<longleftrightarrow> or_relay_posted_at r \<noteq> None \<or> (\<exists>t. op = MarkPosted (or_msg_id r) t)"

definition newer_generation :: "outbox \<Rightarrow> outbound_row \<Rightarrow> bool" where
  "newer_generation ob r \<longleftrightarrow>
     or_kind r \<in> {KIND_PROFILE_SYNC, KIND_FRIEND_DIRECTORY, KIND_LAN_ENDPOINT_HINT, KIND_RELAY_UPDATE, KIND_SYNC_DIGEST, KIND_ROSTER_GOSSIP} \<and>
     or_recipient_user_id r = or_chat_id r \<and> or_chat_id r \<notin> gw_group_id ` set (ob_groups ob) \<and>
     (\<exists>q \<in> set (ob_outbound ob). or_chat_id q = or_chat_id r \<and> or_recipient_user_id q = or_recipient_user_id r \<and>
        or_sender_user_id q = or_sender_user_id r \<and> or_kind q = or_kind r \<and> or_lamport r < or_lamport q)"

definition may_leave :: "outbox_op \<Rightarrow> outbox \<Rightarrow> outbound_row \<Rightarrow> bool" where
  "may_leave op ob' r \<longleftrightarrow>
     receipt_covers ob' r \<and> posted_by op r \<or>
     newer_generation ob' r \<or>
     (\<exists>now. op = PruneOutbound now \<and> or_expiry r \<le> now) \<or>
     op = DeleteContact (or_chat_id r) \<or> op = DeleteGroup (or_chat_id r)"

lemma newer_generation_iff:
  "newer_generation ob r \<longleftrightarrow> supersedes_queued_generations (or_kind r) \<and> or_recipient_user_id r = or_chat_id r \<and> \<not> is_group ob (or_chat_id r) \<and>
     (\<exists>q \<in> set (ob_outbound ob). or_chat_id q = or_chat_id r \<and> or_recipient_user_id q = or_recipient_user_id r \<and>
        or_sender_user_id q = or_sender_user_id r \<and> or_kind q = or_kind r \<and> or_lamport r < or_lamport q)"
  unfolding newer_generation_def supersedes_queued_generations_def is_group_def image_key by blast

lemmas may_leave_iff = may_leave_def [folded receipt_covers_sql]

definition still_queued :: "outbox_op \<Rightarrow> outbox \<Rightarrow> outbound_row \<Rightarrow> bool" where
  "still_queued op ob' r \<longleftrightarrow> r \<in> set (ob_outbound ob') \<or>
     (\<exists>t. op = MarkPosted (or_msg_id r) t \<and> r\<lparr>or_relay_posted_at := Some t\<rparr> \<in> set (ob_outbound ob'))"

lemma stored_through_row:
  "stored_through ob chat sender t = Some l \<Longrightarrow> \<exists>rc \<in> set (ob_receipts ob). receipt_is chat sender t rc \<and> rr_through_lamport rc = l"
  by (auto simp: stored_through_def find_Some_iff)

lemma delivered_mark_row:
  assumes "outbox_ok ob" "delivered_watermark ob chat sender \<noteq> 0"
  shows "\<exists>rc \<in> set (ob_receipts ob). receipt_is chat sender RECEIPT_TYPE_DELIVERED rc \<and>
    as_i64 (delivered_watermark ob chat sender) = rr_through_lamport rc"
proof (cases "stored_through ob chat sender RECEIPT_TYPE_DELIVERED")
  case None
  with assms(2) show ?thesis by (simp add: delivered_watermark_def coalesce_i64_def as_u64_def)
next
  case (Some l)
  from stored_through_row [OF this] obtain rc where rc: "rc \<in> set (ob_receipts ob)"
    "receipt_is chat sender RECEIPT_TYPE_DELIVERED rc" "rr_through_lamport rc = l" by auto
  with assms(1) have "i64_ok l" by (auto simp: outbox_ok_iff receipts_ok_def)
  moreover have "0 < l" using assms(2) Some by (cases "0 < l") (auto simp: delivered_watermark_def coalesce_i64_def as_u64_def)
  ultimately show ?thesis using rc Some by (auto simp: delivered_watermark_def coalesce_i64_def)
qed

lemma covered_here:
  assumes "retire_covered_sql ob chat sender l r" "rc \<in> set (ob_receipts ob)" "receipt_is chat sender RECEIPT_TYPE_DELIVERED rc"
    "l \<le> rr_through_lamport rc"
  shows "covered_awaiting_relay_sql ob r"
  using assms by (auto simp: covered_awaiting_relay_sql_def retire_covered_sql_def RECEIPT_TYPE_DELIVERED_def intro!: bexI [of _ rc])

lemma covered_cong:
  assumes "ob_receipts ob' = ob_receipts ob" "ob_contacts ob' = ob_contacts ob" "ob_groups ob' = ob_groups ob" "ob_messages ob' = ob_messages ob"
  shows "covered_awaiting_relay_sql ob' r = covered_awaiting_relay_sql ob r"
  by (simp add: covered_awaiting_relay_sql_def is_contact_def is_group_def has_message_def assms)

lemma covered_posted_update [simp]:
  "covered_awaiting_relay_sql ob (r\<lparr>or_relay_posted_at := x\<rparr>) = covered_awaiting_relay_sql ob r"
  by (simp add: covered_awaiting_relay_sql_def)

text \<open>Retirement at the stored watermark takes only posted rows that the watermark covers.\<close>

lemma retired_covered:
  assumes "outbox_ok ob" "r \<in> set (ob_outbound ob)"
    "r \<notin> set (ob_outbound (fst (retire_receipt_covered ob chat sender (delivered_watermark ob chat sender))))"
  shows "covered_awaiting_relay_sql (fst (retire_receipt_covered ob chat sender (delivered_watermark ob chat sender))) r \<and>
    or_relay_posted_at r \<noteq> None"
proof -
  let ?l = "delivered_watermark ob chat sender"
  have *: "?l \<noteq> 0" "retire_covered_sql ob chat sender (as_i64 ?l) r" using assms(2,3) by (auto simp: covered_frame)
  from delivered_mark_row [OF assms(1) *(1)] covered_here [OF *(2)] have "covered_awaiting_relay_sql ob r" by auto
  with *(2) show ?thesis by (subst covered_cong [of _ ob]) (simp_all add: covered_frame retire_covered_sql_def)
qed

lemma sweep_leaves:
  assumes "outbox_ok ob" "r \<in> set (ob_outbound ob)" "r \<notin> set (ob_outbound (fst (sweep_receipt_covered ob)))"
  shows "covered_awaiting_relay_sql (fst (sweep_receipt_covered ob)) r \<and> or_relay_posted_at r \<noteq> None"
proof -
  let ?f = "\<lambda>(acc, removed) rc. if rr_through_lamport rc \<le> 0 then (acc, removed)
         else let (acc', n) = retire_receipt_covered acc (rr_chat_id rc) (rr_sender_user_id rc) (as_u64 (rr_through_lamport rc))
              in (acc', removed + n)"
  have fold: "\<exists>rc \<in> set rcs. 0 < rr_through_lamport rc \<and> retire_covered_sql a (rr_chat_id rc) (rr_sender_user_id rc) (as_i64 (as_u64 (rr_through_lamport rc))) r"
    if "r \<in> set (ob_outbound a)" "r \<notin> set (ob_outbound (fst (foldl ?f (a, k) rcs)))" for rcs a k
    using that
  proof (induction rcs arbitrary: a k)
    case (Cons rc rcs)
    show ?case
    proof (cases "0 < rr_through_lamport rc \<and> retire_covered_sql a (rr_chat_id rc) (rr_sender_user_id rc) (as_i64 (as_u64 (rr_through_lamport rc))) r")
      case False
      obtain a' k' where step: "?f (a, k) rc = (a', k')" by fastforce
      have a': "\<exists>P. a' = a\<lparr>ob_outbound := filter P (ob_outbound a)\<rparr> \<and> P r"
      proof (cases "rr_through_lamport rc \<le> 0")
        case True
        with step show ?thesis by (intro exI [of _ "\<lambda>_. True"]) (simp add: filter_True)
      next
        case pos: False
        with step have "a' = fst (retire_receipt_covered a (rr_chat_id rc) (rr_sender_user_id rc) (as_u64 (rr_through_lamport rc)))"
          by (auto split: prod.splits)
        with False pos show ?thesis by (auto simp: covered_frame intro!: exI [of _ "\<lambda>r. as_u64 (rr_through_lamport rc) = 0 \<or>
            \<not> retire_covered_sql a (rr_chat_id rc) (rr_sender_user_id rc) (as_i64 (as_u64 (rr_through_lamport rc))) r"])
      qed
      then obtain P where P: "a' = a\<lparr>ob_outbound := filter P (ob_outbound a)\<rparr>" "P r" by auto
      have "retire_covered_sql a' = retire_covered_sql a"
        by (rule retire_covered_cong; intro ext) (simp_all add: P is_contact_def is_group_def has_message_def)
      with Cons.IH [of a' k'] Cons.prems P step show ?thesis by auto
    qed auto
  qed simp
  let ?rcs = "filter (\<lambda>rc. rr_receipt_type rc = RECEIPT_TYPE_DELIVERED \<and> rr_through_lamport rc > 0) (ob_receipts ob)"
  have "\<exists>rc \<in> set ?rcs. 0 < rr_through_lamport rc \<and> retire_covered_sql ob (rr_chat_id rc) (rr_sender_user_id rc) (as_i64 (as_u64 (rr_through_lamport rc))) r"
    by (rule fold) (use assms(2,3) in \<open>simp_all only: sweep_receipt_covered_def\<close>)
  then obtain rc where rc: "rc \<in> set ?rcs" "retire_covered_sql ob (rr_chat_id rc) (rr_sender_user_id rc) (as_i64 (as_u64 (rr_through_lamport rc))) r"
    by blast
  moreover have "i64_ok (rr_through_lamport rc)" using assms(1) rc(1) by (auto simp: outbox_ok_iff receipts_ok_def)
  ultimately have "covered_awaiting_relay_sql ob r"
    by (intro covered_here [of ob "rr_chat_id rc" "rr_sender_user_id rc" "rr_through_lamport rc" r rc]) (auto simp: receipt_is_def)
  moreover have "covered_awaiting_relay_sql (fst (sweep_receipt_covered ob)) r = covered_awaiting_relay_sql ob r"
    using sweep_frame [of ob] by (intro covered_cong) auto
  ultimately show ?thesis using rc(2) by (simp add: retire_covered_sql_def)
qed

lemma queued_keeps: "r \<in> set (ob_outbound ob) \<Longrightarrow> r \<in> set (ob_outbound (queue_outbound_row ob e t))"
  by (simp add: queue_outbound_row_def Let_def)

lemma group_kinds_stay:
  "kind \<in> {KIND_TEXT, KIND_ATTACHMENT_MANIFEST, KIND_REACTION} \<or> kind = KIND_GROUP_METADATA_UPDATE \<or> kind = KIND_GROUP_INVITE \<Longrightarrow>
   \<not> supersedes_queued_generations kind"
  by (auto simp: supersedes_queued_generations_def kind_defs)

lemma inserted_keeps:
  assumes "insert_authored_rows ob m e reply t = Inr ob'" "matching m e" "\<not> supersedes_queued_generations (sm_kind m)" "r \<in> set (ob_outbound ob)"
  shows "r \<in> set (ob_outbound ob')"
  using inserted_rows(3) [OF assms(1)] assms(2-4) by (auto simp: superseded_by_def matching_def queued_keeps)

lemma inserted_leaves:
  assumes ins: "insert_authored_rows ob m e reply t = Inr ob'" and m: "matching m e" "short_envelope e"
    and fresh: "oe_msg_id e \<notin> or_msg_id ` set (ob_outbound ob)" and ok: "outbox_ok ob"
    and r: "r \<in> set (ob_outbound ob)" "r \<notin> set (ob_outbound ob')"
  shows "newer_generation ob' r"
proof -
  note rows = inserted_rows [OF ins]
  have sup: "superseded_by ob e r" using r by (auto simp: rows queued_keeps)
  have grp: "is_group ob' = is_group ob" by (intro ext) (simp add: is_group_def rows)
  have newest: "\<not> superseded_by ob e q" if "or_lamport q = as_i64 (oe_lamport e)" for q
    using that by (simp add: superseded_by_def retire_superseded_sql_def)
  have "\<exists>q \<in> set (ob_outbound ob'). or_chat_id q = oe_chat_id e \<and> or_recipient_user_id q = oe_recipient_user_id e \<and>
      or_sender_user_id q = oe_sender_user_id e \<and> or_kind q = oe_kind e \<and> or_lamport q = as_i64 (oe_lamport e)"
  proof (cases "\<exists>q \<in> set (ob_outbound ob). or_dedupe_key q = or_dedupe_key (envelope_row e t)")
    case True
    then obtain q where q: "q \<in> set (ob_outbound ob)" "or_dedupe_key q = or_dedupe_key (envelope_row e t)" by auto
    have q_ok: "i64_ok (or_lamport q)" "or_dedupe_key q = row_key q" "length (or_chat_id q) \<le> 65535" "length (or_sender_user_id q) \<le> 65535"
      "length (or_recipient_user_id q) \<le> 65535" using ok q(1) by (auto simp: outbox_ok_iff queue_ok_def)
    then have "or_chat_id q = oe_chat_id e \<and> or_sender_user_id q = oe_sender_user_id e \<and> or_kind q = oe_kind e \<and>
        as_u64 (or_lamport q) = oe_lamport e \<and> or_recipient_user_id q = oe_recipient_user_id e"
      using q(2) m(2) by (intro dedupe_key_inject) (simp_all add: row_key_def envelope_row_def short_envelope_def)
    moreover from this have "or_lamport q = as_i64 (oe_lamport e)" using as_i64_as_u64 [OF q_ok(1)] by simp
    ultimately show ?thesis using newest [of q] queued_keeps [OF q(1)] by (intro bexI [of _ q]) (simp_all add: rows)
  next
    case False
    moreover have "or_msg_id q \<noteq> or_msg_id (envelope_row e t)" if "q \<in> set (ob_outbound ob)" for q
      using fresh imageI [OF that, of or_msg_id] by (auto simp: envelope_row_def)
    ultimately have "envelope_row e t \<in> set (ob_outbound (queue_outbound_row ob e t))"
      by (auto simp: queue_outbound_row_def Let_def)
    then show ?thesis using newest [of "envelope_row e t"]
      by (intro bexI [of _ "envelope_row e t"]) (simp_all add: rows envelope_row_def)
  qed
  with sup show ?thesis
    by (auto simp: newer_generation_iff superseded_by_def retire_superseded_sql_def grp)
qed

lemma delivered_watermark_eq:
  "as_u64 (max (coalesce_i64 (stored_through ob chat sender RECEIPT_TYPE_DELIVERED) 0) 0) = delivered_watermark ob chat sender"
  by (simp add: delivered_watermark_def)

lemma receipt_leaves:
  assumes ok: "outbox_ok ob" and rec: "record_receipt ob chat sender rt l via at = Inr ob'"
    and r: "r \<in> set (ob_outbound ob)" "r \<notin> set (ob_outbound ob')"
  shows "covered_awaiting_relay_sql ob' r \<and> or_relay_posted_at r \<noteq> None"
proof -
  let ?ob1 = "with_receipt ob chat sender rt l via"
  have "receipts_ok ?ob1" unfolding with_receipt_def by (rule receipts_ok_upsert) (use ok in \<open>simp_all add: outbox_ok_iff\<close>)
  then have ok1: "outbox_ok ?ob1" by (intro ok_frame [OF ok]) (use ok in \<open>auto simp: outbox_ok_iff with_receipt_def\<close>)
  have q1: "r \<in> set (ob_outbound ?ob1)" using r(1) by (simp add: with_receipt_def)
  let ?ob2 = "fst (retire_receipt_covered ?ob1 chat sender (delivered_watermark ?ob1 chat sender))"
  from record_receipt_Inr [OF rec] r(2) q1 have sm: "same_mail ?ob2 ob'"
    by (auto simp: delivered_watermark_eq)
  then have "r \<notin> set (ob_outbound ?ob2)" using r(2) by (simp add: same_mail_def)
  from retired_covered [OF ok1 q1 this] show ?thesis
    using sm by (subst covered_cong [of _ ?ob2]) (simp_all add: same_mail_def)
qed

lemma posted_leaves:
  assumes ok: "outbox_ok ob" and r: "r \<in> set (ob_outbound ob)"
  shows "still_queued (MarkPosted i t) (fst (mark_outbound_envelope_relay_posted ob i t)) r \<or>
    covered_awaiting_relay_sql (fst (mark_outbound_envelope_relay_posted ob i t)) r \<and> posted_by (MarkPosted i t) r"
proof -
  let ?f = "\<lambda>r. if or_msg_id r = i then r\<lparr>or_relay_posted_at := Some t\<rparr> else r"
  let ?marked = "ob\<lparr>ob_outbound := map ?f (ob_outbound ob)\<rparr>"
  let ?after = "fst (mark_outbound_envelope_relay_posted ob i t)"
  have fr: "?f r \<in> set (ob_outbound ?marked)" using r by (simp del: if_image_distrib)
  have queued: "?thesis" if "?f r \<in> set (ob_outbound ?after)" using that by (auto simp: still_queued_def split: if_splits)
  show ?thesis
  proof (cases "?f r \<in> set (ob_outbound ?after)")
    case True
    then show ?thesis by (rule queued)
  next
    case gone: False
    then have fin: "?after = fst (retire_covered_after_relay_post ?marked i)"
      using fr by (auto simp: posted_cases Let_def split: if_splits)
    have "fst (retire_covered_after_relay_post ?marked i) \<noteq> ?marked" using gone fr fin by metis
    with after_post_cases [of ?marked i] obtain chat sender where
        ret: "?after = fst (retire_receipt_covered ?marked chat sender (delivered_watermark ?marked chat sender))"
      unfolding fin by blast
    have "covered_awaiting_relay_sql ?after (?f r) \<and> or_relay_posted_at (?f r) \<noteq> None"
      using retired_covered [OF ok_marked [OF ok] fr] gone unfolding ret by blast
    then show ?thesis by (auto simp: posted_by_def split: if_splits)
  qed
qed

lemma backfill_keeps:
  assumes "backfill_pairwise_envelope sl ob me c m reply f = Inr (a, ob')" "r \<in> set (ob_outbound ob)"
  shows "r \<in> set (ob_outbound ob')"
  using assms(1)
proof (cases rule: backfill_Inr)
  case (queued q)
  with assms(2) show ?thesis by simp
next
  case (built i ob1 e)
  obtain w where w: "record_authored_watermark ob1 m = ob1\<lparr>ob_watermarks := w\<rparr>" using recorded_frame by blast
  from stable_id_frame [OF built(1)] assms(2) have "r \<in> set (ob_outbound (ob1\<lparr>ob_watermarks := w\<rparr>))" by auto
  then show ?thesis unfolding built(9) Let_def w by (auto intro: queued_keeps)
qed

lemma group_message_keeps:
  "author_group_message sl ob me g kind payload reply t i = Inr (a, ob') \<Longrightarrow> r \<in> set (ob_outbound ob) \<Longrightarrow> r \<in> set (ob_outbound ob')"
  by (erule author_group_Inr) (use group_kinds_stay in \<open>blast intro: inserted_keeps\<close>)

lemma group_update_keeps:
  assumes "author_group_metadata_update sl ob me g name ms t i now = Inr (a, ob')" "r \<in> set (ob_outbound ob)"
  shows "r \<in> set (ob_outbound ob')"
proof -
  from assms(1) obtain m e g' ob1 where u: "upsert_group_tx ob g' now = Inr ob1" "matching m e" "insert_authored_rows ob1 m e None t = Inr ob'"
      "sm_kind m = KIND_GROUP_METADATA_UPDATE" by (rule author_group_update_Inr)
  then show ?thesis using assms(2) upsert_group_frame [OF u(1)] by (intro inserted_keeps [OF u(3,2)] group_kinds_stay) auto
qed

lemma invites_keep:
  assumes "queue_group_invites sl ob me g ms t ids = Inr (xs, ob')" "r \<in> set (ob_outbound ob)"
  shows "r \<in> set (ob_outbound ob')"
proof -
  from assms(1) obtain m k where q: "queue_invites sl me m t k ids ms ob = Inr (xs, ob')" "sm_kind m = KIND_GROUP_INVITE" by (rule invites_Inr)
  from q(1) assms(2) show ?thesis
  proof (rule queue_invites_induct)
    fix c i e s s'
    assume b: "build_pairwise_envelope sl me c m None t i (authored_expiry KIND_GROUP_INVITE t) = Inr e"
      and s: "r \<in> set (ob_outbound s)" "insert_authored_rows s m e None t = Inr s'"
    from inserted_keeps [OF s(2) built_envelope(1) [OF b] _ s(1)] show "r \<in> set (ob_outbound s')"
      by (simp add: q(2) group_kinds_stay)
  qed
qed

lemma pairwise_leaves:
  assumes au: "author_pairwise_message sl ob me c kind payload reply t i = Inr (a, ob')" and ok: "outbox_ok ob"
    and short: "length (id_user_id me) \<le> 65535" "length (ct_user_id c) \<le> 65535"
    and fresh: "i \<notin> or_msg_id ` set (ob_outbound ob)" and r: "r \<in> set (ob_outbound ob)"
  shows "r \<in> set (ob_outbound ob') \<or> newer_generation ob' r"
proof -
  from au obtain m e where me: "matching m e" "insert_authored_rows ob m e reply t = Inr ob'" "oe_msg_id e = i"
      "oe_recipient_user_id e = ct_user_id c" "sm_chat_id m = ct_user_id c" "sm_sender_user_id m = id_user_id me"
    by (rule author_pairwise_Inr)
  have "short_envelope e" using me short by (simp add: short_envelope_def matching_def)
  from inserted_leaves [OF me(2,1) this _ ok r] fresh me(3) show ?thesis by auto
qed

lemma committed_keeps:
  "(\<And>y ob'. x = Inr (y, ob') \<Longrightarrow> P ob') \<Longrightarrow> P ob \<Longrightarrow> P (committed ob x)"
  by (cases x) (auto simp: committed_def)

lemma authoring_stays:
  assumes r: "r \<in> set (ob_outbound ob)"
  shows "r \<in> set (ob_outbound (outbox_step ob (BackfillPairwise sl me c m reply f)))"
    "r \<in> set (ob_outbound (outbox_step ob (AuthorGroup sl me g kind payload reply t i)))"
    "r \<in> set (ob_outbound (outbox_step ob (AuthorGroupUpdate sl me g name ms t i now)))"
    "r \<in> set (ob_outbound (outbox_step ob (QueueInvites sl me g cs t ids)))"
  unfolding outbox_step.simps
  by (rule committed_keeps [where P = "\<lambda>ob. r \<in> set (ob_outbound ob)"];
      blast intro: r backfill_keeps group_message_keeps group_update_keeps invites_keep)+

text \<open>
  Claim C2. An envelope leaves the outbound queue for one of four reasons only. A delivered receipt of the
  recipient covers it, the message it can be rebuilt from is still stored, the chat is with a contact and
  not with a group, and the relay has had it. Or it is a snapshot of one of six kinds and a newer generation of
  it for the same recipient is in the queue. Or its expiry has passed when expired rows are pruned. Or its
  chat is deleted. Every other operation of \<open>outbox_op\<close> (authoring, repairing, writing and recording receipts,
  posting, pruning, the sweep), and every operation that fails, leaves it as it was, apart from
  the stamp that it was posted. The tables keep their constraints before the step, as every run of these
  operations from an empty store does; ids fit 16-bit lengths and the random id of a new message is
  unused. Restoring a backup, and storing an envelope that the caller has built, are not among the operations.
\<close>

theorem queued_mail_kept:
  assumes ok: "outbox_ok ob" and short: "short_ids op" and r: "r \<in> set (ob_outbound ob)"
    and fresh: "\<And>sl me c kind payload reply t i. op = AuthorPairwise sl me c kind payload reply t i \<Longrightarrow> i \<notin> or_msg_id ` set (ob_outbound ob)"
  shows "still_queued op (outbox_step ob op) r \<or> may_leave op (outbox_step ob op) r"
proof (cases op)
  case (AuthorPairwise sl me c kind payload reply t i)
  have "r \<in> set (ob_outbound (committed ob (author_pairwise_message sl ob me c kind payload reply t i))) \<or>
      newer_generation (committed ob (author_pairwise_message sl ob me c kind payload reply t i)) r"
    by (rule committed_keeps, rule pairwise_leaves [OF _ ok _ _ fresh [OF AuthorPairwise] r]) (use short r AuthorPairwise in auto)
  then show ?thesis by (auto simp: AuthorPairwise still_queued_def may_leave_def)
next
  case (RecordReceipt chat sender rt l via at)
  show ?thesis
  proof (cases "record_receipt ob chat sender rt l via at")
    case (Inr ob')
    with RecordReceipt receipt_leaves [OF ok Inr r] show ?thesis
      by (auto simp: committed_unit_def still_queued_def may_leave_iff posted_by_def)
  qed (use r RecordReceipt in \<open>simp add: still_queued_def committed_unit_def\<close>)
next
  case (MarkPosted i t)
  with posted_leaves [OF ok r, of i t] show ?thesis by (auto simp: may_leave_iff)
next
  case Sweep
  with sweep_leaves [OF ok r] show ?thesis by (auto simp: still_queued_def may_leave_iff posted_by_def)
next
  case (PruneOutbound now)
  with r show ?thesis by (auto simp: still_queued_def may_leave_def prune_expired_outbound_envelopes_def delete_outbound_def)
next
  case (DeleteContact u)
  with r show ?thesis by (auto simp: still_queued_def may_leave_def delete_contact_def purge_chat_def Let_def)
next
  case (DeleteGroup g)
  with r show ?thesis by (auto simp: still_queued_def may_leave_def delete_group_def purge_chat_def)
qed (use authoring_stays [OF r] r receipt_op_frame [of op ob] in \<open>simp_all add: receipt_op_def same_mail_def still_queued_def\<close>)

section \<open>Counters over a run\<close>

definition marks_climb :: "outbox \<Rightarrow> outbox \<Rightarrow> bool" where
  "marks_climb ob ob' \<longleftrightarrow> (\<forall>c s. high_mark ob c s \<le> high_mark ob' c s)"

lemma marks_climb_same: "ob_watermarks ob' = ob_watermarks ob \<Longrightarrow> marks_climb ob ob'"
  by (simp add: marks_climb_def high_mark_def)

lemma marks_climb_trans: "marks_climb a b \<Longrightarrow> marks_climb b c \<Longrightarrow> marks_climb a c"
  by (meson marks_climb_def order_trans)

lemma marks_climb_inserted:
  assumes "insert_authored_rows ob m e reply t = Inr ob'" "matching m e"
  shows "marks_climb ob ob' \<and> as_i64 (sm_lamport m) \<le> high_mark ob' (sm_chat_id m) (sm_sender_user_id m)"
proof -
  have "high_mark ob' c s = high_mark (record_authored_watermark ob m) c s" for c s
    by (simp add: high_mark_def inserted_rows(1) [OF assms(1)])
  then show ?thesis by (simp add: marks_climb_def high_mark_recorded [OF matching_lamport [OF assms(2)]])
qed

lemma marks_climb_committed: "(\<And>x ob'. r = Inr (x, ob') \<Longrightarrow> marks_climb ob ob') \<Longrightarrow> marks_climb ob (committed ob r)"
  by (cases r) (auto simp: committed_def marks_climb_same)

lemma marks_climb_step: "marks_climb ob (outbox_step ob op)"
proof (cases op)
  case (AuthorPairwise sl me c kind payload reply t i)
  show ?thesis unfolding AuthorPairwise outbox_step.simps
    by (rule marks_climb_committed, erule author_pairwise_Inr) (blast dest: marks_climb_inserted)
next
  case (BackfillPairwise sl me c m reply f)
  have "marks_climb ob ob'" if "backfill_pairwise_envelope sl ob me c m reply f = Inr (a, ob')" for a ob'
    using that
  proof (cases rule: backfill_Inr)
    case (built i ob1 e)
    have "high_mark ob1 = high_mark ob" using stable_id_frame [OF built(1)] by (intro ext) (auto simp: high_mark_def)
    then have "marks_climb ob (record_authored_watermark ob1 m)"
      by (simp add: marks_climb_def high_mark_recorded [OF matching_lamport [OF built(3)]])
    moreover have "marks_climb (record_authored_watermark ob1 m) ob'"
      unfolding built(9) Let_def by (rule marks_climb_same) (simp add: queue_outbound_row_def Let_def)
    ultimately show ?thesis by (rule marks_climb_trans)
  qed (simp add: marks_climb_same)
  then show ?thesis unfolding BackfillPairwise outbox_step.simps by (rule marks_climb_committed)
next
  case (AuthorGroup sl me g kind payload reply t i)
  show ?thesis unfolding AuthorGroup outbox_step.simps
    by (rule marks_climb_committed, erule author_group_Inr) (blast dest: marks_climb_inserted)
next
  case (AuthorGroupUpdate sl me g name ms t i now)
  have "marks_climb ob ob'" if "author_group_metadata_update sl ob me g name ms t i now = Inr (a, ob')" for a ob'
    using that
  proof (rule author_group_update_Inr)
    fix m e g' ob1
    assume u: "upsert_group_tx ob g' now = Inr ob1" "matching m e" "insert_authored_rows ob1 m e None t = Inr ob'"
    have "marks_climb ob ob1" using upsert_group_frame [OF u(1)] by (intro marks_climb_same) simp
    with marks_climb_inserted [OF u(3,2)] show ?thesis by (blast intro: marks_climb_trans)
  qed
  then show ?thesis unfolding AuthorGroupUpdate outbox_step.simps by (rule marks_climb_committed)
next
  case (QueueInvites sl me g ms t ids)
  have "marks_climb ob ob'" if "queue_group_invites sl ob me g ms t ids = Inr (xs, ob')" for xs ob'
    using that
  proof (rule invites_Inr)
    fix m k assume q: "queue_invites sl me m t k ids ms ob = Inr (xs, ob')"
    show ?thesis
      by (rule queue_invites_induct [OF q, of "marks_climb ob"])
        (use marks_climb_inserted built_envelope(1) in \<open>blast intro: marks_climb_trans marks_climb_same\<close>)+
  qed
  then show ?thesis unfolding QueueInvites outbox_step.simps by (rule marks_climb_committed)
next
  case (RecordReceipt chat sender rt l via at)
  show ?thesis
  proof (cases "record_receipt ob chat sender rt l via at")
    case (Inr ob')
    from record_receipt_Inr [OF this] have "ob_watermarks ob' = ob_watermarks ob"
      by (auto simp: with_receipt_def covered_frame same_mail_def)
    with Inr RecordReceipt show ?thesis by (simp add: committed_unit_def marks_climb_same)
  qed (simp add: RecordReceipt committed_unit_def marks_climb_same)
next
  case (MarkPosted i t)
  let ?marked = "ob\<lparr>ob_outbound := map (\<lambda>r. if or_msg_id r = i then r\<lparr>or_relay_posted_at := Some t\<rparr> else r) (ob_outbound ob)\<rparr>"
  have "ob_watermarks (fst (retire_covered_after_relay_post ?marked i)) = ob_watermarks ob"
    using after_post_cases [of ?marked i] by (elim disjE exE) (simp_all add: covered_frame)
  then show ?thesis by (intro marks_climb_same) (simp add: MarkPosted posted_cases Let_def)
next
  case Sweep
  from sweep_frame [of ob] show ?thesis by (auto simp: Sweep intro: marks_climb_same)
qed (use receipt_op_frame [of op ob] in \<open>auto simp: receipt_op_def same_mail_def prune_expired_outbound_envelopes_def delete_outbound_def
    delete_contact_def delete_group_def purge_chat_def Let_def intro!: marks_climb_same\<close>)

definition guarded_step :: "outbox \<Rightarrow> outbox_op \<Rightarrow> outbox" where
  "guarded_step ob op = (if short_ids op then outbox_step ob op else ob)"

interpretation mail: machine_mono guarded_step outbox_ok marks_climb
  by unfold_locales
    (auto simp: guarded_step_def outbox_ok_step marks_climb_step marks_climb_same intro: marks_climb_trans)

lemma guarded_run: "list_all short_ids ops \<Longrightarrow> foldl outbox_step ob ops = foldl guarded_step ob ops"
  by (induction ops arbitrary: ob) (simp_all add: guarded_step_def)

lemma run_marks: "outbox_ok ob \<Longrightarrow> list_all short_ids ops \<Longrightarrow> marks_climb ob (foldl outbox_step ob ops)"
  by (simp add: guarded_run mail.run_rel)

lemma run_ok: "outbox_ok ob \<Longrightarrow> list_all short_ids ops \<Longrightarrow> outbox_ok (foldl outbox_step ob ops)"
  by (induction ops arbitrary: ob) (simp_all add: outbox_ok_step)

definition last_used :: "outbox \<Rightarrow> bytes \<Rightarrow> bytes \<Rightarrow> i64" where
  "last_used ob chat sender =
     max (max (max (coalesce_i64 (sql_max (map mr_lamport
            (filter (\<lambda>m. mr_chat_id m = chat \<and> mr_sender_user_id m = sender) (ob_messages ob)))) 0)
          (coalesce_i64 (sql_max (map rr_through_lamport (filter (receipt_is chat sender RECEIPT_TYPE_DELIVERED) (ob_receipts ob)))) 0))
          (coalesce_i64 (sql_max (map rr_through_lamport (filter (receipt_is chat sender RECEIPT_TYPE_READ) (ob_receipts ob)))) 0))
       (high_mark ob chat sender)"

lemma next_lamport:
  assumes "outbox_ok ob"
  shows "as_i64 (fst (next_authored_lamport ob chat sender)) = min i64_max (last_used ob chat sender + 1)"
proof -
  have ok: "i64_ok (last_used ob chat sender)"
  proof -
    have mx: "i64_ok a \<Longrightarrow> i64_ok b \<Longrightarrow> i64_ok (max a b)" for a b by (auto simp: max_def)
    show ?thesis unfolding last_used_def high_mark_def
      by (intro mx coalesce_max_ok) (use assms in \<open>auto simp: outbox_ok_iff messages_ok_def receipts_ok_def marks_ok_def\<close>)
  qed
  have "fst (next_authored_lamport ob chat sender) = as_u64 (i64_add (last_used ob chat sender) 1)"
    by (simp add: next_authored_lamport_def last_used_def high_mark_def Let_def)
  moreover have "i64_add (last_used ob chat sender) 1 = min i64_max (last_used ob chat sender + 1)"
    using ok by (auto simp: i64_add_def sat_i64_def i64_ok_def i64_bound_defs)
  moreover have "i64_ok (min i64_max (last_used ob chat sender + 1))"
    using ok by (auto simp: i64_ok_def i64_bound_defs)
  ultimately show ?thesis by simp
qed

lemma message_used: "m \<in> set (ob_messages ob) \<Longrightarrow> mr_chat_id m = chat \<Longrightarrow> mr_sender_user_id m = sender \<Longrightarrow> mr_lamport m \<le> last_used ob chat sender"
proof -
  assume "m \<in> set (ob_messages ob)" "mr_chat_id m = chat" "mr_sender_user_id m = sender"
  then have "mr_lamport m \<le> coalesce_i64 (sql_max (map mr_lamport
      (filter (\<lambda>m. mr_chat_id m = chat \<and> mr_sender_user_id m = sender) (ob_messages ob)))) 0"
    by (intro coalesce_max_ge) auto
  then show ?thesis by (simp add: last_used_def)
qed

lemma queued_used:
  "outbox_ok ob \<Longrightarrow> r \<in> set (ob_outbound ob) \<Longrightarrow> or_lamport r \<le> last_used ob (or_chat_id r) (or_sender_user_id r)"
  by (auto simp: outbox_ok_iff last_used_def le_max_iff_disj)

lemma lamport_order: "uint a \<le> i64_max \<Longrightarrow> uint b \<le> i64_max \<Longrightarrow> as_i64 a < as_i64 b \<longleftrightarrow> a < b"
  by (simp add: as_i64_small word_less_def)

lemma receipt_used:
  assumes "rc \<in> set (ob_receipts ob)" "rr_chat_id rc = chat" "rr_sender_user_id rc = sender" "rr_receipt_type rc \<in> {1, 2}"
  shows "rr_through_lamport rc \<le> last_used ob chat sender"
proof -
  have "receipt_is chat sender t rc \<Longrightarrow> rr_through_lamport rc \<le>
      coalesce_i64 (sql_max (map rr_through_lamport (filter (receipt_is chat sender t) (ob_receipts ob)))) 0" for t
    using assms(1) by (intro coalesce_max_ge) auto
  then show ?thesis using assms(2-) by (auto simp: last_used_def receipt_is_def RECEIPT_TYPE_DELIVERED_def RECEIPT_TYPE_READ_def le_max_iff_disj)
qed

lemma mark_used:
  assumes "w \<in> set (ob_watermarks ob)" "wr_chat_id w = chat" "wr_sender_user_id w = sender"
  shows "wr_high_lamport w \<le> last_used ob chat sender"
proof -
  have "wr_high_lamport w \<le> high_mark ob chat sender" unfolding high_mark_def using assms by (intro coalesce_max_ge) auto
  then show ?thesis by (simp add: last_used_def)
qed

lemma authored_rows_kept:
  assumes ok: "outbox_ok ob" and short: "length (id_user_id me) \<le> 65535" "length (ct_user_id c) \<le> 65535"
    and a: "author_pairwise_message sl ob me c kind payload reply t i = Inr (a, ob1)"
    and fresh: "i \<notin> or_msg_id ` set (ob_outbound ob)" and bound: "unat (sm_lamport (ae_message a)) < 2 ^ 63 - 1"
    and ops: "list_all short_ids ops"
    and b: "author_pairwise_message sl' (foldl outbox_step ob1 ops) me c kind' payload' reply' t' i' = Inr (b, ob2)"
  shows "(\<exists>m \<in> set (ob_messages ob1). mr_chat_id m = ct_user_id c \<and> mr_sender_user_id m = id_user_id me \<and>
      mr_lamport m = as_i64 (sm_lamport (ae_message a)) \<and> mr_payload m = payload \<and> mr_msg_id m = Some i) \<and>
    envelope_row (ae_envelope a) t \<in> set (ob_outbound ob1) \<and>
    last_used ob (ct_user_id c) (id_user_id me) < as_i64 (sm_lamport (ae_message a)) \<and>
    sm_lamport (ae_message a) < sm_lamport (ae_message b)"
proof -
  let ?L = "last_used ob (ct_user_id c) (id_user_id me)"
  from a obtain m e where me: "ae_message a = m" "ae_envelope a = e" "matching m e" "insert_authored_rows ob m e reply t = Inr ob1"
      "oe_msg_id e = i" "oe_recipient_user_id e = ct_user_id c" "sm_chat_id m = ct_user_id c" "sm_sender_user_id m = id_user_id me"
      "sm_payload m = payload" "sm_lamport m = fst (next_authored_lamport ob (ct_user_id c) (id_user_id me))"
    by (rule author_pairwise_Inr)
  note rows = inserted_rows [OF me(4)]
  have um: "uint (sm_lamport m) \<le> i64_max" using me(3) by (simp add: matching_def)
  have lt: "as_i64 (sm_lamport m) < i64_max"
  proof -
    have "int (unat (sm_lamport m)) < int (2 ^ 63 - 1)" using bound me(1) by (simp only: of_nat_less_iff)
    then show ?thesis by (simp add: as_i64_small [OF um] i64_max_def)
  qed
  with next_lamport [OF ok, of "ct_user_id c" "id_user_id me"] me(10) have L: "as_i64 (sm_lamport m) = ?L + 1" by auto
  let ?row = "message_row_of m (oe_msg_id e) reply"
  have "message_key x \<noteq> message_key ?row" if "x \<in> set (ob_messages ob)" for x
    using message_used [OF that, of "ct_user_id c" "id_user_id me"] L me(7,8) by (auto simp: message_key_def message_row_of_def)
  then have stored: "?row \<in> set (ob_messages ob1)" by (auto simp: rows(2) insert_message_def)
  have se: "short_envelope e" using me(3,6,7,8) short by (simp add: short_envelope_def matching_def)
  have "or_dedupe_key q \<noteq> or_dedupe_key (envelope_row e t) \<and> or_msg_id q \<noteq> oe_msg_id e" if q: "q \<in> set (ob_outbound ob)" for q
  proof
    show "or_msg_id q \<noteq> oe_msg_id e" using fresh me(5) imageI [OF q, of or_msg_id] by auto
    show "or_dedupe_key q \<noteq> or_dedupe_key (envelope_row e t)"
    proof
      assume eq: "or_dedupe_key q = or_dedupe_key (envelope_row e t)"
      have q_ok: "i64_ok (or_lamport q)" "or_dedupe_key q = row_key q" "length (or_chat_id q) \<le> 65535" "length (or_sender_user_id q) \<le> 65535"
        "length (or_recipient_user_id q) \<le> 65535" using ok q by (auto simp: outbox_ok_iff queue_ok_def)
      then have "or_chat_id q = oe_chat_id e \<and> or_sender_user_id q = oe_sender_user_id e \<and> or_kind q = oe_kind e \<and>
          as_u64 (or_lamport q) = oe_lamport e \<and> or_recipient_user_id q = oe_recipient_user_id e"
        using eq se by (intro dedupe_key_inject) (simp_all add: row_key_def envelope_row_def short_envelope_def)
      then have "or_lamport q = as_i64 (sm_lamport m)" "or_chat_id q = ct_user_id c" "or_sender_user_id q = id_user_id me"
        using as_i64_as_u64 [OF q_ok(1)] me(3,7,8) by (simp_all add: matching_def)
      with queued_used [OF ok q] L show False by simp
    qed
  qed
  then have "queue_outbound_row ob e t = ob\<lparr>ob_outbound := ob_outbound ob @ [envelope_row e t]\<rparr>"
    unfolding queue_outbound_row_def Let_def by (subst if_not_P) (auto simp: envelope_row_def)
  then have "envelope_row e t \<in> set (ob_outbound (queue_outbound_row ob e t))" by simp
  moreover have "\<not> superseded_by ob e (envelope_row e t)" by (simp add: superseded_by_def retire_superseded_sql_def envelope_row_def)
  ultimately have queued: "envelope_row e t \<in> set (ob_outbound ob1)" by (simp add: rows(3))
  from b obtain m' e' where mb: "ae_message b = m'" "matching m' e'"
      "sm_lamport m' = fst (next_authored_lamport (foldl outbox_step ob1 ops) (ct_user_id c) (id_user_id me))"
    by (rule author_pairwise_Inr)
  have ok1: "outbox_ok ob1" by (rule ok_inserted [OF ok me(3) se me(4)])
  have "as_i64 (sm_lamport m) \<le> high_mark ob1 (ct_user_id c) (id_user_id me)"
    using marks_climb_inserted [OF me(4,3)] me(7,8) by simp
  also have "\<dots> \<le> high_mark (foldl outbox_step ob1 ops) (ct_user_id c) (id_user_id me)"
    using run_marks [OF ok1 ops] by (simp add: marks_climb_def)
  also have "\<dots> \<le> last_used (foldl outbox_step ob1 ops) (ct_user_id c) (id_user_id me)" by (simp add: last_used_def)
  finally have "as_i64 (sm_lamport m) < as_i64 (sm_lamport m')"
    using next_lamport [OF run_ok [OF ok1 ops], of "ct_user_id c" "id_user_id me"] mb(3) lt by simp
  then have "sm_lamport m < sm_lamport m'" using lamport_order [OF um] mb(2) by (simp add: matching_def)
  with stored queued L me mb(1) show ?thesis
    by (auto simp: message_row_of_def intro!: bexI [of _ ?row])
qed

text \<open>
  Claim C4. Writing a message to a contact stores it and queues its envelope, while the counter is below the
  largest value it can hold and the random id is new: the row with the payload is in the message table and
  the envelope is in the queue for that contact and not yet posted, under a number above every number this
  person has used in the chat, as message, in a receipt or as recorded high mark. And the next message of the chat
  gets a greater number, whatever operations of \<open>outbox_op\<close> happen in between: other messages, repairs, receipts,
  pruning, even deleting the contact with everything stored about the chat. The tables keep their
  constraints, as every run of these operations from an empty store does, and ids fit 16-bit lengths.
\<close>

theorem authored_message_kept:
  assumes ok: "outbox_ok ob" and short: "length (id_user_id me) \<le> 65535" "length (ct_user_id c) \<le> 65535"
    and a: "author_pairwise_message sl ob me c kind payload reply t i = Inr (a, ob1)"
    and fresh: "i \<notin> or_msg_id ` set (ob_outbound ob)" and bound: "unat (sm_lamport (ae_message a)) < 2 ^ 63 - 1"
    and ops: "list_all short_ids ops"
    and b: "author_pairwise_message sl' (foldl outbox_step ob1 ops) me c kind' payload' reply' t' i' = Inr (b, ob2)"
  shows "(\<exists>m \<in> set (ob_messages ob1). mr_chat_id m = ct_user_id c \<and> mr_sender_user_id m = id_user_id me \<and>
      mr_lamport m = as_i64 (sm_lamport (ae_message a)) \<and> mr_payload m = payload \<and> mr_msg_id m = Some i) \<and>
    (\<exists>r \<in> set (ob_outbound ob1). or_msg_id r = i \<and> or_recipient_user_id r = ct_user_id c \<and> or_chat_id r = ct_user_id c \<and>
      or_sender_user_id r = id_user_id me \<and> or_kind r = kind \<and> or_lamport r = as_i64 (sm_lamport (ae_message a)) \<and>
      or_sealed r = oe_sealed (ae_envelope a) \<and> or_queued_at r = t \<and> or_relay_posted_at r = None) \<and>
    (\<forall>m \<in> set (ob_messages ob). mr_chat_id m = ct_user_id c \<and> mr_sender_user_id m = id_user_id me \<longrightarrow>
      mr_lamport m < as_i64 (sm_lamport (ae_message a))) \<and>
    (\<forall>rc \<in> set (ob_receipts ob). rr_chat_id rc = ct_user_id c \<and> rr_sender_user_id rc = id_user_id me \<and> rr_receipt_type rc \<in> {1, 2} \<longrightarrow>
      rr_through_lamport rc < as_i64 (sm_lamport (ae_message a))) \<and>
    (\<forall>w \<in> set (ob_watermarks ob). wr_chat_id w = ct_user_id c \<and> wr_sender_user_id w = id_user_id me \<longrightarrow>
      wr_high_lamport w < as_i64 (sm_lamport (ae_message a))) \<and>
    sm_lamport (ae_message a) < sm_lamport (ae_message b)"
proof -
  note kept = authored_rows_kept [OF ok short a fresh bound ops b]
  from a obtain m e where me: "ae_message a = m" "ae_envelope a = e" "matching m e" "oe_msg_id e = i" "oe_recipient_user_id e = ct_user_id c"
      "sm_chat_id m = ct_user_id c" "sm_sender_user_id m = id_user_id me" "sm_kind m = kind"
    by (rule author_pairwise_Inr)
  have "or_msg_id (envelope_row e t) = i \<and> or_recipient_user_id (envelope_row e t) = ct_user_id c \<and> or_chat_id (envelope_row e t) = ct_user_id c \<and>
      or_sender_user_id (envelope_row e t) = id_user_id me \<and> or_kind (envelope_row e t) = kind \<and> or_lamport (envelope_row e t) = as_i64 (sm_lamport m) \<and>
      or_sealed (envelope_row e t) = oe_sealed e \<and> or_queued_at (envelope_row e t) = t \<and> or_relay_posted_at (envelope_row e t) = None"
    using me by (simp add: envelope_row_def matching_def)
  with kept me(1,2) show ?thesis
    using message_used [of _ ob "ct_user_id c" "id_user_id me"] receipt_used [of _ ob "ct_user_id c" "id_user_id me"]
      mark_used [of _ ob "ct_user_id c" "id_user_id me"]
    by (intro conjI) (blast intro: le_less_trans)+
qed

lemma upsert_receipt_covers:
  "\<exists>r \<in> set (upsert_receipt new rows). receipt_is (rr_chat_id new) (rr_sender_user_id new) (rr_receipt_type new) r \<and>
     rr_through_lamport new \<le> rr_through_lamport r"
proof (cases "\<exists>r \<in> set rows. receipt_is (rr_chat_id new) (rr_sender_user_id new) (rr_receipt_type new) r")
  case True
  then obtain x where x: "x \<in> set rows" "receipt_is (rr_chat_id new) (rr_sender_user_id new) (rr_receipt_type new) x" by blast
  have up: "\<exists>h. upsert_receipt new rows = map h rows \<and> receipt_is (rr_chat_id new) (rr_sender_user_id new) (rr_receipt_type new) (h x) \<and>
      rr_through_lamport new \<le> rr_through_lamport (h x)"
    unfolding upsert_receipt_def Let_def if_P [OF True]
    by (intro exI conjI, rule refl) (use x(2) in \<open>simp_all add: receipt_is_def\<close>)
  then show ?thesis using x(1) by auto
qed (auto simp: upsert_receipt_def Let_def receipt_is_def)

text \<open>
  At the largest number the counter stands still and messages are lost without an error. A
  receipt that names \<open>2 ^ 63 - 1\<close> is accepted from any contact. After it two texts get the same number; the
  second is reported as written, but neither the message nor its envelope is stored.
\<close>

theorem receipt_at_bound_loses_messages:
  assumes ok: "outbox_ok ob" and short: "length (id_user_id me) \<le> 65535" "length (ct_user_id c) \<le> 65535"
    and rc: "record_receipt ob (ct_user_id c) (id_user_id me) RECEIPT_TYPE_DELIVERED (2 ^ 63 - 1) via at = Inr ob1"
    and a: "author_pairwise_message sl ob1 me c KIND_TEXT p1 r1 t1 i1 = Inr (a1, ob2)"
    and fresh: "i1 \<notin> or_msg_id ` set (ob_outbound ob1)"
    and b: "author_pairwise_message sl ob2 me c KIND_TEXT p2 r2 t2 i2 = Inr (a2, ob3)"
  shows "sm_lamport (ae_message a1) = sm_lamport (ae_message a2) \<and> ob_messages ob3 = ob_messages ob2 \<and> ob_outbound ob3 = ob_outbound ob2"
proof -
  let ?c = "ct_user_id c" and ?me = "id_user_id me"
  let ?full = "\<lambda>s. \<exists>r \<in> set (ob_receipts s). receipt_is ?c ?me RECEIPT_TYPE_DELIVERED r \<and> i64_max \<le> rr_through_lamport r"
  have top: "as_i64 (2 ^ 63 - 1) = i64_max" by (simp add: as_i64_def i64_max_def)
  have ok1: "outbox_ok ob1" by (rule ok_record_receipt [OF ok rc])
  have "\<exists>r \<in> set (ob_receipts (with_receipt ob ?c ?me RECEIPT_TYPE_DELIVERED (2 ^ 63 - 1) via)).
      receipt_is ?c ?me RECEIPT_TYPE_DELIVERED r \<and> as_i64 (2 ^ 63 - 1) \<le> rr_through_lamport r"
    using upsert_receipt_covers [of "\<lparr>rr_chat_id = ?c, rr_sender_user_id = ?me, rr_receipt_type = RECEIPT_TYPE_DELIVERED,
        rr_through_lamport = as_i64 (2 ^ 63 - 1), rr_via_transport = via\<rparr>" "ob_receipts ob"]
    by (simp add: with_receipt_def)
  then have "?full (with_receipt ob ?c ?me RECEIPT_TYPE_DELIVERED (2 ^ 63 - 1) via)" by (simp only: top)
  then have full1: "?full ob1" using record_receipt_Inr [OF rc] by (auto simp: same_mail_def covered_frame)
  have stuck: "as_i64 (fst (next_authored_lamport s ?c ?me)) = i64_max" if "outbox_ok s" "?full s" for s
  proof -
    from that(2) obtain r where r: "r \<in> set (ob_receipts s)" "receipt_is ?c ?me RECEIPT_TYPE_DELIVERED r" "i64_max \<le> rr_through_lamport r" by auto
    have "rr_through_lamport r \<le> coalesce_i64 (sql_max (map rr_through_lamport (filter (receipt_is ?c ?me RECEIPT_TYPE_DELIVERED) (ob_receipts s)))) 0"
      using r by (intro coalesce_max_ge) auto
    with r(3) have "i64_max \<le> last_used s ?c ?me" by (simp add: last_used_def)
    then show ?thesis using next_lamport [OF that(1)] by simp
  qed
  from a obtain m e where m: "ae_message a1 = m" "matching m e" "insert_authored_rows ob1 m e r1 t1 = Inr ob2" "oe_msg_id e = i1"
      "oe_recipient_user_id e = ?c" "sm_chat_id m = ?c" "sm_sender_user_id m = ?me" "sm_kind m = KIND_TEXT"
      "sm_sender_device_id m = own_authoring_device_id ob1" "sm_lamport m = fst (next_authored_lamport ob1 ?c ?me)"
    by (rule author_pairwise_Inr)
  from b obtain m' e' where m': "ae_message a2 = m'" "matching m' e'" "insert_authored_rows ob2 m' e' r2 t2 = Inr ob3"
      "oe_recipient_user_id e' = ?c" "sm_chat_id m' = ?c" "sm_sender_user_id m' = ?me" "sm_kind m' = KIND_TEXT"
      "sm_sender_device_id m' = own_authoring_device_id ob2" "sm_lamport m' = fst (next_authored_lamport ob2 ?c ?me)"
    by (rule author_pairwise_Inr)
  note rows = inserted_rows [OF m(3)] and rows' = inserted_rows [OF m'(3)]
  have plain: "\<not> superseded_by s e r" "\<not> superseded_by s e' r" for s r
    using m(2,8) m'(2,7) group_kinds_stay [of KIND_TEXT] by (auto simp: superseded_by_def matching_def)
  have l: "as_i64 (sm_lamport m) = i64_max" using stuck [OF ok1 full1] m(10) by simp
  have dev: "own_authoring_device_id ob2 = own_authoring_device_id ob1" by (simp add: own_authoring_device_id_def rows)
  have "short_envelope e" using m(2,5,6,7) short by (simp add: short_envelope_def matching_def)
  from stuck [OF ok_inserted [OF ok1 m(2) this m(3)]] full1 m'(9) have l': "as_i64 (sm_lamport m') = i64_max" by (simp add: rows)
  then have eq: "sm_lamport m' = sm_lamport m" using l by (metis as_u64_as_i64)
  let ?row = "message_row_of m (oe_msg_id e) r1" and ?row' = "message_row_of m' (oe_msg_id e') r2"
  have key: "message_key ?row' = message_key ?row" using m m' eq dev by (simp add: message_key_def message_row_of_def)
  have "\<exists>x \<in> set (ob_messages ob2). message_key x = message_key ?row" by (auto simp: rows(2) insert_message_def)
  then have msgs: "ob_messages ob3 = ob_messages ob2" by (simp add: rows'(2) insert_message_def key)
  have dk: "or_dedupe_key (envelope_row e' t2) = or_dedupe_key (envelope_row e t1)"
    using m m' eq by (simp add: envelope_row_def matching_def)
  have "\<exists>q \<in> set (ob_outbound ob2). or_dedupe_key q = or_dedupe_key (envelope_row e t1)"
  proof (cases "\<exists>q \<in> set (ob_outbound ob1). or_dedupe_key q = or_dedupe_key (envelope_row e t1)")
    case True
    then show ?thesis by (auto simp: rows(3) plain intro: queued_keeps)
  next
    case False
    moreover have "or_msg_id q \<noteq> or_msg_id (envelope_row e t1)" if "q \<in> set (ob_outbound ob1)" for q
      using fresh m(4) imageI [OF that, of or_msg_id] by (auto simp: envelope_row_def)
    ultimately have "envelope_row e t1 \<in> set (ob_outbound (queue_outbound_row ob1 e t1))"
      by (auto simp: queue_outbound_row_def Let_def)
    then show ?thesis by (auto simp: rows(3) plain)
  qed
  then have "queue_outbound_row ob2 e' t2 = ob2" by (auto simp: queue_outbound_row_def Let_def dk)
  then have "ob_outbound ob3 = ob_outbound ob2" by (simp add: rows'(3) plain)
  with msgs eq m(1) m'(1) show ?thesis by simp
qed

section \<open>A repair copy\<close>

lemma find_map: "(\<And>x. P (h x) = P x) \<Longrightarrow> List.find P (map h xs) = map_option h (List.find P xs)"
  by (induction xs) auto

definition repaired_row :: "stored_message \<Rightarrow> message_row \<Rightarrow> bool" where
  "repaired_row m x \<longleftrightarrow> mr_chat_id x = sm_chat_id m \<and> mr_sender_user_id x = sm_sender_user_id m \<and>
     mr_lamport x = as_i64 (sm_lamport m) \<and> mr_sender_device_id x = core_device_stream_id (Some (sm_sender_device_id m))"

lemma stable_id_again:
  assumes "List.find (repaired_row m) (ob_messages ob) = Some x" "mr_msg_id x \<noteq> Some []" "f \<noteq> []"
    and "stable_backfill_msg_id ob m f = (i, ob1)" "ob_messages s = ob_messages ob1"
  shows "stable_backfill_msg_id s m f' = (i, s)"
proof -
  have same: "(\<lambda>x. mr_chat_id x = sm_chat_id m \<and> mr_sender_user_id x = sm_sender_user_id m \<and>
      mr_lamport x = as_i64 (sm_lamport m) \<and> mr_sender_device_id x = core_device_stream_id (Some (sm_sender_device_id m))) = repaired_row m"
    by (intro ext) (simp add: repaired_row_def)
  note def = stable_backfill_msg_id_def [of _ m, unfolded Let_def same]
  show ?thesis
  proof (cases "mr_msg_id x")
    case None
    let ?h = "\<lambda>y. if repaired_row m y \<and> mr_msg_id y = None then y\<lparr>mr_msg_id := Some f\<rparr> else y"
    from None assms(1,4) have i: "i = f" "ob_messages ob1 = map ?h (ob_messages ob)" by (auto simp: def repaired_row_def conj_assoc)
    have "repaired_row m (?h y) = repaired_row m y" for y by (simp add: repaired_row_def)
    from find_map [of "repaired_row m" ?h, OF this] assms(1) have "List.find (repaired_row m) (ob_messages s) = Some (?h x)"
      by (simp add: assms(5) i)
    moreover have "repaired_row m x" using assms(1) by (auto simp: find_Some_iff)
    ultimately have "Option.bind (List.find (repaired_row m) (ob_messages s)) mr_msg_id = Some f" using None by simp
    then show ?thesis using assms(3) i(1) by (cases f) (simp_all add: def)
  next
    case (Some j)
    with assms(2) obtain b bs where j: "j = b # bs" by (cases j) auto
    with Some assms(1,4) have "i = j" "ob1 = ob" by (auto simp: def)
    with Some assms(1,5) j show ?thesis by (simp add: def)
  qed
qed

lemma repair_again:
  assumes ok: "outbox_ok ob" and row: "List.find (repaired_row m) (ob_messages ob) = Some x" "mr_msg_id x \<noteq> Some []" "f \<noteq> []"
    and a: "backfill_pairwise_envelope sl ob me c m reply f = Inr (a, ob1)"
    and b: "backfill_pairwise_envelope sl ob1 me c m reply f' = Inr (b, ob2)"
  shows "oe_msg_id (ae_envelope b) = oe_msg_id (ae_envelope a) \<and> ob_outbound ob2 = ob_outbound ob1 \<and>
    (supersedes_queued_generations (sm_kind m) \<or>
     covered_by_delivered_watermark (sm_lamport m) (delivered_watermark ob (ct_user_id c) (id_user_id me)) \<longrightarrow>
     ob_outbound ob1 = ob_outbound ob)"
  using a
proof (cases rule: backfill_Inr)
  case (queued r)
  show ?thesis
    using b
  proof (cases rule: backfill_Inr)
    case q: (queued r')
    have "inj_on or_dedupe_key (set (ob_outbound ob))" "or_dedupe_key r = row_key r" "or_dedupe_key r' = row_key r'"
      using ok queued(1,2) q(1) by (auto simp: outbox_ok_iff queue_ok_def distinct_map)
    moreover have "row_key r' = row_key r" using queued q by (simp add: row_key_def)
    ultimately have "r' = r" using queued(1,2) q(1) by (metis inj_onD)
    with queued q show ?thesis by simp
  next
    case (built i s e)
    with queued show ?thesis by auto
  qed
next
  case (built i s e)
  let ?s2 = "record_authored_watermark s m"
  obtain w where w: "?s2 = s\<lparr>ob_watermarks := w\<rparr>" using recorded_frame by blast
  from stable_id_frame [OF built(1)] have s: "ob_outbound s = ob_outbound ob" "ob_receipts s = ob_receipts ob" by auto
  have wm: "delivered_watermark t' chat sender = delivered_watermark ob chat sender" if "ob_receipts t' = ob_receipts ob" for t' chat sender
    by (simp add: delivered_watermark_def stored_through_def that)
  have kind: "oe_kind e = sm_kind m" "oe_lamport e = sm_lamport m" "oe_chat_id e = ct_user_id c" "oe_sender_user_id e = id_user_id me"
    using built(3,6,7) by (simp_all add: matching_def)
  let ?rejoin = "\<not> supersedes_queued_generations (sm_kind m) \<and>
      \<not> covered_by_delivered_watermark (sm_lamport m) (delivered_watermark ob (ct_user_id c) (id_user_id me))"
  have rejoin: "backfill_rejoins_the_queue t' e' \<longleftrightarrow> ?rejoin"
    if "ob_receipts t' = ob_receipts ob" "oe_kind e' = sm_kind m" "oe_lamport e' = sm_lamport m" "oe_chat_id e' = ct_user_id c"
      "oe_sender_user_id e' = id_user_id me" for t' e'
    using that by (simp add: backfill_rejoins_the_queue_def wm [OF that(1)])
  have q1: "ob_outbound ob1 = (if ?rejoin then ob_outbound (queue_outbound_row ?s2 e (sm_timestamp m)) else ob_outbound ob)"
  proof -
    have "ob_receipts ?s2 = ob_receipts ob" "ob_outbound ?s2 = ob_outbound ob" by (simp_all add: w s)
    then show ?thesis unfolding built(9) Let_def using rejoin [of ?s2 e] kind by simp
  qed
  have msgs: "ob_messages ob1 = ob_messages s" "ob_receipts ob1 = ob_receipts ob"
    unfolding built(9) Let_def by (simp_all add: w s queue_outbound_row_def Let_def)
  have kept: "ob_outbound (queue_outbound_row ob1 e' t') = ob_outbound ob1"
    if "?rejoin" "or_dedupe_key (envelope_row e' t') = or_dedupe_key (envelope_row e t0)" "oe_msg_id e' = oe_msg_id e" for e' t' t0
  proof -
    have "\<exists>q \<in> set (ob_outbound ob1). or_dedupe_key q = or_dedupe_key (envelope_row e t0) \<or> or_msg_id q = oe_msg_id e"
      using that(1) by (auto simp: q1 queue_outbound_row_def Let_def envelope_row_def)
    then show ?thesis using that by (auto simp: queue_outbound_row_def Let_def envelope_row_def)
  qed
  show ?thesis
    using b
  proof (cases rule: backfill_Inr)
    case q: (queued r)
    have "r \<notin> set (ob_outbound ob)" using built(8) q by (auto simp: built(6,7))
    with q(1) have "?rejoin \<and> r = envelope_row e (sm_timestamp m)"
      using queued_rows [of r ?s2 e "sm_timestamp m"] by (auto simp: q1 w s split: if_splits)
    with q built(2) show ?thesis by (auto simp: row_to_outbound_def envelope_row_def)
  next
    case bb: (built i' s' e')
    have id: "stable_backfill_msg_id ob1 m f' = (i, ob1)" by (rule stable_id_again [OF row built(1) msgs(1)])
    with bb(1) have i': "i' = i" "s' = ob1" by simp_all
    obtain w' where w': "record_authored_watermark ob1 m = ob1\<lparr>ob_watermarks := w'\<rparr>" using recorded_frame by blast
    have kind': "oe_kind e' = sm_kind m" "oe_lamport e' = sm_lamport m" "oe_chat_id e' = ct_user_id c" "oe_sender_user_id e' = id_user_id me"
      using bb(3,6,7) by (simp_all add: matching_def)
    have dk: "or_dedupe_key (envelope_row e' (sm_timestamp m)) = or_dedupe_key (envelope_row e (sm_timestamp m))"
      using kind kind' built(5) bb(5) by (simp add: envelope_row_def)
    have "ob_outbound (queue_outbound_row (ob1\<lparr>ob_watermarks := w'\<rparr>) e' (sm_timestamp m)) = ob_outbound (queue_outbound_row ob1 e' (sm_timestamp m))"
      by (simp add: queue_outbound_row_def Let_def)
    with kept [OF _ dk] built(4) bb(4) i' have "ob_outbound ob2 = ob_outbound ob1"
      unfolding bb(9) Let_def i'(2) w' using rejoin [of "ob1\<lparr>ob_watermarks := w'\<rparr>" e'] kind' msgs(2) by auto
    then show ?thesis using q1 built(2,4) bb(2,4) i' by auto
  qed
qed

lemma uint_as_u64: "0 \<le> v \<Longrightarrow> v \<le> i64_max \<Longrightarrow> uint (as_u64 v) = v"
  by (simp add: as_u64_def uint_word_of_int i64_max_def)

lemma watermark_covers:
  assumes "outbox_ok ob" "rc \<in> set (ob_receipts ob)" "rr_chat_id rc = chat" "rr_sender_user_id rc = sender" "rr_receipt_type rc = 1"
    and "0 < rr_through_lamport rc" "uint l \<le> rr_through_lamport rc"
  shows "covered_by_delivered_watermark l (delivered_watermark ob chat sender)"
proof -
  have keys: "inj_on (\<lambda>r. (rr_chat_id r, rr_sender_user_id r, rr_receipt_type r)) (set (ob_receipts ob))"
    and ok: "i64_ok (rr_through_lamport rc)"
    using assms(1,2) by (auto simp: outbox_ok_iff receipts_ok_def distinct_map)
  have rc: "receipt_is chat sender RECEIPT_TYPE_DELIVERED rc" using assms(3-5) by (simp add: receipt_is_def RECEIPT_TYPE_DELIVERED_def)
  then obtain x where x: "List.find (receipt_is chat sender RECEIPT_TYPE_DELIVERED) (ob_receipts ob) = Some x"
    using assms(2) by (cases "List.find (receipt_is chat sender RECEIPT_TYPE_DELIVERED) (ob_receipts ob)") (auto simp: find_None_iff)
  then have "x \<in> set (ob_receipts ob)" "receipt_is chat sender RECEIPT_TYPE_DELIVERED x" by (auto simp: find_Some_iff)
  with rc keys assms(2) have "x = rc" by (auto simp: receipt_is_def inj_on_def)
  with x assms(6) have "delivered_watermark ob chat sender = as_u64 (rr_through_lamport rc)"
    by (simp add: delivered_watermark_def stored_through_def coalesce_i64_def)
  moreover have "uint (as_u64 (rr_through_lamport rc)) = rr_through_lamport rc"
    using assms(6) ok by (intro uint_as_u64) (auto simp: i64_ok_def)
  ultimately show ?thesis using assms(6,7) by (simp add: covered_by_delivered_watermark_def word_less_def word_le_def)
qed

text \<open>
  Claim C35. Repairs of one stored message are one retransmission. When a message that is in the table is
  repaired twice, both times with success, the two envelopes have the same message id and the second repair
  leaves the queue as the first left it. A message that a delivered receipt covers, or that is an old generation of
  one of the six snapshot kinds, never comes back into the queue by a repair, so what was retired stays
  retired. Stored and random ids are not empty, and the tables keep their constraints.
\<close>

theorem repair_is_retransmission:
  assumes ok: "outbox_ok ob" and row: "List.find (repaired_row m) (ob_messages ob) = Some x" "mr_msg_id x \<noteq> Some []" "f \<noteq> []"
    and a: "backfill_pairwise_envelope sl ob me c m reply f = Inr (a, ob1)"
    and b: "backfill_pairwise_envelope sl ob1 me c m reply f' = Inr (b, ob2)"
  shows "oe_msg_id (ae_envelope b) = oe_msg_id (ae_envelope a) \<and> ob_outbound ob2 = ob_outbound ob1 \<and>
    (sm_kind m \<in> {KIND_PROFILE_SYNC, KIND_FRIEND_DIRECTORY, KIND_LAN_ENDPOINT_HINT, KIND_RELAY_UPDATE, KIND_SYNC_DIGEST, KIND_ROSTER_GOSSIP} \<or>
     (\<exists>rc \<in> set (ob_receipts ob). rr_chat_id rc = ct_user_id c \<and> rr_sender_user_id rc = id_user_id me \<and> rr_receipt_type rc = 1 \<and>
        0 < rr_through_lamport rc \<and> uint (sm_lamport m) \<le> rr_through_lamport rc) \<longrightarrow>
     ob_outbound ob1 = ob_outbound ob)"
proof -
  note again = repair_again [OF ok row a b]
  have "ob_outbound ob1 = ob_outbound ob" if "rc \<in> set (ob_receipts ob)" "rr_chat_id rc = ct_user_id c" "rr_sender_user_id rc = id_user_id me"
      "rr_receipt_type rc = 1" "0 < rr_through_lamport rc" "uint (sm_lamport m) \<le> rr_through_lamport rc" for rc
    using again watermark_covers [OF ok that] by blast
  with again show ?thesis by (auto simp: supersedes_queued_generations_def)
qed

text \<open>
  Claim C17. Over every sequence of the operations of \<open>outbox_op\<close> from empty mail tables, with ids that fit 16-bit
  lengths, the tables keep their constraints: message ids and deduplication keys of the queue are unique
  and a key is the one its row calls for, a number is stored once per chat, person and device, there is one
  receipt row per kind and one counter per chat, all numbers fit 64 bits, and the counter of a chat is at or
  above everything queued in it. Received messages and restored backups are not among the operations.
\<close>

theorem mail_tables_consistent:
  assumes "list_all short_ids ops" "ob_outbound ob = []" "ob_messages ob = []" "ob_receipts ob = []" "ob_watermarks ob = []"
  shows "outbox_ok (foldl outbox_step ob ops)"
  by (rule run_ok) (use assms in \<open>simp_all add: outbox_ok_iff queue_ok_def messages_ok_def receipts_ok_def marks_ok_def\<close>)

section \<open>Witnesses\<close>

definition mail_sealing :: sealing where
  "mail_sealing = \<lparr>sl_crypto = sample_crypto, sl_seal_message = (\<lambda>_ _ body. Inr body), sl_seal_group_message = (\<lambda>_ _ body. Inr body)\<rparr>"

definition mail_me :: identity where
  "mail_me = \<lparr>id_user_id = [1], id_sign_pk = [], id_sign_sk = [], id_agree_pk = [], id_agree_sk = []\<rparr>"

definition mail_friend :: contact where
  "mail_friend = \<lparr>ct_user_id = [2], ct_name = [], ct_sign_pk = [], ct_agree_pk = [], ct_relay_url = None, ct_relay_token = None,
     ct_nickname = None\<rparr>"

definition empty_mail :: outbox where
  "empty_mail = \<lparr>ob_contacts = [new_entry mail_friend], ob_blocked = [], ob_introduced = [], ob_groups = [], ob_members = [], ob_messages = [],
     ob_receipts = [], ob_watermarks = [], ob_outbound = [], ob_outgoing = [], ob_receipt_envelopes = [], ob_settings = [],
     ob_events = [], ob_summaries = [], ob_own_device = None, ob_stage = NotLinking\<rparr>"

text \<open>Nothing stands in the way of a plain text on a device that is not being linked.\<close>

definition plain_state :: "outbox \<Rightarrow> bool" where
  "plain_state ob \<longleftrightarrow> ob_stage ob = NotLinking \<and> ob_settings ob = [] \<and> ob_own_device ob = None"

lemma gate_open: "plain_state ob \<Longrightarrow> guard_link_gate ob Author = Inr ()"
  by (simp add: plain_state_def guard_link_gate_def link_gate_def core_link_activation_gate_def)

lemma zero_le_i64_max: "0 \<le> i64_max" by (simp add: i64_max_def)

lemma text_encodes:
  assumes "uint (sm_lamport m) \<le> i64_max" "sm_kind m = KIND_TEXT" "sm_sender_device_id m = LEGACY_DEVICE_ID"
    "length w \<le> 65535" "length (sm_payload m) \<le> 4294967295"
  shows "\<exists>b. encoded_body m w None = Inr b"
  using assms by (simp add: encoded_body_def wire_device_id_def Let_def encode_message_body_def validate_message_body_fields_def kind_defs)

lemma text_inserts:
  assumes "plain_state ob"
  shows "\<exists>ob'. insert_authored_rows ob m e reply t = Inr ob' \<and> plain_state ob'"
proof -
  obtain w where w: "record_authored_watermark ob m = ob\<lparr>ob_watermarks := w\<rparr>" using recorded_frame by blast
  have "clear_chat_draft s chat t = Inr s" if "ob_settings s = []" for s chat
    using that by (simp add: clear_chat_draft_def setting_def Let_def)
  then show ?thesis
    using assms by (auto simp: insert_authored_rows_def w Let_def plain_state_def insert_message_def queue_outbound_row_def
        retire_superseded_def delete_outbound_def)
qed

lemma legacy_device: "plain_state ob \<Longrightarrow> own_authoring_device_id ob = LEGACY_DEVICE_ID"
  by (simp add: plain_state_def own_authoring_device_id_def core_device_stream_id_def)

lemma text_written:
  assumes "plain_state ob" "outbox_ok ob" "0 \<le> last_used ob [2] [1]" "length p \<le> 4294967295"
  shows "\<exists>a ob'. author_pairwise_message mail_sealing ob mail_me mail_friend KIND_TEXT p None t i = Inr (a, ob') \<and>
    plain_state ob' \<and> sm_lamport (ae_message a) = fst (next_authored_lamport ob [2] [1])"
proof -
  let ?l = "fst (next_authored_lamport ob [2] [1])"
  let ?m = "pairwise_message ob mail_me [2] KIND_TEXT p ?l t"
  have l: "as_i64 ?l = min i64_max (last_used ob [2] [1] + 1)" by (rule next_lamport [OF assms(2)])
  have "?l = as_u64 (as_i64 ?l)" by (rule as_u64_as_i64 [symmetric])
  then have "uint ?l = min i64_max (last_used ob [2] [1] + 1)" using assms(3) unfolding l by (metis uint_as_u64 min.cobounded1 min_def zero_le_i64_max add_nonneg_nonneg zero_le_one)
  then have u: "uint ?l \<le> i64_max" by simp
  obtain body where "encoded_body ?m [1] None = Inr body"
    using text_encodes [of ?m "[1]"] u assms(4) legacy_device [OF assms(1)] by (auto simp: pairwise_message_def)
  then obtain e where e: "build_pairwise_envelope mail_sealing mail_me mail_friend ?m None t i (authored_expiry KIND_TEXT t) = Inr e"
    by (auto simp: build_pairwise_envelope_def mail_sealing_def mail_me_def)
  from text_inserts [OF assms(1), of ?m e None t] obtain ob' where "insert_authored_rows ob ?m e None t = Inr ob'" "plain_state ob'" by blast
  with e show ?thesis
    by (auto simp: author_pairwise_message_def gate_open [OF assms(1)] is_pairwise_kind_def Let_def case_prod_beta mail_friend_def mail_me_def
        authored_def pairwise_message_def)
qed

lemma empty_mail_ok [simp]: "plain_state empty_mail" "outbox_ok empty_mail" "last_used empty_mail [2] [1] = 0"
  by (simp_all add: empty_mail_def plain_state_def outbox_ok_iff queue_ok_def messages_ok_def receipts_ok_def marks_ok_def
      last_used_def high_mark_def sql_max_def coalesce_i64_def)

lemma mail_ids [simp]: "ct_user_id mail_friend = [2]" "id_user_id mail_me = [1]"
  by (simp_all add: mail_friend_def mail_me_def)

lemma used_after_writing:
  assumes "plain_state ob" "outbox_ok ob" "author_pairwise_message mail_sealing ob mail_me mail_friend KIND_TEXT [104] None 1000 i = Inr (a, ob1)"
    "list_all short_ids ops"
  shows "outbox_ok (foldl outbox_step ob1 ops)" "0 \<le> last_used (foldl outbox_step ob1 ops) [2] [1]"
proof -
  from assms(3) obtain m e where me: "matching m e" "insert_authored_rows ob m e None 1000 = Inr ob1" "oe_recipient_user_id e = [2]"
      "sm_chat_id m = [2]" "sm_sender_user_id m = [1]" by (rule author_pairwise_Inr) simp
  have ok1: "outbox_ok ob1" using me by (intro ok_inserted [OF assms(2) me(1) _ me(2)]) (simp add: short_envelope_def matching_def)
  then show "outbox_ok (foldl outbox_step ob1 ops)" using assms(4) by (rule run_ok)
  have "0 \<le> as_i64 (sm_lamport m)" by (rule matching_lamport [OF me(1)])
  also have "\<dots> \<le> high_mark ob1 [2] [1]" using marks_climb_inserted [OF me(2,1)] me(4,5) by simp
  also have "\<dots> \<le> high_mark (foldl outbox_step ob1 ops) [2] [1]" using run_marks [OF ok1 assms(4)] by (simp add: marks_climb_def)
  finally show "0 \<le> last_used (foldl outbox_step ob1 ops) [2] [1]" by (simp add: last_used_def)
qed

lemma plain_after_delete: "plain_state ob \<Longrightarrow> plain_state (outbox_step ob (DeleteContact u))"
  by (simp add: plain_state_def delete_contact_def purge_chat_def Let_def)

theorem authored_message_kept_witness:
  "\<exists>a ob1 b ob2. author_pairwise_message mail_sealing empty_mail mail_me mail_friend KIND_TEXT [104] None 1000 [9] = Inr (a, ob1) \<and>
     author_pairwise_message mail_sealing (foldl outbox_step ob1 [DeleteContact [2]]) mail_me mail_friend KIND_TEXT [104] None 1000 [8] = Inr (b, ob2) \<and>
     sm_lamport (ae_message a) < sm_lamport (ae_message b)"
proof -
  obtain a ob1 where a: "author_pairwise_message mail_sealing empty_mail mail_me mail_friend KIND_TEXT [104] None 1000 [9] = Inr (a, ob1)"
    "plain_state ob1" "sm_lamport (ae_message a) = fst (next_authored_lamport empty_mail [2] [1])"
    using text_written [of empty_mail "[104]" 1000 "[9]"] by auto
  note after = used_after_writing [OF _ _ a(1), of "[DeleteContact [2]]"]
  obtain b ob2 where b: "author_pairwise_message mail_sealing (foldl outbox_step ob1 [DeleteContact [2]]) mail_me mail_friend KIND_TEXT [104] None 1000 [8] = Inr (b, ob2)"
    using text_written [of "foldl outbox_step ob1 [DeleteContact [2]]" "[104]" 1000 "[8]"] after plain_after_delete [OF a(2)] by auto
  have "as_i64 (sm_lamport (ae_message a)) = 1" using next_lamport [of empty_mail "[2]" "[1]"] a(3) by (simp add: i64_max_def)
  then have "sm_lamport (ae_message a) = 1" by (metis as_u64_as_i64 as_u64_def of_int_1)
  then have "unat (sm_lamport (ae_message a)) < 2 ^ 63 - 1" by simp
  with authored_message_kept [OF empty_mail_ok(2) _ _ a(1) _ _ _ b] a(1) b show ?thesis
    by (auto simp: empty_mail_def)
qed

definition covered_row :: outbound_row where
  "covered_row = \<lparr>or_dedupe_key = outbound_message_dedupe_key [2] [1] KIND_TEXT 1 [2], or_msg_id = [9], or_recipient_user_id = [2],
     or_chat_id = [2], or_sender_user_id = [1], or_kind = KIND_TEXT, or_lamport = 1, or_timestamp = 1000, or_hop_ttl = 3,
     or_expiry = 100000, or_recipient_hint = [], or_sealed = [], or_queued_at = 1000, or_relay_posted_at = Some 1500\<rparr>"

definition covered_mail :: outbox where
  "covered_mail = empty_mail\<lparr>ob_outbound := [covered_row],
     ob_messages := [\<lparr>mr_chat_id = [2], mr_sender_user_id = [1], mr_sender_device_id = [], mr_lamport = 1, mr_timestamp = 1000,
       mr_kind = KIND_TEXT, mr_payload = [104], mr_msg_id = Some [9], mr_reply_to_msg_id = None\<rparr>],
     ob_receipts := [\<lparr>rr_chat_id = [2], rr_sender_user_id = [1], rr_receipt_type = RECEIPT_TYPE_DELIVERED, rr_through_lamport = 4,
       rr_via_transport = None\<rparr>],
     ob_watermarks := [\<lparr>wr_chat_id = [2], wr_sender_user_id = [1], wr_high_lamport = 1\<rparr>]\<rparr>"

lemma covered_mail_ok: "outbox_ok covered_mail"
  by (simp add: covered_mail_def covered_row_def empty_mail_def outbox_ok_iff queue_ok_def messages_ok_def receipts_ok_def marks_ok_def
      row_key_def as_u64_def i64_ok_def i64_min_def i64_max_def high_mark_def sql_max_def coalesce_i64_def)

lemma covered_mail_swept: "ob_outbound (outbox_step covered_mail Sweep) = []"
  by (simp add: covered_mail_def covered_row_def empty_mail_def sweep_receipt_covered_def retire_receipt_covered_def delete_outbound_def
      retire_covered_sql_def is_contact_def is_group_def has_message_def as_i64_def as_u64_def new_entry_def mail_friend_def)

theorem queued_mail_kept_witness:
  "ob_outbound (outbox_step covered_mail Sweep) = [] \<and> receipt_covers (outbox_step covered_mail Sweep) covered_row"
proof -
  have row: "covered_row \<in> set (ob_outbound covered_mail)" by (simp add: covered_mail_def)
  from queued_mail_kept [OF covered_mail_ok _ row, of Sweep] covered_mail_swept show ?thesis
    by (auto simp: still_queued_def may_leave_def newer_generation_def)
qed

lemma top_receipt:
  "record_receipt empty_mail [2] [1] RECEIPT_TYPE_DELIVERED (2 ^ 63 - 1) None None =
     Inr (with_receipt empty_mail [2] [1] RECEIPT_TYPE_DELIVERED (2 ^ 63 - 1) None)"
  by (simp add: record_receipt_def validate_receipt_watermark_def validate_sqlite_u64_def with_receipt_def Let_def
      retire_receipt_covered_def delete_outbound_def empty_mail_def RECEIPT_TYPE_DELIVERED_def i64_max_def)

theorem receipt_at_bound_loses_messages_witness:
  "\<exists>ob1 a1 ob2 a2 ob3. record_receipt empty_mail [2] [1] RECEIPT_TYPE_DELIVERED (2 ^ 63 - 1) None None = Inr ob1 \<and>
     author_pairwise_message mail_sealing ob1 mail_me mail_friend KIND_TEXT [104] None 1000 [9] = Inr (a1, ob2) \<and>
     author_pairwise_message mail_sealing ob2 mail_me mail_friend KIND_TEXT [105] None 2000 [8] = Inr (a2, ob3) \<and>
     ob_messages ob3 = ob_messages ob2"
proof -
  let ?ob1 = "with_receipt empty_mail [2] [1] RECEIPT_TYPE_DELIVERED (2 ^ 63 - 1) None"
  have plain: "plain_state ?ob1" "ob_outbound ?ob1 = []" by (simp_all add: with_receipt_def plain_state_def empty_mail_def)
  have used: "0 \<le> last_used ?ob1 [2] [1]"
    by (simp add: last_used_def with_receipt_def empty_mail_def high_mark_def coalesce_i64_def sql_max_def le_max_iff_disj)
  have ok1: "outbox_ok ?ob1" by (rule ok_record_receipt [OF _ top_receipt]) simp
  obtain a1 ob2 where a: "author_pairwise_message mail_sealing ?ob1 mail_me mail_friend KIND_TEXT [104] None 1000 [9] = Inr (a1, ob2)"
      "plain_state ob2" using text_written [OF plain(1) ok1 used, of "[104]" 1000 "[9]"] by auto
  from used_after_writing [OF plain(1) ok1 a(1), of "[]"] have "outbox_ok ob2" "0 \<le> last_used ob2 [2] [1]" by simp_all
  then obtain a2 ob3 where b: "author_pairwise_message mail_sealing ob2 mail_me mail_friend KIND_TEXT [105] None 2000 [8] = Inr (a2, ob3)"
    using text_written [OF a(2), of "[105]" 2000 "[8]"] by auto
  from receipt_at_bound_loses_messages [OF empty_mail_ok(2) _ _ _ a(1) _ b, of None None] top_receipt a(1) b plain(2) show ?thesis by auto
qed

theorem mail_tables_consistent_witness:
  "outbox_ok (foldl outbox_step empty_mail [AuthorPairwise mail_sealing mail_me mail_friend KIND_TEXT [104] None 1000 [9], MarkPosted [9] 2000,
     RecordReceipt [2] [1] RECEIPT_TYPE_DELIVERED 1 None (Some 3000), DeleteContact [2]])"
  by (rule mail_tables_consistent) (simp_all add: empty_mail_def)

definition old_text :: stored_message where
  "old_text = \<lparr>sm_chat_id = [2], sm_sender_user_id = [1], sm_lamport = 1, sm_timestamp = 1000, sm_kind = KIND_TEXT, sm_payload = [104],
     sm_sender_device_id = LEGACY_DEVICE_ID\<rparr>"

definition old_mail :: outbox where
  "old_mail = empty_mail\<lparr>ob_messages := [\<lparr>mr_chat_id = [2], mr_sender_user_id = [1],
     mr_sender_device_id = core_device_stream_id (Some LEGACY_DEVICE_ID), mr_lamport = 1, mr_timestamp = 1000,
     mr_kind = KIND_TEXT, mr_payload = [104], mr_msg_id = None, mr_reply_to_msg_id = None\<rparr>]\<rparr>"

lemma old_mail_ok: "outbox_ok old_mail" "plain_state old_mail"
  by (simp_all add: old_mail_def empty_mail_def plain_state_def outbox_ok_iff queue_ok_def messages_ok_def receipts_ok_def marks_ok_def
      i64_ok_def i64_min_def i64_max_def)

lemma text_repaired:
  assumes "plain_state ob"
  shows "\<exists>a ob'. backfill_pairwise_envelope mail_sealing ob mail_me mail_friend old_text None i = Inr (a, ob') \<and> plain_state ob'"
proof -
  have "\<exists>b. encoded_body old_text [1] None = Inr b"
    by (rule text_encodes) (simp_all add: old_text_def i64_max_def)
  then obtain body where "encoded_body old_text [1] None = Inr body" by auto
  then have "\<exists>e. build_pairwise_envelope mail_sealing mail_me mail_friend old_text None (sm_timestamp old_text) j x = Inr e" for j x
    by (auto simp: build_pairwise_envelope_def mail_sealing_def mail_me_def)
  then obtain e where e: "build_pairwise_envelope mail_sealing mail_me mail_friend old_text None (sm_timestamp old_text) j x = Inr (e j x)" for j x
    by metis
  have stable: "plain_state (snd (stable_backfill_msg_id ob old_text i))"
    using assms by (auto simp: stable_backfill_msg_id_def Let_def plain_state_def split: option.split list.split)
  have mark: "plain_state (record_authored_watermark s m) = plain_state s" for s m
    by (simp add: record_authored_watermark_def plain_state_def Let_def)
  have queue: "plain_state (queue_outbound_row s v t) = plain_state s" for s v t
    by (simp add: queue_outbound_row_def plain_state_def Let_def)
  have "is_pairwise_kind (sm_kind old_text)" "sm_chat_id old_text = [2]" "sm_sender_user_id old_text = [1]"
    by (simp_all add: old_text_def is_pairwise_kind_def)
  then show ?thesis
    using assms stable by (auto simp: backfill_pairwise_envelope_def gate_open e Let_def case_prod_beta mark queue split: option.split)
qed

theorem repair_is_retransmission_witness:
  "\<exists>a ob1 b ob2. backfill_pairwise_envelope mail_sealing old_mail mail_me mail_friend old_text None [7] = Inr (a, ob1) \<and>
     backfill_pairwise_envelope mail_sealing ob1 mail_me mail_friend old_text None [6] = Inr (b, ob2) \<and>
     oe_msg_id (ae_envelope b) = oe_msg_id (ae_envelope a) \<and> ob_outbound ob2 = ob_outbound ob1"
proof -
  obtain a ob1 where a: "backfill_pairwise_envelope mail_sealing old_mail mail_me mail_friend old_text None [7] = Inr (a, ob1)" "plain_state ob1"
    using text_repaired [OF old_mail_ok(2)] by blast
  obtain b ob2 where b: "backfill_pairwise_envelope mail_sealing ob1 mail_me mail_friend old_text None [6] = Inr (b, ob2)"
    using text_repaired [OF a(2)] by blast
  obtain x where "List.find (repaired_row old_text) (ob_messages old_mail) = Some x" "mr_msg_id x = None"
    by (simp add: old_mail_def old_text_def repaired_row_def as_i64_def)
  with repair_is_retransmission [OF old_mail_ok(1) _ _ _ a(1) b] a(1) b show ?thesis by auto
qed

end
