(* ===== verification/Spec2Isabelle.thy ===== *)
theory Spec2Isabelle
  imports Seen_Ids Chunk_Bitmap Roster_Store Own_Devices Mesh_Router Link_Trackers Spray_Policy Sync_Stream
    Relay_Sweep Relay_Wire Authoring
begin

text \<open>
  \<^bold>\<open>A verification development for the CruiseMesh core\<close>

  CruiseMesh is an off-grid messenger. Its Rust core (\<open>core/src\<close>) holds everything the phone and
  desktop shells share: identities and device rosters, message and sync formats, the store, and
  the policies that decide which link carries what. The shells feed it bytes, clock readings and
  link events and act on its answers; the core itself does no I/O outside its SQLite file. The
  development translates components of the core into HOL and proves what makes each correct.

  \<^bold>\<open>Parts and theories\<close>

  \<^descr> \<open>Mesh_Prelude\<close>: machine integers (words; \<open>i64\<close> time stamps as integers with the saturating
    operations of the code), errors as values (\<open>CoreError\<close>), big-endian integers, the bounds-checked
    cursor of all decoders, and the interfaces as locales: \<open>cursor_codec\<close> and \<open>prefix_code\<close> for wire
    formats, \<open>machine_inv\<close>, \<open>machine_mono\<close> and \<open>keyed_machine\<close> for stateful components.
  \<^descr> \<open>Ble_Framing\<close> (\<open>framing.rs\<close>, \<open>limits.rs\<close>): fragments of a frame on a BLE link and their
    reassembly. Every accepted frame comes out whole, and whatever arrives, only whole runs of
    fragments are delivered.
  \<^descr> \<open>Seen_Ids\<close> (\<open>gossip.rs\<close>): the bounded first-in-first-out set behind the flood. Exactly-once
    answers within capacity, retention, and the invariant of the two structures.
  \<^descr> \<open>Timeline\<close> (\<open>causal_order.rs\<close>, \<open>late_arrival.rs\<close>): display order of own messages and the marks of
    messages that arrived late, against a quadratic specification.
  \<^descr> \<open>Chunk_Bitmap\<close> (\<open>media/bitmap.rs\<close>): which chunks of a media blob are present; persistence, merge,
    the resume planner, and that rounds of fetching complete a transfer.
  \<^descr> \<open>Device_Roster\<close> (\<open>device_roster.rs\<close>, parts of \<open>identity.rs\<close> and \<open>crypto.rs\<close>): device keys,
    certificates, rosters, their signed bytes and their wire codec. Ed25519 and BLAKE2b are not in
    the repository: they are the fields of a record \<open>crypto\<close> that every definition using them takes,
    and what is needed of them (digest widths, that a signature verifies) are named hypotheses,
    instantiated by a concrete record in the witnesses.
  \<^descr> \<open>Roster_Validation\<close>: \<open>validate\<close> with its vouching loop, equivalent to a declarative notion of a
    valid roster in which certificate chains to the person root are an inductive relation.
  \<^descr> \<open>Roster_Acceptance\<close>: \<open>core_roster_accept\<close>, and what a device ever holds about a person over any
    sequence of arrivals: versions never fall, buried devices stay buried, forks quarantine, and
    only the person or a root-signed recovery lifts a quarantine.
  \<^descr> \<open>Roster_Store\<close> (\<open>roster_store.rs\<close>, \<open>contact_safety.rs\<close>, \<open>apply_contact_roster\<close> of \<open>store.rs\<close>): the
    tables as rows, saving and loading, safety facts, and that applying a gossiped roster refines
    the abstract transition of \<open>Roster_Acceptance\<close>.
  \<^descr> \<open>Own_Devices\<close>: this person's own fleet, the clone guard and the LAN proof between own devices.
  \<^descr> \<open>Wire_Kinds\<close> (tables of \<open>protocol.rs\<close>): message kinds and capability bits.
  \<^descr> \<open>Mesh_Router\<close> (\<open>CoreMeshRouterState\<close> of \<open>transport_policy.rs\<close>): links, handshakes, the election of
    one route per peer, epidemic fanout, the carry walk with its cooldown, and the digest cadence.
    Its hash map is an association list whose order is the map's iteration order; the theorems show
    that no answer depends on it.
  \<^descr> \<open>Link_Trackers\<close> (same file): the offer gate, reconnect backoff, LAN heartbeat and failover debounce.
  \<^descr> \<open>Spray_Policy\<close> (\<open>spray_policy.rs\<close>): how often a peer may be sprayed, the byte bucket of a link and the
    suppression of repeated offers. Bounded bytes over any stretch of time, refusals that end, a cadence
    reconnects cannot raise, and the suppression against the log of all offers.
  \<^descr> \<open>Sync_Stream\<close> (\<open>sync_stream.rs\<close>, tables of \<open>sync_record.rs\<close>): anti-entropy between own devices:
    the digest codec, gaps, and the planner, whose every round advances the receiver's watermark.
  \<^descr> \<open>Relay_Mailbox\<close> (\<open>RelayStore\<close> and the routes of \<open>relayd/src/lib.rs\<close>): the relay daemon's tables of
    envelopes, presence and push registrations. What a message id means while the token stays, the quota and the
    deposit shares over every run, and what a fetch page holds.
  \<^descr> \<open>Relay_Cursor\<close> (\<open>relay_cursor.rs\<close>, the cursor table of \<open>store.rs\<close>, the walk of
    \<open>session/relay_pass.rs\<close>): how a client walks a mailbox in bounded passes. When a cursor moves,
    that a pass ends, when a sweep is due, and, against the interface \<open>paged_mailbox\<close>, that a sweep ends.
  \<^descr> \<open>Relay_Sweep\<close>: the daemon's fetch route provides \<open>paged_mailbox\<close>, so client and daemon together
    complete every sweep and present every envelope on the way.
  \<^descr> \<open>Relay_Families\<close> (families of \<open>relayd/src/lib.rs\<close>): who may use a mailbox. Provisioning and
    administration, authorization, the state of a pass, and the rotation of a family's token: the
    credentials stay unambiguous over every run, a registered rotation key is for good, a rotation
    keeps the mail, and a post in flight across one is stranded.
  \<^descr> \<open>Utf8_Text\<close>: what the code uses of Rust's \<open>str\<close> and \<open>IpAddr\<close>: UTF-8 validation, trimming,
    splitting, and the parser of address literals.
  \<^descr> \<open>Relay_Endpoints\<close> (routing half of \<open>relay_wire.rs\<close>): which URL and token a post, a poll or a group
    fan-out uses. An endpoint is \<open>https\<close>, or \<open>http\<close> to a host the code takes for local, and a post
    reaches the contact's own mailbox.
  \<^descr> \<open>Relay_Wire\<close> (codecs of \<open>relay_wire.rs\<close>, \<open>json_fault.rs\<close>, the answers of \<open>relayd/src/lib.rs\<close>): request
    bodies, fetch pages and faults. What the daemon serves the phone decodes, whatever is decoded is
    well formed, and the rotation the phone signs is the one the daemon honours.
  \<^descr> \<open>Link_Frames\<close> (frames of \<open>protocol.rs\<close>): the frames two phones exchange on a link, the rule which
    hosts a LAN hint may name, and the header ids. The parser accepts exactly the well-formed frames.
  \<^descr> \<open>Message_Bodies\<close> (bodies of \<open>protocol.rs\<close>, \<open>content.rs\<close>): what a sealed envelope carries: texts with
    their extensions, receipts, profiles, relay and LAN notices. Round trips, tolerance of unknown
    extensions, and that a relay notice never hands out a member credential.
  \<^descr> \<open>Json_Fault\<close> (\<open>json_fault.rs\<close>): the words for a JSON error, which never quote the document.
  \<^descr> \<open>Friend_Cards\<close> (\<open>identity.rs\<close>, \<open>relay_setup.rs\<close>): what people show each other: friend cards in their JSON
    and four link forms, shared contact codes, friend requests and relay setup cards. No card is
    imported with a bad signature, one's own card arrives as it was made, and what a signature commits to.
  \<^descr> \<open>Relay_Health\<close> (\<open>relay_status.rs\<close>, \<open>contact_relay_health.rs\<close>, \<open>session/relay_policy.rs\<close>): what a relay's
    refusal means and how a phone behaves after one: when an endpoint is rested and probed again, the
    pacing of requests and the quiet windows of a refused family, all with their bounds.
  \<^descr> \<open>Contact_Relay\<close> (the contacts table of \<open>store.rs\<close>, the evidence of \<open>session/relay_pass.rs\<close>): where mail for
    a contact is posted. Who can move an endpoint, that no notice pins it, that mail follows a move.
  \<^descr> \<open>Connection_Health\<close> (\<open>connection_health.rs\<close>): what the screens say: the connection card, the groups
    of people and the delivery line of waiting mail, each justified by the evidence it is given.
  \<^descr> \<open>Group_State\<close> (\<open>groups.rs\<close> without its ciphers): groups, their invites and metadata updates. Phones
    that receive the same updates in any order agree, with two exceptions proved beside it.
  \<^descr> \<open>Outbound_Queue\<close> (the mail tables of \<open>store.rs\<close>, \<open>outbound_retirement.rs\<close>, the gate of \<open>activation.rs\<close>): the
    queue of sealed envelopes, the rules that retire one, receipts, and what the uploader draws. The draw is
    fair between recipients: an unreachable one cannot starve the rest.
  \<^descr> \<open>Authoring\<close> (\<open>authoring.rs\<close>, the draft of \<open>sync_outbound.rs\<close>): writing a message or a receipt in one
    transaction, and the repair copy for a peer with a gap. Over every run of the operations on these tables:
    why a queued envelope ever leaves, that numbers are never reused, that a repair is a retransmission;
    and the one receipt after which new messages are lost.

  \<^bold>\<open>How the parts interact\<close>

  Roster gossip arrives over a link the router elected, is decoded by \<open>Device_Roster\<close>, validated,
  accepted and stored by the three theories above it, and raises safety facts. The router asks
  \<open>Wire_Kinds\<close> which hidden kinds a peer acknowledges. Sync plans compare the roster version
  (\<open>roster_version\<close> of \<open>Device_Roster\<close>) a record was sealed for. The fleet of \<open>Own_Devices\<close> decides
  which LAN links become the own-device links that the router never routes over. A phone without a
  direct link posts to and sweeps a family mailbox: \<open>Relay_Families\<close> decides whether the daemon
  lets it, \<open>Relay_Mailbox\<close> what it stores and answers, \<open>Relay_Cursor\<close> what the phone does with a page.
  Which mailbox that is comes from a card (\<open>Friend_Cards\<close>) or a relay notice (\<open>Message_Bodies\<close>) through the
  contacts table (\<open>Contact_Relay\<close>), whose streaks \<open>Relay_Health\<close> reads to decide whether to try it;
  \<open>Connection_Health\<close> turns the same evidence into words. What \<open>Authoring\<close> writes waits in \<open>Outbound_Queue\<close>
  until the uploader has posted it and a receipt (\<open>Message_Bodies\<close>) covers it, or it expires.

  \<^bold>\<open>Conventions\<close>

  Definitions keep the names of the source where HOL allows it; a loop body or closure that the code
  writes inline has a name of its own. Errors are \<open>Inl\<close>, results \<open>Inr\<close>. Methods behind a mutex are
  functions from state to state, and a concurrent history is a sequence of them. Loops are structural
  recursions or folds; \<open>vouch_loop\<close> and the bitmap scans have termination proofs, so there is no fuel
  anywhere. Counters keep their width: where a property needs that a 64-bit counter has not wrapped,
  it says so as a bound on the length of the run (\<open>2 ^ 64\<close> connections, \<open>2 ^ 63\<close> reservations).

  \<^bold>\<open>Not modelled\<close>

  The cryptographic primitives and randomness; SQLite itself and the part of \<open>store.rs\<close> that receives mail,
  carries it for others and keeps attachments; the
  shells (Android, iOS, desktop) and the build and test tooling; of the relay daemon, its rate limits,
  web sockets, push delivery and HTTP service; JSON and QR formats; the drivers in \<open>session/\<close> and \<open>engine.rs\<close> that sequence the components, whose effects are
  network and database calls.
\<close>

end
